(* ===== verification/Prelude.thy ===== *)
theory Prelude
  imports Main "HOL-Library.Word"
begin

text \<open>
  Shared vocabulary of the development: the integer types of \<open>arch/cc.h\<close>, the error
  codes of \<open>lwip/err.h\<close>, C integer conversions on mathematical integers, byte access
  and the lemma collections used by the component theories.
\<close>

unbundle bit_operations_syntax

section \<open>Integer types of the port (arch/cc.h)\<close>

type_synonym u8_t = "8 word"
type_synonym s8_t = "8 word"
type_synonym u16_t = "16 word"
type_synonym u32_t = "32 word"

lemma unat_byte: "unat (b :: u8_t) < 256"
  using unsigned_less [of b, where ?'a = nat] by simp

lemma unat_u16: "unat (w :: u16_t) < 65536"
  using unsigned_less [of w, where ?'a = nat] by simp

lemma unat_u32: "unat (w :: u32_t) < 4294967296"
  using unsigned_less [of w, where ?'a = nat] by simp

lemma disjunct_or:
  "(x :: 'a::len word) AND y = 0 \<Longrightarrow> x OR y = x + y"
  by (simp add: disjunctive_add_eq_or)

lemma unat_of_nat_u16: "unat (of_nat n :: u16_t) = n mod 65536"
  by (simp add: unsigned_of_nat take_bit_eq_mod)

lemma unat_of_nat_u32: "unat (of_nat n :: u32_t) = n mod 4294967296"
  by (simp add: unsigned_of_nat take_bit_eq_mod)

section \<open>Error codes (lwip/err.h)\<close>

datatype err_t = ERR_OK | ERR_MEM | ERR_BUF | ERR_TIMEOUT | ERR_RTE | ERR_INPROGRESS
  | ERR_VAL | ERR_WOULDBLOCK | ERR_USE | ERR_ISCONN | ERR_ABRT | ERR_RST | ERR_CLSD
  | ERR_CONN | ERR_ARG | ERR_IF

section \<open>C integer conversions on mathematical integers\<close>

text \<open>
  Components whose proofs are about sizes and offsets keep their unsigned C integers as
  \<open>int\<close> and write every narrowing conversion out: \<open>c_u8\<close>, \<open>c_u16\<close> and
  \<open>c_u32\<close> are the conversions to the unsigned types of 8, 16 and 32 bits.
\<close>

definition c_u8 :: "int \<Rightarrow> int" where "c_u8 x = x mod 256"

definition c_u16 :: "int \<Rightarrow> int" where "c_u16 x = x mod 65536"

definition c_u32 :: "int \<Rightarrow> int" where "c_u32 x = x mod 4294967296"

named_theorems c_conv \<open>conversions that do nothing in range\<close>

lemma c_u8_id [c_conv]: "0 \<le> x \<Longrightarrow> x < 256 \<Longrightarrow> c_u8 x = x"
  by (simp add: c_u8_def)

lemma c_u16_id [c_conv]: "0 \<le> x \<Longrightarrow> x < 65536 \<Longrightarrow> c_u16 x = x"
  by (simp add: c_u16_def)

lemma c_u32_id [c_conv]: "0 \<le> x \<Longrightarrow> x < 4294967296 \<Longrightarrow> c_u32 x = x"
  by (simp add: c_u32_def)

lemma c_u8_range [simp]: "0 \<le> c_u8 x" "c_u8 x < 256"
  by (simp_all add: c_u8_def)

lemma c_u16_range [simp]: "0 \<le> c_u16 x" "c_u16 x < 65536"
  by (simp_all add: c_u16_def)

lemma c_u32_range [simp]: "0 \<le> c_u32 x" "c_u32 x < 4294967296"
  by (simp_all add: c_u32_def)

section \<open>Computations that may not return\<close>

text \<open>
  A computation whose result is an option returns nothing when a loop does not end or a null
  pointer is dereferenced.  \<open>ensures P r\<close>: what \<open>r\<close> returns, if it returns, satisfies \<open>P\<close>.
\<close>

definition ensures :: "('a \<Rightarrow> bool) \<Rightarrow> 'a option \<Rightarrow> bool" where
  "ensures P r \<longleftrightarrow> (\<forall>x. r = Some x \<longrightarrow> P x)"

named_theorems ensures \<open>rules for ensures\<close>

lemma ensuresI: "(\<And>x. r = Some x \<Longrightarrow> P x) \<Longrightarrow> ensures P r"
  by (simp add: ensures_def)

lemma ensuresD: "ensures P r \<Longrightarrow> r = Some x \<Longrightarrow> P x"
  by (simp add: ensures_def)

lemma ensures_Some [simp]: "ensures P (Some x) \<longleftrightarrow> P x"
  by (simp add: ensures_def)

lemma ensures_None [simp]: "ensures P None"
  by (simp add: ensures_def)

lemma ensures_bind: "ensures Q r \<Longrightarrow> (\<And>x. Q x \<Longrightarrow> ensures P (f x)) \<Longrightarrow> ensures P (Option.bind r f)"
  by (cases r) (simp_all add: ensures_def)

lemma ensures_if: "(b \<Longrightarrow> ensures P r) \<Longrightarrow> (\<not> b \<Longrightarrow> ensures P s) \<Longrightarrow> ensures P (if b then r else s)"
  by simp

lemma ensures_let: "(\<And>x. x = v \<Longrightarrow> ensures P (f x)) \<Longrightarrow> ensures P (let x = v in f x)"
  by simp

lemma ensures_mono: "ensures Q r \<Longrightarrow> (\<And>x. Q x \<Longrightarrow> P x) \<Longrightarrow> ensures P r"
  by (simp add: ensures_def)

end
