(* ===== verification/MemHeap.thy ===== *)
theory MemHeap
  imports Prelude
begin

text \<open>
  The heap allocator \<open>core/mem.c\<close> in the configuration of \<open>USER/lwipopts.h\<close>
  (\<open>MEM_SIZE\<close> 16000, \<open>MEM_ALIGNMENT\<close> 4, \<open>mem_size_t\<close> = \<open>u16_t\<close>, \<open>NO_SYS\<close>: the
  mutex and protection macros are empty, statistics are off).  The heap is the array
  \<open>ram\<close>; a pointer into it is its offset from \<open>ram\<close>.  Only the \<open>struct mem\<close> headers
  matter to the allocator, so the array is a map from offsets to headers.  The asserts of
  the source have no effect (\<open>arch/cc.h\<close> tests the message string, not the assertion)
  and are left out.  A loop that might not end is a \<open>partial_function\<close>: \<open>None\<close> means
  that it does not return.
\<close>

section \<open>State\<close>

record mem =
  mem_next :: int
  mem_prev :: int
  mem_used :: int

record heap =
  ram :: "int \<Rightarrow> mem"
  lfree :: int

definition MEM_SIZE_ALIGNED :: int where "MEM_SIZE_ALIGNED = 16000"
definition SIZEOF_STRUCT_MEM :: int where "SIZEOF_STRUCT_MEM = 8"
definition MIN_SIZE_ALIGNED :: int where "MIN_SIZE_ALIGNED = 12"

lemmas mem_consts = MEM_SIZE_ALIGNED_def SIZEOF_STRUCT_MEM_def MIN_SIZE_ALIGNED_def

definition LWIP_MEM_ALIGN_SIZE :: "int \<Rightarrow> int" where
  "LWIP_MEM_ALIGN_SIZE n = (n + 4 - 1) AND (NOT (4 - 1))"

definition set_next :: "int \<Rightarrow> int \<Rightarrow> heap \<Rightarrow> heap" where
  "set_next p v h = h\<lparr>ram := (ram h)(p := (ram h p)\<lparr>mem_next := v\<rparr>)\<rparr>"

definition set_prev :: "int \<Rightarrow> int \<Rightarrow> heap \<Rightarrow> heap" where
  "set_prev p v h = h\<lparr>ram := (ram h)(p := (ram h p)\<lparr>mem_prev := v\<rparr>)\<rparr>"

definition set_used :: "int \<Rightarrow> int \<Rightarrow> heap \<Rightarrow> heap" where
  "set_used p v h = h\<lparr>ram := (ram h)(p := (ram h p)\<lparr>mem_used := v\<rparr>)\<rparr>"

lemmas set_defs = set_next_def set_prev_def set_used_def

section \<open>Operations\<close>

definition mem_init :: "(int \<Rightarrow> mem) \<Rightarrow> heap" where
  "mem_init r =
     (let h = \<lparr>ram = r, lfree = 0\<rparr>;
          h = set_used 0 0 (set_prev 0 0 (set_next 0 MEM_SIZE_ALIGNED h));
          h = set_used MEM_SIZE_ALIGNED 1 h;
          h = set_next MEM_SIZE_ALIGNED MEM_SIZE_ALIGNED h;
          h = set_prev MEM_SIZE_ALIGNED MEM_SIZE_ALIGNED h
      in h\<lparr>lfree := 0\<rparr>)"

definition plug_holes :: "int \<Rightarrow> heap \<Rightarrow> heap" where
  "plug_holes mem h =
     (let nmem = mem_next (ram h mem);
          h = (if mem \<noteq> nmem \<and> mem_used (ram h nmem) = 0 \<and> nmem \<noteq> MEM_SIZE_ALIGNED
               then let h = (if lfree h = nmem then h\<lparr>lfree := mem\<rparr> else h);
                        h = set_next mem (mem_next (ram h nmem)) h
                    in set_prev (mem_next (ram h nmem)) (c_u16 mem) h
               else h);
          pmem = mem_prev (ram h mem)
      in if pmem \<noteq> mem \<and> mem_used (ram h pmem) = 0
         then let h = (if lfree h = mem then h\<lparr>lfree := pmem\<rparr> else h);
                  h = set_next pmem (mem_next (ram h mem)) h
              in set_prev (mem_next (ram h mem)) (c_u16 pmem) h
         else h)"

text \<open>\<open>rmem\<close> is \<open>None\<close> for the null pointer, else the offset of the data from \<open>ram\<close>.\<close>

definition mem_free :: "int option \<Rightarrow> heap \<Rightarrow> heap" where
  "mem_free rmem h =
     (case rmem of None \<Rightarrow> h
      | Some rmem \<Rightarrow>
          if rmem < 0 \<or> MEM_SIZE_ALIGNED \<le> rmem then h
          else let mem = rmem - SIZEOF_STRUCT_MEM;
                   h = set_used mem 0 h;
                   h = (if mem < lfree h then h\<lparr>lfree := mem\<rparr> else h)
               in plug_holes mem h)"

definition mem_trim :: "int \<Rightarrow> int \<Rightarrow> heap \<Rightarrow> int option \<times> heap" where
  "mem_trim rmem newsize h =
     (let newsize = c_u16 (LWIP_MEM_ALIGN_SIZE newsize);
          newsize = (if newsize < MIN_SIZE_ALIGNED then MIN_SIZE_ALIGNED else newsize)
      in if MEM_SIZE_ALIGNED < newsize then (None, h)
      else if rmem < 0 \<or> MEM_SIZE_ALIGNED \<le> rmem then (Some rmem, h)
      else let mem = rmem - SIZEOF_STRUCT_MEM;
               ptr = c_u16 mem;
               sz = c_u16 (mem_next (ram h mem) - ptr - SIZEOF_STRUCT_MEM)
      in if sz < newsize then (None, h)
      else if newsize = sz then (Some rmem, h)
      else let mem2 = mem_next (ram h mem)
      in if mem_used (ram h mem2) = 0
         then let nxt = mem_next (ram h mem2);
                  ptr2 = c_u16 (ptr + SIZEOF_STRUCT_MEM + newsize);
                  h = (if lfree h = mem2 then h\<lparr>lfree := ptr2\<rparr> else h);
                  h = set_used ptr2 0 h;
                  h = set_next ptr2 nxt h;
                  h = set_prev ptr2 ptr h;
                  h = set_next mem ptr2 h;
                  h = (if mem_next (ram h ptr2) \<noteq> MEM_SIZE_ALIGNED
                       then set_prev (mem_next (ram h ptr2)) ptr2 h else h)
              in (Some rmem, h)
         else if newsize + SIZEOF_STRUCT_MEM + MIN_SIZE_ALIGNED \<le> sz
         then let ptr2 = c_u16 (ptr + SIZEOF_STRUCT_MEM + newsize);
                  h = (if ptr2 < lfree h then h\<lparr>lfree := ptr2\<rparr> else h);
                  h = set_used ptr2 0 h;
                  h = set_next ptr2 (mem_next (ram h mem)) h;
                  h = set_prev ptr2 ptr h;
                  h = set_next mem ptr2 h;
                  h = (if mem_next (ram h ptr2) \<noteq> MEM_SIZE_ALIGNED
                       then set_prev (mem_next (ram h ptr2)) ptr2 h else h)
              in (Some rmem, h)
         else (Some rmem, h))"

text \<open>
  \<open>mem_malloc\<close>: the scan of the \<open>for\<close> loop, the update of the block it finds, and the
  \<open>while\<close> loop that moves \<open>lfree\<close> forward.  \<open>mem->next - (ptr + SIZEOF_STRUCT_MEM)\<close>
  is unsigned 32-bit arithmetic, because \<open>SIZEOF_STRUCT_MEM\<close> comes from \<open>sizeof\<close>.
\<close>

partial_function (option) mem_scan :: "heap \<Rightarrow> int \<Rightarrow> int \<Rightarrow> int option option" where
  "mem_scan h sz ptr =
     (if ptr < MEM_SIZE_ALIGNED - sz
      then if mem_used (ram h ptr) = 0 \<and>
              sz \<le> c_u32 (mem_next (ram h ptr) - (ptr + SIZEOF_STRUCT_MEM))
           then Some (Some ptr)
           else mem_scan h sz (mem_next (ram h ptr))
      else Some None)"

definition mem_take :: "int \<Rightarrow> int \<Rightarrow> heap \<Rightarrow> heap" where
  "mem_take sz ptr h =
     (if sz + SIZEOF_STRUCT_MEM + MIN_SIZE_ALIGNED
           \<le> c_u32 (mem_next (ram h ptr) - (ptr + SIZEOF_STRUCT_MEM))
      then let ptr2 = c_u16 (ptr + SIZEOF_STRUCT_MEM + sz);
               h = set_used ptr2 0 h;
               h = set_next ptr2 (mem_next (ram h ptr)) h;
               h = set_prev ptr2 ptr h;
               h = set_next ptr ptr2 h;
               h = set_used ptr 1 h
           in if mem_next (ram h ptr2) \<noteq> MEM_SIZE_ALIGNED
              then set_prev (mem_next (ram h ptr2)) ptr2 h else h
      else set_used ptr 1 h)"

partial_function (option) next_free :: "heap \<Rightarrow> int \<Rightarrow> int option" where
  "next_free h cur =
     (if mem_used (ram h cur) \<noteq> 0 \<and> cur \<noteq> MEM_SIZE_ALIGNED
      then next_free h (mem_next (ram h cur)) else Some cur)"

definition mem_malloc :: "int \<Rightarrow> heap \<Rightarrow> (int option \<times> heap) option" where
  "mem_malloc sz h =
     (if sz = 0 then Some (None, h)
      else let sz = c_u16 (LWIP_MEM_ALIGN_SIZE sz);
               sz = (if sz < MIN_SIZE_ALIGNED then MIN_SIZE_ALIGNED else sz)
      in if MEM_SIZE_ALIGNED < sz then Some (None, h)
      else case mem_scan h sz (lfree h) of
             None \<Rightarrow> None
           | Some None \<Rightarrow> Some (None, h)
           | Some (Some mem) \<Rightarrow>
               let h = mem_take sz mem h
               in if mem = lfree h
                  then (case next_free h (lfree h) of
                          None \<Rightarrow> None
                        | Some cur \<Rightarrow> Some (Some (mem + SIZEOF_STRUCT_MEM), h\<lparr>lfree := cur\<rparr>))
                  else Some (Some (mem + SIZEOF_STRUCT_MEM), h))"

text \<open>
  \<open>mem_calloc\<close> passes \<open>count * size\<close> to \<open>mem_malloc\<close>, whose parameter is a
  \<open>mem_size_t\<close>, but clears \<open>count * size\<close> bytes as \<open>memset\<close> gets it (a \<open>size_t\<close>).
  The result holds the pointer and the number of bytes cleared.
\<close>

definition mem_calloc :: "int \<Rightarrow> int \<Rightarrow> heap \<Rightarrow> (int option \<times> int \<times> heap) option" where
  "mem_calloc count sz h =
     (case mem_malloc (c_u16 (count * sz)) h of
        None \<Rightarrow> None
      | Some (None, h) \<Rightarrow> Some (None, 0, h)
      | Some (Some p, h) \<Rightarrow> Some (Some p, c_u32 (count * sz), h))"

section \<open>Alignment\<close>

lemma and_not_3: "(x::int) AND NOT 3 = x - x mod 4"
proof -
  have "(x AND 3) + (x AND NOT 3) = (x AND 3) OR (x AND NOT 3)"
    by (rule disjunctive_add) (simp add: bit_simps)
  also have "\<dots> = x"
    by (rule bit_eqI) (auto simp: bit_simps)
  finally have "x AND NOT 3 = x - (x AND 3)" by simp
  moreover have "x AND 3 = x mod 4"
    using take_bit_eq_mask [of 2 x] by (simp add: take_bit_eq_mod mask_eq_exp_minus_1)
  ultimately show ?thesis by simp
qed

lemma LWIP_MEM_ALIGN_SIZE_eq: "LWIP_MEM_ALIGN_SIZE n = (n + 3) - (n + 3) mod 4"
  using and_not_3 [of "n + 3"] by (simp add: LWIP_MEM_ALIGN_SIZE_def add.commute)

lemma align_size_dvd: "4 dvd LWIP_MEM_ALIGN_SIZE n"
  by (simp add: LWIP_MEM_ALIGN_SIZE_eq dvd_minus_mod)

lemma align_size_bounds: "n \<le> LWIP_MEM_ALIGN_SIZE n" "LWIP_MEM_ALIGN_SIZE n \<le> n + 3"
  unfolding LWIP_MEM_ALIGN_SIZE_eq by presburger+


section \<open>The heap as a list of blocks\<close>

text \<open>
  A block is its start, its end (the next header) and whether it is used.
  \<open>hseg r prv p bs q\<close>: the headers from \<open>p\<close> to \<open>q\<close> are linked both ways and make
  up the blocks \<open>bs\<close>, \<open>prv\<close> being the header before \<open>p\<close>.  The invariant \<open>heap_inv\<close>
  adds that no two free blocks are adjacent and that \<open>lfree\<close> is the first free block.
\<close>

type_synonym blk = "int \<times> int \<times> bool"

fun hseg :: "(int \<Rightarrow> mem) \<Rightarrow> int \<Rightarrow> int \<Rightarrow> blk list \<Rightarrow> int \<Rightarrow> bool" where
  "hseg r prv p [] q \<longleftrightarrow> p = q"
| "hseg r prv p ((a, e, u) # bs) q \<longleftrightarrow>
     a = p \<and> mem_prev (r a) = prv \<and> mem_next (r a) = e \<and> (mem_used (r a) \<noteq> 0) = u \<and>
     a + (SIZEOF_STRUCT_MEM + MIN_SIZE_ALIGNED) \<le> e \<and> 4 dvd a \<and> 4 dvd e \<and>
     hseg r a e bs q"

definition no_adj_free :: "blk list \<Rightarrow> bool" where
  "no_adj_free = successively (\<lambda>b c. snd (snd b) \<or> snd (snd c))"

fun first_free :: "blk list \<Rightarrow> int" where
  "first_free [] = MEM_SIZE_ALIGNED"
| "first_free ((a, e, u) # bs) = (if u then first_free bs else a)"

definition heap_inv :: "heap \<Rightarrow> blk list \<Rightarrow> bool" where
  "heap_inv h bs \<longleftrightarrow> hseg (ram h) 0 0 bs MEM_SIZE_ALIGNED \<and>
     mem_used (ram h MEM_SIZE_ALIGNED) \<noteq> 0 \<and> no_adj_free bs \<and> lfree h = first_free bs"

fun last_start :: "int \<Rightarrow> blk list \<Rightarrow> int" where
  "last_start prv [] = prv"
| "last_start prv (b # bs) = last_start (fst b) bs"

lemma last_start_append [simp]: "last_start prv (bs @ cs) = last_start (last_start prv bs) cs"
  by (induction bs arbitrary: prv) auto

lemma hseg_le: "hseg r prv p bs q \<Longrightarrow> p \<le> q"
  by (induction r prv p bs q rule: hseg.induct) (auto simp: mem_consts)

lemma hseg_lt: "hseg r prv p bs q \<Longrightarrow> bs \<noteq> [] \<Longrightarrow> p + 20 \<le> q"
proof (cases bs)
  case (Cons b cs)
  assume "hseg r prv p bs q"
  with Cons obtain a e u where "hseg r a e cs q" "p + 20 \<le> e"
    by (cases b) (auto simp: mem_consts)
  then show ?thesis using hseg_le by fastforce
qed simp

lemma hseg_empty_iff: "hseg r prv p bs q \<Longrightarrow> bs = [] \<longleftrightarrow> p = q"
  by (cases "bs = []") (auto dest: hseg_lt)

lemma hseg_append:
  "hseg r prv p (bs @ cs) q \<longleftrightarrow> (\<exists>m. hseg r prv p bs m \<and> hseg r (last_start prv bs) m cs q)"
  by (induction r prv p bs q rule: hseg.induct) auto

lemma hseg_range:
  "hseg r prv p bs q \<Longrightarrow> (a, e, u) \<in> set bs \<Longrightarrow>
     p \<le> a \<and> a + (SIZEOF_STRUCT_MEM + MIN_SIZE_ALIGNED) \<le> e \<and> e \<le> q \<and> 4 dvd a \<and> 4 dvd e"
  by (induction r prv p bs q rule: hseg.induct) (fastforce simp: mem_consts dest: hseg_le)+

lemma hseg_frame:
  "hseg r prv p bs q \<Longrightarrow> (\<And>x. p \<le> x \<Longrightarrow> x < q \<Longrightarrow> r' x = r x) \<Longrightarrow> hseg r' prv p bs q"
proof (induction r prv p bs q rule: hseg.induct)
  case (2 r prv p a e u bs q)
  then have "hseg r a e bs q" and le: "p + 20 \<le> e" "e \<le> q" "a = p"
    by (auto simp: mem_consts dest: hseg_le)
  moreover have "r' p = r p" using "2.prems"(2) le by simp
  ultimately show ?case using "2.IH" "2.prems" by (auto simp: mem_consts)
qed simp

lemma hseg_upd_outside [simp]:
  "x < p \<or> q \<le> x \<Longrightarrow> hseg r prv p bs q \<Longrightarrow> hseg (r(x := m)) prv p bs q"
  by (erule hseg_frame) auto

text \<open>Changing the back link of the first block of a segment.\<close>

lemma hseg_set_prev:
  "hseg r prv p bs q \<Longrightarrow> bs \<noteq> [] \<Longrightarrow> hseg (r(p := (r p)\<lparr>mem_prev := prv'\<rparr>)) prv' p bs q"
  by (cases bs) (auto simp: mem_consts intro: hseg_upd_outside dest: hseg_le)

lemma first_free_append:
  "first_free (bs @ cs) = (if \<exists>(a, e, u) \<in> set bs. \<not> u then first_free bs else first_free cs)"
  by (induction bs) auto


section \<open>The abstract allocator\<close>

text \<open>
  First fit over the block list: the first free block that is large enough is used, and
  split when the rest can hold another header and \<open>MIN_SIZE\<close> bytes.  Freeing marks the
  block and merges neighbouring free blocks.
\<close>

fun alloc_blocks :: "int \<Rightarrow> blk list \<Rightarrow> (int \<times> blk list) option" where
  "alloc_blocks n [] = None"
| "alloc_blocks n ((a, e, u) # bs) =
     (if \<not> u \<and> n \<le> e - a - SIZEOF_STRUCT_MEM
      then Some (a + SIZEOF_STRUCT_MEM,
             if n + SIZEOF_STRUCT_MEM + MIN_SIZE_ALIGNED \<le> e - a - SIZEOF_STRUCT_MEM
             then (a, a + SIZEOF_STRUCT_MEM + n, True) # (a + SIZEOF_STRUCT_MEM + n, e, False) # bs
             else (a, e, True) # bs)
      else map_option (apsnd ((#) (a, e, u))) (alloc_blocks n bs))"

fun mark_free :: "int \<Rightarrow> blk list \<Rightarrow> blk list" where
  "mark_free s [] = []"
| "mark_free s ((a, e, u) # bs) = (if a = s then (a, e, False) # bs else (a, e, u) # mark_free s bs)"

fun merge_free :: "blk list \<Rightarrow> blk list" where
  "merge_free ((a, e, False) # (b, f, False) # bs) = merge_free ((a, f, False) # bs)"
| "merge_free (b # bs) = b # merge_free bs"
| "merge_free [] = []"

definition free_blocks :: "int \<Rightarrow> blk list \<Rightarrow> blk list" where
  "free_blocks p bs = merge_free (mark_free (p - SIZEOF_STRUCT_MEM) bs)"

definition request_size :: "int \<Rightarrow> int" where
  "request_size n = (let m = c_u16 (LWIP_MEM_ALIGN_SIZE n)
                     in if m < MIN_SIZE_ALIGNED then MIN_SIZE_ALIGNED else m)"

definition all_used :: "blk list \<Rightarrow> bool" where
  "all_used bs \<longleftrightarrow> (\<forall>b \<in> set bs. snd (snd b))"

lemma no_adj_free_simps [simp]:
  "no_adj_free []" "no_adj_free [b]"
  "no_adj_free (b # c # bs) \<longleftrightarrow> (snd (snd b) \<or> snd (snd c)) \<and> no_adj_free (c # bs)"
  by (simp_all add: no_adj_free_def)

lemma no_adj_free_append:
  "no_adj_free (xs @ ys) \<longleftrightarrow> no_adj_free xs \<and> no_adj_free ys \<and>
     (xs = [] \<or> ys = [] \<or> snd (snd (last xs)) \<or> snd (snd (hd ys)))"
  by (auto simp: no_adj_free_def successively_append_iff)

lemma no_adj_free_Cons:
  "no_adj_free (b # bs) \<longleftrightarrow> no_adj_free bs \<and> (bs = [] \<or> snd (snd b) \<or> snd (snd (hd bs)))"
  by (cases bs) auto

lemma all_used_simps [simp]:
  "all_used []" "all_used (b # bs) \<longleftrightarrow> snd (snd b) \<and> all_used bs"
  "all_used (xs @ ys) \<longleftrightarrow> all_used xs \<and> all_used ys"
  by (auto simp: all_used_def)

lemma first_free_app: "first_free (xs @ ys) = (if all_used xs then first_free ys else first_free xs)"
  by (induction xs) auto

lemma first_free_in:
  "\<not> all_used bs \<Longrightarrow> \<exists>e. (first_free bs, e, False) \<in> set bs"
  by (induction bs) auto

lemma alloc_blocks_app:
  "alloc_blocks n (xs @ ys) =
     (case alloc_blocks n xs of Some (p, xs') \<Rightarrow> Some (p, xs' @ ys)
      | None \<Rightarrow> map_option (apsnd ((@) xs)) (alloc_blocks n ys))"
proof (induction xs)
  case Nil
  show ?case by (cases "alloc_blocks n ys") auto
next
  case (Cons x xs)
  show ?case by (cases x; cases "alloc_blocks n xs"; cases "alloc_blocks n ys") (auto simp: Cons)
qed

lemma alloc_blocks_used: "all_used bs \<Longrightarrow> alloc_blocks n bs = None"
  by (induction bs) auto

lemma alloc_blocks_split:
  assumes "alloc_blocks n bs = Some (p, bs')"
  obtains xs a e ys where "bs = xs @ (a, e, False) # ys" "p = a + SIZEOF_STRUCT_MEM"
    "n \<le> e - a - SIZEOF_STRUCT_MEM" "alloc_blocks n xs = None"
    "bs' = xs @ (if n + SIZEOF_STRUCT_MEM + MIN_SIZE_ALIGNED \<le> e - a - SIZEOF_STRUCT_MEM
       then [(a, a + SIZEOF_STRUCT_MEM + n, True), (a + SIZEOF_STRUCT_MEM + n, e, False)]
       else [(a, e, True)]) @ ys"
  using assms
proof (induction bs arbitrary: p bs' thesis)
  case (Cons b bs)
  obtain a e u where b: "b = (a, e, u)" by (cases b)
  show ?case
  proof (cases "\<not> u \<and> n \<le> e - a - SIZEOF_STRUCT_MEM")
    case True
    with Cons.prems(2) b show ?thesis by (intro Cons.prems(1) [of "[]" a e bs]) auto
  next
    case False
    with Cons.prems(2) b obtain cs where cs: "alloc_blocks n bs = Some (p, cs)" "bs' = b # cs"
      by (auto split: if_splits)
    show ?thesis
    proof (rule Cons.IH [OF _ cs(1)])
      fix xs a' e' ys
      assume h: "bs = xs @ (a', e', False) # ys" "p = a' + SIZEOF_STRUCT_MEM"
        "n \<le> e' - a' - SIZEOF_STRUCT_MEM" "alloc_blocks n xs = None"
        "cs = xs @ (if n + SIZEOF_STRUCT_MEM + MIN_SIZE_ALIGNED \<le> e' - a' - SIZEOF_STRUCT_MEM
           then [(a', a' + SIZEOF_STRUCT_MEM + n, True), (a' + SIZEOF_STRUCT_MEM + n, e', False)]
           else [(a', e', True)]) @ ys"
      show thesis
        by (rule Cons.prems(1) [of "b # xs" a' e' ys]) (use h cs b False in auto)
    qed
  qed
qed simp


section \<open>mem_malloc refines first fit\<close>

lemma mem_scan_fit:
  assumes "hseg (ram h) prv p bs MEM_SIZE_ALIGNED" "0 \<le> p" "12 \<le> n"
  shows "mem_scan h n p = Some (map_option (\<lambda>(q, _). q - SIZEOF_STRUCT_MEM) (alloc_blocks n bs))"
  using assms
proof (induction bs arbitrary: prv p)
  case Nil
  then show ?case by (simp add: mem_scan.simps [of h n MEM_SIZE_ALIGNED])
next
  case (Cons b bs)
  obtain a e u where b: "b = (a, e, u)" by (cases b)
  with Cons.prems have a: "a = p" "mem_next (ram h p) = e" "(mem_used (ram h p) \<noteq> 0) = u"
    "p + 20 \<le> e" and seg: "hseg (ram h) p e bs MEM_SIZE_ALIGNED" by (auto simp: mem_consts)
  note IH = Cons.IH [OF seg _ Cons.prems(3)]
  have e: "e \<le> MEM_SIZE_ALIGNED" using seg by (rule hseg_le)
  have c: "c_u32 (e - (p + SIZEOF_STRUCT_MEM)) = e - p - SIZEOF_STRUCT_MEM"
    using e a(4) Cons.prems(2) by (simp add: c_u32_def mem_consts)
  show ?case
  proof (cases "p < MEM_SIZE_ALIGNED - n")
    case True
    then show ?thesis
      using IH a c Cons.prems(2)
      by (auto simp: b mem_scan.simps [of h n p] option.map_comp comp_def case_prod_beta mem_consts)
  next
    case False
    have "alloc_blocks n (b # bs) = None"
    proof (rule ccontr)
      assume "alloc_blocks n (b # bs) \<noteq> None"
      then obtain q bs' where "alloc_blocks n (b # bs) = Some (q, bs')" by auto
      then obtain xs a' e' ys where "b # bs = xs @ (a', e', False) # ys"
        and fit: "n \<le> e' - a' - SIZEOF_STRUCT_MEM" by (rule alloc_blocks_split)
      then have "(a', e', False) \<in> set (b # bs)" by simp
      from hseg_range [OF Cons.prems(1) this] fit False show False
        by (simp add: mem_consts)
    qed
    with False show ?thesis by (simp add: mem_scan.simps [of h n p])
  qed
qed

lemma next_free_first:
  "hseg (ram h) prv p bs MEM_SIZE_ALIGNED \<Longrightarrow> mem_used (ram h MEM_SIZE_ALIGNED) \<noteq> 0 \<Longrightarrow>
     next_free h p = Some (first_free bs)"
proof (induction bs arbitrary: prv p)
  case Nil
  then show ?case by (simp add: next_free.simps [of h MEM_SIZE_ALIGNED])
next
  case (Cons b bs)
  from hseg_lt [OF Cons.prems(1)] have "p \<noteq> MEM_SIZE_ALIGNED" by simp
  with Cons show ?case by (cases b) (auto simp: next_free.simps [of h p])
qed

lemma hseg_take:
  assumes "hseg (ram h) prv a ((a, e, False) # ys) MEM_SIZE_ALIGNED"
    and "0 \<le> a" "12 \<le> n" "4 dvd n" "n \<le> e - a - SIZEOF_STRUCT_MEM"
  shows "hseg (ram (mem_take n a h)) prv a
     ((if n + SIZEOF_STRUCT_MEM + MIN_SIZE_ALIGNED \<le> e - a - SIZEOF_STRUCT_MEM
       then [(a, a + SIZEOF_STRUCT_MEM + n, True), (a + SIZEOF_STRUCT_MEM + n, e, False)]
       else [(a, e, True)]) @ ys) MEM_SIZE_ALIGNED"
proof -
  have e: "mem_next (ram h a) = e" "a + 20 \<le> e" "e \<le> MEM_SIZE_ALIGNED"
    and seg: "hseg (ram h) a e ys MEM_SIZE_ALIGNED"
    using assms(1) by (auto simp: mem_consts dest: hseg_le)
  have c: "c_u32 (e - (a + SIZEOF_STRUCT_MEM)) = e - a - SIZEOF_STRUCT_MEM"
    using e assms(2) by (simp add: c_u32_def mem_consts)
  show ?thesis
  proof (cases "n + SIZEOF_STRUCT_MEM + MIN_SIZE_ALIGNED \<le> e - a - SIZEOF_STRUCT_MEM")
    case False
    then show ?thesis
      using assms e c seg by (auto simp: mem_take_def set_defs mem_consts)
  next
    case True
    then have p2: "c_u16 (a + SIZEOF_STRUCT_MEM + n) = a + SIZEOF_STRUCT_MEM + n"
      using assms e by (simp add: c_u16_def mem_consts)
    have "ys = [] \<longleftrightarrow> e = MEM_SIZE_ALIGNED"
      using hseg_empty_iff [OF seg] .
    then show ?thesis
      using True assms e c p2 seg
      by (cases ys) (auto simp: mem_take_def Let_def set_defs mem_consts)
  qed
qed


lemma first_free_split:
  assumes "hseg r prv p bs MEM_SIZE_ALIGNED"
  obtains us fs where "bs = us @ fs" "all_used us" "first_free bs = first_free fs"
    "hseg r (last_start prv us) (first_free bs) fs MEM_SIZE_ALIGNED"
  using assms
proof (induction bs arbitrary: prv p thesis)
  case Nil
  then show ?case by (intro Nil.prems(1) [of "[]" "[]"]) auto
next
  case (Cons b bs)
  obtain a e u where b: "b = (a, e, u)" by (cases b)
  show ?case
  proof (cases u)
    case False
    then show ?thesis using Cons.prems b by (intro Cons.prems(1) [of "[]" "b # bs"]) auto
  next
    case True
    from Cons.prems(2) b have "hseg r a e bs MEM_SIZE_ALIGNED" by auto
    then show ?thesis
    proof (rule Cons.IH [rotated])
      fix us fs
      assume "bs = us @ fs" "all_used us" "first_free bs = first_free fs"
        "hseg r (last_start a us) (first_free bs) fs MEM_SIZE_ALIGNED"
      with True b show thesis by (intro Cons.prems(1) [of "b # us" fs]) auto
    qed
  qed
qed

lemma hseg_first_free: "hseg r prv p bs MEM_SIZE_ALIGNED \<Longrightarrow> p \<le> first_free bs"
proof (induction bs arbitrary: prv p)
  case (Cons b bs)
  obtain a e u where b: "b = (a, e, u)" by (cases b)
  with Cons.prems have "a = p" "p + 20 \<le> e" "hseg r a e bs MEM_SIZE_ALIGNED"
    by (auto simp: mem_consts)
  with Cons.IH [of a e] b show ?case by auto
qed simp

lemma hseg_first_free': "hseg r prv p bs q \<Longrightarrow> \<not> all_used bs \<Longrightarrow> first_free bs < q"
  using first_free_in [of bs] hseg_range [of r prv p bs q "first_free bs" _ False]
  by (force simp: mem_consts)

lemma request_size_props:
  "12 \<le> request_size n" "4 dvd request_size n" "request_size n < 65536"
proof -
  have "4 dvd c_u16 (LWIP_MEM_ALIGN_SIZE n)"
    using align_size_dvd [of n] by (simp add: c_u16_def dvd_mod)
  then show "4 dvd request_size n"
    by (auto simp: request_size_def Let_def mem_consts)
  show "12 \<le> request_size n" "request_size n < 65536"
    by (auto simp: request_size_def Let_def mem_consts)
qed

lemma mem_take_lfree [simp]: "lfree (mem_take n p h) = lfree h"
  by (simp add: mem_take_def Let_def set_defs)

lemma mem_take_outside:
  assumes "mem_next (ram h p) = e" "0 \<le> p" "p + 20 \<le> e" "e \<le> MEM_SIZE_ALIGNED"
    and "x < p \<or> e < x" "12 \<le> n"
  shows "ram (mem_take n p h) x = ram h x"
  using assms by (auto simp: mem_take_def Let_def set_defs mem_consts c_u32_def c_u16_def)

lemma mem_take_end_used:
  assumes "mem_next (ram h p) = e" "0 \<le> p" "p + 20 \<le> e" "e \<le> MEM_SIZE_ALIGNED" "12 \<le> n"
  shows "mem_used (ram (mem_take n p h) MEM_SIZE_ALIGNED) = mem_used (ram h MEM_SIZE_ALIGNED)"
  using assms by (auto simp: mem_take_def Let_def set_defs mem_consts c_u32_def c_u16_def)


theorem mem_malloc_first_fit:
  assumes inv: "heap_inv h bs"
  shows "case (if n = 0 \<or> MEM_SIZE_ALIGNED < request_size n then None
               else alloc_blocks (request_size n) bs) of
           None \<Rightarrow> mem_malloc n h = Some (None, h)
         | Some (p, bs') \<Rightarrow> \<exists>h'. mem_malloc n h = Some (Some p, h') \<and> heap_inv h' bs'"
proof (cases "n = 0 \<or> MEM_SIZE_ALIGNED < request_size n")
  case True
  then show ?thesis by (auto simp: mem_malloc_def request_size_def Let_def)
next
  case False
  let ?n = "request_size n"
  have malloc: "mem_malloc n h = (case mem_scan h ?n (lfree h) of
      None \<Rightarrow> None | Some None \<Rightarrow> Some (None, h)
    | Some (Some mem) \<Rightarrow> let h = mem_take ?n mem h
        in if mem = lfree h
           then (case next_free h (lfree h) of None \<Rightarrow> None
                 | Some cur \<Rightarrow> Some (Some (mem + SIZEOF_STRUCT_MEM), h\<lparr>lfree := cur\<rparr>))
           else Some (Some (mem + SIZEOF_STRUCT_MEM), h))"
  proof -
    from False have "n \<noteq> 0" "\<not> MEM_SIZE_ALIGNED < ?n" by auto
    then show ?thesis by (simp only: mem_malloc_def request_size_def Let_def if_False)
  qed
  from inv have seg: "hseg (ram h) 0 0 bs MEM_SIZE_ALIGNED" and lf: "lfree h = first_free bs"
    and endu: "mem_used (ram h MEM_SIZE_ALIGNED) \<noteq> 0" and adj: "no_adj_free bs"
    by (auto simp: heap_inv_def)
  obtain us fs where us: "bs = us @ fs" "all_used us" "first_free bs = first_free fs"
      "hseg (ram h) (last_start 0 us) (first_free bs) fs MEM_SIZE_ALIGNED"
    using seg by (rule first_free_split)
  have alloc_us: "alloc_blocks ?n bs = map_option (apsnd ((@) us)) (alloc_blocks ?n fs)"
    using us by (simp add: alloc_blocks_app alloc_blocks_used)
  have "0 \<le> first_free bs"
    using hseg_first_free [OF seg] .
  then have scan: "mem_scan h ?n (lfree h)
      = Some (map_option (\<lambda>(q, _). q - SIZEOF_STRUCT_MEM) (alloc_blocks ?n bs))"
    using mem_scan_fit [OF us(4) _ request_size_props(1)] lf
    by (simp add: alloc_us option.map_comp comp_def case_prod_beta')
  show ?thesis
  proof (cases "alloc_blocks ?n bs")
    case None
    with scan False show ?thesis by (simp add: malloc)
  next
    case (Some r)
    then obtain p bs' where r: "alloc_blocks ?n bs = Some (p, bs')" by (cases r) auto
    then obtain xs a e ys where s: "bs = xs @ (a, e, False) # ys" "p = a + SIZEOF_STRUCT_MEM"
      "?n \<le> e - a - SIZEOF_STRUCT_MEM"
      "bs' = xs @ (if ?n + SIZEOF_STRUCT_MEM + MIN_SIZE_ALIGNED \<le> e - a - SIZEOF_STRUCT_MEM
        then [(a, a + SIZEOF_STRUCT_MEM + ?n, True), (a + SIZEOF_STRUCT_MEM + ?n, e, False)]
        else [(a, e, True)]) @ ys" by (rule alloc_blocks_split)
    let ?new = "if ?n + SIZEOF_STRUCT_MEM + MIN_SIZE_ALIGNED \<le> e - a - SIZEOF_STRUCT_MEM
        then [(a, a + SIZEOF_STRUCT_MEM + ?n, True), (a + SIZEOF_STRUCT_MEM + ?n, e, False)]
        else [(a, e, True)]"
    let ?h = "mem_take ?n a h"
    from seg s(1) have segx: "hseg (ram h) 0 0 xs a"
      and sega: "hseg (ram h) (last_start 0 xs) a ((a, e, False) # ys) MEM_SIZE_ALIGNED"
      by (auto simp: hseg_append)
    have a: "0 \<le> a" "a + 20 \<le> e" "e \<le> MEM_SIZE_ALIGNED" "mem_next (ram h a) = e"
      using segx sega by (auto simp: mem_consts dest: hseg_le)
    have segx': "hseg (ram ?h) 0 0 xs a"
      using segx by (rule hseg_frame)
        (use a in \<open>auto intro!: mem_take_outside simp: request_size_props\<close>)
    have sega': "hseg (ram ?h) (last_start 0 xs) a (?new @ ys) MEM_SIZE_ALIGNED"
      by (rule hseg_take) (use sega a s in \<open>auto simp: request_size_props\<close>)
    have seg': "hseg (ram ?h) 0 0 bs' MEM_SIZE_ALIGNED"
      unfolding s(4) by (subst hseg_append) (use segx' sega' in blast)
    have endu': "mem_used (ram ?h MEM_SIZE_ALIGNED) \<noteq> 0"
      using endu a by (simp add: mem_take_end_used request_size_props)
    have adj': "no_adj_free bs'"
      using adj by (auto simp: s no_adj_free_append no_adj_free_Cons)
    show ?thesis
    proof (cases "all_used xs")
      case True
      then have "a = lfree h" by (simp add: lf s first_free_app)
      moreover have "next_free ?h a = Some (first_free bs')"
        using next_free_first [OF sega' endu'] True by (simp add: s(4) first_free_app)
      ultimately show ?thesis
        using r scan False seg' endu' adj' by (simp add: malloc s(2) heap_inv_def)
    next
      case xs: False
      then have "lfree h = first_free bs'" by (simp add: lf s first_free_app)
      moreover have "a \<noteq> lfree h"
      proof -
        from xs obtain e' where "(first_free xs, e', False) \<in> set xs" using first_free_in by blast
        from hseg_range [OF segx this] have "first_free xs < a" by (simp add: mem_consts)
        with xs show ?thesis by (simp add: lf s first_free_app)
      qed
      ultimately show ?thesis
        using r scan False seg' endu' adj' by (simp add: malloc s(2) heap_inv_def)
    qed
  qed
qed


section \<open>mem_free refines marking and merging\<close>

lemma merge_free_id: "no_adj_free bs \<Longrightarrow> merge_free bs = bs"
  by (induction bs rule: merge_free.induct) (auto simp: no_adj_free_Cons)

lemma merge_free_Cons_used: "snd (snd b) \<Longrightarrow> merge_free (b # bs) = b # merge_free bs"
  by (cases b) (cases bs; auto)

lemma merge_free_Cons_free:
  "no_adj_free ys \<Longrightarrow> ys = [] \<or> snd (snd (hd ys)) \<Longrightarrow> merge_free ((a, e, False) # ys) = (a, e, False) # ys"
  by (rule merge_free_id) (auto simp: no_adj_free_Cons)

lemma merge_free_app:
  "no_adj_free xs \<Longrightarrow> xs = [] \<or> snd (snd (last xs)) \<Longrightarrow> merge_free (xs @ ys) = xs @ merge_free ys"
proof (induction xs)
  case (Cons x xs)
  show ?case
  proof (cases "snd (snd x)")
    case True
    with Cons show ?thesis by (auto simp: merge_free_Cons_used no_adj_free_Cons split: if_splits)
  next
    case False
    then obtain a e where x: "x = (a, e, False)" by (cases x) auto
    with Cons.prems obtain y xs' where xs: "xs = y # xs'" "snd (snd y)" by (cases xs) auto
    with Cons x show ?thesis
      by (cases y) (auto split: if_splits)
  qed
qed simp

lemma mark_free_app:
  "hseg r prv p (xs @ (a, e, u) # ys) q \<Longrightarrow> mark_free a (xs @ (a, e, u) # ys) = xs @ (a, e, False) # ys"
proof (induction xs arbitrary: prv p)
  case (Cons x xs)
  obtain b f v where x: "x = (b, f, v)" by (cases x)
  with Cons.prems have "hseg r b f (xs @ (a, e, u) # ys) q" "b + 20 \<le> f" by (auto simp: mem_consts)
  moreover from this have "f \<le> a" using hseg_range [of r b f _ q a e u] by simp
  ultimately show ?case using Cons.IH by (simp add: x)
qed simp

text \<open>What \<open>plug_holes\<close> does to the block list around the freed block \<open>(a, e)\<close>.\<close>

fun plug_fwd :: "int \<Rightarrow> int \<Rightarrow> blk list \<Rightarrow> blk list" where
  "plug_fwd a e ((b, f, False) # ys) = (a, f, False) # ys"
| "plug_fwd a e ys = (a, e, False) # ys"

definition plug_blocks :: "blk list \<Rightarrow> int \<Rightarrow> int \<Rightarrow> blk list \<Rightarrow> blk list" where
  "plug_blocks xs a e ys =
     (if xs \<noteq> [] \<and> \<not> snd (snd (last xs))
      then butlast xs @ (fst (last xs), fst (snd (hd (plug_fwd a e ys))), False) # tl (plug_fwd a e ys)
      else xs @ plug_fwd a e ys)"

lemma plug_fwd_Cons: "\<exists>f zs. plug_fwd a e ys = (a, f, False) # zs"
  by (cases "(a, e, ys)" rule: plug_fwd.cases) auto

lemma plug_blocks_merge:
  assumes "no_adj_free (xs @ (a, e, True) # ys)"
  shows "merge_free (xs @ (a, e, False) # ys) = plug_blocks xs a e ys"
proof -
  have fwd: "merge_free ((b, e, False) # ys) = plug_fwd b e ys" for b
  proof (cases ys)
    case (Cons y zs)
    obtain c f u where "y = (c, f, u)" by (cases y)
    with Cons assms show ?thesis
      by (cases u) (auto simp: merge_free_Cons_free no_adj_free_append no_adj_free_Cons merge_free_id)
  qed simp
  show ?thesis
  proof (cases "xs \<noteq> [] \<and> \<not> snd (snd (last xs))")
    case False
    then have "merge_free (xs @ (a, e, False) # ys) = xs @ merge_free ((a, e, False) # ys)"
      using assms by (intro merge_free_app) (auto simp: no_adj_free_append)
    with False fwd show ?thesis by (auto simp: plug_blocks_def)
  next
    case True
    then obtain us b c where xs: "xs = us @ [(b, c, False)]"
      by (cases xs rule: rev_cases; cases "last xs") auto
    have "merge_free (xs @ (a, e, False) # ys) = us @ merge_free ((b, c, False) # (a, e, False) # ys)"
      using assms xs by (simp add: merge_free_app no_adj_free_append)
    also have "\<dots> = us @ plug_fwd b e ys" using fwd by simp
    finally show ?thesis
      using True by (cases "(a, e, ys)" rule: plug_fwd.cases) (auto simp: xs plug_blocks_def)
  qed
qed

definition plug_fwd_heap :: "int \<Rightarrow> heap \<Rightarrow> heap" where
  "plug_fwd_heap mem h =
     (let nmem = mem_next (ram h mem)
      in if mem \<noteq> nmem \<and> mem_used (ram h nmem) = 0 \<and> nmem \<noteq> MEM_SIZE_ALIGNED
         then let h = (if lfree h = nmem then h\<lparr>lfree := mem\<rparr> else h);
                  h = set_next mem (mem_next (ram h nmem)) h
              in set_prev (mem_next (ram h nmem)) (c_u16 mem) h
         else h)"

definition plug_bwd_heap :: "int \<Rightarrow> heap \<Rightarrow> heap" where
  "plug_bwd_heap mem h =
     (let pmem = mem_prev (ram h mem)
      in if pmem \<noteq> mem \<and> mem_used (ram h pmem) = 0
         then let h = (if lfree h = mem then h\<lparr>lfree := pmem\<rparr> else h);
                  h = set_next pmem (mem_next (ram h mem)) h
              in set_prev (mem_next (ram h mem)) (c_u16 pmem) h
         else h)"

lemma plug_holes_split: "plug_holes mem h = plug_bwd_heap mem (plug_fwd_heap mem h)"
  by (simp add: plug_holes_def plug_bwd_heap_def plug_fwd_heap_def Let_def)

lemma plug_fwd_heap_seg:
  assumes "hseg (ram h) prv a ((a, e, False) # ys) MEM_SIZE_ALIGNED" "0 \<le> a" "lfree h \<le> a"
    and "mem_used (ram h MEM_SIZE_ALIGNED) \<noteq> 0"
  shows "hseg (ram (plug_fwd_heap a h)) prv a (plug_fwd a e ys) MEM_SIZE_ALIGNED"
    and "lfree (plug_fwd_heap a h) = lfree h"
    and "mem_used (ram (plug_fwd_heap a h) MEM_SIZE_ALIGNED) \<noteq> 0"
    and "x < a \<Longrightarrow> ram (plug_fwd_heap a h) x = ram h x"
proof -
  have a: "mem_next (ram h a) = e" "a + 20 \<le> e" and seg: "hseg (ram h) a e ys MEM_SIZE_ALIGNED"
    and pr: "mem_prev (ram h a) = prv" "mem_used (ram h a) = 0" "4 dvd a"
    using assms(1) by (auto simp: mem_consts)
  have e: "e \<le> MEM_SIZE_ALIGNED" "c_u16 a = a"
    using hseg_le [OF seg] a assms(2) by (auto simp: mem_consts c_u16_def)
  have "hseg (ram (plug_fwd_heap a h)) prv a (plug_fwd a e ys) MEM_SIZE_ALIGNED
      \<and> lfree (plug_fwd_heap a h) = lfree h
      \<and> mem_used (ram (plug_fwd_heap a h) MEM_SIZE_ALIGNED) \<noteq> 0
      \<and> (x < a \<longrightarrow> ram (plug_fwd_heap a h) x = ram h x)"
  proof (cases ys)
    case Nil
    then show ?thesis using assms seg a pr by (auto simp: plug_fwd_heap_def)
  next
    case (Cons y zs)
    then obtain f u where y: "y = (e, f, u)" using seg by (cases y) auto
    have eM: "e \<noteq> MEM_SIZE_ALIGNED" using hseg_lt [OF seg] Cons by simp
    have f: "mem_next (ram h e) = f" "(mem_used (ram h e) \<noteq> 0) = u" "e + 20 \<le> f"
      and segz: "hseg (ram h) e f zs MEM_SIZE_ALIGNED" "4 dvd f"
      using seg y Cons by (auto simp: mem_consts)
    show ?thesis
    proof (cases u)
      case True
      with f y Cons assms(1,4) show ?thesis using a by (auto simp: plug_fwd_heap_def)
    next
      case False
      have "hseg ((ram h)(f := (ram h f)\<lparr>mem_prev := a\<rparr>)) a f zs MEM_SIZE_ALIGNED"
        using segz(1) by (cases "zs = []") (simp, rule hseg_set_prev)
      then have z: "hseg ((ram h)(f := (ram h f)\<lparr>mem_prev := a\<rparr>, a := m)) a f zs MEM_SIZE_ALIGNED" for m
        by (rule hseg_upd_outside [rotated]) (use a f in simp)
      show ?thesis
        using False f y Cons a e eM assms(3,4) pr segz(2) z hseg_le [OF segz(1)]
        by (auto simp: plug_fwd_heap_def Let_def set_defs mem_consts fun_upd_twist)
    qed
  qed
  then show "hseg (ram (plug_fwd_heap a h)) prv a (plug_fwd a e ys) MEM_SIZE_ALIGNED"
    and "lfree (plug_fwd_heap a h) = lfree h"
    and "mem_used (ram (plug_fwd_heap a h) MEM_SIZE_ALIGNED) \<noteq> 0"
    and "x < a \<Longrightarrow> ram (plug_fwd_heap a h) x = ram h x" by blast+
qed

lemma hseg_prev:
  assumes "hseg r 0 0 xs a"
  shows "if xs = [] then a = 0 else
     (\<exists>us b u. xs = us @ [(b, a, u)] \<and> last_start 0 xs = b \<and> b < a \<and> 0 \<le> b \<and> (mem_used (r b) \<noteq> 0) = u
        \<and> hseg r 0 0 us b \<and> mem_next (r b) = a \<and> mem_prev (r b) = last_start 0 us \<and> 4 dvd b)"
  using assms
  by (cases xs rule: rev_cases) (auto simp: hseg_append mem_consts dest: hseg_le)

lemma plug_bwd_heap_seg:
  assumes "hseg (ram h) 0 0 (xs @ (a, e, False) # ys) MEM_SIZE_ALIGNED" "lfree h = first_free (xs @ [(a, e, False)])"
    and "mem_used (ram h MEM_SIZE_ALIGNED) \<noteq> 0"
  defines "bs \<equiv> (if xs \<noteq> [] \<and> \<not> snd (snd (last xs))
      then butlast xs @ (fst (last xs), e, False) # ys else xs @ (a, e, False) # ys)"
  shows "hseg (ram (plug_bwd_heap a h)) 0 0 bs MEM_SIZE_ALIGNED"
    and "lfree (plug_bwd_heap a h) = first_free bs"
    and "mem_used (ram (plug_bwd_heap a h) MEM_SIZE_ALIGNED) \<noteq> 0"
proof -
  have segx: "hseg (ram h) 0 0 xs a" and pr: "mem_prev (ram h a) = last_start 0 xs"
    and a: "mem_next (ram h a) = e" "a + 20 \<le> e" "4 dvd a" "4 dvd e" "mem_used (ram h a) = 0"
    and segy: "hseg (ram h) a e ys MEM_SIZE_ALIGNED"
    using assms(1) by (auto simp: hseg_append mem_consts)
  note e = hseg_le [OF segy]
  have "hseg (ram (plug_bwd_heap a h)) 0 0 bs MEM_SIZE_ALIGNED \<and> lfree (plug_bwd_heap a h) = first_free bs
      \<and> mem_used (ram (plug_bwd_heap a h) MEM_SIZE_ALIGNED) \<noteq> 0"
  proof (cases "xs \<noteq> [] \<and> \<not> snd (snd (last xs))")
    case False
    then have "plug_bwd_heap a h = h"
      using hseg_prev [OF segx] pr by (cases "xs = []") (auto simp: plug_bwd_heap_def)
    with False assms show ?thesis by (auto simp: first_free_app)
  next
    case True
    then obtain us b where b: "xs = us @ [(b, a, False)]" "last_start 0 xs = b" "b < a" "0 \<le> b"
      "mem_used (ram h b) = 0" "hseg (ram h) 0 0 us b" "mem_prev (ram h b) = last_start 0 us" "4 dvd b"
      using hseg_prev [OF segx] by (auto split: if_splits)
    have c: "c_u16 b = b" using b(3,4) a(2) e by (simp add: c_u16_def mem_consts)
    have nal: "lfree h \<noteq> a"
      using assms(2) b hseg_first_free' [OF b(6)] by (auto simp: first_free_app)
    have "hseg ((ram h)(e := (ram h e)\<lparr>mem_prev := b\<rparr>)) b e ys MEM_SIZE_ALIGNED"
      using segy by (cases "ys = []") (simp, rule hseg_set_prev)
    then have y: "hseg ((ram h)(e := (ram h e)\<lparr>mem_prev := b\<rparr>, b := m)) b e ys MEM_SIZE_ALIGNED" for m
      by (rule hseg_upd_outside [rotated]) (use a b in simp)
    have u: "hseg ((ram h)(e := (ram h e)\<lparr>mem_prev := b\<rparr>, b := m)) 0 0 us b" for m
      using a b by (intro hseg_upd_outside) auto
    show ?thesis
      using True a b c nal y u assms(2,3) pr
      by (auto simp: bs_def plug_bwd_heap_def Let_def set_defs hseg_append mem_consts fun_upd_twist
          first_free_app)
  qed
  then show "hseg (ram (plug_bwd_heap a h)) 0 0 bs MEM_SIZE_ALIGNED"
    and "lfree (plug_bwd_heap a h) = first_free bs"
    and "mem_used (ram (plug_bwd_heap a h) MEM_SIZE_ALIGNED) \<noteq> 0" by blast+
qed


lemma no_adj_mark: "no_adj_free (xs @ (a, e, True) # ys) \<Longrightarrow> no_adj_free (plug_blocks xs a e ys)"
  by (cases xs rule: rev_cases; cases "(a, e, ys)" rule: plug_fwd.cases)
    (auto simp: plug_blocks_def no_adj_free_append no_adj_free_Cons)

lemma first_free_plug:
  "first_free (xs @ plug_fwd a e ys) = first_free (xs @ [(a, e, False)])"
  using plug_fwd_Cons [of a e ys] by (auto simp: first_free_app)

theorem mem_free_merges:
  assumes inv: "heap_inv h bs" and blk: "(p - SIZEOF_STRUCT_MEM, e, True) \<in> set bs"
  shows "heap_inv (mem_free (Some p) h) (free_blocks p bs)"
proof -
  let ?a = "p - SIZEOF_STRUCT_MEM"
  obtain xs ys where bs: "bs = xs @ (?a, e, True) # ys" using blk by (meson split_list)
  from inv have seg: "hseg (ram h) 0 0 bs MEM_SIZE_ALIGNED" and lf: "lfree h = first_free bs"
    and endu: "mem_used (ram h MEM_SIZE_ALIGNED) \<noteq> 0" and adj: "no_adj_free bs"
    by (auto simp: heap_inv_def)
  have rng: "0 \<le> ?a" "?a + 20 \<le> e" "e \<le> MEM_SIZE_ALIGNED"
    using hseg_range [OF seg blk] by (auto simp: mem_consts)
  define h1 where "h1 = (let h = set_used ?a 0 h in if ?a < lfree h then h\<lparr>lfree := ?a\<rparr> else h)"
  have free: "mem_free (Some p) h = plug_bwd_heap ?a (plug_fwd_heap ?a h1)"
    using rng by (simp add: mem_free_def h1_def Let_def plug_holes_split mem_consts)
  have segx: "hseg (ram h) 0 0 xs ?a"
    and sega: "hseg (ram h) (last_start 0 xs) ?a ((?a, e, True) # ys) MEM_SIZE_ALIGNED"
    using seg by (auto simp: bs hseg_append)
  have segx1: "hseg (ram h1) 0 0 xs ?a"
    using segx by (auto simp: h1_def Let_def set_defs)
  have sega1: "hseg (ram h1) (last_start 0 xs) ?a ((?a, e, False) # ys) MEM_SIZE_ALIGNED"
    using sega rng by (auto simp: h1_def Let_def set_defs)
  have lf1: "lfree h1 = first_free (xs @ [(?a, e, False)])"
  proof (cases "all_used xs")
    case True
    have "?a < first_free ys"
      using sega hseg_first_free [of "ram h" ?a e ys] rng by (auto simp: mem_consts)
    with True lf show ?thesis by (simp add: h1_def Let_def set_defs bs first_free_app)
  next
    case False
    with hseg_first_free' [OF segx] lf show ?thesis
      by (simp add: h1_def Let_def set_defs bs first_free_app)
  qed
  have endu1: "mem_used (ram h1 MEM_SIZE_ALIGNED) \<noteq> 0"
    using endu rng by (auto simp: h1_def Let_def set_defs)
  have le1: "lfree h1 \<le> ?a" using lf1 hseg_first_free' [OF segx] by (auto simp: first_free_app)
  note fwd = plug_fwd_heap_seg [OF sega1 rng(1) le1 endu1]
  obtain f zs where f: "plug_fwd ?a e ys = (?a, f, False) # zs" using plug_fwd_Cons by blast
  have "hseg (ram (plug_fwd_heap ?a h1)) 0 0 xs ?a"
    using segx1 by (rule hseg_frame) (use fwd(4) in auto)
  with fwd(1) f have seg2: "hseg (ram (plug_fwd_heap ?a h1)) 0 0 (xs @ (?a, f, False) # zs) MEM_SIZE_ALIGNED"
    by (subst hseg_append) auto
  have lf2: "lfree (plug_fwd_heap ?a h1) = first_free (xs @ [(?a, f, False)])"
    using fwd(2) lf1 by (simp add: first_free_app)
  have "plug_blocks xs ?a e ys = (if xs \<noteq> [] \<and> \<not> snd (snd (last xs))
      then butlast xs @ (fst (last xs), f, False) # zs else xs @ (?a, f, False) # zs)"
    by (simp add: plug_blocks_def f)
  then have "heap_inv (mem_free (Some p) h) (plug_blocks xs ?a e ys)"
    using plug_bwd_heap_seg [OF seg2 lf2 fwd(3)] no_adj_mark [OF adj [unfolded bs]]
    by (simp only: heap_inv_def free simp_thms)
  moreover have "free_blocks p bs = plug_blocks xs ?a e ys"
    using mark_free_app [of "ram h" 0 0 xs ?a e True ys] seg adj
    by (simp add: free_blocks_def bs plug_blocks_merge)
  ultimately show ?thesis by simp
qed


section \<open>mem_trim refines shrinking a block\<close>

fun trim_blocks :: "int \<Rightarrow> int \<Rightarrow> blk list \<Rightarrow> blk list" where
  "trim_blocks s n [] = []"
| "trim_blocks s n ((a, e, u) # bs) =
     (if a \<noteq> s then (a, e, u) # trim_blocks s n bs
      else let k = a + SIZEOF_STRUCT_MEM + n
           in if k = e then (a, e, u) # bs
              else case bs of
                (_, f, False) # cs \<Rightarrow> (a, k, u) # (k, f, False) # cs
              | _ \<Rightarrow> if n + SIZEOF_STRUCT_MEM + MIN_SIZE_ALIGNED \<le> e - a - SIZEOF_STRUCT_MEM
                     then (a, k, u) # (k, e, False) # bs else (a, e, u) # bs)"

lemma trim_blocks_app:
  "hseg r prv p (xs @ (a, e, u) # ys) q \<Longrightarrow>
     trim_blocks a n (xs @ (a, e, u) # ys) = xs @ trim_blocks a n ((a, e, u) # ys)"
proof (induction xs arbitrary: prv p)
  case (Cons x xs)
  obtain b f v where x: "x = (b, f, v)" by (cases x)
  with Cons.prems have "hseg r b f (xs @ (a, e, u) # ys) q" "b + 20 \<le> f" by (auto simp: mem_consts)
  moreover from this have "f \<le> a" using hseg_range [of r b f _ q a e u] by simp
  ultimately show ?case using Cons.IH by (simp add: x)
qed simp

lemma trim_size:
  assumes "0 \<le> p - SIZEOF_STRUCT_MEM" "mem_next (ram h (p - SIZEOF_STRUCT_MEM)) = e"
    "p + 12 \<le> e" "e \<le> MEM_SIZE_ALIGNED"
  shows "c_u16 (p - SIZEOF_STRUCT_MEM) = p - SIZEOF_STRUCT_MEM"
    "c_u16 (e - (p - SIZEOF_STRUCT_MEM) - SIZEOF_STRUCT_MEM) = e - p"
    "request_size n \<le> e - p \<Longrightarrow>
       c_u16 (p - SIZEOF_STRUCT_MEM + SIZEOF_STRUCT_MEM + request_size n) = p + request_size n"
  using assms request_size_props(1) [of n] by (auto simp: c_u16_def mem_consts)

lemma mem_trim_cases:
  assumes "0 \<le> p - SIZEOF_STRUCT_MEM" "mem_next (ram h (p - SIZEOF_STRUCT_MEM)) = e"
    "p + 12 \<le> e" "e \<le> MEM_SIZE_ALIGNED"
  shows "mem_trim p n h =
    (let m = request_size n; a = p - SIZEOF_STRUCT_MEM; k = p + m
     in if e - p < m then (None, h)
        else if m = e - p then (Some p, h)
        else if mem_used (ram h e) = 0
        then let f = mem_next (ram h e);
                 h = (if lfree h = e then h\<lparr>lfree := k\<rparr> else h);
                 h = set_next a k (set_prev k a (set_next k f (set_used k 0 h)))
             in (Some p, if mem_next (ram h k) \<noteq> MEM_SIZE_ALIGNED
                         then set_prev (mem_next (ram h k)) k h else h)
        else if m + SIZEOF_STRUCT_MEM + MIN_SIZE_ALIGNED \<le> e - p
        then let h = (if k < lfree h then h\<lparr>lfree := k\<rparr> else h);
                 h = set_next a k (set_prev k a (set_next k e (set_used k 0 h)))
             in (Some p, if mem_next (ram h k) \<noteq> MEM_SIZE_ALIGNED
                         then set_prev (mem_next (ram h k)) k h else h)
        else (Some p, h))"
proof -
  have req: "(if c_u16 (LWIP_MEM_ALIGN_SIZE n) < MIN_SIZE_ALIGNED then MIN_SIZE_ALIGNED
      else c_u16 (LWIP_MEM_ALIGN_SIZE n)) = request_size n" by (simp add: request_size_def Let_def)
  have p: "\<not> (p < 0 \<or> MEM_SIZE_ALIGNED \<le> p)" using assms by (auto simp: mem_consts)
  note sz = trim_size [OF assms]
  show ?thesis
    unfolding mem_trim_def Let_def req if_not_P [OF p] sz(1) assms(2) sz(2)
    using assms sz(3) request_size_props(1) [of n]
    by (auto simp: set_defs mem_consts)
qed


text \<open>Both ways of cutting a block at \<open>k\<close>, with a free rest that ends at \<open>f\<close>.\<close>

lemma hseg_cut:
  assumes "hseg (ram h) (last_start 0 xs) a ((a, e, True) # ws) f"
    and "hseg (ram h) 0 0 xs a" "hseg (ram h) w f cs MEM_SIZE_ALIGNED"
    and "a + 20 \<le> k" "k + 20 \<le> f" "4 dvd k" "4 dvd f" "ram h' = ram h"
  defines "h2 \<equiv> set_next a k (set_prev k a (set_next k f (set_used k 0 h')))"
  shows "hseg (ram (if f \<noteq> MEM_SIZE_ALIGNED then set_prev f k h2 else h2)) 0 0
     (xs @ (a, k, True) # (k, f, False) # cs) MEM_SIZE_ALIGNED"
proof -
  have f: "f \<le> MEM_SIZE_ALIGNED" using hseg_le [OF assms(3)] .
  have a: "mem_prev (ram h a) = last_start 0 xs" "mem_used (ram h a) \<noteq> 0" "4 dvd a" "0 \<le> a"
    using assms(1,2) hseg_le by auto
  let ?r = "\<lambda>r. if f \<noteq> MEM_SIZE_ALIGNED then r(f := (r f)\<lparr>mem_prev := k\<rparr>) else r"
  have cs: "hseg (?r (ram h)) k f cs MEM_SIZE_ALIGNED"
    using assms(3) hseg_empty_iff [OF assms(3)]
    by (cases "cs = []") (auto intro: hseg_set_prev)
  have fr: "hseg r k f cs MEM_SIZE_ALIGNED"
    if "\<And>x. f \<le> x \<Longrightarrow> r x = ?r (ram h) x" for r
    using cs by (rule hseg_frame) (use that in auto)
  have frx: "hseg r 0 0 xs a" if "\<And>x. x < a \<Longrightarrow> r x = ram h x" for r
    using assms(2) by (rule hseg_frame) (use that in auto)
  show ?thesis
    using assms(4-8) a f hseg_empty_iff [OF assms(3)]
    by (auto simp: h2_def set_defs hseg_append SIZEOF_STRUCT_MEM_def MIN_SIZE_ALIGNED_def
        intro!: fr frx)
qed

definition cut_heap :: "heap \<Rightarrow> int \<Rightarrow> int \<Rightarrow> int \<Rightarrow> heap" where
  "cut_heap h a k f =
     (let h2 = set_next a k (set_prev k a (set_next k f (set_used k 0 h)))
      in if mem_next (ram h2 k) \<noteq> MEM_SIZE_ALIGNED then set_prev (mem_next (ram h2 k)) k h2 else h2)"

lemma heap_inv_cut:
  assumes inv: "heap_inv h (xs @ (a, e, True) # ws @ cs)"
    and ws: "ws = [] \<and> f = e \<or> ws = [(e, f, False)]" and cs: "cs = [] \<or> snd (snd (hd cs))"
    and k: "a + 20 \<le> k" "k + 20 \<le> f" "4 dvd k" "k \<le> e"
    and h': "ram h' = ram h" "lfree h' = (if all_used xs then k else lfree h)"
  shows "heap_inv (cut_heap h' a k f) (xs @ (a, k, True) # (k, f, False) # cs)"
proof -
  define h2 where "h2 = set_next a k (set_prev k a (set_next k f (set_used k 0 h')))"
  have seg: "hseg (ram h) 0 0 (xs @ ((a, e, True) # ws) @ cs) MEM_SIZE_ALIGNED"
    and lf: "lfree h = first_free (xs @ (a, e, True) # ws @ cs)"
    and endu: "mem_used (ram h MEM_SIZE_ALIGNED) \<noteq> 0" and adj: "no_adj_free (xs @ (a, e, True) # ws @ cs)"
    using inv by (auto simp: heap_inv_def)
  have segx: "hseg (ram h) 0 0 xs a" and segc: "hseg (ram h) (last_start a ws) f cs MEM_SIZE_ALIGNED"
    and sega: "hseg (ram h) (last_start 0 xs) a ((a, e, True) # ws) f" "4 dvd f"
    using seg ws by (auto simp: hseg_append)
  have nx: "mem_next (ram h2 k) = f" using k by (simp add: h2_def set_defs)
  have "hseg (ram (if f \<noteq> MEM_SIZE_ALIGNED then set_prev f k h2 else h2)) 0 0
     (xs @ (a, k, True) # (k, f, False) # cs) MEM_SIZE_ALIGNED"
    unfolding h2_def by (rule hseg_cut [OF sega(1) segx segc k(1,2,3) sega(2) h'(1)])
  moreover have "no_adj_free (xs @ (a, k, True) # (k, f, False) # cs)"
    using adj cs ws by (auto simp: no_adj_free_append no_adj_free_Cons)
  moreover have "mem_used (ram (if f \<noteq> MEM_SIZE_ALIGNED then set_prev f k h2 else h2) MEM_SIZE_ALIGNED) \<noteq> 0"
    using endu h'(1) k hseg_le [OF segc] by (auto simp: h2_def set_defs)
  moreover have "lfree (if f \<noteq> MEM_SIZE_ALIGNED then set_prev f k h2 else h2)
      = first_free (xs @ (a, k, True) # (k, f, False) # cs)"
    using h'(2) lf by (auto simp: h2_def set_defs first_free_app)
  moreover have "cut_heap h' a k f = (if f \<noteq> MEM_SIZE_ALIGNED then set_prev f k h2 else h2)"
    by (simp only: cut_heap_def Let_def nx [unfolded h2_def] h2_def)
  ultimately show ?thesis by (simp only: heap_inv_def simp_thms)
qed

theorem mem_trim_shrinks:
  assumes inv: "heap_inv h bs" and blk: "(p - SIZEOF_STRUCT_MEM, e, True) \<in> set bs"
  shows "if e - p < request_size n then mem_trim p n h = (None, h)
     else \<exists>h'. mem_trim p n h = (Some p, h') \<and>
       heap_inv h' (trim_blocks (p - SIZEOF_STRUCT_MEM) (request_size n) bs)"
proof -
  let ?a = "p - SIZEOF_STRUCT_MEM" and ?m = "request_size n"
  obtain xs ys where bs: "bs = xs @ (?a, e, True) # ys" using blk by (meson split_list)
  from inv have seg: "hseg (ram h) 0 0 bs MEM_SIZE_ALIGNED" and lf: "lfree h = first_free bs"
    and endu: "mem_used (ram h MEM_SIZE_ALIGNED) \<noteq> 0" and adj: "no_adj_free bs"
    by (auto simp: heap_inv_def)
  have rng: "0 \<le> ?a" "?a + 20 \<le> e" "e \<le> MEM_SIZE_ALIGNED"
    using hseg_range [OF seg blk] by (auto simp: mem_consts)
  have nx: "mem_next (ram h ?a) = e" and segx: "hseg (ram h) 0 0 xs ?a"
    and segy: "hseg (ram h) ?a e ys MEM_SIZE_ALIGNED" and d: "4 dvd ?a" "4 dvd e"
    using seg by (auto simp: bs hseg_append)
  note T = mem_trim_cases [of p h e n, OF rng(1) nx _ rng(3)]
  have trim: "trim_blocks ?a ?m bs = xs @ trim_blocks ?a ?m ((?a, e, True) # ys)"
    using seg unfolding bs by (rule trim_blocks_app)
  let ?k = "p + ?m"
  have k: "?a + 20 \<le> ?k" "4 dvd ?k"
    using request_size_props [of n] d dvd_add [OF d(1) request_size_props(2) [of n]]
    by (auto simp: mem_consts algebra_simps)
  have pe: "p + 12 \<le> e" using rng by (simp add: mem_consts)
  have lfx: "\<not> all_used xs \<Longrightarrow> lfree h < ?a"
    using hseg_first_free' [OF segx] by (simp add: lf bs first_free_app)
  have lfy: "all_used xs \<Longrightarrow> lfree h = first_free ys"
    by (simp add: lf bs first_free_app)
  consider "e - p < ?m" | "?m = e - p" | "?m < e - p" "ys = [] \<or> snd (snd (hd ys))"
    | f cs where "?m < e - p" "ys = (e, f, False) # cs"
  proof (cases "?m < e - p")
    case True
    show ?thesis
    proof (cases ys)
      case (Cons y cs)
      obtain b f u where y: "y = (b, f, u)" by (cases y)
      then have "b = e" using segy Cons by auto
      with True Cons y that(3,4) show ?thesis by (cases u) auto
    qed (use True that(3) in simp)
  qed (use that(1,2) in linarith)
  then show ?thesis
  proof cases
    case 1
    then show ?thesis using T pe by (simp add: Let_def)
  next
    case 2
    then show ?thesis using T pe inv trim bs by (simp add: Let_def mem_consts)
  next
    case 3
    have u: "mem_used (ram h e) \<noteq> 0"
      using 3(2) segy endu by (cases ys) auto
    show ?thesis
    proof (cases "?m + SIZEOF_STRUCT_MEM + MIN_SIZE_ALIGNED \<le> e - p")
      case False
      have "trim_blocks ?a ?m ((?a, e, True) # ys) = (?a, e, True) # ys"
        using 3(2) False by (cases ys) (auto simp: mem_consts Let_def split: prod.splits bool.splits)
      with False T pe 3 u inv trim bs show ?thesis by (simp add: Let_def)
    next
      case True
      have "trim_blocks ?a ?m ((?a, e, True) # ys) = (?a, ?k, True) # (?k, e, False) # ys"
        using 3 True by (cases ys) (auto simp: mem_consts Let_def split: prod.splits bool.splits)
      moreover define h1 where "h1 = (if ?k < lfree h then h\<lparr>lfree := ?k\<rparr> else h)"
      moreover have "heap_inv (cut_heap h1 ?a ?k e) (xs @ (?a, ?k, True) # (?k, e, False) # ys)"
      proof (rule heap_inv_cut [of h xs ?a e "[]" ys])
        show "lfree h1 = (if all_used xs then ?k else lfree h)"
          using lfx lfy k hseg_first_free [OF segy] 3 by (cases "all_used xs") (auto simp: h1_def mem_consts)
      qed (use inv bs k 3 True in \<open>auto simp: h1_def mem_consts\<close>)
      moreover have "(e - p < ?m) = False" "(?m = e - p) = False" "(mem_used (ram h e) = 0) = False"
        using 3 u by auto
      then have "mem_trim p n h = (Some p, cut_heap h1 ?a ?k e)"
        using True by (simp only: T [OF pe] Let_def if_False if_True cut_heap_def h1_def)
      ultimately show ?thesis using 3 by (simp add: trim)
    qed
  next
    case 4
    have u: "mem_used (ram h e) = 0" and f: "mem_next (ram h e) = f" "e + 20 \<le> f"
      using 4(2) segy by (auto simp: mem_consts)
    have "trim_blocks ?a ?m ((?a, e, True) # ys) = (?a, ?k, True) # (?k, f, False) # cs"
      using 4 by (auto simp: mem_consts Let_def)
    moreover define h1 where "h1 = (if lfree h = e then h\<lparr>lfree := ?k\<rparr> else h)"
    moreover have "heap_inv (cut_heap h1 ?a ?k f) (xs @ (?a, ?k, True) # (?k, f, False) # cs)"
    proof (rule heap_inv_cut [of h xs ?a e "[(e, f, False)]" cs])
      show "lfree h1 = (if all_used xs then ?k else lfree h)"
        using lfx lfy k rng 4 by (cases "all_used xs") (auto simp: h1_def mem_consts)
      show "cs = [] \<or> snd (snd (hd cs))"
        using adj 4 by (auto simp: bs no_adj_free_append no_adj_free_Cons)
    qed (use inv bs k 4 f in \<open>auto simp: h1_def mem_consts\<close>)
    moreover have "(e - p < ?m) = False" "(?m = e - p) = False" "(mem_used (ram h e) = 0) = True"
      using 4 u by auto
    then have "mem_trim p n h = (Some p, cut_heap h1 ?a ?k f)"
      by (simp only: T [OF pe] Let_def if_False if_True cut_heap_def h1_def f(1))
    ultimately show ?thesis using 4 by (simp add: trim)
  qed
qed


section \<open>Live regions\<close>

text \<open>
  \<open>live h p s\<close>: the heap \<open>h\<close> has handed out the \<open>s\<close> bytes at \<open>p\<close>.
\<close>

definition heap_ok :: "heap \<Rightarrow> bool" where
  "heap_ok h \<longleftrightarrow> (\<exists>bs. heap_inv h bs)"

definition live :: "heap \<Rightarrow> int \<Rightarrow> int \<Rightarrow> bool" where
  "live h p s \<longleftrightarrow> (\<exists>bs. heap_inv h bs \<and> (p - SIZEOF_STRUCT_MEM, p + s, True) \<in> set bs)"

lemma hseg_unique: "hseg r prv p bs q \<Longrightarrow> hseg r prv p cs q \<Longrightarrow> bs = cs"
proof (induction bs arbitrary: prv p cs)
  case Nil
  then show ?case using hseg_empty_iff [of r prv p cs q] by auto
next
  case (Cons b bs)
  with hseg_lt [OF Cons.prems(1)] have "cs \<noteq> []" by auto
  then obtain c cs' where cs: "cs = c # cs'" by (cases cs) auto
  obtain a e u where "b = (a, e, u)" by (cases b)
  moreover obtain a' e' u' where "c = (a', e', u')" by (cases c)
  ultimately show ?case using Cons cs by auto
qed

lemma heap_inv_unique: "heap_inv h bs \<Longrightarrow> heap_inv h cs \<Longrightarrow> bs = cs"
  by (auto simp: heap_inv_def intro: hseg_unique)

lemma live_iff: "heap_inv h bs \<Longrightarrow> live h p s \<longleftrightarrow> (p - SIZEOF_STRUCT_MEM, p + s, True) \<in> set bs"
  unfolding live_def using heap_inv_unique by blast

lemma blocks_apart:
  "hseg r prv p bs q \<Longrightarrow> (a, e, u) \<in> set bs \<Longrightarrow> (b, f, v) \<in> set bs \<Longrightarrow>
     a = b \<and> e = f \<and> u = v \<or> e \<le> b \<or> f \<le> a"
proof (induction r prv p bs q rule: hseg.induct)
  case (2 r prv p c g w bs q)
  from 2 hseg_range [of r c g bs q] show ?case by auto
qed simp

lemma used_merge_free: "(a, e, True) \<in> set (merge_free bs) \<longleftrightarrow> (a, e, True) \<in> set bs"
  by (induction bs rule: merge_free.induct) auto

lemma used_free_blocks:
  assumes "hseg r prv p0 bs q" "(p - SIZEOF_STRUCT_MEM, e, True) \<in> set bs"
  shows "(a, f, True) \<in> set (free_blocks p bs) \<longleftrightarrow> (a, f, True) \<in> set bs \<and> a \<noteq> p - SIZEOF_STRUCT_MEM"
proof -
  obtain xs ys where bs: "bs = xs @ (p - SIZEOF_STRUCT_MEM, e, True) # ys"
    using assms(2) by (meson split_list)
  have "a \<noteq> p - SIZEOF_STRUCT_MEM" if "(a, f, True) \<in> set (xs @ ys)"
  proof
    assume eq: "a = p - SIZEOF_STRUCT_MEM"
    have "hseg r prv p0 xs (p - SIZEOF_STRUCT_MEM)" "hseg r (p - SIZEOF_STRUCT_MEM) e ys q"
      using assms(1) by (auto simp: bs hseg_append)
    then show False
      using that eq hseg_range [of r prv p0 xs "p - SIZEOF_STRUCT_MEM" a f True]
        hseg_range [of r "p - SIZEOF_STRUCT_MEM" e ys q a f True]
        hseg_range [OF assms] by (auto simp: mem_consts)
  qed
  then show ?thesis
    using mark_free_app [of r prv p0 xs _ e True ys q] assms(1)
    by (auto simp: free_blocks_def used_merge_free bs)
qed

lemma alloc_blocks_used_iff:
  assumes "alloc_blocks n bs = Some (p, bs')" "hseg r prv p0 bs q" "0 \<le> n"
  obtains s where "n \<le> s" "\<And>b f. (b, f, True) \<in> set bs' \<longleftrightarrow>
      (b, f, True) \<in> set bs \<or> (b = p - SIZEOF_STRUCT_MEM \<and> f = p + s)"
    "\<And>f. (p - SIZEOF_STRUCT_MEM, f, True) \<notin> set bs"
    "\<And>b f. (b, f, True) \<in> set bs \<Longrightarrow> f \<le> p - SIZEOF_STRUCT_MEM \<or> p + s \<le> b"
proof -
  obtain xs a e ys where s: "bs = xs @ (a, e, False) # ys" "p = a + SIZEOF_STRUCT_MEM"
    "n \<le> e - a - SIZEOF_STRUCT_MEM"
    "bs' = xs @ (if n + SIZEOF_STRUCT_MEM + MIN_SIZE_ALIGNED \<le> e - a - SIZEOF_STRUCT_MEM
      then [(a, a + SIZEOF_STRUCT_MEM + n, True), (a + SIZEOF_STRUCT_MEM + n, e, False)]
      else [(a, e, True)]) @ ys" using assms(1) by (rule alloc_blocks_split)
  have ap: "f \<le> a \<or> e \<le> b" "b \<noteq> a" if "(b, f, True) \<in> set bs" for b f
    using blocks_apart [OF assms(2) that, of a e False] s(1)
      hseg_range [OF assms(2) that] hseg_range [OF assms(2), of a e False]
    by (auto simp: mem_consts)
  show ?thesis
  proof (cases "n + SIZEOF_STRUCT_MEM + MIN_SIZE_ALIGNED \<le> e - a - SIZEOF_STRUCT_MEM")
    case True
    show ?thesis
      by (rule that [of n]) (use True s ap in \<open>fastforce simp: mem_consts\<close>)+
  next
    case False
    show ?thesis
      by (rule that [of "e - p"]) (use False s ap in \<open>fastforce simp: mem_consts\<close>)+
  qed
qed


section \<open>The allocator interface\<close>

text \<open>
  What the stack's modules rely on: allocation always returns; a failed allocation changes
  nothing; a successful one adds one region, at least as large as asked for and apart from
  every other live region; releasing a live region removes exactly that one.
\<close>

locale region_allocator =
  fixes ok :: "'h \<Rightarrow> bool"
    and reg :: "'h \<Rightarrow> int \<Rightarrow> int \<Rightarrow> bool"
    and want :: "int \<Rightarrow> int"
    and alloc :: "int \<Rightarrow> 'h \<Rightarrow> (int option \<times> 'h) option"
    and release :: "int option \<Rightarrow> 'h \<Rightarrow> 'h"
  assumes alloc_returns: "ok h \<Longrightarrow> \<exists>r h'. alloc n h = Some (r, h') \<and> ok h'"
    and alloc_fails: "ok h \<Longrightarrow> alloc n h = Some (None, h') \<Longrightarrow> h' = h"
    and alloc_region: "ok h \<Longrightarrow> alloc n h = Some (Some p, h') \<Longrightarrow>
      \<exists>s \<ge> want n. (\<forall>q t. reg h' q t \<longleftrightarrow> reg h q t \<or> q = p \<and> t = s) \<and> (\<forall>t. \<not> reg h p t)"
    and regions_apart: "ok h \<Longrightarrow> reg h p s \<Longrightarrow> reg h q t \<Longrightarrow> p = q \<and> s = t \<or> p + s \<le> q \<or> q + t \<le> p"
    and release_null: "release None h = h"
    and release_region: "ok h \<Longrightarrow> reg h p s \<Longrightarrow>
      ok (release (Some p) h) \<and> (\<forall>q t. reg (release (Some p) h) q t \<longleftrightarrow> reg h q t \<and> q \<noteq> p)"
begin

lemma alloc_fresh:
  assumes "ok h" "alloc n h = Some (Some p, h')"
  obtains s where "want n \<le> s" "reg h' p s"
    "\<And>q t. reg h q t \<Longrightarrow> reg h' q t \<and> (p + s \<le> q \<or> q + t \<le> p)"
proof -
  obtain s where s: "want n \<le> s" "\<And>q t. reg h' q t \<longleftrightarrow> reg h q t \<or> q = p \<and> t = s"
    "\<And>t. \<not> reg h p t" using alloc_region [OF assms] by blast
  have "ok h'" using alloc_returns [OF assms(1), of n] assms(2) by auto
  then have "p + s \<le> q \<or> q + t \<le> p" if "reg h q t" for q t
    using regions_apart [of h' p s q t] s that by auto
  with s show ?thesis by (intro that [of s]) auto
qed

lemma release_alloc:
  assumes "ok h" "alloc n h = Some (Some p, h')"
  shows "ok (release (Some p) h')" "reg (release (Some p) h') = reg h"
proof -
  obtain s where s: "\<And>q t. reg h' q t \<longleftrightarrow> reg h q t \<or> q = p \<and> t = s" "\<And>t. \<not> reg h p t"
    using alloc_region [OF assms] by blast
  have "ok h'" using alloc_returns [OF assms(1), of n] assms(2) by auto
  note rel = release_region [OF this, of p s]
  show "ok (release (Some p) h')" using rel s by blast
  show "reg (release (Some p) h') = reg h" using rel s by (intro ext) blast
qed

end

interpretation mem: region_allocator heap_ok live request_size mem_malloc mem_free
proof
  fix h n
  assume "heap_ok h"
  then obtain bs where inv: "heap_inv h bs" by (auto simp: heap_ok_def)
  show "\<exists>r h'. mem_malloc n h = Some (r, h') \<and> heap_ok h'"
    using mem_malloc_first_fit [OF inv, of n] inv
    by (auto simp: heap_ok_def split: if_splits option.splits)
next
  fix h n h'
  assume "heap_ok h" and m: "mem_malloc n h = Some (None, h')"
  then obtain bs where inv: "heap_inv h bs" by (auto simp: heap_ok_def)
  show "h' = h"
    using mem_malloc_first_fit [OF inv, of n] m by (auto split: if_splits option.splits)
next
  fix h n p h'
  assume "heap_ok h" and m: "mem_malloc n h = Some (Some p, h')"
  then obtain bs where inv: "heap_inv h bs" by (auto simp: heap_ok_def)
  obtain bs' where a: "alloc_blocks (request_size n) bs = Some (p, bs')" "heap_inv h' bs'"
    using mem_malloc_first_fit [OF inv, of n] m by (auto split: if_splits option.splits)
  have seg: "hseg (ram h) 0 0 bs MEM_SIZE_ALIGNED" using inv by (simp add: heap_inv_def)
  show "\<exists>s \<ge> request_size n. (\<forall>q t. live h' q t \<longleftrightarrow> live h q t \<or> q = p \<and> t = s) \<and> (\<forall>t. \<not> live h p t)"
  proof (rule alloc_blocks_used_iff [OF a(1) seg])
    show "0 \<le> request_size n" using request_size_props(1) [of n] by simp
  next
    fix s
    assume "request_size n \<le> s"
      "\<And>b f. (b, f, True) \<in> set bs' \<longleftrightarrow> (b, f, True) \<in> set bs \<or> (b = p - SIZEOF_STRUCT_MEM \<and> f = p + s)"
      "\<And>f. (p - SIZEOF_STRUCT_MEM, f, True) \<notin> set bs"
    then show ?thesis
      by (intro exI [of _ s]) (auto simp: live_iff [OF inv] live_iff [OF a(2)])
  qed
next
  fix h p s q t
  assume "heap_ok h" "live h p s" "live h q t"
  then obtain bs where inv: "heap_inv h bs" by (auto simp: heap_ok_def)
  then have seg: "hseg (ram h) 0 0 bs MEM_SIZE_ALIGNED"
    and "(p - SIZEOF_STRUCT_MEM, p + s, True) \<in> set bs" "(q - SIZEOF_STRUCT_MEM, q + t, True) \<in> set bs"
    using \<open>live h p s\<close> \<open>live h q t\<close> by (auto simp: live_iff heap_inv_def)
  from blocks_apart [OF this] show "p = q \<and> s = t \<or> p + s \<le> q \<or> q + t \<le> p"
    by (auto simp: mem_consts)
next
  fix h show "mem_free None h = h" by (simp add: mem_free_def)
next
  fix h p s
  assume "heap_ok h" "live h p s"
  then obtain bs where inv: "heap_inv h bs" and b: "(p - SIZEOF_STRUCT_MEM, p + s, True) \<in> set bs"
    by (auto simp: heap_ok_def live_iff)
  note free = mem_free_merges [OF inv b]
  have seg: "hseg (ram h) 0 0 bs MEM_SIZE_ALIGNED" using inv by (simp add: heap_inv_def)
  show "heap_ok (mem_free (Some p) h) \<and>
      (\<forall>q t. live (mem_free (Some p) h) q t \<longleftrightarrow> live h q t \<and> q \<noteq> p)"
    using free used_free_blocks [OF seg b]
    by (auto simp: heap_ok_def live_iff [OF free] live_iff [OF inv])
qed


section \<open>Initialisation, alignment and bounds\<close>

lemma mem_init_inv: "heap_inv (mem_init r) [(0, MEM_SIZE_ALIGNED, False)]"
  by (simp add: heap_inv_def mem_init_def Let_def set_defs mem_consts)

lemma live_bounds:
  "heap_ok h \<Longrightarrow> live h p s \<Longrightarrow> 8 \<le> p \<and> 12 \<le> s \<and> p + s \<le> 16000 \<and> 4 dvd p \<and> 4 dvd s"
proof -
  assume "heap_ok h" "live h p s"
  then obtain bs where inv: "heap_inv h bs" and b: "(p - SIZEOF_STRUCT_MEM, p + s, True) \<in> set bs"
    by (auto simp: heap_ok_def live_iff)
  have "hseg (ram h) 0 0 bs MEM_SIZE_ALIGNED" using inv by (simp add: heap_inv_def)
  from hseg_range [OF this b] show ?thesis by (auto simp: mem_consts) presburger+
qed

lemma mark_free_fresh: "\<forall>b \<in> set xs. fst b \<noteq> a \<Longrightarrow> mark_free a (xs @ (a, e, u) # ys) = xs @ (a, e, False) # ys"
  by (induction xs) auto

lemma free_alloc_blocks:
  assumes "alloc_blocks n bs = Some (p, bs')" "hseg r prv p0 bs q" "no_adj_free bs"
  shows "free_blocks p bs' = bs"
proof -
  obtain xs a e ys where s: "bs = xs @ (a, e, False) # ys" "p = a + SIZEOF_STRUCT_MEM"
    "bs' = xs @ (if n + SIZEOF_STRUCT_MEM + MIN_SIZE_ALIGNED \<le> e - a - SIZEOF_STRUCT_MEM
      then [(a, a + SIZEOF_STRUCT_MEM + n, True), (a + SIZEOF_STRUCT_MEM + n, e, False)]
      else [(a, e, True)]) @ ys" using assms(1) by (rule alloc_blocks_split)
  have "hseg r prv p0 xs a" using assms(2) by (auto simp: s hseg_append)
  then have "\<forall>b \<in> set xs. fst b \<noteq> a" using hseg_range by (fastforce simp: mem_consts)
  note mark = mark_free_fresh [OF this]
  have last: "xs = [] \<or> snd (snd (last xs))" and adj: "no_adj_free xs" "no_adj_free ((a, e, False) # ys)"
    using assms(3) by (auto simp: s no_adj_free_append)
  show ?thesis
    using merge_free_app [OF adj(1) last] merge_free_id [OF adj(2)]
    by (auto simp: free_blocks_def s mark)
qed

text \<open>
  \<open>count * size\<close> is truncated for the allocation but not for the clearing: on a fresh
  heap \<open>mem_calloc(256, 257)\<close> clears 65792 bytes of a region of 256.
\<close>

lemma mem_calloc_overflow:
  "\<exists>h'. mem_calloc 256 257 (mem_init r) = Some (Some 8, 65792, h') \<and> live h' 8 256"
proof -
  have "request_size 256 = 256" by (simp add: request_size_def LWIP_MEM_ALIGN_SIZE_eq c_u16_def mem_consts)
  moreover have "alloc_blocks 256 [(0, MEM_SIZE_ALIGNED, False)] =
      Some (8, [(0, 264, True), (264, MEM_SIZE_ALIGNED, False)])"
    by (simp add: mem_consts)
  ultimately obtain h' where h': "mem_malloc 256 (mem_init r) = Some (Some 8, h')"
      "heap_inv h' [(0, 264, True), (264, MEM_SIZE_ALIGNED, False)]"
    using mem_malloc_first_fit [OF mem_init_inv, of 256 r] by (auto simp: MEM_SIZE_ALIGNED_def)
  then show ?thesis
    using live_iff [OF h'(2), of 8 256]
    by (auto simp: mem_calloc_def c_u16_def c_u32_def mem_consts)
qed

section \<open>Properties\<close>

text \<open>C3: \<open>mem_malloc\<close> returns on every well-formed heap and is exactly first fit on its block
  list with the size rounded up: it fails when the size is 0, above the heap or fits no free
  block (the heap is then unchanged), otherwise it returns the first fit and the new heap is
  well formed with that block used (and split when the rest is large enough).\<close>
theorem mem_malloc_refines:
  assumes "heap_inv h bs"
  shows "case (if n = 0 \<or> MEM_SIZE_ALIGNED < request_size n then None
               else alloc_blocks (request_size n) bs) of
           None \<Rightarrow> mem_malloc n h = Some (None, h)
         | Some (p, bs') \<Rightarrow> \<exists>h'. mem_malloc n h = Some (Some p, h') \<and> heap_inv h' bs'"
  using assms by (rule mem_malloc_first_fit)

text \<open>C4: freeing a used block of a well-formed heap marks it free and merges it with its free
  neighbours, on the real doubly linked headers, and restores the invariant (no two adjacent
  free blocks, \<open>lfree\<close> the lowest free block).\<close>
theorem mem_free_refines:
  assumes "heap_inv h bs" and "(p - SIZEOF_STRUCT_MEM, e, True) \<in> set bs"
  shows "heap_inv (mem_free (Some p) h) (free_blocks p bs)"
  using assms by (rule mem_free_merges)

text \<open>\<open>mem_trim\<close> on a used block refuses to grow it (the heap is unchanged) and otherwise
  shrinks it in place, giving the tail to the next free block or to a new one.\<close>
theorem mem_trim_refines:
  assumes "heap_inv h bs" and "(p - SIZEOF_STRUCT_MEM, e, True) \<in> set bs"
  shows "if e - p < request_size n then mem_trim p n h = (None, h)
     else \<exists>h'. mem_trim p n h = (Some p, h') \<and>
       heap_inv h' (trim_blocks (p - SIZEOF_STRUCT_MEM) (request_size n) bs)"
  using assms by (rule mem_trim_shrinks)

text \<open>Freeing what \<open>mem_malloc\<close> just returned gives back exactly the block list of before.\<close>
theorem mem_malloc_free_roundtrip:
  assumes "heap_inv h bs" and "mem_malloc n h = Some (Some p, h')"
  shows "heap_inv (mem_free (Some p) h') bs"
proof -
  obtain bs' where a: "alloc_blocks (request_size n) bs = Some (p, bs')" "heap_inv h' bs'"
    using mem_malloc_first_fit [OF assms(1), of n] assms(2) by (auto split: if_splits option.splits)
  have seg: "hseg (ram h) 0 0 bs MEM_SIZE_ALIGNED" and adj: "no_adj_free bs"
    using assms(1) by (auto simp: heap_inv_def)
  obtain s where "(p - SIZEOF_STRUCT_MEM, p + s, True) \<in> set bs'"
  proof (rule alloc_blocks_used_iff [OF a(1) seg])
    show "0 \<le> request_size n" using request_size_props(1) [of n] by simp
  next
    fix s
    assume "\<And>b f. (b, f, True) \<in> set bs' \<longleftrightarrow>
      (b, f, True) \<in> set bs \<or> (b = p - SIZEOF_STRUCT_MEM \<and> f = p + s)"
    then show thesis by (intro that [of s]) simp
  qed
  from mem_free_merges [OF a(2) this] show ?thesis
    by (simp only: free_alloc_blocks [OF a(1) seg adj])
qed

text \<open>C37: the rounded size is stored in a \<open>u16_t\<close>, so for a request of 65533 to 65535 bytes it
  wraps to 0, is raised to \<open>MIN_SIZE\<close>, and on a fresh heap \<open>mem_malloc\<close> returns a block of
  12 bytes instead of \<open>NULL\<close>.\<close>
theorem mem_malloc_wraps:
  assumes "65533 \<le> n" and "n \<le> 65535"
  shows "\<exists>h'. mem_malloc n (mem_init r) = Some (Some 8, h') \<and> live h' 8 12"
proof -
  have "LWIP_MEM_ALIGN_SIZE n = 65536"
    unfolding LWIP_MEM_ALIGN_SIZE_eq using assms by presburger
  then have "request_size n = 12" by (simp add: request_size_def c_u16_def mem_consts)
  moreover have "alloc_blocks 12 [(0, MEM_SIZE_ALIGNED, False)] =
      Some (8, [(0, 20, True), (20, MEM_SIZE_ALIGNED, False)])"
    by (simp add: mem_consts)
  ultimately obtain h' where h': "mem_malloc n (mem_init r) = Some (Some 8, h')"
      "heap_inv h' [(0, 20, True), (20, MEM_SIZE_ALIGNED, False)]"
    using mem_malloc_first_fit [OF mem_init_inv, of n r] assms by (auto simp: MEM_SIZE_ALIGNED_def)
  then show ?thesis using live_iff [OF h'(2), of 8 12] by (auto simp: mem_consts)
qed


section \<open>Witnesses\<close>

definition blank_ram :: "int \<Rightarrow> mem" where
  "blank_ram = (\<lambda>_. \<lparr>mem_next = 0, mem_prev = 0, mem_used = 0\<rparr>)"

definition demo_heap :: heap where
  "demo_heap = (case mem_malloc 100 (mem_init blank_ram) of Some (_, h) \<Rightarrow> h | None \<Rightarrow> mem_init blank_ram)"

lemma demo_malloc: "mem_malloc 100 (mem_init blank_ram) = Some (Some 8, demo_heap)"
  and demo_inv: "heap_inv demo_heap [(0, 108, True), (108, 16000, False)]"
proof -
  have "request_size 100 = 100" by (simp add: request_size_def LWIP_MEM_ALIGN_SIZE_eq c_u16_def mem_consts)
  moreover have "alloc_blocks 100 [(0, MEM_SIZE_ALIGNED, False)] =
      Some (8, [(0, 108, True), (108, MEM_SIZE_ALIGNED, False)])"
    by (simp add: mem_consts)
  ultimately obtain h' where "mem_malloc 100 (mem_init blank_ram) = Some (Some 8, h')"
      "heap_inv h' [(0, 108, True), (108, MEM_SIZE_ALIGNED, False)]"
    using mem_malloc_first_fit [OF mem_init_inv, of 100 blank_ram] by (auto simp: MEM_SIZE_ALIGNED_def)
  then show "mem_malloc 100 (mem_init blank_ram) = Some (Some 8, demo_heap)"
    "heap_inv demo_heap [(0, 108, True), (108, 16000, False)]"
    by (simp_all add: demo_heap_def mem_consts)
qed

lemma demo_live: "live demo_heap 8 100"
  using live_iff [OF demo_inv, of 8 100] by (simp add: mem_consts)

theorem mem_malloc_refines_witness:
  "\<exists>h'. mem_malloc 40 demo_heap = Some (Some 116, h') \<and>
     heap_inv h' [(0, 108, True), (108, 156, True), (156, 16000, False)]"
proof -
  have "request_size 40 = 40" by (simp add: request_size_def LWIP_MEM_ALIGN_SIZE_eq c_u16_def mem_consts)
  with mem_malloc_refines [OF demo_inv, of 40] show ?thesis by (simp add: mem_consts)
qed

theorem mem_free_refines_witness:
  "heap_inv (mem_free (Some 8) demo_heap) [(0, 16000, False)]"
  using mem_free_refines [OF demo_inv, of 8 108] by (simp add: mem_consts free_blocks_def)

theorem mem_trim_refines_witness:
  "\<exists>h'. mem_trim 8 60 demo_heap = (Some 8, h') \<and>
     heap_inv h' [(0, 68, True), (68, 16000, False)]"
proof -
  have "request_size 60 = 60" by (simp add: request_size_def LWIP_MEM_ALIGN_SIZE_eq c_u16_def mem_consts)
  with mem_trim_refines [OF demo_inv, of 8 108 60] show ?thesis by (simp add: mem_consts)
qed

theorem mem_malloc_free_roundtrip_witness:
  "heap_inv (mem_free (Some 8) demo_heap) [(0, 16000, False)]"
  using mem_malloc_free_roundtrip [OF mem_init_inv demo_malloc] by (simp add: MEM_SIZE_ALIGNED_def)

theorem mem_malloc_wraps_witness:
  "\<exists>h'. mem_malloc 65535 (mem_init blank_ram) = Some (Some 8, h') \<and> live h' 8 12"
  by (rule mem_malloc_wraps) simp_all

end
