(* ===== verification/MemPool.thy ===== *)
theory MemPool
  imports Prelude
begin

text \<open>
  The fixed-size pools of \<open>core/memp.c\<close> with the pools of \<open>lwip/memp_std.h\<close> that
  \<open>USER/lwipopts.h\<close> enables.  A free element stores the link of its pool's free list
  (\<open>struct memp\<close>); an element is named by its pool and its index in it, and
  \<open>memp_next\<close> is that link.  \<open>MEMP_OVERFLOW_CHECK\<close> is 0 (so \<open>MEMP_SIZE\<close> is 0) and
  statistics and protection are off.
\<close>

section \<open>State\<close>

datatype memp_t = MEMP_RAW_PCB | MEMP_UDP_PCB | MEMP_TCP_PCB | MEMP_TCP_PCB_LISTEN | MEMP_TCP_SEG
  | MEMP_REASSDATA | MEMP_FRAG_PBUF | MEMP_SYS_TIMEOUT | MEMP_PBUF | MEMP_PBUF_POOL

fun memp_num :: "memp_t \<Rightarrow> nat" where
  "memp_num MEMP_RAW_PCB = 4"
| "memp_num MEMP_UDP_PCB = 6"
| "memp_num MEMP_TCP_PCB = 10"
| "memp_num MEMP_TCP_PCB_LISTEN = 6"
| "memp_num MEMP_TCP_SEG = 15"
| "memp_num MEMP_REASSDATA = 5"
| "memp_num MEMP_FRAG_PBUF = 15"
| "memp_num MEMP_SYS_TIMEOUT = 8"
| "memp_num MEMP_PBUF = 10"
| "memp_num MEMP_PBUF_POOL = 20"

definition memp_types :: "memp_t list" where
  "memp_types = [MEMP_RAW_PCB, MEMP_UDP_PCB, MEMP_TCP_PCB, MEMP_TCP_PCB_LISTEN, MEMP_TCP_SEG,
     MEMP_REASSDATA, MEMP_FRAG_PBUF, MEMP_SYS_TIMEOUT, MEMP_PBUF, MEMP_PBUF_POOL]"

record memp_state =
  memp_tab :: "memp_t \<Rightarrow> nat option"
  memp_next :: "memp_t \<Rightarrow> nat \<Rightarrow> nat option"

section \<open>Operations\<close>

text \<open>The inner loop of \<open>memp_init\<close> links the elements \<open>j, \<dots>, num - 1\<close> of one pool.\<close>

function memp_init_pool :: "memp_t \<Rightarrow> nat \<Rightarrow> memp_state \<Rightarrow> memp_state" where
  "memp_init_pool t j s =
     (if j < memp_num t
      then let s = s\<lparr>memp_next := (memp_next s)(t := (memp_next s t)(j := memp_tab s t))\<rparr>;
               s = s\<lparr>memp_tab := (memp_tab s)(t := Some j)\<rparr>
           in memp_init_pool t (Suc j) s
      else s)"
  by pat_completeness auto
termination by (relation "measure (\<lambda>(t, j, s). memp_num t - j)") auto

declare memp_init_pool.simps [simp del]

fun memp_init_types :: "memp_t list \<Rightarrow> memp_state \<Rightarrow> memp_state" where
  "memp_init_types [] s = s"
| "memp_init_types (t # ts) s =
     memp_init_types ts (memp_init_pool t 0 (s\<lparr>memp_tab := (memp_tab s)(t := None)\<rparr>))"

definition memp_init :: "memp_state \<Rightarrow> memp_state" where
  "memp_init s = memp_init_types memp_types s"

definition memp_malloc :: "memp_t \<Rightarrow> memp_state \<Rightarrow> nat option \<times> memp_state" where
  "memp_malloc t s =
     (case memp_tab s t of
        Some m \<Rightarrow> (Some m, s\<lparr>memp_tab := (memp_tab s)(t := memp_next s t m)\<rparr>)
      | None \<Rightarrow> (None, s))"

definition memp_free :: "memp_t \<Rightarrow> nat option \<Rightarrow> memp_state \<Rightarrow> memp_state" where
  "memp_free t m s =
     (case m of None \<Rightarrow> s
      | Some m \<Rightarrow>
          let s = s\<lparr>memp_next := (memp_next s)(t := (memp_next s t)(m := memp_tab s t))\<rparr>
          in s\<lparr>memp_tab := (memp_tab s)(t := Some m)\<rparr>)"

text \<open>
  \<open>memp_sanity\<close>: the tortoise-and-hare walk over one free list, and its use on every
  pool.  It is compiled only with \<open>MEMP_SANITY_CHECK\<close>.
\<close>

partial_function (option) memp_walk :: "(nat \<Rightarrow> nat option) \<Rightarrow> nat option \<Rightarrow> nat option \<Rightarrow> bool option" where
  "memp_walk nx t h =
     (case (t, h) of
        (Some t, Some h) \<Rightarrow>
          if t = h then Some False
          else memp_walk nx (nx t)
            (case nx h of None \<Rightarrow> None | Some k \<Rightarrow> (case nx k of None \<Rightarrow> None | Some m \<Rightarrow> Some m))
      | _ \<Rightarrow> Some True)"

fun memp_sanity_types :: "memp_t list \<Rightarrow> memp_state \<Rightarrow> bool option" where
  "memp_sanity_types [] s = Some True"
| "memp_sanity_types (i # ts) s =
     (case memp_tab s i of
        None \<Rightarrow> memp_sanity_types ts s
      | Some t \<Rightarrow>
          (case memp_walk (memp_next s i) (Some t) (memp_next s i t) of
             None \<Rightarrow> None
           | Some False \<Rightarrow> Some False
           | Some True \<Rightarrow> memp_sanity_types ts s))"

definition memp_sanity :: "memp_state \<Rightarrow> bool option" where
  "memp_sanity s = memp_sanity_types memp_types s"

section \<open>Free lists\<close>

text \<open>\<open>linked nx p xs\<close>: following \<open>nx\<close> from \<open>p\<close> visits exactly \<open>xs\<close>.\<close>

fun linked :: "('a \<Rightarrow> 'a option) \<Rightarrow> 'a option \<Rightarrow> 'a list \<Rightarrow> bool" where
  "linked nx p [] \<longleftrightarrow> p = None"
| "linked nx p (x # xs) \<longleftrightarrow> p = Some x \<and> linked nx (nx x) xs"

lemma linked_upd [simp]: "y \<notin> set xs \<Longrightarrow> linked (nx(y := v)) p xs = linked nx p xs"
  by (induction xs arbitrary: p) auto

lemma linked_unique: "linked nx p xs \<Longrightarrow> linked nx p ys \<Longrightarrow> xs = ys"
proof (induction xs arbitrary: p ys)
  case Nil
  then show ?case by (cases ys) auto
next
  case (Cons x xs)
  then show ?case by (cases ys) auto
qed

lemma linked_append:
  "linked nx p (xs @ ys) \<Longrightarrow> \<exists>q. linked nx q ys"
  by (induction xs arbitrary: p) auto

lemma linked_hd_notin_tl: "linked nx (Some x) (x # xs) \<Longrightarrow> x \<notin> set xs"
proof
  assume l: "linked nx (Some x) (x # xs)" and "x \<in> set xs"
  then obtain us vs where xs: "xs = us @ x # vs" by (meson split_list)
  with l obtain q where "linked nx q (x # vs)" using linked_append [of nx "nx x" us "x # vs"] by auto
  then have "linked nx (Some x) (x # vs)" by auto
  from linked_unique [OF l this] xs show False by simp
qed

lemma linked_distinct: "linked nx p xs \<Longrightarrow> distinct xs"
proof (induction xs arbitrary: p)
  case (Cons x xs)
  then show ?case using linked_hd_notin_tl [of nx x xs] by auto
qed simp

definition free_list :: "memp_t \<Rightarrow> memp_state \<Rightarrow> nat list \<Rightarrow> bool" where
  "free_list t s xs \<longleftrightarrow> linked (memp_next s t) (memp_tab s t) xs \<and> set xs \<subseteq> {..<memp_num t}"

definition pools_ok :: "memp_state \<Rightarrow> bool" where
  "pools_ok s \<longleftrightarrow> (\<forall>t. \<exists>xs. free_list t s xs)"

lemma free_list_malloc_None: "free_list t s [] \<Longrightarrow> memp_malloc t s = (None, s)"
  by (simp add: free_list_def memp_malloc_def)

lemma free_list_malloc_Some:
  "free_list t s (x # xs) \<Longrightarrow>
     \<exists>s'. memp_malloc t s = (Some x, s') \<and> free_list t s' xs \<and> x \<notin> set xs \<and>
       (\<forall>u ys. u \<noteq> t \<longrightarrow> free_list u s' ys = free_list u s ys)"
  using linked_hd_notin_tl [of "memp_next s t" x xs]
  by (auto simp: free_list_def memp_malloc_def)

lemma free_list_free:
  "free_list t s xs \<Longrightarrow> x \<notin> set xs \<Longrightarrow> x < memp_num t \<Longrightarrow> free_list t (memp_free t (Some x) s) (x # xs)"
  by (auto simp: free_list_def memp_free_def Let_def)

lemma free_list_free_other:
  "u \<noteq> t \<Longrightarrow> free_list u (memp_free t m s) ys = free_list u s ys"
  by (auto simp: free_list_def memp_free_def Let_def split: option.splits)

section \<open>The pool interface\<close>

text \<open>
  A pool of objects numbered below \<open>cap\<close>: \<open>flist s xs\<close> says which objects are free, in
  the order they will be handed out.
\<close>

locale object_pool =
  fixes cap :: nat
    and flist :: "'s \<Rightarrow> nat list \<Rightarrow> bool"
    and get :: "'s \<Rightarrow> nat option \<times> 's"
    and put :: "nat \<Rightarrow> 's \<Rightarrow> 's"
  assumes get_empty: "flist s [] \<Longrightarrow> get s = (None, s)"
    and get_first: "flist s (x # xs) \<Longrightarrow> \<exists>s'. get s = (Some x, s') \<and> flist s' xs"
    and put_back: "flist s xs \<Longrightarrow> x \<notin> set xs \<Longrightarrow> x < cap \<Longrightarrow> flist (put x s) (x # xs)"
    and flist_range: "flist s xs \<Longrightarrow> distinct xs \<and> set xs \<subseteq> {..<cap}"
    and flist_det: "flist s xs \<Longrightarrow> flist s ys \<Longrightarrow> xs = ys"
begin

lemma get_put: "flist s (x # xs) \<Longrightarrow> get s = (r, s') \<Longrightarrow> r = Some x \<and> flist (put x s') (x # xs)"
proof -
  assume a: "flist s (x # xs)" "get s = (r, s')"
  then have "r = Some x" "flist s' xs" using get_first [of s x xs] by auto
  moreover have "x \<notin> set xs" "x < cap" using flist_range [OF a(1)] by auto
  ultimately show ?thesis using put_back by blast
qed

lemma get_result:
  assumes "flist s xs" "get s = (r, s')"
  shows "case r of None \<Rightarrow> xs = [] \<and> s' = s | Some x \<Rightarrow> \<exists>ys. xs = x # ys \<and> flist s' ys \<and> x \<notin> set ys"
proof (cases xs)
  case Nil
  with assms get_empty show ?thesis by auto
next
  case (Cons x ys)
  with assms get_first [of s x ys] flist_range [of s xs] show ?thesis by auto
qed

lemma flist_length: "flist s xs \<Longrightarrow> length xs \<le> cap"
  using flist_range [of s xs] card_mono [of "{..<cap}" "set xs"] by (auto simp: distinct_card)

end

interpretation pool: object_pool "memp_num t" "free_list t" "memp_malloc t" "\<lambda>m. memp_free t (Some m)" for t
proof
  fix s x xs
  show "free_list t s [] \<Longrightarrow> memp_malloc t s = (None, s)" by (rule free_list_malloc_None)
  show "free_list t s (x # xs) \<Longrightarrow> \<exists>s'. memp_malloc t s = (Some x, s') \<and> free_list t s' xs"
    using free_list_malloc_Some by blast
  show "free_list t s xs \<Longrightarrow> x \<notin> set xs \<Longrightarrow> x < memp_num t \<Longrightarrow>
      free_list t (memp_free t (Some x) s) (x # xs)" by (rule free_list_free)
  show "free_list t s xs \<Longrightarrow> distinct xs \<and> set xs \<subseteq> {..<memp_num t}"
    by (auto simp: free_list_def linked_distinct)
  fix ys
  show "free_list t s xs \<Longrightarrow> free_list t s ys \<Longrightarrow> xs = ys"
    by (auto simp: free_list_def intro: linked_unique)
qed

section \<open>Initialisation\<close>

lemma memp_init_pool_list:
  "linked (memp_next s t) (memp_tab s t) (rev [0..<j]) \<Longrightarrow> j \<le> memp_num t \<Longrightarrow>
     linked (memp_next (memp_init_pool t j s) t) (memp_tab (memp_init_pool t j s) t) (rev [0..<memp_num t])"
proof (induction t j s rule: memp_init_pool.induct)
  case (1 t j s)
  show ?case
  proof (cases "j < memp_num t")
    case True
    let ?s1 = "s\<lparr>memp_next := (memp_next s)(t := (memp_next s t)(j := memp_tab s t))\<rparr>"
    let ?s2 = "?s1\<lparr>memp_tab := (memp_tab ?s1)(t := Some j)\<rparr>"
    have "linked ((memp_next s t)(j := memp_tab s t)) (memp_tab s t) (rev [0..<j])"
      using "1.prems"(1) by (subst linked_upd) auto
    then have "linked (memp_next ?s2 t) (memp_tab ?s2 t) (rev [0..<Suc j])"
      by simp
    moreover have "Suc j \<le> memp_num t" using True by simp
    ultimately have "linked (memp_next (memp_init_pool t (Suc j) ?s2) t)
        (memp_tab (memp_init_pool t (Suc j) ?s2) t) (rev [0..<memp_num t])"
      by (rule "1.IH" [OF True refl refl])
    with True show ?thesis by (simp only: memp_init_pool.simps [of t j s] Let_def if_True)
  next
    case False
    then have "memp_init_pool t j s = s" by (simp add: memp_init_pool.simps [of t j s])
    moreover have "j = memp_num t" using False "1.prems"(2) by simp
    ultimately show ?thesis using "1.prems"(1) by simp
  qed
qed

lemma memp_init_pool_other:
  "u \<noteq> t \<Longrightarrow> memp_tab (memp_init_pool t j s) u = memp_tab s u \<and> memp_next (memp_init_pool t j s) u = memp_next s u"
proof (induction t j s rule: memp_init_pool.induct)
  case (1 t j s)
  then show ?case by (simp add: memp_init_pool.simps [of t j s] Let_def)
qed

lemma memp_init_types_other:
  "u \<notin> set ts \<Longrightarrow> memp_tab (memp_init_types ts s) u = memp_tab s u \<and> memp_next (memp_init_types ts s) u = memp_next s u"
  by (induction ts s rule: memp_init_types.induct) (auto simp: memp_init_pool_other)

lemma memp_init_types_list:
  "distinct ts \<Longrightarrow> t \<in> set ts \<Longrightarrow> free_list t (memp_init_types ts s) (rev [0..<memp_num t])"
proof (induction ts s rule: memp_init_types.induct)
  case (2 u ts s)
  show ?case
  proof (cases "t = u")
    case True
    with "2.prems" have "t \<notin> set ts" by simp
    with True show ?thesis
      using memp_init_pool_list [of "s\<lparr>memp_tab := (memp_tab s)(t := None)\<rparr>" t 0]
      by (auto simp: free_list_def memp_init_types_other)
  qed (use 2 in auto)
qed simp

lemma memp_types_all: "t \<in> set memp_types" "distinct memp_types"
  by (cases t; simp add: memp_types_def) (simp add: memp_types_def)

lemma memp_init_free_list: "free_list t (memp_init s) (rev [0..<memp_num t])"
  unfolding memp_init_def by (rule memp_init_types_list [OF memp_types_all(2,1)])

section \<open>The sanity walk\<close>

lemma linked_nth:
  "linked nx p xs \<Longrightarrow> i < length xs \<Longrightarrow> nx (xs ! i) = (if Suc i < length xs then Some (xs ! Suc i) else None)"
proof (induction xs arbitrary: p i)
  case (Cons x xs)
  then show ?case by (cases i; cases xs) auto
qed simp

definition at_opt :: "nat list \<Rightarrow> nat \<Rightarrow> nat option" where
  "at_opt xs i = (if i < length xs then Some (xs ! i) else None)"

lemma memp_walk_list:
  assumes "linked nx p xs" "i < j"
  shows "memp_walk nx (at_opt xs i) (at_opt xs j) = Some True"
  using assms(2)
proof (induction "length xs - j" arbitrary: i j rule: less_induct)
  case less
  show ?case
  proof (cases "j < length xs")
    case False
    then show ?thesis by (simp add: at_opt_def memp_walk.simps [of nx _ None] split: option.splits)
  next
    case True
    have ne: "xs ! i \<noteq> xs ! j"
      using linked_distinct [OF assms(1)] less.prems True by (simp add: nth_eq_iff_index_eq)
    have t: "nx (xs ! i) = at_opt xs (Suc i)"
      using linked_nth [OF assms(1)] less.prems True by (simp add: at_opt_def)
    have h: "(case nx (xs ! j) of None \<Rightarrow> None
        | Some k \<Rightarrow> (case nx k of None \<Rightarrow> None | Some m \<Rightarrow> Some m)) = at_opt xs (Suc (Suc j))"
      using linked_nth [OF assms(1), of j] linked_nth [OF assms(1), of "Suc j"] True
      by (auto simp: at_opt_def split: option.splits)
    have "memp_walk nx (at_opt xs (Suc i)) (at_opt xs (Suc (Suc j))) = Some True"
      using less.hyps less.prems True by simp
    with ne t h True less.prems show ?thesis
      by (simp add: at_opt_def [of xs i] at_opt_def [of xs j] memp_walk.simps [of nx "Some (xs ! i)" "Some (xs ! j)"])
  qed
qed

lemma memp_sanity_types_ok: "pools_ok s \<Longrightarrow> memp_sanity_types ts s = Some True"
proof (induction ts s rule: memp_sanity_types.induct)
  case (2 i ts s)
  obtain xs where xs: "linked (memp_next s i) (memp_tab s i) xs"
    using "2.prems" by (auto simp: pools_ok_def free_list_def)
  show ?case
  proof (cases "memp_tab s i")
    case None
    with 2 show ?thesis by simp
  next
    case (Some t)
    with xs obtain ys where ys: "xs = t # ys" by (cases xs) auto
    have "memp_walk (memp_next s i) (at_opt xs 0) (at_opt xs 1) = Some True"
      using xs by (rule memp_walk_list) simp
    moreover have "memp_next s i t = at_opt xs 1"
      using linked_nth [OF xs, of 0] ys by (auto simp: at_opt_def)
    moreover have "at_opt xs 0 = Some t" using ys by (simp add: at_opt_def)
    ultimately have "memp_walk (memp_next s i) (Some t) (memp_next s i t) = Some True" by simp
    with Some 2 show ?thesis by simp
  qed
qed simp

section \<open>Reachable pools\<close>

text \<open>The states reached from \<open>memp_init\<close>, with the elements that are out.\<close>

inductive memp_reach :: "memp_state \<Rightarrow> (memp_t \<Rightarrow> nat set) \<Rightarrow> bool" where
  init: "memp_reach (memp_init s) (\<lambda>_. {})"
| get: "memp_reach s out \<Longrightarrow> memp_malloc t s = (Some m, s') \<Longrightarrow> memp_reach s' (out(t := insert m (out t)))"
| empty: "memp_reach s out \<Longrightarrow> memp_malloc t s = (None, s') \<Longrightarrow> memp_reach s' out"
| put: "memp_reach s out \<Longrightarrow> m \<in> out t \<Longrightarrow> memp_reach (memp_free t (Some m) s) (out(t := out t - {m}))"
| null: "memp_reach s out \<Longrightarrow> memp_reach (memp_free t None s) out"

definition balanced :: "memp_state \<Rightarrow> (memp_t \<Rightarrow> nat set) \<Rightarrow> bool" where
  "balanced s out \<longleftrightarrow> (\<forall>t. \<exists>xs. free_list t s xs \<and> set xs \<inter> out t = {} \<and> set xs \<union> out t = {..<memp_num t})"

lemma balanced_get:
  assumes "balanced s out" "memp_malloc t s = (Some m, s')"
  shows "balanced s' (out(t := insert m (out t)))" "m \<notin> out t" "m < memp_num t"
proof -
  obtain xs where xs: "free_list t s xs" "set xs \<inter> out t = {}" "set xs \<union> out t = {..<memp_num t}"
    using assms(1) unfolding balanced_def by blast
  then obtain ys where ys: "xs = m # ys" "free_list t s' ys" "m \<notin> set ys"
    using pool.get_result [OF xs(1) assms(2)] by auto
  have other: "u \<noteq> t \<Longrightarrow> free_list u s' zs = free_list u s zs" for u zs
    using free_list_malloc_Some [of t s m ys] xs(1) ys(1) assms(2) by auto
  show "m \<notin> out t" "m < memp_num t" using xs ys by auto
  show "balanced s' (out(t := insert m (out t)))"
    unfolding balanced_def
  proof
    fix u
    show "\<exists>xs. free_list u s' xs \<and> set xs \<inter> (out(t := insert m (out t))) u = {} \<and>
        set xs \<union> (out(t := insert m (out t))) u = {..<memp_num u}"
    proof (cases "u = t")
      case True
      with xs ys show ?thesis by (intro exI [of _ ys]) auto
    next
      case False
      with other assms(1) show ?thesis by (simp add: balanced_def)
    qed
  qed
qed

lemma balanced_put:
  assumes "balanced s out" "m \<in> out t"
  shows "balanced (memp_free t (Some m) s) (out(t := out t - {m}))"
  unfolding balanced_def
proof
  fix u
  obtain xs where xs: "free_list t s xs" "set xs \<inter> out t = {}" "set xs \<union> out t = {..<memp_num t}"
    using assms(1) unfolding balanced_def by blast
  then have m: "m \<notin> set xs" "m < memp_num t" using assms(2) by auto
  show "\<exists>xs. free_list u (memp_free t (Some m) s) xs \<and> set xs \<inter> (out(t := out t - {m})) u = {} \<and>
      set xs \<union> (out(t := out t - {m})) u = {..<memp_num u}"
  proof (cases "u = t")
    case True
    with xs m assms(2) pool.put_back [OF xs(1) m] show ?thesis by (intro exI [of _ "m # xs"]) auto
  next
    case False
    with assms(1) show ?thesis by (simp add: balanced_def free_list_free_other)
  qed
qed

lemma memp_reach_balanced: "memp_reach s out \<Longrightarrow> balanced s out"
proof (induction rule: memp_reach.induct)
  case (init s)
  show ?case unfolding balanced_def using memp_init_free_list by fastforce
next
  case (get s out t m s')
  show ?case using balanced_get(1) [OF get.IH get.hyps(2)] .
next
  case (empty s out t s')
  then show ?case by (auto simp: memp_malloc_def split: option.splits)
next
  case (put s out m t)
  show ?case using balanced_put [OF put.IH put.hyps(2)] .
next
  case (null s out t)
  then show ?case by (simp add: memp_free_def)
qed

section \<open>Properties\<close>

text \<open>C18: from \<open>memp_init\<close> on, over any allocations and releases of elements that are out, a
  pool never hands out an element that is already out, returns \<open>NULL\<close> exactly when all its
  elements are out, and its free list passes the source's own \<open>memp_sanity\<close> check.\<close>
theorem memp_reach_exclusive:
  assumes "memp_reach s out" and "memp_malloc t s = (r, s')"
  shows "(case r of Some m \<Rightarrow> m \<notin> out t \<and> m < memp_num t | None \<Rightarrow> out t = {..<memp_num t}) \<and>
    memp_sanity s = Some True"
proof -
  have bal: "balanced s out" using assms(1) by (rule memp_reach_balanced)
  then have "pools_ok s" by (auto simp: balanced_def pools_ok_def)
  then have "memp_sanity s = Some True" by (simp add: memp_sanity_def memp_sanity_types_ok)
  moreover have "case r of Some m \<Rightarrow> m \<notin> out t \<and> m < memp_num t | None \<Rightarrow> out t = {..<memp_num t}"
  proof (cases r)
    case None
    obtain xs where xs: "free_list t s xs" "set xs \<union> out t = {..<memp_num t}"
      using bal unfolding balanced_def by blast
    with None pool.get_result [OF xs(1) assms(2)] show ?thesis by auto
  next
    case (Some m)
    with balanced_get [OF bal] assms(2) show ?thesis by auto
  qed
  ultimately show ?thesis by simp
qed

definition blank_pools :: memp_state where
  "blank_pools = \<lparr>memp_tab = (\<lambda>_. None), memp_next = (\<lambda>_ _. None)\<rparr>"

theorem memp_reach_exclusive_witness:
  "\<exists>s'. memp_malloc MEMP_PBUF_POOL (memp_init blank_pools) = (Some 19, s') \<and>
     (19::nat) \<notin> {} \<and> 19 < memp_num MEMP_PBUF_POOL"
proof -
  have l: "free_list MEMP_PBUF_POOL (memp_init blank_pools) (19 # rev [0..<19])"
    using memp_init_free_list [of MEMP_PBUF_POOL blank_pools] upt_Suc [of 0 19] by simp
  obtain s' where s': "memp_malloc MEMP_PBUF_POOL (memp_init blank_pools) = (Some 19, s')"
    using free_list_malloc_Some [OF l] by blast
  with memp_reach_exclusive [OF memp_reach.init s'] show ?thesis by simp
qed

end
