(* ===== verification/ByteOrder.thy ===== *)
theory ByteOrder
  imports Prelude
begin

text \<open>
  Byte order: the conversions of \<open>core/def.c\<close> for this little-endian port, and the bytes
  of a 16 or 32 bit integer as they lie in memory.
\<close>

section \<open>Conversions (core/def.c)\<close>

definition lwip_htons :: "u16_t \<Rightarrow> u16_t" where
  "lwip_htons n = push_bit 8 (n AND 0xff) OR drop_bit 8 (n AND 0xff00)"

definition lwip_ntohs :: "u16_t \<Rightarrow> u16_t" where
  "lwip_ntohs n = lwip_htons n"

definition lwip_htonl :: "u32_t \<Rightarrow> u32_t" where
  "lwip_htonl n = ((push_bit 24 (n AND 0xff) OR push_bit 8 (n AND 0xff00))
     OR drop_bit 8 (n AND 0xff0000)) OR drop_bit 24 (n AND 0xff000000)"

definition lwip_ntohl :: "u32_t \<Rightarrow> u32_t" where
  "lwip_ntohl n = lwip_htonl n"

section \<open>Bytes in memory (little endian)\<close>

definition byte_of :: "nat \<Rightarrow> 'a::len word \<Rightarrow> u8_t" where
  "byte_of i w = ucast (drop_bit (8 * i) w)"

definition u16_bytes :: "u16_t \<Rightarrow> u8_t list" where
  "u16_bytes w = [byte_of 0 w, byte_of 1 w]"

definition u32_bytes :: "u32_t \<Rightarrow> u8_t list" where
  "u32_bytes w = [byte_of 0 w, byte_of 1 w, byte_of 2 w, byte_of 3 w]"

definition u16_le :: "u8_t \<Rightarrow> u8_t \<Rightarrow> u16_t" where
  "u16_le b0 b1 = ucast b0 OR push_bit 8 (ucast b1)"

definition u32_le :: "u8_t \<Rightarrow> u8_t \<Rightarrow> u8_t \<Rightarrow> u8_t \<Rightarrow> u32_t" where
  "u32_le b0 b1 b2 b3 = ucast b0 OR push_bit 8 (ucast b1) OR push_bit 16 (ucast b2) OR push_bit 24 (ucast b3)"

section \<open>Bits\<close>

lemma bit_byte_of: "bit (byte_of i w) k \<longleftrightarrow> k < 8 \<and> bit (w :: 'a::len word) (8 * i + k)"
  by (auto simp: byte_of_def bit_simps dest: bit_imp_le_length)

lemma bit_0xff: "bit (0xff :: 'a::len word) k \<longleftrightarrow> k < 8 \<and> k < LENGTH('a)"
proof -
  have "(0xff :: 'a word) = mask 8" by (simp add: mask_eq_exp_minus_1)
  then show ?thesis by (simp only: bit_mask_iff) (auto simp: min_def)
qed

lemma bit_0xff00: "bit (0xff00 :: 'a::len word) k \<longleftrightarrow> 8 \<le> k \<and> k < 16 \<and> k < LENGTH('a)"
proof -
  have "(0xff00 :: 'a word) = push_bit 8 (mask 8)" by (simp add: mask_eq_exp_minus_1 push_bit_eq_mult)
  then show ?thesis by (simp only: bit_push_bit_iff bit_mask_iff) (auto simp: bit_simps)
qed

lemma bit_0xff0000: "bit (0xff0000 :: 'a::len word) k \<longleftrightarrow> 16 \<le> k \<and> k < 24 \<and> k < LENGTH('a)"
proof -
  have "(0xff0000 :: 'a word) = push_bit 16 (mask 8)" by (simp add: mask_eq_exp_minus_1 push_bit_eq_mult)
  then show ?thesis by (simp only: bit_push_bit_iff bit_mask_iff) (auto simp: bit_simps)
qed

lemma bit_0xff000000: "bit (0xff000000 :: 'a::len word) k \<longleftrightarrow> 24 \<le> k \<and> k < 32 \<and> k < LENGTH('a)"
proof -
  have "(0xff000000 :: 'a word) = push_bit 24 (mask 8)" by (simp add: mask_eq_exp_minus_1 push_bit_eq_mult)
  then show ?thesis by (simp only: bit_push_bit_iff bit_mask_iff) (auto simp: bit_simps)
qed

lemmas bit_consts = bit_0xff bit_0xff00 bit_0xff0000 bit_0xff000000

lemma bit_htons: "bit (lwip_htons n) k \<longleftrightarrow> (if k < 8 then bit n (k + 8) else k < 16 \<and> bit n (k - 8))"
  unfolding lwip_htons_def
  by (simp only: bit_or_iff bit_push_bit_iff bit_drop_bit_eq bit_and_iff comp_def bit_consts)
    (auto simp: bit_simps add.commute dest: bit_imp_le_length)

lemma bit_htonl:
  "bit (lwip_htonl n) k \<longleftrightarrow>
     (if k < 8 then bit n (k + 24) else if k < 16 then bit n (k + 8)
      else if k < 24 then bit n (k - 8) else k < 32 \<and> bit n (k - 24))"
  unfolding lwip_htonl_def
  by (simp only: bit_or_iff bit_push_bit_iff bit_drop_bit_eq bit_and_iff comp_def bit_consts)
    (auto simp: bit_simps add.commute dest: bit_imp_le_length)

lemma htons_htons [simp]: "lwip_htons (lwip_htons n) = n"
  by (rule bit_word_eqI) (auto simp: bit_htons)

lemma htonl_htonl [simp]: "lwip_htonl (lwip_htonl n) = n"
  by (rule bit_word_eqI) (auto simp: bit_htonl)

lemma u32_le_bytes: "u32_le (byte_of 0 w) (byte_of 1 w) (byte_of 2 w) (byte_of 3 w) = (w :: u32_t)"
proof (rule bit_word_eqI)
  fix n
  assume "n < LENGTH(32)"
  then consider "n < 8" | "8 \<le> n" "n < 16" | "16 \<le> n" "n < 24" | "24 \<le> n" "n < 32" by fastforce
  then show "bit (u32_le (byte_of 0 w) (byte_of 1 w) (byte_of 2 w) (byte_of 3 w)) n = bit w n"
    by cases (auto simp: u32_le_def bit_simps bit_byte_of)
qed

lemma u16_le_bytes: "u16_le (byte_of 0 w) (byte_of 1 w) = (w :: u16_t)"
  by (rule bit_word_eqI) (auto simp: u16_le_def bit_simps bit_byte_of)

lemma u16_bytes_le: "u16_bytes (u16_le a b) = [a, b]"
proof -
  have "byte_of 0 (u16_le a b) = a" "byte_of 1 (u16_le a b) = b"
    by (rule bit_word_eqI; auto simp: bit_byte_of u16_le_def bit_simps dest: bit_imp_le_length)+
  then show ?thesis by (simp add: u16_bytes_def)
qed

lemma u32_bytes_le: "u32_bytes (u32_le a b c d) = [a, b, c, d]"
proof -
  have "byte_of 0 (u32_le a b c d) = a" "byte_of 1 (u32_le a b c d) = b"
    "byte_of 2 (u32_le a b c d) = c" "byte_of 3 (u32_le a b c d) = d"
    by (rule bit_word_eqI; auto simp: bit_byte_of u32_le_def bit_simps dest: bit_imp_le_length)+
  then show ?thesis by (simp add: u32_bytes_def)
qed

lemma u16_bytes_inj: "u16_bytes x = u16_bytes y \<longleftrightarrow> x = y"
proof
  assume "u16_bytes x = u16_bytes y"
  then have "u16_le (u16_bytes x ! 0) (u16_bytes x ! 1) = u16_le (u16_bytes y ! 0) (u16_bytes y ! 1)" by simp
  then show "x = y" using u16_le_bytes [of x] u16_le_bytes [of y] by (simp add: u16_bytes_def)
qed simp

lemma u32_bytes_inj: "u32_bytes x = u32_bytes y \<longleftrightarrow> x = y"
proof
  assume a: "u32_bytes x = u32_bytes y"
  have "w = u32_le (u32_bytes w ! 0) (u32_bytes w ! 1) (u32_bytes w ! 2) (u32_bytes w ! 3)"
    for w using u32_le_bytes [of w] by (simp add: u32_bytes_def)
  from this [of x] this [of y] a show "x = y" by metis
qed simp

lemma htonl_bytes: "u32_bytes (lwip_htonl n) = rev (u32_bytes n)"
proof -
  have "byte_of 0 (lwip_htonl n) = byte_of 3 n" "byte_of 1 (lwip_htonl n) = byte_of 2 n"
    "byte_of 2 (lwip_htonl n) = byte_of 1 n" "byte_of 3 (lwip_htonl n) = byte_of 0 n"
    by (rule bit_word_eqI; auto simp: bit_byte_of bit_htonl add.commute)+
  then show ?thesis by (simp add: u32_bytes_def)
qed

lemma htons_bytes: "u16_bytes (lwip_htons n) = rev (u16_bytes n)"
proof -
  have "byte_of 0 (lwip_htons n) = byte_of 1 n" "byte_of 1 (lwip_htons n) = byte_of 0 n"
    by (rule bit_word_eqI; auto simp: bit_byte_of bit_htons add.commute)+
  then show ?thesis by (simp add: u16_bytes_def)
qed

section \<open>Properties\<close>

text \<open>The conversions store an integer most significant byte first: the bytes of
  \<open>htonl n\<close> and \<open>htons m\<close> in memory are those of \<open>n\<close> and \<open>m\<close> reversed, and
  \<open>ntohl\<close> and \<open>ntohs\<close> undo them.\<close>
theorem byte_order_roundtrip:
  "u32_bytes (lwip_htonl n) = rev (u32_bytes n) \<and> u16_bytes (lwip_htons m) = rev (u16_bytes m) \<and>
   lwip_ntohl (lwip_htonl n) = n \<and> lwip_ntohs (lwip_htons m) = m"
  by (simp add: htonl_bytes htons_bytes lwip_ntohl_def lwip_ntohs_def)

end
