(* ===== verification/Chksum.thy ===== *)
theory Chksum
  imports ByteOrder
begin

text \<open>
  The Internet checksum of \<open>core/ipv4/inet_chksum.c\<close>: the three versions of
  \<open>lwip_standard_chksum\<close> (this port compiles version 2), the checksum of a buffer, of a
  chain of pbufs, and with the pseudo header.  Memory is a function from addresses to
  bytes; a pointer of type \<open>u16_t*\<close> or \<open>u32_t*\<close> reads little endian.  A chain is the
  list of the payload addresses and lengths of its pbufs; every pbuf's payload lies in a
  memory region of its own type \<open>'r\<close> of regions.
\<close>

type_synonym memory = "int \<Rightarrow> u8_t"

definition load16 :: "memory \<Rightarrow> int \<Rightarrow> u16_t" where
  "load16 m a = u16_le (m a) (m (a + 1))"

definition load32 :: "memory \<Rightarrow> int \<Rightarrow> u32_t" where
  "load32 m a = u32_le (m a) (m (a + 1)) (m (a + 2)) (m (a + 3))"

definition FOLD_U32T :: "u32_t \<Rightarrow> u32_t" where
  "FOLD_U32T u = drop_bit 16 u + (u AND 0xffff)"

definition SWAP_BYTES_IN_WORD :: "u32_t \<Rightarrow> u32_t" where
  "SWAP_BYTES_IN_WORD w = push_bit 8 (w AND 0xff) OR drop_bit 8 (w AND 0xff00)"

section \<open>Version 1\<close>

function chksum_1_loop :: "memory \<Rightarrow> u32_t \<Rightarrow> int \<Rightarrow> int \<Rightarrow> u32_t \<times> int \<times> int" where
  "chksum_1_loop m acc octetptr len =
     (if len > 1
      then let src = push_bit 8 (ucast (m octetptr)) :: u16_t;
               octetptr = octetptr + 1;
               src = src OR ucast (m octetptr);
               octetptr = octetptr + 1
           in chksum_1_loop m (acc + ucast src) octetptr (len - 2)
      else (acc, octetptr, len))"
  by pat_completeness auto
termination by (relation "measure (\<lambda>(m, acc, octetptr, len). nat len)") auto

definition lwip_standard_chksum_1 :: "memory \<Rightarrow> int \<Rightarrow> int \<Rightarrow> u16_t" where
  "lwip_standard_chksum_1 m dataptr len =
     (case chksum_1_loop m 0 dataptr len of (acc, octetptr, len) \<Rightarrow>
        let acc = (if len > 0 then acc + ucast (push_bit 8 (ucast (m octetptr)) :: u16_t) else acc);
            acc = drop_bit 16 acc + (acc AND 0xffff);
            acc = (if acc AND 0xffff0000 \<noteq> 0 then drop_bit 16 acc + (acc AND 0xffff) else acc)
        in lwip_htons (ucast acc))"

section \<open>Version 2\<close>

function words_loop :: "memory \<Rightarrow> u32_t \<Rightarrow> int \<Rightarrow> int \<Rightarrow> u32_t \<times> int \<times> int" where
  "words_loop m sm ps len =
     (if len > 1 then words_loop m (sm + ucast (load16 m ps)) (ps + 2) (len - 2)
      else (sm, ps, len))"
  by pat_completeness auto
termination by (relation "measure (\<lambda>(m, sm, ps, len). nat len)") auto

text \<open>The bytes of the halfword \<open>t\<close> of the source are \<open>t0\<close> and \<open>t1\<close>.\<close>

definition lwip_standard_chksum :: "memory \<Rightarrow> int \<Rightarrow> int \<Rightarrow> u16_t" where
  "lwip_standard_chksum m dataptr len =
     (let pb = dataptr;
          odd_start = (pb mod 2 = 1);
          (t1, pb, len) = (if odd_start \<and> len > 0 then (m pb, pb + 1, len - 1) else (0, pb, len));
          (sm, ps, len) = words_loop m 0 pb len;
          t0 = (if len > 0 then m ps else 0);
          sm = sm + ucast (u16_le t0 t1);
          sm = FOLD_U32T sm;
          sm = FOLD_U32T sm;
          sm = (if odd_start then SWAP_BYTES_IN_WORD sm else sm)
      in ucast sm)"

section \<open>Version 3\<close>

function chksum_3_loop :: "memory \<Rightarrow> u32_t \<Rightarrow> int \<Rightarrow> int \<Rightarrow> u32_t \<times> int \<times> int" where
  "chksum_3_loop m sm pl len =
     (if len > 7
      then let tmp = sm + load32 m pl;
               tmp = (if tmp < sm then tmp + 1 else tmp);
               sm = tmp + load32 m (pl + 4);
               sm = (if sm < tmp then sm + 1 else sm)
           in chksum_3_loop m sm (pl + 8) (len - 8)
      else (sm, pl, len))"
  by pat_completeness auto
termination by (relation "measure (\<lambda>(m, sm, pl, len). nat len)") auto

declare chksum_1_loop.simps [simp del] words_loop.simps [simp del] chksum_3_loop.simps [simp del]

definition lwip_standard_chksum_3 :: "memory \<Rightarrow> int \<Rightarrow> int \<Rightarrow> u16_t" where
  "lwip_standard_chksum_3 m dataptr len =
     (let pb = dataptr;
          odd_start = (pb mod 2 = 1);
          (t1, pb, len) = (if odd_start \<and> len > 0 then (m pb, pb + 1, len - 1) else (0, pb, len));
          (sm, ps, len) = (if pb mod 4 \<noteq> 0 \<and> len > 1 then (ucast (load16 m pb), pb + 2, len - 2) else (0, pb, len));
          (sm, pl, len) = chksum_3_loop m sm ps len;
          sm = FOLD_U32T sm;
          (sm, ps, len) = words_loop m sm pl len;
          t0 = (if len > 0 then m ps else 0);
          sm = sm + ucast (u16_le t0 t1);
          sm = FOLD_U32T sm;
          sm = FOLD_U32T sm;
          sm = (if odd_start then SWAP_BYTES_IN_WORD sm else sm)
      in ucast sm)"

section \<open>Buffers, chains and the pseudo header\<close>

definition inet_chksum :: "memory \<Rightarrow> int \<Rightarrow> int \<Rightarrow> u16_t" where
  "inet_chksum m dataptr len = NOT (lwip_standard_chksum m dataptr len)"

text \<open>The loop over the pbufs: the sum and whether it is byte swapped.\<close>

fun chain_loop :: "('r \<Rightarrow> memory) \<Rightarrow> ('r \<times> int \<times> int) list \<Rightarrow> u32_t \<Rightarrow> bool \<Rightarrow> u32_t \<times> bool" where
  "chain_loop m [] acc swapped = (acc, swapped)"
| "chain_loop m ((r, payload, len) # q) acc swapped =
     (let acc = acc + ucast (lwip_standard_chksum (m r) payload len);
          acc = FOLD_U32T acc;
          (swapped, acc) = (if len mod 2 \<noteq> 0 then (\<not> swapped, SWAP_BYTES_IN_WORD acc) else (swapped, acc))
      in chain_loop m q acc swapped)"

definition inet_chksum_pbuf :: "('r \<Rightarrow> memory) \<Rightarrow> ('r \<times> int \<times> int) list \<Rightarrow> u16_t" where
  "inet_chksum_pbuf m p =
     (case chain_loop m p 0 False of (acc, swapped) \<Rightarrow>
        let acc = (if swapped then SWAP_BYTES_IN_WORD acc else acc)
        in ucast (NOT (acc AND 0xffff)))"

text \<open>The pseudo header is added after the loop, the same way in both functions.\<close>

definition add_pseudo :: "u32_t \<Rightarrow> u32_t \<Rightarrow> u32_t \<Rightarrow> u8_t \<Rightarrow> u16_t \<Rightarrow> u16_t" where
  "add_pseudo acc src dest proto proto_len =
     (let acc = acc + (src AND 0xffff);
          acc = acc + (drop_bit 16 src AND 0xffff);
          acc = acc + (dest AND 0xffff);
          acc = acc + (drop_bit 16 dest AND 0xffff);
          acc = acc + ucast (lwip_htons (ucast proto));
          acc = acc + ucast (lwip_htons proto_len);
          acc = FOLD_U32T acc;
          acc = FOLD_U32T acc
      in ucast (NOT (acc AND 0xffff)))"

definition inet_chksum_pseudo ::
    "('r \<Rightarrow> memory) \<Rightarrow> ('r \<times> int \<times> int) list \<Rightarrow> u32_t \<Rightarrow> u32_t \<Rightarrow> u8_t \<Rightarrow> u16_t \<Rightarrow> u16_t" where
  "inet_chksum_pseudo m p src dest proto proto_len =
     (case chain_loop m p 0 False of (acc, swapped) \<Rightarrow>
        let acc = (if swapped then SWAP_BYTES_IN_WORD acc else acc)
        in add_pseudo acc src dest proto proto_len)"

fun partial_loop ::
    "('r \<Rightarrow> memory) \<Rightarrow> ('r \<times> int \<times> int) list \<Rightarrow> int \<Rightarrow> u32_t \<Rightarrow> bool \<Rightarrow> u32_t \<times> bool" where
  "partial_loop m [] chksum_len acc swapped = (acc, swapped)"
| "partial_loop m ((r, payload, len) # q) chksum_len acc swapped =
     (if chksum_len > 0
      then let chklen = len;
               chklen = (if chklen > chksum_len then chksum_len else chklen);
               acc = acc + ucast (lwip_standard_chksum (m r) payload chklen);
               chksum_len = c_u16 (chksum_len - chklen);
               acc = FOLD_U32T acc;
               (swapped, acc) = (if len mod 2 \<noteq> 0 then (\<not> swapped, SWAP_BYTES_IN_WORD acc) else (swapped, acc))
           in partial_loop m q chksum_len acc swapped
      else (acc, swapped))"

definition inet_chksum_pseudo_partial ::
    "('r \<Rightarrow> memory) \<Rightarrow> ('r \<times> int \<times> int) list \<Rightarrow> u32_t \<Rightarrow> u32_t \<Rightarrow> u8_t \<Rightarrow> u16_t \<Rightarrow> int \<Rightarrow> u16_t" where
  "inet_chksum_pseudo_partial m p src dest proto proto_len chksum_len =
     (case partial_loop m p chksum_len 0 False of (acc, swapped) \<Rightarrow>
        let acc = (if swapped then SWAP_BYTES_IN_WORD acc else acc)
        in add_pseudo acc src dest proto proto_len)"

text \<open>\<open>lwip_chksum_copy\<close>: the memory after the copy, and the checksum of the destination.\<close>

definition memcpy :: "memory \<Rightarrow> int \<Rightarrow> int \<Rightarrow> int \<Rightarrow> memory" where
  "memcpy m dst src len = (\<lambda>a. if dst \<le> a \<and> a < dst + len then m (src + (a - dst)) else m a)"

definition lwip_chksum_copy :: "memory \<Rightarrow> int \<Rightarrow> int \<Rightarrow> int \<Rightarrow> memory \<times> u16_t" where
  "lwip_chksum_copy m dst src len =
     (let m = memcpy m dst src len in (m, lwip_standard_chksum m dst len))"

section \<open>The Internet sum\<close>

text \<open>
  The specification: the one's complement sum (RFC 1071) of the 16 bit words of the
  bytes, the last byte padded with zero, in the byte order of this machine.
\<close>

fun words_sum :: "u8_t list \<Rightarrow> nat" where
  "words_sum [] = 0"
| "words_sum [b] = unat b"
| "words_sum (b # c # bs) = unat b + 256 * unat c + words_sum bs"

definition ones_compl :: "nat \<Rightarrow> nat" where
  "ones_compl n = (if n = 0 then 0 else (n - 1) mod 65535 + 1)"

definition inet_sum :: "u8_t list \<Rightarrow> u16_t" where
  "inet_sum bs = of_nat (ones_compl (words_sum bs))"

definition bytes :: "memory \<Rightarrow> int \<Rightarrow> int \<Rightarrow> u8_t list" where
  "bytes m a len = map (\<lambda>i. m (a + int i)) [0..<nat len]"

definition chain_bytes :: "('r \<Rightarrow> memory) \<Rightarrow> ('r \<times> int \<times> int) list \<Rightarrow> u8_t list" where
  "chain_bytes m p = concat (map (\<lambda>(r, payload, len). bytes (m r) payload len) p)"

definition pseudo_header :: "u32_t \<Rightarrow> u32_t \<Rightarrow> u8_t \<Rightarrow> u16_t \<Rightarrow> u8_t list" where
  "pseudo_header src dest proto proto_len =
     u32_bytes src @ u32_bytes dest @ [0, proto] @ u16_bytes (lwip_htons proto_len)"

text \<open>The little-endian number of a list of bytes has the same one's complement sum.\<close>

fun le_val :: "u8_t list \<Rightarrow> nat" where
  "le_val [] = 0"
| "le_val (b # bs) = unat b + 256 * le_val bs"

text \<open>\<open>oc_eq a b\<close>: \<open>a\<close> and \<open>b\<close> have the same one's complement sum.\<close>

definition oc_eq :: "nat \<Rightarrow> nat \<Rightarrow> bool" where
  "oc_eq a b \<longleftrightarrow> (a = 0 \<longleftrightarrow> b = 0) \<and> a mod 65535 = b mod 65535"

lemma oc_eq_refl [simp, intro]: "oc_eq a a"
  by (simp add: oc_eq_def)

lemma oc_eq_sym: "oc_eq a b \<Longrightarrow> oc_eq b a"
  by (simp add: oc_eq_def)

lemma oc_eq_trans [trans]: "oc_eq a b \<Longrightarrow> oc_eq b c \<Longrightarrow> oc_eq a c"
  by (simp add: oc_eq_def)

lemma oc_eq_add: "oc_eq a b \<Longrightarrow> oc_eq c d \<Longrightarrow> oc_eq (a + c) (b + d)"
  by (auto simp: oc_eq_def intro: mod_add_cong)

lemma oc_eq_mult: "oc_eq a b \<Longrightarrow> oc_eq (k * a) (k * b)"
  by (auto simp: oc_eq_def intro: mod_mult_cong)

lemma oc_eq_65536: "oc_eq (65536 * a) a"
proof -
  have "65536 * a = a + 65535 * a" by simp
  then show ?thesis by (simp only: oc_eq_def mod_mult_self2) simp
qed

lemma ones_compl_mod: "ones_compl n mod 65535 = n mod 65535"
proof (cases n)
  case (Suc k)
  have "(k mod 65535 + 1) mod 65535 = (k + 1) mod 65535" by (simp add: mod_simps)
  with Suc show ?thesis by (simp add: ones_compl_def)
qed (simp add: ones_compl_def)

lemma ones_compl_range: "ones_compl n \<le> 65535"
proof -
  have "(n - 1) mod 65535 < 65535" by simp
  then have "(n - 1) mod 65535 + 1 \<le> 65535" by linarith
  then show ?thesis unfolding ones_compl_def by simp
qed

lemma oc_eq_ones_compl: "oc_eq (ones_compl n) n"
  using ones_compl_mod [of n] by (auto simp: oc_eq_def ones_compl_def)

lemma ones_compl_cong: "oc_eq a b \<Longrightarrow> ones_compl a = ones_compl b"
proof -
  assume e: "oc_eq a b"
  show ?thesis
  proof (cases "a = 0")
    case False
    with e have nz: "a \<noteq> 0" "b \<noteq> 0" by (auto simp: oc_eq_def)
    then obtain i j where ij: "a = Suc i" "b = Suc j" by (metis not0_implies_Suc)
    have "(i + 1) mod 65535 = (j + 1) mod 65535" using e ij by (simp add: oc_eq_def)
    then have "(i + 1 + 65534) mod 65535 = (j + 1 + 65534) mod 65535" by (rule mod_add_cong) simp
    then have "i mod 65535 = j mod 65535" by simp
    with ij show ?thesis by (simp add: ones_compl_def)
  qed (use e in \<open>simp add: oc_eq_def ones_compl_def\<close>)
qed

lemma ones_compl_id: "n \<le> 65535 \<Longrightarrow> ones_compl n = n"
  by (auto simp: ones_compl_def)

lemma ones_compl_unique: "oc_eq a n \<Longrightarrow> a \<le> 65535 \<Longrightarrow> a = ones_compl n"
  using ones_compl_cong ones_compl_id by metis

section \<open>Bytes and words\<close>

lemma u16_le_unat: "unat (u16_le a b) = unat a + 256 * unat b"
proof -
  have "(ucast a :: u16_t) AND push_bit 8 (ucast b) = 0"
    by (rule bit_word_eqI) (auto simp: bit_simps dest: bit_imp_le_length)
  then have "u16_le a b = ucast a + push_bit 8 (ucast b)" by (simp add: u16_le_def disjunct_or)
  also have "\<dots> = of_nat (unat a + 256 * unat b)"
    by (simp add: push_bit_eq_mult)
  finally have "unat (u16_le a b) = (unat a + 256 * unat b) mod 65536"
    by (simp only: unat_of_nat_u16)
  then show ?thesis using unat_byte [of a] unat_byte [of b] by simp
qed

lemma load16_unat: "unat (load16 m a) = unat (m a) + 256 * unat (m (a + 1))"
  by (simp add: load16_def u16_le_unat)

lemma u32_le_u16: "u32_le a b c d = ucast (u16_le a b) + push_bit 16 (ucast (u16_le c d))"
proof -
  have e: "u32_le a b c d = ucast (u16_le a b) OR push_bit 16 (ucast (u16_le c d))"
  proof (rule bit_word_eqI)
    fix n
    assume "n < LENGTH(32)"
    then consider "n < 8" | "8 \<le> n" "n < 16" | "16 \<le> n" "n < 24" | "24 \<le> n" "n < 32" by fastforce
    then show "bit (u32_le a b c d) n = bit (ucast (u16_le a b) OR push_bit 16 (ucast (u16_le c d)) :: u32_t) n"
      by cases (auto simp: u32_le_def u16_le_def bit_simps dest: bit_imp_le_length)
  qed
  have "(ucast (u16_le a b) :: u32_t) AND push_bit 16 (ucast (u16_le c d)) = 0"
    by (rule bit_word_eqI) (auto simp: bit_simps dest: bit_imp_le_length)
  with e show ?thesis by (simp add: disjunct_or)
qed

lemma u32_le_unat: "unat (u32_le a b c d) = unat (u16_le a b) + 65536 * unat (u16_le c d)"
proof -
  have "u32_le a b c d = of_nat (unat (u16_le a b) + 65536 * unat (u16_le c d))"
    by (simp add: u32_le_u16 push_bit_eq_mult)
  then have "unat (u32_le a b c d) = (unat (u16_le a b) + 65536 * unat (u16_le c d)) mod 4294967296"
    by (simp only: unat_of_nat_u32)
  then show ?thesis using unat_u16 [of "u16_le a b"] unat_u16 [of "u16_le c d"] by simp
qed

lemma unat_add32: "unat (a + b :: u32_t) = (unat a + unat b) mod 4294967296"
  by (simp add: unat_word_ariths)

lemma unat_add32_small: "unat a + unat b < 4294967296 \<Longrightarrow> unat (a + b :: u32_t) = unat a + unat b"
  by (simp add: unat_add32)

lemma unat_ucast32 [simp]: "unat (ucast (w :: u16_t) :: u32_t) = unat w"
  using unat_u16 [of w] by (simp add: unsigned_ucast_eq take_bit_eq_mod)

lemma FOLD_unat: "unat (FOLD_U32T u) = unat u div 65536 + unat u mod 65536"
proof -
  have 1: "unat (drop_bit 16 u) = unat u div 65536"
    by (simp add: unat_drop_bit_eq drop_bit_eq_div unat_div)
  have "u AND 0xffff = take_bit 16 u" by (simp add: take_bit_eq_mask mask_eq_exp_minus_1)
  then have 2: "unat (u AND 0xffff) = unat u mod 65536"
    by (simp only: unsigned_take_bit_eq) (simp add: take_bit_eq_mod)
  have "unat u div 65536 < 65536" using unat_u32 [of u] by (simp add: less_mult_imp_div_less)
  then show ?thesis by (simp add: FOLD_U32T_def unat_add32 1 2)
qed

lemma FOLD_oc: "oc_eq (unat (FOLD_U32T u)) (unat u)"
proof -
  have "unat u = unat u mod 65536 + 65536 * (unat u div 65536)" by simp
  moreover have "oc_eq \<dots> (unat u mod 65536 + unat u div 65536)"
    by (intro oc_eq_add oc_eq_65536 oc_eq_refl)
  ultimately show ?thesis by (simp add: FOLD_unat add.commute oc_eq_sym)
qed

lemma FOLD_bound: "unat u \<le> 65536 * k + 65535 \<Longrightarrow> unat (FOLD_U32T u) \<le> k + 65535"
proof -
  assume "unat u \<le> 65536 * k + 65535"
  then have "unat u div 65536 \<le> (65536 * k + 65535) div 65536" by (rule div_le_mono)
  then have "unat u div 65536 \<le> k" by simp
  moreover have "unat u mod 65536 \<le> 65535" by simp
  ultimately show ?thesis unfolding FOLD_unat by linarith
qed

text \<open>Folding twice gives a 16 bit value; folding once does below \<open>0x20000\<close>.\<close>

lemma FOLD_twice: "unat (FOLD_U32T (FOLD_U32T u)) \<le> 65535"
proof -
  have "unat (FOLD_U32T u) \<le> 131070"
    using FOLD_bound [of u 65535] unat_u32 [of u] by simp
  then show ?thesis unfolding FOLD_unat [of "FOLD_U32T u"]
    by (cases "unat (FOLD_U32T u) < 65536") (auto simp: div_nat_eqI le_div_geq le_mod_geq)
qed

lemma FOLD_once: "unat u \<le> 131070 \<Longrightarrow> unat (FOLD_U32T u) \<le> 65535"
  unfolding FOLD_unat by (cases "unat u < 65536") (auto simp: le_div_geq le_mod_geq)

lemma SWAP_unat: "unat w \<le> 65535 \<Longrightarrow> unat (SWAP_BYTES_IN_WORD w) = 256 * (unat w mod 256) + unat w div 256"
proof -
  assume w: "unat w \<le> 65535"
  have "w AND 0xff = take_bit 8 w" by (simp add: take_bit_eq_mask mask_eq_exp_minus_1)
  then have 1: "unat (w AND 0xff) = unat w mod 256" by (simp only: unsigned_take_bit_eq) (simp add: take_bit_eq_mod)
  have hi: "drop_bit 8 (w AND 0xff00) = take_bit 8 (drop_bit 8 w)"
    by (rule bit_word_eqI, simp only: bit_drop_bit_eq comp_def bit_and_iff bit_consts bit_take_bit_iff)
      (auto dest: bit_imp_le_length)
  have 2: "unat (drop_bit 8 (w AND 0xff00)) = unat w div 256"
    using w less_mult_imp_div_less [of "unat w" 256 256] unfolding hi
    by (simp only: unsigned_take_bit_eq unat_drop_bit_eq) (simp add: take_bit_eq_mod drop_bit_eq_div)
  have "push_bit 8 (w AND 0xff) AND drop_bit 8 (w AND 0xff00) = 0"
    unfolding hi by (rule bit_word_eqI) (auto simp: bit_simps bit_consts)
  then have "SWAP_BYTES_IN_WORD w = push_bit 8 (w AND 0xff) + drop_bit 8 (w AND 0xff00)"
    by (simp add: SWAP_BYTES_IN_WORD_def disjunct_or)
  also have "\<dots> = of_nat (256 * unat (w AND 0xff) + unat (drop_bit 8 (w AND 0xff00)))"
    by (simp add: push_bit_eq_mult del: unsigned_and_eq)
  finally have "unat (SWAP_BYTES_IN_WORD w) = (256 * (unat w mod 256) + unat w div 256) mod 4294967296"
    by (simp only: unat_of_nat_u32 1 2)
  moreover have "256 * (unat w mod 256) + unat w div 256 < 4294967296"
    using w less_mult_imp_div_less [of "unat w" 256 256] mod_less_divisor [of 256 "unat w"] by simp
  ultimately show ?thesis by simp
qed

lemma SWAP_bound: "unat w \<le> 65535 \<Longrightarrow> unat (SWAP_BYTES_IN_WORD w) \<le> 65535"
  using less_mult_imp_div_less [of "unat w" 256 256] mod_less_divisor [of 256 "unat w"]
  by (simp add: SWAP_unat)

lemma SWAP_oc: "unat w \<le> 65535 \<Longrightarrow> oc_eq (unat (SWAP_BYTES_IN_WORD w)) (256 * unat w)"
proof -
  assume w: "unat w \<le> 65535"
  have "256 * unat w = 256 * (unat w mod 256 + 256 * (unat w div 256))" by simp
  also have "\<dots> = 256 * (unat w mod 256) + 65536 * (unat w div 256)" by (simp only: distrib_left mult.assoc [symmetric])
  also have "oc_eq \<dots> (256 * (unat w mod 256) + unat w div 256)"
    by (intro oc_eq_add oc_eq_65536 oc_eq_refl)
  finally show ?thesis using w by (simp add: SWAP_unat oc_eq_sym)
qed

section \<open>Sums of lists of bytes\<close>

lemma bytes_Nil [simp]: "len \<le> 0 \<Longrightarrow> bytes m a len = []"
  by (simp add: bytes_def)

lemma bytes_Cons: "0 < len \<Longrightarrow> bytes m a len = m a # bytes m (a + 1) (len - 1)"
proof -
  assume l: "0 < len"
  then have "nat len = Suc (nat (len - 1))" by simp
  then have "[0..<nat len] = 0 # map Suc [0..<nat (len - 1)]" by (simp add: upt_conv_Cons map_Suc_upt del: upt_Suc)
  then show ?thesis by (simp add: bytes_def algebra_simps)
qed

lemma length_bytes [simp]: "length (bytes m a len) = nat len"
  by (simp add: bytes_def)

lemma words_sum_Cons: "oc_eq (words_sum (b # bs)) (unat b + 256 * words_sum bs)"
proof (induction bs arbitrary: b rule: words_sum.induct)
  case (3 c d bs)
  from 3 [of d] have IH: "oc_eq (words_sum (d # bs)) (unat d + 256 * words_sum bs)" .
  have "oc_eq (unat b + 256 * unat c + words_sum (d # bs)) (unat b + 256 * unat c + (unat d + 256 * words_sum bs))"
    by (intro oc_eq_add oc_eq_refl IH)
  also have "oc_eq \<dots> (unat b + 256 * unat c + (65536 * unat d + 256 * words_sum bs))"
    by (intro oc_eq_add oc_eq_refl oc_eq_sym [OF oc_eq_65536])
  also have "\<dots> = unat b + 256 * words_sum (c # d # bs)" by (simp add: distrib_left)
  finally show ?case by simp
qed simp_all

lemma words_sum_le_val: "oc_eq (words_sum bs) (le_val bs)"
proof (induction bs)
  case (Cons b bs)
  have "oc_eq (words_sum (b # bs)) (unat b + 256 * words_sum bs)" by (rule words_sum_Cons)
  also have "oc_eq \<dots> (unat b + 256 * le_val bs)" by (intro oc_eq_add oc_eq_mult oc_eq_refl Cons)
  finally show ?case by simp
qed simp

lemma words_sum_append: "even (length xs) \<Longrightarrow> words_sum (xs @ ys) = words_sum xs + words_sum ys"
  by (induction xs rule: words_sum.induct) auto

lemma words_sum_append_odd:
  "odd (length xs) \<Longrightarrow> oc_eq (words_sum (xs @ ys)) (words_sum xs + 256 * words_sum ys)"
proof (induction xs rule: words_sum.induct)
  case (2 b)
  then show ?case using words_sum_Cons [of b ys] by simp
next
  case (3 b c bs)
  then have "oc_eq (unat b + 256 * unat c + words_sum (bs @ ys)) (unat b + 256 * unat c + (words_sum bs + 256 * words_sum ys))"
    by (intro oc_eq_add oc_eq_refl) simp
  then show ?case by (simp add: add.assoc)
qed simp

section \<open>The loops\<close>

lemma words_loop_spec:
  "0 \<le> len \<Longrightarrow> unat sm + 65535 * (nat len div 2) < 4294967296 \<Longrightarrow>
     \<exists>sm' ps'. words_loop m sm ps len = (sm', ps', len mod 2) \<and>
       unat sm' + (if len mod 2 > 0 then unat (m ps') else 0) = unat sm + words_sum (bytes m ps len) \<and>
       unat sm' \<le> unat sm + 65535 * (nat len div 2)"
proof (induction m sm ps len rule: words_loop.induct)
  case (1 m sm ps len)
  show ?case
  proof (cases "len > 1")
    case True
    have d: "nat len div 2 = Suc (nat (len - 2) div 2)" using True by (simp add: nat_diff_distrib' le_div_geq)
    have w: "unat (load16 m ps) \<le> 65535" using unat_u16 [of "load16 m ps"] by simp
    then have u: "unat (sm + ucast (load16 m ps)) = unat sm + unat (load16 m ps)"
      using "1.prems"(2) d by (subst unat_add32_small) auto
    have "bytes m ps len = m ps # m (ps + 1) # bytes m (ps + 2) (len - 2)"
      using True by (simp add: bytes_Cons add.commute)
    moreover have "(len - 2) mod 2 = len mod 2" by presburger
    ultimately show ?thesis
      using "1.IH" [OF True] "1.prems" True d u w words_loop.simps [of m sm ps len]
      by (fastforce simp: load16_unat)
  next
    case False
    with "1.prems"(1) have "len = 0 \<or> len = 1" by auto
    with False show ?thesis by (auto simp: words_loop.simps [of m sm ps] bytes_Cons)
  qed
qed

lemma chksum_1_loop_spec:
  "0 \<le> len \<Longrightarrow> unat sm + 65535 * (nat len div 2) < 4294967296 \<Longrightarrow>
     \<exists>sm' ps'. chksum_1_loop m sm ps len = (sm', ps', len mod 2) \<and>
       oc_eq (256 * (unat sm' + (if len mod 2 > 0 then 256 * unat (m ps') else 0))) (256 * unat sm + words_sum (bytes m ps len)) \<and>
       unat sm' \<le> unat sm + 65535 * (nat len div 2)"
proof (induction m sm ps len rule: chksum_1_loop.induct)
  case (1 m sm ps len)
  let ?src = "push_bit 8 (ucast (m ps)) OR ucast (m (ps + 1)) :: u16_t"
  show ?case
  proof (cases "len > 1")
    case True
    have d: "nat len div 2 = Suc (nat (len - 2) div 2)" using True by (simp add: nat_diff_distrib' le_div_geq)
    have src: "unat ?src = unat (m (ps + 1)) + 256 * unat (m ps)"
      using u16_le_unat [of "m (ps + 1)" "m ps"] by (simp add: u16_le_def or.commute)
    have w: "unat ?src \<le> 65535" using unat_u16 [of ?src] by simp
    then have u: "unat (sm + ucast ?src) = unat sm + unat ?src"
      using "1.prems"(2) d by (subst unat_add32_small) auto
    have "0 \<le> len - 2" "unat (sm + ucast ?src) + 65535 * (nat (len - 2) div 2) < 4294967296"
      using True "1.prems" u w d by auto
    with "1.IH" [OF True refl refl refl refl] obtain sm' ps' where r:
      "chksum_1_loop m (sm + ucast ?src) (ps + 2) (len - 2) = (sm', ps', (len - 2) mod 2)"
      "oc_eq (256 * (unat sm' + (if (len - 2) mod 2 > 0 then 256 * unat (m ps') else 0)))
         (256 * unat (sm + ucast ?src) + words_sum (bytes m (ps + 2) (len - 2)))"
      "unat sm' \<le> unat (sm + ucast ?src) + 65535 * (nat (len - 2) div 2)"
      by (auto simp: add.assoc)
    have b: "bytes m ps len = m ps # m (ps + 1) # bytes m (ps + 2) (len - 2)"
      using True by (simp add: bytes_Cons add.commute)
    have p: "(len - 2) mod 2 = len mod 2" by presburger
    have "256 * unat (sm + ucast ?src) + words_sum (bytes m (ps + 2) (len - 2)) =
        256 * unat sm + (256 * unat (m (ps + 1)) + 65536 * unat (m ps) + words_sum (bytes m (ps + 2) (len - 2)))"
      using u src by (simp add: distrib_left)
    also have "oc_eq \<dots> (256 * unat sm + (256 * unat (m (ps + 1)) + unat (m ps) + words_sum (bytes m (ps + 2) (len - 2))))"
      by (intro oc_eq_add oc_eq_65536 oc_eq_refl)
    also have "\<dots> = 256 * unat sm + words_sum (bytes m ps len)" by (simp add: b)
    finally have "oc_eq (256 * unat (sm + ucast ?src) + words_sum (bytes m (ps + 2) (len - 2))) (256 * unat sm + words_sum (bytes m ps len))" .
    with r(2) have "oc_eq (256 * (unat sm' + (if len mod 2 > 0 then 256 * unat (m ps') else 0))) (256 * unat sm + words_sum (bytes m ps len))"
      unfolding p by (rule oc_eq_trans)
    moreover have "chksum_1_loop m sm ps len = (sm', ps', len mod 2)"
      using True r(1) p by (simp add: chksum_1_loop.simps [of m sm ps len] Let_def add.assoc)
    ultimately show ?thesis using r(3) u w d by auto
  next
    case False
    with "1.prems"(1) have "len = 0 \<or> len = 1" by auto
    with False oc_eq_add [OF oc_eq_refl oc_eq_65536, of "256 * unat sm" "unat (m ps)"] show ?thesis
      by (auto simp: chksum_1_loop.simps [of m sm ps] bytes_Cons distrib_left)
  qed
qed

text \<open>Addition with the carry added back in.\<close>

lemma carry_add:
  fixes x y :: u32_t
  defines "t \<equiv> x + y"
  shows "oc_eq (unat (if t < x then t + 1 else t)) (unat x + unat y)"
proof (cases "unat x + unat y < 4294967296")
  case True
  then have "unat t = unat x + unat y" by (simp add: t_def unat_add32_small)
  moreover from this have "\<not> t < x" by (simp add: word_less_nat_alt)
  ultimately show ?thesis by simp
next
  case False
  then have t: "unat t = unat x + unat y - 4294967296"
    using unat_u32 [of x] unat_u32 [of y] unfolding t_def unat_add32 by (simp add: le_mod_geq)
  then have "t < x" using unat_u32 [of y] False by (simp add: word_less_nat_alt)
  moreover have "unat (t + 1) = unat t + 1"
    using t unat_u32 [of x] unat_u32 [of y] by (subst unat_add32_small) auto
  moreover have "unat x + unat y = (unat t + 1) + 65535 * 65537" using t False by simp
  then have "(unat x + unat y) mod 65535 = (unat t + 1) mod 65535" by (simp only: mod_mult_self2)
  ultimately show ?thesis using False by (auto simp: oc_eq_def)
qed

lemma load32_oc: "oc_eq (unat (load32 m a)) (unat (m a) + 256 * unat (m (a + 1)) + (unat (m (a + 2)) + 256 * unat (m (a + 3))))"
  unfolding load32_def u32_le_unat u16_le_unat by (intro oc_eq_add oc_eq_65536 oc_eq_refl)

lemma chksum_3_loop_spec:
  "0 \<le> len \<Longrightarrow>
     \<exists>sm' pl'. chksum_3_loop m sm pl len = (sm', pl', len mod 8) \<and>
       oc_eq (unat sm' + words_sum (bytes m pl' (len mod 8))) (unat sm + words_sum (bytes m pl len))"
proof (induction m sm pl len rule: chksum_3_loop.induct)
  case (1 m sm pl len)
  show ?case
  proof (cases "len > 7")
    case True
    define tmp where "tmp = (if sm + load32 m pl < sm then sm + load32 m pl + 1 else sm + load32 m pl)"
    define s2 where "s2 = (if tmp + load32 m (pl + 4) < tmp then tmp + load32 m (pl + 4) + 1 else tmp + load32 m (pl + 4))"
    have loop: "chksum_3_loop m sm pl len = chksum_3_loop m s2 (pl + 8) (len - 8)"
      using True by (simp add: chksum_3_loop.simps [of m sm pl len] Let_def tmp_def s2_def)
    have "oc_eq (unat s2) (unat tmp + unat (load32 m (pl + 4)))" unfolding s2_def by (rule carry_add)
    also have "oc_eq \<dots> (unat sm + unat (load32 m pl) + unat (load32 m (pl + 4)))"
      unfolding tmp_def by (intro oc_eq_add oc_eq_refl carry_add)
    finally have s2: "oc_eq (unat s2) (unat sm + unat (load32 m pl) + unat (load32 m (pl + 4)))" .
    have b: "bytes m pl len = m pl # m (pl + 1) # m (pl + 2) # m (pl + 3) # m (pl + 4) # m (pl + 5) # m (pl + 6) #
        m (pl + 7) # bytes m (pl + 8) (len - 8)"
      using True by (simp add: bytes_Cons add.commute)
    have p: "(len - 8) mod 8 = len mod 8" by presburger
    obtain sm' pl' where r: "chksum_3_loop m s2 (pl + 8) (len - 8) = (sm', pl', (len - 8) mod 8)"
      "oc_eq (unat sm' + words_sum (bytes m pl' ((len - 8) mod 8))) (unat s2 + words_sum (bytes m (pl + 8) (len - 8)))"
      using "1.IH" [OF True refl refl refl refl] True unfolding tmp_def s2_def by auto
    note r(2)
    also have "oc_eq (unat s2 + words_sum (bytes m (pl + 8) (len - 8)))
        (unat sm + unat (load32 m pl) + unat (load32 m (pl + 4)) + words_sum (bytes m (pl + 8) (len - 8)))"
      by (intro oc_eq_add s2 oc_eq_refl)
    also have "oc_eq \<dots> (unat sm + (unat (m pl) + 256 * unat (m (pl + 1)) + (unat (m (pl + 2)) + 256 * unat (m (pl + 3))))
        + (unat (m (pl + 4)) + 256 * unat (m (pl + 4 + 1)) + (unat (m (pl + 4 + 2)) + 256 * unat (m (pl + 4 + 3))))
        + words_sum (bytes m (pl + 8) (len - 8)))"
      by (intro oc_eq_add load32_oc oc_eq_refl)
    also have "\<dots> = unat sm + words_sum (bytes m pl len)" by (simp add: b add.commute)
    finally show ?thesis using r(1) loop p by auto
  next
    case False
    with "1.prems" show ?thesis by (simp add: chksum_3_loop.simps [of m sm pl len])
  qed
qed

section \<open>The three versions compute the Internet sum\<close>

lemma chksum_end:
  assumes "oc_eq (unat w) (words_sum bs)" "unat (w :: u32_t) \<le> 65535"
  shows "(ucast w :: u16_t) = inet_sum bs"
proof -
  have "unat (ucast w :: u16_t) = unat w" using assms(2) by (simp add: unsigned_ucast_eq take_bit_eq_mod)
  moreover have "unat w = ones_compl (words_sum bs)" using assms by (rule ones_compl_unique)
  ultimately have "unat (ucast w :: u16_t) = unat (inet_sum bs)"
    using ones_compl_range [of "words_sum bs"] by (simp add: inet_sum_def unat_of_nat_u16)
  then show ?thesis by (rule word_unat_eq_iff [THEN iffD2])
qed

text \<open>The common end of versions 2 and 3: two folds, and a swap when the start was odd.\<close>

lemma fold_swap_end:
  assumes "oc_eq (unat sm) (if odd_start then 256 * words_sum bs else words_sum bs)"
  shows "ucast (let sm = FOLD_U32T sm; sm = FOLD_U32T sm
     in if odd_start then SWAP_BYTES_IN_WORD sm else sm) = inet_sum bs"
proof -
  let ?f = "FOLD_U32T (FOLD_U32T sm)"
  have f: "oc_eq (unat ?f) (unat sm)" using FOLD_oc oc_eq_trans by blast
  show ?thesis
  proof (cases odd_start)
    case True
    have "oc_eq (unat (SWAP_BYTES_IN_WORD ?f)) (256 * unat ?f)" by (rule SWAP_oc) (rule FOLD_twice)
    also have "oc_eq \<dots> (256 * (256 * words_sum bs))"
      by (rule oc_eq_mult) (use oc_eq_trans [OF f] assms True in simp)
    also have "\<dots> = 65536 * words_sum bs" by simp
    also have "oc_eq \<dots> (words_sum bs)" by (rule oc_eq_65536)
    finally show ?thesis using True SWAP_bound [OF FOLD_twice, of sm]
      by (simp add: Let_def chksum_end)
  next
    case False
    with oc_eq_trans [OF f] assms FOLD_twice [of sm] show ?thesis by (simp add: Let_def chksum_end)
  qed
qed

text \<open>What is added up when the first byte, at an odd address, goes into the upper half.\<close>

lemma odd_start_sum:
  "0 < len \<Longrightarrow> oc_eq (256 * unat (m a) + words_sum (bytes m (a + 1) (len - 1))) (256 * words_sum (bytes m a len))"
proof -
  assume l: "0 < len"
  have "oc_eq (256 * words_sum (bytes m a len)) (256 * (unat (m a) + 256 * words_sum (bytes m (a + 1) (len - 1))))"
    unfolding bytes_Cons [OF l] by (intro oc_eq_mult words_sum_Cons)
  also have "\<dots> = 256 * unat (m a) + 65536 * words_sum (bytes m (a + 1) (len - 1))" by (simp add: distrib_left)
  also have "oc_eq \<dots> (256 * unat (m a) + words_sum (bytes m (a + 1) (len - 1)))"
    by (intro oc_eq_add oc_eq_65536 oc_eq_refl)
  finally show ?thesis by (rule oc_eq_sym)
qed

lemma chksum_2_correct:
  assumes "0 \<le> len" "len \<le> 131072"
  shows "lwip_standard_chksum m dataptr len = inet_sum (bytes m dataptr len)"
proof -
  let ?odd = "dataptr mod 2 = 1"
  obtain t1 pb n where s: "(if ?odd \<and> len > 0 then (m dataptr, dataptr + 1, len - 1) else (0, dataptr, len)) = (t1, pb, n)"
    by (metis prod_cases3)
  have n: "0 \<le> n" "n \<le> 131072" using s assms by (auto split: if_splits)
  then have nb: "nat n div 2 \<le> 65536" by simp
  then have "unat (0 :: u32_t) + 65535 * (nat n div 2) < 4294967296" by simp
  from words_loop_spec [OF n(1) this, of m pb] obtain sm ps where l:
    "words_loop m 0 pb n = (sm, ps, n mod 2)"
    "unat sm + (if n mod 2 > 0 then unat (m ps) else 0) = words_sum (bytes m pb n)"
    "unat sm \<le> 65535 * (nat n div 2)" by auto
  let ?t0 = "if n mod 2 > 0 then m ps else 0"
  have "unat (u16_le ?t0 t1) \<le> 65535" using unat_u16 [of "u16_le ?t0 t1"] by simp
  moreover have "unat sm \<le> 65535 * 65536" using l(3) nb by simp
  moreover have "?odd \<Longrightarrow> 0 < len \<Longrightarrow> len - 1 < 131072" using assms by simp
  ultimately have small: "unat sm + unat (u16_le ?t0 t1) < 4294967296" by simp
  have "unat (sm + ucast (u16_le ?t0 t1)) = 256 * unat t1 + words_sum (bytes m pb n)"
    using small l(2) by (subst unat_add32_small) (auto simp: u16_le_unat)
  moreover have "oc_eq (256 * unat t1 + words_sum (bytes m pb n))
      (if ?odd then 256 * words_sum (bytes m dataptr len) else words_sum (bytes m dataptr len))"
    using s odd_start_sum [of len m dataptr] assms(1) by (auto split: if_splits)
  ultimately have "oc_eq (unat (sm + ucast (u16_le ?t0 t1)))
      (if ?odd then 256 * words_sum (bytes m dataptr len) else words_sum (bytes m dataptr len))" by simp
  from fold_swap_end [OF this] show ?thesis
    by (simp only: lwip_standard_chksum_def Let_def s prod.case l(1))
qed

lemma chksum_3_correct:
  assumes "0 \<le> len"
  shows "lwip_standard_chksum_3 m dataptr len = inet_sum (bytes m dataptr len)"
proof -
  let ?odd = "dataptr mod 2 = 1"
  obtain t1 pb n where s: "(if ?odd \<and> len > 0 then (m dataptr, dataptr + 1, len - 1) else (0, dataptr, len)) = (t1, pb, n)"
    by (metis prod_cases3)
  have n: "0 \<le> n" using s assms by (auto split: if_splits)
  obtain s1 p1 n1 where h: "(if pb mod 4 \<noteq> 0 \<and> n > 1 then (ucast (load16 m pb), pb + 2, n - 2) else (0, pb, n)) = (s1 :: u32_t, p1, n1)"
    by (metis prod_cases3)
  have n1: "0 \<le> n1" and s1: "unat s1 + words_sum (bytes m p1 n1) = words_sum (bytes m pb n)"
    using h n by (auto split: if_splits simp: bytes_Cons [of n] bytes_Cons [of "n - 1"] load16_unat add.assoc)
  obtain s2 p2 where l3: "chksum_3_loop m s1 p1 n1 = (s2, p2, n1 mod 8)"
    "oc_eq (unat s2 + words_sum (bytes m p2 (n1 mod 8))) (words_sum (bytes m pb n))"
    using chksum_3_loop_spec [OF n1, of m s1 p1] s1 by auto
  have fb: "unat (FOLD_U32T s2) \<le> 131070" using FOLD_bound [of s2 65535] unat_u32 [of s2] by simp
  have n8: "0 \<le> n1 mod 8" "nat (n1 mod 8) div 2 \<le> 3" by simp_all
  then have "unat (FOLD_U32T s2) + 65535 * (nat (n1 mod 8) div 2) < 4294967296" using fb by simp
  from words_loop_spec [OF n8(1) this, of m p2] obtain sm ps where l:
    "words_loop m (FOLD_U32T s2) p2 (n1 mod 8) = (sm, ps, n1 mod 8 mod 2)"
    "unat sm + (if n1 mod 8 mod 2 > 0 then unat (m ps) else 0) = unat (FOLD_U32T s2) + words_sum (bytes m p2 (n1 mod 8))"
    "unat sm \<le> unat (FOLD_U32T s2) + 65535 * (nat (n1 mod 8) div 2)" by auto
  let ?t0 = "if n1 mod 8 mod 2 > 0 then m ps else 0"
  have "unat (u16_le ?t0 t1) \<le> 65535" using unat_u16 [of "u16_le ?t0 t1"] by simp
  moreover have "unat sm \<le> 131070 + 65535 * 3" using l(3) n8(2) fb by simp
  ultimately have small: "unat sm + unat (u16_le ?t0 t1) < 4294967296" by simp
  have "unat (sm + ucast (u16_le ?t0 t1)) = 256 * unat t1 + (unat (FOLD_U32T s2) + words_sum (bytes m p2 (n1 mod 8)))"
    using small l(2) by (subst unat_add32_small) (auto simp: u16_le_unat)
  also have "oc_eq \<dots> (256 * unat t1 + (unat s2 + words_sum (bytes m p2 (n1 mod 8))))"
    by (intro oc_eq_add oc_eq_refl FOLD_oc)
  also have "oc_eq \<dots> (256 * unat t1 + words_sum (bytes m pb n))" by (intro oc_eq_add oc_eq_refl l3(2))
  also have "oc_eq \<dots> (if ?odd then 256 * words_sum (bytes m dataptr len) else words_sum (bytes m dataptr len))"
    using s odd_start_sum [of len m dataptr] assms(1) by (auto split: if_splits)
  finally have "oc_eq (unat (sm + ucast (u16_le ?t0 t1)))
      (if ?odd then 256 * words_sum (bytes m dataptr len) else words_sum (bytes m dataptr len))" .
  from fold_swap_end [OF this] show ?thesis
    by (simp only: lwip_standard_chksum_3_def Let_def s prod.case h l3(1) l(1))
qed

lemma byte_0_unat: "unat (byte_of 0 (w :: u16_t)) = unat w mod 256"
  by (simp add: byte_of_def unsigned_ucast_eq take_bit_eq_mod)

lemma byte_1_unat: "unat (byte_of 1 (w :: u16_t)) = unat w div 256"
  using unat_u16 [of w] less_mult_imp_div_less [of "unat w" 256 256]
  by (simp add: byte_of_def unsigned_ucast_eq take_bit_eq_mod unat_drop_bit_eq drop_bit_eq_div unat_div)

lemma htons_unat: "unat (lwip_htons w) = 256 * (unat w mod 256) + unat w div 256"
proof -
  have "byte_of 0 (lwip_htons w) = byte_of 1 w" "byte_of 1 (lwip_htons w) = byte_of 0 w"
    using htons_bytes [of w] by (simp_all add: u16_bytes_def)
  then have "lwip_htons w = u16_le (byte_of 1 w) (byte_of 0 w)"
    using u16_le_bytes [of "lwip_htons w"] by simp
  then show ?thesis by (simp only: u16_le_unat byte_0_unat byte_1_unat add.commute)
qed

lemma and_upper_zero: "(acc :: u32_t) AND 0xffff0000 = 0 \<Longrightarrow> unat acc \<le> 65535"
proof -
  assume z: "acc AND 0xffff0000 = 0"
  have "(0xffff0000 :: u32_t) = push_bit 16 (mask 16)" by (simp add: mask_eq_exp_minus_1 push_bit_eq_mult)
  with z have z': "acc AND push_bit 16 (mask 16) = 0" by simp
  have "\<not> bit acc n" if "16 \<le> n" "n < 32" for n
  proof
    assume "bit acc n"
    with that have "bit (acc AND push_bit 16 (mask 16)) n" by (auto simp: bit_simps)
    with z' show False by simp
  qed
  then have "bit acc n = bit (take_bit 16 acc) n" if "n < 32" for n
    using that by (cases "n < 16") (simp_all add: bit_take_bit_iff)
  then have "acc = take_bit 16 acc" by (intro bit_word_eqI) simp
  then have "unat acc = take_bit 16 (unat acc)" by (metis unsigned_take_bit_eq)
  moreover have "take_bit 16 (unat acc) < 65536" by (simp add: take_bit_eq_mod)
  ultimately show ?thesis by simp
qed

lemma chksum_1_correct:
  assumes "0 \<le> len" "len \<le> 65535"
  shows "lwip_standard_chksum_1 m dataptr len = inet_sum (bytes m dataptr len)"
proof -
  have nb: "nat len div 2 \<le> 32767" using assms by simp
  then have "unat (0 :: u32_t) + 65535 * (nat len div 2) < 4294967296" by simp
  from chksum_1_loop_spec [OF assms(1) this, of m dataptr] obtain sm ps where l:
    "chksum_1_loop m 0 dataptr len = (sm, ps, len mod 2)"
    "oc_eq (256 * (unat sm + (if len mod 2 > 0 then 256 * unat (m ps) else 0))) (words_sum (bytes m dataptr len))"
    "unat sm \<le> 65535 * (nat len div 2)" by auto
  let ?hi = "push_bit 8 (ucast (m ps)) :: u16_t"
  have hi: "unat ?hi = 256 * unat (m ps)" using u16_le_unat [of 0 "m ps"] by (simp add: u16_le_def)
  define a1 where "a1 = (if len mod 2 > 0 then sm + ucast ?hi else sm)"
  have "unat sm \<le> 65535 * 32767" using l(3) nb by simp
  then have small: "unat sm + unat ?hi < 4294967296" using unat_u16 [of ?hi] by simp
  have a1: "unat a1 = unat sm + (if len mod 2 > 0 then 256 * unat (m ps) else 0)"
    using small hi unat_add32_small [of sm "ucast ?hi"] by (simp add: a1_def)
  define a2 where "a2 = (if FOLD_U32T a1 AND 0xffff0000 \<noteq> 0 then FOLD_U32T (FOLD_U32T a1) else FOLD_U32T a1)"
  have a2: "oc_eq (unat a2) (unat a1)" "unat a2 \<le> 65535"
    using FOLD_oc [of a1] FOLD_oc [of "FOLD_U32T a1"] FOLD_twice [of a1] and_upper_zero [of "FOLD_U32T a1"]
    by (auto simp: a2_def intro: oc_eq_trans)
  have r: "lwip_standard_chksum_1 m dataptr len = lwip_htons (ucast a2)"
    by (simp only: lwip_standard_chksum_1_def Let_def l(1) prod.case a2_def a1_def FOLD_U32T_def)
  have u: "unat (ucast a2 :: u16_t) = unat a2" using a2(2) by (simp add: unsigned_ucast_eq take_bit_eq_mod)
  have h: "unat (lwip_htons (ucast a2)) = unat (SWAP_BYTES_IN_WORD a2)"
    by (simp only: htons_unat u SWAP_unat [OF a2(2)])
  have "oc_eq (unat (SWAP_BYTES_IN_WORD a2)) (256 * unat a2)" by (rule SWAP_oc [OF a2(2)])
  also have "oc_eq \<dots> (256 * unat a1)" by (rule oc_eq_mult [OF a2(1)])
  also have "oc_eq \<dots> (words_sum (bytes m dataptr len))" using l(2) by (simp add: a1)
  finally have "ucast (SWAP_BYTES_IN_WORD a2) = inet_sum (bytes m dataptr len)"
    using SWAP_bound [OF a2(2)] by (rule chksum_end)
  moreover have "lwip_htons (ucast a2) = ucast (SWAP_BYTES_IN_WORD a2)"
    using h SWAP_bound [OF a2(2)]
    by (intro word_unat_eq_iff [THEN iffD2]) (simp add: unsigned_ucast_eq take_bit_eq_mod)
  ultimately show ?thesis using r by simp
qed

section \<open>Chains\<close>

text \<open>\<open>chain_inv acc swapped bs\<close>: \<open>acc\<close>, with its bytes swapped when \<open>swapped\<close>, sums up \<open>bs\<close>.\<close>

definition chain_inv :: "u32_t \<Rightarrow> bool \<Rightarrow> u8_t list \<Rightarrow> bool" where
  "chain_inv acc swapped bs \<longleftrightarrow> unat acc \<le> 65535 \<and>
     oc_eq (if swapped then 256 * unat acc else unat acc) (words_sum bs)"

definition chain_add :: "u32_t \<Rightarrow> u16_t \<Rightarrow> bool \<Rightarrow> u32_t" where
  "chain_add acc c b = (if b then SWAP_BYTES_IN_WORD (FOLD_U32T (acc + ucast c)) else FOLD_U32T (acc + ucast c))"

lemma inet_sum_oc: "oc_eq (unat (inet_sum bs)) (words_sum bs)"
  using ones_compl_range [of "words_sum bs"] oc_eq_ones_compl [of "words_sum bs"]
  by (simp add: inet_sum_def unat_of_nat_u16)

lemma chain_step:
  assumes inv: "chain_inv acc swapped bs" and odd: "swapped = odd (length bs)"
  shows "chain_inv (chain_add acc (inet_sum cs) b) (if b then \<not> swapped else swapped) (bs @ cs)"
proof -
  have acc: "unat acc \<le> 65535" "oc_eq (if swapped then 256 * unat acc else unat acc) (words_sum bs)"
    using inv by (simp_all add: chain_inv_def)
  let ?s = "acc + ucast (inet_sum cs)"
  let ?f = "FOLD_U32T ?s"
  have s: "unat ?s = unat acc + unat (inet_sum cs)"
    using acc(1) unat_u16 [of "inet_sum cs"] by (subst unat_add32_small) auto
  then have f: "unat ?f \<le> 65535" using acc(1) unat_u16 [of "inet_sum cs"] by (intro FOLD_once) simp
  have fo: "oc_eq (unat ?f) (unat acc + words_sum cs)"
  proof -
    have "oc_eq (unat ?f) (unat ?s)" by (rule FOLD_oc)
    also have "oc_eq (unat ?s) (unat acc + words_sum cs)"
      unfolding s by (intro oc_eq_add inet_sum_oc oc_eq_refl)
    finally show ?thesis .
  qed
  have U: "oc_eq (if swapped then 256 * unat ?f else unat ?f) (words_sum (bs @ cs))"
  proof (cases swapped)
    case True
    have "oc_eq (256 * unat ?f) (256 * (unat acc + words_sum cs))" by (rule oc_eq_mult [OF fo])
    also have "\<dots> = 256 * unat acc + 256 * words_sum cs" by (rule distrib_left)
    also have "oc_eq \<dots> (words_sum bs + 256 * words_sum cs)" using acc(2) True by (intro oc_eq_add) auto
    also have "oc_eq \<dots> (words_sum (bs @ cs))" using True odd by (intro oc_eq_sym [OF words_sum_append_odd]) simp
    finally show ?thesis using True by simp
  next
    case False
    have "oc_eq (unat acc + words_sum cs) (words_sum bs + words_sum cs)" using acc(2) False by (intro oc_eq_add) auto
    with fo False odd show ?thesis by (simp add: words_sum_append) (erule (1) oc_eq_trans)
  qed
  show ?thesis
  proof (cases b)
    case True
    let ?w = "SWAP_BYTES_IN_WORD ?f"
    have w: "unat ?w \<le> 65535" "oc_eq (unat ?w) (256 * unat ?f)" using f by (rule SWAP_bound, rule SWAP_oc)
    have "oc_eq (if \<not> swapped then 256 * unat ?w else unat ?w) (if swapped then 256 * unat ?f else unat ?f)"
    proof (cases swapped)
      case False
      have "oc_eq (256 * unat ?w) (256 * (256 * unat ?f))" by (rule oc_eq_mult [OF w(2)])
      also have "\<dots> = 65536 * unat ?f" by simp
      also have "oc_eq \<dots> (unat ?f)" by (rule oc_eq_65536)
      finally show ?thesis using False by simp
    qed (use w in simp)
    from oc_eq_trans [OF this U] w(1) True show ?thesis by (simp add: chain_inv_def chain_add_def)
  next
    case False
    with U f show ?thesis by (simp add: chain_inv_def chain_add_def)
  qed
qed

definition chain_ok :: "('r \<times> int \<times> int) list \<Rightarrow> bool" where
  "chain_ok p \<longleftrightarrow> (\<forall>(r, payload, len)\<in>set p. 0 \<le> len \<and> len \<le> 65535)"

lemma chain_loop_spec:
  "chain_ok p \<Longrightarrow> chain_inv acc swapped bs \<Longrightarrow> swapped = odd (length bs) \<Longrightarrow>
     chain_loop m p acc swapped = (acc', swapped') \<Longrightarrow> chain_inv acc' swapped' (bs @ chain_bytes m p)"
proof (induction p arbitrary: acc swapped bs)
  case (Cons x q)
  obtain r payload len where x: "x = (r, payload, len)" by (metis prod_cases3)
  let ?b = "len mod 2 \<noteq> 0"
  have len: "0 \<le> len" "len \<le> 131072" "chain_ok q" using Cons.prems(1) x by (auto simp: chain_ok_def)
  let ?cs = "bytes (m r) payload len"
  have c: "lwip_standard_chksum (m r) payload len = inet_sum ?cs" using len by (intro chksum_2_correct)
  have step: "chain_inv (chain_add acc (inet_sum ?cs) ?b) (if ?b then \<not> swapped else swapped) (bs @ ?cs)"
    using Cons.prems(2,3) by (rule chain_step)
  have "odd (nat len) \<longleftrightarrow> ?b" using len(1) by (simp add: even_nat_iff odd_iff_mod_2_eq_one)
  then have par: "(if ?b then \<not> swapped else swapped) = odd (length (bs @ ?cs))"
    using Cons.prems(3) by auto
  have "chain_loop m q (chain_add acc (inet_sum ?cs) ?b) (if ?b then \<not> swapped else swapped) = (acc', swapped')"
    using Cons.prems(4) x by (cases "?b") (simp_all add: Let_def c chain_add_def)
  from Cons.IH [OF len(3) step par this] show ?case by (simp add: chain_bytes_def x)
qed (simp add: chain_bytes_def)

lemma not_ucast: "(ucast (NOT ((acc :: u32_t) AND 0xffff)) :: u16_t) = NOT (ucast acc)"
proof (rule bit_word_eqI)
  fix n
  assume n: "n < LENGTH(16)"
  have "(0xffff :: u32_t) = mask 16" by (simp add: mask_eq_exp_minus_1)
  then have e: "bit (acc AND 0xffff) n = bit acc n" using n by (simp only: bit_and_iff bit_mask_iff) simp
  have "bit (ucast (NOT (acc AND 0xffff)) :: u16_t) n \<longleftrightarrow> \<not> bit (acc AND 0xffff) n"
    using n by (simp only: bit_ucast_iff bit_not_iff) simp
  with e n show "bit (ucast (NOT (acc AND 0xffff)) :: u16_t) n = bit (NOT (ucast acc) :: u16_t) n"
    by (simp add: bit_not_iff bit_ucast_iff)
qed

lemma chain_unswap:
  "chain_inv acc swapped bs \<Longrightarrow> chain_inv (if swapped then SWAP_BYTES_IN_WORD acc else acc) False bs"
  using SWAP_bound [of acc] oc_eq_trans [OF SWAP_oc [of acc]] by (auto simp: chain_inv_def)

lemma chain_inv_sum: "chain_inv acc False bs \<Longrightarrow> (ucast acc :: u16_t) = inet_sum bs"
  by (rule chksum_end) (auto simp: chain_inv_def)

lemma chain_inv_0 [simp]: "chain_inv 0 False []"
  by (simp add: chain_inv_def)

lemma words_sum_u32_bytes:
  "unat (w AND 0xffff) + unat (drop_bit 16 w AND 0xffff) = words_sum (u32_bytes w)"
proof -
  have t: "x AND 0xffff = take_bit 16 x" for x :: u32_t by (simp add: take_bit_eq_mask mask_eq_exp_minus_1)
  have "unat w = unat (u16_le (byte_of 0 w) (byte_of 1 w)) + 65536 * unat (u16_le (byte_of 2 w) (byte_of 3 w))"
    using u32_le_unat [of "byte_of 0 w" "byte_of 1 w" "byte_of 2 w" "byte_of 3 w"] by (simp only: u32_le_bytes)
  moreover have "unat (w AND 0xffff) = unat w mod 65536"
    unfolding t by (simp only: unsigned_take_bit_eq) (simp add: take_bit_eq_mod)
  moreover have "unat (drop_bit 16 w AND 0xffff) = unat w div 65536 mod 65536"
    unfolding t by (simp only: unsigned_take_bit_eq unat_drop_bit_eq) (simp add: take_bit_eq_mod drop_bit_eq_div)
  ultimately have "unat (w AND 0xffff) = unat (u16_le (byte_of 0 w) (byte_of 1 w))"
    "unat (drop_bit 16 w AND 0xffff) = unat (u16_le (byte_of 2 w) (byte_of 3 w))"
    using unat_u16 [of "u16_le (byte_of 0 w) (byte_of 1 w)"] unat_u16 [of "u16_le (byte_of 2 w) (byte_of 3 w)"] by simp_all
  then show ?thesis by (simp add: u32_bytes_def u16_le_unat)
qed

lemma length_u16_bytes [simp]: "length (u16_bytes w) = 2"
  by (simp add: u16_bytes_def)

lemma words_sum_u16_bytes: "words_sum (u16_bytes w) = unat w"
  using u16_le_unat [of "byte_of 0 w" "byte_of 1 w"] by (simp only: u16_bytes_def u16_le_bytes) simp

lemma add_pseudo_spec:
  assumes "unat acc \<le> 65535" "oc_eq (unat acc) (words_sum bs)"
  shows "add_pseudo acc src dest proto proto_len = NOT (inet_sum (pseudo_header src dest proto proto_len @ bs))"
proof -
  let ?s1 = "src AND 0xffff" and ?s2 = "drop_bit 16 src AND 0xffff"
  let ?d1 = "dest AND 0xffff" and ?d2 = "drop_bit 16 dest AND 0xffff"
  let ?p = "lwip_htons (ucast proto)" and ?l = "lwip_htons proto_len"
  have low: "unat (w AND 0xffff) \<le> 65535" for w :: u32_t
  proof -
    have "w AND 0xffff = take_bit 16 w" by (simp add: take_bit_eq_mask mask_eq_exp_minus_1)
    then have "unat (w AND 0xffff) = unat w mod 65536" by (simp only: unsigned_take_bit_eq) (simp add: take_bit_eq_mod)
    then show ?thesis by simp
  qed
  have p: "unat ?p = words_sum [0, proto]"
    using unat_byte [of proto] by (simp add: htons_unat unsigned_ucast_eq take_bit_eq_mod)
  have l: "unat ?l = words_sum (u16_bytes ?l)" by (simp add: words_sum_u16_bytes)
  note low [of src] low [of "drop_bit 16 src"] low [of dest] low [of "drop_bit 16 dest"] assms(1)
  note bounds = this unat_u16 [of ?p] unat_u16 [of ?l]
  let ?a = "acc + ?s1 + ?s2 + ?d1 + ?d2 + ucast ?p + ucast ?l"
  have "unat (acc + ?s1) = unat acc + unat ?s1" using bounds by (subst unat_add32_small) simp_all
  moreover from this have "unat (acc + ?s1 + ?s2) = unat acc + unat ?s1 + unat ?s2"
    using bounds by (subst unat_add32_small) simp_all
  moreover from this have "unat (acc + ?s1 + ?s2 + ?d1) = unat acc + unat ?s1 + unat ?s2 + unat ?d1"
    using bounds by (subst unat_add32_small) simp_all
  moreover from this have "unat (acc + ?s1 + ?s2 + ?d1 + ?d2) = unat acc + unat ?s1 + unat ?s2 + unat ?d1 + unat ?d2"
    using bounds by (subst unat_add32_small) simp_all
  moreover from this have "unat (acc + ?s1 + ?s2 + ?d1 + ?d2 + ucast ?p) =
      unat acc + unat ?s1 + unat ?s2 + unat ?d1 + unat ?d2 + unat ?p"
    using bounds by (subst unat_add32_small) simp_all
  ultimately have a: "unat ?a = unat acc + unat ?s1 + unat ?s2 + unat ?d1 + unat ?d2 + unat ?p + unat ?l"
    using bounds by (subst unat_add32_small) simp_all
  have h: "words_sum (pseudo_header src dest proto proto_len @ bs) =
      unat ?s1 + unat ?s2 + unat ?d1 + unat ?d2 + unat ?p + unat ?l + words_sum bs"
    using words_sum_u32_bytes [of src] words_sum_u32_bytes [of dest] p l
    by (simp add: pseudo_header_def u32_bytes_def u16_bytes_def)
  let ?f = "FOLD_U32T (FOLD_U32T ?a)"
  have "oc_eq (unat ?f) (unat ?a)" using FOLD_oc oc_eq_trans by blast
  also have "\<dots> = unat ?s1 + unat ?s2 + unat ?d1 + unat ?d2 + unat ?p + unat ?l + unat acc" by (simp add: a)
  also have "oc_eq \<dots> (unat ?s1 + unat ?s2 + unat ?d1 + unat ?d2 + unat ?p + unat ?l + words_sum bs)"
    by (intro oc_eq_add assms(2) oc_eq_refl)
  finally have "ucast ?f = inet_sum (pseudo_header src dest proto proto_len @ bs)"
    using FOLD_twice unfolding h [symmetric] by (rule chksum_end)
  then show ?thesis by (simp only: add_pseudo_def Let_def not_ucast)
qed

lemma chain_loop_sum:
  assumes "chain_ok p" "chain_loop m p 0 False = (acc, swapped)"
  shows "chain_inv (if swapped then SWAP_BYTES_IN_WORD acc else acc) False (chain_bytes m p)"
  using chain_unswap [OF chain_loop_spec [OF assms(1) chain_inv_0 _ assms(2)]] by simp

lemma bytes_take: "0 \<le> k \<Longrightarrow> k \<le> len \<Longrightarrow> bytes m a k = take (nat k) (bytes m a len)"
  by (simp add: bytes_def take_map)

lemma partial_loop_spec:
  "chain_ok p \<Longrightarrow> chain_inv acc swapped bs \<Longrightarrow> swapped = odd (length bs) \<Longrightarrow> 0 \<le> n \<Longrightarrow> n \<le> 65535 \<Longrightarrow>
     partial_loop m p n acc swapped = (acc', swapped') \<Longrightarrow>
     chain_inv acc' swapped' (bs @ take (nat n) (chain_bytes m p))"
proof (induction p arbitrary: acc swapped bs n)
  case (Cons x q)
  obtain r payload len where x: "x = (r, payload, len)" by (metis prod_cases3)
  let ?b = "len mod 2 \<noteq> 0"
  have len: "0 \<le> len" "len \<le> 65535" "chain_ok q" using Cons.prems(1) x by (auto simp: chain_ok_def)
  show ?case
  proof (cases "n > 0")
    case False
    with Cons.prems show ?thesis by (simp add: x)
  next
    case True
    define k where "k = (if len > n then n else len)"
    have k: "0 \<le> k" "k \<le> len" "k \<le> n" using True len by (auto simp: k_def)
    let ?cs = "bytes (m r) payload k"
    have c: "lwip_standard_chksum (m r) payload k = inet_sum ?cs" using k len by (intro chksum_2_correct) auto
    have step: "chain_inv (chain_add acc (inet_sum ?cs) ?b) (if ?b then \<not> swapped else swapped) (bs @ ?cs)"
      using Cons.prems(2,3) by (rule chain_step)
    have nk: "c_u16 (n - k) = n - k" using k Cons.prems(5) by (simp add: c_conv)
    have loop: "partial_loop m q (n - k) (chain_add acc (inet_sum ?cs) ?b) (if ?b then \<not> swapped else swapped) = (acc', swapped')"
      using Cons.prems(6) True x c nk unfolding partial_loop.simps Let_def k_def [symmetric]
      by (cases "?b") (simp_all add: chain_add_def x Let_def flip: k_def)
    have tk: "take (nat n) (chain_bytes m (x # q)) = ?cs @ take (nat (n - k)) (chain_bytes m q)"
    proof (cases "len > n")
      case True
      with k show ?thesis by (simp add: chain_bytes_def x k_def bytes_take [of n len])
    next
      case False
      with k show ?thesis by (simp add: chain_bytes_def x k_def nat_diff_distrib)
    qed
    show ?thesis
    proof (cases "len > n")
      case True
      then have "n - k = 0" by (simp add: k_def)
      with loop have "(acc', swapped') = (chain_add acc (inet_sum ?cs) ?b, if ?b then \<not> swapped else swapped)"
        by (cases q) auto
      with step tk \<open>n - k = 0\<close> show ?thesis by simp
    next
      case False
      then have "k = len" by (simp add: k_def)
      have "odd (nat len) \<longleftrightarrow> ?b" using len(1) by (simp add: even_nat_iff odd_iff_mod_2_eq_one)
      then have par: "(if ?b then \<not> swapped else swapped) = odd (length (bs @ ?cs))"
        using Cons.prems(3) \<open>k = len\<close> by auto
      have "0 \<le> n - k" "n - k \<le> 65535" using k Cons.prems(5) by auto
      from Cons.IH [OF len(3) step par this loop] show ?thesis by (simp only: tk append_assoc)
    qed
  qed
qed (simp add: chain_bytes_def)

section \<open>Properties\<close>

text \<open>C25: all three versions of \<open>lwip_standard_chksum\<close> return the one's complement sum of the
  16 bit words of the buffer, at every start address and for every length of an \<open>u16_t\<close>;
  so they are interchangeable.\<close>
theorem chksum_versions:
  assumes "0 \<le> len" "len \<le> 65535"
  shows "lwip_standard_chksum m dataptr len = inet_sum (bytes m dataptr len) \<and>
    lwip_standard_chksum_1 m dataptr len = lwip_standard_chksum m dataptr len \<and>
    lwip_standard_chksum_3 m dataptr len = lwip_standard_chksum m dataptr len"
  using assms by (simp add: chksum_2_correct chksum_1_correct chksum_3_correct)

lemma inet_chksum_pbuf_sum:
  assumes "chain_ok p"
  shows "inet_chksum_pbuf m p = NOT (inet_sum (chain_bytes m p))"
proof -
  obtain acc swapped where l: "chain_loop m p 0 False = (acc, swapped)" by fastforce
  from chain_inv_sum [OF chain_loop_sum [OF assms l]] show ?thesis
    by (simp only: inet_chksum_pbuf_def l prod.case Let_def not_ucast)
qed

text \<open>C38: the checksum of a chain of pbufs is that of the concatenated payloads: neither the
  boundaries, odd lengths included, nor the alignment of the pbufs change it.\<close>
theorem inet_chksum_pbuf_chain:
  assumes "chain_ok p"
  shows "inet_chksum_pbuf m p = NOT (inet_sum (chain_bytes m p))"
  by (rule inet_chksum_pbuf_sum [OF assms])

text \<open>\<open>inet_chksum_pseudo\<close> is the checksum of the pseudo header of RFC 768 (addresses, zero,
  protocol, length) followed by the data of the chain, \<open>inet_chksum_pseudo_partial\<close> that of
  the pseudo header and the first \<open>chksum_len\<close> bytes of the data.\<close>
theorem inet_chksum_pseudo_chain:
  assumes "chain_ok p" "0 \<le> chksum_len" "chksum_len \<le> 65535"
  shows "inet_chksum_pseudo m p src dest proto proto_len =
      NOT (inet_sum (pseudo_header src dest proto proto_len @ chain_bytes m p)) \<and>
    inet_chksum_pseudo_partial m p src dest proto proto_len chksum_len =
      NOT (inet_sum (pseudo_header src dest proto proto_len @ take (nat chksum_len) (chain_bytes m p)))"
proof
  obtain acc swapped where l: "chain_loop m p 0 False = (acc, swapped)" by fastforce
  from chain_loop_sum [OF assms(1) l] add_pseudo_spec show "inet_chksum_pseudo m p src dest proto proto_len =
      NOT (inet_sum (pseudo_header src dest proto proto_len @ chain_bytes m p))"
    unfolding inet_chksum_pseudo_def l prod.case Let_def chain_inv_def by simp
  obtain acc2 sw2 where l2: "partial_loop m p chksum_len 0 False = (acc2, sw2)" by fastforce
  from chain_unswap [OF partial_loop_spec [OF assms(1) chain_inv_0 _ assms(2,3) l2]] add_pseudo_spec
  show "inet_chksum_pseudo_partial m p src dest proto proto_len chksum_len =
      NOT (inet_sum (pseudo_header src dest proto proto_len @ take (nat chksum_len) (chain_bytes m p)))"
    unfolding inet_chksum_pseudo_partial_def l2 prod.case Let_def chain_inv_def by simp
qed

lemma unat_not16: "unat (NOT (w :: u16_t)) = 65535 - unat w"
proof -
  have "NOT w = of_nat (65535 - unat w)"
    using unat_u16 [of w] by (simp add: of_nat_diff not_eq_complement)
  then have "unat (NOT w) = (65535 - unat w) mod 65536" by (simp only: unat_of_nat_u16)
  then show ?thesis by simp
qed

text \<open>C39: a receiver accepts what a sender has protected: when the checksum of a buffer whose
  checksum field (at an even offset) is zero is stored into that field, the checksum of the
  result is zero.\<close>
theorem inet_chksum_verifies:
  assumes "0 \<le> len" "len \<le> 65535" "0 \<le> len2" "len2 = len" "even (length xs)"
    and "bytes m a len = xs @ [0, 0] @ ys"
    and "bytes m2 b len2 = xs @ u16_bytes (inet_chksum m a len) @ ys"
  shows "inet_chksum m2 b len2 = 0"
proof -
  let ?S = "words_sum (xs @ ys)"
  have s: "words_sum (bytes m a len) = ?S"
    using assms(5) by (simp add: assms(6) words_sum_append)
  have c: "inet_chksum m a len = NOT (of_nat (ones_compl ?S))"
    using assms(1,2) unfolding inet_chksum_def inet_sum_def s [symmetric] by (subst chksum_2_correct) (simp_all add: inet_sum_def)
  have "unat (inet_chksum m a len) = 65535 - ones_compl ?S"
    using ones_compl_range [of ?S] unfolding c unat_not16 by (simp add: unat_of_nat_u16)
  then have "words_sum (bytes m2 b len2) = (65535 - ones_compl ?S) + ?S"
    using assms(5) by (simp add: assms(7) words_sum_append words_sum_u16_bytes)
  moreover have "oc_eq ((65535 - ones_compl ?S) + ?S) ((65535 - ones_compl ?S) + ones_compl ?S)"
    by (intro oc_eq_add oc_eq_refl oc_eq_sym [OF oc_eq_ones_compl])
  ultimately have "oc_eq 65535 (words_sum (bytes m2 b len2))"
    using ones_compl_range [of ?S] by (simp add: oc_eq_sym)
  then have "ones_compl (words_sum (bytes m2 b len2)) = 65535" using ones_compl_unique by fastforce
  then have "inet_sum (bytes m2 b len2) = NOT 0" by (simp add: inet_sum_def)
  with assms show ?thesis by (simp add: inet_chksum_def chksum_2_correct)
qed

section \<open>Witnesses\<close>

definition count_mem :: memory where
  "count_mem a = word_of_int a"

theorem chksum_versions_witness:
  "lwip_standard_chksum count_mem 1 3 = 516 \<and> lwip_standard_chksum_1 count_mem 1 3 = 516 \<and>
   lwip_standard_chksum_3 count_mem 1 3 = 516"
  using chksum_versions [of 3 count_mem 1]
  by (simp add: bytes_Cons count_mem_def inet_sum_def ones_compl_def)

theorem inet_chksum_pbuf_chain_witness:
  "inet_chksum_pbuf (\<lambda>_ :: nat. count_mem) [(0, 1, 3), (1, 8, 2)] = NOT 0xA0D"
  using inet_chksum_pbuf_chain [of "[(0, 1, 3), (1, 8, 2)]" "\<lambda>_ :: nat. count_mem"]
  by (simp add: chain_ok_def chain_bytes_def bytes_Cons count_mem_def inet_sum_def ones_compl_def)

theorem inet_chksum_pseudo_chain_witness:
  "inet_chksum_pseudo_partial (\<lambda>_ :: nat. count_mem) [(0, 1, 3), (1, 8, 2)] 0 0 17 5 3 =
     NOT (inet_sum (pseudo_header 0 0 17 5 @ [1, 2, 3]))"
  using inet_chksum_pseudo_chain [of "[(0, 1, 3), (1, 8, 2)]" 3 "\<lambda>_ :: nat. count_mem" 0 0 17 5]
  by (simp add: chain_ok_def chain_bytes_def bytes_Cons count_mem_def)

definition field_mem :: "u8_t \<Rightarrow> u8_t \<Rightarrow> memory" where
  "field_mem b c a = (if a = 0 then 1 else if a = 1 then 2 else if a = 2 then b else if a = 3 then c else 5)"

theorem inet_chksum_verifies_witness:
  "inet_chksum (field_mem (byte_of 0 (inet_chksum (field_mem 0 0) 0 5)) (byte_of 1 (inet_chksum (field_mem 0 0) 0 5))) 0 5 = 0"
  by (rule inet_chksum_verifies [of 5 5 "[1, 2]" "field_mem 0 0" 0 "[5]"])
    (simp_all add: bytes_Cons field_mem_def u16_bytes_def)

end
