(* ===== verification/Pbuf.thy ===== *)
theory Pbuf
  imports MemHeap MemPool Chksum "HOL-Library.Monad_Syntax"
begin

text \<open>
  Packet buffers: \<open>core/pbuf.c\<close>.  A pointer is a memory region and an offset into it: the
  heap, an element of the pool \<open>PBUF_POOL\<close> (the structure and 512 bytes of payload), an
  element of the pool \<open>PBUF\<close> (a structure alone), an element of the pool \<open>FRAG_PBUF\<close> (a custom
  pbuf of \<open>ip_frag\<close>, with the pointer to its \<open>original\<close>), or other memory (ROM, application
  buffers, other custom pbufs).  \<open>p_pbufs\<close> holds the structure at a pointer, \<open>p_bytes\<close> the
  payload bytes; allocation and release go through the heap and pool models.  The free
  function of custom pbufs is the parameter \<open>cf\<close>.  The result \<open>None\<close> stands for a loop that
  does not end or a dereferenced null pointer.
\<close>

section \<open>State\<close>

datatype region = RHeap | RPool nat | RPbuf nat | RFrag nat | RExt nat | RNull

type_synonym ptr = "region \<times> int"

definition NULL :: ptr where "NULL = (RNull, 0)"

definition ptr_add :: "ptr \<Rightarrow> int \<Rightarrow> ptr" where
  "ptr_add p k = (fst p, snd p + k)"

datatype pbuf_layer = PBUF_TRANSPORT | PBUF_IP | PBUF_LINK | PBUF_RAW

datatype pbuf_type = PBUF_RAM | PBUF_ROM | PBUF_REF | PBUF_POOL

record pbuf =
  pb_next :: "ptr option"
  pb_payload :: ptr
  pb_tot_len :: int
  pb_len :: int
  pb_type :: pbuf_type
  pb_flags :: u8_t
  pb_ref :: int

record pstate =
  p_heap :: heap
  p_pools :: memp_state
  p_pbufs :: "ptr \<Rightarrow> pbuf"
  p_bytes :: "region \<Rightarrow> int \<Rightarrow> u8_t"
  p_original :: "ptr \<Rightarrow> ptr option"

type_synonym custom_free = "ptr \<Rightarrow> pstate \<Rightarrow> pstate option"

definition PBUF_FLAG_IS_CUSTOM :: u8_t where "PBUF_FLAG_IS_CUSTOM = 0x02"
definition SIZEOF_STRUCT_PBUF :: int where "SIZEOF_STRUCT_PBUF = 16"
definition PBUF_POOL_BUFSIZE_ALIGNED :: int where "PBUF_POOL_BUFSIZE_ALIGNED = 512"

lemmas pbuf_consts = SIZEOF_STRUCT_PBUF_def PBUF_POOL_BUFSIZE_ALIGNED_def

definition upd_pbuf :: "ptr \<Rightarrow> (pbuf \<Rightarrow> pbuf) \<Rightarrow> pstate \<Rightarrow> pstate" where
  "upd_pbuf p f s = s\<lparr>p_pbufs := (p_pbufs s)(p := f (p_pbufs s p))\<rparr>"

text \<open>\<open>MEMCPY\<close> of \<open>len\<close> bytes, into memory from memory, and from a list of bytes.\<close>

definition mem_copy :: "ptr \<Rightarrow> ptr \<Rightarrow> int \<Rightarrow> pstate \<Rightarrow> pstate" where
  "mem_copy dst src len s =
     s\<lparr>p_bytes := (\<lambda>r a. if r = fst dst \<and> snd dst \<le> a \<and> a < snd dst + len
                        then p_bytes s (fst src) (snd src + (a - snd dst)) else p_bytes s r a)\<rparr>"

definition mem_write :: "ptr \<Rightarrow> u8_t list \<Rightarrow> pstate \<Rightarrow> pstate" where
  "mem_write dst bs s =
     s\<lparr>p_bytes := (\<lambda>r a. if r = fst dst \<and> snd dst \<le> a \<and> a < snd dst + int (length bs)
                        then bs ! nat (a - snd dst) else p_bytes s r a)\<rparr>"

definition read_bytes :: "ptr \<Rightarrow> int \<Rightarrow> pstate \<Rightarrow> u8_t list" where
  "read_bytes p len s = bytes (p_bytes s (fst p)) (snd p) len"

text \<open>
  The offset from the start of the heap; the heap's functions test their argument against
  the bounds of the heap, so every pointer outside of it can be given as \<open>-1\<close>.
\<close>

definition heap_offset :: "ptr \<Rightarrow> int" where
  "heap_offset p = (if fst p = RHeap then snd p else -1)"

section \<open>Freeing\<close>

text \<open>The loop of \<open>pbuf_free\<close>, with \<open>count\<close>.\<close>

partial_function (option) pbuf_free_loop :: "custom_free \<Rightarrow> ptr option \<Rightarrow> int \<Rightarrow> pstate \<Rightarrow> (int \<times> pstate) option" where
  "pbuf_free_loop cf p count s =
     (case p of None \<Rightarrow> Some (count, s)
      | Some p \<Rightarrow>
          let ref = c_u16 (pb_ref (p_pbufs s p) - 1);
              s = upd_pbuf p (\<lambda>x. x\<lparr>pb_ref := ref\<rparr>) s
          in if ref = 0
             then let q = pb_next (p_pbufs s p);
                      type = pb_type (p_pbufs s p)
                  in do {
                    s \<leftarrow> (if pb_flags (p_pbufs s p) AND PBUF_FLAG_IS_CUSTOM \<noteq> 0 then cf p s
                          else if type = PBUF_POOL
                          then (case p of
                              (RPool i, _) \<Rightarrow> Some (s\<lparr>p_pools := memp_free MEMP_PBUF_POOL (Some i) (p_pools s)\<rparr>)
                            | _ \<Rightarrow> None)
                          else if type = PBUF_ROM \<or> type = PBUF_REF
                          then (case p of
                              (RPbuf i, _) \<Rightarrow> Some (s\<lparr>p_pools := memp_free MEMP_PBUF (Some i) (p_pools s)\<rparr>)
                            | _ \<Rightarrow> None)
                          else Some (s\<lparr>p_heap := mem_free (Some (heap_offset p)) (p_heap s)\<rparr>));
                    pbuf_free_loop cf q (c_u8 (count + 1)) s
                  }
             else Some (count, s))"

definition pbuf_free :: "custom_free \<Rightarrow> ptr option \<Rightarrow> pstate \<Rightarrow> (int \<times> pstate) option" where
  "pbuf_free cf p s =
     (case p of None \<Rightarrow> Some (0, s) | Some p \<Rightarrow> pbuf_free_loop cf (Some p) 0 s)"

section \<open>Allocation\<close>

fun layer_offset :: "pbuf_layer \<Rightarrow> int" where
  "layer_offset PBUF_TRANSPORT = 14 + 20 + 20"
| "layer_offset PBUF_IP = 14 + 20"
| "layer_offset PBUF_LINK = 14"
| "layer_offset PBUF_RAW = 0"

text \<open>The loop that allocates the tail of a chain from the pool; \<open>r\<close> is its last pbuf.\<close>

partial_function (option) pbuf_alloc_tail ::
    "custom_free \<Rightarrow> ptr \<Rightarrow> ptr \<Rightarrow> int \<Rightarrow> pstate \<Rightarrow> (bool \<times> pstate) option" where
  "pbuf_alloc_tail cf p r rem_len s =
     (if rem_len > 0
      then (case memp_malloc MEMP_PBUF_POOL (p_pools s) of
              (None, ps) \<Rightarrow> do {
                (n, s) \<leftarrow> pbuf_free cf (Some p) (s\<lparr>p_pools := ps\<rparr>);
                Some (False, s)
              }
            | (Some i, ps) \<Rightarrow>
                let q = (RPool i, 0);
                    s = s\<lparr>p_pools := ps\<rparr>;
                    s = upd_pbuf q (\<lambda>x. x\<lparr>pb_type := PBUF_POOL, pb_flags := 0, pb_next := None\<rparr>) s;
                    s = upd_pbuf r (\<lambda>x. x\<lparr>pb_next := Some q\<rparr>) s;
                    len = min (c_u16 rem_len) PBUF_POOL_BUFSIZE_ALIGNED;
                    s = upd_pbuf q (\<lambda>x. x\<lparr>pb_tot_len := c_u16 rem_len, pb_len := len,
                          pb_payload := ptr_add q SIZEOF_STRUCT_PBUF, pb_ref := 1\<rparr>) s
                in pbuf_alloc_tail cf p q (rem_len - len) s)
      else Some (True, s))"

definition pbuf_alloc ::
    "custom_free \<Rightarrow> pbuf_layer \<Rightarrow> int \<Rightarrow> pbuf_type \<Rightarrow> pstate \<Rightarrow> (ptr option \<times> pstate) option" where
  "pbuf_alloc cf layer plen type s =
     (let offset = layer_offset layer in
      case type of
        PBUF_POOL \<Rightarrow>
          (case memp_malloc MEMP_PBUF_POOL (p_pools s) of
             (None, ps) \<Rightarrow> Some (None, s\<lparr>p_pools := ps\<rparr>)
           | (Some i, ps) \<Rightarrow>
               let p = (RPool i, 0);
                   s = s\<lparr>p_pools := ps\<rparr>;
                   len = min plen (PBUF_POOL_BUFSIZE_ALIGNED - LWIP_MEM_ALIGN_SIZE offset);
                   s = upd_pbuf p (\<lambda>x. x\<lparr>pb_type := PBUF_POOL, pb_next := None,
                         pb_payload := (RPool i, LWIP_MEM_ALIGN_SIZE (SIZEOF_STRUCT_PBUF + offset)),
                         pb_tot_len := plen, pb_len := len, pb_ref := 1\<rparr>) s
               in do {
                 (ok, s) \<leftarrow> pbuf_alloc_tail cf p p (plen - len) s;
                 if ok then Some (Some p, upd_pbuf p (\<lambda>x. x\<lparr>pb_ref := 1, pb_flags := 0\<rparr>) s)
                 else Some (None, s)
               })
      | PBUF_RAM \<Rightarrow> do {
          (r, h) \<leftarrow> mem_malloc (c_u16 (LWIP_MEM_ALIGN_SIZE (SIZEOF_STRUCT_PBUF + offset) + LWIP_MEM_ALIGN_SIZE plen)) (p_heap s);
          case r of
            None \<Rightarrow> Some (None, s\<lparr>p_heap := h\<rparr>)
          | Some a \<Rightarrow>
              Some (Some (RHeap, a),
                upd_pbuf (RHeap, a) (\<lambda>x. x\<lparr>pb_payload := (RHeap, LWIP_MEM_ALIGN_SIZE (a + SIZEOF_STRUCT_PBUF + offset)),
                  pb_len := plen, pb_tot_len := plen, pb_next := None, pb_type := type,
                  pb_ref := 1, pb_flags := 0\<rparr>) (s\<lparr>p_heap := h\<rparr>))
        }
      | _ \<Rightarrow>
          (case memp_malloc MEMP_PBUF (p_pools s) of
             (None, ps) \<Rightarrow> Some (None, s\<lparr>p_pools := ps\<rparr>)
           | (Some i, ps) \<Rightarrow>
               Some (Some (RPbuf i, 0),
                 upd_pbuf (RPbuf i, 0) (\<lambda>x. x\<lparr>pb_payload := NULL, pb_len := plen, pb_tot_len := plen,
                   pb_next := None, pb_type := type, pb_ref := 1, pb_flags := 0\<rparr>) (s\<lparr>p_pools := ps\<rparr>))))"

text \<open>\<open>p\<close> is the custom pbuf, \<open>payload_mem\<close> possibly \<open>NULL\<close>.\<close>

definition pbuf_alloced_custom ::
    "pbuf_layer \<Rightarrow> int \<Rightarrow> pbuf_type \<Rightarrow> ptr \<Rightarrow> ptr \<Rightarrow> int \<Rightarrow> pstate \<Rightarrow> ptr option \<times> pstate" where
  "pbuf_alloced_custom l plen type p payload_mem payload_mem_len s =
     (let offset = layer_offset l in
      if LWIP_MEM_ALIGN_SIZE offset + plen > payload_mem_len then (None, s)
      else (Some p,
        upd_pbuf p (\<lambda>x. x\<lparr>pb_next := None,
          pb_payload := (if payload_mem \<noteq> NULL then ptr_add payload_mem (LWIP_MEM_ALIGN_SIZE offset) else NULL),
          pb_flags := PBUF_FLAG_IS_CUSTOM, pb_len := plen, pb_tot_len := plen,
          pb_type := type, pb_ref := 1\<rparr>) s))"

section \<open>Changing lengths\<close>

text \<open>The loop that steps over the pbufs that stay: the new last pbuf and its length.\<close>

partial_function (option) pbuf_realloc_loop :: "ptr option \<Rightarrow> int \<Rightarrow> int \<Rightarrow> pstate \<Rightarrow> (ptr \<times> int \<times> pstate) option" where
  "pbuf_realloc_loop q rem_len grow s =
     (case q of None \<Rightarrow> None
      | Some q \<Rightarrow>
          if rem_len > pb_len (p_pbufs s q)
          then let rem_len = c_u16 (rem_len - pb_len (p_pbufs s q));
                   s = upd_pbuf q (\<lambda>x. x\<lparr>pb_tot_len := c_u16 (pb_tot_len x + c_u16 grow)\<rparr>) s
               in pbuf_realloc_loop (pb_next (p_pbufs s q)) rem_len grow s
          else Some (q, rem_len, s))"

definition pbuf_realloc :: "custom_free \<Rightarrow> ptr \<Rightarrow> int \<Rightarrow> pstate \<Rightarrow> pstate option" where
  "pbuf_realloc cf p new_len s =
     (if new_len \<ge> pb_tot_len (p_pbufs s p) then Some s
      else let grow = new_len - pb_tot_len (p_pbufs s p) in do {
        (q, rem_len, s) \<leftarrow> pbuf_realloc_loop (Some p) new_len grow s;
        s \<leftarrow> (if pb_type (p_pbufs s q) = PBUF_RAM \<and> rem_len \<noteq> pb_len (p_pbufs s q)
              then (case mem_trim (heap_offset q) (c_u16 (c_u16 (snd (pb_payload (p_pbufs s q)) - snd q) + rem_len)) (p_heap s) of
                      (Some a, h) \<Rightarrow> Some (s\<lparr>p_heap := h\<rparr>)
                    | (None, h) \<Rightarrow> None)
              else Some s);
        let s = upd_pbuf q (\<lambda>x. x\<lparr>pb_len := rem_len, pb_tot_len := rem_len\<rparr>) s;
        s \<leftarrow> (case pb_next (p_pbufs s q) of
                None \<Rightarrow> Some s
              | Some t \<Rightarrow> do { (n, s) \<leftarrow> pbuf_free cf (Some t) s; Some s });
        Some (upd_pbuf q (\<lambda>x. x\<lparr>pb_next := None\<rparr>) s)
      })"

text \<open>
  \<open>pbuf_header\<close>: whether it failed (returned 1), and the new state.
  \<open>header_size_increment\<close> is an \<open>s16_t\<close>.  The boundary check compares the payload of a
  \<open>PBUF_RAM\<close> or \<open>PBUF_POOL\<close> with the end of its structure, which lie in the same region.
\<close>

definition pbuf_header :: "ptr option \<Rightarrow> int \<Rightarrow> pstate \<Rightarrow> bool \<times> pstate" where
  "pbuf_header p header_size_increment s =
     (case p of None \<Rightarrow> (False, s)
      | Some p \<Rightarrow>
          if header_size_increment = 0 then (False, s)
          else let increment_magnitude =
                 (if header_size_increment < 0 then c_u16 (- header_size_increment) else header_size_increment)
          in if header_size_increment < 0 \<and> \<not> increment_magnitude \<le> pb_len (p_pbufs s p) then (True, s)
          else let type = pb_type (p_pbufs s p);
                   payload = pb_payload (p_pbufs s p);
                   moved = ptr_add payload (- header_size_increment)
          in if type = PBUF_RAM \<or> type = PBUF_POOL
             then if snd moved < snd p + SIZEOF_STRUCT_PBUF then (True, s)
                  else (False, upd_pbuf p (\<lambda>x. x\<lparr>pb_payload := moved,
                         pb_len := c_u16 (pb_len x + header_size_increment),
                         pb_tot_len := c_u16 (pb_tot_len x + header_size_increment)\<rparr>) s)
             else if header_size_increment < 0 \<and> increment_magnitude \<le> pb_len (p_pbufs s p)
             then (False, upd_pbuf p (\<lambda>x. x\<lparr>pb_payload := moved,
                     pb_len := c_u16 (pb_len x + header_size_increment),
                     pb_tot_len := c_u16 (pb_tot_len x + header_size_increment)\<rparr>) s)
             else (True, s))"

section \<open>Chains\<close>

partial_function (option) pbuf_clen_loop :: "ptr option \<Rightarrow> int \<Rightarrow> pstate \<Rightarrow> int option" where
  "pbuf_clen_loop p len s =
     (case p of None \<Rightarrow> Some len
      | Some p \<Rightarrow> pbuf_clen_loop (pb_next (p_pbufs s p)) (c_u8 (len + 1)) s)"

definition pbuf_clen :: "ptr option \<Rightarrow> pstate \<Rightarrow> int option" where
  "pbuf_clen p s = pbuf_clen_loop p 0 s"

definition pbuf_ref :: "ptr option \<Rightarrow> pstate \<Rightarrow> pstate" where
  "pbuf_ref p s =
     (case p of None \<Rightarrow> s
      | Some p \<Rightarrow> upd_pbuf p (\<lambda>x. x\<lparr>pb_ref := c_u16 (pb_ref x + 1)\<rparr>) s)"

partial_function (option) pbuf_cat_loop :: "ptr \<Rightarrow> ptr \<Rightarrow> pstate \<Rightarrow> (ptr \<times> pstate) option" where
  "pbuf_cat_loop p t s =
     (case pb_next (p_pbufs s p) of
        None \<Rightarrow> Some (p, s)
      | Some n \<Rightarrow>
          pbuf_cat_loop n t (upd_pbuf p (\<lambda>x. x\<lparr>pb_tot_len := c_u16 (pb_tot_len x + pb_tot_len (p_pbufs s t))\<rparr>) s))"

definition pbuf_cat :: "ptr option \<Rightarrow> ptr option \<Rightarrow> pstate \<Rightarrow> pstate option" where
  "pbuf_cat h t s =
     (case (h, t) of
        (Some h, Some t) \<Rightarrow> do {
          (p, s) \<leftarrow> pbuf_cat_loop h t s;
          let s = upd_pbuf p (\<lambda>x. x\<lparr>pb_tot_len := c_u16 (pb_tot_len x + pb_tot_len (p_pbufs s t))\<rparr>) s;
          Some (upd_pbuf p (\<lambda>x. x\<lparr>pb_next := Some t\<rparr>) s)
        }
      | _ \<Rightarrow> Some s)"

definition pbuf_chain :: "ptr option \<Rightarrow> ptr option \<Rightarrow> pstate \<Rightarrow> pstate option" where
  "pbuf_chain h t s = do { s \<leftarrow> pbuf_cat h t s; Some (pbuf_ref t s) }"

definition pbuf_dechain :: "custom_free \<Rightarrow> ptr \<Rightarrow> pstate \<Rightarrow> (ptr option \<times> pstate) option" where
  "pbuf_dechain cf p s =
     (case pb_next (p_pbufs s p) of
        None \<Rightarrow> Some (None, s)
      | Some q \<Rightarrow>
          let s = upd_pbuf q (\<lambda>x. x\<lparr>pb_tot_len := c_u16 (pb_tot_len (p_pbufs s p) - pb_len (p_pbufs s p))\<rparr>) s;
              s = upd_pbuf p (\<lambda>x. x\<lparr>pb_next := None\<rparr>) s;
              s = upd_pbuf p (\<lambda>x. x\<lparr>pb_tot_len := pb_len x\<rparr>) s
          in do {
            (tail_gone, s) \<leftarrow> pbuf_free cf (Some q) s;
            Some (if tail_gone > 0 then None else Some q, s)
          })"

section \<open>Copying\<close>

text \<open>
  The do-while loop of \<open>pbuf_copy\<close>.  The result is the error code; \<open>p_to\<close> may become
  \<open>NULL\<close> when the last source pbuf has been copied completely.
\<close>

partial_function (option) pbuf_copy_loop ::
    "ptr option \<Rightarrow> ptr option \<Rightarrow> int \<Rightarrow> int \<Rightarrow> pstate \<Rightarrow> (err_t \<times> pstate) option" where
  "pbuf_copy_loop p_to p_from offset_to offset_from s =
     (case (p_to, p_from) of
        (Some t, Some f) \<Rightarrow>
          let tb = p_pbufs s t; fb = p_pbufs s f;
              len = (if pb_len tb - offset_to \<ge> pb_len fb - offset_from
                     then c_u16 (pb_len fb - offset_from) else c_u16 (pb_len tb - offset_to));
              s = mem_copy (ptr_add (pb_payload tb) offset_to) (ptr_add (pb_payload fb) offset_from) len s;
              offset_to = c_u16 (offset_to + len);
              offset_from = c_u16 (offset_from + len);
              (p_from, offset_from) = (if offset_from \<ge> pb_len fb then (pb_next fb, 0) else (Some f, offset_from));
              (p_to, offset_to, full) = (if offset_to = pb_len tb then (pb_next tb, 0, True) else (Some t, offset_to, False))
          in if full \<and> \<not> (p_to \<noteq> None \<or> p_from = None) then Some (ERR_ARG, s)
             else if (case p_from of None \<Rightarrow> False
                      | Some f \<Rightarrow> pb_len (p_pbufs s f) = pb_tot_len (p_pbufs s f) \<and> pb_next (p_pbufs s f) \<noteq> None)
             then Some (ERR_VAL, s)
             else if (case p_to of None \<Rightarrow> False
                      | Some t \<Rightarrow> pb_len (p_pbufs s t) = pb_tot_len (p_pbufs s t) \<and> pb_next (p_pbufs s t) \<noteq> None)
             then Some (ERR_VAL, s)
             else if p_from = None then Some (ERR_OK, s)
             else pbuf_copy_loop p_to p_from offset_to offset_from s
      | _ \<Rightarrow> None)"

definition pbuf_copy :: "ptr option \<Rightarrow> ptr option \<Rightarrow> pstate \<Rightarrow> (err_t \<times> pstate) option" where
  "pbuf_copy p_to p_from s =
     (case (p_to, p_from) of
        (Some t, Some f) \<Rightarrow>
          if pb_tot_len (p_pbufs s t) \<ge> pb_tot_len (p_pbufs s f)
          then pbuf_copy_loop p_to p_from 0 0 s else Some (ERR_ARG, s)
      | _ \<Rightarrow> Some (ERR_ARG, s))"

text \<open>
  \<open>pbuf_copy_partial\<close> copies to a buffer outside the stack: the loop returns the bytes it
  writes there, in order; \<open>copied_total\<close> is their number.
\<close>

partial_function (option) pbuf_copy_partial_loop :: "ptr option \<Rightarrow> int \<Rightarrow> int \<Rightarrow> u8_t list \<Rightarrow> pstate \<Rightarrow> u8_t list option" where
  "pbuf_copy_partial_loop p len offset out s =
     (if len \<noteq> 0 then
        (case p of None \<Rightarrow> Some out
         | Some p \<Rightarrow>
             let b = p_pbufs s p in
             if offset \<noteq> 0 \<and> offset \<ge> pb_len b
             then pbuf_copy_partial_loop (pb_next b) len (c_u16 (offset - pb_len b)) out s
             else let buf_copy_len = c_u16 (pb_len b - offset);
                      buf_copy_len = (if buf_copy_len > len then len else buf_copy_len);
                      out = out @ read_bytes (ptr_add (pb_payload b) offset) buf_copy_len s
                  in pbuf_copy_partial_loop (pb_next b) (c_u16 (len - buf_copy_len)) 0 out s)
      else Some out)"

definition pbuf_copy_partial :: "ptr option \<Rightarrow> int \<Rightarrow> int \<Rightarrow> pstate \<Rightarrow> u8_t list option" where
  "pbuf_copy_partial buf len offset s =
     (case buf of None \<Rightarrow> Some [] | Some p \<Rightarrow> pbuf_copy_partial_loop (Some p) len offset [] s)"

text \<open>\<open>pbuf_take\<close> with the bytes of the application's buffer; \<open>ERR_OK\<close> is 0.\<close>

partial_function (option) pbuf_take_loop :: "ptr option \<Rightarrow> int \<Rightarrow> int \<Rightarrow> u8_t list \<Rightarrow> pstate \<Rightarrow> pstate option" where
  "pbuf_take_loop p total_copy_len copied_total dataptr s =
     (if total_copy_len \<noteq> 0 then
        (case p of None \<Rightarrow> None
         | Some p \<Rightarrow>
             let buf_copy_len = total_copy_len;
                 buf_copy_len = (if buf_copy_len > pb_len (p_pbufs s p) then pb_len (p_pbufs s p) else buf_copy_len);
                 s = mem_write (pb_payload (p_pbufs s p)) (take (nat buf_copy_len) (drop (nat copied_total) dataptr)) s
             in pbuf_take_loop (pb_next (p_pbufs s p)) (c_u16 (total_copy_len - buf_copy_len))
                  (c_u16 (copied_total + buf_copy_len)) dataptr s)
      else Some s)"

definition pbuf_take :: "ptr option \<Rightarrow> u8_t list \<Rightarrow> int \<Rightarrow> pstate \<Rightarrow> (err_t \<times> pstate) option" where
  "pbuf_take buf dataptr len s =
     (case buf of None \<Rightarrow> Some (ERR_OK, s)
      | Some p \<Rightarrow>
          if pb_tot_len (p_pbufs s p) < len then Some (ERR_ARG, s)
          else do { s \<leftarrow> pbuf_take_loop (Some p) len 0 dataptr s; Some (ERR_OK, s) })"

definition pbuf_coalesce :: "custom_free \<Rightarrow> ptr \<Rightarrow> pbuf_layer \<Rightarrow> pstate \<Rightarrow> (ptr \<times> pstate) option" where
  "pbuf_coalesce cf p layer s =
     (if pb_next (p_pbufs s p) = None then Some (p, s)
      else do {
        (q, s) \<leftarrow> pbuf_alloc cf layer (pb_tot_len (p_pbufs s p)) PBUF_RAM s;
        case q of None \<Rightarrow> Some (p, s)
        | Some q \<Rightarrow> do {
            (err, s) \<leftarrow> pbuf_copy (Some q) (Some p) s;
            (n, s) \<leftarrow> pbuf_free cf (Some p) s;
            Some (q, s)
          }
      })"

text \<open>\<open>pbuf_fill_chksum\<close> (compiled with \<open>LWIP_CHECKSUM_ON_COPY\<close>): the checksum is returned.\<close>

definition pbuf_fill_chksum :: "ptr \<Rightarrow> int \<Rightarrow> ptr \<Rightarrow> int \<Rightarrow> u16_t \<Rightarrow> pstate \<Rightarrow> err_t \<times> u16_t \<times> pstate" where
  "pbuf_fill_chksum p start_offset dataptr len chksum s =
     (if start_offset \<ge> pb_len (p_pbufs s p) \<or> start_offset + len > pb_len (p_pbufs s p) then (ERR_ARG, chksum, s)
      else let dst = ptr_add (pb_payload (p_pbufs s p)) start_offset;
               s = mem_copy dst dataptr len s;
               copy_chksum = lwip_standard_chksum (p_bytes s (fst dst)) (snd dst) len;
               copy_chksum = (if start_offset mod 2 \<noteq> 0 then ucast (SWAP_BYTES_IN_WORD (ucast copy_chksum)) else copy_chksum);
               acc = ucast chksum + ucast copy_chksum
           in (ERR_OK, ucast (FOLD_U32T acc), s))"

section \<open>Reading and searching\<close>

text \<open>The pbuf that holds the byte at an offset, and the offset into it.\<close>

partial_function (option) pbuf_seek :: "ptr option \<Rightarrow> int \<Rightarrow> pstate \<Rightarrow> (ptr option \<times> int) option" where
  "pbuf_seek q copy_from s =
     (case q of None \<Rightarrow> Some (None, copy_from)
      | Some p \<Rightarrow>
          if pb_len (p_pbufs s p) \<le> copy_from
          then pbuf_seek (pb_next (p_pbufs s p)) (c_u16 (copy_from - pb_len (p_pbufs s p))) s
          else Some (Some p, copy_from))"

definition pbuf_get_at :: "ptr option \<Rightarrow> int \<Rightarrow> pstate \<Rightarrow> u8_t option" where
  "pbuf_get_at p offset s = do {
     (q, copy_from) \<leftarrow> pbuf_seek p offset s;
     Some (case q of None \<Rightarrow> 0
           | Some q \<Rightarrow> if pb_len (p_pbufs s q) > copy_from
                       then p_bytes s (fst (pb_payload (p_pbufs s q))) (snd (pb_payload (p_pbufs s q)) + copy_from)
                       else 0)
   }"

text \<open>The comparison loop from index \<open>i\<close> on; \<open>s2\<close> is the memory compared with.\<close>

function pbuf_memcmp_loop :: "ptr \<Rightarrow> int \<Rightarrow> u8_t list \<Rightarrow> int \<Rightarrow> int \<Rightarrow> pstate \<Rightarrow> int option" where
  "pbuf_memcmp_loop q start s2 n i s =
     (if i < n
      then (case pbuf_get_at (Some q) (c_u16 (start + i)) s of
              None \<Rightarrow> None
            | Some a \<Rightarrow> if a \<noteq> s2 ! nat i then Some (c_u16 (i + 1))
                        else pbuf_memcmp_loop q start s2 n (i + 1) s)
      else Some 0)"
  by pat_completeness auto
termination by (relation "measure (\<lambda>(q, start, s2, n, i, s). nat (n - i))") auto

declare pbuf_memcmp_loop.simps [simp del]

definition pbuf_memcmp :: "ptr option \<Rightarrow> int \<Rightarrow> u8_t list \<Rightarrow> int \<Rightarrow> pstate \<Rightarrow> int option" where
  "pbuf_memcmp p offset s2 n s = do {
     (q, start) \<leftarrow> pbuf_seek p offset s;
     (case q of None \<Rightarrow> Some 65535
      | Some q \<Rightarrow> if pb_len (p_pbufs s q) > start then pbuf_memcmp_loop q start s2 n 0 s else Some 65535)
   }"

partial_function (option) pbuf_memfind_loop :: "ptr \<Rightarrow> u8_t list \<Rightarrow> int \<Rightarrow> int \<Rightarrow> int \<Rightarrow> pstate \<Rightarrow> int option" where
  "pbuf_memfind_loop p mem mem_len lst i s =
     (if i \<le> lst then do {
        plus \<leftarrow> pbuf_memcmp (Some p) i mem mem_len s;
        if plus = 0 then Some i else pbuf_memfind_loop p mem mem_len lst (c_u16 (i + plus)) s
      }
      else Some 65535)"

definition pbuf_memfind :: "ptr \<Rightarrow> u8_t list \<Rightarrow> int \<Rightarrow> int \<Rightarrow> pstate \<Rightarrow> int option" where
  "pbuf_memfind p mem mem_len start_offset s =
     (let lst = c_u16 (pb_tot_len (p_pbufs s p) - mem_len) in
      if pb_tot_len (p_pbufs s p) \<ge> mem_len + start_offset
      then pbuf_memfind_loop p mem mem_len lst start_offset s
      else Some 65535)"

text \<open>A null \<open>substr\<close> is \<open>None\<close>; a string is its bytes before the terminating NUL.\<close>

definition pbuf_strstr :: "ptr \<Rightarrow> u8_t list option \<Rightarrow> pstate \<Rightarrow> int option" where
  "pbuf_strstr p substr s =
     (case substr of None \<Rightarrow> Some 65535
      | Some str \<Rightarrow>
          if str = [] \<or> pb_tot_len (p_pbufs s p) = 65535 then Some 65535
          else if int (length str) \<ge> 65535 then Some 65535
          else pbuf_memfind p str (int (length str)) 0 s)"

end
