(* ===== verification/Ip4Addr.thy ===== *)
theory Ip4Addr
  imports ByteOrder
begin

text \<open>
  IPv4 addresses: \<open>core/ipv4/ip_addr.c\<close> and the part of \<open>struct netif\<close> it reads.
  Addresses are \<open>u32_t\<close> in network byte order.  A C string is the list of the characters
  before its terminating NUL, a character pointer the rest of the string from there on.
\<close>

section \<open>Network interfaces (lwip/netif.h)\<close>

record netif =
  nif_ip_addr :: u32_t
  nif_netmask :: u32_t
  nif_gw :: u32_t
  nif_mtu :: int
  nif_hwaddr :: "u8_t list"
  nif_flags :: u8_t
  nif_num :: int

definition NETIF_FLAG_UP :: u8_t where "NETIF_FLAG_UP = 0x01"
definition NETIF_FLAG_BROADCAST :: u8_t where "NETIF_FLAG_BROADCAST = 0x02"
definition NETIF_FLAG_LINK_UP :: u8_t where "NETIF_FLAG_LINK_UP = 0x10"
definition NETIF_FLAG_ETHARP :: u8_t where "NETIF_FLAG_ETHARP = 0x20"

section \<open>Address predicates\<close>

definition IPADDR_NONE :: u32_t where "IPADDR_NONE = 0xffffffff"
definition IPADDR_ANY :: u32_t where "IPADDR_ANY = 0"
definition IPADDR_BROADCAST :: u32_t where "IPADDR_BROADCAST = 0xffffffff"

definition ip_addr_netcmp :: "u32_t \<Rightarrow> u32_t \<Rightarrow> u32_t \<Rightarrow> bool" where
  "ip_addr_netcmp addr1 addr2 msk \<longleftrightarrow> addr1 AND msk = addr2 AND msk"

definition ip_addr_ismulticast :: "u32_t \<Rightarrow> bool" where
  "ip_addr_ismulticast addr \<longleftrightarrow> addr AND lwip_htonl 0xf0000000 = lwip_htonl 0xe0000000"

definition ip_addr_islinklocal :: "u32_t \<Rightarrow> bool" where
  "ip_addr_islinklocal addr \<longleftrightarrow> addr AND lwip_htonl 0xffff0000 = lwip_htonl 0xa9fe0000"

definition ip4_addr_isbroadcast :: "u32_t \<Rightarrow> netif \<Rightarrow> bool" where
  "ip4_addr_isbroadcast addr netif =
     (if NOT addr = IPADDR_ANY \<or> addr = IPADDR_ANY then True
      else if nif_flags netif AND NETIF_FLAG_BROADCAST = 0 then False
      else if addr = nif_ip_addr netif then False
      else if ip_addr_netcmp addr (nif_ip_addr netif) (nif_netmask netif) \<and>
              addr AND NOT (nif_netmask netif) = IPADDR_BROADCAST AND NOT (nif_netmask netif) then True
      else False)"

text \<open>The two loops of \<open>ip4_addr_netmask_valid\<close>: the first zero, then no one.\<close>

lemma drop_bit_less: "(w :: u32_t) \<noteq> 0 \<Longrightarrow> unat (drop_bit (Suc 0) w) < unat w"
  by (simp add: unat_drop_bit_eq drop_bit_Suc unat_gt_0 unat_div)

function netmask_first_zero :: "u32_t \<Rightarrow> u32_t \<Rightarrow> u32_t" where
  "netmask_first_zero nm msk =
     (if msk \<noteq> 0 then if nm AND msk = 0 then msk else netmask_first_zero nm (drop_bit 1 msk)
      else msk)"
  by pat_completeness auto
termination by (relation "measure (\<lambda>(nm, msk). unat msk)") (auto simp: drop_bit_less)

function netmask_no_one :: "u32_t \<Rightarrow> u32_t \<Rightarrow> bool" where
  "netmask_no_one nm msk =
     (if msk \<noteq> 0 then if nm AND msk \<noteq> 0 then False else netmask_no_one nm (drop_bit 1 msk)
      else True)"
  by pat_completeness auto
termination by (relation "measure (\<lambda>(nm, msk). unat msk)") (auto simp: drop_bit_less)

declare netmask_first_zero.simps [simp del] netmask_no_one.simps [simp del]

definition ip4_addr_netmask_valid :: "u32_t \<Rightarrow> bool" where
  "ip4_addr_netmask_valid netmask =
     (let nm_hostorder = lwip_htonl netmask;
          msk = netmask_first_zero nm_hostorder (push_bit 31 1)
      in netmask_no_one nm_hostorder msk)"

section \<open>Parsing (ipaddr_aton)\<close>

text \<open>The character a pointer points at; at the end of the string it is NUL.\<close>

fun cur :: "string \<Rightarrow> int" where
  "cur [] = 0"
| "cur (c # _) = of_char c"

definition in_range :: "int \<Rightarrow> int \<Rightarrow> int \<Rightarrow> bool" where
  "in_range c lo up \<longleftrightarrow> c \<ge> lo \<and> c \<le> up"

definition isdigit :: "int \<Rightarrow> bool" where
  "isdigit c \<longleftrightarrow> in_range c 48 57"

definition isxdigit :: "int \<Rightarrow> bool" where
  "isxdigit c \<longleftrightarrow> isdigit c \<or> in_range c 97 102 \<or> in_range c 65 70"

definition islower :: "int \<Rightarrow> bool" where
  "islower c \<longleftrightarrow> in_range c 97 122"

definition isspace :: "int \<Rightarrow> bool" where
  "isspace c \<longleftrightarrow> c = 32 \<or> c = 12 \<or> c = 10 \<or> c = 13 \<or> c = 9 \<or> c = 11"

text \<open>The digit loop: the value of the digits in the given base, and where it stops.\<close>

fun aton_digits :: "u32_t \<Rightarrow> u32_t \<Rightarrow> string \<Rightarrow> u32_t \<times> string" where
  "aton_digits base val [] = (val, [])"
| "aton_digits base val (ch # cp) =
     (let c = of_char ch
      in if isdigit c then aton_digits base (val * base + word_of_int (c - 48)) cp
         else if base = 16 \<and> isxdigit c
         then aton_digits base (push_bit 4 val OR word_of_int (c + 10 - (if islower c then 97 else 65))) cp
         else (val, ch # cp))"

definition aton_number :: "string \<Rightarrow> (u32_t \<times> string) option" where
  "aton_number cp =
     (if \<not> isdigit (cur cp) then None
      else if cur cp = 48 then
        let cp = tl cp
        in if cur cp = 120 \<or> cur cp = 88 then Some (aton_digits 16 0 (tl cp))
           else Some (aton_digits 8 0 cp)
      else Some (aton_digits 10 0 cp))"

lemma aton_digits_length: "length (snd (aton_digits base val cp)) \<le> length cp"
  by (induction base val cp rule: aton_digits.induct) (auto simp: Let_def)

lemma aton_number_length: "aton_number cp = Some (val, cp') \<Longrightarrow> length cp' \<le> length cp"
  using aton_digits_length [of 16 0 "tl (tl cp)"] aton_digits_length [of 8 0 "tl cp"] aton_digits_length [of 10 0 cp]
  by (auto simp: aton_number_def Let_def split: if_splits)

text \<open>The loop over the parts, with the parts stored so far (\<open>pp - parts\<close> of them).\<close>

function aton_parts :: "u32_t list \<Rightarrow> string \<Rightarrow> (u32_t list \<times> u32_t \<times> string) option" where
  "aton_parts parts cp =
     (case aton_number cp of
        None \<Rightarrow> None
      | Some (val, cp) \<Rightarrow>
          if cur cp = 46 then
            if length parts \<ge> 3 then None
            else aton_parts (parts @ [val]) (tl cp)
          else Some (parts, val, cp))"
  by pat_completeness auto
termination
proof (relation "measure (\<lambda>(parts, cp). length cp)")
  fix parts :: "u32_t list" and cp v val cp'
  assume "aton_number cp = Some v" "(val, cp') = v" "cur cp' = 46"
  then have "length cp' \<le> length cp" "cp' \<noteq> []" using aton_number_length by auto
  then show "((parts @ [val], tl cp'), parts, cp) \<in> measure (\<lambda>(parts, cp). length cp)"
    by (cases cp') auto
qed simp

declare aton_parts.simps [simp del]

definition aton_concoct :: "u32_t list \<Rightarrow> u32_t \<Rightarrow> u32_t option" where
  "aton_concoct parts val =
     (case length parts + 1 of
        Suc 0 \<Rightarrow> Some val
      | Suc (Suc 0) \<Rightarrow> if val > 0xffffff then None else Some (val OR push_bit 24 (parts ! 0))
      | Suc (Suc (Suc 0)) \<Rightarrow>
          if val > 0xffff then None
          else Some (val OR (push_bit 24 (parts ! 0) OR push_bit 16 (parts ! 1)))
      | Suc (Suc (Suc (Suc 0))) \<Rightarrow>
          if val > 0xff then None
          else Some (val OR (push_bit 24 (parts ! 0) OR push_bit 16 (parts ! 1) OR push_bit 8 (parts ! 2)))
      | _ \<Rightarrow> Some val)"

definition ipaddr_aton :: "string \<Rightarrow> u32_t option" where
  "ipaddr_aton cp =
     (case aton_parts [] cp of
        None \<Rightarrow> None
      | Some (parts, val, cp) \<Rightarrow>
          if cur cp \<noteq> 0 \<and> \<not> isspace (cur cp) then None
          else (case aton_concoct parts val of None \<Rightarrow> None | Some val \<Rightarrow> Some (lwip_htonl val)))"

definition ipaddr_addr :: "string \<Rightarrow> u32_t" where
  "ipaddr_addr cp = (case ipaddr_aton cp of Some val \<Rightarrow> val | None \<Rightarrow> IPADDR_NONE)"

section \<open>Printing (ipaddr_ntoa_r)\<close>

text \<open>The do-while loop over the decimal digits of one byte, least significant first.\<close>

function ntoa_inv :: "nat \<Rightarrow> string" where
  "ntoa_inv ap =
     (let rem = ap mod 10; ap = ap div 10
      in char_of (48 + rem) # (if ap \<noteq> 0 then ntoa_inv ap else []))"
  by pat_completeness auto
termination by (relation "measure id") auto

declare ntoa_inv.simps [simp del]

text \<open>Writing to the buffer: \<open>buf\<close> holds the characters written so far (\<open>len\<close> of them).\<close>

fun ntoa_put :: "int \<Rightarrow> string \<Rightarrow> string \<Rightarrow> string option" where
  "ntoa_put buflen buf [] = Some buf"
| "ntoa_put buflen buf (c # cs) =
     (if int (length buf) \<ge> buflen then None else ntoa_put buflen (buf @ [c]) cs)"

fun ntoa_loop :: "int \<Rightarrow> string \<Rightarrow> u8_t list \<Rightarrow> string option" where
  "ntoa_loop buflen buf [] = Some buf"
| "ntoa_loop buflen buf (ap # aps) =
     (case ntoa_put buflen buf (rev (ntoa_inv (unat ap))) of
        None \<Rightarrow> None
      | Some buf \<Rightarrow>
          (case ntoa_put buflen buf ''.'' of
             None \<Rightarrow> None
           | Some buf \<Rightarrow> ntoa_loop buflen buf aps))"

definition ipaddr_ntoa_r :: "u32_t \<Rightarrow> int \<Rightarrow> string option" where
  "ipaddr_ntoa_r s_addr buflen =
     (case ntoa_loop buflen [] (u32_bytes s_addr) of
        None \<Rightarrow> None
      | Some buf \<Rightarrow> Some (butlast buf))"

definition ipaddr_ntoa :: "u32_t \<Rightarrow> string option" where
  "ipaddr_ntoa addr = ipaddr_ntoa_r addr 16"

section \<open>Netmasks\<close>

lemma and_bit_zero: "nm AND push_bit j 1 = 0 \<longleftrightarrow> \<not> bit nm j" for nm :: u32_t
  using bit_iff_and_push_bit_not_eq_0 [of nm j] by simp

lemma push_bit_one_nonzero: "j < 32 \<Longrightarrow> push_bit j 1 \<noteq> (0 :: u32_t)"
  using bit_push_bit_iff [of j "1 :: u32_t" j] by (auto simp: bit_simps)

lemma drop_push_bit_one: "Suc j < 32 \<Longrightarrow> drop_bit 1 (push_bit (Suc j) 1) = (push_bit j 1 :: u32_t)"
  by (rule bit_word_eqI) (auto simp: bit_simps)

lemma netmask_zero_mask [simp]: "netmask_first_zero nm 0 = 0" "netmask_no_one nm 0"
  by (simp_all add: netmask_first_zero.simps [of nm 0] netmask_no_one.simps [of nm 0])

lemma netmask_first_zero_bit:
  "j < 32 \<Longrightarrow>
     (\<exists>i\<le>j. netmask_first_zero nm (push_bit j 1) = push_bit i 1 \<and> \<not> bit nm i \<and> (\<forall>k. i < k \<and> k \<le> j \<longrightarrow> bit nm k)) \<or>
     (netmask_first_zero nm (push_bit j 1) = 0 \<and> (\<forall>k\<le>j. bit nm k))"
proof (induction j)
  case 0
  show ?case
    using and_bit_zero [of nm 0] by (simp add: netmask_first_zero.simps [of nm 1])
next
  case (Suc j)
  note step = netmask_first_zero.simps [of nm "push_bit (Suc j) 1"]
  show ?case
  proof (cases "bit nm (Suc j)")
    case True
    then have "netmask_first_zero nm (push_bit (Suc j) 1) = netmask_first_zero nm (push_bit j 1)"
      by (simp only: step push_bit_one_nonzero [OF Suc.prems] and_bit_zero drop_push_bit_one [OF Suc.prems]
          if_True if_False simp_thms)
    with Suc True show ?thesis by (metis Suc_lessD le_Suc_eq)
  next
    case False
    then have "netmask_first_zero nm (push_bit (Suc j) 1) = push_bit (Suc j) 1"
      by (simp only: step push_bit_one_nonzero [OF Suc.prems] and_bit_zero if_True if_False simp_thms)
    with False show ?thesis by (metis le_refl not_less)
  qed
qed

lemma netmask_no_one_bit: "j < 32 \<Longrightarrow> netmask_no_one nm (push_bit j 1) \<longleftrightarrow> (\<forall>k\<le>j. \<not> bit nm k)"
proof (induction j)
  case 0
  show ?case using and_bit_zero [of nm 0] by (simp add: netmask_no_one.simps [of nm 1])
next
  case (Suc j)
  have "netmask_no_one nm (push_bit (Suc j) 1) \<longleftrightarrow> \<not> bit nm (Suc j) \<and> netmask_no_one nm (push_bit j 1)"
    by (simp only: netmask_no_one.simps [of nm "push_bit (Suc j) 1"] push_bit_one_nonzero [OF Suc.prems]
        and_bit_zero drop_push_bit_one [OF Suc.prems] simp_thms) simp
  with Suc show ?case by (auto simp: le_Suc_eq)
qed

section \<open>Reading back a printed address\<close>

lemma of_char_digit: "d < 10 \<Longrightarrow> (of_char (char_of (48 + d :: nat)) :: int) = 48 + int d"
proof -
  assume "d < 10"
  then have "(of_char (char_of (48 + d :: nat)) :: nat) = 48 + d" by simp
  then have "(of_nat (of_char (char_of (48 + d :: nat))) :: int) = 48 + int d" by simp
  then show ?thesis by (simp only: of_nat_of_char)
qed

lemma aton_digits_digit:
  "d < 10 \<Longrightarrow> aton_digits base val (char_of (48 + d :: nat) # cp) = aton_digits base (val * base + of_nat d) cp"
  by (simp add: of_char_digit isdigit_def in_range_def)

definition at_stop :: "string \<Rightarrow> bool" where
  "at_stop cp \<longleftrightarrow> cp = [] \<or> cur cp = 46"

lemma aton_digits_stop: "at_stop cp \<Longrightarrow> aton_digits base val cp = (val, cp)"
  by (cases cp) (auto simp: at_stop_def isdigit_def isxdigit_def in_range_def)

lemma cur_digit: "d < 10 \<Longrightarrow> cur (char_of (48 + d :: nat) # cp) = 48 + int d"
  by (simp add: of_char_digit)

lemma ntoa_inv_step: "e < 10 \<Longrightarrow> 0 < m \<Longrightarrow> ntoa_inv (10 * m + e) = char_of (48 + e) # ntoa_inv m"
  by (simp add: ntoa_inv.simps [of "10 * m + e"])

lemma ntoa_inv_digits:
  "d < 10 \<Longrightarrow> ntoa_inv d = [char_of (48 + d)]"
  "d < 10 \<Longrightarrow> 0 < d \<Longrightarrow> e < 10 \<Longrightarrow> ntoa_inv (10 * d + e) = [char_of (48 + e), char_of (48 + d)]"
  "d < 10 \<Longrightarrow> 0 < d \<Longrightarrow> e < 10 \<Longrightarrow> f < 10 \<Longrightarrow>
     ntoa_inv (10 * (10 * d + e) + f) = [char_of (48 + f), char_of (48 + e), char_of (48 + d)]"
proof -
  show one: "d < 10 \<Longrightarrow> ntoa_inv d = [char_of (48 + d)]" for d by (simp add: ntoa_inv.simps [of d])
  show "d < 10 \<Longrightarrow> 0 < d \<Longrightarrow> e < 10 \<Longrightarrow> ntoa_inv (10 * d + e) = [char_of (48 + e), char_of (48 + d)]"
    by (simp only: ntoa_inv_step one)
  show "d < 10 \<Longrightarrow> 0 < d \<Longrightarrow> e < 10 \<Longrightarrow> f < 10 \<Longrightarrow>
     ntoa_inv (10 * (10 * d + e) + f) = [char_of (48 + f), char_of (48 + e), char_of (48 + d)]"
    using ntoa_inv_step [of f "10 * d + e"] by (simp only: ntoa_inv_step one)
qed

lemma octet_digits:
  assumes "n < (256 :: nat)"
  obtains (one) "n < 10" | (two) d e where "n = 10 * d + e" "0 < d" "d < 10" "e < 10"
    | (three) d e f where "n = 10 * (10 * d + e) + f" "0 < d" "d < 10" "e < 10" "f < 10"
proof -
  consider "n < 10" | "10 \<le> n" "n < 100" | "100 \<le> n" by linarith
  then show thesis
  proof cases
    case 1
    then show thesis by (rule one)
  next
    case 2
    show thesis by (rule two [of "n div 10" "n mod 10"]) (use 2 in auto)
  next
    case 3
    define m where "m = n div 10"
    have m: "10 \<le> m" "m < 100" "n = 10 * m + n mod 10" using 3 assms by (simp_all add: m_def)
    show thesis
      by (rule three [of "m div 10" "m mod 10" "n mod 10"]) (use m in simp_all)
  qed
qed

lemma aton_number_octet:
  assumes "n < 256" "at_stop cp"
  shows "aton_number (rev (ntoa_inv n) @ cp) = Some (of_nat n, cp)"
  using assms(1)
proof (cases n rule: octet_digits)
  case one
  show ?thesis
  proof (cases "n = 0")
    case True
    from assms(2) have "cur cp \<noteq> 120" "cur cp \<noteq> 88" by (auto simp: at_stop_def)
    with True assms(2) of_char_digit [of 0] show ?thesis
      by (simp add: ntoa_inv_digits aton_number_def isdigit_def in_range_def aton_digits_stop)
  next
    case False
    with one assms(2) show ?thesis
      by (simp add: ntoa_inv_digits aton_number_def cur_digit isdigit_def in_range_def aton_digits_digit
          aton_digits_stop del: cur.simps aton_digits.simps)
  qed
next
  case (two d e)
  have "rev (ntoa_inv n) @ cp = char_of (48 + d) # char_of (48 + e) # cp"
    using two by (simp only: ntoa_inv_digits) simp
  moreover have "of_nat n = of_nat d * 10 + (of_nat e :: u32_t)"
    using two(1) by (simp add: algebra_simps)
  ultimately show ?thesis using two(2-) assms(2)
    by (simp add: aton_number_def cur_digit isdigit_def in_range_def aton_digits_digit
        aton_digits_stop del: cur.simps aton_digits.simps)
next
  case (three d e f)
  have "rev (ntoa_inv n) @ cp = char_of (48 + d) # char_of (48 + e) # char_of (48 + f) # cp"
    using three by (simp only: ntoa_inv_digits) simp
  moreover have "of_nat n = (of_nat d * 10 + of_nat e) * 10 + (of_nat f :: u32_t)"
    using three(1) by (simp add: algebra_simps)
  ultimately show ?thesis using three(2-) assms(2)
    by (simp add: aton_number_def cur_digit isdigit_def in_range_def aton_digits_digit
        aton_digits_stop del: cur.simps aton_digits.simps)
qed

definition dotted :: "nat \<Rightarrow> nat \<Rightarrow> nat \<Rightarrow> nat \<Rightarrow> string" where
  "dotted a b c d = rev (ntoa_inv a) @ CHR ''.'' # rev (ntoa_inv b) @ CHR ''.'' #
     rev (ntoa_inv c) @ CHR ''.'' # rev (ntoa_inv d)"

lemma dot_stop [simp]: "at_stop (CHR ''.'' # cp)" "at_stop []" "cur (CHR ''.'' # cp) = 46"
  by (simp_all add: at_stop_def)

lemma aton_parts_dot:
  "n < 256 \<Longrightarrow> length parts < 3 \<Longrightarrow>
     aton_parts parts (rev (ntoa_inv n) @ CHR ''.'' # cp) = aton_parts (parts @ [of_nat n]) cp"
  by (subst aton_parts.simps) (simp add: aton_number_octet del: cur.simps)

lemma aton_parts_last: "n < 256 \<Longrightarrow> aton_parts parts (rev (ntoa_inv n)) = Some (parts, of_nat n, [])"
  using aton_number_octet [of n "[]"] by (subst aton_parts.simps) simp

lemma aton_parts_dotted:
  assumes "a < 256" "b < 256" "c < 256" "d < 256"
  shows "aton_parts [] (dotted a b c d) = Some ([of_nat a, of_nat b, of_nat c], of_nat d, [])"
  using assms by (simp add: dotted_def aton_parts_dot aton_parts_last)

lemma ntoa_inv_length: "n < 256 \<Longrightarrow> length (ntoa_inv n) \<le> 3"
  by (erule octet_digits) (simp_all only: ntoa_inv_digits, simp_all)

lemma ntoa_put_fits:
  "int (length buf + length cs) \<le> buflen \<Longrightarrow> ntoa_put buflen buf cs = Some (buf @ cs)"
  by (induction cs arbitrary: buf) auto

lemma ntoa_dotted:
  fixes w :: u32_t
  defines "oct \<equiv> (\<lambda>i. unat (byte_of i w))"
  shows "ipaddr_ntoa w = Some (dotted (oct 0) (oct 1) (oct 2) (oct 3))"
proof -
  have l: "length (ntoa_inv (oct i)) \<le> 3" for i
    using ntoa_inv_length [of "oct i"] unsigned_less [of "byte_of i w", where ?'a = nat] by (simp add: oct_def)
  have oi: "unat (byte_of i w) = oct i" for i by (simp add: oct_def)
  show ?thesis
    using l [of 0] l [of 1] l [of 2] l [of 3]
    by (simp add: ipaddr_ntoa_def ipaddr_ntoa_r_def u32_bytes_def ntoa_put_fits oi dotted_def
        butlast_append del: One_nat_def) 
qed

section \<open>Properties\<close>

text \<open>\<open>ip4_addr_netmask_valid\<close> accepts a netmask exactly when, in host byte order, its
  upper bits down to some position are ones and all bits below are zeros.\<close>
theorem netmask_valid_iff:
  "ip4_addr_netmask_valid m \<longleftrightarrow> (\<exists>z\<le>32. \<forall>i<32. bit (lwip_htonl m) i = (z \<le> i))"
proof -
  let ?nm = "lwip_htonl m"
  let ?f = "netmask_first_zero ?nm (push_bit 31 1)"
  consider (some) i where "i \<le> 31" "?f = push_bit i 1" "\<not> bit ?nm i" "\<forall>k. i < k \<and> k \<le> 31 \<longrightarrow> bit ?nm k"
    | (all) "?f = 0" "\<forall>k\<le>31. bit ?nm k"
    using netmask_first_zero_bit [of 31 ?nm] by auto
  then show ?thesis
  proof cases
    case some
    then have "ip4_addr_netmask_valid m \<longleftrightarrow> (\<forall>k\<le>i. \<not> bit ?nm k)"
      unfolding ip4_addr_netmask_valid_def Let_def by (simp only: netmask_no_one_bit)
    also have "\<dots> \<longleftrightarrow> (\<exists>z\<le>32. \<forall>j<32. bit ?nm j = (z \<le> j))"
    proof
      assume l: "\<forall>k\<le>i. \<not> bit ?nm k"
      have "bit ?nm j = (Suc i \<le> j)" if "j < 32" for j
        using l some(4) that by (cases "j \<le> i") auto
      with some(1) show "\<exists>z\<le>32. \<forall>j<32. bit ?nm j = (z \<le> j)" by (intro exI [of _ "Suc i"]) auto
    next
      assume "\<exists>z\<le>32. \<forall>j<32. bit ?nm j = (z \<le> j)"
      then obtain z where z: "\<forall>j<32. bit ?nm j = (z \<le> j)" by blast
      with some(1,3) have "\<not> z \<le> i" by auto
      with z some(1) show "\<forall>k\<le>i. \<not> bit ?nm k" by auto
    qed
    finally show ?thesis .
  next
    case all
    then have "ip4_addr_netmask_valid m"
      unfolding ip4_addr_netmask_valid_def Let_def by (simp only: netmask_zero_mask)
    moreover from all(2) have "\<forall>i<32. bit ?nm i = (0 \<le> i)" by auto
    ultimately show ?thesis by blast
  qed
qed

theorem netmask_valid_iff_witness:
  "\<exists>z\<le>32. \<forall>i<32. bit (lwip_htonl 0x00ffffff) i = (z \<le> i)"
proof -
  have "ip4_addr_netmask_valid 0x00ffffff" by code_simp
  then show ?thesis by (rule netmask_valid_iff [THEN iffD1])
qed

lemma htonl_of_bytes:
  fixes w :: u32_t
  shows "lwip_htonl (ucast (byte_of 3 w) OR (push_bit 24 (ucast (byte_of 0 w)) OR push_bit 16 (ucast (byte_of 1 w))
    OR push_bit 8 (ucast (byte_of 2 w)))) = w"
proof (rule bit_word_eqI)
  fix n
  assume "n < LENGTH(32)"
  then consider "n < 8" | "8 \<le> n" "n < 16" | "16 \<le> n" "n < 24" | "24 \<le> n" "n < 32" by fastforce
  then show "bit (lwip_htonl (ucast (byte_of 3 w) OR (push_bit 24 (ucast (byte_of 0 w)) OR
      push_bit 16 (ucast (byte_of 1 w)) OR push_bit 8 (ucast (byte_of 2 w))))) n = bit w n"
    by cases (auto simp: bit_htonl bit_simps bit_byte_of)
qed

lemma ucast_byte_le: "(ucast (b :: u8_t) :: u32_t) \<le> 0xff"
proof -
  have "unat (ucast b :: u32_t) \<le> 255"
    using unsigned_less [of b, where ?'a = nat] by (simp add: unsigned_ucast_eq take_bit_eq_mod)
  then show ?thesis by (simp add: word_le_nat_alt)
qed

text \<open>C40: reading back a printed address gives the address: \<open>ipaddr_ntoa\<close> always finds room in
  its buffer of 16 characters, and \<open>ipaddr_aton\<close> and \<open>ipaddr_addr\<close> invert it on all \<open>2^32\<close>
  addresses.\<close>
theorem ipaddr_ntoa_aton:
  "\<exists>str. ipaddr_ntoa addr = Some str \<and> length str \<le> 15 \<and> ipaddr_aton str = Some addr \<and> ipaddr_addr str = addr"
proof -
  let ?o = "\<lambda>i. unat (byte_of i addr)"
  have b: "?o i < 256" for i using unsigned_less [of "byte_of i addr", where ?'a = nat] by simp
  let ?s = "dotted (?o 0) (?o 1) (?o 2) (?o 3)"
  have u: "word_of_nat (?o i) = (ucast (byte_of i addr) :: u32_t)" for i by simp
  have "aton_concoct [word_of_nat (?o 0), word_of_nat (?o 1), word_of_nat (?o 2)] (word_of_nat (?o 3)) =
      Some (ucast (byte_of 3 addr) OR (push_bit 24 (ucast (byte_of 0 addr)) OR
      push_bit 16 (ucast (byte_of 1 addr)) OR push_bit 8 (ucast (byte_of 2 addr))))"
    using ucast_byte_le [of "byte_of 3 addr"] by (simp only: u) (simp add: aton_concoct_def not_less [symmetric])
  then have "ipaddr_aton ?s = Some addr"
    using aton_parts_dotted [OF b b b b, of 0 1 2 3] htonl_of_bytes [of addr] by (simp add: ipaddr_aton_def)
  moreover have "length ?s \<le> 15"
    using ntoa_inv_length [OF b, of 0] ntoa_inv_length [OF b, of 1] ntoa_inv_length [OF b, of 2]
      ntoa_inv_length [OF b, of 3] by (simp add: dotted_def)
  ultimately show ?thesis by (simp add: ntoa_dotted ipaddr_addr_def)
qed

text \<open>The parts of an address are not checked against one byte: \<open>ipaddr_aton\<close> accepts
  \<open>300.1.1.1\<close> as \<open>44.1.1.1\<close>, and the second part of \<open>4.258.3.4\<close> changes the first.\<close>
theorem ipaddr_aton_parts_unchecked:
  "ipaddr_aton ''300.1.1.1'' = ipaddr_aton ''44.1.1.1'' \<and> ipaddr_aton ''300.1.1.1'' \<noteq> None \<and>
   ipaddr_aton ''4.258.3.4'' = ipaddr_aton ''5.2.3.4''"
  by code_simp

end
