(* ===== verification/Etharp.thy ===== *)
theory Etharp
  imports Pbuf Ip4Addr
begin

text \<open>
  ARP and the Ethernet input: \<open>netif/etharp.c\<close> and \<open>netif/etharp.h\<close>, with the options of this
  port (one queued packet per entry, no static entries, no VLAN).  The state holds the packet
  memory, the ARP table, the cached index and the state \<open>'d\<close> of the network device.  The
  functions called through pointers or belonging to the layers above are arguments, gathered in
  \<open>link_if\<close>: \<open>netif->linkoutput\<close> (which reads the packet and changes only the device),
  \<open>ip_input\<close>, \<open>dhcp_arp_reply\<close> and the free function of custom pbufs.  The pointer to an
  interface that an entry stores is given by the number of the interface.
\<close>

section \<open>State\<close>

definition ARP_TABLE_SIZE :: nat where "ARP_TABLE_SIZE = 10"
definition ARP_MAXAGE :: int where "ARP_MAXAGE = 240"
definition ARP_AGE_REREQUEST_USED :: int where "ARP_AGE_REREQUEST_USED = ARP_MAXAGE - 12"
definition ARP_MAXPENDING :: int where "ARP_MAXPENDING = 2"

lemmas arp_consts = ARP_TABLE_SIZE_def ARP_MAXAGE_def ARP_AGE_REREQUEST_USED_def ARP_MAXPENDING_def

datatype etharp_state = ETHARP_STATE_EMPTY | ETHARP_STATE_PENDING | ETHARP_STATE_STABLE
  | ETHARP_STATE_STABLE_REREQUESTING

fun arp_state_num :: "etharp_state \<Rightarrow> nat" where
  "arp_state_num ETHARP_STATE_EMPTY = 0"
| "arp_state_num ETHARP_STATE_PENDING = 1"
| "arp_state_num ETHARP_STATE_STABLE = 2"
| "arp_state_num ETHARP_STATE_STABLE_REREQUESTING = 3"

instantiation etharp_state :: linorder
begin

definition less_eq_etharp_state :: "etharp_state \<Rightarrow> etharp_state \<Rightarrow> bool" where
  "less_eq_etharp_state a b \<longleftrightarrow> arp_state_num a \<le> arp_state_num b"

definition less_etharp_state :: "etharp_state \<Rightarrow> etharp_state \<Rightarrow> bool" where
  "less_etharp_state a b \<longleftrightarrow> arp_state_num a < arp_state_num b"

instance
proof
  fix a b :: etharp_state
  show "a \<le> b \<Longrightarrow> b \<le> a \<Longrightarrow> a = b" by (cases a; cases b) (auto simp: less_eq_etharp_state_def)
qed (auto simp: less_eq_etharp_state_def less_etharp_state_def)

end

record etharp_entry =
  ae_q :: "ptr option"
  ae_ipaddr :: u32_t
  ae_netif :: "int option"
  ae_ethaddr :: "u8_t list"
  ae_state :: etharp_state
  ae_ctime :: int

record 'd net =
  n_mem :: pstate
  n_arp :: "etharp_entry list"
  n_cached :: nat
  n_dev :: 'd

record 'd link_if =
  linkoutput :: "ptr \<Rightarrow> pstate \<Rightarrow> 'd \<Rightarrow> (err_t \<times> 'd) option"
  ip_input :: "ptr \<Rightarrow> netif \<Rightarrow> 'd net \<Rightarrow> 'd net option"
  dhcp_arp_reply :: "netif \<Rightarrow> u32_t \<Rightarrow> 'd net \<Rightarrow> 'd net option"
  custom_free :: custom_free

abbreviation entry :: "'d net \<Rightarrow> nat \<Rightarrow> etharp_entry" where
  "entry s i \<equiv> n_arp s ! i"

definition upd_entry :: "nat \<Rightarrow> (etharp_entry \<Rightarrow> etharp_entry) \<Rightarrow> 'd net \<Rightarrow> 'd net" where
  "upd_entry i f s = s\<lparr>n_arp := (n_arp s)[i := f (n_arp s ! i)]\<rparr>"

definition ETHARP_FLAG_TRY_HARD :: u8_t where "ETHARP_FLAG_TRY_HARD = 1"
definition ETHARP_FLAG_FIND_ONLY :: u8_t where "ETHARP_FLAG_FIND_ONLY = 2"

definition ethbroadcast :: "u8_t list" where "ethbroadcast = [0xff, 0xff, 0xff, 0xff, 0xff, 0xff]"
definition ethzero :: "u8_t list" where "ethzero = [0, 0, 0, 0, 0, 0]"

definition LL_MULTICAST_ADDR_0 :: u8_t where "LL_MULTICAST_ADDR_0 = 0x01"
definition LL_MULTICAST_ADDR_1 :: u8_t where "LL_MULTICAST_ADDR_1 = 0x00"
definition LL_MULTICAST_ADDR_2 :: u8_t where "LL_MULTICAST_ADDR_2 = 0x5e"

section \<open>Header fields\<close>

definition SIZEOF_ETH_HDR :: int where "SIZEOF_ETH_HDR = 14"
definition SIZEOF_ETHARP_PACKET :: int where "SIZEOF_ETHARP_PACKET = SIZEOF_ETH_HDR + 28"
definition ETHARP_HWADDR_LEN :: int where "ETHARP_HWADDR_LEN = 6"

definition ETHTYPE_ARP :: u16_t where "ETHTYPE_ARP = 0x0806"
definition ETHTYPE_IP :: u16_t where "ETHTYPE_IP = 0x0800"
definition HWTYPE_ETHERNET :: u16_t where "HWTYPE_ETHERNET = 1"
definition ARP_REQUEST :: u16_t where "ARP_REQUEST = 1"
definition ARP_REPLY :: u16_t where "ARP_REPLY = 2"

text \<open>The offsets of the fields of \<open>struct eth_hdr\<close> and, behind it, \<open>struct etharp_hdr\<close>.\<close>

datatype hdr_field = ETH_DEST | ETH_SRC | ETH_TYPE | ARP_HWTYPE | ARP_PROTO | ARP_HWLEN | ARP_PROTOLEN
  | ARP_OPCODE | ARP_SHWADDR | ARP_SIPADDR | ARP_DHWADDR | ARP_DIPADDR

fun offset_of :: "hdr_field \<Rightarrow> int" where
  "offset_of ETH_DEST = 0"
| "offset_of ETH_SRC = 6"
| "offset_of ETH_TYPE = 12"
| "offset_of ARP_HWTYPE = 14"
| "offset_of ARP_PROTO = 16"
| "offset_of ARP_HWLEN = 18"
| "offset_of ARP_PROTOLEN = 19"
| "offset_of ARP_OPCODE = 20"
| "offset_of ARP_SHWADDR = 22"
| "offset_of ARP_SIPADDR = 28"
| "offset_of ARP_DHWADDR = 32"
| "offset_of ARP_DIPADDR = 38"

definition field8 :: "ptr \<Rightarrow> hdr_field \<Rightarrow> pstate \<Rightarrow> u8_t" where
  "field8 h f m = p_bytes m (fst h) (snd h + offset_of f)"

definition field16 :: "ptr \<Rightarrow> hdr_field \<Rightarrow> pstate \<Rightarrow> u16_t" where
  "field16 h f m = load16 (p_bytes m (fst h)) (snd h + offset_of f)"

definition field32 :: "ptr \<Rightarrow> hdr_field \<Rightarrow> pstate \<Rightarrow> u32_t" where
  "field32 h f m = load32 (p_bytes m (fst h)) (snd h + offset_of f)"

definition field_addr :: "ptr \<Rightarrow> hdr_field \<Rightarrow> pstate \<Rightarrow> u8_t list" where
  "field_addr h f m = read_bytes (ptr_add h (offset_of f)) ETHARP_HWADDR_LEN m"

definition put :: "ptr \<Rightarrow> hdr_field \<Rightarrow> u8_t list \<Rightarrow> pstate \<Rightarrow> pstate" where
  "put h f bs m = mem_write (ptr_add h (offset_of f)) bs m"

section \<open>The table\<close>

definition free_mem :: "'d link_if \<Rightarrow> ptr option \<Rightarrow> 'd net \<Rightarrow> 'd net option" where
  "free_mem l p s = do { (n, m) \<leftarrow> pbuf_free (custom_free l) p (n_mem s); Some (s\<lparr>n_mem := m\<rparr>) }"

definition etharp_free_entry :: "'d link_if \<Rightarrow> nat \<Rightarrow> 'd net \<Rightarrow> 'd net option" where
  "etharp_free_entry l i s = do {
     s \<leftarrow> (case ae_q (entry s i) of
             None \<Rightarrow> Some s
           | Some q \<Rightarrow> do { s \<leftarrow> free_mem l (Some q) s; Some (upd_entry i (\<lambda>e. e\<lparr>ae_q := None\<rparr>) s) });
     Some (upd_entry i (\<lambda>e. e\<lparr>ae_state := ETHARP_STATE_EMPTY\<rparr>) s)
   }"

text \<open>The loop of \<open>etharp_tmr\<close> from index \<open>i\<close> on.\<close>

function etharp_tmr_loop :: "'d link_if \<Rightarrow> nat \<Rightarrow> 'd net \<Rightarrow> 'd net option" where
  "etharp_tmr_loop l i s =
     (if i < ARP_TABLE_SIZE then do {
        s \<leftarrow> (if ae_state (entry s i) \<noteq> ETHARP_STATE_EMPTY
              then let s = upd_entry i (\<lambda>e. e\<lparr>ae_ctime := c_u8 (ae_ctime e + 1)\<rparr>) s
                   in if ae_ctime (entry s i) \<ge> ARP_MAXAGE \<or>
                         ae_state (entry s i) = ETHARP_STATE_PENDING \<and> ae_ctime (entry s i) \<ge> ARP_MAXPENDING
                      then etharp_free_entry l i s
                      else if ae_state (entry s i) = ETHARP_STATE_STABLE_REREQUESTING
                      then Some (upd_entry i (\<lambda>e. e\<lparr>ae_state := ETHARP_STATE_STABLE\<rparr>) s)
                      else Some s
              else Some s);
        etharp_tmr_loop l (i + 1) s
      } else Some s)"
  by pat_completeness auto
termination by (relation "measure (\<lambda>(l, i, s). ARP_TABLE_SIZE - i)") auto

declare etharp_tmr_loop.simps [simp del]

definition etharp_tmr :: "'d link_if \<Rightarrow> 'd net \<Rightarrow> 'd net option" where
  "etharp_tmr l s = etharp_tmr_loop l 0 s"

text \<open>
  The sweep of \<open>etharp_find_entry\<close>: the index of a match, or the candidates for recycling,
  where the index \<open>ARP_TABLE_SIZE\<close> stands for none.
\<close>

record candidates =
  c_old_pending :: nat
  c_old_stable :: nat
  c_empty :: nat
  c_old_queue :: nat
  c_age_pending :: int
  c_age_stable :: int
  c_age_queue :: int

definition no_candidates :: candidates where
  "no_candidates = \<lparr>c_old_pending = ARP_TABLE_SIZE, c_old_stable = ARP_TABLE_SIZE, c_empty = ARP_TABLE_SIZE,
     c_old_queue = ARP_TABLE_SIZE, c_age_pending = 0, c_age_stable = 0, c_age_queue = 0\<rparr>"

fun find_sweep :: "u32_t option \<Rightarrow> etharp_entry list \<Rightarrow> nat \<Rightarrow> candidates \<Rightarrow> nat + candidates" where
  "find_sweep ipaddr [] i c = Inr c"
| "find_sweep ipaddr (e # es) i c =
     (if c_empty c = ARP_TABLE_SIZE \<and> ae_state e = ETHARP_STATE_EMPTY
      then find_sweep ipaddr es (i + 1) (c\<lparr>c_empty := i\<rparr>)
      else if ae_state e \<noteq> ETHARP_STATE_EMPTY
      then if ipaddr = Some (ae_ipaddr e) then Inl i
           else if ae_state e = ETHARP_STATE_PENDING
           then if ae_q e \<noteq> None
                then find_sweep ipaddr es (i + 1)
                       (if ae_ctime e \<ge> c_age_queue c then c\<lparr>c_old_queue := i, c_age_queue := ae_ctime e\<rparr> else c)
                else find_sweep ipaddr es (i + 1)
                       (if ae_ctime e \<ge> c_age_pending c then c\<lparr>c_old_pending := i, c_age_pending := ae_ctime e\<rparr> else c)
           else if ae_state e \<ge> ETHARP_STATE_STABLE
           then find_sweep ipaddr es (i + 1)
                  (if ae_ctime e \<ge> c_age_stable c then c\<lparr>c_old_stable := i, c_age_stable := ae_ctime e\<rparr> else c)
           else find_sweep ipaddr es (i + 1) c
      else find_sweep ipaddr es (i + 1) c)"

definition etharp_find_entry :: "'d link_if \<Rightarrow> u32_t option \<Rightarrow> u8_t \<Rightarrow> 'd net \<Rightarrow> ((err_t + nat) \<times> 'd net) option" where
  "etharp_find_entry l ipaddr flags s =
     (case find_sweep ipaddr (n_arp s) 0 no_candidates of
        Inl i \<Rightarrow> Some (Inr i, s)
      | Inr c \<Rightarrow>
          if flags AND ETHARP_FLAG_FIND_ONLY \<noteq> 0 \<or>
             c_empty c = ARP_TABLE_SIZE \<and> flags AND ETHARP_FLAG_TRY_HARD = 0
          then Some (Inl ERR_MEM, s)
          else do {
            r \<leftarrow> (if c_empty c < ARP_TABLE_SIZE then Some (Some (c_empty c), s)
                  else let i = (if c_old_stable c < ARP_TABLE_SIZE then Some (c_old_stable c)
                                else if c_old_pending c < ARP_TABLE_SIZE then Some (c_old_pending c)
                                else if c_old_queue c < ARP_TABLE_SIZE then Some (c_old_queue c)
                                else None)
                       in case i of
                            None \<Rightarrow> Some (None, s)
                          | Some i \<Rightarrow> do { s \<leftarrow> etharp_free_entry l i s; Some (Some i, s) });
            case r of
              (None, s) \<Rightarrow> Some (Inl ERR_MEM, s)
            | (Some i, s) \<Rightarrow>
                let s = (case ipaddr of None \<Rightarrow> s | Some a \<Rightarrow> upd_entry i (\<lambda>e. e\<lparr>ae_ipaddr := a\<rparr>) s);
                    s = upd_entry i (\<lambda>e. e\<lparr>ae_ctime := 0\<rparr>) s
                in Some (Inr i, s)
          })"

text \<open>The loop of \<open>etharp_cleanup_netif\<close> from index \<open>i\<close> on.\<close>

function etharp_cleanup_loop :: "'d link_if \<Rightarrow> netif \<Rightarrow> nat \<Rightarrow> 'd net \<Rightarrow> 'd net option" where
  "etharp_cleanup_loop l netif i s =
     (if i < ARP_TABLE_SIZE then do {
        s \<leftarrow> (if ae_state (entry s i) \<noteq> ETHARP_STATE_EMPTY \<and> ae_netif (entry s i) = Some (nif_num netif)
              then etharp_free_entry l i s else Some s);
        etharp_cleanup_loop l netif (i + 1) s
      } else Some s)"
  by pat_completeness auto
termination by (relation "measure (\<lambda>(l, netif, i, s). ARP_TABLE_SIZE - i)") auto

declare etharp_cleanup_loop.simps [simp del]

definition etharp_cleanup_netif :: "'d link_if \<Rightarrow> netif \<Rightarrow> 'd net \<Rightarrow> 'd net option" where
  "etharp_cleanup_netif l netif s = etharp_cleanup_loop l netif 0 s"

text \<open>The index found and the two addresses stored through the return pointers.\<close>

definition etharp_find_addr :: "'d link_if \<Rightarrow> u32_t option \<Rightarrow> 'd net \<Rightarrow> ((nat \<times> u8_t list \<times> u32_t) option \<times> 'd net) option" where
  "etharp_find_addr l ipaddr s = do {
     (r, s) \<leftarrow> etharp_find_entry l ipaddr ETHARP_FLAG_FIND_ONLY s;
     Some (case r of
             Inr i \<Rightarrow> if ae_state (entry s i) \<ge> ETHARP_STATE_STABLE
                      then (Some (i, ae_ethaddr (entry s i), ae_ipaddr (entry s i)), s) else (None, s)
           | Inl e \<Rightarrow> (None, s))
   }"

section \<open>Sending\<close>

definition send_link :: "'d link_if \<Rightarrow> ptr \<Rightarrow> 'd net \<Rightarrow> (err_t \<times> 'd net) option" where
  "send_link l p s = do { (e, d) \<leftarrow> linkoutput l p (n_mem s) (n_dev s); Some (e, s\<lparr>n_dev := d\<rparr>) }"

definition etharp_send_ip :: "'d link_if \<Rightarrow> ptr \<Rightarrow> u8_t list \<Rightarrow> u8_t list \<Rightarrow> 'd net \<Rightarrow> (err_t \<times> 'd net) option" where
  "etharp_send_ip l p src dst s =
     (let ethhdr = pb_payload (p_pbufs (n_mem s) p);
          m = put ethhdr ETH_DEST dst (n_mem s);
          m = put ethhdr ETH_SRC src m;
          m = put ethhdr ETH_TYPE (u16_bytes (lwip_htons ETHTYPE_IP)) m
      in send_link l p (s\<lparr>n_mem := m\<rparr>))"

definition etharp_raw :: "'d link_if \<Rightarrow> u8_t list \<Rightarrow> u8_t list \<Rightarrow> u8_t list \<Rightarrow> u32_t \<Rightarrow> u8_t list \<Rightarrow> u32_t \<Rightarrow> u16_t \<Rightarrow>
    'd net \<Rightarrow> (err_t \<times> 'd net) option" where
  "etharp_raw l ethsrc_addr ethdst_addr hwsrc_addr ipsrc_addr hwdst_addr ipdst_addr opcode s = do {
     (p, m) \<leftarrow> pbuf_alloc (custom_free l) PBUF_RAW SIZEOF_ETHARP_PACKET PBUF_RAM (n_mem s);
     case p of
       None \<Rightarrow> Some (ERR_MEM, s\<lparr>n_mem := m\<rparr>)
     | Some p \<Rightarrow>
         let ethhdr = pb_payload (p_pbufs m p);
             m = put ethhdr ARP_OPCODE (u16_bytes (lwip_htons opcode)) m;
             m = put ethhdr ARP_SHWADDR hwsrc_addr m;
             m = put ethhdr ARP_DHWADDR hwdst_addr m;
             m = put ethhdr ETH_DEST ethdst_addr m;
             m = put ethhdr ETH_SRC ethsrc_addr m;
             m = put ethhdr ARP_SIPADDR (u32_bytes ipsrc_addr) m;
             m = put ethhdr ARP_DIPADDR (u32_bytes ipdst_addr) m;
             m = put ethhdr ARP_HWTYPE (u16_bytes (lwip_htons HWTYPE_ETHERNET)) m;
             m = put ethhdr ARP_PROTO (u16_bytes (lwip_htons ETHTYPE_IP)) m;
             m = put ethhdr ARP_HWLEN [word_of_int ETHARP_HWADDR_LEN] m;
             m = put ethhdr ARP_PROTOLEN [4] m;
             m = put ethhdr ETH_TYPE (u16_bytes (lwip_htons ETHTYPE_ARP)) m
         in do {
           (result, s) \<leftarrow> send_link l p (s\<lparr>n_mem := m\<rparr>);
           s \<leftarrow> free_mem l (Some p) s;
           Some (result, s)
         }
   }"

definition etharp_request :: "'d link_if \<Rightarrow> netif \<Rightarrow> u32_t \<Rightarrow> 'd net \<Rightarrow> (err_t \<times> 'd net) option" where
  "etharp_request l netif ipaddr s =
     etharp_raw l (nif_hwaddr netif) ethbroadcast (nif_hwaddr netif) (nif_ip_addr netif) ethzero ipaddr ARP_REQUEST s"

text \<open>\<open>ethaddr\<close> points to the address in the packet received; it is read again for the queued packet.\<close>

definition etharp_update_arp_entry :: "'d link_if \<Rightarrow> netif \<Rightarrow> u32_t \<Rightarrow> ptr \<Rightarrow> u8_t \<Rightarrow> 'd net \<Rightarrow> (err_t \<times> 'd net) option" where
  "etharp_update_arp_entry l netif ipaddr ethaddr flags s =
     (if ipaddr = IPADDR_ANY \<or> ip4_addr_isbroadcast ipaddr netif \<or> ip_addr_ismulticast ipaddr
      then Some (ERR_ARG, s)
      else do {
        (r, s) \<leftarrow> etharp_find_entry l (Some ipaddr) flags s;
        case r of
          Inl e \<Rightarrow> Some (e, s)
        | Inr i \<Rightarrow>
            let s = upd_entry i (\<lambda>e. e\<lparr>ae_state := ETHARP_STATE_STABLE\<rparr>) s;
                s = upd_entry i (\<lambda>e. e\<lparr>ae_netif := Some (nif_num netif)\<rparr>) s;
                s = upd_entry i (\<lambda>e. e\<lparr>ae_ethaddr := read_bytes ethaddr ETHARP_HWADDR_LEN (n_mem s)\<rparr>) s;
                s = upd_entry i (\<lambda>e. e\<lparr>ae_ctime := 0\<rparr>) s
            in case ae_q (entry s i) of
                 None \<Rightarrow> Some (ERR_OK, s)
               | Some p \<Rightarrow> do {
                   let s = upd_entry i (\<lambda>e. e\<lparr>ae_q := None\<rparr>) s;
                   (e, s) \<leftarrow> etharp_send_ip l p (nif_hwaddr netif) (read_bytes ethaddr ETHARP_HWADDR_LEN (n_mem s)) s;
                   s \<leftarrow> free_mem l (Some p) s;
                   Some (ERR_OK, s)
                 }
      })"

definition etharp_output_to_arp_index :: "'d link_if \<Rightarrow> netif \<Rightarrow> ptr \<Rightarrow> nat \<Rightarrow> 'd net \<Rightarrow> (err_t \<times> 'd net) option" where
  "etharp_output_to_arp_index l netif q arp_idx s = do {
     s \<leftarrow> (if ae_state (entry s arp_idx) = ETHARP_STATE_STABLE \<and> ae_ctime (entry s arp_idx) \<ge> ARP_AGE_REREQUEST_USED
           then do {
             (e, s) \<leftarrow> etharp_request l netif (ae_ipaddr (entry s arp_idx)) s;
             Some (if e = ERR_OK then upd_entry arp_idx (\<lambda>e. e\<lparr>ae_state := ETHARP_STATE_STABLE_REREQUESTING\<rparr>) s else s)
           }
           else Some s);
     etharp_send_ip l q (nif_hwaddr netif) (ae_ethaddr (entry s arp_idx)) s
   }"

text \<open>The loop of \<open>etharp_query\<close> over the packet: the first pbuf that is not \<open>PBUF_ROM\<close>.\<close>

partial_function (option) first_not_rom :: "ptr option \<Rightarrow> pstate \<Rightarrow> ptr option option" where
  "first_not_rom p m =
     (case p of None \<Rightarrow> Some None
      | Some q \<Rightarrow> if pb_type (p_pbufs m q) \<noteq> PBUF_ROM then Some (Some q)
                  else first_not_rom (pb_next (p_pbufs m q)) m)"

text \<open>Copying the packet or taking a reference: the packet to queue, or \<open>NULL\<close>.\<close>

definition query_take :: "'d link_if \<Rightarrow> ptr \<Rightarrow> 'd net \<Rightarrow> (ptr option \<times> 'd net) option" where
  "query_take l q s = do {
     copy_needed \<leftarrow> first_not_rom (Some q) (n_mem s);
     case copy_needed of
       Some p \<Rightarrow> do {
         (p, m) \<leftarrow> pbuf_alloc (custom_free l) PBUF_RAW (pb_tot_len (p_pbufs (n_mem s) p)) PBUF_RAM (n_mem s);
         case p of
           None \<Rightarrow> Some (None, s\<lparr>n_mem := m\<rparr>)
         | Some p \<Rightarrow> do {
             (e, m) \<leftarrow> pbuf_copy (Some p) (Some q) m;
             if e \<noteq> ERR_OK then do { s \<leftarrow> free_mem l (Some p) (s\<lparr>n_mem := m\<rparr>); Some (None, s) }
             else Some (Some p, s\<lparr>n_mem := m\<rparr>)
           }
       }
     | None \<Rightarrow> Some (Some q, s\<lparr>n_mem := pbuf_ref (Some q) (n_mem s)\<rparr>)
   }"

definition etharp_query :: "'d link_if \<Rightarrow> netif \<Rightarrow> u32_t \<Rightarrow> ptr option \<Rightarrow> 'd net \<Rightarrow> (err_t \<times> 'd net) option" where
  "etharp_query l netif ipaddr q s =
     (if ip4_addr_isbroadcast ipaddr netif \<or> ip_addr_ismulticast ipaddr \<or> ipaddr = IPADDR_ANY
      then Some (ERR_ARG, s)
      else do {
        (r, s) \<leftarrow> etharp_find_entry l (Some ipaddr) ETHARP_FLAG_TRY_HARD s;
        case r of
          Inl e \<Rightarrow> Some (e, s)
        | Inr i \<Rightarrow> do {
            let s = (if ae_state (entry s i) = ETHARP_STATE_EMPTY
                     then upd_entry i (\<lambda>e. e\<lparr>ae_state := ETHARP_STATE_PENDING\<rparr>) s else s);
            (result, s) \<leftarrow> (if ae_state (entry s i) = ETHARP_STATE_PENDING \<or> q = None
                            then etharp_request l netif ipaddr s else Some (ERR_MEM, s));
            case q of
              None \<Rightarrow> Some (result, s)
            | Some q \<Rightarrow>
                if ae_state (entry s i) \<ge> ETHARP_STATE_STABLE
                then etharp_send_ip l q (nif_hwaddr netif) (ae_ethaddr (entry s i)) (s\<lparr>n_cached := i\<rparr>)
                else if ae_state (entry s i) = ETHARP_STATE_PENDING
                then do {
                  (p, s) \<leftarrow> query_take l q s;
                  case p of
                    None \<Rightarrow> Some (ERR_MEM, s)
                  | Some p \<Rightarrow> do {
                      s \<leftarrow> (case ae_q (entry s i) of None \<Rightarrow> Some s | Some old \<Rightarrow> free_mem l (Some old) s);
                      Some (ERR_OK, upd_entry i (\<lambda>e. e\<lparr>ae_q := Some p\<rparr>) s)
                    }
                }
                else Some (result, s)
          }
      })"

text \<open>The search of \<open>etharp_output\<close> for a stable entry, from index \<open>i\<close> on.\<close>

function find_stable :: "u32_t \<Rightarrow> nat \<Rightarrow> etharp_entry list \<Rightarrow> nat option" where
  "find_stable dst i es =
     (if i < ARP_TABLE_SIZE
      then if ae_state (es ! i) \<ge> ETHARP_STATE_STABLE \<and> dst = ae_ipaddr (es ! i) then Some i
           else find_stable dst (i + 1) es
      else None)"
  by pat_completeness auto
termination by (relation "measure (\<lambda>(dst, i, es). ARP_TABLE_SIZE - i)") auto

declare find_stable.simps [simp del]

definition etharp_output :: "'d link_if \<Rightarrow> netif \<Rightarrow> ptr \<Rightarrow> u32_t \<Rightarrow> 'd net \<Rightarrow> (err_t \<times> 'd net) option" where
  "etharp_output l netif q ipaddr s =
     (case pbuf_header (Some q) SIZEOF_ETH_HDR (n_mem s) of
        (True, m) \<Rightarrow> Some (ERR_BUF, s\<lparr>n_mem := m\<rparr>)
      | (False, m) \<Rightarrow>
          let s = s\<lparr>n_mem := m\<rparr> in
          if ip4_addr_isbroadcast ipaddr netif then etharp_send_ip l q (nif_hwaddr netif) ethbroadcast s
          else if ip_addr_ismulticast ipaddr
          then etharp_send_ip l q (nif_hwaddr netif)
                 [LL_MULTICAST_ADDR_0, LL_MULTICAST_ADDR_1, LL_MULTICAST_ADDR_2,
                  byte_of 1 ipaddr AND 0x7f, byte_of 2 ipaddr, byte_of 3 ipaddr] s
          else let off_net = \<not> ip_addr_netcmp ipaddr (nif_ip_addr netif) (nif_netmask netif) \<and>
                     \<not> ip_addr_islinklocal ipaddr
               in if off_net \<and> nif_gw netif = IPADDR_ANY then Some (ERR_RTE, s)
               else let dst_addr = (if off_net then nif_gw netif else ipaddr)
                    in if ae_state (entry s (n_cached s)) \<ge> ETHARP_STATE_STABLE \<and>
                          dst_addr = ae_ipaddr (entry s (n_cached s))
                       then etharp_output_to_arp_index l netif q (n_cached s) s
                       else case find_stable dst_addr 0 (n_arp s) of
                              Some i \<Rightarrow> etharp_output_to_arp_index l netif q i (s\<lparr>n_cached := i\<rparr>)
                            | None \<Rightarrow> etharp_query l netif dst_addr (Some q) s)"

section \<open>Receiving\<close>

text \<open>The reply is written into the packet of the request.\<close>

definition arp_make_reply :: "netif \<Rightarrow> u8_t list \<Rightarrow> ptr \<Rightarrow> pstate \<Rightarrow> pstate" where
  "arp_make_reply netif ethaddr hdr m =
     (let m = put hdr ARP_OPCODE (u16_bytes (lwip_htons ARP_REPLY)) m;
          m = put hdr ARP_DIPADDR (read_bytes (ptr_add hdr (offset_of ARP_SIPADDR)) 4 m) m;
          m = put hdr ARP_SIPADDR (u32_bytes (nif_ip_addr netif)) m;
          m = put hdr ARP_DHWADDR (field_addr hdr ARP_SHWADDR m) m;
          m = put hdr ETH_DEST (field_addr hdr ARP_SHWADDR m) m;
          m = put hdr ARP_SHWADDR ethaddr m
      in put hdr ETH_SRC ethaddr m)"

text \<open>The switch on the opcode.\<close>

definition arp_act :: "'d link_if \<Rightarrow> netif \<Rightarrow> u8_t list \<Rightarrow> ptr \<Rightarrow> ptr \<Rightarrow> u32_t \<Rightarrow> bool \<Rightarrow> 'd net \<Rightarrow> 'd net option" where
  "arp_act l netif ethaddr hdr p sipaddr for_us s =
     (if field16 hdr ARP_OPCODE (n_mem s) = lwip_htons ARP_REQUEST
      then if for_us
           then do { (e, s) \<leftarrow> send_link l p (s\<lparr>n_mem := arp_make_reply netif ethaddr hdr (n_mem s)\<rparr>); Some s }
           else Some s
      else if field16 hdr ARP_OPCODE (n_mem s) = lwip_htons ARP_REPLY
      then dhcp_arp_reply l netif sipaddr s
      else Some s)"

definition etharp_arp_input :: "'d link_if \<Rightarrow> netif \<Rightarrow> u8_t list \<Rightarrow> ptr \<Rightarrow> 'd net \<Rightarrow> 'd net option" where
  "etharp_arp_input l netif ethaddr p s =
     (let m = n_mem s; hdr = pb_payload (p_pbufs m p) in
      if pb_len (p_pbufs m p) < SIZEOF_ETHARP_PACKET then free_mem l (Some p) s
      else if field16 hdr ARP_HWTYPE m \<noteq> lwip_htons HWTYPE_ETHERNET \<or>
              uint (field8 hdr ARP_HWLEN m) \<noteq> ETHARP_HWADDR_LEN \<or>
              uint (field8 hdr ARP_PROTOLEN m) \<noteq> 4 \<or>
              field16 hdr ARP_PROTO m \<noteq> lwip_htons ETHTYPE_IP
      then free_mem l (Some p) s
      else let sipaddr = field32 hdr ARP_SIPADDR m;
               dipaddr = field32 hdr ARP_DIPADDR m;
               for_us = (if nif_ip_addr netif = IPADDR_ANY then False else dipaddr = nif_ip_addr netif)
           in do {
             (e, s) \<leftarrow> etharp_update_arp_entry l netif sipaddr (ptr_add hdr (offset_of ARP_SHWADDR))
                         (if for_us then ETHARP_FLAG_TRY_HARD else ETHARP_FLAG_FIND_ONLY) s;
             s \<leftarrow> arp_act l netif ethaddr hdr p sipaddr for_us s;
             free_mem l (Some p) s
           })"

definition PBUF_FLAG_LLBCAST :: u8_t where "PBUF_FLAG_LLBCAST = 0x08"
definition PBUF_FLAG_LLMCAST :: u8_t where "PBUF_FLAG_LLMCAST = 0x10"

text \<open>Marking the pbuf as received by multicast or broadcast of the link.\<close>

definition mark_link_cast :: "ptr \<Rightarrow> u8_t list \<Rightarrow> pstate \<Rightarrow> pstate" where
  "mark_link_cast p dest m =
     (if dest ! 0 AND 1 \<noteq> 0
      then if dest ! 0 = LL_MULTICAST_ADDR_0
           then if dest ! 1 = LL_MULTICAST_ADDR_1 \<and> dest ! 2 = LL_MULTICAST_ADDR_2
                then upd_pbuf p (\<lambda>b. b\<lparr>pb_flags := pb_flags b OR PBUF_FLAG_LLMCAST\<rparr>) m else m
           else if dest = ethbroadcast
           then upd_pbuf p (\<lambda>b. b\<lparr>pb_flags := pb_flags b OR PBUF_FLAG_LLBCAST\<rparr>) m else m
      else m)"

definition free_and_return :: "'d link_if \<Rightarrow> ptr \<Rightarrow> 'd net \<Rightarrow> (err_t \<times> 'd net) option" where
  "free_and_return l p s = do { s \<leftarrow> free_mem l (Some p) s; Some (ERR_OK, s) }"

definition ethernet_input :: "'d link_if \<Rightarrow> ptr \<Rightarrow> netif \<Rightarrow> 'd net \<Rightarrow> (err_t \<times> 'd net) option" where
  "ethernet_input l p netif s =
     (let m = n_mem s; ethhdr = pb_payload (p_pbufs m p) in
      if pb_len (p_pbufs m p) \<le> SIZEOF_ETH_HDR then free_and_return l p s
      else let type = field16 ethhdr ETH_TYPE m;
               m = mark_link_cast p (field_addr ethhdr ETH_DEST m) m;
               s = s\<lparr>n_mem := m\<rparr>
           in if type = lwip_htons ETHTYPE_IP
              then if nif_flags netif AND NETIF_FLAG_ETHARP = 0 then free_and_return l p s
                   else (case pbuf_header (Some p) (- SIZEOF_ETH_HDR) m of
                           (True, m) \<Rightarrow> free_and_return l p (s\<lparr>n_mem := m\<rparr>)
                         | (False, m) \<Rightarrow> do { s \<leftarrow> ip_input l p netif (s\<lparr>n_mem := m\<rparr>); Some (ERR_OK, s) })
              else if type = lwip_htons ETHTYPE_ARP
              then if nif_flags netif AND NETIF_FLAG_ETHARP = 0 then free_and_return l p s
                   else do { s \<leftarrow> etharp_arp_input l netif (nif_hwaddr netif) p s; Some (ERR_OK, s) }
              else free_and_return l p s)"

end
