(* ===== verification/IpOut.thy ===== *)
theory IpOut
  imports Etharp
begin

text \<open>
  The state of the IPv4 layer, sending and fragmenting datagrams, and ICMP: the output half of
  \<open>core/ipv4/ip.c\<close>, \<open>ip_frag\<close> of \<open>core/ipv4/ip_frag.c\<close> and \<open>core/ipv4/icmp.c\<close>.  The variables of the
  layers above ARP are a record held in the device component of the ARP state; \<open>'x\<close> is the state of
  the device itself and \<open>'m\<close> that of the layers above IP.  An interface is named by its number.
  \<open>netif->output\<close> is \<open>etharp_output\<close>, as \<open>ethernetif_init\<close> sets it.
\<close>

section \<open>State\<close>

text \<open>
  \<open>struct ip_reass_helper\<close>, which the reassembly stores over the first bytes of the header of a
  queued fragment, is kept beside the bytes: \<open>reass_helper\<close> gives it at the address of the header.
\<close>

record ip_reass_helper =
  rh_next_pbuf :: "ptr option"
  rh_start :: int
  rh_end :: int

record ip_reassdata =
  ir_next :: "nat option"
  ir_p :: "ptr option"
  ir_iphdr :: "u8_t list"
  ir_datagram_len :: int
  ir_flags :: u8_t
  ir_timer :: int

record 'x ip_vars =
  ip_dev :: 'x
  ip_id :: int
  netif_list :: "netif list"
  netif_default :: "int option"
  current_netif :: "netif option"
  current_header :: "ptr option"
  current_src :: u32_t
  current_dest :: u32_t
  reassdatagrams :: "nat option"
  ip_reass_pbufcount :: int
  reass_tab :: "nat \<Rightarrow> ip_reassdata"
  reass_helper :: "ptr \<Rightarrow> ip_reass_helper"

type_synonym ('x, 'm) ip_net = "('x, 'm) ip_vars_scheme net"
type_synonym ('x, 'm) ip_link = "('x, 'm) ip_vars_scheme link_if"

definition upd_ip :: "(('x, 'm) ip_vars_scheme \<Rightarrow> ('x, 'm) ip_vars_scheme) \<Rightarrow> ('x, 'm) ip_net \<Rightarrow> ('x, 'm) ip_net" where
  "upd_ip f s = s\<lparr>n_dev := f (n_dev s)\<rparr>"

definition set_mem :: "pstate \<Rightarrow> 'd net \<Rightarrow> 'd net" where
  "set_mem m s = s\<lparr>n_mem := m\<rparr>"

section \<open>Headers\<close>

definition get8 :: "ptr \<Rightarrow> int \<Rightarrow> pstate \<Rightarrow> u8_t" where
  "get8 h k m = p_bytes m (fst h) (snd h + k)"

definition get16 :: "ptr \<Rightarrow> int \<Rightarrow> pstate \<Rightarrow> u16_t" where
  "get16 h k m = load16 (p_bytes m (fst h)) (snd h + k)"

definition get32 :: "ptr \<Rightarrow> int \<Rightarrow> pstate \<Rightarrow> u32_t" where
  "get32 h k m = load32 (p_bytes m (fst h)) (snd h + k)"

definition put8 :: "ptr \<Rightarrow> int \<Rightarrow> u8_t \<Rightarrow> pstate \<Rightarrow> pstate" where
  "put8 h k w m = mem_write (ptr_add h k) [w] m"

definition put16 :: "ptr \<Rightarrow> int \<Rightarrow> u16_t \<Rightarrow> pstate \<Rightarrow> pstate" where
  "put16 h k w m = mem_write (ptr_add h k) (u16_bytes w) m"

definition put32 :: "ptr \<Rightarrow> int \<Rightarrow> u32_t \<Rightarrow> pstate \<Rightarrow> pstate" where
  "put32 h k w m = mem_write (ptr_add h k) (u32_bytes w) m"

text \<open>The offsets of the fields of \<open>struct ip_hdr\<close>.\<close>

definition IPH_VHL :: int where "IPH_VHL = 0"
definition IPH_TOS :: int where "IPH_TOS = 1"
definition IPH_LEN :: int where "IPH_LEN = 2"
definition IPH_ID :: int where "IPH_ID = 4"
definition IPH_OFFSET :: int where "IPH_OFFSET = 6"
definition IPH_TTL :: int where "IPH_TTL = 8"
definition IPH_PROTO :: int where "IPH_PROTO = 9"
definition IPH_CHKSUM :: int where "IPH_CHKSUM = 10"
definition IPH_SRC :: int where "IPH_SRC = 12"
definition IPH_DEST :: int where "IPH_DEST = 16"

lemmas iph_offsets = IPH_VHL_def IPH_TOS_def IPH_LEN_def IPH_ID_def IPH_OFFSET_def IPH_TTL_def IPH_PROTO_def
  IPH_CHKSUM_def IPH_SRC_def IPH_DEST_def

definition IP_HLEN :: int where "IP_HLEN = 20"
definition IP_DF :: u16_t where "IP_DF = 0x4000"
definition IP_MF :: u16_t where "IP_MF = 0x2000"
definition IP_OFFMASK :: u16_t where "IP_OFFMASK = 0x1fff"

definition IP_PROTO_ICMP :: u8_t where "IP_PROTO_ICMP = 1"
definition IP_PROTO_UDP :: u8_t where "IP_PROTO_UDP = 17"
definition IP_PROTO_TCP :: u8_t where "IP_PROTO_TCP = 6"

definition IPH_V :: "ptr \<Rightarrow> pstate \<Rightarrow> u8_t" where
  "IPH_V h m = drop_bit 4 (get8 h IPH_VHL m)"

definition IPH_HL :: "ptr \<Rightarrow> pstate \<Rightarrow> int" where
  "IPH_HL h m = uint (get8 h IPH_VHL m AND 0x0f)"

section \<open>Routing\<close>

definition netif_is_up :: "netif \<Rightarrow> bool" where
  "netif_is_up n \<longleftrightarrow> nif_flags n AND NETIF_FLAG_UP \<noteq> 0"

definition netif_of :: "int \<Rightarrow> netif list \<Rightarrow> netif option" where
  "netif_of k ns = List.find (\<lambda>n. nif_num n = k) ns"

fun route_list :: "u32_t \<Rightarrow> netif list \<Rightarrow> netif option" where
  "route_list dest [] = None"
| "route_list dest (n # ns) =
     (if netif_is_up n
      then if ip_addr_netcmp dest (nif_ip_addr n) (nif_netmask n) then Some n else route_list dest ns
      else route_list dest ns)"

definition ip_route :: "u32_t \<Rightarrow> ('x, 'm) ip_net \<Rightarrow> netif option" where
  "ip_route dest s =
     (case route_list dest (netif_list (n_dev s)) of
        Some n \<Rightarrow> Some n
      | None \<Rightarrow>
          (case netif_default (n_dev s) of
             None \<Rightarrow> None
           | Some k \<Rightarrow>
               (case netif_of k (netif_list (n_dev s)) of
                  None \<Rightarrow> None
                | Some n \<Rightarrow> if \<not> netif_is_up n then None else Some n)))"

section \<open>Fragmentation\<close>

text \<open>
  The free function of the custom pbufs of \<open>ip_frag\<close> frees the pbuf the fragment refers to.  That
  pbuf may itself be custom; the number bounds how deep this nests.
\<close>

primrec ipfrag_free_pbuf_custom :: "nat \<Rightarrow> custom_free" where
  "ipfrag_free_pbuf_custom 0 p m = None"
| "ipfrag_free_pbuf_custom (Suc n) p m = do {
     m \<leftarrow> (case p_original m p of
             None \<Rightarrow> Some m
           | Some q \<Rightarrow> do { (k, m) \<leftarrow> pbuf_free (ipfrag_free_pbuf_custom n) (Some q) m; Some m });
     (case p of
        (RFrag i, _) \<Rightarrow> Some (m\<lparr>p_pools := memp_free MEMP_FRAG_PBUF (Some i) (p_pools m)\<rparr>)
      | _ \<Rightarrow> None)
   }"

text \<open>
  The inner loop: references to the next \<open>left_to_copy\<close> bytes of \<open>p\<close> are chained to \<open>rambuf\<close>.  The
  result is whether all went well, the pbuf reached and the length of its last piece.
\<close>

partial_function (option) frag_copy_loop ::
    "custom_free \<Rightarrow> ptr \<Rightarrow> int \<Rightarrow> ptr option \<Rightarrow> int \<Rightarrow> pstate \<Rightarrow> (bool \<times> ptr option \<times> int \<times> pstate) option" where
  "frag_copy_loop cf rambuf left_to_copy p newpbuflen m =
     (if left_to_copy = 0 then Some (True, p, newpbuflen, m)
      else case p of
        None \<Rightarrow> None
      | Some q \<Rightarrow>
          let newpbuflen = (if left_to_copy < pb_len (p_pbufs m q) then left_to_copy else pb_len (p_pbufs m q))
          in if newpbuflen = 0 then frag_copy_loop cf rambuf left_to_copy (pb_next (p_pbufs m q)) newpbuflen m
             else case memp_malloc MEMP_FRAG_PBUF (p_pools m) of
               (None, ps) \<Rightarrow> do {
                 (k, m) \<leftarrow> pbuf_free cf (Some rambuf) (m\<lparr>p_pools := ps\<rparr>);
                 Some (False, p, newpbuflen, m)
               }
             | (Some i, ps) \<Rightarrow>
                 (case pbuf_alloced_custom PBUF_RAW newpbuflen PBUF_REF (RFrag i, 0) (pb_payload (p_pbufs m q)) newpbuflen (m\<lparr>p_pools := ps\<rparr>) of
                    (None, m) \<Rightarrow> do {
                      (k, m) \<leftarrow> pbuf_free cf (Some rambuf) (m\<lparr>p_pools := memp_free MEMP_FRAG_PBUF (Some i) (p_pools m)\<rparr>);
                      Some (False, p, newpbuflen, m)
                    }
                  | (Some newpbuf, m) \<Rightarrow>
                      let m = pbuf_ref (Some q) m;
                          m = m\<lparr>p_original := (p_original m)(newpbuf := Some q)\<rparr>
                      in do {
                        m \<leftarrow> pbuf_cat (Some rambuf) (Some newpbuf) m;
                        let left_to_copy = c_u16 (left_to_copy - newpbuflen);
                        frag_copy_loop cf rambuf left_to_copy (if left_to_copy \<noteq> 0 then pb_next (p_pbufs m q) else p) newpbuflen m
                      }))"

definition IPH_set_frag :: "ptr \<Rightarrow> u16_t \<Rightarrow> int \<Rightarrow> pstate \<Rightarrow> pstate" where
  "IPH_set_frag iphdr off len m =
     (let m = put16 iphdr IPH_OFFSET (lwip_htons off) m;
          m = put16 iphdr IPH_LEN (lwip_htons (word_of_int len)) m;
          m = put16 iphdr IPH_CHKSUM 0 m
      in put16 iphdr IPH_CHKSUM (inet_chksum (p_bytes m (fst iphdr)) (snd iphdr) IP_HLEN) m)"

text \<open>The outer loop; \<open>original_iphdr\<close> and the flags and sizes are fixed.\<close>

partial_function (option) frag_loop ::
    "('x, 'm) ip_link \<Rightarrow> netif \<Rightarrow> u32_t \<Rightarrow> ptr \<Rightarrow> u16_t \<Rightarrow> int \<Rightarrow> ptr option \<Rightarrow> int \<Rightarrow> int \<Rightarrow> u16_t \<Rightarrow>
     ('x, 'm) ip_net \<Rightarrow> (err_t \<times> ('x, 'm) ip_net) option" where
  "frag_loop l netif dest original_iphdr omf nfb p left poff ofo s =
     (if left = 0 then Some (ERR_OK, s)
      else let final = (left \<le> nif_mtu netif - IP_HLEN);
               tmp = omf OR (IP_OFFMASK AND ofo);
               tmp = (if \<not> final then tmp OR IP_MF else tmp);
               cop = (if final then left else c_u16 (nfb * 8))
           in do {
             (r, m) \<leftarrow> pbuf_alloc (custom_free l) PBUF_LINK IP_HLEN PBUF_RAM (n_mem s);
             case r of
               None \<Rightarrow> Some (ERR_MEM, set_mem m s)
             | Some rambuf \<Rightarrow> do {
                 let iphdr = pb_payload (p_pbufs m rambuf);
                 let m = mem_copy iphdr original_iphdr IP_HLEN m;
                 q \<leftarrow> p;
                 let m = upd_pbuf q (\<lambda>x. x\<lparr>pb_payload := ptr_add (pb_payload x) poff, pb_len := c_u16 (pb_len x - poff)\<rparr>) m;
                 (ok, p, newpbuflen, m) \<leftarrow> frag_copy_loop (custom_free l) rambuf cop p 0 m;
                 if \<not> ok then Some (ERR_MEM, set_mem m s)
                 else do {
                   let s = set_mem (IPH_set_frag iphdr tmp (cop + IP_HLEN) m) s;
                   (e, s) \<leftarrow> etharp_output l netif rambuf dest s;
                   s \<leftarrow> free_mem l (Some rambuf) s;
                   frag_loop l netif dest original_iphdr omf nfb p (c_u16 (left - cop)) newpbuflen (ofo + word_of_int nfb) s
                 }
               }
           })"

definition ip_frag :: "('x, 'm) ip_link \<Rightarrow> ptr \<Rightarrow> netif \<Rightarrow> u32_t \<Rightarrow> ('x, 'm) ip_net \<Rightarrow> (err_t \<times> ('x, 'm) ip_net) option" where
  "ip_frag l p netif dest s =
     (let original_iphdr = pb_payload (p_pbufs (n_mem s) p);
          tmp = lwip_ntohs (get16 original_iphdr IPH_OFFSET (n_mem s));
          ofo = tmp AND IP_OFFMASK;
          omf = tmp AND IP_MF;
          left = c_u16 (pb_tot_len (p_pbufs (n_mem s) p) - IP_HLEN);
          nfb = c_u16 ((nif_mtu netif - IP_HLEN) div 8)
      in frag_loop l netif dest original_iphdr omf nfb (Some p) left IP_HLEN ofo s)"

section \<open>Sending\<close>

text \<open>The header that \<open>ip_output_if\<close> generates; this port leaves the checksum to the hardware.\<close>

definition ip_make_header :: "ptr \<Rightarrow> u32_t \<Rightarrow> u32_t \<Rightarrow> u8_t \<Rightarrow> u8_t \<Rightarrow> u8_t \<Rightarrow> int \<Rightarrow> int \<Rightarrow> netif \<Rightarrow> pstate \<Rightarrow> pstate" where
  "ip_make_header iphdr src dest ttl tos proto tot_len ident netif m =
     (let m = put8 iphdr IPH_TTL ttl m;
          m = put8 iphdr IPH_PROTO proto m;
          m = put32 iphdr IPH_DEST dest m;
          m = put8 iphdr IPH_VHL (push_bit 4 4 OR word_of_int (IP_HLEN div 4)) m;
          m = put8 iphdr IPH_TOS tos m;
          m = put16 iphdr IPH_LEN (lwip_htons (word_of_int tot_len)) m;
          m = put16 iphdr IPH_OFFSET 0 m;
          m = put16 iphdr IPH_ID (lwip_htons (word_of_int ident)) m;
          m = put32 iphdr IPH_SRC (if src = IPADDR_ANY then nif_ip_addr netif else src) m
      in put16 iphdr IPH_CHKSUM 0 m)"

text \<open>\<open>dest\<close> is \<open>None\<close> for \<open>IP_HDRINCL\<close>; \<open>src\<close> is \<open>IPADDR_ANY\<close> also for the null pointer.\<close>

definition ip_output_if ::
    "('x, 'm) ip_link \<Rightarrow> ptr \<Rightarrow> u32_t \<Rightarrow> u32_t option \<Rightarrow> u8_t \<Rightarrow> u8_t \<Rightarrow> u8_t \<Rightarrow> netif \<Rightarrow>
     ('x, 'm) ip_net \<Rightarrow> (err_t \<times> ('x, 'm) ip_net) option" where
  "ip_output_if l p src dest ttl tos proto netif s =
     (let send = (\<lambda>dest s.
            if nif_mtu netif \<noteq> 0 \<and> pb_tot_len (p_pbufs (n_mem s) p) > nif_mtu netif
            then ip_frag l p netif dest s else etharp_output l netif p dest s)
      in case dest of
        Some dest \<Rightarrow>
          (case pbuf_header (Some p) IP_HLEN (n_mem s) of
             (True, m) \<Rightarrow> Some (ERR_BUF, set_mem m s)
           | (False, m) \<Rightarrow>
               let b = p_pbufs m p;
                   m = ip_make_header (pb_payload b) src dest ttl tos proto (pb_tot_len b) (ip_id (n_dev s)) netif m
               in send dest (upd_ip (\<lambda>v. v\<lparr>ip_id := c_u16 (ip_id v + 1)\<rparr>) (set_mem m s)))
      | None \<Rightarrow> send (get32 (pb_payload (p_pbufs (n_mem s) p)) IPH_DEST (n_mem s)) s)"

definition ip_output ::
    "('x, 'm) ip_link \<Rightarrow> ptr \<Rightarrow> u32_t \<Rightarrow> u32_t \<Rightarrow> u8_t \<Rightarrow> u8_t \<Rightarrow> u8_t \<Rightarrow>
     ('x, 'm) ip_net \<Rightarrow> (err_t \<times> ('x, 'm) ip_net) option" where
  "ip_output l p src dest ttl tos proto s =
     (case ip_route dest s of
        None \<Rightarrow> Some (ERR_RTE, s)
      | Some netif \<Rightarrow> ip_output_if l p src (Some dest) ttl tos proto netif s)"

end
