(* ===== verification/Icmp.thy ===== *)
theory Icmp
  imports IpOut
begin

text \<open>
  ICMP: \<open>core/ipv4/icmp.c\<close>, with echo requests to multicast and broadcast addresses ignored and the
  checks for the room for link headers compiled in, as this port does.
\<close>

section \<open>Messages\<close>

definition ICMP_ER :: u8_t where "ICMP_ER = 0"
definition ICMP_DUR :: u8_t where "ICMP_DUR = 3"
definition ICMP_ECHO :: u8_t where "ICMP_ECHO = 8"
definition ICMP_TE :: u8_t where "ICMP_TE = 11"
definition ICMP_DUR_PROTO :: u8_t where "ICMP_DUR_PROTO = 2"
definition ICMP_DUR_PORT :: u8_t where "ICMP_DUR_PORT = 3"
definition ICMP_TE_FRAG :: u8_t where "ICMP_TE_FRAG = 1"
definition ICMP_TTL :: u8_t where "ICMP_TTL = 255"
definition ICMP_DEST_UNREACH_DATASIZE :: int where "ICMP_DEST_UNREACH_DATASIZE = 8"

text \<open>\<open>struct icmp_echo_hdr\<close>.\<close>

definition ICMPH_TYPE :: int where "ICMPH_TYPE = 0"
definition ICMPH_CODE :: int where "ICMPH_CODE = 1"
definition ICMPH_CHKSUM :: int where "ICMPH_CHKSUM = 2"
definition ICMPH_ECHOID :: int where "ICMPH_ECHOID = 4"
definition ICMPH_SEQNO :: int where "ICMPH_SEQNO = 6"
definition SIZEOF_ICMP_ECHO_HDR :: int where "SIZEOF_ICMP_ECHO_HDR = 8"

section \<open>Errors\<close>

definition icmp_make_error :: "ptr \<Rightarrow> u8_t \<Rightarrow> u8_t \<Rightarrow> ptr \<Rightarrow> int \<Rightarrow> pstate \<Rightarrow> pstate" where
  "icmp_make_error icmphdr type code iphdr qlen m =
     (let m = put8 icmphdr ICMPH_TYPE type m;
          m = put8 icmphdr ICMPH_CODE code m;
          m = put16 icmphdr ICMPH_ECHOID 0 m;
          m = put16 icmphdr ICMPH_SEQNO 0 m;
          m = mem_copy (ptr_add icmphdr SIZEOF_ICMP_ECHO_HDR) iphdr (IP_HLEN + ICMP_DEST_UNREACH_DATASIZE) m;
          m = put16 icmphdr ICMPH_CHKSUM 0 m
      in put16 icmphdr ICMPH_CHKSUM (inet_chksum (p_bytes m (fst icmphdr)) (snd icmphdr) qlen) m)"

definition icmp_send_response :: "('x, 'm) ip_link \<Rightarrow> ptr \<Rightarrow> u8_t \<Rightarrow> u8_t \<Rightarrow> ('x, 'm) ip_net \<Rightarrow> ('x, 'm) ip_net option" where
  "icmp_send_response l p type code s = do {
     (q, m) \<leftarrow> pbuf_alloc (custom_free l) PBUF_IP (SIZEOF_ICMP_ECHO_HDR + IP_HLEN + ICMP_DEST_UNREACH_DATASIZE) PBUF_RAM (n_mem s);
     case q of
       None \<Rightarrow> Some (set_mem m s)
     | Some q \<Rightarrow> do {
         let iphdr = pb_payload (p_pbufs m p);
         let m = icmp_make_error (pb_payload (p_pbufs m q)) type code iphdr (pb_len (p_pbufs m q)) m;
         let iphdr_src = get32 iphdr IPH_SRC m;
         (e, s) \<leftarrow> ip_output l q IPADDR_ANY iphdr_src ICMP_TTL 0 IP_PROTO_ICMP (set_mem m s);
         free_mem l (Some q) s
       }
   }"

definition icmp_dest_unreach :: "('x, 'm) ip_link \<Rightarrow> ptr \<Rightarrow> u8_t \<Rightarrow> ('x, 'm) ip_net \<Rightarrow> ('x, 'm) ip_net option" where
  "icmp_dest_unreach l p t s = icmp_send_response l p ICMP_DUR t s"

definition icmp_time_exceeded :: "('x, 'm) ip_link \<Rightarrow> ptr \<Rightarrow> u8_t \<Rightarrow> ('x, 'm) ip_net \<Rightarrow> ('x, 'm) ip_net option" where
  "icmp_time_exceeded l p t s = icmp_send_response l p ICMP_TE t s"

section \<open>Echo\<close>

text \<open>The payloads of a chain, as the checksum functions take them.\<close>

partial_function (option) pbuf_segments :: "ptr option \<Rightarrow> pstate \<Rightarrow> (region \<times> int \<times> int) list option" where
  "pbuf_segments q m =
     (case q of None \<Rightarrow> Some []
      | Some q \<Rightarrow>
          let b = p_pbufs m q in do {
            xs \<leftarrow> pbuf_segments (pb_next b) m;
            Some ((fst (pb_payload b), snd (pb_payload b), pb_len b) # xs)
          })"

definition PBUF_LINK_HLEN :: int where "PBUF_LINK_HLEN = 14"
definition PBUF_IP_HLEN :: int where "PBUF_IP_HLEN = 20"

text \<open>
  Room for the link and IP headers: \<open>p\<close> itself, or a copy of the whole datagram in a new pbuf; the
  pbuf to answer in and its IP header, or \<open>None\<close> for the jump to \<open>memerr\<close>.
\<close>

definition icmp_echo_room :: "custom_free \<Rightarrow> ptr \<Rightarrow> ptr \<Rightarrow> int \<Rightarrow> pstate \<Rightarrow> ((ptr \<times> ptr) option \<times> pstate) option" where
  "icmp_echo_room cf p iphdr hlen m =
     (case pbuf_header (Some p) (PBUF_IP_HLEN + PBUF_LINK_HLEN) m of
        (True, m) \<Rightarrow>
          (case pbuf_header (Some p) hlen m of
             (True, m) \<Rightarrow> Some (None, m)
           | (False, m) \<Rightarrow> do {
               (r, m) \<leftarrow> pbuf_alloc cf PBUF_LINK (pb_tot_len (p_pbufs m p)) PBUF_RAM m;
               case r of
                 None \<Rightarrow> Some (None, m)
               | Some r \<Rightarrow> do {
                   (e, m) \<leftarrow> pbuf_copy (Some r) (Some p) m;
                   if e \<noteq> ERR_OK then Some (None, m)
                   else let iphdr = pb_payload (p_pbufs m r) in
                     case pbuf_header (Some r) (- hlen) m of
                       (True, m) \<Rightarrow> Some (None, m)
                     | (False, m) \<Rightarrow> do { (n, m) \<leftarrow> pbuf_free cf (Some p) m; Some (Some (r, iphdr), m) }
                 }
             })
      | (False, m) \<Rightarrow>
          (case pbuf_header (Some p) (- (PBUF_IP_HLEN + PBUF_LINK_HLEN)) m of
             (True, m) \<Rightarrow> Some (None, m)
           | (False, m) \<Rightarrow> Some (Some (p, iphdr), m)))"

text \<open>The request is turned into the answer in place; the hardware fills in both checksums.\<close>

definition icmp_make_reply :: "ptr \<Rightarrow> ptr \<Rightarrow> u32_t \<Rightarrow> u32_t \<Rightarrow> pstate \<Rightarrow> pstate" where
  "icmp_make_reply iecho iphdr cur_dest cur_src m =
     (let m = put32 iphdr IPH_SRC cur_dest m;
          m = put32 iphdr IPH_DEST cur_src m;
          m = put8 iecho ICMPH_TYPE ICMP_ER m;
          m = put16 iecho ICMPH_CHKSUM 0 m;
          m = put8 iphdr IPH_TTL ICMP_TTL m
      in put16 iphdr IPH_CHKSUM 0 m)"

definition icmp_echo :: "('x, 'm) ip_link \<Rightarrow> ptr \<Rightarrow> ptr \<Rightarrow> int \<Rightarrow> netif \<Rightarrow> ('x, 'm) ip_net \<Rightarrow> ('x, 'm) ip_net option" where
  "icmp_echo l p iphdr hlen inp s =
     (let dest = current_dest (n_dev s); src = current_src (n_dev s) in
      if ip_addr_ismulticast dest \<or> ip4_addr_isbroadcast dest inp then free_mem l (Some p) s
      else if pb_tot_len (p_pbufs (n_mem s) p) < SIZEOF_ICMP_ECHO_HDR then free_mem l (Some p) s
      else do {
        segs \<leftarrow> pbuf_segments (Some p) (n_mem s);
        if inet_chksum_pbuf (p_bytes (n_mem s)) segs \<noteq> 0 then free_mem l (Some p) s
        else do {
          (r, m) \<leftarrow> icmp_echo_room (custom_free l) p iphdr hlen (n_mem s);
          case r of
            None \<Rightarrow> free_mem l (Some p) (set_mem m s)
          | Some (p, iphdr) \<Rightarrow>
              let m = icmp_make_reply (pb_payload (p_pbufs m p)) iphdr dest src m in
              (case pbuf_header (Some p) hlen m of
                 (True, m) \<Rightarrow> free_mem l (Some p) (set_mem m s)
               | (False, m) \<Rightarrow> do {
                   (e, s) \<leftarrow> ip_output_if l p dest None ICMP_TTL 0 IP_PROTO_ICMP inp (set_mem m s);
                   free_mem l (Some p) s
                 })
        }
      })"

definition icmp_input :: "('x, 'm) ip_link \<Rightarrow> ptr \<Rightarrow> netif \<Rightarrow> ('x, 'm) ip_net \<Rightarrow> ('x, 'm) ip_net option" where
  "icmp_input l p inp s =
     (let iphdr = pb_payload (p_pbufs (n_mem s) p);
          hlen = IPH_HL iphdr (n_mem s) * 4
      in case pbuf_header (Some p) (- hlen) (n_mem s) of
           (True, m) \<Rightarrow> free_mem l (Some p) (set_mem m s)
         | (False, m) \<Rightarrow>
             if pb_tot_len (p_pbufs m p) < 2 * 2 then free_mem l (Some p) (set_mem m s)
             else let type = get8 (pb_payload (p_pbufs m p)) ICMPH_TYPE m in
               if type = ICMP_ER then free_mem l (Some p) (set_mem m s)
               else if type = ICMP_ECHO then icmp_echo l p iphdr hlen inp (set_mem m s)
               else free_mem l (Some p) (set_mem m s))"

end
