(* ===== verification/IpReass.thy ===== *)
theory IpReass
  imports Icmp
begin

text \<open>
  Reassembly: \<open>core/ipv4/ip_frag.c\<close>.  The datagrams being reassembled are elements of the pool
  \<open>REASSDATA\<close>, linked through \<open>ir_next\<close>; the fragments of one are linked through the helper
  structures that are stored over their headers.  \<open>None\<close> stands for a walk that does not end or a
  dereferenced null pointer.
\<close>

section \<open>Access\<close>

definition IP_REASS_FLAG_LASTFRAG :: u8_t where "IP_REASS_FLAG_LASTFRAG = 1"
definition IP_REASS_MAXAGE :: int where "IP_REASS_MAXAGE = 3"
definition IP_REASS_MAX_PBUFS :: int where "IP_REASS_MAX_PBUFS = 10"

abbreviation reass :: "('x, 'm) ip_net \<Rightarrow> nat \<Rightarrow> ip_reassdata" where
  "reass s \<equiv> reass_tab (n_dev s)"

abbreviation helper :: "('x, 'm) ip_net \<Rightarrow> ptr \<Rightarrow> ip_reass_helper" where
  "helper s \<equiv> reass_helper (n_dev s)"

definition upd_reass :: "nat \<Rightarrow> (ip_reassdata \<Rightarrow> ip_reassdata) \<Rightarrow> ('x, 'm) ip_net \<Rightarrow> ('x, 'm) ip_net" where
  "upd_reass i f = upd_ip (\<lambda>v. v\<lparr>reass_tab := (reass_tab v)(i := f (reass_tab v i))\<rparr>)"

definition upd_helper :: "ptr \<Rightarrow> (ip_reass_helper \<Rightarrow> ip_reass_helper) \<Rightarrow> ('x, 'm) ip_net \<Rightarrow> ('x, 'm) ip_net" where
  "upd_helper h f = upd_ip (\<lambda>v. v\<lparr>reass_helper := (reass_helper v)(h := f (reass_helper v h))\<rparr>)"

definition payload_of :: "ptr \<Rightarrow> ('x, 'm) ip_net \<Rightarrow> ptr" where
  "payload_of p s = pb_payload (p_pbufs (n_mem s) p)"

definition hdr_bytes :: "ptr \<Rightarrow> ('x, 'm) ip_net \<Rightarrow> u8_t list" where
  "hdr_bytes h s = read_bytes h IP_HLEN (n_mem s)"

text \<open>The bytes of the addresses and of the identification of two headers agree.\<close>

definition IP_ADDRESSES_AND_ID_MATCH :: "u8_t list \<Rightarrow> u8_t list \<Rightarrow> bool" where
  "IP_ADDRESSES_AND_ID_MATCH a b \<longleftrightarrow>
     take 4 (drop 12 a) = take 4 (drop 12 b) \<and> take 4 (drop 16 a) = take 4 (drop 16 b) \<and>
     take 2 (drop 4 a) = take 2 (drop 4 b)"

definition frag_offset :: "u16_t \<Rightarrow> int" where
  "frag_offset w = uint (lwip_ntohs w AND IP_OFFMASK)"

section \<open>Freeing datagrams\<close>

text \<open>\<open>memp_free\<close> links the element into the free list through its first word, which is \<open>ir_next\<close>.\<close>

definition free_reassdata :: "nat \<Rightarrow> ('x, 'm) ip_net \<Rightarrow> ('x, 'm) ip_net" where
  "free_reassdata i s =
     (let s = upd_reass i (\<lambda>r. r\<lparr>ir_next := memp_tab (p_pools (n_mem s)) MEMP_REASSDATA\<rparr>) s
      in set_mem ((n_mem s)\<lparr>p_pools := memp_free MEMP_REASSDATA (Some i) (p_pools (n_mem s))\<rparr>) s)"

definition ip_reass_dequeue_datagram :: "nat \<Rightarrow> nat option \<Rightarrow> ('x, 'm) ip_net \<Rightarrow> ('x, 'm) ip_net option" where
  "ip_reass_dequeue_datagram ipr prev s =
     (if reassdatagrams (n_dev s) = Some ipr
      then Some (free_reassdata ipr (upd_ip (\<lambda>v. v\<lparr>reassdatagrams := ir_next (reass_tab v ipr)\<rparr>) s))
      else case prev of
        None \<Rightarrow> None
      | Some v \<Rightarrow> Some (free_reassdata ipr (upd_reass v (\<lambda>r. r\<lparr>ir_next := ir_next (reass s ipr)\<rparr>) s)))"

partial_function (option) free_frags_loop ::
    "('x, 'm) ip_link \<Rightarrow> ptr option \<Rightarrow> int \<Rightarrow> ('x, 'm) ip_net \<Rightarrow> (int \<times> ('x, 'm) ip_net) option" where
  "free_frags_loop l p pbufs_freed s =
     (case p of None \<Rightarrow> Some (pbufs_freed, s)
      | Some pcur \<Rightarrow>
          let p = rh_next_pbuf (helper s (payload_of pcur s)) in do {
            clen \<leftarrow> pbuf_clen (Some pcur) (n_mem s);
            s \<leftarrow> free_mem l (Some pcur) s;
            free_frags_loop l p (c_u16 (pbufs_freed + clen)) s
          })"

definition ip_reass_free_complete_datagram ::
    "('x, 'm) ip_link \<Rightarrow> nat \<Rightarrow> nat option \<Rightarrow> ('x, 'm) ip_net \<Rightarrow> (int \<times> ('x, 'm) ip_net) option" where
  "ip_reass_free_complete_datagram l ipr prev s = do {
     p \<leftarrow> ir_p (reass s ipr);
     let iprh = helper s (payload_of p s);
     (pbufs_freed, s) \<leftarrow>
       (if rh_start iprh = 0
        then do {
          let s = upd_reass ipr (\<lambda>r. r\<lparr>ir_p := rh_next_pbuf iprh\<rparr>) s;
          let s = set_mem (mem_write (payload_of p s) (ir_iphdr (reass s ipr)) (n_mem s)) s;
          s \<leftarrow> icmp_time_exceeded l p ICMP_TE_FRAG s;
          clen \<leftarrow> pbuf_clen (Some p) (n_mem s);
          s \<leftarrow> free_mem l (Some p) s;
          Some (c_u16 clen, s)
        }
        else Some (0, s));
     (pbufs_freed, s) \<leftarrow> free_frags_loop l (ir_p (reass s ipr)) pbufs_freed s;
     s \<leftarrow> ip_reass_dequeue_datagram ipr prev s;
     Some (pbufs_freed, upd_ip (\<lambda>v. v\<lparr>ip_reass_pbufcount := c_u16 (ip_reass_pbufcount v - pbufs_freed)\<rparr>) s)
   }"

partial_function (option) reass_tmr_loop :: "('x, 'm) ip_link \<Rightarrow> nat option \<Rightarrow> nat option \<Rightarrow> ('x, 'm) ip_net \<Rightarrow> ('x, 'm) ip_net option" where
  "reass_tmr_loop l r prev s =
     (case r of None \<Rightarrow> Some s
      | Some i \<Rightarrow>
          if ir_timer (reass s i) > 0
          then let s = upd_reass i (\<lambda>r. r\<lparr>ir_timer := ir_timer r - 1\<rparr>) s
               in reass_tmr_loop l (ir_next (reass s i)) (Some i) s
          else let r = ir_next (reass s i) in do {
            (n, s) \<leftarrow> ip_reass_free_complete_datagram l i prev s;
            reass_tmr_loop l r prev s
          })"

definition ip_reass_tmr :: "('x, 'm) ip_link \<Rightarrow> ('x, 'm) ip_net \<Rightarrow> ('x, 'm) ip_net option" where
  "ip_reass_tmr l s = reass_tmr_loop l (reassdatagrams (n_dev s)) None s"

text \<open>
  The scan of \<open>ip_reass_remove_oldest_datagram\<close>: the oldest other datagram, the pointer \<open>prev\<close> and the
  number of other datagrams.
\<close>

partial_function (option) oldest_scan ::
    "u8_t list \<Rightarrow> nat option \<Rightarrow> nat option \<Rightarrow> nat option \<Rightarrow> int \<Rightarrow> ('x, 'm) ip_net \<Rightarrow> (nat option \<times> nat option \<times> int) option" where
  "oldest_scan fraghdr r oldest prev other_datagrams s =
     (case r of None \<Rightarrow> Some (oldest, prev, other_datagrams)
      | Some i \<Rightarrow>
          let other = \<not> IP_ADDRESSES_AND_ID_MATCH (ir_iphdr (reass s i)) fraghdr;
              other_datagrams = (if other then other_datagrams + 1 else other_datagrams);
              oldest = (if other
                        then (case oldest of None \<Rightarrow> Some i
                              | Some j \<Rightarrow> if ir_timer (reass s i) \<le> ir_timer (reass s j) then Some i else oldest)
                        else oldest);
              prev = (if ir_next (reass s i) \<noteq> None then Some i else prev)
          in oldest_scan fraghdr (ir_next (reass s i)) oldest prev other_datagrams s)"

partial_function (option) remove_oldest_loop ::
    "('x, 'm) ip_link \<Rightarrow> ptr \<Rightarrow> int \<Rightarrow> int \<Rightarrow> ('x, 'm) ip_net \<Rightarrow> (int \<times> ('x, 'm) ip_net) option" where
  "remove_oldest_loop l fraghdr pbufs_needed pbufs_freed s = do {
     (oldest, prev, other_datagrams) \<leftarrow> oldest_scan (hdr_bytes fraghdr s) (reassdatagrams (n_dev s)) None None 0 s;
     (pbufs_freed, s) \<leftarrow>
       (case oldest of None \<Rightarrow> Some (pbufs_freed, s)
        | Some i \<Rightarrow> do {
            (n, s) \<leftarrow> ip_reass_free_complete_datagram l i prev s;
            Some (pbufs_freed + n, s)
          });
     if pbufs_freed < pbufs_needed \<and> other_datagrams > 1
     then remove_oldest_loop l fraghdr pbufs_needed pbufs_freed s
     else Some (pbufs_freed, s)
   }"

definition ip_reass_remove_oldest_datagram ::
    "('x, 'm) ip_link \<Rightarrow> ptr \<Rightarrow> int \<Rightarrow> ('x, 'm) ip_net \<Rightarrow> (int \<times> ('x, 'm) ip_net) option" where
  "ip_reass_remove_oldest_datagram l fraghdr pbufs_needed s = remove_oldest_loop l fraghdr pbufs_needed 0 s"

section \<open>Queueing a fragment\<close>

definition malloc_reassdata :: "('x, 'm) ip_net \<Rightarrow> nat option \<times> ('x, 'm) ip_net" where
  "malloc_reassdata s =
     (case memp_malloc MEMP_REASSDATA (p_pools (n_mem s)) of
        (i, ps) \<Rightarrow> (i, set_mem ((n_mem s)\<lparr>p_pools := ps\<rparr>) s))"

definition ip_reass_enqueue_new_datagram ::
    "('x, 'm) ip_link \<Rightarrow> ptr \<Rightarrow> int \<Rightarrow> ('x, 'm) ip_net \<Rightarrow> (nat option \<times> ('x, 'm) ip_net) option" where
  "ip_reass_enqueue_new_datagram l fraghdr clen s = do {
     (ipr, s) \<leftarrow>
       (case malloc_reassdata s of
          (Some i, s) \<Rightarrow> Some (Some i, s)
        | (None, s) \<Rightarrow> do {
            (n, s) \<leftarrow> ip_reass_remove_oldest_datagram l fraghdr clen s;
            if n \<ge> clen then Some (malloc_reassdata s) else Some (None, s)
          });
     case ipr of
       None \<Rightarrow> Some (None, s)
     | Some i \<Rightarrow>
         let s = upd_reass i (\<lambda>r. \<lparr>ir_next = reassdatagrams (n_dev s), ir_p = None, ir_iphdr = hdr_bytes fraghdr s,
                   ir_datagram_len = 0, ir_flags = 0, ir_timer = IP_REASS_MAXAGE\<rparr>) s
         in Some (Some i, upd_ip (\<lambda>v. v\<lparr>reassdatagrams := Some i\<rparr>) s)
   }"

text \<open>
  The search for the place of the new fragment.  \<open>None\<close> as the inner result is the jump to
  \<open>freepbuf\<close>, else it is the fragment behind it, the helper before it and \<open>valid\<close>.
\<close>

partial_function (option) frag_insert_loop ::
    "nat \<Rightarrow> ptr \<Rightarrow> ptr \<Rightarrow> ptr option \<Rightarrow> ptr option \<Rightarrow> bool \<Rightarrow> ('x, 'm) ip_net \<Rightarrow>
     ((ptr option \<times> ptr option \<times> bool) option \<times> ('x, 'm) ip_net) option" where
  "frag_insert_loop ipr new_p iprh q iprh_prev valid s =
     (case q of None \<Rightarrow> Some (Some (None, iprh_prev, valid), s)
      | Some x \<Rightarrow>
          let iprh_tmp = payload_of x s; new = helper s iprh; tmp = helper s iprh_tmp
          in if rh_start new < rh_start tmp
             then let s = upd_helper iprh (\<lambda>h. h\<lparr>rh_next_pbuf := q\<rparr>) s
                  in case iprh_prev of
                       Some v \<Rightarrow>
                         if rh_start new < rh_end (helper s v) \<or> rh_end new > rh_start tmp then Some (None, s)
                         else Some (Some (q, iprh_prev, valid), upd_helper v (\<lambda>h. h\<lparr>rh_next_pbuf := Some new_p\<rparr>) s)
                     | None \<Rightarrow> Some (Some (q, iprh_prev, valid), upd_reass ipr (\<lambda>r. r\<lparr>ir_p := Some new_p\<rparr>) s)
             else if rh_start new = rh_start tmp then Some (None, s)
             else if rh_start new < rh_end tmp then Some (None, s)
             else let valid = (case iprh_prev of Some v \<Rightarrow> if rh_end (helper s v) \<noteq> rh_start tmp then False else valid
                               | None \<Rightarrow> valid)
                  in frag_insert_loop ipr new_p iprh (rh_next_pbuf tmp) (Some iprh_tmp) valid s)"

text \<open>The fragments from \<open>q\<close> on follow each other without a hole.\<close>

partial_function (option) no_holes_loop :: "ptr \<Rightarrow> ptr option \<Rightarrow> ('x, 'm) ip_net \<Rightarrow> bool option" where
  "no_holes_loop iprh_prev q s =
     (case q of None \<Rightarrow> Some True
      | Some x \<Rightarrow>
          let iprh = payload_of x s
          in if rh_end (helper s iprh_prev) \<noteq> rh_start (helper s iprh) then Some False
             else no_holes_loop iprh (rh_next_pbuf (helper s iprh)) s)"

definition ip_reass_chain_frag_into_datagram_and_validate ::
    "('x, 'm) ip_link \<Rightarrow> nat \<Rightarrow> ptr \<Rightarrow> ('x, 'm) ip_net \<Rightarrow> (bool \<times> ('x, 'm) ip_net) option" where
  "ip_reass_chain_frag_into_datagram_and_validate l ipr new_p s = do {
     let fraghdr = payload_of new_p s;
     let len = c_u16 (uint (lwip_ntohs (get16 fraghdr IPH_LEN (n_mem s))) - IPH_HL fraghdr (n_mem s) * 4);
     let offset = c_u16 (frag_offset (get16 fraghdr IPH_OFFSET (n_mem s)) * 8);
     let iprh = fraghdr;
     let s = upd_helper iprh (\<lambda>h. \<lparr>rh_next_pbuf = None, rh_start = offset, rh_end = c_u16 (offset + len)\<rparr>) s;
     (r, s) \<leftarrow> frag_insert_loop ipr new_p iprh (ir_p (reass s ipr)) None True s;
     case r of
       None \<Rightarrow> do {
         clen \<leftarrow> pbuf_clen (Some new_p) (n_mem s);
         s \<leftarrow> free_mem l (Some new_p) (upd_ip (\<lambda>v. v\<lparr>ip_reass_pbufcount := c_u16 (ip_reass_pbufcount v - clen)\<rparr>) s);
         Some (False, s)
       }
     | Some (q, iprh_prev, valid) \<Rightarrow> do {
         let (valid, s) =
           (case q of Some x \<Rightarrow> (valid, s)
            | None \<Rightarrow>
                (case iprh_prev of
                   Some v \<Rightarrow> (if rh_end (helper s v) \<noteq> rh_start (helper s iprh) then False else valid,
                             upd_helper v (\<lambda>h. h\<lparr>rh_next_pbuf := Some new_p\<rparr>) s)
                 | None \<Rightarrow> (valid, upd_reass ipr (\<lambda>r. r\<lparr>ir_p := Some new_p\<rparr>) s)));
         if ir_flags (reass s ipr) AND IP_REASS_FLAG_LASTFRAG \<noteq> 0
         then if valid
              then do {
                p \<leftarrow> ir_p (reass s ipr);
                if rh_start (helper s (payload_of p s)) \<noteq> 0 then Some (False, s)
                else do { v \<leftarrow> no_holes_loop iprh (rh_next_pbuf (helper s iprh)) s; Some (v, s) }
              }
              else Some (False, s)
         else Some (False, s)
       }
   }"

section \<open>Reassembling\<close>

text \<open>The datagram that a fragment belongs to and the one before it in the list.\<close>

partial_function (option) reass_find :: "u8_t list \<Rightarrow> nat option \<Rightarrow> nat option \<Rightarrow> ('x, 'm) ip_net \<Rightarrow> (nat option \<times> nat option) option" where
  "reass_find fraghdr ipr prev s =
     (case ipr of None \<Rightarrow> Some (None, prev)
      | Some i \<Rightarrow>
          if IP_ADDRESSES_AND_ID_MATCH (ir_iphdr (reass s i)) fraghdr then Some (Some i, prev)
          else reass_find fraghdr (ir_next (reass s i)) (Some i) s)"

text \<open>The fragments behind the first lose their headers and are chained to it.\<close>

partial_function (option) reass_join_loop :: "ptr \<Rightarrow> ptr option \<Rightarrow> ('x, 'm) ip_net \<Rightarrow> ('x, 'm) ip_net option" where
  "reass_join_loop p r s =
     (case r of None \<Rightarrow> Some s
      | Some x \<Rightarrow>
          let iprh = payload_of x s in do {
            let (f, m) = pbuf_header (Some x) (- IP_HLEN) (n_mem s);
            m \<leftarrow> pbuf_cat (Some p) (Some x) m;
            let s = set_mem m s;
            reass_join_loop p (rh_next_pbuf (helper s iprh)) s
          })"

definition ip_reass_null :: "('x, 'm) ip_link \<Rightarrow> ptr \<Rightarrow> ('x, 'm) ip_net \<Rightarrow> (ptr option \<times> ('x, 'm) ip_net) option" where
  "ip_reass_null l p s = do { s \<leftarrow> free_mem l (Some p) s; Some (None, s) }"

definition ip_reass_complete :: "nat \<Rightarrow> nat option \<Rightarrow> ('x, 'm) ip_net \<Rightarrow> (ptr option \<times> ('x, 'm) ip_net) option" where
  "ip_reass_complete ipr ipr_prev s = do {
     let s = upd_reass ipr (\<lambda>r. r\<lparr>ir_datagram_len := c_u16 (ir_datagram_len r + IP_HLEN)\<rparr>) s;
     p \<leftarrow> ir_p (reass s ipr);
     let fraghdr = payload_of p s;
     let r = rh_next_pbuf (helper s fraghdr);
     let m = mem_write fraghdr (ir_iphdr (reass s ipr)) (n_mem s);
     let m = put16 fraghdr IPH_LEN (lwip_htons (word_of_int (ir_datagram_len (reass s ipr)))) m;
     let m = put16 fraghdr IPH_OFFSET 0 m;
     let m = put16 fraghdr IPH_CHKSUM 0 m;
     let m = put16 fraghdr IPH_CHKSUM (inet_chksum (p_bytes m (fst fraghdr)) (snd fraghdr) IP_HLEN) m;
     s \<leftarrow> reass_join_loop p r (set_mem m s);
     s \<leftarrow> ip_reass_dequeue_datagram ipr ipr_prev s;
     clen \<leftarrow> pbuf_clen (Some p) (n_mem s);
     Some (Some p, upd_ip (\<lambda>v. v\<lparr>ip_reass_pbufcount := c_u16 (ip_reass_pbufcount v - clen)\<rparr>) s)
   }"

definition ip_reass_queue ::
    "('x, 'm) ip_link \<Rightarrow> ptr \<Rightarrow> nat \<Rightarrow> nat option \<Rightarrow> int \<Rightarrow> int \<Rightarrow> int \<Rightarrow> ('x, 'm) ip_net \<Rightarrow> (ptr option \<times> ('x, 'm) ip_net) option" where
  "ip_reass_queue l p ipr ipr_prev clen offset len s = do {
     let fraghdr = payload_of p s;
     let s = upd_ip (\<lambda>v. v\<lparr>ip_reass_pbufcount := c_u16 (ip_reass_pbufcount v + clen)\<rparr>) s;
     let s = (if get16 fraghdr IPH_OFFSET (n_mem s) AND lwip_ntohs IP_MF = 0
              then upd_reass ipr (\<lambda>r. r\<lparr>ir_flags := ir_flags r OR IP_REASS_FLAG_LASTFRAG, ir_datagram_len := c_u16 (offset + len)\<rparr>) s
              else s);
     (valid, s) \<leftarrow> ip_reass_chain_frag_into_datagram_and_validate l ipr p s;
     if valid then ip_reass_complete ipr ipr_prev s else Some (None, s)
   }"

definition ip_reass :: "('x, 'm) ip_link \<Rightarrow> ptr \<Rightarrow> ('x, 'm) ip_net \<Rightarrow> (ptr option \<times> ('x, 'm) ip_net) option" where
  "ip_reass l p s =
     (let fraghdr = payload_of p s in
      if IPH_HL fraghdr (n_mem s) * 4 \<noteq> IP_HLEN then ip_reass_null l p s
      else do {
        let offset = c_u16 (frag_offset (get16 fraghdr IPH_OFFSET (n_mem s)) * 8);
        let len = c_u16 (uint (lwip_ntohs (get16 fraghdr IPH_LEN (n_mem s))) - IPH_HL fraghdr (n_mem s) * 4);
        clen \<leftarrow> pbuf_clen (Some p) (n_mem s);
        (full, s) \<leftarrow>
          (if ip_reass_pbufcount (n_dev s) + clen > IP_REASS_MAX_PBUFS
           then do {
             (n, s) \<leftarrow> ip_reass_remove_oldest_datagram l fraghdr clen s;
             Some (n = 0 \<or> ip_reass_pbufcount (n_dev s) + clen > IP_REASS_MAX_PBUFS, s)
           }
           else Some (False, s));
        if full then ip_reass_null l p s
        else do {
          (ipr, ipr_prev) \<leftarrow> reass_find (hdr_bytes fraghdr s) (reassdatagrams (n_dev s)) None s;
          case ipr of
            None \<Rightarrow> do {
              (r, s) \<leftarrow> ip_reass_enqueue_new_datagram l fraghdr clen s;
              case r of
                None \<Rightarrow> ip_reass_null l p s
              | Some i \<Rightarrow> ip_reass_queue l p i ipr_prev clen offset len s
            }
          | Some i \<Rightarrow>
              let first_hdr = frag_offset (get16 fraghdr IPH_OFFSET (n_mem s)) = 0 \<and>
                    frag_offset (u16_le (ir_iphdr (reass s i) ! 6) (ir_iphdr (reass s i) ! 7)) \<noteq> 0;
                  s = (if first_hdr then upd_reass i (\<lambda>r. r\<lparr>ir_iphdr := hdr_bytes fraghdr s\<rparr>) s else s)
              in ip_reass_queue l p i ipr_prev clen offset len s
        }
      })"

end
