(* ===== verification/IpIn.thy ===== *)
theory IpIn
  imports IpReass
begin

text \<open>
  Receiving IPv4 datagrams: \<open>ip_input\<close> of \<open>core/ipv4/ip.c\<close>, with DHCP and reassembly compiled in and
  the check of the header checksum left to the hardware, as this port does.  The input functions of
  the raw sockets, of UDP and of TCP are the fields of a record.
\<close>

section \<open>Receiving\<close>

record 'd upper_if =
  up_raw_input :: "ptr \<Rightarrow> netif \<Rightarrow> 'd net \<Rightarrow> (bool \<times> 'd net) option"
  up_udp_input :: "ptr \<Rightarrow> netif \<Rightarrow> 'd net \<Rightarrow> 'd net option"
  up_tcp_input :: "ptr \<Rightarrow> netif \<Rightarrow> 'd net \<Rightarrow> 'd net option"

definition DHCP_CLIENT_PORT :: u16_t where "DHCP_CLIENT_PORT = 68"
definition DHCP_SERVER_PORT :: u16_t where "DHCP_SERVER_PORT = 67"

definition netif_accepts :: "u32_t \<Rightarrow> netif \<Rightarrow> bool" where
  "netif_accepts dest n \<longleftrightarrow>
     netif_is_up n \<and> nif_ip_addr n \<noteq> IPADDR_ANY \<and> (dest = nif_ip_addr n \<or> ip4_addr_isbroadcast dest n)"

text \<open>The walk over \<open>netif_list\<close>; the interface that received the packet was tried before.\<close>

fun accept_list :: "u32_t \<Rightarrow> netif \<Rightarrow> netif list \<Rightarrow> netif option" where
  "accept_list dest inp [] = None"
| "accept_list dest inp (n # ns) =
     (if nif_num n = nif_num inp
      then (case ns of [] \<Rightarrow> None
            | n' # ns' \<Rightarrow> if netif_accepts dest n' then Some n' else accept_list dest inp ns')
      else if netif_accepts dest n then Some n else accept_list dest inp ns)"

definition ip_accept :: "u32_t \<Rightarrow> netif \<Rightarrow> netif list \<Rightarrow> netif option" where
  "ip_accept dest inp ns = (if netif_accepts dest inp then Some inp else accept_list dest inp ns)"

text \<open>The interface that takes the packet and \<open>check_ip_src\<close>.\<close>

definition ip_accept_dhcp :: "ptr \<Rightarrow> int \<Rightarrow> netif \<Rightarrow> netif option \<Rightarrow> pstate \<Rightarrow> netif option \<times> bool" where
  "ip_accept_dhcp iphdr iphdr_hlen inp netif m =
     (if netif = None \<and> get8 iphdr IPH_PROTO m = IP_PROTO_UDP \<and> get16 (ptr_add iphdr iphdr_hlen) 2 m = lwip_ntohs DHCP_CLIENT_PORT
      then (Some inp, False) else (netif, True))"

text \<open>What is done with a complete datagram whose header is at \<open>iphdr\<close>.\<close>

definition ip_deliver ::
    "('x, 'm) ip_link \<Rightarrow> ('x, 'm) ip_vars_scheme upper_if \<Rightarrow> ptr \<Rightarrow> ptr \<Rightarrow> netif \<Rightarrow> ('x, 'm) ip_net \<Rightarrow> ('x, 'm) ip_net option" where
  "ip_deliver l u p iphdr inp s = do {
     let s = upd_ip (\<lambda>v. v\<lparr>current_netif := Some inp, current_header := Some iphdr\<rparr>) s;
     (eaten, s) \<leftarrow> up_raw_input u p inp s;
     s \<leftarrow>
       (if eaten then Some s
        else let proto = get8 iphdr IPH_PROTO (n_mem s) in
          if proto = IP_PROTO_UDP then up_udp_input u p inp s
          else if proto = IP_PROTO_TCP then up_tcp_input u p inp s
          else if proto = IP_PROTO_ICMP then icmp_input l p inp s
          else do {
            s \<leftarrow>
              (if \<not> ip4_addr_isbroadcast (current_dest (n_dev s)) inp \<and> \<not> ip_addr_ismulticast (current_dest (n_dev s))
               then icmp_dest_unreach l p ICMP_DUR_PROTO (set_mem (upd_pbuf p (\<lambda>b. b\<lparr>pb_payload := iphdr\<rparr>) (n_mem s)) s)
               else Some s);
            free_mem l (Some p) s
          });
     Some (upd_ip (\<lambda>v. v\<lparr>current_netif := None, current_header := None, current_src := IPADDR_ANY, current_dest := IPADDR_ANY\<rparr>) s)
   }"

definition ip_packet_in ::
    "('x, 'm) ip_link \<Rightarrow> ('x, 'm) ip_vars_scheme upper_if \<Rightarrow> ptr \<Rightarrow> netif \<Rightarrow> ('x, 'm) ip_net \<Rightarrow> ('x, 'm) ip_net option" where
  "ip_packet_in l u p inp s =
     (let iphdr = payload_of p s in
      if IPH_V iphdr (n_mem s) \<noteq> 4 then free_mem l (Some p) s
      else
        let iphdr_hlen = IPH_HL iphdr (n_mem s) * 4;
            iphdr_len = uint (lwip_ntohs (get16 iphdr IPH_LEN (n_mem s)))
        in if iphdr_hlen > pb_len (p_pbufs (n_mem s) p) \<or> iphdr_len > pb_tot_len (p_pbufs (n_mem s) p)
           then free_mem l (Some p) s
           else do {
             m \<leftarrow> pbuf_realloc (custom_free l) p iphdr_len (n_mem s);
             let dest = get32 iphdr IPH_DEST m;
             let src = get32 iphdr IPH_SRC m;
             let s = upd_ip (\<lambda>v. v\<lparr>current_dest := dest, current_src := src\<rparr>) (set_mem m s);
             let (netif, check_ip_src) = ip_accept_dhcp iphdr iphdr_hlen inp (ip_accept dest inp (netif_list (n_dev s))) m;
             if (check_ip_src \<and> src \<noteq> IPADDR_ANY) \<and> (ip4_addr_isbroadcast src inp \<or> ip_addr_ismulticast src)
             then free_mem l (Some p) s
             else if netif = None then free_mem l (Some p) s
             else if get16 iphdr IPH_OFFSET m AND lwip_htons (IP_OFFMASK OR IP_MF) \<noteq> 0
             then do {
               (r, s) \<leftarrow> ip_reass l p s;
               case r of
                 None \<Rightarrow> Some s
               | Some p \<Rightarrow> ip_deliver l u p (payload_of p s) inp s
             }
             else ip_deliver l u p iphdr inp s
           })"

text \<open>The stack: the link layer hands IP packets to \<open>ip_input\<close>.\<close>

definition ip_link_of :: "('x, 'm) ip_vars_scheme upper_if \<Rightarrow> ('x, 'm) ip_link \<Rightarrow> ('x, 'm) ip_link" where
  "ip_link_of u l = l\<lparr>ip_input := ip_packet_in l u\<rparr>"

end
