(* ===== verification/Raw.thy ===== *)
theory Raw
  imports IpIn
begin

text \<open>
  Raw sockets: \<open>core/raw.c\<close>.  The control blocks are the elements of the pool \<open>RAW_PCB\<close>, linked
  through \<open>r_next\<close>.  A callback is a name; what it does is a field of the record \<open>raw_app\<close>.
\<close>

section \<open>State\<close>

record raw_pcb =
  r_local_ip :: u32_t
  r_remote_ip :: u32_t
  r_so_options :: u8_t
  r_tos :: u8_t
  r_ttl :: u8_t
  r_next :: "nat option"
  r_protocol :: u8_t
  r_recv :: "nat option"
  r_recv_arg :: nat

record 'x raw_vars = "'x ip_vars" +
  raw_pcbs :: "nat option"
  raw_tab :: "nat \<Rightarrow> raw_pcb"

type_synonym ('x, 'm) raw_net = "('x, 'm) raw_vars_scheme net"

record 'd raw_app =
  raw_recv_fn :: "nat \<Rightarrow> nat \<Rightarrow> nat \<Rightarrow> ptr \<Rightarrow> u32_t \<Rightarrow> 'd net \<Rightarrow> (bool \<times> 'd net) option"

abbreviation rpcb :: "('x, 'm) raw_net \<Rightarrow> nat \<Rightarrow> raw_pcb" where
  "rpcb s \<equiv> raw_tab (n_dev s)"

definition upd_raw :: "(('x, 'm) raw_vars_scheme \<Rightarrow> ('x, 'm) raw_vars_scheme) \<Rightarrow> ('x, 'm) raw_net \<Rightarrow> ('x, 'm) raw_net" where
  "upd_raw f s = s\<lparr>n_dev := f (n_dev s)\<rparr>"

definition upd_rpcb :: "nat \<Rightarrow> (raw_pcb \<Rightarrow> raw_pcb) \<Rightarrow> ('x, 'm) raw_net \<Rightarrow> ('x, 'm) raw_net" where
  "upd_rpcb i f = upd_raw (\<lambda>v. v\<lparr>raw_tab := (raw_tab v)(i := f (raw_tab v i))\<rparr>)"

section \<open>Receiving\<close>

definition raw_matches :: "raw_pcb \<Rightarrow> u8_t \<Rightarrow> u32_t \<Rightarrow> bool" where
  "raw_matches b proto dest \<longleftrightarrow> r_protocol b = proto \<and> (r_local_ip b = IPADDR_ANY \<or> r_local_ip b = dest)"

definition raw_to_front :: "nat option \<Rightarrow> nat \<Rightarrow> ('x, 'm) raw_net \<Rightarrow> ('x, 'm) raw_net" where
  "raw_to_front prev i s =
     (case prev of None \<Rightarrow> s
      | Some v \<Rightarrow>
          let s = upd_rpcb v (\<lambda>b. b\<lparr>r_next := r_next (rpcb s i)\<rparr>) s;
              s = upd_rpcb i (\<lambda>b. b\<lparr>r_next := raw_pcbs (n_dev s)\<rparr>) s
          in upd_raw (\<lambda>v. v\<lparr>raw_pcbs := Some i\<rparr>) s)"

partial_function (option) raw_input_loop ::
    "('x, 'm) raw_vars_scheme raw_app \<Rightarrow> ptr \<Rightarrow> u8_t \<Rightarrow> nat option \<Rightarrow> nat option \<Rightarrow>
     ('x, 'm) raw_net \<Rightarrow> (bool \<times> ('x, 'm) raw_net) option" where
  "raw_input_loop a p proto pcb prev s =
     (case pcb of None \<Rightarrow> Some (False, s)
      | Some i \<Rightarrow> do {
          (eaten, s) \<leftarrow>
            (if raw_matches (rpcb s i) proto (current_dest (n_dev s))
             then (case r_recv (rpcb s i) of
                 None \<Rightarrow> Some (False, s)
               | Some f \<Rightarrow> do {
                   (e, s) \<leftarrow> raw_recv_fn a f (r_recv_arg (rpcb s i)) i p (current_src (n_dev s)) s;
                   Some (e, if e then raw_to_front prev i s else s)
                 })
             else Some (False, s));
          if eaten then Some (True, s) else raw_input_loop a p proto (r_next (rpcb s i)) (Some i) s
        })"

definition raw_input ::
    "('x, 'm) raw_vars_scheme raw_app \<Rightarrow> ptr \<Rightarrow> netif \<Rightarrow> ('x, 'm) raw_net \<Rightarrow> (bool \<times> ('x, 'm) raw_net) option" where
  "raw_input a p inp s =
     raw_input_loop a p (get8 (payload_of p s) IPH_PROTO (n_mem s)) (raw_pcbs (n_dev s)) None s"

section \<open>Sending and configuration\<close>

definition raw_bind :: "nat \<Rightarrow> u32_t \<Rightarrow> ('x, 'm) raw_net \<Rightarrow> err_t \<times> ('x, 'm) raw_net" where
  "raw_bind i ipaddr s = (ERR_OK, upd_rpcb i (\<lambda>b. b\<lparr>r_local_ip := ipaddr\<rparr>) s)"

definition raw_connect :: "nat \<Rightarrow> u32_t \<Rightarrow> ('x, 'm) raw_net \<Rightarrow> err_t \<times> ('x, 'm) raw_net" where
  "raw_connect i ipaddr s = (ERR_OK, upd_rpcb i (\<lambda>b. b\<lparr>r_remote_ip := ipaddr\<rparr>) s)"

definition raw_recv :: "nat \<Rightarrow> nat option \<Rightarrow> nat \<Rightarrow> ('x, 'm) raw_net \<Rightarrow> ('x, 'm) raw_net" where
  "raw_recv i recv recv_arg s = upd_rpcb i (\<lambda>b. b\<lparr>r_recv := recv, r_recv_arg := recv_arg\<rparr>) s"

text \<open>
  The pbuf whose payload is the room for a header of \<open>n\<close> bytes in front of \<open>p\<close>: \<open>p\<close> itself, or a new
  pbuf of \<open>n'\<close> bytes that \<open>p\<close> is chained to.  The flag tells whether \<open>p\<close> had the room.
\<close>

definition header_room :: "custom_free \<Rightarrow> ptr \<Rightarrow> int \<Rightarrow> int \<Rightarrow> pstate \<Rightarrow> (bool \<times> ptr option \<times> pstate) option" where
  "header_room cf p n n' m =
     (case pbuf_header (Some p) n m of
        (False, m) \<Rightarrow> Some (True, Some p, m)
      | (True, m) \<Rightarrow> do {
          (q, m) \<leftarrow> pbuf_alloc cf PBUF_IP n' PBUF_RAM m;
          case q of
            None \<Rightarrow> Some (False, None, m)
          | Some q \<Rightarrow>
              if pb_tot_len (p_pbufs m p) \<noteq> 0
              then do { m \<leftarrow> pbuf_chain (Some q) (Some p) m; Some (False, Some q, m) }
              else Some (False, Some q, m)
        })"

definition free_header :: "('x, 'm) ip_link \<Rightarrow> ptr \<Rightarrow> ptr \<Rightarrow> ('x, 'm) ip_net \<Rightarrow> ('x, 'm) ip_net option" where
  "free_header l q p s = (if q \<noteq> p then free_mem l (Some q) s else Some s)"

definition raw_sendto ::
    "('x, 'm) raw_vars_scheme link_if \<Rightarrow> nat \<Rightarrow> ptr \<Rightarrow> u32_t \<Rightarrow> ('x, 'm) raw_net \<Rightarrow> (err_t \<times> ('x, 'm) raw_net) option" where
  "raw_sendto l i p ipaddr s = do {
     (room, q, m) \<leftarrow> header_room (custom_free l) p IP_HLEN 0 (n_mem s);
     case q of
       None \<Rightarrow> Some (ERR_MEM, set_mem m s)
     | Some q \<Rightarrow>
         let (stuck, m) = (if room then pbuf_header (Some q) (- IP_HLEN) m else (False, m));
             s = set_mem m s
         in if stuck then Some (ERR_MEM, s)
            else case ip_route ipaddr s of
              None \<Rightarrow> do { s \<leftarrow> free_header l q p s; Some (ERR_RTE, s) }
            | Some netif \<Rightarrow> do {
                let b = rpcb s i;
                let src_ip = (if r_local_ip b = IPADDR_ANY then nif_ip_addr netif else r_local_ip b);
                (err, s) \<leftarrow> ip_output_if l q src_ip (Some ipaddr) (r_ttl b) (r_tos b) (r_protocol b) netif s;
                s \<leftarrow> free_header l q p s;
                Some (err, s)
              }
   }"

definition raw_send ::
    "('x, 'm) raw_vars_scheme link_if \<Rightarrow> nat \<Rightarrow> ptr \<Rightarrow> ('x, 'm) raw_net \<Rightarrow> (err_t \<times> ('x, 'm) raw_net) option" where
  "raw_send l i p s = raw_sendto l i p (r_remote_ip (rpcb s i)) s"

section \<open>Creation and removal\<close>

partial_function (option) raw_unlink_loop :: "nat \<Rightarrow> nat option \<Rightarrow> ('x, 'm) raw_net \<Rightarrow> ('x, 'm) raw_net option" where
  "raw_unlink_loop i pcb2 s =
     (case pcb2 of None \<Rightarrow> Some s
      | Some j \<Rightarrow>
          let s = (if r_next (rpcb s j) = Some i then upd_rpcb j (\<lambda>b. b\<lparr>r_next := r_next (rpcb s i)\<rparr>) s else s)
          in raw_unlink_loop i (r_next (rpcb s j)) s)"

definition raw_remove :: "nat \<Rightarrow> ('x, 'm) raw_net \<Rightarrow> ('x, 'm) raw_net option" where
  "raw_remove i s = do {
     s \<leftarrow> (if raw_pcbs (n_dev s) = Some i
            then Some (upd_raw (\<lambda>v. v\<lparr>raw_pcbs := r_next (raw_tab v i)\<rparr>) s)
            else raw_unlink_loop i (raw_pcbs (n_dev s)) s);
     Some (set_mem ((n_mem s)\<lparr>p_pools := memp_free MEMP_RAW_PCB (Some i) (p_pools (n_mem s))\<rparr>) s)
   }"

definition RAW_TTL :: u8_t where "RAW_TTL = 255"

definition raw_new :: "u8_t \<Rightarrow> ('x, 'm) raw_net \<Rightarrow> nat option \<times> ('x, 'm) raw_net" where
  "raw_new proto s =
     (case memp_malloc MEMP_RAW_PCB (p_pools (n_mem s)) of
        (None, ps) \<Rightarrow> (None, set_mem ((n_mem s)\<lparr>p_pools := ps\<rparr>) s)
      | (Some i, ps) \<Rightarrow>
          let s = set_mem ((n_mem s)\<lparr>p_pools := ps\<rparr>) s;
              s = upd_rpcb i (\<lambda>b. \<lparr>r_local_ip = 0, r_remote_ip = 0, r_so_options = 0, r_tos = 0, r_ttl = RAW_TTL,
                    r_next = raw_pcbs (n_dev s), r_protocol = proto, r_recv = None, r_recv_arg = 0\<rparr>) s
          in (Some i, upd_raw (\<lambda>v. v\<lparr>raw_pcbs := Some i\<rparr>) s))"

end
