(* ===== verification/Udp.thy ===== *)
theory Udp
  imports Raw
begin

text \<open>
  UDP: \<open>core/udp.c\<close>, with the checksums left to the hardware and neither UDP-Lite, IGMP nor the
  socket options of broadcasts compiled in, as this port does.  The control blocks are the elements
  of the pool \<open>UDP_PCB\<close>, linked through \<open>u_next\<close>.  A receive callback is a name; what it does is a
  field of the record \<open>udp_app\<close>.  \<open>dhcp_pcb\<close> is \<open>netif->dhcp->pcb\<close> of an interface, if both exist.
\<close>

section \<open>State\<close>

record udp_pcb =
  u_local_ip :: u32_t
  u_remote_ip :: u32_t
  u_so_options :: u8_t
  u_tos :: u8_t
  u_ttl :: u8_t
  u_next :: "nat option"
  u_flags :: u8_t
  u_local_port :: u16_t
  u_remote_port :: u16_t
  u_recv :: "nat option"
  u_recv_arg :: nat

record 'x udp_vars = "'x raw_vars" +
  udp_port :: u16_t
  udp_pcbs :: "nat option"
  udp_tab :: "nat \<Rightarrow> udp_pcb"
  dhcp_pcb :: "int \<Rightarrow> nat option"

type_synonym ('x, 'm) udp_net = "('x, 'm) udp_vars_scheme net"
type_synonym ('x, 'm) udp_link = "('x, 'm) udp_vars_scheme link_if"

record 'd udp_app =
  udp_recv_fn :: "nat \<Rightarrow> nat \<Rightarrow> nat \<Rightarrow> ptr \<Rightarrow> u32_t \<Rightarrow> u16_t \<Rightarrow> 'd net \<Rightarrow> 'd net option"

abbreviation upcb :: "('x, 'm) udp_net \<Rightarrow> nat \<Rightarrow> udp_pcb" where
  "upcb s \<equiv> udp_tab (n_dev s)"

definition upd_udp :: "(('x, 'm) udp_vars_scheme \<Rightarrow> ('x, 'm) udp_vars_scheme) \<Rightarrow> ('x, 'm) udp_net \<Rightarrow> ('x, 'm) udp_net" where
  "upd_udp f s = s\<lparr>n_dev := f (n_dev s)\<rparr>"

definition upd_upcb :: "nat \<Rightarrow> (udp_pcb \<Rightarrow> udp_pcb) \<Rightarrow> ('x, 'm) udp_net \<Rightarrow> ('x, 'm) udp_net" where
  "upd_upcb i f = upd_udp (\<lambda>v. v\<lparr>udp_tab := (udp_tab v)(i := f (udp_tab v i))\<rparr>)"

definition UDP_LOCAL_PORT_RANGE_START :: u16_t where "UDP_LOCAL_PORT_RANGE_START = 0xc000"
definition UDP_LOCAL_PORT_RANGE_END :: u16_t where "UDP_LOCAL_PORT_RANGE_END = 0xffff"
definition UDP_FLAGS_CONNECTED :: u8_t where "UDP_FLAGS_CONNECTED = 0x04"
definition UDP_HLEN :: int where "UDP_HLEN = 8"
definition UDP_TTL :: u8_t where "UDP_TTL = 255"

text \<open>\<open>struct udp_hdr\<close>.\<close>

definition UDPH_SRC :: int where "UDPH_SRC = 0"
definition UDPH_DEST :: int where "UDPH_DEST = 2"
definition UDPH_LEN :: int where "UDPH_LEN = 4"
definition UDPH_CHKSUM :: int where "UDPH_CHKSUM = 6"

section \<open>Ports\<close>

text \<open>The walk of \<open>udp_new_port\<close>: some control block uses the port.\<close>

partial_function (option) udp_port_used :: "u16_t \<Rightarrow> nat option \<Rightarrow> ('x, 'm) udp_net \<Rightarrow> bool option" where
  "udp_port_used port pcb s =
     (case pcb of None \<Rightarrow> Some False
      | Some i \<Rightarrow> if u_local_port (upcb s i) = port then Some True else udp_port_used port (u_next (upcb s i)) s)"

definition udp_next_port :: "u16_t \<Rightarrow> u16_t" where
  "udp_next_port port = (if port = UDP_LOCAL_PORT_RANGE_END then UDP_LOCAL_PORT_RANGE_START else port + 1)"

partial_function (option) udp_new_port_loop :: "int \<Rightarrow> ('x, 'm) udp_net \<Rightarrow> (u16_t \<times> ('x, 'm) udp_net) option" where
  "udp_new_port_loop n s =
     (let s = upd_udp (\<lambda>v. v\<lparr>udp_port := udp_next_port (udp_port v)\<rparr>) s in do {
        used \<leftarrow> udp_port_used (udp_port (n_dev s)) (udp_pcbs (n_dev s)) s;
        if used
        then let n = c_u16 (n + 1) in
          if n > uint (UDP_LOCAL_PORT_RANGE_END - UDP_LOCAL_PORT_RANGE_START) then Some (0, s) else udp_new_port_loop n s
        else Some (udp_port (n_dev s), s)
      })"

definition udp_new_port :: "('x, 'm) udp_net \<Rightarrow> (u16_t \<times> ('x, 'm) udp_net) option" where
  "udp_new_port s = udp_new_port_loop 0 s"

section \<open>Configuration\<close>

text \<open>The check of \<open>udp_bind\<close>: \<open>None\<close> as the inner result is \<open>ERR_USE\<close>, else it is \<open>rebind\<close>.\<close>

partial_function (option) udp_bind_check ::
    "nat \<Rightarrow> u32_t \<Rightarrow> u16_t \<Rightarrow> nat option \<Rightarrow> bool \<Rightarrow> ('x, 'm) udp_net \<Rightarrow> bool option option" where
  "udp_bind_check pcb ipaddr port ipcb rebind s =
     (case ipcb of None \<Rightarrow> Some (Some rebind)
      | Some i \<Rightarrow>
          let b = upcb s i
          in if pcb = i then udp_bind_check pcb ipaddr port (u_next b) True s
             else if u_local_port b = port \<and> (u_local_ip b = IPADDR_ANY \<or> ipaddr = IPADDR_ANY \<or> u_local_ip b = ipaddr)
             then Some None
             else udp_bind_check pcb ipaddr port (u_next b) rebind s)"

definition udp_insert :: "nat \<Rightarrow> ('x, 'm) udp_net \<Rightarrow> ('x, 'm) udp_net" where
  "udp_insert i s = upd_udp (\<lambda>v. v\<lparr>udp_pcbs := Some i\<rparr>) (upd_upcb i (\<lambda>b. b\<lparr>u_next := udp_pcbs (n_dev s)\<rparr>) s)"

definition udp_bind :: "nat \<Rightarrow> u32_t \<Rightarrow> u16_t \<Rightarrow> ('x, 'm) udp_net \<Rightarrow> (err_t \<times> ('x, 'm) udp_net) option" where
  "udp_bind pcb ipaddr port s = do {
     r \<leftarrow> udp_bind_check pcb ipaddr port (udp_pcbs (n_dev s)) False s;
     case r of
       None \<Rightarrow> Some (ERR_USE, s)
     | Some rebind \<Rightarrow> do {
         let s = upd_upcb pcb (\<lambda>b. b\<lparr>u_local_ip := ipaddr\<rparr>) s;
         (new_port, s) \<leftarrow> (if port = 0 then udp_new_port s else Some (port, s));
         if new_port = 0 then Some (ERR_USE, s)
         else let s = upd_upcb pcb (\<lambda>b. b\<lparr>u_local_port := new_port\<rparr>) s
              in Some (ERR_OK, if \<not> rebind then udp_insert pcb s else s)
       }
   }"

partial_function (option) udp_listed :: "nat \<Rightarrow> nat option \<Rightarrow> ('x, 'm) udp_net \<Rightarrow> bool option" where
  "udp_listed pcb ipcb s =
     (case ipcb of None \<Rightarrow> Some False
      | Some i \<Rightarrow> if pcb = i then Some True else udp_listed pcb (u_next (upcb s i)) s)"

definition udp_connect :: "nat \<Rightarrow> u32_t \<Rightarrow> u16_t \<Rightarrow> ('x, 'm) udp_net \<Rightarrow> (err_t \<times> ('x, 'm) udp_net) option" where
  "udp_connect pcb ipaddr port s = do {
     (err, s) \<leftarrow>
       (if u_local_port (upcb s pcb) = 0
        then udp_bind pcb (u_local_ip (upcb s pcb)) (u_local_port (upcb s pcb)) s
        else Some (ERR_OK, s));
     if err \<noteq> ERR_OK then Some (err, s)
     else do {
       let s = upd_upcb pcb (\<lambda>b. b\<lparr>u_remote_ip := ipaddr, u_remote_port := port, u_flags := u_flags b OR UDP_FLAGS_CONNECTED\<rparr>) s;
       listed \<leftarrow> udp_listed pcb (udp_pcbs (n_dev s)) s;
       Some (ERR_OK, if listed then s else udp_insert pcb s)
     }
   }"

definition udp_disconnect :: "nat \<Rightarrow> ('x, 'm) udp_net \<Rightarrow> ('x, 'm) udp_net" where
  "udp_disconnect pcb =
     upd_upcb pcb (\<lambda>b. b\<lparr>u_remote_ip := IPADDR_ANY, u_remote_port := 0, u_flags := u_flags b AND NOT UDP_FLAGS_CONNECTED\<rparr>)"

definition udp_recv :: "nat \<Rightarrow> nat option \<Rightarrow> nat \<Rightarrow> ('x, 'm) udp_net \<Rightarrow> ('x, 'm) udp_net" where
  "udp_recv pcb recv recv_arg = upd_upcb pcb (\<lambda>b. b\<lparr>u_recv := recv, u_recv_arg := recv_arg\<rparr>)"

partial_function (option) udp_unlink_loop :: "nat \<Rightarrow> nat option \<Rightarrow> ('x, 'm) udp_net \<Rightarrow> ('x, 'm) udp_net option" where
  "udp_unlink_loop pcb pcb2 s =
     (case pcb2 of None \<Rightarrow> Some s
      | Some j \<Rightarrow>
          let s = (if u_next (upcb s j) = Some pcb then upd_upcb j (\<lambda>b. b\<lparr>u_next := u_next (upcb s pcb)\<rparr>) s else s)
          in udp_unlink_loop pcb (u_next (upcb s j)) s)"

definition udp_remove :: "nat \<Rightarrow> ('x, 'm) udp_net \<Rightarrow> ('x, 'm) udp_net option" where
  "udp_remove pcb s = do {
     s \<leftarrow> (if udp_pcbs (n_dev s) = Some pcb
            then Some (upd_udp (\<lambda>v. v\<lparr>udp_pcbs := u_next (udp_tab v pcb)\<rparr>) s)
            else udp_unlink_loop pcb (udp_pcbs (n_dev s)) s);
     Some (set_mem ((n_mem s)\<lparr>p_pools := memp_free MEMP_UDP_PCB (Some pcb) (p_pools (n_mem s))\<rparr>) s)
   }"

definition udp_pcb_zero :: udp_pcb where
  "udp_pcb_zero = \<lparr>u_local_ip = 0, u_remote_ip = 0, u_so_options = 0, u_tos = 0, u_ttl = 0, u_next = None, u_flags = 0,
     u_local_port = 0, u_remote_port = 0, u_recv = None, u_recv_arg = 0\<rparr>"

definition udp_new :: "('x, 'm) udp_net \<Rightarrow> nat option \<times> ('x, 'm) udp_net" where
  "udp_new s =
     (case memp_malloc MEMP_UDP_PCB (p_pools (n_mem s)) of
        (pcb, ps) \<Rightarrow>
          let s = set_mem ((n_mem s)\<lparr>p_pools := ps\<rparr>) s
          in (pcb, case pcb of None \<Rightarrow> s | Some i \<Rightarrow> upd_upcb i (\<lambda>b. udp_pcb_zero\<lparr>u_ttl := UDP_TTL\<rparr>) s))"

section \<open>Receiving\<close>

definition udp_local_match :: "udp_pcb \<Rightarrow> u16_t \<Rightarrow> bool \<Rightarrow> u32_t \<Rightarrow> netif \<Rightarrow> bool" where
  "udp_local_match b dest broadcast cdest inp \<longleftrightarrow>
     u_local_port b = dest \<and>
     (\<not> broadcast \<and> u_local_ip b = IPADDR_ANY \<or> u_local_ip b = cdest \<or>
      broadcast \<and> (u_local_ip b = IPADDR_ANY \<or> ip_addr_netcmp (u_local_ip b) cdest (nif_netmask inp)))"

definition udp_remote_match :: "udp_pcb \<Rightarrow> u16_t \<Rightarrow> u32_t \<Rightarrow> bool" where
  "udp_remote_match b src csrc \<longleftrightarrow> u_remote_port b = src \<and> (u_remote_ip b = IPADDR_ANY \<or> u_remote_ip b = csrc)"

definition udp_connected :: "udp_pcb \<Rightarrow> bool" where
  "udp_connected b \<longleftrightarrow> u_flags b AND UDP_FLAGS_CONNECTED \<noteq> 0"

definition udp_to_front :: "nat option \<Rightarrow> nat \<Rightarrow> ('x, 'm) udp_net \<Rightarrow> ('x, 'm) udp_net" where
  "udp_to_front prev i s =
     (case prev of None \<Rightarrow> s
      | Some v \<Rightarrow> udp_insert i (upd_upcb v (\<lambda>b. b\<lparr>u_next := u_next (upcb s i)\<rparr>) s))"

partial_function (option) udp_search ::
    "u16_t \<Rightarrow> u16_t \<Rightarrow> bool \<Rightarrow> netif \<Rightarrow> nat option \<Rightarrow> nat option \<Rightarrow> nat option \<Rightarrow>
     ('x, 'm) udp_net \<Rightarrow> (nat option \<times> ('x, 'm) udp_net) option" where
  "udp_search src dest broadcast inp pcb prev uncon_pcb s =
     (case pcb of None \<Rightarrow> Some (uncon_pcb, s)
      | Some i \<Rightarrow>
          let b = upcb s i;
              local_match = udp_local_match b dest broadcast (current_dest (n_dev s)) inp;
              uncon_pcb = (if local_match \<and> uncon_pcb = None \<and> \<not> udp_connected b then Some i else uncon_pcb)
          in if local_match \<and> udp_remote_match b src (current_src (n_dev s))
             then Some (Some i, udp_to_front prev i s)
             else udp_search src dest broadcast inp (u_next b) (Some i) uncon_pcb s)"

definition udp_dhcp_pcb :: "u16_t \<Rightarrow> netif \<Rightarrow> ('x, 'm) udp_net \<Rightarrow> nat option" where
  "udp_dhcp_pcb src inp s =
     (if src = DHCP_SERVER_PORT
      then (case dhcp_pcb (n_dev s) (nif_num inp) of
              None \<Rightarrow> None
            | Some i \<Rightarrow>
                if u_remote_ip (upcb s i) = IPADDR_ANY \<or> u_remote_ip (upcb s i) = current_src (n_dev s) then Some i else None)
      else None)"

text \<open>The datagram, without its header, to its control block or, if there is none, the answer.\<close>

definition udp_deliver ::
    "('x, 'm) udp_link \<Rightarrow> ('x, 'm) udp_vars_scheme udp_app \<Rightarrow> nat option \<Rightarrow> ptr \<Rightarrow> ptr \<Rightarrow> u16_t \<Rightarrow> bool \<Rightarrow>
     ('x, 'm) udp_net \<Rightarrow> ('x, 'm) udp_net option" where
  "udp_deliver l a pcb p iphdr src broadcast s =
     (case pcb of
        Some i \<Rightarrow>
          (case u_recv (upcb s i) of
             Some f \<Rightarrow> udp_recv_fn a f (u_recv_arg (upcb s i)) i p (current_src (n_dev s)) src s
           | None \<Rightarrow> free_mem l (Some p) s)
      | None \<Rightarrow> do {
          s \<leftarrow>
            (if \<not> broadcast \<and> \<not> ip_addr_ismulticast (current_dest (n_dev s))
             then case pbuf_header (Some p) (IPH_HL iphdr (n_mem s) * 4 + UDP_HLEN) (n_mem s) of
                    (f, m) \<Rightarrow> icmp_dest_unreach l p ICMP_DUR_PORT (set_mem m s)
             else Some s);
          free_mem l (Some p) s
        })"

definition udp_input ::
    "('x, 'm) udp_link \<Rightarrow> ('x, 'm) udp_vars_scheme udp_app \<Rightarrow> ptr \<Rightarrow> netif \<Rightarrow> ('x, 'm) udp_net \<Rightarrow> ('x, 'm) udp_net option" where
  "udp_input l a p inp s =
     (let iphdr = payload_of p s;
          hlen = IPH_HL iphdr (n_mem s) * 4
      in if pb_tot_len (p_pbufs (n_mem s) p) < hlen + UDP_HLEN then free_mem l (Some p) s
         else case pbuf_header (Some p) (- hlen) (n_mem s) of
           (True, m) \<Rightarrow> free_mem l (Some p) (set_mem m s)
         | (False, m) \<Rightarrow>
             let s = set_mem m s;
                 udphdr = payload_of p s;
                 broadcast = ip4_addr_isbroadcast (current_dest (n_dev s)) inp;
                 src = lwip_ntohs (get16 udphdr UDPH_SRC m);
                 dest = lwip_ntohs (get16 udphdr UDPH_DEST m)
             in do {
               (pcb, s) \<leftarrow>
                 (if dest = DHCP_CLIENT_PORT then Some (udp_dhcp_pcb src inp s, s)
                  else udp_search src dest broadcast inp (udp_pcbs (n_dev s)) None None s);
               if pcb \<noteq> None \<or> nif_ip_addr inp = current_dest (n_dev s)
               then case pbuf_header (Some p) (- UDP_HLEN) (n_mem s) of
                   (True, m) \<Rightarrow> free_mem l (Some p) (set_mem m s)
                 | (False, m) \<Rightarrow> udp_deliver l a pcb p iphdr src broadcast (set_mem m s)
               else free_mem l (Some p) s
             })"

section \<open>Sending\<close>

definition udp_make_header :: "ptr \<Rightarrow> u16_t \<Rightarrow> u16_t \<Rightarrow> pstate \<Rightarrow> pstate" where
  "udp_make_header udphdr src dest m =
     put16 udphdr UDPH_CHKSUM 0 (put16 udphdr UDPH_DEST (lwip_htons dest) (put16 udphdr UDPH_SRC (lwip_htons src) m))"

definition udp_sendto_if ::
    "('x, 'm) udp_link \<Rightarrow> nat \<Rightarrow> ptr \<Rightarrow> u32_t \<Rightarrow> u16_t \<Rightarrow> netif \<Rightarrow>
     ('x, 'm) udp_net \<Rightarrow> (err_t \<times> ('x, 'm) udp_net) option" where
  "udp_sendto_if l pcb p dst_ip dst_port netif s = do {
     (err, s) \<leftarrow>
       (if u_local_port (upcb s pcb) = 0
        then udp_bind pcb (u_local_ip (upcb s pcb)) (u_local_port (upcb s pcb)) s
        else Some (ERR_OK, s));
     if err \<noteq> ERR_OK then Some (err, s)
     else do {
       (room, q, m) \<leftarrow> header_room (custom_free l) p UDP_HLEN UDP_HLEN (n_mem s);
       case q of
         None \<Rightarrow> Some (ERR_MEM, set_mem m s)
       | Some q \<Rightarrow>
           let b = upcb s pcb;
               udphdr = pb_payload (p_pbufs m q);
               m = udp_make_header udphdr (u_local_port b) dst_port m
           in if u_local_ip b \<noteq> IPADDR_ANY \<and> u_local_ip b \<noteq> nif_ip_addr netif
              then do { s \<leftarrow> free_header l q p (set_mem m s); Some (ERR_VAL, s) }
              else do {
                let src_ip = (if u_local_ip b = IPADDR_ANY then nif_ip_addr netif else u_local_ip b);
                let m = put16 udphdr UDPH_LEN (lwip_htons (word_of_int (pb_tot_len (p_pbufs m q)))) m;
                (err, s) \<leftarrow> ip_output_if l q src_ip (Some dst_ip) (u_ttl b) (u_tos b) IP_PROTO_UDP netif (set_mem m s);
                s \<leftarrow> free_header l q p s;
                Some (err, s)
              }
     }
   }"

definition udp_sendto ::
    "('x, 'm) udp_link \<Rightarrow> nat \<Rightarrow> ptr \<Rightarrow> u32_t \<Rightarrow> u16_t \<Rightarrow> ('x, 'm) udp_net \<Rightarrow> (err_t \<times> ('x, 'm) udp_net) option" where
  "udp_sendto l pcb p dst_ip dst_port s =
     (case ip_route dst_ip s of
        None \<Rightarrow> Some (ERR_RTE, s)
      | Some netif \<Rightarrow> udp_sendto_if l pcb p dst_ip dst_port netif s)"

definition udp_send :: "('x, 'm) udp_link \<Rightarrow> nat \<Rightarrow> ptr \<Rightarrow> ('x, 'm) udp_net \<Rightarrow> (err_t \<times> ('x, 'm) udp_net) option" where
  "udp_send l pcb p s = udp_sendto l pcb p (u_remote_ip (upcb s pcb)) (u_remote_port (upcb s pcb)) s"

text \<open>The upper layers as \<open>ip_input\<close> calls them; \<open>tcp_input\<close> remains a parameter.\<close>

definition upper_of ::
    "('x, 'm) udp_link \<Rightarrow> ('x, 'm) udp_vars_scheme raw_app \<Rightarrow> ('x, 'm) udp_vars_scheme udp_app \<Rightarrow>
     (ptr \<Rightarrow> netif \<Rightarrow> ('x, 'm) udp_net \<Rightarrow> ('x, 'm) udp_net option) \<Rightarrow> ('x, 'm) udp_vars_scheme upper_if" where
  "upper_of l ra ua tcp_input = \<lparr>up_raw_input = raw_input ra, up_udp_input = udp_input l ua, up_tcp_input = tcp_input\<rparr>"

end
