(* ===== verification/Tcp.thy ===== *)
theory Tcp
  imports Udp
begin

text \<open>
  The state of TCP and what its parts share: \<open>lwip/tcp.h\<close>, \<open>lwip/tcp_impl.h\<close> and the basic functions of
  \<open>core/tcp.c\<close>.  Connections, listening control blocks and segments are the elements of the pools
  \<open>TCP_PCB\<close>, \<open>TCP_PCB_LISTEN\<close> and \<open>TCP_SEG\<close>, linked through their \<open>next\<close> fields; headers and data lie in
  the memory of the pbufs.  Sequence numbers are words of 32 bits; the other counters are integers
  with their conversions written out.  Callbacks are names, and what they do is a record.  This
  port has neither out-of-sequence queue, timestamps, backlog nor address reuse, and leaves the
  checksum to the hardware.
\<close>

section \<open>Types\<close>

datatype tcp_state = CLOSED | LISTEN | SYN_SENT | SYN_RCVD | ESTABLISHED | FIN_WAIT_1 | FIN_WAIT_2 | CLOSE_WAIT
  | CLOSING | LAST_ACK | TIME_WAIT

fun tcp_state_num :: "tcp_state \<Rightarrow> nat" where
  "tcp_state_num CLOSED = 0"
| "tcp_state_num LISTEN = 1"
| "tcp_state_num SYN_SENT = 2"
| "tcp_state_num SYN_RCVD = 3"
| "tcp_state_num ESTABLISHED = 4"
| "tcp_state_num FIN_WAIT_1 = 5"
| "tcp_state_num FIN_WAIT_2 = 6"
| "tcp_state_num CLOSE_WAIT = 7"
| "tcp_state_num CLOSING = 8"
| "tcp_state_num LAST_ACK = 9"
| "tcp_state_num TIME_WAIT = 10"

lemma tcp_state_num_inj: "tcp_state_num a = tcp_state_num b \<longleftrightarrow> a = b"
  by (cases a; cases b) simp_all

instantiation tcp_state :: linorder
begin

definition less_eq_tcp_state :: "tcp_state \<Rightarrow> tcp_state \<Rightarrow> bool" where
  "less_eq_tcp_state a b \<longleftrightarrow> tcp_state_num a \<le> tcp_state_num b"

definition less_tcp_state :: "tcp_state \<Rightarrow> tcp_state \<Rightarrow> bool" where
  "less_tcp_state a b \<longleftrightarrow> tcp_state_num a < tcp_state_num b"

instance
  by standard (auto simp: less_eq_tcp_state_def less_tcp_state_def tcp_state_num_inj)

end

datatype tcp_accept_fn = Tcp_accept_null | Accept_app nat
datatype tcp_recv_fn = Tcp_recv_null | Recv_app nat

record tcp_pcb =
  t_local_ip :: u32_t
  t_remote_ip :: u32_t
  t_so_options :: u8_t
  t_tos :: u8_t
  t_ttl :: u8_t
  t_next :: "nat option"
  t_callback_arg :: nat
  t_accept :: "tcp_accept_fn option"
  t_state :: tcp_state
  t_prio :: int
  t_local_port :: u16_t
  t_remote_port :: u16_t
  t_flags :: u8_t
  t_polltmr :: int
  t_pollinterval :: int
  t_last_timer :: int
  t_tmr :: u32_t
  t_rcv_nxt :: u32_t
  t_rcv_wnd :: int
  t_rcv_ann_wnd :: int
  t_rcv_ann_right_edge :: u32_t
  t_rtime :: int
  t_mss :: int
  t_rttest :: u32_t
  t_rtseq :: u32_t
  t_sa :: int
  t_sv :: int
  t_rto :: int
  t_nrtx :: int
  t_dupacks :: int
  t_lastack :: u32_t
  t_cwnd :: int
  t_ssthresh :: int
  t_snd_nxt :: u32_t
  t_snd_wl1 :: u32_t
  t_snd_wl2 :: u32_t
  t_snd_lbb :: u32_t
  t_snd_wnd :: int
  t_snd_wnd_max :: int
  t_acked :: int
  t_snd_buf :: int
  t_snd_queuelen :: int
  t_unsent_oversize :: int
  t_unsent :: "nat option"
  t_unacked :: "nat option"
  t_refused_data :: "ptr option"
  t_sent :: "nat option"
  t_recv :: "tcp_recv_fn option"
  t_connected :: "nat option"
  t_poll :: "nat option"
  t_errf :: "nat option"
  t_keep_idle :: int
  t_persist_cnt :: int
  t_persist_backoff :: int
  t_keep_cnt_sent :: int

record tcp_pcb_listen =
  l_local_ip :: u32_t
  l_so_options :: u8_t
  l_tos :: u8_t
  l_ttl :: u8_t
  l_next :: "nat option"
  l_callback_arg :: nat
  l_accept :: "tcp_accept_fn option"
  l_state :: tcp_state
  l_prio :: int
  l_local_port :: u16_t

record tcp_seg =
  seg_next :: "nat option"
  seg_p :: "ptr option"
  seg_len :: int
  seg_flags :: u8_t
  seg_tcphdr :: ptr

text \<open>The variables of \<open>tcp.c\<close>, and those that \<open>tcp_input\<close> sets for the segment it works on.\<close>

record 'x tcp_vars = "'x udp_vars" +
  tcp_port :: u16_t
  tcp_ticks :: u32_t
  tcp_timer :: int
  tcp_timer_ctr :: int
  tcp_iss :: u32_t
  tcp_bound_pcbs :: "nat option"
  tcp_listen_pcbs :: "nat option"
  tcp_active_pcbs :: "nat option"
  tcp_tw_pcbs :: "nat option"
  tcp_active_pcbs_changed :: bool
  tcp_input_pcb :: "nat option"
  tcp_tab :: "nat \<Rightarrow> tcp_pcb"
  lpcb_tab :: "nat \<Rightarrow> tcp_pcb_listen"
  seg_tab :: "nat \<Rightarrow> tcp_seg"
  inseg_p :: "ptr option"
  inseg_len :: int
  in_tcphdr :: ptr
  in_seqno :: u32_t
  in_ackno :: u32_t
  in_flags :: u8_t
  in_tcplen :: int
  recv_flags :: u8_t
  recv_data :: "ptr option"

type_synonym ('x, 'm) tcp_net = "('x, 'm) tcp_vars_scheme net"
type_synonym ('x, 'm) tcp_link = "('x, 'm) tcp_vars_scheme link_if"

text \<open>The callbacks of the application, and \<open>tcp_timer_needed\<close> of \<open>timers.c\<close>.\<close>

record 'd tcp_app =
  app_accept :: "nat \<Rightarrow> nat \<Rightarrow> nat \<Rightarrow> err_t \<Rightarrow> 'd net \<Rightarrow> (err_t \<times> 'd net) option"
  app_sent :: "nat \<Rightarrow> nat \<Rightarrow> nat \<Rightarrow> int \<Rightarrow> 'd net \<Rightarrow> (err_t \<times> 'd net) option"
  app_recv :: "nat \<Rightarrow> nat \<Rightarrow> nat \<Rightarrow> ptr option \<Rightarrow> err_t \<Rightarrow> 'd net \<Rightarrow> (err_t \<times> 'd net) option"
  app_connected :: "nat \<Rightarrow> nat \<Rightarrow> nat \<Rightarrow> err_t \<Rightarrow> 'd net \<Rightarrow> (err_t \<times> 'd net) option"
  app_poll :: "nat \<Rightarrow> nat \<Rightarrow> nat \<Rightarrow> 'd net \<Rightarrow> (err_t \<times> 'd net) option"
  app_errf :: "nat \<Rightarrow> nat \<Rightarrow> err_t \<Rightarrow> 'd net \<Rightarrow> 'd net option"
  timer_needed :: "'d net \<Rightarrow> 'd net"

section \<open>Access\<close>

abbreviation tpcb :: "('x, 'm) tcp_net \<Rightarrow> nat \<Rightarrow> tcp_pcb" where
  "tpcb s \<equiv> tcp_tab (n_dev s)"

abbreviation lpcb :: "('x, 'm) tcp_net \<Rightarrow> nat \<Rightarrow> tcp_pcb_listen" where
  "lpcb s \<equiv> lpcb_tab (n_dev s)"

abbreviation tseg :: "('x, 'm) tcp_net \<Rightarrow> nat \<Rightarrow> tcp_seg" where
  "tseg s \<equiv> seg_tab (n_dev s)"

definition upd_tcp :: "(('x, 'm) tcp_vars_scheme \<Rightarrow> ('x, 'm) tcp_vars_scheme) \<Rightarrow> ('x, 'm) tcp_net \<Rightarrow> ('x, 'm) tcp_net" where
  "upd_tcp f s = s\<lparr>n_dev := f (n_dev s)\<rparr>"

definition upd_tpcb :: "nat \<Rightarrow> (tcp_pcb \<Rightarrow> tcp_pcb) \<Rightarrow> ('x, 'm) tcp_net \<Rightarrow> ('x, 'm) tcp_net" where
  "upd_tpcb i f = upd_tcp (\<lambda>v. v\<lparr>tcp_tab := (tcp_tab v)(i := f (tcp_tab v i))\<rparr>)"

definition upd_lpcb :: "nat \<Rightarrow> (tcp_pcb_listen \<Rightarrow> tcp_pcb_listen) \<Rightarrow> ('x, 'm) tcp_net \<Rightarrow> ('x, 'm) tcp_net" where
  "upd_lpcb i f = upd_tcp (\<lambda>v. v\<lparr>lpcb_tab := (lpcb_tab v)(i := f (lpcb_tab v i))\<rparr>)"

definition upd_seg :: "nat \<Rightarrow> (tcp_seg \<Rightarrow> tcp_seg) \<Rightarrow> ('x, 'm) tcp_net \<Rightarrow> ('x, 'm) tcp_net" where
  "upd_seg i f = upd_tcp (\<lambda>v. v\<lparr>seg_tab := (seg_tab v)(i := f (seg_tab v i))\<rparr>)"

definition upd_mem :: "(pstate \<Rightarrow> pstate) \<Rightarrow> 'd net \<Rightarrow> 'd net" where
  "upd_mem f s = s\<lparr>n_mem := f (n_mem s)\<rparr>"

definition set_pools :: "memp_state \<Rightarrow> 'd net \<Rightarrow> 'd net" where
  "set_pools ps = upd_mem (\<lambda>m. m\<lparr>p_pools := ps\<rparr>)"

definition c_s16 :: "int \<Rightarrow> int" where "c_s16 x = (x + 32768) mod 65536 - 32768"

section \<open>Configuration\<close>

definition TCP_MSS :: int where "TCP_MSS = 1460"
definition TCP_WND :: int where "TCP_WND = 2 * TCP_MSS"
definition TCP_SND_BUF :: int where "TCP_SND_BUF = 4 * TCP_MSS"
definition TCP_SND_QUEUELEN :: int where "TCP_SND_QUEUELEN = 2 * TCP_SND_BUF div TCP_MSS"
definition TCP_SNDQUEUELEN_OVERFLOW :: int where "TCP_SNDQUEUELEN_OVERFLOW = 0xffff - 3"
definition TCP_OVERSIZE :: int where "TCP_OVERSIZE = TCP_MSS"
definition TCP_TTL :: u8_t where "TCP_TTL = 255"
definition TCP_HLEN :: int where "TCP_HLEN = 20"
definition TCP_SLOW_INTERVAL :: int where "TCP_SLOW_INTERVAL = 2 * 250"

definition TF_ACK_DELAY :: u8_t where "TF_ACK_DELAY = 0x01"
definition TF_ACK_NOW :: u8_t where "TF_ACK_NOW = 0x02"
definition TF_INFR :: u8_t where "TF_INFR = 0x04"
definition TF_RXCLOSED :: u8_t where "TF_RXCLOSED = 0x10"
definition TF_FIN :: u8_t where "TF_FIN = 0x20"
definition TF_NODELAY :: u8_t where "TF_NODELAY = 0x40"
definition TF_NAGLEMEMERR :: u8_t where "TF_NAGLEMEMERR = 0x80"

definition TF_RESET :: u8_t where "TF_RESET = 0x08"
definition TF_CLOSED :: u8_t where "TF_CLOSED = 0x10"
definition TF_GOT_FIN :: u8_t where "TF_GOT_FIN = 0x20"

definition TF_SEG_OPTS_MSS :: u8_t where "TF_SEG_OPTS_MSS = 0x01"

definition SOF_ACCEPTCONN :: u8_t where "SOF_ACCEPTCONN = 0x02"
definition SOF_KEEPALIVE :: u8_t where "SOF_KEEPALIVE = 0x08"
definition SOF_INHERITED :: u8_t where "SOF_INHERITED = 0x04 OR SOF_KEEPALIVE OR 0x80"

definition LWIP_TCP_OPT_LENGTH :: "u8_t \<Rightarrow> int" where
  "LWIP_TCP_OPT_LENGTH flags = (if flags AND TF_SEG_OPTS_MSS \<noteq> 0 then 4 else 0)"

section \<open>Sequence numbers\<close>

definition TCP_SEQ_LT :: "u32_t \<Rightarrow> u32_t \<Rightarrow> bool" where "TCP_SEQ_LT a b \<longleftrightarrow> sint (a - b) < 0"
definition TCP_SEQ_LEQ :: "u32_t \<Rightarrow> u32_t \<Rightarrow> bool" where "TCP_SEQ_LEQ a b \<longleftrightarrow> sint (a - b) \<le> 0"
definition TCP_SEQ_GT :: "u32_t \<Rightarrow> u32_t \<Rightarrow> bool" where "TCP_SEQ_GT a b \<longleftrightarrow> sint (a - b) > 0"
definition TCP_SEQ_GEQ :: "u32_t \<Rightarrow> u32_t \<Rightarrow> bool" where "TCP_SEQ_GEQ a b \<longleftrightarrow> sint (a - b) \<ge> 0"

definition TCP_SEQ_BETWEEN :: "u32_t \<Rightarrow> u32_t \<Rightarrow> u32_t \<Rightarrow> bool" where
  "TCP_SEQ_BETWEEN a b c \<longleftrightarrow> TCP_SEQ_GEQ a b \<and> TCP_SEQ_LEQ a c"

section \<open>The TCP header\<close>

definition TCP_FIN :: u16_t where "TCP_FIN = 0x01"
definition TCP_SYN :: u16_t where "TCP_SYN = 0x02"
definition TCP_RST :: u16_t where "TCP_RST = 0x04"
definition TCP_PSH :: u16_t where "TCP_PSH = 0x08"
definition TCP_ACK :: u16_t where "TCP_ACK = 0x10"
definition TCP_FLAGS :: u16_t where "TCP_FLAGS = 0x3f"

definition TCPH_SRC :: int where "TCPH_SRC = 0"
definition TCPH_DEST :: int where "TCPH_DEST = 2"
definition TCPH_SEQNO :: int where "TCPH_SEQNO = 4"
definition TCPH_ACKNO :: int where "TCPH_ACKNO = 8"
definition TCPH_HDRLEN_RSVD_FLAGS :: int where "TCPH_HDRLEN_RSVD_FLAGS = 12"
definition TCPH_WND :: int where "TCPH_WND = 14"
definition TCPH_CHKSUM :: int where "TCPH_CHKSUM = 16"
definition TCPH_URGP :: int where "TCPH_URGP = 18"

lemmas tcph_offsets = TCPH_SRC_def TCPH_DEST_def TCPH_SEQNO_def TCPH_ACKNO_def TCPH_HDRLEN_RSVD_FLAGS_def TCPH_WND_def
  TCPH_CHKSUM_def TCPH_URGP_def

definition TCPH_HDRLEN :: "ptr \<Rightarrow> pstate \<Rightarrow> int" where
  "TCPH_HDRLEN h m = uint (drop_bit 12 (lwip_ntohs (get16 h TCPH_HDRLEN_RSVD_FLAGS m)))"

definition TCPH_FLAGS :: "ptr \<Rightarrow> pstate \<Rightarrow> u16_t" where
  "TCPH_FLAGS h m = lwip_ntohs (get16 h TCPH_HDRLEN_RSVD_FLAGS m) AND TCP_FLAGS"

definition TCPH_FLAGS_SET :: "ptr \<Rightarrow> u16_t \<Rightarrow> pstate \<Rightarrow> pstate" where
  "TCPH_FLAGS_SET h flags m =
     put16 h TCPH_HDRLEN_RSVD_FLAGS ((get16 h TCPH_HDRLEN_RSVD_FLAGS m AND lwip_htons (NOT TCP_FLAGS)) OR lwip_htons flags) m"

definition TCPH_HDRLEN_FLAGS_SET :: "ptr \<Rightarrow> int \<Rightarrow> u16_t \<Rightarrow> pstate \<Rightarrow> pstate" where
  "TCPH_HDRLEN_FLAGS_SET h len flags = put16 h TCPH_HDRLEN_RSVD_FLAGS (lwip_htons (push_bit 12 (word_of_int len) OR flags))"

definition TCPH_SET_FLAG :: "ptr \<Rightarrow> u16_t \<Rightarrow> pstate \<Rightarrow> pstate" where
  "TCPH_SET_FLAG h flags m = put16 h TCPH_HDRLEN_RSVD_FLAGS (get16 h TCPH_HDRLEN_RSVD_FLAGS m OR lwip_htons flags) m"

abbreviation seg_hdr_flags :: "('x, 'm) tcp_net \<Rightarrow> nat \<Rightarrow> u16_t" where
  "seg_hdr_flags s i \<equiv> TCPH_FLAGS (seg_tcphdr (tseg s i)) (n_mem s)"

definition seg_seqno :: "('x, 'm) tcp_net \<Rightarrow> nat \<Rightarrow> u32_t" where
  "seg_seqno s i = lwip_ntohl (get32 (seg_tcphdr (tseg s i)) TCPH_SEQNO (n_mem s))"

definition TCP_TCPLEN :: "('x, 'm) tcp_net \<Rightarrow> nat \<Rightarrow> int" where
  "TCP_TCPLEN s i = seg_len (tseg s i) + (if seg_hdr_flags s i AND (TCP_FIN OR TCP_SYN) \<noteq> 0 then 1 else 0)"

section \<open>Lists of control blocks\<close>

datatype tcp_list = Bound | Active | Time_wait

fun tcp_head :: "tcp_list \<Rightarrow> ('x, 'm) tcp_vars_scheme \<Rightarrow> nat option" where
  "tcp_head Bound v = tcp_bound_pcbs v"
| "tcp_head Active v = tcp_active_pcbs v"
| "tcp_head Time_wait v = tcp_tw_pcbs v"

fun set_tcp_head :: "tcp_list \<Rightarrow> nat option \<Rightarrow> ('x, 'm) tcp_vars_scheme \<Rightarrow> ('x, 'm) tcp_vars_scheme" where
  "set_tcp_head Bound p v = v\<lparr>tcp_bound_pcbs := p\<rparr>"
| "set_tcp_head Active p v = v\<lparr>tcp_active_pcbs := p\<rparr>"
| "set_tcp_head Time_wait p v = v\<lparr>tcp_tw_pcbs := p\<rparr>"

definition TCP_REG :: "('x, 'm) tcp_vars_scheme tcp_app \<Rightarrow> tcp_list \<Rightarrow> nat \<Rightarrow> ('x, 'm) tcp_net \<Rightarrow> ('x, 'm) tcp_net" where
  "TCP_REG a pcbs npcb s =
     timer_needed a (upd_tcp (set_tcp_head pcbs (Some npcb)) (upd_tpcb npcb (\<lambda>b. b\<lparr>t_next := tcp_head pcbs (n_dev s)\<rparr>) s))"

partial_function (option) tcp_rmv_loop :: "nat \<Rightarrow> nat option \<Rightarrow> ('x, 'm) tcp_net \<Rightarrow> ('x, 'm) tcp_net option" where
  "tcp_rmv_loop npcb tcp_tmp_pcb s =
     (case tcp_tmp_pcb of None \<Rightarrow> Some s
      | Some j \<Rightarrow>
          if t_next (tpcb s j) = Some npcb then Some (upd_tpcb j (\<lambda>b. b\<lparr>t_next := t_next (tpcb s npcb)\<rparr>) s)
          else tcp_rmv_loop npcb (t_next (tpcb s j)) s)"

definition TCP_RMV :: "tcp_list \<Rightarrow> nat \<Rightarrow> ('x, 'm) tcp_net \<Rightarrow> ('x, 'm) tcp_net option" where
  "TCP_RMV pcbs npcb s = do {
     s \<leftarrow> (if tcp_head pcbs (n_dev s) = Some npcb
            then Some (upd_tcp (set_tcp_head pcbs (t_next (tpcb s npcb))) s)
            else tcp_rmv_loop npcb (tcp_head pcbs (n_dev s)) s);
     Some (upd_tpcb npcb (\<lambda>b. b\<lparr>t_next := None\<rparr>) s)
   }"

definition set_changed :: "bool \<Rightarrow> ('x, 'm) tcp_net \<Rightarrow> ('x, 'm) tcp_net" where
  "set_changed c = upd_tcp (\<lambda>v. v\<lparr>tcp_active_pcbs_changed := c\<rparr>)"

definition TCP_REG_ACTIVE :: "('x, 'm) tcp_vars_scheme tcp_app \<Rightarrow> nat \<Rightarrow> ('x, 'm) tcp_net \<Rightarrow> ('x, 'm) tcp_net" where
  "TCP_REG_ACTIVE a npcb s = set_changed True (TCP_REG a Active npcb s)"

definition TCP_RMV_ACTIVE :: "nat \<Rightarrow> ('x, 'm) tcp_net \<Rightarrow> ('x, 'm) tcp_net option" where
  "TCP_RMV_ACTIVE npcb s = do { s \<leftarrow> TCP_RMV Active npcb s; Some (set_changed True s) }"

section \<open>Segments\<close>

definition tcp_seg_free :: "('x, 'm) tcp_link \<Rightarrow> nat \<Rightarrow> ('x, 'm) tcp_net \<Rightarrow> ('x, 'm) tcp_net option" where
  "tcp_seg_free l i s = do {
     s \<leftarrow> (case seg_p (tseg s i) of None \<Rightarrow> Some s | Some p \<Rightarrow> free_mem l (Some p) s);
     Some (set_pools (memp_free MEMP_TCP_SEG (Some i) (p_pools (n_mem s))) s)
   }"

partial_function (option) tcp_segs_free :: "('x, 'm) tcp_link \<Rightarrow> nat option \<Rightarrow> ('x, 'm) tcp_net \<Rightarrow> ('x, 'm) tcp_net option" where
  "tcp_segs_free l seg s =
     (case seg of None \<Rightarrow> Some s
      | Some i \<Rightarrow> do { let nxt = seg_next (tseg s i); s \<leftarrow> tcp_seg_free l i s; tcp_segs_free l nxt s })"

section \<open>Basic functions of \<open>tcp.c\<close>\<close>

definition tcp_next_iss :: "('x, 'm) tcp_net \<Rightarrow> u32_t \<times> ('x, 'm) tcp_net" where
  "tcp_next_iss s =
     (let s = upd_tcp (\<lambda>v. v\<lparr>tcp_iss := tcp_iss v + tcp_ticks v\<rparr>) s in (tcp_iss (n_dev s), s))"

definition tcp_eff_send_mss :: "int \<Rightarrow> u32_t \<Rightarrow> ('x, 'm) tcp_net \<Rightarrow> int" where
  "tcp_eff_send_mss sendmss addr s =
     (case ip_route addr s of
        None \<Rightarrow> sendmss
      | Some outif \<Rightarrow> if nif_mtu outif \<noteq> 0 then min sendmss (c_u16 (nif_mtu outif - IP_HLEN - TCP_HLEN)) else sendmss)"

text \<open>The announced window; the result is by how much the right edge would move if it were sent.\<close>

definition tcp_update_rcv_ann_wnd :: "nat \<Rightarrow> ('x, 'm) tcp_net \<Rightarrow> u32_t \<times> ('x, 'm) tcp_net" where
  "tcp_update_rcv_ann_wnd i s =
     (let b = tpcb s i;
          new_right_edge = t_rcv_nxt b + word_of_int (t_rcv_wnd b)
      in if TCP_SEQ_GEQ new_right_edge (t_rcv_ann_right_edge b + word_of_int (min (TCP_WND div 2) (t_mss b)))
         then (new_right_edge - t_rcv_ann_right_edge b, upd_tpcb i (\<lambda>b. b\<lparr>t_rcv_ann_wnd := t_rcv_wnd b\<rparr>) s)
         else if TCP_SEQ_GT (t_rcv_nxt b) (t_rcv_ann_right_edge b)
         then (0, upd_tpcb i (\<lambda>b. b\<lparr>t_rcv_ann_wnd := 0\<rparr>) s)
         else (0, upd_tpcb i (\<lambda>b. b\<lparr>t_rcv_ann_wnd := c_u16 (uint (t_rcv_ann_right_edge b - t_rcv_nxt b))\<rparr>) s))"

definition tcp_ack_now :: "nat \<Rightarrow> ('x, 'm) tcp_net \<Rightarrow> ('x, 'm) tcp_net" where
  "tcp_ack_now i = upd_tpcb i (\<lambda>b. b\<lparr>t_flags := t_flags b OR TF_ACK_NOW\<rparr>)"

definition tcp_ack :: "nat \<Rightarrow> ('x, 'm) tcp_net \<Rightarrow> ('x, 'm) tcp_net" where
  "tcp_ack i = upd_tpcb i (\<lambda>b.
     if t_flags b AND TF_ACK_DELAY \<noteq> 0 then b\<lparr>t_flags := (t_flags b AND NOT TF_ACK_DELAY) OR TF_ACK_NOW\<rparr>
     else b\<lparr>t_flags := t_flags b OR TF_ACK_DELAY\<rparr>)"

end
