(* ===== verification/TcpOut.thy ===== *)
theory TcpOut
  imports Tcp
begin

text \<open>
  TCP output: \<open>core/tcp_out.c\<close>.  Data to be sent is given by a pointer to memory of the application,
  which is copied or referenced as the caller asks.
\<close>

section \<open>Headers\<close>

definition tcp_output_alloc_header ::
    "('x, 'm) tcp_link \<Rightarrow> nat \<Rightarrow> int \<Rightarrow> int \<Rightarrow> u32_t \<Rightarrow> ('x, 'm) tcp_net \<Rightarrow> (ptr option \<times> ('x, 'm) tcp_net) option" where
  "tcp_output_alloc_header l i optlen datalen seqno_be s = do {
     (p, m) \<leftarrow> pbuf_alloc (custom_free l) PBUF_IP (c_u16 (TCP_HLEN + optlen + datalen)) PBUF_RAM (n_mem s);
     case p of
       None \<Rightarrow> Some (None, set_mem m s)
     | Some q \<Rightarrow>
         let b = tpcb s i;
             tcphdr = pb_payload (p_pbufs m q);
             m = put16 tcphdr TCPH_SRC (lwip_htons (t_local_port b)) m;
             m = put16 tcphdr TCPH_DEST (lwip_htons (t_remote_port b)) m;
             m = put32 tcphdr TCPH_SEQNO seqno_be m;
             m = put32 tcphdr TCPH_ACKNO (lwip_htonl (t_rcv_nxt b)) m;
             m = TCPH_HDRLEN_FLAGS_SET tcphdr (5 + optlen div 4) TCP_ACK m;
             m = put16 tcphdr TCPH_WND (lwip_htons (word_of_int (t_rcv_ann_wnd b))) m;
             m = put16 tcphdr TCPH_CHKSUM 0 m;
             m = put16 tcphdr TCPH_URGP 0 m
         in Some (Some q, upd_tpcb i (\<lambda>b. b\<lparr>t_rcv_ann_right_edge := t_rcv_nxt b + word_of_int (t_rcv_ann_wnd b)\<rparr>) (set_mem m s))
   }"

text \<open>Sending a packet without keeping it: \<open>ip_output\<close> and \<open>pbuf_free\<close>.\<close>

definition tcp_send_and_free ::
    "('x, 'm) tcp_link \<Rightarrow> ptr \<Rightarrow> u32_t \<Rightarrow> u32_t \<Rightarrow> u8_t \<Rightarrow> u8_t \<Rightarrow> ('x, 'm) tcp_net \<Rightarrow> ('x, 'm) tcp_net option" where
  "tcp_send_and_free l p src dest ttl tos s = do {
     (e, s) \<leftarrow> ip_output l p src dest ttl tos IP_PROTO_TCP s;
     free_mem l (Some p) s
   }"

definition tcp_rst ::
    "('x, 'm) tcp_link \<Rightarrow> u32_t \<Rightarrow> u32_t \<Rightarrow> u32_t \<Rightarrow> u32_t \<Rightarrow> u16_t \<Rightarrow> u16_t \<Rightarrow> ('x, 'm) tcp_net \<Rightarrow> ('x, 'm) tcp_net option" where
  "tcp_rst l seqno ackno local_ip remote_ip local_port remote_port s = do {
     (p, m) \<leftarrow> pbuf_alloc (custom_free l) PBUF_IP TCP_HLEN PBUF_RAM (n_mem s);
     case p of
       None \<Rightarrow> Some (set_mem m s)
     | Some q \<Rightarrow>
         let tcphdr = pb_payload (p_pbufs m q);
             m = put16 tcphdr TCPH_SRC (lwip_htons local_port) m;
             m = put16 tcphdr TCPH_DEST (lwip_htons remote_port) m;
             m = put32 tcphdr TCPH_SEQNO (lwip_htonl seqno) m;
             m = put32 tcphdr TCPH_ACKNO (lwip_htonl ackno) m;
             m = TCPH_HDRLEN_FLAGS_SET tcphdr (TCP_HLEN div 4) (TCP_RST OR TCP_ACK) m;
             m = put16 tcphdr TCPH_WND (lwip_htons (word_of_int TCP_WND)) m;
             m = put16 tcphdr TCPH_CHKSUM 0 m;
             m = put16 tcphdr TCPH_URGP 0 m
         in tcp_send_and_free l q local_ip remote_ip TCP_TTL 0 (set_mem m s)
   }"

definition tcp_send_empty_ack :: "('x, 'm) tcp_link \<Rightarrow> nat \<Rightarrow> ('x, 'm) tcp_net \<Rightarrow> (err_t \<times> ('x, 'm) tcp_net) option" where
  "tcp_send_empty_ack l i s = do {
     (p, s) \<leftarrow> tcp_output_alloc_header l i 0 0 (lwip_htonl (t_snd_nxt (tpcb s i))) s;
     case p of
       None \<Rightarrow> Some (ERR_BUF, s)
     | Some p \<Rightarrow> do {
         let s = upd_tpcb i (\<lambda>b. b\<lparr>t_flags := t_flags b AND NOT (TF_ACK_DELAY OR TF_ACK_NOW)\<rparr>) s;
         let b = tpcb s i;
         s \<leftarrow> tcp_send_and_free l p (t_local_ip b) (t_remote_ip b) (t_ttl b) (t_tos b) s;
         Some (ERR_OK, s)
       }
   }"

definition tcp_keepalive :: "('x, 'm) tcp_link \<Rightarrow> nat \<Rightarrow> ('x, 'm) tcp_net \<Rightarrow> ('x, 'm) tcp_net option" where
  "tcp_keepalive l i s = do {
     (p, s) \<leftarrow> tcp_output_alloc_header l i 0 0 (lwip_htonl (t_snd_nxt (tpcb s i) - 1)) s;
     case p of
       None \<Rightarrow> Some s
     | Some p \<Rightarrow> let b = tpcb s i in tcp_send_and_free l p (t_local_ip b) (t_remote_ip b) (t_ttl b) 0 s
   }"

definition tcp_zero_window_probe :: "('x, 'm) tcp_link \<Rightarrow> nat \<Rightarrow> ('x, 'm) tcp_net \<Rightarrow> ('x, 'm) tcp_net option" where
  "tcp_zero_window_probe l i s =
     (case (case t_unacked (tpcb s i) of None \<Rightarrow> t_unsent (tpcb s i) | Some k \<Rightarrow> Some k) of
        None \<Rightarrow> Some s
      | Some k \<Rightarrow>
          let is_fin = (seg_hdr_flags s k AND TCP_FIN \<noteq> 0 \<and> seg_len (tseg s k) = 0) in do {
            (p, s) \<leftarrow> tcp_output_alloc_header l i 0 (if is_fin then 0 else 1) (get32 (seg_tcphdr (tseg s k)) TCPH_SEQNO (n_mem s)) s;
            case p of
              None \<Rightarrow> Some s
            | Some p \<Rightarrow> do {
                let tcphdr = pb_payload (p_pbufs (n_mem s) p);
                s \<leftarrow>
                  (if is_fin then Some (upd_mem (TCPH_FLAGS_SET tcphdr (TCP_ACK OR TCP_FIN)) s)
                   else do {
                     q \<leftarrow> seg_p (tseg s k);
                     bs \<leftarrow> pbuf_copy_partial (Some q) 1 (c_u16 (pb_tot_len (p_pbufs (n_mem s) q) - seg_len (tseg s k))) (n_mem s);
                     Some (upd_mem (mem_write (ptr_add tcphdr TCP_HLEN) bs) s)
                   });
                let b = tpcb s i;
                tcp_send_and_free l p (t_local_ip b) (t_remote_ip b) (t_ttl b) 0 s
              }
          })"

section \<open>Queueing\<close>

text \<open>The last segment of a queue.\<close>

partial_function (option) last_seg :: "nat \<Rightarrow> ('x, 'm) tcp_net \<Rightarrow> nat option" where
  "last_seg k s = (case seg_next (tseg s k) of None \<Rightarrow> Some k | Some n \<Rightarrow> last_seg n s)"

definition tcp_create_segment ::
    "('x, 'm) tcp_link \<Rightarrow> nat \<Rightarrow> ptr \<Rightarrow> u16_t \<Rightarrow> u32_t \<Rightarrow> u8_t \<Rightarrow> ('x, 'm) tcp_net \<Rightarrow> (nat option \<times> ('x, 'm) tcp_net) option" where
  "tcp_create_segment l i p flags seqno optflags s =
     (let optlen = LWIP_TCP_OPT_LENGTH optflags in
      case memp_malloc MEMP_TCP_SEG (p_pools (n_mem s)) of
        (None, ps) \<Rightarrow> do { s \<leftarrow> free_mem l (Some p) (set_pools ps s); Some (None, s) }
      | (Some k, ps) \<Rightarrow>
          let s = set_pools ps s;
              s = upd_seg k (\<lambda>g. g\<lparr>seg_flags := optflags, seg_next := None, seg_p := Some p,
                    seg_len := c_u16 (pb_tot_len (p_pbufs (n_mem s) p) - optlen)\<rparr>) s
          in case pbuf_header (Some p) TCP_HLEN (n_mem s) of
               (True, m) \<Rightarrow> do { s \<leftarrow> tcp_seg_free l k (set_mem m s); Some (None, s) }
             | (False, m) \<Rightarrow>
                 let b = tpcb s i;
                     tcphdr = pb_payload (p_pbufs m p);
                     m = put16 tcphdr TCPH_SRC (lwip_htons (t_local_port b)) m;
                     m = put16 tcphdr TCPH_DEST (lwip_htons (t_remote_port b)) m;
                     m = put32 tcphdr TCPH_SEQNO (lwip_htonl seqno) m;
                     m = TCPH_HDRLEN_FLAGS_SET tcphdr (5 + optlen div 4) flags m;
                     m = put16 tcphdr TCPH_URGP 0 m
                 in Some (Some k, upd_seg k (\<lambda>g. g\<lparr>seg_tcphdr := tcphdr\<rparr>) (set_mem m s)))"

definition set_memerr :: "nat \<Rightarrow> ('x, 'm) tcp_net \<Rightarrow> ('x, 'm) tcp_net" where
  "set_memerr i = upd_tpcb i (\<lambda>b. b\<lparr>t_flags := t_flags b OR TF_NAGLEMEMERR\<rparr>)"

definition queue_full :: "int \<Rightarrow> bool" where
  "queue_full n \<longleftrightarrow> n \<ge> TCP_SND_QUEUELEN \<or> n > TCP_SNDQUEUELEN_OVERFLOW"

definition tcp_enqueue_flags ::
    "('x, 'm) tcp_link \<Rightarrow> nat \<Rightarrow> u16_t \<Rightarrow> ('x, 'm) tcp_net \<Rightarrow> (err_t \<times> ('x, 'm) tcp_net) option" where
  "tcp_enqueue_flags l i flags s =
     (let optflags = (if flags AND TCP_SYN \<noteq> 0 then TF_SEG_OPTS_MSS else 0) in
      if queue_full (t_snd_queuelen (tpcb s i)) then Some (ERR_MEM, set_memerr i s)
      else if t_snd_buf (tpcb s i) = 0 then Some (ERR_MEM, s)
      else do {
        (p, m) \<leftarrow> pbuf_alloc (custom_free l) PBUF_TRANSPORT (LWIP_TCP_OPT_LENGTH optflags) PBUF_RAM (n_mem s);
        case p of
          None \<Rightarrow> Some (ERR_MEM, set_memerr i (set_mem m s))
        | Some p \<Rightarrow> do {
            (seg, s) \<leftarrow> tcp_create_segment l i p flags (t_snd_lbb (tpcb s i)) optflags (set_mem m s);
            case seg of
              None \<Rightarrow> Some (ERR_MEM, set_memerr i s)
            | Some k \<Rightarrow> do {
                s \<leftarrow>
                  (case t_unsent (tpcb s i) of
                     None \<Rightarrow> Some (upd_tpcb i (\<lambda>b. b\<lparr>t_unsent := Some k\<rparr>) s)
                   | Some u \<Rightarrow> do { useg \<leftarrow> last_seg u s; Some (upd_seg useg (\<lambda>g. g\<lparr>seg_next := Some k\<rparr>) s) });
                let s = upd_tpcb i (\<lambda>b. b\<lparr>t_unsent_oversize := 0\<rparr>) s;
                let s = (if flags AND TCP_SYN \<noteq> 0 \<or> flags AND TCP_FIN \<noteq> 0
                         then upd_tpcb i (\<lambda>b. b\<lparr>t_snd_lbb := t_snd_lbb b + 1, t_snd_buf := c_u16 (t_snd_buf b - 1)\<rparr>) s else s);
                let s = (if flags AND TCP_FIN \<noteq> 0 then upd_tpcb i (\<lambda>b. b\<lparr>t_flags := t_flags b OR TF_FIN\<rparr>) s else s);
                n \<leftarrow> pbuf_clen (seg_p (tseg s k)) (n_mem s);
                Some (ERR_OK, upd_tpcb i (\<lambda>b. b\<lparr>t_snd_queuelen := c_u16 (t_snd_queuelen b + n)\<rparr>) s)
              }
          }
      })"

definition tcp_send_fin :: "('x, 'm) tcp_link \<Rightarrow> nat \<Rightarrow> ('x, 'm) tcp_net \<Rightarrow> (err_t \<times> ('x, 'm) tcp_net) option" where
  "tcp_send_fin l i s =
     (case t_unsent (tpcb s i) of
        None \<Rightarrow> tcp_enqueue_flags l i TCP_FIN s
      | Some u \<Rightarrow> do {
          last_unsent \<leftarrow> last_seg u s;
          if seg_hdr_flags s last_unsent AND (TCP_SYN OR TCP_FIN OR TCP_RST) = 0
          then Some (ERR_OK, upd_tpcb i (\<lambda>b. b\<lparr>t_flags := t_flags b OR TF_FIN\<rparr>)
                 (upd_mem (TCPH_SET_FLAG (seg_tcphdr (tseg s last_unsent)) TCP_FIN) s))
          else tcp_enqueue_flags l i TCP_FIN s
        })"

section \<open>\<open>tcp_write\<close>\<close>

definition TCP_WRITE_FLAG_COPY :: u8_t where "TCP_WRITE_FLAG_COPY = 0x01"
definition TCP_WRITE_FLAG_MORE :: u8_t where "TCP_WRITE_FLAG_MORE = 0x02"

text \<open>The pbuf and the room left behind the data in it.\<close>

definition tcp_pbuf_prealloc ::
    "('x, 'm) tcp_link \<Rightarrow> pbuf_layer \<Rightarrow> int \<Rightarrow> int \<Rightarrow> nat \<Rightarrow> u8_t \<Rightarrow> bool \<Rightarrow> ('x, 'm) tcp_net \<Rightarrow>
     ((ptr \<times> int) option \<times> ('x, 'm) tcp_net) option" where
  "tcp_pbuf_prealloc l layer len max_length i apiflags first_seg s =
     (let b = tpcb s i;
          alloc =
            (if len < max_length \<and>
                (apiflags AND TCP_WRITE_FLAG_MORE \<noteq> 0 \<or>
                 t_flags b AND TF_NODELAY = 0 \<and> (\<not> first_seg \<or> t_unsent b \<noteq> None \<or> t_unacked b \<noteq> None))
             then c_u16 (min max_length (LWIP_MEM_ALIGN_SIZE (len + TCP_OVERSIZE))) else len)
      in do {
        (p, m) \<leftarrow> pbuf_alloc (custom_free l) layer alloc PBUF_RAM (n_mem s);
        case p of
          None \<Rightarrow> Some (None, set_mem m s)
        | Some p \<Rightarrow>
            let oversize = c_u16 (pb_len (p_pbufs m p) - len)
            in Some (Some (p, oversize), set_mem (upd_pbuf p (\<lambda>x. x\<lparr>pb_tot_len := len, pb_len := len\<rparr>) m) s)
      })"

definition tcp_write_checks :: "nat \<Rightarrow> int \<Rightarrow> ('x, 'm) tcp_net \<Rightarrow> err_t \<times> ('x, 'm) tcp_net" where
  "tcp_write_checks i len s =
     (let b = tpcb s i in
      if t_state b \<noteq> ESTABLISHED \<and> t_state b \<noteq> CLOSE_WAIT \<and> t_state b \<noteq> SYN_SENT \<and> t_state b \<noteq> SYN_RCVD then (ERR_CONN, s)
      else if len = 0 then (ERR_OK, s)
      else if len > t_snd_buf b then (ERR_MEM, set_memerr i s)
      else if queue_full (t_snd_queuelen b) then (ERR_MEM, set_memerr i s)
      else (ERR_OK, s))"

text \<open>A pbuf with \<open>len\<close> bytes of the data at \<open>src\<close>, copied or referenced, and the room left behind them.\<close>

definition tcp_data_pbuf ::
    "('x, 'm) tcp_link \<Rightarrow> pbuf_layer \<Rightarrow> ptr \<Rightarrow> int \<Rightarrow> int \<Rightarrow> nat \<Rightarrow> u8_t \<Rightarrow> bool \<Rightarrow> int \<Rightarrow> ('x, 'm) tcp_net \<Rightarrow>
     ((ptr \<times> int) option \<times> ('x, 'm) tcp_net) option" where
  "tcp_data_pbuf l layer src len max_length i apiflags first_seg oversize s =
     (if apiflags AND TCP_WRITE_FLAG_COPY \<noteq> 0
      then do {
        (r, s) \<leftarrow> tcp_pbuf_prealloc l layer len max_length i apiflags first_seg s;
        case r of
          None \<Rightarrow> Some (None, s)
        | Some (p, oversize) \<Rightarrow> Some (Some (p, oversize), upd_mem (\<lambda>m. mem_copy (pb_payload (p_pbufs m p)) src len m) s)
      }
      else do {
        (p, m) \<leftarrow> pbuf_alloc (custom_free l) layer len PBUF_ROM (n_mem s);
        case p of
          None \<Rightarrow> Some (None, set_mem m s)
        | Some p \<Rightarrow> Some (Some (p, oversize), set_mem (upd_pbuf p (\<lambda>x. x\<lparr>pb_payload := src\<rparr>) m) s)
      })"

text \<open>
  Phases 1 and 2: the room left in the last unsent segment, and a pbuf to be chained to it.  The
  result is \<open>None\<close> for the jump to \<open>memerr\<close>, else whether data goes to that segment (\<open>seg\<close> is set), the
  pbuf, the rest of the room, how much of it is used, the position in the data and the queue length.
\<close>

definition tcp_write_last ::
    "('x, 'm) tcp_link \<Rightarrow> nat \<Rightarrow> nat \<Rightarrow> ptr \<Rightarrow> int \<Rightarrow> u8_t \<Rightarrow> int \<Rightarrow> ('x, 'm) tcp_net \<Rightarrow>
     ((bool \<times> ptr option \<times> int \<times> int \<times> int \<times> int) option \<times> ('x, 'm) tcp_net) option" where
  "tcp_write_last l i last_unsent arg len apiflags mss_local s =
     (let g = tseg s last_unsent;
          queuelen = t_snd_queuelen (tpcb s i);
          space = c_u16 (mss_local - (seg_len g + LWIP_TCP_OPT_LENGTH (seg_flags g)));
          oversize = t_unsent_oversize (tpcb s i);
          used = (if oversize > 0 then min oversize len else 0);
          pos = used;
          left = oversize - used;
          space = c_u16 (space - used)
      in if pos < len \<and> space > 0 \<and> seg_len g > 0
         then let seglen = min space (len - pos) in do {
           (r, s) \<leftarrow> tcp_data_pbuf l PBUF_RAW (ptr_add arg pos) seglen space i apiflags True left s;
           case r of
             None \<Rightarrow> Some (None, s)
           | Some (p, left) \<Rightarrow> do {
               n \<leftarrow> pbuf_clen (Some p) (n_mem s);
               Some (Some (True, Some p, left, used, c_u16 (pos + seglen), c_u16 (queuelen + n)), s)
             }
         }
         else Some (Some (oversize > 0, None, left, used, pos, queuelen), s))"

text \<open>Phase 3: new segments.  The result is whether all went well, the queue, the last segment made and so on.\<close>

partial_function (option) tcp_write_loop ::
    "('x, 'm) tcp_link \<Rightarrow> nat \<Rightarrow> ptr \<Rightarrow> int \<Rightarrow> u8_t \<Rightarrow> int \<Rightarrow> nat option \<Rightarrow> nat option \<Rightarrow> int \<Rightarrow> int \<Rightarrow> int \<Rightarrow> ('x, 'm) tcp_net \<Rightarrow>
     (bool \<times> nat option \<times> nat option \<times> int \<times> int \<times> ('x, 'm) tcp_net) option" where
  "tcp_write_loop l i arg len apiflags mss_local queue prev_seg pos oversize queuelen s =
     (if \<not> pos < len then Some (True, queue, prev_seg, oversize, queuelen, s)
      else
        let left = len - pos;
            seglen = (if left > mss_local then mss_local else left)
        in do {
          (r, s) \<leftarrow> tcp_data_pbuf l PBUF_TRANSPORT (ptr_add arg pos) seglen mss_local i apiflags (queue = None) oversize s;
          case r of
            None \<Rightarrow> Some (False, queue, prev_seg, oversize, queuelen, s)
          | Some (p, oversize) \<Rightarrow> do {
              (r, s) \<leftarrow>
                (if apiflags AND TCP_WRITE_FLAG_COPY \<noteq> 0 then Some (Some p, s)
                 else do {
                   (h, m) \<leftarrow> pbuf_alloc (custom_free l) PBUF_TRANSPORT 0 PBUF_RAM (n_mem s);
                   case h of
                     None \<Rightarrow> do { s \<leftarrow> free_mem l (Some p) (set_mem m s); Some (None, s) }
                   | Some h \<Rightarrow> do { m \<leftarrow> pbuf_cat (Some h) (Some p) m; Some (Some h, set_mem m s) }
                 });
              case r of
                None \<Rightarrow> Some (False, queue, prev_seg, oversize, queuelen, s)
              | Some p \<Rightarrow> do {
                  n \<leftarrow> pbuf_clen (Some p) (n_mem s);
                  let queuelen = c_u16 (queuelen + n);
                  if queuelen > TCP_SND_QUEUELEN \<or> queuelen > TCP_SNDQUEUELEN_OVERFLOW
                  then do { s \<leftarrow> free_mem l (Some p) s; Some (False, queue, prev_seg, oversize, queuelen, s) }
                  else do {
                    (seg, s) \<leftarrow> tcp_create_segment l i p 0 (t_snd_lbb (tpcb s i) + word_of_int pos) 0 s;
                    case seg of
                      None \<Rightarrow> Some (False, queue, prev_seg, oversize, queuelen, s)
                    | Some k \<Rightarrow> do {
                        s \<leftarrow>
                          (case queue of None \<Rightarrow> Some s
                           | Some q \<Rightarrow> do { pv \<leftarrow> prev_seg; Some (upd_seg pv (\<lambda>g. g\<lparr>seg_next := Some k\<rparr>) s) });
                        tcp_write_loop l i arg len apiflags mss_local (case queue of None \<Rightarrow> Some k | Some q \<Rightarrow> Some q) (Some k)
                          (c_u16 (pos + seglen)) oversize queuelen s
                      }
                  }
                }
            }
        })"

text \<open>The data for the room in the last segment is copied behind its last pbuf.\<close>

partial_function (option) tcp_extend_loop :: "ptr option \<Rightarrow> ptr \<Rightarrow> int \<Rightarrow> pstate \<Rightarrow> pstate option" where
  "tcp_extend_loop p arg used m =
     (case p of None \<Rightarrow> Some m
      | Some q \<Rightarrow>
          let m = upd_pbuf q (\<lambda>x. x\<lparr>pb_tot_len := c_u16 (pb_tot_len x + used)\<rparr>) m;
              b = p_pbufs m q;
              m = (if pb_next b = None
                   then upd_pbuf q (\<lambda>x. x\<lparr>pb_len := c_u16 (pb_len x + used)\<rparr>) (mem_copy (ptr_add (pb_payload b) (pb_len b)) arg used m)
                   else m)
          in tcp_extend_loop (pb_next b) arg used m)"

text \<open>The changes to the last unsent segment, after all memory has been allocated.\<close>

definition tcp_write_commit ::
    "nat \<Rightarrow> ptr option \<Rightarrow> int \<Rightarrow> ptr \<Rightarrow> ('x, 'm) tcp_net \<Rightarrow> ('x, 'm) tcp_net option" where
  "tcp_write_commit last_unsent concat_p used arg s = do {
     s \<leftarrow>
       (if used > 0
        then do {
          m \<leftarrow> tcp_extend_loop (seg_p (tseg s last_unsent)) arg used (n_mem s);
          Some (upd_seg last_unsent (\<lambda>g. g\<lparr>seg_len := c_u16 (seg_len g + used)\<rparr>) (set_mem m s))
        }
        else Some s);
     case concat_p of
       None \<Rightarrow> Some s
     | Some p \<Rightarrow> do {
         m \<leftarrow> pbuf_cat (seg_p (tseg s last_unsent)) (Some p) (n_mem s);
         Some (upd_seg last_unsent (\<lambda>g. g\<lparr>seg_len := c_u16 (seg_len g + pb_tot_len (p_pbufs m p))\<rparr>) (set_mem m s))
       }
   }"

definition tcp_write_fail ::
    "('x, 'm) tcp_link \<Rightarrow> nat \<Rightarrow> ptr option \<Rightarrow> nat option \<Rightarrow> ('x, 'm) tcp_net \<Rightarrow> (err_t \<times> ('x, 'm) tcp_net) option" where
  "tcp_write_fail l i concat_p queue s = do {
     let s = set_memerr i s;
     s \<leftarrow> (case concat_p of None \<Rightarrow> Some s | Some p \<Rightarrow> free_mem l (Some p) s);
     s \<leftarrow> (case queue of None \<Rightarrow> Some s | Some q \<Rightarrow> tcp_segs_free l (Some q) s);
     Some (ERR_MEM, s)
   }"

definition tcp_write ::
    "('x, 'm) tcp_link \<Rightarrow> nat \<Rightarrow> ptr option \<Rightarrow> int \<Rightarrow> u8_t \<Rightarrow> ('x, 'm) tcp_net \<Rightarrow> (err_t \<times> ('x, 'm) tcp_net) option" where
  "tcp_write l i data len apiflags s =
     (case data of
        None \<Rightarrow> Some (ERR_ARG, s)
      | Some arg \<Rightarrow>
          let mss_local = min (t_mss (tpcb s i)) (t_snd_wnd_max (tpcb s i) div 2);
              (err, s) = tcp_write_checks i len s
          in if err \<noteq> ERR_OK then Some (err, s)
             else do {
               last_unsent \<leftarrow> (case t_unsent (tpcb s i) of None \<Rightarrow> Some None | Some u \<Rightarrow> map_option Some (last_seg u s));
               (r, s) \<leftarrow>
                 (case last_unsent of
                    None \<Rightarrow> Some (Some (False, None, 0, 0, 0, t_snd_queuelen (tpcb s i)), s)
                  | Some u \<Rightarrow> tcp_write_last l i u arg len apiflags mss_local s);
               case r of
                 None \<Rightarrow> tcp_write_fail l i None None s
               | Some (in_last, concat_p, oversize, used, pos, queuelen) \<Rightarrow> do {
                   (ok, queue, last_new, oversize, queuelen, s) \<leftarrow>
                     tcp_write_loop l i arg len apiflags mss_local None None pos oversize queuelen s;
                   if \<not> ok then tcp_write_fail l i concat_p queue s
                   else do {
                     s \<leftarrow> (case last_unsent of None \<Rightarrow> Some s | Some u \<Rightarrow> tcp_write_commit u concat_p used arg s);
                     let s = upd_tpcb i (\<lambda>b. b\<lparr>t_unsent_oversize := oversize\<rparr>) s;
                     let s = (case last_unsent of
                                None \<Rightarrow> upd_tpcb i (\<lambda>b. b\<lparr>t_unsent := queue\<rparr>) s
                              | Some u \<Rightarrow> upd_seg u (\<lambda>g. g\<lparr>seg_next := queue\<rparr>) s);
                     let s = upd_tpcb i (\<lambda>b. b\<lparr>t_snd_lbb := t_snd_lbb b + word_of_int len, t_snd_buf := c_u16 (t_snd_buf b - len),
                               t_snd_queuelen := queuelen\<rparr>) s;
                     let seg = (case last_new of Some k \<Rightarrow> Some k | None \<Rightarrow> if in_last then last_unsent else None);
                     Some (ERR_OK,
                       case seg of None \<Rightarrow> s
                       | Some k \<Rightarrow> if apiflags AND TCP_WRITE_FLAG_MORE = 0
                                  then upd_mem (TCPH_SET_FLAG (seg_tcphdr (tseg s k)) TCP_PSH) s else s)
                   }
                 }
             })"

section \<open>\<open>tcp_output\<close>\<close>

definition TCP_BUILD_MSS_OPTION :: "int \<Rightarrow> u32_t" where
  "TCP_BUILD_MSS_OPTION mss = lwip_htonl (0x02040000 OR (word_of_int mss AND 0xFFFF))"

definition tcp_output_segment :: "('x, 'm) tcp_link \<Rightarrow> nat \<Rightarrow> nat \<Rightarrow> ('x, 'm) tcp_net \<Rightarrow> ('x, 'm) tcp_net option" where
  "tcp_output_segment l k i s =
     (let h = seg_tcphdr (tseg s k);
          s = upd_mem (put32 h TCPH_ACKNO (lwip_htonl (t_rcv_nxt (tpcb s i)))) s;
          s = upd_mem (put16 h TCPH_WND (lwip_htons (word_of_int (t_rcv_ann_wnd (tpcb s i))))) s;
          s = upd_tpcb i (\<lambda>b. b\<lparr>t_rcv_ann_right_edge := t_rcv_nxt b + word_of_int (t_rcv_ann_wnd b)\<rparr>) s;
          s = (if seg_flags (tseg s k) AND TF_SEG_OPTS_MSS \<noteq> 0
               then upd_mem (put32 h TCP_HLEN (TCP_BUILD_MSS_OPTION (tcp_eff_send_mss TCP_MSS (t_remote_ip (tpcb s i)) s))) s else s);
          s = upd_tpcb i (\<lambda>b. if t_rtime b = -1 then b\<lparr>t_rtime := 0\<rparr> else b) s;
          route = (if t_local_ip (tpcb s i) = IPADDR_ANY
                   then (case ip_route (t_remote_ip (tpcb s i)) s of
                           None \<Rightarrow> None
                         | Some netif \<Rightarrow> Some (upd_tpcb i (\<lambda>b. b\<lparr>t_local_ip := nif_ip_addr netif\<rparr>) s))
                   else Some s)
      in case route of
           None \<Rightarrow> Some s
         | Some s \<Rightarrow> do {
             let s = (if t_rttest (tpcb s i) = 0
                      then upd_tpcb i (\<lambda>b. b\<lparr>t_rttest := tcp_ticks (n_dev s), t_rtseq := seg_seqno s k\<rparr>) s else s);
             p \<leftarrow> seg_p (tseg s k);
             let len = c_u16 (snd h - snd (pb_payload (p_pbufs (n_mem s) p)));
             let s = upd_mem (upd_pbuf p (\<lambda>x. x\<lparr>pb_len := c_u16 (pb_len x - len), pb_tot_len := c_u16 (pb_tot_len x - len),
                       pb_payload := h\<rparr>)) s;
             let s = upd_mem (put16 h TCPH_CHKSUM 0) s;
             let b = tpcb s i;
             (e, s) \<leftarrow> ip_output l p (t_local_ip b) (t_remote_ip b) (t_ttl b) (t_tos b) IP_PROTO_TCP s;
             Some s
           })"

definition tcp_do_output_nagle :: "nat \<Rightarrow> ('x, 'm) tcp_net \<Rightarrow> bool" where
  "tcp_do_output_nagle i s \<longleftrightarrow>
     (let b = tpcb s i in
      t_unacked b = None \<or> t_flags b AND (TF_NODELAY OR TF_INFR) \<noteq> 0 \<or>
      (case t_unsent b of None \<Rightarrow> False | Some k \<Rightarrow> seg_next (tseg s k) \<noteq> None \<or> seg_len (tseg s k) \<ge> t_mss b) \<or>
      t_snd_buf b = 0 \<or> t_snd_queuelen b \<ge> TCP_SND_QUEUELEN)"

text \<open>The end of segment \<open>k\<close> relative to the last byte acknowledged, and whether it is outside of the window.\<close>

definition seg_beyond :: "nat \<Rightarrow> int \<Rightarrow> nat \<Rightarrow> ('x, 'm) tcp_net \<Rightarrow> bool" where
  "seg_beyond i wnd k s \<longleftrightarrow>
     seg_seqno s k - t_lastack (tpcb s i) + word_of_int (seg_len (tseg s k)) > (word_of_int wnd :: u32_t)"

text \<open>The link in a queue sorted by sequence numbers where a segment belongs: behind \<open>prev\<close> and before \<open>nx\<close>.\<close>

partial_function (option) seg_place_loop ::
    "u32_t \<Rightarrow> nat option \<Rightarrow> nat option \<Rightarrow> ('x, 'm) tcp_net \<Rightarrow> (nat option \<times> nat option) option" where
  "seg_place_loop seqno prev nx s =
     (case nx of None \<Rightarrow> Some (prev, None)
      | Some c \<Rightarrow>
          if TCP_SEQ_LT (seg_seqno s c) seqno then seg_place_loop seqno (Some c) (seg_next (tseg s c)) s
          else Some (prev, Some c))"

text \<open>A segment that has been sent goes to the unacked queue, whose last segment is \<open>useg\<close>.\<close>

definition tcp_unacked_add ::
    "nat \<Rightarrow> nat \<Rightarrow> nat option \<Rightarrow> ('x, 'm) tcp_net \<Rightarrow> (nat option \<times> ('x, 'm) tcp_net) option" where
  "tcp_unacked_add i k useg s =
     (let s = upd_seg k (\<lambda>g. g\<lparr>seg_next := None\<rparr>) s in
      case t_unacked (tpcb s i) of
        None \<Rightarrow> Some (Some k, upd_tpcb i (\<lambda>b. b\<lparr>t_unacked := Some k\<rparr>) s)
      | Some u \<Rightarrow> do {
          v \<leftarrow> useg;
          if TCP_SEQ_LT (seg_seqno s k) (seg_seqno s v)
          then do {
            (prev, nx) \<leftarrow> seg_place_loop (seg_seqno s k) None (Some u) s;
            let s = upd_seg k (\<lambda>g. g\<lparr>seg_next := nx\<rparr>) s;
            Some (useg, case prev of None \<Rightarrow> upd_tpcb i (\<lambda>b. b\<lparr>t_unacked := Some k\<rparr>) s
                        | Some j \<Rightarrow> upd_seg j (\<lambda>g. g\<lparr>seg_next := Some k\<rparr>) s)
          }
          else Some (Some k, upd_seg v (\<lambda>g. g\<lparr>seg_next := Some k\<rparr>) s)
        })"

partial_function (option) tcp_output_loop ::
    "('x, 'm) tcp_link \<Rightarrow> nat \<Rightarrow> int \<Rightarrow> nat option \<Rightarrow> nat option \<Rightarrow> ('x, 'm) tcp_net \<Rightarrow> ('x, 'm) tcp_net option" where
  "tcp_output_loop l i wnd seg useg s =
     (case seg of None \<Rightarrow> Some s
      | Some k \<Rightarrow>
          if seg_beyond i wnd k s then Some s
          else if \<not> tcp_do_output_nagle i s \<and> t_flags (tpcb s i) AND (TF_NAGLEMEMERR OR TF_FIN) = 0 then Some s
          else do {
            let s = upd_tpcb i (\<lambda>b. b\<lparr>t_unsent := seg_next (tseg s k)\<rparr>) s;
            let s = (if t_state (tpcb s i) \<noteq> SYN_SENT
                     then upd_tpcb i (\<lambda>b. b\<lparr>t_flags := t_flags b AND NOT (TF_ACK_DELAY OR TF_ACK_NOW)\<rparr>)
                       (upd_mem (TCPH_SET_FLAG (seg_tcphdr (tseg s k)) TCP_ACK) s)
                     else s);
            s \<leftarrow> tcp_output_segment l k i s;
            let snd_nxt = seg_seqno s k + word_of_int (TCP_TCPLEN s k);
            let s = upd_tpcb i (\<lambda>b. if TCP_SEQ_LT (t_snd_nxt b) snd_nxt then b\<lparr>t_snd_nxt := snd_nxt\<rparr> else b) s;
            (useg, s) \<leftarrow>
              (if TCP_TCPLEN s k > 0 then tcp_unacked_add i k useg s
               else do { s \<leftarrow> tcp_seg_free l k s; Some (useg, s) });
            tcp_output_loop l i wnd (t_unsent (tpcb s i)) useg s
          })"

definition tcp_output :: "('x, 'm) tcp_link \<Rightarrow> nat \<Rightarrow> ('x, 'm) tcp_net \<Rightarrow> (err_t \<times> ('x, 'm) tcp_net) option" where
  "tcp_output l i s =
     (if tcp_input_pcb (n_dev s) = Some i then Some (ERR_OK, s)
      else
        let b = tpcb s i;
            wnd = min (t_snd_wnd b) (t_cwnd b);
            seg = t_unsent b
        in if t_flags b AND TF_ACK_NOW \<noteq> 0 \<and> (case seg of None \<Rightarrow> True | Some k \<Rightarrow> seg_beyond i wnd k s)
           then tcp_send_empty_ack l i s
           else do {
             useg \<leftarrow> (case t_unacked b of None \<Rightarrow> Some None | Some u \<Rightarrow> map_option Some (last_seg u s));
             s \<leftarrow> tcp_output_loop l i wnd seg useg s;
             let s = upd_tpcb i (\<lambda>b. if t_unsent b = None then b\<lparr>t_unsent_oversize := 0\<rparr> else b) s;
             Some (ERR_OK, upd_tpcb i (\<lambda>b. b\<lparr>t_flags := t_flags b AND NOT TF_NAGLEMEMERR\<rparr>) s)
           })"

section \<open>Retransmission\<close>

definition tcp_rexmit_rto :: "('x, 'm) tcp_link \<Rightarrow> nat \<Rightarrow> ('x, 'm) tcp_net \<Rightarrow> ('x, 'm) tcp_net option" where
  "tcp_rexmit_rto l i s =
     (case t_unacked (tpcb s i) of
        None \<Rightarrow> Some s
      | Some u \<Rightarrow> do {
          seg \<leftarrow> last_seg u s;
          let s = upd_seg seg (\<lambda>g. g\<lparr>seg_next := t_unsent (tpcb s i)\<rparr>) s;
          let s = upd_tpcb i (\<lambda>b. b\<lparr>t_unsent := t_unacked b, t_unacked := None, t_nrtx := c_u8 (t_nrtx b + 1), t_rttest := 0\<rparr>) s;
          (e, s) \<leftarrow> tcp_output l i s;
          Some s
        })"

definition tcp_rexmit :: "nat \<Rightarrow> ('x, 'm) tcp_net \<Rightarrow> ('x, 'm) tcp_net option" where
  "tcp_rexmit i s =
     (case t_unacked (tpcb s i) of
        None \<Rightarrow> Some s
      | Some k \<Rightarrow> do {
          let s = upd_tpcb i (\<lambda>b. b\<lparr>t_unacked := seg_next (tseg s k)\<rparr>) s;
          (prev, nx) \<leftarrow> seg_place_loop (seg_seqno s k) None (t_unsent (tpcb s i)) s;
          let s = upd_seg k (\<lambda>g. g\<lparr>seg_next := nx\<rparr>) s;
          let s = (case prev of None \<Rightarrow> upd_tpcb i (\<lambda>b. b\<lparr>t_unsent := Some k\<rparr>) s
                   | Some j \<Rightarrow> upd_seg j (\<lambda>g. g\<lparr>seg_next := Some k\<rparr>) s);
          let s = (if seg_next (tseg s k) = None then upd_tpcb i (\<lambda>b. b\<lparr>t_unsent_oversize := 0\<rparr>) s else s);
          Some (upd_tpcb i (\<lambda>b. b\<lparr>t_nrtx := c_u8 (t_nrtx b + 1), t_rttest := 0\<rparr>) s)
        })"

definition tcp_rexmit_fast :: "nat \<Rightarrow> ('x, 'm) tcp_net \<Rightarrow> ('x, 'm) tcp_net option" where
  "tcp_rexmit_fast i s =
     (if t_unacked (tpcb s i) \<noteq> None \<and> t_flags (tpcb s i) AND TF_INFR = 0
      then do {
        s \<leftarrow> tcp_rexmit i s;
        Some (upd_tpcb i (\<lambda>b.
          let thresh = (if t_cwnd b > t_snd_wnd b then t_snd_wnd b div 2 else t_cwnd b div 2);
              thresh = (if thresh < 2 * t_mss b then c_u16 (2 * t_mss b) else thresh)
          in b\<lparr>t_ssthresh := thresh, t_cwnd := c_u16 (thresh + 3 * t_mss b), t_flags := t_flags b OR TF_INFR\<rparr>) s)
      }
      else Some s)"

end
