(* ===== verification/TcpPcb.thy ===== *)
theory TcpPcb
  imports TcpOut
begin

text \<open>
  The control blocks of TCP and the calls of the application: \<open>core/tcp.c\<close>.  A pointer to a control
  block that may be a listening one is a \<open>tcp_ref\<close>; a listening control block is in the state
  \<open>LISTEN\<close> and a full one never is, so the constructor stands for the test of that state.  The
  result \<open>None\<close> is a call that does not return, or that reads outside of a table.
\<close>

datatype tcp_ref = Pcb nat | Lpcb nat

section \<open>Configuration\<close>

definition TCP_LOCAL_PORT_RANGE_START :: u16_t where "TCP_LOCAL_PORT_RANGE_START = 0xc000"
definition TCP_LOCAL_PORT_RANGE_END :: u16_t where "TCP_LOCAL_PORT_RANGE_END = 0xffff"
definition TCP_WND_UPDATE_THRESHOLD :: int where "TCP_WND_UPDATE_THRESHOLD = TCP_WND div 4"
definition TCP_MAXRTX :: int where "TCP_MAXRTX = 12"
definition TCP_SYNMAXRTX :: int where "TCP_SYNMAXRTX = 6"
definition TCP_PRIO_NORMAL :: int where "TCP_PRIO_NORMAL = 64"
definition TCP_PRIO_MAX :: int where "TCP_PRIO_MAX = 127"
definition TCP_FIN_WAIT_TIMEOUT :: int where "TCP_FIN_WAIT_TIMEOUT = 20000"
definition TCP_SYN_RCVD_TIMEOUT :: int where "TCP_SYN_RCVD_TIMEOUT = 20000"
definition TCP_MSL :: int where "TCP_MSL = 60000"
definition TCP_KEEPIDLE_DEFAULT :: int where "TCP_KEEPIDLE_DEFAULT = 7200000"
definition TCP_KEEPINTVL_DEFAULT :: int where "TCP_KEEPINTVL_DEFAULT = 75000"
definition TCP_KEEPCNT_DEFAULT :: int where "TCP_KEEPCNT_DEFAULT = 9"
definition TCP_MAXIDLE :: int where "TCP_MAXIDLE = TCP_KEEPCNT_DEFAULT * TCP_KEEPINTVL_DEFAULT"

definition tcp_backoff :: "int list" where "tcp_backoff = [1, 2, 3, 4, 5, 6, 7, 7, 7, 7, 7, 7, 7]"
definition tcp_persist_backoff :: "int list" where "tcp_persist_backoff = [3, 6, 12, 24, 48, 96, 120]"

definition table_at :: "int list \<Rightarrow> int \<Rightarrow> int option" where
  "table_at t i = (if 0 \<le> i \<and> i < int (length t) then Some (t ! nat i) else None)"

section \<open>Walks over the lists\<close>

partial_function (option) tcp_any :: "(tcp_pcb \<Rightarrow> bool) \<Rightarrow> nat option \<Rightarrow> ('x, 'm) tcp_net \<Rightarrow> bool option" where
  "tcp_any P pcb s =
     (case pcb of None \<Rightarrow> Some False
      | Some i \<Rightarrow> if P (tpcb s i) then Some True else tcp_any P (t_next (tpcb s i)) s)"

partial_function (option) lpcb_any :: "(tcp_pcb_listen \<Rightarrow> bool) \<Rightarrow> nat option \<Rightarrow> ('x, 'm) tcp_net \<Rightarrow> bool option" where
  "lpcb_any P pcb s =
     (case pcb of None \<Rightarrow> Some False
      | Some i \<Rightarrow> if P (lpcb s i) then Some True else lpcb_any P (l_next (lpcb s i)) s)"

text \<open>Some control block of \<open>tcp_pcb_lists\<close>, in their order, has a property.\<close>

definition tcp_lists_any :: "(tcp_pcb_listen \<Rightarrow> bool) \<Rightarrow> (tcp_pcb \<Rightarrow> bool) \<Rightarrow> ('x, 'm) tcp_net \<Rightarrow> bool option" where
  "tcp_lists_any Q P s = do {
     b \<leftarrow> lpcb_any Q (tcp_listen_pcbs (n_dev s)) s;
     if b then Some True else do {
       b \<leftarrow> tcp_any P (tcp_bound_pcbs (n_dev s)) s;
       if b then Some True else do {
         b \<leftarrow> tcp_any P (tcp_active_pcbs (n_dev s)) s;
         if b then Some True else tcp_any P (tcp_tw_pcbs (n_dev s)) s
       }
     }
   }"

definition tcp_next_port :: "u16_t \<Rightarrow> u16_t" where
  "tcp_next_port port = (if port = TCP_LOCAL_PORT_RANGE_END then TCP_LOCAL_PORT_RANGE_START else port + 1)"

partial_function (option) tcp_new_port_loop :: "int \<Rightarrow> ('x, 'm) tcp_net \<Rightarrow> (u16_t \<times> ('x, 'm) tcp_net) option" where
  "tcp_new_port_loop n s =
     (let s = upd_tcp (\<lambda>v. v\<lparr>tcp_port := tcp_next_port (tcp_port v)\<rparr>) s;
          port = tcp_port (n_dev s)
      in do {
        used \<leftarrow> tcp_lists_any (\<lambda>b. l_local_port b = port) (\<lambda>b. t_local_port b = port) s;
        if used
        then let n = c_u16 (n + 1) in
          if n > uint (TCP_LOCAL_PORT_RANGE_END - TCP_LOCAL_PORT_RANGE_START) then Some (0, s) else tcp_new_port_loop n s
        else Some (port, s)
      })"

definition tcp_new_port :: "('x, 'm) tcp_net \<Rightarrow> (u16_t \<times> ('x, 'm) tcp_net) option" where
  "tcp_new_port s = tcp_new_port_loop 0 s"

section \<open>Purging and removing\<close>

definition tcp_pcb_purge :: "('x, 'm) tcp_link \<Rightarrow> nat \<Rightarrow> ('x, 'm) tcp_net \<Rightarrow> ('x, 'm) tcp_net option" where
  "tcp_pcb_purge l i s =
     (if t_state (tpcb s i) \<noteq> CLOSED \<and> t_state (tpcb s i) \<noteq> TIME_WAIT \<and> t_state (tpcb s i) \<noteq> LISTEN
      then do {
        s \<leftarrow> (case t_refused_data (tpcb s i) of
               None \<Rightarrow> Some s
             | Some p \<Rightarrow> do { s \<leftarrow> free_mem l (Some p) s; Some (upd_tpcb i (\<lambda>b. b\<lparr>t_refused_data := None\<rparr>) s) });
        let s = upd_tpcb i (\<lambda>b. b\<lparr>t_rtime := -1\<rparr>) s;
        s \<leftarrow> tcp_segs_free l (t_unsent (tpcb s i)) s;
        s \<leftarrow> tcp_segs_free l (t_unacked (tpcb s i)) s;
        Some (upd_tpcb i (\<lambda>b. b\<lparr>t_unsent := None, t_unacked := None, t_unsent_oversize := 0\<rparr>) s)
      }
      else Some s)"

definition tcp_pcb_remove :: "('x, 'm) tcp_link \<Rightarrow> tcp_list \<Rightarrow> nat \<Rightarrow> ('x, 'm) tcp_net \<Rightarrow> ('x, 'm) tcp_net option" where
  "tcp_pcb_remove l pcblist i s = do {
     s \<leftarrow> TCP_RMV pcblist i s;
     s \<leftarrow> tcp_pcb_purge l i s;
     s \<leftarrow>
       (if t_state (tpcb s i) \<noteq> TIME_WAIT \<and> t_state (tpcb s i) \<noteq> LISTEN \<and> t_flags (tpcb s i) AND TF_ACK_DELAY \<noteq> 0
        then do { (e, s) \<leftarrow> tcp_output l i (tcp_ack_now i s); Some s }
        else Some s);
     Some (upd_tpcb i (\<lambda>b. b\<lparr>t_state := CLOSED\<rparr>) s)
   }"

definition TCP_PCB_REMOVE_ACTIVE :: "('x, 'm) tcp_link \<Rightarrow> nat \<Rightarrow> ('x, 'm) tcp_net \<Rightarrow> ('x, 'm) tcp_net option" where
  "TCP_PCB_REMOVE_ACTIVE l i s = do { s \<leftarrow> tcp_pcb_remove l Active i s; Some (set_changed True s) }"

definition free_tpcb :: "nat \<Rightarrow> ('x, 'm) tcp_net \<Rightarrow> ('x, 'm) tcp_net" where
  "free_tpcb i s = set_pools (memp_free MEMP_TCP_PCB (Some i) (p_pools (n_mem s))) s"

text \<open>A listening control block leaves its list; \<open>TCP_RMV\<close> and \<open>tcp_pcb_remove\<close> for the list of those.\<close>

partial_function (option) lpcb_rmv_loop :: "nat \<Rightarrow> nat option \<Rightarrow> ('x, 'm) tcp_net \<Rightarrow> ('x, 'm) tcp_net option" where
  "lpcb_rmv_loop npcb tcp_tmp_pcb s =
     (case tcp_tmp_pcb of None \<Rightarrow> Some s
      | Some j \<Rightarrow>
          if l_next (lpcb s j) = Some npcb then Some (upd_lpcb j (\<lambda>b. b\<lparr>l_next := l_next (lpcb s npcb)\<rparr>) s)
          else lpcb_rmv_loop npcb (l_next (lpcb s j)) s)"

definition lpcb_remove :: "nat \<Rightarrow> ('x, 'm) tcp_net \<Rightarrow> ('x, 'm) tcp_net option" where
  "lpcb_remove i s = do {
     s \<leftarrow> (if tcp_listen_pcbs (n_dev s) = Some i
            then Some (upd_tcp (\<lambda>v. v\<lparr>tcp_listen_pcbs := l_next (lpcb s i)\<rparr>) s)
            else lpcb_rmv_loop i (tcp_listen_pcbs (n_dev s)) s);
     Some (upd_lpcb i (\<lambda>b. b\<lparr>l_next := None, l_state := CLOSED\<rparr>) s)
   }"

section \<open>Closing\<close>

definition tcp_rst_pcb :: "('x, 'm) tcp_link \<Rightarrow> nat \<Rightarrow> ('x, 'm) tcp_net \<Rightarrow> ('x, 'm) tcp_net option" where
  "tcp_rst_pcb l i s =
     (let b = tpcb s i
      in tcp_rst l (t_snd_nxt b) (t_rcv_nxt b) (t_local_ip b) (t_remote_ip b) (t_local_port b) (t_remote_port b) s)"

text \<open>\<open>tcp_send_fin\<close>, the state to be entered if it succeeds, and \<open>tcp_output\<close>.\<close>

definition tcp_close_fin ::
    "('x, 'm) tcp_link \<Rightarrow> nat \<Rightarrow> tcp_state \<Rightarrow> ('x, 'm) tcp_net \<Rightarrow> (err_t \<times> ('x, 'm) tcp_net) option" where
  "tcp_close_fin l i st s = do {
     (err, s) \<leftarrow> tcp_send_fin l i s;
     if err = ERR_OK
     then do { (e, s) \<leftarrow> tcp_output l i (upd_tpcb i (\<lambda>b. b\<lparr>t_state := st\<rparr>) s); Some (ERR_OK, s) }
     else Some (err, s)
   }"

definition tcp_close_shutdown ::
    "('x, 'm) tcp_link \<Rightarrow> ('x, 'm) tcp_vars_scheme tcp_app \<Rightarrow> nat \<Rightarrow> bool \<Rightarrow> ('x, 'm) tcp_net \<Rightarrow> (err_t \<times> ('x, 'm) tcp_net) option" where
  "tcp_close_shutdown l a i rst_on_unacked_data s =
     (let b = tpcb s i in
      if rst_on_unacked_data \<and> (t_state b = ESTABLISHED \<or> t_state b = CLOSE_WAIT) \<and>
         (t_refused_data b \<noteq> None \<or> t_rcv_wnd b \<noteq> TCP_WND)
      then do {
        s \<leftarrow> tcp_rst_pcb l i s;
        s \<leftarrow> tcp_pcb_purge l i s;
        s \<leftarrow> TCP_RMV_ACTIVE i s;
        Some (ERR_OK,
          if t_state (tpcb s i) = ESTABLISHED
          then TCP_REG a Time_wait i (upd_tpcb i (\<lambda>b. b\<lparr>t_state := TIME_WAIT\<rparr>) s)
          else free_tpcb i s)
      }
      else case t_state b of
          CLOSED \<Rightarrow> do {
            s \<leftarrow> (if t_local_port b \<noteq> 0 then TCP_RMV Bound i s else Some s);
            Some (ERR_OK, free_tpcb i s)
          }
        | LISTEN \<Rightarrow> None
        | SYN_SENT \<Rightarrow> do { s \<leftarrow> TCP_PCB_REMOVE_ACTIVE l i s; Some (ERR_OK, free_tpcb i s) }
        | SYN_RCVD \<Rightarrow> tcp_close_fin l i FIN_WAIT_1 s
        | ESTABLISHED \<Rightarrow> tcp_close_fin l i FIN_WAIT_1 s
        | CLOSE_WAIT \<Rightarrow> tcp_close_fin l i LAST_ACK s
        | _ \<Rightarrow> Some (ERR_OK, s))"

definition tcp_rx_close :: "nat \<Rightarrow> ('x, 'm) tcp_net \<Rightarrow> ('x, 'm) tcp_net" where
  "tcp_rx_close i = upd_tpcb i (\<lambda>b. b\<lparr>t_flags := t_flags b OR TF_RXCLOSED\<rparr>)"

definition tcp_close ::
    "('x, 'm) tcp_link \<Rightarrow> ('x, 'm) tcp_vars_scheme tcp_app \<Rightarrow> tcp_ref \<Rightarrow> ('x, 'm) tcp_net \<Rightarrow> (err_t \<times> ('x, 'm) tcp_net) option" where
  "tcp_close l a pcb s =
     (case pcb of
        Pcb i \<Rightarrow> tcp_close_shutdown l a i True (tcp_rx_close i s)
      | Lpcb i \<Rightarrow> do {
          s \<leftarrow> lpcb_remove i s;
          Some (ERR_OK, set_pools (memp_free MEMP_TCP_PCB_LISTEN (Some i) (p_pools (n_mem s))) s)
        })"

definition tcp_shutdown ::
    "('x, 'm) tcp_link \<Rightarrow> ('x, 'm) tcp_vars_scheme tcp_app \<Rightarrow> tcp_ref \<Rightarrow> bool \<Rightarrow> bool \<Rightarrow> ('x, 'm) tcp_net \<Rightarrow>
     (err_t \<times> ('x, 'm) tcp_net) option" where
  "tcp_shutdown l a pcb shut_rx shut_tx s =
     (case pcb of
        Lpcb i \<Rightarrow> Some (ERR_CONN, s)
      | Pcb i \<Rightarrow>
          if shut_rx \<and> shut_tx then tcp_close_shutdown l a i True (tcp_rx_close i s)
          else do {
            s \<leftarrow>
              (if shut_rx
               then let s = tcp_rx_close i s in
                 (case t_refused_data (tpcb s i) of
                    None \<Rightarrow> Some s
                  | Some p \<Rightarrow> do { s \<leftarrow> free_mem l (Some p) s; Some (upd_tpcb i (\<lambda>b. b\<lparr>t_refused_data := None\<rparr>) s) })
               else Some s);
            if shut_tx
            then if t_state (tpcb s i) = SYN_RCVD \<or> t_state (tpcb s i) = ESTABLISHED \<or> t_state (tpcb s i) = CLOSE_WAIT
                 then tcp_close_shutdown l a i shut_rx s else Some (ERR_CONN, s)
            else Some (ERR_OK, s)
          })"

definition tcp_abandon ::
    "('x, 'm) tcp_link \<Rightarrow> ('x, 'm) tcp_vars_scheme tcp_app \<Rightarrow> nat \<Rightarrow> bool \<Rightarrow> ('x, 'm) tcp_net \<Rightarrow> ('x, 'm) tcp_net option" where
  "tcp_abandon l a i reset s =
     (if t_state (tpcb s i) = TIME_WAIT
      then do { s \<leftarrow> tcp_pcb_remove l Time_wait i s; Some (free_tpcb i s) }
      else
        let seqno = t_snd_nxt (tpcb s i);
            ackno = t_rcv_nxt (tpcb s i);
            errf = t_errf (tpcb s i);
            errf_arg = t_callback_arg (tpcb s i)
        in do {
          s \<leftarrow> TCP_PCB_REMOVE_ACTIVE l i s;
          s \<leftarrow> (case t_unacked (tpcb s i) of None \<Rightarrow> Some s | Some k \<Rightarrow> tcp_segs_free l (Some k) s);
          s \<leftarrow> (case t_unsent (tpcb s i) of None \<Rightarrow> Some s | Some k \<Rightarrow> tcp_segs_free l (Some k) s);
          s \<leftarrow> (if reset
                 then let b = tpcb s i
                   in tcp_rst l seqno ackno (t_local_ip b) (t_remote_ip b) (t_local_port b) (t_remote_port b) s
                 else Some s);
          let s = free_tpcb i s;
          case errf of None \<Rightarrow> Some s | Some f \<Rightarrow> app_errf a f errf_arg ERR_ABRT s
        })"

definition tcp_abort ::
    "('x, 'm) tcp_link \<Rightarrow> ('x, 'm) tcp_vars_scheme tcp_app \<Rightarrow> nat \<Rightarrow> ('x, 'm) tcp_net \<Rightarrow> ('x, 'm) tcp_net option" where
  "tcp_abort l a i = tcp_abandon l a i True"

section \<open>Opening\<close>

definition tcp_bind ::
    "('x, 'm) tcp_vars_scheme tcp_app \<Rightarrow> nat \<Rightarrow> u32_t \<Rightarrow> u16_t \<Rightarrow> ('x, 'm) tcp_net \<Rightarrow> (err_t \<times> ('x, 'm) tcp_net) option" where
  "tcp_bind a i ipaddr port s =
     (if t_state (tpcb s i) \<noteq> CLOSED then Some (ERR_VAL, s)
      else do {
        (port, s) \<leftarrow> (if port = 0 then tcp_new_port s else Some (port, s));
        if port = 0 then Some (ERR_BUF, s)
        else do {
          used \<leftarrow> tcp_lists_any
            (\<lambda>b. l_local_port b = port \<and> (l_local_ip b = IPADDR_ANY \<or> ipaddr = IPADDR_ANY \<or> l_local_ip b = ipaddr))
            (\<lambda>b. t_local_port b = port \<and> (t_local_ip b = IPADDR_ANY \<or> ipaddr = IPADDR_ANY \<or> t_local_ip b = ipaddr)) s;
          if used then Some (ERR_USE, s)
          else
            let s = (if ipaddr \<noteq> IPADDR_ANY then upd_tpcb i (\<lambda>b. b\<lparr>t_local_ip := ipaddr\<rparr>) s else s);
                s = upd_tpcb i (\<lambda>b. b\<lparr>t_local_port := port\<rparr>) s
            in Some (ERR_OK, TCP_REG a Bound i s)
        }
      })"

definition tcp_accept_null :: "nat \<Rightarrow> nat \<Rightarrow> err_t \<Rightarrow> err_t" where
  "tcp_accept_null arg pcb err = ERR_ABRT"

definition tcp_listen_with_backlog ::
    "('x, 'm) tcp_vars_scheme tcp_app \<Rightarrow> nat \<Rightarrow> ('x, 'm) tcp_net \<Rightarrow> (tcp_ref option \<times> ('x, 'm) tcp_net) option" where
  "tcp_listen_with_backlog a i s =
     (if t_state (tpcb s i) \<noteq> CLOSED then Some (None, s)
      else case memp_malloc MEMP_TCP_PCB_LISTEN (p_pools (n_mem s)) of
          (None, ps) \<Rightarrow> Some (None, set_pools ps s)
        | (Some j, ps) \<Rightarrow> do {
            let s = set_pools ps s;
            let b = tpcb s i;
            let s = upd_lpcb j (\<lambda>c. c\<lparr>l_callback_arg := t_callback_arg b, l_local_port := t_local_port b, l_state := LISTEN,
                      l_prio := t_prio b, l_so_options := t_so_options b OR SOF_ACCEPTCONN, l_ttl := t_ttl b,
                      l_tos := t_tos b, l_local_ip := t_local_ip b\<rparr>) s;
            s \<leftarrow> (if t_local_port b \<noteq> 0 then TCP_RMV Bound i s else Some s);
            let s = free_tpcb i s;
            let s = upd_lpcb j (\<lambda>c. c\<lparr>l_accept := Some Tcp_accept_null, l_next := tcp_listen_pcbs (n_dev s)\<rparr>) s;
            let s = upd_tcp (\<lambda>v. v\<lparr>tcp_listen_pcbs := Some j\<rparr>) s;
            Some (Some (Lpcb j), timer_needed a s)
          })"

definition tcp_connect_init :: "nat \<Rightarrow> u32_t \<Rightarrow> nat option \<Rightarrow> ('x, 'm) tcp_net \<Rightarrow> ('x, 'm) tcp_net" where
  "tcp_connect_init i ipaddr connected s =
     (let (iss, s) = tcp_next_iss s;
          mss = tcp_eff_send_mss (if TCP_MSS > 536 then 536 else TCP_MSS) ipaddr s
      in upd_tpcb i (\<lambda>b. b\<lparr>t_rcv_nxt := 0, t_snd_nxt := iss, t_lastack := iss - 1, t_snd_lbb := iss - 1, t_rcv_wnd := TCP_WND,
           t_rcv_ann_wnd := TCP_WND, t_rcv_ann_right_edge := 0, t_snd_wnd := TCP_WND, t_mss := mss, t_cwnd := 1,
           t_ssthresh := c_u16 (mss * 10), t_connected := connected\<rparr>) s)"

definition tcp_connect ::
    "('x, 'm) tcp_link \<Rightarrow> ('x, 'm) tcp_vars_scheme tcp_app \<Rightarrow> nat \<Rightarrow> u32_t option \<Rightarrow> u16_t \<Rightarrow> nat option \<Rightarrow> ('x, 'm) tcp_net \<Rightarrow>
     (err_t \<times> ('x, 'm) tcp_net) option" where
  "tcp_connect l a i ip port connected s =
     (if t_state (tpcb s i) \<noteq> CLOSED then Some (ERR_ISCONN, s)
      else case ip of
          None \<Rightarrow> Some (ERR_VAL, s)
        | Some ipaddr \<Rightarrow>
            let s = upd_tpcb i (\<lambda>b. b\<lparr>t_remote_ip := ipaddr, t_remote_port := port\<rparr>) s;
                route = (if t_local_ip (tpcb s i) = IPADDR_ANY
                         then (case ip_route (t_remote_ip (tpcb s i)) s of
                                 None \<Rightarrow> None
                               | Some netif \<Rightarrow> Some (upd_tpcb i (\<lambda>b. b\<lparr>t_local_ip := nif_ip_addr netif\<rparr>) s))
                         else Some s)
            in case route of
                 None \<Rightarrow> Some (ERR_RTE, s)
               | Some s \<Rightarrow> do {
                   let old_local_port = t_local_port (tpcb s i);
                   s \<leftarrow>
                     (if old_local_port = 0
                      then do { (p, s) \<leftarrow> tcp_new_port s; Some (upd_tpcb i (\<lambda>b. b\<lparr>t_local_port := p\<rparr>) s) }
                      else Some s);
                   if t_local_port (tpcb s i) = 0 then Some (ERR_BUF, s)
                   else do {
                     (ret, s) \<leftarrow> tcp_enqueue_flags l i TCP_SYN (tcp_connect_init i ipaddr connected s);
                     if ret \<noteq> ERR_OK then Some (ret, s)
                     else do {
                       let s = upd_tpcb i (\<lambda>b. b\<lparr>t_state := SYN_SENT\<rparr>) s;
                       s \<leftarrow> (if old_local_port \<noteq> 0 then TCP_RMV Bound i s else Some s);
                       (e, s) \<leftarrow> tcp_output l i (TCP_REG_ACTIVE a i s);
                       Some (ERR_OK, s)
                     }
                   }
                 })"

section \<open>Allocation\<close>

partial_function (option) tcp_kill_prio_loop ::
    "int \<Rightarrow> nat option \<Rightarrow> int \<Rightarrow> u32_t \<Rightarrow> nat option \<Rightarrow> ('x, 'm) tcp_net \<Rightarrow> nat option option" where
  "tcp_kill_prio_loop prio pcb mprio inactivity inactive s =
     (case pcb of None \<Rightarrow> Some inactive
      | Some i \<Rightarrow>
          let b = tpcb s i;
              idle = tcp_ticks (n_dev s) - t_tmr b
          in if t_prio b \<le> prio \<and> t_prio b \<le> mprio \<and> idle \<ge> inactivity
             then tcp_kill_prio_loop prio (t_next b) (t_prio b) idle (Some i) s
             else tcp_kill_prio_loop prio (t_next b) mprio inactivity inactive s)"

definition tcp_kill_prio ::
    "('x, 'm) tcp_link \<Rightarrow> ('x, 'm) tcp_vars_scheme tcp_app \<Rightarrow> int \<Rightarrow> ('x, 'm) tcp_net \<Rightarrow> ('x, 'm) tcp_net option" where
  "tcp_kill_prio l a prio s = do {
     inactive \<leftarrow> tcp_kill_prio_loop prio (tcp_active_pcbs (n_dev s)) TCP_PRIO_MAX 0 None s;
     case inactive of None \<Rightarrow> Some s | Some i \<Rightarrow> tcp_abort l a i s
   }"

partial_function (option) tcp_kill_timewait_loop ::
    "nat option \<Rightarrow> u32_t \<Rightarrow> nat option \<Rightarrow> ('x, 'm) tcp_net \<Rightarrow> nat option option" where
  "tcp_kill_timewait_loop pcb inactivity inactive s =
     (case pcb of None \<Rightarrow> Some inactive
      | Some i \<Rightarrow>
          let idle = tcp_ticks (n_dev s) - t_tmr (tpcb s i)
          in if idle \<ge> inactivity then tcp_kill_timewait_loop (t_next (tpcb s i)) idle (Some i) s
             else tcp_kill_timewait_loop (t_next (tpcb s i)) inactivity inactive s)"

definition tcp_kill_timewait ::
    "('x, 'm) tcp_link \<Rightarrow> ('x, 'm) tcp_vars_scheme tcp_app \<Rightarrow> ('x, 'm) tcp_net \<Rightarrow> ('x, 'm) tcp_net option" where
  "tcp_kill_timewait l a s = do {
     inactive \<leftarrow> tcp_kill_timewait_loop (tcp_tw_pcbs (n_dev s)) 0 None s;
     case inactive of None \<Rightarrow> Some s | Some i \<Rightarrow> tcp_abort l a i s
   }"

definition malloc_tpcb :: "('x, 'm) tcp_net \<Rightarrow> nat option \<times> ('x, 'm) tcp_net" where
  "malloc_tpcb s = (let (r, ps) = memp_malloc MEMP_TCP_PCB (p_pools (n_mem s)) in (r, set_pools ps s))"

definition tcp_pcb_init :: "int \<Rightarrow> u32_t \<Rightarrow> u32_t \<Rightarrow> int \<Rightarrow> tcp_pcb" where
  "tcp_pcb_init prio iss ticks ctr =
     \<lparr>t_local_ip = 0, t_remote_ip = 0, t_so_options = 0, t_tos = 0, t_ttl = TCP_TTL, t_next = None, t_callback_arg = 0,
      t_accept = None, t_state = CLOSED, t_prio = prio, t_local_port = 0, t_remote_port = 0, t_flags = 0, t_polltmr = 0,
      t_pollinterval = 0, t_last_timer = ctr, t_tmr = ticks, t_rcv_nxt = 0, t_rcv_wnd = TCP_WND, t_rcv_ann_wnd = TCP_WND,
      t_rcv_ann_right_edge = 0, t_rtime = -1, t_mss = (if TCP_MSS > 536 then 536 else TCP_MSS), t_rttest = 0, t_rtseq = 0,
      t_sa = 0, t_sv = 3000 div TCP_SLOW_INTERVAL, t_rto = 3000 div TCP_SLOW_INTERVAL, t_nrtx = 0, t_dupacks = 0,
      t_lastack = iss, t_cwnd = 1, t_ssthresh = 0, t_snd_nxt = iss, t_snd_wl1 = 0, t_snd_wl2 = iss, t_snd_lbb = iss,
      t_snd_wnd = 0, t_snd_wnd_max = 0, t_acked = 0, t_snd_buf = TCP_SND_BUF, t_snd_queuelen = 0, t_unsent_oversize = 0,
      t_unsent = None, t_unacked = None, t_refused_data = None, t_sent = None, t_recv = Some Tcp_recv_null,
      t_connected = None, t_poll = None, t_errf = None, t_keep_idle = TCP_KEEPIDLE_DEFAULT, t_persist_cnt = 0,
      t_persist_backoff = 0, t_keep_cnt_sent = 0\<rparr>"

definition tcp_alloc ::
    "('x, 'm) tcp_link \<Rightarrow> ('x, 'm) tcp_vars_scheme tcp_app \<Rightarrow> int \<Rightarrow> ('x, 'm) tcp_net \<Rightarrow> (nat option \<times> ('x, 'm) tcp_net) option" where
  "tcp_alloc l a prio s = do {
     (pcb, s) \<leftarrow>
       (case malloc_tpcb s of
          (Some i, s) \<Rightarrow> Some (Some i, s)
        | (None, s) \<Rightarrow> do {
            s \<leftarrow> tcp_kill_timewait l a s;
            case malloc_tpcb s of
              (Some i, s) \<Rightarrow> Some (Some i, s)
            | (None, s) \<Rightarrow> do { s \<leftarrow> tcp_kill_prio l a prio s; Some (malloc_tpcb s) }
          });
     case pcb of
       None \<Rightarrow> Some (None, s)
     | Some i \<Rightarrow>
         let (iss, s) = tcp_next_iss s
         in Some (Some i, upd_tpcb i (\<lambda>b. tcp_pcb_init prio iss (tcp_ticks (n_dev s)) (tcp_timer_ctr (n_dev s))) s)
   }"

definition tcp_new ::
    "('x, 'm) tcp_link \<Rightarrow> ('x, 'm) tcp_vars_scheme tcp_app \<Rightarrow> ('x, 'm) tcp_net \<Rightarrow> (nat option \<times> ('x, 'm) tcp_net) option" where
  "tcp_new l a = tcp_alloc l a TCP_PRIO_NORMAL"

section \<open>Settings\<close>

definition tcp_setprio :: "nat \<Rightarrow> int \<Rightarrow> ('x, 'm) tcp_net \<Rightarrow> ('x, 'm) tcp_net" where
  "tcp_setprio i prio = upd_tpcb i (\<lambda>b. b\<lparr>t_prio := prio\<rparr>)"

definition tcp_arg :: "tcp_ref \<Rightarrow> nat \<Rightarrow> ('x, 'm) tcp_net \<Rightarrow> ('x, 'm) tcp_net" where
  "tcp_arg pcb arg =
     (case pcb of Pcb i \<Rightarrow> upd_tpcb i (\<lambda>b. b\<lparr>t_callback_arg := arg\<rparr>) | Lpcb i \<Rightarrow> upd_lpcb i (\<lambda>b. b\<lparr>l_callback_arg := arg\<rparr>))"

definition tcp_recv :: "nat \<Rightarrow> tcp_recv_fn option \<Rightarrow> ('x, 'm) tcp_net \<Rightarrow> ('x, 'm) tcp_net" where
  "tcp_recv i recv = upd_tpcb i (\<lambda>b. b\<lparr>t_recv := recv\<rparr>)"

definition tcp_sent :: "nat \<Rightarrow> nat option \<Rightarrow> ('x, 'm) tcp_net \<Rightarrow> ('x, 'm) tcp_net" where
  "tcp_sent i sent = upd_tpcb i (\<lambda>b. b\<lparr>t_sent := sent\<rparr>)"

definition tcp_err :: "nat \<Rightarrow> nat option \<Rightarrow> ('x, 'm) tcp_net \<Rightarrow> ('x, 'm) tcp_net" where
  "tcp_err i err = upd_tpcb i (\<lambda>b. b\<lparr>t_errf := err\<rparr>)"

definition tcp_accept :: "tcp_ref \<Rightarrow> tcp_accept_fn option \<Rightarrow> ('x, 'm) tcp_net \<Rightarrow> ('x, 'm) tcp_net" where
  "tcp_accept pcb f =
     (case pcb of Pcb i \<Rightarrow> upd_tpcb i (\<lambda>b. b\<lparr>t_accept := f\<rparr>) | Lpcb i \<Rightarrow> upd_lpcb i (\<lambda>b. b\<lparr>l_accept := f\<rparr>))"

definition tcp_poll :: "nat \<Rightarrow> nat option \<Rightarrow> int \<Rightarrow> ('x, 'm) tcp_net \<Rightarrow> ('x, 'm) tcp_net" where
  "tcp_poll i poll interval = upd_tpcb i (\<lambda>b. b\<lparr>t_poll := poll, t_pollinterval := interval\<rparr>)"

section \<open>Received data\<close>

definition tcp_recved :: "('x, 'm) tcp_link \<Rightarrow> nat \<Rightarrow> int \<Rightarrow> ('x, 'm) tcp_net \<Rightarrow> ('x, 'm) tcp_net option" where
  "tcp_recved l i len s =
     (let s = upd_tpcb i (\<lambda>b. b\<lparr>t_rcv_wnd := c_u16 (t_rcv_wnd b + len)\<rparr>) s;
          s = upd_tpcb i (\<lambda>b. if t_rcv_wnd b > TCP_WND then b\<lparr>t_rcv_wnd := TCP_WND\<rparr> else b) s;
          (wnd_inflation, s) = tcp_update_rcv_ann_wnd i s
      in if sint wnd_inflation \<ge> TCP_WND_UPDATE_THRESHOLD
         then do { (e, s) \<leftarrow> tcp_output l i (tcp_ack_now i s); Some s }
         else Some s)"

definition tcp_recv_null ::
    "('x, 'm) tcp_link \<Rightarrow> ('x, 'm) tcp_vars_scheme tcp_app \<Rightarrow> nat \<Rightarrow> ptr option \<Rightarrow> err_t \<Rightarrow> ('x, 'm) tcp_net \<Rightarrow>
     (err_t \<times> ('x, 'm) tcp_net) option" where
  "tcp_recv_null l a i p err s =
     (case p of
        Some q \<Rightarrow> do {
          s \<leftarrow> tcp_recved l i (pb_tot_len (p_pbufs (n_mem s) q)) s;
          s \<leftarrow> free_mem l (Some q) s;
          Some (ERR_OK, s)
        }
      | None \<Rightarrow> if err = ERR_OK then tcp_close l a (Pcb i) s else Some (ERR_OK, s))"

text \<open>The events \<open>TCP_EVENT_RECV\<close> and \<open>TCP_EVENT_CLOSED\<close>, and the others.\<close>

definition tcp_event_recv ::
    "('x, 'm) tcp_link \<Rightarrow> ('x, 'm) tcp_vars_scheme tcp_app \<Rightarrow> nat \<Rightarrow> ptr option \<Rightarrow> err_t \<Rightarrow> ('x, 'm) tcp_net \<Rightarrow>
     (err_t \<times> ('x, 'm) tcp_net) option" where
  "tcp_event_recv l a i p err s =
     (case t_recv (tpcb s i) of
        Some (Recv_app f) \<Rightarrow> app_recv a f (t_callback_arg (tpcb s i)) i p err s
      | Some Tcp_recv_null \<Rightarrow> tcp_recv_null l a i p err s
      | None \<Rightarrow> tcp_recv_null l a i p err s)"

definition tcp_event_closed ::
    "('x, 'm) tcp_link \<Rightarrow> ('x, 'm) tcp_vars_scheme tcp_app \<Rightarrow> nat \<Rightarrow> ('x, 'm) tcp_net \<Rightarrow> (err_t \<times> ('x, 'm) tcp_net) option" where
  "tcp_event_closed l a i s =
     (if t_recv (tpcb s i) \<noteq> None then tcp_event_recv l a i None ERR_OK s else Some (ERR_OK, s))"

definition tcp_event_poll ::
    "('x, 'm) tcp_vars_scheme tcp_app \<Rightarrow> nat \<Rightarrow> ('x, 'm) tcp_net \<Rightarrow> (err_t \<times> ('x, 'm) tcp_net) option" where
  "tcp_event_poll a i s =
     (case t_poll (tpcb s i) of None \<Rightarrow> Some (ERR_OK, s) | Some f \<Rightarrow> app_poll a f (t_callback_arg (tpcb s i)) i s)"

definition tcp_event_err ::
    "('x, 'm) tcp_vars_scheme tcp_app \<Rightarrow> nat option \<Rightarrow> nat \<Rightarrow> err_t \<Rightarrow> ('x, 'm) tcp_net \<Rightarrow> ('x, 'm) tcp_net option" where
  "tcp_event_err a errf arg err s = (case errf of None \<Rightarrow> Some s | Some f \<Rightarrow> app_errf a f arg err s)"

text \<open>The byte of a window that a FIN takes is given back.\<close>

definition tcp_fin_wnd :: "nat \<Rightarrow> ('x, 'm) tcp_net \<Rightarrow> ('x, 'm) tcp_net" where
  "tcp_fin_wnd i = upd_tpcb i (\<lambda>b. if t_rcv_wnd b \<noteq> TCP_WND then b\<lparr>t_rcv_wnd := c_u16 (t_rcv_wnd b + 1)\<rparr> else b)"

definition PBUF_FLAG_TCP_FIN :: u8_t where "PBUF_FLAG_TCP_FIN = 0x20"

definition tcp_process_refused_data ::
    "('x, 'm) tcp_link \<Rightarrow> ('x, 'm) tcp_vars_scheme tcp_app \<Rightarrow> nat \<Rightarrow> ('x, 'm) tcp_net \<Rightarrow> (err_t \<times> ('x, 'm) tcp_net) option" where
  "tcp_process_refused_data l a i s =
     (case t_refused_data (tpcb s i) of
        None \<Rightarrow> None
      | Some refused_data \<Rightarrow> do {
          let refused_flags = pb_flags (p_pbufs (n_mem s) refused_data);
          (err, s) \<leftarrow> tcp_event_recv l a i (Some refused_data) ERR_OK (upd_tpcb i (\<lambda>b. b\<lparr>t_refused_data := None\<rparr>) s);
          if err = ERR_OK
          then if refused_flags AND PBUF_FLAG_TCP_FIN \<noteq> 0
               then do {
                 (err, s) \<leftarrow> tcp_event_closed l a i (tcp_fin_wnd i s);
                 Some (if err = ERR_ABRT then ERR_ABRT else ERR_OK, s)
               }
               else Some (ERR_OK, s)
          else if err = ERR_ABRT then Some (ERR_ABRT, s)
          else Some (ERR_OK, upd_tpcb i (\<lambda>b. b\<lparr>t_refused_data := Some refused_data\<rparr>) s)
        })"

section \<open>Timers\<close>

definition tcp_delayed_ack :: "('x, 'm) tcp_link \<Rightarrow> nat \<Rightarrow> ('x, 'm) tcp_net \<Rightarrow> ('x, 'm) tcp_net option" where
  "tcp_delayed_ack l i s =
     (if t_flags (tpcb s i) AND TF_ACK_DELAY \<noteq> 0
      then do {
        (e, s) \<leftarrow> tcp_output l i (tcp_ack_now i s);
        Some (upd_tpcb i (\<lambda>b. b\<lparr>t_flags := t_flags b AND NOT (TF_ACK_DELAY OR TF_ACK_NOW)\<rparr>) s)
      }
      else Some s)"

partial_function (option) tcp_fasttmr_loop ::
    "('x, 'm) tcp_link \<Rightarrow> ('x, 'm) tcp_vars_scheme tcp_app \<Rightarrow> nat option \<Rightarrow> ('x, 'm) tcp_net \<Rightarrow> ('x, 'm) tcp_net option" where
  "tcp_fasttmr_loop l a pcb s =
     (case pcb of None \<Rightarrow> Some s
      | Some i \<Rightarrow>
          if t_last_timer (tpcb s i) \<noteq> tcp_timer_ctr (n_dev s)
          then do {
            let s = upd_tpcb i (\<lambda>b. b\<lparr>t_last_timer := tcp_timer_ctr (n_dev s)\<rparr>) s;
            s \<leftarrow> tcp_delayed_ack l i s;
            let nxt = t_next (tpcb s i);
            if t_refused_data (tpcb s i) \<noteq> None
            then do {
              (e, s) \<leftarrow> tcp_process_refused_data l a i (set_changed False s);
              if tcp_active_pcbs_changed (n_dev s) then tcp_fasttmr_loop l a (tcp_active_pcbs (n_dev s)) s
              else tcp_fasttmr_loop l a nxt s
            }
            else tcp_fasttmr_loop l a nxt s
          }
          else tcp_fasttmr_loop l a pcb s)"

definition tcp_fasttmr ::
    "('x, 'm) tcp_link \<Rightarrow> ('x, 'm) tcp_vars_scheme tcp_app \<Rightarrow> ('x, 'm) tcp_net \<Rightarrow> ('x, 'm) tcp_net option" where
  "tcp_fasttmr l a s =
     (let s = upd_tcp (\<lambda>v. v\<lparr>tcp_timer_ctr := c_u8 (tcp_timer_ctr v + 1)\<rparr>) s
      in tcp_fasttmr_loop l a (tcp_active_pcbs (n_dev s)) s)"

text \<open>The retransmission and persist timers of a connection; the result is \<open>pcb_remove\<close>.\<close>

definition tcp_slowtmr_backoff :: "nat \<Rightarrow> ('x, 'm) tcp_net \<Rightarrow> ('x, 'm) tcp_net option" where
  "tcp_slowtmr_backoff i s =
     (if t_state (tpcb s i) \<noteq> SYN_SENT
      then do {
        sh \<leftarrow> table_at tcp_backoff (t_nrtx (tpcb s i));
        Some (upd_tpcb i (\<lambda>b. b\<lparr>t_rto := c_s16 ((t_sa b div 8 + t_sv b) * 2 ^ nat sh)\<rparr>) s)
      }
      else Some s)"

definition tcp_slowtmr_congestion :: "nat \<Rightarrow> ('x, 'm) tcp_net \<Rightarrow> ('x, 'm) tcp_net" where
  "tcp_slowtmr_congestion i =
     upd_tpcb i (\<lambda>b.
       let ssthresh = min (t_cwnd b) (t_snd_wnd b) div 2;
           ssthresh = (if ssthresh < 2 * t_mss b then c_u16 (2 * t_mss b) else ssthresh)
       in b\<lparr>t_rtime := 0, t_ssthresh := ssthresh, t_cwnd := t_mss b\<rparr>)"

definition tcp_slowtmr_rexmit :: "('x, 'm) tcp_link \<Rightarrow> nat \<Rightarrow> ('x, 'm) tcp_net \<Rightarrow> (bool \<times> ('x, 'm) tcp_net) option" where
  "tcp_slowtmr_rexmit l i s =
     (if t_state (tpcb s i) = SYN_SENT \<and> t_nrtx (tpcb s i) = TCP_SYNMAXRTX then Some (True, s)
      else if t_nrtx (tpcb s i) = TCP_MAXRTX then Some (True, s)
      else if t_persist_backoff (tpcb s i) > 0
      then do {
        let s = upd_tpcb i (\<lambda>b. b\<lparr>t_persist_cnt := c_u8 (t_persist_cnt b + 1)\<rparr>) s;
        lim \<leftarrow> table_at tcp_persist_backoff (t_persist_backoff (tpcb s i) - 1);
        s \<leftarrow>
          (if t_persist_cnt (tpcb s i) \<ge> lim
           then tcp_zero_window_probe l i (upd_tpcb i (\<lambda>b. b\<lparr>t_persist_cnt := 0,
                  t_persist_backoff := (if t_persist_backoff b < int (length tcp_persist_backoff)
                                        then t_persist_backoff b + 1 else t_persist_backoff b)\<rparr>) s)
           else Some s);
        Some (False, s)
      }
      else do {
        let s = upd_tpcb i (\<lambda>b. if t_rtime b \<ge> 0 then b\<lparr>t_rtime := c_s16 (t_rtime b + 1)\<rparr> else b) s;
        s \<leftarrow>
          (if t_unacked (tpcb s i) \<noteq> None \<and> t_rtime (tpcb s i) \<ge> t_rto (tpcb s i)
           then do { s \<leftarrow> tcp_slowtmr_backoff i s; tcp_rexmit_rto l i (tcp_slowtmr_congestion i s) }
           else Some s);
        Some (False, s)
      })"

text \<open>How long the connection has been idle, and whether that is more than a time in milliseconds.\<close>

definition tcp_idle_for :: "int \<Rightarrow> nat \<Rightarrow> ('x, 'm) tcp_net \<Rightarrow> bool" where
  "tcp_idle_for t i s \<longleftrightarrow> uint (tcp_ticks (n_dev s) - t_tmr (tpcb s i)) > t div TCP_SLOW_INTERVAL"

definition tcp_keepalive_on :: "nat \<Rightarrow> ('x, 'm) tcp_net \<Rightarrow> bool" where
  "tcp_keepalive_on i s \<longleftrightarrow>
     t_so_options (tpcb s i) AND SOF_KEEPALIVE \<noteq> 0 \<and> (t_state (tpcb s i) = ESTABLISHED \<or> t_state (tpcb s i) = CLOSE_WAIT)"

text \<open>The other timers; the result is \<open>pcb_remove\<close> and \<open>pcb_reset\<close>.\<close>

definition tcp_slowtmr_pcb :: "('x, 'm) tcp_link \<Rightarrow> nat \<Rightarrow> ('x, 'm) tcp_net \<Rightarrow> (bool \<times> bool \<times> ('x, 'm) tcp_net) option" where
  "tcp_slowtmr_pcb l i s = do {
     (rem1, s) \<leftarrow> tcp_slowtmr_rexmit l i (upd_tpcb i (\<lambda>b. b\<lparr>t_last_timer := tcp_timer_ctr (n_dev s)\<rparr>) s);
     let rem2 = (t_state (tpcb s i) = FIN_WAIT_2 \<and> t_flags (tpcb s i) AND TF_RXCLOSED \<noteq> 0 \<and>
                 tcp_idle_for TCP_FIN_WAIT_TIMEOUT i s);
     let rem3 = (tcp_keepalive_on i s \<and> tcp_idle_for (c_u32 (t_keep_idle (tpcb s i) + TCP_MAXIDLE)) i s);
     s \<leftarrow>
       (if tcp_keepalive_on i s \<and> \<not> rem3 \<and>
           tcp_idle_for (c_u32 (t_keep_idle (tpcb s i) + t_keep_cnt_sent (tpcb s i) * TCP_KEEPINTVL_DEFAULT)) i s
        then do {
          s \<leftarrow> tcp_keepalive l i s;
          Some (upd_tpcb i (\<lambda>b. b\<lparr>t_keep_cnt_sent := c_u8 (t_keep_cnt_sent b + 1)\<rparr>) s)
        }
        else Some s);
     let rem4 = (t_state (tpcb s i) = SYN_RCVD \<and> tcp_idle_for TCP_SYN_RCVD_TIMEOUT i s);
     let rem5 = (t_state (tpcb s i) = LAST_ACK \<and> tcp_idle_for (2 * TCP_MSL) i s);
     Some (rem1 \<or> rem2 \<or> rem3 \<or> rem4 \<or> rem5, rem3, s)
   }"

text \<open>A control block leaves a list in the walk over it, where \<open>prev\<close> is the one before it.\<close>

definition tcp_unlink :: "tcp_list \<Rightarrow> nat option \<Rightarrow> nat \<Rightarrow> ('x, 'm) tcp_net \<Rightarrow> ('x, 'm) tcp_net" where
  "tcp_unlink pcbs prev i s =
     (case prev of
        Some j \<Rightarrow> upd_tpcb j (\<lambda>b. b\<lparr>t_next := t_next (tpcb s i)\<rparr>) s
      | None \<Rightarrow> upd_tcp (set_tcp_head pcbs (t_next (tpcb s i))) s)"

partial_function (option) tcp_slowtmr_loop ::
    "('x, 'm) tcp_link \<Rightarrow> ('x, 'm) tcp_vars_scheme tcp_app \<Rightarrow> nat option \<Rightarrow> nat option \<Rightarrow> ('x, 'm) tcp_net \<Rightarrow>
     ('x, 'm) tcp_net option" where
  "tcp_slowtmr_loop l a prev pcb s =
     (case pcb of None \<Rightarrow> Some s
      | Some i \<Rightarrow>
          if t_last_timer (tpcb s i) = tcp_timer_ctr (n_dev s) then tcp_slowtmr_loop l a prev (t_next (tpcb s i)) s
          else do {
            (pcb_remove, pcb_reset, s) \<leftarrow> tcp_slowtmr_pcb l i s;
            if pcb_remove
            then do {
              s \<leftarrow> tcp_pcb_purge l i s;
              let s = tcp_unlink Active prev i s;
              s \<leftarrow> (if pcb_reset then tcp_rst_pcb l i s else Some s);
              let nxt = t_next (tpcb s i);
              s \<leftarrow> tcp_event_err a (t_errf (tpcb s i)) (t_callback_arg (tpcb s i)) ERR_ABRT (set_changed False (free_tpcb i s));
              if tcp_active_pcbs_changed (n_dev s) then tcp_slowtmr_loop l a None (tcp_active_pcbs (n_dev s)) s
              else tcp_slowtmr_loop l a prev nxt s
            }
            else do {
              let nxt = t_next (tpcb s i);
              let s = upd_tpcb i (\<lambda>b. b\<lparr>t_polltmr := c_u8 (t_polltmr b + 1)\<rparr>) s;
              if t_polltmr (tpcb s i) \<ge> t_pollinterval (tpcb s i)
              then do {
                (err, s) \<leftarrow> tcp_event_poll a i (set_changed False (upd_tpcb i (\<lambda>b. b\<lparr>t_polltmr := 0\<rparr>) s));
                if tcp_active_pcbs_changed (n_dev s) then tcp_slowtmr_loop l a None (tcp_active_pcbs (n_dev s)) s
                else do {
                  s \<leftarrow> (if err = ERR_OK then do { (e, s) \<leftarrow> tcp_output l i s; Some s } else Some s);
                  tcp_slowtmr_loop l a (Some i) nxt s
                }
              }
              else tcp_slowtmr_loop l a (Some i) nxt s
            }
          })"

partial_function (option) tcp_timewait_loop ::
    "('x, 'm) tcp_link \<Rightarrow> nat option \<Rightarrow> nat option \<Rightarrow> ('x, 'm) tcp_net \<Rightarrow> ('x, 'm) tcp_net option" where
  "tcp_timewait_loop l prev pcb s =
     (case pcb of None \<Rightarrow> Some s
      | Some i \<Rightarrow>
          if tcp_idle_for (2 * TCP_MSL) i s
          then do {
            s \<leftarrow> tcp_pcb_purge l i s;
            let s = tcp_unlink Time_wait prev i s;
            let nxt = t_next (tpcb s i);
            tcp_timewait_loop l prev nxt (free_tpcb i s)
          }
          else tcp_timewait_loop l (Some i) (t_next (tpcb s i)) s)"

definition tcp_slowtmr ::
    "('x, 'm) tcp_link \<Rightarrow> ('x, 'm) tcp_vars_scheme tcp_app \<Rightarrow> ('x, 'm) tcp_net \<Rightarrow> ('x, 'm) tcp_net option" where
  "tcp_slowtmr l a s = do {
     let s = upd_tcp (\<lambda>v. v\<lparr>tcp_ticks := tcp_ticks v + 1, tcp_timer_ctr := c_u8 (tcp_timer_ctr v + 1)\<rparr>) s;
     s \<leftarrow> tcp_slowtmr_loop l a None (tcp_active_pcbs (n_dev s)) s;
     tcp_timewait_loop l None (tcp_tw_pcbs (n_dev s)) s
   }"

definition tcp_tmr ::
    "('x, 'm) tcp_link \<Rightarrow> ('x, 'm) tcp_vars_scheme tcp_app \<Rightarrow> ('x, 'm) tcp_net \<Rightarrow> ('x, 'm) tcp_net option" where
  "tcp_tmr l a s = do {
     s \<leftarrow> tcp_fasttmr l a s;
     let s = upd_tcp (\<lambda>v. v\<lparr>tcp_timer := c_u8 (tcp_timer v + 1)\<rparr>) s;
     if tcp_timer (n_dev s) mod 2 = 1 then tcp_slowtmr l a s else Some s
   }"

end
