(* ===== verification/TcpIn.thy ===== *)
theory TcpIn
  imports TcpPcb
begin

text \<open>
  TCP input: \<open>core/tcp_in.c\<close> as this port compiles it, without the queue of out-of-sequence segments
  and without timestamps.  The variables that \<open>tcp_input\<close> sets for the functions it calls are fields
  of the state; \<open>inseg.tcphdr\<close> is always \<open>tcphdr\<close>, whose fields are in host order from then on.
\<close>

section \<open>The segment\<close>

definition in_flag :: "u16_t \<Rightarrow> ('x, 'm) tcp_net \<Rightarrow> bool" where
  "in_flag f s \<longleftrightarrow> ucast (in_flags (n_dev s)) AND f \<noteq> 0"

definition got_flag :: "u8_t \<Rightarrow> ('x, 'm) tcp_net \<Rightarrow> bool" where
  "got_flag f s \<longleftrightarrow> recv_flags (n_dev s) AND f \<noteq> 0"

definition add_recv_flag :: "u8_t \<Rightarrow> ('x, 'm) tcp_net \<Rightarrow> ('x, 'm) tcp_net" where
  "add_recv_flag f = upd_tcp (\<lambda>v. v\<lparr>recv_flags := recv_flags v OR f\<rparr>)"

definition in_wnd :: "('x, 'm) tcp_net \<Rightarrow> int" where
  "in_wnd s = uint (get16 (in_tcphdr (n_dev s)) TCPH_WND (n_mem s))"

abbreviation inseg_flags :: "('x, 'm) tcp_net \<Rightarrow> u16_t" where
  "inseg_flags s \<equiv> TCPH_FLAGS (in_tcphdr (n_dev s)) (n_mem s)"

text \<open>\<open>TCP_TCPLEN(&inseg)\<close>.\<close>

definition inseg_tcplen :: "('x, 'm) tcp_net \<Rightarrow> int" where
  "inseg_tcplen s = c_u16 (inseg_len (n_dev s) + (if inseg_flags s AND (TCP_FIN OR TCP_SYN) \<noteq> 0 then 1 else 0))"

text \<open>The reset that answers the segment.\<close>

definition tcp_rst_reply :: "('x, 'm) tcp_link \<Rightarrow> ('x, 'm) tcp_net \<Rightarrow> ('x, 'm) tcp_net option" where
  "tcp_rst_reply l s =
     (let v = n_dev s
      in tcp_rst l (in_ackno v) (in_seqno v + word_of_int (in_tcplen v)) (current_dest v) (current_src v)
           (get16 (in_tcphdr v) TCPH_DEST (n_mem s)) (get16 (in_tcphdr v) TCPH_SRC (n_mem s)) s)"

section \<open>Options\<close>

partial_function (option) tcp_parseopt_loop :: "ptr \<Rightarrow> int \<Rightarrow> int \<Rightarrow> nat \<Rightarrow> ('x, 'm) tcp_net \<Rightarrow> ('x, 'm) tcp_net option" where
  "tcp_parseopt_loop opts c max_c i s =
     (if \<not> c < max_c then Some s
      else
        let opt = get8 opts c (n_mem s)
        in if opt = 0x00 then Some s
           else if opt = 0x01 then tcp_parseopt_loop opts (c_u16 (c + 1)) max_c i s
           else if opt = 0x02
           then if get8 opts (c + 1) (n_mem s) \<noteq> 0x04 \<or> c + 0x04 > max_c then Some s
                else
                  let mss = c_u16 (uint (get8 opts (c + 2) (n_mem s)) * 256 + uint (get8 opts (c + 3) (n_mem s)));
                      s = upd_tpcb i (\<lambda>b. b\<lparr>t_mss := (if mss > TCP_MSS \<or> mss = 0 then TCP_MSS else mss)\<rparr>) s
                  in tcp_parseopt_loop opts (c_u16 (c + 0x04)) max_c i s
           else if get8 opts (c + 1) (n_mem s) = 0 then Some s
           else tcp_parseopt_loop opts (c_u16 (c + uint (get8 opts (c + 1) (n_mem s)))) max_c i s)"

definition tcp_parseopt :: "nat \<Rightarrow> ('x, 'm) tcp_net \<Rightarrow> ('x, 'm) tcp_net option" where
  "tcp_parseopt i s =
     (let tcphdr = in_tcphdr (n_dev s)
      in if TCPH_HDRLEN tcphdr (n_mem s) > 5
         then tcp_parseopt_loop (ptr_add tcphdr TCP_HLEN) 0 ((TCPH_HDRLEN tcphdr (n_mem s) - 5) * 4) i s
         else Some s)"

section \<open>\<open>tcp_receive\<close>\<close>

text \<open>The window of the peer and the persist timer.\<close>

definition tcp_snd_wnd_update :: "nat \<Rightarrow> ('x, 'm) tcp_net \<Rightarrow> ('x, 'm) tcp_net" where
  "tcp_snd_wnd_update i s =
     (let b = tpcb s i; seqno = in_seqno (n_dev s); ackno = in_ackno (n_dev s); wnd = in_wnd s in
      if TCP_SEQ_LT (t_snd_wl1 b) seqno \<or> t_snd_wl1 b = seqno \<and> TCP_SEQ_LT (t_snd_wl2 b) ackno \<or>
         t_snd_wl2 b = ackno \<and> wnd > t_snd_wnd b
      then upd_tpcb i (\<lambda>b.
             let b = b\<lparr>t_snd_wnd := wnd, t_snd_wnd_max := (if t_snd_wnd_max b < wnd then wnd else t_snd_wnd_max b),
                       t_snd_wl1 := seqno, t_snd_wl2 := ackno\<rparr>
             in if wnd = 0
                then if t_persist_backoff b = 0 then b\<lparr>t_persist_cnt := 0, t_persist_backoff := 1\<rparr> else b
                else if t_persist_backoff b > 0 then b\<lparr>t_persist_backoff := 0\<rparr> else b) s
      else s)"

definition tcp_cwnd_inflate :: "tcp_pcb \<Rightarrow> tcp_pcb" where
  "tcp_cwnd_inflate b = (if c_u16 (t_cwnd b + t_mss b) > t_cwnd b then b\<lparr>t_cwnd := c_u16 (t_cwnd b + t_mss b)\<rparr> else b)"

text \<open>An ACK that acknowledges nothing new; \<open>right_wnd_edge\<close> is that before the window was updated.\<close>

definition tcp_dupack :: "nat \<Rightarrow> u32_t \<Rightarrow> ('x, 'm) tcp_net \<Rightarrow> ('x, 'm) tcp_net option" where
  "tcp_dupack i right_wnd_edge s =
     (let s = upd_tpcb i (\<lambda>b. b\<lparr>t_acked := 0\<rparr>) s;
          b = tpcb s i
      in if in_tcplen (n_dev s) = 0 \<and> t_snd_wl2 b + word_of_int (t_snd_wnd b) = right_wnd_edge \<and> t_rtime b \<ge> 0 \<and>
            t_lastack b = in_ackno (n_dev s)
         then
           let s = upd_tpcb i (\<lambda>b. if c_u8 (t_dupacks b + 1) > t_dupacks b then b\<lparr>t_dupacks := c_u8 (t_dupacks b + 1)\<rparr> else b) s
           in if t_dupacks (tpcb s i) > 3 then Some (upd_tpcb i tcp_cwnd_inflate s)
              else if t_dupacks (tpcb s i) = 3 then tcp_rexmit_fast i s
              else Some s
         else Some (upd_tpcb i (\<lambda>b. b\<lparr>t_dupacks := 0\<rparr>) s))"

text \<open>The congestion window when new data is acknowledged; a division by zero has no result.\<close>

definition tcp_cwnd_grow :: "tcp_pcb \<Rightarrow> tcp_pcb option" where
  "tcp_cwnd_grow b =
     (if t_state b \<ge> ESTABLISHED
      then if t_cwnd b < t_ssthresh b then Some (tcp_cwnd_inflate b)
           else if t_cwnd b = 0 then None
           else let new_cwnd = c_u16 (t_cwnd b + t_mss b * t_mss b div t_cwnd b)
             in Some (if new_cwnd > t_cwnd b then b\<lparr>t_cwnd := new_cwnd\<rparr> else b)
      else Some b)"

definition tcp_ack_update :: "u32_t \<Rightarrow> tcp_pcb \<Rightarrow> tcp_pcb" where
  "tcp_ack_update ackno b =
     (let b = (if t_flags b AND TF_INFR \<noteq> 0 then b\<lparr>t_flags := t_flags b AND NOT TF_INFR, t_cwnd := t_ssthresh b\<rparr> else b);
          acked = uint (ackno - t_lastack b) mod 65536
      in b\<lparr>t_nrtx := 0, t_rto := c_s16 (t_sa b div 8 + t_sv b), t_acked := acked, t_snd_buf := c_u16 (t_snd_buf b + acked),
           t_dupacks := 0, t_lastack := ackno\<rparr>)"

text \<open>A segment that is acknowledged leaves its queue.\<close>

definition tcp_seg_done :: "('x, 'm) tcp_link \<Rightarrow> nat \<Rightarrow> nat \<Rightarrow> ('x, 'm) tcp_net \<Rightarrow> ('x, 'm) tcp_net option" where
  "tcp_seg_done l i k s = do {
     let s = (if t_acked (tpcb s i) \<noteq> 0 \<and> seg_hdr_flags s k AND TCP_FIN \<noteq> 0
              then upd_tpcb i (\<lambda>b. b\<lparr>t_acked := c_u16 (t_acked b - 1)\<rparr>) s else s);
     n \<leftarrow> pbuf_clen (seg_p (tseg s k)) (n_mem s);
     tcp_seg_free l k (upd_tpcb i (\<lambda>b. b\<lparr>t_snd_queuelen := c_u16 (t_snd_queuelen b - n)\<rparr>) s)
   }"

partial_function (option) tcp_unacked_loop :: "('x, 'm) tcp_link \<Rightarrow> nat \<Rightarrow> ('x, 'm) tcp_net \<Rightarrow> ('x, 'm) tcp_net option" where
  "tcp_unacked_loop l i s =
     (case t_unacked (tpcb s i) of None \<Rightarrow> Some s
      | Some k \<Rightarrow>
          if TCP_SEQ_LEQ (seg_seqno s k + word_of_int (TCP_TCPLEN s k)) (in_ackno (n_dev s))
          then do {
            s \<leftarrow> tcp_seg_done l i k (upd_tpcb i (\<lambda>b. b\<lparr>t_unacked := seg_next (tseg s k)\<rparr>) s);
            tcp_unacked_loop l i s
          }
          else Some s)"

partial_function (option) tcp_unsent_loop :: "('x, 'm) tcp_link \<Rightarrow> nat \<Rightarrow> ('x, 'm) tcp_net \<Rightarrow> ('x, 'm) tcp_net option" where
  "tcp_unsent_loop l i s =
     (case t_unsent (tpcb s i) of None \<Rightarrow> Some s
      | Some k \<Rightarrow>
          if TCP_SEQ_BETWEEN (in_ackno (n_dev s)) (seg_seqno s k + word_of_int (TCP_TCPLEN s k)) (t_snd_nxt (tpcb s i))
          then do {
            let s = upd_tpcb i (\<lambda>b. b\<lparr>t_unsent := seg_next (tseg s k)\<rparr>) s;
            let s = upd_tpcb i (\<lambda>b. if t_unsent b = None then b\<lparr>t_unsent_oversize := 0\<rparr> else b) s;
            s \<leftarrow> tcp_seg_done l i k s;
            tcp_unsent_loop l i s
          }
          else Some s)"

text \<open>An ACK of new data.\<close>

definition tcp_new_ack :: "('x, 'm) tcp_link \<Rightarrow> nat \<Rightarrow> ('x, 'm) tcp_net \<Rightarrow> ('x, 'm) tcp_net option" where
  "tcp_new_ack l i s = do {
     b \<leftarrow> tcp_cwnd_grow (tcp_ack_update (in_ackno (n_dev s)) (tpcb s i));
     s \<leftarrow> tcp_unacked_loop l i (upd_tpcb i (\<lambda>_. b) s);
     Some (upd_tpcb i (\<lambda>b. b\<lparr>t_rtime := (if t_unacked b = None then -1 else 0), t_polltmr := 0\<rparr>) s)
   }"

definition tcp_rtt :: "nat \<Rightarrow> ('x, 'm) tcp_net \<Rightarrow> ('x, 'm) tcp_net" where
  "tcp_rtt i s =
     (if t_rttest (tpcb s i) \<noteq> 0 \<and> TCP_SEQ_LT (t_rtseq (tpcb s i)) (in_ackno (n_dev s))
      then upd_tpcb i (\<lambda>b.
             let m = c_s16 (uint (tcp_ticks (n_dev s) - t_rttest b));
                 m = c_s16 (m - t_sa b div 8);
                 sa = c_s16 (t_sa b + m);
                 m = (if m < 0 then c_s16 (- m) else m);
                 m = c_s16 (m - t_sv b div 4);
                 sv = c_s16 (t_sv b + m)
             in b\<lparr>t_sa := sa, t_sv := sv, t_rto := c_s16 (sa div 8 + sv), t_rttest := 0\<rparr>) s
      else s)"

definition tcp_receive_ack :: "('x, 'm) tcp_link \<Rightarrow> nat \<Rightarrow> ('x, 'm) tcp_net \<Rightarrow> ('x, 'm) tcp_net option" where
  "tcp_receive_ack l i s =
     (let right_wnd_edge = word_of_int (t_snd_wnd (tpcb s i)) + t_snd_wl2 (tpcb s i);
          s = tcp_snd_wnd_update i s;
          ackno = in_ackno (n_dev s)
      in do {
        s \<leftarrow>
          (if TCP_SEQ_LEQ ackno (t_lastack (tpcb s i)) then tcp_dupack i right_wnd_edge s
           else if TCP_SEQ_BETWEEN ackno (t_lastack (tpcb s i) + 1) (t_snd_nxt (tpcb s i)) then tcp_new_ack l i s
           else Some (upd_tpcb i (\<lambda>b. b\<lparr>t_acked := 0\<rparr>) s));
        s \<leftarrow> tcp_unsent_loop l i s;
        Some (tcp_rtt i s)
      })"

text \<open>Bytes in front of the segment that were received before are cut off.\<close>

partial_function (option) tcp_trim_loop :: "ptr option \<Rightarrow> int \<Rightarrow> int \<Rightarrow> pstate \<Rightarrow> (ptr \<times> int \<times> pstate) option" where
  "tcp_trim_loop p off new_tot_len m =
     (case p of None \<Rightarrow> None
      | Some q \<Rightarrow>
          if pb_len (p_pbufs m q) < off
          then tcp_trim_loop (pb_next (p_pbufs m q)) (off - pb_len (p_pbufs m q)) new_tot_len
                 (upd_pbuf q (\<lambda>x. x\<lparr>pb_tot_len := new_tot_len, pb_len := 0\<rparr>) m)
          else Some (q, off, m))"

definition tcp_trim_front :: "nat \<Rightarrow> ('x, 'm) tcp_net \<Rightarrow> ('x, 'm) tcp_net option" where
  "tcp_trim_front i s =
     (let rcv_nxt = t_rcv_nxt (tpcb s i);
          seqno = in_seqno (n_dev s)
      in case inseg_p (n_dev s) of
           None \<Rightarrow> None
         | Some p \<Rightarrow> do {
             let off = sint (rcv_nxt - seqno);
             (q, off, m) \<leftarrow> tcp_trim_loop (Some p) off (c_u16 (pb_tot_len (p_pbufs (n_mem s) p) - off)) (n_mem s);
             let (f, m) = pbuf_header (Some q) (c_s16 (- off)) m;
             let s = upd_tcp (\<lambda>v. v\<lparr>inseg_len := c_u16 (inseg_len v - c_u16 (uint (rcv_nxt - seqno))), in_seqno := rcv_nxt\<rparr>) (set_mem m s);
             Some (upd_mem (put32 (in_tcphdr (n_dev s)) TCPH_SEQNO rcv_nxt) s)
           })"

text \<open>The end of the segment that is beyond the window is cut off.\<close>

definition tcp_trim_back :: "('x, 'm) tcp_link \<Rightarrow> nat \<Rightarrow> ('x, 'm) tcp_net \<Rightarrow> ('x, 'm) tcp_net option" where
  "tcp_trim_back l i s =
     (let s = upd_tcp (\<lambda>v. v\<lparr>in_tcplen := inseg_tcplen s\<rparr>) s
      in if in_tcplen (n_dev s) > t_rcv_wnd (tpcb s i)
         then do {
           let h = in_tcphdr (n_dev s);
           let s = (if inseg_flags s AND TCP_FIN \<noteq> 0
                    then upd_mem (TCPH_FLAGS_SET h (inseg_flags s AND NOT TCP_FIN)) s else s);
           let len = (if inseg_flags s AND TCP_SYN \<noteq> 0 then c_u16 (t_rcv_wnd (tpcb s i) - 1) else t_rcv_wnd (tpcb s i));
           p \<leftarrow> inseg_p (n_dev s);
           m \<leftarrow> pbuf_realloc (custom_free l) p len (n_mem s);
           let s = upd_tcp (\<lambda>v. v\<lparr>inseg_len := len\<rparr>) (set_mem m s);
           Some (upd_tcp (\<lambda>v. v\<lparr>in_tcplen := inseg_tcplen s\<rparr>) s)
         }
         else Some s)"

text \<open>The next segment in sequence is taken.\<close>

definition tcp_take_segment :: "('x, 'm) tcp_link \<Rightarrow> nat \<Rightarrow> ('x, 'm) tcp_net \<Rightarrow> ('x, 'm) tcp_net option" where
  "tcp_take_segment l i s = do {
     s \<leftarrow> tcp_trim_back l i s;
     let tcplen = in_tcplen (n_dev s);
     let s = upd_tpcb i (\<lambda>b. b\<lparr>t_rcv_nxt := in_seqno (n_dev s) + word_of_int tcplen, t_rcv_wnd := c_u16 (t_rcv_wnd b - tcplen)\<rparr>) s;
     let (infl, s) = tcp_update_rcv_ann_wnd i s;
     p \<leftarrow> inseg_p (n_dev s);
     let s = (if pb_tot_len (p_pbufs (n_mem s) p) > 0 then upd_tcp (\<lambda>v. v\<lparr>recv_data := Some p, inseg_p := None\<rparr>) s else s);
     let s = (if inseg_flags s AND TCP_FIN \<noteq> 0 then add_recv_flag TF_GOT_FIN s else s);
     Some (tcp_ack i s)
   }"

definition tcp_receive_data :: "('x, 'm) tcp_link \<Rightarrow> nat \<Rightarrow> ('x, 'm) tcp_net \<Rightarrow> ('x, 'm) tcp_net option" where
  "tcp_receive_data l i s = do {
     let seqno = in_seqno (n_dev s);
     let rcv_nxt = t_rcv_nxt (tpcb s i);
     s \<leftarrow>
       (if TCP_SEQ_BETWEEN rcv_nxt (seqno + 1) (seqno + word_of_int (in_tcplen (n_dev s)) - 1) then tcp_trim_front i s
        else if TCP_SEQ_LT seqno rcv_nxt then Some (tcp_ack_now i s)
        else Some s);
     let rcv_nxt = t_rcv_nxt (tpcb s i);
     if TCP_SEQ_BETWEEN (in_seqno (n_dev s)) rcv_nxt (rcv_nxt + word_of_int (t_rcv_wnd (tpcb s i)) - 1) \<and>
        rcv_nxt = in_seqno (n_dev s)
     then tcp_take_segment l i s
     else do { (e, s) \<leftarrow> tcp_send_empty_ack l i s; Some s }
   }"

definition tcp_receive :: "('x, 'm) tcp_link \<Rightarrow> nat \<Rightarrow> ('x, 'm) tcp_net \<Rightarrow> ('x, 'm) tcp_net option" where
  "tcp_receive l i s = do {
     s \<leftarrow> (if in_flag TCP_ACK s then tcp_receive_ack l i s else Some s);
     if in_tcplen (n_dev s) > 0 \<and> t_state (tpcb s i) < CLOSE_WAIT then tcp_receive_data l i s
     else
       let rcv_nxt = t_rcv_nxt (tpcb s i)
       in Some (if \<not> TCP_SEQ_BETWEEN (in_seqno (n_dev s)) rcv_nxt (rcv_nxt + word_of_int (t_rcv_wnd (tpcb s i)) - 1)
                then tcp_ack_now i s else s)
   }"

section \<open>\<open>tcp_process\<close>\<close>

abbreviation set_state :: "nat \<Rightarrow> tcp_state \<Rightarrow> ('x, 'm) tcp_net \<Rightarrow> ('x, 'm) tcp_net" where
  "set_state i st \<equiv> upd_tpcb i (\<lambda>b. b\<lparr>t_state := st\<rparr>)"

definition tcp_process_rst :: "nat \<Rightarrow> ('x, 'm) tcp_net \<Rightarrow> err_t \<times> ('x, 'm) tcp_net" where
  "tcp_process_rst i s =
     (let b = tpcb s i;
          acceptable =
            (if t_state b = SYN_SENT then in_ackno (n_dev s) = t_snd_nxt b
             else TCP_SEQ_BETWEEN (in_seqno (n_dev s)) (t_rcv_nxt b) (t_rcv_nxt b + word_of_int (t_rcv_wnd b)))
      in if acceptable
         then (ERR_RST, upd_tpcb i (\<lambda>b. b\<lparr>t_flags := t_flags b AND NOT TF_ACK_DELAY\<rparr>) (add_recv_flag TF_RESET s))
         else (ERR_OK, s))"

text \<open>The SYN-ACK that was waited for.\<close>

definition tcp_syn_acked :: "('x, 'm) tcp_link \<Rightarrow> nat \<Rightarrow> nat \<Rightarrow> ('x, 'm) tcp_net \<Rightarrow> ('x, 'm) tcp_net option" where
  "tcp_syn_acked l i rseg s =
     (let seqno = in_seqno (n_dev s);
          wnd = in_wnd s;
          mss = tcp_eff_send_mss (t_mss (tpcb s i)) (t_remote_ip (tpcb s i)) s;
          s = upd_tpcb i (\<lambda>b. b\<lparr>t_snd_buf := c_u16 (t_snd_buf b + 1), t_rcv_nxt := seqno + 1, t_rcv_ann_right_edge := seqno + 1,
                t_lastack := in_ackno (n_dev s), t_snd_wnd := wnd, t_snd_wnd_max := wnd, t_snd_wl1 := seqno - 1,
                t_state := ESTABLISHED, t_mss := mss, t_ssthresh := c_u16 (mss * 10),
                t_cwnd := (if t_cwnd b = 1 then c_u16 (mss * 2) else mss), t_snd_queuelen := c_u16 (t_snd_queuelen b - 1),
                t_unacked := seg_next (tseg s rseg)\<rparr>) s
      in do {
        s \<leftarrow> tcp_seg_free l rseg s;
        Some (upd_tpcb i (\<lambda>b. if t_unacked b = None then b\<lparr>t_rtime := -1\<rparr> else b\<lparr>t_rtime := 0, t_nrtx := 0\<rparr>) s)
      })"

definition tcp_event_connected ::
    "('x, 'm) tcp_vars_scheme tcp_app \<Rightarrow> nat \<Rightarrow> err_t \<Rightarrow> ('x, 'm) tcp_net \<Rightarrow> (err_t \<times> ('x, 'm) tcp_net) option" where
  "tcp_event_connected a i err s =
     (case t_connected (tpcb s i) of None \<Rightarrow> Some (ERR_OK, s)
      | Some f \<Rightarrow> app_connected a f (t_callback_arg (tpcb s i)) i err s)"

definition tcp_event_accept ::
    "('x, 'm) tcp_vars_scheme tcp_app \<Rightarrow> nat \<Rightarrow> err_t \<Rightarrow> ('x, 'm) tcp_net \<Rightarrow> (err_t \<times> ('x, 'm) tcp_net) option" where
  "tcp_event_accept a i err s =
     (case t_accept (tpcb s i) of
        None \<Rightarrow> Some (ERR_ARG, s)
      | Some Tcp_accept_null \<Rightarrow> Some (tcp_accept_null (t_callback_arg (tpcb s i)) i err, s)
      | Some (Accept_app f) \<Rightarrow> app_accept a f (t_callback_arg (tpcb s i)) i err s)"

definition tcp_process_syn_sent ::
    "('x, 'm) tcp_link \<Rightarrow> ('x, 'm) tcp_vars_scheme tcp_app \<Rightarrow> nat \<Rightarrow> ('x, 'm) tcp_net \<Rightarrow> (err_t \<times> ('x, 'm) tcp_net) option" where
  "tcp_process_syn_sent l a i s =
     (if in_flag TCP_ACK s
      then do {
        syn_ack \<leftarrow>
          (if in_flag TCP_SYN s
           then do { rseg \<leftarrow> t_unacked (tpcb s i); Some (in_ackno (n_dev s) = seg_seqno s rseg + 1) }
           else Some False);
        if syn_ack
        then do {
          rseg \<leftarrow> t_unacked (tpcb s i);
          s \<leftarrow> tcp_syn_acked l i rseg s;
          (err, s) \<leftarrow> tcp_event_connected a i ERR_OK s;
          if err = ERR_ABRT then Some (ERR_ABRT, s) else Some (ERR_OK, tcp_ack_now i s)
        }
        else do { s \<leftarrow> tcp_rst_reply l s; Some (ERR_OK, s) }
      }
      else Some (ERR_OK, s))"

definition tcp_process_syn_rcvd ::
    "('x, 'm) tcp_link \<Rightarrow> ('x, 'm) tcp_vars_scheme tcp_app \<Rightarrow> nat \<Rightarrow> ('x, 'm) tcp_net \<Rightarrow> (err_t \<times> ('x, 'm) tcp_net) option" where
  "tcp_process_syn_rcvd l a i s =
     (if in_flag TCP_ACK s
      then if TCP_SEQ_BETWEEN (in_ackno (n_dev s)) (t_lastack (tpcb s i) + 1) (t_snd_nxt (tpcb s i))
           then do {
             (err, s) \<leftarrow> tcp_event_accept a i ERR_OK (set_state i ESTABLISHED s);
             if err \<noteq> ERR_OK
             then do { s \<leftarrow> (if err \<noteq> ERR_ABRT then tcp_abort l a i s else Some s); Some (ERR_ABRT, s) }
             else do {
               let old_cwnd = t_cwnd (tpcb s i);
               s \<leftarrow> tcp_receive l i s;
               let s = upd_tpcb i (\<lambda>b. b\<lparr>t_acked := (if t_acked b \<noteq> 0 then t_acked b - 1 else 0),
                         t_cwnd := (if old_cwnd = 1 then c_u16 (t_mss b * 2) else t_mss b)\<rparr>) s;
               Some (ERR_OK, if got_flag TF_GOT_FIN s then set_state i CLOSE_WAIT (tcp_ack_now i s) else s)
             }
           }
           else do { s \<leftarrow> tcp_rst_reply l s; Some (ERR_OK, s) }
      else if in_flag TCP_SYN s \<and> in_seqno (n_dev s) = t_rcv_nxt (tpcb s i) - 1
      then do { s \<leftarrow> tcp_rexmit i s; Some (ERR_OK, s) }
      else Some (ERR_OK, s))"

definition tcp_to_timewait ::
    "('x, 'm) tcp_link \<Rightarrow> ('x, 'm) tcp_vars_scheme tcp_app \<Rightarrow> nat \<Rightarrow> ('x, 'm) tcp_net \<Rightarrow> ('x, 'm) tcp_net option" where
  "tcp_to_timewait l a i s = do {
     s \<leftarrow> tcp_pcb_purge l i s;
     s \<leftarrow> TCP_RMV_ACTIVE i s;
     Some (TCP_REG a Time_wait i (set_state i TIME_WAIT s))
   }"

text \<open>The segment acknowledges all that was sent, our FIN included.\<close>

definition fin_acked :: "nat \<Rightarrow> ('x, 'm) tcp_net \<Rightarrow> bool" where
  "fin_acked i s \<longleftrightarrow> in_flag TCP_ACK s \<and> in_ackno (n_dev s) = t_snd_nxt (tpcb s i)"

text \<open>The states in which the connection is synchronised: after \<open>tcp_receive\<close>.\<close>

definition tcp_process_synced ::
    "('x, 'm) tcp_link \<Rightarrow> ('x, 'm) tcp_vars_scheme tcp_app \<Rightarrow> nat \<Rightarrow> ('x, 'm) tcp_net \<Rightarrow> ('x, 'm) tcp_net option" where
  "tcp_process_synced l a i s = do {
     let st = t_state (tpcb s i);
     s \<leftarrow> tcp_receive l i s;
     case st of
       ESTABLISHED \<Rightarrow> Some (if got_flag TF_GOT_FIN s then set_state i CLOSE_WAIT (tcp_ack_now i s) else s)
     | CLOSE_WAIT \<Rightarrow> Some (if got_flag TF_GOT_FIN s then set_state i CLOSE_WAIT (tcp_ack_now i s) else s)
     | FIN_WAIT_1 \<Rightarrow>
         if got_flag TF_GOT_FIN s
         then if fin_acked i s then tcp_to_timewait l a i (tcp_ack_now i s)
              else Some (set_state i CLOSING (tcp_ack_now i s))
         else Some (if fin_acked i s then set_state i FIN_WAIT_2 s else s)
     | FIN_WAIT_2 \<Rightarrow> if got_flag TF_GOT_FIN s then tcp_to_timewait l a i (tcp_ack_now i s) else Some s
     | CLOSING \<Rightarrow> if fin_acked i s then tcp_to_timewait l a i s else Some s
     | LAST_ACK \<Rightarrow> Some (if fin_acked i s then add_recv_flag TF_CLOSED s else s)
     | _ \<Rightarrow> Some s
   }"

definition tcp_process ::
    "('x, 'm) tcp_link \<Rightarrow> ('x, 'm) tcp_vars_scheme tcp_app \<Rightarrow> nat \<Rightarrow> ('x, 'm) tcp_net \<Rightarrow> (err_t \<times> ('x, 'm) tcp_net) option" where
  "tcp_process l a i s =
     (if in_flag TCP_RST s then Some (tcp_process_rst i s)
      else if in_flag TCP_SYN s \<and> t_state (tpcb s i) \<noteq> SYN_SENT \<and> t_state (tpcb s i) \<noteq> SYN_RCVD
      then Some (ERR_OK, tcp_ack_now i s)
      else do {
        let s = upd_tpcb i (\<lambda>b. if t_flags b AND TF_RXCLOSED = 0 then b\<lparr>t_tmr := tcp_ticks (n_dev s)\<rparr> else b) s;
        s \<leftarrow> tcp_parseopt i (upd_tpcb i (\<lambda>b. b\<lparr>t_keep_cnt_sent := 0\<rparr>) s);
        case t_state (tpcb s i) of
          CLOSED \<Rightarrow> Some (ERR_OK, s)
        | LISTEN \<Rightarrow> Some (ERR_OK, s)
        | TIME_WAIT \<Rightarrow> Some (ERR_OK, s)
        | SYN_SENT \<Rightarrow> tcp_process_syn_sent l a i s
        | SYN_RCVD \<Rightarrow> tcp_process_syn_rcvd l a i s
        | _ \<Rightarrow> do { s \<leftarrow> tcp_process_synced l a i s; Some (ERR_OK, s) }
      })"

section \<open>Listening and time-wait\<close>

definition tcp_listen_setup :: "nat \<Rightarrow> nat \<Rightarrow> ('x, 'm) tcp_net \<Rightarrow> ('x, 'm) tcp_net" where
  "tcp_listen_setup j npcb s =
     (let v = n_dev s; pcb = lpcb s j; wnd = in_wnd s in
      upd_tpcb npcb (\<lambda>b. b\<lparr>t_local_ip := current_dest v, t_local_port := l_local_port pcb, t_remote_ip := current_src v,
        t_remote_port := get16 (in_tcphdr v) TCPH_SRC (n_mem s), t_state := SYN_RCVD, t_rcv_nxt := in_seqno v + 1,
        t_rcv_ann_right_edge := in_seqno v + 1, t_snd_wnd := wnd, t_snd_wnd_max := wnd, t_ssthresh := wnd,
        t_snd_wl1 := in_seqno v - 1, t_callback_arg := l_callback_arg pcb, t_accept := l_accept pcb,
        t_so_options := l_so_options pcb AND SOF_INHERITED\<rparr>) s)"

definition tcp_listen_input ::
    "('x, 'm) tcp_link \<Rightarrow> ('x, 'm) tcp_vars_scheme tcp_app \<Rightarrow> nat \<Rightarrow> ('x, 'm) tcp_net \<Rightarrow> (err_t \<times> ('x, 'm) tcp_net) option" where
  "tcp_listen_input l a j s =
     (if in_flag TCP_RST s then Some (ERR_OK, s)
      else if in_flag TCP_ACK s then do { s \<leftarrow> tcp_rst_reply l s; Some (ERR_OK, s) }
      else if in_flag TCP_SYN s
      then do {
        (npcb, s) \<leftarrow> tcp_alloc l a (l_prio (lpcb s j)) s;
        case npcb of
          None \<Rightarrow> Some (ERR_MEM, s)
        | Some i \<Rightarrow> do {
            let s = TCP_REG_ACTIVE a i (tcp_listen_setup j i s);
            s \<leftarrow> tcp_parseopt i s;
            let s = upd_tpcb i (\<lambda>b. b\<lparr>t_mss := tcp_eff_send_mss (t_mss b) (t_remote_ip b) s\<rparr>) s;
            (rc, s) \<leftarrow> tcp_enqueue_flags l i (TCP_SYN OR TCP_ACK) s;
            if rc \<noteq> ERR_OK then do { s \<leftarrow> tcp_abandon l a i False s; Some (rc, s) }
            else tcp_output l i s
          }
      }
      else Some (ERR_OK, s))"

definition tcp_timewait_input :: "('x, 'm) tcp_link \<Rightarrow> nat \<Rightarrow> ('x, 'm) tcp_net \<Rightarrow> (err_t \<times> ('x, 'm) tcp_net) option" where
  "tcp_timewait_input l i s =
     (if in_flag TCP_RST s then Some (ERR_OK, s)
      else if in_flag TCP_SYN s \<and>
              TCP_SEQ_BETWEEN (in_seqno (n_dev s)) (t_rcv_nxt (tpcb s i))
                (t_rcv_nxt (tpcb s i) + word_of_int (t_rcv_wnd (tpcb s i)))
      then do { s \<leftarrow> tcp_rst_reply l s; Some (ERR_OK, s) }
      else
        let s = (if \<not> in_flag TCP_SYN s \<and> in_flag TCP_FIN s
                 then upd_tpcb i (\<lambda>b. b\<lparr>t_tmr := tcp_ticks (n_dev s)\<rparr>) s else s)
        in if in_tcplen (n_dev s) > 0 then tcp_output l i (tcp_ack_now i s) else Some (ERR_OK, s))"

section \<open>\<open>tcp_input\<close>\<close>

definition tcp_match :: "u16_t \<Rightarrow> u16_t \<Rightarrow> u32_t \<Rightarrow> u32_t \<Rightarrow> tcp_pcb \<Rightarrow> bool" where
  "tcp_match src dest csrc cdest b \<longleftrightarrow>
     t_remote_port b = src \<and> t_local_port b = dest \<and> t_remote_ip b = csrc \<and> t_local_ip b = cdest"

definition lpcb_match :: "u16_t \<Rightarrow> u32_t \<Rightarrow> tcp_pcb_listen \<Rightarrow> bool" where
  "lpcb_match dest cdest b \<longleftrightarrow> l_local_port b = dest \<and> (l_local_ip b = cdest \<or> l_local_ip b = IPADDR_ANY)"

text \<open>The first control block of a list that matches, and the one before it.\<close>

partial_function (option) tcp_find ::
    "(tcp_pcb \<Rightarrow> bool) \<Rightarrow> nat option \<Rightarrow> nat option \<Rightarrow> ('x, 'm) tcp_net \<Rightarrow> (nat option \<times> nat option) option" where
  "tcp_find P pcb prev s =
     (case pcb of None \<Rightarrow> Some (None, prev)
      | Some i \<Rightarrow> if P (tpcb s i) then Some (Some i, prev) else tcp_find P (t_next (tpcb s i)) (Some i) s)"

partial_function (option) lpcb_find ::
    "(tcp_pcb_listen \<Rightarrow> bool) \<Rightarrow> nat option \<Rightarrow> nat option \<Rightarrow> ('x, 'm) tcp_net \<Rightarrow> (nat option \<times> nat option) option" where
  "lpcb_find P pcb prev s =
     (case pcb of None \<Rightarrow> Some (None, prev)
      | Some i \<Rightarrow> if P (lpcb s i) then Some (Some i, prev) else lpcb_find P (l_next (lpcb s i)) (Some i) s)"

definition tcp_to_front :: "nat option \<Rightarrow> nat \<Rightarrow> ('x, 'm) tcp_net \<Rightarrow> ('x, 'm) tcp_net" where
  "tcp_to_front prev i s =
     (case prev of None \<Rightarrow> s
      | Some j \<Rightarrow>
          let s = upd_tpcb j (\<lambda>b. b\<lparr>t_next := t_next (tpcb s i)\<rparr>) s;
              s = upd_tpcb i (\<lambda>b. b\<lparr>t_next := tcp_active_pcbs (n_dev s)\<rparr>) s
          in upd_tcp (\<lambda>v. v\<lparr>tcp_active_pcbs := Some i\<rparr>) s)"

definition lpcb_to_front :: "nat option \<Rightarrow> nat \<Rightarrow> ('x, 'm) tcp_net \<Rightarrow> ('x, 'm) tcp_net" where
  "lpcb_to_front prev i s =
     (case prev of None \<Rightarrow> s
      | Some j \<Rightarrow>
          let s = upd_lpcb j (\<lambda>b. b\<lparr>l_next := l_next (lpcb s i)\<rparr>) s;
              s = upd_lpcb i (\<lambda>b. b\<lparr>l_next := tcp_listen_pcbs (n_dev s)\<rparr>) s
          in upd_tcp (\<lambda>v. v\<lparr>tcp_listen_pcbs := Some i\<rparr>) s)"

definition tcp_event_sent ::
    "('x, 'm) tcp_vars_scheme tcp_app \<Rightarrow> nat \<Rightarrow> int \<Rightarrow> ('x, 'm) tcp_net \<Rightarrow> (err_t \<times> ('x, 'm) tcp_net) option" where
  "tcp_event_sent a i space s =
     (case t_sent (tpcb s i) of None \<Rightarrow> Some (ERR_OK, s) | Some f \<Rightarrow> app_sent a f (t_callback_arg (tpcb s i)) i space s)"

text \<open>The data received goes to the application; the result is whether the connection was aborted.\<close>

definition tcp_deliver_data ::
    "('x, 'm) tcp_link \<Rightarrow> ('x, 'm) tcp_vars_scheme tcp_app \<Rightarrow> nat \<Rightarrow> ('x, 'm) tcp_net \<Rightarrow> (bool \<times> ('x, 'm) tcp_net) option" where
  "tcp_deliver_data l a i s =
     (case recv_data (n_dev s) of
        None \<Rightarrow> Some (False, s)
      | Some d \<Rightarrow>
          if t_flags (tpcb s i) AND TF_RXCLOSED \<noteq> 0
          then do { s \<leftarrow> free_mem l (Some d) s; s \<leftarrow> tcp_abort l a i s; Some (True, s) }
          else do {
            (err, s) \<leftarrow> tcp_event_recv l a i (Some d) ERR_OK s;
            if err = ERR_ABRT then Some (True, s)
            else Some (False, if err \<noteq> ERR_OK then upd_tpcb i (\<lambda>b. b\<lparr>t_refused_data := recv_data (n_dev s)\<rparr>) s else s)
          })"

definition tcp_deliver_fin ::
    "('x, 'm) tcp_link \<Rightarrow> ('x, 'm) tcp_vars_scheme tcp_app \<Rightarrow> nat \<Rightarrow> ('x, 'm) tcp_net \<Rightarrow> (bool \<times> ('x, 'm) tcp_net) option" where
  "tcp_deliver_fin l a i s =
     (if got_flag TF_GOT_FIN s
      then case t_refused_data (tpcb s i) of
          Some p \<Rightarrow> Some (False, upd_mem (upd_pbuf p (\<lambda>x. x\<lparr>pb_flags := pb_flags x OR PBUF_FLAG_TCP_FIN\<rparr>)) s)
        | None \<Rightarrow> do {
            (err, s) \<leftarrow> tcp_event_closed l a i (tcp_fin_wnd i s);
            Some (err = ERR_ABRT, s)
          }
      else Some (False, s))"

text \<open>The end of a connection that the peer has reset or that is closed.\<close>

definition tcp_finish ::
    "('x, 'm) tcp_link \<Rightarrow> nat \<Rightarrow> ('x, 'm) tcp_net \<Rightarrow> ('x, 'm) tcp_net option" where
  "tcp_finish l i s = do { s \<leftarrow> tcp_pcb_remove l Active i s; Some (free_tpcb i s) }"

text \<open>What follows \<open>tcp_process\<close>, up to the label \<open>aborted\<close>.\<close>

definition tcp_input_events ::
    "('x, 'm) tcp_link \<Rightarrow> ('x, 'm) tcp_vars_scheme tcp_app \<Rightarrow> nat \<Rightarrow> ('x, 'm) tcp_net \<Rightarrow> ('x, 'm) tcp_net option" where
  "tcp_input_events l a i s =
     (if got_flag TF_RESET s
      then do {
        s \<leftarrow> tcp_event_err a (t_errf (tpcb s i)) (t_callback_arg (tpcb s i)) ERR_RST s;
        tcp_finish l i s
      }
      else if got_flag TF_CLOSED s
      then do {
        s \<leftarrow> (if t_flags (tpcb s i) AND TF_RXCLOSED = 0
               then tcp_event_err a (t_errf (tpcb s i)) (t_callback_arg (tpcb s i)) ERR_CLSD s else Some s);
        tcp_finish l i s
      }
      else do {
        (err, s) \<leftarrow> (if t_acked (tpcb s i) > 0 then tcp_event_sent a i (t_acked (tpcb s i)) s else Some (ERR_OK, s));
        if err = ERR_ABRT then Some s
        else do {
          (aborted, s) \<leftarrow> tcp_deliver_data l a i s;
          if aborted then Some s
          else do {
            (aborted, s) \<leftarrow> tcp_deliver_fin l a i s;
            if aborted then Some s
            else do {
              (e, s) \<leftarrow> tcp_output l i (upd_tcp (\<lambda>v. v\<lparr>tcp_input_pcb := None\<rparr>) s);
              Some s
            }
          }
        }
      })"

definition PBUF_FLAG_PUSH :: u8_t where "PBUF_FLAG_PUSH = 0x01"

text \<open>A segment for the connection \<open>i\<close>.\<close>

definition tcp_segment_in ::
    "('x, 'm) tcp_link \<Rightarrow> ('x, 'm) tcp_vars_scheme tcp_app \<Rightarrow> nat \<Rightarrow> ptr \<Rightarrow> ('x, 'm) tcp_net \<Rightarrow> ('x, 'm) tcp_net option" where
  "tcp_segment_in l a i p s = do {
     let s = upd_tcp (\<lambda>v. v\<lparr>inseg_len := pb_tot_len (p_pbufs (n_mem s) p), inseg_p := Some p, recv_data := None, recv_flags := 0\<rparr>) s;
     let s = (if in_flag TCP_PSH s then upd_mem (upd_pbuf p (\<lambda>x. x\<lparr>pb_flags := pb_flags x OR PBUF_FLAG_PUSH\<rparr>)) s else s);
     (dropped, s) \<leftarrow>
       (if t_refused_data (tpcb s i) \<noteq> None
        then do {
          (err, s) \<leftarrow> tcp_process_refused_data l a i s;
          Some (err = ERR_ABRT \<or> t_refused_data (tpcb s i) \<noteq> None \<and> in_tcplen (n_dev s) > 0, s)
        }
        else Some (False, s));
     s \<leftarrow>
       (if dropped then Some s
        else do {
          (err, s) \<leftarrow> tcp_process l a i (upd_tcp (\<lambda>v. v\<lparr>tcp_input_pcb := Some i\<rparr>) s);
          if err \<noteq> ERR_ABRT then tcp_input_events l a i s else Some s
        });
     let s = upd_tcp (\<lambda>v. v\<lparr>tcp_input_pcb := None, recv_data := None\<rparr>) s;
     case inseg_p (n_dev s) of
       None \<Rightarrow> Some s
     | Some q \<Rightarrow> do { s \<leftarrow> free_mem l (Some q) s; Some (upd_tcp (\<lambda>v. v\<lparr>inseg_p := None\<rparr>) s) }
   }"

text \<open>The fields of the header in host order, and the variables for the segment.\<close>

definition tcp_in_header :: "ptr \<Rightarrow> ptr \<Rightarrow> ('x, 'm) tcp_net \<Rightarrow> ('x, 'm) tcp_net" where
  "tcp_in_header h p s =
     (let m = n_mem s;
          m = put16 h TCPH_SRC (lwip_ntohs (get16 h TCPH_SRC m)) m;
          m = put16 h TCPH_DEST (lwip_ntohs (get16 h TCPH_DEST m)) m;
          seqno = lwip_ntohl (get32 h TCPH_SEQNO m);
          m = put32 h TCPH_SEQNO seqno m;
          ackno = lwip_ntohl (get32 h TCPH_ACKNO m);
          m = put32 h TCPH_ACKNO ackno m;
          m = put16 h TCPH_WND (lwip_ntohs (get16 h TCPH_WND m)) m;
          flags = TCPH_FLAGS h m
      in upd_tcp (\<lambda>v. v\<lparr>in_tcphdr := h, in_seqno := seqno, in_ackno := ackno, in_flags := ucast flags,
           in_tcplen := c_u16 (pb_tot_len (p_pbufs m p) + (if flags AND (TCP_FIN OR TCP_SYN) \<noteq> 0 then 1 else 0))\<rparr>) (set_mem m s))"

text \<open>The segment goes to a connection, to one in \<open>TIME_WAIT\<close>, to a listening control block or is reset.\<close>

definition tcp_demux ::
    "('x, 'm) tcp_link \<Rightarrow> ('x, 'm) tcp_vars_scheme tcp_app \<Rightarrow> ptr \<Rightarrow> ('x, 'm) tcp_net \<Rightarrow> ('x, 'm) tcp_net option" where
  "tcp_demux l a p s =
     (let v = n_dev s;
          src = get16 (in_tcphdr v) TCPH_SRC (n_mem s);
          dest = get16 (in_tcphdr v) TCPH_DEST (n_mem s);
          P = tcp_match src dest (current_src v) (current_dest v)
      in do {
        (pcb, prev) \<leftarrow> tcp_find P (tcp_active_pcbs v) None s;
        case pcb of
          Some i \<Rightarrow> tcp_segment_in l a i p (tcp_to_front prev i s)
        | None \<Rightarrow> do {
            (pcb, prev) \<leftarrow> tcp_find P (tcp_tw_pcbs v) None s;
            case pcb of
              Some i \<Rightarrow> do { (e, s) \<leftarrow> tcp_timewait_input l i s; free_mem l (Some p) s }
            | None \<Rightarrow> do {
                (pcb, prev) \<leftarrow> lpcb_find (lpcb_match dest (current_dest v)) (tcp_listen_pcbs v) None s;
                case pcb of
                  Some j \<Rightarrow> do { (e, s) \<leftarrow> tcp_listen_input l a j (lpcb_to_front prev j s); free_mem l (Some p) s }
                | None \<Rightarrow> do {
                    s \<leftarrow> (if inseg_flags s AND TCP_RST = 0 then tcp_rst_reply l s else Some s);
                    free_mem l (Some p) s
                  }
              }
          }
      })"

definition tcp_input ::
    "('x, 'm) tcp_link \<Rightarrow> ('x, 'm) tcp_vars_scheme tcp_app \<Rightarrow> ptr \<Rightarrow> netif \<Rightarrow> ('x, 'm) tcp_net \<Rightarrow> ('x, 'm) tcp_net option" where
  "tcp_input l a p inp s =
     (let iphdr = payload_of p s;
          hlen = IPH_HL iphdr (n_mem s) * 4;
          tcphdr = ptr_add iphdr hlen
      in case pbuf_header (Some p) (- hlen) (n_mem s) of
           (True, m) \<Rightarrow> free_mem l (Some p) (set_mem m s)
         | (False, m) \<Rightarrow>
             let s = set_mem m s in
             if pb_tot_len (p_pbufs m p) < TCP_HLEN then free_mem l (Some p) s
             else if ip4_addr_isbroadcast (current_dest (n_dev s)) inp \<or> ip_addr_ismulticast (current_dest (n_dev s))
             then free_mem l (Some p) s
             else case pbuf_header (Some p) (- (TCPH_HDRLEN tcphdr m * 4)) m of
               (True, m) \<Rightarrow> free_mem l (Some p) (set_mem m s)
             | (False, m) \<Rightarrow> tcp_demux l a p (tcp_in_header tcphdr p (set_mem m s)))"

end
