(* ===== verification/Netif.thy ===== *)
theory Netif
  imports TcpIn Udp
begin

text \<open>
  Network interfaces and the state of the DHCP client: \<open>core/netif.c\<close> and the structures of \<open>lwip/netif.h\<close> and
  \<open>lwip/dhcp.h\<close>.  An interface is named by its number; the structures linked from \<open>netif_list\<close> are the elements
  of a list (\<open>netif_list\<close> of IpOut), with the name of each and its DHCP client beside it.  \<open>netif->dhcp->pcb\<close> is
  the component \<open>dhcp_pcb\<close> of UDP.  Operations on an interface that is not in the list have no result.  Neither
  SNMP, IGMP, AutoIP nor the callbacks of interfaces are compiled in, and there is no loopback interface.
\<close>

section \<open>State\<close>

datatype dhcp_state = DHCP_OFF | DHCP_REQUESTING | DHCP_INIT | DHCP_REBOOTING | DHCP_REBINDING | DHCP_RENEWING
  | DHCP_SELECTING | DHCP_INFORMING | DHCP_CHECKING | DHCP_PERMANENT | DHCP_BOUND | DHCP_BACKING_OFF

record dhcp =
  d_mem :: ptr
  d_xid :: u32_t
  d_msg_in :: "ptr option"
  d_state :: dhcp_state
  d_tries :: int
  d_subnet_mask_given :: bool
  d_p_out :: "ptr option"
  d_msg_out :: ptr
  d_options_out_len :: int
  d_request_timeout :: int
  d_t1_timeout :: int
  d_t2_timeout :: int
  d_server_ip_addr :: u32_t
  d_offered_ip_addr :: u32_t
  d_offered_sn_mask :: u32_t
  d_offered_gw_addr :: u32_t
  d_offered_t0_lease :: u32_t
  d_offered_t1_renew :: u32_t
  d_offered_t2_rebind :: u32_t

text \<open>
  The counter \<open>netif_num\<close>, the names, the DHCP clients, and the variables of \<open>dhcp.c\<close>: the transaction
  identifier of \<open>dhcp_create_msg\<close> and the options of the message being parsed.
\<close>

record 'x lwip_vars = "'x tcp_vars" +
  netif_num :: int
  netif_name :: "int \<Rightarrow> u8_t \<times> u8_t"
  netif_dhcp :: "int \<Rightarrow> dhcp option"
  dhcp_global_xid :: u32_t
  dhcp_rx_options_val :: "nat \<Rightarrow> u32_t"
  dhcp_rx_options_given :: "nat \<Rightarrow> bool"

type_synonym ('x, 'm) lwip_net = "('x, 'm) lwip_vars_scheme net"
type_synonym ('x, 'm) lwip_link = "('x, 'm) lwip_vars_scheme link_if"
type_synonym ('x, 'm) lwip_app = "('x, 'm) lwip_vars_scheme tcp_app"

definition upd_lwip :: "(('x, 'm) lwip_vars_scheme \<Rightarrow> ('x, 'm) lwip_vars_scheme) \<Rightarrow> ('x, 'm) lwip_net \<Rightarrow> ('x, 'm) lwip_net" where
  "upd_lwip f s = s\<lparr>n_dev := f (n_dev s)\<rparr>"

definition the_netif :: "int \<Rightarrow> ('x, 'm) lwip_net \<Rightarrow> netif option" where
  "the_netif k s = netif_of k (netif_list (n_dev s))"

definition upd_netif :: "int \<Rightarrow> (netif \<Rightarrow> netif) \<Rightarrow> ('x, 'm) lwip_net \<Rightarrow> ('x, 'm) lwip_net" where
  "upd_netif k f = upd_lwip (\<lambda>v. v\<lparr>netif_list := map (\<lambda>n. if nif_num n = k then f n else n) (netif_list v)\<rparr>)"

definition NETIF_FLAG_DHCP :: u8_t where "NETIF_FLAG_DHCP = 0x08"

section \<open>Addresses\<close>

text \<open>The two walks of \<open>netif_set_ipaddr\<close>: the connections of the old address are aborted, listening
  control blocks bound to it get the new one.\<close>

partial_function (option) netif_abort_loop ::
    "('x, 'm) lwip_link \<Rightarrow> ('x, 'm) lwip_app \<Rightarrow> u32_t \<Rightarrow> nat option \<Rightarrow> ('x, 'm) lwip_net \<Rightarrow> ('x, 'm) lwip_net option" where
  "netif_abort_loop l a old pcb s =
     (case pcb of None \<Rightarrow> Some s
      | Some i \<Rightarrow>
          let nxt = t_next (tpcb s i) in
          if t_local_ip (tpcb s i) = old
          then do { s \<leftarrow> tcp_abort l a i s; netif_abort_loop l a old nxt s }
          else netif_abort_loop l a old nxt s)"

partial_function (option) netif_listen_loop ::
    "u32_t \<Rightarrow> u32_t \<Rightarrow> nat option \<Rightarrow> ('x, 'm) lwip_net \<Rightarrow> ('x, 'm) lwip_net option" where
  "netif_listen_loop old ipaddr pcb s =
     (case pcb of None \<Rightarrow> Some s
      | Some i \<Rightarrow>
          let s = (if l_local_ip (lpcb s i) \<noteq> IPADDR_ANY \<and> l_local_ip (lpcb s i) = old
                   then upd_lpcb i (\<lambda>b. b\<lparr>l_local_ip := ipaddr\<rparr>) s else s)
          in netif_listen_loop old ipaddr (l_next (lpcb s i)) s)"

definition netif_readdress ::
    "('x, 'm) lwip_link \<Rightarrow> ('x, 'm) lwip_app \<Rightarrow> u32_t \<Rightarrow> u32_t option \<Rightarrow> ('x, 'm) lwip_net \<Rightarrow> ('x, 'm) lwip_net option" where
  "netif_readdress l a old ipaddr s =
     (case ipaddr of
        None \<Rightarrow> Some s
      | Some ip \<Rightarrow>
          if ip \<noteq> old
          then do { s \<leftarrow> netif_abort_loop l a old (tcp_active_pcbs (n_dev s)) s;
                    netif_listen_loop old ip (tcp_listen_pcbs (n_dev s)) s }
          else Some s)"

text \<open>\<open>ip_addr_set\<close>: a null pointer sets zero.\<close>

definition ip_addr_set :: "u32_t option \<Rightarrow> u32_t" where
  "ip_addr_set src = (case src of None \<Rightarrow> 0 | Some w \<Rightarrow> w)"

definition netif_set_ipaddr ::
    "('x, 'm) lwip_link \<Rightarrow> ('x, 'm) lwip_app \<Rightarrow> int \<Rightarrow> u32_t option \<Rightarrow> ('x, 'm) lwip_net \<Rightarrow> ('x, 'm) lwip_net option" where
  "netif_set_ipaddr l a k ipaddr s = do {
     n \<leftarrow> the_netif k s;
     s \<leftarrow> netif_readdress l a (nif_ip_addr n) ipaddr s;
     Some (upd_netif k (\<lambda>n. n\<lparr>nif_ip_addr := ip_addr_set ipaddr\<rparr>) s)
   }"

definition netif_set_gw :: "int \<Rightarrow> u32_t option \<Rightarrow> ('x, 'm) lwip_net \<Rightarrow> ('x, 'm) lwip_net" where
  "netif_set_gw k gw = upd_netif k (\<lambda>n. n\<lparr>nif_gw := ip_addr_set gw\<rparr>)"

definition netif_set_netmask :: "int \<Rightarrow> u32_t option \<Rightarrow> ('x, 'm) lwip_net \<Rightarrow> ('x, 'm) lwip_net" where
  "netif_set_netmask k netmask = upd_netif k (\<lambda>n. n\<lparr>nif_netmask := ip_addr_set netmask\<rparr>)"

definition netif_set_addr ::
    "('x, 'm) lwip_link \<Rightarrow> ('x, 'm) lwip_app \<Rightarrow> int \<Rightarrow> u32_t option \<Rightarrow> u32_t option \<Rightarrow> u32_t option \<Rightarrow>
     ('x, 'm) lwip_net \<Rightarrow> ('x, 'm) lwip_net option" where
  "netif_set_addr l a k ipaddr netmask gw s = do {
     s \<leftarrow> netif_set_ipaddr l a k ipaddr s;
     Some (netif_set_gw k gw (netif_set_netmask k netmask s))
   }"

section \<open>The list of interfaces\<close>

text \<open>
  \<open>netif_add\<close>: until the end the new structure is not in the list, so its fields are built in a record;
  \<open>init\<close> gets it and returns it.  The result is the number of the interface, or nothing for \<open>NULL\<close>.
\<close>

definition netif_add ::
    "('x, 'm) lwip_link \<Rightarrow> ('x, 'm) lwip_app \<Rightarrow> netif \<Rightarrow> u32_t option \<Rightarrow> u32_t option \<Rightarrow> u32_t option \<Rightarrow>
     (netif \<Rightarrow> ('x, 'm) lwip_net \<Rightarrow> (err_t \<times> netif \<times> ('x, 'm) lwip_net) option) \<Rightarrow>
     ('x, 'm) lwip_net \<Rightarrow> (int option \<times> ('x, 'm) lwip_net) option" where
  "netif_add l a n ipaddr netmask gw init s = do {
     let k = netif_num (n_dev s);
     let n = n\<lparr>nif_ip_addr := 0, nif_netmask := 0, nif_gw := 0, nif_flags := 0, nif_num := k\<rparr>;
     let s = upd_lwip (\<lambda>v. v\<lparr>netif_num := c_u8 (netif_num v + 1), netif_dhcp := (netif_dhcp v)(k := None), dhcp_pcb := (dhcp_pcb v)(k := None)\<rparr>) s;
     s \<leftarrow> netif_readdress l a (nif_ip_addr n) ipaddr s;
     let n = n\<lparr>nif_ip_addr := ip_addr_set ipaddr, nif_netmask := ip_addr_set netmask, nif_gw := ip_addr_set gw\<rparr>;
     (err, n, s) \<leftarrow> init n s;
     if err \<noteq> ERR_OK then Some (None, s)
     else Some (Some k, upd_lwip (\<lambda>v. v\<lparr>netif_list := n # netif_list v\<rparr>) s)
   }"

definition netif_set_default :: "int option \<Rightarrow> ('x, 'm) lwip_net \<Rightarrow> ('x, 'm) lwip_net" where
  "netif_set_default k = upd_lwip (\<lambda>v. v\<lparr>netif_default := k\<rparr>)"

definition netif_set_up :: "('x, 'm) lwip_link \<Rightarrow> int \<Rightarrow> ('x, 'm) lwip_net \<Rightarrow> ('x, 'm) lwip_net option" where
  "netif_set_up l k s = do {
     n \<leftarrow> the_netif k s;
     if nif_flags n AND NETIF_FLAG_UP = 0
     then do {
       let n = n\<lparr>nif_flags := nif_flags n OR NETIF_FLAG_UP\<rparr>;
       let s = upd_netif k (\<lambda>b. b\<lparr>nif_flags := nif_flags b OR NETIF_FLAG_UP\<rparr>) s;
       if nif_flags n AND NETIF_FLAG_LINK_UP \<noteq> 0 \<and> nif_flags n AND NETIF_FLAG_ETHARP \<noteq> 0
       then do { (e, s) \<leftarrow> etharp_request l n (nif_ip_addr n) s; Some s }
       else Some s
     }
     else Some s
   }"

definition netif_set_down :: "('x, 'm) lwip_link \<Rightarrow> int \<Rightarrow> ('x, 'm) lwip_net \<Rightarrow> ('x, 'm) lwip_net option" where
  "netif_set_down l k s = do {
     n \<leftarrow> the_netif k s;
     if nif_flags n AND NETIF_FLAG_UP \<noteq> 0
     then do {
       let s = upd_netif k (\<lambda>b. b\<lparr>nif_flags := nif_flags b AND NOT NETIF_FLAG_UP\<rparr>) s;
       if nif_flags n AND NETIF_FLAG_ETHARP \<noteq> 0 then etharp_cleanup_netif l n s else Some s
     }
     else Some s
   }"

definition netif_remove :: "('x, 'm) lwip_link \<Rightarrow> int \<Rightarrow> ('x, 'm) lwip_net \<Rightarrow> ('x, 'm) lwip_net option" where
  "netif_remove l k s = do {
     n \<leftarrow> the_netif k s;
     s \<leftarrow> (if netif_is_up n then netif_set_down l k s else Some s);
     let s = upd_lwip (\<lambda>v. v\<lparr>netif_list := filter (\<lambda>n. nif_num n \<noteq> k) (netif_list v)\<rparr>) s;
     Some (if netif_default (n_dev s) = Some k then netif_set_default None s else s)
   }"

definition netif_set_link_down :: "int \<Rightarrow> ('x, 'm) lwip_net \<Rightarrow> ('x, 'm) lwip_net" where
  "netif_set_link_down k = upd_netif k (\<lambda>b.
     if nif_flags b AND NETIF_FLAG_LINK_UP \<noteq> 0 then b\<lparr>nif_flags := nif_flags b AND NOT NETIF_FLAG_LINK_UP\<rparr> else b)"

text \<open>\<open>name\<close> is a null pointer, or its first three characters.\<close>

definition netif_find :: "(u8_t \<times> u8_t \<times> u8_t) option \<Rightarrow> ('x, 'm) lwip_net \<Rightarrow> netif option" where
  "netif_find name s =
     (case name of None \<Rightarrow> None
      | Some (c0, c1, c2) \<Rightarrow>
          let num = uint (c2 - 48)
          in List.find (\<lambda>n. num = nif_num n \<and> netif_name (n_dev s) (nif_num n) = (c0, c1)) (netif_list (n_dev s)))"

end
