(* ===== verification/Timers.thy ===== *)
theory Timers
  imports MemPool "HOL-Library.Multiset"
begin

text \<open>
  The timeout list of \<open>core/timers.c\<close> (\<open>NO_SYS == 1\<close>): one-shot timers kept as a list
  of differences, each timer in an element of the pool \<open>MEMP_SYS_TIMEOUT\<close>, and the cyclic
  timers of the stack.  The \<open>next\<close> links are the order of the list; a timer carries its
  pool element \<open>tmo_id\<close>.  Times are \<open>u32_t\<close> milliseconds, \<open>sys_now()\<close> is an argument,
  and the handlers of other modules are the fields of \<open>timer_env\<close>; they get and return
  the whole state, because they may start and stop timers themselves.
\<close>

section \<open>State\<close>

datatype sys_timeout_handler = Tcpip_tcp_timer | Ip_reass_timer | Arp_timer
  | Dhcp_timer_coarse | Dhcp_timer_fine | App_timer nat

record sys_timeo =
  tmo_id :: nat
  tmo_time :: int
  tmo_h :: "sys_timeout_handler option"
  tmo_arg :: int

record 'w timers =
  next_timeout :: "sys_timeo list"
  timeouts_last_time :: int
  tcpip_tcp_timer_active :: bool
  tm_pools :: memp_state
  tm_world :: 'w

record 'w timer_env =
  env_tcp_tmr :: "'w timers \<Rightarrow> 'w timers"
  env_ip_reass_tmr :: "'w timers \<Rightarrow> 'w timers"
  env_etharp_tmr :: "'w timers \<Rightarrow> 'w timers"
  env_dhcp_coarse_tmr :: "'w timers \<Rightarrow> 'w timers"
  env_dhcp_fine_tmr :: "'w timers \<Rightarrow> 'w timers"
  env_tcp_pcbs :: "'w timers \<Rightarrow> bool"
  env_app :: "nat \<Rightarrow> int \<Rightarrow> 'w timers \<Rightarrow> 'w timers"

definition TCP_TMR_INTERVAL :: int where "TCP_TMR_INTERVAL = 250"
definition IP_TMR_INTERVAL :: int where "IP_TMR_INTERVAL = 1000"
definition ARP_TMR_INTERVAL :: int where "ARP_TMR_INTERVAL = 5000"
definition DHCP_COARSE_TIMER_MSECS :: int where "DHCP_COARSE_TIMER_MSECS = 60 * 1000"
definition DHCP_FINE_TIMER_MSECS :: int where "DHCP_FINE_TIMER_MSECS = 500"

lemmas tmr_intervals = TCP_TMR_INTERVAL_def IP_TMR_INTERVAL_def ARP_TMR_INTERVAL_def
  DHCP_COARSE_TIMER_MSECS_def DHCP_FINE_TIMER_MSECS_def

section \<open>Starting and stopping a timer\<close>

text \<open>The loop of \<open>sys_timeout\<close> from the current timer \<open>t\<close>, the head of the list.\<close>

fun sys_timeout_loop :: "sys_timeo \<Rightarrow> sys_timeo list \<Rightarrow> sys_timeo list" where
  "sys_timeout_loop tmo [] = []"
| "sys_timeout_loop tmo (t # ts) =
     (let tmo = tmo\<lparr>tmo_time := c_u32 (tmo_time tmo - tmo_time t)\<rparr>
      in case ts of
           [] \<Rightarrow> [t, tmo]
         | n # ns \<Rightarrow>
             if tmo_time n > tmo_time tmo
             then t # tmo # n\<lparr>tmo_time := c_u32 (tmo_time n - tmo_time tmo)\<rparr> # ns
             else t # sys_timeout_loop tmo ts)"

definition sys_timeout :: "int \<Rightarrow> sys_timeout_handler option \<Rightarrow> int \<Rightarrow> 'w timers \<Rightarrow> 'w timers" where
  "sys_timeout msecs handler arg s =
     (case memp_malloc MEMP_SYS_TIMEOUT (tm_pools s) of
        (None, ps) \<Rightarrow> s\<lparr>tm_pools := ps\<rparr>
      | (Some i, ps) \<Rightarrow>
          let s = s\<lparr>tm_pools := ps\<rparr>;
              timeout = \<lparr>tmo_id = i, tmo_time = msecs, tmo_h = handler, tmo_arg = arg\<rparr>
          in case next_timeout s of
               [] \<Rightarrow> s\<lparr>next_timeout := [timeout]\<rparr>
             | t # ts \<Rightarrow>
                 if tmo_time t > msecs
                 then s\<lparr>next_timeout := timeout # t\<lparr>tmo_time := c_u32 (tmo_time t - msecs)\<rparr> # ts\<rparr>
                 else s\<lparr>next_timeout := sys_timeout_loop timeout (t # ts)\<rparr>)"

text \<open>
  The loop of \<open>sys_untimeout\<close>: the list without the first match, and the pool element of
  the match.
\<close>

fun sys_untimeout_loop :: "sys_timeout_handler option \<Rightarrow> int \<Rightarrow> sys_timeo list \<Rightarrow> sys_timeo list \<times> nat option" where
  "sys_untimeout_loop handler arg [] = ([], None)"
| "sys_untimeout_loop handler arg (t # ts) =
     (if tmo_h t = handler \<and> tmo_arg t = arg
      then (case ts of
              [] \<Rightarrow> ([], Some (tmo_id t))
            | n # ns \<Rightarrow> (n\<lparr>tmo_time := c_u32 (tmo_time n + tmo_time t)\<rparr> # ns, Some (tmo_id t)))
      else (case sys_untimeout_loop handler arg ts of (ts', r) \<Rightarrow> (t # ts', r)))"

definition sys_untimeout :: "sys_timeout_handler option \<Rightarrow> int \<Rightarrow> 'w timers \<Rightarrow> 'w timers" where
  "sys_untimeout handler arg s =
     (case sys_untimeout_loop handler arg (next_timeout s) of
        (ts, None) \<Rightarrow> s
      | (ts, Some i) \<Rightarrow> s\<lparr>next_timeout := ts, tm_pools := memp_free MEMP_SYS_TIMEOUT (Some i) (tm_pools s)\<rparr>)"

section \<open>Handlers\<close>

definition tcpip_tcp_timer :: "'w timer_env \<Rightarrow> 'w timers \<Rightarrow> 'w timers" where
  "tcpip_tcp_timer e s =
     (let s = env_tcp_tmr e s
      in if env_tcp_pcbs e s
         then sys_timeout TCP_TMR_INTERVAL (Some Tcpip_tcp_timer) 0 s
         else s\<lparr>tcpip_tcp_timer_active := False\<rparr>)"

definition tcp_timer_needed :: "'w timer_env \<Rightarrow> 'w timers \<Rightarrow> 'w timers" where
  "tcp_timer_needed e s =
     (if \<not> tcpip_tcp_timer_active s \<and> env_tcp_pcbs e s
      then sys_timeout TCP_TMR_INTERVAL (Some Tcpip_tcp_timer) 0 (s\<lparr>tcpip_tcp_timer_active := True\<rparr>)
      else s)"

definition ip_reass_timer :: "'w timer_env \<Rightarrow> 'w timers \<Rightarrow> 'w timers" where
  "ip_reass_timer e s = sys_timeout IP_TMR_INTERVAL (Some Ip_reass_timer) 0 (env_ip_reass_tmr e s)"

definition arp_timer :: "'w timer_env \<Rightarrow> 'w timers \<Rightarrow> 'w timers" where
  "arp_timer e s = sys_timeout ARP_TMR_INTERVAL (Some Arp_timer) 0 (env_etharp_tmr e s)"

definition dhcp_timer_coarse :: "'w timer_env \<Rightarrow> 'w timers \<Rightarrow> 'w timers" where
  "dhcp_timer_coarse e s =
     sys_timeout DHCP_COARSE_TIMER_MSECS (Some Dhcp_timer_coarse) 0 (env_dhcp_coarse_tmr e s)"

definition dhcp_timer_fine :: "'w timer_env \<Rightarrow> 'w timers \<Rightarrow> 'w timers" where
  "dhcp_timer_fine e s =
     sys_timeout DHCP_FINE_TIMER_MSECS (Some Dhcp_timer_fine) 0 (env_dhcp_fine_tmr e s)"

fun call_handler :: "'w timer_env \<Rightarrow> sys_timeout_handler \<Rightarrow> int \<Rightarrow> 'w timers \<Rightarrow> 'w timers" where
  "call_handler e Tcpip_tcp_timer arg s = tcpip_tcp_timer e s"
| "call_handler e Ip_reass_timer arg s = ip_reass_timer e s"
| "call_handler e Arp_timer arg s = arp_timer e s"
| "call_handler e Dhcp_timer_coarse arg s = dhcp_timer_coarse e s"
| "call_handler e Dhcp_timer_fine arg s = dhcp_timer_fine e s"
| "call_handler e (App_timer n) arg s = env_app e n arg s"

definition sys_timeouts_init :: "int \<Rightarrow> 'w timers \<Rightarrow> 'w timers" where
  "sys_timeouts_init now s =
     (let s = sys_timeout IP_TMR_INTERVAL (Some Ip_reass_timer) 0 s;
          s = sys_timeout ARP_TMR_INTERVAL (Some Arp_timer) 0 s;
          s = sys_timeout DHCP_COARSE_TIMER_MSECS (Some Dhcp_timer_coarse) 0 s;
          s = sys_timeout DHCP_FINE_TIMER_MSECS (Some Dhcp_timer_fine) 0 s
      in s\<lparr>timeouts_last_time := now\<rparr>)"

section \<open>Running expired timers\<close>

text \<open>
  The do-while loop of \<open>sys_check_timeouts\<close>; it goes on as long as a timer has expired,
  which handlers that start timers of 0 ms can keep up for ever: then the value is \<open>None\<close>.
\<close>

definition sys_fire :: "'w timer_env \<Rightarrow> int \<Rightarrow> sys_timeo \<Rightarrow> sys_timeo list \<Rightarrow> 'w timers \<Rightarrow> 'w timers" where
  "sys_fire e now t ts s =
     (let s = s\<lparr>timeouts_last_time := now, next_timeout := ts,
                tm_pools := memp_free MEMP_SYS_TIMEOUT (Some (tmo_id t)) (tm_pools s)\<rparr>
      in case tmo_h t of None \<Rightarrow> s | Some h \<Rightarrow> call_handler e h (tmo_arg t) s)"

partial_function (option) sys_check_loop :: "'w timer_env \<Rightarrow> int \<Rightarrow> int \<Rightarrow> 'w timers \<Rightarrow> 'w timers option" where
  "sys_check_loop e now diff s =
     (case next_timeout s of
        [] \<Rightarrow> Some s
      | t # ts \<Rightarrow>
          if tmo_time t \<le> diff
          then sys_check_loop e now (c_u32 (diff - tmo_time t)) (sys_fire e now t ts s)
          else Some s)"

definition sys_check_timeouts :: "'w timer_env \<Rightarrow> int \<Rightarrow> 'w timers \<Rightarrow> 'w timers option" where
  "sys_check_timeouts e now s =
     (if next_timeout s = [] then Some s
      else sys_check_loop e now (c_u32 (now - timeouts_last_time s)) s)"

definition sys_restart_timeouts :: "int \<Rightarrow> 'w timers \<Rightarrow> 'w timers" where
  "sys_restart_timeouts now s = s\<lparr>timeouts_last_time := now\<rparr>"

section \<open>Absolute expiry times\<close>

text \<open>
  The specification of the list: its timers with the time left until each expires,
  counted from \<open>timeouts_last_time\<close>.
\<close>

fun expiries :: "int \<Rightarrow> sys_timeo list \<Rightarrow> (int \<times> sys_timeout_handler option \<times> int) list" where
  "expiries b [] = []"
| "expiries b (t # ts) = (b + tmo_time t, tmo_h t, tmo_arg t) # expiries (b + tmo_time t) ts"

fun place :: "int \<times> 'x \<Rightarrow> (int \<times> 'x) list \<Rightarrow> (int \<times> 'x) list" where
  "place x [] = [x]"
| "place x (y # ys) = (if fst x < fst y then x # y # ys else y # place x ys)"

fun drop_first :: "('x \<Rightarrow> bool) \<Rightarrow> 'x list \<Rightarrow> 'x list" where
  "drop_first p [] = []"
| "drop_first p (x # xs) = (if p x then xs else x # drop_first p xs)"

fun deltas_ok :: "int \<Rightarrow> sys_timeo list \<Rightarrow> bool" where
  "deltas_ok b [] \<longleftrightarrow> True"
| "deltas_ok b (t # ts) \<longleftrightarrow> 0 \<le> tmo_time t \<and> b + tmo_time t < 4294967296 \<and> deltas_ok (b + tmo_time t) ts"

lemma deltas_ok_shift: "deltas_ok b ts \<Longrightarrow> c \<le> b \<Longrightarrow> deltas_ok c ts"
  by (induction ts arbitrary: b c) fastforce+

lemma place_mset: "set (place x xs) = insert x (set xs)" "length (place x xs) = Suc (length xs)"
  by (induction xs) auto

lemma expiries_ge: "deltas_ok b ts \<Longrightarrow> x \<in> set (expiries b ts) \<Longrightarrow> b \<le> fst x"
proof (induction ts arbitrary: b)
  case (Cons t ts)
  then show ?case by fastforce
qed simp

lemma expiries_sorted: "deltas_ok b ts \<Longrightarrow> sorted (map fst (expiries b ts))"
proof (induction ts arbitrary: b)
  case (Cons t ts)
  then show ?case using expiries_ge [of "b + tmo_time t" ts] by force
qed simp

lemma sys_timeout_loop_spec:
  "deltas_ok b (t # ts) \<Longrightarrow> 0 \<le> b \<Longrightarrow> tmo_time t \<le> tmo_time tmo \<Longrightarrow> b + tmo_time tmo < 4294967296 \<Longrightarrow>
     deltas_ok b (sys_timeout_loop tmo (t # ts)) \<and>
     expiries b (sys_timeout_loop tmo (t # ts)) =
       place (b + tmo_time tmo, tmo_h tmo, tmo_arg tmo) (expiries b (t # ts)) \<and>
     mset (map tmo_id (sys_timeout_loop tmo (t # ts))) = add_mset (tmo_id tmo) (mset (map tmo_id (t # ts)))"
proof (induction ts arbitrary: b t tmo)
  case Nil
  then show ?case by (simp add: c_conv)
next
  case (Cons n ns)
  let ?tmo = "tmo\<lparr>tmo_time := tmo_time tmo - tmo_time t\<rparr>"
  have c: "c_u32 (tmo_time tmo - tmo_time t) = tmo_time tmo - tmo_time t"
    using Cons.prems by (intro c_u32_id) auto
  show ?case
  proof (cases "tmo_time n > tmo_time ?tmo")
    case True
    have c2: "c_u32 (tmo_time n - (tmo_time tmo - tmo_time t)) = tmo_time n - (tmo_time tmo - tmo_time t)"
      using Cons.prems True by (intro c_u32_id) auto
    from True Cons.prems show ?thesis by (simp add: c c2 add_ac)
  next
    case False
    have "deltas_ok (b + tmo_time t) (n # ns)" "0 \<le> b + tmo_time t" "tmo_time n \<le> tmo_time ?tmo"
      "b + tmo_time t + tmo_time ?tmo < 4294967296"
      using Cons.prems False by auto
    from Cons.IH [OF this] False Cons.prems show ?thesis by (simp add: c)
  qed
qed

section \<open>The timer pool\<close>

definition timers_ok :: "'w timers \<Rightarrow> bool" where
  "timers_ok s \<longleftrightarrow> deltas_ok 0 (next_timeout s) \<and>
     (\<exists>xs. free_list MEMP_SYS_TIMEOUT (tm_pools s) xs \<and>
        mset xs + mset (map tmo_id (next_timeout s)) = mset [0..<memp_num MEMP_SYS_TIMEOUT])"

lemma timers_ok_length: "timers_ok s \<Longrightarrow> length (next_timeout s) \<le> 8"
proof -
  assume "timers_ok s"
  then obtain xs where "mset xs + mset (map tmo_id (next_timeout s)) = mset [0..<memp_num MEMP_SYS_TIMEOUT]"
    by (auto simp: timers_ok_def)
  from arg_cong [OF this, of size] show ?thesis by simp
qed

definition add_expiry ::
    "int \<Rightarrow> sys_timeout_handler option \<Rightarrow> int \<Rightarrow> (int \<times> sys_timeout_handler option \<times> int) list
      \<Rightarrow> (int \<times> sys_timeout_handler option \<times> int) list" where
  "add_expiry msecs h arg xs = (if length xs = 8 then xs else place (msecs, h, arg) xs)"

lemma length_expiries [simp]: "length (expiries b ts) = length ts"
  by (induction ts arbitrary: b) auto

lemma sys_timeout_full:
  "timers_ok s \<Longrightarrow> length (next_timeout s) = 8 \<Longrightarrow> sys_timeout msecs h arg s = s"
proof -
  assume ok: "timers_ok s" and l: "length (next_timeout s) = 8"
  then obtain xs where xs: "free_list MEMP_SYS_TIMEOUT (tm_pools s) xs"
    "mset xs + mset (map tmo_id (next_timeout s)) = mset [0..<memp_num MEMP_SYS_TIMEOUT]"
    by (auto simp: timers_ok_def)
  from arg_cong [OF xs(2), of size] l have "xs = []" by simp
  with xs(1) pool.get_empty show ?thesis by (simp add: sys_timeout_def)
qed

lemma sys_timeout_spec:
  assumes ok: "timers_ok s" and m: "0 \<le> msecs" "msecs < 4294967296"
  shows "timers_ok (sys_timeout msecs h arg s) \<and>
    expiries 0 (next_timeout (sys_timeout msecs h arg s)) = add_expiry msecs h arg (expiries 0 (next_timeout s))"
proof (cases "length (next_timeout s) = 8")
  case True
  with sys_timeout_full [OF ok True] ok show ?thesis by (simp add: add_expiry_def)
next
  case False
  obtain xs where xs: "free_list MEMP_SYS_TIMEOUT (tm_pools s) xs"
    "mset xs + mset (map tmo_id (next_timeout s)) = mset [0..<memp_num MEMP_SYS_TIMEOUT]"
    using ok by (auto simp: timers_ok_def)
  have d: "deltas_ok 0 (next_timeout s)" using ok by (simp add: timers_ok_def)
  from arg_cong [OF xs(2), of size] False have "xs \<noteq> []" by auto
  then obtain i ys where i: "xs = i # ys" by (cases xs) auto
  then obtain ps where ps: "memp_malloc MEMP_SYS_TIMEOUT (tm_pools s) = (Some i, ps)" "free_list MEMP_SYS_TIMEOUT ps ys"
    using pool.get_first xs(1) by blast
  let ?tmo = "\<lparr>tmo_id = i, tmo_time = msecs, tmo_h = h, tmo_arg = arg\<rparr>"
  let ?s = "sys_timeout msecs h arg s"
  have "tm_pools ?s = ps"
    by (simp add: sys_timeout_def ps(1) Let_def split: list.split)
  moreover have "deltas_ok 0 (next_timeout ?s) \<and>
      expiries 0 (next_timeout ?s) = place (msecs, h, arg) (expiries 0 (next_timeout s)) \<and>
      mset (map tmo_id (next_timeout ?s)) = add_mset i (mset (map tmo_id (next_timeout s)))"
  proof (cases "next_timeout s")
    case Nil
    with m show ?thesis by (simp add: sys_timeout_def ps(1))
  next
    case (Cons t ts)
    show ?thesis
    proof (cases "tmo_time t > msecs")
      case True
      have "c_u32 (tmo_time t - msecs) = tmo_time t - msecs"
        using d Cons m True by (intro c_u32_id) auto
      with True Cons d m show ?thesis by (simp add: sys_timeout_def ps(1))
    next
      case False
      with sys_timeout_loop_spec [of 0 t ts ?tmo] Cons d m show ?thesis
        by (simp add: sys_timeout_def ps(1) del: sys_timeout_loop.simps expiries.simps)
    qed
  qed
  ultimately show ?thesis
    using xs(2) i ps(2) False by (auto simp: timers_ok_def add_expiry_def)
qed

lemma sys_untimeout_loop_spec:
  "deltas_ok b ts \<Longrightarrow> 0 \<le> b \<Longrightarrow> sys_untimeout_loop h arg ts = (ts', r) \<Longrightarrow>
     deltas_ok b ts' \<and>
     expiries b ts' = drop_first (\<lambda>x. snd x = (h, arg)) (expiries b ts) \<and>
     (case r of None \<Rightarrow> ts' = ts
      | Some i \<Rightarrow> mset (map tmo_id ts) = add_mset i (mset (map tmo_id ts')))"
proof (induction ts arbitrary: b ts' r)
  case (Cons t ts)
  show ?case
  proof (cases "tmo_h t = h \<and> tmo_arg t = arg")
    case True
    show ?thesis
    proof (cases ts)
      case Nil
      with True Cons.prems show ?thesis by auto
    next
      case (Cons n ns)
      with Cons.prems have "c_u32 (tmo_time n + tmo_time t) = tmo_time n + tmo_time t"
        by (intro c_u32_id) auto
      with True Cons Cons.prems show ?thesis by (auto simp: algebra_simps)
    qed
  next
    case False
    obtain us q where u: "sys_untimeout_loop h arg ts = (us, q)" by fastforce
    with Cons.IH [of "b + tmo_time t" us q] Cons.prems False show ?thesis
      by (auto split: option.splits)
  qed
qed simp

lemma mset_pool_free:
  assumes "free_list t ps xs" "mset xs + M = mset [0..<memp_num t]" "M = add_mset i N"
  shows "free_list t (memp_free t (Some i) ps) (i # xs) \<and> mset (i # xs) + N = mset [0..<memp_num t]"
proof -
  from assms(2,3) have m: "mset (i # xs) + N = mset [0..<memp_num t]" by simp
  have "mset (i # xs @ sorted_list_of_multiset N) = mset [0..<memp_num t]" using m by simp
  from mset_eq_imp_distinct_iff [OF this] mset_eq_setD [OF this]
  have "distinct (i # xs @ sorted_list_of_multiset N)" "set (i # xs @ sorted_list_of_multiset N) = {0..<memp_num t}"
    by simp_all
  then have "i \<notin> set xs" "i < memp_num t" by auto
  then show ?thesis using m pool.put_back [OF assms(1)] by simp
qed

lemma sys_untimeout_spec:
  assumes ok: "timers_ok s"
  shows "timers_ok (sys_untimeout h arg s) \<and>
    expiries 0 (next_timeout (sys_untimeout h arg s)) = drop_first (\<lambda>x. snd x = (h, arg)) (expiries 0 (next_timeout s))"
proof -
  obtain ts r where l: "sys_untimeout_loop h arg (next_timeout s) = (ts, r)" by fastforce
  obtain xs where xs: "free_list MEMP_SYS_TIMEOUT (tm_pools s) xs"
    "mset xs + mset (map tmo_id (next_timeout s)) = mset [0..<memp_num MEMP_SYS_TIMEOUT]"
    using ok by (auto simp: timers_ok_def)
  have d: "deltas_ok 0 (next_timeout s)" using ok by (simp add: timers_ok_def)
  note sp = sys_untimeout_loop_spec [OF d order_refl l]
  show ?thesis
  proof (cases r)
    case None
    with sp have e: "expiries 0 ts = drop_first (\<lambda>x. snd x = (h, arg)) (expiries 0 (next_timeout s))" "ts = next_timeout s"
      by blast (use sp None in auto)
    from None l have "sys_untimeout h arg s = s" by (simp add: sys_untimeout_def)
    with ok e(1) [unfolded e(2)] show ?thesis by simp
  next
    case (Some i)
    with sp have "mset (map tmo_id (next_timeout s)) = add_mset i (mset (map tmo_id ts))" by simp
    from mset_pool_free [OF xs this] sp l Some show ?thesis
      by (auto simp: sys_untimeout_def timers_ok_def simp del: memp_num.simps)
  qed
qed

lemma timers_ok_cong:
  "next_timeout s = next_timeout s' \<Longrightarrow> tm_pools s = tm_pools s' \<Longrightarrow> timers_ok s = timers_ok s'"
  by (simp add: timers_ok_def)

lemma sys_timeouts_init_ok:
  assumes "timers_ok s"
  shows "timers_ok (sys_timeouts_init now s) \<and>
    (next_timeout s = [] \<longrightarrow> expiries 0 (next_timeout (sys_timeouts_init now s)) =
      [(500, Some Dhcp_timer_fine, 0), (1000, Some Ip_reass_timer, 0), (5000, Some Arp_timer, 0),
       (60000, Some Dhcp_timer_coarse, 0)])"
proof -
  define s1 where "s1 = sys_timeout IP_TMR_INTERVAL (Some Ip_reass_timer) 0 s"
  define s2 where "s2 = sys_timeout ARP_TMR_INTERVAL (Some Arp_timer) 0 s1"
  define s3 where "s3 = sys_timeout DHCP_COARSE_TIMER_MSECS (Some Dhcp_timer_coarse) 0 s2"
  define s4 where "s4 = sys_timeout DHCP_FINE_TIMER_MSECS (Some Dhcp_timer_fine) 0 s3"
  note sp = sys_timeout_spec [OF assms, of IP_TMR_INTERVAL "Some Ip_reass_timer" 0, folded s1_def]
    sys_timeout_spec [of s1 ARP_TMR_INTERVAL "Some Arp_timer" 0, folded s2_def]
    sys_timeout_spec [of s2 DHCP_COARSE_TIMER_MSECS "Some Dhcp_timer_coarse" 0, folded s3_def]
    sys_timeout_spec [of s3 DHCP_FINE_TIMER_MSECS "Some Dhcp_timer_fine" 0, folded s4_def]
  have e: "sys_timeouts_init now s = s4\<lparr>timeouts_last_time := now\<rparr>"
    by (simp add: sys_timeouts_init_def Let_def s1_def s2_def s3_def s4_def)
  have "timers_ok (s4\<lparr>timeouts_last_time := now\<rparr>) = timers_ok s4" by (rule timers_ok_cong) simp_all
  with sp show ?thesis by (simp add: e tmr_intervals add_expiry_def)
qed

section \<open>Runs of the handlers\<close>

definition quiet :: "('w timers \<Rightarrow> 'w timers) \<Rightarrow> bool" where
  "quiet f \<longleftrightarrow> (\<forall>s. next_timeout (f s) = next_timeout s \<and> tm_pools (f s) = tm_pools s)"

text \<open>The handlers of the other modules leave the timer list alone.\<close>

definition quiet_env :: "'w timer_env \<Rightarrow> bool" where
  "quiet_env e \<longleftrightarrow> quiet (env_tcp_tmr e) \<and> quiet (env_ip_reass_tmr e) \<and> quiet (env_etharp_tmr e) \<and>
     quiet (env_dhcp_coarse_tmr e) \<and> quiet (env_dhcp_fine_tmr e) \<and> (\<forall>n arg. quiet (env_app e n arg))"

lemma quiet_timers_ok: "quiet f \<Longrightarrow> timers_ok (f s) = timers_ok s"
  by (rule timers_ok_cong) (auto simp: quiet_def)

definition restarted :: "'w timers \<Rightarrow> 'w timers \<Rightarrow> bool" where
  "restarted s s' \<longleftrightarrow> timers_ok s' \<and>
     (next_timeout s' = next_timeout s \<or>
      (\<exists>msecs h. 250 \<le> msecs \<and> expiries 0 (next_timeout s') = add_expiry msecs h 0 (expiries 0 (next_timeout s))))"

lemma restarted_timeout:
  "quiet f \<Longrightarrow> timers_ok s \<Longrightarrow> 250 \<le> m \<Longrightarrow> m < 4294967296 \<Longrightarrow> restarted s (sys_timeout m h 0 (f s))"
  using sys_timeout_spec [of "f s" m h 0]
  by (auto simp: restarted_def quiet_timers_ok quiet_def)

lemma call_handler_restarted:
  assumes "quiet_env e" "timers_ok s"
  shows "restarted s (call_handler e h arg s)"
proof (cases h)
  case Tcpip_tcp_timer
  let ?s = "env_tcp_tmr e s"
  have q: "quiet (env_tcp_tmr e)" using assms(1) by (simp add: quiet_env_def)
  have "timers_ok (?s\<lparr>tcpip_tcp_timer_active := False\<rparr>)"
    using assms(2) quiet_timers_ok [OF q] timers_ok_cong [of "?s\<lparr>tcpip_tcp_timer_active := False\<rparr>" ?s] by simp
  with Tcpip_tcp_timer q assms(2) show ?thesis
    by (auto simp: tcpip_tcp_timer_def Let_def tmr_intervals restarted_timeout)
      (auto simp: restarted_def quiet_def)
next
  case (App_timer n)
  with assms have "quiet (env_app e n arg)" by (simp add: quiet_env_def)
  with App_timer assms(2) show ?thesis by (simp add: restarted_def quiet_timers_ok) (simp add: quiet_def)
qed (use assms in \<open>auto simp: quiet_env_def ip_reass_timer_def arp_timer_def dhcp_timer_coarse_def
      dhcp_timer_fine_def tmr_intervals intro: restarted_timeout\<close>)

lemma expiries_shift: "expiries (b + c) ts = map (\<lambda>(a, x). (a + c, x)) (expiries b ts)"
proof (induction ts arbitrary: b)
  case (Cons t ts)
  from Cons.IH [of "b + tmo_time t"] show ?case by (simp add: algebra_simps)
qed simp

lemma dequeue_ok:
  assumes "timers_ok s" "next_timeout s = t # ts"
  shows "timers_ok (s\<lparr>timeouts_last_time := now, next_timeout := ts,
     tm_pools := memp_free MEMP_SYS_TIMEOUT (Some (tmo_id t)) (tm_pools s)\<rparr>)"
proof -
  obtain xs where xs: "free_list MEMP_SYS_TIMEOUT (tm_pools s) xs"
    "mset xs + mset (map tmo_id (next_timeout s)) = mset [0..<memp_num MEMP_SYS_TIMEOUT]"
    using assms(1) by (auto simp: timers_ok_def)
  have d: "deltas_ok 0 ts"
    using assms by (auto simp: timers_ok_def intro: deltas_ok_shift [of "tmo_time t"])
  have "mset (map tmo_id (next_timeout s)) = add_mset (tmo_id t) (mset (map tmo_id ts))" using assms(2) by simp
  from mset_pool_free [OF xs this] d show ?thesis by (auto simp: timers_ok_def simp del: memp_num.simps)
qed

lemma sys_fire_restarted:
  assumes "quiet_env e" "timers_ok s" "next_timeout s = t # ts"
  shows "\<exists>s1. next_timeout s1 = ts \<and> restarted s1 (sys_fire e now t ts s)"
proof -
  let ?s = "s\<lparr>timeouts_last_time := now, next_timeout := ts,
     tm_pools := memp_free MEMP_SYS_TIMEOUT (Some (tmo_id t)) (tm_pools s)\<rparr>"
  have "timers_ok ?s" by (rule dequeue_ok [OF assms(2,3)])
  then have "restarted ?s (call_handler e h (tmo_arg t) ?s)" for h
    using call_handler_restarted [OF assms(1)] by blast
  moreover have "restarted ?s ?s" using \<open>timers_ok ?s\<close> by (simp add: restarted_def)
  ultimately have "restarted ?s (sys_fire e now t ts s)"
    by (cases "tmo_h t") (simp_all only: sys_fire_def Let_def option.case)
  then show ?thesis by (intro exI [of _ ?s]) simp
qed

text \<open>How much longer the expired timers can keep the loop going.\<close>

definition slack :: "int \<Rightarrow> sys_timeo list \<Rightarrow> nat" where
  "slack diff ts = (\<Sum>x\<leftarrow>expiries 0 ts. nat (diff + 1 - fst x))"

lemma slack_restarted:
  assumes "restarted s1 s2" "0 \<le> diff"
  shows "slack diff (next_timeout s2) < Suc (nat diff) + slack diff (next_timeout s1)"
proof -
  have p: "(\<Sum>x\<leftarrow>place y xs. nat (diff + 1 - fst x)) = nat (diff + 1 - fst y) + (\<Sum>x\<leftarrow>xs. nat (diff + 1 - fst x))"
    for y and xs :: "(int \<times> sys_timeout_handler option \<times> int) list"
    by (induction xs) auto
  from assms show ?thesis by (auto simp: restarted_def slack_def add_expiry_def p split: if_splits)
qed

lemma slack_Cons: "tmo_time t \<le> diff \<Longrightarrow> slack diff (t # ts) = Suc (nat (diff - tmo_time t)) + slack (diff - tmo_time t) ts"
  using expiries_shift [of 0 "tmo_time t" ts]
  by (auto simp: slack_def comp_def case_prod_unfold algebra_simps Suc_nat_eq_nat_zadd1)

lemma sys_check_loop_returns:
  assumes "quiet_env e" "timers_ok s" "0 \<le> diff" "diff < 4294967296"
  shows "\<exists>s'. sys_check_loop e now diff s = Some s' \<and> timers_ok s'"
  using assms(2-)
proof (induction "slack diff (next_timeout s)" arbitrary: s diff rule: less_induct)
  case less
  show ?case
  proof (cases "next_timeout s")
    case Nil
    with less.prems show ?thesis by (simp add: sys_check_loop.simps [of e now diff s])
  next
    case (Cons t ts)
    show ?thesis
    proof (cases "tmo_time t \<le> diff")
      case True
      have t0: "0 \<le> tmo_time t" using less.prems(1) Cons by (simp add: timers_ok_def)
      with True less.prems have c: "c_u32 (diff - tmo_time t) = diff - tmo_time t" by (simp add: c_conv)
      obtain s1 where s1: "next_timeout s1 = ts" "restarted s1 (sys_fire e now t ts s)"
        using sys_fire_restarted [OF assms(1) less.prems(1) Cons] by blast
      have "slack (diff - tmo_time t) (next_timeout (sys_fire e now t ts s)) < slack diff (next_timeout s)"
        using slack_restarted [OF s1(2), of "diff - tmo_time t"] slack_Cons [OF True, of ts] s1(1) Cons True by simp
      moreover have "timers_ok (sys_fire e now t ts s)" using s1(2) by (simp add: restarted_def)
      ultimately have "\<exists>s'. sys_check_loop e now (diff - tmo_time t) (sys_fire e now t ts s) = Some s' \<and> timers_ok s'"
        using less.hyps [of "diff - tmo_time t" "sys_fire e now t ts s"] True t0 less.prems by simp
      with True Cons c show ?thesis by (simp add: sys_check_loop.simps [of e now diff s])
    next
      case False
      with Cons less.prems show ?thesis by (simp add: sys_check_loop.simps [of e now diff s])
    qed
  qed
qed

section \<open>Properties\<close>

text \<open>\<open>sys_timeout\<close> inserts the timer by its absolute expiry time behind the timers that
  expire no later, leaves every other expiry time as it was, drops the request only when all
  eight elements of the pool are in use, and keeps list and pool consistent.\<close>
theorem sys_timeout_inserts:
  assumes "timers_ok s" "0 \<le> msecs" "msecs < 4294967296"
  shows "timers_ok (sys_timeout msecs h arg s) \<and>
    sorted (map fst (expiries 0 (next_timeout (sys_timeout msecs h arg s)))) \<and>
    expiries 0 (next_timeout (sys_timeout msecs h arg s)) =
      (if length (next_timeout s) = 8 then expiries 0 (next_timeout s)
       else place (msecs, h, arg) (expiries 0 (next_timeout s)))"
proof -
  note sp = sys_timeout_spec [OF assms, of h arg]
  then have "deltas_ok 0 (next_timeout (sys_timeout msecs h arg s))" by (simp add: timers_ok_def)
  from expiries_sorted [OF this] sp show ?thesis by (simp add: add_expiry_def)
qed

text \<open>\<open>sys_untimeout\<close> removes the first timer with the given handler and argument, gives
  its element back to the pool and leaves the expiry time of every other timer as it was.\<close>
theorem sys_untimeout_removes:
  assumes "timers_ok s"
  shows "timers_ok (sys_untimeout h arg s) \<and>
    expiries 0 (next_timeout (sys_untimeout h arg s)) =
      drop_first (\<lambda>x. snd x = (h, arg)) (expiries 0 (next_timeout s))"
  using assms by (rule sys_untimeout_spec)

text \<open>With the cyclic timers of the stack, whose handlers re-arm themselves,
  \<open>sys_check_timeouts\<close> always returns, whatever time has passed since the last call, and
  leaves list and pool consistent.\<close>
theorem sys_check_timeouts_returns:
  assumes "quiet_env e" "timers_ok s"
  shows "\<exists>s'. sys_check_timeouts e now s = Some s' \<and> timers_ok s'"
  using sys_check_loop_returns [OF assms, of "c_u32 (now - timeouts_last_time s)" now] assms(2)
  by (simp add: sys_check_timeouts_def)

section \<open>Witnesses\<close>

definition timers0 :: "nat list timers" where
  "timers0 = \<lparr>next_timeout = [], timeouts_last_time = 0, tcpip_tcp_timer_active = False,
     tm_pools = memp_init blank_pools, tm_world = []\<rparr>"

definition log_env :: "nat list timer_env" where
  "log_env = \<lparr>env_tcp_tmr = (\<lambda>s. s), env_ip_reass_tmr = (\<lambda>s. s), env_etharp_tmr = (\<lambda>s. s),
     env_dhcp_coarse_tmr = (\<lambda>s. s), env_dhcp_fine_tmr = (\<lambda>s. s), env_tcp_pcbs = (\<lambda>s. False),
     env_app = (\<lambda>n arg s. s\<lparr>tm_world := n # tm_world s\<rparr>)\<rparr>"

lemma timers0_ok: "timers_ok timers0"
  using memp_init_free_list [of MEMP_SYS_TIMEOUT blank_pools]
  by (auto simp: timers_ok_def timers0_def intro!: exI [of _ "rev [0..<memp_num MEMP_SYS_TIMEOUT]"] simp del: memp_num.simps)

lemma log_env_ok: "quiet_env log_env"
  by (simp add: quiet_env_def quiet_def log_env_def)

theorem sys_timeout_inserts_witness:
  "expiries 0 (next_timeout (sys_timeout 250 (Some Arp_timer) 0 timers0)) = [(250, Some Arp_timer, 0)]"
  using sys_timeout_inserts [OF timers0_ok, of 250 "Some Arp_timer" 0] by (simp add: timers0_def)

text \<open>Two application timers, of 100 and 150 ms.\<close>

definition timers2 :: "nat list timers" where
  "timers2 = sys_timeout 150 (Some (App_timer 2)) 0 (sys_timeout 100 (Some (App_timer 1)) 0 timers0)"

lemma timers2_ok:
  "timers_ok timers2" "expiries 0 (next_timeout timers2) = [(100, Some (App_timer 1), 0), (150, Some (App_timer 2), 0)]"
  using sys_timeout_spec [OF timers0_ok, of 100 "Some (App_timer 1)" 0]
    sys_timeout_spec [of "sys_timeout 100 (Some (App_timer 1)) 0 timers0" 150 "Some (App_timer 2)" 0]
  by (simp_all add: timers2_def add_expiry_def) (simp_all add: timers0_def)

theorem sys_untimeout_removes_witness:
  "expiries 0 (next_timeout (sys_untimeout (Some (App_timer 1)) 0 timers2)) = [(150, Some (App_timer 2), 0)]"
  using sys_untimeout_removes [OF timers2_ok(1), of "Some (App_timer 1)" 0] timers2_ok(2) by simp

theorem sys_check_timeouts_returns_witness:
  "\<exists>s'. sys_check_timeouts log_env 1000000 (sys_timeouts_init 0 timers0) = Some s' \<and> timers_ok s'"
proof -
  have "timers_ok (sys_timeouts_init 0 timers0)"
    using sys_timeouts_init_ok [OF timers0_ok] by simp
  from sys_check_timeouts_returns [OF log_env_ok this] show ?thesis .
qed

end
