(* ===== verification/Dhcp.thy ===== *)
theory Dhcp
  imports Netif Timers
begin

text \<open>
  The DHCP client: \<open>core/dhcp.c\<close>, with the check of an offered address by ARP and two name servers, without names of
  hosts, the boot file and AutoIP, as this port compiles it.  The functions that build a message take and return the
  structure \<open>dhcp\<close> and the memory; the others work on the client of an interface, which is named by its number.
  The callback that \<open>dhcp_start\<close> gives to UDP has the name \<open>DHCP_RECV\<close>, its argument is the number of the interface.
\<close>

section \<open>Constants\<close>

definition DHCP_OPTIONS_LEN :: int where "DHCP_OPTIONS_LEN = 68"
definition DHCP_MIN_OPTIONS_LEN :: int where "DHCP_MIN_OPTIONS_LEN = 68"
definition DHCP_MSG_LEN :: int where "DHCP_MSG_LEN = 236"
definition DHCP_OPTIONS_OFS :: int where "DHCP_OPTIONS_OFS = DHCP_MSG_LEN + 4"
definition SIZEOF_DHCP_MSG :: int where "SIZEOF_DHCP_MSG = DHCP_OPTIONS_OFS + DHCP_OPTIONS_LEN"
definition SIZEOF_STRUCT_DHCP :: int where "SIZEOF_STRUCT_DHCP = 60"

definition DHCP_OP_OFS :: int where "DHCP_OP_OFS = 0"
definition DHCP_HTYPE_OFS :: int where "DHCP_HTYPE_OFS = 1"
definition DHCP_HLEN_OFS :: int where "DHCP_HLEN_OFS = 2"
definition DHCP_HOPS_OFS :: int where "DHCP_HOPS_OFS = 3"
definition DHCP_XID_OFS :: int where "DHCP_XID_OFS = 4"
definition DHCP_SECS_OFS :: int where "DHCP_SECS_OFS = 8"
definition DHCP_FLAGS_OFS :: int where "DHCP_FLAGS_OFS = 10"
definition DHCP_CIADDR_OFS :: int where "DHCP_CIADDR_OFS = 12"
definition DHCP_YIADDR_OFS :: int where "DHCP_YIADDR_OFS = 16"
definition DHCP_SIADDR_OFS :: int where "DHCP_SIADDR_OFS = 20"
definition DHCP_GIADDR_OFS :: int where "DHCP_GIADDR_OFS = 24"
definition DHCP_CHADDR_OFS :: int where "DHCP_CHADDR_OFS = 28"
definition DHCP_SNAME_OFS :: int where "DHCP_SNAME_OFS = 44"
definition DHCP_FILE_OFS :: int where "DHCP_FILE_OFS = 108"
definition DHCP_COOKIE_OFS :: int where "DHCP_COOKIE_OFS = DHCP_MSG_LEN"
definition DHCP_CHADDR_LEN :: nat where "DHCP_CHADDR_LEN = 16"
definition DHCP_SNAME_LEN :: nat where "DHCP_SNAME_LEN = 64"
definition DHCP_FILE_LEN :: nat where "DHCP_FILE_LEN = 128"

lemmas dhcp_offsets = DHCP_OPTIONS_LEN_def DHCP_MIN_OPTIONS_LEN_def DHCP_MSG_LEN_def DHCP_OPTIONS_OFS_def SIZEOF_DHCP_MSG_def
  DHCP_OP_OFS_def DHCP_HTYPE_OFS_def DHCP_HLEN_OFS_def DHCP_HOPS_OFS_def DHCP_XID_OFS_def DHCP_SECS_OFS_def DHCP_FLAGS_OFS_def
  DHCP_CIADDR_OFS_def DHCP_YIADDR_OFS_def DHCP_SIADDR_OFS_def DHCP_GIADDR_OFS_def DHCP_CHADDR_OFS_def DHCP_SNAME_OFS_def
  DHCP_FILE_OFS_def DHCP_COOKIE_OFS_def DHCP_CHADDR_LEN_def DHCP_SNAME_LEN_def DHCP_FILE_LEN_def

definition DHCP_BOOTREQUEST :: u8_t where "DHCP_BOOTREQUEST = 1"
definition DHCP_BOOTREPLY :: u8_t where "DHCP_BOOTREPLY = 2"
definition DHCP_HTYPE_ETH :: u8_t where "DHCP_HTYPE_ETH = 1"
definition DHCP_MAGIC_COOKIE :: u32_t where "DHCP_MAGIC_COOKIE = 0x63825363"

definition DHCP_DISCOVER :: u8_t where "DHCP_DISCOVER = 1"
definition DHCP_OFFER :: u8_t where "DHCP_OFFER = 2"
definition DHCP_REQUEST :: u8_t where "DHCP_REQUEST = 3"
definition DHCP_DECLINE :: u8_t where "DHCP_DECLINE = 4"
definition DHCP_ACK :: u8_t where "DHCP_ACK = 5"
definition DHCP_NAK :: u8_t where "DHCP_NAK = 6"
definition DHCP_RELEASE :: u8_t where "DHCP_RELEASE = 7"
definition DHCP_INFORM :: u8_t where "DHCP_INFORM = 8"

lemmas dhcp_messages = DHCP_DISCOVER_def DHCP_OFFER_def DHCP_REQUEST_def DHCP_DECLINE_def DHCP_ACK_def DHCP_NAK_def
  DHCP_RELEASE_def DHCP_INFORM_def

definition DHCP_OPTION_PAD :: u8_t where "DHCP_OPTION_PAD = 0"
definition DHCP_OPTION_SUBNET_MASK :: u8_t where "DHCP_OPTION_SUBNET_MASK = 1"
definition DHCP_OPTION_ROUTER :: u8_t where "DHCP_OPTION_ROUTER = 3"
definition DHCP_OPTION_DNS_SERVER :: u8_t where "DHCP_OPTION_DNS_SERVER = 6"
definition DHCP_OPTION_BROADCAST :: u8_t where "DHCP_OPTION_BROADCAST = 28"
definition DHCP_OPTION_REQUESTED_IP :: u8_t where "DHCP_OPTION_REQUESTED_IP = 50"
definition DHCP_OPTION_LEASE_TIME :: u8_t where "DHCP_OPTION_LEASE_TIME = 51"
definition DHCP_OPTION_OVERLOAD :: u8_t where "DHCP_OPTION_OVERLOAD = 52"
definition DHCP_OPTION_MESSAGE_TYPE :: u8_t where "DHCP_OPTION_MESSAGE_TYPE = 53"
definition DHCP_OPTION_SERVER_ID :: u8_t where "DHCP_OPTION_SERVER_ID = 54"
definition DHCP_OPTION_PARAMETER_REQUEST_LIST :: u8_t where "DHCP_OPTION_PARAMETER_REQUEST_LIST = 55"
definition DHCP_OPTION_MAX_MSG_SIZE :: u8_t where "DHCP_OPTION_MAX_MSG_SIZE = 57"
definition DHCP_OPTION_T1 :: u8_t where "DHCP_OPTION_T1 = 58"
definition DHCP_OPTION_T2 :: u8_t where "DHCP_OPTION_T2 = 59"
definition DHCP_OPTION_END :: u8_t where "DHCP_OPTION_END = 255"

lemmas dhcp_options = DHCP_OPTION_PAD_def DHCP_OPTION_SUBNET_MASK_def DHCP_OPTION_ROUTER_def DHCP_OPTION_DNS_SERVER_def
  DHCP_OPTION_BROADCAST_def DHCP_OPTION_REQUESTED_IP_def DHCP_OPTION_LEASE_TIME_def DHCP_OPTION_OVERLOAD_def
  DHCP_OPTION_MESSAGE_TYPE_def DHCP_OPTION_SERVER_ID_def DHCP_OPTION_PARAMETER_REQUEST_LIST_def DHCP_OPTION_MAX_MSG_SIZE_def
  DHCP_OPTION_T1_def DHCP_OPTION_T2_def DHCP_OPTION_END_def

definition DHCP_OPTION_IDX_OVERLOAD :: nat where "DHCP_OPTION_IDX_OVERLOAD = 0"
definition DHCP_OPTION_IDX_MSG_TYPE :: nat where "DHCP_OPTION_IDX_MSG_TYPE = 1"
definition DHCP_OPTION_IDX_SERVER_ID :: nat where "DHCP_OPTION_IDX_SERVER_ID = 2"
definition DHCP_OPTION_IDX_LEASE_TIME :: nat where "DHCP_OPTION_IDX_LEASE_TIME = 3"
definition DHCP_OPTION_IDX_T1 :: nat where "DHCP_OPTION_IDX_T1 = 4"
definition DHCP_OPTION_IDX_T2 :: nat where "DHCP_OPTION_IDX_T2 = 5"
definition DHCP_OPTION_IDX_SUBNET_MASK :: nat where "DHCP_OPTION_IDX_SUBNET_MASK = 6"
definition DHCP_OPTION_IDX_ROUTER :: nat where "DHCP_OPTION_IDX_ROUTER = 7"
definition DHCP_OPTION_IDX_DNS_SERVER :: nat where "DHCP_OPTION_IDX_DNS_SERVER = 8"
definition DNS_MAX_SERVERS :: int where "DNS_MAX_SERVERS = 2"

lemmas dhcp_option_idx = DHCP_OPTION_IDX_OVERLOAD_def DHCP_OPTION_IDX_MSG_TYPE_def DHCP_OPTION_IDX_SERVER_ID_def
  DHCP_OPTION_IDX_LEASE_TIME_def DHCP_OPTION_IDX_T1_def DHCP_OPTION_IDX_T2_def DHCP_OPTION_IDX_SUBNET_MASK_def
  DHCP_OPTION_IDX_ROUTER_def DHCP_OPTION_IDX_DNS_SERVER_def

definition DHCP_OVERLOAD_FILE :: u32_t where "DHCP_OVERLOAD_FILE = 1"
definition DHCP_OVERLOAD_SNAME :: u32_t where "DHCP_OVERLOAD_SNAME = 2"
definition DHCP_OVERLOAD_SNAME_FILE :: u32_t where "DHCP_OVERLOAD_SNAME_FILE = 3"

definition DHCP_COARSE_TIMER_SECS :: u32_t where "DHCP_COARSE_TIMER_SECS = 60"
definition DHCP_MAX_MSG_LEN_MIN_REQUIRED :: int where "DHCP_MAX_MSG_LEN_MIN_REQUIRED = 576"
definition DHCP_MIN_REPLY_LEN :: int where "DHCP_MIN_REPLY_LEN = 44"
definition REBOOT_TRIES :: int where "REBOOT_TRIES = 2"
definition SOF_BROADCAST :: u8_t where "SOF_BROADCAST = 0x20"
definition DHCP_RECV :: nat where "DHCP_RECV = 0"

section \<open>Messages\<close>

type_synonym dhcp_out = "dhcp \<times> pstate"

definition dhcp_set_state :: "dhcp_state \<Rightarrow> dhcp \<Rightarrow> dhcp" where
  "dhcp_set_state new_state d =
     (if new_state \<noteq> d_state d then d\<lparr>d_state := new_state, d_tries := 0, d_request_timeout := 0\<rparr> else d)"

fun dhcp_option_byte :: "u8_t \<Rightarrow> dhcp_out \<Rightarrow> dhcp_out" where
  "dhcp_option_byte v (d, m) =
     (d\<lparr>d_options_out_len := c_u16 (d_options_out_len d + 1)\<rparr>, put8 (d_msg_out d) (DHCP_OPTIONS_OFS + d_options_out_len d) v m)"

definition dhcp_option :: "u8_t \<Rightarrow> u8_t \<Rightarrow> dhcp_out \<Rightarrow> dhcp_out" where
  "dhcp_option option_type option_len o1 = dhcp_option_byte option_len (dhcp_option_byte option_type o1)"

definition dhcp_option_short :: "u16_t \<Rightarrow> dhcp_out \<Rightarrow> dhcp_out" where
  "dhcp_option_short v o1 =
     dhcp_option_byte (ucast (v AND 0x00ff)) (dhcp_option_byte (ucast (drop_bit 8 (v AND 0xff00))) o1)"

definition dhcp_option_long :: "u32_t \<Rightarrow> dhcp_out \<Rightarrow> dhcp_out" where
  "dhcp_option_long v o1 =
     dhcp_option_byte (ucast (v AND 0x000000ff)) (dhcp_option_byte (ucast (drop_bit 8 (v AND 0x0000ff00)))
       (dhcp_option_byte (ucast (drop_bit 16 (v AND 0x00ff0000))) (dhcp_option_byte (ucast (drop_bit 24 (v AND 0xff000000))) o1)))"

function dhcp_pad :: "dhcp_out \<Rightarrow> dhcp_out" where
  "dhcp_pad o1 =
     (if (d_options_out_len (fst o1) < DHCP_MIN_OPTIONS_LEN \<or> d_options_out_len (fst o1) mod 4 \<noteq> 0) \<and>
         d_options_out_len (fst o1) < DHCP_OPTIONS_LEN
      then dhcp_pad (dhcp_option_byte 0 o1) else o1)"
  by pat_completeness auto
termination
proof (relation "measure (\<lambda>o1. nat (DHCP_OPTIONS_LEN - d_options_out_len (fst o1)))")
  fix o1 :: dhcp_out
  assume a: "(d_options_out_len (fst o1) < DHCP_MIN_OPTIONS_LEN \<or> d_options_out_len (fst o1) mod 4 \<noteq> 0) \<and>
    d_options_out_len (fst o1) < DHCP_OPTIONS_LEN"
  obtain d m where o: "o1 = (d, m)" by (cases o1)
  have lt: "d_options_out_len d < DHCP_OPTIONS_LEN" using conjunct2 [OF a] o by simp
  then have "d_options_out_len d < c_u16 (d_options_out_len d + 1)" 
    by (cases "0 \<le> d_options_out_len d") (simp_all add: DHCP_OPTIONS_LEN_def c_u16_id less_le_trans [OF _ c_u16_range(1)])
  with lt have "nat (DHCP_OPTIONS_LEN - c_u16 (d_options_out_len d + 1)) < nat (DHCP_OPTIONS_LEN - d_options_out_len d)" by linarith
  then show "(dhcp_option_byte 0 o1, o1) \<in> measure (\<lambda>o1. nat (DHCP_OPTIONS_LEN - d_options_out_len (fst o1)))"
    unfolding o by simp
qed simp

declare dhcp_pad.simps [simp del]

definition dhcp_option_trailer :: "dhcp_out \<Rightarrow> dhcp_out" where
  "dhcp_option_trailer o1 = dhcp_pad (dhcp_option_byte DHCP_OPTION_END o1)"

text \<open>The fixed part of a message, with the options filled with 0, 1, 2, \<dots>.\<close>

definition dhcp_fill_msg :: "netif \<Rightarrow> dhcp \<Rightarrow> u8_t \<Rightarrow> pstate \<Rightarrow> pstate" where
  "dhcp_fill_msg n d message_type m =
     (let h = d_msg_out d;
          m = put8 h DHCP_OP_OFS DHCP_BOOTREQUEST m;
          m = put8 h DHCP_HTYPE_OFS DHCP_HTYPE_ETH m;
          m = put8 h DHCP_HLEN_OFS (of_nat (length (nif_hwaddr n))) m;
          m = put8 h DHCP_HOPS_OFS 0 m;
          m = put32 h DHCP_XID_OFS (lwip_htonl (d_xid d)) m;
          m = put16 h DHCP_SECS_OFS 0 m;
          m = put16 h DHCP_FLAGS_OFS 0 m;
          m = put32 h DHCP_CIADDR_OFS 0 m;
          m = (if message_type = DHCP_INFORM \<or> message_type = DHCP_DECLINE \<or>
                  message_type = DHCP_REQUEST \<and> (d_state d = DHCP_RENEWING \<or> d_state d = DHCP_REBINDING)
               then put32 h DHCP_CIADDR_OFS (nif_ip_addr n) m else m);
          m = put32 h DHCP_YIADDR_OFS 0 m;
          m = put32 h DHCP_SIADDR_OFS 0 m;
          m = put32 h DHCP_GIADDR_OFS 0 m;
          m = mem_write (ptr_add h DHCP_CHADDR_OFS)
                (map (\<lambda>i. if i < length (nif_hwaddr n) then nif_hwaddr n ! i else 0) [0..<DHCP_CHADDR_LEN]) m;
          m = mem_write (ptr_add h DHCP_SNAME_OFS) (replicate DHCP_SNAME_LEN 0) m;
          m = mem_write (ptr_add h DHCP_FILE_OFS) (replicate DHCP_FILE_LEN 0) m;
          m = put32 h DHCP_COOKIE_OFS (lwip_htonl DHCP_MAGIC_COOKIE) m
      in mem_write (ptr_add h DHCP_OPTIONS_OFS) (map of_nat [0..<nat DHCP_OPTIONS_LEN]) m)"

definition dhcp_create_msg ::
    "('x, 'm) lwip_link \<Rightarrow> netif \<Rightarrow> u8_t \<Rightarrow> dhcp \<Rightarrow> ('x, 'm) lwip_net \<Rightarrow> (err_t \<times> dhcp \<times> ('x, 'm) lwip_net) option" where
  "dhcp_create_msg l n message_type d s = do {
     (p, m) \<leftarrow> pbuf_alloc (custom_free l) PBUF_TRANSPORT SIZEOF_DHCP_MSG PBUF_RAM (n_mem s);
     let d = d\<lparr>d_p_out := p\<rparr>;
     let s = set_mem m s;
     case p of
       None \<Rightarrow> Some (ERR_MEM, d, s)
     | Some p \<Rightarrow>
         let s = (if d_tries d = 0 then upd_lwip (\<lambda>v. v\<lparr>dhcp_global_xid := dhcp_global_xid v + 1\<rparr>) s else s);
             d = d\<lparr>d_xid := dhcp_global_xid (n_dev s), d_msg_out := pb_payload (p_pbufs m p), d_options_out_len := 0\<rparr>;
             m = dhcp_fill_msg n d message_type m;
             (d, m) = dhcp_option_byte message_type (dhcp_option DHCP_OPTION_MESSAGE_TYPE 1 (d, m))
         in Some (ERR_OK, d, set_mem m s)
   }"

definition dhcp_delete_msg ::
    "('x, 'm) lwip_link \<Rightarrow> dhcp \<Rightarrow> ('x, 'm) lwip_net \<Rightarrow> (dhcp \<times> ('x, 'm) lwip_net) option" where
  "dhcp_delete_msg l d s = do {
     s \<leftarrow> (case d_p_out d of None \<Rightarrow> Some s | Some p \<Rightarrow> free_mem l (Some p) s);
     Some (d\<lparr>d_p_out := None, d_msg_out := NULL\<rparr>, s)
   }"

text \<open>
  What every function that sends has in common: the message is created, \<open>opts\<close> writes its options, and it is
  closed, cut to its length, sent to \<open>dst\<close> and freed.  \<open>pcb\<close> may be a null pointer, which is used.
\<close>

definition dhcp_send ::
    "('x, 'm) lwip_link \<Rightarrow> netif \<Rightarrow> nat option \<Rightarrow> u32_t \<Rightarrow> dhcp \<Rightarrow> ('x, 'm) lwip_net \<Rightarrow> (dhcp \<times> ('x, 'm) lwip_net) option" where
  "dhcp_send l n pcb dst d s = do {
     p \<leftarrow> d_p_out d;
     m \<leftarrow> pbuf_realloc (custom_free l) p (c_u16 (SIZEOF_DHCP_MSG - DHCP_OPTIONS_LEN + d_options_out_len d)) (n_mem s);
     i \<leftarrow> pcb;
     (e, s) \<leftarrow> udp_sendto_if l i p dst DHCP_SERVER_PORT n (set_mem m s);
     dhcp_delete_msg l d s
   }"

definition dhcp_message ::
    "('x, 'm) lwip_link \<Rightarrow> netif \<Rightarrow> u8_t \<Rightarrow> (dhcp_out \<Rightarrow> dhcp_out) \<Rightarrow> u32_t \<Rightarrow> nat option \<Rightarrow> dhcp \<Rightarrow> ('x, 'm) lwip_net \<Rightarrow>
     (err_t \<times> dhcp \<times> ('x, 'm) lwip_net) option" where
  "dhcp_message l n message_type opts dst pcb d s = do {
     (err, d, s) \<leftarrow> dhcp_create_msg l n message_type d s;
     if err = ERR_OK
     then do {
       let (d, m) = dhcp_option_trailer (opts (d, n_mem s));
       (d, s) \<leftarrow> dhcp_send l n pcb dst d (set_mem m s);
       Some (ERR_OK, d, s)
     }
     else Some (err, d, s)
   }"

definition opt_max_msg_size :: "int \<Rightarrow> dhcp_out \<Rightarrow> dhcp_out" where
  "opt_max_msg_size mtu o1 = dhcp_option_short (word_of_int mtu) (dhcp_option DHCP_OPTION_MAX_MSG_SIZE 2 o1)"

definition opt_address :: "u8_t \<Rightarrow> u32_t \<Rightarrow> dhcp_out \<Rightarrow> dhcp_out" where
  "opt_address ty w o1 = dhcp_option_long (lwip_ntohl w) (dhcp_option ty 4 o1)"

definition opt_request_list :: "dhcp_out \<Rightarrow> dhcp_out" where
  "opt_request_list o1 =
     dhcp_option_byte DHCP_OPTION_DNS_SERVER (dhcp_option_byte DHCP_OPTION_BROADCAST (dhcp_option_byte DHCP_OPTION_ROUTER
       (dhcp_option_byte DHCP_OPTION_SUBNET_MASK (dhcp_option DHCP_OPTION_PARAMETER_REQUEST_LIST 4 o1))))"

text \<open>\<open>dhcp->tries++\<close> and the request timeout that follows from it; \<open>msecs\<close> has 16 bits.\<close>

definition dhcp_retry :: "(int \<Rightarrow> int) \<Rightarrow> dhcp \<Rightarrow> dhcp" where
  "dhcp_retry msecs d =
     (let tries = c_u8 (d_tries d + 1);
          ms = c_u16 (msecs tries)
      in d\<lparr>d_tries := tries, d_request_timeout := c_u16 ((ms + DHCP_FINE_TIMER_MSECS - 1) div DHCP_FINE_TIMER_MSECS)\<rparr>)"

definition backoff_discover :: "int \<Rightarrow> int" where
  "backoff_discover tries = (if tries < 6 then 2 ^ nat tries else 60) * 1000"

definition backoff_renew :: "int \<Rightarrow> int" where
  "backoff_renew tries = (if tries < 10 then tries * 2000 else 20 * 1000)"

definition backoff_rebind :: "int \<Rightarrow> int" where
  "backoff_rebind tries = (if tries < 10 then tries * 1000 else 10 * 1000)"

section \<open>The client of an interface\<close>

definition the_dhcp :: "int \<Rightarrow> ('x, 'm) lwip_net \<Rightarrow> dhcp option" where
  "the_dhcp k s = netif_dhcp (n_dev s) k"

definition upd_dhcp :: "int \<Rightarrow> (dhcp \<Rightarrow> dhcp) \<Rightarrow> ('x, 'm) lwip_net \<Rightarrow> ('x, 'm) lwip_net" where
  "upd_dhcp k f = upd_lwip (\<lambda>v. v\<lparr>netif_dhcp := (netif_dhcp v)(k := map_option f (netif_dhcp v k))\<rparr>)"

definition dhcp_request ::
    "('x, 'm) lwip_link \<Rightarrow> int \<Rightarrow> u8_t \<Rightarrow> (netif \<Rightarrow> dhcp \<Rightarrow> dhcp_out \<Rightarrow> dhcp_out) \<Rightarrow> (dhcp \<Rightarrow> u32_t) \<Rightarrow> (int \<Rightarrow> int) \<Rightarrow>
     ('x, 'm) lwip_net \<Rightarrow> (err_t \<times> ('x, 'm) lwip_net) option" where
  "dhcp_request l k message_type opts dst msecs s = do {
     n \<leftarrow> the_netif k s;
     d \<leftarrow> the_dhcp k s;
     (err, d, s) \<leftarrow> dhcp_message l n message_type (opts n d) (dst d) (dhcp_pcb (n_dev s) k) d s;
     Some (err, upd_dhcp k (\<lambda>_. dhcp_retry msecs d) s)
   }"

definition dhcp_discover :: "('x, 'm) lwip_link \<Rightarrow> int \<Rightarrow> ('x, 'm) lwip_net \<Rightarrow> (err_t \<times> ('x, 'm) lwip_net) option" where
  "dhcp_discover l k s =
     dhcp_request l k DHCP_DISCOVER (\<lambda>n d. opt_request_list \<circ> opt_max_msg_size (nif_mtu n)) (\<lambda>d. IPADDR_BROADCAST) backoff_discover
       (upd_dhcp k (\<lambda>d. dhcp_set_state DHCP_SELECTING (d\<lparr>d_offered_ip_addr := IPADDR_ANY\<rparr>)) s)"

definition dhcp_select :: "('x, 'm) lwip_link \<Rightarrow> int \<Rightarrow> ('x, 'm) lwip_net \<Rightarrow> (err_t \<times> ('x, 'm) lwip_net) option" where
  "dhcp_select l k s =
     dhcp_request l k DHCP_REQUEST
       (\<lambda>n d. opt_request_list \<circ> opt_address DHCP_OPTION_SERVER_ID (d_server_ip_addr d) \<circ>
              opt_address DHCP_OPTION_REQUESTED_IP (d_offered_ip_addr d) \<circ> opt_max_msg_size (nif_mtu n))
       (\<lambda>d. IPADDR_BROADCAST) backoff_discover
       (upd_dhcp k (dhcp_set_state DHCP_REQUESTING) s)"

definition dhcp_renew :: "('x, 'm) lwip_link \<Rightarrow> int \<Rightarrow> ('x, 'm) lwip_net \<Rightarrow> (err_t \<times> ('x, 'm) lwip_net) option" where
  "dhcp_renew l k s =
     dhcp_request l k DHCP_REQUEST (\<lambda>n d. opt_max_msg_size (nif_mtu n)) d_server_ip_addr backoff_renew
       (upd_dhcp k (dhcp_set_state DHCP_RENEWING) s)"

definition dhcp_rebind :: "('x, 'm) lwip_link \<Rightarrow> int \<Rightarrow> ('x, 'm) lwip_net \<Rightarrow> (err_t \<times> ('x, 'm) lwip_net) option" where
  "dhcp_rebind l k s =
     dhcp_request l k DHCP_REQUEST (\<lambda>n d. opt_max_msg_size (nif_mtu n)) (\<lambda>d. IPADDR_BROADCAST) backoff_rebind
       (upd_dhcp k (dhcp_set_state DHCP_REBINDING) s)"

definition dhcp_reboot :: "('x, 'm) lwip_link \<Rightarrow> int \<Rightarrow> ('x, 'm) lwip_net \<Rightarrow> (err_t \<times> ('x, 'm) lwip_net) option" where
  "dhcp_reboot l k s =
     dhcp_request l k DHCP_REQUEST (\<lambda>n d. opt_address DHCP_OPTION_REQUESTED_IP (d_offered_ip_addr d) \<circ> opt_max_msg_size 576)
       (\<lambda>d. IPADDR_BROADCAST) backoff_rebind
       (upd_dhcp k (dhcp_set_state DHCP_REBOOTING) s)"

definition dhcp_decline :: "('x, 'm) lwip_link \<Rightarrow> int \<Rightarrow> ('x, 'm) lwip_net \<Rightarrow> (err_t \<times> ('x, 'm) lwip_net) option" where
  "dhcp_decline l k s =
     dhcp_request l k DHCP_DECLINE (\<lambda>n d. opt_address DHCP_OPTION_REQUESTED_IP (d_offered_ip_addr d))
       (\<lambda>d. IPADDR_BROADCAST) (\<lambda>tries. 10 * 1000)
       (upd_dhcp k (dhcp_set_state DHCP_BACKING_OFF) s)"

text \<open>The state is \<open>DHCP_OFF\<close> and the addresses are cleared before the message is made and sent.\<close>

definition dhcp_forget :: "dhcp \<Rightarrow> dhcp" where
  "dhcp_forget d = (dhcp_set_state DHCP_OFF d)\<lparr>d_server_ip_addr := 0, d_offered_ip_addr := 0, d_offered_sn_mask := 0,
     d_offered_gw_addr := 0, d_offered_t0_lease := 0, d_offered_t1_renew := 0, d_offered_t2_rebind := 0\<rparr>"

definition dhcp_unconfigure ::
    "('x, 'm) lwip_link \<Rightarrow> ('x, 'm) lwip_app \<Rightarrow> int \<Rightarrow> ('x, 'm) lwip_net \<Rightarrow> ('x, 'm) lwip_net option" where
  "dhcp_unconfigure l a k s = do {
     s \<leftarrow> netif_set_down l k s;
     s \<leftarrow> netif_set_ipaddr l a k (Some IPADDR_ANY) s;
     Some (netif_set_netmask k (Some IPADDR_ANY) (netif_set_gw k (Some IPADDR_ANY) s))
   }"

definition dhcp_release ::
    "('x, 'm) lwip_link \<Rightarrow> ('x, 'm) lwip_app \<Rightarrow> int \<Rightarrow> ('x, 'm) lwip_net \<Rightarrow> (err_t \<times> ('x, 'm) lwip_net) option" where
  "dhcp_release l a k s = do {
     (result, s) \<leftarrow> dhcp_request l k DHCP_RELEASE (\<lambda>n d o1. o1) d_server_ip_addr backoff_rebind (upd_dhcp k dhcp_forget s);
     s \<leftarrow> dhcp_unconfigure l a k s;
     Some (result, s)
   }"

definition dhcp_handle_nak ::
    "('x, 'm) lwip_link \<Rightarrow> ('x, 'm) lwip_app \<Rightarrow> int \<Rightarrow> ('x, 'm) lwip_net \<Rightarrow> ('x, 'm) lwip_net option" where
  "dhcp_handle_nak l a k s = do {
     s \<leftarrow> dhcp_unconfigure l a k s;
     let s = upd_dhcp k (dhcp_set_state DHCP_BACKING_OFF) s;
     (e, s) \<leftarrow> dhcp_discover l k s;
     Some s
   }"

definition dhcp_check :: "('x, 'm) lwip_link \<Rightarrow> int \<Rightarrow> ('x, 'm) lwip_net \<Rightarrow> ('x, 'm) lwip_net option" where
  "dhcp_check l k s = do {
     let s = upd_dhcp k (dhcp_set_state DHCP_CHECKING) s;
     n \<leftarrow> the_netif k s;
     d \<leftarrow> the_dhcp k s;
     (e, s) \<leftarrow> etharp_query l n (d_offered_ip_addr d) None s;
     Some (upd_dhcp k (dhcp_retry (\<lambda>tries. 500)) s)
   }"

section \<open>The lease\<close>

definition dhcp_rx_given :: "nat \<Rightarrow> ('x, 'm) lwip_net \<Rightarrow> bool" where
  "dhcp_rx_given i s = dhcp_rx_options_given (n_dev s) i"

definition dhcp_rx_value :: "nat \<Rightarrow> ('x, 'm) lwip_net \<Rightarrow> u32_t" where
  "dhcp_rx_value i s = dhcp_rx_options_val (n_dev s) i"

definition dhcp_handle_offer :: "('x, 'm) lwip_link \<Rightarrow> int \<Rightarrow> ('x, 'm) lwip_net \<Rightarrow> ('x, 'm) lwip_net option" where
  "dhcp_handle_offer l k s = do {
     d \<leftarrow> the_dhcp k s;
     if dhcp_rx_given DHCP_OPTION_IDX_SERVER_ID s
     then do {
       msg_in \<leftarrow> d_msg_in d;
       let s = upd_dhcp k (\<lambda>d. d\<lparr>d_server_ip_addr := lwip_htonl (dhcp_rx_value DHCP_OPTION_IDX_SERVER_ID s),
                 d_offered_ip_addr := get32 msg_in DHCP_YIADDR_OFS (n_mem s)\<rparr>) s;
       (e, s) \<leftarrow> dhcp_select l k s;
       Some s
     }
     else Some s
   }"

definition dhcp_take_ack :: "u32_t \<Rightarrow> (nat \<Rightarrow> bool) \<Rightarrow> (nat \<Rightarrow> u32_t) \<Rightarrow> dhcp \<Rightarrow> dhcp" where
  "dhcp_take_ack yiaddr given val d =
     (let d = d\<lparr>d_offered_sn_mask := 0, d_offered_gw_addr := 0\<rparr>;
          d = (if given DHCP_OPTION_IDX_LEASE_TIME then d\<lparr>d_offered_t0_lease := val DHCP_OPTION_IDX_LEASE_TIME\<rparr> else d);
          d = d\<lparr>d_offered_t1_renew := (if given DHCP_OPTION_IDX_T1 then val DHCP_OPTION_IDX_T1 else d_offered_t0_lease d div 2)\<rparr>;
          d = d\<lparr>d_offered_t2_rebind := (if given DHCP_OPTION_IDX_T2 then val DHCP_OPTION_IDX_T2 else d_offered_t0_lease d)\<rparr>;
          d = d\<lparr>d_offered_ip_addr := yiaddr\<rparr>;
          d = (if given DHCP_OPTION_IDX_SUBNET_MASK
               then d\<lparr>d_offered_sn_mask := lwip_htonl (val DHCP_OPTION_IDX_SUBNET_MASK), d_subnet_mask_given := True\<rparr>
               else d\<lparr>d_subnet_mask_given := False\<rparr>)
      in if given DHCP_OPTION_IDX_ROUTER then d\<lparr>d_offered_gw_addr := lwip_htonl (val DHCP_OPTION_IDX_ROUTER)\<rparr> else d)"

definition dhcp_handle_ack :: "int \<Rightarrow> ('x, 'm) lwip_net \<Rightarrow> ('x, 'm) lwip_net option" where
  "dhcp_handle_ack k s = do {
     d \<leftarrow> the_dhcp k s;
     msg_in \<leftarrow> d_msg_in d;
     Some (upd_dhcp k (dhcp_take_ack (get32 msg_in DHCP_YIADDR_OFS (n_mem s)) (dhcp_rx_options_given (n_dev s))
             (dhcp_rx_options_val (n_dev s))) s)
   }"

definition lease_ticks :: "u32_t \<Rightarrow> int" where
  "lease_ticks secs =
     (let timeout = uint ((secs + DHCP_COARSE_TIMER_SECS div 2) div DHCP_COARSE_TIMER_SECS);
          timeout = (if timeout > 0xffff then 0xffff else timeout)
      in if c_u16 timeout = 0 then 1 else c_u16 timeout)"

definition dhcp_set_timers :: "dhcp \<Rightarrow> dhcp" where
  "dhcp_set_timers d =
     (let d = (if d_offered_t1_renew d \<noteq> 0xffffffff then d\<lparr>d_t1_timeout := lease_ticks (d_offered_t1_renew d)\<rparr> else d);
          d = (if d_offered_t2_rebind d \<noteq> 0xffffffff then d\<lparr>d_t2_timeout := lease_ticks (d_offered_t2_rebind d)\<rparr> else d)
      in if d_t1_timeout d \<ge> d_t2_timeout d \<and> d_t2_timeout d > 0 then d\<lparr>d_t1_timeout := 0\<rparr> else d)"

text \<open>The mask of the class when none was offered, and the first host of the network as the gateway.  The first
  octet is the least significant one of an address in network order.\<close>

definition dhcp_netmask :: "dhcp \<Rightarrow> u32_t" where
  "dhcp_netmask d =
     (if d_subnet_mask_given d then d_offered_sn_mask d
      else let first_octet = (ucast (d_offered_ip_addr d) :: u8_t) in
        if first_octet \<le> 127 then lwip_htonl 0xff000000
        else if first_octet \<ge> 192 then lwip_htonl 0xffffff00
        else lwip_htonl 0xffff0000)"

definition dhcp_gateway :: "dhcp \<Rightarrow> u32_t" where
  "dhcp_gateway d =
     (if d_offered_gw_addr d = IPADDR_ANY then d_offered_ip_addr d AND dhcp_netmask d OR lwip_htonl 0x00000001
      else d_offered_gw_addr d)"

definition dhcp_bind ::
    "('x, 'm) lwip_link \<Rightarrow> ('x, 'm) lwip_app \<Rightarrow> int \<Rightarrow> ('x, 'm) lwip_net \<Rightarrow> ('x, 'm) lwip_net option" where
  "dhcp_bind l a k s =
     (case the_dhcp k s of
        None \<Rightarrow> Some s
      | Some d \<Rightarrow> do {
          let s = upd_dhcp k dhcp_set_timers s;
          s \<leftarrow> netif_set_ipaddr l a k (Some (d_offered_ip_addr d)) s;
          let s = netif_set_gw k (Some (dhcp_gateway d)) (netif_set_netmask k (Some (dhcp_netmask d)) s);
          s \<leftarrow> netif_set_up l k s;
          Some (upd_dhcp k (dhcp_set_state DHCP_BOUND) s)
        })"

section \<open>Starting and stopping\<close>

definition dhcp_zero :: "ptr \<Rightarrow> dhcp" where
  "dhcp_zero a = \<lparr>d_mem = a, d_xid = 0, d_msg_in = None, d_state = DHCP_OFF, d_tries = 0, d_subnet_mask_given = False, d_p_out = None,
     d_msg_out = NULL, d_options_out_len = 0, d_request_timeout = 0, d_t1_timeout = 0, d_t2_timeout = 0, d_server_ip_addr = 0,
     d_offered_ip_addr = 0, d_offered_sn_mask = 0, d_offered_gw_addr = 0, d_offered_t0_lease = 0, d_offered_t1_renew = 0,
     d_offered_t2_rebind = 0\<rparr>"

definition set_dhcp :: "int \<Rightarrow> dhcp option \<Rightarrow> ('x, 'm) lwip_net \<Rightarrow> ('x, 'm) lwip_net" where
  "set_dhcp k d = upd_lwip (\<lambda>v. v\<lparr>netif_dhcp := (netif_dhcp v)(k := d)\<rparr>)"

definition set_dhcp_pcb :: "int \<Rightarrow> nat option \<Rightarrow> ('x, 'm) lwip_net \<Rightarrow> ('x, 'm) lwip_net" where
  "set_dhcp_pcb k pcb = upd_lwip (\<lambda>v. v\<lparr>dhcp_pcb := (dhcp_pcb v)(k := pcb)\<rparr>)"

definition dhcp_set_struct :: "int \<Rightarrow> ptr \<Rightarrow> ('x, 'm) lwip_net \<Rightarrow> ('x, 'm) lwip_net" where
  "dhcp_set_struct k a s = set_dhcp_pcb k None (set_dhcp k (Some (dhcp_zero a)) s)"

definition dhcp_cleanup :: "int \<Rightarrow> ('x, 'm) lwip_net \<Rightarrow> ('x, 'm) lwip_net" where
  "dhcp_cleanup k s =
     (case the_dhcp k s of
        None \<Rightarrow> s
      | Some d \<Rightarrow>
          let s = set_mem ((n_mem s)\<lparr>p_heap := mem_free (Some (heap_offset (d_mem d))) (p_heap (n_mem s))\<rparr>) s
          in set_dhcp_pcb k None (set_dhcp k None s))"

definition dhcp_stop :: "int \<Rightarrow> ('x, 'm) lwip_net \<Rightarrow> ('x, 'm) lwip_net option" where
  "dhcp_stop k s =
     (let s = upd_netif k (\<lambda>n. n\<lparr>nif_flags := nif_flags n AND NOT NETIF_FLAG_DHCP\<rparr>) s in
      case the_dhcp k s of
        None \<Rightarrow> Some s
      | Some d \<Rightarrow> do {
          s \<leftarrow> (case dhcp_pcb (n_dev s) k of
                   None \<Rightarrow> Some s
                 | Some i \<Rightarrow> do { s \<leftarrow> udp_remove i s; Some (set_dhcp_pcb k None s) });
          Some (upd_dhcp k (dhcp_set_state DHCP_OFF) s)
        })"

text \<open>The structure that \<open>dhcp_start\<close> uses, or nothing when it cannot be allocated.\<close>

definition dhcp_start_struct :: "int \<Rightarrow> ('x, 'm) lwip_net \<Rightarrow> (ptr option \<times> ('x, 'm) lwip_net) option" where
  "dhcp_start_struct k s =
     (case the_dhcp k s of
        None \<Rightarrow> do {
          (r, h) \<leftarrow> mem_malloc SIZEOF_STRUCT_DHCP (p_heap (n_mem s));
          Some (map_option (\<lambda>a. (RHeap, a)) r, set_mem ((n_mem s)\<lparr>p_heap := h\<rparr>) s)
        }
      | Some d \<Rightarrow> do {
          s \<leftarrow> (case dhcp_pcb (n_dev s) k of None \<Rightarrow> Some s | Some i \<Rightarrow> udp_remove i s);
          Some (Some (d_mem d), s)
        })"

definition dhcp_open_pcb :: "nat \<Rightarrow> int \<Rightarrow> ('x, 'm) lwip_net \<Rightarrow> ('x, 'm) lwip_net option" where
  "dhcp_open_pcb i k s = do {
     let s = upd_upcb i (\<lambda>b. b\<lparr>u_so_options := u_so_options b OR SOF_BROADCAST\<rparr>) s;
     (e, s) \<leftarrow> udp_bind i IPADDR_ANY DHCP_CLIENT_PORT s;
     (e, s) \<leftarrow> udp_connect i IPADDR_ANY DHCP_SERVER_PORT s;
     Some (udp_recv i (Some DHCP_RECV) (nat k) s)
   }"

definition dhcp_start :: "('x, 'm) lwip_link \<Rightarrow> int \<Rightarrow> ('x, 'm) lwip_net \<Rightarrow> (err_t \<times> ('x, 'm) lwip_net) option" where
  "dhcp_start l k s = do {
     let s = upd_netif k (\<lambda>n. n\<lparr>nif_flags := nif_flags n AND NOT NETIF_FLAG_DHCP\<rparr>) s;
     n \<leftarrow> the_netif k s;
     if nif_flags n AND NETIF_FLAG_ETHARP = 0 then Some (ERR_ARG, s)
     else if nif_mtu n < DHCP_MAX_MSG_LEN_MIN_REQUIRED then Some (ERR_MEM, s)
     else do {
       (r, s) \<leftarrow> dhcp_start_struct k s;
       case r of
         None \<Rightarrow> Some (ERR_MEM, s)
       | Some a \<Rightarrow>
           let s = set_dhcp_pcb k None (set_dhcp k (Some (dhcp_zero a)) s);
               (pcb, s) = udp_new s;
               s = set_dhcp_pcb k pcb s
           in case pcb of
             None \<Rightarrow> Some (ERR_MEM, s)
           | Some i \<Rightarrow> do {
               s \<leftarrow> dhcp_open_pcb i k s;
               (result, s) \<leftarrow> dhcp_discover l k s;
               if result \<noteq> ERR_OK
               then do { s \<leftarrow> dhcp_stop k s; Some (ERR_MEM, s) }
               else Some (result, upd_netif k (\<lambda>n. n\<lparr>nif_flags := nif_flags n OR NETIF_FLAG_DHCP\<rparr>) s)
             }
     }
   }"

text \<open>The message type 8 that is given to \<open>dhcp_set_state\<close> is the number of the state \<open>DHCP_CHECKING\<close>.\<close>

definition dhcp_inform :: "('x, 'm) lwip_link \<Rightarrow> int \<Rightarrow> ('x, 'm) lwip_net \<Rightarrow> ('x, 'm) lwip_net option" where
  "dhcp_inform l k s = do {
     n \<leftarrow> the_netif k s;
     let d = dhcp_set_state DHCP_CHECKING (dhcp_zero NULL);
     (own, pcb, s) \<leftarrow>
       (case (if the_dhcp k s = None then None else dhcp_pcb (n_dev s) k) of
          Some i \<Rightarrow> Some (False, Some i, s)
        | None \<Rightarrow>
            (case udp_new s of
               (None, s) \<Rightarrow> Some (True, None, s)
             | (Some i, s) \<Rightarrow> do {
                 let s = upd_upcb i (\<lambda>b. b\<lparr>u_so_options := u_so_options b OR SOF_BROADCAST\<rparr>) s;
                 (e, s) \<leftarrow> udp_bind i IPADDR_ANY DHCP_CLIENT_PORT s;
                 Some (True, Some i, s)
               }));
     case pcb of
       None \<Rightarrow> Some s
     | Some i \<Rightarrow> do {
         (e, d, s) \<leftarrow> dhcp_message l n DHCP_INFORM (opt_max_msg_size (nif_mtu n)) IPADDR_BROADCAST (Some i) d s;
         if own then udp_remove i s else Some s
       }
   }"

definition dhcp_network_changed :: "('x, 'm) lwip_link \<Rightarrow> int \<Rightarrow> ('x, 'm) lwip_net \<Rightarrow> ('x, 'm) lwip_net option" where
  "dhcp_network_changed l k s =
     (case the_dhcp k s of
        None \<Rightarrow> Some s
      | Some d \<Rightarrow>
          if d_state d \<in> {DHCP_REBINDING, DHCP_RENEWING, DHCP_BOUND, DHCP_REBOOTING}
          then do {
            s \<leftarrow> netif_set_down l k s;
            (e, s) \<leftarrow> dhcp_reboot l k (upd_dhcp k (\<lambda>d. d\<lparr>d_tries := 0\<rparr>) s);
            Some s
          }
          else if d_state d = DHCP_OFF then Some s
          else do { (e, s) \<leftarrow> dhcp_discover l k (upd_dhcp k (\<lambda>d. d\<lparr>d_tries := 0\<rparr>) s); Some s })"

definition netif_set_link_up :: "('x, 'm) lwip_link \<Rightarrow> int \<Rightarrow> ('x, 'm) lwip_net \<Rightarrow> ('x, 'm) lwip_net option" where
  "netif_set_link_up l k s = do {
     n \<leftarrow> the_netif k s;
     if nif_flags n AND NETIF_FLAG_LINK_UP = 0
     then do {
       let s = upd_netif k (\<lambda>b. b\<lparr>nif_flags := nif_flags b OR NETIF_FLAG_LINK_UP\<rparr>) s;
       s \<leftarrow> (if the_dhcp k s \<noteq> None then dhcp_network_changed l k s else Some s);
       n \<leftarrow> the_netif k s;
       if nif_flags n AND NETIF_FLAG_UP \<noteq> 0 \<and> nif_flags n AND NETIF_FLAG_ETHARP \<noteq> 0
       then do { (e, s) \<leftarrow> etharp_request l n (nif_ip_addr n) s; Some s }
       else Some s
     }
     else Some s
   }"

text \<open>\<open>dhcp_arp_reply\<close>, which \<open>etharp_arp_input\<close> calls for every ARP packet that answers.\<close>

definition dhcp_arp_reply_in :: "('x, 'm) lwip_link \<Rightarrow> int \<Rightarrow> u32_t \<Rightarrow> ('x, 'm) lwip_net \<Rightarrow> ('x, 'm) lwip_net option" where
  "dhcp_arp_reply_in l k addr s =
     (case the_dhcp k s of
        None \<Rightarrow> Some s
      | Some d \<Rightarrow>
          if d_state d = DHCP_CHECKING \<and> addr = d_offered_ip_addr d
          then do { (e, s) \<leftarrow> dhcp_decline l k s; Some s }
          else Some s)"

section \<open>Timers\<close>

definition dhcp_timeout ::
    "('x, 'm) lwip_link \<Rightarrow> ('x, 'm) lwip_app \<Rightarrow> int \<Rightarrow> ('x, 'm) lwip_net \<Rightarrow> ('x, 'm) lwip_net option" where
  "dhcp_timeout l a k s = do {
     d \<leftarrow> the_dhcp k s;
     if d_state d = DHCP_BACKING_OFF \<or> d_state d = DHCP_SELECTING then map_option snd (dhcp_discover l k s)
     else if d_state d = DHCP_REQUESTING
     then if d_tries d \<le> 5 then map_option snd (dhcp_select l k s)
          else do { (e, s) \<leftarrow> dhcp_release l a k s; map_option snd (dhcp_discover l k s) }
     else if d_state d = DHCP_CHECKING
     then if d_tries d \<le> 1 then dhcp_check l k s else dhcp_bind l a k s
     else if d_state d = DHCP_RENEWING then map_option snd (dhcp_renew l k s)
     else if d_state d = DHCP_REBINDING
     then if d_tries d \<le> 8 then map_option snd (dhcp_rebind l k s)
          else do { (e, s) \<leftarrow> dhcp_release l a k s; map_option snd (dhcp_discover l k s) }
     else if d_state d = DHCP_REBOOTING
     then if d_tries d < REBOOT_TRIES then map_option snd (dhcp_reboot l k s) else map_option snd (dhcp_discover l k s)
     else Some s
   }"

definition dhcp_t1_timeout :: "('x, 'm) lwip_link \<Rightarrow> int \<Rightarrow> ('x, 'm) lwip_net \<Rightarrow> ('x, 'm) lwip_net option" where
  "dhcp_t1_timeout l k s = do {
     d \<leftarrow> the_dhcp k s;
     if d_state d = DHCP_REQUESTING \<or> d_state d = DHCP_BOUND \<or> d_state d = DHCP_RENEWING
     then map_option snd (dhcp_renew l k s) else Some s
   }"

definition dhcp_t2_timeout :: "('x, 'm) lwip_link \<Rightarrow> int \<Rightarrow> ('x, 'm) lwip_net \<Rightarrow> ('x, 'm) lwip_net option" where
  "dhcp_t2_timeout l k s = do {
     d \<leftarrow> the_dhcp k s;
     if d_state d = DHCP_REQUESTING \<or> d_state d = DHCP_BOUND \<or> d_state d = DHCP_RENEWING
     then map_option snd (dhcp_rebind l k s) else Some s
   }"

text \<open>The timers for one interface; \<open>x-- == 1\<close> compares the old value.\<close>

definition dhcp_coarse_one :: "('x, 'm) lwip_link \<Rightarrow> int \<Rightarrow> ('x, 'm) lwip_net \<Rightarrow> ('x, 'm) lwip_net option" where
  "dhcp_coarse_one l k s =
     (case the_dhcp k s of
        None \<Rightarrow> Some s
      | Some d \<Rightarrow>
          let s = upd_dhcp k (\<lambda>d. d\<lparr>d_t2_timeout := c_u16 (d_t2_timeout d - 1)\<rparr>) s in
          if d_t2_timeout d = 1 then dhcp_t2_timeout l k s
          else
            let s = upd_dhcp k (\<lambda>d. d\<lparr>d_t1_timeout := c_u16 (d_t1_timeout d - 1)\<rparr>) s in
            if d_t1_timeout d = 1 then dhcp_t1_timeout l k s else Some s)"

definition dhcp_fine_one ::
    "('x, 'm) lwip_link \<Rightarrow> ('x, 'm) lwip_app \<Rightarrow> int \<Rightarrow> ('x, 'm) lwip_net \<Rightarrow> ('x, 'm) lwip_net option" where
  "dhcp_fine_one l a k s =
     (case the_dhcp k s of
        None \<Rightarrow> Some s
      | Some d \<Rightarrow>
          let s' = upd_dhcp k (\<lambda>d. d\<lparr>d_request_timeout := d_request_timeout d - 1\<rparr>) s in
          if d_request_timeout d > 1 then Some s'
          else if d_request_timeout d = 1 then dhcp_timeout l a k s'
          else Some s)"

text \<open>The walks over \<open>netif_list\<close>; no callback changes the list meanwhile.\<close>

fun dhcp_walk :: "(int \<Rightarrow> ('x, 'm) lwip_net \<Rightarrow> ('x, 'm) lwip_net option) \<Rightarrow> netif list \<Rightarrow> ('x, 'm) lwip_net \<Rightarrow> ('x, 'm) lwip_net option" where
  "dhcp_walk f [] s = Some s"
| "dhcp_walk f (n # ns) s = do { s \<leftarrow> f (nif_num n) s; dhcp_walk f ns s }"

definition dhcp_coarse_tmr :: "('x, 'm) lwip_link \<Rightarrow> ('x, 'm) lwip_net \<Rightarrow> ('x, 'm) lwip_net option" where
  "dhcp_coarse_tmr l s = dhcp_walk (dhcp_coarse_one l) (netif_list (n_dev s)) s"

definition dhcp_fine_tmr ::
    "('x, 'm) lwip_link \<Rightarrow> ('x, 'm) lwip_app \<Rightarrow> ('x, 'm) lwip_net \<Rightarrow> ('x, 'm) lwip_net option" where
  "dhcp_fine_tmr l a s = dhcp_walk (dhcp_fine_one l a) (netif_list (n_dev s)) s"

section \<open>Receiving\<close>

text \<open>The options received: which are given, and their values.\<close>

type_synonym dhcp_rx = "(nat \<Rightarrow> bool) \<times> (nat \<Rightarrow> u32_t)"

definition rx_set :: "nat \<Rightarrow> u32_t \<Rightarrow> dhcp_rx \<Rightarrow> dhcp_rx" where
  "rx_set i w rx = ((fst rx)(i := True), (snd rx)(i := w))"

text \<open>
  \<open>decode_next\<close>: the value of an option at \<open>val_offset\<close> of the packet from \<open>q\<close> on.  \<open>value\<close> is 0 where the
  packet is too short for the copy; in memory it is in the byte order of the processor.
\<close>

function dhcp_decode :: "ptr \<Rightarrow> int \<Rightarrow> nat \<Rightarrow> int \<Rightarrow> dhcp_rx \<Rightarrow> pstate \<Rightarrow> (err_t \<times> dhcp_rx) option" where
  "dhcp_decode q decode_len decode_idx val_offset rx m =
     (if fst rx decode_idx then Some (ERR_OK, rx)
      else do {
        bs \<leftarrow> pbuf_copy_partial (Some q) (min decode_len 4) val_offset m;
        let value = load32 (\<lambda>i. if nat i < length bs then bs ! nat i else 0) 0;
        if decode_len > 4
        then if decode_len mod 4 \<noteq> 0 then Some (ERR_VAL, rx)
             else dhcp_decode q (decode_len - 4) (decode_idx + 1) (c_u16 (val_offset + 4)) (rx_set decode_idx (lwip_htonl value) rx) m
        else if decode_len = 4 then Some (ERR_OK, rx_set decode_idx (lwip_ntohl value) rx)
        else if decode_len \<noteq> 1 then Some (ERR_VAL, rx)
        else Some (ERR_OK, rx_set decode_idx (value AND 0xff) rx)
      })"
  by pat_completeness auto
termination by (relation "measure (\<lambda>(q, n, i, off, rx, m). nat n)") auto

declare dhcp_decode.simps [simp del]

text \<open>The cases of the options: the bytes to decode, the index of the value and \<open>len\<close>, or nothing for \<open>ERR_VAL\<close>.\<close>

definition dhcp_option_case :: "u8_t \<Rightarrow> int \<Rightarrow> (int \<times> nat \<times> int) option" where
  "dhcp_option_case op len =
     (let fixed = (\<lambda>n i. if len = n then Some (len, i, len) else None) in
      if op = DHCP_OPTION_PAD then Some (0, 0, 0)
      else if op = DHCP_OPTION_SUBNET_MASK then fixed 4 DHCP_OPTION_IDX_SUBNET_MASK
      else if op = DHCP_OPTION_ROUTER then if len \<ge> 4 then Some (4, DHCP_OPTION_IDX_ROUTER, len) else None
      else if op = DHCP_OPTION_DNS_SERVER
      then if len mod 4 = 0 \<and> len \<ge> min len (4 * DNS_MAX_SERVERS)
           then Some (min len (4 * DNS_MAX_SERVERS), DHCP_OPTION_IDX_DNS_SERVER, len) else None
      else if op = DHCP_OPTION_LEASE_TIME then fixed 4 DHCP_OPTION_IDX_LEASE_TIME
      else if op = DHCP_OPTION_OVERLOAD then fixed 1 DHCP_OPTION_IDX_OVERLOAD
      else if op = DHCP_OPTION_MESSAGE_TYPE then fixed 1 DHCP_OPTION_IDX_MSG_TYPE
      else if op = DHCP_OPTION_SERVER_ID then fixed 4 DHCP_OPTION_IDX_SERVER_ID
      else if op = DHCP_OPTION_T1 then fixed 4 DHCP_OPTION_IDX_T1
      else if op = DHCP_OPTION_T2 then fixed 4 DHCP_OPTION_IDX_T2
      else Some (0, 0, len))"

definition dhcp_option_len :: "ptr \<Rightarrow> int \<Rightarrow> pstate \<Rightarrow> int" where
  "dhcp_option_len q offset m =
     (if offset + 1 < pb_len (p_pbufs m q) then uint (get8 (pb_payload (p_pbufs m q)) (offset + 1) m)
      else case pb_next (p_pbufs m q) of None \<Rightarrow> 0 | Some r \<Rightarrow> uint (get8 (pb_payload (p_pbufs m r)) 0 m))"

text \<open>The loop over the options of one field, at \<open>offset\<close> of the pbuf \<open>q\<close>.\<close>

partial_function (option) dhcp_parse_loop :: "ptr \<Rightarrow> int \<Rightarrow> int \<Rightarrow> dhcp_rx \<Rightarrow> pstate \<Rightarrow> (err_t \<times> dhcp_rx) option" where
  "dhcp_parse_loop q offset offset_max rx m =
     (let op = get8 (pb_payload (p_pbufs m q)) offset m in
      if op \<noteq> DHCP_OPTION_END \<and> offset < offset_max
      then case dhcp_option_case op (dhcp_option_len q offset m) of
          None \<Rightarrow> Some (ERR_VAL, rx)
        | Some (decode_len, decode_idx, len) \<Rightarrow> do {
            let val_offset = c_u16 (offset + 2);
            let offset = (if op = DHCP_OPTION_PAD then c_u16 (offset - 1) else offset);
            let offset = c_u16 (offset + len + 2);
            (err, rx) \<leftarrow> (if decode_len > 0 then dhcp_decode q decode_len decode_idx val_offset rx m else Some (ERR_OK, rx));
            if err \<noteq> ERR_OK then Some (err, rx)
            else if offset \<ge> pb_len (p_pbufs m q)
            then let offset = c_u16 (offset - pb_len (p_pbufs m q));
                     offset_max = c_u16 (offset_max - pb_len (p_pbufs m q))
              in if offset < offset_max \<and> offset_max \<noteq> 0
                 then do { q \<leftarrow> pb_next (p_pbufs m q); dhcp_parse_loop q offset offset_max rx m }
                 else Some (ERR_OK, rx)
            else dhcp_parse_loop q offset offset_max rx m
          }
      else Some (ERR_OK, rx))"

text \<open>The pbuf that holds the byte at \<open>idx\<close>, with the offsets from its start.\<close>

partial_function (option) dhcp_parse_start :: "ptr option \<Rightarrow> int \<Rightarrow> int \<Rightarrow> pstate \<Rightarrow> (ptr \<times> int \<times> int) option option" where
  "dhcp_parse_start q idx idx_max m =
     (case q of
        None \<Rightarrow> Some None
      | Some p \<Rightarrow>
          if idx \<ge> pb_len (p_pbufs m p)
          then dhcp_parse_start (pb_next (p_pbufs m p)) (c_u16 (idx - pb_len (p_pbufs m p))) (c_u16 (idx_max - pb_len (p_pbufs m p))) m
          else Some (Some (p, idx, idx_max)))"

definition dhcp_overload :: "bool \<times> bool \<Rightarrow> dhcp_rx \<Rightarrow> bool \<times> bool \<times> dhcp_rx" where
  "dhcp_overload fs rx =
     (if fst rx DHCP_OPTION_IDX_OVERLOAD
      then let overload = snd rx DHCP_OPTION_IDX_OVERLOAD;
               rx = ((fst rx)(DHCP_OPTION_IDX_OVERLOAD := False), snd rx)
        in if overload = DHCP_OVERLOAD_FILE then (True, snd fs, rx)
           else if overload = DHCP_OVERLOAD_SNAME then (fst fs, True, rx)
           else if overload = DHCP_OVERLOAD_SNAME_FILE then (True, True, rx)
           else (fst fs, snd fs, rx)
      else (fst fs, snd fs, rx))"

text \<open>From the label \<open>again\<close> on; \<open>fs\<close> says whether the fields \<open>file\<close> and \<open>sname\<close> are still to be parsed as options.\<close>

partial_function (option) dhcp_parse_fields ::
    "ptr \<Rightarrow> int \<Rightarrow> int \<Rightarrow> bool \<times> bool \<Rightarrow> dhcp_rx \<Rightarrow> pstate \<Rightarrow> (err_t \<times> dhcp_rx) option" where
  "dhcp_parse_fields p options_idx options_idx_max fs rx m = do {
     r \<leftarrow> dhcp_parse_start (Some p) options_idx options_idx_max m;
     case r of
       None \<Rightarrow> Some (ERR_BUF, rx)
     | Some (q, offset, offset_max) \<Rightarrow> do {
         (err, rx) \<leftarrow> dhcp_parse_loop q offset offset_max rx m;
         if err \<noteq> ERR_OK then Some (err, rx)
         else case dhcp_overload fs rx of
           (parse_file, parse_sname, rx) \<Rightarrow>
             if parse_file then dhcp_parse_fields p DHCP_FILE_OFS (DHCP_FILE_OFS + int DHCP_FILE_LEN) (False, parse_sname) rx m
             else if parse_sname then dhcp_parse_fields p DHCP_SNAME_OFS (DHCP_SNAME_OFS + int DHCP_SNAME_LEN) (False, False) rx m
             else Some (ERR_OK, rx)
       }
   }"

definition dhcp_parse_reply :: "int \<Rightarrow> ptr \<Rightarrow> ('x, 'm) lwip_net \<Rightarrow> (err_t \<times> ('x, 'm) lwip_net) option" where
  "dhcp_parse_reply k p s =
     (let s = upd_lwip (\<lambda>v. v\<lparr>dhcp_rx_options_given := (\<lambda>_. False)\<rparr>) s in
      if pb_len (p_pbufs (n_mem s) p) < DHCP_SNAME_OFS then Some (ERR_BUF, s)
      else do {
        let s = upd_dhcp k (\<lambda>d. d\<lparr>d_msg_in := Some (payload_of p s)\<rparr>) s;
        (err, given, val) \<leftarrow> dhcp_parse_fields p DHCP_OPTIONS_OFS (pb_tot_len (p_pbufs (n_mem s) p)) (False, False)
          (dhcp_rx_options_given (n_dev s), dhcp_rx_options_val (n_dev s)) (n_mem s);
        Some (err, upd_lwip (\<lambda>v. v\<lparr>dhcp_rx_options_given := given, dhcp_rx_options_val := val\<rparr>) s)
      })"

text \<open>What \<open>dhcp_recv\<close> does with a message of the type given.\<close>

definition dhcp_react ::
    "('x, 'm) lwip_link \<Rightarrow> ('x, 'm) lwip_app \<Rightarrow> int \<Rightarrow> u8_t \<Rightarrow> ('x, 'm) lwip_net \<Rightarrow> ('x, 'm) lwip_net option" where
  "dhcp_react l a k msg_type s = do {
     d \<leftarrow> the_dhcp k s;
     if msg_type = DHCP_ACK
     then if d_state d = DHCP_REQUESTING
          then do { s \<leftarrow> dhcp_handle_ack k s; dhcp_check l k s }
          else if d_state d = DHCP_REBOOTING \<or> d_state d = DHCP_REBINDING \<or> d_state d = DHCP_RENEWING
          then dhcp_bind l a k s
          else Some s
     else if msg_type = DHCP_NAK \<and> d_state d \<in> {DHCP_REBOOTING, DHCP_REQUESTING, DHCP_REBINDING, DHCP_RENEWING}
     then dhcp_handle_nak l a k s
     else if msg_type = DHCP_OFFER \<and> d_state d = DHCP_SELECTING
     then dhcp_handle_offer l k (upd_dhcp k (\<lambda>d. d\<lparr>d_request_timeout := 0\<rparr>) s)
     else Some s
   }"

definition dhcp_recv_check :: "netif \<Rightarrow> dhcp \<Rightarrow> ptr \<Rightarrow> pstate \<Rightarrow> bool" where
  "dhcp_recv_check n d p m \<longleftrightarrow>
     (let reply_msg = pb_payload (p_pbufs m p) in
      DHCP_MIN_REPLY_LEN \<le> pb_len (p_pbufs m p) \<and> get8 reply_msg DHCP_OP_OFS m = DHCP_BOOTREPLY \<and>
      list_all (\<lambda>i. nif_hwaddr n ! i = get8 reply_msg (DHCP_CHADDR_OFS + int i) m) [0..<length (nif_hwaddr n)] \<and>
      lwip_ntohl (get32 reply_msg DHCP_XID_OFS m) = d_xid d)"

definition dhcp_recv ::
    "('x, 'm) lwip_link \<Rightarrow> ('x, 'm) lwip_app \<Rightarrow> int \<Rightarrow> ptr \<Rightarrow> ('x, 'm) lwip_net \<Rightarrow> ('x, 'm) lwip_net option" where
  "dhcp_recv l a k p s = do {
     n \<leftarrow> the_netif k s;
     d \<leftarrow> the_dhcp k s;
     s \<leftarrow>
       (if dhcp_recv_check n d p (n_mem s)
        then do {
          (err, s) \<leftarrow> dhcp_parse_reply k p s;
          if err \<noteq> ERR_OK \<or> \<not> dhcp_rx_given DHCP_OPTION_IDX_MSG_TYPE s then Some s
          else dhcp_react l a k (ucast (dhcp_rx_value DHCP_OPTION_IDX_MSG_TYPE s)) s
        }
        else Some s);
     free_mem l (Some p) (upd_dhcp k (\<lambda>d. d\<lparr>d_msg_in := None\<rparr>) s)
   }"

section \<open>The client in the stack\<close>

text \<open>The callback of UDP and the call of \<open>etharp.c\<close>, in place of the parameters that stand for them.\<close>

definition dhcp_udp_app ::
    "('x, 'm) lwip_link \<Rightarrow> ('x, 'm) lwip_app \<Rightarrow> ('x, 'm) lwip_vars_scheme udp_app \<Rightarrow> ('x, 'm) lwip_vars_scheme udp_app" where
  "dhcp_udp_app l a ua = ua\<lparr>udp_recv_fn := (\<lambda>f arg pcb p addr port s.
     if f = DHCP_RECV then dhcp_recv l a (int arg) p s else udp_recv_fn ua f arg pcb p addr port s)\<rparr>"

definition dhcp_link_of :: "('x, 'm) lwip_link \<Rightarrow> ('x, 'm) lwip_link" where
  "dhcp_link_of l = l\<lparr>dhcp_arp_reply := (\<lambda>n addr s. dhcp_arp_reply_in l (nif_num n) addr s)\<rparr>"

end
