(* ===== verification/Ethernetif.thy ===== *)
theory Ethernetif
  imports Etharp
begin

text \<open>
  The Ethernet driver: \<open>netif/ethernetif.c\<close>, the two functions of \<open>stm32_eth.c\<close> that lay out the
  descriptor chains, those it reads them with, and the interrupt handler of \<open>stm32f10x_it.c\<close>.  The
  descriptor tables are lists, a descriptor address is its index, a buffer address is an offset into
  \<open>Tx_Buff\<close> or \<open>Rx_Buff\<close>.  The DMA engine is the hardware; what it may do to the descriptors is
  stated where it is needed.
\<close>

section \<open>Descriptors\<close>

record eth_desc =
  d_status :: u32_t
  d_control :: u32_t
  d_buf1 :: int
  d_next :: nat

record eth_dev =
  rx_tab :: "eth_desc list"
  tx_tab :: "eth_desc list"
  rx_get :: nat
  tx_set :: nat
  rx_buff :: memory
  tx_buff :: memory
  dma_sr :: u32_t
  rx_polls :: nat
  tx_polls :: nat
  eth_started :: bool

definition ETH_RXBUFNB :: nat where "ETH_RXBUFNB = 5"
definition ETH_TXBUFNB :: nat where "ETH_TXBUFNB = 5"
definition ETH_MAX_PACKET_SIZE :: int where "ETH_MAX_PACKET_SIZE = 1520"

definition ETH_DMATxDesc_OWN :: u32_t where "ETH_DMATxDesc_OWN = 0x80000000"
definition ETH_DMATxDesc_LS :: u32_t where "ETH_DMATxDesc_LS = 0x20000000"
definition ETH_DMATxDesc_FS :: u32_t where "ETH_DMATxDesc_FS = 0x10000000"
definition ETH_DMATxDesc_TCH :: u32_t where "ETH_DMATxDesc_TCH = 0x00100000"
definition ETH_DMATxDesc_TBS1 :: u32_t where "ETH_DMATxDesc_TBS1 = 0x00001FFF"
definition ETH_DMATxDesc_ChecksumTCPUDPICMPFull :: u32_t where "ETH_DMATxDesc_ChecksumTCPUDPICMPFull = 0x00C00000"

definition ETH_DMARxDesc_OWN :: u32_t where "ETH_DMARxDesc_OWN = 0x80000000"
definition ETH_DMARxDesc_FL :: u32_t where "ETH_DMARxDesc_FL = 0x3FFF0000"
definition ETH_DMARxDesc_ES :: u32_t where "ETH_DMARxDesc_ES = 0x00008000"
definition ETH_DMARxDesc_FS :: u32_t where "ETH_DMARxDesc_FS = 0x00000200"
definition ETH_DMARxDesc_LS :: u32_t where "ETH_DMARxDesc_LS = 0x00000100"
definition ETH_DMARxDesc_DIC :: u32_t where "ETH_DMARxDesc_DIC = 0x80000000"
definition ETH_DMARxDesc_RCH :: u32_t where "ETH_DMARxDesc_RCH = 0x00004000"

definition ETH_DMASR_RBUS :: u32_t where "ETH_DMASR_RBUS = 0x00000080"
definition ETH_DMASR_TBUS :: u32_t where "ETH_DMASR_TBUS = 0x00000004"

definition ETH_ERROR :: u32_t where "ETH_ERROR = 0"
definition ETH_SUCCESS :: u32_t where "ETH_SUCCESS = 1"

abbreviation rx_desc :: "'a eth_dev_scheme \<Rightarrow> eth_desc" where
  "rx_desc d \<equiv> rx_tab d ! rx_get d"

abbreviation tx_desc :: "'a eth_dev_scheme \<Rightarrow> eth_desc" where
  "tx_desc d \<equiv> tx_tab d ! tx_set d"

definition upd_rx :: "nat \<Rightarrow> (eth_desc \<Rightarrow> eth_desc) \<Rightarrow> 'a eth_dev_scheme \<Rightarrow> 'a eth_dev_scheme" where
  "upd_rx i f d = d\<lparr>rx_tab := (rx_tab d)[i := f (rx_tab d ! i)]\<rparr>"

definition upd_tx :: "nat \<Rightarrow> (eth_desc \<Rightarrow> eth_desc) \<Rightarrow> 'a eth_dev_scheme \<Rightarrow> 'a eth_dev_scheme" where
  "upd_tx i f d = d\<lparr>tx_tab := (tx_tab d)[i := f (tx_tab d ! i)]\<rparr>"

text \<open>
  A write to the status register clears the bits that are one in it.  The writes to the poll
  demand registers are counted.
\<close>

definition write_dma_sr :: "u32_t \<Rightarrow> 'a eth_dev_scheme \<Rightarrow> 'a eth_dev_scheme" where
  "write_dma_sr w d = d\<lparr>dma_sr := dma_sr d AND NOT w\<rparr>"

section \<open>The descriptor chains\<close>

definition ETH_DMATxDescChainInit :: "nat \<Rightarrow> 'a eth_dev_scheme \<Rightarrow> 'a eth_dev_scheme" where
  "ETH_DMATxDescChainInit n d =
     fold (\<lambda>i. upd_tx i (\<lambda>x. x\<lparr>d_status := ETH_DMATxDesc_TCH, d_buf1 := int i * ETH_MAX_PACKET_SIZE,
                              d_next := (if i < n - 1 then i + 1 else 0)\<rparr>))
       [0..<n] (d\<lparr>tx_set := 0\<rparr>)"

definition ETH_DMARxDescChainInit :: "nat \<Rightarrow> 'a eth_dev_scheme \<Rightarrow> 'a eth_dev_scheme" where
  "ETH_DMARxDescChainInit n d =
     fold (\<lambda>i. upd_rx i (\<lambda>x. x\<lparr>d_status := ETH_DMARxDesc_OWN,
                              d_control := ETH_DMARxDesc_RCH OR word_of_int ETH_MAX_PACKET_SIZE,
                              d_buf1 := int i * ETH_MAX_PACKET_SIZE,
                              d_next := (if i < n - 1 then i + 1 else 0)\<rparr>))
       [0..<n] (d\<lparr>rx_get := 0\<rparr>)"

definition ETH_DMARxDescReceiveITConfig :: "nat \<Rightarrow> bool \<Rightarrow> 'a eth_dev_scheme \<Rightarrow> 'a eth_dev_scheme" where
  "ETH_DMARxDescReceiveITConfig i enable d =
     (if enable then upd_rx i (\<lambda>x. x\<lparr>d_control := d_control x AND NOT ETH_DMARxDesc_DIC\<rparr>) d
      else upd_rx i (\<lambda>x. x\<lparr>d_control := d_control x OR ETH_DMARxDesc_DIC\<rparr>) d)"

definition ETH_DMATxDescChecksumInsertionConfig :: "nat \<Rightarrow> u32_t \<Rightarrow> 'a eth_dev_scheme \<Rightarrow> 'a eth_dev_scheme" where
  "ETH_DMATxDescChecksumInsertionConfig i c d = upd_tx i (\<lambda>x. x\<lparr>d_status := d_status x OR c\<rparr>) d"

definition low_level_init :: "u8_t list \<Rightarrow> netif \<Rightarrow> 'a eth_dev_scheme \<Rightarrow> netif \<times> 'a eth_dev_scheme" where
  "low_level_init MACaddr netif d =
     (let netif = netif\<lparr>nif_hwaddr := take 6 MACaddr, nif_mtu := 1500,
                        nif_flags := NETIF_FLAG_BROADCAST OR NETIF_FLAG_ETHARP OR NETIF_FLAG_LINK_UP\<rparr>;
          d = ETH_DMATxDescChainInit ETH_TXBUFNB d;
          d = ETH_DMARxDescChainInit ETH_RXBUFNB d;
          d = fold (\<lambda>i. ETH_DMARxDescReceiveITConfig i True) [0..<ETH_RXBUFNB] d;
          d = fold (\<lambda>i. ETH_DMATxDescChecksumInsertionConfig i ETH_DMATxDesc_ChecksumTCPUDPICMPFull) [0..<ETH_TXBUFNB] d
      in (netif, d\<lparr>eth_started := True\<rparr>))"

section \<open>Sending\<close>

definition ETH_GetCurrentTxBuffer :: "'a eth_dev_scheme \<Rightarrow> int" where
  "ETH_GetCurrentTxBuffer d = d_buf1 (tx_desc d)"

definition ETH_TxPkt_ChainMode :: "int \<Rightarrow> 'a eth_dev_scheme \<Rightarrow> u32_t \<times> 'a eth_dev_scheme" where
  "ETH_TxPkt_ChainMode FrameLength d =
     (if d_status (tx_desc d) AND ETH_DMATxDesc_OWN \<noteq> 0 then (ETH_ERROR, d)
      else let i = tx_set d;
               d = upd_tx i (\<lambda>x. x\<lparr>d_control := word_of_int FrameLength AND ETH_DMATxDesc_TBS1\<rparr>) d;
               d = upd_tx i (\<lambda>x. x\<lparr>d_status := d_status x OR (ETH_DMATxDesc_LS OR ETH_DMATxDesc_FS)\<rparr>) d;
               d = upd_tx i (\<lambda>x. x\<lparr>d_status := d_status x OR ETH_DMATxDesc_OWN\<rparr>) d;
               d = (if dma_sr d AND ETH_DMASR_TBUS \<noteq> 0
                    then (write_dma_sr ETH_DMASR_TBUS d)\<lparr>tx_polls := tx_polls d + 1\<rparr> else d)
           in (ETH_SUCCESS, d\<lparr>tx_set := d_next (tx_desc d)\<rparr>))"

text \<open>\<open>memcpy\<close> into a buffer, and the copying loop of \<open>low_level_output\<close>.\<close>

definition store_bytes :: "int \<Rightarrow> u8_t list \<Rightarrow> memory \<Rightarrow> memory" where
  "store_bytes a bs m = (\<lambda>k. if a \<le> k \<and> k < a + int (length bs) then bs ! nat (k - a) else m k)"

partial_function (option) tx_copy_loop :: "pstate \<Rightarrow> int \<Rightarrow> ptr option \<Rightarrow> int \<Rightarrow> memory \<Rightarrow> (int \<times> memory) option" where
  "tx_copy_loop m buffer q l b =
     (case q of None \<Rightarrow> Some (l, b)
      | Some q \<Rightarrow>
          let x = p_pbufs m q
          in tx_copy_loop m buffer (pb_next x) (l + pb_len x)
               (store_bytes (buffer + l) (read_bytes (pb_payload x) (pb_len x) m) b))"

definition low_level_output :: "ptr \<Rightarrow> pstate \<Rightarrow> 'a eth_dev_scheme \<Rightarrow> (err_t \<times> 'a eth_dev_scheme) option" where
  "low_level_output p m d =
     (let buffer = ETH_GetCurrentTxBuffer d in do {
        (l, b) \<leftarrow> tx_copy_loop m buffer (Some p) 0 (tx_buff d);
        let (r, d) = ETH_TxPkt_ChainMode (c_u16 l) (d\<lparr>tx_buff := b\<rparr>);
        Some (ERR_OK, d)
      })"

section \<open>Receiving\<close>

record FrameTypeDef =
  fr_length :: u32_t
  fr_buffer :: int
  fr_descriptor :: "nat option"

definition rx_good :: "u32_t \<Rightarrow> bool" where
  "rx_good st \<longleftrightarrow> st AND ETH_DMARxDesc_ES = 0 \<and> st AND ETH_DMARxDesc_LS \<noteq> 0 \<and> st AND ETH_DMARxDesc_FS \<noteq> 0"

definition ETH_RxPkt_ChainMode :: "'a eth_dev_scheme \<Rightarrow> FrameTypeDef \<times> 'a eth_dev_scheme" where
  "ETH_RxPkt_ChainMode d =
     (let frame = \<lparr>fr_length = 0, fr_buffer = 0, fr_descriptor = None\<rparr>;
          x = rx_desc d
      in if d_status x AND ETH_DMARxDesc_OWN \<noteq> 0
         then (frame\<lparr>fr_length := ETH_ERROR\<rparr>,
               if dma_sr d AND ETH_DMASR_RBUS \<noteq> 0
               then (write_dma_sr ETH_DMASR_RBUS d)\<lparr>rx_polls := rx_polls d + 1\<rparr> else d)
         else let (framelength, frame) =
                (if rx_good (d_status x)
                 then (drop_bit 16 (d_status x AND ETH_DMARxDesc_FL) - 4, frame\<lparr>fr_buffer := d_buf1 x\<rparr>)
                 else (ETH_ERROR, frame))
              in (frame\<lparr>fr_length := framelength, fr_descriptor := Some (rx_get d)\<rparr>, d\<lparr>rx_get := d_next x\<rparr>))"

partial_function (option) rx_copy_loop :: "memory \<Rightarrow> int \<Rightarrow> ptr option \<Rightarrow> int \<Rightarrow> pstate \<Rightarrow> pstate option" where
  "rx_copy_loop b buffer q l m =
     (case q of None \<Rightarrow> Some m
      | Some q \<Rightarrow>
          let x = p_pbufs m q
          in rx_copy_loop b buffer (pb_next x) (l + pb_len x)
               (mem_write (pb_payload x) (bytes b (buffer + l) (pb_len x)) m))"

definition low_level_input :: "custom_free \<Rightarrow> 'a eth_dev_scheme net \<Rightarrow> (ptr option \<times> 'a eth_dev_scheme net) option" where
  "low_level_input cf s =
     (let (frame, d) = ETH_RxPkt_ChainMode (n_dev s);
          len = uint (ucast (fr_length frame) :: u16_t)
      in do {
        (p, m) \<leftarrow> pbuf_alloc cf PBUF_RAW len PBUF_POOL (n_mem s);
        m \<leftarrow> (case p of None \<Rightarrow> Some m | Some p \<Rightarrow> rx_copy_loop (rx_buff d) (fr_buffer frame) (Some p) 0 m);
        i \<leftarrow> fr_descriptor frame;
        let d = upd_rx i (\<lambda>x. x\<lparr>d_status := ETH_DMARxDesc_OWN\<rparr>) d;
        let d = (if dma_sr d AND ETH_DMASR_RBUS \<noteq> 0
                 then (write_dma_sr ETH_DMASR_RBUS d)\<lparr>rx_polls := rx_polls d + 1\<rparr> else d);
        Some (p, s\<lparr>n_mem := m, n_dev := d\<rparr>)
      })"

text \<open>\<open>netif->input\<close> is an argument; \<open>LWIP_Init\<close> sets it to \<open>ethernet_input\<close>.\<close>

definition ethernetif_input ::
    "custom_free \<Rightarrow> (ptr \<Rightarrow> 'a eth_dev_scheme net \<Rightarrow> (err_t \<times> 'a eth_dev_scheme net) option) \<Rightarrow>
     'a eth_dev_scheme net \<Rightarrow> (err_t \<times> 'a eth_dev_scheme net) option" where
  "ethernetif_input cf input_fn s = do {
     (p, s) \<leftarrow> low_level_input cf s;
     case p of
       None \<Rightarrow> Some (ERR_MEM, s)
     | Some p \<Rightarrow> do {
         (err, s) \<leftarrow> input_fn p s;
         if err \<noteq> ERR_OK
         then do { (n, m) \<leftarrow> pbuf_free cf (Some p) (n_mem s); Some (err, s\<lparr>n_mem := m\<rparr>) }
         else Some (err, s)
       }
   }"

section \<open>The receive interrupt\<close>

definition ETH_GetDMARxDescFrameLength :: "nat \<Rightarrow> 'a eth_dev_scheme \<Rightarrow> u32_t" where
  "ETH_GetDMARxDescFrameLength i d = drop_bit 16 (d_status (rx_tab d ! i) AND ETH_DMARxDesc_FL)"

definition ETH_GetRxPktSize :: "'a eth_dev_scheme \<Rightarrow> u32_t" where
  "ETH_GetRxPktSize d =
     (if d_status (rx_desc d) AND ETH_DMARxDesc_OWN = 0 \<and> rx_good (d_status (rx_desc d))
      then ETH_GetDMARxDescFrameLength (rx_get d) d else 0)"

definition LwIP_Pkt_Handle ::
    "'a eth_dev_scheme link_if \<Rightarrow> netif \<Rightarrow> 'a eth_dev_scheme net \<Rightarrow> 'a eth_dev_scheme net option" where
  "LwIP_Pkt_Handle l netif s = do {
     (e, s) \<leftarrow> ethernetif_input (custom_free l) (\<lambda>p. ethernet_input l p netif) s;
     Some s
   }"

partial_function (option) irq_loop ::
    "'a eth_dev_scheme link_if \<Rightarrow> netif \<Rightarrow> 'a eth_dev_scheme net \<Rightarrow> 'a eth_dev_scheme net option" where
  "irq_loop l netif s =
     (if ETH_GetRxPktSize (n_dev s) \<noteq> 0
      then do { s \<leftarrow> LwIP_Pkt_Handle l netif s; irq_loop l netif s }
      else Some s)"

definition ETH_DMA_IT_R :: u32_t where "ETH_DMA_IT_R = 0x00000040"
definition ETH_DMA_IT_NIS :: u32_t where "ETH_DMA_IT_NIS = 0x00010000"

definition ETH_DMAClearITPendingBit :: "u32_t \<Rightarrow> 'a eth_dev_scheme \<Rightarrow> 'a eth_dev_scheme" where
  "ETH_DMAClearITPendingBit w d = write_dma_sr w d"

definition ETH_IRQHandler ::
    "'a eth_dev_scheme link_if \<Rightarrow> netif \<Rightarrow> 'a eth_dev_scheme net \<Rightarrow> 'a eth_dev_scheme net option" where
  "ETH_IRQHandler l netif s = do {
     s \<leftarrow> irq_loop l netif s;
     Some (s\<lparr>n_dev := ETH_DMAClearITPendingBit ETH_DMA_IT_NIS (ETH_DMAClearITPendingBit ETH_DMA_IT_R (n_dev s))\<rparr>)
   }"

end
