(* ===== verification/PcbLists.thy ===== *)
theory PcbLists
  imports MemPool
begin

text \<open>
  Singly linked lists as the protocols keep them: a head in a global variable and a link in each
  element.  What inserting, moving to the front and unlinking do is proved once, for any state with
  such a list; the raw and UDP control blocks are instances.
\<close>

section \<open>Lists of links\<close>

lemma linked_cong: "(\<And>x. x \<in> set xs \<Longrightarrow> nx x = nx' x) \<Longrightarrow> linked nx p xs = linked nx' p xs"
  by (induction xs arbitrary: p) auto

lemma linked_first: "linked nx p xs \<Longrightarrow> p = (case xs of [] \<Rightarrow> None | x # _ \<Rightarrow> Some x)"
  by (cases xs) simp_all

lemma linked_behind: "linked nx p (us @ x # xs) \<Longrightarrow> linked nx (nx x) xs"
  using linked_append [of nx p us "x # xs"] by auto

lemma linked_insert:
  assumes "linked nx p (us @ ws)" "n \<notin> set (us @ ws)" "nx' n = (case ws of [] \<Rightarrow> None | w # _ \<Rightarrow> Some w)"
    "\<And>x. x \<in> set (us @ ws) \<Longrightarrow> us = [] \<or> x \<noteq> last us \<Longrightarrow> nx' x = nx x" "us \<noteq> [] \<Longrightarrow> nx' (last us) = Some n"
  shows "linked nx' (if us = [] then Some n else p) (us @ n # ws)"
  using assms
proof (induction us arbitrary: p)
  case Nil
  then have "linked nx' p ws" using linked_cong [of ws nx' nx p] by simp
  moreover have "p = (case ws of [] \<Rightarrow> None | w # _ \<Rightarrow> Some w)" using Nil.prems(1) by (cases ws) simp_all
  ultimately show ?case using Nil.prems(3) by simp
next
  case (Cons u us)
  have u: "p = Some u" "linked nx (nx u) (us @ ws)" using Cons.prems(1) by simp_all
  have d: "u \<notin> set (us @ ws)" using linked_distinct [OF Cons.prems(1)] by simp
  have "linked nx' (if us = [] then Some n else nx u) (us @ n # ws)"
  proof (rule Cons.IH [OF u(2)])
    show "nx' x = nx x" if "x \<in> set (us @ ws)" "us = [] \<or> x \<noteq> last us" for x
      using Cons.prems(4) [of x] that d by (cases "us = []") auto
  qed (use Cons.prems in auto)
  moreover have "nx' u = (if us = [] then Some n else nx u)"
    using Cons.prems(4) [of u] Cons.prems(5) d by (cases "us = []") (auto dest: last_in_set)
  ultimately show ?case using u(1) by simp
qed

lemma linked_remove:
  assumes "linked nx p (us @ i # ws)"
    "\<And>x. x \<in> set (us @ ws) \<Longrightarrow> us = [] \<or> x \<noteq> last us \<Longrightarrow> nx' x = nx x" "us \<noteq> [] \<Longrightarrow> nx' (last us) = nx i"
  shows "linked nx' (if us = [] then nx i else p) (us @ ws)"
  using assms
proof (induction us arbitrary: p)
  case Nil
  then show ?case using linked_cong [of ws nx' nx "nx i"] by simp
next
  case (Cons u us)
  have u: "p = Some u" "linked nx (nx u) (us @ i # ws)" using Cons.prems(1) by simp_all
  have d: "u \<notin> set (us @ i # ws)" using linked_distinct [OF Cons.prems(1)] by simp
  have "linked nx' (if us = [] then nx i else nx u) (us @ ws)"
  proof (rule Cons.IH [OF u(2)])
    show "nx' x = nx x" if "x \<in> set (us @ ws)" "us = [] \<or> x \<noteq> last us" for x
      using Cons.prems(2) [of x] that d by (cases "us = []") auto
  qed (use Cons.prems in auto)
  moreover have "nx' u = (if us = [] then nx i else nx u)"
    using Cons.prems(2) [of u] Cons.prems(3) d by (cases "us = []") (auto dest: last_in_set)
  ultimately show ?case using u(1) by simp
qed

section \<open>A state with a list\<close>

definition last_opt :: "'a list \<Rightarrow> 'a option" where
  "last_opt us = (if us = [] then None else Some (last us))"

lemma last_opt_simps [simp]: "last_opt [] = None" "last_opt (us @ [u]) = Some u"
  by (simp_all add: last_opt_def)

locale link_list =
  fixes nxt :: "'s \<Rightarrow> nat \<Rightarrow> nat option" and set_nxt :: "nat \<Rightarrow> nat option \<Rightarrow> 's \<Rightarrow> 's"
    and head :: "'s \<Rightarrow> nat option" and set_head :: "nat option \<Rightarrow> 's \<Rightarrow> 's"
  assumes nxt_set_nxt: "nxt (set_nxt i v s) = (nxt s)(i := v)" and nxt_set_head: "nxt (set_head v s) = nxt s"
    and head_set_nxt: "head (set_nxt i v s) = head s" and head_set_head: "head (set_head v s) = v"
begin

lemmas access = nxt_set_nxt nxt_set_head head_set_nxt head_set_head

lemma insert_front:
  assumes "linked (nxt s) (head s) xs" "i \<notin> set xs"
  shows "linked (nxt (set_head (Some i) (set_nxt i (head s) s))) (head (set_head (Some i) (set_nxt i (head s) s))) (i # xs)"
  using assms by (simp add: access)

lemma to_front:
  assumes "linked (nxt s) (head s) (us @ i # ws)" "us \<noteq> []"
  shows "let s1 = set_nxt (last us) (nxt s i) s; s2 = set_head (Some i) (set_nxt i (head s1) s1)
    in linked (nxt s2) (head s2) (i # us @ ws)"
proof -
  have d: "i \<notin> set (us @ ws)" "last us \<in> set us" using linked_distinct [OF assms(1)] assms(2) by auto
  then have "last us \<noteq> i" by auto
  moreover have "linked ((nxt s)(last us := nxt s i)) (head s) (us @ ws)"
    using linked_remove [OF assms(1), of "(nxt s)(last us := nxt s i)"] assms(2) by simp
  ultimately show ?thesis using d by (simp add: Let_def access fun_upd_twist)
qed

end

text \<open>The loop that takes an element out: every link to it is turned to its successor.\<close>

locale unlink_loop = link_list nxt set_nxt head set_head
  for nxt :: "'s \<Rightarrow> nat \<Rightarrow> nat option" and set_nxt head set_head +
  fixes loop :: "nat \<Rightarrow> nat option \<Rightarrow> 's \<Rightarrow> 's option"
  assumes loop_step: "loop i q s =
    (case q of None \<Rightarrow> Some s
     | Some j \<Rightarrow> let s = (if nxt s j = Some i then set_nxt j (nxt s i) s else s) in loop i (nxt s j) s)"
begin

lemma loop_skip: "linked (nxt s) q xs \<Longrightarrow> i \<notin> set xs \<Longrightarrow> loop i q s = Some s"
proof (induction xs arbitrary: q)
  case Nil
  then show ?case by (simp add: loop_step [of i None])
next
  case (Cons x xs)
  then have x: "q = Some x" "linked (nxt s) (nxt s x) xs" "i \<notin> set xs" by simp_all
  have "nxt s x \<noteq> Some i" using x(2,3) by (cases xs) auto
  then show ?case using Cons.IH [OF x(2,3)] x(1) by (simp add: loop_step [of i "Some x"])
qed

lemma loop_unlinks:
  assumes "linked (nxt s) q (us @ i # ws)" "us \<noteq> []"
  shows "loop i q s = Some (set_nxt (last us) (nxt s i) s)"
  using assms
proof (induction us arbitrary: q)
  case Nil
  then show ?case by simp
next
  case (Cons u us)
  have u: "q = Some u" "linked (nxt s) (nxt s u) (us @ i # ws)" using Cons.prems(1) by simp_all
  have d: "u \<notin> set ws" "i \<notin> set ws" "i \<noteq> u" using linked_distinct [OF Cons.prems(1)] by auto
  show ?case
  proof (cases us)
    case Nil
    let ?s = "set_nxt u (nxt s i) s"
    have "linked (nxt ?s) (nxt s i) ws" using u(2) Nil d(1) by (simp add: access)
    from loop_skip [OF this d(2)] show ?thesis using u Nil d(3) by (simp add: loop_step [of i "Some u"] Let_def access)
  next
    case (Cons v vs)
    then have "nxt s u = Some v" "v \<noteq> i" using u(2) linked_distinct [OF u(2)] by auto
    then show ?thesis using Cons.IH [OF u(2)] u(1) Cons by (simp add: loop_step [of i "Some u"])
  qed
qed

lemma unlink:
  assumes "linked (nxt s) (head s) (us @ i # ws)"
  shows "\<exists>s'. (if head s = Some i then Some (set_head (nxt s i) s) else loop i (head s) s) = Some s' \<and>
    linked (nxt s') (head s') (us @ ws) \<and>
    s' = (if us = [] then set_head (nxt s i) s else set_nxt (last us) (nxt s i) s)"
proof (cases "us = []")
  case True
  then show ?thesis using assms by (simp add: access)
next
  case False
  then have "head s \<noteq> Some i" using assms linked_distinct [OF assms] by (cases us) auto
  moreover have "linked ((nxt s)(last us := nxt s i)) (head s) (us @ ws)"
    using linked_remove [OF assms, of "(nxt s)(last us := nxt s i)"] False by simp
  ultimately show ?thesis using loop_unlinks [OF assms False] False by (simp add: access)
qed

end

text \<open>The same for a loop that stops at the first link it turns, as \<open>TCP_RMV\<close> has it.\<close>

locale unlink_first = link_list nxt set_nxt head set_head
  for nxt :: "'s \<Rightarrow> nat \<Rightarrow> nat option" and set_nxt head set_head +
  fixes loop :: "nat \<Rightarrow> nat option \<Rightarrow> 's \<Rightarrow> 's option"
  assumes loop_step: "loop i q s =
    (case q of None \<Rightarrow> Some s
     | Some j \<Rightarrow> if nxt s j = Some i then Some (set_nxt j (nxt s i) s) else loop i (nxt s j) s)"
begin

lemma loop_skip: "linked (nxt s) q xs \<Longrightarrow> i \<notin> set xs \<Longrightarrow> loop i q s = Some s"
proof (induction xs arbitrary: q)
  case Nil
  then show ?case by (simp add: loop_step [of i None])
next
  case (Cons x xs)
  then have x: "q = Some x" "linked (nxt s) (nxt s x) xs" "i \<notin> set xs" by simp_all
  have "nxt s x \<noteq> Some i" using x(2,3) by (cases xs) auto
  then show ?case using Cons.IH [OF x(2,3)] x(1) by (simp add: loop_step [of i "Some x"])
qed

lemma loop_unlinks:
  assumes "linked (nxt s) q (us @ i # ws)" "us \<noteq> []"
  shows "loop i q s = Some (set_nxt (last us) (nxt s i) s)"
  using assms
proof (induction us arbitrary: q)
  case Nil
  then show ?case by simp
next
  case (Cons u us)
  have u: "q = Some u" "linked (nxt s) (nxt s u) (us @ i # ws)" using Cons.prems(1) by simp_all
  show ?case
  proof (cases us)
    case Nil
    then show ?thesis using u by (simp add: loop_step [of i "Some u"])
  next
    case (Cons v vs)
    then have "nxt s u = Some v" "v \<noteq> i" using u(2) linked_distinct [OF u(2)] by auto
    then show ?thesis using Cons.IH [OF u(2)] u(1) Cons by (simp add: loop_step [of i "Some u"])
  qed
qed

lemma unlink:
  assumes "linked (nxt s) (head s) (us @ i # ws)"
  shows "\<exists>s'. (if head s = Some i then Some (set_head (nxt s i) s) else loop i (head s) s) = Some s' \<and>
    linked (nxt s') (head s') (us @ ws) \<and>
    s' = (if us = [] then set_head (nxt s i) s else set_nxt (last us) (nxt s i) s)"
proof (cases "us = []")
  case True
  then show ?thesis using assms by (simp add: access)
next
  case False
  then have "head s \<noteq> Some i" using assms linked_distinct [OF assms] by (cases us) auto
  moreover have "linked ((nxt s)(last us := nxt s i)) (head s) (us @ ws)"
    using linked_remove [OF assms, of "(nxt s)(last us := nxt s i)"] False by simp
  ultimately show ?thesis using loop_unlinks [OF assms False] False by (simp add: access)
qed

lemma unlink_absent:
  assumes "linked (nxt s) (head s) xs" "i \<notin> set xs"
  shows "(if head s = Some i then Some (set_head (nxt s i) s) else loop i (head s) s) = Some s"
proof -
  have "head s \<noteq> Some i" using assms by (cases xs) auto
  then show ?thesis using loop_skip [OF assms] by simp
qed

end

end
