(* ===== verification/PortSearch.thy ===== *)
theory PortSearch
  imports Prelude
begin

text \<open>
  The search of \<open>udp_new_port\<close> and \<open>tcp_new_port\<close> for a local port: both step through the ports from
  0xc000 on, starting behind the port found last, and give up when each has been tried once.
\<close>

section \<open>The range\<close>

definition port_in_range :: "u16_t \<Rightarrow> bool" where "port_in_range p \<longleftrightarrow> 0xc000 \<le> p"

text \<open>The ports of the range, counted from its start.\<close>

definition port_no :: "u16_t \<Rightarrow> nat" where "port_no p = unat p - 0xc000"

definition nth_port :: "nat \<Rightarrow> u16_t" where "nth_port k = word_of_nat (0xc000 + k mod 0x4000)"

lemma port_in_range_unat: "port_in_range p \<longleftrightarrow> 0xc000 \<le> unat p"
  by (simp add: port_in_range_def word_le_nat_alt)

lemma nth_port_no: "port_in_range p \<Longrightarrow> nth_port (port_no p) = p"
proof -
  assume "port_in_range p"
  then have "0xc000 \<le> unat p" by (simp add: port_in_range_unat)
  then have "49152 + (unat p - 49152) mod 16384 = unat p" using unat_u16 [of p] by simp
  then show ?thesis by (simp add: nth_port_def port_no_def)
qed

lemma unat_nth_port: "unat (nth_port k) = 0xc000 + k mod 0x4000"
  unfolding nth_port_def unat_of_nat_u16 by simp

lemma nth_port_range: "port_in_range (nth_port k)"
  by (simp add: port_in_range_unat unat_nth_port)

lemma nth_port_Suc: "(if nth_port k = 0xffff then 0xc000 else nth_port k + 1) = nth_port (Suc k)"
proof (cases "k mod 16384 = 16383")
  case True
  then have "unat (nth_port k) = 65535" by (simp add: unat_nth_port)
  then have "nth_port k = 0xffff" by (simp add: word_unat_eq_iff)
  moreover have "Suc k mod 16384 = 0" using True by (simp add: mod_Suc)
  ultimately show ?thesis by (simp add: nth_port_def)
next
  case False
  then have s: "Suc k mod 16384 = Suc (k mod 16384)" by (simp add: mod_Suc)
  have "unat (nth_port k) \<noteq> 65535" using False by (simp add: unat_nth_port)
  then have "nth_port k \<noteq> 0xffff" by auto
  then show ?thesis by (simp add: nth_port_def s add.commute)
qed

lemma nth_port_surj:
  assumes "port_in_range q"
  shows "\<exists>j. 1 \<le> j \<and> j \<le> 16384 \<and> nth_port (k + j) = q"
proof -
  define a b where "a = k mod 16384" and "b = port_no q"
  define j where "j = (if a < b then b - a else b + 16384 - a)"
  have ab: "a < 16384" "b < 16384" using unat_u16 [of q] by (simp_all add: a_def b_def port_no_def)
  have "(k + j) mod 16384 = (a + j) mod 16384" by (simp add: a_def mod_simps)
  also have "\<dots> = b" using ab by (simp add: j_def)
  finally have "(k + j) mod 16384 = port_no q mod 16384" using ab by (simp add: b_def)
  then have "nth_port (k + j) = nth_port (port_no q)" by (simp add: nth_port_def)
  moreover have "1 \<le> j" "j \<le> 16384" using ab by (auto simp: j_def)
  ultimately show ?thesis using nth_port_no [OF assms] by metis
qed

section \<open>The search\<close>

text \<open>A state with the port tried last, a test whether a port is used, and the loop of the search.\<close>

locale port_search =
  fixes port :: "'s \<Rightarrow> u16_t" and set_port :: "u16_t \<Rightarrow> 's \<Rightarrow> 's" and used :: "'s \<Rightarrow> u16_t \<Rightarrow> bool" and good :: "'s \<Rightarrow> bool"
    and loop :: "int \<Rightarrow> 's \<Rightarrow> (u16_t \<times> 's) option"
  assumes port_set: "port (set_port p s) = p" and set_set: "set_port p (set_port q s) = set_port p s"
    and used_set: "used (set_port p s) = used s" and good_set: "good s \<Longrightarrow> good (set_port p s)"
    and loop_step: "good s \<Longrightarrow> 0 \<le> n \<Longrightarrow> n < 16384 \<Longrightarrow> loop n s =
      (let p = (if port s = 0xffff then 0xc000 else port s + 1)
       in if used s p then if n = 16383 then Some (0, set_port p s) else loop (n + 1) (set_port p s) else Some (p, set_port p s))"
begin

lemma step:
  assumes "good s" "port s = nth_port k" "0 \<le> n" "n < 16384"
  shows "loop n s = (if used s (nth_port (Suc k))
    then if n = 16383 then Some (0, set_port (nth_port (Suc k)) s) else loop (n + 1) (set_port (nth_port (Suc k)) s)
    else Some (nth_port (Suc k), set_port (nth_port (Suc k)) s))"
  using loop_step [OF assms(1,3,4)] unfolding assms(2) nth_port_Suc Let_def .

lemma all_shift: "P (Suc k) \<Longrightarrow> (\<forall>j. 1 \<le> j \<and> j \<le> Suc d \<longrightarrow> P (k + j)) \<longleftrightarrow> (\<forall>j. 1 \<le> j \<and> j \<le> d \<longrightarrow> P (Suc k + j))"
proof (intro iffI allI impI)
  fix j assume "\<forall>j. 1 \<le> j \<and> j \<le> Suc d \<longrightarrow> P (k + j)" "1 \<le> j \<and> j \<le> d"
  then show "P (Suc k + j)" using spec [of "\<lambda>j. 1 \<le> j \<and> j \<le> Suc d \<longrightarrow> P (k + j)" "Suc j"] by simp
next
  fix j assume "P (Suc k)" "\<forall>j. 1 \<le> j \<and> j \<le> d \<longrightarrow> P (Suc k + j)" "1 \<le> j \<and> j \<le> Suc d"
  then show "P (k + j)" using spec [of "\<lambda>j. 1 \<le> j \<and> j \<le> d \<longrightarrow> P (Suc k + j)" "j - 1"] by (cases "j = 1") auto
qed

lemma loop_spec:
  assumes "good s" "port s = nth_port k" "n = 16384 - int d" "0 < d" "d \<le> 16384"
  shows "\<exists>m r. 1 \<le> m \<and> m \<le> d \<and> loop n s = Some (r, set_port (nth_port (k + m)) s) \<and>
    (if \<forall>j. 1 \<le> j \<and> j \<le> d \<longrightarrow> used s (nth_port (k + j)) then r = 0 else r = nth_port (k + m) \<and> \<not> used s r)"
  using assms
proof (induction d arbitrary: n k s)
  case (Suc d)
  let ?s = "set_port (nth_port (Suc k)) s"
  note st = step [OF Suc.prems(1,2), of n]
  show ?case
  proof (cases "used s (nth_port (Suc k))")
    case False
    then have nn: "\<not> (\<forall>j. 1 \<le> j \<and> j \<le> Suc d \<longrightarrow> used s (nth_port (k + j)))" by (auto intro!: exI [of _ 1])
    show ?thesis unfolding if_not_P [OF nn] using st Suc.prems False
      by (intro exI [of _ "1 :: nat"] exI [of _ "nth_port (Suc k)"]) simp
  next
    case used: True
    note all = all_shift [of "\<lambda>j. used s (nth_port j)", OF used]
    show ?thesis
    proof (cases "d = 0")
      case True
      then show ?thesis using all st used Suc.prems by (intro exI [of _ "1 :: nat"] exI [of _ "0 :: u16_t"]) simp
    next
      case False
      have n: "n + 1 = 16384 - int d" "0 < d" "d \<le> 16384" "n \<noteq> 16383" "0 \<le> n" "n < 16384" using Suc.prems False by simp_all
      obtain m r where m: "1 \<le> m" "m \<le> d" "loop (n + 1) ?s = Some (r, set_port (nth_port (Suc k + m)) ?s)"
        "if \<forall>j. 1 \<le> j \<and> j \<le> d \<longrightarrow> used ?s (nth_port (Suc k + j)) then r = 0 else r = nth_port (Suc k + m) \<and> \<not> used ?s r"
        using Suc.IH [OF good_set [OF Suc.prems(1)] port_set n(1-3)] by blast
      have l: "loop n s = Some (r, set_port (nth_port (k + Suc m)) s)" using st n used m(3) by (simp add: set_set)
      have c: "if \<forall>j. 1 \<le> j \<and> j \<le> d \<longrightarrow> used s (nth_port (Suc k + j)) then r = 0 else r = nth_port (k + Suc m) \<and> \<not> used s r"
        using m(4) unfolding used_set add_Suc add_Suc_right .
      have "1 \<le> Suc m" "Suc m \<le> Suc d" using m(2) by simp_all
      then show ?thesis unfolding all by (intro exI [of _ "Suc m"] exI [of _ r] conjI l c)
    qed
  qed
qed simp

text \<open>The search returns; it finds a port of the range that is not used whenever there is one.\<close>

lemma search:
  assumes "good s" "port_in_range (port s)"
  shows "\<exists>p r. loop 0 s = Some (r, set_port p s) \<and> port_in_range p \<and>
    (if \<forall>q. port_in_range q \<longrightarrow> used s q then r = 0 else r = p \<and> \<not> used s r)"
proof -
  let ?k = "port_no (port s)"
  obtain m r where m: "loop 0 s = Some (r, set_port (nth_port (?k + m)) s)"
    "if \<forall>j. 1 \<le> j \<and> j \<le> 16384 \<longrightarrow> used s (nth_port (?k + j)) then r = 0 else r = nth_port (?k + m) \<and> \<not> used s r"
    using loop_spec [OF assms(1), of ?k 0 16384] nth_port_no [OF assms(2)] by auto
  have "(\<forall>j. 1 \<le> j \<and> j \<le> 16384 \<longrightarrow> used s (nth_port (?k + j))) \<longleftrightarrow> (\<forall>q. port_in_range q \<longrightarrow> used s q)"
    using nth_port_surj [of _ ?k] nth_port_range by metis
  then show ?thesis using m nth_port_range [of "?k + m"] by (intro exI [of _ "nth_port (?k + m)"] exI [of _ r]) simp
qed

end

end
