(* ===== verification/PbufChain.thy ===== *)
theory PbufChain
  imports Pbuf
begin

text \<open>
  What the operations of \<open>core/pbuf.c\<close> do to chains: the contents of a chain, the length
  invariant of \<open>struct pbuf\<close>, and the functional behaviour of allocation, release,
  concatenation, shortening, copying and reading.
\<close>

section \<open>Chains\<close>

definition chain :: "pstate \<Rightarrow> ptr option \<Rightarrow> ptr list \<Rightarrow> bool" where
  "chain s p xs \<longleftrightarrow> linked (\<lambda>x. pb_next (p_pbufs s x)) p xs"

lemma chain_simps [simp]:
  "chain s p [] \<longleftrightarrow> p = None"
  "chain s p (x # xs) \<longleftrightarrow> p = Some x \<and> chain s (pb_next (p_pbufs s x)) xs"
  by (simp_all add: chain_def)

lemma chain_distinct: "chain s p xs \<Longrightarrow> distinct xs"
  unfolding chain_def by (rule linked_distinct)

lemma chain_unique: "chain s p xs \<Longrightarrow> chain s p ys \<Longrightarrow> xs = ys"
  unfolding chain_def by (rule linked_unique)

fun tot :: "pstate \<Rightarrow> ptr list \<Rightarrow> int" where
  "tot s [] = 0"
| "tot s (x # xs) = pb_len (p_pbufs s x) + tot s xs"

text \<open>The invariant of \<open>struct pbuf\<close>: \<open>tot_len\<close> is \<open>len\<close> plus the \<open>tot_len\<close> of the rest.\<close>

fun lens_ok :: "pstate \<Rightarrow> ptr list \<Rightarrow> bool" where
  "lens_ok s [] \<longleftrightarrow> True"
| "lens_ok s (x # xs) \<longleftrightarrow> 0 \<le> pb_len (p_pbufs s x) \<and> pb_tot_len (p_pbufs s x) = tot s (x # xs) \<and>
     tot s (x # xs) \<le> 65535 \<and> lens_ok s xs"

definition packet :: "pstate \<Rightarrow> ptr option \<Rightarrow> ptr list \<Rightarrow> bool" where
  "packet s p xs \<longleftrightarrow> chain s p xs \<and> lens_ok s xs"

definition pb_data :: "pstate \<Rightarrow> ptr \<Rightarrow> u8_t list" where
  "pb_data s x = read_bytes (pb_payload (p_pbufs s x)) (pb_len (p_pbufs s x)) s"

definition data :: "pstate \<Rightarrow> ptr list \<Rightarrow> u8_t list" where
  "data s xs = concat (map (pb_data s) xs)"

lemma data_simps [simp]: "data s [] = []" "data s (x # xs) = pb_data s x @ data s xs"
  by (simp_all add: data_def)

lemma data_append [simp]: "data s (xs @ ys) = data s xs @ data s ys"
  by (simp add: data_def)

lemma tot_append [simp]: "tot s (xs @ ys) = tot s xs + tot s ys"
  by (induction xs) auto

lemma tot_nonneg: "lens_ok s xs \<Longrightarrow> 0 \<le> tot s xs"
  by (induction xs) auto

lemma tot_bound: "lens_ok s xs \<Longrightarrow> tot s xs \<le> 65535"
  by (cases xs) auto

lemma length_read [simp]: "length (read_bytes p n s) = nat n"
  by (simp add: read_bytes_def)

lemma length_pb_data [simp]: "length (pb_data s x) = nat (pb_len (p_pbufs s x))"
  by (simp add: pb_data_def)

lemma length_data: "lens_ok s xs \<Longrightarrow> int (length (data s xs)) = tot s xs"
  by (induction xs) auto

lemma upd_pbuf_simps [simp]:
  "p_pbufs (upd_pbuf p f s) = (p_pbufs s)(p := f (p_pbufs s p))"
  "p_heap (upd_pbuf p f s) = p_heap s" "p_pools (upd_pbuf p f s) = p_pools s"
  "p_bytes (upd_pbuf p f s) = p_bytes s" "p_original (upd_pbuf p f s) = p_original s"
  by (simp_all add: upd_pbuf_def)

lemma mem_ops_simps [simp]:
  "p_pbufs (mem_copy d a n s) = p_pbufs s" "p_heap (mem_copy d a n s) = p_heap s"
  "p_pools (mem_copy d a n s) = p_pools s"
  "p_pbufs (mem_write d bs s) = p_pbufs s" "p_heap (mem_write d bs s) = p_heap s"
  "p_pools (mem_write d bs s) = p_pools s"
  "p_original (mem_copy d a n s) = p_original s" "p_original (mem_write d bs s) = p_original s"
  by (simp_all add: mem_copy_def mem_write_def)

text \<open>Two states that agree on the structures of a chain and on the payload bytes.\<close>

lemma chain_cong: "\<forall>x\<in>set xs. pb_next (p_pbufs s x) = pb_next (p_pbufs s' x) \<Longrightarrow> chain s p xs = chain s' p xs"
  by (induction xs arbitrary: p) auto

lemma tot_cong: "\<forall>x\<in>set xs. pb_len (p_pbufs s x) = pb_len (p_pbufs s' x) \<Longrightarrow> tot s xs = tot s' xs"
  by (induction xs) auto

lemma lens_ok_cong:
  "\<forall>x\<in>set xs. pb_len (p_pbufs s x) = pb_len (p_pbufs s' x) \<and> pb_tot_len (p_pbufs s x) = pb_tot_len (p_pbufs s' x) \<Longrightarrow>
     lens_ok s xs = lens_ok s' xs"
proof (induction xs)
  case (Cons x xs)
  then have "tot s xs = tot s' xs" by (intro tot_cong) simp
  with Cons show ?case by auto
qed simp

lemma packet_cong: "\<forall>x\<in>set xs. p_pbufs s x = p_pbufs s' x \<Longrightarrow> packet s p xs = packet s' p xs"
  unfolding packet_def using chain_cong lens_ok_cong by metis

lemma same_pbufs:
  assumes "\<forall>x\<in>set xs. p_pbufs s x = p_pbufs s' x"
  shows "chain s p xs = chain s' p xs" "lens_ok s xs = lens_ok s' xs" "tot s xs = tot s' xs"
  using assms by (blast intro: chain_cong lens_ok_cong tot_cong | simp add: chain_cong [of xs s s'] lens_ok_cong [of xs s s'] tot_cong [of xs s s'])+

lemma data_cong:
  "\<forall>x\<in>set xs. pb_len (p_pbufs s x) = pb_len (p_pbufs s' x) \<and> pb_payload (p_pbufs s x) = pb_payload (p_pbufs s' x) \<Longrightarrow>
     p_bytes s = p_bytes s' \<Longrightarrow> data s xs = data s' xs"
  by (induction xs) (auto simp: pb_data_def read_bytes_def)

lemma lens_ok_tot: "lens_ok s (x # xs) \<Longrightarrow> pb_tot_len (p_pbufs s x) = tot s (x # xs)"
  by simp

section \<open>Reading\<close>

lemma bytes_nth: "0 \<le> i \<Longrightarrow> i < n \<Longrightarrow> bytes m a n ! nat i = m (a + i)"
  by (simp add: bytes_def)

lemma pb_data_nth:
  "0 \<le> i \<Longrightarrow> i < pb_len (p_pbufs s x) \<Longrightarrow>
     pb_data s x ! nat i = p_bytes s (fst (pb_payload (p_pbufs s x))) (snd (pb_payload (p_pbufs s x)) + i)"
  by (simp add: pb_data_def read_bytes_def bytes_nth)

text \<open>Where \<open>pbuf_seek\<close> stops: the rest of the chain starting with the pbuf it returns.\<close>

lemma pbuf_seek_chain:
  "chain s p xs \<Longrightarrow> lens_ok s xs \<Longrightarrow> 0 \<le> n \<Longrightarrow> n \<le> 65535 \<Longrightarrow>
     (if n < tot s xs
      then \<exists>us q vs. xs = us @ q # vs \<and> pbuf_seek p n s = Some (Some q, n - tot s us) \<and>
        0 \<le> n - tot s us \<and> n - tot s us < pb_len (p_pbufs s q) \<and> chain s (Some q) (q # vs)
      else pbuf_seek p n s = Some (None, n - tot s xs))"
proof (induction xs arbitrary: p n)
  case Nil
  then show ?case by (simp add: pbuf_seek.simps [of None])
next
  case (Cons x xs)
  show ?case
  proof (cases "pb_len (p_pbufs s x) \<le> n")
    case True
    let ?n = "n - pb_len (p_pbufs s x)"
    have c: "c_u16 ?n = ?n" using Cons.prems True by (simp add: c_conv)
    have seek: "pbuf_seek p n s = pbuf_seek (pb_next (p_pbufs s x)) ?n s"
      using Cons.prems True c by (simp add: pbuf_seek.simps [of "Some x"])
    have IH: "if ?n < tot s xs
      then \<exists>us q vs. xs = us @ q # vs \<and> pbuf_seek (pb_next (p_pbufs s x)) ?n s = Some (Some q, ?n - tot s us) \<and>
        0 \<le> ?n - tot s us \<and> ?n - tot s us < pb_len (p_pbufs s q) \<and> chain s (Some q) (q # vs)
      else pbuf_seek (pb_next (p_pbufs s x)) ?n s = Some (None, ?n - tot s xs)"
      using Cons.IH [of "pb_next (p_pbufs s x)" ?n] Cons.prems True by simp
    show ?thesis
    proof (cases "?n < tot s xs")
      case True
      with IH obtain us q vs where "xs = us @ q # vs" "pbuf_seek (pb_next (p_pbufs s x)) ?n s = Some (Some q, ?n - tot s us)"
        "0 \<le> ?n - tot s us" "?n - tot s us < pb_len (p_pbufs s q)" "chain s (Some q) (q # vs)"
        by auto
      moreover have "n < tot s (x # xs)" using True by simp
      ultimately show ?thesis using seek
        by (simp only: if_True) (rule exI [of _ "x # us"], rule exI [of _ q], rule exI [of _ vs], simp add: algebra_simps)
    next
      case False
      with IH seek show ?thesis by (simp add: algebra_simps)
    qed
  next
    case False
    then have "pbuf_seek p n s = Some (Some x, n)" using Cons.prems by (simp add: pbuf_seek.simps [of "Some x"])
    moreover have "n < tot s (x # xs)" using False Cons.prems tot_nonneg [of s xs] by simp
    ultimately show ?thesis using False Cons.prems
      by (simp only: if_True) (rule exI [of _ "[]"], rule exI [of _ x], rule exI [of _ xs], simp)
  qed
qed

lemma pbuf_get_at_data:
  assumes "packet s p xs" "0 \<le> n" "n \<le> 65535"
  shows "pbuf_get_at p n s = Some (if n < tot s xs then data s xs ! nat n else 0)"
proof -
  have ch: "chain s p xs" "lens_ok s xs" using assms(1) by (simp_all add: packet_def)
  note seek = pbuf_seek_chain [OF ch assms(2,3)]
  show ?thesis
  proof (cases "n < tot s xs")
    case True
    with seek obtain us q vs where q: "xs = us @ q # vs" "pbuf_seek p n s = Some (Some q, n - tot s us)"
      "0 \<le> n - tot s us" "n - tot s us < pb_len (p_pbufs s q)" by auto
    have us: "lens_ok s us \<Longrightarrow> int (length (data s us)) = tot s us" by (rule length_data)
    have "int (length (data s us)) = tot s us"
      using ch(2) unfolding q(1) by (induction us) auto
    then have "nat n = length (data s us) + nat (n - tot s us)" using q(3) by simp
    then have "data s xs ! nat n = (pb_data s q @ data s vs) ! nat (n - tot s us)"
      by (simp add: q(1) nth_append)
    also have "\<dots> = pb_data s q ! nat (n - tot s us)" using q(3,4) by (simp add: nth_append)
    finally show ?thesis using True q(2,3,4) pb_data_nth [OF q(3,4)] by (simp add: pbuf_get_at_def)
  next
    case False
    with seek show ?thesis by (simp add: pbuf_get_at_def)
  qed
qed

text \<open>The byte at an offset, zero behind the end.\<close>

definition byte_at :: "pstate \<Rightarrow> ptr list \<Rightarrow> int \<Rightarrow> u8_t" where
  "byte_at s xs n = (if n < tot s xs then data s xs ! nat n else 0)"

lemma byte_at_append:
  assumes "lens_ok s (us @ vs)" "tot s us \<le> n"
  shows "byte_at s (us @ vs) n = byte_at s vs (n - tot s us)"
proof -
  have "int (length (data s us)) = tot s us" using assms(1) by (induction us) auto
  moreover from this have "nat (tot s us) = length (data s us)" by linarith
  ultimately show ?thesis using assms(2)
    by (auto simp: byte_at_def nth_append nat_diff_distrib)
qed

lemma lens_ok_appendD: "lens_ok s (us @ vs) \<Longrightarrow> lens_ok s vs \<and> 0 \<le> tot s us"
  by (induction us) auto

definition mismatch :: "pstate \<Rightarrow> ptr list \<Rightarrow> int \<Rightarrow> u8_t list \<Rightarrow> int \<Rightarrow> int \<Rightarrow> int \<Rightarrow> bool" where
  "mismatch s xs off s2 i n r \<longleftrightarrow>
     (r = 0 \<and> (\<forall>j. i \<le> j \<and> j < n \<longrightarrow> byte_at s xs (off + j) = s2 ! nat j)) \<or>
     (i < r \<and> r \<le> n \<and> byte_at s xs (off + (r - 1)) \<noteq> s2 ! nat (r - 1) \<and>
       (\<forall>j. i \<le> j \<and> j < r - 1 \<longrightarrow> byte_at s xs (off + j) = s2 ! nat j))"

lemma pbuf_memcmp_loop_spec:
  assumes "packet s (Some q) ys" "0 \<le> start" "start + n \<le> 65535" "n \<le> 65535"
  shows "0 \<le> i \<Longrightarrow> \<exists>r. pbuf_memcmp_loop q start s2 n i s = Some r \<and> mismatch s ys start s2 i n r"
proof (induction "nat (n - i)" arbitrary: i rule: less_induct)
  case less
  show ?case
  proof (cases "i < n")
    case True
    have c: "c_u16 (start + i) = start + i" using True less.prems assms by (simp add: c_conv)
    have at: "pbuf_get_at (Some q) (start + i) s = Some (byte_at s ys (start + i))"
      using pbuf_get_at_data [OF assms(1), of "start + i"] True less.prems assms by (simp add: byte_at_def)
    show ?thesis
    proof (cases "byte_at s ys (start + i) = s2 ! nat i")
      case False
      have "c_u16 (i + 1) = i + 1" using True less.prems assms by (simp add: c_conv)
      with False True less.prems c at show ?thesis
        by (auto simp: pbuf_memcmp_loop.simps [of q start s2 n i s] mismatch_def)
    next
      case True': True
      from less.hyps [of "i + 1"] True less.prems obtain r where
        r: "pbuf_memcmp_loop q start s2 n (i + 1) s = Some r" "mismatch s ys start s2 (i + 1) n r" by auto
      have "mismatch s ys start s2 i n r"
        using r(2) True' True unfolding mismatch_def by (smt (verit))
      with r(1) True' True c at show ?thesis by (simp add: pbuf_memcmp_loop.simps [of q start s2 n i s])
    qed
  next
    case False
    then show ?thesis by (auto simp: pbuf_memcmp_loop.simps [of q start s2 n i s] mismatch_def)
  qed
qed

lemma pbuf_memcmp_spec:
  assumes "packet s p xs" "0 \<le> off" "off < tot s xs" "off + n \<le> 65535" "0 \<le> n"
  shows "\<exists>r. pbuf_memcmp p off s2 n s = Some r \<and> mismatch s xs off s2 0 n r"
proof -
  have ch: "chain s p xs" "lens_ok s xs" using assms(1) by (simp_all add: packet_def)
  have "off \<le> 65535" using assms(4,5) by simp
  from pbuf_seek_chain [OF ch assms(2) this] assms(3) obtain us q vs where
    q: "xs = us @ q # vs" "pbuf_seek p off s = Some (Some q, off - tot s us)"
    "0 \<le> off - tot s us" "off - tot s us < pb_len (p_pbufs s q)" "chain s (Some q) (q # vs)" by auto
  have l: "lens_ok s (q # vs)" "0 \<le> tot s us" using lens_ok_appendD [of s us "q # vs"] ch(2) q(1) by auto
  then have "packet s (Some q) (q # vs)" using q(5) by (simp add: packet_def)
  then obtain r where r: "pbuf_memcmp_loop q (off - tot s us) s2 n 0 s = Some r"
    "mismatch s (q # vs) (off - tot s us) s2 0 n r"
    using pbuf_memcmp_loop_spec [of s q "q # vs" "off - tot s us" n 0 s2] q(3) assms l(2) by auto
  have "byte_at s xs (off + j) = byte_at s (q # vs) (off - tot s us + j)" if "0 \<le> j" for j
    using byte_at_append [of s us "q # vs" "off + j"] ch(2) q(1,3) that by (simp add: algebra_simps)
  then have "mismatch s xs off s2 0 n r" using r(2) unfolding mismatch_def by auto
  with r(1) q(2,4) show ?thesis by (simp add: pbuf_memcmp_def)
qed

lemma pbuf_memfind_loop_spec:
  assumes "packet s (Some p) xs" "0 < n" "lst = tot s xs - n"
  shows "0 \<le> i \<Longrightarrow> i \<le> tot s xs \<Longrightarrow> \<exists>r. pbuf_memfind_loop p mem n lst i s = Some r \<and>
     (r = 65535 \<or> i \<le> r \<and> r + n \<le> tot s xs \<and> (\<forall>j. 0 \<le> j \<and> j < n \<longrightarrow> byte_at s xs (r + j) = mem ! nat j))"
proof (induction "nat (tot s xs - i)" arbitrary: i rule: less_induct)
  case less
  have b: "tot s xs \<le> 65535" using assms(1) tot_bound by (auto simp: packet_def)
  show ?case
  proof (cases "i \<le> lst")
    case True
    have "0 \<le> i" "i < tot s xs" "i + n \<le> 65535" "0 \<le> n" using True less.prems assms b by auto
    from pbuf_memcmp_spec [OF assms(1) this] obtain r where
      r: "pbuf_memcmp (Some p) i mem n s = Some r" "mismatch s xs i mem 0 n r" by blast
    show ?thesis
    proof (cases "r = 0")
      case True': True
      with r(2) have "\<forall>j. 0 \<le> j \<and> j < n \<longrightarrow> byte_at s xs (i + j) = mem ! nat j"
        by (auto simp: mismatch_def)
      moreover have "pbuf_memfind_loop p mem n lst i s = Some i"
        using r(1) True True' by (simp add: pbuf_memfind_loop.simps [of p mem n lst i s])
      ultimately show ?thesis using True assms(3) by auto
    next
      case False
      with r(2) have rn: "0 < r" "r \<le> n" by (auto simp: mismatch_def)
      then have c: "c_u16 (i + r) = i + r" using True less.prems assms b by (simp add: c_conv)
      have "\<exists>x. pbuf_memfind_loop p mem n lst (i + r) s = Some x \<and>
          (x = 65535 \<or> i + r \<le> x \<and> x + n \<le> tot s xs \<and> (\<forall>j. 0 \<le> j \<and> j < n \<longrightarrow> byte_at s xs (x + j) = mem ! nat j))"
        using less.hyps [of "i + r"] rn True less.prems assms by simp
      with r(1) False True c rn show ?thesis
        by (auto simp: pbuf_memfind_loop.simps [of p mem n lst i s])
    qed
  next
    case False
    then show ?thesis by (simp add: pbuf_memfind_loop.simps [of p mem n lst i s])
  qed
qed

section \<open>Header room\<close>

lemma pbuf_header_grow:
  assumes "0 < k" "pb_type (p_pbufs s p) = PBUF_RAM \<or> pb_type (p_pbufs s p) = PBUF_POOL"
  shows "pbuf_header (Some p) k s =
    (if snd (pb_payload (p_pbufs s p)) - k < snd p + SIZEOF_STRUCT_PBUF then (True, s)
     else (False, upd_pbuf p (\<lambda>x. x\<lparr>pb_payload := ptr_add (pb_payload (p_pbufs s p)) (- k),
        pb_len := c_u16 (pb_len x + k), pb_tot_len := c_u16 (pb_tot_len x + k)\<rparr>) s))"
  using assms by (auto simp: pbuf_header_def Let_def ptr_add_def)

lemma pbuf_header_shrink:
  assumes "0 < k" "k \<le> 32768"
  shows "pbuf_header (Some p) (- k) s =
    (if pb_len (p_pbufs s p) < k then (True, s)
     else if (pb_type (p_pbufs s p) = PBUF_RAM \<or> pb_type (p_pbufs s p) = PBUF_POOL) \<and>
        snd (pb_payload (p_pbufs s p)) + k < snd p + SIZEOF_STRUCT_PBUF then (True, s)
     else (False, upd_pbuf p (\<lambda>x. x\<lparr>pb_payload := ptr_add (pb_payload (p_pbufs s p)) k,
        pb_len := c_u16 (pb_len x - k), pb_tot_len := c_u16 (pb_tot_len x - k)\<rparr>) s))"
proof -
  have "c_u16 k = k" using assms by (simp add: c_conv)
  then show ?thesis using assms by (auto simp: pbuf_header_def Let_def ptr_add_def)
qed

section \<open>Concatenation\<close>

definition add_tot :: "ptr list \<Rightarrow> int \<Rightarrow> pstate \<Rightarrow> pstate" where
  "add_tot xs k s = s\<lparr>p_pbufs := (\<lambda>x. if x \<in> set xs
     then (p_pbufs s x)\<lparr>pb_tot_len := c_u16 (pb_tot_len (p_pbufs s x) + k)\<rparr> else p_pbufs s x)\<rparr>"

lemma upd_pbuf_add_tot:
  "upd_pbuf x (\<lambda>b. b\<lparr>pb_tot_len := c_u16 (pb_tot_len b + k)\<rparr>) s = add_tot [x] k s"
  by (rule pstate.equality) (simp_all add: upd_pbuf_def add_tot_def fun_eq_iff)

lemma add_tot_add_tot: "x \<notin> set xs \<Longrightarrow> add_tot xs k (add_tot [x] k s) = add_tot (x # xs) k s"
  by (rule pstate.equality) (auto simp: add_tot_def fun_eq_iff)

lemma add_tot_simps [simp]:
  "pb_next (p_pbufs (add_tot xs k s) x) = pb_next (p_pbufs s x)"
  "pb_len (p_pbufs (add_tot xs k s) x) = pb_len (p_pbufs s x)"
  "pb_payload (p_pbufs (add_tot xs k s) x) = pb_payload (p_pbufs s x)"
  "pb_ref (p_pbufs (add_tot xs k s) x) = pb_ref (p_pbufs s x)"
  "x \<notin> set xs \<Longrightarrow> p_pbufs (add_tot xs k s) x = p_pbufs s x"
  "x \<in> set xs \<Longrightarrow> pb_tot_len (p_pbufs (add_tot xs k s) x) = c_u16 (pb_tot_len (p_pbufs s x) + k)"
  "p_bytes (add_tot xs k s) = p_bytes s" "p_heap (add_tot xs k s) = p_heap s"
  "p_pools (add_tot xs k s) = p_pools s" "p_original (add_tot xs k s) = p_original s"
  by (simp_all add: add_tot_def)

lemma add_tot_outside: "set ys \<inter> set zs = {} \<Longrightarrow> x \<in> set ys \<Longrightarrow> p_pbufs (add_tot zs k s) x = p_pbufs s x"
proof -
  assume "set ys \<inter> set zs = {}" "x \<in> set ys"
  then have "x \<notin> set zs" by blast
  then show ?thesis by simp
qed

lemma pbuf_cat_loop_spec:
  "chain s (Some h) xs \<Longrightarrow> t \<notin> set xs \<Longrightarrow>
     pbuf_cat_loop h t s = Some (last xs, add_tot (butlast xs) (pb_tot_len (p_pbufs s t)) s)"
proof (induction xs arbitrary: h s)
  case (Cons x xs)
  have x: "x = h" "h \<noteq> t" using Cons.prems by auto
  show ?case
  proof (cases xs)
    case Nil
    with Cons.prems x show ?thesis by (simp add: pbuf_cat_loop.simps [of h] add_tot_def)
  next
    case (Cons n ns)
    let ?s = "add_tot [h] (pb_tot_len (p_pbufs s t)) s"
    have nx: "pb_next (p_pbufs s h) = Some n" using Cons.prems Cons x by simp
    have "h \<notin> set xs" using chain_distinct [OF Cons.prems(1)] x by simp
    moreover have "chain ?s (Some n) xs"
      using Cons.prems(1) nx x by (subst chain_cong [of xs ?s s]) auto
    moreover have "pb_tot_len (p_pbufs ?s t) = pb_tot_len (p_pbufs s t)" using x by simp
    ultimately have "pbuf_cat_loop n t ?s = Some (last xs, add_tot (butlast xs) (pb_tot_len (p_pbufs s t)) ?s)"
      using Cons.IH [of ?s n] Cons.prems(2) by simp
    moreover have "h \<notin> set (butlast xs)" using \<open>h \<notin> set xs\<close> by (meson in_set_butlastD)
    ultimately show ?thesis
      using nx x Cons by (simp add: pbuf_cat_loop.simps [of h] upd_pbuf_add_tot add_tot_add_tot)
  qed
qed simp

lemma pbuf_cat_spec:
  assumes "chain s (Some h) xs" "t \<notin> set xs"
  shows "pbuf_cat (Some h) (Some t) s =
    Some (upd_pbuf (last xs) (\<lambda>b. b\<lparr>pb_next := Some t\<rparr>) (add_tot xs (pb_tot_len (p_pbufs s t)) s))"
proof -
  let ?T = "pb_tot_len (p_pbufs s t)"
  have ne: "xs \<noteq> []" using assms(1) by auto
  then have t: "t \<noteq> last xs" "last xs \<in> set xs" using assms(2) by auto
  have nb: "last xs \<notin> set (butlast xs)"
    using chain_distinct [OF assms(1)] ne
    by (metis append_butlast_last_id distinct_append disjoint_insert(1) list.simps(15))
  have "t \<notin> set (butlast xs)" using assms(2) by (meson in_set_butlastD)
  then have T: "pb_tot_len (p_pbufs (add_tot (butlast xs) ?T s) t) = ?T" by simp
  have "upd_pbuf (last xs) (\<lambda>b. b\<lparr>pb_tot_len := c_u16 (pb_tot_len b + ?T)\<rparr>) (add_tot (butlast xs) ?T s) = add_tot xs ?T s"
  proof -
    have s: "set xs = insert (last xs) (set (butlast xs))"
      using ne by (metis append_butlast_last_id list.simps(15) rotate1.simps(2) set_rotate1)
    show ?thesis using nb
      by (intro pstate.equality) (auto simp: upd_pbuf_def add_tot_def fun_eq_iff s)
  qed
  then show ?thesis using pbuf_cat_loop_spec [OF assms] T by (simp add: pbuf_cat_def)
qed

lemma tot_set_next [simp]: "tot (upd_pbuf y (\<lambda>b. b\<lparr>pb_next := q\<rparr>) s) xs = tot s xs"
  by (rule tot_cong) simp

lemma tot_add_tot [simp]: "tot (add_tot ys k s) xs = tot s xs"
  by (rule tot_cong) simp

lemma chain_set_last:
  "chain s p (xs @ [l]) \<Longrightarrow> chain s (Some t) ys \<Longrightarrow> l \<notin> set xs \<Longrightarrow> l \<notin> set ys \<Longrightarrow>
     chain (upd_pbuf l (\<lambda>b. b\<lparr>pb_next := Some t\<rparr>) s) p (xs @ l # ys)"
proof (induction xs arbitrary: p)
  case Nil
  have "chain (upd_pbuf l (\<lambda>b. b\<lparr>pb_next := Some t\<rparr>) s) (Some t) ys = chain s (Some t) ys"
    by (rule chain_cong) (use Nil.prems in auto)
  with Nil show ?case by simp
qed auto

lemma lens_ok_add_tot:
  "lens_ok s xs \<Longrightarrow> lens_ok s ys \<Longrightarrow> distinct xs \<Longrightarrow> set xs \<inter> set ys = {} \<Longrightarrow> tot s xs + tot s ys \<le> 65535 \<Longrightarrow>
     set xs \<subseteq> set zs \<Longrightarrow> set ys \<inter> set zs = {} \<Longrightarrow> lens_ok (add_tot zs (tot s ys) s) (xs @ ys)"
proof (induction xs)
  case Nil
  have "lens_ok (add_tot zs (tot s ys) s) ys = lens_ok s ys"
    by (rule lens_ok_cong) (use add_tot_outside Nil.prems in metis)
  with Nil show ?case by simp
next
  case (Cons x xs)
  have "c_u16 (pb_len (p_pbufs s x) + tot s xs + tot s ys) = pb_len (p_pbufs s x) + tot s xs + tot s ys"
    using Cons.prems tot_nonneg [of s xs] tot_nonneg [of s ys] by (intro c_u16_id) auto
  moreover have "x \<in> set zs" using Cons.prems by auto
  moreover have "lens_ok (add_tot zs (tot s ys) s) (xs @ ys)" using Cons by simp
  ultimately show ?case using Cons.prems by simp
qed

lemma pbuf_cat_packet:
  assumes h: "packet s (Some h) xs" and t: "packet s (Some t) ys" and d: "set xs \<inter> set ys = {}"
    and b: "tot s xs + tot s ys \<le> 65535"
  shows "\<exists>s'. pbuf_cat (Some h) (Some t) s = Some s' \<and> packet s' (Some h) (xs @ ys) \<and> packet s' (Some t) ys \<and>
    data s' (xs @ ys) = data s xs @ data s ys \<and>
    p_heap s' = p_heap s \<and> p_pools s' = p_pools s \<and> p_bytes s' = p_bytes s \<and>
    (\<forall>x. pb_ref (p_pbufs s' x) = pb_ref (p_pbufs s x)) \<and>
    (\<forall>x. x \<notin> set xs \<longrightarrow> p_pbufs s' x = p_pbufs s x)"
proof -
  have ch: "chain s (Some h) xs" "lens_ok s xs" "chain s (Some t) ys" "lens_ok s ys"
    using h t by (simp_all add: packet_def)
  then have tys: "t \<in> set ys" "xs \<noteq> []" by (cases ys; auto)+
  then have tx: "t \<notin> set xs" using d by auto
  define l where "l = last xs"
  have xs: "xs = butlast xs @ [l]" "l \<in> set xs" using tys by (auto simp: l_def)
  have dx: "distinct xs" by (rule chain_distinct [OF ch(1)])
  then have lb: "l \<notin> set (butlast xs)" using xs(1) by (metis distinct_append disjoint_insert(1) list.simps(15))
  have T: "pb_tot_len (p_pbufs s t) = tot s ys" using ch(3,4) by (cases ys) auto
  let ?s1 = "add_tot xs (tot s ys) s"
  let ?s' = "upd_pbuf l (\<lambda>b. b\<lparr>pb_next := Some t\<rparr>) ?s1"
  have cat: "pbuf_cat (Some h) (Some t) s = Some ?s'"
    using pbuf_cat_spec [OF ch(1) tx] T by (simp add: l_def)
  have "chain ?s1 (Some h) (butlast xs @ [l])"
    using ch(1) chain_cong [of xs ?s1 s] xs(1) by simp
  moreover have "chain ?s1 (Some t) ys" using ch(3) chain_cong [of ys ?s1 s] by simp
  moreover have ly: "l \<notin> set ys" using xs(2) d by auto
  ultimately have "chain ?s' (Some h) (butlast xs @ l # ys)" using lb by (intro chain_set_last)
  then have c: "chain ?s' (Some h) (xs @ ys)" using xs(1) by (metis append.assoc append_Cons append_Nil)
  have "lens_ok ?s1 (xs @ ys)" by (rule lens_ok_add_tot) (use ch dx d b in auto)
  then have "lens_ok ?s' (xs @ ys)" using lens_ok_cong [of "xs @ ys" ?s' ?s1] by simp
  with c have p1: "packet ?s' (Some h) (xs @ ys)" by (simp add: packet_def)
  have fr: "p_pbufs ?s' x = p_pbufs s x" if "x \<notin> set xs" for x using that xs(2) by auto
  then have p2: "packet ?s' (Some t) ys" using t d packet_cong [of ys ?s' s] by (metis disjoint_iff)
  have "data ?s' (xs @ ys) = data s (xs @ ys)" by (rule data_cong) simp_all
  with cat p1 p2 fr show ?thesis by (intro exI [of _ ?s']) simp
qed

section \<open>Release\<close>

text \<open>The pbufs that belong to the stack: their type says where they are stored.\<close>

definition stored :: "pstate \<Rightarrow> ptr \<Rightarrow> bool" where
  "stored s x \<longleftrightarrow> pb_flags (p_pbufs s x) AND PBUF_FLAG_IS_CUSTOM = 0 \<and>
     (case pb_type (p_pbufs s x) of
        PBUF_POOL \<Rightarrow> (\<exists>i. x = (RPool i, 0))
      | PBUF_RAM \<Rightarrow> fst x = RHeap
      | _ \<Rightarrow> (\<exists>i. x = (RPbuf i, 0)))"

text \<open>Giving the memory of a pbuf back.\<close>

definition give_back :: "ptr \<Rightarrow> pstate \<Rightarrow> pstate" where
  "give_back x s =
     (case x of
        (RPool i, _) \<Rightarrow> s\<lparr>p_pools := memp_free MEMP_PBUF_POOL (Some i) (p_pools s)\<rparr>
      | (RPbuf i, _) \<Rightarrow> s\<lparr>p_pools := memp_free MEMP_PBUF (Some i) (p_pools s)\<rparr>
      | (RHeap, a) \<Rightarrow> s\<lparr>p_heap := mem_free (Some a) (p_heap s)\<rparr>
      | _ \<Rightarrow> s)"

definition set_ref :: "ptr \<Rightarrow> int \<Rightarrow> pstate \<Rightarrow> pstate" where
  "set_ref x r s = upd_pbuf x (\<lambda>b. b\<lparr>pb_ref := r\<rparr>) s"

text \<open>The pbufs at the head of a chain that only the caller or their predecessor refers to.\<close>

definition sole :: "pstate \<Rightarrow> ptr list \<Rightarrow> ptr list" where
  "sole s xs = takeWhile (\<lambda>x. pb_ref (p_pbufs s x) = 1) xs"

definition drop_ref :: "ptr list \<Rightarrow> pstate \<Rightarrow> pstate" where
  "drop_ref xs s = (case xs of [] \<Rightarrow> s | x # _ \<Rightarrow> set_ref x (pb_ref (p_pbufs s x) - 1) s)"

lemma set_ref_simps [simp]:
  "p_heap (set_ref x r s) = p_heap s" "p_pools (set_ref x r s) = p_pools s" "p_bytes (set_ref x r s) = p_bytes s"
  "p_original (set_ref x r s) = p_original s"
  "p_pbufs (set_ref x r s) = (p_pbufs s)(x := (p_pbufs s x)\<lparr>pb_ref := r\<rparr>)"
  by (simp_all add: set_ref_def)

lemma give_back_simps [simp]: "p_pbufs (give_back x s) = p_pbufs s" "p_bytes (give_back x s) = p_bytes s"
  by (auto simp: give_back_def split: prod.split region.split)

definition refs_ok :: "pstate \<Rightarrow> ptr list \<Rightarrow> bool" where
  "refs_ok s xs \<longleftrightarrow> (\<forall>x\<in>set xs. stored s x \<and> 1 \<le> pb_ref (p_pbufs s x) \<and> pb_ref (p_pbufs s x) \<le> 65535)"

lemma stored_cong:
  "pb_flags (p_pbufs s x) = pb_flags (p_pbufs s' x) \<Longrightarrow> pb_type (p_pbufs s x) = pb_type (p_pbufs s' x) \<Longrightarrow>
     stored s x = stored s' x"
  by (simp add: stored_def)

lemma pbuf_free_loop_step:
  assumes "stored s x" "1 \<le> pb_ref (p_pbufs s x)" "pb_ref (p_pbufs s x) \<le> 65535"
  shows "pbuf_free_loop cf (Some x) c s =
    (if pb_ref (p_pbufs s x) = 1
     then pbuf_free_loop cf (pb_next (p_pbufs s x)) (c_u8 (c + 1)) (give_back x (set_ref x 0 s))
     else Some (c, set_ref x (pb_ref (p_pbufs s x) - 1) s))"
proof -
  have ref: "c_u16 (pb_ref (p_pbufs s x) - 1) = pb_ref (p_pbufs s x) - 1" using assms by (simp add: c_conv)
  have u: "upd_pbuf x (\<lambda>y. y\<lparr>pb_ref := pb_ref (p_pbufs s x) - 1\<rparr>) s = set_ref x (pb_ref (p_pbufs s x) - 1) s"
    by (simp add: set_ref_def)
  have fl: "pb_flags (p_pbufs s x) AND PBUF_FLAG_IS_CUSTOM = 0" using assms(1) by (simp add: stored_def)
  show ?thesis
  proof (cases "pb_ref (p_pbufs s x) = 1")
    case False
    then show ?thesis using ref u by (simp add: pbuf_free_loop.simps [of cf "Some x"] Let_def)
  next
    case True
    show ?thesis
      using assms(1) True ref u fl
      by (cases "pb_type (p_pbufs s x)")
        (auto simp: pbuf_free_loop.simps [of cf "Some x"] Let_def stored_def give_back_def set_ref_def heap_offset_def split: prod.split region.splits)
  qed
qed

lemma pbuf_free_loop_spec:
  "chain s p xs \<Longrightarrow> refs_ok s xs \<Longrightarrow>
     pbuf_free_loop cf p (int c mod 256) s =
       Some (int (c + length (sole s xs)) mod 256,
         drop_ref (drop (length (sole s xs)) xs) (fold (\<lambda>x s. give_back x (set_ref x 0 s)) (sole s xs) s))"
proof (induction xs arbitrary: p s c)
  case Nil
  then show ?case by (simp add: pbuf_free_loop.simps [of cf None] sole_def drop_ref_def)
next
  case (Cons x xs)
  have x: "p = Some x" "chain s (pb_next (p_pbufs s x)) xs" "stored s x" "1 \<le> pb_ref (p_pbufs s x)"
    "pb_ref (p_pbufs s x) \<le> 65535" using Cons.prems by (auto simp: refs_ok_def)
  note step = pbuf_free_loop_step [OF x(3-5)]
  show ?case
  proof (cases "pb_ref (p_pbufs s x) = 1")
    case True
    let ?s = "give_back x (set_ref x 0 s)"
    have nx: "x \<notin> set xs" using chain_distinct [OF Cons.prems(1)] by simp
    have "chain ?s (pb_next (p_pbufs s x)) xs = chain s (pb_next (p_pbufs s x)) xs"
      by (rule chain_cong) (use nx in auto)
    moreover have "refs_ok ?s xs"
      unfolding refs_ok_def
    proof
      fix y
      assume "y \<in> set xs"
      then have "y \<noteq> x" "y \<in> set (x # xs)" using nx by auto
      then show "stored ?s y \<and> 1 \<le> pb_ref (p_pbufs ?s y) \<and> pb_ref (p_pbufs ?s y) \<le> 65535"
        using Cons.prems(2) stored_cong [of ?s y s] by (auto simp: refs_ok_def)
    qed
    moreover have "sole ?s xs = sole s xs"
      unfolding sole_def by (rule takeWhile_cong) (use nx in auto)
    moreover have "c_u8 (int c mod 256 + 1) = int (Suc c) mod 256" by (simp add: c_u8_def mod_simps add.commute)
    moreover have "sole s (x # xs) = x # sole s xs" using True by (simp add: sole_def)
    ultimately show ?thesis using Cons.IH [of ?s "pb_next (p_pbufs s x)" "Suc c"] x(1,2) step True by simp
  next
    case False
    then show ?thesis using step x(1) by (simp add: sole_def drop_ref_def)
  qed
qed

lemma pbuf_free_spec:
  assumes "chain s (Some x) xs" "refs_ok s xs"
  shows "pbuf_free cf (Some x) s =
    Some (int (length (sole s xs)) mod 256,
      drop_ref (drop (length (sole s xs)) xs) (fold (\<lambda>x s. give_back x (set_ref x 0 s)) (sole s xs) s))"
  using pbuf_free_loop_spec [OF assms, of cf 0] by (simp add: pbuf_free_def)

section \<open>Allocation from the pool\<close>

definition elt :: "nat \<Rightarrow> ptr" where "elt i = (RPool i, 0)"

lemma elt_inj [simp]: "elt i = elt j \<longleftrightarrow> i = j"
  by (simp add: elt_def)

lemma elt_mem [simp]: "elt i \<in> elt ` A \<longleftrightarrow> i \<in> A"
  by auto

definition pieces :: "int \<Rightarrow> nat" where
  "pieces n = nat ((n + 511) div 512)"

lemma pieces_0 [simp]: "pieces 0 = 0"
  by (simp add: pieces_def)

lemma pieces_step: "0 < n \<Longrightarrow> pieces n = Suc (pieces (n - min n 512))"
proof -
  assume n: "0 < n"
  show ?thesis
  proof (cases "n \<le> 512")
    case True
    with n have "(n + 511) div 512 = 1" by simp
    with True show ?thesis by (simp add: pieces_def)
  next
    case False
    then have "(n + 511) div 512 = (n - 512 + 511) div 512 + 1"
      using div_add_self2 [of 512 "n - 512 + 511"] by simp
    moreover have "0 \<le> (n - 512 + 511) div 512" using False by simp
    ultimately show ?thesis using False by (simp add: pieces_def min_def nat_add_distrib)
  qed
qed

text \<open>The pbufs of the tail: each but the last holds 512 bytes behind its structure.\<close>

fun tail_ok :: "pstate \<Rightarrow> ptr list \<Rightarrow> int \<Rightarrow> bool" where
  "tail_ok s [] n \<longleftrightarrow> n = 0"
| "tail_ok s (q # qs) n \<longleftrightarrow> 0 < n \<and> stored s q \<and> pb_type (p_pbufs s q) = PBUF_POOL \<and>
     pb_flags (p_pbufs s q) = 0 \<and> pb_ref (p_pbufs s q) = 1 \<and>
     pb_tot_len (p_pbufs s q) = n \<and> pb_len (p_pbufs s q) = min n 512 \<and>
     pb_payload (p_pbufs s q) = ptr_add q 16 \<and> tail_ok s qs (n - min n 512)"

definition same_mem :: "memp_t \<Rightarrow> pstate \<Rightarrow> pstate \<Rightarrow> bool" where
  "same_mem t s s' \<longleftrightarrow> p_bytes s' = p_bytes s \<and> p_heap s' = p_heap s \<and>
     (\<forall>u ys. u \<noteq> t \<longrightarrow> free_list u (p_pools s') ys = free_list u (p_pools s) ys)"

lemma same_mem_refl [simp]: "same_mem t s s"
  by (simp add: same_mem_def)

lemma same_mem_trans: "same_mem t s s1 \<Longrightarrow> same_mem t s1 s2 \<Longrightarrow> same_mem t s s2"
  by (simp add: same_mem_def)

lemma same_mem_upd [simp]: "same_mem t s (upd_pbuf p f s') = same_mem t s s'"
  by (simp add: same_mem_def)

definition same_but_next :: "pstate \<Rightarrow> pstate \<Rightarrow> ptr list \<Rightarrow> bool" where
  "same_but_next s s' xs \<longleftrightarrow> (\<forall>x\<in>set xs. (p_pbufs s' x)\<lparr>pb_next := None\<rparr> = (p_pbufs s x)\<lparr>pb_next := None\<rparr>)"

lemma fold_give_back:
  "p_pools (fold (\<lambda>x s. give_back x (set_ref x 0 s)) (map elt is) s) = fold (\<lambda>i. memp_free MEMP_PBUF_POOL (Some i)) is (p_pools s)"
  "p_heap (fold (\<lambda>x s. give_back x (set_ref x 0 s)) (map elt is) s) = p_heap s"
  "p_bytes (fold (\<lambda>x s. give_back x (set_ref x 0 s)) (map elt is) s) = p_bytes s"
  "x \<notin> elt ` set is \<Longrightarrow> p_pbufs (fold (\<lambda>x s. give_back x (set_ref x 0 s)) (map elt is) s) x = p_pbufs s x"
  by (induction "is" arbitrary: s) (auto simp: give_back_def elt_def)

lemma free_list_fold:
  "free_list t ps xs \<Longrightarrow> distinct is \<Longrightarrow> set is \<inter> set xs = {} \<Longrightarrow> set is \<subseteq> {..<memp_num t} \<Longrightarrow>
     free_list t (fold (\<lambda>i. memp_free t (Some i)) is ps) (rev is @ xs) \<and>
     (\<forall>u ys. u \<noteq> t \<longrightarrow> free_list u (fold (\<lambda>i. memp_free t (Some i)) is ps) ys = free_list u ps ys)"
proof (induction "is" arbitrary: ps xs)
  case (Cons i "is")
  have "free_list t (memp_free t (Some i) ps) (i # xs)"
    using Cons.prems by (intro free_list_free) auto
  then have "free_list t (fold (\<lambda>i. memp_free t (Some i)) is (memp_free t (Some i) ps)) (rev is @ i # xs) \<and>
     (\<forall>u ys. u \<noteq> t \<longrightarrow> free_list u (fold (\<lambda>i. memp_free t (Some i)) is (memp_free t (Some i) ps)) ys = free_list u (memp_free t (Some i) ps) ys)"
    using Cons.prems by (intro Cons.IH) auto
  then show ?case by (simp add: free_list_free_other)
qed simp

lemma chain_extend:
  assumes "chain s p xs" "xs \<noteq> []" "r = last xs" "q \<notin> set xs" "pb_next (p_pbufs s q) = None"
  shows "chain (upd_pbuf r (\<lambda>b. b\<lparr>pb_next := Some q\<rparr>) s) p (xs @ [q])"
proof -
  have xs: "xs = butlast xs @ [r]" using assms(2,3) by simp
  have "distinct xs" by (rule chain_distinct [OF assms(1)])
  with xs have "r \<notin> set (butlast xs)" by (metis distinct_append disjoint_insert(1) list.simps(15))
  moreover have "chain s (Some q) [q]" using assms(5) by simp
  moreover have "r \<noteq> q" using assms(4) xs by (metis in_set_conv_decomp)
  ultimately have "chain (upd_pbuf r (\<lambda>b. b\<lparr>pb_next := Some q\<rparr>) s) p (butlast xs @ r # [q])"
    using assms(1) xs by (intro chain_set_last) auto
  with xs show ?thesis by (metis append.assoc append_Cons append_Nil)
qed

text \<open>One step of the loop: the pbuf that is filled in and linked behind \<open>r\<close>.\<close>

definition tail_step :: "nat \<Rightarrow> ptr \<Rightarrow> int \<Rightarrow> memp_state \<Rightarrow> pstate \<Rightarrow> pstate" where
  "tail_step i r n ps s =
     (let q = elt i;
          s = s\<lparr>p_pools := ps\<rparr>;
          s = upd_pbuf q (\<lambda>x. x\<lparr>pb_type := PBUF_POOL, pb_flags := 0, pb_next := None\<rparr>) s;
          s = upd_pbuf r (\<lambda>x. x\<lparr>pb_next := Some q\<rparr>) s
      in upd_pbuf q (\<lambda>x. x\<lparr>pb_tot_len := n, pb_len := min n 512, pb_payload := ptr_add q 16, pb_ref := 1\<rparr>) s)"

lemma pbuf_alloc_tail_step:
  "0 < n \<Longrightarrow> n \<le> 65535 \<Longrightarrow> memp_malloc MEMP_PBUF_POOL (p_pools s) = (Some i, ps) \<Longrightarrow>
     pbuf_alloc_tail cf p r n s = pbuf_alloc_tail cf p (elt i) (n - min n 512) (tail_step i r n ps s)"
  using c_u16_id [of n]
  by (simp add: pbuf_alloc_tail.simps [of cf p r n s] tail_step_def Let_def elt_def pbuf_consts)

lemma tail_step_simps:
  assumes "r \<noteq> elt i"
  shows "p_pbufs (tail_step i r n ps s) (elt i) =
      (p_pbufs s (elt i))\<lparr>pb_next := None, pb_payload := ptr_add (elt i) 16, pb_tot_len := n, pb_len := min n 512,
        pb_type := PBUF_POOL, pb_flags := 0, pb_ref := 1\<rparr>"
    "x \<noteq> elt i \<Longrightarrow> x \<noteq> r \<Longrightarrow> p_pbufs (tail_step i r n ps s) x = p_pbufs s x"
    "p_pbufs (tail_step i r n ps s) r = (p_pbufs s r)\<lparr>pb_next := Some (elt i)\<rparr>"
    "p_pools (tail_step i r n ps s) = ps" "p_heap (tail_step i r n ps s) = p_heap s"
    "p_bytes (tail_step i r n ps s) = p_bytes s"
  using assms by (simp_all add: tail_step_def Let_def)

lemma chain_tail_step:
  assumes "chain s p xs" "xs \<noteq> []" "r = last xs" "elt i \<notin> set xs"
  shows "chain (tail_step i r n ps s) p (xs @ [elt i])"
proof -
  have r: "r \<noteq> elt i" "r \<in> set xs" using assms last_in_set by metis+
  let ?s1 = "upd_pbuf (elt i) (\<lambda>x. x\<lparr>pb_next := None\<rparr>) s"
  have "chain ?s1 p xs = chain s p xs" by (rule chain_cong) (use assms(4) in auto)
  then have "chain (upd_pbuf r (\<lambda>b. b\<lparr>pb_next := Some (elt i)\<rparr>) ?s1) p (xs @ [elt i])"
    using assms by (intro chain_extend) auto
  moreover have "chain (tail_step i r n ps s) p (xs @ [elt i]) =
      chain (upd_pbuf r (\<lambda>b. b\<lparr>pb_next := Some (elt i)\<rparr>) ?s1) p (xs @ [elt i])"
    by (rule chain_cong) (use r in \<open>simp add: tail_step_def Let_def\<close>)
  ultimately show ?thesis by simp
qed

lemma free_fresh:
  assumes ch: "chain s (Some p) (map elt is)" and refs: "\<forall>i\<in>set is. stored s (elt i) \<and> pb_ref (p_pbufs s (elt i)) = 1"
    and fl: "free_list MEMP_PBUF_POOL (p_pools s) fs" "distinct is" "set is \<inter> set fs = {}" "set is \<subseteq> {..<20}"
  shows "\<exists>n s'. pbuf_free cf (Some p) s = Some (n, s') \<and> same_mem MEMP_PBUF_POOL s s' \<and>
    free_list MEMP_PBUF_POOL (p_pools s') (rev is @ fs) \<and> (\<forall>x. x \<notin> elt ` set is \<longrightarrow> p_pbufs s' x = p_pbufs s x)"
proof -
  have r: "refs_ok s (map elt is)" using refs by (auto simp: refs_ok_def)
  have sole: "sole s (map elt is) = map elt is" using refs by (auto simp: sole_def intro: takeWhile_eq_all_conv [THEN iffD2])
  let ?s' = "fold (\<lambda>x s. give_back x (set_ref x 0 s)) (map elt is) s"
  have "pbuf_free cf (Some p) s = Some (int (length is) mod 256, ?s')"
    using pbuf_free_spec [OF ch r, of cf] by (simp only: sole) (simp add: drop_ref_def)
  moreover have "free_list MEMP_PBUF_POOL (p_pools ?s') (rev is @ fs) \<and> same_mem MEMP_PBUF_POOL s ?s'"
    using free_list_fold [OF fl(1,2,3)] fl(4) by (simp add: fold_give_back same_mem_def)
  ultimately show ?thesis using fold_give_back(4) by blast
qed

lemma but_next_fields:
  assumes "(b :: pbuf)\<lparr>pb_next := None\<rparr> = c\<lparr>pb_next := None\<rparr>"
  shows "pb_type b = pb_type c" "pb_flags b = pb_flags c" "pb_ref b = pb_ref c" "pb_tot_len b = pb_tot_len c"
    "pb_len b = pb_len c" "pb_payload b = pb_payload c"
  using arg_cong [OF assms, of pb_type] arg_cong [OF assms, of pb_flags] arg_cong [OF assms, of pb_ref]
    arg_cong [OF assms, of pb_tot_len] arg_cong [OF assms, of pb_len] arg_cong [OF assms, of pb_payload]
  by simp_all

lemma pbuf_alloc_tail_spec:
  "free_list MEMP_PBUF_POOL (p_pools s) fs \<Longrightarrow> 0 \<le> n \<Longrightarrow> n \<le> 65535 \<Longrightarrow>
     chain s (Some p) (map elt is) \<Longrightarrow> is \<noteq> [] \<Longrightarrow> r = elt (last is) \<Longrightarrow>
     distinct is \<Longrightarrow> set is \<inter> set fs = {} \<Longrightarrow> set is \<subseteq> {..<20} \<Longrightarrow>
     \<forall>i\<in>set is. stored s (elt i) \<and> pb_ref (p_pbufs s (elt i)) = 1 \<Longrightarrow>
     \<exists>s'. pbuf_alloc_tail cf p r n s = Some (pieces n \<le> length fs, s') \<and> same_mem MEMP_PBUF_POOL s s' \<and>
       (\<forall>x. x \<notin> elt ` (set is \<union> set fs) \<longrightarrow> p_pbufs s' x = p_pbufs s x) \<and>
       (if pieces n \<le> length fs
        then chain s' (Some p) (map elt (is @ take (pieces n) fs)) \<and> tail_ok s' (map elt (take (pieces n) fs)) n \<and>
          free_list MEMP_PBUF_POOL (p_pools s') (drop (pieces n) fs) \<and> same_but_next s s' (map elt is)
        else free_list MEMP_PBUF_POOL (p_pools s') (rev (is @ fs)))"
proof (induction fs arbitrary: s n "is" r)
  case Nil
  show ?case
  proof (cases "0 < n")
    case True
    have "pieces n \<noteq> 0" using pieces_step [OF True] by simp
    moreover have "memp_malloc MEMP_PBUF_POOL (p_pools s) = (None, p_pools s)"
      using Nil.prems(1) by (rule free_list_malloc_None)
    moreover obtain m s' where "pbuf_free cf (Some p) s = Some (m, s')" "same_mem MEMP_PBUF_POOL s s'"
      "free_list MEMP_PBUF_POOL (p_pools s') (rev is @ [])" "\<forall>x. x \<notin> elt ` set is \<longrightarrow> p_pbufs s' x = p_pbufs s x"
      using free_fresh [OF Nil.prems(4) Nil.prems(10) Nil.prems(1,7) _ Nil.prems(9), of cf] by auto
    ultimately show ?thesis using True by (simp add: pbuf_alloc_tail.simps [of cf p r n s])
  next
    case False
    with Nil.prems have "n = 0" by simp
    moreover have "pbuf_alloc_tail cf p r n s = Some (True, s)"
      using False by (simp add: pbuf_alloc_tail.simps [of cf p r n s])
    ultimately show ?thesis using Nil.prems by (intro exI [of _ s]) (simp add: same_but_next_def)
  qed
next
  case (Cons i fs)
  show ?case
  proof (cases "0 < n")
    case False
    with Cons.prems have "n = 0" by simp
    moreover have "pbuf_alloc_tail cf p r n s = Some (True, s)"
      using False by (simp add: pbuf_alloc_tail.simps [of cf p r n s])
    ultimately show ?thesis using Cons.prems by (intro exI [of _ s]) (simp add: same_but_next_def)
  next
    case True
    obtain ps where ps: "memp_malloc MEMP_PBUF_POOL (p_pools s) = (Some i, ps)"
      "free_list MEMP_PBUF_POOL ps fs" "i \<notin> set fs"
      "\<forall>u ys. u \<noteq> MEMP_PBUF_POOL \<longrightarrow> free_list u ps ys = free_list u (p_pools s) ys"
      using free_list_malloc_Some [OF Cons.prems(1)] by blast
    let ?s = "tail_step i r n ps s"
    let ?m = "n - min n 512"
    have i20: "i < 20" "i \<notin> set is" using Cons.prems(1,8) by (auto simp: free_list_def)
    have r: "r = last (map elt is)" "elt i \<notin> set (map elt is)" "r \<noteq> elt i"
      using Cons.prems(5,6) i20 by (auto simp: last_map)
    note T = tail_step_simps [OF r(3), where n = n and ps = ps and s = s]
    have a1: "free_list MEMP_PBUF_POOL (p_pools ?s) fs" using T(4) ps(2) by simp
    have a2: "0 \<le> ?m" "?m \<le> 65535" using True Cons.prems(3) by auto
    have a4: "chain ?s (Some p) (map elt (is @ [i]))"
      using chain_tail_step [OF Cons.prems(4) _ r(1,2), of n ps] Cons.prems(5) by simp
    have a5: "is @ [i] \<noteq> []" "elt i = elt (last (is @ [i]))" "distinct (is @ [i])"
      "set (is @ [i]) \<inter> set fs = {}" "set (is @ [i]) \<subseteq> {..<20}"
      using Cons.prems(7-9) i20 ps(3) by auto
    have st: "stored ?s (elt j) \<and> pb_ref (p_pbufs ?s (elt j)) = 1" if j: "j \<in> set is" for j
    proof -
      have "elt j \<noteq> elt i" using j i20 by auto
      then have "pb_flags (p_pbufs ?s (elt j)) = pb_flags (p_pbufs s (elt j))"
        "pb_type (p_pbufs ?s (elt j)) = pb_type (p_pbufs s (elt j))" "pb_ref (p_pbufs ?s (elt j)) = pb_ref (p_pbufs s (elt j))"
        using T(2) [of "elt j"] T(3) by (cases "elt j = r"; auto)+
      then show ?thesis using Cons.prems(10) j stored_cong [of ?s "elt j" s] by simp
    qed
    have sti: "stored ?s (elt i)" "pb_ref (p_pbufs ?s (elt i)) = 1" using T(1) by (simp_all add: stored_def elt_def)
    have a10: "\<forall>j\<in>set (is @ [i]). stored ?s (elt j) \<and> pb_ref (p_pbufs ?s (elt j)) = 1"
      using st sti by simp
    obtain s' where s': "pbuf_alloc_tail cf p (elt i) ?m ?s = Some (pieces ?m \<le> length fs, s')"
      "same_mem MEMP_PBUF_POOL ?s s'"
      "\<forall>x. x \<notin> elt ` (set (is @ [i]) \<union> set fs) \<longrightarrow> p_pbufs s' x = p_pbufs ?s x"
      "if pieces ?m \<le> length fs
        then chain s' (Some p) (map elt ((is @ [i]) @ take (pieces ?m) fs)) \<and> tail_ok s' (map elt (take (pieces ?m) fs)) ?m \<and>
          free_list MEMP_PBUF_POOL (p_pools s') (drop (pieces ?m) fs) \<and> same_but_next ?s s' (map elt (is @ [i]))
        else free_list MEMP_PBUF_POOL (p_pools s') (rev ((is @ [i]) @ fs))"
      using Cons.IH [OF a1 a2 a4 a5 a10] by (elim exE conjE) (rule that)
    have step: "pbuf_alloc_tail cf p r n s = Some (pieces n \<le> length (i # fs), s')"
      using pbuf_alloc_tail_step [OF True Cons.prems(3) ps(1), of cf p r] s'(1) pieces_step [OF True] by simp
    have "same_mem MEMP_PBUF_POOL s ?s" using T(4,5,6) ps(4) by (simp add: same_mem_def)
    with s'(2) have mem: "same_mem MEMP_PBUF_POOL s s'" using same_mem_trans by blast
    have out: "\<forall>x. x \<notin> elt ` (set is \<union> set (i # fs)) \<longrightarrow> p_pbufs s' x = p_pbufs s x"
    proof (intro allI impI)
      fix x
      assume x: "x \<notin> elt ` (set is \<union> set (i # fs))"
      then have "x \<noteq> elt i" "x \<noteq> r" using Cons.prems(5,6) by auto
      moreover have "x \<notin> elt ` (set (is @ [i]) \<union> set fs)" using x by simp
      ultimately show "p_pbufs s' x = p_pbufs s x" using s'(3) T(2) [of x] by metis
    qed
    show ?thesis
    proof (cases "pieces ?m \<le> length fs")
      case False
      with s' step mem out pieces_step [OF True] show ?thesis by (intro exI [of _ s']) simp
    next
      case True': True
      then have ok: "chain s' (Some p) (map elt ((is @ [i]) @ take (pieces ?m) fs))" "tail_ok s' (map elt (take (pieces ?m) fs)) ?m"
        "free_list MEMP_PBUF_POOL (p_pools s') (drop (pieces ?m) fs)" "same_but_next ?s s' (map elt (is @ [i]))"
        using s'(4) by auto
      have qi: "(p_pbufs s' (elt i))\<lparr>pb_next := None\<rparr> = (p_pbufs ?s (elt i))\<lparr>pb_next := None\<rparr>"
        using ok(4) by (simp add: same_but_next_def)
      note f = but_next_fields [OF qi]
      have "stored ?s (elt i)" using T(1) by (simp add: stored_def elt_def)
      then have "stored s' (elt i)" using stored_cong [of s' "elt i" ?s] f by simp
      then have t: "tail_ok s' (map elt (take (pieces n) (i # fs))) n"
        using ok(2) T(1) f True by (simp add: pieces_step [OF True])
      have sb: "same_but_next s s' (map elt is)"
        unfolding same_but_next_def
      proof
        fix x
        assume x: "x \<in> set (map elt is)"
        then have "x \<noteq> elt i" using i20 by auto
        then have "(p_pbufs ?s x)\<lparr>pb_next := None\<rparr> = (p_pbufs s x)\<lparr>pb_next := None\<rparr>"
          using T(2) [of x] T(3) by (cases "x = r") auto
        moreover have "(p_pbufs s' x)\<lparr>pb_next := None\<rparr> = (p_pbufs ?s x)\<lparr>pb_next := None\<rparr>"
          using ok(4) x unfolding same_but_next_def by (metis (no_types) Un_iff map_append set_append)
        ultimately show "(p_pbufs s' x)\<lparr>pb_next := None\<rparr> = (p_pbufs s x)\<lparr>pb_next := None\<rparr>" by simp
      qed
      show ?thesis
        using step mem out t sb ok(1,3) True' by (intro exI [of _ s']) (simp add: pieces_step [OF True])
    qed
  qed
qed

lemma align_offsets:
  "LWIP_MEM_ALIGN_SIZE (layer_offset l) \<in> {0, 16, 36, 56}"
  "LWIP_MEM_ALIGN_SIZE (SIZEOF_STRUCT_PBUF + layer_offset l) = 16 + LWIP_MEM_ALIGN_SIZE (layer_offset l)"
  by (cases l; simp add: LWIP_MEM_ALIGN_SIZE_eq pbuf_consts)+

text \<open>The room for data in the first pbuf.\<close>

definition first_room :: "pbuf_layer \<Rightarrow> int" where
  "first_room l = 512 - LWIP_MEM_ALIGN_SIZE (layer_offset l)"

lemma first_room_pos: "456 \<le> first_room l" "first_room l \<le> 512"
  using align_offsets(1) [of l] by (auto simp: first_room_def)

lemma tail_ok_lens: "tail_ok s qs n \<Longrightarrow> n \<le> 65535 \<Longrightarrow> lens_ok s qs \<and> tot s qs = n"
proof (induction qs arbitrary: n)
  case (Cons q qs)
  from Cons.IH [of "n - min n 512"] Cons.prems show ?case by auto
qed simp

lemma tail_ok_payload:
  "tail_ok s qs n \<Longrightarrow> x \<in> set qs \<Longrightarrow> stored s x \<and> pb_ref (p_pbufs s x) = 1 \<and> pb_flags (p_pbufs s x) = 0 \<and>
     fst (pb_payload (p_pbufs s x)) = fst x \<and> 16 \<le> snd (pb_payload (p_pbufs s x)) \<and>
     snd (pb_payload (p_pbufs s x)) + pb_len (p_pbufs s x) \<le> 528"
proof (induction qs arbitrary: n)
  case (Cons q qs)
  then show ?case by (auto simp: ptr_add_def stored_def)
qed simp

lemma tail_ok_cong: "\<forall>x\<in>set qs. p_pbufs s' x = p_pbufs s x \<Longrightarrow> tail_ok s qs n \<Longrightarrow> tail_ok s' qs n"
  by (induction qs arbitrary: n) (auto simp: stored_def)

text \<open>A pbuf whose payload lies in its own pool element, behind the structure.\<close>

definition own_payload :: "pstate \<Rightarrow> ptr \<Rightarrow> bool" where
  "own_payload s x \<longleftrightarrow> fst (pb_payload (p_pbufs s x)) = fst x \<and> snd x + 16 \<le> snd (pb_payload (p_pbufs s x)) \<and>
     snd (pb_payload (p_pbufs s x)) + pb_len (p_pbufs s x) \<le> snd x + 528"

lemma pbuf_alloc_pool:
  assumes fl: "free_list MEMP_PBUF_POOL (p_pools s) fs" and n: "0 \<le> n" "n \<le> 65535"
    and flags: "\<forall>i\<in>set fs. pb_flags (p_pbufs s (elt i)) AND PBUF_FLAG_IS_CUSTOM = 0"
    and k: "k = Suc (pieces (n - min n (first_room l)))"
  shows "\<exists>s'. pbuf_alloc cf l n PBUF_POOL s = Some (if k \<le> length fs then Some (elt (hd fs)) else None, s') \<and>
    same_mem MEMP_PBUF_POOL s s' \<and> (\<forall>x. x \<notin> elt ` set fs \<longrightarrow> p_pbufs s' x = p_pbufs s x) \<and>
    (if k \<le> length fs
     then let xs = map elt (take k fs) in
       packet s' (Some (elt (hd fs))) xs \<and> tot s' xs = n \<and> pb_len (p_pbufs s' (elt (hd fs))) = min n (first_room l) \<and>
       (\<forall>x\<in>set xs. stored s' x \<and> pb_ref (p_pbufs s' x) = 1 \<and> pb_flags (p_pbufs s' x) = 0 \<and> own_payload s' x) \<and>
       free_list MEMP_PBUF_POOL (p_pools s') (drop k fs)
     else free_list MEMP_PBUF_POOL (p_pools s') (rev fs))"
proof (cases fs)
  case Nil
  then have "memp_malloc MEMP_PBUF_POOL (p_pools s) = (None, p_pools s)"
    using fl by (simp add: free_list_malloc_None)
  with Nil fl k show ?thesis by (intro exI [of _ s]) (simp add: pbuf_alloc_def)
next
  case (Cons i gs)
  obtain ps where ps: "memp_malloc MEMP_PBUF_POOL (p_pools s) = (Some i, ps)"
    "free_list MEMP_PBUF_POOL ps gs" "i \<notin> set gs"
    "\<forall>u ys. u \<noteq> MEMP_PBUF_POOL \<longrightarrow> free_list u ps ys = free_list u (p_pools s) ys"
    using free_list_malloc_Some fl Cons by blast
  let ?len = "min n (first_room l)"
  define s0 where "s0 = upd_pbuf (elt i) (\<lambda>x. x\<lparr>pb_type := PBUF_POOL, pb_next := None,
       pb_payload := (RPool i, 16 + LWIP_MEM_ALIGN_SIZE (layer_offset l)),
       pb_tot_len := n, pb_len := ?len, pb_ref := 1\<rparr>) (s\<lparr>p_pools := ps\<rparr>)"
  have S: "p_pools s0 = ps" "p_bytes s0 = p_bytes s" "p_heap s0 = p_heap s"
    "\<And>x. x \<noteq> elt i \<Longrightarrow> p_pbufs s0 x = p_pbufs s x"
    "p_pbufs s0 (elt i) = (p_pbufs s (elt i))\<lparr>pb_type := PBUF_POOL, pb_next := None,
       pb_payload := (RPool i, 16 + LWIP_MEM_ALIGN_SIZE (layer_offset l)),
       pb_tot_len := n, pb_len := ?len, pb_ref := 1\<rparr>"
    by (simp_all add: s0_def)
  have i20: "i < 20" using fl Cons by (auto simp: free_list_def)
  have m: "0 \<le> n - ?len" "n - ?len \<le> 65535" using n first_room_pos [of l] by auto
  have fi: "pb_flags (p_pbufs s (elt i)) AND PBUF_FLAG_IS_CUSTOM = 0" using flags Cons by simp
  have st: "\<forall>j\<in>set [i]. stored s0 (elt j) \<and> pb_ref (p_pbufs s0 (elt j)) = 1"
    using fi S(5) by (simp add: stored_def) (simp add: elt_def)
  have a: "free_list MEMP_PBUF_POOL (p_pools s0) gs" "chain s0 (Some (elt i)) (map elt [i])" "[i] \<noteq> []"
    "elt i = elt (last [i])" "distinct [i]" "set [i] \<inter> set gs = {}" "set [i] \<subseteq> {..<20}"
    using ps i20 S(1,5) by simp_all
  obtain s' where s': "pbuf_alloc_tail cf (elt i) (elt i) (n - ?len) s0 = Some (pieces (n - ?len) \<le> length gs, s')"
    "same_mem MEMP_PBUF_POOL s0 s'" "\<forall>x. x \<notin> elt ` (set [i] \<union> set gs) \<longrightarrow> p_pbufs s' x = p_pbufs s0 x"
    "if pieces (n - ?len) \<le> length gs
     then chain s' (Some (elt i)) (map elt ([i] @ take (pieces (n - ?len)) gs)) \<and>
       tail_ok s' (map elt (take (pieces (n - ?len)) gs)) (n - ?len) \<and>
       free_list MEMP_PBUF_POOL (p_pools s') (drop (pieces (n - ?len)) gs) \<and> same_but_next s0 s' (map elt [i])
     else free_list MEMP_PBUF_POOL (p_pools s') (rev ([i] @ gs))"
    using pbuf_alloc_tail_spec [where cf = cf, OF a(1) m a(2-7) st] by (elim exE conjE) (rule that)
  have alloc: "pbuf_alloc cf l n PBUF_POOL s =
     do { (ok, s) \<leftarrow> pbuf_alloc_tail cf (elt i) (elt i) (n - ?len) s0;
       if ok then Some (Some (elt i), upd_pbuf (elt i) (\<lambda>x. x\<lparr>pb_ref := 1, pb_flags := 0\<rparr>) s) else Some (None, s) }"
    using ps(1) unfolding elt_def s0_def
    by (simp add: pbuf_alloc_def Let_def align_offsets(2) first_room_def PBUF_POOL_BUFSIZE_ALIGNED_def)
  have mem: "same_mem MEMP_PBUF_POOL s s'" using s'(2) ps(4) S(1-3) by (simp add: same_mem_def)
  have out: "p_pbufs s' x = p_pbufs s x" if "x \<notin> elt ` set fs" for x
  proof -
    have "x \<notin> elt ` (set [i] \<union> set gs)" "x \<noteq> elt i" using that Cons by auto
    with s'(3) S(4) show ?thesis by metis
  qed
  show ?thesis
  proof (cases "pieces (n - ?len) \<le> length gs")
    case False
    then show ?thesis using alloc s'(1,4) mem out k Cons by (intro exI [of _ s']) auto
  next
    case True
    let ?t = "upd_pbuf (elt i) (\<lambda>x. x\<lparr>pb_ref := 1, pb_flags := 0\<rparr>) s'"
    let ?qs = "map elt (take (pieces (n - ?len)) gs)"
    have ok: "chain s' (Some (elt i)) (elt i # ?qs)" "tail_ok s' ?qs (n - ?len)"
      "free_list MEMP_PBUF_POOL (p_pools s') (drop (pieces (n - ?len)) gs)"
      "(p_pbufs s' (elt i))\<lparr>pb_next := None\<rparr> = (p_pbufs s0 (elt i))\<lparr>pb_next := None\<rparr>"
      using s'(4) True by (simp_all add: same_but_next_def)
    note f = but_next_fields [OF ok(4)]
    have iq: "elt i \<notin> set ?qs" using ps(3) by (auto dest: in_set_takeD)
    have "chain ?t (Some (elt i)) (elt i # ?qs) = chain s' (Some (elt i)) (elt i # ?qs)" by (rule chain_cong) simp
    moreover have t: "tail_ok ?t ?qs (n - ?len)" by (rule tail_ok_cong [OF _ ok(2)]) (use iq in auto)
    moreover have "lens_ok ?t ?qs \<and> tot ?t ?qs = n - ?len" using tail_ok_lens [OF t m(2)] .
    ultimately have p: "packet ?t (Some (elt i)) (elt i # ?qs)" "tot ?t (elt i # ?qs) = n"
      using ok(1) f S(5) n first_room_pos [of l] by (auto simp: packet_def)
    have "stored ?t (elt i)" using f S(5) fi by (simp add: stored_def) (simp add: elt_def)
    moreover have "own_payload ?t (elt i)"
      using f S(5) align_offsets(1) [of l] by (auto simp: own_payload_def elt_def first_room_def)
    ultimately have all: "\<forall>x\<in>set (elt i # ?qs). stored ?t x \<and> pb_ref (p_pbufs ?t x) = 1 \<and> pb_flags (p_pbufs ?t x) = 0 \<and> own_payload ?t x"
    proof -
      have q: "stored ?t x \<and> pb_ref (p_pbufs ?t x) = 1 \<and> pb_flags (p_pbufs ?t x) = 0 \<and> own_payload ?t x"
        if x: "x \<in> set ?qs" for x
      proof -
        have "snd x = 0" using x by (auto simp: elt_def)
        with tail_ok_payload [OF t x] show ?thesis unfolding own_payload_def by simp
      qed
      assume "stored ?t (elt i)" "own_payload ?t (elt i)"
      moreover have "pb_ref (p_pbufs ?t (elt i)) = 1 \<and> pb_flags (p_pbufs ?t (elt i)) = 0" by simp
      moreover have "\<forall>x\<in>set ?qs. stored ?t x \<and> pb_ref (p_pbufs ?t x) = 1 \<and> pb_flags (p_pbufs ?t x) = 0 \<and> own_payload ?t x"
        by (rule ballI) (rule q)
      ultimately show ?thesis by (simp only: list.set ball_simps simp_thms)
    qed
    have "same_mem MEMP_PBUF_POOL s ?t" using mem by simp
    moreover have "\<forall>x. x \<notin> elt ` set fs \<longrightarrow> p_pbufs ?t x = p_pbufs s x" using out Cons by simp
    moreover have "pbuf_alloc cf l n PBUF_POOL s = Some (Some (elt i), ?t)" using alloc s'(1) True by simp
    moreover have "map elt (take k fs) = elt i # ?qs" "drop k fs = drop (pieces (n - ?len)) gs" "hd fs = i" "k \<le> length fs"
      using k Cons True by simp_all
    moreover have "pb_len (p_pbufs ?t (elt i)) = ?len" using f S(5) by simp
    ultimately show ?thesis using p all ok(3) by (intro exI [of _ ?t]) (simp add: Let_def)
  qed
qed

end
