(* ===== verification/PbufOps.thy ===== *)
theory PbufOps
  imports PbufChain
begin

text \<open>
  The properties of the packet buffer operations, over the chain lemmas of \<open>PbufChain\<close>:
  allocation from the heap, shortening, copying between chains and to and from buffers.
\<close>

section \<open>Allocation from the heap\<close>

definition ram_size :: "pbuf_layer \<Rightarrow> int \<Rightarrow> int" where
  "ram_size l n = LWIP_MEM_ALIGN_SIZE (SIZEOF_STRUCT_PBUF + layer_offset l) + LWIP_MEM_ALIGN_SIZE n"

definition ram_pbuf :: "pbuf_layer \<Rightarrow> int \<Rightarrow> int \<Rightarrow> heap \<Rightarrow> pstate \<Rightarrow> pstate" where
  "ram_pbuf l n a h s = upd_pbuf (RHeap, a) (\<lambda>x. x\<lparr>
     pb_payload := (RHeap, LWIP_MEM_ALIGN_SIZE (a + SIZEOF_STRUCT_PBUF + layer_offset l)),
     pb_len := n, pb_tot_len := n, pb_next := None, pb_type := PBUF_RAM, pb_ref := 1, pb_flags := 0\<rparr>)
     (s\<lparr>p_heap := h\<rparr>)"

lemma pbuf_alloc_ram_eq:
  "mem_malloc (c_u16 (ram_size l n)) (p_heap s) = Some (r, h) \<Longrightarrow>
     pbuf_alloc cf l n PBUF_RAM s =
       Some (case r of None \<Rightarrow> (None, s\<lparr>p_heap := h\<rparr>) | Some a \<Rightarrow> (Some (RHeap, a), ram_pbuf l n a h s))"
  by (simp add: pbuf_alloc_def ram_pbuf_def ram_size_def Let_def split: option.split)

lemma align_add: "4 dvd a \<Longrightarrow> LWIP_MEM_ALIGN_SIZE (a + b) = a + LWIP_MEM_ALIGN_SIZE b"
proof -
  assume "4 dvd a"
  then obtain k where a: "a = 4 * k" by blast
  have "(4 * k + b + 3) mod 4 = (b + 3) mod 4"
    using mod_mult_self2 [of "b + 3" 4 k] by (simp add: algebra_simps)
  then show ?thesis unfolding LWIP_MEM_ALIGN_SIZE_eq a by simp
qed

lemma ram_size_props:
  assumes "0 \<le> n" "n \<le> 65400"
  shows "c_u16 (ram_size l n) = ram_size l n" "request_size (ram_size l n) = ram_size l n"
    "LWIP_MEM_ALIGN_SIZE (SIZEOF_STRUCT_PBUF + layer_offset l) + n \<le> ram_size l n"
proof -
  note a = align_offsets(1) [of l] align_offsets(2) [of l] align_size_bounds [of n]
  have b: "16 \<le> ram_size l n" "ram_size l n \<le> 65475" using a assms by (auto simp: ram_size_def)
  have d: "4 dvd ram_size l n" unfolding ram_size_def by (intro dvd_add align_size_dvd)
  show c: "c_u16 (ram_size l n) = ram_size l n" using b by (simp add: c_conv)
  have "LWIP_MEM_ALIGN_SIZE (ram_size l n) = ram_size l n"
    using align_add [OF d, of 0] by (simp add: LWIP_MEM_ALIGN_SIZE_eq)
  then show "request_size (ram_size l n) = ram_size l n" using b c by (simp add: request_size_def mem_consts)
  show "LWIP_MEM_ALIGN_SIZE (SIZEOF_STRUCT_PBUF + layer_offset l) + n \<le> ram_size l n"
    using a by (simp add: ram_size_def)
qed

section \<open>Shortening\<close>

lemma fold_give_back_frame:
  "p_bytes (fold (\<lambda>x s. give_back x (set_ref x 0 s)) xs s) = p_bytes s"
  "y \<notin> set xs \<Longrightarrow> p_pbufs (fold (\<lambda>x s. give_back x (set_ref x 0 s)) xs s) y = p_pbufs s y"
  by (induction xs arbitrary: s) auto

lemma drop_ref_frame: "p_bytes (drop_ref xs s) = p_bytes s" "y \<notin> set xs \<Longrightarrow> p_pbufs (drop_ref xs s) y = p_pbufs s y"
  by (auto simp: drop_ref_def split: list.split)

lemma pbuf_free_frame:
  assumes "chain s (Some x) xs" "refs_ok s xs"
  shows "\<exists>n s'. pbuf_free cf (Some x) s = Some (n, s') \<and> p_bytes s' = p_bytes s \<and>
    (\<forall>y. y \<notin> set xs \<longrightarrow> p_pbufs s' y = p_pbufs s y)"
proof -
  have sub: "set (sole s xs) \<subseteq> set xs" "set (drop (length (sole s xs)) xs) \<subseteq> set xs"
    unfolding sole_def by (auto dest: set_takeWhileD in_set_dropD)
  let ?s' = "drop_ref (drop (length (sole s xs)) xs) (fold (\<lambda>x s. give_back x (set_ref x 0 s)) (sole s xs) s)"
  have "p_pbufs ?s' y = p_pbufs s y" if "y \<notin> set xs" for y
  proof -
    have "y \<notin> set (sole s xs)" "y \<notin> set (drop (length (sole s xs)) xs)" using that sub by blast+
    then show ?thesis by (simp add: drop_ref_frame fold_give_back_frame)
  qed
  moreover have "p_bytes ?s' = p_bytes s" by (simp add: drop_ref_frame fold_give_back_frame)
  ultimately show ?thesis using pbuf_free_spec [OF assms, of cf] by blast
qed

lemma pbuf_realloc_loop_spec:
  "chain s p xs \<Longrightarrow> lens_ok s xs \<Longrightarrow> 0 \<le> n \<Longrightarrow> n < tot s xs \<Longrightarrow>
     \<exists>us q vs. xs = us @ q # vs \<and> 0 \<le> n - tot s us \<and> n - tot s us \<le> pb_len (p_pbufs s q) \<and>
       pbuf_realloc_loop p n g s = Some (q, n - tot s us, add_tot us (c_u16 g) s)"
proof (induction xs arbitrary: p n s)
  case (Cons x xs)
  have x: "p = Some x" "chain s (pb_next (p_pbufs s x)) xs" "lens_ok s xs" using Cons.prems by auto
  show ?case
  proof (cases "n > pb_len (p_pbufs s x)")
    case True
    let ?s = "add_tot [x] (c_u16 g) s" and ?n = "n - pb_len (p_pbufs s x)"
    have nx: "x \<notin> set xs" using chain_distinct [OF Cons.prems(1)] by simp
    have c: "c_u16 ?n = ?n" using Cons.prems True tot_bound [of s "x # xs"] by (simp add: c_conv)
    have "chain ?s (pb_next (p_pbufs s x)) xs" using x(2) chain_cong [of xs ?s s] by simp
    moreover have "lens_ok ?s xs"
    proof -
      have "lens_ok ?s xs = lens_ok s xs"
        by (rule lens_ok_cong) (use nx add_tot_outside [of xs "[x]"] in auto)
      with x(3) show ?thesis by simp
    qed
    ultimately obtain us q vs where r: "xs = us @ q # vs" "0 \<le> ?n - tot s us" "?n - tot s us \<le> pb_len (p_pbufs s q)"
      "pbuf_realloc_loop (pb_next (p_pbufs s x)) ?n g ?s = Some (q, ?n - tot s us, add_tot us (c_u16 g) ?s)"
      using Cons.IH [of ?s "pb_next (p_pbufs s x)" ?n] Cons.prems True by auto
    have "x \<notin> set us" using nx r(1) by simp
    then have "add_tot us (c_u16 g) ?s = add_tot (x # us) (c_u16 g) s" by (rule add_tot_add_tot)
    then have "pbuf_realloc_loop p n g s = Some (q, n - tot s (x # us), add_tot (x # us) (c_u16 g) s)"
    proof -
      have "n - tot s (x # us) = ?n - tot s us" by simp
      with r(4) True x(1) c show ?thesis
        by (simp only: pbuf_realloc_loop.simps [of "Some x"] option.case if_True Let_def upd_pbuf_add_tot add_tot_simps
            \<open>add_tot us (c_u16 g) ?s = add_tot (x # us) (c_u16 g) s\<close>)
    qed
    with r(1-3) show ?thesis
      by (intro exI [of _ "x # us"] exI [of _ q] exI [of _ vs]) (simp add: algebra_simps)
  next
    case False
    then have "pbuf_realloc_loop p n g s = Some (x, n, s)"
      using x(1) by (simp add: pbuf_realloc_loop.simps [of "Some x"])
    with False Cons.prems show ?thesis
      by (intro exI [of _ "[]"] exI [of _ x] exI [of _ xs]) (simp add: add_tot_def)
  qed
qed simp

lemma c_u16_add: "c_u16 (x + c_u16 y) = c_u16 (x + y)"
  by (simp add: c_u16_def mod_simps)

text \<open>The pbufs of the heap lie in blocks of the allocator, with their payload.\<close>

definition ram_ok :: "pstate \<Rightarrow> ptr \<Rightarrow> bool" where
  "ram_ok s x \<longleftrightarrow> (pb_type (p_pbufs s x) = PBUF_RAM \<longrightarrow>
     (\<exists>sz. live (p_heap s) (snd x) sz \<and> snd x \<le> snd (pb_payload (p_pbufs s x)) \<and>
       snd (pb_payload (p_pbufs s x)) + pb_len (p_pbufs s x) \<le> snd x + sz))"

lemma mem_trim_live:
  assumes "heap_ok h" "live h p sz" "0 \<le> n" "n \<le> sz"
  shows "\<exists>h'. mem_trim p n h = (Some p, h')"
proof -
  obtain bs where inv: "heap_inv h bs" and b: "(p - SIZEOF_STRUCT_MEM, p + sz, True) \<in> set bs"
    using assms(1,2) by (auto simp: heap_ok_def live_iff)
  have l: "12 \<le> sz" "p + sz \<le> 16000" "8 \<le> p" "4 dvd sz" using live_bounds [OF assms(1,2)] by auto
  then obtain k where k: "sz = 4 * k" by blast
  have "LWIP_MEM_ALIGN_SIZE n \<le> sz"
    unfolding LWIP_MEM_ALIGN_SIZE_eq k using assms(4) unfolding k by presburger
  then have "request_size n \<le> sz"
    using assms(3) l align_size_bounds [of n] by (simp add: request_size_def c_u16_id mem_consts Let_def)
  then show ?thesis using mem_trim_shrinks [OF inv b, of n] by auto
qed

lemma pbuf_realloc_spec:
  assumes p: "packet s (Some p) xs" and n: "0 \<le> n" "n < tot s xs" and refs: "refs_ok s xs"
    and heap: "heap_ok (p_heap s)" "\<forall>x\<in>set xs. ram_ok s x"
  shows "\<exists>us q vs s'. xs = us @ q # vs \<and> pbuf_realloc cf p n s = Some s' \<and>
    packet s' (Some p) (us @ [q]) \<and> tot s' (us @ [q]) = n \<and> data s' (us @ [q]) = take (nat n) (data s xs) \<and>
    p_bytes s' = p_bytes s"
proof -
  have ch: "chain s (Some p) xs" "lens_ok s xs" using p by (simp_all add: packet_def)
  have tl: "pb_tot_len (p_pbufs s p) = tot s xs" using ch by (cases xs) auto
  let ?g = "n - tot s xs"
  obtain us q vs where q: "xs = us @ q # vs" "0 \<le> n - tot s us" "n - tot s us \<le> pb_len (p_pbufs s q)"
    "pbuf_realloc_loop (Some p) n ?g s = Some (q, n - tot s us, add_tot us (c_u16 ?g) s)"
    using pbuf_realloc_loop_spec [OF ch n] by blast
  let ?rem = "n - tot s us"
  define s1 where "s1 = add_tot us (c_u16 ?g) s"
  have d: "q \<notin> set us" "q \<notin> set vs" "set us \<inter> set vs = {}" "distinct us"
    using chain_distinct [OF ch(1)] q(1) by auto
  have s1q: "p_pbufs s1 q = p_pbufs s q" "p_heap s1 = p_heap s" "p_bytes s1 = p_bytes s"
    using d by (simp_all add: s1_def)
  obtain s2 where s2: "(if pb_type (p_pbufs s1 q) = PBUF_RAM \<and> ?rem \<noteq> pb_len (p_pbufs s1 q)
      then (case mem_trim (heap_offset q) (c_u16 (c_u16 (snd (pb_payload (p_pbufs s1 q)) - snd q) + ?rem)) (p_heap s1) of
        (Some a, h) \<Rightarrow> Some (s1\<lparr>p_heap := h\<rparr>) | (None, h) \<Rightarrow> None) else Some s1) = Some s2"
    "p_pbufs s2 = p_pbufs s1" "p_bytes s2 = p_bytes s1"
  proof (cases "pb_type (p_pbufs s1 q) = PBUF_RAM \<and> ?rem \<noteq> pb_len (p_pbufs s1 q)")
    case True
    have qs: "stored s q" "ram_ok s q" using refs heap(2) q(1) by (auto simp: refs_ok_def)
    then have hq: "heap_offset q = snd q" using True s1q by (simp add: stored_def heap_offset_def)
    obtain sz where sz: "live (p_heap s) (snd q) sz" "snd q \<le> snd (pb_payload (p_pbufs s q))"
      "snd (pb_payload (p_pbufs s q)) + pb_len (p_pbufs s q) \<le> snd q + sz"
      using qs(2) True s1q(1) by (auto simp: ram_ok_def)
    let ?o = "snd (pb_payload (p_pbufs s q)) - snd q"
    have b: "sz \<le> 16000" "0 \<le> ?o" "?o \<le> sz" "0 \<le> ?o + ?rem" "?o + ?rem \<le> sz"
      using live_bounds [OF heap(1) sz(1)] sz(2,3) q(2,3) by auto
    then have c: "c_u16 (c_u16 ?o + ?rem) = ?o + ?rem" by (simp add: c_u16_id)
    obtain h where "mem_trim (snd q) (?o + ?rem) (p_heap s) = (Some (snd q), h)"
      using mem_trim_live [OF heap(1) sz(1) b(4,5)] by blast
    then show thesis using True hq c s1q(1,2) by (intro that [of "s1\<lparr>p_heap := h\<rparr>"]) simp_all
  next
    case False
    then show thesis by (intro that [of s1]) auto
  qed
  define s3 where "s3 = upd_pbuf q (\<lambda>x. x\<lparr>pb_len := ?rem, pb_tot_len := ?rem\<rparr>) s2"
  have s3: "\<And>x. x \<noteq> q \<Longrightarrow> p_pbufs s3 x = p_pbufs s1 x" "p_bytes s3 = p_bytes s"
    "p_pbufs s3 q = (p_pbufs s q)\<lparr>pb_len := ?rem, pb_tot_len := ?rem\<rparr>"
    using s2 s1q by (simp_all add: s3_def)
  have s3vs: "p_pbufs s3 x = p_pbufs s x" if "x \<in> set vs" for x
  proof -
    have "x \<noteq> q" "x \<notin> set us" using that d by auto
    then show ?thesis using s3(1) by (simp add: s1_def)
  qed
  have chq: "chain s (pb_next (p_pbufs s q)) vs"
    using ch(1) unfolding q(1) chain_def by (metis chain_def chain_simps(2) linked_append linked.simps(2))
  obtain s4 where s4: "(case pb_next (p_pbufs s3 q) of None \<Rightarrow> Some s3
      | Some t \<Rightarrow> do { (n, s) \<leftarrow> pbuf_free cf (Some t) s3; Some s }) = Some s4"
    "p_bytes s4 = p_bytes s3" "\<And>y. y \<notin> set vs \<Longrightarrow> p_pbufs s4 y = p_pbufs s3 y"
  proof (cases "pb_next (p_pbufs s q)")
    case None
    then show thesis using s3 by (intro that [of s3]) simp_all
  next
    case (Some t)
    have "chain s3 (Some t) vs = chain s (Some t) vs" by (rule chain_cong) (use s3vs in auto)
    then have "chain s3 (Some t) vs" using chq Some by simp
    moreover have "refs_ok s3 vs"
      using refs s3vs unfolding refs_ok_def q(1) by (simp add: stored_def)
    ultimately obtain m s' where "pbuf_free cf (Some t) s3 = Some (m, s')" "p_bytes s' = p_bytes s3"
      "\<forall>y. y \<notin> set vs \<longrightarrow> p_pbufs s' y = p_pbufs s3 y"
      using pbuf_free_frame [of s3 t vs cf] by blast
    moreover from this have "p_pbufs s' y = p_pbufs s3 y" if "y \<notin> set vs" for y using that by blast
    ultimately show thesis using Some s3(3) by (intro that [of s']) simp_all
  qed
  define s5 where "s5 = upd_pbuf q (\<lambda>x. x\<lparr>pb_next := None\<rparr>) s4"
  have run: "pbuf_realloc cf p n s = Some s5"
    using n(2) q(4) s2(1) s4(1) unfolding pbuf_realloc_def Let_def tl s3_def s5_def
    by (simp add: s1_def [symmetric])
  have q5: "p_pbufs s5 q = (p_pbufs s q)\<lparr>pb_len := ?rem, pb_tot_len := ?rem, pb_next := None\<rparr>"
    using s3(3) s4(3) [OF d(2)] by (simp add: s5_def)
  have us5: "p_pbufs s5 x = p_pbufs s1 x" if "x \<in> set us" for x
  proof -
    have "x \<noteq> q" "x \<notin> set vs" using that d by auto
    then show ?thesis using s3(1) s4(3) by (simp add: s5_def)
  qed
  have b5: "p_bytes s5 = p_bytes s" using s4(2) s3(2) by (simp add: s5_def)
  have "chain s5 (Some p) (us @ [q])"
  proof -
    have "chain s5 r (us @ [q])" if "chain s r (us @ q # vs)" "\<forall>x\<in>set us. pb_next (p_pbufs s5 x) = pb_next (p_pbufs s x)" for r
      using that by (induction us arbitrary: r) (auto simp: q5)
    then show ?thesis using ch(1) q(1) us5 by (simp add: s1_def)
  qed
  moreover have "lens_ok s5 (us @ [q]) \<and> tot s5 (us @ [q]) = n"
  proof -
    have "lens_ok s5 (ys @ [q]) \<and> tot s5 (ys @ [q]) = tot s ys + ?rem"
      if "lens_ok s (ys @ q # vs)" "set ys \<subseteq> set us" "tot s (ys @ q # vs) + ?g = tot s ys + ?rem" for ys
      using that
    proof (induction ys)
      case Nil
      have "?rem \<le> 65535" using n tot_bound [OF ch(2)] q(2) lens_ok_appendD [of s us "q # vs"] ch(2) q(1) by auto
      then show ?case using q(2) by (simp add: q5)
    next
      case (Cons y ys)
      have IH: "lens_ok s5 (ys @ [q]) \<and> tot s5 (ys @ [q]) = tot s ys + ?rem" using Cons by simp
      have y: "p_pbufs s5 y = p_pbufs s1 y" "y \<in> set us" using us5 Cons.prems by auto
      have ly: "pb_len (p_pbufs s1 y) = pb_len (p_pbufs s y)" by (simp add: s1_def)
      have "pb_tot_len (p_pbufs s1 y) = c_u16 (pb_tot_len (p_pbufs s y) + ?g)"
        using y(2) by (simp add: s1_def c_u16_add)
      also have "pb_tot_len (p_pbufs s y) + ?g = pb_len (p_pbufs s y) + tot s ys + ?rem" using Cons.prems by simp
      also have "c_u16 (pb_len (p_pbufs s y) + tot s ys + ?rem) = pb_len (p_pbufs s y) + tot s ys + ?rem"
        using Cons.prems q(2) n tot_nonneg [of s5 "ys @ [q]"] IH by (intro c_u16_id) auto
      finally show ?case using IH y ly Cons.prems n by auto
    qed
    from this [of us] show ?thesis using ch(2) q(1) by simp
  qed
  moreover have "data s5 (us @ [q]) = take (nat n) (data s xs)"
  proof -
    have u: "data s5 us = data s us" by (rule data_cong) (use us5 b5 in \<open>simp_all add: s1_def\<close>)
    have "int (length (data s us)) = tot s us" using ch(2) unfolding q(1) by (induction us) auto
    then have ln: "nat n = length (data s us) + nat ?rem" using q(2) by simp
    have "pb_data s5 q = take (nat ?rem) (pb_data s q)"
      using q(2,3) by (simp add: pb_data_def read_bytes_def q5 b5 bytes_take)
    moreover have "nat ?rem \<le> length (pb_data s q)" using q(3) by simp
    ultimately show ?thesis by (simp add: u q(1) ln)
  qed
  ultimately have "packet s5 (Some p) (us @ [q]) \<and> tot s5 (us @ [q]) = n \<and> data s5 (us @ [q]) = take (nat n) (data s xs)"
    by (simp only: packet_def simp_thms)
  with q(1) run b5 show ?thesis by blast
qed

lemma pbuf_realloc_cut:
  assumes "packet s (Some p) xs" "0 \<le> n" "refs_ok s xs" "heap_ok (p_heap s)" "\<forall>x\<in>set xs. ram_ok s x"
  shows "\<exists>s' ys. pbuf_realloc cf p n s = Some s' \<and> packet s' (Some p) ys \<and> (\<exists>zs. xs = ys @ zs) \<and>
    tot s' ys = min n (tot s xs) \<and> data s' ys = take (nat n) (data s xs) \<and> p_bytes s' = p_bytes s"
proof (cases "n < tot s xs")
  case True
  obtain us q vs s' where r: "xs = us @ q # vs" "pbuf_realloc cf p n s = Some s'" "packet s' (Some p) (us @ [q])"
    "tot s' (us @ [q]) = n" "data s' (us @ [q]) = take (nat n) (data s xs)" "p_bytes s' = p_bytes s"
    using pbuf_realloc_spec [OF assms(1,2) True assms(3-5), of cf] by blast
  have "xs = (us @ [q]) @ vs" using r(1) by simp
  with r True show ?thesis by (intro exI [of _ s'] exI [of _ "us @ [q]"]) auto
next
  case False
  have l: "lens_ok s xs" "pb_tot_len (p_pbufs s p) = tot s xs" using assms(1) by (cases xs; auto simp: packet_def)+
  then have "pbuf_realloc cf p n s = Some s" using False by (simp add: pbuf_realloc_def)
  moreover have "take (nat n) (data s xs) = data s xs" using length_data [OF l(1)] False by simp
  ultimately show ?thesis using False assms(1) by (intro exI [of _ s] exI [of _ xs]) simp
qed

section \<open>Payload bytes in order\<close>

definition span :: "ptr \<Rightarrow> int \<Rightarrow> ptr list" where
  "span p n = map (\<lambda>i. ptr_add p (int i)) [0..<nat n]"

definition pb_addrs :: "pstate \<Rightarrow> ptr \<Rightarrow> ptr list" where
  "pb_addrs s x = span (pb_payload (p_pbufs s x)) (pb_len (p_pbufs s x))"

definition addrs :: "pstate \<Rightarrow> ptr list \<Rightarrow> ptr list" where
  "addrs s xs = concat (map (pb_addrs s) xs)"

definition byt :: "pstate \<Rightarrow> ptr \<Rightarrow> u8_t" where
  "byt s k = p_bytes s (fst k) (snd k)"

lemma addrs_simps [simp]: "addrs s [] = []" "addrs s (x # xs) = pb_addrs s x @ addrs s xs"
  by (simp_all add: addrs_def)

lemma addrs_append [simp]: "addrs s (xs @ ys) = addrs s xs @ addrs s ys"
  by (simp add: addrs_def)

lemma length_span [simp]: "length (span p n) = nat n"
  by (simp add: span_def)

lemma length_pb_addrs [simp]: "length (pb_addrs s x) = nat (pb_len (p_pbufs s x))"
  by (simp add: pb_addrs_def)

lemma length_addrs: "lens_ok s xs \<Longrightarrow> int (length (addrs s xs)) = tot s xs"
  by (induction xs) auto

lemma span_sub:
  assumes "0 \<le> a" "0 \<le> n" "a + n \<le> m"
  shows "take (nat n) (drop (nat a) (span p m)) = span (ptr_add p a) n"
proof (rule nth_equalityI)
  fix i
  assume "i < length (take (nat n) (drop (nat a) (span p m)))"
  then have "i < nat n" "nat a + i < nat m" using assms by auto
  then show "take (nat n) (drop (nat a) (span p m)) ! i = span (ptr_add p a) n ! i"
    using assms(1) by (simp add: span_def ptr_add_def add.assoc)
qed (use assms in auto)

lemma read_span: "read_bytes p n s = map (byt s) (span p n)"
  by (simp add: read_bytes_def bytes_def span_def byt_def ptr_add_def)

lemma pb_data_addrs: "pb_data s x = map (byt s) (pb_addrs s x)"
  by (simp add: pb_data_def pb_addrs_def read_span)

lemma data_addrs: "data s xs = map (byt s) (addrs s xs)"
  by (induction xs) (auto simp: pb_data_addrs)

text \<open>\<open>writes ks bs s s'\<close>: the bytes \<open>bs\<close> have been stored at \<open>ks\<close> and nothing else has changed.\<close>

definition writes :: "ptr list \<Rightarrow> u8_t list \<Rightarrow> pstate \<Rightarrow> pstate \<Rightarrow> bool" where
  "writes ks bs s s' \<longleftrightarrow> map (byt s') ks = bs \<and> (\<forall>k. k \<notin> set ks \<longrightarrow> byt s' k = byt s k) \<and>
     p_pbufs s' = p_pbufs s \<and> p_heap s' = p_heap s \<and> p_pools s' = p_pools s"

lemma writes_Nil: "writes [] [] s s"
  by (simp add: writes_def)

lemma writes_append:
  assumes "writes ks bs s s1" "writes js cs s1 s2" "set ks \<inter> set js = {}"
  shows "writes (ks @ js) (bs @ cs) s s2"
proof -
  have "map (byt s2) ks = map (byt s1) ks"
    using assms(2,3) by (intro map_cong refl) (auto simp: writes_def disjoint_iff)
  with assms show ?thesis by (simp add: writes_def)
qed

lemma writes_addrs: "writes ks bs s s' \<Longrightarrow> addrs s' xs = addrs s xs"
  by (induction xs) (auto simp: writes_def pb_addrs_def)

lemma writes_data_other: "writes ks bs s s' \<Longrightarrow> set (addrs s xs) \<inter> set ks = {} \<Longrightarrow> data s' xs = data s xs"
proof -
  assume w: "writes ks bs s s'" and d: "set (addrs s xs) \<inter> set ks = {}"
  show ?thesis unfolding data_addrs writes_addrs [OF w]
    using w d by (intro map_cong refl) (auto simp: writes_def disjoint_iff)
qed

lemma writes_packet: "writes ks bs s s' \<Longrightarrow> packet s' p xs = packet s p xs"
  by (rule packet_cong) (simp add: writes_def)

lemma span_mem: "k \<in> set (span p n) \<longleftrightarrow> fst k = fst p \<and> snd p \<le> snd k \<and> snd k < snd p + n"
proof
  assume "k \<in> set (span p n)"
  then obtain i where "i < nat n" "k = ptr_add p (int i)" by (auto simp: span_def)
  then show "fst k = fst p \<and> snd p \<le> snd k \<and> snd k < snd p + n" by (auto simp: ptr_add_def)
next
  assume k: "fst k = fst p \<and> snd p \<le> snd k \<and> snd k < snd p + n"
  then have "k = ptr_add p (int (nat (snd k - snd p)))" by (auto simp: ptr_add_def prod_eq_iff)
  moreover have "nat (snd k - snd p) < nat n" using k by auto
  ultimately show "k \<in> set (span p n)" unfolding span_def set_map set_upt
    by (intro image_eqI [where x = "nat (snd k - snd p)"]) auto
qed

lemma span_append: "0 \<le> a \<Longrightarrow> 0 \<le> b \<Longrightarrow> span p (a + b) = span p a @ span (ptr_add p a) b"
  by (rule nth_equalityI) (auto simp: span_def ptr_add_def nth_append nat_add_distrib)

lemma distinct_span: "distinct (span p n)"
  by (auto simp: span_def distinct_map inj_on_def ptr_add_def)

lemma mem_write_writes: "writes (span p (int (length bs))) bs s (mem_write p bs s)"
proof -
  have "map (byt (mem_write p bs s)) (span p (int (length bs))) = bs"
    by (rule nth_equalityI) (auto simp: span_def byt_def mem_write_def ptr_add_def)
  moreover have "byt (mem_write p bs s) k = byt s k" if "k \<notin> set (span p (int (length bs)))" for k
    using that unfolding span_mem by (auto simp: byt_def mem_write_def)
  ultimately show ?thesis by (simp add: writes_def)
qed

lemma mem_copy_write: "0 \<le> n \<Longrightarrow> mem_copy d a n s = mem_write d (read_bytes a n s) s"
  unfolding mem_copy_def mem_write_def
  by (intro arg_cong [of _ _ "\<lambda>f. s\<lparr>p_bytes := f\<rparr>"] ext) (auto simp: read_bytes_def bytes_nth)

lemma mem_copy_writes: "0 \<le> n \<Longrightarrow> writes (span d n) (read_bytes a n s) s (mem_copy d a n s)"
  using mem_write_writes [of d "read_bytes a n s" s] by (simp add: mem_copy_write)

section \<open>Copying out of and into a buffer\<close>

lemma pbuf_copy_partial_loop_spec:
  "chain s p xs \<Longrightarrow> lens_ok s xs \<Longrightarrow> 0 \<le> n \<Longrightarrow> n \<le> 65535 \<Longrightarrow> 0 \<le> off \<Longrightarrow> off \<le> 65535 \<Longrightarrow>
     pbuf_copy_partial_loop p n off out s = Some (out @ take (nat n) (drop (nat off) (data s xs)))"
proof (induction xs arbitrary: p n off out)
  case Nil
  then show ?case by (simp add: pbuf_copy_partial_loop.simps [of None])
next
  case (Cons x xs)
  have x: "p = Some x" "chain s (pb_next (p_pbufs s x)) xs" "lens_ok s xs" "0 \<le> pb_len (p_pbufs s x)"
    "pb_len (p_pbufs s x) \<le> 65535"
    using Cons.prems tot_nonneg [of s xs] by auto
  let ?l = "pb_len (p_pbufs s x)"
  show ?case
  proof (cases "n = 0")
    case True
    then show ?thesis by (simp add: pbuf_copy_partial_loop.simps [of p])
  next
    case n: False
    show ?thesis
    proof (cases "off \<noteq> 0 \<and> off \<ge> ?l")
      case True
      have "c_u16 (off - ?l) = off - ?l" using True Cons.prems x(4) by (simp add: c_conv)
      moreover have "nat ?l \<le> nat off" using True by (intro nat_mono) simp
      then have "drop (nat off) (data s (x # xs)) = drop (nat (off - ?l)) (data s xs)"
        using True x(4) by (simp add: nat_diff_distrib)
      ultimately show ?thesis using True n x Cons.IH [OF x(2,3), of n "off - ?l" out] Cons.prems
        by (simp add: pbuf_copy_partial_loop.simps [of "Some x"] Let_def)
    next
      case False
      then have o: "off \<le> ?l" "0 \<le> ?l - off" using x(4) by auto
      let ?c = "if ?l - off > n then n else ?l - off"
      have c: "c_u16 (?l - off) = ?l - off" "c_u16 (n - ?c) = n - ?c" "0 \<le> ?c"
        using o x Cons.prems by (auto simp: c_u16_id)
      have read: "read_bytes (ptr_add (pb_payload (p_pbufs s x)) off) ?c s = take (nat ?c) (drop (nat off) (pb_data s x))"
        using span_sub [of off ?c ?l "pb_payload (p_pbufs s x)"] o c(3) Cons.prems(5)
        by (simp add: read_span pb_data_addrs pb_addrs_def take_map drop_map)
      have "pbuf_copy_partial_loop p n off out s =
          pbuf_copy_partial_loop (pb_next (p_pbufs s x)) (n - ?c) 0 (out @ take (nat ?c) (drop (nat off) (pb_data s x))) s"
        using n False x(1) c read by (subst pbuf_copy_partial_loop.simps) (simp only: option.case if_True if_False Let_def simp_thms)
      also have "\<dots> = Some ((out @ take (nat ?c) (drop (nat off) (pb_data s x))) @ take (nat (n - ?c)) (drop (nat 0) (data s xs)))"
        using Cons.prems c(3) by (intro Cons.IH [OF x(2,3)]) auto
      finally have "pbuf_copy_partial_loop p n off out s =
          Some (out @ (take (nat ?c) (drop (nat off) (pb_data s x)) @ take (nat (n - ?c)) (data s xs)))" by simp
      moreover have "take (nat ?c) (drop (nat off) (pb_data s x)) @ take (nat (n - ?c)) (data s xs) =
          take (nat n) (drop (nat off) (data s (x # xs)))"
        using o Cons.prems(3,5) by (auto simp: nat_diff_distrib)
      ultimately show ?thesis by simp
    qed
  qed
qed

lemma pbuf_take_loop_spec:
  "chain s p xs \<Longrightarrow> lens_ok s xs \<Longrightarrow> distinct (addrs s xs) \<Longrightarrow> 0 \<le> n \<Longrightarrow> n \<le> tot s xs \<Longrightarrow> 0 \<le> c \<Longrightarrow> c + n \<le> 65535 \<Longrightarrow>
     c + n \<le> int (length bs) \<Longrightarrow>
     \<exists>s'. pbuf_take_loop p n c bs s = Some s' \<and> writes (take (nat n) (addrs s xs)) (take (nat n) (drop (nat c) bs)) s s'"
proof (induction xs arbitrary: p n c s)
  case Nil
  then have "n = 0" by simp
  with Nil show ?case by (intro exI [of _ s]) (simp add: pbuf_take_loop.simps [of p 0] pbuf_take_loop.simps [of None 0] writes_Nil)
next
  case (Cons x xs)
  have x: "p = Some x" "chain s (pb_next (p_pbufs s x)) xs" "lens_ok s xs" "0 \<le> pb_len (p_pbufs s x)"
    "distinct (addrs s xs)" "set (pb_addrs s x) \<inter> set (addrs s xs) = {}"
    using Cons.prems by auto
  let ?l = "pb_len (p_pbufs s x)"
  show ?case
  proof (cases "n = 0")
    case True
    then show ?thesis by (intro exI [of _ s]) (simp add: pbuf_take_loop.simps [of p 0] pbuf_take_loop.simps [of None 0] writes_Nil)
  next
    case n: False
    let ?k = "if n > ?l then ?l else n"
    let ?b = "take (nat ?k) (drop (nat c) bs)"
    let ?s = "mem_write (pb_payload (p_pbufs s x)) ?b s"
    have k: "0 \<le> ?k" "?k \<le> n" "?k \<le> ?l" using n Cons.prems(4) x(4) by auto
    have lb: "int (length ?b) = ?k" using k Cons.prems(6-8) by auto
    have cc: "c_u16 (n - ?k) = n - ?k" "c_u16 (c + ?k) = c + ?k" using k Cons.prems by (auto simp: c_u16_id)
    have w: "writes (take (nat ?k) (pb_addrs s x)) ?b s ?s"
      using mem_write_writes [of "pb_payload (p_pbufs s x)" ?b s] span_sub [of 0 ?k ?l "pb_payload (p_pbufs s x)"] k
      unfolding lb by (simp add: pb_addrs_def ptr_add_def)
    have fr: "addrs ?s xs = addrs s xs" "chain ?s (pb_next (p_pbufs s x)) xs" "lens_ok ?s xs" "tot ?s xs = tot s xs"
      using writes_addrs [OF w] x(2,3) chain_cong [of xs ?s s] lens_ok_cong [of xs ?s s] tot_cong [of xs ?s s] by auto
    have "0 \<le> n - ?k" "n - ?k \<le> tot s xs" "0 \<le> c + ?k" "c + ?k + (n - ?k) \<le> 65535" "c + ?k + (n - ?k) \<le> int (length bs)"
      using k Cons.prems(5-8) tot_nonneg [OF x(3)] by auto
    then obtain s' where s': "pbuf_take_loop (pb_next (p_pbufs s x)) (n - ?k) (c + ?k) bs ?s = Some s'"
      "writes (take (nat (n - ?k)) (addrs s xs)) (take (nat (n - ?k)) (drop (nat (c + ?k)) bs)) ?s s'"
      using Cons.IH [OF fr(2,3), of "n - ?k" "c + ?k"] fr x(5) by auto
    have "pbuf_take_loop p n c bs s = Some s'"
      using n x(1) s'(1) cc by (subst pbuf_take_loop.simps) (simp add: Let_def)
    moreover have "writes (take (nat ?k) (pb_addrs s x) @ take (nat (n - ?k)) (addrs s xs))
        (?b @ take (nat (n - ?k)) (drop (nat (c + ?k)) bs)) s s'"
      by (rule writes_append [OF w s'(2)]) (use x(6) in \<open>auto dest: in_set_takeD\<close>)
    moreover have "take (nat ?k) (pb_addrs s x) @ take (nat (n - ?k)) (addrs s xs) = take (nat n) (addrs s (x # xs))"
      using x(4) Cons.prems(4) by (auto simp: nat_diff_distrib)
    moreover have "?b @ take (nat (n - ?k)) (drop (nat (c + ?k)) bs) = take (nat n) (drop (nat c) bs)"
    proof -
      have "nat (c + ?k) = nat c + nat ?k" "nat n = nat ?k + nat (n - ?k)" using k Cons.prems(6) by auto
      then show ?thesis by (simp only: take_add drop_drop add.commute)
    qed
    ultimately show ?thesis by auto
  qed
qed

section \<open>Copying between chains\<close>

text \<open>The position behind the bytes copied: the rest of the chain and the offset into it.\<close>

definition adv :: "pstate \<Rightarrow> ptr list \<Rightarrow> int \<Rightarrow> ptr list \<times> int" where
  "adv s xs n = (if n = pb_len (p_pbufs s (hd xs)) then (tl xs, 0) else (xs, n))"

definition first :: "ptr list \<Rightarrow> ptr option" where
  "first xs = (case xs of [] \<Rightarrow> None | x # _ \<Rightarrow> Some x)"

lemma first_simps [simp]: "first [] = None" "first (x # xs) = Some x" "first xs = None \<longleftrightarrow> xs = []"
  by (auto simp: first_def split: list.split)

lemma chain_first: "chain s p xs \<Longrightarrow> p = first xs"
  by (cases xs) auto

definition no_empty :: "pstate \<Rightarrow> ptr list \<Rightarrow> bool" where
  "no_empty s xs \<longleftrightarrow> (\<forall>x\<in>set xs. 0 < pb_len (p_pbufs s x))"

lemma adv_spec:
  assumes "chain s (Some x) (x # xs)" "lens_ok s (x # xs)" "no_empty s (x # xs)" "0 \<le> n" "n \<le> pb_len (p_pbufs s x)"
    "adv s (x # xs) n = (ys, m)"
  shows "drop (nat m) (addrs s ys) = drop (nat n) (addrs s (x # xs))" "tot s ys - m = tot s (x # xs) - n"
    "chain s (first ys) ys" "lens_ok s ys" "no_empty s ys" "0 \<le> m" "ys \<noteq> [] \<longrightarrow> m < pb_len (p_pbufs s (hd ys))"
    "set (addrs s ys) \<subseteq> set (addrs s (x # xs))" "distinct (addrs s (x # xs)) \<longrightarrow> distinct (addrs s ys)"
    "first ys = (if n = pb_len (p_pbufs s x) then pb_next (p_pbufs s x) else Some x)"
    "m = (if n = pb_len (p_pbufs s x) then 0 else n)"
proof -
  have ch: "chain s (pb_next (p_pbufs s x)) xs" using assms(1) by simp
  note f = chain_first [OF ch]
  show "drop (nat m) (addrs s ys) = drop (nat n) (addrs s (x # xs))" "tot s ys - m = tot s (x # xs) - n"
    "chain s (first ys) ys" "lens_ok s ys" "no_empty s ys" "0 \<le> m" "set (addrs s ys) \<subseteq> set (addrs s (x # xs))"
    "distinct (addrs s (x # xs)) \<longrightarrow> distinct (addrs s ys)"
    "first ys = (if n = pb_len (p_pbufs s x) then pb_next (p_pbufs s x) else Some x)"
    "m = (if n = pb_len (p_pbufs s x) then 0 else n)"
    using assms(2-6) ch f by (auto simp: adv_def no_empty_def split: if_splits)
  show "ys \<noteq> [] \<longrightarrow> m < pb_len (p_pbufs s (hd ys))"
    using assms(2-6) by (cases xs) (auto simp: adv_def no_empty_def split: if_splits)
qed

lemma not_queue:
  "chain s (first xs) xs \<Longrightarrow> lens_ok s xs \<Longrightarrow> no_empty s xs \<Longrightarrow>
     \<not> (case first xs of None \<Rightarrow> False
        | Some x \<Rightarrow> pb_len (p_pbufs s x) = pb_tot_len (p_pbufs s x) \<and> pb_next (p_pbufs s x) \<noteq> None)"
proof (cases xs)
  case (Cons x ys)
  assume a: "chain s (first xs) xs" "lens_ok s xs" "no_empty s xs"
  show ?thesis
  proof (cases ys)
    case Nil
    with a Cons show ?thesis by simp
  next
    case (Cons y zs)
    with a \<open>xs = x # ys\<close> tot_nonneg [of s zs] show ?thesis by (auto simp: no_empty_def)
  qed
qed simp

lemma pbuf_copy_step:
  fixes lt lf :: int
  assumes "lt = pb_len (p_pbufs s t)" "lf = pb_len (p_pbufs s f)"
    and "n = (if lt - ot \<ge> lf - oo then lf - oo else lt - ot)"
    and "c_u16 n = n" "c_u16 (ot + n) = ot + n" "c_u16 (oo + n) = oo + n"
    and "s1 = mem_copy (ptr_add (pb_payload (p_pbufs s t)) ot) (ptr_add (pb_payload (p_pbufs s f)) oo) n s"
    and "pf = (if oo + n = lf then pb_next (p_pbufs s f) else Some f)" "oo' = (if oo + n = lf then 0 else oo + n)"
    and "pt = (if ot + n = lt then pb_next (p_pbufs s t) else Some t)" "ot' = (if ot + n = lt then 0 else ot + n)"
    and "pf \<noteq> None \<longrightarrow> pt \<noteq> None"
    and "\<not> (case pf of None \<Rightarrow> False
        | Some x \<Rightarrow> pb_len (p_pbufs s x) = pb_tot_len (p_pbufs s x) \<and> pb_next (p_pbufs s x) \<noteq> None)"
    and "\<not> (case pt of None \<Rightarrow> False
        | Some x \<Rightarrow> pb_len (p_pbufs s x) = pb_tot_len (p_pbufs s x) \<and> pb_next (p_pbufs s x) \<noteq> None)"
  shows "pbuf_copy_loop (Some t) (Some f) ot oo s =
    (if pf = None then Some (ERR_OK, s1) else pbuf_copy_loop pt pf ot' oo' s1)"
proof -
  have len: "(if lt - ot \<ge> lf - oo then c_u16 (lf - oo) else c_u16 (lt - ot)) = n"
    using assms(3,4) by auto
  have e: "p_pbufs s1 = p_pbufs s" by (simp add: assms(7))
  have ge: "(oo + n \<ge> lf) = (oo + n = lf)" using assms(3) by auto
  have f: "(if oo + n = lf then (pb_next (p_pbufs s f), 0) else (Some f, oo + n)) = (pf, oo')"
    using assms(8,9) by simp
  have t: "(if ot + n = lt then (pb_next (p_pbufs s t), 0, True) else (Some t, ot + n, False)) = (pt, ot', ot + n = lt)"
    using assms(10,11) by simp
  have bad: "(ot + n = lt \<and> \<not> (pt \<noteq> None \<or> pf = None)) = False" using assms(12) by auto
  show ?thesis
    unfolding pbuf_copy_loop.simps [of "Some t" "Some f"] prod.case option.case Let_def
      assms(1) [symmetric] assms(2) [symmetric] len assms(5,6) assms(7) [symmetric] ge f t bad if_False e
      if_not_P [OF assms(13)] if_not_P [OF assms(14)] by simp
qed

lemma pbuf_copy_loop_spec:
  "chain s (first ts) ts \<Longrightarrow> lens_ok s ts \<Longrightarrow> no_empty s ts \<Longrightarrow> chain s (first fs) fs \<Longrightarrow> lens_ok s fs \<Longrightarrow> no_empty s fs \<Longrightarrow>
     ts \<noteq> [] \<Longrightarrow> fs \<noteq> [] \<Longrightarrow> 0 \<le> ot \<Longrightarrow> ot < pb_len (p_pbufs s (hd ts)) \<Longrightarrow> 0 \<le> oo \<Longrightarrow> oo < pb_len (p_pbufs s (hd fs)) \<Longrightarrow>
     tot s fs - oo \<le> tot s ts - ot \<Longrightarrow> distinct (addrs s ts) \<Longrightarrow> set (addrs s fs) \<inter> set (addrs s ts) = {} \<Longrightarrow>
     \<exists>s'. pbuf_copy_loop (first ts) (first fs) ot oo s = Some (ERR_OK, s') \<and>
       writes (take (nat (tot s fs - oo)) (drop (nat ot) (addrs s ts))) (drop (nat oo) (data s fs)) s s'"
proof (induction "length ts + length fs + nat (tot s fs - oo)" arbitrary: ts fs ot oo s rule: less_induct)
  case less
  note P = less.prems
  obtain t ts' f fs' where tf: "ts = t # ts'" "fs = f # fs'" using P(7,8) by (cases ts; cases fs) auto
  let ?lt = "pb_len (p_pbufs s t)" and ?lf = "pb_len (p_pbufs s f)"
  define n where "n = (if ?lt - ot \<ge> ?lf - oo then ?lf - oo else ?lt - ot)"
  have n: "0 < n" "ot + n \<le> ?lt" "oo + n \<le> ?lf" "ot + n = ?lt \<or> oo + n = ?lf"
    using P(10,12) tf by (auto simp: n_def)
  have l16: "?lt \<le> 65535" "?lf \<le> 65535" using P(2,5) tf tot_nonneg [of s ts'] tot_nonneg [of s fs'] by auto
  have c: "c_u16 n = n" "c_u16 (ot + n) = ot + n" "c_u16 (oo + n) = oo + n"
    using n l16 P(9,11) by (auto simp: c_u16_id)
  let ?d = "ptr_add (pb_payload (p_pbufs s t)) ot" and ?a = "ptr_add (pb_payload (p_pbufs s f)) oo"
  define s1 where "s1 = mem_copy ?d ?a n s"
  obtain ts2 ot2 where at: "adv s ts (ot + n) = (ts2, ot2)" by fastforce
  obtain fs2 oo2 where af: "adv s fs (oo + n) = (fs2, oo2)" by fastforce
  have T: "chain s (Some t) (t # ts')" "lens_ok s (t # ts')" "no_empty s (t # ts')" "0 \<le> ot + n" "ot + n \<le> ?lt"
    "adv s (t # ts') (ot + n) = (ts2, ot2)" using P(1-3,9) tf n at by auto
  have F: "chain s (Some f) (f # fs')" "lens_ok s (f # fs')" "no_empty s (f # fs')" "0 \<le> oo + n" "oo + n \<le> ?lf"
    "adv s (f # fs') (oo + n) = (fs2, oo2)" using P(4-6,11) tf n af by auto
  note At = adv_spec [OF T] and Af = adv_spec [OF F]
  have pos: "0 < tot s fs2 - oo2" if "fs2 \<noteq> []"
    using that Af(4,7) tot_nonneg [of s "tl fs2"] by (cases fs2) auto
  have room: "tot s fs2 - oo2 \<le> tot s ts2 - ot2" using At(2) Af(2) P(13) tf by simp
  have ne: "fs2 \<noteq> [] \<longrightarrow> ts2 \<noteq> []" using pos room At(6) by fastforce
  have wn: "writes (span ?d n) (read_bytes ?a n s) s s1" unfolding s1_def using n by (intro mem_copy_writes) simp
  have sp: "span ?d n = take (nat n) (drop (nat ot) (addrs s ts))"
    using span_sub [of ot n ?lt "pb_payload (p_pbufs s t)"] n P(9) by (simp add: tf pb_addrs_def)
  have rd: "read_bytes ?a n s = take (nat n) (drop (nat oo) (data s fs))"
    using span_sub [of oo n ?lf "pb_payload (p_pbufs s f)"] n P(11)
    by (simp add: tf read_span pb_addrs_def pb_data_addrs take_map drop_map flip: span_sub)
  have step: "pbuf_copy_loop (first ts) (first fs) ot oo s =
    (if first fs2 = None then Some (ERR_OK, s1) else pbuf_copy_loop (first ts2) (first fs2) ot2 oo2 s1)"
    unfolding tf first_simps(2)
    by (rule pbuf_copy_step [OF refl refl n_def c s1_def Af(10,11) At(10,11) _ not_queue [OF Af(3-5)] not_queue [OF At(3-5)]])
      (use ne in simp)
  have dt: "drop (nat ot2) (addrs s ts2) = drop (nat n) (drop (nat ot) (addrs s ts))"
    using At(1) n P(9) by (simp add: tf nat_add_distrib add.commute)
  have df: "drop (nat oo2) (data s fs2) = drop (nat n) (drop (nat oo) (data s fs))"
    using Af(1) n P(11) unfolding data_addrs drop_map by (simp add: tf nat_add_distrib add.commute)
  have m: "tot s fs - oo = n + (tot s fs2 - oo2)" using Af(2) tf by simp
  show ?case
  proof (cases "fs2 = []")
    case True
    have "oo2 = 0" using F(6) True by (auto simp: adv_def split: if_splits)
    with True m have "tot s fs - oo = n" by simp
    have "drop (nat n) (drop (nat oo) (data s fs)) = []" using df True by simp
    then have "take (nat n) (drop (nat oo) (data s fs)) = drop (nat oo) (data s fs)" by (metis append_Nil2 append_take_drop_id)
    with True step wn show ?thesis unfolding sp rd \<open>tot s fs - oo = n\<close> by (intro exI [of _ s1]) simp
  next
    case False
    have disj: "set (addrs s fs2) \<inter> set (span ?d n) = {}"
      using P(15) Af(8) tf unfolding sp by (auto dest!: in_set_takeD in_set_dropD)
    have same: "addrs s1 xs = addrs s xs" "p_pbufs s1 = p_pbufs s" "tot s1 xs = tot s xs" for xs
      using writes_addrs [OF wn] tot_cong [of xs s1 s] by (simp_all add: s1_def)
    have d2: "data s1 fs2 = data s fs2" using writes_data_other [OF wn disj] .
    have "chain s1 q xs = chain s q xs" "lens_ok s1 xs = lens_ok s xs" "no_empty s1 xs = no_empty s xs" for q xs
      using chain_cong [of xs s1 s] lens_ok_cong [of xs s1 s] same(2) by (auto simp: no_empty_def)
    note same = same this
    have less: "length ts2 + length fs2 + nat (tot s1 fs2 - oo2) < length ts + length fs + nat (tot s fs - oo)"
    proof -
      have "length ts2 \<le> length ts" "length fs2 \<le> length fs"
        using at af tf by (auto simp: adv_def split: if_splits)
      moreover have "nat (tot s1 fs2 - oo2) < nat (tot s fs - oo)" using m n(1) pos [OF False] same(3) by simp
      ultimately show ?thesis by linarith
    qed
    have "\<exists>s'. pbuf_copy_loop (first ts2) (first fs2) ot2 oo2 s1 = Some (ERR_OK, s') \<and>
       writes (take (nat (tot s1 fs2 - oo2)) (drop (nat ot2) (addrs s1 ts2))) (drop (nat oo2) (data s1 fs2)) s1 s'"
    proof (rule less.hyps [OF less])
      show "set (addrs s1 fs2) \<inter> set (addrs s1 ts2) = {}" using P(15) At(8) Af(8) tf same(1) by auto
      show "distinct (addrs s1 ts2)" using At(9) P(14) tf same(1) by simp
    qed (use At Af ne False room same in auto)
    then obtain s' where s': "pbuf_copy_loop (first ts2) (first fs2) ot2 oo2 s1 = Some (ERR_OK, s')"
      "writes (take (nat (tot s fs2 - oo2)) (drop (nat ot2) (addrs s ts2))) (drop (nat oo2) (data s fs2)) s1 s'"
      using same(1,3) d2 by auto
    let ?A = "drop (nat ot) (addrs s ts)" and ?B = "drop (nat oo) (data s fs)"
    have "distinct ?A" using P(14) by simp
    then have "set (take (nat n) ?A) \<inter> set (drop (nat n) ?A) = {}"
      by (metis append_take_drop_id distinct_append)
    then have "writes (take (nat n) ?A @ take (nat (tot s fs2 - oo2)) (drop (nat n) ?A))
        ?B s s'"
      using writes_append [OF wn [unfolded sp rd] s'(2) [unfolded dt df]] unfolding append_take_drop_id
      by (meson disjoint_iff in_set_takeD)
    moreover have "nat (tot s fs - oo) = nat n + nat (tot s fs2 - oo2)" using m n(1) pos [OF False] by simp
    ultimately have "writes (take (nat (tot s fs - oo)) ?A) ?B s s'" by (simp only: take_add)
    with step s'(1) False show ?thesis by auto
  qed
qed

end
