(* ===== verification/PbufProps.thy ===== *)
theory PbufProps
  imports PbufOps "HOL-Library.Sublist"
begin

text \<open>
  The properties of the packet buffers and their witnesses, on the lemmas of \<open>PbufChain\<close> and
  \<open>PbufOps\<close>: allocation, reference counts, headers, concatenation, shortening, copying and search.
\<close>

section \<open>Where a pbuf is stored, and its release\<close>

fun home :: "ptr \<Rightarrow> (memp_t \<times> nat) option" where
  "home (RPool i, _) = Some (MEMP_PBUF_POOL, i)"
| "home (RPbuf i, _) = Some (MEMP_PBUF, i)"
| "home (_, _) = None"

definition ids :: "memp_t \<Rightarrow> ptr list \<Rightarrow> nat list" where
  "ids t xs = List.map_filter (\<lambda>x. case home x of Some (u, i) \<Rightarrow> if u = t then Some i else None | None \<Rightarrow> None) xs"

lemma ids_simps [simp]:
  "ids t [] = []"
  "ids t (x # xs) = (case home x of Some (u, i) \<Rightarrow> if u = t then i # ids t xs else ids t xs | None \<Rightarrow> ids t xs)"
  "ids t (xs @ ys) = ids t xs @ ids t ys"
  by (auto simp: ids_def List.map_filter_def split: option.split)

text \<open>Pbufs that may be released: allocated blocks of the heap, allocated elements of the pools.\<close>

definition owned :: "pstate \<Rightarrow> ptr list \<Rightarrow> bool" where
  "owned s xs \<longleftrightarrow> heap_ok (p_heap s) \<and>
     (\<forall>x\<in>set xs. fst x = RHeap \<longrightarrow> (\<exists>sz. live (p_heap s) (snd x) sz)) \<and>
     (\<forall>t. \<exists>fs. free_list t (p_pools s) fs \<and> set fs \<inter> set (ids t xs) = {} \<and> set (ids t xs) \<subseteq> {..<memp_num t} \<and>
        distinct (ids t xs))"

lemma give_back_eq:
  "p_heap (give_back x s) = (if fst x = RHeap then mem_free (Some (snd x)) (p_heap s) else p_heap s)"
  "p_pools (give_back x s) = (case home x of Some (t, i) \<Rightarrow> memp_free t (Some i) (p_pools s) | None \<Rightarrow> p_pools s)"
  by (cases x rule: home.cases; simp add: give_back_def)+

lemma give_back_live:
  assumes "heap_ok (p_heap s)" "fst x = RHeap \<longrightarrow> (\<exists>sz. live (p_heap s) (snd x) sz)"
  shows "heap_ok (p_heap (give_back x s))"
    "live (p_heap (give_back x s)) a sz \<longleftrightarrow> live (p_heap s) a sz \<and> \<not> (fst x = RHeap \<and> snd x = a)"
  using mem.release_region [of "p_heap s" "snd x"] assms by (auto simp: give_back_eq)

lemma release_heap:
  "heap_ok (p_heap s) \<Longrightarrow> \<forall>x\<in>set xs. fst x = RHeap \<longrightarrow> (\<exists>sz. live (p_heap s) (snd x) sz) \<Longrightarrow> distinct xs \<Longrightarrow>
     heap_ok (p_heap (fold (\<lambda>x s. give_back x (set_ref x 0 s)) xs s)) \<and>
     (\<forall>a sz. live (p_heap (fold (\<lambda>x s. give_back x (set_ref x 0 s)) xs s)) a sz \<longleftrightarrow>
        live (p_heap s) a sz \<and> (RHeap, a) \<notin> set xs)"
proof (induction xs arbitrary: s)
  case (Cons x xs)
  let ?s = "give_back x (set_ref x 0 s)"
  have g: "heap_ok (p_heap ?s)" "live (p_heap ?s) a sz \<longleftrightarrow> live (p_heap s) a sz \<and> x \<noteq> (RHeap, a)" for a sz
    using give_back_live [of "set_ref x 0 s" x] Cons.prems(1,2) by (auto simp: prod_eq_iff)
  have l: "\<forall>y\<in>set xs. fst y = RHeap \<longrightarrow> (\<exists>sz. live (p_heap ?s) (snd y) sz)"
  proof
    fix y
    assume "y \<in> set xs"
    then have "x \<noteq> y" "fst y = RHeap \<longrightarrow> (\<exists>sz. live (p_heap s) (snd y) sz)" using Cons.prems(2,3) by auto
    then show "fst y = RHeap \<longrightarrow> (\<exists>sz. live (p_heap ?s) (snd y) sz)" using g(2) by (metis prod.collapse)
  qed
  have d: "distinct xs" using Cons.prems(3) by simp
  show ?case using Cons.IH [OF g(1) l d] g(2) by auto
qed simp

lemma release_pools:
  "free_list t (p_pools s) fs \<Longrightarrow> set fs \<inter> set (ids t xs) = {} \<Longrightarrow> set (ids t xs) \<subseteq> {..<memp_num t} \<Longrightarrow>
     distinct (ids t xs) \<Longrightarrow>
     free_list t (p_pools (fold (\<lambda>x s. give_back x (set_ref x 0 s)) xs s)) (rev (ids t xs) @ fs)"
proof (induction xs arbitrary: s fs)
  case (Cons x xs)
  let ?s = "give_back x (set_ref x 0 s)"
  have p: "p_pools ?s = (case home x of Some (u, i) \<Rightarrow> memp_free u (Some i) (p_pools s) | None \<Rightarrow> p_pools s)"
    unfolding give_back_eq set_ref_simps ..
  show ?case
  proof (cases "\<exists>i. home x = Some (t, i)")
    case True
    then obtain i where i: "home x = Some (t, i)" by blast
    have "free_list t (p_pools ?s) (i # fs)" using p i free_list_free [OF Cons.prems(1), of i] Cons.prems by simp
    from Cons.IH [OF this] show ?thesis using Cons.prems i by simp
  next
    case False
    then have ids: "ids t (x # xs) = ids t xs" by (auto split: option.split)
    have "free_list t (p_pools ?s) fs"
      using p False Cons.prems(1) free_list_free_other [of t] by (auto split: option.split)
    from Cons.IH [OF this] show ?thesis using Cons.prems unfolding ids by simp
  qed
qed simp

section \<open>Properties\<close>

text \<open>C15: \<open>pbuf_free\<close> releases exactly the pbufs at the head of the chain that nobody else refers to,
  returns their number as a \<open>u8_t\<close>, lowers the reference count of the first one that stays and
  touches nothing else: the blocks of the heap that stay are those of before without the released
  ones, and the released pool elements are put in front of the free lists.\<close>
theorem pbuf_free_releases:
  assumes "chain s (Some p) xs" and "refs_ok s xs" and "owned s xs"
    and "us = takeWhile (\<lambda>x. pb_ref (p_pbufs s x) = 1) xs"
    and "vs = dropWhile (\<lambda>x. pb_ref (p_pbufs s x) = 1) xs"
    and "free_list t (p_pools s) fs" and "set fs \<inter> set (ids t xs) = {}"
  shows "\<exists>s'. pbuf_free cf (Some p) s = Some (int (length us) mod 256, s') \<and> p_bytes s' = p_bytes s \<and>
    heap_ok (p_heap s') \<and> (\<forall>a sz. live (p_heap s') a sz \<longleftrightarrow> live (p_heap s) a sz \<and> (RHeap, a) \<notin> set us) \<and>
    free_list t (p_pools s') (rev (ids t us) @ fs) \<and>
    (\<forall>x. x \<notin> set us \<longrightarrow> p_pbufs s' x = (if vs \<noteq> [] \<and> x = hd vs
       then (p_pbufs s x)\<lparr>pb_ref := pb_ref (p_pbufs s x) - 1\<rparr> else p_pbufs s x))"
proof -
  let ?s1 = "fold (\<lambda>x s. give_back x (set_ref x 0 s)) us s"
  have us: "us = sole s xs" "vs = drop (length us) xs" using assms(4,5) by (simp_all add: sole_def dropWhile_eq_drop)
  have xs: "xs = us @ vs" using assms(4,5) by simp
  then have d: "distinct us" "set us \<inter> set vs = {}" using chain_distinct [OF assms(1)] by auto
  have run: "pbuf_free cf (Some p) s = Some (int (length us) mod 256, drop_ref vs ?s1)"
    using pbuf_free_spec [OF assms(1,2), of cf] us by simp
  have o: "heap_ok (p_heap s)" "\<forall>x\<in>set us. fst x = RHeap \<longrightarrow> (\<exists>sz. live (p_heap s) (snd x) sz)"
    using assms(3) xs by (auto simp: owned_def)
  have "distinct (ids t xs)" "set (ids t xs) \<subseteq> {..<memp_num t}" using assms(3) by (auto simp: owned_def)
  then have i: "set fs \<inter> set (ids t us) = {}" "set (ids t us) \<subseteq> {..<memp_num t}" "distinct (ids t us)"
    using assms(7) xs by auto
  have "p_heap (drop_ref vs ?s1) = p_heap ?s1" "p_pools (drop_ref vs ?s1) = p_pools ?s1"
    by (auto simp: drop_ref_def split: list.split)
  moreover have "p_pbufs (drop_ref vs ?s1) x = (if vs \<noteq> [] \<and> x = hd vs
       then (p_pbufs s x)\<lparr>pb_ref := pb_ref (p_pbufs s x) - 1\<rparr> else p_pbufs s x)" if "x \<notin> set us" for x
    using that fold_give_back_frame(2) [of _ us s] d(2) by (auto simp: drop_ref_def split: list.split)
  ultimately show ?thesis
    using run release_heap [OF o d(1)] release_pools [OF assms(6) i]
    by (intro exI [of _ "drop_ref vs ?s1"]) (simp add: drop_ref_frame(1) fold_give_back_frame(1))
qed

text \<open>\<open>pbuf_alloc\<close> of \<open>PBUF_POOL\<close> is all or nothing.  With enough free elements it returns a chain
  of them whose lengths add up to the length asked for, each of reference count 1 and with its
  payload inside its own element behind the structure, the first behind the room for the headers
  of the layer; otherwise it returns \<open>NULL\<close> and all elements are free again.  Nothing else changes.\<close>
theorem pbuf_alloc_pool_all_or_nothing:
  assumes "free_list MEMP_PBUF_POOL (p_pools s) fs" and "0 \<le> n" "n \<le> 65535"
    and "\<forall>i\<in>set fs. pb_flags (p_pbufs s (RPool i, 0)) AND PBUF_FLAG_IS_CUSTOM = 0"
    and "k = Suc (pieces (n - min n (first_room l)))"
  shows "\<exists>s'. pbuf_alloc cf l n PBUF_POOL s = Some (if k \<le> length fs then Some (RPool (hd fs), 0) else None, s') \<and>
    same_mem MEMP_PBUF_POOL s s' \<and> (\<forall>x. x \<notin> (\<lambda>i. (RPool i, 0)) ` set fs \<longrightarrow> p_pbufs s' x = p_pbufs s x) \<and>
    (if k \<le> length fs
     then packet s' (Some (RPool (hd fs), 0)) (map (\<lambda>i. (RPool i, 0)) (take k fs)) \<and>
       tot s' (map (\<lambda>i. (RPool i, 0)) (take k fs)) = n \<and>
       (\<forall>i\<in>set (take k fs). pb_ref (p_pbufs s' (RPool i, 0)) = 1 \<and> own_payload s' (RPool i, 0)) \<and>
       free_list MEMP_PBUF_POOL (p_pools s') (drop k fs)
     else free_list MEMP_PBUF_POOL (p_pools s') (rev fs))"
proof -
  have e: "(\<lambda>i. (RPool i, 0)) = elt" by (simp add: elt_def fun_eq_iff)
  from pbuf_alloc_pool [OF assms(1-3) _ assms(5), of cf] assms(4) show ?thesis
    unfolding elt_def [symmetric] e Let_def by (cases "k \<le> length fs") auto
qed

text \<open>\<open>pbuf_alloc\<close> of \<open>PBUF_RAM\<close> always returns, and for at most 65400 bytes either fails and changes
  nothing or takes one new block of the heap, apart from all others, that holds the structure, the
  room for the headers and the aligned payload.\<close>
theorem pbuf_alloc_ram_region:
  assumes "heap_ok (p_heap s)" and "0 \<le> n" "n \<le> 65400"
  shows "\<exists>r s'. pbuf_alloc cf l n PBUF_RAM s = Some (r, s') \<and> heap_ok (p_heap s') \<and>
    p_pools s' = p_pools s \<and> p_bytes s' = p_bytes s \<and>
    (case r of None \<Rightarrow> s' = s
     | Some p \<Rightarrow> fst p = RHeap \<and> packet s' (Some p) [p] \<and> tot s' [p] = n \<and> pb_ref (p_pbufs s' p) = 1 \<and>
         fst (pb_payload (p_pbufs s' p)) = RHeap \<and> 4 dvd snd (pb_payload (p_pbufs s' p)) \<and>
         snd p + SIZEOF_STRUCT_PBUF + layer_offset l \<le> snd (pb_payload (p_pbufs s' p)) \<and>
         (\<forall>x. x \<noteq> p \<longrightarrow> p_pbufs s' x = p_pbufs s x) \<and>
         (\<exists>sz. live (p_heap s') (snd p) sz \<and> snd (pb_payload (p_pbufs s' p)) + n \<le> snd p + sz \<and>
           (\<forall>q t. live (p_heap s) q t \<longrightarrow> live (p_heap s') q t \<and> (snd p + sz \<le> q \<or> q + t \<le> snd p))))"
proof -
  note rs = ram_size_props [OF assms(2,3), of l]
  obtain r h where m: "mem_malloc (c_u16 (ram_size l n)) (p_heap s) = Some (r, h)" "heap_ok h"
    using mem.alloc_returns [OF assms(1)] by blast
  note eq = pbuf_alloc_ram_eq [OF m(1), of cf]
  show ?thesis
  proof (cases r)
    case None
    then have "h = p_heap s" using mem.alloc_fails [OF assms(1)] m(1) by blast
    then show ?thesis using eq None assms(1) by simp
  next
    case (Some a)
    have m': "mem_malloc (c_u16 (ram_size l n)) (p_heap s) = Some (Some a, h)" using m(1) Some by simp
    obtain sz where sz: "request_size (c_u16 (ram_size l n)) \<le> sz" "live h a sz"
      "\<And>q t. live (p_heap s) q t \<Longrightarrow> live h q t \<and> (a + sz \<le> q \<or> q + t \<le> a)"
      using mem.alloc_fresh [OF assms(1) m'] by blast
    have "4 dvd a" using live_bounds [OF m(2) sz(2)] by simp
    note al = align_add [OF this, of "SIZEOF_STRUCT_PBUF + layer_offset l"]
    have "4 dvd LWIP_MEM_ALIGN_SIZE (SIZEOF_STRUCT_PBUF + layer_offset l)" by (rule align_size_dvd)
    moreover have "SIZEOF_STRUCT_PBUF + layer_offset l \<le> LWIP_MEM_ALIGN_SIZE (SIZEOF_STRUCT_PBUF + layer_offset l)"
      using align_size_bounds [of "SIZEOF_STRUCT_PBUF + layer_offset l"] by (cases l) (auto simp: pbuf_consts)
    ultimately show ?thesis using eq Some sz rs m(2) al \<open>4 dvd a\<close> assms(2,3)
      by (intro exI [of _ "Some (RHeap, a)"] exI [of _ "ram_pbuf l n a h s"])
        (auto simp: ram_pbuf_def packet_def add.assoc intro!: exI [of _ sz])
  qed
qed

text \<open>\<open>pbuf_header\<close> on a pbuf of the heap or the pool moves the payload and both lengths together
  and refuses to move it into the structure; hiding what was uncovered (or the reverse) restores
  the state exactly.  A pbuf of another type cannot grow.\<close>
theorem pbuf_header_roundtrip:
  assumes "0 < k" "k \<le> 32767" and "0 \<le> pb_len (p_pbufs s p)" and "pb_len (p_pbufs s p) \<le> pb_tot_len (p_pbufs s p)"
    and "pb_tot_len (p_pbufs s p) + k \<le> 65535"
  shows "pbuf_header (Some p) k s =
      (if pb_type (p_pbufs s p) \<in> {PBUF_RAM, PBUF_POOL} \<and>
          snd p + SIZEOF_STRUCT_PBUF \<le> snd (pb_payload (p_pbufs s p)) - k
       then (False, upd_pbuf p (\<lambda>x. x\<lparr>pb_payload := ptr_add (pb_payload (p_pbufs s p)) (- k),
              pb_len := pb_len (p_pbufs s p) + k, pb_tot_len := pb_tot_len (p_pbufs s p) + k\<rparr>) s)
       else (True, s)) \<and>
    (\<forall>s'. pbuf_header (Some p) k s = (False, s') \<longrightarrow>
       snd p + SIZEOF_STRUCT_PBUF \<le> snd (pb_payload (p_pbufs s p)) \<longrightarrow> pbuf_header (Some p) (- k) s' = (False, s))"
proof -
  have c: "c_u16 (pb_len (p_pbufs s p) + k) = pb_len (p_pbufs s p) + k"
    "c_u16 (pb_tot_len (p_pbufs s p) + k) = pb_tot_len (p_pbufs s p) + k"
    "c_u16 (pb_len (p_pbufs s p)) = pb_len (p_pbufs s p)" "c_u16 (pb_tot_len (p_pbufs s p)) = pb_tot_len (p_pbufs s p)"
    using assms by (auto simp: c_u16_id)
  have bytes: "c_u16 k = k" using assms by (simp add: c_u16_id)
  show ?thesis
  proof (cases "pb_type (p_pbufs s p) \<in> {PBUF_RAM, PBUF_POOL}")
    case True
    then have t: "pb_type (p_pbufs s p) = PBUF_RAM \<or> pb_type (p_pbufs s p) = PBUF_POOL" by simp
    let ?s' = "upd_pbuf p (\<lambda>x. x\<lparr>pb_payload := ptr_add (pb_payload (p_pbufs s p)) (- k),
              pb_len := pb_len (p_pbufs s p) + k, pb_tot_len := pb_tot_len (p_pbufs s p) + k\<rparr>) s"
    have "upd_pbuf p (\<lambda>x. x\<lparr>pb_payload := ptr_add (pb_payload (p_pbufs s p)) (- k),
        pb_len := c_u16 (pb_len x + k), pb_tot_len := c_u16 (pb_tot_len x + k)\<rparr>) s = ?s'"
      using c by (simp add: upd_pbuf_def)
    then have g: "pbuf_header (Some p) k s =
      (if snd (pb_payload (p_pbufs s p)) - k < snd p + SIZEOF_STRUCT_PBUF then (True, s) else (False, ?s'))"
      using pbuf_header_grow [OF assms(1) t] by simp
    have sh: "pbuf_header (Some p) (- k) ?s' = (False, s)"
      if "snd p + SIZEOF_STRUCT_PBUF \<le> snd (pb_payload (p_pbufs s p))"
    proof -
      have "k \<le> 32768" using assms(2) by simp
      from pbuf_header_shrink [OF assms(1) this, of p ?s'] that t assms(3) c
      show ?thesis by (auto simp: ptr_add_def upd_pbuf_def intro!: pstate.equality pbuf.equality)
    qed
    show ?thesis using True g sh by auto
  next
    case False
    then show ?thesis using assms by (auto simp: pbuf_header_def Let_def)
  qed
qed

text \<open>\<open>pbuf_chain\<close> of two disjoint packets returns, gives the packet with the bytes of the first
  followed by those of the second and takes one more reference on the second; \<open>pbuf_dechain\<close> of a
  packet of one pbuf then restores the state of before exactly and returns the second packet.\<close>
theorem pbuf_chain_dechain:
  assumes "packet s (Some h) xs" and "packet s (Some t) ys" and "set xs \<inter> set ys = {}"
    and "tot s xs + tot s ys \<le> 65535"
    and "stored s t" and "1 \<le> pb_ref (p_pbufs s t)" and "pb_ref (p_pbufs s t) < 65535"
  shows "\<exists>s'. pbuf_chain (Some h) (Some t) s = Some s' \<and> packet s' (Some h) (xs @ ys) \<and>
    data s' (xs @ ys) = data s xs @ data s ys \<and> pb_ref (p_pbufs s' t) = pb_ref (p_pbufs s t) + 1 \<and>
    (xs = [h] \<longrightarrow> pbuf_dechain cf h s' = Some (Some t, s))"
proof -
  obtain s1 where s1: "pbuf_cat (Some h) (Some t) s = Some s1" "packet s1 (Some h) (xs @ ys)"
    "data s1 (xs @ ys) = data s xs @ data s ys" "p_heap s1 = p_heap s" "p_pools s1 = p_pools s" "p_bytes s1 = p_bytes s"
    "\<forall>x. pb_ref (p_pbufs s1 x) = pb_ref (p_pbufs s x)" "\<forall>x. x \<notin> set xs \<longrightarrow> p_pbufs s1 x = p_pbufs s x"
    using pbuf_cat_packet [OF assms(1-4)] by blast
  have th: "t \<in> set ys" "t \<notin> set xs" using assms(2,3) by (cases ys; auto simp: packet_def)+
  let ?s = "upd_pbuf t (\<lambda>x. x\<lparr>pb_ref := pb_ref (p_pbufs s t) + 1\<rparr>) s1"
  have "pb_ref (p_pbufs s1 t) = pb_ref (p_pbufs s t)" using s1(7) by blast
  then have "pbuf_ref (Some t) s1 = ?s" using assms(6,7) by (simp add: pbuf_ref_def upd_pbuf_def c_u16_id)
  then have run: "pbuf_chain (Some h) (Some t) s = Some ?s" using s1(1) by (simp add: pbuf_chain_def)
  have "packet ?s (Some h) (xs @ ys) = packet s1 (Some h) (xs @ ys)"
    unfolding packet_def using chain_cong [of "xs @ ys" ?s s1] lens_ok_cong [of "xs @ ys" ?s s1] by simp
  moreover have "data ?s (xs @ ys) = data s1 (xs @ ys)" by (rule data_cong) simp_all
  moreover have "pbuf_dechain cf h ?s = Some (Some t, s)" if xs: "xs = [h]"
  proof -
    have ht: "h \<noteq> t" using th(2) xs by simp
    have c: "chain s (Some h) [h]" "pb_tot_len (p_pbufs s h) = pb_len (p_pbufs s h)" "0 \<le> pb_len (p_pbufs s h)"
      using assms(1) xs by (auto simp: packet_def)
    have T: "pb_tot_len (p_pbufs s t) = tot s ys" "0 \<le> tot s ys"
      using assms(2) tot_nonneg by (cases ys; auto simp: packet_def)+
    have s1_eq: "s1 = upd_pbuf h (\<lambda>b. b\<lparr>pb_next := Some t\<rparr>) (add_tot [h] (tot s ys) s)"
      using pbuf_cat_spec [OF assms(1) [unfolded packet_def, THEN conjunct1], of t] th(2) s1(1) xs T by simp
    then have orig: "p_original s1 = p_original s" by simp
    from s1_eq have h1: "p_pbufs s1 h = (p_pbufs s h)\<lparr>pb_next := Some t, pb_tot_len := pb_len (p_pbufs s h) + tot s ys\<rparr>"
      using c T assms(4) xs by (simp add: c_u16_id add_tot_def)
    define s2 where "s2 = upd_pbuf h (\<lambda>x. x\<lparr>pb_tot_len := pb_len x\<rparr>) (upd_pbuf h (\<lambda>x. x\<lparr>pb_next := None\<rparr>)
      (upd_pbuf t (\<lambda>x. x\<lparr>pb_tot_len := c_u16 (pb_tot_len (p_pbufs ?s h) - pb_len (p_pbufs ?s h))\<rparr>) ?s))"
    have fr: "p_pbufs s1 t = p_pbufs s t" "x \<noteq> h \<Longrightarrow> p_pbufs s1 x = p_pbufs s x" for x
      using s1(8) xs th by (metis empty_iff empty_set set_ConsD)+
    have e: "p_pbufs s2 = (p_pbufs s)(t := (p_pbufs s t)\<lparr>pb_ref := pb_ref (p_pbufs s t) + 1\<rparr>)"
    proof
      fix x
      have "tot s ys \<le> 65535" using T assms(2) tot_bound by (auto simp: packet_def)
      then show "p_pbufs s2 x = ((p_pbufs s)(t := (p_pbufs s t)\<lparr>pb_ref := pb_ref (p_pbufs s t) + 1\<rparr>)) x"
        using ht h1 c T th by (cases "x = h"; cases "x = t") (simp_all add: s2_def c_u16_id fr)
    qed
    have "stored s2 t" using assms(5) e by (simp add: stored_def)
    then have "pbuf_free cf (Some t) s2 = Some (0, set_ref t (pb_ref (p_pbufs s t)) s2)"
      using pbuf_free_loop_step [of s2 t cf 0] e assms(6,7) by (simp add: pbuf_free_def)
    moreover have "set_ref t (pb_ref (p_pbufs s t)) s2 = s"
      using e s1(4-6) orig by (auto intro!: pstate.equality simp: s2_def)
    moreover have "pb_next (p_pbufs ?s h) = Some t" using h1 ht by simp
    ultimately show ?thesis by (simp add: pbuf_dechain_def s2_def [symmetric] Let_def del: upd_pbuf_simps)
  qed
  ultimately show ?thesis using run s1(2,3) by (intro exI [of _ ?s]) simp
qed

text \<open>\<open>pbuf_realloc\<close> to a shorter length returns a well-formed packet of exactly the first
  \<open>new_len\<close> bytes: it keeps the pbufs up to the one that holds the last byte, trims that one in the
  heap when it lies there, and frees the rest.\<close>
theorem pbuf_realloc_truncates:
  assumes "packet s (Some p) xs" and "0 \<le> n" and "refs_ok s xs"
    and "heap_ok (p_heap s)" and "\<forall>x\<in>set xs. ram_ok s x"
  shows "\<exists>s' ys. pbuf_realloc cf p n s = Some s' \<and> packet s' (Some p) ys \<and> prefix ys xs \<and>
    tot s' ys = min n (tot s xs) \<and> data s' ys = take (nat n) (data s xs)"
  using pbuf_realloc_cut [OF assms, of cf] unfolding prefix_def by blast

text \<open>\<open>pbuf_copy\<close> copies one packet over another of at least its length, however the two are cut
  into pbufs: it returns \<open>ERR_OK\<close>, the target begins with the source's bytes and keeps its own
  behind them, and the source and all structures are unchanged.  A shorter target is refused with
  \<open>ERR_ARG\<close> before anything is written.\<close>
theorem pbuf_copy_copies:
  assumes "packet s (Some t) ts" and "packet s (Some f) fs" and "no_empty s ts" and "no_empty s fs"
    and "distinct (addrs s ts)" and "set (addrs s fs) \<inter> set (addrs s ts) = {}"
  shows "\<exists>e s'. pbuf_copy (Some t) (Some f) s = Some (e, s') \<and>
    (if tot s fs \<le> tot s ts
     then e = ERR_OK \<and> data s' ts = data s fs @ drop (nat (tot s fs)) (data s ts) \<and> data s' fs = data s fs \<and>
       p_pbufs s' = p_pbufs s
     else e = ERR_ARG \<and> s' = s)"
proof -
  have c: "chain s (Some t) ts" "lens_ok s ts" "chain s (Some f) fs" "lens_ok s fs"
    using assms(1,2) by (simp_all add: packet_def)
  then have ne: "ts \<noteq> []" "fs \<noteq> []" "pb_tot_len (p_pbufs s t) = tot s ts" "pb_tot_len (p_pbufs s f) = tot s fs"
    by (cases ts; cases fs; auto)+
  have f: "Some t = first ts" "Some f = first fs" using c chain_first by auto
  show ?thesis
  proof (cases "tot s fs \<le> tot s ts")
    case True
    have p: "0 < pb_len (p_pbufs s (hd ts))" "0 < pb_len (p_pbufs s (hd fs))"
      using assms(3,4) ne by (simp_all add: no_empty_def)
    obtain s' where s': "pbuf_copy_loop (first ts) (first fs) 0 0 s = Some (ERR_OK, s')"
      "writes (take (nat (tot s fs)) (addrs s ts)) (data s fs) s s'"
      using pbuf_copy_loop_spec [of s ts fs 0 0] c f assms(3-6) ne p True by auto
    have l: "int (length (addrs s ts)) = tot s ts" by (rule length_addrs [OF c(2)])
    let ?k = "nat (tot s fs)"
    have "distinct (take ?k (addrs s ts) @ drop ?k (addrs s ts))" using assms(5) by simp
    then have "set (take ?k (addrs s ts)) \<inter> set (drop ?k (addrs s ts)) = {}" by (simp only: distinct_append)
    then have "map (byt s') (drop ?k (addrs s ts)) = map (byt s) (drop ?k (addrs s ts))"
      using s'(2) by (intro map_cong refl) (auto simp: writes_def disjoint_iff)
    moreover have "map (byt s') (take ?k (addrs s ts)) = data s fs" using s'(2) by (simp add: writes_def)
    moreover have "data s' ts = map (byt s') (take ?k (addrs s ts)) @ map (byt s') (drop ?k (addrs s ts))"
      unfolding data_addrs writes_addrs [OF s'(2)] by (metis append_take_drop_id map_append)
    ultimately have "data s' ts = data s fs @ drop ?k (data s ts)" by (simp only: data_addrs drop_map)
    moreover have "data s' fs = data s fs"
      by (rule writes_data_other [OF s'(2)]) (use assms(6) in \<open>auto dest: in_set_takeD\<close>)
    ultimately show ?thesis using True s' ne(3,4)
      by (intro exI [of _ ERR_OK] exI [of _ s']) (simp add: pbuf_copy_def writes_def f [symmetric])
  next
    case False
    then show ?thesis using ne by (simp add: pbuf_copy_def)
  qed
qed

text \<open>\<open>pbuf_take\<close> of bytes that fit stores them at the front of the packet, and
  \<open>pbuf_copy_partial\<close> reads back any range of the packet across its pbufs, cut at its end;
  \<open>pbuf_take\<close> of more than the packet holds is refused with \<open>ERR_ARG\<close>.\<close>
theorem pbuf_take_copy_partial:
  assumes "packet s (Some p) xs" and "distinct (addrs s xs)" and "int (length bs) \<le> 65535"
  shows "\<exists>e s'. pbuf_take (Some p) bs (int (length bs)) s = Some (e, s') \<and>
    (if int (length bs) \<le> tot s xs
     then e = ERR_OK \<and> packet s' (Some p) xs \<and> data s' xs = bs @ drop (length bs) (data s xs)
     else e = ERR_ARG \<and> s' = s) \<and>
    (\<forall>n off. 0 \<le> n \<and> n \<le> 65535 \<and> 0 \<le> off \<and> off \<le> 65535 \<longrightarrow>
       pbuf_copy_partial (Some p) n off s' = Some (take (nat n) (drop (nat off) (data s' xs))))"
proof -
  have c: "chain s (Some p) xs" "lens_ok s xs" "pb_tot_len (p_pbufs s p) = tot s xs"
    using assms(1) by (cases xs; auto simp: packet_def)+
  have partial: "pbuf_copy_partial (Some p) n off s1 = Some (take (nat n) (drop (nat off) (data s1 xs)))"
    if "packet s1 (Some p) xs" "0 \<le> n" "n \<le> 65535" "0 \<le> off" "off \<le> 65535" for s1 n off
    using pbuf_copy_partial_loop_spec [of s1 "Some p" xs n off "[]"] that
    by (simp add: pbuf_copy_partial_def packet_def)
  show ?thesis
  proof (cases "int (length bs) \<le> tot s xs")
    case True
    let ?k = "length bs"
    obtain s' where s': "pbuf_take_loop (Some p) (int ?k) 0 bs s = Some s'"
      "writes (take ?k (addrs s xs)) bs s s'"
      using pbuf_take_loop_spec [OF c(1,2) assms(2), of "int ?k" 0 bs] True assms(3) by auto
    have p': "packet s' (Some p) xs" using assms(1) writes_packet [OF s'(2)] by simp
    have "distinct (take ?k (addrs s xs) @ drop ?k (addrs s xs))" using assms(2) by simp
    then have "set (take ?k (addrs s xs)) \<inter> set (drop ?k (addrs s xs)) = {}" by (simp only: distinct_append)
    then have "map (byt s') (drop ?k (addrs s xs)) = map (byt s) (drop ?k (addrs s xs))"
      using s'(2) by (intro map_cong refl) (auto simp: writes_def disjoint_iff)
    moreover have "map (byt s') (take ?k (addrs s xs)) = bs" using s'(2) by (simp add: writes_def)
    moreover have "data s' xs = map (byt s') (take ?k (addrs s xs)) @ map (byt s') (drop ?k (addrs s xs))"
      unfolding data_addrs writes_addrs [OF s'(2)] by (metis append_take_drop_id map_append)
    ultimately have "data s' xs = bs @ drop ?k (data s xs)" by (simp only: data_addrs drop_map)
    then show ?thesis using True s'(1) c(3) p' partial [OF p']
      by (intro exI [of _ ERR_OK] exI [of _ s']) (simp add: pbuf_take_def)
  next
    case False
    then show ?thesis using c(3) partial [OF assms(1)] by (simp add: pbuf_take_def)
  qed
qed

text \<open>\<open>pbuf_memfind\<close> always returns, and an offset other than \<open>0xFFFF\<close> that it returns is an
  occurrence of the bytes in the packet at or behind the start offset, also across its pbufs.\<close>
theorem pbuf_memfind_sound:
  assumes "packet s (Some p) xs" and "0 < n" and "n \<le> int (length bs)" and "0 \<le> start"
  shows "\<exists>r. pbuf_memfind p bs n start s = Some r \<and>
    (r = 65535 \<or> start \<le> r \<and> r + n \<le> tot s xs \<and> take (nat n) (drop (nat r) (data s xs)) = take (nat n) bs)"
proof -
  have l: "lens_ok s xs" "pb_tot_len (p_pbufs s p) = tot s xs" using assms(1) by (cases xs; auto simp: packet_def)+
  show ?thesis
  proof (cases "n + start \<le> tot s xs")
    case True
    have c: "c_u16 (tot s xs - n) = tot s xs - n" using True assms tot_bound [OF l(1)] by (simp add: c_u16_id)
    have "start \<le> tot s xs" using True assms(2) by simp
    then obtain r where r: "pbuf_memfind_loop p bs n (tot s xs - n) start s = Some r"
      "r = 65535 \<or> start \<le> r \<and> r + n \<le> tot s xs \<and> (\<forall>j. 0 \<le> j \<and> j < n \<longrightarrow> byte_at s xs (r + j) = bs ! nat j)"
      using pbuf_memfind_loop_spec [OF assms(1,2) refl assms(4)] by blast
    have "take (nat n) (drop (nat r) (data s xs)) = take (nat n) bs"
      if h: "start \<le> r" "r + n \<le> tot s xs" "\<forall>j. 0 \<le> j \<and> j < n \<longrightarrow> byte_at s xs (r + j) = bs ! nat j"
    proof (rule nth_equalityI)
      have len: "int (length (data s xs)) = tot s xs" by (rule length_data [OF l(1)])
      then show "length (take (nat n) (drop (nat r) (data s xs))) = length (take (nat n) bs)"
        using h(1,2) assms(2-4) by simp
      fix i
      assume "i < length (take (nat n) (drop (nat r) (data s xs)))"
      then have i: "int i < n" by (simp add: zless_nat_eq_int_zless)
      then have "byte_at s xs (r + int i) = bs ! i" using h(3) by force
      then show "take (nat n) (drop (nat r) (data s xs)) ! i = take (nat n) bs ! i"
        using i h(1,2) assms(3,4) len by (simp add: byte_at_def nat_add_distrib)
    qed
    with r c True l(2) show ?thesis by (auto simp: pbuf_memfind_def)
  next
    case False
    then show ?thesis using l(2) by (simp add: pbuf_memfind_def Let_def)
  qed
qed

text \<open>\<open>pbuf_memfind\<close> can miss an occurrence: after a mismatch it goes on behind the byte that
  differed, so it does not find \<open>aab\<close> in \<open>aaab\<close>, which holds it at offset 1.\<close>
theorem pbuf_memfind_misses:
  assumes "packet s (Some p) xs" and "data s xs = [97, 97, 97, 98]"
  shows "pbuf_memfind p [97, 97, 98] 3 0 s = Some 65535 \<and> take 3 (drop 1 (data s xs)) = [97, 97, 98]"
proof -
  have l: "lens_ok s xs" "pb_tot_len (p_pbufs s p) = tot s xs" using assms(1) by (cases xs; auto simp: packet_def)+
  have t: "tot s xs = 4" using length_data [OF l(1)] assms(2) by simp
  have b: "byte_at s xs i = [97, 97, 97, 98] ! nat i" if "i < 4" for i
    using that by (simp add: byte_at_def assms(2) t)
  obtain r where r: "pbuf_memcmp (Some p) 0 [97, 97, 98] 3 s = Some r" "mismatch s xs 0 [97, 97, 98] 0 3 r"
    using pbuf_memcmp_spec [OF assms(1), of 0 3 "[97, 97, 98]"] t by auto
  have "r \<noteq> 0" using r(2) b [of 2] by (auto simp: mismatch_def)
  moreover have "r \<noteq> 1" "r \<noteq> 2" using r(2) b [of 0] b [of 1] by (auto simp: mismatch_def)
  ultimately have "r = 3" using r(2) by (auto simp: mismatch_def)
  then have "pbuf_memfind_loop p [97, 97, 98] 3 1 0 s = Some 65535"
    using r(1) by (simp add: pbuf_memfind_loop.simps [of p _ 3 1] c_u16_id)
  then show ?thesis using l(2) t assms(2) by (simp add: pbuf_memfind_def c_u16_id)
qed

text \<open>A header that is hidden or revealed, successfully or not, leaves a well-formed packet.\<close>

lemma pbuf_header_packet:
  assumes p: "packet s (Some p) xs" and k: "- 32768 \<le> k" "k \<le> 32767" "tot s xs + k \<le> 65535" and r: "pbuf_header (Some p) k s = (f, s')"
  shows "packet s' (Some p) xs \<and> tot s' xs = (if f then tot s xs else tot s xs + k)"
proof -
  obtain ys where xs: "xs = p # ys" using p by (cases xs) (auto simp: packet_def)
  have c: "chain s (Some p) xs" "lens_ok s xs" using p by (simp_all add: packet_def)
  have np: "p \<notin> set ys" using chain_distinct [OF c(1)] xs by simp
  have l: "0 \<le> pb_len (p_pbufs s p)" "pb_tot_len (p_pbufs s p) = tot s xs" "0 \<le> tot s ys" "tot s xs = pb_len (p_pbufs s p) + tot s ys"
    "p \<notin> set ys" "chain s (Some p) xs" "lens_ok s xs"
    using c np tot_nonneg [of s ys] xs by simp_all
  have "s' = s \<and> f \<or> k = 0 \<and> s' = s \<and> \<not> f \<or> \<not> f \<and> 0 \<le> pb_len (p_pbufs s p) + k \<and> s' = upd_pbuf p (\<lambda>x. x\<lparr>pb_payload := ptr_add (pb_payload (p_pbufs s p)) (- k),
      pb_len := c_u16 (pb_len x + k), pb_tot_len := c_u16 (pb_tot_len x + k)\<rparr>) s"
    using r l(1) k(1) by (auto simp: pbuf_header_def Let_def c_u16_id split: if_splits)
  then consider "s' = s" "f \<or> k = 0" | "\<not> f" "0 \<le> pb_len (p_pbufs s p) + k"
      "s' = upd_pbuf p (\<lambda>x. x\<lparr>pb_payload := ptr_add (pb_payload (p_pbufs s p)) (- k),
        pb_len := pb_len (p_pbufs s p) + k, pb_tot_len := tot s xs + k\<rparr>) s"
    using k(2,3) l(1-4) by (auto simp: c_u16_id)
  then show ?thesis
  proof cases
    case 1
    then show ?thesis using p by auto
  next
    case 2
    have "tot s' ys = tot s ys" "lens_ok s' ys = lens_ok s ys" "chain s' (Some p) xs = chain s (Some p) xs"
      using l(5) by (intro tot_cong lens_ok_cong chain_cong; auto simp: 2(3))+
    then show ?thesis using 2 l k(3) xs by (simp add: packet_def) 
  qed
qed

text \<open>C16: what \<open>pbuf.c\<close> promises of \<open>tot_len\<close>, that it is \<open>len\<close> plus the \<open>tot_len\<close> of the next pbuf and that the
  chain ends, holds again after every operation that changes the shape of a packet: headers revealed or hidden, by
  success or failure, a packet cut, and one packet behind another, as long as the sum fits into 16 bits.\<close>
theorem pbuf_shapes_well_formed:
  assumes "packet s (Some p) xs" and "refs_ok s xs" and "heap_ok (p_heap s)" and "\<forall>x\<in>set xs. ram_ok s x"
  shows "(\<forall>k f s'. - 32768 \<le> k \<and> k \<le> 32767 \<and> tot s xs + k \<le> 65535 \<and> pbuf_header (Some p) k s = (f, s') \<longrightarrow>
      packet s' (Some p) xs \<and> tot s' xs = (if f then tot s xs else tot s xs + k)) \<and>
    (\<forall>n\<ge>0. \<exists>s' ys. pbuf_realloc cf p n s = Some s' \<and> packet s' (Some p) ys \<and> prefix ys xs \<and> tot s' ys = min n (tot s xs)) \<and>
    (\<forall>t ys. packet s (Some t) ys \<and> set xs \<inter> set ys = {} \<and> tot s xs + tot s ys \<le> 65535 \<longrightarrow>
      (\<exists>s'. pbuf_cat (Some p) (Some t) s = Some s' \<and> packet s' (Some p) (xs @ ys) \<and> packet s' (Some t) ys \<and>
        tot s' (xs @ ys) = tot s xs + tot s ys))"
proof (intro conjI allI impI)
  fix k f s'
  assume "- 32768 \<le> k \<and> k \<le> 32767 \<and> tot s xs + k \<le> 65535 \<and> pbuf_header (Some p) k s = (f, s')"
  with pbuf_header_packet [OF assms(1), of k f s']
  show "packet s' (Some p) xs" "tot s' xs = (if f then tot s xs else tot s xs + k)" by blast+
next
  fix n :: int
  assume "0 \<le> n"
  with pbuf_realloc_cut [OF assms(1) _ assms(2-4), of n cf]
  show "\<exists>s' ys. pbuf_realloc cf p n s = Some s' \<and> packet s' (Some p) ys \<and> prefix ys xs \<and> tot s' ys = min n (tot s xs)"
    unfolding prefix_def by blast
next
  fix t ys
  assume a: "packet s (Some t) ys \<and> set xs \<inter> set ys = {} \<and> tot s xs + tot s ys \<le> 65535"
  then obtain s' where s': "pbuf_cat (Some p) (Some t) s = Some s'" "packet s' (Some p) (xs @ ys)" "packet s' (Some t) ys"
    "data s' (xs @ ys) = data s xs @ data s ys"
    using pbuf_cat_packet [OF assms(1), of t ys] by blast
  have "tot s' (xs @ ys) = tot s xs + tot s ys"
    using arg_cong [OF s'(4), of length] length_data [of s' "xs @ ys"] length_data [of s xs] length_data [of s ys] s'(2) assms(1) a
    by (simp only: packet_def length_append of_nat_add)
  with s' show "\<exists>s'. pbuf_cat (Some p) (Some t) s = Some s' \<and> packet s' (Some p) (xs @ ys) \<and> packet s' (Some t) ys \<and>
        tot s' (xs @ ys) = tot s xs + tot s ys" by blast
qed

text \<open>
  The size computed for \<open>PBUF_RAM\<close> is a 16-bit sum: for 65535 bytes behind transport headers it
  wraps to 72, so a fresh heap returns a block of 72 bytes as a pbuf of 65535.
\<close>

lemma pbuf_alloc_ram_wraps:
  assumes "p_heap s = mem_init r"
  shows "\<exists>s'. pbuf_alloc cf PBUF_TRANSPORT 65535 PBUF_RAM s = Some (Some (RHeap, 8), s') \<and>
    live (p_heap s') 8 72 \<and> pb_len (p_pbufs s' (RHeap, 8)) = 65535"
proof -
  have rs: "c_u16 (ram_size PBUF_TRANSPORT 65535) = 72" "request_size 72 = 72"
    by (simp_all add: ram_size_def pbuf_consts LWIP_MEM_ALIGN_SIZE_eq request_size_def c_u16_def mem_consts)
  have "alloc_blocks 72 [(0, MEM_SIZE_ALIGNED, False)] = Some (8, [(0, 80, True), (80, MEM_SIZE_ALIGNED, False)])"
    by (simp add: mem_consts)
  then obtain h where h: "mem_malloc 72 (mem_init r) = Some (Some 8, h)"
    "heap_inv h [(0, 80, True), (80, MEM_SIZE_ALIGNED, False)]"
    using mem_malloc_first_fit [OF mem_init_inv, of 72 r] rs(2) by (auto simp: MEM_SIZE_ALIGNED_def)
  have "live h 8 72" using live_iff [OF h(2), of 8 72] by (simp add: mem_consts)
  then show ?thesis using pbuf_alloc_ram_eq [of PBUF_TRANSPORT 65535 s "Some 8" h cf] h(1) rs(1) assms
    by (simp add: ram_pbuf_def)
qed

section \<open>Witnesses\<close>

text \<open>Two packets in pool elements: 0 and 1 hold \<open>aaab\<close>, 2 and 3 hold \<open>bbbbb\<close>; 17 to 19 are free.\<close>

definition demo_pb :: "ptr option \<Rightarrow> ptr \<Rightarrow> int \<Rightarrow> int \<Rightarrow> pbuf" where
  "demo_pb nxt pay sum_len l = \<lparr>pb_next = nxt, pb_payload = pay, pb_tot_len = sum_len, pb_len = l, pb_type = PBUF_POOL,
     pb_flags = 0, pb_ref = 1\<rparr>"

definition demo_pbufs :: "ptr \<Rightarrow> pbuf" where
  "demo_pbufs p =
     (if p = (RPool 0, 0) then demo_pb (Some (RPool 1, 0)) (RPool 0, 72) 4 3
      else if p = (RPool 1, 0) then demo_pb None (RPool 1, 16) 1 1
      else if p = (RPool 2, 0) then demo_pb (Some (RPool 3, 0)) (RPool 2, 16) 5 2
      else demo_pb None (RPool 3, 16) 3 3)"

definition demo_state :: pstate where
  "demo_state = \<lparr>p_heap = mem_init blank_ram,
     p_pools = \<lparr>memp_tab = (\<lambda>t. if t = MEMP_PBUF_POOL then Some 17 else None),
                memp_next = (\<lambda>t i. if i < 19 then Some (Suc i) else None)\<rparr>,
     p_pbufs = demo_pbufs, p_bytes = (\<lambda>r a. if r = RPool 0 then 97 else 98), p_original = (\<lambda>p. None)\<rparr>"

lemmas demo_simps = demo_state_def demo_pbufs_def demo_pb_def

abbreviation "demo_a \<equiv> [(RPool 0, 0), (RPool 1, 0)] :: ptr list"
abbreviation "demo_b \<equiv> [(RPool 2, 0), (RPool 3, 0)] :: ptr list"

lemma demo_packets: "packet demo_state (Some (RPool 0, 0)) demo_a" "packet demo_state (Some (RPool 2, 0)) demo_b"
  "tot demo_state demo_a = 4" "tot demo_state demo_b = 5"
  by (simp_all add: packet_def demo_simps)

lemma demo_data: "data demo_state demo_a = [97, 97, 97, 98]" "data demo_state demo_b = [98, 98, 98, 98, 98]"
  by (simp_all add: pb_data_def read_bytes_def bytes_def demo_simps upt_rec)

lemma demo_addrs: "distinct (addrs demo_state demo_b)" "set (addrs demo_state demo_a) \<inter> set (addrs demo_state demo_b) = {}"
  "no_empty demo_state demo_a" "no_empty demo_state demo_b"
  by (simp_all add: pb_addrs_def span_def ptr_add_def no_empty_def demo_simps upt_rec)

lemma demo_pool: "free_list MEMP_PBUF_POOL (p_pools demo_state) [17, 18, 19]"
  "t \<noteq> MEMP_PBUF_POOL \<Longrightarrow> free_list t (p_pools demo_state) []"
  by (simp_all add: free_list_def demo_simps)

lemma demo_heap_ok: "heap_ok (p_heap demo_state)"
  using mem_init_inv by (auto simp: heap_ok_def demo_simps)

lemma demo_refs: "refs_ok demo_state demo_a" "stored demo_state (RPool 2, 0)" "\<forall>x\<in>set demo_a. ram_ok demo_state x"
  by (simp_all add: refs_ok_def stored_def ram_ok_def demo_simps)

lemma demo_owned: "owned demo_state demo_a"
proof -
  have "\<exists>fs. free_list t (p_pools demo_state) fs \<and> set fs \<inter> set (ids t demo_a) = {} \<and>
      set (ids t demo_a) \<subseteq> {..<memp_num t} \<and> distinct (ids t demo_a)" for t
  proof (cases "t = MEMP_PBUF_POOL")
    case True
    then show ?thesis using demo_pool(1) by (intro exI [of _ "[17, 18, 19]"]) simp
  next
    case False
    then show ?thesis using demo_pool(2) by (intro exI [of _ "[]"]) simp
  qed
  then show ?thesis using demo_heap_ok by (simp add: owned_def)
qed

theorem pbuf_free_releases_witness:
  "\<exists>s'. pbuf_free (\<lambda>x s. None) (Some (RPool 0, 0)) demo_state = Some (2, s') \<and>
     free_list MEMP_PBUF_POOL (p_pools s') [1, 0, 17, 18, 19]"
  using pbuf_free_releases [OF demo_packets(1) [unfolded packet_def, THEN conjunct1] demo_refs(1) demo_owned refl refl
      demo_pool(1), of "\<lambda>x s. None"]
  by (force simp: demo_simps)

theorem pbuf_alloc_pool_all_or_nothing_witness:
  "(\<exists>s'. pbuf_alloc (\<lambda>x s. None) PBUF_TRANSPORT 600 PBUF_POOL demo_state = Some (Some (RPool 17, 0), s')) \<and>
   (\<exists>s'. pbuf_alloc (\<lambda>x s. None) PBUF_TRANSPORT 3000 PBUF_POOL demo_state = Some (None, s'))"
proof -
  have f: "\<forall>i\<in>set [17, 18, 19 :: nat]. pb_flags (p_pbufs demo_state (RPool i, 0)) AND PBUF_FLAG_IS_CUSTOM = 0"
    by (simp add: demo_simps)
  have k: "Suc (pieces (600 - min 600 (first_room PBUF_TRANSPORT))) = 2"
    "Suc (pieces (3000 - min 3000 (first_room PBUF_TRANSPORT))) = 6"
    by (simp_all add: pieces_def first_room_def LWIP_MEM_ALIGN_SIZE_eq)
  show ?thesis
    using pbuf_alloc_pool_all_or_nothing [OF demo_pool(1) _ _ f refl, of 600 "\<lambda>x s. None" PBUF_TRANSPORT]
      pbuf_alloc_pool_all_or_nothing [OF demo_pool(1) _ _ f refl, of 3000 "\<lambda>x s. None" PBUF_TRANSPORT]
    unfolding k by auto
qed

theorem pbuf_alloc_ram_region_witness:
  "\<exists>r s'. pbuf_alloc (\<lambda>x s. None) PBUF_IP 1000 PBUF_RAM demo_state = Some (r, s') \<and> heap_ok (p_heap s')"
  using pbuf_alloc_ram_region [OF demo_heap_ok, of 1000 "\<lambda>x s. None" PBUF_IP] by auto

theorem pbuf_header_roundtrip_witness:
  "\<exists>s'. pbuf_header (Some (RPool 0, 0)) 20 demo_state = (False, s') \<and>
     pbuf_header (Some (RPool 0, 0)) (- 20) s' = (False, demo_state)"
  using pbuf_header_roundtrip [of 20 demo_state "(RPool 0, 0)"] by (simp add: demo_simps pbuf_consts)

theorem pbuf_chain_dechain_witness:
  "\<exists>s'. pbuf_chain (Some (RPool 0, 0)) (Some (RPool 2, 0)) demo_state = Some s' \<and>
     data s' (demo_a @ demo_b) = [97, 97, 97, 98, 98, 98, 98, 98, 98]"
  using pbuf_chain_dechain [OF demo_packets(1,2) _ _ demo_refs(2)] demo_packets(3,4)
  unfolding demo_data by (force simp: demo_simps simp del: data_simps)

theorem pbuf_realloc_truncates_witness:
  "\<exists>s' ys. pbuf_realloc (\<lambda>x s. None) (RPool 0, 0) 2 demo_state = Some s' \<and> data s' ys = [97, 97]"
  using pbuf_realloc_truncates [OF demo_packets(1) _ demo_refs(1) demo_heap_ok demo_refs(3), of 2 "\<lambda>x s. None"]
  unfolding demo_data by (auto simp del: data_simps)

theorem pbuf_copy_copies_witness:
  "\<exists>s'. pbuf_copy (Some (RPool 2, 0)) (Some (RPool 0, 0)) demo_state = Some (ERR_OK, s') \<and>
     data s' demo_b = [97, 97, 97, 98, 98]"
  using pbuf_copy_copies [OF demo_packets(2,1) demo_addrs(4,3,1,2)]
  unfolding demo_packets(3,4) demo_data by (auto simp del: data_simps)

theorem pbuf_take_copy_partial_witness:
  "\<exists>s'. pbuf_take (Some (RPool 2, 0)) [1, 2, 3] 3 demo_state = Some (ERR_OK, s') \<and>
     pbuf_copy_partial (Some (RPool 2, 0)) 3 1 s' = Some [2, 3, 98]"
  using pbuf_take_copy_partial [OF demo_packets(2) demo_addrs(1), of "[1, 2, 3]"]
  unfolding demo_packets(4) demo_data by (auto simp del: data_simps)

theorem pbuf_memfind_sound_witness:
  "\<exists>r. pbuf_memfind (RPool 0, 0) [97, 98] 2 2 demo_state = Some r"
  using pbuf_memfind_sound [OF demo_packets(1), of 2 "[97, 98]" 2] by auto

theorem pbuf_memfind_misses_witness:
  "pbuf_memfind (RPool 0, 0) [97, 97, 98] 3 0 demo_state = Some 65535"
  using pbuf_memfind_misses [OF demo_packets(1) demo_data(1)] by simp

theorem pbuf_shapes_well_formed_witness:
  "(\<exists>s'. pbuf_header (Some (RPool 0, 0)) (- 2) demo_state = (False, s') \<and> packet s' (Some (RPool 0, 0)) demo_a \<and> tot s' demo_a = 2) \<and>
   (\<exists>s'. pbuf_cat (Some (RPool 0, 0)) (Some (RPool 2, 0)) demo_state = Some s' \<and> packet s' (Some (RPool 0, 0)) (demo_a @ demo_b))"
proof -
  note w = pbuf_shapes_well_formed [OF demo_packets(1) demo_refs(1) demo_heap_ok demo_refs(3), of "\<lambda>x s. None"]
  have h: "\<exists>s'. pbuf_header (Some (RPool 0, 0)) (- 2) demo_state = (False, s')"
    by (simp add: pbuf_header_shrink demo_simps SIZEOF_STRUCT_PBUF_def)
  then show ?thesis using w demo_packets by fastforce
qed

end
