(* ===== verification/EtharpProps.thy ===== *)
theory EtharpProps
  imports Etharp PbufProps
begin

text \<open>
  The ARP table: its invariant and the preservation of it by every operation, the choice of
  \<open>etharp_find_entry\<close>, the expiry of entries, and the frames sent for known addresses and in
  answer to requests.
\<close>

declare split_paired_All [simp del] split_paired_Ex [simp del]

section \<open>The invariant of the table\<close>

definition used :: "etharp_entry \<Rightarrow> bool" where
  "used e \<longleftrightarrow> ae_state e \<noteq> ETHARP_STATE_EMPTY"

definition lifetime :: "etharp_entry \<Rightarrow> int" where
  "lifetime e = (if ae_state e = ETHARP_STATE_PENDING then ARP_MAXPENDING else ARP_MAXAGE)"

definition entry_ok :: "etharp_entry \<Rightarrow> bool" where
  "entry_ok e \<longleftrightarrow> (ae_q e \<noteq> None \<longrightarrow> ae_state e = ETHARP_STATE_PENDING) \<and>
     (used e \<longrightarrow> 0 \<le> ae_ctime e \<and> ae_ctime e < lifetime e)"

text \<open>Every entry is well formed, and no two entries in use have the same address.\<close>

definition arp_ok :: "etharp_entry list \<Rightarrow> bool" where
  "arp_ok es \<longleftrightarrow> length es = ARP_TABLE_SIZE \<and> (\<forall>e\<in>set es. entry_ok e) \<and>
     (\<forall>i j. i < ARP_TABLE_SIZE \<and> j < ARP_TABLE_SIZE \<and> i \<noteq> j \<and> used (es ! i) \<and> used (es ! j) \<longrightarrow>
        ae_ipaddr (es ! i) \<noteq> ae_ipaddr (es ! j))"

text \<open>Entry \<open>i\<close> is the only one that may be in use for the address \<open>a\<close>.\<close>

definition only_for :: "etharp_entry list \<Rightarrow> u32_t \<Rightarrow> nat \<Rightarrow> bool" where
  "only_for es a i \<longleftrightarrow> i < ARP_TABLE_SIZE \<and> ae_ipaddr (es ! i) = a \<and>
     (\<forall>j. j < ARP_TABLE_SIZE \<and> j \<noteq> i \<and> used (es ! j) \<longrightarrow> ae_ipaddr (es ! j) \<noteq> a)"

lemma arp_okD:
  assumes "arp_ok es"
  shows "length es = ARP_TABLE_SIZE" "i < ARP_TABLE_SIZE \<Longrightarrow> entry_ok (es ! i)"
    "i < ARP_TABLE_SIZE \<Longrightarrow> used (es ! i) \<Longrightarrow> only_for es (ae_ipaddr (es ! i)) i"
  using assms by (auto simp: arp_ok_def only_for_def)

lemma arp_ok_update:
  assumes "arp_ok es" "i < ARP_TABLE_SIZE" "entry_ok e" "used e \<longrightarrow> only_for (es[i := e]) (ae_ipaddr e) i"
  shows "arp_ok (es[i := e])"
proof -
  have l: "length es = ARP_TABLE_SIZE" using assms(1) by (rule arp_okD)
  have "\<forall>x\<in>set (es[i := e]). entry_ok x"
    using assms(1,3) set_update_subset_insert [of es i e] by (auto simp: arp_ok_def)
  moreover have "ae_ipaddr (es[i := e] ! j) \<noteq> ae_ipaddr (es[i := e] ! k)"
    if h: "j < ARP_TABLE_SIZE" "k < ARP_TABLE_SIZE" "j \<noteq> k" "used (es[i := e] ! j)" "used (es[i := e] ! k)" for j k
  proof -
    consider "j = i" | "k = i" | "j \<noteq> i" "k \<noteq> i" by blast
    then show ?thesis
    proof cases
      case 1
      then show ?thesis using h assms(2,4) l by (auto simp: only_for_def)
    next
      case 2
      then show ?thesis using h assms(2,4) l by (auto simp: only_for_def)
    next
      case 3
      then show ?thesis using h assms(1) by (auto simp: arp_ok_def)
    qed
  qed
  ultimately show ?thesis using l unfolding arp_ok_def by simp
qed

lemma only_for_update:
  "only_for es a i \<Longrightarrow> ae_ipaddr e = a \<Longrightarrow> length es = ARP_TABLE_SIZE \<Longrightarrow> only_for (es[i := e]) a i"
  by (auto simp: only_for_def)

section \<open>The sweep\<close>

text \<open>What the candidates say of the first \<open>i\<close> entries.\<close>

definition oldest :: "etharp_entry list \<Rightarrow> nat \<Rightarrow> (etharp_entry \<Rightarrow> bool) \<Rightarrow> nat \<Rightarrow> int \<Rightarrow> bool" where
  "oldest es i P c age \<longleftrightarrow>
     (if c = ARP_TABLE_SIZE then age = 0 \<and> (\<forall>j<i. \<not> P (es ! j))
      else c < i \<and> P (es ! c) \<and> age = ae_ctime (es ! c) \<and> (\<forall>j<i. P (es ! j) \<longrightarrow> ae_ctime (es ! j) \<le> age))"

definition resolved :: "etharp_entry \<Rightarrow> bool" where
  "resolved e \<longleftrightarrow> ae_state e \<ge> ETHARP_STATE_STABLE"

definition idle :: "etharp_entry \<Rightarrow> bool" where
  "idle e \<longleftrightarrow> ae_state e = ETHARP_STATE_PENDING \<and> ae_q e = None"

definition queued :: "etharp_entry \<Rightarrow> bool" where
  "queued e \<longleftrightarrow> ae_state e = ETHARP_STATE_PENDING \<and> ae_q e \<noteq> None"

definition swept :: "u32_t option \<Rightarrow> etharp_entry list \<Rightarrow> nat \<Rightarrow> candidates \<Rightarrow> bool" where
  "swept a es i c \<longleftrightarrow>
     (\<forall>j<i. used (es ! j) \<longrightarrow> a \<noteq> Some (ae_ipaddr (es ! j))) \<and>
     (if c_empty c = ARP_TABLE_SIZE then \<forall>j<i. used (es ! j) else c_empty c < i \<and> \<not> used (es ! c_empty c)) \<and>
     oldest es i resolved (c_old_stable c) (c_age_stable c) \<and>
     oldest es i idle (c_old_pending c) (c_age_pending c) \<and>
     oldest es i queued (c_old_queue c) (c_age_queue c)"

lemma oldest_skip: "oldest es i P c age \<Longrightarrow> \<not> P (es ! i) \<Longrightarrow> oldest es (i + 1) P c age"
  by (auto simp: oldest_def less_Suc_eq split: if_splits)

lemma oldest_take:
  "oldest es i P c age \<Longrightarrow> P (es ! i) \<Longrightarrow> 0 \<le> ae_ctime (es ! i) \<Longrightarrow> i < ARP_TABLE_SIZE \<Longrightarrow>
     oldest es (i + 1) P (if ae_ctime (es ! i) \<ge> age then i else c) (if ae_ctime (es ! i) \<ge> age then ae_ctime (es ! i) else age)"
  by (fastforce simp: oldest_def less_Suc_eq split: if_splits)

lemma state_cases:
  "ae_state e \<ge> ETHARP_STATE_STABLE \<longleftrightarrow> ae_state e = ETHARP_STATE_STABLE \<or> ae_state e = ETHARP_STATE_STABLE_REREQUESTING"
  by (cases "ae_state e") (auto simp: less_eq_etharp_state_def)

lemma find_sweep_spec:
  "length es = ARP_TABLE_SIZE \<Longrightarrow> \<forall>e\<in>set es. used e \<longrightarrow> 0 \<le> ae_ctime e \<Longrightarrow> i \<le> ARP_TABLE_SIZE \<Longrightarrow> swept a es i c \<Longrightarrow>
     (case find_sweep a (drop i es) i c of
        Inl k \<Rightarrow> k < ARP_TABLE_SIZE \<and> used (es ! k) \<and> a = Some (ae_ipaddr (es ! k))
      | Inr c' \<Rightarrow> swept a es ARP_TABLE_SIZE c')"
proof (induction "ARP_TABLE_SIZE - i" arbitrary: i c)
  case 0
  then have "i = ARP_TABLE_SIZE" by simp
  with 0 show ?case by simp
next
  case (Suc n)
  let ?e = "es ! i"
  have i: "i < length es" "i < ARP_TABLE_SIZE" "i + 1 \<le> ARP_TABLE_SIZE" "n = ARP_TABLE_SIZE - (i + 1)"
    using Suc by auto
  have d: "drop i es = ?e # drop (i + 1) es" using Cons_nth_drop_Suc [OF i(1)] by simp
  note IH = Suc.hyps(1) [OF i(4) Suc.prems(1,2) i(3)]
  have t: "used ?e \<Longrightarrow> 0 \<le> ae_ctime ?e" using Suc.prems(2) i(1) by simp
  have kinds: "\<not> used ?e \<or> (used ?e \<and> resolved ?e \<and> \<not> idle ?e \<and> \<not> queued ?e) \<or>
     (used ?e \<and> \<not> resolved ?e \<and> idle ?e \<and> \<not> queued ?e) \<or> (used ?e \<and> \<not> resolved ?e \<and> \<not> idle ?e \<and> queued ?e)"
    by (cases "ae_state ?e"; cases "ae_q ?e") (auto simp: used_def resolved_def idle_def queued_def less_eq_etharp_state_def)
  from Suc.prems(4) have sw: "\<forall>j<i. used (es ! j) \<longrightarrow> a \<noteq> Some (ae_ipaddr (es ! j))"
    "if c_empty c = ARP_TABLE_SIZE then \<forall>j<i. used (es ! j) else c_empty c < i \<and> \<not> used (es ! c_empty c)"
    "oldest es i resolved (c_old_stable c) (c_age_stable c)" "oldest es i idle (c_old_pending c) (c_age_pending c)"
    "oldest es i queued (c_old_queue c) (c_age_queue c)" by (auto simp: swept_def)
  show ?case
  proof (cases "used ?e")
    case False
    then have nk: "\<not> resolved ?e" "\<not> idle ?e" "\<not> queued ?e"
      by (auto simp: resolved_def idle_def queued_def used_def less_eq_etharp_state_def)
    have s: "swept a es (i + 1) (if c_empty c = ARP_TABLE_SIZE then c\<lparr>c_empty := i\<rparr> else c)"
      using sw(1,2) False i(2) oldest_skip [OF sw(3) nk(1)] oldest_skip [OF sw(4) nk(2)] oldest_skip [OF sw(5) nk(3)]
      by (auto simp: swept_def less_Suc_eq)
    have st: "ae_state ?e = ETHARP_STATE_EMPTY" using False by (simp add: used_def)
    have "find_sweep a (drop i es) i c = find_sweep a (drop (i + 1) es) (i + 1) (if c_empty c = ARP_TABLE_SIZE then c\<lparr>c_empty := i\<rparr> else c)"
      using st unfolding d by simp
    then show ?thesis using IH [OF s] by simp
  next
    case used: True
    then have st: "ae_state ?e \<noteq> ETHARP_STATE_EMPTY" by (simp add: used_def)
    show ?thesis
    proof (cases "a = Some (ae_ipaddr ?e)")
      case True
      then show ?thesis using st used i(2) unfolding d by simp
    next
      case False
      have base: "\<forall>j<i+1. used (es ! j) \<longrightarrow> a \<noteq> Some (ae_ipaddr (es ! j))"
        "if c_empty c = ARP_TABLE_SIZE then \<forall>j<i+1. used (es ! j) else c_empty c < i + 1 \<and> \<not> used (es ! c_empty c)"
        using sw(1,2) False used by (auto simp: less_Suc_eq split: if_splits)
      note sk = oldest_skip [OF sw(3)] oldest_skip [OF sw(4)] oldest_skip [OF sw(5)]
      note tk = oldest_take [OF sw(3) _ t [OF used] i(2)] oldest_take [OF sw(4) _ t [OF used] i(2)]
        oldest_take [OF sw(5) _ t [OF used] i(2)]
      consider "resolved ?e" "\<not> idle ?e" "\<not> queued ?e" | "\<not> resolved ?e" "idle ?e" "\<not> queued ?e"
        | "\<not> resolved ?e" "\<not> idle ?e" "queued ?e" using kinds used by blast
      then show ?thesis
      proof cases
        case 1
        let ?c = "if ae_ctime ?e \<ge> c_age_stable c then c\<lparr>c_old_stable := i, c_age_stable := ae_ctime ?e\<rparr> else c"
        have "swept a es (i + 1) ?c" using base sk(2,3) tk(1) 1 by (auto simp: swept_def split: if_splits)
        moreover have "find_sweep a (drop i es) i c = find_sweep a (drop (i + 1) es) (i + 1) ?c"
          using 1 st False unfolding d by (auto simp: resolved_def state_cases)
        ultimately show ?thesis using IH by simp
      next
        case 2
        let ?c = "if ae_ctime ?e \<ge> c_age_pending c then c\<lparr>c_old_pending := i, c_age_pending := ae_ctime ?e\<rparr> else c"
        have "swept a es (i + 1) ?c" using base sk(1,3) tk(2) 2 by (auto simp: swept_def split: if_splits)
        moreover have "find_sweep a (drop i es) i c = find_sweep a (drop (i + 1) es) (i + 1) ?c"
          using 2 st False unfolding d by (auto simp: idle_def)
        ultimately show ?thesis using IH by simp
      next
        case 3
        let ?c = "if ae_ctime ?e \<ge> c_age_queue c then c\<lparr>c_old_queue := i, c_age_queue := ae_ctime ?e\<rparr> else c"
        have "swept a es (i + 1) ?c" using base sk(1,2) tk(3) 3 by (auto simp: swept_def split: if_splits)
        moreover have "find_sweep a (drop i es) i c = find_sweep a (drop (i + 1) es) (i + 1) ?c"
          using 3 st False unfolding d by (auto simp: queued_def)
        ultimately show ?thesis using IH by simp
      qed
    qed
  qed
qed

lemma swept_start: "swept a es 0 no_candidates"
  by (simp add: swept_def oldest_def no_candidates_def)

lemma find_sweep_table:
  assumes "arp_ok es"
  shows "case find_sweep a es 0 no_candidates of
      Inl k \<Rightarrow> k < ARP_TABLE_SIZE \<and> used (es ! k) \<and> a = Some (ae_ipaddr (es ! k))
    | Inr c \<Rightarrow> swept a es ARP_TABLE_SIZE c"
  using find_sweep_spec [of es 0 a no_candidates] assms swept_start by (auto simp: arp_ok_def entry_ok_def)

section \<open>Freeing and finding an entry\<close>

lemma upd_entry_simps [simp]:
  "n_arp (upd_entry i f s) = (n_arp s)[i := f (n_arp s ! i)]" "n_mem (upd_entry i f s) = n_mem s"
  "n_cached (upd_entry i f s) = n_cached s" "n_dev (upd_entry i f s) = n_dev s"
  by (simp_all add: upd_entry_def)

lemma free_mem_frame: "free_mem l p s = Some s' \<Longrightarrow> n_arp s' = n_arp s \<and> n_cached s' = n_cached s \<and> n_dev s' = n_dev s"
  by (auto simp: free_mem_def bind_eq_Some_conv)

definition emptied :: "etharp_entry \<Rightarrow> etharp_entry" where
  "emptied e = e\<lparr>ae_q := None, ae_state := ETHARP_STATE_EMPTY\<rparr>"

lemma etharp_free_entry_table:
  assumes "etharp_free_entry l i s = Some s'" "i < length (n_arp s)"
  shows "n_arp s' = (n_arp s)[i := emptied (entry s i)]" "n_cached s' = n_cached s" "n_dev s' = n_dev s"
proof -
  have "n_arp s' = (n_arp s)[i := emptied (entry s i)] \<and> n_cached s' = n_cached s \<and> n_dev s' = n_dev s"
  proof (cases "ae_q (entry s i)")
    case None
    then have "(entry s i)\<lparr>ae_state := ETHARP_STATE_EMPTY\<rparr> = emptied (entry s i)" by (simp add: emptied_def)
    with None assms show ?thesis by (auto simp: etharp_free_entry_def)
  next
    case (Some q)
    with assms(1) obtain s1 where s1: "free_mem l (Some q) s = Some s1"
      "s' = upd_entry i (\<lambda>e. e\<lparr>ae_state := ETHARP_STATE_EMPTY\<rparr>) (upd_entry i (\<lambda>e. e\<lparr>ae_q := None\<rparr>) s1)"
      by (auto simp: etharp_free_entry_def bind_eq_Some_conv)
    with free_mem_frame [OF s1(1)] assms(2) show ?thesis by (simp add: emptied_def)
  qed
  then show "n_arp s' = (n_arp s)[i := emptied (entry s i)]" "n_cached s' = n_cached s" "n_dev s' = n_dev s" by auto
qed

lemma emptied_simps [simp]:
  "ae_ipaddr (emptied e) = ae_ipaddr e" "ae_q (emptied e) = None" "\<not> used (emptied e)" "entry_ok (emptied e)"
  "ae_ctime (emptied e) = ae_ctime e" "ae_state (emptied e) = ETHARP_STATE_EMPTY"
  by (simp_all add: emptied_def used_def entry_ok_def)

text \<open>The packet queued on an entry is a chain that can be released.\<close>

definition held :: "'d net \<Rightarrow> nat \<Rightarrow> bool" where
  "held s i \<longleftrightarrow> (case ae_q (entry s i) of None \<Rightarrow> True
     | Some q \<Rightarrow> \<exists>xs. chain (n_mem s) (Some q) xs \<and> refs_ok (n_mem s) xs)"

lemma etharp_free_entry_returns: "held s i \<Longrightarrow> \<exists>s'. etharp_free_entry l i s = Some s'"
  using pbuf_free_spec [of "n_mem s"]
  by (fastforce simp: held_def etharp_free_entry_def free_mem_def split: option.splits)

text \<open>The order in which entries are recycled.\<close>

definition oldest_of :: "(etharp_entry \<Rightarrow> bool) \<Rightarrow> etharp_entry list \<Rightarrow> nat \<Rightarrow> bool" where
  "oldest_of P es k \<longleftrightarrow> k < ARP_TABLE_SIZE \<and> P (es ! k) \<and>
     (\<forall>j<ARP_TABLE_SIZE. P (es ! j) \<longrightarrow> ae_ctime (es ! j) \<le> ae_ctime (es ! k))"

definition some_entry :: "(etharp_entry \<Rightarrow> bool) \<Rightarrow> etharp_entry list \<Rightarrow> bool" where
  "some_entry P es \<longleftrightarrow> (\<exists>j<ARP_TABLE_SIZE. P (es ! j))"

definition victim :: "etharp_entry list \<Rightarrow> nat \<Rightarrow> bool" where
  "victim es k \<longleftrightarrow>
     (if some_entry (\<lambda>e. \<not> used e) es then k < ARP_TABLE_SIZE \<and> \<not> used (es ! k)
      else if some_entry resolved es then oldest_of resolved es k
      else if some_entry idle es then oldest_of idle es k
      else oldest_of queued es k)"

definition renewed :: "u32_t \<Rightarrow> etharp_entry \<Rightarrow> etharp_entry" where
  "renewed a e = e\<lparr>ae_q := None, ae_state := ETHARP_STATE_EMPTY, ae_ipaddr := a, ae_ctime := 0\<rparr>"

lemma oldest_end: "oldest es ARP_TABLE_SIZE P c age \<Longrightarrow> (c = ARP_TABLE_SIZE \<longleftrightarrow> \<not> some_entry P es) \<and> (c < ARP_TABLE_SIZE \<longrightarrow> oldest_of P es c)"
  by (auto simp: oldest_def oldest_of_def some_entry_def split: if_splits)

lemma used_kinds: "used e \<Longrightarrow> resolved e \<or> idle e \<or> queued e"
  by (cases "ae_state e"; cases "ae_q e") (auto simp: used_def resolved_def idle_def queued_def less_eq_etharp_state_def)

lemma swept_end:
  assumes "swept a es ARP_TABLE_SIZE c"
  shows "c_empty c = ARP_TABLE_SIZE \<longleftrightarrow> \<not> some_entry (\<lambda>e. \<not> used e) es"
    "c_empty c < ARP_TABLE_SIZE \<Longrightarrow> victim es (c_empty c)"
    "c_empty c = ARP_TABLE_SIZE \<Longrightarrow>
       \<exists>k. (if c_old_stable c < ARP_TABLE_SIZE then Some (c_old_stable c)
            else if c_old_pending c < ARP_TABLE_SIZE then Some (c_old_pending c)
            else if c_old_queue c < ARP_TABLE_SIZE then Some (c_old_queue c) else None) = Some k \<and> victim es k"
    "c_empty c \<le> ARP_TABLE_SIZE"
proof -
  have o: "oldest es ARP_TABLE_SIZE resolved (c_old_stable c) (c_age_stable c)"
    "oldest es ARP_TABLE_SIZE idle (c_old_pending c) (c_age_pending c)"
    "oldest es ARP_TABLE_SIZE queued (c_old_queue c) (c_age_queue c)" using assms by (auto simp: swept_def)
  have le: "c_old_stable c \<le> ARP_TABLE_SIZE" "c_old_pending c \<le> ARP_TABLE_SIZE" "c_old_queue c \<le> ARP_TABLE_SIZE"
    using o by (auto simp: oldest_def split: if_splits)
  show e: "c_empty c = ARP_TABLE_SIZE \<longleftrightarrow> \<not> some_entry (\<lambda>e. \<not> used e) es" "c_empty c \<le> ARP_TABLE_SIZE"
    using assms by (auto simp: swept_def some_entry_def split: if_splits)
  show "c_empty c < ARP_TABLE_SIZE \<Longrightarrow> victim es (c_empty c)"
    using assms e by (auto simp: swept_def victim_def split: if_splits)
  assume a: "c_empty c = ARP_TABLE_SIZE"
  then have "some_entry resolved es \<or> some_entry idle es \<or> some_entry queued es"
    using e used_kinds [of "es ! 0"] by (auto simp: some_entry_def ARP_TABLE_SIZE_def)
  with a e oldest_end [OF o(1)] oldest_end [OF o(2)] oldest_end [OF o(3)] le
  show "\<exists>k. (if c_old_stable c < ARP_TABLE_SIZE then Some (c_old_stable c)
            else if c_old_pending c < ARP_TABLE_SIZE then Some (c_old_pending c)
            else if c_old_queue c < ARP_TABLE_SIZE then Some (c_old_queue c) else None) = Some k \<and> victim es k"
    by (auto simp: victim_def)
qed

lemma victim_range: "victim es k \<Longrightarrow> k < ARP_TABLE_SIZE"
  by (auto simp: victim_def oldest_of_def split: if_splits)

definition may_create :: "etharp_entry list \<Rightarrow> u8_t \<Rightarrow> bool" where
  "may_create es flags \<longleftrightarrow> flags AND ETHARP_FLAG_FIND_ONLY = 0 \<and>
     (some_entry (\<lambda>e. \<not> used e) es \<or> flags AND ETHARP_FLAG_TRY_HARD \<noteq> 0)"

definition matches :: "u32_t \<Rightarrow> etharp_entry \<Rightarrow> bool" where
  "matches a e \<longleftrightarrow> used e \<and> ae_ipaddr e = a"

lemma find_entry_cases [consumes 1, case_names found refused created]:
  assumes ok: "arp_ok (n_arp s)"
  obtains (found) k where "k < ARP_TABLE_SIZE" "matches a (entry s k)"
      "etharp_find_entry l (Some a) flags s = Some (Inr k, s)"
  | (refused) "\<not> some_entry (matches a) (n_arp s)" "\<not> may_create (n_arp s) flags"
      "etharp_find_entry l (Some a) flags s = Some (Inl ERR_MEM, s)"
  | (created) k where "\<not> some_entry (matches a) (n_arp s)" "may_create (n_arp s) flags" "victim (n_arp s) k"
      "etharp_find_entry l (Some a) flags s =
        do { s \<leftarrow> (if used (entry s k) then etharp_free_entry l k s else Some s);
             Some (Inr k, upd_entry k (\<lambda>e. e\<lparr>ae_ipaddr := a, ae_ctime := 0\<rparr>) s) }"
proof (cases "find_sweep (Some a) (n_arp s) 0 no_candidates")
  case (Inl k)
  then show thesis using find_sweep_table [OF ok, of "Some a"] by (intro found [of k]) (auto simp: matches_def etharp_find_entry_def)
next
  case (Inr c)
  then have sw: "swept (Some a) (n_arp s) ARP_TABLE_SIZE c" using find_sweep_table [OF ok, of "Some a"] by simp
  then have nm: "\<not> some_entry (matches a) (n_arp s)" by (auto simp: swept_def some_entry_def matches_def)
  have two: "upd_entry i (\<lambda>e. e\<lparr>ae_ctime := 0\<rparr>) (upd_entry i (\<lambda>e. e\<lparr>ae_ipaddr := a\<rparr>) t) =
      upd_entry i (\<lambda>e. e\<lparr>ae_ipaddr := a, ae_ctime := 0\<rparr>) t" for i and t :: "'a net"
    by (cases "i < length (n_arp t)") (simp_all add: upd_entry_def list_update_beyond)
  note e = swept_end [OF sw]
  show thesis
  proof (cases "may_create (n_arp s) flags")
    case False
    then show thesis using Inr e nm by (intro refused) (auto simp: may_create_def etharp_find_entry_def)
  next
    case True
    show thesis
    proof (cases "c_empty c < ARP_TABLE_SIZE")
      case em: True
      have "\<not> used (entry s (c_empty c))" using sw em by (auto simp: swept_def split: if_splits)
      then show thesis using Inr True e(1,2) em nm two
        by (intro created [of "c_empty c"]) (auto simp: may_create_def etharp_find_entry_def)
    next
      case False
      then have em: "c_empty c = ARP_TABLE_SIZE" using e(4) by simp
      then obtain k where k: "(if c_old_stable c < ARP_TABLE_SIZE then Some (c_old_stable c)
            else if c_old_pending c < ARP_TABLE_SIZE then Some (c_old_pending c)
            else if c_old_queue c < ARP_TABLE_SIZE then Some (c_old_queue c) else None) = Some k" "victim (n_arp s) k"
        using e(3) by blast
      have "used (entry s k)" using e(1) em victim_range [OF k(2)] by (auto simp: some_entry_def)
      then show thesis using Inr True em k e(1) nm two
        by (intro created [of k]) (simp_all add: may_create_def etharp_find_entry_def Let_def)
    qed
  qed
qed

lemma renewed_simps [simp]:
  "ae_ipaddr (renewed a e) = a" "ae_q (renewed a e) = None" "\<not> used (renewed a e)" "entry_ok (renewed a e)"
  "ae_ctime (renewed a e) = 0" "ae_state (renewed a e) = ETHARP_STATE_EMPTY"
  by (simp_all add: renewed_def used_def entry_ok_def)

lemma create_entry:
  assumes ok: "arp_ok (n_arp s)" and k: "k < ARP_TABLE_SIZE" and nm: "\<not> some_entry (matches a) (n_arp s)"
    and run: "do { s \<leftarrow> (if used (entry s k) then etharp_free_entry l k s else Some s);
             Some (Inr k, upd_entry k (\<lambda>e. e\<lparr>ae_ipaddr := a, ae_ctime := 0\<rparr>) s) } = Some (r, s')"
  shows "r = Inr k" "n_arp s' = (n_arp s)[k := renewed a (entry s k)]" "arp_ok (n_arp s')" "only_for (n_arp s') a k"
    "n_cached s' = n_cached s" "n_dev s' = n_dev s"
proof -
  have l: "length (n_arp s) = ARP_TABLE_SIZE" "k < length (n_arp s)" using ok k by (auto simp: arp_ok_def)
  show r: "r = Inr k" using run by (auto simp: bind_eq_Some_conv)
  have e: "n_arp s' = (n_arp s)[k := renewed a (entry s k)] \<and> n_cached s' = n_cached s \<and> n_dev s' = n_dev s"
  proof (cases "used (entry s k)")
    case True
    with run obtain s1 where s1: "etharp_free_entry l k s = Some s1"
      "s' = upd_entry k (\<lambda>e. e\<lparr>ae_ipaddr := a, ae_ctime := 0\<rparr>) s1" by (auto simp: bind_eq_Some_conv)
    show ?thesis using etharp_free_entry_table [OF s1(1) l(2)] s1(2) l(2) by (simp add: emptied_def renewed_def)
  next
    case False
    with arp_okD(2) [OF ok k] have "ae_q (entry s k) = None" "ae_state (entry s k) = ETHARP_STATE_EMPTY"
      by (auto simp: entry_ok_def used_def)
    then have "(entry s k)\<lparr>ae_ipaddr := a, ae_ctime := 0\<rparr> = renewed a (entry s k)" by (simp add: renewed_def)
    with run False show ?thesis by auto
  qed
  then show t: "n_arp s' = (n_arp s)[k := renewed a (entry s k)]" "n_cached s' = n_cached s" "n_dev s' = n_dev s" by auto
  show "arp_ok (n_arp s')" unfolding t(1) by (rule arp_ok_update [OF ok k]) simp_all
  show "only_for (n_arp s') a k"
    using nm k l unfolding t(1) by (auto simp: only_for_def some_entry_def matches_def)
qed

lemma find_entry_ok:
  assumes "arp_ok (n_arp s)" "etharp_find_entry l (Some a) flags s = Some (r, s')"
  shows "arp_ok (n_arp s')" "n_cached s' = n_cached s" "r = Inl e \<Longrightarrow> e = ERR_MEM \<and> s' = s"
    "r = Inr k \<Longrightarrow> only_for (n_arp s') a k" "r = Inr k \<Longrightarrow> \<not> used (entry s' k) \<Longrightarrow> ae_ctime (entry s' k) = 0"
proof -
  have "arp_ok (n_arp s') \<and> n_cached s' = n_cached s \<and>
      (case r of Inl e \<Rightarrow> e = ERR_MEM \<and> s' = s
       | Inr k \<Rightarrow> only_for (n_arp s') a k \<and> (\<not> used (entry s' k) \<longrightarrow> ae_ctime (entry s' k) = 0))"
    using assms(1)
  proof (cases rule: find_entry_cases [where l = l and a = a and flags = flags])
    case (found k)
    then show ?thesis using assms arp_okD(3) [OF assms(1), of k] by (auto simp: matches_def)
  next
    case refused
    then show ?thesis using assms by simp
  next
    case (created k)
    then have run: "do { s \<leftarrow> (if used (entry s k) then etharp_free_entry l k s else Some s);
             Some (Inr k, upd_entry k (\<lambda>e. e\<lparr>ae_ipaddr := a, ae_ctime := 0\<rparr>) s) } = Some (r, s')"
      using assms(2) by simp
    show ?thesis using create_entry [OF assms(1) victim_range [OF created(3)] created(1) run]
        victim_range [OF created(3)] arp_okD(1) [OF assms(1)] by simp
  qed
  then show "arp_ok (n_arp s')" "n_cached s' = n_cached s" "r = Inl e \<Longrightarrow> e = ERR_MEM \<and> s' = s"
    "r = Inr k \<Longrightarrow> only_for (n_arp s') a k" "r = Inr k \<Longrightarrow> \<not> used (entry s' k) \<Longrightarrow> ae_ctime (entry s' k) = 0" by auto
qed

section \<open>Every operation keeps the invariant\<close>

definition keeps :: "'d net \<Rightarrow> 'd net \<Rightarrow> bool" where
  "keeps s s' \<longleftrightarrow> n_arp s' = n_arp s \<and> n_cached s' = n_cached s"

lemma keeps_simps [simp]: "keeps s s" "keeps s (s'\<lparr>n_mem := m\<rparr>) = keeps s s'" "keeps s (s'\<lparr>n_dev := d\<rparr>) = keeps s s'"
  by (simp_all add: keeps_def)

lemma keeps_trans: "keeps s s1 \<Longrightarrow> keeps s1 s2 \<Longrightarrow> keeps s s2"
  by (simp add: keeps_def)

lemma free_mem_keeps: "free_mem l p s = Some s' \<Longrightarrow> keeps s s'"
  using free_mem_frame [of l p s s'] by (simp add: keeps_def)

lemma send_link_keeps: "send_link l p s = Some (e, s') \<Longrightarrow> keeps s s'"
  by (auto simp: send_link_def bind_eq_Some_conv)

lemma etharp_send_ip_keeps: "etharp_send_ip l p src dst s = Some (e, s') \<Longrightarrow> keeps s s'"
  by (auto simp: etharp_send_ip_def Let_def dest: send_link_keeps simp: keeps_def)

lemma etharp_raw_keeps: "etharp_raw l a b c d e f g s = Some (r, s') \<Longrightarrow> keeps s s'"
  by (auto simp: etharp_raw_def bind_eq_Some_conv Let_def keeps_def split: option.splits
      dest!: send_link_keeps free_mem_keeps)

lemma etharp_request_keeps: "etharp_request l netif a s = Some (r, s') \<Longrightarrow> keeps s s'"
  unfolding etharp_request_def by (rule etharp_raw_keeps)

lemma query_take_keeps: "query_take l q s = Some (r, s') \<Longrightarrow> keeps s s'"
  by (auto simp: query_take_def bind_eq_Some_conv keeps_def split: option.splits if_splits dest!: free_mem_keeps)

text \<open>The invariant of the ARP state: the table and the cached index.\<close>

definition arp_inv :: "'d net \<Rightarrow> bool" where
  "arp_inv s \<longleftrightarrow> arp_ok (n_arp s) \<and> n_cached s < ARP_TABLE_SIZE"

lemma keeps_inv: "keeps s s' \<Longrightarrow> arp_inv s \<Longrightarrow> arp_inv s'"
  by (simp add: keeps_def arp_inv_def)

lemma entry_update_ok:
  assumes "arp_ok es" "only_for es a k" "entry_ok e" "ae_ipaddr e = ae_ipaddr (es ! k)"
  shows "arp_ok (es[k := e])" "only_for (es[k := e]) a k"
proof -
  have l: "length es = ARP_TABLE_SIZE" "k < ARP_TABLE_SIZE" "ae_ipaddr (es ! k) = a"
    using assms(1,2) by (auto simp: arp_ok_def only_for_def)
  show o: "only_for (es[k := e]) a k" using assms l by (auto simp: only_for_def)
  show "arp_ok (es[k := e])" by (rule arp_ok_update [OF assms(1) l(2) assms(3)]) (use o l assms(4) in simp)
qed

lemma etharp_free_entry_inv: "arp_inv s \<Longrightarrow> i < ARP_TABLE_SIZE \<Longrightarrow> etharp_free_entry l i s = Some s' \<Longrightarrow> arp_inv s'"
  using etharp_free_entry_table [of l i s s'] arp_ok_update [of "n_arp s" i "emptied (entry s i)"]
  by (auto simp: arp_inv_def arp_ok_def)

section \<open>The timer\<close>

definition ticked :: "etharp_entry \<Rightarrow> etharp_entry" where
  "ticked e =
     (if used e
      then let e = e\<lparr>ae_ctime := ae_ctime e + 1\<rparr>
           in if lifetime e \<le> ae_ctime e then emptied e
              else if ae_state e = ETHARP_STATE_STABLE_REREQUESTING then e\<lparr>ae_state := ETHARP_STATE_STABLE\<rparr> else e
      else e)"

definition tmr_body :: "'d link_if \<Rightarrow> nat \<Rightarrow> 'd net \<Rightarrow> 'd net option" where
  "tmr_body l i s =
     (if ae_state (entry s i) \<noteq> ETHARP_STATE_EMPTY
      then let s = upd_entry i (\<lambda>e. e\<lparr>ae_ctime := c_u8 (ae_ctime e + 1)\<rparr>) s
           in if ae_ctime (entry s i) \<ge> ARP_MAXAGE \<or>
                 ae_state (entry s i) = ETHARP_STATE_PENDING \<and> ae_ctime (entry s i) \<ge> ARP_MAXPENDING
              then etharp_free_entry l i s
              else if ae_state (entry s i) = ETHARP_STATE_STABLE_REREQUESTING
              then Some (upd_entry i (\<lambda>e. e\<lparr>ae_state := ETHARP_STATE_STABLE\<rparr>) s)
              else Some s
      else Some s)"

lemma tmr_loop_step: "i < ARP_TABLE_SIZE \<Longrightarrow> etharp_tmr_loop l i s = Option.bind (tmr_body l i s) (etharp_tmr_loop l (i + 1))"
  by (subst etharp_tmr_loop.simps) (simp add: tmr_body_def)

lemma tmr_loop_end: "etharp_tmr_loop l ARP_TABLE_SIZE s = Some s"
  by (simp add: etharp_tmr_loop.simps)

text \<open>The entry expires exactly when its age reaches its lifetime.\<close>

lemma tmr_body_eq:
  assumes "arp_ok (n_arp s)" "i < ARP_TABLE_SIZE"
  shows "tmr_body l i s =
    (let s1 = upd_entry i (\<lambda>e. e\<lparr>ae_ctime := ae_ctime e + 1\<rparr>) s in
     if used (entry s i)
     then if lifetime (entry s i) \<le> ae_ctime (entry s i) + 1 then etharp_free_entry l i s1
          else if ae_state (entry s i) = ETHARP_STATE_STABLE_REREQUESTING
          then Some (upd_entry i (\<lambda>e. e\<lparr>ae_state := ETHARP_STATE_STABLE\<rparr>) s1) else Some s1
     else Some s)"
proof -
  let ?e = "entry s i"
  have l: "i < length (n_arp s)" using assms by (simp add: arp_ok_def)
  show ?thesis
  proof (cases "used ?e")
    case True
    with arp_okD(2) [OF assms] have c: "0 \<le> ae_ctime ?e" "ae_ctime ?e < lifetime ?e" by (auto simp: entry_ok_def)
    then have "c_u8 (ae_ctime ?e + 1) = ae_ctime ?e + 1"
      by (intro c_u8_id) (auto simp: lifetime_def arp_consts split: if_splits)
    then have u: "upd_entry i (\<lambda>e. e\<lparr>ae_ctime := c_u8 (ae_ctime e + 1)\<rparr>) s = upd_entry i (\<lambda>e. e\<lparr>ae_ctime := ae_ctime e + 1\<rparr>) s"
      by (simp add: upd_entry_def)
    have "(ae_ctime ?e + 1 \<ge> ARP_MAXAGE \<or> ae_state ?e = ETHARP_STATE_PENDING \<and> ae_ctime ?e + 1 \<ge> ARP_MAXPENDING)
        = (lifetime ?e \<le> ae_ctime ?e + 1)"
      by (auto simp: lifetime_def arp_consts)
    then show ?thesis using True l unfolding tmr_body_def u by (simp add: used_def Let_def)
  next
    case False
    then show ?thesis by (simp add: tmr_body_def used_def)
  qed
qed

lemma tmr_body_table:
  assumes "arp_ok (n_arp s)" "i < ARP_TABLE_SIZE" "tmr_body l i s = Some s'"
  shows "n_arp s' = (n_arp s)[i := ticked (entry s i)]" "n_cached s' = n_cached s" "n_dev s' = n_dev s"
proof -
  have l: "i < length (n_arp s)" using assms by (simp add: arp_ok_def)
  let ?s1 = "upd_entry i (\<lambda>e. e\<lparr>ae_ctime := ae_ctime e + 1\<rparr>) s"
  have f: "etharp_free_entry l i ?s1 = Some s' \<Longrightarrow> n_arp s' = (n_arp s)[i := emptied ((entry s i)\<lparr>ae_ctime := ae_ctime (entry s i) + 1\<rparr>)] \<and>
      n_cached s' = n_cached s \<and> n_dev s' = n_dev s"
    using etharp_free_entry_table [of l i ?s1 s'] l by simp
  have "n_arp s' = (n_arp s)[i := ticked (entry s i)] \<and> n_cached s' = n_cached s \<and> n_dev s' = n_dev s"
    using assms(3) l f unfolding tmr_body_eq [OF assms(1,2)] Let_def
    by (auto simp: ticked_def lifetime_def split: if_splits)
  then show "n_arp s' = (n_arp s)[i := ticked (entry s i)]" "n_cached s' = n_cached s" "n_dev s' = n_dev s" by auto
qed

lemma ticked_ok: "entry_ok e \<Longrightarrow> entry_ok (ticked e)" "used (ticked e) \<Longrightarrow> used e" "ae_ipaddr (ticked e) = ae_ipaddr e"
  by (auto simp: ticked_def entry_ok_def used_def lifetime_def Let_def emptied_def arp_consts split: if_splits)

lemma ticked_table:
  assumes "arp_ok es" "i < ARP_TABLE_SIZE"
  shows "arp_ok (es[i := ticked (es ! i)])"
proof (rule arp_ok_update [OF assms])
  show "entry_ok (ticked (es ! i))" using arp_okD(2) [OF assms] by (rule ticked_ok)
  show "used (ticked (es ! i)) \<longrightarrow> only_for (es[i := ticked (es ! i)]) (ae_ipaddr (ticked (es ! i))) i"
    using arp_okD(3) [OF assms] ticked_ok(2,3) [of "es ! i"] only_for_update [of es "ae_ipaddr (es ! i)" i] assms
    by (auto simp: arp_ok_def)
qed

text \<open>The queued packets are disjoint chains of pbufs of the stack.\<close>

definition queues :: "'d net \<Rightarrow> (nat \<Rightarrow> ptr list) \<Rightarrow> bool" where
  "queues s Q \<longleftrightarrow>
     (\<forall>i<ARP_TABLE_SIZE. case ae_q (entry s i) of None \<Rightarrow> Q i = []
        | Some q \<Rightarrow> chain (n_mem s) (Some q) (Q i) \<and> refs_ok (n_mem s) (Q i)) \<and>
     (\<forall>i j. i < ARP_TABLE_SIZE \<and> j < ARP_TABLE_SIZE \<and> i \<noteq> j \<longrightarrow> set (Q i) \<inter> set (Q j) = {})"

lemma queues_held: "queues s Q \<Longrightarrow> i < ARP_TABLE_SIZE \<Longrightarrow> held s i"
  by (auto simp: queues_def held_def split: option.splits)

lemma refs_ok_cong: "\<forall>x\<in>set xs. p_pbufs s x = p_pbufs s' x \<Longrightarrow> refs_ok s xs = refs_ok s' xs"
  by (simp add: refs_ok_def stored_def)

lemma queues_table:
  assumes "queues s Q" "\<forall>j<ARP_TABLE_SIZE. ae_q (entry s' j) = ae_q (entry s j)" "n_mem s' = n_mem s"
  shows "queues s' Q"
  using assms(1,2) unfolding queues_def assms(3) by simp

lemma etharp_free_entry_queues:
  assumes "queues s Q" "i < ARP_TABLE_SIZE" "length (n_arp s) = ARP_TABLE_SIZE"
  shows "\<exists>s'. etharp_free_entry l i s = Some s' \<and> queues s' (Q(i := []))"
proof (cases "ae_q (entry s i)")
  case None
  then have "etharp_free_entry l i s = Some (upd_entry i (\<lambda>e. e\<lparr>ae_state := ETHARP_STATE_EMPTY\<rparr>) s)"
    by (simp add: etharp_free_entry_def)
  moreover have "case ae_q (entry s i) of None \<Rightarrow> Q i = []
      | Some q \<Rightarrow> chain (n_mem s) (Some q) (Q i) \<and> refs_ok (n_mem s) (Q i)"
    using assms(1,2) unfolding queues_def by blast
  then have "Q(i := []) = Q" using None by auto
  moreover have "queues (upd_entry i (\<lambda>e. e\<lparr>ae_state := ETHARP_STATE_EMPTY\<rparr>) s) Q"
    by (rule queues_table [OF assms(1)]) (use assms(2,3) in \<open>auto simp: nth_list_update\<close>)
  ultimately show ?thesis by simp
next
  case (Some q)
  then have c: "chain (n_mem s) (Some q) (Q i)" "refs_ok (n_mem s) (Q i)" using assms(1,2) by (auto simp: queues_def)
  obtain n m where m: "pbuf_free (custom_free l) (Some q) (n_mem s) = Some (n, m)"
    "\<forall>y. y \<notin> set (Q i) \<longrightarrow> p_pbufs m y = p_pbufs (n_mem s) y"
    using pbuf_free_frame [OF c, of "custom_free l"] by blast
  let ?s' = "upd_entry i (\<lambda>e. e\<lparr>ae_state := ETHARP_STATE_EMPTY\<rparr>) (upd_entry i (\<lambda>e. e\<lparr>ae_q := None\<rparr>) (s\<lparr>n_mem := m\<rparr>))"
  have "etharp_free_entry l i s = Some ?s'" using Some m(1) by (simp add: etharp_free_entry_def free_mem_def)
  moreover have "queues ?s' (Q(i := []))"
  proof -
    have "chain m p (Q j) = chain (n_mem s) p (Q j) \<and> refs_ok m (Q j) = refs_ok (n_mem s) (Q j)"
      if "j < ARP_TABLE_SIZE" "j \<noteq> i" for p j
    proof -
      have "\<forall>x\<in>set (Q j). p_pbufs m x = p_pbufs (n_mem s) x"
        using assms(1,2) that m(2) by (auto simp: queues_def disjoint_iff)
      then show ?thesis using chain_cong [of "Q j" m "n_mem s"] refs_ok_cong [of "Q j" m "n_mem s"] by simp
    qed
    then show ?thesis using assms by (auto simp: queues_def nth_list_update split: option.splits)
  qed
  ultimately show ?thesis by blast
qed

lemma tmr_body_queues:
  assumes "arp_ok (n_arp s)" "i < ARP_TABLE_SIZE" "queues s Q"
  shows "\<exists>s' Q'. tmr_body l i s = Some s' \<and> queues s' Q'"
proof -
  have len: "length (n_arp s) = ARP_TABLE_SIZE" using assms(1) by (simp add: arp_ok_def)
  have q: "queues (upd_entry i f t) Q" if "queues t Q" "length (n_arp t) = ARP_TABLE_SIZE" "\<And>e. ae_q (f e) = ae_q e" for f and t :: "'a net"
    by (rule queues_table [OF that(1)]) (use that assms(2) in \<open>auto simp: nth_list_update\<close>)
  let ?s1 = "upd_entry i (\<lambda>e. e\<lparr>ae_ctime := ae_ctime e + 1\<rparr>) s"
  have s1: "queues ?s1 Q" "length (n_arp ?s1) = ARP_TABLE_SIZE" using q [OF assms(3) len] len by auto
  have "queues (upd_entry i (\<lambda>e. e\<lparr>ae_state := ETHARP_STATE_STABLE\<rparr>) ?s1) Q" using q [OF s1] by simp
  with etharp_free_entry_queues [OF s1(1) assms(2) s1(2), of l] s1(1) assms(3) show ?thesis
    unfolding tmr_body_eq [OF assms(1,2)] Let_def by auto
qed

lemma map_prefix_step: "i < length es \<Longrightarrow> (map f (take i es) @ drop i es)[i := f ((map f (take i es) @ drop i es) ! i)] =
    map f (take (i + 1) es) @ drop (i + 1) es"
  by (simp add: nth_append take_Suc_conv_app_nth list_update_append flip: Cons_nth_drop_Suc)

lemma tmr_loop_table:
  "arp_ok (n_arp s) \<Longrightarrow> i \<le> ARP_TABLE_SIZE \<Longrightarrow> etharp_tmr_loop l i s = Some s' \<Longrightarrow>
     arp_ok (n_arp s') \<and> n_arp s' = take i (n_arp s) @ map ticked (drop i (n_arp s)) \<and> n_cached s' = n_cached s"
proof (induction "ARP_TABLE_SIZE - i" arbitrary: i s)
  case 0
  then show ?case by (auto simp: tmr_loop_end arp_ok_def)
next
  case (Suc n)
  have i: "i < ARP_TABLE_SIZE" "n = ARP_TABLE_SIZE - (i + 1)" "i + 1 \<le> ARP_TABLE_SIZE" using Suc by auto
  have l: "i < length (n_arp s)" using Suc.prems i by (simp add: arp_ok_def)
  from Suc.prems(3) obtain s1 where s1: "tmr_body l i s = Some s1" "etharp_tmr_loop l (i + 1) s1 = Some s'"
    unfolding tmr_loop_step [OF i(1)] by (auto simp: bind_eq_Some_conv)
  note t = tmr_body_table [OF Suc.prems(1) i(1) s1(1)]
  have ok: "arp_ok (n_arp s1)" unfolding t(1) by (rule ticked_table [OF Suc.prems(1) i(1)])
  have "take (i + 1) (n_arp s1) @ map ticked (drop (i + 1) (n_arp s1)) = take i (n_arp s) @ map ticked (drop i (n_arp s))"
    unfolding t(1) using l by (simp add: take_Suc_conv_app_nth flip: Cons_nth_drop_Suc)
  with Suc.hyps(1) [OF i(2) ok i(3) s1(2)] t(2) show ?case by metis
qed

lemma tmr_loop_returns:
  "arp_ok (n_arp s) \<Longrightarrow> i \<le> ARP_TABLE_SIZE \<Longrightarrow> queues s Q \<Longrightarrow> \<exists>s' Q'. etharp_tmr_loop l i s = Some s' \<and> queues s' Q'"
proof (induction "ARP_TABLE_SIZE - i" arbitrary: i s Q)
  case 0
  then have "i = ARP_TABLE_SIZE" by simp
  with 0 show ?case by (auto simp: tmr_loop_end)
next
  case (Suc n)
  have i: "i < ARP_TABLE_SIZE" "n = ARP_TABLE_SIZE - (i + 1)" "i + 1 \<le> ARP_TABLE_SIZE" using Suc by auto
  obtain s1 Q1 where s1: "tmr_body l i s = Some s1" "queues s1 Q1"
    using tmr_body_queues [OF Suc.prems(1) i(1) Suc.prems(3)] by blast
  have ok: "arp_ok (n_arp s1)"
    using tmr_body_table(1) [OF Suc.prems(1) i(1) s1(1)] ticked_table [OF Suc.prems(1) i(1)] by simp
  from Suc.hyps(1) [OF i(2) ok i(3) s1(2)] s1(1) show ?case unfolding tmr_loop_step [OF i(1)] by simp
qed

lemma etharp_tmr_spec:
  assumes "arp_ok (n_arp s)" "queues s Q"
  obtains s' Q' where "etharp_tmr l s = Some s'" "queues s' Q'" "arp_ok (n_arp s')" "n_arp s' = map ticked (n_arp s)"
    "n_cached s' = n_cached s"
proof -
  obtain s' Q' where r: "etharp_tmr_loop l 0 s = Some s'" "queues s' Q'" using tmr_loop_returns [OF assms(1) _ assms(2), of 0 l] by auto
  with tmr_loop_table [OF assms(1) _ r(1)] show ?thesis by (intro that [of s' Q']) (auto simp: etharp_tmr_def)
qed

text \<open>\<open>k\<close> calls of the timer.\<close>

fun ticks :: "'d link_if \<Rightarrow> nat \<Rightarrow> 'd net \<Rightarrow> 'd net option" where
  "ticks l 0 s = Some s"
| "ticks l (Suc k) s = Option.bind (etharp_tmr l s) (ticks l k)"

lemma ticked_age:
  "entry_ok e \<Longrightarrow> used e \<Longrightarrow> used (ticked e) \<longleftrightarrow> ae_ctime e + 1 < lifetime e"
  "entry_ok e \<Longrightarrow> used (ticked e) \<Longrightarrow> lifetime (ticked e) = lifetime e \<and> ae_ctime (ticked e) = ae_ctime e + 1 \<and>
     ae_ipaddr (ticked e) = ae_ipaddr e \<and> ae_ethaddr (ticked e) = ae_ethaddr e \<and> ae_q (ticked e) = ae_q e"
  by (auto simp: ticked_def used_def lifetime_def Let_def emptied_def split: if_splits)

definition aged :: "nat \<Rightarrow> etharp_entry \<Rightarrow> etharp_entry" where
  "aged k = (ticked ^^ k)"

lemma aged_entry:
  "entry_ok e \<Longrightarrow> used e \<Longrightarrow>
     (used (aged k e) \<longleftrightarrow> ae_ctime e + int k < lifetime e) \<and>
     (used (aged k e) \<longrightarrow> ae_ipaddr (aged k e) = ae_ipaddr e \<and> ae_ethaddr (aged k e) = ae_ethaddr e \<and> ae_q (aged k e) = ae_q e)"
proof (induction k arbitrary: e)
  case 0
  then show ?case by (auto simp: aged_def entry_ok_def)
next
  case (Suc k)
  have a: "aged (Suc k) e = aged k (ticked e)" by (simp add: aged_def funpow_swap1)
  have unused: "\<not> used (aged k x)" if "\<not> used x" for x
    using that by (induction k) (auto simp: aged_def ticked_ok(2))
  show ?case
  proof (cases "used (ticked e)")
    case True
    from Suc.IH [OF ticked_ok(1) [OF Suc.prems(1)] True] show ?thesis
      using ticked_age [OF Suc.prems(1)] True unfolding a by auto
  next
    case False
    with unused [OF False] ticked_age(1) [OF Suc.prems] show ?thesis unfolding a by auto
  qed
qed

lemma ticks_spec:
  "arp_ok (n_arp s) \<Longrightarrow> queues s Q \<Longrightarrow> \<exists>s'. ticks l k s = Some s' \<and> n_arp s' = map (aged k) (n_arp s)"
proof (induction k arbitrary: s Q)
  case 0
  then show ?case by (simp add: aged_def map_idI)
next
  case (Suc k)
  obtain s1 Q1 where s1: "etharp_tmr l s = Some s1" "queues s1 Q1" "arp_ok (n_arp s1)" "n_arp s1 = map ticked (n_arp s)"
    using etharp_tmr_spec [OF Suc.prems, of l] by metis
  have "aged k \<circ> ticked = aged (Suc k)" by (simp add: aged_def fun_eq_iff funpow_swap1)
  with Suc.IH [OF s1(3,2)] s1(1,4) show ?case by (auto simp: map_map)
qed

section \<open>The other operations\<close>

lemma arp_inv_entry:
  assumes "arp_inv s" "only_for (n_arp s) a k" "n_arp s' = (n_arp s)[k := e]" "n_cached s' = n_cached s"
    "entry_ok e" "ae_ipaddr e = ae_ipaddr (entry s k)"
  shows "arp_inv s'" "only_for (n_arp s') a k"
  using assms entry_update_ok [of "n_arp s" a k e] by (auto simp: arp_inv_def)

lemma find_entry_inv:
  assumes "arp_inv s" "etharp_find_entry l (Some a) flags s = Some (r, s')"
  shows "arp_inv s'" "r = Inr k \<Longrightarrow> only_for (n_arp s') a k"
    "r = Inr k \<Longrightarrow> \<not> used (entry s' k) \<Longrightarrow> ae_ctime (entry s' k) = 0"
  using assms find_entry_ok(1,2,4,5) [OF _ assms(2)] by (auto simp: arp_inv_def)

lemma only_for_range: "only_for es a k \<Longrightarrow> k < ARP_TABLE_SIZE"
  by (simp add: only_for_def)

lemma update_arp_entry_inv:
  assumes "arp_inv s" "etharp_update_arp_entry l netif a ea flags s = Some (e, s')"
  shows "arp_inv s'"
proof (cases "a = IPADDR_ANY \<or> ip4_addr_isbroadcast a netif \<or> ip_addr_ismulticast a")
  case True
  with assms show ?thesis by (auto simp: etharp_update_arp_entry_def)
next
  case False
  with assms(2) obtain r s1 where f: "etharp_find_entry l (Some a) flags s = Some (r, s1)"
    by (auto simp: etharp_update_arp_entry_def bind_eq_Some_conv)
  note i1 = find_entry_inv [OF assms(1) f]
  show ?thesis
  proof (cases r)
    case (Inl x)
    with assms(2) f False i1(1) show ?thesis by (auto simp: etharp_update_arp_entry_def)
  next
    case (Inr k)
    note o = i1(2) [OF Inr]
    have l: "k < length (n_arp s1)" using only_for_range [OF o] i1(1) by (simp add: arp_inv_def arp_ok_def)
    let ?e = "(entry s1 k)\<lparr>ae_state := ETHARP_STATE_STABLE, ae_netif := Some (nif_num netif),
        ae_ethaddr := read_bytes ea ETHARP_HWADDR_LEN (n_mem s1), ae_ctime := 0\<rparr>"
    let ?s2 = "s1\<lparr>n_arp := (n_arp s1)[k := ?e]\<rparr>"
    show ?thesis
    proof (cases "ae_q (entry s1 k)")
      case None
      have "arp_inv ?s2" by (rule arp_inv_entry(1) [OF i1(1) o, where e = "?e"]) (simp_all add: entry_ok_def lifetime_def arp_consts None)
      moreover have "s' = ?s2" using assms(2) False f Inr l None
        by (simp add: etharp_update_arp_entry_def upd_entry_def)
      ultimately show ?thesis by simp
    next
      case (Some p)
      have "arp_inv (upd_entry k (\<lambda>e. e\<lparr>ae_q := None\<rparr>) ?s2)"
        by (rule arp_inv_entry(1) [OF i1(1) o, where e = "?e\<lparr>ae_q := None\<rparr>"]) (use l in \<open>simp_all add: entry_ok_def lifetime_def arp_consts\<close>)
      moreover have "\<exists>x t. etharp_send_ip l p (nif_hwaddr netif) (read_bytes ea ETHARP_HWADDR_LEN (n_mem s1))
          (upd_entry k (\<lambda>e. e\<lparr>ae_q := None\<rparr>) ?s2) = Some (x, t) \<and> free_mem l (Some p) t = Some s'"
        using assms(2) False f Inr l Some
        by (auto simp: etharp_update_arp_entry_def upd_entry_def bind_eq_Some_conv split: prod.splits)
      ultimately show ?thesis by (auto dest!: etharp_send_ip_keeps free_mem_keeps intro: keeps_inv)
    qed
  qed
qed

lemma output_to_arp_index_inv:
  assumes "arp_inv s" "k < ARP_TABLE_SIZE" "etharp_output_to_arp_index l netif q k s = Some (e, s')"
  shows "arp_inv s'"
proof (cases "ae_state (entry s k) = ETHARP_STATE_STABLE \<and> ae_ctime (entry s k) \<ge> ARP_AGE_REREQUEST_USED")
  case True
  with assms(3) obtain r s1 where r: "etharp_request l netif (ae_ipaddr (entry s k)) s = Some (r, s1)"
    "etharp_send_ip l q (nif_hwaddr netif) (ae_ethaddr (entry (if r = ERR_OK then upd_entry k (\<lambda>e. e\<lparr>ae_state := ETHARP_STATE_STABLE_REREQUESTING\<rparr>) s1 else s1) k))
       (if r = ERR_OK then upd_entry k (\<lambda>e. e\<lparr>ae_state := ETHARP_STATE_STABLE_REREQUESTING\<rparr>) s1 else s1) = Some (e, s')"
    by (auto simp: etharp_output_to_arp_index_def bind_eq_Some_conv)
  have k: "keeps s s1" using r(1) by (rule etharp_request_keeps)
  have i: "arp_inv s1" using keeps_inv [OF k assms(1)] .
  have u: "used (entry s1 k)" "entry_ok (entry s1 k)" "ae_state (entry s1 k) = ETHARP_STATE_STABLE"
    using True k arp_okD(2) [of "n_arp s" k] assms(1,2) by (auto simp: used_def keeps_def arp_inv_def)
  then have o: "only_for (n_arp s1) (ae_ipaddr (entry s1 k)) k"
    using arp_okD(3) [of "n_arp s1" k] i assms(2) by (simp add: arp_inv_def)
  have "arp_inv (upd_entry k (\<lambda>e. e\<lparr>ae_state := ETHARP_STATE_STABLE_REREQUESTING\<rparr>) s1)"
    by (rule arp_inv_entry(1) [OF i o, where e = "(entry s1 k)\<lparr>ae_state := ETHARP_STATE_STABLE_REREQUESTING\<rparr>"])
      (use u in \<open>auto simp: entry_ok_def lifetime_def used_def\<close>)
  with i r(2) show ?thesis by (auto split: if_splits dest!: etharp_send_ip_keeps intro: keeps_inv)
next
  case False
  with assms show ?thesis
    by (auto simp: etharp_output_to_arp_index_def dest!: etharp_send_ip_keeps intro: keeps_inv)
qed

lemma etharp_query_inv:
  assumes "arp_inv s" "etharp_query l netif a q s = Some (e, s')"
  shows "arp_inv s'"
proof (cases "ip4_addr_isbroadcast a netif \<or> ip_addr_ismulticast a \<or> a = IPADDR_ANY")
  case True
  with assms show ?thesis by (auto simp: etharp_query_def)
next
  case False
  with assms(2) obtain r s1 where f: "etharp_find_entry l (Some a) ETHARP_FLAG_TRY_HARD s = Some (r, s1)"
    by (auto simp: etharp_query_def bind_eq_Some_conv)
  note i1 = find_entry_inv [OF assms(1) f]
  show ?thesis
  proof (cases r)
    case (Inl x)
    with assms(2) f False i1(1) show ?thesis by (auto simp: etharp_query_def)
  next
    case (Inr k)
    note o = i1(2) [OF Inr]
    have k: "k < ARP_TABLE_SIZE" "k < length (n_arp s1)" "entry_ok (entry s1 k)"
      using only_for_range [OF o] i1(1) arp_okD(2) [of "n_arp s1" k] by (simp_all add: arp_inv_def arp_ok_def)
    define s2 where "s2 = (if ae_state (entry s1 k) = ETHARP_STATE_EMPTY
      then upd_entry k (\<lambda>e. e\<lparr>ae_state := ETHARP_STATE_PENDING\<rparr>) s1 else s1)"
    have s2: "arp_inv s2 \<and> only_for (n_arp s2) a k"
    proof (cases "ae_state (entry s1 k) = ETHARP_STATE_EMPTY")
      case True
      then have "ae_ctime (entry s1 k) = 0" "ae_q (entry s1 k) = None" using i1(3) [OF Inr] k(3) by (auto simp: used_def entry_ok_def)
      then have e: "entry_ok ((entry s1 k)\<lparr>ae_state := ETHARP_STATE_PENDING\<rparr>)"
        by (simp add: entry_ok_def lifetime_def arp_consts)
      show ?thesis using arp_inv_entry [OF i1(1) o, of s2 "(entry s1 k)\<lparr>ae_state := ETHARP_STATE_PENDING\<rparr>"] e True
        by (simp add: s2_def)
    next
      case False
      then show ?thesis using i1(1) o by (simp add: s2_def)
    qed
    define cont where "cont = (\<lambda>(x, s). (case q of None \<Rightarrow> Some (x, s)
            | Some q \<Rightarrow>
                if ae_state (entry s k) \<ge> ETHARP_STATE_STABLE
                then etharp_send_ip l q (nif_hwaddr netif) (ae_ethaddr (entry s k)) (s\<lparr>n_cached := k\<rparr>)
                else if ae_state (entry s k) = ETHARP_STATE_PENDING
                then do {
                  (p, s) \<leftarrow> query_take l q s;
                  case p of
                    None \<Rightarrow> Some (ERR_MEM, s)
                  | Some p \<Rightarrow> do {
                      s \<leftarrow> (case ae_q (entry s k) of None \<Rightarrow> Some s | Some old \<Rightarrow> free_mem l (Some old) s);
                      Some (ERR_OK, upd_entry k (\<lambda>e. e\<lparr>ae_q := Some p\<rparr>) s)
                    }
                }
                else Some (x, s)))"
    let ?req = "if ae_state (entry s2 k) = ETHARP_STATE_PENDING \<or> q = None
        then etharp_request l netif a s2 else Some (ERR_MEM, s2)"
    have "etharp_query l netif a q s = Option.bind ?req cont"
      using False f Inr by (simp add: etharp_query_def Let_def s2_def cont_def)
    with assms(2) have "Option.bind ?req cont = Some (e, s')" by simp
    then obtain y where y: "?req = Some y" "cont y = Some (e, s')" unfolding bind_eq_Some_conv by blast
    obtain x s3 where "y = (x, s3)" by (cases y)
    with y have s3: "?req = Some (x, s3)" and run: "cont (x, s3) = Some (e, s')" by blast+
    note run = run [unfolded cont_def prod.case]
    have "keeps s2 s3" using s3 etharp_request_keeps by (auto split: if_splits)
    then have i3: "arp_inv s3" "only_for (n_arp s3) a k" using s2 by (auto simp: keeps_def arp_inv_def)
    show ?thesis
    proof (cases q)
      case None
      with run i3 show ?thesis by simp
    next
      case (Some p)
      consider "ae_state (entry s3 k) \<ge> ETHARP_STATE_STABLE"
        | "\<not> ae_state (entry s3 k) \<ge> ETHARP_STATE_STABLE" "ae_state (entry s3 k) = ETHARP_STATE_PENDING"
        | "\<not> ae_state (entry s3 k) \<ge> ETHARP_STATE_STABLE" "ae_state (entry s3 k) \<noteq> ETHARP_STATE_PENDING" by blast
      then show ?thesis
      proof cases
        case 1
        have "arp_inv (s3\<lparr>n_cached := k\<rparr>)" using i3(1) k(1) by (simp add: arp_inv_def)
        with run Some 1 show ?thesis by (auto dest!: etharp_send_ip_keeps intro: keeps_inv)
      next
        case 2
        with run Some obtain r s4 where r: "query_take l p s3 = Some (r, s4)"
          "(case r of None \<Rightarrow> Some (ERR_MEM, s4)
                  | Some p \<Rightarrow> do {
                      s \<leftarrow> (case ae_q (entry s4 k) of None \<Rightarrow> Some s4 | Some old \<Rightarrow> free_mem l (Some old) s4);
                      Some (ERR_OK, upd_entry k (\<lambda>e. e\<lparr>ae_q := Some p\<rparr>) s) }) = Some (e, s')"
          by (auto simp: bind_eq_Some_conv)
        note k4 = query_take_keeps [OF r(1)]
        show ?thesis
        proof (cases r)
          case None
          with r(2) keeps_inv [OF k4 i3(1)] show ?thesis by simp
        next
          case (Some p')
          with r(2) obtain s5 where s5: "(case ae_q (entry s4 k) of None \<Rightarrow> Some s4 | Some old \<Rightarrow> free_mem l (Some old) s4) = Some s5"
            "s' = upd_entry k (\<lambda>e. e\<lparr>ae_q := Some p'\<rparr>) s5"
            by (auto simp: bind_eq_Some_conv)
          have "keeps s4 s5" using s5(1) free_mem_keeps by (auto split: option.splits)
          with k4 have k5: "keeps s3 s5" by (rule keeps_trans)
          then have i5: "arp_inv s5" "only_for (n_arp s5) a k" "ae_state (entry s5 k) = ETHARP_STATE_PENDING"
            "entry_ok (entry s5 k)"
            using i3 2 arp_okD(2) [of "n_arp s5" k] k(1) by (auto simp: keeps_def arp_inv_def)
          have e: "entry_ok ((entry s5 k)\<lparr>ae_q := Some p'\<rparr>)"
            using i5(3,4) by (auto simp: entry_ok_def lifetime_def used_def)
          show ?thesis using arp_inv_entry(1) [OF i5(1,2), of s' "(entry s5 k)\<lparr>ae_q := Some p'\<rparr>"] e s5(2) by simp
        qed
      next
        case 3
        with run Some i3 show ?thesis by simp
      qed
    qed
  qed
qed

lemma find_stable_range: "find_stable a i es = Some k \<Longrightarrow> i \<le> k \<and> k < ARP_TABLE_SIZE \<and> ae_state (es ! k) \<ge> ETHARP_STATE_STABLE \<and> a = ae_ipaddr (es ! k)"
proof (induction a i es rule: find_stable.induct)
  case (1 a i es)
  from "1.prems" have r: "i < ARP_TABLE_SIZE" by (simp add: find_stable.simps [of a i] split: if_splits)
  show ?case
  proof (cases "ae_state (es ! i) \<ge> ETHARP_STATE_STABLE \<and> a = ae_ipaddr (es ! i)")
    case True
    with "1.prems" r have "k = i" unfolding find_stable.simps [of a i es] by simp
    with True r show ?thesis by simp
  next
    case False
    with "1.prems" r have "find_stable a (i + 1) es = Some k" by (auto simp: find_stable.simps [of a i])
    from "1.IH" [OF r False this] show ?thesis by simp
  qed
qed

lemma etharp_output_inv:
  assumes "arp_inv s" "etharp_output l netif q a s = Some (e, s')"
  shows "arp_inv s'"
proof -
  obtain fail m where h: "pbuf_header (Some q) SIZEOF_ETH_HDR (n_mem s) = (fail, m)" by fastforce
  let ?s = "s\<lparr>n_mem := m\<rparr>"
  have i: "arp_inv ?s" using assms(1) by (simp add: arp_inv_def)
  have send: "etharp_send_ip l q x y ?s = Some (e, s') \<Longrightarrow> arp_inv s'" for x y
    using i by (auto dest!: etharp_send_ip_keeps intro: keeps_inv)
  have idx: "etharp_output_to_arp_index l netif q k (?s\<lparr>n_cached := k\<rparr>) = Some (e, s') \<Longrightarrow> k < ARP_TABLE_SIZE \<Longrightarrow> arp_inv s'" for k
    using i output_to_arp_index_inv [of "?s\<lparr>n_cached := k\<rparr>" k l netif q e s'] by (simp add: arp_inv_def)
  have idx': "etharp_output_to_arp_index l netif q (n_cached s) ?s = Some (e, s') \<Longrightarrow> arp_inv s'"
    using i output_to_arp_index_inv [of ?s "n_cached s" l netif q e s'] by (simp add: arp_inv_def)
  from assms(2) h i send idx idx' etharp_query_inv [of ?s l netif _ "Some q" e s'] find_stable_range show ?thesis
    by (auto simp: etharp_output_def Let_def split: if_splits option.splits bool.splits)
qed

lemma etharp_cleanup_loop_inv:
  "arp_inv s \<Longrightarrow> etharp_cleanup_loop l netif i s = Some s' \<Longrightarrow> arp_inv s'"
proof (induction "ARP_TABLE_SIZE - i" arbitrary: i s)
  case 0
  then show ?case by (simp add: etharp_cleanup_loop.simps [of l netif i s])
next
  case (Suc n)
  have i: "i < ARP_TABLE_SIZE" "n = ARP_TABLE_SIZE - (i + 1)" using Suc by auto
  from Suc.prems(2) i obtain s1 where s1: "(if ae_state (entry s i) \<noteq> ETHARP_STATE_EMPTY \<and> ae_netif (entry s i) = Some (nif_num netif)
      then etharp_free_entry l i s else Some s) = Some s1" "etharp_cleanup_loop l netif (i + 1) s1 = Some s'"
    by (auto simp: etharp_cleanup_loop.simps [of l netif i s] bind_eq_Some_conv)
  have "arp_inv s1" using s1(1) Suc.prems(1) etharp_free_entry_inv [OF Suc.prems(1) i(1)] by (auto split: if_splits)
  from Suc.hyps(1) [OF i(2) this s1(2)] show ?case .
qed

text \<open>
  \<open>etharp_arp_input\<close> calls \<open>dhcp_arp_reply\<close>, which may call back into ARP.  What it does in the program is in the theory
  ArpReach; here it is any function that keeps the invariant.
\<close>

definition reply_ok :: "'d link_if \<Rightarrow> bool" where
  "reply_ok l \<longleftrightarrow> (\<forall>netif a s. arp_inv s \<longrightarrow> ensures arp_inv (dhcp_arp_reply l netif a s))"

lemma mem_inv [simp]: "arp_inv (s\<lparr>n_mem := m\<rparr>) = arp_inv s"
  by (simp add: arp_inv_def)

lemma free_mem_inv: "arp_inv s \<Longrightarrow> ensures arp_inv (free_mem l p s)"
  using free_mem_keeps keeps_inv by (blast intro: ensuresI)

lemma send_link_inv: "arp_inv s \<Longrightarrow> ensures (\<lambda>(e, s). arp_inv s) (send_link l p s)"
  using send_link_keeps keeps_inv by (blast intro: ensuresI)

lemma update_inv: "arp_inv s \<Longrightarrow> ensures (\<lambda>(e, s). arp_inv s) (etharp_update_arp_entry l netif a ea flags s)"
  using update_arp_entry_inv by (blast intro: ensuresI)

lemma arp_act_inv: "reply_ok l \<Longrightarrow> arp_inv s \<Longrightarrow> ensures arp_inv (arp_act l netif ea hdr p a for_us s)"
  unfolding arp_act_def reply_ok_def by (auto intro!: ensures_bind [OF send_link_inv])

lemma etharp_arp_input_inv:
  assumes "reply_ok l" "arp_inv s"
  shows "ensures arp_inv (etharp_arp_input l netif ea p s)"
proof -
  have "ensures arp_inv (do { (e, s) \<leftarrow> etharp_update_arp_entry l netif a ptr flags s;
      s \<leftarrow> arp_act l netif ea hdr p a f s; free_mem l (Some p) s })" for a ptr flags hdr f
    by (rule ensures_bind [OF update_inv [OF assms(2)]])
      (auto intro!: ensures_bind [OF arp_act_inv [OF assms(1)]] free_mem_inv)
  then show ?thesis using free_mem_inv [OF assms(2)] unfolding etharp_arp_input_def Let_def by (intro ensures_if)
qed

lemma free_and_return_inv: "arp_inv s \<Longrightarrow> ensures (\<lambda>(e, s). arp_inv s) (free_and_return l p s)"
  unfolding free_and_return_def by (auto intro: ensures_bind [OF free_mem_inv])

text \<open>A frame that \<open>ethernet_input\<close> hands to \<open>ip_input\<close>, if it is long enough.\<close>

definition ip_frame :: "ptr \<Rightarrow> 'd net \<Rightarrow> bool" where
  "ip_frame p s \<longleftrightarrow> field16 (pb_payload (p_pbufs (n_mem s) p)) ETH_TYPE (n_mem s) = lwip_htons ETHTYPE_IP"

lemma ethernet_input_inv:
  assumes "reply_ok l" "arp_inv s" "\<not> ip_frame p s"
  shows "ensures (\<lambda>(e, s). arp_inv s) (ethernet_input l p netif s)"
proof -
  have arp: "ensures (\<lambda>(e, s). arp_inv s) (do { s \<leftarrow> etharp_arp_input l netif ea p (s\<lparr>n_mem := m\<rparr>); Some (ERR_OK, s) })" for m ea
    by (rule ensures_bind [OF etharp_arp_input_inv [OF assms(1)]]) (use assms(2) in auto)
  show ?thesis using assms(2) free_and_return_inv [of "s\<lparr>n_mem := _\<rparr>"] free_and_return_inv [of s] arp assms(3)
    unfolding ethernet_input_def Let_def ip_frame_def by (auto intro!: ensures_if)
qed

section \<open>Reachable states\<close>

text \<open>
  The ARP module as a state machine: its entry points, in any order.  The table and the cached index are static variables
  of \<open>etharp.c\<close>: what the rest of the program does, in between and in \<open>ip_input\<close> (the last thing that \<open>ethernet_input\<close> does
  with an IP packet), are changes of the memory and of the device, and further calls of these operations.
\<close>

inductive arp_step :: "'d link_if \<Rightarrow> 'd net \<Rightarrow> 'd net \<Rightarrow> bool" for l where
  tmr: "etharp_tmr l s = Some s' \<Longrightarrow> arp_step l s s'"
| send: "etharp_output l netif q a s = Some (e, s') \<Longrightarrow> arp_step l s s'"
| query: "etharp_query l netif a q s = Some (e, s') \<Longrightarrow> arp_step l s s'"
| request: "etharp_request l netif a s = Some (e, s') \<Longrightarrow> arp_step l s s'"
| input: "\<not> ip_frame p s \<Longrightarrow> ethernet_input l p netif s = Some (e, s') \<Longrightarrow> arp_step l s s'"
| cleanup: "etharp_cleanup_netif l netif s = Some s' \<Longrightarrow> arp_step l s s'"
| find: "etharp_find_addr l a s = Some (r, s') \<Longrightarrow> arp_step l s s'"
| other: "arp_step l s (s\<lparr>n_mem := m, n_dev := d\<rparr>)"

definition arp_empty :: "'d net \<Rightarrow> bool" where
  "arp_empty s \<longleftrightarrow> length (n_arp s) = ARP_TABLE_SIZE \<and> (\<forall>e\<in>set (n_arp s). ae_q e = None \<and> ae_state e = ETHARP_STATE_EMPTY) \<and>
     n_cached s = 0"

inductive arp_reach :: "'d link_if \<Rightarrow> 'd net \<Rightarrow> bool" for l where
  init: "arp_empty s \<Longrightarrow> arp_reach l s"
| step: "arp_reach l s \<Longrightarrow> arp_step l s s' \<Longrightarrow> arp_reach l s'"

lemma arp_empty_inv: "arp_empty s \<Longrightarrow> arp_inv s"
  by (auto simp: arp_empty_def arp_inv_def arp_ok_def entry_ok_def used_def ARP_TABLE_SIZE_def)

lemma find_addr_inv: "arp_inv s \<Longrightarrow> etharp_find_addr l a s = Some (r, s') \<Longrightarrow> arp_inv s'"
  by (auto simp: etharp_find_addr_def etharp_find_entry_def ETHARP_FLAG_FIND_ONLY_def split: sum.splits if_splits)

lemma arp_step_inv: "arp_step l s s' \<Longrightarrow> reply_ok l \<Longrightarrow> arp_inv s \<Longrightarrow> arp_inv s'"
proof (induction rule: arp_step.induct)
  case (tmr s s')
  then show ?case using tmr_loop_table [of s 0 l s'] by (auto simp: etharp_tmr_def arp_inv_def)
next
  case (request netif a s e s')
  then show ?case using etharp_request_keeps keeps_inv by blast
next
  case (input p s netif e s')
  then show ?case using ensuresD [OF ethernet_input_inv] by fastforce
next
  case (other s m d)
  then show ?case by (simp add: arp_inv_def)
qed (auto dest: etharp_output_inv etharp_query_inv find_addr_inv simp: etharp_cleanup_netif_def intro: etharp_cleanup_loop_inv)

lemma arp_reach_inv: "arp_reach l s \<Longrightarrow> reply_ok l \<Longrightarrow> arp_inv s"
  by (induction rule: arp_reach.induct) (auto intro: arp_empty_inv arp_step_inv)

section \<open>Properties\<close>

text \<open>C27: \<open>etharp_find_entry\<close> returns the entry in use for the address when there is one and changes
  nothing; otherwise, unless it may only search or may not recycle, it returns an entry chosen in
  the order of the documentation (an empty one, else the oldest stable one, else the oldest pending
  one without a packet, else the oldest pending one with a packet), emptied and given the address,
  and no other entry changes.\<close>
theorem etharp_find_entry_spec:
  assumes "arp_ok (n_arp s)" and "\<forall>i<ARP_TABLE_SIZE. held s i"
  shows "\<exists>r s'. etharp_find_entry l (Some a) flags s = Some (r, s') \<and>
    (if some_entry (matches a) (n_arp s)
     then (\<exists>k. r = Inr k \<and> k < ARP_TABLE_SIZE \<and> matches a (entry s k)) \<and> s' = s
     else if \<not> may_create (n_arp s) flags then r = Inl ERR_MEM \<and> s' = s
     else \<exists>k. r = Inr k \<and> victim (n_arp s) k \<and> n_arp s' = (n_arp s)[k := renewed a (entry s k)])"
  using assms(1)
proof (cases rule: find_entry_cases [where l = l and a = a and flags = flags])
  case (found k)
  then show ?thesis by (auto simp: some_entry_def)
next
  case refused
  then show ?thesis by simp
next
  case (created k)
  have k: "k < ARP_TABLE_SIZE" using victim_range [OF created(3)] .
  obtain s1 where "(if used (entry s k) then etharp_free_entry l k s else Some s) = Some s1"
    using etharp_free_entry_returns [of s k l] assms(2) k by (cases "used (entry s k)") auto
  then obtain r :: "err_t + nat" and s' where run: "do { s \<leftarrow> (if used (entry s k) then etharp_free_entry l k s else Some s);
      Some (Inr k, upd_entry k (\<lambda>e. e\<lparr>ae_ipaddr := a, ae_ctime := 0\<rparr>) s) } = Some (r, s')" by simp
  from create_entry [OF assms(1) k created(1) run] run created show ?thesis by (intro exI [of _ r] exI [of _ s']) simp
qed

text \<open>C28: entries expire by time alone: \<open>k\<close> calls of \<open>etharp_tmr\<close> return, an entry in use is still in
  use after them exactly when its age plus \<open>k\<close> is below its lifetime (2 calls for a pending, 240 for a
  resolved entry), and one that survives keeps its addresses and its packet.\<close>
theorem etharp_tmr_expires:
  assumes "arp_ok (n_arp s)" and "queues s Q"
  shows "\<exists>s'. ticks l k s = Some s' \<and> length (n_arp s') = ARP_TABLE_SIZE \<and>
    (\<forall>i<ARP_TABLE_SIZE. used (entry s i) \<longrightarrow>
       (used (entry s' i) \<longleftrightarrow> ae_ctime (entry s i) + int k < lifetime (entry s i)) \<and>
       (used (entry s' i) \<longrightarrow> ae_ipaddr (entry s' i) = ae_ipaddr (entry s i) \<and>
          ae_ethaddr (entry s' i) = ae_ethaddr (entry s i) \<and> ae_q (entry s' i) = ae_q (entry s i)))"
proof -
  obtain s' where s': "ticks l k s = Some s'" "n_arp s' = map (aged k) (n_arp s)" using ticks_spec [OF assms, of l k] by blast
  have "length (n_arp s) = ARP_TABLE_SIZE" using assms(1) by (simp add: arp_ok_def)
  with s' aged_entry [of "entry s _" k] arp_okD(2) [OF assms(1)] show ?thesis by (intro exI [of _ s']) simp
qed

end
