(* ===== verification/EtharpFrames.thy ===== *)
theory EtharpFrames
  imports EtharpProps
begin

text \<open>
  The frames ARP sends and receives, byte for byte: the header fields as segments of the frame,
  the frame handed to the device for an outgoing packet and the answer to an ARP request.
\<close>

declare split_paired_All [simp del] split_paired_Ex [simp del]

section \<open>Fields as segments\<close>

fun size_of :: "hdr_field \<Rightarrow> int" where
  "size_of ETH_DEST = 6"
| "size_of ETH_SRC = 6"
| "size_of ETH_TYPE = 2"
| "size_of ARP_HWTYPE = 2"
| "size_of ARP_PROTO = 2"
| "size_of ARP_HWLEN = 1"
| "size_of ARP_PROTOLEN = 1"
| "size_of ARP_OPCODE = 2"
| "size_of ARP_SHWADDR = 6"
| "size_of ARP_SIPADDR = 4"
| "size_of ARP_DHWADDR = 6"
| "size_of ARP_DIPADDR = 4"

definition fld :: "ptr \<Rightarrow> hdr_field \<Rightarrow> pstate \<Rightarrow> u8_t list" where
  "fld h f m = read_bytes (ptr_add h (offset_of f)) (size_of f) m"

lemma fields_disjoint: "f \<noteq> g \<Longrightarrow> offset_of f + size_of f \<le> offset_of g \<or> offset_of g + size_of g \<le> offset_of f"
  by (cases f; cases g) simp_all

lemma size_pos: "0 < size_of f"
  by (cases f) simp_all

lemma length_fld [simp]: "length (fld h f m) = nat (size_of f)"
  by (simp add: fld_def)

lemma read_write_other:
  "snd h + n \<le> snd d \<or> snd d + int (length bs) \<le> snd h \<or> fst h \<noteq> fst d \<Longrightarrow> read_bytes h n (mem_write d bs m) = read_bytes h n m"
  by (auto simp: read_bytes_def bytes_def mem_write_def)

lemma read_write_same: "n = int (length bs) \<Longrightarrow> read_bytes h n (mem_write h bs m) = bs"
  by (rule nth_equalityI) (auto simp: read_bytes_def bytes_def mem_write_def)

lemma fld_put: "int (length bs) = size_of f \<Longrightarrow> fld h g (put h f bs m) = (if g = f then bs else fld h g m)"
  using fields_disjoint [of f g] by (auto simp: fld_def put_def ptr_add_def read_write_same read_write_other)

lemma read_split: "0 \<le> a \<Longrightarrow> 0 \<le> b \<Longrightarrow> read_bytes h (a + b) m = read_bytes h a m @ read_bytes (ptr_add h a) b m"
  by (rule nth_equalityI) (auto simp: read_bytes_def bytes_def ptr_add_def nth_append nat_add_distrib)

lemma ptr_add_add [simp]: "ptr_add (ptr_add h a) b = ptr_add h (a + b)" "ptr_add h 0 = h"
  by (simp_all add: ptr_add_def)

lemma eth_header_bytes: "read_bytes h 14 m = fld h ETH_DEST m @ fld h ETH_SRC m @ fld h ETH_TYPE m"
  using read_split [of 6 8 h m] read_split [of 6 2 "ptr_add h 6" m] by (simp add: fld_def)

lemma arp_frame_bytes:
  "read_bytes h 42 m = fld h ETH_DEST m @ fld h ETH_SRC m @ fld h ETH_TYPE m @ fld h ARP_HWTYPE m @ fld h ARP_PROTO m @
     fld h ARP_HWLEN m @ fld h ARP_PROTOLEN m @ fld h ARP_OPCODE m @ fld h ARP_SHWADDR m @ fld h ARP_SIPADDR m @
     fld h ARP_DHWADDR m @ fld h ARP_DIPADDR m"
proof -
  have a: "read_bytes h 42 m = read_bytes h 14 m @ read_bytes (ptr_add h 14) 28 m" using read_split [of 14 28] by simp
  have b: "read_bytes (ptr_add h 14) 28 m = read_bytes (ptr_add h 14) 8 m @ read_bytes (ptr_add h 22) 20 m"
    using read_split [of 8 20 "ptr_add h 14"] by simp
  have c: "read_bytes (ptr_add h 14) 8 m = read_bytes (ptr_add h 14) 2 m @ read_bytes (ptr_add h 16) 2 m @
      read_bytes (ptr_add h 18) 1 m @ read_bytes (ptr_add h 19) 1 m @ read_bytes (ptr_add h 20) 2 m"
    using read_split [of 2 6 "ptr_add h 14"] read_split [of 2 4 "ptr_add h 16"] read_split [of 1 3 "ptr_add h 18"]
      read_split [of 1 2 "ptr_add h 19"] by simp
  have d: "read_bytes (ptr_add h 22) 20 m = read_bytes (ptr_add h 22) 6 m @ read_bytes (ptr_add h 28) 4 m @
      read_bytes (ptr_add h 32) 6 m @ read_bytes (ptr_add h 38) 4 m"
    using read_split [of 6 14 "ptr_add h 22"] read_split [of 4 10 "ptr_add h 28"] read_split [of 6 4 "ptr_add h 32"] by simp
  show ?thesis unfolding a b c d eth_header_bytes by (simp add: fld_def)
qed

lemma field16_fld: "size_of f = 2 \<Longrightarrow> u16_bytes (field16 h f m) = fld h f m"
  by (simp add: field16_def load16_def u16_bytes_le fld_def read_bytes_def bytes_def ptr_add_def upt_rec)

lemma field32_fld: "size_of f = 4 \<Longrightarrow> u32_bytes (field32 h f m) = fld h f m"
  by (simp add: field32_def load32_def u32_bytes_le fld_def read_bytes_def bytes_def ptr_add_def upt_rec add.assoc)

lemma field8_fld: "size_of f = 1 \<Longrightarrow> fld h f m = [field8 h f m]"
  by (simp add: field8_def fld_def read_bytes_def bytes_def ptr_add_def)

lemma field16_eq: "size_of f = 2 \<Longrightarrow> field16 h f m = x \<longleftrightarrow> fld h f m = u16_bytes x"
  using u16_bytes_inj [of "field16 h f m" x] field16_fld [of f h m] by simp

lemma field_addr_fld: "size_of f = 6 \<Longrightarrow> field_addr h f m = fld h f m"
  by (simp add: field_addr_def fld_def ETHARP_HWADDR_LEN_def)

lemma put_frame [simp]:
  "p_pbufs (put h f bs m) = p_pbufs m" "p_heap (put h f bs m) = p_heap m" "p_pools (put h f bs m) = p_pools m"
  by (simp_all add: put_def)

section \<open>Sending a frame\<close>

text \<open>Headers come and go, but the memory management and the links of the packet buffers stay.\<close>

definition kept :: "pstate \<Rightarrow> pstate \<Rightarrow> bool" where
  "kept m m' \<longleftrightarrow> p_heap m' = p_heap m \<and> p_pools m' = p_pools m \<and> p_original m' = p_original m \<and>
     (\<forall>x. pb_next (p_pbufs m' x) = pb_next (p_pbufs m x) \<and> pb_type (p_pbufs m' x) = pb_type (p_pbufs m x) \<and>
       pb_flags (p_pbufs m' x) = pb_flags (p_pbufs m x) \<and> pb_ref (p_pbufs m' x) = pb_ref (p_pbufs m x))"

lemma kept_refl [simp]: "kept m m"
  by (simp add: kept_def)

lemma kept_trans: "kept m1 m2 \<Longrightarrow> kept m2 m3 \<Longrightarrow> kept m1 m3"
  by (simp add: kept_def)

lemma kept_mem_write [simp]: "kept m (mem_write h bs m') = kept m m'" "kept m (put h f bs m') = kept m m'"
  by (simp_all add: kept_def put_def mem_write_def)

lemma kept_pbuf_header: "pbuf_header (Some q) k m = (f, m') \<Longrightarrow> kept m m'"
  by (auto simp: pbuf_header_def Let_def kept_def split: if_splits)

text \<open>The memory with an Ethernet header written at \<open>h\<close>.\<close>

definition with_header :: "ptr \<Rightarrow> u8_t list \<Rightarrow> u8_t list \<Rightarrow> pstate \<Rightarrow> pstate" where
  "with_header h dst src m = put h ETH_TYPE (u16_bytes (lwip_htons ETHTYPE_IP)) (put h ETH_SRC src (put h ETH_DEST dst m))"

lemma length_u_bytes [simp]: "length (u16_bytes w) = 2" "length (u32_bytes v) = 4"
  by (simp_all add: u16_bytes_def u32_bytes_def)

lemma with_header_bytes:
  "length dst = 6 \<Longrightarrow> length src = 6 \<Longrightarrow> read_bytes h 14 (with_header h dst src m) = dst @ src @ u16_bytes (lwip_htons ETHTYPE_IP)"
  by (simp add: with_header_def eth_header_bytes fld_put)

lemma with_header_writes:
  assumes "length dst = 6" "length src = 6"
  shows "writes (span h 14) (dst @ src @ u16_bytes (lwip_htons ETHTYPE_IP)) m (with_header h dst src m)"
proof -
  have "writes (span h 14) (read_bytes h 14 (with_header h dst src m)) m (with_header h dst src m)"
  proof -
    have "byt (with_header h dst src m) k = byt m k" if "k \<notin> set (span h 14)" for k
    proof -
      have "\<not> (fst k = fst h \<and> snd h \<le> snd k \<and> snd k < snd h + 14)" using that by (simp add: span_mem)
      then show ?thesis using assms by (auto simp: with_header_def put_def mem_write_def byt_def ptr_add_def)
    qed
    then show ?thesis by (simp add: writes_def read_span with_header_def)
  qed
  then show ?thesis using with_header_bytes [OF assms] by simp
qed

lemma send_ip_header: "etharp_send_ip l p src dst s = send_link l p (s\<lparr>n_mem := with_header (pb_payload (p_pbufs (n_mem s) p)) dst src (n_mem s)\<rparr>)"
  by (simp add: etharp_send_ip_def with_header_def Let_def)

text \<open>Making room for the header and writing it: the packet then is the header and the old packet.\<close>

lemma header_frame:
  assumes "packet m (Some q) (q # xs)" and t: "pb_type (p_pbufs m q) = PBUF_RAM \<or> pb_type (p_pbufs m q) = PBUF_POOL"
    and room: "snd q + SIZEOF_STRUCT_PBUF + 14 \<le> snd (pb_payload (p_pbufs m q))"
    and tl: "tot m (q # xs) + 14 \<le> 65535" and len: "length dst = 6" "length src = 6"
    and apart: "set (span (ptr_add (pb_payload (p_pbufs m q)) (- 14)) 14) \<inter> set (addrs m (q # xs)) = {}"
  shows "\<exists>m1. pbuf_header (Some q) SIZEOF_ETH_HDR m = (False, m1) \<and>
    packet (with_header (pb_payload (p_pbufs m1 q)) dst src m1) (Some q) (q # xs) \<and>
    data (with_header (pb_payload (p_pbufs m1 q)) dst src m1) (q # xs) =
      dst @ src @ u16_bytes (lwip_htons ETHTYPE_IP) @ data m (q # xs)"
proof -
  let ?h = "ptr_add (pb_payload (p_pbufs m q)) (- 14)"
  have l: "0 \<le> pb_len (p_pbufs m q)" "pb_tot_len (p_pbufs m q) = tot m (q # xs)" "0 \<le> tot m xs" "q \<notin> set xs"
    using assms(1) tot_nonneg [of m xs] chain_distinct [of m "Some q" "q # xs"] by (auto simp: packet_def)
  let ?m1 = "upd_pbuf q (\<lambda>x. x\<lparr>pb_payload := ?h, pb_len := c_u16 (pb_len x + 14), pb_tot_len := c_u16 (pb_tot_len x + 14)\<rparr>) m"
  have hdr: "pbuf_header (Some q) SIZEOF_ETH_HDR m = (False, ?m1)"
    using pbuf_header_grow [of 14 m q] t room by (simp add: SIZEOF_ETH_HDR_def)
  have q1: "pb_payload (p_pbufs ?m1 q) = ?h" "pb_len (p_pbufs ?m1 q) = 14 + pb_len (p_pbufs m q)"
    using l tl by (auto simp: c_u16_id)
  let ?m2 = "with_header ?h dst src ?m1"
  have w: "writes (span ?h 14) (dst @ src @ u16_bytes (lwip_htons ETHTYPE_IP)) ?m1 ?m2" by (rule with_header_writes [OF len])
  have p2: "p_pbufs ?m2 = p_pbufs ?m1" by (simp add: with_header_def)
  have "pb_data ?m2 q = read_bytes ?h 14 ?m2 @ read_bytes (pb_payload (p_pbufs m q)) (pb_len (p_pbufs m q)) ?m2"
    using read_split [of 14 "pb_len (p_pbufs m q)" ?h ?m2] l(1) q1 by (simp add: pb_data_def p2)
  also have "read_bytes ?h 14 ?m2 = dst @ src @ u16_bytes (lwip_htons ETHTYPE_IP)" by (rule with_header_bytes [OF len])
  also have "read_bytes (pb_payload (p_pbufs m q)) (pb_len (p_pbufs m q)) ?m2 = pb_data m q"
  proof -
    have "set (pb_addrs m q) \<inter> set (span ?h 14) = {}" using apart by auto
    then have "map (byt ?m2) (pb_addrs m q) = map (byt m) (pb_addrs m q)"
      using w by (intro map_cong refl) (auto simp: writes_def disjoint_iff byt_def)
    then show ?thesis by (simp add: read_span pb_addrs_def pb_data_addrs)
  qed
  finally have d: "pb_data ?m2 q = dst @ src @ u16_bytes (lwip_htons ETHTYPE_IP) @ pb_data m q" by simp
  have e: "addrs ?m1 xs = addrs m xs" "data ?m1 xs = data m xs"
  proof -
    have o: "\<forall>x\<in>set xs. p_pbufs ?m1 x = p_pbufs m x" using l(4) by auto
    show "addrs ?m1 xs = addrs m xs" unfolding addrs_def by (intro arg_cong [where f = concat] map_cong refl) (use o in \<open>simp add: pb_addrs_def\<close>)
    show "data ?m1 xs = data m xs" by (rule data_cong) (use o in auto)
  qed
  have "data ?m2 xs = data ?m1 xs" by (rule writes_data_other [OF w]) (use apart e(1) in auto)
  moreover have "packet ?m2 (Some q) (q # xs)"
  proof -
    have "\<forall>x\<in>set xs. p_pbufs ?m2 x = p_pbufs m x" using l(4) by (auto simp: p2)
    note same_pbufs [OF this]
    then show ?thesis using assms(1) l tl by (simp add: packet_def p2 c_u16_id)
  qed
  ultimately show ?thesis using d e hdr q1(1) by (intro exI [of _ ?m1]) simp
qed

section \<open>Where a packet goes\<close>

definition next_hop :: "netif \<Rightarrow> u32_t \<Rightarrow> u32_t option" where
  "next_hop netif a =
     (if ip_addr_netcmp a (nif_ip_addr netif) (nif_netmask netif) \<or> ip_addr_islinklocal a then Some a
      else if nif_gw netif = IPADDR_ANY then None else Some (nif_gw netif))"

text \<open>The table maps the address \<open>g\<close> to \<open>dst\<close>, by an entry that need not be requested again yet.\<close>

definition knows :: "etharp_entry list \<Rightarrow> u32_t \<Rightarrow> u8_t list \<Rightarrow> bool" where
  "knows es g dst \<longleftrightarrow> (\<exists>k<ARP_TABLE_SIZE. resolved (es ! k) \<and> ae_ipaddr (es ! k) = g \<and> ae_ethaddr (es ! k) = dst \<and>
     \<not> (ae_state (es ! k) = ETHARP_STATE_STABLE \<and> ae_ctime (es ! k) \<ge> ARP_AGE_REREQUEST_USED))"

definition link_dest :: "netif \<Rightarrow> etharp_entry list \<Rightarrow> u32_t \<Rightarrow> u8_t list \<Rightarrow> bool" where
  "link_dest netif es a dst \<longleftrightarrow>
     (if ip4_addr_isbroadcast a netif then dst = [0xff, 0xff, 0xff, 0xff, 0xff, 0xff]
      else if ip_addr_ismulticast a then dst = [0x01, 0x00, 0x5e, byte_of 1 a AND 0x7f, byte_of 2 a, byte_of 3 a]
      else \<exists>g. next_hop netif a = Some g \<and> knows es g dst)"

lemma find_stable_None: "find_stable a i es = None \<Longrightarrow> i \<le> k \<Longrightarrow> k < ARP_TABLE_SIZE \<Longrightarrow> \<not> (resolved (es ! k) \<and> a = ae_ipaddr (es ! k))"
proof (induction a i es rule: find_stable.induct)
  case (1 a i es)
  have i: "i < ARP_TABLE_SIZE" using "1.prems" by simp
  have n: "\<not> (ae_state (es ! i) \<ge> ETHARP_STATE_STABLE \<and> a = ae_ipaddr (es ! i))"
    using "1.prems"(1) i unfolding find_stable.simps [of a i es] by (auto split: if_splits)
  then have "find_stable a (i + 1) es = None" using "1.prems"(1) i unfolding find_stable.simps [of a i es] by (auto split: if_splits)
  from "1.IH" [OF i n this] "1.prems"(2,3) n show ?case by (cases "k = i") (auto simp: resolved_def)
qed

lemma output_to_index_known:
  "\<not> (ae_state (entry s k) = ETHARP_STATE_STABLE \<and> ae_ctime (entry s k) \<ge> ARP_AGE_REREQUEST_USED) \<Longrightarrow>
     etharp_output_to_arp_index l netif q k s = etharp_send_ip l q (nif_hwaddr netif) (ae_ethaddr (entry s k)) s"
  by (auto simp: etharp_output_to_arp_index_def)

lemma etharp_output_header:
  assumes "pbuf_header (Some q) SIZEOF_ETH_HDR (n_mem s) = (False, m1)" "link_dest netif (n_arp s) a dst"
    "arp_ok (n_arp s)" "n_cached s < ARP_TABLE_SIZE"
  shows "\<exists>c. etharp_output l netif q a s =
    send_link l q (s\<lparr>n_mem := with_header (pb_payload (p_pbufs m1 q)) dst (nif_hwaddr netif) m1, n_cached := c\<rparr>)"
proof -
  let ?s = "s\<lparr>n_mem := m1\<rparr>"
  note start = etharp_output_def [of l netif q a s, unfolded assms(1) prod.case Let_def bool.case]
  have swap: "s\<lparr>n_cached := c, n_mem := m\<rparr> = s\<lparr>n_mem := m, n_cached := c\<rparr>" for c m by simp
  have sendc: "etharp_send_ip l q (nif_hwaddr netif) d (?s\<lparr>n_cached := c\<rparr>) =
      send_link l q (s\<lparr>n_mem := with_header (pb_payload (p_pbufs m1 q)) d (nif_hwaddr netif) m1, n_cached := c\<rparr>)" for d c
    by (simp add: send_ip_header swap)
  have sends: "etharp_send_ip l q (nif_hwaddr netif) d ?s =
      send_link l q (s\<lparr>n_mem := with_header (pb_payload (p_pbufs m1 q)) d (nif_hwaddr netif) m1, n_cached := n_cached s\<rparr>)" for d
    by (simp add: send_ip_header)
  consider "ip4_addr_isbroadcast a netif" | "\<not> ip4_addr_isbroadcast a netif" "ip_addr_ismulticast a"
    | "\<not> ip4_addr_isbroadcast a netif" "\<not> ip_addr_ismulticast a" by blast
  then show ?thesis
  proof cases
    case 1
    then have "dst = ethbroadcast" using assms(2) by (simp add: link_dest_def ethbroadcast_def)
    then show ?thesis using 1 sends unfolding start by (intro exI [of _ "n_cached s"]) simp
  next
    case 2
    then have "dst = [LL_MULTICAST_ADDR_0, LL_MULTICAST_ADDR_1, LL_MULTICAST_ADDR_2, byte_of 1 a AND 0x7f, byte_of 2 a, byte_of 3 a]"
      using assms(2) by (simp add: link_dest_def LL_MULTICAST_ADDR_0_def LL_MULTICAST_ADDR_1_def LL_MULTICAST_ADDR_2_def)
    then show ?thesis using 2 sends unfolding start by (intro exI [of _ "n_cached s"]) simp
  next
    case 3
    then obtain g k where g: "next_hop netif a = Some g" "k < ARP_TABLE_SIZE" "resolved (entry s k)" "ae_ipaddr (entry s k) = g"
      "ae_ethaddr (entry s k) = dst"
      "\<not> (ae_state (entry s k) = ETHARP_STATE_STABLE \<and> ae_ctime (entry s k) \<ge> ARP_AGE_REREQUEST_USED)"
      using assms(2) by (auto simp: link_dest_def knows_def)
    have u: "used e" if "resolved e" for e
      using that by (cases "ae_state e") (auto simp: resolved_def used_def less_eq_etharp_state_def)
    have uniq: "j = k" if "j < ARP_TABLE_SIZE" "resolved (entry s j)" "ae_ipaddr (entry s j) = g" for j
      using that g(2,3,4) u arp_okD(3) [OF assms(3) g(2)] by (auto simp: only_for_def)
    define off_net where "off_net \<longleftrightarrow> \<not> ip_addr_netcmp a (nif_ip_addr netif) (nif_netmask netif) \<and> \<not> ip_addr_islinklocal a"
    have gd: "\<not> (off_net \<and> nif_gw netif = IPADDR_ANY)" "(if off_net then nif_gw netif else a) = g"
      using g(1) by (auto simp: next_hop_def off_net_def split: if_splits)
    have run: "etharp_output l netif q a s =
      (if ae_state (entry s (n_cached s)) \<ge> ETHARP_STATE_STABLE \<and> g = ae_ipaddr (entry s (n_cached s))
       then etharp_output_to_arp_index l netif q (n_cached s) ?s
       else case find_stable g 0 (n_arp s) of Some i \<Rightarrow> etharp_output_to_arp_index l netif q i (?s\<lparr>n_cached := i\<rparr>)
            | None \<Rightarrow> etharp_query l netif g (Some q) ?s)"
      unfolding start if_not_P [OF 3(1)] if_not_P [OF 3(2)] off_net_def [symmetric] if_not_P [OF gd(1)] gd(2) by simp
    show ?thesis
    proof (cases "ae_state (entry s (n_cached s)) \<ge> ETHARP_STATE_STABLE \<and> g = ae_ipaddr (entry s (n_cached s))")
      case True
      then have "n_cached s = k" using uniq [OF assms(4)] by (simp add: resolved_def)
      then show ?thesis using run True g(5,6) output_to_index_known [of ?s k] sends by (intro exI [of _ "n_cached s"]) simp
    next
      case False
      obtain i where i: "find_stable g 0 (n_arp s) = Some i"
        using find_stable_None [of g 0 "n_arp s" k] g(2-4) by (cases "find_stable g 0 (n_arp s)") auto
      then have "i = k" using find_stable_range [OF i] uniq by (auto simp: resolved_def)
      then show ?thesis using run False i g(5,6) output_to_index_known [of "?s\<lparr>n_cached := k\<rparr>" k] sendc [of dst k] by auto
    qed
  qed
qed

lemma etharp_output_sends:
  assumes "arp_ok (n_arp s)" and "n_cached s < ARP_TABLE_SIZE" and "link_dest netif (n_arp s) a dst"
    and "length dst = 6" and "length (nif_hwaddr netif) = 6"
    and "packet (n_mem s) (Some q) (q # xs)" and "tot (n_mem s) (q # xs) + 14 \<le> 65535"
    and "pb_type (p_pbufs (n_mem s) q) = PBUF_RAM \<or> pb_type (p_pbufs (n_mem s) q) = PBUF_POOL"
    and "snd q + SIZEOF_STRUCT_PBUF + 14 \<le> snd (pb_payload (p_pbufs (n_mem s) q))"
    and "set (span (ptr_add (pb_payload (p_pbufs (n_mem s) q)) (- 14)) 14) \<inter> set (addrs (n_mem s) (q # xs)) = {}"
  shows "\<exists>m c. packet m (Some q) (q # xs) \<and> data m (q # xs) = dst @ nif_hwaddr netif @ [0x08, 0x00] @ data (n_mem s) (q # xs) \<and>
    kept (n_mem s) m \<and>
    etharp_output l netif q a s =
      (case linkoutput l q m (n_dev s) of None \<Rightarrow> None
       | Some (e, d) \<Rightarrow> Some (e, s\<lparr>n_mem := m, n_cached := c, n_dev := d\<rparr>))"
proof -
  obtain m1 where m1: "pbuf_header (Some q) SIZEOF_ETH_HDR (n_mem s) = (False, m1)"
    "packet (with_header (pb_payload (p_pbufs m1 q)) dst (nif_hwaddr netif) m1) (Some q) (q # xs)"
    "data (with_header (pb_payload (p_pbufs m1 q)) dst (nif_hwaddr netif) m1) (q # xs) =
       dst @ nif_hwaddr netif @ u16_bytes (lwip_htons ETHTYPE_IP) @ data (n_mem s) (q # xs)"
    using header_frame [OF assms(6,8,9,7,4,5,10)] by blast
  obtain c where c: "etharp_output l netif q a s =
    send_link l q (s\<lparr>n_mem := with_header (pb_payload (p_pbufs m1 q)) dst (nif_hwaddr netif) m1, n_cached := c\<rparr>)"
    using etharp_output_header [OF m1(1) assms(3,1,2)] by blast
  have "u16_bytes (lwip_htons ETHTYPE_IP) = [0x08, 0x00]"
    unfolding htons_bytes by (simp add: u16_bytes_def byte_of_def ETHTYPE_IP_def)
  moreover have "kept (n_mem s) (with_header (pb_payload (p_pbufs m1 q)) dst (nif_hwaddr netif) m1)"
    using kept_pbuf_header [OF m1(1)] by (simp add: with_header_def)
  ultimately show ?thesis using m1(2,3) c
    by (intro exI [of _ "with_header (pb_payload (p_pbufs m1 q)) dst (nif_hwaddr netif) m1"] exI [of _ c])
      (simp add: send_link_def split: option.split bind_split)
qed

text \<open>A packet with room for the header, sent to a broadcast or multicast address or to an address
  whose next hop is resolved in the ARP table, is handed to the device exactly once, as the Ethernet
  header for that destination (all ones, the multicast mapping, or the address in the table; the gateway's
  for a destination off the network) followed by the packet, and no entry of the table changes.\<close>
theorem etharp_output_frame:
  assumes "arp_ok (n_arp s)" and "n_cached s < ARP_TABLE_SIZE" and "link_dest netif (n_arp s) a dst"
    and "length dst = 6" and "length (nif_hwaddr netif) = 6"
    and "packet (n_mem s) (Some q) (q # xs)" and "tot (n_mem s) (q # xs) + 14 \<le> 65535"
    and "pb_type (p_pbufs (n_mem s) q) = PBUF_RAM \<or> pb_type (p_pbufs (n_mem s) q) = PBUF_POOL"
    and "snd q + SIZEOF_STRUCT_PBUF + 14 \<le> snd (pb_payload (p_pbufs (n_mem s) q))"
    and "set (span (ptr_add (pb_payload (p_pbufs (n_mem s) q)) (- 14)) 14) \<inter> set (addrs (n_mem s) (q # xs)) = {}"
  shows "\<exists>m c. data m (q # xs) = dst @ nif_hwaddr netif @ [0x08, 0x00] @ data (n_mem s) (q # xs) \<and>
    etharp_output l netif q a s =
      (case linkoutput l q m (n_dev s) of None \<Rightarrow> None
       | Some (e, d) \<Rightarrow> Some (e, s\<lparr>n_mem := m, n_cached := c, n_dev := d\<rparr>))"
  using etharp_output_sends [OF assms] by blast

section \<open>Learning an address\<close>

lemma etharp_free_entry_mem:
  assumes "queues s Q" "i < ARP_TABLE_SIZE"
  shows "\<exists>s'. etharp_free_entry l i s = Some s' \<and> p_bytes (n_mem s') = p_bytes (n_mem s) \<and>
    (\<forall>x. x \<notin> set (Q i) \<longrightarrow> p_pbufs (n_mem s') x = p_pbufs (n_mem s) x)"
proof (cases "ae_q (entry s i)")
  case None
  then show ?thesis by (simp add: etharp_free_entry_def)
next
  case (Some q)
  have "case ae_q (entry s i) of None \<Rightarrow> Q i = []
      | Some q \<Rightarrow> chain (n_mem s) (Some q) (Q i) \<and> refs_ok (n_mem s) (Q i)"
    using assms unfolding queues_def by blast
  then have c: "chain (n_mem s) (Some q) (Q i)" "refs_ok (n_mem s) (Q i)" using Some by simp_all
  from pbuf_free_frame [OF c, of "custom_free l"] Some show ?thesis
    by (fastforce simp: etharp_free_entry_def free_mem_def)
qed

definition unicast :: "u32_t \<Rightarrow> netif \<Rightarrow> bool" where
  "unicast a netif \<longleftrightarrow> \<not> (a = IPADDR_ANY \<or> ip4_addr_isbroadcast a netif \<or> ip_addr_ismulticast a)"

lemma find_entry_try_hard:
  assumes "arp_ok (n_arp s)" "queues s Q" "\<forall>i<ARP_TABLE_SIZE. matches a (entry s i) \<longrightarrow> ae_q (entry s i) = None"
  shows "\<exists>k s'. etharp_find_entry l (Some a) ETHARP_FLAG_TRY_HARD s = Some (Inr k, s') \<and> k < ARP_TABLE_SIZE \<and>
    length (n_arp s') = ARP_TABLE_SIZE \<and>
    ae_ipaddr (entry s' k) = a \<and> ae_q (entry s' k) = None \<and> n_dev s' = n_dev s \<and> p_bytes (n_mem s') = p_bytes (n_mem s) \<and>
    (\<forall>x. (\<forall>i<ARP_TABLE_SIZE. x \<notin> set (Q i)) \<longrightarrow> p_pbufs (n_mem s') x = p_pbufs (n_mem s) x)"
  using assms(1)
proof (cases rule: find_entry_cases [where l = l and a = a and flags = ETHARP_FLAG_TRY_HARD])
  case (found k)
  then show ?thesis using assms(3) arp_okD(1) [OF assms(1)] by (auto simp: matches_def)
next
  case refused
  then show ?thesis by (simp add: may_create_def ETHARP_FLAG_FIND_ONLY_def ETHARP_FLAG_TRY_HARD_def)
next
  case (created k)
  have k: "k < ARP_TABLE_SIZE" using victim_range [OF created(3)] .
  obtain s1 where s1: "(if used (entry s k) then etharp_free_entry l k s else Some s) = Some s1"
    "p_bytes (n_mem s1) = p_bytes (n_mem s)" "\<forall>x. x \<notin> set (Q k) \<longrightarrow> p_pbufs (n_mem s1) x = p_pbufs (n_mem s) x"
    using etharp_free_entry_mem [OF assms(2) k, of l] by (cases "used (entry s k)") auto
  let ?s' = "upd_entry k (\<lambda>e. e\<lparr>ae_ipaddr := a, ae_ctime := 0\<rparr>) s1"
  have run: "do { s \<leftarrow> (if used (entry s k) then etharp_free_entry l k s else Some s);
      Some (Inr k, upd_entry k (\<lambda>e. e\<lparr>ae_ipaddr := a, ae_ctime := 0\<rparr>) s) } = Some (Inr k :: err_t + nat, ?s')"
    using s1(1) by simp
  note c = create_entry [OF assms(1) k created(1) run]
  have "etharp_find_entry l (Some a) ETHARP_FLAG_TRY_HARD s = Some (Inr k, ?s')" using created(4) run by simp
  then show ?thesis using c(2,6) k arp_okD(1) [OF assms(1)] arp_okD(1) [OF c(3)] s1(2,3)
    by (intro exI [of _ k] exI [of _ ?s']) simp
qed

definition learned :: "netif \<Rightarrow> u32_t \<Rightarrow> u8_t list \<Rightarrow> etharp_entry \<Rightarrow> bool" where
  "learned netif a hw e \<longleftrightarrow> ae_state e = ETHARP_STATE_STABLE \<and> ae_ipaddr e = a \<and> ae_ethaddr e = hw \<and>
     ae_netif e = Some (nif_num netif) \<and> ae_ctime e = 0 \<and> ae_q e = None"

lemma update_learns:
  assumes "arp_ok (n_arp s)" "queues s Q" "\<forall>i<ARP_TABLE_SIZE. matches a (entry s i) \<longrightarrow> ae_q (entry s i) = None"
    "unicast a netif"
  shows "\<exists>k s'. etharp_update_arp_entry l netif a ptr ETHARP_FLAG_TRY_HARD s = Some (ERR_OK, s') \<and> k < ARP_TABLE_SIZE \<and>
    learned netif a (read_bytes ptr 6 (n_mem s)) (entry s' k) \<and> n_dev s' = n_dev s \<and> p_bytes (n_mem s') = p_bytes (n_mem s) \<and>
    (\<forall>x. (\<forall>i<ARP_TABLE_SIZE. x \<notin> set (Q i)) \<longrightarrow> p_pbufs (n_mem s') x = p_pbufs (n_mem s) x)"
proof -
  obtain k s1 where f: "etharp_find_entry l (Some a) ETHARP_FLAG_TRY_HARD s = Some (Inr k, s1)" "k < ARP_TABLE_SIZE"
    "length (n_arp s1) = ARP_TABLE_SIZE" "ae_ipaddr (entry s1 k) = a" "ae_q (entry s1 k) = None" "n_dev s1 = n_dev s"
    "p_bytes (n_mem s1) = p_bytes (n_mem s)"
    "\<forall>x. (\<forall>i<ARP_TABLE_SIZE. x \<notin> set (Q i)) \<longrightarrow> p_pbufs (n_mem s1) x = p_pbufs (n_mem s) x"
    using find_entry_try_hard [OF assms(1-3)] by blast
  have r: "read_bytes ptr ETHARP_HWADDR_LEN (n_mem s1) = read_bytes ptr 6 (n_mem s)"
    using f(7) by (simp add: read_bytes_def ETHARP_HWADDR_LEN_def)
  show ?thesis using f assms(4) r
    by (intro exI [of _ k] exI [of _ "upd_entry k (\<lambda>e. e\<lparr>ae_state := ETHARP_STATE_STABLE, ae_netif := Some (nif_num netif),
        ae_ethaddr := read_bytes ptr 6 (n_mem s), ae_ctime := 0\<rparr>) s1"])
      (simp add: etharp_update_arp_entry_def unicast_def learned_def upd_entry_def)
qed

section \<open>Answering a request\<close>

lemma reply_fields:
  assumes "length ea = 6"
  shows "fld h f (arp_make_reply netif ea h m) =
    (case f of ETH_DEST \<Rightarrow> fld h ARP_SHWADDR m | ETH_SRC \<Rightarrow> ea | ARP_OPCODE \<Rightarrow> u16_bytes (lwip_htons ARP_REPLY)
     | ARP_SHWADDR \<Rightarrow> ea | ARP_SIPADDR \<Rightarrow> u32_bytes (nif_ip_addr netif) | ARP_DHWADDR \<Rightarrow> fld h ARP_SHWADDR m
     | ARP_DIPADDR \<Rightarrow> fld h ARP_SIPADDR m | _ \<Rightarrow> fld h f m)"
proof -
  have s: "read_bytes (ptr_add h (offset_of ARP_SIPADDR)) 4 m' = fld h ARP_SIPADDR m'" for m' by (simp add: fld_def)
  show ?thesis unfolding arp_make_reply_def Let_def s using assms
    by (cases f) (simp_all add: fld_put field_addr_fld)
qed

lemma reply_frame [simp]:
  "p_pbufs (arp_make_reply netif ea h m) = p_pbufs m" "p_heap (arp_make_reply netif ea h m) = p_heap m"
  "p_pools (arp_make_reply netif ea h m) = p_pools m"
  by (simp_all add: arp_make_reply_def Let_def)

lemma put_outside: "offset_of f + int (length bs) \<le> 42 \<Longrightarrow> r \<notin> set (span h 42) \<Longrightarrow> byt (put h f bs m) r = byt m r"
proof -
  assume f: "offset_of f + int (length bs) \<le> 42" and r: "r \<notin> set (span h 42)"
  have "0 \<le> offset_of f" by (cases f) simp_all
  then have "r \<notin> set (span (ptr_add h (offset_of f)) (int (length bs)))" using f r by (auto simp: span_mem ptr_add_def)
  then show ?thesis using mem_write_writes [of "ptr_add h (offset_of f)" bs m] by (simp add: put_def writes_def)
qed

lemma reply_outside:
  assumes "length ea = 6" "r \<notin> set (span h 42)"
  shows "byt (arp_make_reply netif ea h m) r = byt m r"
  using assms unfolding arp_make_reply_def Let_def by (simp add: put_outside field_addr_def ETHARP_HWADDR_LEN_def)

text \<open>The fields of an ARP request from \<open>hw\<close>, \<open>a\<close> for the address of the interface.\<close>

definition arp_request_for :: "netif \<Rightarrow> ptr \<Rightarrow> u8_t list \<Rightarrow> u32_t \<Rightarrow> pstate \<Rightarrow> bool" where
  "arp_request_for netif h hw a m \<longleftrightarrow>
     fld h ETH_TYPE m = [0x08, 0x06] \<and> fld h ARP_HWTYPE m = [0x00, 0x01] \<and> fld h ARP_PROTO m = [0x08, 0x00] \<and>
     fld h ARP_HWLEN m = [6] \<and> fld h ARP_PROTOLEN m = [4] \<and> fld h ARP_OPCODE m = [0x00, 0x01] \<and>
     fld h ARP_SHWADDR m = hw \<and> fld h ARP_SIPADDR m = u32_bytes a \<and> fld h ARP_DIPADDR m = u32_bytes (nif_ip_addr netif)"

lemma proto_bytes:
  "u16_bytes (lwip_htons ETHTYPE_IP) = [0x08, 0x00]" "u16_bytes (lwip_htons ETHTYPE_ARP) = [0x08, 0x06]"
  "u16_bytes (lwip_htons HWTYPE_ETHERNET) = [0x00, 0x01]" "u16_bytes (lwip_htons ARP_REQUEST) = [0x00, 0x01]"
  "u16_bytes (lwip_htons ARP_REPLY) = [0x00, 0x02]"
  unfolding htons_bytes
  by (simp_all add: u16_bytes_def byte_of_def ETHTYPE_IP_def ETHTYPE_ARP_def HWTYPE_ETHERNET_def ARP_REQUEST_def ARP_REPLY_def)

lemma arp_request_fields:
  assumes "arp_request_for netif h hw a m"
  shows "field16 h ETH_TYPE m = lwip_htons ETHTYPE_ARP" "field16 h ARP_HWTYPE m = lwip_htons HWTYPE_ETHERNET"
    "field16 h ARP_PROTO m = lwip_htons ETHTYPE_IP" "field16 h ARP_OPCODE m = lwip_htons ARP_REQUEST"
    "field8 h ARP_HWLEN m = 6" "field8 h ARP_PROTOLEN m = 4" "field32 h ARP_SIPADDR m = a"
    "field32 h ARP_DIPADDR m = nif_ip_addr netif"
  using assms field8_fld [of ARP_HWLEN h m] field8_fld [of ARP_PROTOLEN h m]
    u32_bytes_inj [of "field32 h ARP_SIPADDR m" a] field32_fld [of ARP_SIPADDR h m]
    u32_bytes_inj [of "field32 h ARP_DIPADDR m" "nif_ip_addr netif"] field32_fld [of ARP_DIPADDR h m]
  by (simp_all add: arp_request_for_def field16_eq proto_bytes)

lemma fld_bytes: "p_bytes m' = p_bytes m \<Longrightarrow> fld h f m' = fld h f m"
  by (simp add: fld_def read_bytes_def)

lemma mark_link_cast_frame:
  "p_bytes (mark_link_cast p d m) = p_bytes m" "pb_next (p_pbufs (mark_link_cast p d m) x) = pb_next (p_pbufs m x)"
  "pb_payload (p_pbufs (mark_link_cast p d m) x) = pb_payload (p_pbufs m x)"
  "pb_len (p_pbufs (mark_link_cast p d m) x) = pb_len (p_pbufs m x)"
  "pb_ref (p_pbufs (mark_link_cast p d m) x) = pb_ref (p_pbufs m x)"
  "pb_type (p_pbufs (mark_link_cast p d m) x) = pb_type (p_pbufs m x)"
  "x \<noteq> p \<Longrightarrow> p_pbufs (mark_link_cast p d m) x = p_pbufs m x"
  "pb_flags (p_pbufs (mark_link_cast p d m) x) AND PBUF_FLAG_IS_CUSTOM = pb_flags (p_pbufs m x) AND PBUF_FLAG_IS_CUSTOM"
  by (auto simp: mark_link_cast_def bit.conj_disj_distrib2 PBUF_FLAG_LLMCAST_def PBUF_FLAG_LLBCAST_def PBUF_FLAG_IS_CUSTOM_def)

lemma mark_link_cast_refs: "refs_ok (mark_link_cast p d m) xs = refs_ok m xs" "chain (mark_link_cast p d m) r xs = chain m r xs"
  using chain_cong [of xs "mark_link_cast p d m" m r] by (simp_all add: refs_ok_def stored_def mark_link_cast_frame)

lemma mark_link_cast_tot: "pb_tot_len (p_pbufs (mark_link_cast p d m) x) = pb_tot_len (p_pbufs m x)"
  by (simp add: mark_link_cast_def)

text \<open>A packet whose first 42 bytes have been written.\<close>

lemma written_header:
  assumes p: "packet m0 (Some p) xs" "distinct (addrs m0 xs)" and h: "h = pb_payload (p_pbufs m0 p)" "42 \<le> pb_len (p_pbufs m0 p)"
    and same: "\<forall>x\<in>set xs. pb_next (p_pbufs m x) = pb_next (p_pbufs m0 x) \<and> pb_payload (p_pbufs m x) = pb_payload (p_pbufs m0 x) \<and>
      pb_len (p_pbufs m x) = pb_len (p_pbufs m0 x) \<and> pb_tot_len (p_pbufs m x) = pb_tot_len (p_pbufs m0 x)"
    and out: "\<forall>r. r \<notin> set (span h 42) \<longrightarrow> byt m r = byt m0 r"
  shows "packet m (Some p) xs \<and> data m xs = read_bytes h 42 m @ drop 42 (data m0 xs)"
proof -
  obtain ys where xs: "xs = p # ys" using p(1) by (cases xs) (auto simp: packet_def)
  let ?n = "pb_len (p_pbufs m0 p)"
  have ad: "pb_addrs m x = pb_addrs m0 x" if "x \<in> set xs" for x using same that by (simp add: pb_addrs_def)
  have ads: "addrs m ys = addrs m0 ys" unfolding addrs_def by (intro arg_cong [of _ _ concat] map_cong refl ad) (simp add: xs)
  have pa: "pb_addrs m0 p = span h 42 @ span (ptr_add h 42) (?n - 42)"
    using span_append [of 42 "?n - 42" h] h by (simp add: pb_addrs_def)
  have e: "map (byt m) ks = map (byt m0) ks" if "set ks \<inter> set (span h 42) = {}" for ks using out that by auto
  have d: "set (span (ptr_add h 42) (?n - 42)) \<inter> set (span h 42) = {}" "set (addrs m0 ys) \<inter> set (span h 42) = {}"
    using p(2) by (auto simp: xs pa addrs_def)
  have "data m xs = map (byt m) (span h 42) @ map (byt m) (span (ptr_add h 42) (?n - 42)) @ map (byt m) (addrs m0 ys)"
    using ad [of p] ads by (simp add: data_addrs xs addrs_def pa)
  also have "\<dots> = read_bytes h 42 m @ drop 42 (data m0 xs)"
    unfolding e [OF d(1)] e [OF d(2)] read_span by (simp add: data_addrs xs addrs_def pa)
  finally have "data m xs = read_bytes h 42 m @ drop 42 (data m0 xs)" .
  moreover have "chain m (Some p) xs = chain m0 (Some p) xs" using same by (intro chain_cong) simp
  moreover have "lens_ok m xs = lens_ok m0 xs" using same by (intro lens_ok_cong) simp
  ultimately show ?thesis using p(1) by (simp add: packet_def)
qed

lemma arp_input_answers:
  assumes ok: "arp_ok (n_arp s)" "queues s Q" "\<forall>i<ARP_TABLE_SIZE. matches a (entry s i) \<longrightarrow> ae_q (entry s i) = None"
    and p: "chain (n_mem s) (Some p) xs" "refs_ok (n_mem s) xs" "\<forall>i<ARP_TABLE_SIZE. set (Q i) \<inter> set xs = {}"
    and h: "h = pb_payload (p_pbufs (n_mem s) p)" "42 \<le> pb_len (p_pbufs (n_mem s) p)"
    and req: "arp_request_for netif h hw a (n_mem s)"
    and nif: "nif_ip_addr netif \<noteq> IPADDR_ANY" "length ea = 6" "unicast a netif"
    and dev: "\<forall>m. \<exists>e d. linkoutput l p m (n_dev s) = Some (e, d)"
  shows "\<exists>s' m e d k. etharp_arp_input l netif ea p s = Some s' \<and> linkoutput l p m (n_dev s) = Some (e, d) \<and> n_dev s' = d \<and>
    read_bytes h 42 m = hw @ ea @ [0x08, 0x06] @ [0x00, 0x01, 0x08, 0x00, 6, 4, 0x00, 0x02] @ ea @
      u32_bytes (nif_ip_addr netif) @ hw @ u32_bytes a \<and>
    (\<forall>x\<in>set xs. p_pbufs m x = p_pbufs (n_mem s) x) \<and> (\<forall>r. r \<notin> set (span h 42) \<longrightarrow> byt m r = byt (n_mem s) r) \<and>
    k < ARP_TABLE_SIZE \<and> learned netif a hw (entry s' k)"
proof -
  note F = arp_request_fields [OF req]
  have hwr: "read_bytes (ptr_add h (offset_of ARP_SHWADDR)) 6 (n_mem s) = hw"
    using req by (simp add: arp_request_for_def fld_def)
  obtain k s1 where s1: "etharp_update_arp_entry l netif a (ptr_add h (offset_of ARP_SHWADDR)) ETHARP_FLAG_TRY_HARD s = Some (ERR_OK, s1)"
    "k < ARP_TABLE_SIZE" "learned netif a hw (entry s1 k)" "n_dev s1 = n_dev s" "p_bytes (n_mem s1) = p_bytes (n_mem s)"
    "\<forall>x. (\<forall>i<ARP_TABLE_SIZE. x \<notin> set (Q i)) \<longrightarrow> p_pbufs (n_mem s1) x = p_pbufs (n_mem s) x"
    using update_learns [OF ok nif(3), of l "ptr_add h (offset_of ARP_SHWADDR)"] hwr by auto
  have op: "field16 h ARP_OPCODE (n_mem s1) = lwip_htons ARP_REQUEST"
    using F(4) s1(5) by (simp add: field16_def)
  let ?m = "arp_make_reply netif ea h (n_mem s1)"
  obtain e d where d: "linkoutput l p ?m (n_dev s) = Some (e, d)" using dev by blast
  let ?s2 = "s1\<lparr>n_mem := ?m, n_dev := d\<rparr>"
  have act: "arp_act l netif ea h p a True s1 = Some ?s2" using op d s1(4) by (simp add: arp_act_def send_link_def)
  have same: "p_pbufs ?m x = p_pbufs (n_mem s) x" if "x \<in> set xs" for x
  proof -
    have "\<forall>i<ARP_TABLE_SIZE. x \<notin> set (Q i)" using that p(3) by auto
    then show ?thesis using s1(6) by auto
  qed
  have c: "chain ?m (Some p) xs" "refs_ok ?m xs"
    using p(1,2) chain_cong [of xs ?m "n_mem s"] refs_ok_cong [of xs ?m "n_mem s"] same by auto
  obtain n m3 where m3: "pbuf_free (custom_free l) (Some p) ?m = Some (n, m3)"
    using pbuf_free_spec [OF c, of "custom_free l"] by blast
  have run: "etharp_arp_input l netif ea p s = Some (?s2\<lparr>n_mem := m3\<rparr>)"
    using h(2) F nif(1) s1(1) act m3 unfolding etharp_arp_input_def Let_def h(1) [symmetric]
    by (simp add: SIZEOF_ETHARP_PACKET_def SIZEOF_ETH_HDR_def ETHARP_HWADDR_LEN_def free_mem_def)
  have "fld h f (n_mem s1) = fld h f (n_mem s)" for f by (rule fld_bytes [OF s1(5)])
  then have "read_bytes h 42 ?m = hw @ ea @ [0x08, 0x06] @ [0x00, 0x01, 0x08, 0x00, 6, 4, 0x00, 0x02] @ ea @
      u32_bytes (nif_ip_addr netif) @ hw @ u32_bytes a"
    using req unfolding arp_frame_bytes reply_fields [OF nif(2)]
    by (simp add: arp_request_for_def proto_bytes)
  moreover have "byt ?m r = byt (n_mem s) r" if "r \<notin> set (span h 42)" for r
    using reply_outside [OF nif(2) that] s1(5) by (simp add: byt_def)
  ultimately show ?thesis using run d s1(2,3) same
    by (intro exI [of _ "?s2\<lparr>n_mem := m3\<rparr>"] exI [of _ ?m] exI [of _ e] exI [of _ d] exI [of _ k]) simp
qed

lemma ethernet_input_answers:
  assumes "arp_ok (n_arp s)" and "queues s Q"
    and "\<forall>i<ARP_TABLE_SIZE. matches a (entry s i) \<longrightarrow> ae_q (entry s i) = None"
    and "packet (n_mem s) (Some p) xs" and "distinct (addrs (n_mem s) xs)" and "refs_ok (n_mem s) xs"
    and "\<forall>i<ARP_TABLE_SIZE. set (Q i) \<inter> set xs = {}"
    and "h = pb_payload (p_pbufs (n_mem s) p)" and "42 \<le> pb_len (p_pbufs (n_mem s) p)"
    and "arp_request_for netif h hw a (n_mem s)"
    and "nif_flags netif AND NETIF_FLAG_ETHARP \<noteq> 0" and "nif_ip_addr netif \<noteq> IPADDR_ANY"
    and "length (nif_hwaddr netif) = 6" and "unicast a netif"
    and "\<forall>m. \<exists>e d. linkoutput l p m (n_dev s) = Some (e, d)"
  shows "\<exists>s' m e d k. ethernet_input l p netif s = Some (ERR_OK, s') \<and>
    linkoutput l p m (n_dev s) = Some (e, d) \<and> n_dev s' = d \<and> packet m (Some p) xs \<and>
    data m xs = hw @ nif_hwaddr netif @ [0x08, 0x06] @ [0x00, 0x01, 0x08, 0x00, 6, 4, 0x00, 0x02] @
      nif_hwaddr netif @ u32_bytes (nif_ip_addr netif) @ hw @ u32_bytes a @ drop 42 (data (n_mem s) xs) \<and>
    k < ARP_TABLE_SIZE \<and> learned netif a hw (entry s' k)"
proof -
  let ?m = "mark_link_cast p (field_addr h ETH_DEST (n_mem s)) (n_mem s)"
  let ?s = "s\<lparr>n_mem := ?m\<rparr>"
  have b: "p_bytes ?m = p_bytes (n_mem s)" by (simp add: mark_link_cast_frame)
  have "fld h f ?m = fld h f (n_mem s)" for f by (rule fld_bytes [OF b])
  then have req: "arp_request_for netif h hw a ?m" using assms(10) by (simp add: arp_request_for_def)
  have c: "chain (n_mem s) (Some p) xs" and lo: "lens_ok (n_mem s) xs" using assms(4) by (simp_all add: packet_def)
  have q: "queues ?s Q" using assms(2) by (simp add: queues_def mark_link_cast_refs cong: option.case_cong)
  have ne: "lwip_htons ETHTYPE_ARP \<noteq> lwip_htons ETHTYPE_IP"
  proof
    assume "lwip_htons ETHTYPE_ARP = lwip_htons ETHTYPE_IP"
    then have "u16_bytes (lwip_htons ETHTYPE_ARP) = u16_bytes (lwip_htons ETHTYPE_IP)" by simp
    then show False unfolding proto_bytes by simp
  qed
  have "ethernet_input l p netif s = Option.bind (etharp_arp_input l netif (nif_hwaddr netif) p ?s) (\<lambda>s. Some (ERR_OK, s))"
    using arp_request_fields(1) [OF assms(10)] assms(9,11) unfolding ethernet_input_def Let_def assms(8) [symmetric]
    by (simp add: SIZEOF_ETH_HDR_def ne)
  moreover obtain s' m e d k where "etharp_arp_input l netif (nif_hwaddr netif) p ?s = Some s'"
    "linkoutput l p m (n_dev s) = Some (e, d)" "n_dev s' = d" 
    "read_bytes h 42 m = hw @ nif_hwaddr netif @ [0x08, 0x06] @ [0x00, 0x01, 0x08, 0x00, 6, 4, 0x00, 0x02] @
      nif_hwaddr netif @ u32_bytes (nif_ip_addr netif) @ hw @ u32_bytes a"
    "\<forall>x\<in>set xs. p_pbufs m x = p_pbufs ?m x" "\<forall>r. r \<notin> set (span h 42) \<longrightarrow> byt m r = byt (n_mem s) r"
    "k < ARP_TABLE_SIZE" "learned netif a hw (entry s' k)"
    using arp_input_answers [of ?s Q a p xs h netif hw "nif_hwaddr netif" l] assms c q req
    by (auto simp: mark_link_cast_frame mark_link_cast_refs byt_def)
  moreover have "packet m (Some p) xs \<and> data m xs = read_bytes h 42 m @ drop 42 (data (n_mem s) xs)"
    by (rule written_header [OF assms(4,5,8,9)]) (use calculation(6,7) in \<open>simp_all add: mark_link_cast_frame mark_link_cast_tot\<close>)
  ultimately show ?thesis by auto
qed

text \<open>C19: an ARP request for our address, received as an Ethernet frame, is answered with exactly one
  frame, to the sender's hardware address: the packet that goes to the driver is the ARP reply with our addresses
  as its source and the sender's as its target (followed by what followed the request), and the sender's addresses
  are in the table as a fresh resolved entry.  No packet waits for the sender here; one that does would be sent first.\<close>
theorem arp_request_answered:
  assumes "arp_ok (n_arp s)" and "queues s Q"
    and "\<forall>i<ARP_TABLE_SIZE. matches a (entry s i) \<longrightarrow> ae_q (entry s i) = None"
    and "packet (n_mem s) (Some p) xs" and "distinct (addrs (n_mem s) xs)" and "refs_ok (n_mem s) xs"
    and "\<forall>i<ARP_TABLE_SIZE. set (Q i) \<inter> set xs = {}"
    and "h = pb_payload (p_pbufs (n_mem s) p)" and "42 \<le> pb_len (p_pbufs (n_mem s) p)"
    and "arp_request_for netif h hw a (n_mem s)"
    and "nif_flags netif AND NETIF_FLAG_ETHARP \<noteq> 0" and "nif_ip_addr netif \<noteq> IPADDR_ANY"
    and "length (nif_hwaddr netif) = 6" and "unicast a netif"
    and "\<forall>m. \<exists>e d. linkoutput l p m (n_dev s) = Some (e, d)"
  shows "\<exists>s' m e d k. ethernet_input l p netif s = Some (ERR_OK, s') \<and>
    linkoutput l p m (n_dev s) = Some (e, d) \<and> n_dev s' = d \<and> packet m (Some p) xs \<and>
    data m xs = hw @ nif_hwaddr netif @ [0x08, 0x06] @ [0x00, 0x01, 0x08, 0x00, 6, 4, 0x00, 0x02] @
      nif_hwaddr netif @ u32_bytes (nif_ip_addr netif) @ hw @ u32_bytes a @ drop 42 (data (n_mem s) xs) \<and>
    k < ARP_TABLE_SIZE \<and> learned netif a hw (entry s' k)"
  by (rule ethernet_input_answers [OF assms])

section \<open>Witnesses\<close>

text \<open>A device that keeps the frames sent, an interface 10.0.0.9/24 and a table with one resolved and one pending entry.\<close>

definition demo_link :: "u8_t list list link_if" where
  "demo_link = \<lparr>linkoutput = (\<lambda>p m d. Some (ERR_OK, d @ [read_bytes (pb_payload (p_pbufs m p)) (pb_len (p_pbufs m p)) m])),
     ip_input = (\<lambda>p netif s. Some s), dhcp_arp_reply = (\<lambda>netif a s. Some s), custom_free = (\<lambda>p m. None)\<rparr>"

definition demo_netif :: netif where
  "demo_netif = \<lparr>nif_ip_addr = u32_le 10 0 0 9, nif_netmask = u32_le 255 255 255 0, nif_gw = u32_le 10 0 0 1, nif_mtu = 1500,
     nif_hwaddr = [0, 0, 0, 0, 0, 1], nif_flags = 0x33, nif_num = 0\<rparr>"

definition blank_entry :: etharp_entry where
  "blank_entry = \<lparr>ae_q = None, ae_ipaddr = 0, ae_netif = None, ae_ethaddr = [], ae_state = ETHARP_STATE_EMPTY, ae_ctime = 0\<rparr>"

definition demo_table :: "etharp_entry list" where
  "demo_table =
     \<lparr>ae_q = None, ae_ipaddr = u32_le 10 0 0 1, ae_netif = Some 0, ae_ethaddr = [2, 0, 0, 0, 0, 7],
       ae_state = ETHARP_STATE_STABLE, ae_ctime = 5\<rparr> #
     \<lparr>ae_q = Some (RPool 2, 0), ae_ipaddr = u32_le 10 0 0 2, ae_netif = Some 0, ae_ethaddr = [],
       ae_state = ETHARP_STATE_PENDING, ae_ctime = 1\<rparr> # replicate 8 blank_entry"

definition demo_net :: "u8_t list list net" where
  "demo_net = \<lparr>n_mem = demo_state, n_arp = demo_table, n_cached = 0, n_dev = []\<rparr>"

text \<open>A request from 10.0.0.3 for 10.0.0.9, received in pool element 2.\<close>

definition demo_request :: "u8_t list" where
  "demo_request = [255, 255, 255, 255, 255, 255, 2, 0, 0, 0, 0, 3, 8, 6, 0, 1, 8, 0, 6, 4, 0, 1, 2, 0, 0, 0, 0, 3, 10, 0, 0, 3,
     0, 0, 0, 0, 0, 0, 10, 0, 0, 9]"

definition demo_receive :: "u8_t list list net" where
  "demo_receive = \<lparr>n_mem = demo_state\<lparr>p_pbufs := (\<lambda>p. demo_pb None (RPool 2, 16) 42 42), p_bytes := (\<lambda>r a. demo_request ! nat (a - 16))\<rparr>,
     n_arp = replicate 10 blank_entry, n_cached = 0, n_dev = []\<rparr>"

lemmas demo_net_simps = demo_net_def demo_table_def demo_receive_def blank_entry_def demo_link_def demo_netif_def

lemma less_10: "i < (10 :: nat) \<Longrightarrow> i = 0 \<or> i = 1 \<or> (2 \<le> i \<and> i < 10)"
  by auto

lemma demo_table_nth: "demo_table ! 0 = \<lparr>ae_q = None, ae_ipaddr = u32_le 10 0 0 1, ae_netif = Some 0,
    ae_ethaddr = [2, 0, 0, 0, 0, 7], ae_state = ETHARP_STATE_STABLE, ae_ctime = 5\<rparr>"
  "demo_table ! 1 = \<lparr>ae_q = Some (RPool 2, 0), ae_ipaddr = u32_le 10 0 0 2, ae_netif = Some 0, ae_ethaddr = [],
    ae_state = ETHARP_STATE_PENDING, ae_ctime = 1\<rparr>"
  "2 \<le> i \<Longrightarrow> i < 10 \<Longrightarrow> demo_table ! i = blank_entry"
  by (auto simp: demo_table_def nth_Cons split: nat.split)

lemma demo_addrs_differ: "u32_le 10 0 0 1 \<noteq> u32_le 10 0 0 2"
proof
  assume "u32_le 10 0 0 1 = u32_le 10 0 0 2"
  then have "u32_bytes (u32_le 10 0 0 1) = u32_bytes (u32_le 10 0 0 2)" by simp
  then show False unfolding u32_bytes_le by simp
qed

lemma demo_table_ok: "arp_ok (n_arp demo_net)"
  unfolding arp_ok_def
proof (intro conjI allI impI)
  show "length (n_arp demo_net) = ARP_TABLE_SIZE" by (simp add: demo_net_simps ARP_TABLE_SIZE_def)
  show "\<forall>e\<in>set (n_arp demo_net). entry_ok e"
    by (auto simp: demo_net_simps entry_ok_def used_def lifetime_def arp_consts)
  fix i j
  assume a: "i < ARP_TABLE_SIZE \<and> j < ARP_TABLE_SIZE \<and> i \<noteq> j \<and> used (entry demo_net i) \<and> used (entry demo_net j)"
  have "x < 2" if "x < 10" "used (entry demo_net x)" for x
    using that demo_table_nth(3) [of x] by (cases "x < 2") (auto simp: demo_net_def used_def blank_entry_def)
  with a have "i < 2 \<and> j < 2" by (simp add: ARP_TABLE_SIZE_def)
  then have "i = 0 \<and> j = 1 \<or> i = 1 \<and> j = 0" using a by auto
  then show "ae_ipaddr (entry demo_net i) \<noteq> ae_ipaddr (entry demo_net j)"
    using demo_addrs_differ by (auto simp: demo_net_def demo_table_nth(1,2) simp del: One_nat_def)
qed

lemma demo_queues: "queues demo_net (\<lambda>i. if i = 1 then demo_b else [])"
proof -
  have "case ae_q (entry demo_net i) of None \<Rightarrow> (if i = 1 then demo_b else []) = []
      | Some q \<Rightarrow> chain (n_mem demo_net) (Some q) (if i = 1 then demo_b else []) \<and> refs_ok (n_mem demo_net) (if i = 1 then demo_b else [])"
    if "i < ARP_TABLE_SIZE" for i
    using less_10 [of i] that demo_table_nth
    by (auto simp: demo_net_def ARP_TABLE_SIZE_def blank_entry_def demo_simps refs_ok_def stored_def simp del: One_nat_def)
  then have "\<forall>i<ARP_TABLE_SIZE. case ae_q (entry demo_net i) of None \<Rightarrow> (if i = 1 then demo_b else []) = []
      | Some q \<Rightarrow> chain (n_mem demo_net) (Some q) (if i = 1 then demo_b else []) \<and> refs_ok (n_mem demo_net) (if i = 1 then demo_b else [])"
    by blast
  then show ?thesis unfolding queues_def by (rule conjI) auto
qed

theorem etharp_find_entry_spec_witness:
  "\<exists>s'. etharp_find_entry demo_link (Some (u32_le 10 0 0 1)) ETHARP_FLAG_FIND_ONLY demo_net = Some (Inr 0, s')"
proof -
  have h: "\<forall>i<ARP_TABLE_SIZE. held demo_net i" using queues_held [OF demo_queues] by blast
  have m: "matches (u32_le 10 0 0 1) (entry demo_net 0)"
    by (simp add: matches_def used_def demo_net_def demo_table_nth)
  then have "some_entry (matches (u32_le 10 0 0 1)) (n_arp demo_net)"
    unfolding some_entry_def by (intro exI [of _ 0]) (simp add: ARP_TABLE_SIZE_def)
  moreover have "k = 0" if "k < ARP_TABLE_SIZE" "matches (u32_le 10 0 0 1) (entry demo_net k)" for k
    using that m arp_okD(3) [OF demo_table_ok, of 0] by (auto simp: matches_def only_for_def)
  ultimately show ?thesis
    using etharp_find_entry_spec [OF demo_table_ok h, of demo_link "u32_le 10 0 0 1" ETHARP_FLAG_FIND_ONLY] by auto
qed

theorem etharp_tmr_expires_witness:
  "\<exists>s'. ticks demo_link 1 demo_net = Some s' \<and> used (entry s' 0) \<and> \<not> used (entry s' 1)"
proof -
  have u: "used (entry demo_net 0)" "used (entry demo_net 1)" "ae_ctime (entry demo_net 0) = 5" "ae_ctime (entry demo_net 1) = 1"
    "lifetime (entry demo_net 0) = 240" "lifetime (entry demo_net 1) = 2"
    by (simp_all add: used_def lifetime_def arp_consts demo_net_def demo_table_nth del: One_nat_def)
  obtain s' where "ticks demo_link 1 demo_net = Some s'" "\<forall>i<ARP_TABLE_SIZE. used (entry demo_net i) \<longrightarrow>
      (used (entry s' i) \<longleftrightarrow> ae_ctime (entry demo_net i) + int 1 < lifetime (entry demo_net i))"
    using etharp_tmr_expires [OF demo_table_ok demo_queues, of demo_link 1] by blast
  moreover have "0 < ARP_TABLE_SIZE" "1 < ARP_TABLE_SIZE" by (simp_all add: ARP_TABLE_SIZE_def)
  ultimately show ?thesis using u by (intro exI [of _ s']) auto
qed

lemma demo_dest: "link_dest demo_netif demo_table (u32_le 10 0 0 1) [2, 0, 0, 0, 0, 7]"
proof -
  have "\<not> ip4_addr_isbroadcast (u32_le 10 0 0 1) demo_netif" "\<not> ip_addr_ismulticast (u32_le 10 0 0 1)"
    "ip_addr_netcmp (u32_le 10 0 0 1) (nif_ip_addr demo_netif) (nif_netmask demo_netif)"
    by (simp_all add: ip4_addr_isbroadcast_def ip_addr_ismulticast_def ip_addr_netcmp_def demo_netif_def u32_le_def
      IPADDR_ANY_def IPADDR_BROADCAST_def NETIF_FLAG_BROADCAST_def lwip_htonl_def)
  moreover have "knows demo_table (u32_le 10 0 0 1) [2, 0, 0, 0, 0, 7]"
    unfolding knows_def by (rule exI [of _ 0]) (simp add: demo_table_nth resolved_def arp_consts state_cases)
  ultimately show ?thesis by (simp add: link_dest_def next_hop_def)
qed

lemma demo_apart: "set (span (ptr_add (pb_payload (p_pbufs demo_state (RPool 0, 0))) (- 14)) 14) \<inter> set (addrs demo_state demo_a) = {}"
  by (auto simp: demo_simps pb_addrs_def span_def ptr_add_def)

theorem etharp_output_frame_witness:
  "\<exists>m s'. etharp_output demo_link demo_netif (RPool 0, 0) (u32_le 10 0 0 1) demo_net = Some (ERR_OK, s') \<and>
     data m demo_a = [2, 0, 0, 0, 0, 7] @ [0, 0, 0, 0, 0, 1] @ [0x08, 0x00] @ [97, 97, 97, 98]"
proof -
  have n: "n_mem demo_net = demo_state" "n_arp demo_net = demo_table" by (simp_all add: demo_net_def)
  have p: "packet (n_mem demo_net) (Some (RPool 0, 0)) demo_a" "tot (n_mem demo_net) demo_a + 14 \<le> 65535"
    using demo_packets(1,3) by (simp_all add: demo_net_def)
  note dest = demo_dest [folded n(2)] and apart = demo_apart [folded n(1)]
  have "\<exists>m c. data m demo_a = [2, 0, 0, 0, 0, 7] @ nif_hwaddr demo_netif @ [0x08, 0x00] @ data (n_mem demo_net) demo_a \<and>
    etharp_output demo_link demo_netif (RPool 0, 0) (u32_le 10 0 0 1) demo_net =
      (case linkoutput demo_link (RPool 0, 0) m (n_dev demo_net) of None \<Rightarrow> None
       | Some (e, d) \<Rightarrow> Some (e, demo_net\<lparr>n_mem := m, n_cached := c, n_dev := d\<rparr>))"
    by (rule etharp_output_frame [OF demo_table_ok _ dest _ _ p _ _ apart])
      (simp_all add: demo_net_def demo_netif_def demo_simps pbuf_consts ARP_TABLE_SIZE_def)
  then show ?thesis using demo_data(1) by (fastforce simp: demo_link_def demo_netif_def demo_net_def simp del: data_simps)
qed

lemma demo_receive_ok: "arp_ok (n_arp demo_receive)" "queues demo_receive (\<lambda>_. [])"
  "packet (n_mem demo_receive) (Some (RPool 2, 0)) [(RPool 2, 0)]" "refs_ok (n_mem demo_receive) [(RPool 2, 0)]"
  "arp_request_for demo_netif (RPool 2, 16) [2, 0, 0, 0, 0, 3] (u32_le 10 0 0 3) (n_mem demo_receive)"
  "unicast (u32_le 10 0 0 3) demo_netif" "distinct (addrs (n_mem demo_receive) [(RPool 2, 0)])"
proof -
  show "arp_ok (n_arp demo_receive)" by (auto simp: demo_net_simps arp_ok_def ARP_TABLE_SIZE_def entry_ok_def used_def)
  show "queues demo_receive (\<lambda>_. [])" by (auto simp: demo_net_simps queues_def ARP_TABLE_SIZE_def)
  show "packet (n_mem demo_receive) (Some (RPool 2, 0)) [(RPool 2, 0)]" "refs_ok (n_mem demo_receive) [(RPool 2, 0)]"
    by (simp_all add: demo_receive_def demo_pb_def refs_ok_def stored_def packet_def)
  show "distinct (addrs (n_mem demo_receive) [(RPool 2, 0)])" by (simp add: addrs_def pb_addrs_def distinct_span)
  show "arp_request_for demo_netif (RPool 2, 16) [2, 0, 0, 0, 0, 3] (u32_le 10 0 0 3) (n_mem demo_receive)"
    unfolding arp_request_for_def u32_bytes_le demo_netif_def netif.simps
    by (simp add: demo_receive_def fld_def read_bytes_def bytes_def ptr_add_def demo_request_def upt_rec)
  show "unicast (u32_le 10 0 0 3) demo_netif"
    by (simp add: unicast_def ip4_addr_isbroadcast_def ip_addr_ismulticast_def ip_addr_netcmp_def demo_netif_def u32_le_def
      IPADDR_ANY_def IPADDR_BROADCAST_def NETIF_FLAG_BROADCAST_def lwip_htonl_def)
qed

theorem arp_request_answered_witness:
  "\<exists>s'. ethernet_input demo_link (RPool 2, 0) demo_netif demo_receive = Some (ERR_OK, s') \<and>
     n_dev s' = [[2, 0, 0, 0, 0, 3, 0, 0, 0, 0, 0, 1, 8, 6, 0, 1, 8, 0, 6, 4, 0, 2, 0, 0, 0, 0, 0, 1, 10, 0, 0, 9,
       2, 0, 0, 0, 0, 3, 10, 0, 0, 3]]"
proof -
  have "\<exists>s' m e d k. ethernet_input demo_link (RPool 2, 0) demo_netif demo_receive = Some (ERR_OK, s') \<and>
    linkoutput demo_link (RPool 2, 0) m (n_dev demo_receive) = Some (e, d) \<and> n_dev s' = d \<and>
    packet m (Some (RPool 2, 0)) [(RPool 2, 0)] \<and> data m [(RPool 2, 0)] = [2, 0, 0, 0, 0, 3] @ nif_hwaddr demo_netif @ [0x08, 0x06] @ [0x00, 0x01, 0x08, 0x00, 6, 4, 0x00, 0x02] @
      nif_hwaddr demo_netif @ u32_bytes (nif_ip_addr demo_netif) @ [2, 0, 0, 0, 0, 3] @ u32_bytes (u32_le 10 0 0 3) @ drop 42 (data (n_mem demo_receive) [(RPool 2, 0)]) \<and>
    k < ARP_TABLE_SIZE \<and> learned demo_netif (u32_le 10 0 0 3) [2, 0, 0, 0, 0, 3] (entry s' k)"
  proof (rule arp_request_answered [OF demo_receive_ok(1,2) _ demo_receive_ok(3,7,4) _ _ _ demo_receive_ok(5) _ _ _ demo_receive_ok(6)])
    show "nif_ip_addr demo_netif \<noteq> IPADDR_ANY" by (simp add: demo_netif_def u32_le_def IPADDR_ANY_def)
  qed (auto simp: demo_receive_def demo_pb_def demo_link_def demo_netif_def NETIF_FLAG_ETHARP_def ARP_TABLE_SIZE_def blank_entry_def)
  then obtain s' m e d where r: "ethernet_input demo_link (RPool 2, 0) demo_netif demo_receive = Some (ERR_OK, s')"
    "linkoutput demo_link (RPool 2, 0) m (n_dev demo_receive) = Some (e, d)" "n_dev s' = d"
    "data m [(RPool 2, 0)] = [2, 0, 0, 0, 0, 3] @ nif_hwaddr demo_netif @ [0x08, 0x06] @ [0x00, 0x01, 0x08, 0x00, 6, 4, 0x00, 0x02] @
      nif_hwaddr demo_netif @ u32_bytes (nif_ip_addr demo_netif) @ [2, 0, 0, 0, 0, 3] @ u32_bytes (u32_le 10 0 0 3) @
      drop 42 (data (n_mem demo_receive) [(RPool 2, 0)])" by blast
  have "drop 42 (data (n_mem demo_receive) [(RPool 2, 0)]) = []"
    by (simp add: demo_receive_def demo_pb_def pb_data_def)
  then show ?thesis using r by (intro exI [of _ s']) (simp add: demo_netif_def u32_bytes_le demo_link_def demo_receive_def pb_data_def)
qed

end
