(* ===== verification/HeaderProps.thy ===== *)
theory HeaderProps
  imports IpReass EtharpFrames PbufProps PcbLists
begin

text \<open>
  Facts the protocols share: what stores into a header in memory do to its bytes, the Internet
  checksum of a header, and the length of a chain.
\<close>

declare split_paired_All [simp del] split_paired_Ex [simp del]

section \<open>Access to the state\<close>

lemma mem_upd_ip [simp]: "n_mem (upd_ip f s) = n_mem s" "n_arp (upd_ip f s) = n_arp s" "n_dev (upd_ip f s) = f (n_dev s)"
  by (simp_all add: upd_ip_def)

lemma set_mem_simps [simp]: "n_mem (set_mem m s) = m" "n_dev (set_mem m s) = n_dev s" "n_arp (set_mem m s) = n_arp s"
  by (simp_all add: set_mem_def)

section \<open>Stores into a header\<close>

definition splice :: "nat \<Rightarrow> 'a list \<Rightarrow> 'a list \<Rightarrow> 'a list" where
  "splice k xs bs = take k bs @ xs @ drop (k + length xs) bs"

lemma length_splice [simp]: "k + length xs \<le> length bs \<Longrightarrow> length (splice k xs bs) = length bs"
  by (simp add: splice_def)

lemma nth_splice:
  "k + length xs \<le> length bs \<Longrightarrow> i < length bs \<Longrightarrow>
     splice k xs bs ! i = (if k \<le> i \<and> i < k + length xs then xs ! (i - k) else bs ! i)"
  by (auto simp: splice_def nth_append min_def)

lemma writes_length: "writes ks bs m m' \<Longrightarrow> length bs = length ks"
  by (auto simp: writes_def)

lemma writes_read: "writes (span h n) bs m m' \<Longrightarrow> read_bytes h n m' = bs"
  by (simp add: writes_def read_span)

lemma writes_splice:
  assumes w: "writes (span h n) bs m m1" and k: "0 \<le> k" "k + int (length xs) \<le> n"
  shows "writes (span h n) (splice (nat k) xs bs) m (mem_write (ptr_add h k) xs m1)"
proof -
  let ?m = "mem_write (ptr_add h k) xs m1"
  note mw = mem_write_writes [of "ptr_add h k" xs m1]
  have l: "length bs = nat n" using writes_length [OF w] by simp
  have "map (byt ?m) (span h n) = splice (nat k) xs bs"
  proof (rule nth_equalityI)
    show "length (map (byt ?m) (span h n)) = length (splice (nat k) xs bs)" using k l by simp
    fix i assume "i < length (map (byt ?m) (span h n))"
    then have i: "i < nat n" by simp
    have "byt m1 (ptr_add h (int i)) = bs ! i" using w i by (auto simp: writes_def span_def)
    then show "map (byt ?m) (span h n) ! i = splice (nat k) xs bs ! i"
      using i k l by (auto simp: nth_splice span_def byt_def mem_write_def ptr_add_def nat_diff_distrib algebra_simps)
  qed
  moreover have "byt ?m j = byt m j" if "j \<notin> set (span h n)" for j
  proof -
    have "j \<notin> set (span (ptr_add h k) (int (length xs)))" using that k by (auto simp: span_mem ptr_add_def)
    then show ?thesis using mw w that unfolding writes_def by metis
  qed
  ultimately show ?thesis using w mw by (simp add: writes_def)
qed

lemma length_u32_bytes [simp]: "length (u32_bytes d) = 4"
  by (simp_all add: u16_bytes_def u32_bytes_def)

lemma writes_put8: "writes (span h n) bs m m1 \<Longrightarrow> 0 \<le> k \<Longrightarrow> k + 1 \<le> n \<Longrightarrow> writes (span h n) (splice (nat k) [w] bs) m (put8 h k w m1)"
  unfolding put8_def by (rule writes_splice) simp_all

lemma writes_put16: "writes (span h n) bs m m1 \<Longrightarrow> 0 \<le> k \<Longrightarrow> k + 2 \<le> n \<Longrightarrow> writes (span h n) (splice (nat k) (u16_bytes w) bs) m (put16 h k w m1)"
  unfolding put16_def by (rule writes_splice) simp_all

lemma writes_put32: "writes (span h n) bs m m1 \<Longrightarrow> 0 \<le> k \<Longrightarrow> k + 4 \<le> n \<Longrightarrow> writes (span h n) (splice (nat k) (u32_bytes w) bs) m (put32 h k w m1)"
  unfolding put32_def by (rule writes_splice) simp_all

lemma writes_refl: "writes (span h n) (read_bytes h n m) m m"
  by (simp add: writes_def read_span)

section \<open>The checksum of a header\<close>

text \<open>The header with the checksum over the bytes whose checksum field is zero.\<close>

definition with_chksum :: "u8_t list \<Rightarrow> u8_t list" where
  "with_chksum h = (let z = splice 10 [0, 0] h in splice 10 (u16_bytes (NOT (inet_sum z))) z)"

lemma inet_chksum_header: "0 \<le> n \<Longrightarrow> n \<le> 65535 \<Longrightarrow> inet_chksum (p_bytes m (fst h)) (snd h) n = NOT (inet_sum (read_bytes h n m))"
  by (simp add: inet_chksum_def chksum_2_correct read_bytes_def)

lemma u16_bytes_0: "u16_bytes 0 = [0, 0]"
  by (simp add: u16_bytes_def byte_of_def)

lemma writes_chksum:
  assumes w: "writes (span h 20) bs m m1"
  shows "writes (span h 20) (with_chksum bs) m
    (let m2 = put16 h IPH_CHKSUM 0 m1 in put16 h IPH_CHKSUM (inet_chksum (p_bytes m2 (fst h)) (snd h) IP_HLEN) m2)"
proof -
  let ?m2 = "put16 h IPH_CHKSUM 0 m1"
  have w2: "writes (span h 20) (splice 10 [0, 0] bs) m ?m2"
    using writes_put16 [OF w, of 10 0] by (simp add: IPH_CHKSUM_def u16_bytes_0)
  have "inet_chksum (p_bytes ?m2 (fst h)) (snd h) IP_HLEN = NOT (inet_sum (splice 10 [0, 0] bs))"
    using inet_chksum_header [of 20 ?m2 h] writes_read [OF w2] by (simp add: IP_HLEN_def)
  then show ?thesis
    using writes_put16 [OF w2, of 10 "NOT (inet_sum (splice 10 [0, 0] bs))"] by (simp add: with_chksum_def Let_def IPH_CHKSUM_def)
qed

lemma length_with_chksum [simp]: "12 \<le> length h \<Longrightarrow> length (with_chksum h) = length h"
  by (simp add: with_chksum_def Let_def)

text \<open>A header protected this way passes the check of a receiver.\<close>

lemma with_chksum_verifies:
  assumes "length h = 20"
  shows "inet_sum (with_chksum h) = NOT 0"
proof -
  define xs ys where "xs = take 10 h" and "ys = drop 12 h"
  have z: "splice 10 [0, 0] h = xs @ [0, 0] @ ys" by (simp add: splice_def xs_def ys_def)
  let ?S = "words_sum (xs @ ys)" let ?c = "NOT (inet_sum (splice 10 [0, 0] h))"
  have e: "even (length xs)" "length xs = 10" using assms by (simp_all add: xs_def)
  have w: "with_chksum h = xs @ u16_bytes ?c @ ys"
    using e(2) unfolding with_chksum_def Let_def z by (simp add: splice_def)
  have s: "words_sum (splice 10 [0, 0] h) = ?S" using e(1) by (simp add: z words_sum_append)
  have "unat ?c = 65535 - ones_compl ?S"
    using ones_compl_range [of ?S] by (simp add: inet_sum_def s unat_not16 unat_of_nat_u16)
  then have "words_sum (with_chksum h) = (65535 - ones_compl ?S) + ?S"
    using e(1) by (simp add: w words_sum_append words_sum_u16_bytes)
  moreover have "oc_eq ((65535 - ones_compl ?S) + ?S) ((65535 - ones_compl ?S) + ones_compl ?S)"
    by (intro oc_eq_add oc_eq_refl oc_eq_sym [OF oc_eq_ones_compl])
  ultimately have "oc_eq 65535 (words_sum (with_chksum h))"
    using ones_compl_range [of ?S] by (simp add: oc_eq_sym)
  then have "ones_compl (words_sum (with_chksum h)) = 65535" using ones_compl_unique by fastforce
  then show ?thesis by (simp add: inet_sum_def)
qed

section \<open>Headers in front of a packet\<close>

lemma shrink_header:
  assumes p: "packet m (Some x) (x # cs)" and n: "0 < n" "n \<le> pb_len (p_pbufs m x)" "n \<le> 32768"
    and t: "pb_type (p_pbufs m x) = PBUF_RAM \<or> pb_type (p_pbufs m x) = PBUF_POOL \<longrightarrow>
      snd x + SIZEOF_STRUCT_PBUF \<le> snd (pb_payload (p_pbufs m x)) + n"
  shows "\<exists>m1. pbuf_header (Some x) (- n) m = (False, m1) \<and> packet m1 (Some x) (x # cs) \<and>
    data m1 (x # cs) = drop (nat n) (data m (x # cs)) \<and> tot m1 (x # cs) = tot m (x # cs) - n \<and>
    p_pbufs m1 x = (p_pbufs m x)\<lparr>pb_payload := ptr_add (pb_payload (p_pbufs m x)) n, pb_len := pb_len (p_pbufs m x) - n,
      pb_tot_len := pb_tot_len (p_pbufs m x) - n\<rparr> \<and>
    p_bytes m1 = p_bytes m \<and> p_heap m1 = p_heap m \<and> p_pools m1 = p_pools m \<and> (\<forall>y. y \<noteq> x \<longrightarrow> p_pbufs m1 y = p_pbufs m y)"
proof -
  let ?b = "p_pbufs m x"
  let ?m1 = "upd_pbuf x (\<lambda>b. b\<lparr>pb_payload := ptr_add (pb_payload ?b) n, pb_len := c_u16 (pb_len b - n),
      pb_tot_len := c_u16 (pb_tot_len b - n)\<rparr>) m"
  have ch: "x \<notin> set cs" "0 \<le> tot m cs" "pb_tot_len ?b = pb_len ?b + tot m cs" "pb_len ?b + tot m cs \<le> 65535"
    "chain m (pb_next ?b) cs" "lens_ok m cs"
    using p chain_distinct [of m "Some x" "x # cs"] tot_nonneg [of m cs] by (auto simp: packet_def)
  have hdr: "pbuf_header (Some x) (- n) m = (False, ?m1)"
    using pbuf_header_shrink [OF n(1,3), of x m] n(2) t by auto
  have o: "\<forall>y\<in>set cs. p_pbufs ?m1 y = p_pbufs m y" using ch(1) by auto
  have u: "c_u16 (pb_len ?b - n) = pb_len ?b - n" "c_u16 (pb_tot_len ?b - n) = pb_tot_len ?b - n"
    using n ch by (auto simp: c_u16_id)
  have "packet ?m1 (Some x) (x # cs)" using same_pbufs [OF o] ch n(1,2) u by (simp add: packet_def)
  moreover have "data ?m1 (x # cs) = drop (nat n) (data m (x # cs))"
  proof -
    have "pb_data m x = read_bytes (pb_payload ?b) n m @ read_bytes (ptr_add (pb_payload ?b) n) (pb_len ?b - n) m"
      using read_split [of n "pb_len ?b - n" "pb_payload ?b" m] n(1,2) by (simp add: pb_data_def)
    moreover have "pb_data ?m1 x = read_bytes (ptr_add (pb_payload ?b) n) (pb_len ?b - n) m"
      using u by (simp add: pb_data_def read_bytes_def)
    moreover have "data ?m1 cs = data m cs" by (rule data_cong) (use o in auto)
    ultimately show ?thesis by simp
  qed
  moreover have "tot ?m1 (x # cs) = tot m (x # cs) - n" using same_pbufs(3) [OF o] u by simp
  ultimately show ?thesis using hdr u by (intro exI [of _ ?m1]) simp
qed

text \<open>There is room for \<open>k\<close> bytes of headers in front of the packet, apart from its bytes.\<close>

definition headroom :: "pstate \<Rightarrow> ptr \<Rightarrow> ptr list \<Rightarrow> int \<Rightarrow> bool" where
  "headroom m q xs k \<longleftrightarrow> packet m (Some q) (q # xs) \<and>
     (pb_type (p_pbufs m q) = PBUF_RAM \<or> pb_type (p_pbufs m q) = PBUF_POOL) \<and>
     snd q + SIZEOF_STRUCT_PBUF + k \<le> snd (pb_payload (p_pbufs m q)) \<and> tot m (q # xs) + k \<le> 65535 \<and>
     distinct (span (ptr_add (pb_payload (p_pbufs m q)) (- k)) k @ addrs m (q # xs))"

lemma headroom_tot: "headroom m q xs k \<Longrightarrow> pb_tot_len (p_pbufs m q) = tot m (q # xs)"
  by (simp add: headroom_def packet_def)

lemma push_header:
  assumes h: "headroom m q xs (k + n)" and k: "0 \<le> k" "0 < n"
  shows "\<exists>m1. pbuf_header (Some q) n m = (False, m1) \<and> headroom m1 q xs k \<and>
    pb_payload (p_pbufs m1 q) = ptr_add (pb_payload (p_pbufs m q)) (- n) \<and>
    data m1 (q # xs) = read_bytes (pb_payload (p_pbufs m1 q)) n m @ data m (q # xs) \<and> tot m1 (q # xs) = tot m (q # xs) + n \<and>
    n \<le> pb_len (p_pbufs m1 q) \<and> pb_len (p_pbufs m1 q) = pb_len (p_pbufs m q) + n \<and>
    addrs m1 (q # xs) = span (pb_payload (p_pbufs m1 q)) n @ addrs m (q # xs) \<and>
    p_bytes m1 = p_bytes m \<and> p_heap m1 = p_heap m \<and> p_pools m1 = p_pools m"
proof -
  let ?b = "p_pbufs m q" let ?h = "ptr_add (pb_payload ?b) (- n)"
  let ?m1 = "upd_pbuf q (\<lambda>x. x\<lparr>pb_payload := ?h, pb_len := c_u16 (pb_len x + n), pb_tot_len := c_u16 (pb_tot_len x + n)\<rparr>) m"
  have p: "packet m (Some q) (q # xs)" and t: "pb_type ?b = PBUF_RAM \<or> pb_type ?b = PBUF_POOL"
    and room: "snd q + SIZEOF_STRUCT_PBUF + (k + n) \<le> snd (pb_payload ?b)" and tl: "tot m (q # xs) + (k + n) \<le> 65535"
    and d: "distinct (span (ptr_add (pb_payload ?b) (- (k + n))) (k + n) @ addrs m (q # xs))"
    using h by (simp_all add: headroom_def)
  have l: "0 \<le> pb_len ?b" "pb_tot_len ?b = pb_len ?b + tot m xs" "0 \<le> tot m xs" "q \<notin> set xs"
    using p tot_nonneg [of m xs] chain_distinct [of m "Some q" "q # xs"] by (auto simp: packet_def)
  have hdr: "pbuf_header (Some q) n m = (False, ?m1)"
    using pbuf_header_grow [OF k(2) t] room k by (simp add: ptr_add_def)
  have u: "c_u16 (pb_len ?b + n) = pb_len ?b + n" "c_u16 (pb_tot_len ?b + n) = pb_tot_len ?b + n"
    using l tl k by (auto simp: c_u16_id)
  have o: "\<forall>x\<in>set xs. p_pbufs ?m1 x = p_pbufs m x" using l(4) by auto
  have pk: "packet ?m1 (Some q) (q # xs)" using same_pbufs [OF o] p l u k tl by (simp add: packet_def)
  have tt: "tot ?m1 (q # xs) = tot m (q # xs) + n" using same_pbufs(3) [OF o] u by simp
  have ax: "addrs ?m1 xs = addrs m xs"
    unfolding addrs_def by (intro arg_cong [where f = concat] map_cong refl) (use o in \<open>simp add: pb_addrs_def\<close>)
  have "pb_addrs ?m1 q = span ?h n @ pb_addrs m q"
    using span_append [of n "pb_len ?b" ?h] k(2) l(1) u by (simp add: pb_addrs_def add.commute)
  then have ad: "addrs ?m1 (q # xs) = span ?h n @ addrs m (q # xs)" using ax by simp
  have sp: "span (ptr_add (pb_payload ?b) (- (k + n))) (k + n) = span (ptr_add ?h (- k)) k @ span ?h n"
    using span_append [of k n "ptr_add (pb_payload ?b) (- (k + n))"] k by (simp add: algebra_simps)
  have "pb_data ?m1 q = read_bytes ?h n m @ pb_data m q"
    using read_split [of n "pb_len ?b" ?h m] k(2) l(1) u by (simp add: pb_data_def read_bytes_def add.commute)
  moreover have "data ?m1 xs = data m xs" by (rule data_cong) (use o in auto)
  ultimately have "data ?m1 (q # xs) = read_bytes ?h n m @ data m (q # xs)" by simp
  moreover have "headroom ?m1 q xs k"
    using pk t room tt tl d unfolding headroom_def ad sp by (simp add: ptr_add_def [of _ "- n"])
  ultimately show ?thesis using hdr tt u l(1) ad by (intro exI [of _ ?m1]) (simp del: addrs_simps data_simps tot.simps)
qed

lemma pull_header:
  assumes h: "headroom m q xs k" and k: "0 \<le> k" "0 < n" "n \<le> pb_len (p_pbufs m q)" "n \<le> 32768"
  shows "\<exists>m1. pbuf_header (Some q) (- n) m = (False, m1) \<and> headroom m1 q xs (k + n) \<and>
    pb_payload (p_pbufs m1 q) = ptr_add (pb_payload (p_pbufs m q)) n \<and> pb_len (p_pbufs m1 q) = pb_len (p_pbufs m q) - n \<and>
    tot m1 (q # xs) = tot m (q # xs) - n \<and> addrs m (q # xs) = span (pb_payload (p_pbufs m q)) n @ addrs m1 (q # xs) \<and>
    p_bytes m1 = p_bytes m \<and> p_heap m1 = p_heap m \<and> p_pools m1 = p_pools m"
proof -
  let ?b = "p_pbufs m q"
  have p: "packet m (Some q) (q # xs)" and t: "pb_type ?b = PBUF_RAM \<or> pb_type ?b = PBUF_POOL"
    and room: "snd q + SIZEOF_STRUCT_PBUF + k \<le> snd (pb_payload ?b)" and tl: "tot m (q # xs) + k \<le> 65535"
    and d: "distinct (span (ptr_add (pb_payload ?b) (- k)) k @ addrs m (q # xs))"
    using h by (simp_all add: headroom_def)
  have q: "q \<notin> set xs" using p chain_distinct [of m "Some q" "q # xs"] by (auto simp: packet_def)
  have t': "pb_type ?b = PBUF_RAM \<or> pb_type ?b = PBUF_POOL \<longrightarrow> snd q + SIZEOF_STRUCT_PBUF \<le> snd (pb_payload ?b) + n"
    using room k by auto
  obtain m1 where m1: "pbuf_header (Some q) (- n) m = (False, m1)" "packet m1 (Some q) (q # xs)"
    "tot m1 (q # xs) = tot m (q # xs) - n"
    "p_pbufs m1 q = ?b\<lparr>pb_payload := ptr_add (pb_payload ?b) n, pb_len := pb_len ?b - n, pb_tot_len := pb_tot_len ?b - n\<rparr>"
    "p_bytes m1 = p_bytes m" "p_heap m1 = p_heap m" "p_pools m1 = p_pools m" "\<forall>y. y \<noteq> q \<longrightarrow> p_pbufs m1 y = p_pbufs m y"
    using shrink_header [OF p k(2,3,4) t'] by blast
  have "p_pbufs m1 y = p_pbufs m y" if "y \<in> set xs" for y using m1(8) q that by metis
  then have "addrs m1 xs = addrs m xs"
    unfolding addrs_def by (intro arg_cong [where f = concat] map_cong refl) (simp add: pb_addrs_def)
  moreover have "pb_addrs m q = span (pb_payload ?b) n @ pb_addrs m1 q"
    using span_append [of n "pb_len ?b - n" "pb_payload ?b"] k by (simp add: pb_addrs_def m1(4))
  ultimately have a: "addrs m (q # xs) = span (pb_payload ?b) n @ addrs m1 (q # xs)" by simp
  have "span (ptr_add (pb_payload ?b) (- k)) (k + n) = span (ptr_add (pb_payload ?b) (- k)) k @ span (pb_payload ?b) n"
    using span_append [of k n "ptr_add (pb_payload ?b) (- k)"] k by simp
  moreover have "ptr_add (pb_payload (p_pbufs m1 q)) (- (k + n)) = ptr_add (pb_payload ?b) (- k)"
    "snd (pb_payload (p_pbufs m1 q)) = snd (pb_payload ?b) + n" "pb_type (p_pbufs m1 q) = pb_type ?b"
    by (simp_all add: m1(4) ptr_add_def)
  ultimately have "headroom m1 q xs (k + n)"
    using m1(2,3) t room tl d unfolding headroom_def a by (simp del: addrs_simps tot.simps)
  then show ?thesis using m1 a by (intro exI [of _ m1]) (simp del: addrs_simps tot.simps)
qed

lemma write_header:
  assumes h: "headroom m q xs k" and n: "0 \<le> n" "n \<le> pb_len (p_pbufs m q)"
    and w: "writes (span (pb_payload (p_pbufs m q)) n) bs m m2"
  shows "headroom m2 q xs k \<and> data m2 (q # xs) = bs @ drop (nat n) (data m (q # xs)) \<and> tot m2 (q # xs) = tot m (q # xs)"
proof -
  let ?A = "addrs m (q # xs)" let ?h = "pb_payload (p_pbufs m q)"
  have d: "distinct ?A" using h by (simp add: headroom_def)
  have s: "span ?h n = take (nat n) ?A"
    using span_append [of n "pb_len (p_pbufs m q) - n" ?h] n by (simp add: pb_addrs_def)
  have a: "addrs m2 (q # xs) = ?A" using writes_addrs [OF w] .
  have "data m2 (q # xs) = map (byt m2) (take (nat n) ?A) @ map (byt m2) (drop (nat n) ?A)"
    by (simp only: data_addrs a map_append [symmetric] append_take_drop_id)
  moreover have "map (byt m2) (take (nat n) ?A) = bs" using w by (simp add: writes_def s)
  moreover have "map (byt m2) (drop (nat n) ?A) = map (byt m) (drop (nat n) ?A)"
  proof (rule map_cong [OF refl])
    fix j assume "j \<in> set (drop (nat n) ?A)"
    then have "j \<notin> set (span ?h n)" using set_take_disj_set_drop_if_distinct [OF d le_refl, of "nat n"] s by auto
    then show "byt m2 j = byt m j" using w unfolding writes_def by blast
  qed
  ultimately have "data m2 (q # xs) = bs @ drop (nat n) (data m (q # xs))" by (simp only: data_addrs drop_map)
  moreover have pb: "p_pbufs m2 = p_pbufs m" using w by (simp add: writes_def)
  have "\<forall>x\<in>set (q # xs). p_pbufs m2 x = p_pbufs m x" by (simp add: pb)
  note same_pbufs(3) [OF this]
  moreover have "headroom m2 q xs k" using h writes_packet [OF w] calculation unfolding headroom_def a by (simp add: pb)
  ultimately show ?thesis by blast
qed

section \<open>Chains\<close>

lemma pbuf_clen_loop_spec: "chain m p xs \<Longrightarrow> pbuf_clen_loop p n m = Some (if xs = [] then n else c_u8 (n + int (length xs)))"
proof (induction xs arbitrary: p n)
  case Nil
  then show ?case by (simp add: pbuf_clen_loop.simps [of None])
next
  case (Cons x xs)
  then have x: "p = Some x" "chain m (pb_next (p_pbufs m x)) xs" by simp_all
  show ?case using Cons.IH [OF x(2), of "c_u8 (n + 1)"] x(1)
    by (subst pbuf_clen_loop.simps) (auto simp: c_u8_def mod_simps algebra_simps)
qed

lemma pbuf_clen_spec: "chain m p xs \<Longrightarrow> pbuf_clen p m = Some (c_u8 (int (length xs)))"
  using pbuf_clen_loop_spec [of m p xs 0] by (simp add: pbuf_clen_def c_u8_def)

end
