(* ===== verification/UdpProps.thy ===== *)
theory UdpProps
  imports Udp PcbLists PortSearch HeaderProps
begin

text \<open>
  The control blocks of raw sockets and UDP: their lists, which control block a datagram goes to, that
  a new port is found whenever there is one, and that no two control blocks are bound to the same
  address and port.
\<close>

declare split_paired_All [simp del] split_paired_Ex [simp del]

section \<open>The lists\<close>

lemma upd_udp_simps [simp]:
  "n_mem (upd_udp f s) = n_mem s" "n_arp (upd_udp f s) = n_arp s" "n_dev (upd_udp f s) = f (n_dev s)"
  "upcb (upd_upcb i g s) = (upcb s)(i := g (upcb s i))" "n_mem (upd_upcb i g s) = n_mem s" "n_arp (upd_upcb i g s) = n_arp s"
  "udp_pcbs (n_dev (upd_upcb i g s)) = udp_pcbs (n_dev s)" "udp_port (n_dev (upd_upcb i g s)) = udp_port (n_dev s)"
  "dhcp_pcb (n_dev (upd_upcb i g s)) = dhcp_pcb (n_dev s)"
  "current_dest (n_dev (upd_upcb i g s)) = current_dest (n_dev s)" "current_src (n_dev (upd_upcb i g s)) = current_src (n_dev s)"
  by (simp_all add: upd_udp_def upd_upcb_def)

lemma upd_raw_simps [simp]:
  "n_mem (upd_raw h t) = n_mem t" "n_dev (upd_raw h t) = h (n_dev t)"
  "rpcb (upd_rpcb i k t) = (rpcb t)(i := k (rpcb t i))" "n_mem (upd_rpcb i k t) = n_mem t"
  "raw_pcbs (n_dev (upd_rpcb i k t)) = raw_pcbs (n_dev t)"
  by (simp_all add: upd_raw_def upd_rpcb_def)

abbreviation u_nxt :: "('x, 'm) udp_net \<Rightarrow> nat \<Rightarrow> nat option" where
  "u_nxt s \<equiv> \<lambda>i. u_next (upcb s i)"

abbreviation u_set_nxt :: "nat \<Rightarrow> nat option \<Rightarrow> ('x, 'm) udp_net \<Rightarrow> ('x, 'm) udp_net" where
  "u_set_nxt i v \<equiv> upd_upcb i (\<lambda>b. b\<lparr>u_next := v\<rparr>)"

abbreviation u_head :: "('x, 'm) udp_net \<Rightarrow> nat option" where "u_head s \<equiv> udp_pcbs (n_dev s)"

abbreviation u_set_head :: "nat option \<Rightarrow> ('x, 'm) udp_net \<Rightarrow> ('x, 'm) udp_net" where
  "u_set_head v \<equiv> upd_udp (\<lambda>d. d\<lparr>udp_pcbs := v\<rparr>)"

abbreviation r_nxt :: "('x, 'm) raw_net \<Rightarrow> nat \<Rightarrow> nat option" where
  "r_nxt s \<equiv> \<lambda>i. r_next (rpcb s i)"

abbreviation r_set_nxt :: "nat \<Rightarrow> nat option \<Rightarrow> ('x, 'm) raw_net \<Rightarrow> ('x, 'm) raw_net" where
  "r_set_nxt i v \<equiv> upd_rpcb i (\<lambda>b. b\<lparr>r_next := v\<rparr>)"

abbreviation r_head :: "('x, 'm) raw_net \<Rightarrow> nat option" where "r_head s \<equiv> raw_pcbs (n_dev s)"

abbreviation r_set_head :: "nat option \<Rightarrow> ('x, 'm) raw_net \<Rightarrow> ('x, 'm) raw_net" where
  "r_set_head v \<equiv> upd_raw (\<lambda>d. d\<lparr>raw_pcbs := v\<rparr>)"

interpretation udps: unlink_loop u_nxt u_set_nxt u_head u_set_head udp_unlink_loop
proof
  show "udp_unlink_loop i q s = (case q of None \<Rightarrow> Some s
    | Some j \<Rightarrow> let s = (if u_nxt s j = Some i then u_set_nxt j (u_nxt s i) s else s) in udp_unlink_loop i (u_nxt s j) s)"
    for i q and s :: "('x, 'm) udp_net"
    by (subst udp_unlink_loop.simps) (simp add: Let_def)
qed auto

interpretation raws: unlink_loop r_nxt r_set_nxt r_head r_set_head raw_unlink_loop
proof
  show "raw_unlink_loop i q s = (case q of None \<Rightarrow> Some s
    | Some j \<Rightarrow> let s = (if r_nxt s j = Some i then r_set_nxt j (r_nxt s i) s else s) in raw_unlink_loop i (r_nxt s j) s)"
    for i q and s :: "('x, 'm) raw_net"
    by (subst raw_unlink_loop.simps) (simp add: Let_def)
qed auto

definition udp_list :: "('x, 'm) udp_net \<Rightarrow> nat list \<Rightarrow> bool" where
  "udp_list s xs \<longleftrightarrow> linked (u_nxt s) (u_head s) xs"

definition raw_list :: "('x, 'm) raw_net \<Rightarrow> nat list \<Rightarrow> bool" where
  "raw_list s xs \<longleftrightarrow> linked (r_nxt s) (r_head s) xs"

text \<open>Two states with the same control blocks but for the links.\<close>

definition same_blocks :: "('x, 'm) udp_net \<Rightarrow> ('x, 'm) udp_net \<Rightarrow> bool" where
  "same_blocks s s' \<longleftrightarrow> (\<forall>i. (upcb s' i)\<lparr>u_next := None\<rparr> = (upcb s i)\<lparr>u_next := None\<rparr>) \<and> n_mem s' = n_mem s \<and>
     udp_port (n_dev s') = udp_port (n_dev s) \<and> dhcp_pcb (n_dev s') = dhcp_pcb (n_dev s)"

lemma same_blocks_fields:
  assumes "same_blocks s s'"
  shows "u_local_port (upcb s' i) = u_local_port (upcb s i)" "u_local_ip (upcb s' i) = u_local_ip (upcb s i)"
    "u_remote_port (upcb s' i) = u_remote_port (upcb s i)" "u_remote_ip (upcb s' i) = u_remote_ip (upcb s i)"
    "u_recv (upcb s' i) = u_recv (upcb s i)" "u_flags (upcb s' i) = u_flags (upcb s i)"
proof -
  have e: "(upcb s' i)\<lparr>u_next := None\<rparr> = (upcb s i)\<lparr>u_next := None\<rparr>" using assms by (simp add: same_blocks_def)
  show "u_local_port (upcb s' i) = u_local_port (upcb s i)" "u_local_ip (upcb s' i) = u_local_ip (upcb s i)"
    "u_remote_port (upcb s' i) = u_remote_port (upcb s i)" "u_remote_ip (upcb s' i) = u_remote_ip (upcb s i)"
    "u_recv (upcb s' i) = u_recv (upcb s i)" "u_flags (upcb s' i) = u_flags (upcb s i)"
    using arg_cong [OF e, of u_local_port] arg_cong [OF e, of u_local_ip] arg_cong [OF e, of u_remote_port]
      arg_cong [OF e, of u_remote_ip] arg_cong [OF e, of u_recv] arg_cong [OF e, of u_flags] by simp_all
qed

lemma udp_to_front_spec:
  assumes "udp_list s (us @ i # ws)"
  shows "udp_list (udp_to_front (last_opt us) i s) (i # us @ ws) \<and> same_blocks s (udp_to_front (last_opt us) i s)"
proof (cases "us = []")
  case True
  then show ?thesis using assms by (simp add: udp_to_front_def same_blocks_def)
next
  case False
  let ?s = "udp_to_front (last_opt us) i s"
  have e: "?s = u_set_head (Some i) (u_set_nxt i (u_head (u_set_nxt (last us) (u_nxt s i) s)) (u_set_nxt (last us) (u_nxt s i) s))"
    using False by (simp add: udp_to_front_def last_opt_def udp_insert_def)
  have "udp_list ?s (i # us @ ws)"
    using udps.to_front [OF assms [unfolded udp_list_def] False] unfolding e udp_list_def Let_def .
  moreover have "same_blocks s ?s" unfolding e by (simp add: same_blocks_def)
  ultimately show ?thesis by simp
qed

section \<open>Which control block gets a datagram\<close>

definition udp_perfect :: "('x, 'm) udp_net \<Rightarrow> u16_t \<Rightarrow> u16_t \<Rightarrow> bool \<Rightarrow> netif \<Rightarrow> nat \<Rightarrow> bool" where
  "udp_perfect s src dest broadcast inp i \<longleftrightarrow>
     udp_local_match (upcb s i) dest broadcast (current_dest (n_dev s)) inp \<and> udp_remote_match (upcb s i) src (current_src (n_dev s))"

definition udp_unconnected :: "('x, 'm) udp_net \<Rightarrow> u16_t \<Rightarrow> bool \<Rightarrow> netif \<Rightarrow> nat \<Rightarrow> bool" where
  "udp_unconnected s dest broadcast inp i \<longleftrightarrow>
     udp_local_match (upcb s i) dest broadcast (current_dest (n_dev s)) inp \<and> \<not> udp_connected (upcb s i)"

text \<open>The first that matches both ends, else the first unconnected one that matches the local end.\<close>

definition udp_choice :: "('x, 'm) udp_net \<Rightarrow> u16_t \<Rightarrow> u16_t \<Rightarrow> bool \<Rightarrow> netif \<Rightarrow> nat list \<Rightarrow> nat option" where
  "udp_choice s src dest broadcast inp xs =
     (case List.find (udp_perfect s src dest broadcast inp) xs of Some i \<Rightarrow> Some i
      | None \<Rightarrow> List.find (udp_unconnected s dest broadcast inp) xs)"

definition udp_reordered :: "('x, 'm) udp_net \<Rightarrow> u16_t \<Rightarrow> u16_t \<Rightarrow> bool \<Rightarrow> netif \<Rightarrow> nat list \<Rightarrow> nat list" where
  "udp_reordered s src dest broadcast inp xs =
     (case List.find (udp_perfect s src dest broadcast inp) xs of Some i \<Rightarrow> i # remove1 i xs | None \<Rightarrow> xs)"

lemma udp_search_loop:
  assumes "udp_list s (us @ ws)" "linked (u_nxt s) q ws" "\<forall>u\<in>set us. \<not> udp_perfect s src dest broadcast inp u"
  shows "\<exists>s'. udp_search src dest broadcast inp q (last_opt us) un s =
      Some (case List.find (udp_perfect s src dest broadcast inp) ws of Some i \<Rightarrow> Some i
            | None \<Rightarrow> (case un of Some j \<Rightarrow> Some j | None \<Rightarrow> List.find (udp_unconnected s dest broadcast inp) ws), s') \<and>
    udp_list s' (udp_reordered s src dest broadcast inp (us @ ws)) \<and> same_blocks s s'"
  using assms
proof (induction ws arbitrary: us q un)
  case Nil
  have "List.find (udp_perfect s src dest broadcast inp) us = None" using Nil.prems(3) by (simp add: find_None_iff)
  then show ?case using Nil.prems
    by (intro exI [of _ s]) (simp add: udp_search.simps [of _ _ _ _ None] udp_reordered_def same_blocks_def split: option.split)
next
  case (Cons w ws)
  then have w: "q = Some w" "linked (u_nxt s) (u_nxt s w) ws" by simp_all
  show ?case
  proof (cases "udp_perfect s src dest broadcast inp w")
    case True
    have nw: "w \<notin> set us" using Cons.prems(3) True by auto
    have "List.find (udp_perfect s src dest broadcast inp) (us @ w # ws) = Some w"
      using Cons.prems(3) True by (induction us) auto
    then have "udp_reordered s src dest broadcast inp (us @ w # ws) = w # us @ ws"
      using nw by (simp add: udp_reordered_def remove1_append)
    then show ?thesis using udp_to_front_spec [OF Cons.prems(1)] True w(1)
      by (intro exI [of _ "udp_to_front (last_opt us) w s"])
        (subst udp_search.simps, simp add: udp_perfect_def Let_def)
  next
    case False
    let ?un = "if udp_unconnected s dest broadcast inp w \<and> un = None then Some w else un"
    have "udp_search src dest broadcast inp q (last_opt us) un s = udp_search src dest broadcast inp (u_nxt s w) (last_opt (us @ [w])) ?un s"
      using False w(1) by (subst udp_search.simps) (auto simp: udp_perfect_def udp_unconnected_def Let_def)
    moreover have "udp_list s ((us @ [w]) @ ws)" "\<forall>u\<in>set (us @ [w]). \<not> udp_perfect s src dest broadcast inp u"
      using Cons.prems(1,3) False by auto
    from Cons.IH [OF this(1) w(2) this(2), of ?un] show ?thesis
      using calculation False by (auto split: option.splits if_splits)
  qed
qed

lemma udp_search_spec:
  assumes "udp_list s xs"
  shows "\<exists>s'. udp_search src dest broadcast inp (udp_pcbs (n_dev s)) None None s =
      Some (udp_choice s src dest broadcast inp xs, s') \<and>
    udp_list s' (udp_reordered s src dest broadcast inp xs) \<and> same_blocks s s'"
  using udp_search_loop [of s "[]" xs "u_head s" src dest broadcast inp None] assms by (simp add: udp_list_def udp_choice_def cong: option.case_cong)

section \<open>New ports\<close>

definition udp_used :: "('x, 'm) udp_net \<Rightarrow> nat list \<Rightarrow> u16_t \<Rightarrow> bool" where
  "udp_used s xs port \<longleftrightarrow> (\<exists>i\<in>set xs. u_local_port (upcb s i) = port)"

lemma udp_port_used_spec: "linked (u_nxt s) q xs \<Longrightarrow> udp_port_used port q s = Some (udp_used s xs port)"
proof (induction xs arbitrary: q)
  case Nil
  then show ?case by (simp add: udp_port_used.simps [of _ None] udp_used_def)
next
  case (Cons x xs)
  then have "q = Some x" "linked (u_nxt s) (u_nxt s x) xs" by simp_all
  then show ?case using Cons.IH by (subst udp_port_used.simps) (simp add: udp_used_def)
qed

definition with_port :: "u16_t \<Rightarrow> ('x, 'm) udp_net \<Rightarrow> ('x, 'm) udp_net" where
  "with_port p = upd_udp (\<lambda>v. v\<lparr>udp_port := p\<rparr>)"

lemma with_port_simps [simp]:
  "n_mem (with_port p s) = n_mem s" "upcb (with_port p s) = upcb s" "u_head (with_port p s) = u_head s"
  "udp_port (n_dev (with_port p s)) = p" "with_port p (with_port q s) = with_port p s" "dhcp_pcb (n_dev (with_port p s)) = dhcp_pcb (n_dev s)"
  by (simp_all add: with_port_def upd_udp_def)

interpretation udp_ports: port_search "\<lambda>s :: ('x, 'm) udp_net. udp_port (n_dev s)" with_port "\<lambda>s. udp_used s xs" "\<lambda>s. udp_list s xs"
  udp_new_port_loop for xs
proof
  fix s :: "('x, 'm) udp_net" and n :: int
  assume s: "udp_list s xs" and n: "0 \<le> n" "n < 16384"
  let ?p = "if udp_port (n_dev s) = 0xffff then 0xc000 else udp_port (n_dev s) + 1"
  have e: "upd_udp (\<lambda>v. v\<lparr>udp_port := udp_next_port (udp_port v)\<rparr>) s = with_port ?p s"
    by (simp add: upd_udp_def with_port_def udp_next_port_def UDP_LOCAL_PORT_RANGE_START_def UDP_LOCAL_PORT_RANGE_END_def)
  have u: "udp_port_used ?p (u_head s) (with_port ?p s) = Some (udp_used s xs ?p)"
    using udp_port_used_spec [of "with_port ?p s" "u_head s" xs] s by (simp add: udp_list_def udp_used_def)
  have c: "c_u16 (n + 1) = n + 1" using n by (simp add: c_u16_id)
  show "udp_new_port_loop n s =
      (let p = ?p in if udp_used s xs p then if n = 16383 then Some (0, with_port p s) else udp_new_port_loop (n + 1) (with_port p s)
       else Some (p, with_port p s))"
    unfolding udp_new_port_loop.simps [of n s] Let_def e using n u c
    by (simp add: UDP_LOCAL_PORT_RANGE_START_def UDP_LOCAL_PORT_RANGE_END_def)
qed (simp_all add: udp_used_def udp_list_def fun_eq_iff)

lemma udp_new_port_spec:
  assumes "udp_list s xs" "port_in_range (udp_port (n_dev s))"
  shows "\<exists>p r. udp_new_port s = Some (r, with_port p s) \<and> port_in_range p \<and>
    (if \<forall>q. port_in_range q \<longrightarrow> udp_used s xs q then r = 0 else r = p \<and> \<not> udp_used s xs r)"
  unfolding udp_new_port_def by (rule udp_ports.search [OF assms])

section \<open>Bindings\<close>

definition udp_conflict :: "udp_pcb \<Rightarrow> u16_t \<Rightarrow> u32_t \<Rightarrow> bool" where
  "udp_conflict b port ip \<longleftrightarrow> u_local_port b = port \<and> (u_local_ip b = IPADDR_ANY \<or> ip = IPADDR_ANY \<or> u_local_ip b = ip)"

lemma udp_bind_check_spec:
  "linked (u_nxt s) q xs \<Longrightarrow> udp_bind_check pcb ip port q rb s =
     Some (if \<exists>i\<in>set xs. i \<noteq> pcb \<and> udp_conflict (upcb s i) port ip then None else Some (rb \<or> pcb \<in> set xs))"
proof (induction xs arbitrary: q rb)
  case Nil
  then show ?case by (simp add: udp_bind_check.simps [of _ _ _ None])
next
  case (Cons x xs)
  then have "q = Some x" "linked (u_nxt s) (u_nxt s x) xs" by simp_all
  moreover have "udp_bind_check pcb ip port (Some x) rb s =
      (if pcb = x then udp_bind_check pcb ip port (u_nxt s x) True s
       else if udp_conflict (upcb s x) port ip then Some None else udp_bind_check pcb ip port (u_nxt s x) rb s)"
    by (subst udp_bind_check.simps) (simp add: udp_conflict_def Let_def)
  ultimately show ?case using Cons.IH by auto
qed

text \<open>The control blocks \<open>xs\<close> in the list, the free elements \<open>fl\<close> of the pool; a block in use is in the
  list when it is bound, and no two in the list are bound to the same port and address.\<close>

definition udp_ok :: "('x, 'm) udp_net \<Rightarrow> nat list \<Rightarrow> nat list \<Rightarrow> bool" where
  "udp_ok s xs fl \<longleftrightarrow> udp_list s xs \<and> free_list MEMP_UDP_PCB (p_pools (n_mem s)) fl \<and> set xs \<inter> set fl = {} \<and>
     set xs \<subseteq> {..<memp_num MEMP_UDP_PCB} \<and> port_in_range (udp_port (n_dev s)) \<and>
     (\<forall>i. i < memp_num MEMP_UDP_PCB \<and> i \<notin> set fl \<longrightarrow> (i \<in> set xs \<longleftrightarrow> u_local_port (upcb s i) \<noteq> 0)) \<and>
     (\<forall>i\<in>set xs. \<forall>j\<in>set xs. i \<noteq> j \<longrightarrow> \<not> udp_conflict (upcb s i) (u_local_port (upcb s j)) (u_local_ip (upcb s j)))"

lemma udp_okD:
  assumes "udp_ok s xs fl"
  shows "udp_list s xs" "free_list MEMP_UDP_PCB (p_pools (n_mem s)) fl" "set xs \<inter> set fl = {}" "set xs \<subseteq> {..<memp_num MEMP_UDP_PCB}"
    "port_in_range (udp_port (n_dev s))" "\<And>i. i < memp_num MEMP_UDP_PCB \<Longrightarrow> i \<notin> set fl \<Longrightarrow> (i \<in> set xs \<longleftrightarrow> u_local_port (upcb s i) \<noteq> 0)"
    "\<And>i j. i \<in> set xs \<Longrightarrow> j \<in> set xs \<Longrightarrow> i \<noteq> j \<Longrightarrow> \<not> udp_conflict (upcb s i) (u_local_port (upcb s j)) (u_local_ip (upcb s j))"
    "distinct xs"
proof -
  note a = assms [unfolded udp_ok_def]
  show l: "udp_list s xs" and "free_list MEMP_UDP_PCB (p_pools (n_mem s)) fl" "set xs \<inter> set fl = {}"
    "set xs \<subseteq> {..<memp_num MEMP_UDP_PCB}" "port_in_range (udp_port (n_dev s))"
    using a by blast+
  show "i \<in> set xs \<longleftrightarrow> u_local_port (upcb s i) \<noteq> 0" if "i < memp_num MEMP_UDP_PCB" "i \<notin> set fl" for i
    using a that by (elim conjE allE [of _ i]) simp
  show "\<not> udp_conflict (upcb s i) (u_local_port (upcb s j)) (u_local_ip (upcb s j))" if "i \<in> set xs" "j \<in> set xs" "i \<noteq> j" for i j
    using a that by (elim conjE) (drule bspec, assumption, drule bspec, assumption, erule mp)
  show "distinct xs" using l linked_distinct [of "u_nxt s" "u_head s" xs] by (simp only: udp_list_def)
qed

lemma udp_free_port:
  assumes "set xs \<subseteq> {..<memp_num MEMP_UDP_PCB}"
  shows "\<exists>q. port_in_range q \<and> \<not> udp_used s xs q"
proof (rule ccontr)
  assume "\<not> ?thesis"
  then have sub: "nth_port ` {..<7} \<subseteq> (\<lambda>i. u_local_port (upcb s i)) ` set xs"
    using nth_port_range by (metis (mono_tags, lifting) image_eqI image_subsetI udp_used_def)
  have "inj_on nth_port {..<7}"
  proof (rule inj_onI)
    fix a b assume "a \<in> {..<(7::nat)}" "b \<in> {..<(7::nat)}" "nth_port a = nth_port b"
    then have "a < 7" "b < 7" "49152 + a mod 16384 = 49152 + b mod 16384" by (simp_all only: lessThan_iff flip: unat_nth_port)
    then show "a = b" by simp
  qed
  then have c: "card (nth_port ` {..<7}) = 7" by (simp only: card_image card_lessThan)
  have "card (nth_port ` {..<7}) \<le> card ((\<lambda>i. u_local_port (upcb s i)) ` set xs)"
    by (rule card_mono [OF _ sub]) simp
  also have "\<dots> \<le> card (set xs)" by (rule card_image_le) simp
  also have "\<dots> \<le> card {..<memp_num MEMP_UDP_PCB}" by (rule card_mono [OF finite_lessThan assms])
  finally show False unfolding c by simp
qed

text \<open>An update that leaves the links and the local ends.\<close>

lemma udp_ok_update:
  assumes "udp_ok s xs fl" "\<And>j. u_nxt s' j = u_nxt s j" "\<And>j. u_local_port (upcb s' j) = u_local_port (upcb s j)"
    "\<And>j. u_local_ip (upcb s' j) = u_local_ip (upcb s j)" "n_mem s' = n_mem s" "u_head s' = u_head s" "port_in_range (udp_port (n_dev s'))"
  shows "udp_ok s' xs fl"
proof -
  have nx: "u_nxt s' = u_nxt s" using assms(2) by (intro ext)
  have c: "udp_conflict (upcb s' i) = udp_conflict (upcb s i)" for i
    by (simp add: udp_conflict_def fun_eq_iff assms(3,4))
  show ?thesis using assms(1) unfolding udp_ok_def udp_list_def nx c assms(3-6) using assms(7) by (elim conjE) (intro conjI)
qed

lemma udp_bind_ok:
  assumes ok: "udp_ok s xs fl" and i: "i < memp_num MEMP_UDP_PCB" "i \<notin> set fl"
  shows "\<exists>e s' xs'. udp_bind i ip port s = Some (e, s') \<and> udp_ok s' xs' fl \<and> n_mem s' = n_mem s \<and>
    (if \<exists>j\<in>set xs. j \<noteq> i \<and> udp_conflict (upcb s j) port ip then e = ERR_USE \<and> s' = s
     else e = ERR_OK \<and> i \<in> set xs' \<and> u_local_ip (upcb s' i) = ip \<and> (port \<noteq> 0 \<longrightarrow> u_local_port (upcb s' i) = port) \<and>
       u_local_port (upcb s' i) \<noteq> 0 \<and>
       u_remote_ip (upcb s' i) = u_remote_ip (upcb s i))"
proof -
  note o = udp_okD [OF ok]
  have ck: "udp_bind_check i ip port (u_head s) False s =
      Some (if \<exists>j\<in>set xs. j \<noteq> i \<and> udp_conflict (upcb s j) port ip then None else Some (i \<in> set xs))"
    using udp_bind_check_spec [of s "u_head s" xs i ip port False] o(1) by (simp add: udp_list_def)
  show ?thesis
  proof (cases "\<exists>j\<in>set xs. j \<noteq> i \<and> udp_conflict (upcb s j) port ip")
    case True
    then show ?thesis using ck ok by (intro exI [of _ ERR_USE] exI [of _ s] exI [of _ xs]) (simp add: udp_bind_def)
  next
    case False
    let ?s1 = "upd_upcb i (\<lambda>b. b\<lparr>u_local_ip := ip\<rparr>) s"
    have "\<exists>p q. (if port = 0 then udp_new_port ?s1 else Some (port, ?s1)) = Some (p, with_port q ?s1) \<and> port_in_range q \<and> p \<noteq> 0 \<and>
       (if port = 0 then \<not> udp_used s xs p else p = port)"
    proof (cases "port = 0")
      case True
      have nx: "u_nxt ?s1 = u_nxt s" by auto
      have "udp_list ?s1 xs" using o(1) by (simp only: udp_list_def nx) simp
      moreover
      have us: "udp_used ?s1 xs = udp_used s xs" by (auto simp: udp_used_def fun_eq_iff)
      ultimately have "\<exists>p r. udp_new_port ?s1 = Some (r, with_port p ?s1) \<and> port_in_range p \<and>
          (if \<forall>q. port_in_range q \<longrightarrow> udp_used ?s1 xs q then r = 0 else r = p \<and> \<not> udp_used ?s1 xs r)"
        using o(5) by (intro udp_new_port_spec) simp_all
      then obtain p r where "udp_new_port ?s1 = Some (r, with_port p ?s1)" "port_in_range p"
        "if \<forall>q. port_in_range q \<longrightarrow> udp_used s xs q then r = 0 else r = p \<and> \<not> udp_used s xs r"
        unfolding us by blast
      moreover have "\<not> (\<forall>q. port_in_range q \<longrightarrow> udp_used s xs q)" using udp_free_port [OF o(4)] by blast
      moreover have "r \<noteq> 0" if "port_in_range r" for r using that by (auto simp: port_in_range_unat)
      ultimately show ?thesis using True by (intro exI [of _ r] exI [of _ p]) (auto split: if_splits)
    next
      case False
      have "?s1 = with_port (udp_port (n_dev s)) ?s1" by (simp add: with_port_def upd_udp_def upd_upcb_def)
      then show ?thesis using False o(5) by (intro exI [of _ port] exI [of _ "udp_port (n_dev s)"]) simp
    qed
    then obtain p q where p: "(if port = 0 then udp_new_port ?s1 else Some (port, ?s1)) = Some (p, with_port q ?s1)"
      "port_in_range q" "p \<noteq> 0" "if port = 0 then \<not> udp_used s xs p else p = port" by blast
    let ?s2 = "upd_upcb i (\<lambda>b. b\<lparr>u_local_port := p\<rparr>) (with_port q ?s1)"
    let ?s3 = "if i \<notin> set xs then udp_insert i ?s2 else ?s2"
    let ?xs = "if i \<notin> set xs then i # xs else xs"
    have run: "udp_bind i ip port s = Some (ERR_OK, ?s3)"
      unfolding udp_bind_def using ck False p(1,3) by simp
    have up: "upcb ?s3 j = (if j = i then (upcb s i)\<lparr>u_local_ip := ip, u_local_port := p, u_next := (if i \<notin> set xs then u_head s else u_nxt s i)\<rparr>
        else upcb s j)" for j by (simp add: udp_insert_def)
    have "linked (u_nxt ?s2) (u_head ?s2) xs"
      using o(1) linked_cong [of xs "u_nxt ?s2" "u_nxt s"] by (simp add: udp_list_def)
    then have ls: "udp_list ?s3 ?xs"
      using udps.insert_front [of ?s2 xs i] by (simp add: udp_list_def udp_insert_def)
    have nc: "\<not> udp_conflict (upcb s j) p ip" if "j \<in> set xs" "j \<noteq> i" for j
      using False that p(4) by (cases "port = 0") (auto simp: udp_used_def udp_conflict_def)
    have "udp_ok ?s3 ?xs fl"
      unfolding udp_ok_def
    proof (intro conjI)
      show "udp_list ?s3 ?xs" by (rule ls)
      show "free_list MEMP_UDP_PCB (p_pools (n_mem ?s3)) fl" using o(2) by (simp add: udp_insert_def)
      show "set ?xs \<inter> set fl = {}" "set ?xs \<subseteq> {..<memp_num MEMP_UDP_PCB}" using o(3,4) i by auto
      show "port_in_range (udp_port (n_dev ?s3))" using p(2) by (simp add: udp_insert_def)
      show "\<forall>j. j < memp_num MEMP_UDP_PCB \<and> j \<notin> set fl \<longrightarrow> (j \<in> set ?xs \<longleftrightarrow> u_local_port (upcb ?s3 j) \<noteq> 0)"
      proof (intro allI impI)
        fix j assume j: "j < memp_num MEMP_UDP_PCB \<and> j \<notin> set fl"
        show "j \<in> set ?xs \<longleftrightarrow> u_local_port (upcb ?s3 j) \<noteq> 0"
          unfolding up using o(6) [of j] p(3) j by (cases "j = i") simp_all
      qed
      show "\<forall>a\<in>set ?xs. \<forall>b\<in>set ?xs. a \<noteq> b \<longrightarrow> \<not> udp_conflict (upcb ?s3 a) (u_local_port (upcb ?s3 b)) (u_local_ip (upcb ?s3 b))"
      proof (intro ballI impI)
        fix a b assume ab: "a \<in> set ?xs" "b \<in> set ?xs" "a \<noteq> b"
        show "\<not> udp_conflict (upcb ?s3 a) (u_local_port (upcb ?s3 b)) (u_local_ip (upcb ?s3 b))"
        proof (cases "a = i")
          case True
          then have "\<not> udp_conflict (upcb s b) p ip" using nc ab by (auto split: if_splits)
          then show ?thesis using True ab by (auto simp: up udp_conflict_def)
        next
          case a: False
          then have "a \<in> set xs" using ab by (auto split: if_splits)
          then show ?thesis using a nc [of a] o(7) [of a b] ab by (auto simp: up split: if_splits)
        qed
      qed
    qed
    then show ?thesis unfolding if_not_P [OF False] using run p(3,4)
      by (intro exI [of _ ERR_OK] exI [of _ ?s3] exI [of _ ?xs]) (auto simp: up udp_insert_def)
  qed
qed

section \<open>One operation\<close>

text \<open>A control block that has been allocated.\<close>

definition udp_held :: "('x, 'm) udp_net \<Rightarrow> nat \<Rightarrow> bool" where
  "udp_held s i \<longleftrightarrow> i < memp_num MEMP_UDP_PCB \<and> (\<forall>fl. free_list MEMP_UDP_PCB (p_pools (n_mem s)) fl \<longrightarrow> i \<notin> set fl)"

definition udp_start :: "('x, 'm) udp_net \<Rightarrow> bool" where
  "udp_start s \<longleftrightarrow> udp_pcbs (n_dev s) = None \<and> udp_port (n_dev s) = UDP_LOCAL_PORT_RANGE_START \<and>
     free_list MEMP_UDP_PCB (p_pools (n_mem s)) (rev [0..<memp_num MEMP_UDP_PCB])"

lemma free_list_fun: "free_list t p xs \<Longrightarrow> free_list t p ys \<Longrightarrow> xs = ys"
  by (auto simp: free_list_def intro: linked_unique)

lemma udp_held_iff: "udp_ok s xs fl \<Longrightarrow> udp_held s i \<longleftrightarrow> i < memp_num MEMP_UDP_PCB \<and> i \<notin> set fl"
  unfolding udp_held_def using free_list_fun udp_okD(2) by metis

lemma udp_start_ok: "udp_start s \<Longrightarrow> udp_ok s [] (rev [0..<memp_num MEMP_UDP_PCB])"
  by (auto simp: udp_start_def udp_ok_def udp_list_def port_in_range_def UDP_LOCAL_PORT_RANGE_START_def simp del: memp_num.simps)

lemma udp_ok_pools:
  assumes ok: "udp_ok s xs fl" and "udp_list s' ys" "n_mem s' = (n_mem s)\<lparr>p_pools := ps\<rparr>" "free_list MEMP_UDP_PCB ps fl'"
    "set ys \<inter> set fl' = {}" "set ys \<subseteq> {..<memp_num MEMP_UDP_PCB}" "udp_port (n_dev s') = udp_port (n_dev s)"
    "\<And>i. i < memp_num MEMP_UDP_PCB \<Longrightarrow> i \<notin> set fl' \<Longrightarrow> i \<in> set ys \<longleftrightarrow> u_local_port (upcb s' i) \<noteq> 0"
    "set ys \<subseteq> set xs" "\<And>i. i \<in> set ys \<Longrightarrow> u_local_port (upcb s' i) = u_local_port (upcb s i) \<and> u_local_ip (upcb s' i) = u_local_ip (upcb s i)"
  shows "udp_ok s' ys fl'"
  unfolding udp_ok_def
proof (intro conjI ballI impI)
  fix i j assume ij: "i \<in> set ys" "j \<in> set ys" "i \<noteq> j"
  have "\<not> udp_conflict (upcb s i) (u_local_port (upcb s j)) (u_local_ip (upcb s j))"
    using udp_okD(7) [OF ok, of i j] ij assms(9) by blast
  moreover have "udp_conflict (upcb s' i) = udp_conflict (upcb s i)" "u_local_port (upcb s' j) = u_local_port (upcb s j)"
    "u_local_ip (upcb s' j) = u_local_ip (upcb s j)"
    using assms(10) [OF ij(1)] assms(10) [OF ij(2)] by (simp_all add: udp_conflict_def fun_eq_iff)
  ultimately show "\<not> udp_conflict (upcb s' i) (u_local_port (upcb s' j)) (u_local_ip (upcb s' j))" by simp
next
  show "udp_list s' ys" "set ys \<inter> set fl' = {}" "set ys \<subseteq> {..<memp_num MEMP_UDP_PCB}" by (fact assms)+
  show "free_list MEMP_UDP_PCB (p_pools (n_mem s')) fl'" using assms(3,4) by simp
  show "port_in_range (udp_port (n_dev s'))" using udp_okD(5) [OF ok] assms(7) by simp
  show "\<forall>i. i < memp_num MEMP_UDP_PCB \<and> i \<notin> set fl' \<longrightarrow> (i \<in> set ys) = (u_local_port (upcb s' i) \<noteq> 0)" using assms(8) by blast
qed

lemma udp_new_ok:
  assumes ok: "udp_ok s xs fl"
  shows "\<exists>fl'. udp_ok (snd (udp_new s)) xs fl'"
proof (cases fl)
  case Nil
  then have m: "memp_malloc MEMP_UDP_PCB (p_pools (n_mem s)) = (None, p_pools (n_mem s))"
    using free_list_malloc_None udp_okD(2) [OF ok] by simp
  have "snd (udp_new s) = set_mem (n_mem s) s" by (simp add: udp_new_def m)
  moreover have "set_mem (n_mem s) s = s" by (simp add: set_mem_def)
  ultimately show ?thesis using ok by auto
next
  case (Cons x fl')
  note o = udp_okD [OF ok]
  obtain ps where ps: "memp_malloc MEMP_UDP_PCB (p_pools (n_mem s)) = (Some x, ps)" "free_list MEMP_UDP_PCB ps fl'" "x \<notin> set fl'"
    using free_list_malloc_Some o(2) Cons by blast
  let ?s = "upd_upcb x (\<lambda>b. udp_pcb_zero\<lparr>u_ttl := UDP_TTL\<rparr>) (set_mem ((n_mem s)\<lparr>p_pools := ps\<rparr>) s)"
  have e: "snd (udp_new s) = ?s" by (simp add: udp_new_def ps(1))
  have x: "x \<notin> set xs" using o(3) Cons by auto
  have z: "u_local_port (upcb ?s x) = 0" by (simp add: udp_pcb_zero_def)
  have other: "upcb ?s i = upcb s i" if "i \<noteq> x" for i using that by simp
  have "linked (u_nxt ?s) (u_head s) xs = linked (u_nxt s) (u_head s) xs"
    by (rule linked_cong) (use x other in metis)
  then have "udp_list ?s xs" using o(1) by (simp add: udp_list_def)
  then have "udp_ok ?s xs fl'"
  proof (rule udp_ok_pools [OF ok])
    show "i \<in> set xs \<longleftrightarrow> u_local_port (upcb ?s i) \<noteq> 0" if "i < memp_num MEMP_UDP_PCB" "i \<notin> set fl'" for i
    proof (cases "i = x")
      case True
      then show ?thesis using x z by simp
    next
      case False
      then show ?thesis using o(6) [of i] that Cons other by simp
    qed
    show "u_local_port (upcb ?s i) = u_local_port (upcb s i) \<and> u_local_ip (upcb ?s i) = u_local_ip (upcb s i)" if "i \<in> set xs" for i
      using other [of i] that x by auto
  qed (use o ps Cons in auto)
  then show ?thesis unfolding e by blast
qed

lemma udp_remove_ok:
  assumes ok: "udp_ok s xs fl" and i: "i < memp_num MEMP_UDP_PCB" "i \<notin> set fl"
  shows "\<exists>s'. udp_remove i s = Some s' \<and> udp_ok s' (remove1 i xs) (i # fl)"
proof -
  note o = udp_okD [OF ok]
  note l = o(1) [unfolded udp_list_def]
  have fl': "free_list MEMP_UDP_PCB (memp_free MEMP_UDP_PCB (Some i) (p_pools (n_mem s))) (i # fl)"
    using free_list_free o(2) i by blast
  have "\<exists>s1. (if u_head s = Some i then Some (upd_udp (\<lambda>v. v\<lparr>udp_pcbs := u_next (udp_tab v i)\<rparr>) s)
      else udp_unlink_loop i (u_head s) s) = Some s1 \<and> udp_list s1 (remove1 i xs) \<and> same_blocks s s1"
  proof (cases "i \<in> set xs")
    case True
    then obtain us ws where xs: "xs = us @ i # ws" "i \<notin> set us" by (meson split_list_first)
    have r: "remove1 i xs = us @ ws" using xs by (simp add: remove1_append)
    have h: "upd_udp (\<lambda>v. v\<lparr>udp_pcbs := u_next (udp_tab v i)\<rparr>) s = u_set_head (u_nxt s i) s" by (simp add: upd_udp_def)
    have "same_blocks s (if us = [] then u_set_head (u_nxt s i) s else u_set_nxt (last us) (u_nxt s i) s)"
      by (simp add: same_blocks_def)
    then show ?thesis using udps.unlink [OF l [unfolded xs(1)]] unfolding h r udp_list_def by blast
  next
    case False
    then have "u_head s \<noteq> Some i" using l by (cases xs) auto
    then show ?thesis using udps.loop_skip [OF l False] False o(1) by (simp add: remove1_idem same_blocks_def)
  qed
  then obtain s1 where s1: "(if u_head s = Some i then Some (upd_udp (\<lambda>v. v\<lparr>udp_pcbs := u_next (udp_tab v i)\<rparr>) s)
      else udp_unlink_loop i (u_head s) s) = Some s1" "udp_list s1 (remove1 i xs)" "same_blocks s s1" by blast
  let ?s = "set_mem ((n_mem s1)\<lparr>p_pools := memp_free MEMP_UDP_PCB (Some i) (p_pools (n_mem s1))\<rparr>) s1"
  have run: "udp_remove i s = Some ?s" using s1(1) by (simp add: udp_remove_def)
  have m: "n_mem s1 = n_mem s" using s1(3) by (simp add: same_blocks_def)
  have sr: "set (remove1 i xs) = set xs - {i}" using o(8) by (simp add: set_remove1_eq)
  have "udp_ok ?s (remove1 i xs) (i # fl)"
  proof (rule udp_ok_pools [OF ok])
    show "udp_list ?s (remove1 i xs)" using s1(2) by (simp add: udp_list_def)
    show "n_mem ?s = (n_mem s)\<lparr>p_pools := memp_free MEMP_UDP_PCB (Some i) (p_pools (n_mem s))\<rparr>" by (simp add: m)
    show "udp_port (n_dev ?s) = udp_port (n_dev s)" using s1(3) by (simp add: same_blocks_def)
    show "set (remove1 i xs) \<inter> set (i # fl) = {}" "set (remove1 i xs) \<subseteq> {..<memp_num MEMP_UDP_PCB}" "set (remove1 i xs) \<subseteq> set xs"
      unfolding sr using o(3,4) by auto
    show "j \<in> set (remove1 i xs) \<longleftrightarrow> u_local_port (upcb ?s j) \<noteq> 0" if "j < memp_num MEMP_UDP_PCB" "j \<notin> set (i # fl)" for j
      using o(6) [of j] that same_blocks_fields(1) [OF s1(3)] by (simp add: sr)
    show "u_local_port (upcb ?s j) = u_local_port (upcb s j) \<and> u_local_ip (upcb ?s j) = u_local_ip (upcb s j)" for j
      using same_blocks_fields(1,2) [OF s1(3)] by simp
  qed (fact fl')
  with run show ?thesis by blast
qed

lemma udp_same_blocks_ok:
  assumes "udp_ok s xs fl" "same_blocks s s'" "udp_list s' ys" "set ys = set xs"
  shows "udp_ok s' ys fl"
proof -
  have "udp_conflict (upcb s' i) = udp_conflict (upcb s i)" for i
    using same_blocks_fields [OF assms(2)] by (simp add: udp_conflict_def fun_eq_iff)
  then show ?thesis using assms same_blocks_fields [OF assms(2)] unfolding udp_ok_def
    by (simp only: same_blocks_def) auto
qed

lemma udp_connect_ok:
  assumes ok: "udp_ok s xs fl" and i: "i < memp_num MEMP_UDP_PCB" "i \<notin> set fl"
  shows "\<exists>e s' xs'. udp_connect i ip port s = Some (e, s') \<and> udp_ok s' xs' fl"
proof -
  have "\<exists>e s1 xs1. (if u_local_port (upcb s i) = 0
      then udp_bind i (u_local_ip (upcb s i)) (u_local_port (upcb s i)) s else Some (ERR_OK, s)) = Some (e, s1) \<and> udp_ok s1 xs1 fl \<and>
    (e = ERR_OK \<longrightarrow> u_local_port (upcb s1 i) \<noteq> 0)"
  proof (cases "u_local_port (upcb s i) = 0")
    case True
    obtain e s1 xs1 where "udp_bind i (u_local_ip (upcb s i)) 0 s = Some (e, s1)" "udp_ok s1 xs1 fl"
      "e \<noteq> ERR_OK \<or> u_local_port (upcb s1 i) \<noteq> 0"
      using udp_bind_ok [OF ok i, of "u_local_ip (upcb s i)" 0] by (auto split: if_splits)
    then show ?thesis using True by auto
  next
    case False
    then show ?thesis using ok by auto
  qed
  then obtain e s1 xs1 where b: "(if u_local_port (upcb s i) = 0
      then udp_bind i (u_local_ip (upcb s i)) (u_local_port (upcb s i)) s else Some (ERR_OK, s)) = Some (e, s1)" "udp_ok s1 xs1 fl"
    "e = ERR_OK \<longrightarrow> u_local_port (upcb s1 i) \<noteq> 0" by blast
  show ?thesis
  proof (cases "e = ERR_OK")
    case False
    then show ?thesis using b by (auto simp: udp_connect_def)
  next
    case True
    let ?s2 = "upd_upcb i (\<lambda>b. b\<lparr>u_remote_ip := ip, u_remote_port := port, u_flags := u_flags b OR UDP_FLAGS_CONNECTED\<rparr>) s1"
    have ok2: "udp_ok ?s2 xs1 fl" by (rule udp_ok_update [OF b(2)]) (simp_all add: udp_okD(5) [OF b(2)])
    have mem: "i \<in> set xs1" using udp_okD(6) [OF b(2) i] b(3) True by blast
    have "udp_listed i q s = Some True" if "linked (u_nxt s) q ys" "i \<in> set ys" for q ys and s :: "('a, 'b) udp_net"
      using that by (induction ys arbitrary: q) (subst udp_listed.simps, auto)+
    then have "udp_listed i (u_head ?s2) ?s2 = Some True" using udp_okD(1) [OF ok2] mem by (simp only: udp_list_def)
    then have "udp_connect i ip port s = Some (ERR_OK, ?s2)" unfolding udp_connect_def using b(1) True by simp
    then show ?thesis using ok2 by blast
  qed
qed

end
