(* ===== verification/EthernetifProps.thy ===== *)
theory EthernetifProps
  imports Ethernetif EtharpFrames PbufProps
begin

text \<open>
  The driver as a queue of frames: the transmit ring is a FIFO while it is not full, what
  happens when it is full, what \<open>low_level_input\<close> delivers, and when reception stops.
\<close>

declare split_paired_All [simp del] split_paired_Ex [simp del]

section \<open>The transmit ring\<close>

definition tx_owned :: "eth_desc list \<Rightarrow> nat \<Rightarrow> bool" where
  "tx_owned tab i \<longleftrightarrow> d_status (tab ! i) AND ETH_DMATxDesc_OWN \<noteq> 0"

definition slot :: "nat \<Rightarrow> nat \<Rightarrow> nat" where
  "slot h k = (h + k) mod ETH_TXBUFNB"

definition tx_layout :: "eth_desc list \<Rightarrow> bool" where
  "tx_layout tab \<longleftrightarrow> length tab = ETH_TXBUFNB \<and>
     (\<forall>i<ETH_TXBUFNB. d_buf1 (tab ! i) = int i * ETH_MAX_PACKET_SIZE \<and> d_next (tab ! i) = slot i 1)"

text \<open>The ring holds \<open>n\<close> frames from the descriptor \<open>h\<close> on, the one that is sent next.\<close>

definition tx_ok :: "'a eth_dev_scheme \<Rightarrow> nat \<Rightarrow> nat \<Rightarrow> bool" where
  "tx_ok d h n \<longleftrightarrow> tx_layout (tx_tab d) \<and> h < ETH_TXBUFNB \<and> n \<le> ETH_TXBUFNB \<and> tx_set d = slot h n \<and>
     (\<forall>k<ETH_TXBUFNB. tx_owned (tx_tab d) (slot h k) \<longleftrightarrow> k < n)"

definition tx_frame :: "'a eth_dev_scheme \<Rightarrow> nat \<Rightarrow> u8_t list" where
  "tx_frame d i = bytes (tx_buff d) (d_buf1 (tx_tab d ! i)) (uint (d_control (tx_tab d ! i) AND ETH_DMATxDesc_TBS1))"

definition tx_frames :: "'a eth_dev_scheme \<Rightarrow> nat \<Rightarrow> nat \<Rightarrow> u8_t list list" where
  "tx_frames d h n = map (\<lambda>k. tx_frame d (slot h k)) [0..<n]"

text \<open>Every frame in the ring lies inside its buffer.\<close>

definition tx_fits :: "'a eth_dev_scheme \<Rightarrow> nat \<Rightarrow> nat \<Rightarrow> bool" where
  "tx_fits d h n \<longleftrightarrow> (\<forall>k<n. uint (d_control (tx_tab d ! slot h k) AND ETH_DMATxDesc_TBS1) \<le> ETH_MAX_PACKET_SIZE)"

definition ring_holds :: "'a eth_dev_scheme \<Rightarrow> nat \<Rightarrow> u8_t list list \<Rightarrow> bool" where
  "ring_holds d h fs \<longleftrightarrow> tx_ok d h (length fs) \<and> tx_fits d h (length fs) \<and> tx_frames d h (length fs) = fs"

definition eth_queue :: "'a eth_dev_scheme \<Rightarrow> u8_t list list \<Rightarrow> bool" where
  "eth_queue d fs \<longleftrightarrow> (\<exists>h. ring_holds d h fs)"

lemmas ring_consts = ETH_TXBUFNB_def ETH_RXBUFNB_def ETH_MAX_PACKET_SIZE_def

lemma slot_less [simp]: "slot h k < ETH_TXBUFNB"
  by (simp add: slot_def ETH_TXBUFNB_def)

lemma slot_slot: "slot (slot h j) k = slot h (j + k)"
  by (simp add: slot_def mod_add_left_eq add.assoc)

lemma slot_inj: "j < ETH_TXBUFNB \<Longrightarrow> k < ETH_TXBUFNB \<Longrightarrow> slot h j = slot h k \<longleftrightarrow> j = k"
  using mod_eq_nat1E [of "h + j" 5 "h + k"] mod_eq_nat2E [of "h + j" 5 "h + k"]
  by (fastforce simp: slot_def ETH_TXBUFNB_def)

lemma slot_full: "slot h ETH_TXBUFNB = slot h 0"
  by (simp add: slot_def)

lemma slot_0 [simp]: "h < ETH_TXBUFNB \<Longrightarrow> slot h 0 = h"
  by (simp add: slot_def)

section \<open>Copying a packet into the buffer\<close>

lemma bytes_cong: "(\<And>k. a \<le> k \<Longrightarrow> k < a + n \<Longrightarrow> m k = m' k) \<Longrightarrow> bytes m a n = bytes m' a n"
  by (auto simp: bytes_def)

lemma length_mem_bytes [simp]: "length (bytes m a n) = nat n"
  by (simp add: bytes_def)

lemma bytes_split: "0 \<le> i \<Longrightarrow> 0 \<le> j \<Longrightarrow> bytes m a (i + j) = bytes m a i @ bytes m (a + i) j"
  by (rule nth_equalityI) (auto simp: bytes_def nth_append nat_add_distrib)

lemma store_append: "store_bytes (a + int (length bs)) cs (store_bytes a bs m) = store_bytes a (bs @ cs) m"
proof -
  have "nat (k - (a + int (length bs))) = nat (k - a) - length bs" for k by (simp add: nat_diff_distrib flip: diff_diff_eq)
  then show ?thesis by (auto simp: store_bytes_def fun_eq_iff nth_append)
qed

lemma store_Nil [simp]: "store_bytes a [] m = m"
  by (auto simp: store_bytes_def fun_eq_iff)

lemma bytes_store: "bytes (store_bytes a bs m) a (int (length bs)) = bs"
  by (rule nth_equalityI) (auto simp: bytes_def store_bytes_def)

lemma bytes_store_other: "a + int (length bs) \<le> b \<or> b + n \<le> a \<Longrightarrow> bytes (store_bytes a bs m) b n = bytes m b n"
  by (rule bytes_cong) (auto simp: store_bytes_def)

lemma bytes_store_over: "bytes (store_bytes a bs m) a n = take (nat n) bs @ drop (length bs) (bytes m a n)"
  by (rule nth_equalityI) (auto simp: bytes_def store_bytes_def nth_append)

lemma tx_copy_loop_spec:
  "chain m q xs \<Longrightarrow> lens_ok m xs \<Longrightarrow> tx_copy_loop m a q l b = Some (l + tot m xs, store_bytes (a + l) (data m xs) b)"
proof (induction xs arbitrary: q l b)
  case Nil
  then show ?case by (simp add: tx_copy_loop.simps [of m a None])
next
  case (Cons x xs)
  let ?n = "pb_len (p_pbufs m x)"
  have n: "0 \<le> ?n" using Cons.prems by simp
  have "tx_copy_loop m a q l b = tx_copy_loop m a (pb_next (p_pbufs m x)) (l + ?n)
      (store_bytes (a + l) (pb_data m x) b)"
    using Cons.prems(1) by (subst tx_copy_loop.simps) (simp add: Let_def pb_data_def)
  also have "\<dots> = Some (l + ?n + tot m xs, store_bytes (a + (l + ?n)) (data m xs) (store_bytes (a + l) (pb_data m x) b))"
    using Cons.prems by (intro Cons.IH) auto
  also have "store_bytes (a + (l + ?n)) (data m xs) (store_bytes (a + l) (pb_data m x) b) =
      store_bytes (a + l) (data m (x # xs)) b"
    using store_append [of "a + l" "pb_data m x" "data m xs" b] n by (simp add: add.assoc)
  finally show ?case by simp
qed

section \<open>Sending\<close>

lemma tx_own_bit: "w AND ETH_DMATxDesc_OWN = 0 \<longleftrightarrow> \<not> bit w 31"
  using and_exp_eq_0_iff_not_bit [of w 31] by (simp add: ETH_DMATxDesc_OWN_def)

lemma tx_owned_bit: "tx_owned tab i \<longleftrightarrow> bit (d_status (tab ! i)) 31"
  by (simp add: tx_owned_def tx_own_bit)

lemma tx_flag_bits [simp]:
  "bit ETH_DMATxDesc_OWN 31" "\<not> bit ETH_DMATxDesc_LS 31" "\<not> bit ETH_DMATxDesc_FS 31"
  "\<not> bit ETH_DMATxDesc_TCH 31" "\<not> bit ETH_DMATxDesc_ChecksumTCPUDPICMPFull 31"
  by (simp_all add: ETH_DMATxDesc_OWN_def ETH_DMATxDesc_LS_def ETH_DMATxDesc_FS_def ETH_DMATxDesc_TCH_def
      ETH_DMATxDesc_ChecksumTCPUDPICMPFull_def)

lemma tbs_mask: "0 \<le> n \<Longrightarrow> n \<le> 8191 \<Longrightarrow> uint ((word_of_int n :: u32_t) AND ETH_DMATxDesc_TBS1) = n"
proof -
  assume n: "0 \<le> n" "n \<le> 8191"
  have "ETH_DMATxDesc_TBS1 = Bit_Operations.mask 13" by (simp add: ETH_DMATxDesc_TBS1_def mask_eq_exp_minus_1)
  then have "(word_of_int n :: u32_t) AND ETH_DMATxDesc_TBS1 = take_bit 13 (word_of_int n)"
    by (simp only: take_bit_eq_mask)
  also have "uint \<dots> = take_bit 13 (uint (word_of_int n :: u32_t))" by (rule unsigned_take_bit_eq)
  also have "\<dots> = n" using n by (simp add: uint_word_of_int take_bit_eq_mod)
  finally show ?thesis .
qed

lemma ETH_TxPkt_busy: "tx_owned (tx_tab d) (tx_set d) \<Longrightarrow> ETH_TxPkt_ChainMode n d = (ETH_ERROR, d)"
  by (simp add: ETH_TxPkt_ChainMode_def tx_owned_def)

lemma ETH_TxPkt_free:
  assumes "\<not> tx_owned (tx_tab d) (tx_set d)" "tx_set d < length (tx_tab d)"
  obtains d' where "ETH_TxPkt_ChainMode n d = (ETH_SUCCESS, d')" "tx_set d' = d_next (tx_tab d ! tx_set d)"
    "tx_buff d' = tx_buff d" "rx_tab d' = rx_tab d" "rx_get d' = rx_get d" "rx_buff d' = rx_buff d"
    "tx_tab d' = (tx_tab d)[tx_set d := (tx_desc d)\<lparr>d_control := word_of_int n AND ETH_DMATxDesc_TBS1,
       d_status := (d_status (tx_desc d) OR (ETH_DMATxDesc_LS OR ETH_DMATxDesc_FS)) OR ETH_DMATxDesc_OWN\<rparr>]"
proof
  let ?i = "tx_set d"
  let ?d = "upd_tx ?i (\<lambda>x. x\<lparr>d_status := d_status x OR ETH_DMATxDesc_OWN\<rparr>) (upd_tx ?i (\<lambda>x. x\<lparr>d_status := d_status x OR (ETH_DMATxDesc_LS OR ETH_DMATxDesc_FS)\<rparr>)
    (upd_tx ?i (\<lambda>x. x\<lparr>d_control := word_of_int n AND ETH_DMATxDesc_TBS1\<rparr>) d))"
  let ?e = "if dma_sr ?d AND ETH_DMASR_TBUS \<noteq> 0 then (write_dma_sr ETH_DMASR_TBUS ?d)\<lparr>tx_polls := tx_polls ?d + 1\<rparr> else ?d"
  let ?d' = "?e\<lparr>tx_set := d_next (tx_desc ?e)\<rparr>"
  show "ETH_TxPkt_ChainMode n d = (ETH_SUCCESS, ?d')"
    using assms(1) by (simp only: ETH_TxPkt_ChainMode_def tx_owned_def Let_def if_False)
  show "tx_set ?d' = d_next (tx_tab d ! ?i)" "tx_buff ?d' = tx_buff d" "rx_tab ?d' = rx_tab d" "rx_get ?d' = rx_get d" "rx_buff ?d' = rx_buff d"
    "tx_tab ?d' = (tx_tab d)[tx_set d := (tx_desc d)\<lparr>d_control := word_of_int n AND ETH_DMATxDesc_TBS1,
       d_status := (d_status (tx_desc d) OR (ETH_DMATxDesc_LS OR ETH_DMATxDesc_FS)) OR ETH_DMATxDesc_OWN\<rparr>]"
    using assms(2) by (simp_all add: upd_tx_def write_dma_sr_def)
qed

lemma low_level_output_run:
  assumes "packet m (Some p) ps"
  shows "low_level_output p m d = Some (ERR_OK, snd (ETH_TxPkt_ChainMode (tot m ps)
    (d\<lparr>tx_buff := store_bytes (d_buf1 (tx_desc d)) (data m ps) (tx_buff d)\<rparr>)))"
  using assms tx_copy_loop_spec [of m "Some p" ps] tot_nonneg [of m ps] tot_bound [of m ps]
  by (simp add: low_level_output_def packet_def ETH_GetCurrentTxBuffer_def c_u16_id split: prod.split)

lemma packet_length: "packet m p ps \<Longrightarrow> int (length (data m ps)) = tot m ps"
  by (simp add: packet_def length_data)

lemma tx_frame_store:
  assumes "tx_layout (tx_tab d)" "i < ETH_TXBUFNB" "j < ETH_TXBUFNB" "i \<noteq> j" "int (length bs) \<le> ETH_MAX_PACKET_SIZE"
    "uint (d_control (tx_tab d ! j) AND ETH_DMATxDesc_TBS1) \<le> ETH_MAX_PACKET_SIZE" "tx_tab d' ! j = tx_tab d ! j"
    "tx_buff d' = store_bytes (d_buf1 (tx_tab d ! i)) bs (tx_buff d)"
  shows "tx_frame d' j = tx_frame d j"
proof -
  let ?n = "uint (d_control (tx_tab d ! j) AND ETH_DMATxDesc_TBS1)"
  have b: "d_buf1 (tx_tab d ! i) = int i * 1520" "d_buf1 (tx_tab d ! j) = int j * 1520"
    using assms(1-3) by (auto simp: tx_layout_def ETH_MAX_PACKET_SIZE_def)
  consider "i < j" | "j < i" using assms(4) by linarith
  then have "int i * 1520 + int (length bs) \<le> int j * 1520 \<or> int j * 1520 + ?n \<le> int i * 1520"
  proof cases
    case 1
    then have "int i + 1 \<le> int j" by linarith
    then show ?thesis using assms(5) unfolding ETH_MAX_PACKET_SIZE_def by linarith
  next
    case 2
    then have "int j + 1 \<le> int i" by linarith
    then show ?thesis using assms(6) unfolding ETH_MAX_PACKET_SIZE_def by linarith
  qed
  then show ?thesis unfolding tx_frame_def assms(7,8) b by (rule bytes_store_other)
qed

text \<open>There is a free descriptor: the packet becomes the last frame of the ring.\<close>

lemma low_level_output_appends:
  assumes "ring_holds d h fs" "length fs < ETH_TXBUFNB" "packet m (Some p) ps" "tot m ps \<le> ETH_MAX_PACKET_SIZE"
  shows "\<exists>d'. low_level_output p m d = Some (ERR_OK, d') \<and> ring_holds d' h (fs @ [data m ps]) \<and>
    rx_tab d' = rx_tab d \<and> rx_get d' = rx_get d \<and> rx_buff d' = rx_buff d"
proof -
  let ?n = "length fs" and ?i = "tx_set d" and ?bs = "data m ps"
  have h: "tx_ok d h ?n" "tx_fits d h ?n" "tx_frames d h ?n = fs" using assms(1) by (auto simp: ring_holds_def)
  have i: "?i = slot h ?n" "?i < ETH_TXBUFNB" "length (tx_tab d) = ETH_TXBUFNB" "h < ETH_TXBUFNB" "tx_layout (tx_tab d)"
    using h(1) by (auto simp: tx_ok_def tx_layout_def)
  have free: "\<not> tx_owned (tx_tab d) ?i" using h(1) assms(2) i(1) by (auto simp: tx_ok_def)
  let ?d0 = "d\<lparr>tx_buff := store_bytes (d_buf1 (tx_desc d)) ?bs (tx_buff d)\<rparr>"
  obtain d' where d': "ETH_TxPkt_ChainMode (tot m ps) ?d0 = (ETH_SUCCESS, d')" "tx_set d' = d_next (tx_tab d ! ?i)"
    "tx_buff d' = store_bytes (d_buf1 (tx_desc d)) ?bs (tx_buff d)" "rx_tab d' = rx_tab d" "rx_get d' = rx_get d" "rx_buff d' = rx_buff d"
    "tx_tab d' = (tx_tab d)[?i := (tx_desc d)\<lparr>d_control := word_of_int (tot m ps) AND ETH_DMATxDesc_TBS1,
       d_status := (d_status (tx_desc d) OR (ETH_DMATxDesc_LS OR ETH_DMATxDesc_FS)) OR ETH_DMATxDesc_OWN\<rparr>]"
    by (rule ETH_TxPkt_free [of ?d0 "tot m ps"]) (use free i in simp_all)
  have t: "0 \<le> tot m ps" "int (length ?bs) = tot m ps" "tot m ps \<le> 8191"
    using assms(3,4) packet_length [OF assms(3)] tot_nonneg [of m ps] by (auto simp: packet_def ETH_MAX_PACKET_SIZE_def)
  have own: "tx_owned (tx_tab d') j \<longleftrightarrow> j = ?i \<or> tx_owned (tx_tab d) j" if "j < ETH_TXBUFNB" for j
    using that i(2,3) unfolding d'(7) by (cases "j = ?i") (simp_all add: tx_owned_bit bit_or_iff)
  have same: "tx_tab d' ! slot h k = tx_tab d ! slot h k" if "k < ?n" for k
    using that assms(2) slot_inj [of k ?n h] i(1) unfolding d'(7) by simp
  have at_i: "d_buf1 (tx_tab d' ! ?i) = d_buf1 (tx_desc d)"
    "uint (d_control (tx_tab d' ! ?i) AND ETH_DMATxDesc_TBS1) = tot m ps"
    using i(2,3) t by (simp_all add: d'(7) tbs_mask)
  have lay: "tx_layout (tx_tab d')" using i(5,3,2) unfolding d'(7) by (auto simp: tx_layout_def nth_list_update)
  have ok: "tx_ok d' h (Suc ?n)"
  proof -
    have "tx_set d' = slot h (Suc ?n)" using d'(2) i(1,2,5) slot_slot [of h ?n 1] by (simp add: tx_layout_def)
    moreover have "tx_owned (tx_tab d') (slot h k) \<longleftrightarrow> k < Suc ?n" if "k < ETH_TXBUFNB" for k
      using own [of "slot h k"] that h(1) slot_inj [of k ?n h] assms(2) i(1) by (auto simp: tx_ok_def less_Suc_eq)
    ultimately show ?thesis using lay i(4) assms(2) by (simp add: tx_ok_def)
  qed
  have fits: "tx_fits d' h (Suc ?n)"
    using h(2) same at_i(2) assms(4) i(1) by (auto simp: tx_fits_def less_Suc_eq)
  have "tx_frame d' (slot h k) = tx_frame d (slot h k)" if "k < ?n" for k
  proof (rule tx_frame_store [OF i(5,2) slot_less])
    show "?i \<noteq> slot h k" using that assms(2) slot_inj [of ?n k h] i(1) by simp
  qed (use that h(2) same t assms(4) d'(3) in \<open>auto simp: tx_fits_def\<close>)
  then have "map (\<lambda>k. tx_frame d' (slot h k)) [0..<?n] = map (\<lambda>k. tx_frame d (slot h k)) [0..<?n]" by simp
  also have "\<dots> = fs" using h(3) by (simp add: tx_frames_def)
  finally have old: "map (\<lambda>k. tx_frame d' (slot h k)) [0..<?n] = fs" .
  have "tx_frame d' (slot h ?n) = ?bs"
    using at_i bytes_store [of "d_buf1 (tx_desc d)" ?bs "tx_buff d"] t(2) i(1) by (simp add: tx_frame_def d'(3))
  with old have "tx_frames d' h (Suc ?n) = fs @ [?bs]" by (simp add: tx_frames_def)
  then have "ring_holds d' h (fs @ [?bs])" using ok fits by (simp add: ring_holds_def)
  then show ?thesis using low_level_output_run [OF assms(3), of d] d' by auto
qed

text \<open>
  The ring is full: the current descriptor is that of the frame that is sent next, and its buffer is
  overwritten with the packet, although nothing is queued and no error is returned.
\<close>

definition overwritten :: "u8_t list \<Rightarrow> u8_t list \<Rightarrow> u8_t list" where
  "overwritten bs f = take (length f) bs @ drop (length bs) f"

lemma length_tx_frame: "length (tx_frame d i) = nat (uint (d_control (tx_tab d ! i) AND ETH_DMATxDesc_TBS1))"
  by (simp add: tx_frame_def)

lemma low_level_output_overwrites:
  assumes "ring_holds d h (f # fs)" "length (f # fs) = ETH_TXBUFNB" "packet m (Some p) ps" "tot m ps \<le> ETH_MAX_PACKET_SIZE"
  shows "\<exists>d'. low_level_output p m d = Some (ERR_OK, d') \<and> ring_holds d' h (overwritten (data m ps) f # fs) \<and>
    tx_tab d' = tx_tab d \<and> tx_set d' = tx_set d"
proof -
  let ?N = "ETH_TXBUFNB" and ?bs = "data m ps"
  let ?d = "d\<lparr>tx_buff := store_bytes (d_buf1 (tx_desc d)) ?bs (tx_buff d)\<rparr>"
  have h: "tx_ok d h ?N" "tx_fits d h ?N" "tx_frames d h ?N = f # fs"
    using assms(1,2) by (auto simp: ring_holds_def)
  have hN: "h < ?N" "tx_set d = h" "tx_layout (tx_tab d)" using h(1) by (auto simp: tx_ok_def slot_full)
  have "tx_owned (tx_tab d) (tx_set d)" using h(1) hN unfolding tx_ok_def by (metis ETH_TXBUFNB_def slot_0 zero_less_numeral)
  then have run: "low_level_output p m d = Some (ERR_OK, ?d)"
    using low_level_output_run [OF assms(3), of d] ETH_TxPkt_busy [of ?d "tot m ps"] by simp
  have t: "int (length ?bs) \<le> ETH_MAX_PACKET_SIZE" using assms(4) packet_length [OF assms(3)] by simp
  have split: "[0..<?N] = 0 # [1..<?N]" by (simp add: ETH_TXBUFNB_def upt_rec)
  have fr: "tx_frame d h = f" "map (\<lambda>k. tx_frame d (slot h k)) [1..<?N] = fs"
    using h(3) hN(1) unfolding tx_frames_def split by simp_all
  have other: "tx_frame ?d (slot h k) = tx_frame d (slot h k)" if "k \<in> set [1..<?N]" for k
  proof (rule tx_frame_store [OF hN(3,1) slot_less _ t])
    show "h \<noteq> slot h k" using that slot_inj [of 0 k h] hN(1) by auto
    show "uint (d_control (tx_tab d ! slot h k) AND ETH_DMATxDesc_TBS1) \<le> ETH_MAX_PACKET_SIZE"
      using h(2) that by (simp add: tx_fits_def)
  qed (simp_all add: hN(2))
  have "tx_frame ?d h = overwritten ?bs f"
    using fr(1) hN(2) unfolding tx_frame_def overwritten_def by (auto simp: bytes_store_over)
  moreover have "map (\<lambda>k. tx_frame ?d (slot h k)) [1..<?N] = fs"
    using other fr(2) by (metis (no_types, lifting) map_cong)
  ultimately have "tx_frames ?d h ?N = overwritten ?bs f # fs" using hN(1) unfolding tx_frames_def split by simp
  moreover have "tx_ok ?d h ?N" "tx_fits ?d h ?N" using h by (simp_all add: tx_ok_def tx_fits_def)
  ultimately have "ring_holds ?d h (overwritten ?bs f # fs)" using assms(2) by (simp add: ring_holds_def)
  with run show ?thesis by (intro exI [of _ ?d]) simp
qed

text \<open>
  The transmit DMA: it sends the frame of its next descriptor, then gives the descriptor back by
  clearing \<open>OWN\<close>; it may set other bits of the status and of the status register.
\<close>

definition dma_sends :: "'a eth_dev_scheme \<Rightarrow> nat \<Rightarrow> 'a eth_dev_scheme \<Rightarrow> bool" where
  "dma_sends d h d' \<longleftrightarrow> tx_owned (tx_tab d) h \<and>
     (\<exists>st w. st AND ETH_DMATxDesc_OWN = 0 \<and> d' = (upd_tx h (\<lambda>x. x\<lparr>d_status := st\<rparr>) d)\<lparr>dma_sr := w\<rparr>)"

lemma dma_sends_pops:
  assumes "ring_holds d h fs" "dma_sends d h d'"
  shows "\<exists>gs. fs = tx_frame d h # gs \<and> ring_holds d' (slot h 1) gs"
proof -
  let ?n = "length fs"
  obtain st w where d': "d' = (upd_tx h (\<lambda>x. x\<lparr>d_status := st\<rparr>) d)\<lparr>dma_sr := w\<rparr>" "st AND ETH_DMATxDesc_OWN = 0"
    using assms(2) by (auto simp: dma_sends_def)
  have h: "h < ETH_TXBUFNB" "?n \<le> ETH_TXBUFNB" "length (tx_tab d) = ETH_TXBUFNB" "tx_set d = slot h ?n"
    "\<And>k. k < ETH_TXBUFNB \<Longrightarrow> tx_owned (tx_tab d) (slot h k) \<longleftrightarrow> k < ?n" "tx_layout (tx_tab d)"
    using assms(1) by (auto simp: ring_holds_def tx_ok_def tx_layout_def)
  have "tx_owned (tx_tab d) (slot h 0)" using assms(2) h(1) by (simp add: dma_sends_def)
  then obtain k where k: "?n = Suc k" using h(5) [of 0] by (cases ?n) (auto simp: ETH_TXBUFNB_def)
  have same: "d_control (tx_tab d' ! j) = d_control (tx_tab d ! j)" "d_buf1 (tx_tab d' ! j) = d_buf1 (tx_tab d ! j)"
    "d_next (tx_tab d' ! j) = d_next (tx_tab d ! j)" "tx_buff d' = tx_buff d" "tx_set d' = tx_set d" "length (tx_tab d') = length (tx_tab d)" for j
    using h(1,3) by (auto simp: d'(1) upd_tx_def nth_list_update)
  have fr: "tx_frame d' j = tx_frame d j" for j by (simp add: tx_frame_def same)
  have own: "tx_owned (tx_tab d') j \<longleftrightarrow> j \<noteq> h \<and> tx_owned (tx_tab d) j" if "j < ETH_TXBUFNB" for j
    using that h(1,3) d'(2) by (cases "j = h") (simp_all add: d'(1) upd_tx_def tx_owned_def)
  have "tx_owned (tx_tab d') (slot (slot h 1) i) \<longleftrightarrow> i < k" if i: "i < ETH_TXBUFNB" for i
  proof (cases "Suc i = ETH_TXBUFNB")
    case True
    then have "slot (slot h 1) i = h" using h(1) by (simp add: slot_slot slot_full)
    with True own [of h] h(1,2) k show ?thesis by simp
  next
    case False
    then have si: "Suc i < ETH_TXBUFNB" using i by simp
    then have "slot h (Suc i) \<noteq> h" using slot_inj [of "Suc i" 0 h] h(1) by (simp add: ETH_TXBUFNB_def)
    with own [of "slot h (Suc i)"] h(5) [OF si] k show ?thesis by (simp add: slot_slot)
  qed
  moreover have "tx_layout (tx_tab d')" using h(6) by (simp add: tx_layout_def same)
  ultimately have ok: "tx_ok d' (slot h 1) k" using h(2,4) k by (simp add: tx_ok_def slot_slot same)
  have fits: "tx_fits d' (slot h 1) k" using assms(1) k by (simp add: ring_holds_def tx_fits_def slot_slot same)
  have "tx_frames d h ?n = tx_frame d (slot h 0) # map (\<lambda>i. tx_frame d (slot h (Suc i))) [0..<k]"
    unfolding tx_frames_def k by (simp add: upt_conv_Cons map_Suc_upt [symmetric] del: upt_Suc)
  then have "tx_frames d h ?n = tx_frame d h # tx_frames d' (slot h 1) k"
    using h(1) by (simp add: tx_frames_def fr slot_slot)
  then have "fs = tx_frame d h # tx_frames d' (slot h 1) k" using assms(1) by (simp add: ring_holds_def)
  moreover have "ring_holds d' (slot h 1) (tx_frames d' (slot h 1) k)"
    using ok fits by (simp add: ring_holds_def tx_frames_def)
  ultimately show ?thesis by blast
qed

section \<open>Runs of the transmitter\<close>

text \<open>
  The driver and the DMA taking turns, from \<open>low_level_init\<close> on: \<open>outs\<close> are the packets handed to
  \<open>low_level_output\<close> while the current descriptor was free, \<open>sent\<close> the frames sent.
\<close>

inductive tx_run :: "'a eth_dev_scheme \<Rightarrow> nat \<Rightarrow> u8_t list list \<Rightarrow> u8_t list list \<Rightarrow> bool" where
  init: "length (tx_tab d) = ETH_TXBUFNB \<Longrightarrow> length (rx_tab d) = ETH_RXBUFNB \<Longrightarrow>
    tx_run (snd (low_level_init mac nif d)) 0 [] []"
| send: "tx_run d h sent outs \<Longrightarrow> \<not> tx_owned (tx_tab d) (tx_set d) \<Longrightarrow> packet m (Some p) ps \<Longrightarrow>
    tot m ps \<le> ETH_MAX_PACKET_SIZE \<Longrightarrow> low_level_output p m d = Some (e, d') \<Longrightarrow> tx_run d' h sent (outs @ [data m ps])"
| dma: "tx_run d h sent outs \<Longrightarrow> dma_sends d h d' \<Longrightarrow> tx_run d' (slot h 1) (sent @ [tx_frame d h]) outs"

lemma fold_upd_tx:
  "n \<le> length (tx_tab d) \<Longrightarrow> tx_tab (fold (\<lambda>i. upd_tx i (f i)) [0..<n] d) =
     map (\<lambda>i. f i (tx_tab d ! i)) [0..<n] @ drop n (tx_tab d) \<and>
   tx_set (fold (\<lambda>i. upd_tx i (f i)) [0..<n] d) = tx_set d \<and> tx_buff (fold (\<lambda>i. upd_tx i (f i)) [0..<n] d) = tx_buff d"
proof (induction n)
  case (Suc n)
  then show ?case
    by (simp add: upd_tx_def list_update_append nth_append Cons_nth_drop_Suc [symmetric] list_update_append1)
qed simp

lemma fold_upd_rx_tx:
  "tx_tab (fold (\<lambda>i. upd_rx i (f i)) is d) = tx_tab d \<and> tx_set (fold (\<lambda>i. upd_rx i (f i)) is d) = tx_set d"
  by (induction "is" arbitrary: d) (simp_all add: upd_rx_def)

lemma init_tx:
  assumes "length (tx_tab d) = ETH_TXBUFNB"
  shows "tx_set (snd (low_level_init mac nif d)) = 0"
    "tx_tab (snd (low_level_init mac nif d)) = map (\<lambda>i. (tx_tab d ! i)\<lparr>
        d_status := ETH_DMATxDesc_TCH OR ETH_DMATxDesc_ChecksumTCPUDPICMPFull,
        d_buf1 := int i * ETH_MAX_PACKET_SIZE, d_next := slot i 1\<rparr>) [0..<ETH_TXBUFNB]"
proof -
  let ?d1 = "ETH_DMATxDescChainInit ETH_TXBUFNB d"
  let ?d3 = "fold (\<lambda>i. ETH_DMARxDescReceiveITConfig i True) [0..<ETH_RXBUFNB] (ETH_DMARxDescChainInit ETH_RXBUFNB ?d1)"
  have a: "tx_tab ?d1 = map (\<lambda>i. (tx_tab d ! i)\<lparr>d_status := ETH_DMATxDesc_TCH, d_buf1 := int i * ETH_MAX_PACKET_SIZE,
      d_next := (if i < ETH_TXBUFNB - 1 then i + 1 else 0)\<rparr>) [0..<ETH_TXBUFNB]" "tx_set ?d1 = 0"
    unfolding ETH_DMATxDescChainInit_def using fold_upd_tx [of ETH_TXBUFNB "d\<lparr>tx_set := 0\<rparr>"] assms by simp_all
  have r: "ETH_DMARxDescReceiveITConfig i True = upd_rx i (\<lambda>x. x\<lparr>d_control := d_control x AND NOT ETH_DMARxDesc_DIC\<rparr>)"
    for i :: nat by (simp add: ETH_DMARxDescReceiveITConfig_def fun_eq_iff)
  have b: "tx_tab ?d3 = tx_tab ?d1" "tx_set ?d3 = tx_set ?d1"
    unfolding r ETH_DMARxDescChainInit_def by (simp_all add: fold_upd_rx_tx)
  have c: "ETH_DMATxDescChecksumInsertionConfig i ETH_DMATxDesc_ChecksumTCPUDPICMPFull =
      upd_tx i (\<lambda>x. x\<lparr>d_status := d_status x OR ETH_DMATxDesc_ChecksumTCPUDPICMPFull\<rparr>)" for i :: nat
    by (simp add: ETH_DMATxDescChecksumInsertionConfig_def fun_eq_iff)
  have d: "snd (low_level_init mac nif d) = (fold (\<lambda>i. upd_tx i (\<lambda>x. x\<lparr>d_status := d_status x OR ETH_DMATxDesc_ChecksumTCPUDPICMPFull\<rparr>))
      [0..<ETH_TXBUFNB] ?d3)\<lparr>eth_started := True\<rparr>"
    by (simp add: low_level_init_def Let_def c)
  have l: "ETH_TXBUFNB \<le> length (tx_tab ?d3)" by (simp add: a b)
  show "tx_set (snd (low_level_init mac nif d)) = 0"
    unfolding d using fold_upd_tx [OF l] a(2) b(2) by simp
  have "tx_tab (snd (low_level_init mac nif d)) = map (\<lambda>i. (tx_tab ?d1 ! i)\<lparr>
      d_status := d_status (tx_tab ?d1 ! i) OR ETH_DMATxDesc_ChecksumTCPUDPICMPFull\<rparr>) [0..<ETH_TXBUFNB]"
    unfolding d using fold_upd_tx [OF l] by (simp add: a b)
  also have "\<dots> = map (\<lambda>i. (tx_tab d ! i)\<lparr>
        d_status := ETH_DMATxDesc_TCH OR ETH_DMATxDesc_ChecksumTCPUDPICMPFull,
        d_buf1 := int i * ETH_MAX_PACKET_SIZE, d_next := slot i 1\<rparr>) [0..<ETH_TXBUFNB]"
  proof (intro map_cong refl)
    fix i assume "i \<in> set [0..<ETH_TXBUFNB]"
    then show "(tx_tab ?d1 ! i)\<lparr>d_status := d_status (tx_tab ?d1 ! i) OR ETH_DMATxDesc_ChecksumTCPUDPICMPFull\<rparr> = (tx_tab d ! i)\<lparr>
        d_status := ETH_DMATxDesc_TCH OR ETH_DMATxDesc_ChecksumTCPUDPICMPFull,
        d_buf1 := int i * ETH_MAX_PACKET_SIZE, d_next := slot i 1\<rparr>"
      unfolding a(1) by (cases "i = 4") (simp_all add: slot_def ETH_TXBUFNB_def)
  qed
  finally show "tx_tab (snd (low_level_init mac nif d)) = map (\<lambda>i. (tx_tab d ! i)\<lparr>
        d_status := ETH_DMATxDesc_TCH OR ETH_DMATxDesc_ChecksumTCPUDPICMPFull,
        d_buf1 := int i * ETH_MAX_PACKET_SIZE, d_next := slot i 1\<rparr>) [0..<ETH_TXBUFNB]" .
qed

lemma init_queue:
  assumes "length (tx_tab d) = ETH_TXBUFNB"
  shows "ring_holds (snd (low_level_init mac nif d)) 0 []"
  using init_tx [OF assms, of mac nif]
  by (simp add: ring_holds_def tx_ok_def tx_layout_def tx_owned_bit bit_or_iff tx_fits_def tx_frames_def ETH_TXBUFNB_def slot_def)

lemma room_iff: "ring_holds d h fs \<Longrightarrow> tx_owned (tx_tab d) (tx_set d) \<longleftrightarrow> length fs = ETH_TXBUFNB"
  by (cases "length fs = ETH_TXBUFNB") (auto simp: ring_holds_def tx_ok_def slot_full dest: spec [where x = 0])

lemma tx_run_fifo:
  "tx_run d h sent outs \<Longrightarrow> \<exists>fs. ring_holds d h fs \<and> sent @ fs = outs"
proof (induction rule: tx_run.induct)
  case (init d mac nif)
  then show ?case using init_queue by auto
next
  case (send d h sent outs m p ps e d')
  then obtain fs where fs: "ring_holds d h fs" "sent @ fs = outs" by blast
  have "length fs < ETH_TXBUFNB"
    using send.hyps(2) room_iff [OF fs(1)] fs(1) by (auto simp: ring_holds_def tx_ok_def)
  from low_level_output_appends [OF fs(1) this send.hyps(3,4)] send.hyps(5) fs(2) show ?case by auto
next
  case (dma d h sent outs d')
  then obtain fs where "ring_holds d h fs" "sent @ fs = outs" by blast
  with dma_sends_pops [OF _ dma.hyps(2)] show ?case by fastforce
qed

section \<open>A driver as the stack sees it\<close>

text \<open>
  A device that queues up to \<open>cap\<close> frames of up to \<open>mtu\<close> bytes: what is handed to it while there is
  room is accepted and goes behind the frames queued before.
\<close>

locale link_driver =
  fixes out :: "ptr \<Rightarrow> pstate \<Rightarrow> 'd \<Rightarrow> (err_t \<times> 'd) option"
    and queued :: "'d \<Rightarrow> u8_t list list \<Rightarrow> bool"
    and cap :: nat
    and mtu :: int
  assumes accepts: "queued d fs \<Longrightarrow> length fs < cap \<Longrightarrow> packet m (Some p) ps \<Longrightarrow> tot m ps \<le> mtu \<Longrightarrow>
    \<exists>d'. out p m d = Some (ERR_OK, d') \<and> queued d' (fs @ [data m ps])"
begin

lemma etharp_output_queues:
  assumes l: "linkoutput l = out" "queued (n_dev s) fs" "length fs < cap" "tot (n_mem s) (q # xs) + 14 \<le> mtu" "mtu \<le> 65535"
    and s: "arp_ok (n_arp s)" "n_cached s < ARP_TABLE_SIZE" "link_dest netif (n_arp s) a dst"
      "length dst = 6" "length (nif_hwaddr netif) = 6" "packet (n_mem s) (Some q) (q # xs)"
      "pb_type (p_pbufs (n_mem s) q) = PBUF_RAM \<or> pb_type (p_pbufs (n_mem s) q) = PBUF_POOL"
      "snd q + SIZEOF_STRUCT_PBUF + 14 \<le> snd (pb_payload (p_pbufs (n_mem s) q))"
      "set (span (ptr_add (pb_payload (p_pbufs (n_mem s) q)) (- 14)) 14) \<inter> set (addrs (n_mem s) (q # xs)) = {}"
  shows "\<exists>s'. etharp_output l netif q a s = Some (ERR_OK, s') \<and> n_arp s' = n_arp s \<and>
    queued (n_dev s') (fs @ [dst @ nif_hwaddr netif @ [0x08, 0x00] @ data (n_mem s) (q # xs)])"
proof -
  have t: "tot (n_mem s) (q # xs) + 14 \<le> 65535" using l(4,5) by simp
  obtain m c where m: "packet m (Some q) (q # xs)"
    "data m (q # xs) = dst @ nif_hwaddr netif @ [0x08, 0x00] @ data (n_mem s) (q # xs)"
    "etharp_output l netif q a s = (case linkoutput l q m (n_dev s) of None \<Rightarrow> None
       | Some (e, d) \<Rightarrow> Some (e, s\<lparr>n_mem := m, n_cached := c, n_dev := d\<rparr>))"
    using etharp_output_sends [OF s(1-6) t s(7-9)] by blast
  have "int (length (data m (q # xs))) = tot m (q # xs)" "int (length (data (n_mem s) (q # xs))) = tot (n_mem s) (q # xs)"
    using m(1) s(6) length_data by (simp_all only: packet_def)
  moreover have "length (data m (q # xs)) = 14 + length (data (n_mem s) (q # xs))"
    using arg_cong [OF m(2), of length] s(4,5) by (simp only: length_append list.size)
  ultimately have "tot m (q # xs) \<le> mtu" using l(4) by linarith
  with accepts [OF l(2,3) m(1)] obtain d' where
    "out q m (n_dev s) = Some (ERR_OK, d')" "queued d' (fs @ [data m (q # xs)])" by blast
  then show ?thesis using m(2,3) l(1) by (intro exI [of _ "s\<lparr>n_mem := m, n_cached := c, n_dev := d'\<rparr>"]) simp
qed

end

interpretation eth: link_driver low_level_output eth_queue ETH_TXBUFNB ETH_MAX_PACKET_SIZE
proof unfold_locales
  fix d :: "'a eth_dev_scheme" and fs m p ps
  assume "eth_queue d fs" and r: "length fs < ETH_TXBUFNB" "packet m (Some p) ps" "tot m ps \<le> ETH_MAX_PACKET_SIZE"
  then obtain h where "ring_holds d h fs" by (auto simp: eth_queue_def)
  from low_level_output_appends [OF this r]
  show "\<exists>d'. low_level_output p m d = Some (ERR_OK, d') \<and> eth_queue d' (fs @ [data m ps])"
    by (auto simp: eth_queue_def)
qed

section \<open>Receiving\<close>

lemma rx_copy_loop_spec:
  "chain m q xs \<Longrightarrow> lens_ok m xs \<Longrightarrow> distinct (addrs m xs) \<Longrightarrow>
     \<exists>m'. rx_copy_loop b a q l m = Some m' \<and> writes (addrs m xs) (bytes b (a + l) (tot m xs)) m m'"
proof (induction xs arbitrary: q l m)
  case Nil
  then show ?case by (simp add: rx_copy_loop.simps [of b a None] writes_Nil bytes_def)
next
  case (Cons x xs)
  let ?n = "pb_len (p_pbufs m x)" and ?y = "pb_payload (p_pbufs m x)"
  let ?m = "mem_write ?y (bytes b (a + l) ?n) m"
  have x: "q = Some x" "chain m (pb_next (p_pbufs m x)) xs" "lens_ok m xs" "0 \<le> ?n" "distinct (addrs m xs)"
    "set (pb_addrs m x) \<inter> set (addrs m xs) = {}"
    using Cons.prems by auto
  have w: "writes (pb_addrs m x) (bytes b (a + l) ?n) m ?m"
    using mem_write_writes [of ?y "bytes b (a + l) ?n" m] x(4) by (simp add: pb_addrs_def)
  have pb: "\<forall>x\<in>set xs. p_pbufs ?m x = p_pbufs m x" by simp
  obtain m' where m': "rx_copy_loop b a (pb_next (p_pbufs m x)) (l + ?n) ?m = Some m'"
    "writes (addrs m xs) (bytes b (a + (l + ?n)) (tot m xs)) ?m m'"
    using Cons.IH [of ?m "pb_next (p_pbufs m x)" "l + ?n"] x(2,3,5) same_pbufs [OF pb] writes_addrs [OF w] by auto
  have "rx_copy_loop b a q l m = Some m'"
    using x(1) m'(1) by (subst rx_copy_loop.simps) (simp add: Let_def)
  moreover have "writes (pb_addrs m x @ addrs m xs) (bytes b (a + l) ?n @ bytes b (a + (l + ?n)) (tot m xs)) m m'"
    by (rule writes_append [OF w m'(2) x(6)])
  moreover have "bytes b (a + l) ?n @ bytes b (a + (l + ?n)) (tot m xs) = bytes b (a + l) (?n + tot m xs)"
    using bytes_split [of ?n "tot m xs" b "a + l"] x(4) tot_nonneg [OF x(3)] by (simp add: add.assoc)
  ultimately show ?case by auto
qed

lemma own_payload_distinct:
  assumes "distinct is" "\<forall>i\<in>set is. own_payload m (elt i)"
  shows "distinct (addrs m (map elt is))"
  using assms
proof (induction "is")
  case (Cons i "is")
  have r: "fst k = RPool j" if "k \<in> set (pb_addrs m (elt j))" "j \<in> set (i # is)" for j k
    using that Cons.prems(2) by (auto simp: pb_addrs_def span_mem own_payload_def elt_def)
  have "set (pb_addrs m (elt i)) \<inter> set (addrs m (map elt is)) = {}"
  proof (intro equals0I)
    fix k assume k: "k \<in> set (pb_addrs m (elt i)) \<inter> set (addrs m (map elt is))"
    then obtain j where "j \<in> set is" "k \<in> set (pb_addrs m (elt j))" by (auto simp: addrs_def)
    then show False using r [of k j] r [of k i] k Cons.prems(1) by auto
  qed
  with Cons show ?case by (simp add: pb_addrs_def distinct_span)
qed simp

text \<open>The length of the frame that the status of a received frame gives, without the CRC.\<close>

definition rx_len :: "u32_t \<Rightarrow> int" where
  "rx_len st = uint (drop_bit 16 (st AND ETH_DMARxDesc_FL)) - 4"

lemma rx_len_bound: "rx_len st \<le> 16379"
proof -
  have "drop_bit 16 (st AND ETH_DMARxDesc_FL) = drop_bit 16 st AND 0x3FFF"
  proof -
    have "drop_bit 16 ETH_DMARxDesc_FL = 0x3FFF" by (simp add: ETH_DMARxDesc_FL_def drop_bit_eq_div)
    then show ?thesis by (simp only: drop_bit_and)
  qed
  also have "\<dots> = take_bit 14 (drop_bit 16 st)"
    by (simp add: take_bit_eq_mask mask_eq_exp_minus_1)
  finally have "uint (drop_bit 16 (st AND ETH_DMARxDesc_FL)) = take_bit 14 (uint (drop_bit 16 st))"
    by (simp add: unsigned_take_bit_eq)
  then have "uint (drop_bit 16 (st AND ETH_DMARxDesc_FL)) < 16384" by (simp add: take_bit_eq_mod)
  then show ?thesis by (simp add: rx_len_def)
qed

lemma rx_len_word:
  assumes "0 \<le> rx_len st"
  shows "uint (ucast (drop_bit 16 (st AND ETH_DMARxDesc_FL) - 4 :: u32_t) :: u16_t) = rx_len st"
proof -
  let ?w = "drop_bit 16 (st AND ETH_DMARxDesc_FL)"
  have "uint (?w - 4) = rx_len st"
    using assms rx_len_bound [of st] unfolding rx_len_def by (subst uint_minus_simple_alt [THEN iffD1]) (auto simp: word_le_def)
  then show ?thesis using assms rx_len_bound [of st] by (simp add: unsigned_ucast_eq take_bit_eq_mod)
qed

lemma low_level_input_frame:
  assumes st: "d_status (rx_desc (n_dev s)) AND ETH_DMARxDesc_OWN = 0" "rx_good (d_status (rx_desc (n_dev s)))"
    and n: "n = rx_len (d_status (rx_desc (n_dev s)))" "0 \<le> n"
    and pool: "free_list MEMP_PBUF_POOL (p_pools (n_mem s)) fs" "distinct fs"
      "\<forall>i\<in>set fs. pb_flags (p_pbufs (n_mem s) (elt i)) AND PBUF_FLAG_IS_CUSTOM = 0"
    and k: "k = Suc (pieces (n - min n 512))"
  shows "\<exists>s'. low_level_input cf s = Some (if k \<le> length fs then Some (elt (hd fs)) else None, s') \<and>
    rx_get (n_dev s') = d_next (rx_desc (n_dev s)) \<and>
    rx_tab (n_dev s') = (rx_tab (n_dev s))[rx_get (n_dev s) := (rx_desc (n_dev s))\<lparr>d_status := ETH_DMARxDesc_OWN\<rparr>] \<and>
    tx_tab (n_dev s') = tx_tab (n_dev s) \<and> tx_set (n_dev s') = tx_set (n_dev s) \<and> tx_buff (n_dev s') = tx_buff (n_dev s) \<and>
    n_arp s' = n_arp s \<and>
    (if k \<le> length fs
     then packet (n_mem s') (Some (elt (hd fs))) (map elt (take k fs)) \<and>
       data (n_mem s') (map elt (take k fs)) = bytes (rx_buff (n_dev s)) (d_buf1 (rx_desc (n_dev s))) n \<and>
       free_list MEMP_PBUF_POOL (p_pools (n_mem s')) (drop k fs)
     else p_bytes (n_mem s') = p_bytes (n_mem s) \<and> free_list MEMP_PBUF_POOL (p_pools (n_mem s')) (rev fs))"
proof -
  let ?x = "rx_desc (n_dev s)" and ?d = "n_dev s" and ?m = "n_mem s" and ?p = "if k \<le> length fs then Some (elt (hd fs)) else None"
  let ?d1 = "?d\<lparr>rx_get := d_next ?x\<rparr>"
  let ?d2 = "upd_rx (rx_get ?d) (\<lambda>x. x\<lparr>d_status := ETH_DMARxDesc_OWN\<rparr>) ?d1"
  let ?d3 = "if dma_sr ?d2 AND ETH_DMASR_RBUS \<noteq> 0 then (write_dma_sr ETH_DMASR_RBUS ?d2)\<lparr>rx_polls := rx_polls ?d2 + 1\<rparr> else ?d2"
  have rx: "ETH_RxPkt_ChainMode ?d = (\<lparr>fr_length = drop_bit 16 (d_status ?x AND ETH_DMARxDesc_FL) - 4,
      fr_buffer = d_buf1 ?x, fr_descriptor = Some (rx_get ?d)\<rparr>, ?d1)"
    using st by (simp add: ETH_RxPkt_ChainMode_def Let_def)
  have room: "first_room PBUF_RAW = 512" by (simp add: first_room_def LWIP_MEM_ALIGN_SIZE_eq)
  have len: "n \<le> 65535" using rx_len_bound [of "d_status ?x"] n(1) by simp
  have al: "k = Suc (pieces (n - min n (first_room PBUF_RAW)))" using k room by simp
  obtain m1 where m1: "pbuf_alloc cf PBUF_RAW n PBUF_POOL ?m = Some (?p, m1)" "same_mem MEMP_PBUF_POOL ?m m1"
    "if k \<le> length fs
     then packet m1 (Some (elt (hd fs))) (map elt (take k fs)) \<and> tot m1 (map elt (take k fs)) = n \<and>
       (\<forall>x\<in>set (map elt (take k fs)). own_payload m1 x) \<and> free_list MEMP_PBUF_POOL (p_pools m1) (drop k fs)
     else free_list MEMP_PBUF_POOL (p_pools m1) (rev fs)"
    using pbuf_alloc_pool [OF pool(1) n(2) len pool(3) al, of cf, unfolded Let_def] by (cases "k \<le> length fs") auto
  obtain m2 where m2: "(case ?p of None \<Rightarrow> Some m1 | Some p \<Rightarrow> rx_copy_loop (rx_buff ?d) (d_buf1 ?x) (Some p) 0 m1) = Some m2"
    "if k \<le> length fs then writes (addrs m1 (map elt (take k fs))) (bytes (rx_buff ?d) (d_buf1 ?x) n) m1 m2 else m2 = m1"
  proof (cases "k \<le> length fs")
    case True
    have "distinct (addrs m1 (map elt (take k fs)))"
      using True m1(3) pool(2) by (intro own_payload_distinct) auto
    with True m1(3) rx_copy_loop_spec [of m1 "Some (elt (hd fs))" "map elt (take k fs)" "rx_buff ?d" "d_buf1 ?x" 0] that
    show ?thesis by (auto simp: packet_def)
  qed (use that in auto)
  have wl: "uint (ucast (drop_bit 16 (d_status ?x AND ETH_DMARxDesc_FL) - 4 :: u32_t) :: u16_t) = n"
    using rx_len_word [of "d_status ?x"] n by simp
  have cp: "k \<le> length fs \<Longrightarrow> rx_copy_loop (rx_buff ?d) (d_buf1 ?x) (Some (elt (hd fs))) 0 m1 = Some m2"
    "\<not> k \<le> length fs \<Longrightarrow> m2 = m1"
    using m2(1) by simp_all
  have "low_level_input cf s = Some (?p, s\<lparr>n_mem := m2, n_dev := ?d3\<rparr>)"
    unfolding low_level_input_def rx Let_def prod.case FrameTypeDef.select_convs wl
    using m1(1) cp by (cases "k \<le> length fs") simp_all
  moreover have "data m2 (map elt (take k fs)) = bytes (rx_buff ?d) (d_buf1 ?x) n \<and> packet m2 (Some (elt (hd fs))) (map elt (take k fs)) \<and>
      p_pools m2 = p_pools m1" if "k \<le> length fs"
  proof -
    have w: "writes (addrs m1 (map elt (take k fs))) (bytes (rx_buff ?d) (d_buf1 ?x) n) m1 m2" using m2(2) that by simp
    then show ?thesis using that m1(3) writes_packet [OF w] by (simp add: data_addrs writes_addrs [OF w]) (simp add: writes_def)
  qed
  ultimately show ?thesis using m1 m2(2)
    by (intro exI [of _ "s\<lparr>n_mem := m2, n_dev := ?d3\<rparr>"]) (auto simp: upd_rx_def write_dma_sr_def same_mem_def)
qed

section \<open>The interrupt handler\<close>

text \<open>
  The receive DMA writes only into descriptors it owns, and their buffers; the rest of the system,
  between two interrupts, leaves the receive ring alone.
\<close>

definition same_rx :: "'a eth_dev_scheme \<Rightarrow> 'a eth_dev_scheme \<Rightarrow> bool" where
  "same_rx d d' \<longleftrightarrow> rx_get d' = rx_get d \<and> rx_tab d' = rx_tab d"

definition dma_writes :: "'a eth_dev_scheme \<Rightarrow> 'a eth_dev_scheme \<Rightarrow> bool" where
  "dma_writes d d' \<longleftrightarrow> rx_get d' = rx_get d \<and> length (rx_tab d') = length (rx_tab d) \<and>
     (\<forall>i. d_status (rx_tab d ! i) AND ETH_DMARxDesc_OWN = 0 \<longrightarrow> rx_tab d' ! i = rx_tab d ! i)"

inductive rx_event :: "'a eth_dev_scheme link_if \<Rightarrow> netif \<Rightarrow> 'a eth_dev_scheme net \<Rightarrow> 'a eth_dev_scheme net \<Rightarrow> bool"
  for l netif where
  dma: "dma_writes (n_dev s) d \<Longrightarrow> rx_event l netif s (s\<lparr>n_dev := d\<rparr>)"
| irq: "ETH_IRQHandler l netif s = Some s' \<Longrightarrow> rx_event l netif s s'"
| cpu: "same_rx (n_dev s) (n_dev s') \<Longrightarrow> rx_event l netif s s'"

text \<open>The current descriptor belongs to the driver but does not hold one whole good frame.\<close>

definition rx_stuck :: "'a eth_dev_scheme \<Rightarrow> bool" where
  "rx_stuck d \<longleftrightarrow> d_status (rx_desc d) AND ETH_DMARxDesc_OWN = 0 \<and> \<not> rx_good (d_status (rx_desc d))"

lemma irq_stuck:
  assumes "rx_stuck (n_dev s)"
  shows "ETH_IRQHandler l netif s =
    Some (s\<lparr>n_dev := write_dma_sr ETH_DMA_IT_NIS (write_dma_sr ETH_DMA_IT_R (n_dev s))\<rparr>)"
proof -
  have "irq_loop l netif s = Some s"
    using assms by (subst irq_loop.simps) (simp add: ETH_GetRxPktSize_def rx_stuck_def)
  then show ?thesis by (simp add: ETH_IRQHandler_def ETH_DMAClearITPendingBit_def)
qed

lemma rx_event_stuck:
  assumes "rx_event l netif s s'" "rx_stuck (n_dev s)"
  shows "rx_stuck (n_dev s') \<and> rx_get (n_dev s') = rx_get (n_dev s)"
  using assms
proof cases
  case (dma d)
  then show ?thesis using assms(2) by (simp add: rx_stuck_def dma_writes_def)
next
  case irq
  then show ?thesis using assms(2) irq_stuck [OF assms(2), of l netif] by (auto simp: rx_stuck_def write_dma_sr_def)
next
  case cpu
  then show ?thesis using assms(2) by (simp add: rx_stuck_def same_rx_def)
qed

lemma rx_events_stuck:
  assumes "(rx_event l netif)\<^sup>*\<^sup>* s s'" "rx_stuck (n_dev s)"
  shows "rx_stuck (n_dev s') \<and> rx_get (n_dev s') = rx_get (n_dev s)"
  using assms by (induction rule: rtranclp_induct) (auto dest: rx_event_stuck)

section \<open>Properties\<close>

text \<open>C2: the transmit ring is a FIFO.  In every run of the driver and the DMA from \<open>low_level_init\<close> in which
  \<open>low_level_output\<close> is called only while the current descriptor is free, the frames sent, followed by
  the frames in the ring, are exactly the packets handed over, in order, and the ring is well formed.\<close>
theorem tx_ring_fifo:
  assumes "tx_run d h sent outs"
  shows "\<exists>n. tx_ok d h n \<and> sent @ tx_frames d h n = outs"
  using tx_run_fifo [OF assms] by (auto simp: ring_holds_def)

text \<open>With the ring full, \<open>low_level_output\<close> reports success but queues nothing: it overwrites the frame
  that is sent next, which the DMA owns, with the packet.\<close>
theorem low_level_output_full:
  assumes "ring_holds d h (f # fs)" and "length fs + 1 = ETH_TXBUFNB"
    and "packet m (Some p) ps" and "tot m ps \<le> ETH_MAX_PACKET_SIZE"
  shows "\<exists>d'. low_level_output p m d = Some (ERR_OK, d') \<and>
    ring_holds d' h ((take (length f) (data m ps) @ drop (length (data m ps)) f) # fs)"
  using low_level_output_overwrites [OF assms(1) _ assms(3,4)] assms(2) by (auto simp: overwritten_def)

text \<open>\<open>etharp_output\<close> on the driver of this port: with room in the ring, a packet for a destination that
  is resolved goes out as the last frame of the ring, with the Ethernet header for that destination, and
  the call succeeds.\<close>
theorem etharp_output_to_ring:
  fixes s :: "'a eth_dev_scheme net"
  assumes "linkoutput l = low_level_output" and "eth_queue (n_dev s) fs" and "length fs < ETH_TXBUFNB"
    and "arp_ok (n_arp s)" and "n_cached s < ARP_TABLE_SIZE" and "link_dest netif (n_arp s) a dst"
    and "length dst = 6" and "length (nif_hwaddr netif) = 6"
    and "packet (n_mem s) (Some q) (q # xs)" and "tot (n_mem s) (q # xs) + 14 \<le> ETH_MAX_PACKET_SIZE"
    and "pb_type (p_pbufs (n_mem s) q) = PBUF_RAM \<or> pb_type (p_pbufs (n_mem s) q) = PBUF_POOL"
    and "snd q + SIZEOF_STRUCT_PBUF + 14 \<le> snd (pb_payload (p_pbufs (n_mem s) q))"
    and "set (span (ptr_add (pb_payload (p_pbufs (n_mem s) q)) (- 14)) 14) \<inter> set (addrs (n_mem s) (q # xs)) = {}"
  shows "\<exists>s'. etharp_output l netif q a s = Some (ERR_OK, s') \<and> n_arp s' = n_arp s \<and>
    eth_queue (n_dev s') (fs @ [dst @ nif_hwaddr netif @ [0x08, 0x00] @ data (n_mem s) (q # xs)])"
  using eth.etharp_output_queues [OF assms(1-3,10) _ assms(4-9,11-13)] by (simp add: ETH_MAX_PACKET_SIZE_def)

text \<open>C17: \<open>low_level_input\<close> on a received frame: with enough pool pbufs the packet returned holds exactly the
  bytes of the frame without its CRC, otherwise nothing is returned and all pool pbufs are free again; in
  both cases the descriptor goes back to the DMA and the next one is current.\<close>
theorem low_level_input_delivers:
  assumes "d_status (rx_desc (n_dev s)) AND ETH_DMARxDesc_OWN = 0" and "rx_good (d_status (rx_desc (n_dev s)))"
    and "n = rx_len (d_status (rx_desc (n_dev s)))" and "0 \<le> n"
    and "free_list MEMP_PBUF_POOL (p_pools (n_mem s)) fs" and "distinct fs"
    and "\<forall>i\<in>set fs. pb_flags (p_pbufs (n_mem s) (elt i)) AND PBUF_FLAG_IS_CUSTOM = 0"
    and "k = Suc (pieces (n - min n 512))"
  shows "\<exists>s'. low_level_input cf s = Some (if k \<le> length fs then Some (elt (hd fs)) else None, s') \<and>
    rx_get (n_dev s') = d_next (rx_desc (n_dev s)) \<and>
    rx_tab (n_dev s') = (rx_tab (n_dev s))[rx_get (n_dev s) := (rx_desc (n_dev s))\<lparr>d_status := ETH_DMARxDesc_OWN\<rparr>] \<and>
    (if k \<le> length fs
     then packet (n_mem s') (Some (elt (hd fs))) (map elt (take k fs)) \<and>
       data (n_mem s') (map elt (take k fs)) = bytes (rx_buff (n_dev s)) (d_buf1 (rx_desc (n_dev s))) n \<and>
       free_list MEMP_PBUF_POOL (p_pools (n_mem s')) (drop k fs)
     else free_list MEMP_PBUF_POOL (p_pools (n_mem s')) (rev fs))"
  using low_level_input_frame [OF assms, of cf] by (auto split: if_splits)

text \<open>Reception stops for good when a descriptor comes back to the driver with an error or with a part of
  a frame: whatever the DMA and the rest of the system do from then on, every receive interrupt returns
  without reading anything and the descriptor stays the current one.\<close>
theorem eth_irq_stops:
  assumes "rx_stuck (n_dev s)" and "(rx_event l netif)\<^sup>*\<^sup>* s s'"
  shows "ETH_IRQHandler l netif s' =
      Some (s'\<lparr>n_dev := write_dma_sr ETH_DMA_IT_NIS (write_dma_sr ETH_DMA_IT_R (n_dev s'))\<rparr>) \<and>
    rx_get (n_dev s') = rx_get (n_dev s) \<and> ETH_GetRxPktSize (n_dev s') = 0"
  using rx_events_stuck [OF assms(2,1)] irq_stuck [of s' l netif]
  by (auto simp: ETH_GetRxPktSize_def rx_stuck_def)

section \<open>Witnesses\<close>

definition demo_dev :: eth_dev where
  "demo_dev = \<lparr>rx_tab = replicate 5 \<lparr>d_status = 0, d_control = 0, d_buf1 = 0, d_next = 0\<rparr>,
     tx_tab = replicate 5 \<lparr>d_status = 0, d_control = 0, d_buf1 = 0, d_next = 0\<rparr>, rx_get = 0, tx_set = 0,
     rx_buff = (\<lambda>i. word_of_int i), tx_buff = (\<lambda>i. 0), dma_sr = 0, rx_polls = 0, tx_polls = 0, eth_started = False\<rparr>"

abbreviation "demo_up \<equiv> snd (low_level_init [0, 0, 0, 0, 0, 1] demo_netif demo_dev)"

lemma demo_up_holds: "ring_holds demo_up 0 []"
  by (rule init_queue) (simp add: demo_dev_def ETH_TXBUFNB_def)

abbreviation "demo_five \<equiv> [98, 98, 98, 98, 98] :: u8_t list"

lemma demo_filled: "n \<le> ETH_TXBUFNB \<Longrightarrow> \<exists>d :: eth_dev. ring_holds d 0 (replicate n demo_five)"
proof (induction n)
  case 0
  then show ?case using demo_up_holds by auto
next
  case (Suc n)
  then obtain d :: eth_dev where "ring_holds d 0 (replicate n demo_five)" by auto
  from low_level_output_appends [OF this _ demo_packets(2)] Suc.prems show ?case
    unfolding demo_packets demo_data by (auto simp: ETH_MAX_PACKET_SIZE_def replicate_append_same)
qed

theorem tx_ring_fifo_witness:
  "\<exists>(d :: eth_dev) n. tx_run d 0 [] [demo_five] \<and> tx_ok d 0 n \<and> tx_frames d 0 n = [demo_five]"
proof -
  have i: "tx_run demo_up 0 [] []"
    by (rule tx_run.init) (simp_all add: demo_dev_def ETH_TXBUFNB_def ETH_RXBUFNB_def)
  have free: "\<not> tx_owned (tx_tab demo_up) (tx_set demo_up)"
    using room_iff [OF demo_up_holds] by (simp add: ETH_TXBUFNB_def)
  obtain d where d: "low_level_output (RPool 2, 0) demo_state demo_up = Some (ERR_OK, d)"
    using low_level_output_run [OF demo_packets(2)] by blast
  have "tx_run d 0 [] ([] @ [data demo_state demo_b])"
    by (rule tx_run.send [OF i free demo_packets(2) _ d]) (simp only: demo_packets ETH_MAX_PACKET_SIZE_def)
  then have r: "tx_run d 0 [] [demo_five]" using demo_data(2) by (simp only: append_Nil)
  from tx_ring_fifo [OF r] r show ?thesis by auto
qed

theorem low_level_output_full_witness:
  "\<exists>d d' :: eth_dev. ring_holds d 0 (replicate 5 demo_five) \<and>
     low_level_output (RPool 0, 0) demo_state d = Some (ERR_OK, d') \<and>
     ring_holds d' 0 ([97, 97, 97, 98, 98] # replicate 4 demo_five)"
proof -
  obtain d :: eth_dev where d: "ring_holds d 0 (replicate 5 demo_five)" using demo_filled [of 5] by (auto simp: ETH_TXBUFNB_def)
  have e: "replicate 5 demo_five = demo_five # replicate 4 demo_five" by (simp add: numeral_eq_Suc)
  have "\<exists>d'. low_level_output (RPool 0, 0) demo_state d = Some (ERR_OK, d') \<and>
      ring_holds d' 0 ((take (length demo_five) (data demo_state demo_a) @ drop (length (data demo_state demo_a)) demo_five) # replicate 4 demo_five)"
    by (rule low_level_output_full [OF d [unfolded e] _ demo_packets(1)])
      (simp_all only: demo_packets ETH_TXBUFNB_def ETH_MAX_PACKET_SIZE_def, simp_all)
  then show ?thesis using d unfolding demo_data(1) by auto
qed

definition demo_eth_link :: "eth_dev link_if" where
  "demo_eth_link = \<lparr>linkoutput = low_level_output, ip_input = (\<lambda>p netif s. Some s), dhcp_arp_reply = (\<lambda>netif a s. Some s),
     custom_free = (\<lambda>p m. None)\<rparr>"

theorem etharp_output_to_ring_witness:
  "\<exists>l (s :: eth_dev net) s'. linkoutput l = low_level_output \<and>
     etharp_output l demo_netif (RPool 0, 0) (u32_le 10 0 0 1) s = Some (ERR_OK, s') \<and>
     eth_queue (n_dev s') [[2, 0, 0, 0, 0, 7] @ [0, 0, 0, 0, 0, 1] @ [0x08, 0x00] @ [97, 97, 97, 98]]"
proof -
  let ?l = demo_eth_link
  let ?s = "\<lparr>n_mem = demo_state, n_arp = demo_table, n_cached = 0, n_dev = demo_up\<rparr>"
  have q: "eth_queue (n_dev ?s) []" using demo_up_holds by (auto simp: eth_queue_def)
  have ok: "arp_ok demo_table" using demo_table_ok by (simp add: demo_net_def)
  have "\<exists>s'. etharp_output ?l demo_netif (RPool 0, 0) (u32_le 10 0 0 1) ?s = Some (ERR_OK, s') \<and> n_arp s' = n_arp ?s \<and>
    eth_queue (n_dev s') ([] @ [[2, 0, 0, 0, 0, 7] @ nif_hwaddr demo_netif @ [0x08, 0x00] @ data (n_mem ?s) demo_a])"
    by (rule etharp_output_to_ring [OF _ q])
      (simp_all only: net.select_convs demo_dest demo_apart demo_packets ok demo_eth_link_def link_if.select_convs,
       simp_all add: demo_netif_def demo_simps pbuf_consts ARP_TABLE_SIZE_def ETH_TXBUFNB_def ETH_MAX_PACKET_SIZE_def)
  then obtain s' where s': "etharp_output ?l demo_netif (RPool 0, 0) (u32_le 10 0 0 1) ?s = Some (ERR_OK, s')"
    "eth_queue (n_dev s') [[2, 0, 0, 0, 0, 7] @ nif_hwaddr demo_netif @ [0x08, 0x00] @ data demo_state demo_a]" by auto
  have "nif_hwaddr demo_netif = [0, 0, 0, 0, 0, 1]" by (simp add: demo_netif_def)
  moreover have "linkoutput ?l = low_level_output" by (simp add: demo_eth_link_def)
  ultimately show ?thesis using s' demo_data(1) by metis
qed

text \<open>Pool elements 17 to 19 are free; the current descriptor holds a frame of five bytes and the CRC.\<close>

definition demo_rx :: "eth_dev net" where
  "demo_rx = \<lparr>n_mem = demo_state, n_arp = [], n_cached = 0,
     n_dev = demo_dev\<lparr>rx_tab := (rx_tab demo_dev)[0 := \<lparr>d_status = 0x00090300, d_control = 0, d_buf1 = 0, d_next = 1\<rparr>]\<rparr>\<rparr>"

theorem low_level_input_delivers_witness:
  "\<exists>s'. low_level_input (\<lambda>p m. None) demo_rx = Some (Some (RPool 17, 0), s') \<and> rx_get (n_dev s') = 1 \<and>
     data (n_mem s') [(RPool 17, 0)] = [0, 1, 2, 3, 4]"
proof -
  have x: "rx_desc (n_dev demo_rx) = \<lparr>d_status = 0x00090300, d_control = 0, d_buf1 = 0, d_next = 1\<rparr>"
    by (simp add: demo_rx_def demo_dev_def)
  have fl: "rx_len 0x00090300 = 5" by (simp add: rx_len_def ETH_DMARxDesc_FL_def drop_bit_eq_div)
  have k: "(1 :: nat) = Suc (pieces (5 - min 5 512))" by simp
  have p: "free_list MEMP_PBUF_POOL (p_pools (n_mem demo_rx)) [17, 18, 19]" using demo_pool(1) by (simp add: demo_rx_def)
  have b: "bytes (rx_buff (n_dev demo_rx)) 0 5 = [0, 1, 2, 3, 4]"
    by (simp add: demo_rx_def demo_dev_def bytes_def upt_rec)
  have "\<exists>s'. low_level_input (\<lambda>p m. None) demo_rx = Some (if 1 \<le> length [17, 18, 19 :: nat] then Some (elt (hd [17, 18, 19])) else None, s') \<and>
    rx_get (n_dev s') = d_next (rx_desc (n_dev demo_rx)) \<and>
    rx_tab (n_dev s') = (rx_tab (n_dev demo_rx))[rx_get (n_dev demo_rx) := (rx_desc (n_dev demo_rx))\<lparr>d_status := ETH_DMARxDesc_OWN\<rparr>] \<and>
    (if 1 \<le> length [17, 18, 19 :: nat]
     then packet (n_mem s') (Some (elt (hd [17, 18, 19]))) (map elt (take 1 [17, 18, 19])) \<and>
       data (n_mem s') (map elt (take 1 [17, 18, 19])) = bytes (rx_buff (n_dev demo_rx)) (d_buf1 (rx_desc (n_dev demo_rx))) 5 \<and>
       free_list MEMP_PBUF_POOL (p_pools (n_mem s')) (drop 1 [17, 18, 19])
     else free_list MEMP_PBUF_POOL (p_pools (n_mem s')) (rev [17, 18, 19]))"
    by (rule low_level_input_delivers [OF _ _ _ _ p _ _ k])
      (simp_all add: x fl rx_good_def ETH_DMARxDesc_OWN_def ETH_DMARxDesc_ES_def ETH_DMARxDesc_LS_def ETH_DMARxDesc_FS_def,
       simp add: demo_rx_def demo_simps elt_def)
  then show ?thesis using b by (auto simp: x elt_def)
qed

text \<open>A frame that is too long for one buffer: descriptor 0 holds its first part; the DMA then fills descriptor 1.\<close>

definition demo_half :: "u32_t \<Rightarrow> eth_dev" where
  "demo_half st = demo_dev\<lparr>rx_tab := map (\<lambda>st. \<lparr>d_status = st, d_control = 0, d_buf1 = 0, d_next = 1\<rparr>)
     [0x05F00200, st, 0x80000000, 0x80000000, 0x80000000]\<rparr>"

theorem eth_irq_stops_witness:
  "rx_stuck (demo_half 0x80000000) \<and>
   (\<exists>t. ETH_IRQHandler demo_eth_link demo_netif (demo_rx\<lparr>n_dev := demo_half 0x06000100\<rparr>) = Some t \<and> n_mem t = demo_state)"
proof -
  let ?s = "demo_rx\<lparr>n_dev := demo_half 0x80000000\<rparr>" and ?t = "demo_rx\<lparr>n_dev := demo_half 0x06000100\<rparr>"
  have st: "rx_stuck (demo_half 0x80000000)"
    by (simp add: rx_stuck_def rx_good_def demo_half_def demo_dev_def ETH_DMARxDesc_OWN_def ETH_DMARxDesc_ES_def ETH_DMARxDesc_LS_def)
  have "dma_writes (n_dev ?s) (demo_half 0x06000100)"
    by (simp add: dma_writes_def demo_half_def nth_Cons ETH_DMARxDesc_OWN_def demo_dev_def split: nat.split)
  from rx_event.dma [OF this, of demo_eth_link demo_netif]
  have "(rx_event demo_eth_link demo_netif)\<^sup>*\<^sup>* ?s ?t" by (intro r_into_rtranclp) simp
  moreover have "rx_stuck (n_dev ?s)" using st by simp
  ultimately have "ETH_IRQHandler demo_eth_link demo_netif ?t =
      Some (?t\<lparr>n_dev := write_dma_sr ETH_DMA_IT_NIS (write_dma_sr ETH_DMA_IT_R (n_dev ?t))\<rparr>)"
    using eth_irq_stops by blast
  moreover have "n_mem demo_rx = demo_state" by (simp add: demo_rx_def)
  ultimately show ?thesis using st by auto
qed

end
