(* ===== verification/IpProps.thy ===== *)
theory IpProps
  imports UdpProps EthernetifProps
begin

text \<open>
  What goes out: the headers that \<open>ip_output_if\<close> and \<open>udp_sendto_if\<close> put in front of the data, and the
  whole way of a UDP datagram down to the transmit ring of the Ethernet driver.
\<close>

declare split_paired_All [simp del] split_paired_Ex [simp del]

section \<open>The IP header\<close>

definition ip_header_bytes :: "u32_t \<Rightarrow> u32_t \<Rightarrow> u8_t \<Rightarrow> u8_t \<Rightarrow> u8_t \<Rightarrow> int \<Rightarrow> int \<Rightarrow> u8_t list" where
  "ip_header_bytes src dest ttl tos proto len ident =
     [0x45, tos] @ u16_bytes (lwip_htons (word_of_int len)) @ u16_bytes (lwip_htons (word_of_int ident)) @ [0, 0] @
     [ttl, proto, 0, 0] @ u32_bytes src @ u32_bytes dest"

lemma length_20: "length xs = 20 \<Longrightarrow> \<exists>a b c d e f g h i j k l m n p q r s t u. xs = [a, b, c, d, e, f, g, h, i, j, k, l, m, n, p, q, r, s, t, u]"
  by (auto simp: length_Suc_conv numeral_eq_Suc)

lemma ip_make_header_writes:
  "writes (span h 20) (ip_header_bytes (if src = IPADDR_ANY then nif_ip_addr netif else src) dest ttl tos proto len ident) m
     (ip_make_header h src dest ttl tos proto len ident netif m)"
proof -
  let ?src = "if src = IPADDR_ANY then nif_ip_addr netif else src"
  note w0 = writes_refl [of h 20 m]
  note w1 = writes_put8 [OF w0, where k = 8 and w = ttl, simplified] note w2 = writes_put8 [OF w1, where k = 9 and w = proto, simplified]
  note w3 = writes_put32 [OF w2, where k = 16 and w = dest, simplified] note w4 = writes_put8 [OF w3, where k = 0 and w = "0x45", simplified]
  note w5 = writes_put8 [OF w4, where k = 1 and w = tos, simplified] note w6 = writes_put16 [OF w5, where k = 2 and w = "lwip_htons (word_of_int len)", simplified]
  note w7 = writes_put16 [OF w6, where k = 6 and w = 0, simplified] note w8 = writes_put16 [OF w7, where k = 4 and w = "lwip_htons (word_of_int ident)", simplified]
  note w9 = writes_put32 [OF w8, where k = 12 and w = ?src, simplified] note w10 = writes_put16 [OF w9, where k = 10 and w = 0, simplified]
  have "length (read_bytes h 20 m) = 20" by (simp add: read_span)
  from length_20 [OF this] obtain a b c d e f g i j k l n p q r s t u v w where
    old: "read_bytes h 20 m = [a, b, c, d, e, f, g, i, j, k, l, n, p, q, r, s, t, u, v, w]" by blast
  have vhl: "push_bit 4 4 OR word_of_int (IP_HLEN div 4) = (0x45 :: u8_t)" by (simp add: IP_HLEN_def)
  show ?thesis
    using w10 unfolding ip_make_header_def Let_def iph_offsets vhl old
    by (simp add: splice_def ip_header_bytes_def u16_bytes_def u32_bytes_def byte_of_def)
qed

lemma length_ip_header [simp]: "length (ip_header_bytes src dest ttl tos proto len ident) = 20"
  by (simp add: ip_header_bytes_def)

lemma ip_output_if_sends:
  assumes h: "headroom (n_mem s) p ps (k + 20)" and k: "0 \<le> k"
    and mtu: "nif_mtu netif \<noteq> 0 \<longrightarrow> tot (n_mem s) (p # ps) + 20 \<le> nif_mtu netif"
  shows "\<exists>m. ip_output_if l p src (Some dest) ttl tos proto netif s =
      etharp_output l netif p dest (upd_ip (\<lambda>v. v\<lparr>ip_id := c_u16 (ip_id v + 1)\<rparr>) (set_mem m s)) \<and>
    headroom m p ps k \<and> kept (n_mem s) m \<and> tot m (p # ps) = tot (n_mem s) (p # ps) + 20 \<and>
    data m (p # ps) = ip_header_bytes (if src = IPADDR_ANY then nif_ip_addr netif else src) dest ttl tos proto
      (tot (n_mem s) (p # ps) + 20) (ip_id (n_dev s)) @ data (n_mem s) (p # ps)"
proof -
  let ?src = "if src = IPADDR_ANY then nif_ip_addr netif else src" let ?len = "tot (n_mem s) (p # ps) + 20"
  obtain m1 where m1: "pbuf_header (Some p) 20 (n_mem s) = (False, m1)" "headroom m1 p ps k"
    "data m1 (p # ps) = read_bytes (pb_payload (p_pbufs m1 p)) 20 (n_mem s) @ data (n_mem s) (p # ps)"
    "tot m1 (p # ps) = ?len" "20 \<le> pb_len (p_pbufs m1 p)"
    using push_header [OF h k] by auto
  have tl: "pb_tot_len (p_pbufs m1 p) = ?len" using headroom_tot [OF m1(2)] m1(4) by simp
  let ?m2 = "ip_make_header (pb_payload (p_pbufs m1 p)) src dest ttl tos proto ?len (ip_id (n_dev s)) netif m1"
  have w: "writes (span (pb_payload (p_pbufs m1 p)) 20) (ip_header_bytes ?src dest ttl tos proto ?len (ip_id (n_dev s))) m1 ?m2"
    by (rule ip_make_header_writes)
  have m2: "headroom ?m2 p ps k" "tot ?m2 (p # ps) = ?len"
    "data ?m2 (p # ps) = ip_header_bytes ?src dest ttl tos proto ?len (ip_id (n_dev s)) @ data (n_mem s) (p # ps)"
    using write_header [OF m1(2) _ m1(5) w] m1(3,4) by (simp_all add: read_span del: data_simps tot.simps)
  have "\<not> (nif_mtu netif \<noteq> 0 \<and> pb_tot_len (p_pbufs ?m2 p) > nif_mtu netif)"
    using mtu headroom_tot [OF m2(1)] m2(2) by auto
  then have "ip_output_if l p src (Some dest) ttl tos proto netif s =
      etharp_output l netif p dest (upd_ip (\<lambda>v. v\<lparr>ip_id := c_u16 (ip_id v + 1)\<rparr>) (set_mem ?m2 s))"
    using m1(1) tl by (auto simp: ip_output_if_def IP_HLEN_def Let_def simp del: data_simps tot.simps)
  moreover have "kept (n_mem s) ?m2"
    using kept_pbuf_header [OF m1(1)] by (simp add: ip_make_header_def Let_def put8_def put16_def put32_def)
  ultimately show ?thesis using m2 by (intro exI [of _ ?m2]) simp
qed

section \<open>The UDP header\<close>

definition udp_header_bytes :: "u16_t \<Rightarrow> u16_t \<Rightarrow> int \<Rightarrow> u8_t list" where
  "udp_header_bytes src dest len =
     u16_bytes (lwip_htons src) @ u16_bytes (lwip_htons dest) @ u16_bytes (lwip_htons (word_of_int len)) @ [0, 0]"

lemma length_udp_header [simp]: "length (udp_header_bytes src dest len) = 8"
  by (simp add: udp_header_bytes_def)

lemma length_8: "length xs = 8 \<Longrightarrow> \<exists>a b c d e f g h. xs = [a, b, c, d, e, f, g, h]"
  by (auto simp: length_Suc_conv numeral_eq_Suc)

lemma udp_make_header_writes:
  "writes (span h 8) (udp_header_bytes src dest len) m
     (put16 h UDPH_LEN (lwip_htons (word_of_int len)) (udp_make_header h src dest m))"
proof -
  note w1 = writes_put16 [OF writes_refl [of h 8 m], where k = 0 and w = "lwip_htons src", simplified]
  note w2 = writes_put16 [OF w1, where k = 2 and w = "lwip_htons dest", simplified]
  note w3 = writes_put16 [OF w2, where k = 6 and w = 0, simplified]
  note w4 = writes_put16 [OF w3, where k = 4 and w = "lwip_htons (word_of_int len)", simplified]
  have "length (read_bytes h 8 m) = 8" by (simp add: read_span)
  from length_8 [OF this] obtain a b c d e f g i where old: "read_bytes h 8 m = [a, b, c, d, e, f, g, i]" by blast
  show ?thesis using w4 unfolding udp_make_header_def UDPH_SRC_def UDPH_DEST_def UDPH_LEN_def UDPH_CHKSUM_def old
    by (simp add: splice_def udp_header_bytes_def u16_bytes_def byte_of_def)
qed

lemma udp_sendto_if_sends:
  assumes h: "headroom (n_mem s) p ps (k + 8)" and k: "0 \<le> k"
    and b: "u_local_port (upcb s i) \<noteq> 0" "u_local_ip (upcb s i) = IPADDR_ANY \<or> u_local_ip (upcb s i) = nif_ip_addr netif"
  shows "\<exists>m. udp_sendto_if l i p dst_ip dst_port netif s =
      ip_output_if l p (nif_ip_addr netif) (Some dst_ip) (u_ttl (upcb s i)) (u_tos (upcb s i)) IP_PROTO_UDP netif (set_mem m s) \<and>
    headroom m p ps k \<and> kept (n_mem s) m \<and> tot m (p # ps) = tot (n_mem s) (p # ps) + 8 \<and>
    data m (p # ps) = udp_header_bytes (u_local_port (upcb s i)) dst_port (tot (n_mem s) (p # ps) + 8) @ data (n_mem s) (p # ps)"
proof -
  let ?len = "tot (n_mem s) (p # ps) + 8" let ?port = "u_local_port (upcb s i)"
  obtain m1 where m1: "pbuf_header (Some p) 8 (n_mem s) = (False, m1)" "headroom m1 p ps k"
    "data m1 (p # ps) = read_bytes (pb_payload (p_pbufs m1 p)) 8 (n_mem s) @ data (n_mem s) (p # ps)"
    "tot m1 (p # ps) = ?len" "8 \<le> pb_len (p_pbufs m1 p)"
    using push_header [OF h k] by auto
  let ?h = "pb_payload (p_pbufs m1 p)" let ?m2 = "put16 ?h UDPH_LEN (lwip_htons (word_of_int ?len)) (udp_make_header ?h ?port dst_port m1)"
  have w: "writes (span ?h 8) (udp_header_bytes ?port dst_port ?len) m1 ?m2" by (rule udp_make_header_writes)
  have m2: "headroom ?m2 p ps k" "tot ?m2 (p # ps) = ?len"
    "data ?m2 (p # ps) = udp_header_bytes ?port dst_port ?len @ data (n_mem s) (p # ps)"
    using write_header [OF m1(2) _ m1(5) w] m1(3,4) by (simp_all add: read_span del: data_simps tot.simps)
  have hr: "header_room (custom_free l) p UDP_HLEN UDP_HLEN (n_mem s) = Some (True, Some p, m1)"
    using m1(1) by (simp add: header_room_def UDP_HLEN_def)
  have tl: "pb_tot_len (p_pbufs (udp_make_header ?h ?port dst_port m1) p) = ?len"
    using headroom_tot [OF m1(2)] m1(4) by (simp add: udp_make_header_def put16_def mem_write_def)
  have nb: "\<not> (u_local_ip (upcb s i) \<noteq> IPADDR_ANY \<and> u_local_ip (upcb s i) \<noteq> nif_ip_addr netif)"
    and src: "(if u_local_ip (upcb s i) = IPADDR_ANY then nif_ip_addr netif else u_local_ip (upcb s i)) = nif_ip_addr netif"
    using b(2) by auto
  have fh: "do { (err, s) \<leftarrow> x; s \<leftarrow> free_header l p p s; Some (err, s) } = x" for x
    by (cases x) (auto simp: free_header_def)
  have "udp_sendto_if l i p dst_ip dst_port netif s =
      ip_output_if l p (nif_ip_addr netif) (Some dst_ip) (u_ttl (upcb s i)) (u_tos (upcb s i)) IP_PROTO_UDP netif (set_mem ?m2 s)"
    unfolding udp_sendto_if_def if_not_P [OF b(1)] Option.bind.simps prod.case hr option.case Let_def if_not_P [OF nb] tl fh src
    by simp
  moreover have "kept (n_mem s) ?m2" using kept_pbuf_header [OF m1(1)] by (simp add: udp_make_header_def put16_def)
  ultimately show ?thesis using m2 by (intro exI [of _ ?m2]) simp
qed

section \<open>Down to the driver\<close>

text \<open>\<open>netif->linkoutput\<close>: the driver works on the device in the IP state.\<close>

definition ip_linkoutput :: "ptr \<Rightarrow> pstate \<Rightarrow> ('a eth_dev_scheme, 'm) ip_vars_scheme \<Rightarrow> (err_t \<times> ('a eth_dev_scheme, 'm) ip_vars_scheme) option" where
  "ip_linkoutput p m v =
     (case low_level_output p m (ip_dev v) of None \<Rightarrow> None | Some (e, d) \<Rightarrow> Some (e, v\<lparr>ip_dev := d\<rparr>))"

definition ip_queue :: "('a eth_dev_scheme, 'm) ip_vars_scheme \<Rightarrow> u8_t list list \<Rightarrow> bool" where
  "ip_queue v fs \<longleftrightarrow> eth_queue (ip_dev v) fs"

interpretation ip_eth: link_driver ip_linkoutput ip_queue ETH_TXBUFNB ETH_MAX_PACKET_SIZE
proof
  fix d :: "('a eth_dev_scheme, 'm) ip_vars_scheme" and fs m p ps
  assume a: "ip_queue d fs" "length fs < ETH_TXBUFNB" "packet m (Some p) ps" "tot m ps \<le> ETH_MAX_PACKET_SIZE"
  obtain d' where "low_level_output p m (ip_dev d) = Some (ERR_OK, d')" "eth_queue d' (fs @ [data m ps])"
    using eth.accepts [OF a(1) [unfolded ip_queue_def] a(2-4)] by blast
  then show "\<exists>d'. ip_linkoutput p m d = Some (ERR_OK, d') \<and> ip_queue d' (fs @ [data m ps])"
    by (intro exI [of _ "d\<lparr>ip_dev := d'\<rparr>"]) (simp add: ip_linkoutput_def ip_queue_def)
qed

lemma headroom_etharp:
  assumes "headroom m q xs 14"
  shows "packet m (Some q) (q # xs)" "pb_type (p_pbufs m q) = PBUF_RAM \<or> pb_type (p_pbufs m q) = PBUF_POOL"
    "snd q + SIZEOF_STRUCT_PBUF + 14 \<le> snd (pb_payload (p_pbufs m q))"
    "set (span (ptr_add (pb_payload (p_pbufs m q)) (- 14)) 14) \<inter> set (addrs m (q # xs)) = {}"
  using assms unfolding headroom_def distinct_append by blast+

text \<open>An interface whose driver has room and that can resolve the address of the next hop.\<close>

definition can_send :: "('a eth_dev_scheme, 'm) ip_vars_scheme link_if \<Rightarrow> netif \<Rightarrow> u32_t \<Rightarrow> u8_t list \<Rightarrow> u8_t list list \<Rightarrow>
    ('a eth_dev_scheme, 'm) ip_net \<Rightarrow> bool" where
  "can_send l netif dst mac fs s \<longleftrightarrow> linkoutput l = ip_linkoutput \<and> ip_queue (n_dev s) fs \<and> length fs < ETH_TXBUFNB \<and>
     arp_ok (n_arp s) \<and> n_cached s < ARP_TABLE_SIZE \<and> link_dest netif (n_arp s) dst mac \<and> length mac = 6 \<and>
     length (nif_hwaddr netif) = 6"

lemma ip_output_if_to_ring:
  assumes c: "can_send l netif dest mac fs s" and h: "headroom (n_mem s) p ps 34"
    and mtu: "nif_mtu netif \<noteq> 0 \<longrightarrow> tot (n_mem s) (p # ps) + 20 \<le> nif_mtu netif"
    and max: "tot (n_mem s) (p # ps) + 34 \<le> ETH_MAX_PACKET_SIZE"
  shows "\<exists>s'. ip_output_if l p src (Some dest) ttl tos proto netif s = Some (ERR_OK, s') \<and>
    ip_queue (n_dev s') (fs @ [mac @ nif_hwaddr netif @ [0x08, 0x00] @
      ip_header_bytes (if src = IPADDR_ANY then nif_ip_addr netif else src) dest ttl tos proto
        (tot (n_mem s) (p # ps) + 20) (ip_id (n_dev s)) @ data (n_mem s) (p # ps)])"
proof -
  obtain m where m: "ip_output_if l p src (Some dest) ttl tos proto netif s =
      etharp_output l netif p dest (upd_ip (\<lambda>v. v\<lparr>ip_id := c_u16 (ip_id v + 1)\<rparr>) (set_mem m s))"
    "headroom m p ps 14" "tot m (p # ps) = tot (n_mem s) (p # ps) + 20"
    "data m (p # ps) = ip_header_bytes (if src = IPADDR_ANY then nif_ip_addr netif else src) dest ttl tos proto
      (tot (n_mem s) (p # ps) + 20) (ip_id (n_dev s)) @ data (n_mem s) (p # ps)"
    using ip_output_if_sends [of s p ps 14 netif l src dest ttl tos proto] h mtu by (simp del: data_simps tot.simps) blast
  let ?s = "upd_ip (\<lambda>v. v\<lparr>ip_id := c_u16 (ip_id v + 1)\<rparr>) (set_mem m s)"
  have c': "linkoutput l = ip_linkoutput" "ip_queue (n_dev ?s) fs" "length fs < ETH_TXBUFNB" "arp_ok (n_arp ?s)"
    "n_cached ?s < ARP_TABLE_SIZE" "link_dest netif (n_arp ?s) dest mac" "length mac = 6" "length (nif_hwaddr netif) = 6"
    using c by (simp_all add: can_send_def ip_queue_def upd_ip_def set_mem_def)
  have mx: "tot (n_mem ?s) (p # ps) + 14 \<le> ETH_MAX_PACKET_SIZE" "ETH_MAX_PACKET_SIZE \<le> 65535"
    using max m(3) by (simp_all add: ETH_MAX_PACKET_SIZE_def)
  have nm: "n_mem ?s = m" by simp
  have hr: "headroom (n_mem ?s) p ps 14" using m(2) unfolding nm .
  from ip_eth.etharp_output_queues [OF c'(1-3) mx c'(4-8) headroom_etharp [OF hr]]
  show ?thesis unfolding m(1) nm m(4) by blast
qed

lemma udp_sendto_to_ring:
  fixes s :: "('a eth_dev_scheme, 'm) udp_net"
  assumes rt: "ip_route dst s = Some netif" and c: "can_send l netif dst mac fs s" and h: "headroom (n_mem s) p ps 42"
    and b: "u_local_port (upcb s i) \<noteq> 0" "u_local_ip (upcb s i) = IPADDR_ANY \<or> u_local_ip (upcb s i) = nif_ip_addr netif"
    and mtu: "nif_mtu netif \<noteq> 0 \<longrightarrow> tot (n_mem s) (p # ps) + 28 \<le> nif_mtu netif"
    and max: "tot (n_mem s) (p # ps) + 42 \<le> ETH_MAX_PACKET_SIZE"
  shows "\<exists>s'. udp_sendto l i p dst port s = Some (ERR_OK, s') \<and>
    ip_queue (n_dev s') (fs @ [mac @ nif_hwaddr netif @ [0x08, 0x00] @
      ip_header_bytes (nif_ip_addr netif) dst (u_ttl (upcb s i)) (u_tos (upcb s i)) 17 (tot (n_mem s) (p # ps) + 28) (ip_id (n_dev s)) @
      udp_header_bytes (u_local_port (upcb s i)) port (tot (n_mem s) (p # ps) + 8) @ data (n_mem s) (p # ps)])"
proof -
  obtain m where m: "udp_sendto_if l i p dst port netif s =
      ip_output_if l p (nif_ip_addr netif) (Some dst) (u_ttl (upcb s i)) (u_tos (upcb s i)) IP_PROTO_UDP netif (set_mem m s)"
    "headroom m p ps 34" "tot m (p # ps) = tot (n_mem s) (p # ps) + 8"
    "data m (p # ps) = udp_header_bytes (u_local_port (upcb s i)) port (tot (n_mem s) (p # ps) + 8) @ data (n_mem s) (p # ps)"
    using udp_sendto_if_sends [of s p ps 34 i netif l dst port] h b by (simp del: data_simps tot.simps) blast
  let ?s = "set_mem m s"
  have c': "can_send l netif dst mac fs ?s" using c by (simp add: can_send_def set_mem_def)
  have nm: "n_mem ?s = m" "ip_id (n_dev ?s) = ip_id (n_dev s)" by simp_all
  have h': "headroom (n_mem ?s) p ps 34" using m(2) unfolding nm .
  have t': "nif_mtu netif \<noteq> 0 \<longrightarrow> tot (n_mem ?s) (p # ps) + 20 \<le> nif_mtu netif" "tot (n_mem ?s) (p # ps) + 34 \<le> ETH_MAX_PACKET_SIZE"
    using mtu max m(3) unfolding nm by linarith+
  have tt: "tot m (p # ps) + 20 = tot (n_mem s) (p # ps) + 28" using m(3) by simp
  have src: "(if nif_ip_addr netif = IPADDR_ANY then nif_ip_addr netif else nif_ip_addr netif) = nif_ip_addr netif" by simp
  have "udp_sendto l i p dst port s = udp_sendto_if l i p dst port netif s" using rt by (simp add: udp_sendto_def)
  with ip_output_if_to_ring [OF c' h' t', of "nif_ip_addr netif" "u_ttl (upcb s i)" "u_tos (upcb s i)" IP_PROTO_UDP]
  show ?thesis unfolding m(1) nm src tt m(4) IP_PROTO_UDP_def by simp
qed

section \<open>What comes in\<close>

text \<open>A datagram for a control block with a receive function: the function gets the data.\<close>

lemma udp_input_delivers_spec:
  assumes p: "packet (n_mem s) (Some p) (p # ps)" and len: "28 \<le> pb_len (p_pbufs (n_mem s) p)"
    and t: "snd p + SIZEOF_STRUCT_PBUF \<le> snd (pb_payload (p_pbufs (n_mem s) p))"
    and hl: "IPH_HL (payload_of p s) (n_mem s) = 5"
    and src: "lwip_ntohs (get16 (ptr_add (payload_of p s) 20) UDPH_SRC (n_mem s)) = src"
    and dest: "lwip_ntohs (get16 (ptr_add (payload_of p s) 20) UDPH_DEST (n_mem s)) = dest" "dest \<noteq> DHCP_CLIENT_PORT"
    and xs: "udp_list s xs"
    and i: "udp_choice s src dest (ip4_addr_isbroadcast (current_dest (n_dev s)) inp) inp xs = Some i" "u_recv (upcb s i) = Some f"
  shows "\<exists>s'. udp_input l a p inp s = udp_recv_fn a f (u_recv_arg (upcb s' i)) i p (current_src (n_dev s')) src s' \<and>
    packet (n_mem s') (Some p) (p # ps) \<and> data (n_mem s') (p # ps) = drop 28 (data (n_mem s) (p # ps)) \<and>
    udp_list s' (udp_reordered s src dest (ip4_addr_isbroadcast (current_dest (n_dev s)) inp) inp xs)"
proof -
  let ?m = "n_mem s" let ?b = "ip4_addr_isbroadcast (current_dest (n_dev s)) inp"
  obtain m1 where m1: "pbuf_header (Some p) (- 20) ?m = (False, m1)" "packet m1 (Some p) (p # ps)"
    "data m1 (p # ps) = drop (nat 20) (data ?m (p # ps))"
    "p_pbufs m1 p = (p_pbufs ?m p)\<lparr>pb_payload := ptr_add (pb_payload (p_pbufs ?m p)) 20, pb_len := pb_len (p_pbufs ?m p) - 20,
      pb_tot_len := pb_tot_len (p_pbufs ?m p) - 20\<rparr>" "p_bytes m1 = p_bytes ?m"
    using shrink_header [OF p, of 20] len t by auto
  let ?s1 = "set_mem m1 s"
  have b1: "udp_perfect ?s1 = udp_perfect s" "udp_unconnected ?s1 = udp_unconnected s"
    by (simp_all add: udp_perfect_def udp_unconnected_def fun_eq_iff)
  have c1: "udp_choice ?s1 src dest ?b inp xs = Some i" "udp_reordered ?s1 src dest ?b inp xs = udp_reordered s src dest ?b inp xs"
    using i(1) by (simp_all only: udp_choice_def udp_reordered_def b1)
  have l1: "udp_list ?s1 xs" using xs by (simp add: udp_list_def)
  obtain s2 where s2: "udp_search src dest ?b inp (u_head ?s1) None None ?s1 = Some (Some i, s2)"
    "udp_list s2 (udp_reordered s src dest ?b inp xs)" "same_blocks ?s1 s2"
    using udp_search_spec [OF l1, of src dest ?b inp] unfolding c1 by blast
  have n2: "n_mem s2 = m1" "u_recv (upcb s2 i) = Some f" using s2(3) same_blocks_fields(5) [OF s2(3), of i] i(2) by (simp_all add: same_blocks_def)
  have p8: "8 \<le> pb_len (p_pbufs m1 p)" "pb_type (p_pbufs m1 p) = PBUF_RAM \<or> pb_type (p_pbufs m1 p) = PBUF_POOL \<longrightarrow>
      snd p + SIZEOF_STRUCT_PBUF \<le> snd (pb_payload (p_pbufs m1 p)) + 8"
    using m1(4) len t by (simp_all add: ptr_add_def)
  obtain m2 where m2: "pbuf_header (Some p) (- 8) m1 = (False, m2)" "packet m2 (Some p) (p # ps)"
    "data m2 (p # ps) = drop (nat 8) (data m1 (p # ps))"
    using shrink_header [OF m1(2) _ p8(1) _ p8(2)] by auto
  have rd: "payload_of p ?s1 = ptr_add (payload_of p s) 20" using m1(4) by (simp add: payload_of_def)
  have g: "get16 h k m1 = get16 h k ?m" for h k using m1(5) by (simp add: get16_def)
  have sh: "\<not> pb_tot_len (p_pbufs ?m p) < 5 * 4 + UDP_HLEN"
    using p len tot_nonneg [of ?m ps] by (simp add: packet_def UDP_HLEN_def)
  let ?s' = "set_mem m2 s2"
  have "udp_input l a p inp s = udp_recv_fn a f (u_recv_arg (upcb s2 i)) i p (current_src (n_dev s2)) src ?s'"
    unfolding udp_input_def Let_def hl if_not_P [OF sh] using m1(1) m2(1) s2(1) n2 dest(2)
    by (simp add: rd g src dest(1) UDP_HLEN_def udp_deliver_def del: data_simps tot.simps)
  moreover have "data m2 (p # ps) = drop 28 (data ?m (p # ps))" using m2(3) m1(3) by (simp del: data_simps)
  ultimately show ?thesis using m2(2) s2(2) by (intro exI [of _ ?s']) (simp add: udp_list_def del: data_simps)
qed

section \<open>Properties\<close>

text \<open>The search for the control block of a datagram: the first in the list that matches both ends, else
  the first unconnected one that matches the local end; the former is moved to the front, and nothing
  but the links of the blocks changes.\<close>
theorem udp_search_chooses:
  assumes "udp_list s xs"
  shows "\<exists>s'. udp_search src dest broadcast inp (udp_pcbs (n_dev s)) None None s =
      Some (udp_choice s src dest broadcast inp xs, s') \<and>
    udp_list s' (udp_reordered s src dest broadcast inp xs) \<and> same_blocks s s'"
  by (rule udp_search_spec [OF assms])

text \<open>\<open>udp_new_port\<close> returns, and finds a port of the dynamic range that no control block uses whenever
  there is one; else it returns 0.\<close>
theorem udp_new_port_finds:
  assumes "udp_list s xs" "port_in_range (udp_port (n_dev s))"
  shows "\<exists>p r. udp_new_port s = Some (r, with_port p s) \<and> port_in_range p \<and>
    (if \<forall>q. port_in_range q \<longrightarrow> udp_used s xs q then r = 0 else r = p \<and> \<not> udp_used s xs r)"
  by (rule udp_new_port_spec [OF assms])

text \<open>C1: a UDP datagram with a resolved destination goes down the whole stack in one call: the transmit ring
  of the driver gets the frame of the Ethernet, IP and UDP headers and the data, byte for byte.\<close>
theorem udp_sendto_frame:
  fixes s :: "('a eth_dev_scheme, 'm) udp_net"
  assumes "ip_route dst s = Some netif" and "can_send l netif dst mac fs s" and "headroom (n_mem s) p ps 42"
    and "u_local_port (upcb s i) \<noteq> 0" and "u_local_ip (upcb s i) = IPADDR_ANY \<or> u_local_ip (upcb s i) = nif_ip_addr netif"
    and "nif_mtu netif \<noteq> 0 \<longrightarrow> tot (n_mem s) (p # ps) + 28 \<le> nif_mtu netif"
    and "tot (n_mem s) (p # ps) + 42 \<le> ETH_MAX_PACKET_SIZE"
  shows "\<exists>s'. udp_sendto l i p dst port s = Some (ERR_OK, s') \<and>
    ip_queue (n_dev s') (fs @ [mac @ nif_hwaddr netif @ [0x08, 0x00] @
      ip_header_bytes (nif_ip_addr netif) dst (u_ttl (upcb s i)) (u_tos (upcb s i)) 17 (tot (n_mem s) (p # ps) + 28) (ip_id (n_dev s)) @
      udp_header_bytes (u_local_port (upcb s i)) port (tot (n_mem s) (p # ps) + 8) @ data (n_mem s) (p # ps)])"
  by (rule udp_sendto_to_ring [OF assms])

text \<open>C9: \<open>udp_input\<close> hands a datagram to the receive function of the control block it chooses, as a packet
  of the same pbufs that holds exactly the data behind the IP and UDP headers.\<close>
theorem udp_input_delivers:
  assumes "packet (n_mem s) (Some p) (p # ps)" and "28 \<le> pb_len (p_pbufs (n_mem s) p)"
    and "snd p + SIZEOF_STRUCT_PBUF \<le> snd (pb_payload (p_pbufs (n_mem s) p))"
    and "IPH_HL (payload_of p s) (n_mem s) = 5"
    and "lwip_ntohs (get16 (ptr_add (payload_of p s) 20) UDPH_SRC (n_mem s)) = src"
    and "lwip_ntohs (get16 (ptr_add (payload_of p s) 20) UDPH_DEST (n_mem s)) = dest" "dest \<noteq> DHCP_CLIENT_PORT"
    and "udp_list s xs"
    and "udp_choice s src dest (ip4_addr_isbroadcast (current_dest (n_dev s)) inp) inp xs = Some i" "u_recv (upcb s i) = Some f"
  shows "\<exists>s'. udp_input l a p inp s = udp_recv_fn a f (u_recv_arg (upcb s' i)) i p (current_src (n_dev s')) src s' \<and>
    packet (n_mem s') (Some p) (p # ps) \<and> data (n_mem s') (p # ps) = drop 28 (data (n_mem s) (p # ps)) \<and>
    udp_list s' (udp_reordered s src dest (ip4_addr_isbroadcast (current_dest (n_dev s)) inp) inp xs)"
  by (rule udp_input_delivers_spec [OF assms])

section \<open>Witnesses\<close>

text \<open>One control block, bound to port 2000, over the empty transmit ring of the driver; a packet received
  from or to be sent to 10.0.0.1, the address of demo interface being 10.0.0.9.\<close>

definition demo_udp_vars :: "eth_dev udp_vars" where
  "demo_udp_vars = \<lparr>ip_dev = demo_up, ip_id = 7, netif_list = [demo_netif], netif_default = Some 0, current_netif = None,
     current_header = None, current_src = u32_le 10 0 0 1, current_dest = u32_le 10 0 0 9, reassdatagrams = None,
     ip_reass_pbufcount = 0, reass_tab = (\<lambda>i. \<lparr>ir_next = None, ir_p = None, ir_iphdr = [], ir_datagram_len = 0, ir_flags = 0, ir_timer = 0\<rparr>),
     reass_helper = (\<lambda>a. \<lparr>rh_next_pbuf = None, rh_start = 0, rh_end = 0\<rparr>),
     raw_pcbs = None, raw_tab = (\<lambda>i. \<lparr>r_local_ip = 0, r_remote_ip = 0, r_so_options = 0, r_tos = 0, r_ttl = 0, r_next = None, r_protocol = 0, r_recv = None,
       r_recv_arg = 0\<rparr>),
     udp_port = 0xc000, udp_pcbs = Some 0, udp_tab = (\<lambda>i. udp_pcb_zero\<lparr>u_local_port := 2000, u_ttl := 255, u_recv := Some 1\<rparr>),
     dhcp_pcb = (\<lambda>k. None)\<rparr>"

definition demo_mem :: "u8_t list \<Rightarrow> int \<Rightarrow> pstate" where
  "demo_mem bs off = demo_state\<lparr>p_pbufs := (\<lambda>p. demo_pb None (fst p, off) (int (length bs)) (int (length bs))),
     p_bytes := (\<lambda>r a. bs ! nat (a - off))\<rparr>"

definition demo_stack :: "u8_t list \<Rightarrow> int \<Rightarrow> eth_dev udp_vars net" where
  "demo_stack bs off = \<lparr>n_mem = demo_mem bs off, n_arp = demo_table, n_cached = 0, n_dev = demo_udp_vars\<rparr>"

definition demo_stack_link :: "eth_dev udp_vars link_if" where
  "demo_stack_link = \<lparr>linkoutput = ip_linkoutput, ip_input = (\<lambda>p netif s. Some s), dhcp_arp_reply = (\<lambda>netif a s. Some s),
     custom_free = (\<lambda>p m. None)\<rparr>"

lemma demo_stack_sel [simp]: "n_mem (demo_stack bs off) = demo_mem bs off" "n_arp (demo_stack bs off) = demo_table"
  "n_cached (demo_stack bs off) = 0" "n_dev (demo_stack bs off) = demo_udp_vars"
  by (simp_all add: demo_stack_def)

lemma demo_mem_packet: "bs \<noteq> [] \<Longrightarrow> length bs \<le> 1000 \<Longrightarrow> packet (demo_mem bs off) (Some p) [p]" "tot (demo_mem bs off) [p] = int (length bs)"
  by (simp_all add: packet_def demo_mem_def demo_pb_def Suc_leI)

lemma demo_mem_data: "data (demo_mem bs off) [p] = bs"
  by (rule nth_equalityI) (simp_all add: pb_data_def read_bytes_def bytes_def demo_mem_def demo_pb_def)

lemma demo_mem_headroom:
  assumes "bs \<noteq> []" "length bs \<le> 1000" "0 \<le> k" "k \<le> 100" "k + 16 \<le> off"
  shows "headroom (demo_mem bs off) (RPool 4, 0) [] k"
proof -
  have "distinct (span (RPool 4, off - k) (k + int (length bs)))" by (rule distinct_span)
  then have "distinct (span (RPool 4, off - k) k @ span (RPool 4, off) (int (length bs)))"
    using span_append [of k "int (length bs)" "(RPool 4, off - k)"] assms(3) by (simp add: ptr_add_def)
  then show ?thesis using assms demo_mem_packet(2) [of bs off "(RPool 4, 0)"] demo_mem_packet(1) [OF assms(1,2), of off "(RPool 4, 0)"]
    by (simp add: headroom_def demo_mem_def demo_pb_def pb_addrs_def ptr_add_def pbuf_consts)
qed

lemma demo_can_send: "can_send demo_stack_link demo_netif (u32_le 10 0 0 1) [2, 0, 0, 0, 0, 7] [] (demo_stack bs off)"
  using demo_up_holds demo_dest demo_table_ok
  by (auto simp: can_send_def demo_stack_link_def ip_queue_def eth_queue_def demo_udp_vars_def ETH_TXBUFNB_def ARP_TABLE_SIZE_def demo_net_def demo_netif_def)

theorem udp_sendto_frame_witness:
  "\<exists>s'. udp_sendto demo_stack_link 0 (RPool 4, 0) (u32_le 10 0 0 1) 53 (demo_stack [1, 2] 58) = Some (ERR_OK, s') \<and>
     ip_queue (n_dev s') [[2, 0, 0, 0, 0, 7, 0, 0, 0, 0, 0, 1, 8, 0, 0x45, 0, 0, 30, 0, 7, 0, 0, 255, 17, 0, 0, 10, 0, 0, 9, 10, 0, 0, 1,
       7, 208, 0, 53, 0, 10, 0, 0, 1, 2]]"
proof -
  let ?s = "demo_stack [1, 2] 58"
  have port: "(2000 :: u8_t) = 208" by simp
  have hb: "u16_bytes (lwip_htons n) = [byte_of 1 n, byte_of 0 n]" for n unfolding htons_bytes by (simp add: u16_bytes_def)
  have rt: "ip_route (u32_le 10 0 0 1) ?s = Some demo_netif"
    by (simp add: ip_route_def demo_udp_vars_def netif_is_up_def demo_netif_def NETIF_FLAG_UP_def ip_addr_netcmp_def u32_le_def)
  have "\<exists>s'. udp_sendto demo_stack_link 0 (RPool 4, 0) (u32_le 10 0 0 1) 53 ?s = Some (ERR_OK, s') \<and>
    ip_queue (n_dev s') ([] @ [[2, 0, 0, 0, 0, 7] @ nif_hwaddr demo_netif @ [0x08, 0x00] @
      ip_header_bytes (nif_ip_addr demo_netif) (u32_le 10 0 0 1) (u_ttl (upcb ?s 0)) (u_tos (upcb ?s 0)) 17 (tot (n_mem ?s) [(RPool 4, 0)] + 28) (ip_id (n_dev ?s)) @
      udp_header_bytes (u_local_port (upcb ?s 0)) 53 (tot (n_mem ?s) [(RPool 4, 0)] + 8) @ data (n_mem ?s) [(RPool 4, 0)]])"
    by (rule udp_sendto_frame [OF rt demo_can_send])
      (simp_all add: demo_mem_headroom demo_mem_packet demo_udp_vars_def udp_pcb_zero_def demo_netif_def IPADDR_ANY_def ETH_MAX_PACKET_SIZE_def
        del: tot.simps)
  then show ?thesis
    by (simp add: demo_mem_packet demo_mem_data demo_udp_vars_def udp_pcb_zero_def demo_netif_def ip_header_bytes_def udp_header_bytes_def u32_bytes_le
      hb byte_of_def port del: tot.simps data_simps)
qed

text \<open>A datagram from port 1000 of 10.0.0.1 to port 2000 of 10.0.0.9 with the two bytes 1 and 2.\<close>

definition demo_datagram :: "u8_t list" where
  "demo_datagram = [0x45, 0, 0, 30, 0, 7, 0, 0, 255, 17, 0, 0, 10, 0, 0, 1, 10, 0, 0, 9, 3, 232, 7, 208, 0, 10, 0, 0, 1, 2]"

definition demo_app :: "eth_dev udp_vars udp_app" where
  "demo_app = \<lparr>udp_recv_fn = (\<lambda>f a i p addr port s. Some s)\<rparr>"

lemma demo_blocks: "udp_list (demo_stack bs off) [0]"
  by (simp add: udp_list_def demo_udp_vars_def udp_pcb_zero_def)

lemma demo_unicast: "\<not> ip4_addr_isbroadcast (u32_le 10 0 0 9) demo_netif" "\<not> ip_addr_ismulticast (u32_le 10 0 0 9)"
  by (simp_all add: ip4_addr_isbroadcast_def ip_addr_ismulticast_def ip_addr_netcmp_def demo_netif_def u32_le_def
    lwip_htonl_def IPADDR_ANY_def IPADDR_NONE_def NETIF_FLAG_BROADCAST_def)

lemma demo_choice: "udp_choice (demo_stack bs off) 1000 2000 False demo_netif [0] = Some 0"
  by (simp add: udp_choice_def udp_perfect_def udp_unconnected_def udp_local_match_def udp_remote_match_def udp_connected_def
    demo_udp_vars_def udp_pcb_zero_def IPADDR_ANY_def)

theorem udp_search_chooses_witness:
  "\<exists>s'. udp_search 1000 2000 False demo_netif (udp_pcbs demo_udp_vars) None None (demo_stack demo_datagram 30) = Some (Some 0, s')"
  using udp_search_chooses [OF demo_blocks, of 1000 2000 False demo_netif demo_datagram 30] by (auto simp: demo_choice)

theorem udp_new_port_finds_witness:
  "\<exists>p. udp_new_port (demo_stack demo_datagram 30) = Some (p, with_port p (demo_stack demo_datagram 30)) \<and> 0xc000 \<le> p"
proof -
  have r: "port_in_range (udp_port (n_dev (demo_stack demo_datagram 30)))" "port_in_range 0xc000" "\<not> udp_used (demo_stack demo_datagram 30) [0] 0xc000"
    by (simp_all add: port_in_range_def demo_udp_vars_def UDP_LOCAL_PORT_RANGE_START_def udp_used_def udp_pcb_zero_def)
  then have nf: "\<not> (\<forall>q. port_in_range q \<longrightarrow> udp_used (demo_stack demo_datagram 30) [0] q)" by blast
  obtain p where "udp_new_port (demo_stack demo_datagram 30) = Some (p, with_port p (demo_stack demo_datagram 30))" "port_in_range p"
    using udp_new_port_finds [OF demo_blocks r(1)] unfolding if_not_P [OF nf] by blast
  then show ?thesis by (auto simp: port_in_range_def UDP_LOCAL_PORT_RANGE_START_def)
qed

theorem udp_input_delivers_witness:
  "\<exists>s'. udp_input demo_stack_link demo_app (RPool 4, 0) demo_netif (demo_stack demo_datagram 30) = Some s' \<and>
     data (n_mem s') [(RPool 4, 0)] = [1, 2]"
proof -
  let ?s = "demo_stack demo_datagram 30"
  have ne: "demo_datagram \<noteq> []" "length demo_datagram = 30" by (simp_all add: demo_datagram_def)
  have pay: "payload_of (RPool 4, 0) ?s = (RPool 4, 30)" by (simp add: payload_of_def demo_mem_def demo_pb_def)
  have h: "IPH_HL (payload_of (RPool 4, 0) ?s) (n_mem ?s) = 5"
    "lwip_ntohs (get16 (ptr_add (payload_of (RPool 4, 0) ?s) 20) UDPH_SRC (n_mem ?s)) = 1000"
    "lwip_ntohs (get16 (ptr_add (payload_of (RPool 4, 0) ?s) 20) UDPH_DEST (n_mem ?s)) = 2000"
    unfolding pay by (simp_all add: IPH_HL_def get8_def get16_def load16_def IPH_VHL_def UDPH_SRC_def UDPH_DEST_def demo_mem_def
      demo_datagram_def ptr_add_def u16_le_def lwip_ntohs_def lwip_htons_def)
  have b: "ip4_addr_isbroadcast (u32_le 10 0 0 9) demo_netif = False" "current_dest demo_udp_vars = u32_le 10 0 0 9"
    using demo_unicast by (simp_all add: demo_udp_vars_def)
  have "\<exists>s'. udp_input demo_stack_link demo_app (RPool 4, 0) demo_netif ?s =
      udp_recv_fn demo_app 1 (u_recv_arg (upcb s' 0)) 0 (RPool 4, 0) (current_src (n_dev s')) 1000 s' \<and>
    packet (n_mem s') (Some (RPool 4, 0)) [(RPool 4, 0)] \<and> data (n_mem s') [(RPool 4, 0)] = drop 28 (data (n_mem ?s) [(RPool 4, 0)]) \<and>
    udp_list s' (udp_reordered ?s 1000 2000 (ip4_addr_isbroadcast (current_dest (n_dev ?s)) demo_netif) demo_netif [0])"
    by (rule udp_input_delivers [OF _ _ _ h _ demo_blocks])
      (simp_all add: b demo_choice demo_mem_packet ne del: tot.simps,
       simp_all add: demo_mem_def demo_pb_def ne pbuf_consts DHCP_CLIENT_PORT_def demo_udp_vars_def udp_pcb_zero_def)
  then show ?thesis by (auto simp: demo_mem_data demo_app_def demo_datagram_def simp del: data_simps)
qed

end
