(* ===== verification/LwipMain.thy ===== *)
theory LwipMain
  imports Dhcp Ethernetif IpProps
begin

text \<open>
  The program: \<open>LWIP_Init\<close>, the periodic handler and the two interrupts (\<open>src/USER/test.c\<close>, \<open>src/USER/stm32f10x_it.c\<close>,
  \<open>lwip_init\<close> of \<open>core/init.c\<close>), with the layers put together: the driver below ARP and IP, IP below ICMP, UDP and TCP,
  and the DHCP client as a user of UDP.  The application's callbacks and the release function of custom packet
  buffers are what remains as parameters.  The interface of the program has the number 0.
\<close>

section \<open>State\<close>

record 'x main_vars = "'x lwip_vars" +
  LWipTime :: u32_t
  TCPTimer :: u32_t
  ARPTimer :: u32_t
  DHCPfineTimer :: u32_t
  DHCPcoarseTimer :: u32_t
  sys_tm :: "unit timers"

type_synonym ('x, 'm) main_net = "('x, 'm) main_vars_scheme net"
type_synonym ('x, 'm) main_link = "('x, 'm) main_vars_scheme link_if"
type_synonym ('x, 'm) main_app = "('x, 'm) main_vars_scheme tcp_app"

definition upd_main :: "(('x, 'm) main_vars_scheme \<Rightarrow> ('x, 'm) main_vars_scheme) \<Rightarrow> ('x, 'm) main_net \<Rightarrow> ('x, 'm) main_net" where
  "upd_main f s = s\<lparr>n_dev := f (n_dev s)\<rparr>"

text \<open>An operation on the timeout list, whose pool is that of the packet memory.\<close>

definition on_timers :: "(unit timers \<Rightarrow> unit timers) \<Rightarrow> ('x, 'm) main_net \<Rightarrow> ('x, 'm) main_net" where
  "on_timers f s =
     (let t = f ((sys_tm (n_dev s))\<lparr>tm_pools := p_pools (n_mem s)\<rparr>)
      in upd_main (\<lambda>v. v\<lparr>sys_tm := t\<rparr>) (set_mem ((n_mem s)\<lparr>p_pools := tm_pools t\<rparr>) s))"

section \<open>The layers together\<close>

text \<open>What a layer calls upwards, from \<open>ethernet_input\<close> on; \<open>l\<close> provides the driver and \<open>custom_free\<close>.\<close>

definition stack_of ::
    "('x, 'm) main_link \<Rightarrow> ('x, 'm) main_app \<Rightarrow> ('x, 'm) main_vars_scheme raw_app \<Rightarrow> ('x, 'm) main_vars_scheme udp_app \<Rightarrow> ('x, 'm) main_link" where
  "stack_of l a ra ua = dhcp_link_of (ip_link_of (upper_of l ra (dhcp_udp_app l a ua) (tcp_input l a)) l)"

text \<open>The driver reads a frame into the packet memory of the whole state.\<close>

definition main_low_level_input :: "custom_free \<Rightarrow> ('a eth_dev_scheme, 'm) main_net \<Rightarrow> (ptr option \<times> ('a eth_dev_scheme, 'm) main_net) option" where
  "main_low_level_input cf s = do {
     (p, d) \<leftarrow> low_level_input cf \<lparr>n_mem = n_mem s, n_arp = n_arp s, n_cached = n_cached s, n_dev = ip_dev (n_dev s)\<rparr>;
     Some (p, upd_main (\<lambda>v. v\<lparr>ip_dev := n_dev d\<rparr>) (set_mem (n_mem d) s))
   }"

definition main_pkt_handle :: "('a eth_dev_scheme, 'm) main_link \<Rightarrow> ('a eth_dev_scheme, 'm) main_net \<Rightarrow> ('a eth_dev_scheme, 'm) main_net option" where
  "main_pkt_handle l s = do {
     (p, s) \<leftarrow> main_low_level_input (custom_free l) s;
     case p of
       None \<Rightarrow> Some s
     | Some p \<Rightarrow> do {
         n \<leftarrow> the_netif 0 s;
         (err, s) \<leftarrow> ethernet_input l p n s;
         if err \<noteq> ERR_OK then free_mem l (Some p) s else Some s
       }
   }"

partial_function (option) main_irq_loop ::
    "('a eth_dev_scheme, 'm) main_link \<Rightarrow> ('a eth_dev_scheme, 'm) main_net \<Rightarrow> ('a eth_dev_scheme, 'm) main_net option" where
  "main_irq_loop l s =
     (if ETH_GetRxPktSize (ip_dev (n_dev s)) \<noteq> 0 then do { s \<leftarrow> main_pkt_handle l s; main_irq_loop l s } else Some s)"

definition main_irq :: "('a eth_dev_scheme, 'm) main_link \<Rightarrow> ('a eth_dev_scheme, 'm) main_net \<Rightarrow> ('a eth_dev_scheme, 'm) main_net option" where
  "main_irq l s = do {
     s \<leftarrow> main_irq_loop l s;
     Some (upd_main (\<lambda>v. v\<lparr>ip_dev := ETH_DMAClearITPendingBit ETH_DMA_IT_NIS (ETH_DMAClearITPendingBit ETH_DMA_IT_R (ip_dev v))\<rparr>) s)
   }"

definition SysTick_Handler :: "('x, 'm) main_net \<Rightarrow> ('x, 'm) main_net" where
  "SysTick_Handler = upd_main (\<lambda>v. v\<lparr>LWipTime := LWipTime v + 10\<rparr>)"

section \<open>Initialisation\<close>

definition heap_and_pools_init :: "('x, 'm) main_net \<Rightarrow> ('x, 'm) main_net" where
  "heap_and_pools_init s =
     set_mem ((n_mem s)\<lparr>p_heap := mem_init (ram (p_heap (n_mem s))), p_pools := memp_init (p_pools (n_mem s))\<rparr>) s"

text \<open>The other init functions that \<open>lwip_init\<close> calls are empty in this configuration.\<close>

definition lwip_init :: "('x, 'm) main_net \<Rightarrow> ('x, 'm) main_net" where
  "lwip_init s = on_timers (sys_timeouts_init (uint (LWipTime (n_dev s)))) (heap_and_pools_init s)"

definition IFNAME0 :: u8_t where "IFNAME0 = 101"
definition IFNAME1 :: u8_t where "IFNAME1 = 110"

definition MACaddr :: "u8_t list" where "MACaddr = [0, 0, 0, 0, 0, 1]"

definition ethernetif_init :: "netif \<Rightarrow> ('a eth_dev_scheme, 'm) main_net \<Rightarrow> (err_t \<times> netif \<times> ('a eth_dev_scheme, 'm) main_net) option" where
  "ethernetif_init n s =
     (let s = upd_main (\<lambda>v. v\<lparr>netif_name := (netif_name v)(nif_num n := (IFNAME0, IFNAME1))\<rparr>) s
      in case low_level_init MACaddr n (ip_dev (n_dev s)) of
           (n, d) \<Rightarrow> Some (ERR_OK, n, upd_main (\<lambda>v. v\<lparr>ip_dev := d\<rparr>) s))"

text \<open>\<open>netif\<close> is the global structure \<open>netif\<close> before the call.\<close>

definition LWIP_Init ::
    "('a eth_dev_scheme, 'm) main_link \<Rightarrow> ('a eth_dev_scheme, 'm) main_app \<Rightarrow> netif \<Rightarrow>
     ('a eth_dev_scheme, 'm) main_net \<Rightarrow> ('a eth_dev_scheme, 'm) main_net option" where
  "LWIP_Init l a netif s = do {
     let s = lwip_init (heap_and_pools_init s);
     (k, s) \<leftarrow> netif_add l a netif (Some 0) (Some 0) (Some 0) ethernetif_init s;
     let s = netif_set_default (Some 0) s;
     (e, s) \<leftarrow> dhcp_start l 0 s;
     netif_set_up l 0 s
   }"

section \<open>The main loop\<close>

text \<open>One timer of \<open>lwip_periodic_handle\<close>: \<open>get\<close> is its variable, \<open>store\<close> sets it to the current time.\<close>

definition run_due ::
    "int \<Rightarrow> (('x, 'm) main_vars_scheme \<Rightarrow> u32_t) \<Rightarrow> (u32_t \<Rightarrow> ('x, 'm) main_vars_scheme \<Rightarrow> ('x, 'm) main_vars_scheme) \<Rightarrow>
     (('x, 'm) main_net \<Rightarrow> ('x, 'm) main_net option) \<Rightarrow> ('x, 'm) main_net \<Rightarrow> ('x, 'm) main_net option" where
  "run_due interval get store f s =
     (if uint (LWipTime (n_dev s) - get (n_dev s)) \<ge> interval then f (upd_main (\<lambda>v. store (LWipTime v) v) s) else Some s)"

definition lwip_periodic_handle ::
    "('x, 'm) main_link \<Rightarrow> ('x, 'm) main_app \<Rightarrow> ('x, 'm) main_net \<Rightarrow> ('x, 'm) main_net option" where
  "lwip_periodic_handle l a s = do {
     s \<leftarrow> run_due 250 TCPTimer (\<lambda>t v. v\<lparr>TCPTimer := t\<rparr>) (tcp_tmr l a) s;
     s \<leftarrow> run_due ARP_TMR_INTERVAL ARPTimer (\<lambda>t v. v\<lparr>ARPTimer := t\<rparr>) (etharp_tmr l) s;
     s \<leftarrow> run_due DHCP_FINE_TIMER_MSECS DHCPfineTimer (\<lambda>t v. v\<lparr>DHCPfineTimer := t\<rparr>) (dhcp_fine_tmr l a) s;
     run_due DHCP_COARSE_TIMER_MSECS DHCPcoarseTimer (\<lambda>t v. v\<lparr>DHCPcoarseTimer := t\<rparr>) (dhcp_coarse_tmr l) s
   }"

text \<open>
  A run of the program after \<open>LWIP_Init\<close>: rounds of the main loop, ticks of the clock and receive interrupts, each of
  them complete.  \<open>l\<close> is a stack made by \<open>stack_of\<close>; between the steps the DMA may change the descriptors by \<open>hw\<close>.
\<close>

inductive main_step ::
    "('a eth_dev_scheme, 'm) main_link \<Rightarrow> ('a eth_dev_scheme, 'm) main_app \<Rightarrow> ('a eth_dev_scheme \<Rightarrow> 'a eth_dev_scheme \<Rightarrow> bool) \<Rightarrow>
     ('a eth_dev_scheme, 'm) main_net \<Rightarrow> ('a eth_dev_scheme, 'm) main_net \<Rightarrow> bool" for l a hw where
  loop: "lwip_periodic_handle l a s = Some s' \<Longrightarrow> main_step l a hw s s'"
| tick: "main_step l a hw s (SysTick_Handler s)"
| irq: "main_irq l s = Some s' \<Longrightarrow> main_step l a hw s s'"
| dma: "hw (ip_dev (n_dev s)) d \<Longrightarrow> main_step l a hw s (upd_main (\<lambda>v. v\<lparr>ip_dev := d\<rparr>) s)"

end
