(* ===== verification/NetifProps.thy ===== *)
theory NetifProps
  imports Netif HeaderProps
begin

text \<open>
  Operations on an interface: its addresses and its flags, when no connection has to be aborted and no packet waits for
  an address.
\<close>

declare split_paired_All [simp del] split_paired_Ex [simp del]

lemma lwip_upd_simps [simp]:
  "n_mem (upd_lwip f s) = n_mem s" "n_arp (upd_lwip f s) = n_arp s" "n_cached (upd_lwip f s) = n_cached s" "n_dev (upd_lwip f s) = f (n_dev s)"
  by (simp_all add: upd_lwip_def)

lemma upd_netif_simps [simp]:
  "n_mem (upd_netif k f s) = n_mem s" "n_arp (upd_netif k f s) = n_arp s" "n_cached (upd_netif k f s) = n_cached s"
  "netif_dhcp (n_dev (upd_netif k f s)) = netif_dhcp (n_dev s)" "dhcp_pcb (n_dev (upd_netif k f s)) = dhcp_pcb (n_dev s)"
  "udp_tab (n_dev (upd_netif k f s)) = udp_tab (n_dev s)" "ip_dev (n_dev (upd_netif k f s)) = ip_dev (n_dev s)"
  "ip_id (n_dev (upd_netif k f s)) = ip_id (n_dev s)" "dhcp_global_xid (n_dev (upd_netif k f s)) = dhcp_global_xid (n_dev s)"
  "tcp_active_pcbs (n_dev (upd_netif k f s)) = tcp_active_pcbs (n_dev s)" "tcp_listen_pcbs (n_dev (upd_netif k f s)) = tcp_listen_pcbs (n_dev s)"
  by (simp_all add: upd_netif_def)

lemma netif_of_map:
  assumes "\<And>n. nif_num (f n) = nif_num n"
  shows "netif_of j (map (\<lambda>n. if nif_num n = k then f n else n) ns) = map_option (if j = k then f else (\<lambda>n. n)) (netif_of j ns)"
  using assms by (induction ns) (auto simp: netif_of_def)

lemma the_netif_upd:
  "(\<And>n. nif_num (f n) = nif_num n) \<Longrightarrow> the_netif j (upd_netif k f s) = map_option (if j = k then f else (\<lambda>n. n)) (the_netif j s)"
  by (simp add: the_netif_def upd_netif_def netif_of_map)

lemma the_netif_num: "the_netif k s = Some n \<Longrightarrow> nif_num n = k"
  by (auto simp: the_netif_def netif_of_def find_Some_iff)

text \<open>No packet waits in the ARP table.\<close>

definition no_waiting :: "'d net \<Rightarrow> bool" where
  "no_waiting s \<longleftrightarrow> (\<forall>i<ARP_TABLE_SIZE. ae_q (entry s i) = None)"

lemma etharp_cleanup_quiet:
  "no_waiting s \<Longrightarrow> length (n_arp s) = ARP_TABLE_SIZE \<Longrightarrow> \<exists>es. etharp_cleanup_loop l netif i s = Some (s\<lparr>n_arp := es\<rparr>)"
proof (induction "ARP_TABLE_SIZE - i" arbitrary: i s)
  case 0
  then show ?case by (intro exI [of _ "n_arp s"]) (simp add: etharp_cleanup_loop.simps [of l netif i s])
next
  case (Suc n)
  have i: "i < ARP_TABLE_SIZE" "n = ARP_TABLE_SIZE - (i + 1)" using Suc by auto
  let ?s = "upd_entry i (\<lambda>e. e\<lparr>ae_state := ETHARP_STATE_EMPTY\<rparr>) s"
  have "no_waiting ?s" "length (n_arp ?s) = ARP_TABLE_SIZE"
    using Suc.prems i(1) by (simp_all add: no_waiting_def upd_entry_def nth_list_update)
  from Suc.hyps(1) [OF i(2) this] Suc.hyps(1) [OF i(2) Suc.prems] obtain es es' where
    e: "etharp_cleanup_loop l netif (i + 1) ?s = Some (?s\<lparr>n_arp := es\<rparr>)" "etharp_cleanup_loop l netif (i + 1) s = Some (s\<lparr>n_arp := es'\<rparr>)"
    by blast
  have "etharp_free_entry l i s = Some ?s" using Suc.prems(1) i(1) by (simp add: etharp_free_entry_def no_waiting_def)
  then show ?case using i(1) e by (subst (1) etharp_cleanup_loop.simps) (auto simp: upd_entry_def)
qed

lemma clear_up: "(fl AND NOT NETIF_FLAG_UP) AND NETIF_FLAG_UP = (0 :: u8_t)"
  by (rule bit_word_eqI) (auto simp: bit_simps NETIF_FLAG_UP_def)

lemma the_netif_arp [simp]: "the_netif k (s\<lparr>n_arp := es\<rparr>) = the_netif k s"
  by (simp add: the_netif_def)

lemma netif_set_down_quiet:
  assumes n: "the_netif k s = Some n" and w: "no_waiting s" "length (n_arp s) = ARP_TABLE_SIZE"
  shows "\<exists>s1 fl. netif_set_down l k s = Some s1 \<and> the_netif k s1 = Some (n\<lparr>nif_flags := fl\<rparr>) \<and> fl AND NETIF_FLAG_UP = 0 \<and>
    n_mem s1 = n_mem s \<and> ip_dev (n_dev s1) = ip_dev (n_dev s) \<and> netif_dhcp (n_dev s1) = netif_dhcp (n_dev s) \<and>
    tcp_active_pcbs (n_dev s1) = tcp_active_pcbs (n_dev s) \<and> tcp_listen_pcbs (n_dev s1) = tcp_listen_pcbs (n_dev s)"
proof (cases "nif_flags n AND NETIF_FLAG_UP = 0")
  case True
  then show ?thesis using n by (intro exI [of _ s] exI [of _ "nif_flags n"]) (simp add: netif_set_down_def)
next
  case False
  let ?s = "upd_netif k (\<lambda>b. b\<lparr>nif_flags := nif_flags b AND NOT NETIF_FLAG_UP\<rparr>) s"
  have "no_waiting ?s" "length (n_arp ?s) = ARP_TABLE_SIZE" using w by (simp_all add: no_waiting_def)
  from etharp_cleanup_quiet [OF this, of l n 0] obtain es where es: "etharp_cleanup_loop l n 0 ?s = Some (?s\<lparr>n_arp := es\<rparr>)" by blast
  have t: "the_netif k ?s = Some (n\<lparr>nif_flags := nif_flags n AND NOT NETIF_FLAG_UP\<rparr>)" using n by (simp add: the_netif_upd)
  show ?thesis
  proof (cases "nif_flags n AND NETIF_FLAG_ETHARP = 0")
    case True
    then show ?thesis using n False t clear_up
      by (intro exI [of _ ?s] exI [of _ "nif_flags n AND NOT NETIF_FLAG_UP"]) (simp add: netif_set_down_def)
  next
    case ea: False
    then show ?thesis using n False t es clear_up
      by (intro exI [of _ "?s\<lparr>n_arp := es\<rparr>"] exI [of _ "nif_flags n AND NOT NETIF_FLAG_UP"])
        (simp add: netif_set_down_def etharp_cleanup_netif_def)
  qed
qed

lemma netif_set_ipaddr_quiet:
  assumes "the_netif k s = Some n" "ip = nif_ip_addr n \<or> tcp_active_pcbs (n_dev s) = None \<and> tcp_listen_pcbs (n_dev s) = None"
  shows "netif_set_ipaddr l a k (Some ip) s = Some (upd_netif k (\<lambda>n. n\<lparr>nif_ip_addr := ip\<rparr>) s)"
  using assms by (auto simp: netif_set_ipaddr_def netif_readdress_def ip_addr_set_def netif_abort_loop.simps [of l a _ None]
      netif_listen_loop.simps [of _ _ None])

end
