(* ===== verification/DhcpFrames.thy ===== *)
theory DhcpFrames
  imports Dhcp IpProps NetifProps
begin

text \<open>
  The messages of the DHCP client: their bytes as they are built in the memory of the packet, the frame that goes into
  the transmit ring, and the memory, which is given back.
\<close>

declare split_paired_All [simp del] split_paired_Ex [simp del]

section \<open>Stores one behind the other\<close>

lemma nat_int_diff: "nat (int j - int k) = j - k"
  by arith

lemma mem_write_append:
  assumes k: "k = int (length a)"
  shows "mem_write (ptr_add h k) b (mem_write h a m) = mem_write h (a @ b) m"
proof -
  have "p_bytes (mem_write (ptr_add h k) b (mem_write h a m)) r x = p_bytes (mem_write h (a @ b) m) r x" for r x
  proof (cases "snd h \<le> x")
    case True
    then obtain j where "x = snd h + int j" using zle_iff_zadd by auto
    then show ?thesis unfolding k by (auto simp: mem_write_def ptr_add_def nth_append nat_int_diff)
  qed (simp add: mem_write_def ptr_add_def k)
  then have "p_bytes (mem_write (ptr_add h k) b (mem_write h a m)) = p_bytes (mem_write h (a @ b) m)" by blast
  then show ?thesis by (simp add: mem_write_def)
qed

lemma mem_write_within:
  assumes "0 \<le> k" "k + int (length b) \<le> int (length a)"
  shows "mem_write (ptr_add h k) b (mem_write h a m) = mem_write h (splice (nat k) b a) m"
proof -
  obtain l where k: "k = int l" using assms(1) nonneg_int_cases by blast
  have le: "l + length b \<le> length a" using assms(2) k by simp
  have len: "length (splice l b a) = length a" using le by simp
  have "p_bytes (mem_write (ptr_add h k) b (mem_write h a m)) r x = p_bytes (mem_write h (splice (nat k) b a) m) r x" for r x
  proof (cases "snd h \<le> x")
    case True
    then obtain j where "x = snd h + int j" using zle_iff_zadd by auto
    then show ?thesis using le unfolding k by (auto simp: mem_write_def ptr_add_def nth_splice len nat_int_diff)
  qed (simp add: mem_write_def ptr_add_def k)
  then have "p_bytes (mem_write (ptr_add h k) b (mem_write h a m)) = p_bytes (mem_write h (splice (nat k) b a) m)" by blast
  then show ?thesis by (simp add: mem_write_def)
qed

section \<open>The bytes of a message\<close>

text \<open>The fields before the options: the operation, kind and length of the hardware address, the transaction, the
  address of the client, three addresses that are zero, the hardware address, two empty strings and the magic cookie.\<close>

definition dhcp_ciaddr :: "netif \<Rightarrow> dhcp \<Rightarrow> u8_t \<Rightarrow> u32_t" where
  "dhcp_ciaddr n d ty = (if ty = DHCP_INFORM \<or> ty = DHCP_DECLINE \<or>
     ty = DHCP_REQUEST \<and> (d_state d = DHCP_RENEWING \<or> d_state d = DHCP_REBINDING) then nif_ip_addr n else 0)"

definition dhcp_fixed :: "u8_t list \<Rightarrow> u32_t \<Rightarrow> u32_t \<Rightarrow> u8_t list" where
  "dhcp_fixed hw xid ciaddr =
     [1, 1, of_nat (length hw), 0] @ u32_bytes (lwip_htonl xid) @ [0, 0, 0, 0] @ u32_bytes ciaddr @ [0, 0, 0, 0] @ [0, 0, 0, 0] @ [0, 0, 0, 0] @
     take 16 (hw @ replicate 16 0) @ replicate 64 0 @ replicate 128 0 @ [0x63, 0x82, 0x53, 0x63]"

lemma length_dhcp_fixed [simp]: "length (dhcp_fixed hw xid ciaddr) = 240"
  by (simp add: dhcp_fixed_def)

lemma u32_bytes_0: "u32_bytes 0 = [0, 0, 0, 0]"
  by (simp add: u32_bytes_def byte_of_def)

lemma cookie_bytes: "u32_bytes (lwip_htonl DHCP_MAGIC_COOKIE) = [0x63, 0x82, 0x53, 0x63]"
  unfolding htonl_bytes by (simp add: u32_bytes_def byte_of_def DHCP_MAGIC_COOKIE_def)

lemma pad_hwaddr: "map (\<lambda>i. if i < length hw then hw ! i else 0) [0..<k] = take k (hw @ replicate k (0 :: u8_t))"
  by (rule nth_equalityI) (auto simp: nth_append)

abbreviation filler :: "u8_t list" where
  "filler \<equiv> map of_nat [0..<68]"

lemma dhcp_fill_msg_eq:
  assumes h: "d_msg_out d = h"
  shows "dhcp_fill_msg n d ty m = mem_write h (dhcp_fixed (nif_hwaddr n) (d_xid d) (dhcp_ciaddr n d ty) @ filler) m"
proof -
  let ?a = "[1, 1, of_nat (length (nif_hwaddr n)), 0] @ u32_bytes (lwip_htonl (d_xid d)) @ [0, 0, 0, 0]"
  have again: "mem_write (ptr_add h 12) x (mem_write h (?a @ y) m) = mem_write h (?a @ x) m" if "length x = 4" "length y = 4" for x y
  proof -
    have "splice (nat 12) x (?a @ y) = ?a @ x" using that by (simp add: splice_def)
    with mem_write_within [of 12 x "?a @ y" h m] that show ?thesis by simp
  qed
  have start: "mem_write (ptr_add h 12) (u32_bytes 0) (mem_write (ptr_add h 10) (u16_bytes 0) (mem_write (ptr_add h 8) (u16_bytes 0)
      (mem_write (ptr_add h 4) (u32_bytes (lwip_htonl (d_xid d))) (mem_write (ptr_add h 3) [0]
      (mem_write (ptr_add h 2) [of_nat (length (nif_hwaddr n))] (mem_write (ptr_add h 1) [DHCP_HTYPE_ETH] (mem_write (ptr_add h 0) [DHCP_BOOTREQUEST] m)))))))
    = mem_write h (?a @ u32_bytes 0) m"
    by (simp add: mem_write_append u16_bytes_0 DHCP_HTYPE_ETH_def DHCP_BOOTREQUEST_def)
  have ci: "(if ty = DHCP_INFORM \<or> ty = DHCP_DECLINE \<or> ty = DHCP_REQUEST \<and> (d_state d = DHCP_RENEWING \<or> d_state d = DHCP_REBINDING)
      then mem_write (ptr_add h 12) (u32_bytes (nif_ip_addr n)) (mem_write h (?a @ u32_bytes 0) m) else mem_write h (?a @ u32_bytes 0) m)
    = mem_write h (?a @ u32_bytes (dhcp_ciaddr n d ty)) m"
    unfolding dhcp_ciaddr_def
    by (cases "ty = DHCP_INFORM \<or> ty = DHCP_DECLINE \<or> ty = DHCP_REQUEST \<and> (d_state d = DHCP_RENEWING \<or> d_state d = DHCP_REBINDING)")
      (simp_all only: if_True if_False again length_u_bytes)
  show ?thesis
    unfolding dhcp_fill_msg_def Let_def h put8_def put16_def put32_def dhcp_offsets ptr_add_add(1) pad_hwaddr start ci
    by (simp add: mem_write_append dhcp_fixed_def u32_bytes_0 cookie_bytes)
qed

section \<open>The options\<close>

text \<open>A message at \<open>h\<close> with the fields \<open>fx\<close> and the options \<open>os\<close> so far.\<close>

definition out_state :: "dhcp \<Rightarrow> ptr \<Rightarrow> u8_t list \<Rightarrow> pstate \<Rightarrow> u8_t list \<Rightarrow> dhcp_out" where
  "out_state d h fx m os =
     (d\<lparr>d_msg_out := h, d_options_out_len := int (length os)\<rparr>, mem_write h (fx @ os @ drop (length os) filler) m)"

lemma dhcp_option_byte_out:
  assumes "length fx = 240" "length os < 68"
  shows "dhcp_option_byte v (out_state d h fx m os) = out_state d h fx m (os @ [v])"
proof -
  let ?r = "drop (length os) filler"
  have e: "DHCP_OPTIONS_OFS + int (length os) = int (240 + length os)" by (simp add: dhcp_offsets)
  have "splice (240 + length os) [v] (fx @ os @ ?r) = fx @ (os @ [v]) @ drop (length (os @ [v])) filler"
    using assms by (simp add: splice_def)
  then have "mem_write (ptr_add h (int (240 + length os))) [v] (mem_write h (fx @ os @ ?r) m)
      = mem_write h (fx @ (os @ [v]) @ drop (length (os @ [v])) filler) m"
    using assms mem_write_within [of "int (240 + length os)" "[v]" "fx @ os @ ?r" h m] by (simp only: nat_int) simp
  moreover have "c_u16 (int (length os) + 1) = int (length (os @ [v]))" using assms by (simp add: c_u16_id)
  ultimately show ?thesis by (simp add: out_state_def put8_def e del: append_assoc of_nat_add)
qed

text \<open>What a sequence of options of \<open>k\<close> bytes adds, when they fit.\<close>

definition emits :: "(dhcp_out \<Rightarrow> dhcp_out) \<Rightarrow> u8_t list \<Rightarrow> bool" where
  "emits f os \<longleftrightarrow> (\<forall>d h fx m xs. length fx = 240 \<longrightarrow> length xs + length os \<le> 68 \<longrightarrow>
     f (out_state d h fx m xs) = out_state d h fx m (xs @ os))"

lemma emits_byte: "emits (dhcp_option_byte v) [v]"
  by (simp add: emits_def dhcp_option_byte_out)

lemma emits_comp: "emits g ys \<Longrightarrow> emits f zs \<Longrightarrow> emits (\<lambda>o1. f (g o1)) (ys @ zs)"
  by (simp add: emits_def)

lemma emits_nop: "emits (\<lambda>o1. o1) []"
  by (simp add: emits_def)

lemma emits_o: "emits g ys \<Longrightarrow> emits f zs \<Longrightarrow> emits (f \<circ> g) (ys @ zs)"
  by (simp add: emits_def)

lemma emits_option: "emits (dhcp_option ty n) [ty, n]"
  unfolding dhcp_option_def using emits_comp [OF emits_byte emits_byte] by simp

lemma emits_short: "emits (dhcp_option_short w) (rev (u16_bytes w))"
proof -
  have "ucast (drop_bit 8 (w AND 0xff00)) = byte_of 1 w" "ucast (w AND 0xff) = byte_of 0 w"
    by (rule bit_word_eqI; simp only: bit_unsigned_iff bit_drop_bit_eq bit_and_iff comp_def bit_consts bit_byte_of;
      auto simp: add.commute dest: bit_imp_le_length)+
  then show ?thesis unfolding dhcp_option_short_def using emits_comp [OF emits_byte emits_byte] by (simp add: u16_bytes_def)
qed

lemma emits_long: "emits (dhcp_option_long w) (rev (u32_bytes w))"
proof -
  have "ucast (drop_bit 24 (w AND 0xff000000)) = byte_of 3 w" "ucast (drop_bit 16 (w AND 0x00ff0000)) = byte_of 2 w"
    "ucast (drop_bit 8 (w AND 0xff00)) = byte_of 1 w" "ucast (w AND 0xff) = byte_of 0 w"
    by (rule bit_word_eqI; simp only: bit_unsigned_iff bit_drop_bit_eq bit_and_iff comp_def bit_consts bit_byte_of;
      auto simp: add.commute dest: bit_imp_le_length)+
  then show ?thesis
    unfolding dhcp_option_long_def using emits_comp [OF emits_comp [OF emits_comp [OF emits_byte emits_byte] emits_byte] emits_byte]
    by (simp add: u32_bytes_def)
qed

lemma emits_max_msg_size: "emits (opt_max_msg_size mtu) ([57, 2] @ rev (u16_bytes (word_of_int mtu)))"
  unfolding opt_max_msg_size_def using emits_comp [OF emits_option emits_short] by (simp add: DHCP_OPTION_MAX_MSG_SIZE_def)

lemma emits_address: "emits (opt_address ty w) ([ty, 4] @ u32_bytes w)"
proof -
  have "rev (u32_bytes (lwip_ntohl w)) = u32_bytes w" using htonl_bytes [of w] by (simp add: lwip_ntohl_def)
  then show ?thesis unfolding opt_address_def using emits_comp [OF emits_option emits_long] by metis
qed

lemma emits_request_list: "emits opt_request_list [55, 4, 1, 3, 28, 6]"
proof -
  note e = emits_comp [OF emits_comp [OF emits_comp [OF emits_comp [OF emits_option emits_byte] emits_byte] emits_byte] emits_byte]
  show ?thesis unfolding opt_request_list_def dhcp_options using e by simp
qed

text \<open>The trailer ends the options and fills them up to 68 bytes.\<close>

lemma out_len: "d_options_out_len (fst (out_state d h fx m os)) = int (length os)"
  by (simp add: out_state_def)

lemma dhcp_pad_out:
  assumes fx: "length fx = 240"
  shows "length os \<le> 68 \<Longrightarrow> dhcp_pad (out_state d h fx m os) = out_state d h fx m (os @ replicate (68 - length os) 0)"
proof (induction "68 - length os" arbitrary: os)
  case 0
  then show ?case by (simp add: dhcp_pad.simps [of "out_state d h fx m os"] out_len dhcp_offsets)
next
  case (Suc k)
  then have l: "length os < 68" by simp
  have r: "68 - length os = Suc (68 - length (os @ [0]))" using l by simp
  have "dhcp_pad (out_state d h fx m os) = dhcp_pad (out_state d h fx m (os @ [0]))"
    using l by (subst dhcp_pad.simps) (simp add: dhcp_option_byte_out [OF fx l] out_len dhcp_offsets)
  also have "\<dots> = out_state d h fx m ((os @ [0]) @ replicate (68 - length (os @ [0])) 0)"
    using Suc.hyps(2) l by (intro Suc.hyps(1)) simp_all
  finally show ?case unfolding r by simp
qed

lemma dhcp_option_trailer_out:
  assumes "length fx = 240" "length os < 68"
  shows "dhcp_option_trailer (out_state d h fx m os) = out_state d h fx m (os @ [255] @ replicate (67 - length os) 0)"
  using assms by (simp add: dhcp_option_trailer_def DHCP_OPTION_END_def dhcp_option_byte_out dhcp_pad_out)

section \<open>Down to the ring\<close>

lemma udp_sendto_if_run:
  fixes s :: "('a eth_dev_scheme, 'm) udp_net"
  assumes c: "can_send l netif dst mac fs s" and h: "headroom (n_mem s) p ps 42"
    and b: "u_local_port (upcb s i) \<noteq> 0" "u_local_ip (upcb s i) = IPADDR_ANY \<or> u_local_ip (upcb s i) = nif_ip_addr netif"
    and mtu: "nif_mtu netif \<noteq> 0 \<longrightarrow> tot (n_mem s) (p # ps) + 28 \<le> nif_mtu netif"
    and max: "tot (n_mem s) (p # ps) + 42 \<le> ETH_MAX_PACKET_SIZE"
  shows "\<exists>m k d. udp_sendto_if l i p dst port netif s =
      Some (ERR_OK, s\<lparr>n_mem := m, n_cached := k, n_dev := (n_dev s)\<lparr>ip_id := c_u16 (ip_id (n_dev s) + 1), ip_dev := d\<rparr>\<rparr>) \<and>
    kept (n_mem s) m \<and>
    eth_queue d (fs @ [mac @ nif_hwaddr netif @ [0x08, 0x00] @
      ip_header_bytes (nif_ip_addr netif) dst (u_ttl (upcb s i)) (u_tos (upcb s i)) 17 (tot (n_mem s) (p # ps) + 28) (ip_id (n_dev s)) @
      udp_header_bytes (u_local_port (upcb s i)) port (tot (n_mem s) (p # ps) + 8) @ data (n_mem s) (p # ps)])"
proof -
  let ?src = "nif_ip_addr netif" let ?n = "tot (n_mem s) (p # ps)"
  obtain m1 where m1: "udp_sendto_if l i p dst port netif s =
      ip_output_if l p ?src (Some dst) (u_ttl (upcb s i)) (u_tos (upcb s i)) IP_PROTO_UDP netif (set_mem m1 s)"
    "headroom m1 p ps 34" "kept (n_mem s) m1" "tot m1 (p # ps) = ?n + 8"
    "data m1 (p # ps) = udp_header_bytes (u_local_port (upcb s i)) port (?n + 8) @ data (n_mem s) (p # ps)"
    using udp_sendto_if_sends [of s p ps 34 i netif l dst port] h b by (simp del: data_simps tot.simps) blast
  have a1: "headroom (n_mem (set_mem m1 s)) p ps (14 + 20)" "nif_mtu netif \<noteq> 0 \<longrightarrow> tot (n_mem (set_mem m1 s)) (p # ps) + 20 \<le> nif_mtu netif"
    using m1(2) mtu unfolding set_mem_simps m1(4) by auto
  have t1: "tot m1 (p # ps) + 20 = ?n + 28" using m1(4) by simp
  have self: "(if ?src = IPADDR_ANY then nif_ip_addr netif else ?src) = ?src" by simp
  obtain m2 where m2: "ip_output_if l p ?src (Some dst) (u_ttl (upcb s i)) (u_tos (upcb s i)) IP_PROTO_UDP netif (set_mem m1 s) =
      etharp_output l netif p dst (upd_ip (\<lambda>v. v\<lparr>ip_id := c_u16 (ip_id v + 1)\<rparr>) (set_mem m2 (set_mem m1 s)))"
    "headroom m2 p ps 14" "kept m1 m2" "tot m2 (p # ps) = ?n + 28"
    "data m2 (p # ps) = ip_header_bytes ?src dst (u_ttl (upcb s i)) (u_tos (upcb s i)) IP_PROTO_UDP (?n + 28) (ip_id (n_dev s)) @ data m1 (p # ps)"
    using ip_output_if_sends [OF a1(1) _ a1(2), of l ?src dst "u_ttl (upcb s i)" "u_tos (upcb s i)" IP_PROTO_UDP]
    unfolding set_mem_simps self t1 by auto
  let ?s = "upd_ip (\<lambda>v. v\<lparr>ip_id := c_u16 (ip_id v + 1)\<rparr>) (set_mem m2 (set_mem m1 s))"
  have s: "n_mem ?s = m2" "n_arp ?s = n_arp s" "n_cached ?s = n_cached s" "n_dev ?s = (n_dev s)\<lparr>ip_id := c_u16 (ip_id (n_dev s) + 1)\<rparr>"
    by (simp_all add: upd_ip_def set_mem_def)
  have c': "arp_ok (n_arp ?s)" "n_cached ?s < ARP_TABLE_SIZE" "link_dest netif (n_arp ?s) dst mac" "length mac = 6" "length (nif_hwaddr netif) = 6"
    "linkoutput l = ip_linkoutput" "eth_queue (ip_dev (n_dev s)) fs" "length fs < ETH_TXBUFNB"
    using c by (simp_all add: can_send_def ip_queue_def s)
  have hr: "headroom (n_mem ?s) p ps 14" using m2(2) unfolding s(1) .
  have mx: "tot (n_mem ?s) (p # ps) + 14 \<le> 65535" using max m2(4) unfolding s(1) by (simp add: ETH_MAX_PACKET_SIZE_def)
  obtain m k where m: "packet m (Some p) (p # ps)" "data m (p # ps) = mac @ nif_hwaddr netif @ [0x08, 0x00] @ data m2 (p # ps)" "kept m2 m"
    "etharp_output l netif p dst ?s = (case linkoutput l p m (n_dev ?s) of None \<Rightarrow> None
       | Some (e, d) \<Rightarrow> Some (e, ?s\<lparr>n_mem := m, n_cached := k, n_dev := d\<rparr>))"
    using etharp_output_sends [OF c'(1-5) headroom_etharp(1) [OF hr] mx headroom_etharp(2-4) [OF hr], of l] unfolding s(1) by blast
  have "int (length (data m (p # ps))) = tot m (p # ps)" "int (length (data m2 (p # ps))) = tot m2 (p # ps)"
    using packet_length [OF m(1)] packet_length [OF headroom_etharp(1) [OF m2(2)]] .
  then have "tot m (p # ps) = tot m2 (p # ps) + 14"
    using arg_cong [OF m(2), of length] c'(4,5) by (simp only: length_append list.size)
  then have tm: "tot m (p # ps) \<le> ETH_MAX_PACKET_SIZE" using max m2(4) by simp
  obtain d where d: "low_level_output p m (ip_dev (n_dev s)) = Some (ERR_OK, d)" "eth_queue d (fs @ [data m (p # ps)])"
    using eth.accepts [OF c'(7,8) m(1) tm] by blast
  have lo: "linkoutput l p m (n_dev ?s) = Some (ERR_OK, (n_dev ?s)\<lparr>ip_dev := d\<rparr>)"
    using d(1) c'(6) by (simp add: ip_linkoutput_def s)
  have "?s\<lparr>n_mem := m, n_cached := k, n_dev := (n_dev ?s)\<lparr>ip_dev := d\<rparr>\<rparr> =
      s\<lparr>n_mem := m, n_cached := k, n_dev := (n_dev s)\<lparr>ip_id := c_u16 (ip_id (n_dev s) + 1), ip_dev := d\<rparr>\<rparr>"
    by (simp add: upd_ip_def set_mem_def)
  then have run: "udp_sendto_if l i p dst port netif s =
      Some (ERR_OK, s\<lparr>n_mem := m, n_cached := k, n_dev := (n_dev s)\<lparr>ip_id := c_u16 (ip_id (n_dev s) + 1), ip_dev := d\<rparr>\<rparr>)"
    unfolding m1(1) m2(1) m(4) lo by simp
  have kp: "kept (n_mem s) m" using kept_trans [OF kept_trans [OF m1(3) m2(3)] m(3)] .
  have dt: "data m (p # ps) = mac @ nif_hwaddr netif @ [0x08, 0x00] @
      ip_header_bytes ?src dst (u_ttl (upcb s i)) (u_tos (upcb s i)) 17 (?n + 28) (ip_id (n_dev s)) @
      udp_header_bytes (u_local_port (upcb s i)) port (?n + 8) @ data (n_mem s) (p # ps)"
    unfolding m(2) m2(5) m1(5) IP_PROTO_UDP_def append_assoc ..
  show ?thesis using run kp d(2) unfolding dt by (intro exI [of _ m] exI [of _ k] exI [of _ d] conjI)
qed

section \<open>The packet of a message\<close>

lemma ram_pbuf_headroom:
  assumes n: "0 < n" "n \<le> 65000"
  shows "headroom (ram_pbuf PBUF_TRANSPORT n a h m) (RHeap, a) [] 42" "tot (ram_pbuf PBUF_TRANSPORT n a h m) [(RHeap, a)] = n"
    "pb_data (ram_pbuf PBUF_TRANSPORT n a h m) (RHeap, a) = read_bytes (pb_payload (p_pbufs (ram_pbuf PBUF_TRANSPORT n a h m) (RHeap, a))) n m"
proof -
  let ?m = "ram_pbuf PBUF_TRANSPORT n a h m" let ?p = "LWIP_MEM_ALIGN_SIZE (a + SIZEOF_STRUCT_PBUF + 54)"
  have p: "a + 70 \<le> ?p" using align_size_bounds [of "a + SIZEOF_STRUCT_PBUF + 54"] by (simp add: pbuf_consts)
  have "distinct (span (RHeap, ?p - 42) (42 + n))" by (rule distinct_span)
  then have d: "distinct (span (RHeap, ?p - 42) 42 @ span (RHeap, ?p) n)"
    using span_append [of 42 n "(RHeap, ?p - 42)"] n by (simp add: ptr_add_def)
  have b: "p_pbufs ?m (RHeap, a) = (p_pbufs m (RHeap, a))\<lparr>pb_payload := (RHeap, ?p), pb_len := n, pb_tot_len := n, pb_next := None,
      pb_type := PBUF_RAM, pb_ref := 1, pb_flags := 0\<rparr>" by (simp add: ram_pbuf_def)
  show "headroom ?m (RHeap, a) [] 42"
    using n p d by (simp add: headroom_def packet_def b pb_addrs_def ptr_add_def pbuf_consts)
  show "tot ?m [(RHeap, a)] = n" by (simp add: b)
  show "pb_data ?m (RHeap, a) = read_bytes (pb_payload (p_pbufs ?m (RHeap, a))) n m"
    by (simp add: pb_data_def b read_bytes_def) (simp add: ram_pbuf_def)
qed

lemma free_ram_pbuf:
  assumes "kept m1 m" "pb_next (p_pbufs m1 (RHeap, a)) = None" "pb_type (p_pbufs m1 (RHeap, a)) = PBUF_RAM"
    "pb_flags (p_pbufs m1 (RHeap, a)) = 0" "pb_ref (p_pbufs m1 (RHeap, a)) = 1"
  shows "\<exists>m'. pbuf_free cf (Some (RHeap, a)) m = Some (1, m') \<and> p_heap m' = mem_free (Some a) (p_heap m1) \<and> p_pools m' = p_pools m1"
proof -
  have k: "pb_next (p_pbufs m (RHeap, a)) = None" "pb_type (p_pbufs m (RHeap, a)) = PBUF_RAM" "pb_flags (p_pbufs m (RHeap, a)) = 0"
    "pb_ref (p_pbufs m (RHeap, a)) = 1" "p_heap m = p_heap m1" "p_pools m = p_pools m1"
    using assms by (simp_all add: kept_def)
  have "chain m (Some (RHeap, a)) [(RHeap, a)]" "refs_ok m [(RHeap, a)]" using k by (simp_all add: refs_ok_def stored_def)
  from pbuf_free_spec [OF this, of cf] k show ?thesis by (simp add: sole_def drop_ref_def give_back_def)
qed

section \<open>A message from its creation to its release\<close>

definition dhcp_frame :: "netif \<Rightarrow> u8_t list \<Rightarrow> u32_t \<Rightarrow> int \<Rightarrow> udp_pcb \<Rightarrow> u32_t \<Rightarrow> u32_t \<Rightarrow> u8_t list \<Rightarrow> u8_t list" where
  "dhcp_frame n mac dst ident b xid ciaddr os =
     mac @ nif_hwaddr n @ [0x08, 0x00] @ ip_header_bytes (nif_ip_addr n) dst (u_ttl b) (u_tos b) 17 336 ident @
     udp_header_bytes (u_local_port b) 67 316 @
     dhcp_fixed (nif_hwaddr n) xid ciaddr @ os @ [255] @ replicate (67 - length os) 0"

definition next_xid :: "dhcp \<Rightarrow> u32_t \<Rightarrow> u32_t" where
  "next_xid d xid = (if d_tries d = 0 then xid + 1 else xid)"

text \<open>A client whose interface can send to \<open>dst\<close>, over a sound heap and a control block bound to a port.\<close>

definition dhcp_can_send ::
    "('a eth_dev_scheme, 'm) lwip_link \<Rightarrow> netif \<Rightarrow> u32_t \<Rightarrow> u8_t list \<Rightarrow> u8_t list list \<Rightarrow> nat \<Rightarrow> ('a eth_dev_scheme, 'm) lwip_net \<Rightarrow> bool" where
  "dhcp_can_send l n dst mac fs i s \<longleftrightarrow> can_send l n dst mac fs s \<and> 336 \<le> nif_mtu n \<and>
     u_local_port (upcb s i) \<noteq> 0 \<and> u_local_ip (upcb s i) = IPADDR_ANY"

lemma dhcp_message_full:
  assumes "mem_malloc 380 (p_heap (n_mem s)) = Some (None, h)"
  shows "dhcp_message l n ty opts dst pcb d s = Some (ERR_MEM, d\<lparr>d_p_out := None\<rparr>, set_mem ((n_mem s)\<lparr>p_heap := h\<rparr>) s)"
proof -
  have e: "c_u16 (ram_size PBUF_TRANSPORT 308) = 380" by (simp add: ram_size_def LWIP_MEM_ALIGN_SIZE_eq pbuf_consts c_u16_id)
  have "pbuf_alloc (custom_free l) PBUF_TRANSPORT SIZEOF_DHCP_MSG PBUF_RAM (n_mem s) = Some (None, (n_mem s)\<lparr>p_heap := h\<rparr>)"
    using pbuf_alloc_ram_eq [of PBUF_TRANSPORT 308 "n_mem s" None h "custom_free l"] assms e by (simp add: dhcp_offsets)
  then show ?thesis by (simp add: dhcp_message_def dhcp_create_msg_def Let_def)
qed

lemma dhcp_message_run:
  fixes s :: "('a eth_dev_scheme, 'm) lwip_net"
  assumes c: "dhcp_can_send l n dst mac fs i s" and bs: "heap_inv (p_heap (n_mem s)) bs"
    and al: "mem_malloc 380 (p_heap (n_mem s)) = Some (Some a, h)"
    and os: "emits opts os" "length os \<le> 64"
  shows "\<exists>m k dv. dhcp_message l n ty opts dst (Some i) d s =
      Some (ERR_OK, d\<lparr>d_xid := next_xid d (dhcp_global_xid (n_dev s)), d_p_out := None, d_msg_out := NULL, d_options_out_len := 68\<rparr>,
        s\<lparr>n_mem := m, n_cached := k, n_dev := (n_dev s)\<lparr>dhcp_global_xid := next_xid d (dhcp_global_xid (n_dev s)),
          ip_id := c_u16 (ip_id (n_dev s) + 1), ip_dev := dv\<rparr>\<rparr>) \<and>
    heap_inv (p_heap m) bs \<and> p_pools m = p_pools (n_mem s) \<and>
    eth_queue dv (fs @ [dhcp_frame n mac dst (ip_id (n_dev s)) (upcb s i) (next_xid d (dhcp_global_xid (n_dev s)))
      (dhcp_ciaddr n d ty) ([53, 1, ty] @ os)])"
proof -
  let ?p = "(RHeap, a) :: ptr" let ?xid = "next_xid d (dhcp_global_xid (n_dev s))"
  let ?fx = "dhcp_fixed (nif_hwaddr n) ?xid (dhcp_ciaddr n d ty)" let ?os = "([53, 1, ty] @ os) @ [255] @ replicate (67 - length ([53, 1, ty] @ os)) 0"
  define m0 where "m0 = ram_pbuf PBUF_TRANSPORT 308 a h (n_mem s)"
  define q where "q = pb_payload (p_pbufs m0 ?p)"
  define s1 where "s1 = (s\<lparr>n_dev := (n_dev s)\<lparr>dhcp_global_xid := ?xid\<rparr>\<rparr> :: ('a eth_dev_scheme, 'm) lwip_net)"
  define d1 where "d1 = d\<lparr>d_p_out := Some ?p, d_xid := ?xid, d_msg_out := q, d_options_out_len := 0\<rparr>"
  define m1 where "m1 = mem_write q (?fx @ ?os) m0"
  have e: "c_u16 (ram_size PBUF_TRANSPORT 308) = 380" by (simp add: ram_size_def LWIP_MEM_ALIGN_SIZE_eq pbuf_consts c_u16_id)
  have alloc: "pbuf_alloc (custom_free l) PBUF_TRANSPORT SIZEOF_DHCP_MSG PBUF_RAM (n_mem s) = Some (Some ?p, m0)"
    using pbuf_alloc_ram_eq [of PBUF_TRANSPORT 308 "n_mem s" "Some a" h "custom_free l"] al e by (simp add: dhcp_offsets m0_def)
  have fill: "(d1, dhcp_fill_msg n d1 ty m0) = out_state d1 q ?fx m0 []"
    using dhcp_fill_msg_eq [of d1 q n ty m0] by (simp add: out_state_def d1_def dhcp_ciaddr_def)
  have first: "dhcp_option_byte ty (dhcp_option DHCP_OPTION_MESSAGE_TYPE 1 (out_state d1 q ?fx m0 [])) = out_state d1 q ?fx m0 [53, 1, ty]"
    using emits_comp [OF emits_option [of DHCP_OPTION_MESSAGE_TYPE 1] emits_byte [of ty]]
    by (simp add: emits_def DHCP_OPTION_MESSAGE_TYPE_def)
  have bump: "(if d_tries (d\<lparr>d_p_out := Some ?p\<rparr>) = 0 then upd_lwip (\<lambda>v. v\<lparr>dhcp_global_xid := dhcp_global_xid v + 1\<rparr>) (set_mem m0 s)
      else set_mem m0 s) = set_mem m0 s1"
    by (simp add: s1_def next_xid_def upd_lwip_def set_mem_def)
  have d1: "d\<lparr>d_p_out := Some ?p, d_xid := dhcp_global_xid (n_dev (set_mem m0 s1)), d_msg_out := pb_payload (p_pbufs m0 ?p), d_options_out_len := 0\<rparr> = d1"
    by (simp add: d1_def q_def s1_def)
  have create: "dhcp_create_msg l n ty d s = (case out_state d1 q ?fx m0 [53, 1, ty] of (d2, m) \<Rightarrow> Some (ERR_OK, d2, set_mem m (set_mem m0 s1)))"
    unfolding dhcp_create_msg_def alloc Option.bind.simps prod.case option.case Let_def bump d1 fill first ..
  have twice: "set_mem m' (set_mem m'' s') = set_mem m' s'" for m' m'' and s' :: "('a eth_dev_scheme, 'm) lwip_net"
    by (simp add: set_mem_def)
  define d2 where "d2 = d1\<lparr>d_msg_out := q, d_options_out_len := 68\<rparr>"
  have trailer: "dhcp_option_trailer (opts (out_state d1 q ?fx m0 [53, 1, ty])) = (d2, m1)"
  proof -
    have "opts (out_state d1 q ?fx m0 [53, 1, ty]) = out_state d1 q ?fx m0 ([53, 1, ty] @ os)"
      using os by (simp add: emits_def)
    moreover have "length ([53, 1, ty] @ os) < 68" using os(2) by simp
    ultimately have "dhcp_option_trailer (opts (out_state d1 q ?fx m0 [53, 1, ty])) = out_state d1 q ?fx m0 ?os"
      using dhcp_option_trailer_out [of ?fx "[53, 1, ty] @ os"] by simp
    moreover have "length ?os = 68" using os(2) by simp
    ultimately show ?thesis by (simp add: out_state_def d2_def m1_def)
  qed
  have message: "dhcp_message l n ty opts dst (Some i) d s =
      do { (d, s) \<leftarrow> dhcp_send l n (Some i) dst d2 (set_mem m1 s1); Some (ERR_OK, d, s) }"
    using trailer unfolding dhcp_message_def create
    by (cases "out_state d1 q ?fx m0 [53, 1, ty]") (simp add: twice)
  have pos: "0 < (308 :: int)" "(308 :: int) \<le> 65000" by simp_all
  note ram = ram_pbuf_headroom(1,2) [OF pos, of a h "n_mem s", folded m0_def]
  have w: "writes (span q 308) (?fx @ ?os) m0 m1"
    using mem_write_writes [of q "?fx @ ?os" m0] os(2) by (simp add: m1_def)
  have len: "pb_len (p_pbufs m0 ?p) = 308" by (simp add: m0_def ram_pbuf_def)
  have "int (length (data m0 [?p])) = 308" using packet_length [of m0 "Some ?p" "[?p]"] ram unfolding headroom_def by metis
  then have none: "drop (nat 308) (data m0 [?p]) = []" by (simp del: data_simps)
  have hr: "headroom m1 ?p [] 42" "data m1 [?p] = ?fx @ ?os" "tot m1 [?p] = 308"
    using write_header [OF ram(1) _ _ w [unfolded q_def]] len ram(2) unfolding none
    by (simp_all del: data_simps tot.simps)
  have real: "pbuf_realloc (custom_free l) ?p (c_u16 (SIZEOF_DHCP_MSG - DHCP_OPTIONS_LEN + d_options_out_len d2)) (n_mem (set_mem m1 s1)) = Some m1"
    using hr(1) headroom_tot [OF hr(1)] hr(3) by (simp add: pbuf_realloc_def d2_def dhcp_offsets c_u16_id del: tot.simps)
  have send: "can_send l n dst mac fs (set_mem m1 s1)" "u_local_port (upcb (set_mem m1 s1) i) \<noteq> 0"
    "u_local_ip (upcb (set_mem m1 s1) i) = IPADDR_ANY \<or> u_local_ip (upcb (set_mem m1 s1) i) = nif_ip_addr n"
    "upcb (set_mem m1 s1) i = upcb s i" "ip_id (n_dev (set_mem m1 s1)) = ip_id (n_dev s)"
    using c by (simp_all add: dhcp_can_send_def can_send_def ip_queue_def set_mem_def s1_def)
  have room: "headroom (n_mem (set_mem m1 s1)) ?p [] 42" "tot (n_mem (set_mem m1 s1)) [?p] = 308" "data (n_mem (set_mem m1 s1)) [?p] = ?fx @ ?os"
    "nif_mtu n \<noteq> 0 \<longrightarrow> tot (n_mem (set_mem m1 s1)) [?p] + 28 \<le> nif_mtu n" "tot (n_mem (set_mem m1 s1)) [?p] + 42 \<le> ETH_MAX_PACKET_SIZE"
    using hr c unfolding set_mem_simps by (simp_all add: dhcp_can_send_def ETH_MAX_PACKET_SIZE_def del: data_simps tot.simps)
  obtain m k dv where m: "udp_sendto_if l i ?p dst DHCP_SERVER_PORT n (set_mem m1 s1) =
      Some (ERR_OK, (set_mem m1 s1)\<lparr>n_mem := m, n_cached := k, n_dev := (n_dev (set_mem m1 s1))\<lparr>ip_id := c_u16 (ip_id (n_dev s) + 1), ip_dev := dv\<rparr>\<rparr>)"
    "kept m1 m"
    "eth_queue dv (fs @ [mac @ nif_hwaddr n @ [0x08, 0x00] @ ip_header_bytes (nif_ip_addr n) dst (u_ttl (upcb s i)) (u_tos (upcb s i)) 17 (308 + 28) (ip_id (n_dev s)) @
      udp_header_bytes (u_local_port (upcb s i)) DHCP_SERVER_PORT (308 + 8) @ ?fx @ ?os])"
    using udp_sendto_if_run [OF send(1) room(1) send(2,3) room(4,5), of DHCP_SERVER_PORT] unfolding set_mem_simps(1) hr(2,3) send(4,5) by blast
  have ref: "pb_next (p_pbufs m1 ?p) = None" "pb_type (p_pbufs m1 ?p) = PBUF_RAM" "pb_flags (p_pbufs m1 ?p) = 0" "pb_ref (p_pbufs m1 ?p) = 1"
    "p_heap m1 = h" "p_pools m1 = p_pools (n_mem s)"
    by (simp_all add: m1_def m0_def ram_pbuf_def)
  obtain m' where m': "pbuf_free (custom_free l) (Some ?p) m = Some (1, m')" "p_heap m' = mem_free (Some a) h" "p_pools m' = p_pools (n_mem s)"
    using free_ram_pbuf [OF m(2) ref(1-4), of "custom_free l"] unfolding ref(5,6) by blast
  define s2 where "s2 = s\<lparr>n_mem := m', n_cached := k, n_dev := (n_dev s)\<lparr>dhcp_global_xid := ?xid, ip_id := c_u16 (ip_id (n_dev s) + 1), ip_dev := dv\<rparr>\<rparr>"
  have p2: "d_p_out d2 = Some ?p" by (simp add: d2_def d1_def)
  have freed: "free_mem l (Some ?p) ((set_mem m1 s1)\<lparr>n_mem := m, n_cached := k, n_dev := (n_dev (set_mem m1 s1))\<lparr>ip_id := c_u16 (ip_id (n_dev s) + 1), ip_dev := dv\<rparr>\<rparr>) = Some s2"
    using m'(1) by (simp add: free_mem_def s2_def s1_def set_mem_def)
  have "dhcp_send l n (Some i) dst d2 (set_mem m1 s1) = Some (d2\<lparr>d_p_out := None, d_msg_out := NULL\<rparr>, s2)"
    unfolding dhcp_send_def p2 Option.bind.simps real twice m(1) prod.case dhcp_delete_msg_def option.case freed ..
  then have "dhcp_message l n ty opts dst (Some i) d s = Some (ERR_OK, d2\<lparr>d_p_out := None, d_msg_out := NULL\<rparr>, s2)"
    unfolding message by simp
  moreover have "d2\<lparr>d_p_out := None, d_msg_out := NULL\<rparr> = d\<lparr>d_xid := ?xid, d_p_out := None, d_msg_out := NULL, d_options_out_len := 68\<rparr>"
    by (simp add: d2_def d1_def)
  moreover have "heap_inv (p_heap m') bs" using mem_malloc_free_roundtrip [OF bs al] m'(2) by simp
  moreover have "(67 - length ([53, 1, ty] @ os)) = 64 - length os" by simp
  ultimately show ?thesis using m(3) m'(3) unfolding s2_def dhcp_frame_def
    by (intro exI [of _ m'] exI [of _ k] exI [of _ dv]) (simp add: DHCP_SERVER_PORT_def)
qed
section \<open>Requests\<close>

lemma upd_dhcp_simps [simp]:
  "n_mem (upd_dhcp k f s) = n_mem s" "n_arp (upd_dhcp k f s) = n_arp s" "n_cached (upd_dhcp k f s) = n_cached s"
  "the_netif j (upd_dhcp k f s) = the_netif j s" "dhcp_pcb (n_dev (upd_dhcp k f s)) = dhcp_pcb (n_dev s)"
  "udp_tab (n_dev (upd_dhcp k f s)) = udp_tab (n_dev s)" "ip_dev (n_dev (upd_dhcp k f s)) = ip_dev (n_dev s)"
  "ip_id (n_dev (upd_dhcp k f s)) = ip_id (n_dev s)" "netif_list (n_dev (upd_dhcp k f s)) = netif_list (n_dev s)"
  "dhcp_global_xid (n_dev (upd_dhcp k f s)) = dhcp_global_xid (n_dev s)"
  "dhcp_rx_options_given (n_dev (upd_dhcp k f s)) = dhcp_rx_options_given (n_dev s)"
  "dhcp_rx_options_val (n_dev (upd_dhcp k f s)) = dhcp_rx_options_val (n_dev s)"
  "tcp_active_pcbs (n_dev (upd_dhcp k f s)) = tcp_active_pcbs (n_dev s)" "tcp_listen_pcbs (n_dev (upd_dhcp k f s)) = tcp_listen_pcbs (n_dev s)"
  "the_dhcp k (upd_dhcp k f s) = map_option f (the_dhcp k s)"
  by (simp_all add: upd_dhcp_def the_netif_def the_dhcp_def)

lemma the_dhcp_set_mem [simp]: "the_dhcp k (set_mem m s) = the_dhcp k s" "the_netif k (set_mem m s) = the_netif k s"
  by (simp_all add: the_dhcp_def the_netif_def)

lemma dhcp_can_send_upd [simp]: "dhcp_can_send l n dst mac fs i (upd_dhcp k f s) = dhcp_can_send l n dst mac fs i s"
  by (simp add: dhcp_can_send_def can_send_def ip_queue_def)

text \<open>A request that is sent: its frame is the last of the ring, its memory is free again.\<close>

definition dhcp_sent ::
    "netif \<Rightarrow> u8_t list \<Rightarrow> u32_t \<Rightarrow> u8_t list list \<Rightarrow> nat \<Rightarrow> u8_t \<Rightarrow> u8_t list \<Rightarrow> dhcp \<Rightarrow> blk list \<Rightarrow>
     ('a eth_dev_scheme, 'm) lwip_net \<Rightarrow> ('a eth_dev_scheme, 'm) lwip_net \<Rightarrow> bool" where
  "dhcp_sent n mac dst fs i ty os d bs s s' \<longleftrightarrow>
     heap_inv (p_heap (n_mem s')) bs \<and> p_pools (n_mem s') = p_pools (n_mem s) \<and> n_arp s' = n_arp s \<and>
     eth_queue (ip_dev (n_dev s')) (fs @ [dhcp_frame n mac dst (ip_id (n_dev s)) (upcb s i) (next_xid d (dhcp_global_xid (n_dev s)))
       (dhcp_ciaddr n d ty) ([53, 1, ty] @ os)])"

text \<open>What a request leaves behind: the client with its next timeout, and the frame in the ring or the ring as it was.\<close>

definition dhcp_done ::
    "int \<Rightarrow> netif \<Rightarrow> u8_t list \<Rightarrow> u32_t \<Rightarrow> u8_t list list \<Rightarrow> nat \<Rightarrow> u8_t \<Rightarrow> u8_t list \<Rightarrow> (int \<Rightarrow> int) \<Rightarrow> dhcp \<Rightarrow> blk list \<Rightarrow>
     ('a eth_dev_scheme, 'm) lwip_net \<Rightarrow> err_t \<Rightarrow> ('a eth_dev_scheme, 'm) lwip_net \<Rightarrow> bool" where
  "dhcp_done k n mac dst fs i ty os msecs d bs s e s' \<longleftrightarrow>
     (if mem_malloc 380 (p_heap (n_mem s)) = Some (None, p_heap (n_mem s))
      then e = ERR_MEM \<and> the_dhcp k s' = Some (dhcp_retry msecs (d\<lparr>d_p_out := None\<rparr>)) \<and>
        n_mem s' = n_mem s \<and> n_arp s' = n_arp s \<and> eth_queue (ip_dev (n_dev s')) fs
      else e = ERR_OK \<and> dhcp_sent n mac dst fs i ty os d bs s s' \<and>
        the_dhcp k s' = Some (dhcp_retry msecs (d\<lparr>d_xid := next_xid d (dhcp_global_xid (n_dev s)), d_p_out := None, d_msg_out := NULL,
          d_options_out_len := 68\<rparr>)))"

lemma dhcp_request_run:
  fixes s :: "('a eth_dev_scheme, 'm) lwip_net"
  assumes n: "the_netif k s = Some n" and d: "the_dhcp k s = Some d" and i: "dhcp_pcb (n_dev s) k = Some i"
    and c: "dhcp_can_send l n (dst d) mac fs i s" and bs: "heap_inv (p_heap (n_mem s)) bs"
    and os: "emits (opts n d) os" "length os \<le> 64"
  shows "\<exists>e s'. dhcp_request l k ty opts dst msecs s = Some (e, s') \<and> dhcp_done k n mac (dst d) fs i ty os msecs d bs s e s' \<and>
    netif_list (n_dev s') = netif_list (n_dev s) \<and> dhcp_pcb (n_dev s') = dhcp_pcb (n_dev s) \<and>
    tcp_active_pcbs (n_dev s') = tcp_active_pcbs (n_dev s) \<and> tcp_listen_pcbs (n_dev s') = tcp_listen_pcbs (n_dev s)"
proof -
  obtain r h where al: "mem_malloc 380 (p_heap (n_mem s)) = Some (r, h)" "r = None \<longrightarrow> h = p_heap (n_mem s)"
    using mem_malloc_first_fit [OF bs, of 380] by (fastforce split: option.splits if_splits)
  have q: "eth_queue (ip_dev (n_dev s)) fs" using c by (simp add: dhcp_can_send_def can_send_def ip_queue_def)
  show ?thesis
  proof (cases r)
    case None
    note m = dhcp_message_full [OF al(1) [unfolded None], of l n ty "opts n d" "dst d" "Some i" d]
    have h: "mem_malloc 380 (p_heap (n_mem s)) = Some (None, p_heap (n_mem s))" "(n_mem s)\<lparr>p_heap := h\<rparr> = n_mem s"
      using al None by simp_all
    have "dhcp_request l k ty opts dst msecs s = Some (ERR_MEM, upd_dhcp k (\<lambda>_. dhcp_retry msecs (d\<lparr>d_p_out := None\<rparr>)) (set_mem (n_mem s) s))"
      unfolding dhcp_request_def n d i Option.bind.simps m h(2) by simp
    then show ?thesis using h(1) q d
      by (intro exI [of _ ERR_MEM] exI [of _ "upd_dhcp k (\<lambda>_. dhcp_retry msecs (d\<lparr>d_p_out := None\<rparr>)) (set_mem (n_mem s) s)"])
        (simp add: dhcp_done_def)
  next
    case (Some a)
    let ?xid = "next_xid d (dhcp_global_xid (n_dev s))"
    let ?d = "d\<lparr>d_xid := ?xid, d_p_out := None, d_msg_out := NULL, d_options_out_len := 68\<rparr>"
    obtain m c' dv where m: "dhcp_message l n ty (opts n d) (dst d) (Some i) d s = Some (ERR_OK, ?d,
        s\<lparr>n_mem := m, n_cached := c', n_dev := (n_dev s)\<lparr>dhcp_global_xid := ?xid, ip_id := c_u16 (ip_id (n_dev s) + 1), ip_dev := dv\<rparr>\<rparr>)"
      "heap_inv (p_heap m) bs" "p_pools m = p_pools (n_mem s)"
      "eth_queue dv (fs @ [dhcp_frame n mac (dst d) (ip_id (n_dev s)) (upcb s i) ?xid (dhcp_ciaddr n d ty) ([53, 1, ty] @ os)])"
      using dhcp_message_run [OF c bs al(1) [unfolded Some] os, of ty d] by blast
    define s1 where "s1 = s\<lparr>n_mem := m, n_cached := c', n_dev := (n_dev s)\<lparr>dhcp_global_xid := ?xid, ip_id := c_u16 (ip_id (n_dev s) + 1), ip_dev := dv\<rparr>\<rparr>"
    have run: "dhcp_request l k ty opts dst msecs s = Some (ERR_OK, upd_dhcp k (\<lambda>_. dhcp_retry msecs ?d) s1)"
      unfolding dhcp_request_def n d i Option.bind.simps m(1) s1_def [symmetric] by simp
    have "the_dhcp k s1 = Some d" using d by (simp add: the_dhcp_def s1_def)
    then have "dhcp_done k n mac (dst d) fs i ty os msecs d bs s ERR_OK (upd_dhcp k (\<lambda>_. dhcp_retry msecs ?d) s1)"
      using m(2-4) al(1) Some by (simp add: dhcp_done_def dhcp_sent_def) (simp add: s1_def)
    then show ?thesis using run
      by (intro exI [of _ ERR_OK] exI [of _ "upd_dhcp k (\<lambda>_. dhcp_retry msecs ?d) s1"]) (simp add: s1_def)
  qed
qed

text \<open>The tries and the timeout after a request.\<close>

lemma dhcp_retry_simps [simp]:
  "d_state (dhcp_retry f d) = d_state d" "d_xid (dhcp_retry f d) = d_xid d" "d_offered_ip_addr (dhcp_retry f d) = d_offered_ip_addr d"
  "d_server_ip_addr (dhcp_retry f d) = d_server_ip_addr d" "d_tries (dhcp_retry f d) = c_u8 (d_tries d + 1)"
  "d_p_out (dhcp_retry f d) = d_p_out d"
  by (simp_all add: dhcp_retry_def Let_def)

lemma retry_discover:
  assumes "0 \<le> t" "t < 255" "d_tries d = t"
  shows "d_request_timeout (dhcp_retry backoff_discover d) = 2 * (if t < 5 then 2 ^ nat (t + 1) else 60)"
proof -
  define x :: int where "x = (if t < 5 then 2 ^ nat (t + 1) else 60)"
  have tt: "c_u8 (t + 1) = t + 1" using assms(1,2) by (simp add: c_u8_id)
  have "0 \<le> x \<and> x \<le> 60"
  proof (cases "t < 5")
    case True
    then have "t = 0 \<or> t = 1 \<or> t = 2 \<or> t = 3 \<or> t = 4" using assms(1) by arith
    then show ?thesis by (auto simp: x_def)
  qed (simp add: x_def)
  then have c: "c_u16 (x * 1000) = x * 1000" "c_u16 (2 * x) = 2 * x" by (simp_all add: c_u16_id)
  have "(x * 1000 + 500 - 1) div 500 = 2 * x" by (rule int_div_pos_eq [where r = 499]) simp_all
  moreover have "backoff_discover (c_u8 (t + 1)) = x * 1000" by (simp add: backoff_discover_def tt x_def)
  ultimately have "d_request_timeout (dhcp_retry backoff_discover d) = 2 * x"
    using assms(3) c by (simp add: dhcp_retry_def Let_def DHCP_FINE_TIMER_MSECS_def)
  then show ?thesis by (simp only: x_def)
qed

section \<open>Properties\<close>

text \<open>C10: \<open>dhcp_discover\<close> sends one broadcast frame with a DISCOVER message of 308 bytes, byte for byte, whose
  transaction is new in the first try, or nothing when the memory does not suffice; in both cases the client is in
  \<open>SELECTING\<close>, the try is counted, the next one follows after 2, 4, 8, 16, 32 or 60 seconds (the timeout counts
  half seconds), and the heap is as before.\<close>
theorem dhcp_discover_frame:
  fixes s :: "('a eth_dev_scheme, 'm) lwip_net"
  assumes "the_netif k s = Some n" and "the_dhcp k s = Some d" and "dhcp_pcb (n_dev s) k = Some i"
    and "dhcp_can_send l n IPADDR_BROADCAST mac fs i s" and "heap_inv (p_heap (n_mem s)) bs"
    and "t = (if d_state d = DHCP_SELECTING then d_tries d else 0)" and "0 \<le> t" and "t < 255"
    and "xid = (if t = 0 then dhcp_global_xid (n_dev s) + 1 else dhcp_global_xid (n_dev s))"
  shows "\<exists>e s' d'. dhcp_discover l k s = Some (e, s') \<and> heap_inv (p_heap (n_mem s')) bs \<and> the_dhcp k s' = Some d' \<and>
    d_state d' = DHCP_SELECTING \<and> d_tries d' = t + 1 \<and> d_request_timeout d' = 2 * (if t < 5 then 2 ^ nat (t + 1) else 60) \<and>
    (if mem_malloc 380 (p_heap (n_mem s)) = Some (None, p_heap (n_mem s))
     then e = ERR_MEM \<and> eth_queue (ip_dev (n_dev s')) fs
     else e = ERR_OK \<and> d_xid d' = xid \<and>
       eth_queue (ip_dev (n_dev s')) (fs @ [dhcp_frame n mac IPADDR_BROADCAST (ip_id (n_dev s)) (upcb s i) xid 0
         ([53, 1, 1] @ [57, 2] @ rev (u16_bytes (word_of_int (nif_mtu n))) @ [55, 4, 1, 3, 28, 6])]))"
proof -
  define d1 where "d1 = dhcp_set_state DHCP_SELECTING (d\<lparr>d_offered_ip_addr := IPADDR_ANY\<rparr>)"
  let ?s = "upd_dhcp k (\<lambda>d. dhcp_set_state DHCP_SELECTING (d\<lparr>d_offered_ip_addr := IPADDR_ANY\<rparr>)) s"
  let ?opts = "\<lambda>(n :: netif) (d :: dhcp). opt_request_list \<circ> opt_max_msg_size (nif_mtu n)"
  let ?os = "([57, 2] @ rev (u16_bytes (word_of_int (nif_mtu n)))) @ [55, 4, 1, 3, 28, 6]"
  have em: "emits (?opts n d1) ?os" "length ?os \<le> 64" using emits_o [OF emits_max_msg_size emits_request_list] by simp_all
  have s1: "the_netif k ?s = Some n" "the_dhcp k ?s = Some d1" "dhcp_pcb (n_dev ?s) k = Some i"
    "dhcp_can_send l n IPADDR_BROADCAST mac fs i ?s" "heap_inv (p_heap (n_mem ?s)) bs"
    using assms(1-5) by (simp_all add: d1_def)
  obtain e s' where r: "dhcp_discover l k s = Some (e, s')" "dhcp_done k n mac IPADDR_BROADCAST fs i DHCP_DISCOVER ?os backoff_discover d1 bs ?s e s'"
    using dhcp_request_run [OF s1(1-3), where opts = ?opts and dst = "\<lambda>d. IPADDR_BROADCAST", OF s1(4,5) em, of DHCP_DISCOVER backoff_discover]
    unfolding dhcp_discover_def by blast
  have d1': "d_state d1 = DHCP_SELECTING" "d_tries d1 = t" "dhcp_ciaddr n d1 DHCP_DISCOVER = 0" "next_xid d1 (dhcp_global_xid (n_dev ?s)) = xid"
    using assms(6,9) by (simp_all add: d1_def dhcp_set_state_def dhcp_ciaddr_def dhcp_messages next_xid_def)
  have ct: "c_u8 (t + 1) = t + 1" using assms(7,8) by (simp add: c_u8_id)
  obtain d' where d': "the_dhcp k s' = Some (dhcp_retry backoff_discover d')" "d_state d' = DHCP_SELECTING" "d_tries d' = t"
    "e = ERR_OK \<longrightarrow> d_xid d' = xid" "e = (if mem_malloc 380 (p_heap (n_mem s)) = Some (None, p_heap (n_mem s)) then ERR_MEM else ERR_OK)"
    using r(2) d1' by (auto simp: dhcp_done_def split: if_splits)
  have h: "heap_inv (p_heap (n_mem s')) bs" "e = ERR_MEM \<longrightarrow> eth_queue (ip_dev (n_dev s')) fs"
    "e = ERR_OK \<longrightarrow> eth_queue (ip_dev (n_dev s')) (fs @ [dhcp_frame n mac IPADDR_BROADCAST (ip_id (n_dev s)) (upcb s i) xid 0
         ([53, 1, 1] @ [57, 2] @ rev (u16_bytes (word_of_int (nif_mtu n))) @ [55, 4, 1, 3, 28, 6])])"
    using r(2) assms(5) d1'(3,4) by (auto simp: dhcp_done_def dhcp_sent_def DHCP_DISCOVER_def split: if_splits)
  show ?thesis using r(1) h d' retry_discover [OF assms(7,8) d'(3)] ct
    by (intro exI [of _ e] exI [of _ s'] exI [of _ "dhcp_retry backoff_discover d'"] conjI) (simp_all split: if_splits)
qed
end
