(* ===== verification/DhcpProps.thy ===== *)
theory DhcpProps
  imports DhcpFrames
begin

text \<open>
  The DHCP client as a state machine: what it does with an offer and with acknowledgements, the addresses it sets, and
  what it sends when it gives an address up.
\<close>

declare split_paired_All [simp del] split_paired_Ex [simp del]

section \<open>Requests\<close>

lemma upd_dhcp_twice: "upd_dhcp k f (upd_dhcp k g s) = upd_dhcp k (f \<circ> g) s"
  by (simp add: upd_dhcp_def upd_lwip_def option.map_comp)

text \<open>C11: an OFFER with the identifier of its server, received in \<open>SELECTING\<close>, is answered with one broadcast REQUEST that
  names the address offered and the server; the client is in \<open>REQUESTING\<close>.  The request has a new transaction
  identifier, not that of the offer.\<close>
theorem dhcp_offer_requested:
  fixes s :: "('a eth_dev_scheme, 'm) lwip_net"
  assumes "the_netif k s = Some n" and "the_dhcp k s = Some d" and "dhcp_pcb (n_dev s) k = Some i"
    and "dhcp_can_send l n IPADDR_BROADCAST mac fs i s" and "heap_inv (p_heap (n_mem s)) bs"
    and "d_state d = DHCP_SELECTING" and "d_msg_in d = Some q" and "dhcp_rx_given DHCP_OPTION_IDX_SERVER_ID s"
    and "server = lwip_htonl (dhcp_rx_value DHCP_OPTION_IDX_SERVER_ID s)" and "offered = get32 q DHCP_YIADDR_OFS (n_mem s)"
    and "mem_malloc 380 (p_heap (n_mem s)) = Some (Some a, h)"
  shows "\<exists>s' d'. dhcp_react l ap k DHCP_OFFER s = Some s' \<and> heap_inv (p_heap (n_mem s')) bs \<and> the_dhcp k s' = Some d' \<and>
    d_state d' = DHCP_REQUESTING \<and> d_tries d' = 1 \<and> d_request_timeout d' = 4 \<and>
    d_server_ip_addr d' = server \<and> d_offered_ip_addr d' = offered \<and> d_xid d' = dhcp_global_xid (n_dev s) + 1 \<and>
    eth_queue (ip_dev (n_dev s')) (fs @ [dhcp_frame n mac IPADDR_BROADCAST (ip_id (n_dev s)) (upcb s i) (dhcp_global_xid (n_dev s) + 1) 0
      ([53, 1, 3] @ [57, 2] @ rev (u16_bytes (word_of_int (nif_mtu n))) @ [50, 4] @ u32_bytes offered @ [54, 4] @ u32_bytes server @
       [55, 4, 1, 3, 28, 6])])"
proof -
  define f where "f = (\<lambda>d :: dhcp. dhcp_set_state DHCP_REQUESTING (d\<lparr>d_request_timeout := 0, d_server_ip_addr := server, d_offered_ip_addr := offered\<rparr>))"
  define d1 where "d1 = f d"
  let ?s = "upd_dhcp k f s"
  let ?opts = "\<lambda>(n :: netif) (d :: dhcp). opt_request_list \<circ> opt_address DHCP_OPTION_SERVER_ID (d_server_ip_addr d) \<circ>
      opt_address DHCP_OPTION_REQUESTED_IP (d_offered_ip_addr d) \<circ> opt_max_msg_size (nif_mtu n)"
  let ?os = "([57, 2] @ rev (u16_bytes (word_of_int (nif_mtu n)))) @ ([50, 4] @ u32_bytes offered) @ ([54, 4] @ u32_bytes server) @ [55, 4, 1, 3, 28, 6]"
  have d1: "d_server_ip_addr d1 = server" "d_offered_ip_addr d1 = offered" "d_state d1 = DHCP_REQUESTING" "d_tries d1 = 0"
    using assms(6) by (simp_all add: d1_def f_def dhcp_set_state_def)
  have em: "emits (?opts n d1) ?os" "length ?os \<le> 64"
    using emits_o [OF emits_o [OF emits_o [OF emits_max_msg_size emits_address] emits_address] emits_request_list]
    by (simp_all add: d1 DHCP_OPTION_REQUESTED_IP_def DHCP_OPTION_SERVER_ID_def comp_assoc)
  have s1: "the_netif k ?s = Some n" "the_dhcp k ?s = Some d1" "dhcp_pcb (n_dev ?s) k = Some i"
    "dhcp_can_send l n IPADDR_BROADCAST mac fs i ?s" "heap_inv (p_heap (n_mem ?s)) bs"
    using assms(1-5) by (simp_all add: d1_def)
  obtain e s' where r: "dhcp_request l k DHCP_REQUEST ?opts (\<lambda>d. IPADDR_BROADCAST) backoff_discover ?s = Some (e, s')"
    "dhcp_done k n mac IPADDR_BROADCAST fs i DHCP_REQUEST ?os backoff_discover d1 bs ?s e s'"
    using dhcp_request_run [OF s1(1-3), where opts = ?opts and dst = "\<lambda>d. IPADDR_BROADCAST", OF s1(4,5) em, of DHCP_REQUEST backoff_discover]
    by blast
  have "dhcp_handle_offer l k (upd_dhcp k (\<lambda>d. d\<lparr>d_request_timeout := 0\<rparr>) s) = map_option snd (dhcp_select l k
      (upd_dhcp k (\<lambda>d. d\<lparr>d_server_ip_addr := server, d_offered_ip_addr := offered\<rparr>) (upd_dhcp k (\<lambda>d. d\<lparr>d_request_timeout := 0\<rparr>) s)))"
    using assms(2,7-10) by (cases "dhcp_select l k
      (upd_dhcp k (\<lambda>d. d\<lparr>d_server_ip_addr := server, d_offered_ip_addr := offered\<rparr>) (upd_dhcp k (\<lambda>d. d\<lparr>d_request_timeout := 0\<rparr>) s))")
      (auto simp: dhcp_handle_offer_def dhcp_rx_given_def dhcp_rx_value_def)
  also have "\<dots> = Some s'"
    using r(1) unfolding dhcp_select_def upd_dhcp_twice by (simp add: comp_def f_def)
  finally have run: "dhcp_react l ap k DHCP_OFFER s = Some s'"
    using assms(2,6) by (simp add: dhcp_react_def dhcp_messages)
  have al: "mem_malloc 380 (p_heap (n_mem ?s)) \<noteq> Some (None, p_heap (n_mem ?s))" using assms(11) by simp
  have x: "next_xid d1 (dhcp_global_xid (n_dev ?s)) = dhcp_global_xid (n_dev s) + 1" "dhcp_ciaddr n d1 DHCP_REQUEST = 0"
    using d1 by (simp_all add: next_xid_def dhcp_ciaddr_def dhcp_messages)
  obtain d' where d': "the_dhcp k s' = Some (dhcp_retry backoff_discover d')" "d_tries d' = 0" "d_state d' = DHCP_REQUESTING"
    "d_server_ip_addr d' = server" "d_offered_ip_addr d' = offered" "d_xid d' = dhcp_global_xid (n_dev s) + 1"
    using r(2) d1 al x(1) by (auto simp: dhcp_done_def)
  have h: "heap_inv (p_heap (n_mem s')) bs" "eth_queue (ip_dev (n_dev s')) (fs @ [dhcp_frame n mac IPADDR_BROADCAST (ip_id (n_dev s)) (upcb s i)
      (dhcp_global_xid (n_dev s) + 1) 0 ([53, 1, 3] @ ?os)])"
    using r(2) al x by (auto simp: dhcp_done_def dhcp_sent_def DHCP_REQUEST_def)
  show ?thesis using run h d' retry_discover [of 0 d']
    by (intro exI [of _ s'] exI [of _ "dhcp_retry backoff_discover d'"] conjI) (simp_all add: c_u8_id)
qed

section \<open>Giving an address up\<close>

lemma dhcp_unconfigure_quiet:
  assumes n: "the_netif k s = Some n" and w: "no_waiting s" "length (n_arp s) = ARP_TABLE_SIZE"
    and q: "nif_ip_addr n = IPADDR_ANY \<or> tcp_active_pcbs (n_dev s) = None \<and> tcp_listen_pcbs (n_dev s) = None"
  shows "\<exists>s'. dhcp_unconfigure l a k s = Some s' \<and> n_mem s' = n_mem s \<and> ip_dev (n_dev s') = ip_dev (n_dev s) \<and>
    netif_dhcp (n_dev s') = netif_dhcp (n_dev s) \<and>
    (\<exists>fl. fl AND NETIF_FLAG_UP = 0 \<and>
      the_netif k s' = Some (n\<lparr>nif_ip_addr := IPADDR_ANY, nif_netmask := IPADDR_ANY, nif_gw := IPADDR_ANY, nif_flags := fl\<rparr>))"
proof -
  obtain s1 fl where s1: "netif_set_down l k s = Some s1" "the_netif k s1 = Some (n\<lparr>nif_flags := fl\<rparr>)" "fl AND NETIF_FLAG_UP = 0"
    "n_mem s1 = n_mem s" "ip_dev (n_dev s1) = ip_dev (n_dev s)" "netif_dhcp (n_dev s1) = netif_dhcp (n_dev s)"
    "tcp_active_pcbs (n_dev s1) = tcp_active_pcbs (n_dev s)" "tcp_listen_pcbs (n_dev s1) = tcp_listen_pcbs (n_dev s)"
    using netif_set_down_quiet [OF n w, of l] by blast
  have "nif_ip_addr (n\<lparr>nif_flags := fl\<rparr>) = IPADDR_ANY \<or> tcp_active_pcbs (n_dev s1) = None \<and> tcp_listen_pcbs (n_dev s1) = None"
    using q s1(7,8) by simp
  then have "netif_set_ipaddr l a k (Some IPADDR_ANY) s1 = Some (upd_netif k (\<lambda>n. n\<lparr>nif_ip_addr := IPADDR_ANY\<rparr>) s1)"
    by (intro netif_set_ipaddr_quiet [OF s1(2)]) auto
  then show ?thesis using s1
    by (intro exI [of _ "netif_set_netmask k (Some IPADDR_ANY) (netif_set_gw k (Some IPADDR_ANY) (upd_netif k (\<lambda>n. n\<lparr>nif_ip_addr := IPADDR_ANY\<rparr>) s1))"])
      (auto simp: dhcp_unconfigure_def netif_set_netmask_def netif_set_gw_def ip_addr_set_def the_netif_upd)
qed

text \<open>C23: \<open>dhcp_release\<close> clears the address of the server and the lease before it makes the message: whatever server
  gave the address, the RELEASE goes as a broadcast to 0.0.0.0 and names neither the address given up nor the server.\<close>
theorem dhcp_release_nobody:
  fixes s :: "('a eth_dev_scheme, 'm) lwip_net"
  assumes "the_netif k s = Some n" and "the_dhcp k s = Some d" and "dhcp_pcb (n_dev s) k = Some i"
    and "dhcp_can_send l n IPADDR_ANY mac fs i s" and "heap_inv (p_heap (n_mem s)) bs"
    and "mem_malloc 380 (p_heap (n_mem s)) = Some (Some a, h)" and "d_state d \<noteq> DHCP_OFF"
    and "no_waiting s" and "nif_ip_addr n = IPADDR_ANY \<or> tcp_active_pcbs (n_dev s) = None \<and> tcp_listen_pcbs (n_dev s) = None"
  shows "mac = [0xff, 0xff, 0xff, 0xff, 0xff, 0xff] \<and>
    (\<exists>s' d' fl. dhcp_release l ap k s = Some (ERR_OK, s') \<and> the_dhcp k s' = Some d' \<and> d_state d' = DHCP_OFF \<and> d_server_ip_addr d' = 0 \<and>
      d_offered_ip_addr d' = 0 \<and> fl AND NETIF_FLAG_UP = 0 \<and>
      the_netif k s' = Some (n\<lparr>nif_ip_addr := 0, nif_netmask := 0, nif_gw := 0, nif_flags := fl\<rparr>) \<and>
      eth_queue (ip_dev (n_dev s')) (fs @ [dhcp_frame n mac 0 (ip_id (n_dev s)) (upcb s i) (dhcp_global_xid (n_dev s) + 1) 0 [53, 1, 7]]))"
proof -
  define d1 where "d1 = dhcp_forget d"
  let ?s = "upd_dhcp k dhcp_forget s" let ?opts = "\<lambda>(n :: netif) (d :: dhcp) (o1 :: dhcp_out). o1"
  have d1: "d_server_ip_addr d1 = IPADDR_ANY" "d_offered_ip_addr d1 = 0" "d_state d1 = DHCP_OFF" "d_tries d1 = 0"
    using assms(7) by (simp_all add: d1_def dhcp_forget_def dhcp_set_state_def IPADDR_ANY_def)
  have em: "emits (?opts n d1) []" "length ([] :: u8_t list) \<le> 64" by (simp_all add: emits_nop)
  have s1: "the_netif k ?s = Some n" "the_dhcp k ?s = Some d1" "dhcp_pcb (n_dev ?s) k = Some i"
    "dhcp_can_send l n (d_server_ip_addr d1) mac fs i ?s" "heap_inv (p_heap (n_mem ?s)) bs"
    using assms(1-5) d1(1) by (simp_all add: d1_def)
  obtain e s2 where r: "dhcp_request l k DHCP_RELEASE ?opts d_server_ip_addr backoff_rebind ?s = Some (e, s2)"
    "dhcp_done k n mac (d_server_ip_addr d1) fs i DHCP_RELEASE [] backoff_rebind d1 bs ?s e s2"
    "netif_list (n_dev s2) = netif_list (n_dev ?s)" "tcp_active_pcbs (n_dev s2) = tcp_active_pcbs (n_dev ?s)"
    "tcp_listen_pcbs (n_dev s2) = tcp_listen_pcbs (n_dev ?s)"
    using dhcp_request_run [OF s1(1-3), where opts = ?opts and dst = d_server_ip_addr, OF s1(4,5) em, of DHCP_RELEASE backoff_rebind]
    by blast
  have al: "mem_malloc 380 (p_heap (n_mem ?s)) \<noteq> Some (None, p_heap (n_mem ?s))" using assms(6) by simp
  have x: "next_xid d1 (dhcp_global_xid (n_dev ?s)) = dhcp_global_xid (n_dev s) + 1" "dhcp_ciaddr n d1 DHCP_RELEASE = 0"
    using d1 by (simp_all add: next_xid_def dhcp_ciaddr_def dhcp_messages)
  obtain d' where d': "e = ERR_OK" "the_dhcp k s2 = Some (dhcp_retry backoff_rebind d')" "d_state d' = DHCP_OFF"
    "d_server_ip_addr d' = 0" "d_offered_ip_addr d' = 0" "n_arp s2 = n_arp s"
    using r(2) d1 al by (auto simp: dhcp_done_def dhcp_sent_def IPADDR_ANY_def)
  have q: "eth_queue (ip_dev (n_dev s2)) (fs @ [dhcp_frame n mac 0 (ip_id (n_dev s)) (upcb s i) (dhcp_global_xid (n_dev s) + 1) 0 [53, 1, 7]])"
    using r(2) al x d1(1) by (simp add: dhcp_done_def dhcp_sent_def DHCP_RELEASE_def IPADDR_ANY_def)
  have n2: "the_netif k s2 = Some n" using r(3) assms(1) by (simp add: the_netif_def)
  have w2: "no_waiting s2" "length (n_arp s2) = ARP_TABLE_SIZE"
    using assms(4,8) d'(6) by (simp_all add: no_waiting_def dhcp_can_send_def can_send_def arp_ok_def)
  have q2: "nif_ip_addr n = IPADDR_ANY \<or> tcp_active_pcbs (n_dev s2) = None \<and> tcp_listen_pcbs (n_dev s2) = None"
    using assms(9) r(4,5) by simp
  obtain s' fl where u: "dhcp_unconfigure l ap k s2 = Some s'" "ip_dev (n_dev s') = ip_dev (n_dev s2)" "netif_dhcp (n_dev s') = netif_dhcp (n_dev s2)"
    "fl AND NETIF_FLAG_UP = 0" "the_netif k s' = Some (n\<lparr>nif_ip_addr := IPADDR_ANY, nif_netmask := IPADDR_ANY, nif_gw := IPADDR_ANY, nif_flags := fl\<rparr>)"
    using dhcp_unconfigure_quiet [OF n2 w2 q2, of l ap] by blast
  have run: "dhcp_release l ap k s = Some (ERR_OK, s')" using r(1) d'(1) u(1) by (simp add: dhcp_release_def)
  have "ip4_addr_isbroadcast IPADDR_ANY n" by (simp add: ip4_addr_isbroadcast_def)
  then have "mac = [0xff, 0xff, 0xff, 0xff, 0xff, 0xff]"
    using assms(4) by (simp add: dhcp_can_send_def can_send_def link_dest_def)
  moreover have "the_dhcp k s' = the_dhcp k s2" using u(3) by (simp add: the_dhcp_def)
  ultimately show ?thesis using run u(2,4,5) d' q
    by (intro conjI exI [of _ s'] exI [of _ "dhcp_retry backoff_rebind d'"] exI [of _ fl]) (simp_all add: IPADDR_ANY_def)
qed

section \<open>The lease\<close>

text \<open>The minutes nearest to a number of seconds, at least one and at most what 16 bits hold; the sum must not wrap.\<close>

lemma lease_ticks_minutes:
  assumes "uint secs + 30 < 2 ^ 32"
  shows "lease_ticks secs = max 1 (min 65535 ((uint secs + 30) div 60))"
proof -
  have "uint (secs + DHCP_COARSE_TIMER_SECS div 2) = uint secs + 30"
    using assms by (simp add: DHCP_COARSE_TIMER_SECS_def uint_word_ariths)
  then have u: "uint ((secs + DHCP_COARSE_TIMER_SECS div 2) div DHCP_COARSE_TIMER_SECS) = (uint secs + 30) div 60"
    by (simp add: uint_div DHCP_COARSE_TIMER_SECS_def)
  have "0 \<le> (uint secs + 30) div 60" by (simp add: pos_imp_zdiv_nonneg_iff)
  then show ?thesis unfolding lease_ticks_def u Let_def by (auto simp: c_u16_id max_def min_def)
qed

lemma netif_set_up_up: "the_netif k s = Some n \<Longrightarrow> nif_flags n AND NETIF_FLAG_UP \<noteq> 0 \<Longrightarrow> netif_set_up l k s = Some s"
  by (simp add: netif_set_up_def)

text \<open>An interface that is up, and no connection to abort when its address changes to \<open>ip\<close>.\<close>

definition quiet_for :: "u32_t \<Rightarrow> netif \<Rightarrow> ('x, 'm) lwip_net \<Rightarrow> bool" where
  "quiet_for ip n s \<longleftrightarrow> nif_flags n AND NETIF_FLAG_UP \<noteq> 0 \<and>
     (ip = nif_ip_addr n \<or> tcp_active_pcbs (n_dev s) = None \<and> tcp_listen_pcbs (n_dev s) = None)"

lemma dhcp_bind_spec:
  assumes n: "the_netif k s = Some n" and d: "the_dhcp k s = Some d" and q: "quiet_for (d_offered_ip_addr d) n s"
  shows "\<exists>s'. dhcp_bind l a k s = Some s' \<and> the_dhcp k s' = Some (dhcp_set_state DHCP_BOUND (dhcp_set_timers d)) \<and>
    the_netif k s' = Some (n\<lparr>nif_ip_addr := d_offered_ip_addr d, nif_netmask := dhcp_netmask d, nif_gw := dhcp_gateway d\<rparr>)"
proof -
  let ?s1 = "upd_dhcp k dhcp_set_timers s"
  let ?s2 = "upd_netif k (\<lambda>n. n\<lparr>nif_ip_addr := d_offered_ip_addr d\<rparr>) ?s1"
  let ?s3 = "netif_set_gw k (Some (dhcp_gateway d)) (netif_set_netmask k (Some (dhcp_netmask d)) ?s2)"
  have n1: "the_netif k ?s1 = Some n" using n by simp
  have addr: "netif_set_ipaddr l a k (Some (d_offered_ip_addr d)) ?s1 = Some ?s2"
    using q by (intro netif_set_ipaddr_quiet [OF n1]) (simp add: quiet_for_def)
  have n3: "the_netif k ?s3 = Some (n\<lparr>nif_ip_addr := d_offered_ip_addr d, nif_netmask := dhcp_netmask d, nif_gw := dhcp_gateway d\<rparr>)"
    using n by (simp add: netif_set_gw_def netif_set_netmask_def ip_addr_set_def the_netif_upd)
  have up: "netif_set_up l k ?s3 = Some ?s3" using q by (intro netif_set_up_up [OF n3]) (simp add: quiet_for_def)
  have "the_dhcp k ?s3 = Some (dhcp_set_timers d)"
  proof -
    have "the_dhcp k ?s3 = the_dhcp k ?s1" by (simp add: the_dhcp_def netif_set_gw_def netif_set_netmask_def)
    then show ?thesis using d by simp
  qed
  then show ?thesis using d addr up n3
    by (intro exI [of _ "upd_dhcp k (dhcp_set_state DHCP_BOUND) ?s3"]) (simp add: dhcp_bind_def)
qed

lemma dhcp_set_timers_simps [simp]:
  "d_state (dhcp_set_timers d) = d_state d" "d_offered_t0_lease (dhcp_set_timers d) = d_offered_t0_lease d"
  "d_offered_t1_renew (dhcp_set_timers d) = d_offered_t1_renew d" "d_offered_t2_rebind (dhcp_set_timers d) = d_offered_t2_rebind d"
  "d_offered_ip_addr (dhcp_set_timers d) = d_offered_ip_addr d" "d_server_ip_addr (dhcp_set_timers d) = d_server_ip_addr d"
  by (simp_all add: dhcp_set_timers_def Let_def)

lemma dhcp_set_state_simps [simp]:
  "d_state (dhcp_set_state st d) = st" "d_offered_t0_lease (dhcp_set_state st d) = d_offered_t0_lease d"
  "d_offered_t1_renew (dhcp_set_state st d) = d_offered_t1_renew d" "d_offered_t2_rebind (dhcp_set_state st d) = d_offered_t2_rebind d"
  "d_offered_ip_addr (dhcp_set_state st d) = d_offered_ip_addr d" "d_server_ip_addr (dhcp_set_state st d) = d_server_ip_addr d"
  "d_t1_timeout (dhcp_set_state st d) = d_t1_timeout d" "d_t2_timeout (dhcp_set_state st d) = d_t2_timeout d"
  by (simp_all add: dhcp_set_state_def)

text \<open>C21: when no answer to its ARP requests has come in time, the client takes the address: the interface gets the address
  offered with the mask and gateway offered (or those of the class of the address), and the timers are set to the minutes
  nearest to the renewal and rebinding times, between 1 and 65535.\<close>
theorem dhcp_check_binds:
  assumes "the_netif k s = Some n" and "the_dhcp k s = Some d" and "quiet_for (d_offered_ip_addr d) n s"
    and "d_state d = DHCP_CHECKING" and "d_tries d > 1"
    and "uint (d_offered_t1_renew d) + 30 < 2 ^ 32" and "uint (d_offered_t2_rebind d) + 30 < 2 ^ 32"
    and "t1 = max 1 (min 65535 ((uint (d_offered_t1_renew d) + 30) div 60))"
    and "t2 = max 1 (min 65535 ((uint (d_offered_t2_rebind d) + 30) div 60))"
  shows "\<exists>s' d'. dhcp_timeout l a k s = Some s' \<and> the_dhcp k s' = Some d' \<and> d_state d' = DHCP_BOUND \<and>
    d_t2_timeout d' = t2 \<and> d_t1_timeout d' = (if t1 < t2 then t1 else 0) \<and>
    the_netif k s' = Some (n\<lparr>nif_ip_addr := d_offered_ip_addr d, nif_netmask := dhcp_netmask d, nif_gw := dhcp_gateway d\<rparr>)"
proof -
  obtain s' where s': "dhcp_bind l a k s = Some s'" "the_dhcp k s' = Some (dhcp_set_state DHCP_BOUND (dhcp_set_timers d))"
    "the_netif k s' = Some (n\<lparr>nif_ip_addr := d_offered_ip_addr d, nif_netmask := dhcp_netmask d, nif_gw := dhcp_gateway d\<rparr>)"
    using dhcp_bind_spec [OF assms(1-3)] by blast
  have run: "dhcp_timeout l a k s = Some s'" using assms(2,4,5) s'(1) by (simp add: dhcp_timeout_def)
  have ne: "d_offered_t1_renew d \<noteq> 0xffffffff" "d_offered_t2_rebind d \<noteq> 0xffffffff" using assms(6,7) by auto
  have t: "lease_ticks (d_offered_t1_renew d) = t1" "lease_ticks (d_offered_t2_rebind d) = t2"
    unfolding assms(8,9) by (rule lease_ticks_minutes [OF assms(6)], rule lease_ticks_minutes [OF assms(7)])
  have "1 \<le> t2" unfolding assms(9) by (rule max.cobounded1)
  with t have "d_t2_timeout (dhcp_set_timers d) = t2" "d_t1_timeout (dhcp_set_timers d) = (if t1 < t2 then t1 else 0)"
    using ne by (simp_all add: dhcp_set_timers_def Let_def)
  then show ?thesis using run s'(2,3) by (intro exI [of _ s'] exI [of _ "dhcp_set_state DHCP_BOUND (dhcp_set_timers d)"]) simp
qed

text \<open>C24: the acknowledgement of a renewal is not read: the client in \<open>RENEWING\<close>, \<open>REBINDING\<close> or \<open>REBOOTING\<close> is bound again
  with the address, the mask, the gateway and the times of the old lease, whatever the options of the message
  (\<open>given\<close> and \<open>val\<close>) and its memory say.\<close>
theorem dhcp_renew_ack_ignored:
  fixes s :: "('x, 'm) lwip_net"
  assumes "the_netif k s = Some n" and "the_dhcp k s = Some d" and "quiet_for (d_offered_ip_addr d) n s"
    and "d_state d = DHCP_RENEWING \<or> d_state d = DHCP_REBINDING \<or> d_state d = DHCP_REBOOTING"
  shows "\<exists>s' d'. dhcp_react l a k DHCP_ACK (upd_lwip (\<lambda>v. v\<lparr>dhcp_rx_options_given := given, dhcp_rx_options_val := val\<rparr>) (set_mem m s)) = Some s' \<and>
    the_dhcp k s' = Some d' \<and> d_state d' = DHCP_BOUND \<and> d_offered_t0_lease d' = d_offered_t0_lease d \<and>
    d_t1_timeout d' = d_t1_timeout (dhcp_set_timers d) \<and> d_t2_timeout d' = d_t2_timeout (dhcp_set_timers d) \<and>
    the_netif k s' = Some (n\<lparr>nif_ip_addr := d_offered_ip_addr d, nif_netmask := dhcp_netmask d, nif_gw := dhcp_gateway d\<rparr>)"
proof -
  let ?s = "upd_lwip (\<lambda>v. v\<lparr>dhcp_rx_options_given := given, dhcp_rx_options_val := val\<rparr>) (set_mem m s)"
  have s: "the_netif k ?s = Some n" "the_dhcp k ?s = Some d" "quiet_for (d_offered_ip_addr d) n ?s"
    using assms(1-3) by (simp_all add: the_netif_def the_dhcp_def quiet_for_def)
  obtain s' where s': "dhcp_bind l a k ?s = Some s'" "the_dhcp k s' = Some (dhcp_set_state DHCP_BOUND (dhcp_set_timers d))"
    "the_netif k s' = Some (n\<lparr>nif_ip_addr := d_offered_ip_addr d, nif_netmask := dhcp_netmask d, nif_gw := dhcp_gateway d\<rparr>)"
    using dhcp_bind_spec [OF s] by blast
  have "dhcp_react l a k DHCP_ACK ?s = Some s'" using s(2) s'(1) assms(4) by (auto simp: dhcp_react_def dhcp_messages)
  then show ?thesis using s'(2,3) by (intro exI [of _ s'] exI [of _ "dhcp_set_state DHCP_BOUND (dhcp_set_timers d)"]) simp
qed

section \<open>The coarse timer\<close>

text \<open>\<open>j\<close> calls of \<open>dhcp_coarse_tmr\<close>, one after the other.\<close>

primrec coarse_ticks :: "nat \<Rightarrow> ('x, 'm) lwip_link \<Rightarrow> ('x, 'm) lwip_net \<Rightarrow> ('x, 'm) lwip_net option" where
  "coarse_ticks 0 l s = Some s"
| "coarse_ticks (Suc j) l s = do { s \<leftarrow> coarse_ticks j l s; dhcp_coarse_tmr l s }"

definition set_timeouts :: "int \<Rightarrow> int \<Rightarrow> dhcp \<Rightarrow> dhcp" where
  "set_timeouts t1 t2 d = d\<lparr>d_t1_timeout := t1, d_t2_timeout := t2\<rparr>"

lemma coarse_tmr_counts:
  fixes s :: "('x, 'm) lwip_net"
  assumes "netif_list (n_dev s) = [n]" "the_dhcp (nif_num n) s = Some d" "t2 \<noteq> 1" "t1 \<noteq> 1"
  shows "dhcp_coarse_tmr l (upd_dhcp (nif_num n) (set_timeouts t1 t2) s) =
    Some (upd_dhcp (nif_num n) (set_timeouts (c_u16 (t1 - 1)) (c_u16 (t2 - 1))) s)"
proof -
  have "dhcp_coarse_tmr l (upd_dhcp (nif_num n) (set_timeouts t1 t2) s) =
    Some (upd_dhcp (nif_num n) (\<lambda>d. d\<lparr>d_t2_timeout := c_u16 (t2 - 1), d_t1_timeout := c_u16 (t1 - 1)\<rparr>) s)"
    using assms by (simp add: dhcp_coarse_tmr_def dhcp_coarse_one_def Let_def upd_dhcp_twice comp_def set_timeouts_def)
  moreover have "(\<lambda>d. d\<lparr>d_t2_timeout := c_u16 (t2 - 1), d_t1_timeout := c_u16 (t1 - 1)\<rparr>) = set_timeouts (c_u16 (t1 - 1)) (c_u16 (t2 - 1))"
    by (rule ext) (simp add: set_timeouts_def)
  ultimately show ?thesis by simp
qed

lemma coarse_tmr_fires:
  fixes s :: "('x, 'm) lwip_net"
  assumes "netif_list (n_dev s) = [n]" "the_dhcp (nif_num n) s = Some d" "d_state d = DHCP_BOUND"
  shows "dhcp_coarse_tmr l (upd_dhcp (nif_num n) (set_timeouts t1 1) s) =
    map_option snd (dhcp_rebind l (nif_num n) (upd_dhcp (nif_num n) (set_timeouts t1 0) s))"
proof -
  let ?s = "upd_dhcp (nif_num n) (set_timeouts t1 0) s"
  have t: "the_dhcp (nif_num n) ?s = Some (set_timeouts t1 0 d)" using assms(2) by simp
  have st: "d_state (set_timeouts t1 0 d) = DHCP_BOUND" using assms(3) by (simp add: set_timeouts_def)
  have fire: "dhcp_t2_timeout l (nif_num n) ?s = map_option snd (dhcp_rebind l (nif_num n) ?s)"
    unfolding dhcp_t2_timeout_def t Option.bind.simps st by simp
  have "(\<lambda>d. (set_timeouts t1 1 d)\<lparr>d_t2_timeout := c_u16 (1 - 1)\<rparr>) = set_timeouts t1 0"
    by (rule ext) (simp add: set_timeouts_def c_u16_def)
  moreover have "d_t2_timeout (set_timeouts t1 1 d) = 1" by (simp add: set_timeouts_def)
  ultimately have "dhcp_coarse_one l (nif_num n) (upd_dhcp (nif_num n) (set_timeouts t1 1) s) = dhcp_t2_timeout l (nif_num n) ?s"
    using assms(2) by (simp add: dhcp_coarse_one_def Let_def upd_dhcp_twice comp_def) (simp add: set_timeouts_def)
  then show ?thesis using fire assms(1) by (cases "dhcp_rebind l (nif_num n) ?s") (simp_all add: dhcp_coarse_tmr_def)
qed

lemma coarse_ticks_wrap:
  fixes s :: "('x, 'm) lwip_net"
  assumes n: "netif_list (n_dev s) = [n]" and d: "the_dhcp (nif_num n) s = Some d" "d_t1_timeout d = 0" "d_t2_timeout d = 0"
  shows "Suc j \<le> 65535 \<Longrightarrow> coarse_ticks (Suc j) l s = Some (upd_dhcp (nif_num n) (set_timeouts (65535 - int j) (65535 - int j)) s)"
proof (induction j)
  case 0
  have "set_timeouts 0 0 d = d" using d(2,3) by (simp add: set_timeouts_def)
  then have "upd_dhcp (nif_num n) (set_timeouts 0 0) s = s"
    using d(1) by (simp add: upd_dhcp_def upd_lwip_def the_dhcp_def fun_upd_idem)
  then show ?case using coarse_tmr_counts [OF n d(1), of 0 0 l] by (simp add: c_u16_def)
next
  case (Suc j)
  then have "coarse_ticks (Suc j) l s = Some (upd_dhcp (nif_num n) (set_timeouts (65535 - int j) (65535 - int j)) s)" by simp
  moreover have "c_u16 (65535 - int j - 1) = 65535 - int (Suc j)" using Suc.prems by (subst c_u16_id) simp_all
  moreover have ne: "65535 - int j \<noteq> 1" using Suc.prems by simp
  ultimately show ?case using coarse_tmr_counts [OF n d(1) ne ne, of l] by (simp only: coarse_ticks.simps Option.bind.simps)
qed

text \<open>C36: a lease without end has no renewal and rebinding timer (both are 0), but the coarse timer decrements them all the
  same: they wrap to 65535, and the 65536th call (after 45 days) gives the lease up for rebinding.\<close>
theorem dhcp_coarse_tmr_wraps:
  fixes s :: "('x, 'm) lwip_net"
  assumes "netif_list (n_dev s) = [n]" and "the_dhcp (nif_num n) s = Some d" and "d_state d = DHCP_BOUND"
    and "d_t1_timeout d = 0" and "d_t2_timeout d = 0"
  shows "coarse_ticks 65535 l s = Some (upd_dhcp (nif_num n) (\<lambda>d. d\<lparr>d_t1_timeout := 1, d_t2_timeout := 1\<rparr>) s) \<and>
    coarse_ticks 65536 l s = map_option snd (dhcp_rebind l (nif_num n) (upd_dhcp (nif_num n) (\<lambda>d. d\<lparr>d_t1_timeout := 1, d_t2_timeout := 0\<rparr>) s))"
proof -
  have f: "set_timeouts t1 t2 = (\<lambda>d. d\<lparr>d_t1_timeout := t1, d_t2_timeout := t2\<rparr>)" for t1 t2 by (simp add: fun_eq_iff set_timeouts_def)
  have n: "(65535 :: nat) = Suc 65534" "(65536 :: nat) = Suc 65535" by simp_all
  have "coarse_ticks (Suc 65534) l s = Some (upd_dhcp (nif_num n) (set_timeouts (65535 - int 65534) (65535 - int 65534)) s)"
    by (rule coarse_ticks_wrap [OF assms(1,2,4,5)]) simp
  moreover have "65535 - int 65534 = 1" by simp
  ultimately have a: "coarse_ticks 65535 l s = Some (upd_dhcp (nif_num n) (set_timeouts 1 1) s)" unfolding n(1) by (simp only:)
  have "coarse_ticks 65536 l s = dhcp_coarse_tmr l (upd_dhcp (nif_num n) (set_timeouts 1 1) s)"
    unfolding n(2) by (simp only: coarse_ticks.simps(2) a Option.bind.simps)
  then show ?thesis using a coarse_tmr_fires [OF assms(1-3), of l 1] by (simp only: f) 
qed

end
