(* ===== verification/DhcpParse.thy ===== *)
theory DhcpParse
  imports Dhcp NetifProps
begin

text \<open>
  The options of a DHCP reply in one packet buffer: what \<open>dhcp_parse_reply\<close> makes of a list of options, and a packet
  at which it does not return.
\<close>

declare split_paired_All [simp del] split_paired_Ex [simp del]

section \<open>The options of a message\<close>

text \<open>An option is its code and its value; the padding has no length.\<close>

definition enc_option :: "u8_t \<times> u8_t list \<Rightarrow> u8_t list" where
  "enc_option x = (if fst x = 0 then [0] else fst x # of_nat (length (snd x)) # snd x)"

definition enc_options :: "(u8_t \<times> u8_t list) list \<Rightarrow> u8_t list" where
  "enc_options xs = concat (map enc_option xs)"

text \<open>The options that a client reads: the index of the value and the bytes that count.\<close>

definition wanted :: "u8_t \<times> u8_t list \<Rightarrow> (nat \<times> u8_t list) option" where
  "wanted x = (case x of (c, v) \<Rightarrow>
     if c = 1 then Some (DHCP_OPTION_IDX_SUBNET_MASK, v)
     else if c = 3 then Some (DHCP_OPTION_IDX_ROUTER, take 4 v)
     else if c = 6 then Some (DHCP_OPTION_IDX_DNS_SERVER, take 8 v)
     else if c = 51 then Some (DHCP_OPTION_IDX_LEASE_TIME, v)
     else if c = 53 then Some (DHCP_OPTION_IDX_MSG_TYPE, v)
     else if c = 54 then Some (DHCP_OPTION_IDX_SERVER_ID, v)
     else if c = 58 then Some (DHCP_OPTION_IDX_T1, v)
     else if c = 59 then Some (DHCP_OPTION_IDX_T2, v)
     else None)"

definition sound_option :: "u8_t \<times> u8_t list \<Rightarrow> bool" where
  "sound_option x = (case x of (c, v) \<Rightarrow>
     c \<noteq> 255 \<and> c \<noteq> 52 \<and> length v \<le> 255 \<and> (c \<in> {1, 51, 54, 58, 59} \<longrightarrow> length v = 4) \<and> (c = 3 \<longrightarrow> 4 \<le> length v) \<and>
     (c = 6 \<longrightarrow> length v mod 4 = 0) \<and> (c = 53 \<longrightarrow> length v = 1))"

text \<open>The values: a byte, or words in network order under successive indices; what is given already stays.\<close>

fun rx_bytes :: "nat \<Rightarrow> u8_t list \<Rightarrow> dhcp_rx \<Rightarrow> dhcp_rx" where
  "rx_bytes i [a] rx = (if fst rx i then rx else rx_set i (ucast a) rx)"
| "rx_bytes i [a, b, c, d] rx = (if fst rx i then rx else rx_set i (u32_le d c b a) rx)"
| "rx_bytes i [a, b, c, d, a', b', c', d'] rx =
     (if fst rx i then rx else if fst rx (i + 1) then rx_set i (u32_le d c b a) rx
      else rx_set (i + 1) (u32_le d' c' b' a') (rx_set i (u32_le d c b a) rx))"
| "rx_bytes i _ rx = rx"

definition rx_option :: "u8_t \<times> u8_t list \<Rightarrow> dhcp_rx \<Rightarrow> dhcp_rx" where
  "rx_option x rx = (case wanted x of None \<Rightarrow> rx | Some (i, v) \<Rightarrow> rx_bytes i v rx)"

section \<open>Reading the packet\<close>

definition one_pbuf :: "pstate \<Rightarrow> ptr \<Rightarrow> u8_t list \<Rightarrow> bool" where
  "one_pbuf m q bs \<longleftrightarrow> pb_next (p_pbufs m q) = None \<and> pb_len (p_pbufs m q) = int (length bs) \<and>
     pb_tot_len (p_pbufs m q) = int (length bs) \<and> length bs \<le> 65535 \<and> pb_data m q = bs"

lemma one_pbuf_get8: "one_pbuf m q bs \<Longrightarrow> j < length bs \<Longrightarrow> get8 (pb_payload (p_pbufs m q)) (int j) m = bs ! j"
  by (auto simp: one_pbuf_def get8_def pb_data_def read_bytes_def bytes_def)

lemma one_pbuf_copy:
  assumes q: "one_pbuf m q bs" and n: "n \<le> 65535" "j \<le> 65535"
  shows "pbuf_copy_partial (Some q) (int n) (int j) m = Some (take n (drop j bs))"
proof -
  have "chain m (Some q) [q]" "lens_ok m [q]" "data m [q] = bs" using q by (simp_all add: one_pbuf_def)
  from pbuf_copy_partial_loop_spec [OF this(1,2), of "int n" "int j" "[]"] this(3) n
  show ?thesis by (simp add: pbuf_copy_partial_def del: data_simps)
qed

lemma be_word: "lwip_htonl (u32_le a b c d) = u32_le d c b a"
proof -
  have "u32_bytes (lwip_htonl (u32_le a b c d)) = u32_bytes (u32_le d c b a)" by (simp add: htonl_bytes u32_bytes_le)
  then show ?thesis by (simp only: u32_bytes_inj)
qed

lemma low_byte: "u32_le a 0 0 0 AND 0xff = ucast a"
proof (rule bit_word_eqI)
  fix k assume "k < LENGTH(32)"
  have "byte_of 0 (u32_le a 0 0 0) = a" using u32_bytes_le [of a 0 0 0] by (simp add: u32_bytes_def)
  then have "bit (u32_le a 0 0 0) k \<longleftrightarrow> bit a k" if "k < 8" using that bit_byte_of [of 0 "u32_le a 0 0 0" k] by simp
  then show "bit (u32_le a 0 0 0 AND 0xff) k \<longleftrightarrow> bit (ucast a :: u32_t) k"
    using bit_imp_le_length [of a k] by (simp only: bit_and_iff bit_0xff bit_unsigned_iff) auto
qed

lemma nth_pad4: "length bs = 4 \<Longrightarrow> load32 (\<lambda>i. if nat i < length bs then bs ! nat i else 0) 0 = u32_le (bs ! 0) (bs ! 1) (bs ! 2) (bs ! 3)"
  by (simp add: load32_def)

lemma decode_1:
  assumes "one_pbuf m q bs" "j < length bs"
  shows "dhcp_decode q 1 i (int j) rx m = Some (ERR_OK, rx_bytes i [bs ! j] rx)"
proof -
  have "take 1 (drop j bs) = [bs ! j]" using assms(2) by (simp add: take_Suc_conv_app_nth)
  then have "pbuf_copy_partial (Some q) 1 (int j) m = Some [bs ! j]"
    using one_pbuf_copy [OF assms(1), of 1 j] assms by (simp add: one_pbuf_def)
  then show ?thesis by (simp add: dhcp_decode.simps [of q 1] load32_def low_byte)
qed

lemma decode_4:
  assumes "one_pbuf m q bs" "j + 4 \<le> length bs"
  shows "dhcp_decode q 4 i (int j) rx m = Some (ERR_OK, rx_bytes i (take 4 (drop j bs)) rx)"
proof -
  have t: "take 4 (drop j bs) = [bs ! j, bs ! (j + 1), bs ! (j + 2), bs ! (j + 3)]"
    using assms(2) by (intro nth_equalityI) (auto simp: less_Suc_eq numeral_eq_Suc)
  have "pbuf_copy_partial (Some q) 4 (int j) m = Some (take 4 (drop j bs))"
    using one_pbuf_copy [OF assms(1), of 4 j] assms by (simp add: one_pbuf_def)
  then show ?thesis by (simp add: dhcp_decode.simps [of q 4] t load32_def be_word lwip_ntohl_def)
qed

lemma decode_8:
  assumes "one_pbuf m q bs" "j + 8 \<le> length bs"
  shows "dhcp_decode q 8 i (int j) rx m = Some (ERR_OK, rx_bytes i (take 8 (drop j bs)) rx)"
proof -
  have t: "take 4 (drop j bs) = [bs ! j, bs ! (j + 1), bs ! (j + 2), bs ! (j + 3)]"
    "take 4 (drop (j + 4) bs) = [bs ! (j + 4), bs ! (j + 5), bs ! (j + 6), bs ! (j + 7)]"
    "take 8 (drop j bs) = [bs ! j, bs ! (j + 1), bs ! (j + 2), bs ! (j + 3), bs ! (j + 4), bs ! (j + 5), bs ! (j + 6), bs ! (j + 7)]"
    using assms(2) by (intro nth_equalityI; auto simp: less_Suc_eq numeral_eq_Suc)+
  have c: "pbuf_copy_partial (Some q) 4 (int j) m = Some (take 4 (drop j bs))"
    using one_pbuf_copy [OF assms(1), of 4 j] assms by (simp add: one_pbuf_def)
  have "c_u16 (int j + 4) = int (j + 4)" using assms by (simp add: one_pbuf_def c_u16_id)
  moreover have "dhcp_decode q 4 (i + 1) (int (j + 4)) rx' m = Some (ERR_OK, rx_bytes (i + 1) (take 4 (drop (j + 4) bs)) rx')" for rx'
    using decode_4 [OF assms(1), of "j + 4" "i + 1" rx'] assms(2) by simp
  ultimately show ?thesis using c
    by (simp add: dhcp_decode.simps [of q 8] t load32_def be_word del: of_nat_add) (auto simp: rx_set_def be_word)
qed

section \<open>The loop over the options\<close>

lemma option_case_wanted:
  assumes "sound_option (c, v)" "c \<noteq> 0"
  shows "dhcp_option_case c (int (length v)) =
    Some (case wanted (c, v) of None \<Rightarrow> (0, 0, int (length v)) | Some (i, w) \<Rightarrow> (int (length w), i, int (length v)))"
proof -
  have m: "int (length v) mod 4 = 0 \<longleftrightarrow> length v mod 4 = 0"
    using of_nat_eq_iff [where 'a = int, of "length v mod 4" 0] by (simp add: of_nat_mod)
  show ?thesis using assms
    by (auto simp: sound_option_def wanted_def dhcp_option_case_def dhcp_options DNS_MAX_SERVERS_def Let_def m min_def)
qed

lemma wanted_bytes:
  assumes "sound_option (c, v)" "wanted (c, v) = Some (i, w)"
  shows "w = take (length w) v" "length w \<in> {0, 1, 4, 8}"
proof -
  show "w = take (length w) v" using assms(2) by (auto simp: wanted_def min_def split: if_splits)
  have "length v mod 4 = 0 \<Longrightarrow> \<not> 8 \<le> length v \<Longrightarrow> length v = 0 \<or> length v = 4"
    by presburger
  then show "length w \<in> {0, 1, 4, 8}" using assms by (auto simp: sound_option_def wanted_def min_def split: if_splits)
qed

lemma decode_bytes:
  assumes "one_pbuf m q bs" "j + length w \<le> length bs" "take (length w) (drop j bs) = w" "length w \<in> {1, 4, 8}"
  shows "dhcp_decode q (int (length w)) i (int j) rx m = Some (ERR_OK, rx_bytes i w rx)"
proof -
  consider "length w = 1" | "length w = 4" | "length w = 8" using assms(4) by auto
  then show ?thesis
  proof cases
    case 1
    have j: "j < length bs" using assms(2) 1 by simp
    then have "w = [bs ! j]" using assms(3) 1 by (simp add: take_Suc_conv_app_nth)
    then show ?thesis using decode_1 [OF assms(1) j, of i rx] 1 by simp
  next
    case 2
    then show ?thesis using decode_4 [OF assms(1), of j i rx] assms(2,3) by simp
  next
    case 3
    then show ?thesis using decode_8 [OF assms(1), of j i rx] assms(2,3) by simp
  qed
qed

lemma parse_step:
  assumes q: "one_pbuf m q bs" and o: "take (length (enc_option x)) (drop o' bs) = enc_option x" "o' + length (enc_option x) < length bs"
    and x: "sound_option x" and mx: "length bs \<le> omax"
  shows "dhcp_parse_loop q (int o') (int omax) rx m =
    dhcp_parse_loop q (int (o' + length (enc_option x))) (int omax) (rx_option x rx) m"
proof -
  obtain c v where cv: "x = (c, v)" by (cases x)
  have len: "pb_len (p_pbufs m q) = int (length bs)" "length bs \<le> 65535" using q by (simp_all add: one_pbuf_def)
  have at: "bs ! (o' + j) = enc_option x ! j" if "j < length (enc_option x)" for j
    using arg_cong [OF o(1), of "\<lambda>l. l ! j"] o(2) that by simp
  have ne: "0 < length (enc_option x)" by (simp add: enc_option_def)
  have op: "get8 (pb_payload (p_pbufs m q)) (int o') m = c"
    using one_pbuf_get8 [OF q, of o'] at [OF ne] o(2) by (simp add: cv enc_option_def split: if_splits)
  have c255: "c \<noteq> DHCP_OPTION_END" using x by (simp add: cv sound_option_def DHCP_OPTION_END_def)
  have lt: "int o' < int omax" using o(2) mx by simp
  show ?thesis
  proof (cases "c = 0")
    case True
    have "c_u16 (c_u16 (int o' - 1) + 0 + 2) = int (o' + 1)"
      using o(2) len(2) ne by (simp add: c_u16_def mod_simps)
    moreover have "length (enc_option x) = 1" "rx_option x rx = rx" using True by (simp_all add: cv enc_option_def rx_option_def wanted_def)
    moreover have "dhcp_option_case 0 n = Some (0, 0, 0)" for n by (simp add: dhcp_option_case_def DHCP_OPTION_PAD_def Let_def)
    moreover have "\<not> int (o' + 1) \<ge> int (length bs)" using o(2) calculation(2) by simp
    ultimately show ?thesis using op c255 lt True len(1)
      by (subst dhcp_parse_loop.simps) (simp add: Let_def DHCP_OPTION_PAD_def del: of_nat_add)
  next
    case False
    have e: "enc_option x = c # of_nat (length v) # v" "length (enc_option x) = length v + 2" using False by (simp_all add: cv enc_option_def)
    have lv: "length v \<le> 255" using x by (simp add: cv sound_option_def)
    have g: "get8 (pb_payload (p_pbufs m q)) (int (o' + 1)) m = of_nat (length v)"
      using one_pbuf_get8 [OF q, of "o' + 1"] at [of 1] o(2) e by simp
    have u: "uint (of_nat (length v) :: u8_t) = int (length v)" using lv by (simp add: uint_nat unat_of_nat)
    have lt1: "int o' + 1 < int (length bs)" and i1: "int o' + 1 = int (o' + 1)" using o(2) e(2) by simp_all
    have ol: "dhcp_option_len q (int o') m = int (length v)"
      using lt1 u unfolding dhcp_option_len_def len(1) i1 g by (simp only: if_True)
    have "drop 2 (take (length v + 2) (drop o' bs)) = v" using o(1) unfolding e(2) unfolding e(1) by (simp only: drop_Suc numeral_2_eq_2 list.sel drop_0)
    then have v: "take (length v) (drop (o' + 2) bs) = v" unfolding drop_take drop_drop by (simp only: add_diff_cancel_right' add.commute)
    have off: "c_u16 (int o' + 2) = int (o' + 2)" "c_u16 (int o' + int (length v) + 2) = int (o' + length (enc_option x))"
      using o(2) len(2) e(2) by (simp_all add: c_u16_id)
    have dec: "(if (case wanted x of None \<Rightarrow> 0 | Some (i, w) \<Rightarrow> int (length w)) > 0
        then dhcp_decode q (case wanted x of None \<Rightarrow> 0 | Some (i, w) \<Rightarrow> int (length w)) (case wanted x of None \<Rightarrow> 0 | Some (i, w) \<Rightarrow> i) (int (o' + 2)) rx m
        else Some (ERR_OK, rx)) = Some (ERR_OK, rx_option x rx)"
    proof (cases "wanted x")
      case None
      then show ?thesis by (simp add: rx_option_def)
    next
      case (Some iw)
      obtain i w where iw: "iw = (i, w)" by (cases iw)
      note w = wanted_bytes [OF x [unfolded cv], of i w]
      have w1: "w = take (length w) v" "length w \<in> {0, 1, 4, 8}" using w Some by (simp_all add: iw cv)
      have lw: "length w \<le> length v" using arg_cong [OF w1(1), of length] by simp
      have "take (length w) (drop (o' + 2) bs) = w"
        using arg_cong [OF v, of "take (length w)"] w1(1) lw by (simp add: min_def)
      then show ?thesis using decode_bytes [OF q, of "o' + 2" w i rx] w1(2) lw o(2) e(2) Some
        by (auto simp: iw rx_option_def)
    qed
    have case1: "dhcp_option_case c (int (length v)) = Some ((case wanted x of None \<Rightarrow> 0 | Some (i, w) \<Rightarrow> int (length w)),
        (case wanted x of None \<Rightarrow> 0 | Some (i, w) \<Rightarrow> i), int (length v))"
      using option_case_wanted [OF x [unfolded cv] False] by (auto simp: cv split: option.splits)
    have nge: "\<not> int (o' + length (enc_option x)) \<ge> int (length bs)" using o(2) by simp
    have pad: "c \<noteq> DHCP_OPTION_PAD" using False by (simp add: DHCP_OPTION_PAD_def)
    have cond: "c \<noteq> DHCP_OPTION_END \<and> int o' < int omax" using c255 lt by simp
    show ?thesis
      by (subst dhcp_parse_loop.simps)
        (simp only: Let_def op cond if_True ol case1 option.case prod.case pad if_False off dec Option.bind.simps len(1) nge simp_thms)
  qed
qed

lemma parse_end:
  assumes q: "one_pbuf m q bs" and o: "o' < length bs" "bs ! o' = 255"
  shows "dhcp_parse_loop q (int o') omax rx m = Some (ERR_OK, rx)"
proof -
  have op: "get8 (pb_payload (p_pbufs m q)) (int o') m = DHCP_OPTION_END" using one_pbuf_get8 [OF q o(1)] o(2) by (simp add: DHCP_OPTION_END_def)
  show ?thesis by (subst dhcp_parse_loop.simps) (simp add: op Let_def)
qed

lemma parse_options:
  assumes q: "one_pbuf m q bs" and mx: "length bs \<le> omax"
  shows "take (length (enc_options xs) + 1) (drop o' bs) = enc_options xs @ [255] \<Longrightarrow> o' + length (enc_options xs) < length bs \<Longrightarrow>
    \<forall>x\<in>set xs. sound_option x \<Longrightarrow> dhcp_parse_loop q (int o') (int omax) rx m = Some (ERR_OK, fold rx_option xs rx)"
proof (induction xs arbitrary: o' rx)
  case Nil
  then have "take 1 (drop o' bs) = [255]" "o' < length bs" by (simp_all add: enc_options_def)
  then have "bs ! o' = 255" by (simp add: take_Suc_conv_app_nth)
  then show ?case using parse_end [OF q \<open>o' < length bs\<close>] by simp
next
  case (Cons x xs)
  let ?k = "length (enc_option x)" let ?n = "length (enc_options xs)"
  have e: "enc_options (x # xs) = enc_option x @ enc_options xs" by (simp add: enc_options_def)
  have l: "length (enc_option x @ enc_options xs) + 1 = ?k + (?n + 1)" by simp
  have all: "take ?k (drop o' bs) @ take (?n + 1) (drop (o' + ?k) bs) = enc_option x @ (enc_options xs @ [255])"
    using Cons.prems(1) unfolding e l unfolding take_add [of ?k "?n + 1"] drop_drop by (simp only: append_assoc add.commute [of ?k])
  have lt: "o' + ?k + ?n < length bs" using Cons.prems(2) e by simp
  then have "length (take ?k (drop o' bs)) = ?k" by simp
  with all have s: "take ?k (drop o' bs) = enc_option x" "take (?n + 1) (drop (o' + ?k) bs) = enc_options xs @ [255]"
    using append_eq_append_conv [of "take ?k (drop o' bs)" "enc_option x"] by blast+
  have "dhcp_parse_loop q (int o') (int omax) rx m = dhcp_parse_loop q (int (o' + ?k)) (int omax) (rx_option x rx) m"
    using parse_step [OF q s(1) _ _ mx] lt Cons.prems(3) by simp
  also have "\<dots> = Some (ERR_OK, fold rx_option xs (rx_option x rx))"
    using Cons.IH [OF s(2)] lt Cons.prems(3) by simp
  finally show ?case by simp
qed

text \<open>None of them asks to read the other fields of the message.\<close>

lemma rx_bytes_overload: "0 < i \<Longrightarrow> fst (rx_bytes i v rx) 0 = fst rx 0"
  by (induction i v rx rule: rx_bytes.induct) (auto simp: rx_set_def)

lemma rx_options_overload: "fst (fold rx_option xs rx) DHCP_OPTION_IDX_OVERLOAD = fst rx DHCP_OPTION_IDX_OVERLOAD"
proof (induction xs arbitrary: rx)
  case (Cons x xs)
  have "0 < i" if "wanted x = Some (i, v)" for i v using that by (cases x) (auto simp: wanted_def dhcp_option_idx split: if_splits)
  then have "fst (rx_option x rx) 0 = fst rx 0" by (auto simp: rx_option_def rx_bytes_overload split: option.splits)
  then show ?case using Cons.IH [of "rx_option x rx"] by (simp add: DHCP_OPTION_IDX_OVERLOAD_def)
qed simp

lemma parse_start:
  assumes "one_pbuf m q bs" "i < length bs"
  shows "dhcp_parse_start (Some q) (int i) mx m = Some (Some (q, int i, mx))"
  using assms by (subst dhcp_parse_start.simps) (simp add: one_pbuf_def)

text \<open>C20: \<open>dhcp_parse_reply\<close> reads back every list of options of a message in one packet buffer (with an end, without
  overloaded fields): of each option it knows, the first occurrence gives its value, addresses and times in network order;
  unknown options and padding are skipped.\<close>
theorem dhcp_parse_reads_options:
  fixes s :: "('x, 'm) lwip_net"
  assumes "one_pbuf (n_mem s) p (hdr @ enc_options xs @ [255] @ rest)" and "length hdr = 240" and "\<forall>x\<in>set xs. sound_option x"
  shows "\<exists>s'. dhcp_parse_reply k p s = Some (ERR_OK, s') \<and> n_mem s' = n_mem s \<and>
    (dhcp_rx_options_given (n_dev s'), dhcp_rx_options_val (n_dev s')) =
      fold rx_option xs (\<lambda>_. False, dhcp_rx_options_val (n_dev s))"
proof -
  let ?bs = "hdr @ enc_options xs @ [255] @ rest"
  let ?s0 = "upd_lwip (\<lambda>v. v\<lparr>dhcp_rx_options_given := (\<lambda>_. False)\<rparr>) s"
  let ?s = "upd_dhcp k (\<lambda>d. d\<lparr>d_msg_in := Some (payload_of p ?s0)\<rparr>) ?s0"
  let ?none = "(\<lambda>_. False, dhcp_rx_options_val (n_dev s)) :: dhcp_rx" let ?rx = "fold rx_option xs ?none"
  have s: "n_mem ?s = n_mem s" "n_mem ?s0 = n_mem s" "dhcp_rx_options_given (n_dev ?s) = (\<lambda>_. False)"
    "dhcp_rx_options_val (n_dev ?s) = dhcp_rx_options_val (n_dev s)"
    by (simp_all add: upd_dhcp_def upd_lwip_def)
  have len: "pb_len (p_pbufs (n_mem s) p) = int (length ?bs)" "pb_tot_len (p_pbufs (n_mem s) p) = int (length ?bs)"
    using assms(1) by (simp_all only: one_pbuf_def)
  have start: "dhcp_parse_start (Some p) DHCP_OPTIONS_OFS (int (length ?bs)) (n_mem s) = Some (Some (p, int 240, int (length ?bs)))"
    using parse_start [OF assms(1), of 240] assms(2) by (simp add: dhcp_offsets)
  have "take (length (enc_options xs) + 1) (drop 240 ?bs) = enc_options xs @ [255]" "240 + length (enc_options xs) < length ?bs"
    using assms(2) by simp_all
  from parse_options [OF assms(1) le_refl this assms(3), of ?none]
  have loop: "dhcp_parse_loop p (int 240) (int (length ?bs)) ?none (n_mem s) = Some (ERR_OK, ?rx)" .
  have ov: "dhcp_overload (False, False) ?rx = (False, False, ?rx)"
    using rx_options_overload [of xs ?none] by (simp add: dhcp_overload_def)
  have flds: "dhcp_parse_fields p DHCP_OPTIONS_OFS (int (length ?bs)) (False, False) ?none (n_mem s) = Some (ERR_OK, ?rx)"
    by (subst dhcp_parse_fields.simps) (simp only: start loop ov Option.bind.simps option.case prod.case if_False simp_thms)
  have long: "\<not> pb_len (p_pbufs (n_mem s) p) < DHCP_SNAME_OFS" unfolding len using assms(2) by (simp add: dhcp_offsets)
  have "dhcp_parse_reply k p s = Some (ERR_OK, upd_lwip (\<lambda>v. v\<lparr>dhcp_rx_options_given := fst ?rx, dhcp_rx_options_val := snd ?rx\<rparr>) ?s)"
    using long flds by (cases ?rx) (simp add: dhcp_parse_reply_def Let_def upd_dhcp_def len)
  then show ?thesis using s(1) by (intro exI [of _ "upd_lwip (\<lambda>v. v\<lparr>dhcp_rx_options_given := fst ?rx, dhcp_rx_options_val := snd ?rx\<rparr>) ?s"]) (simp add: upd_lwip_def)
qed

section \<open>A message that is never parsed to its end\<close>

lemma parse_overload:
  assumes q: "one_pbuf m q bs" and o: "o' + 3 < length bs" "bs ! o' = 52" "bs ! (o' + 1) = 1" "bs ! (o' + 2) = 1" "bs ! (o' + 3) = 255"
    and mx: "int o' + 3 \<le> omax"
  shows "dhcp_parse_loop q (int o') omax rx m = Some (ERR_OK, rx_bytes DHCP_OPTION_IDX_OVERLOAD [1] rx)"
proof -
  have len: "pb_len (p_pbufs m q) = int (length bs)" "length bs \<le> 65535" using q by (simp_all add: one_pbuf_def)
  have op: "get8 (pb_payload (p_pbufs m q)) (int o') m = DHCP_OPTION_OVERLOAD"
    using one_pbuf_get8 [OF q, of o'] o by (simp add: DHCP_OPTION_OVERLOAD_def)
  have g: "get8 (pb_payload (p_pbufs m q)) (int (o' + 1)) m = 1" using one_pbuf_get8 [OF q, of "o' + 1"] o by simp
  have lt1: "int o' + 1 < int (length bs)" and i1: "int o' + 1 = int (o' + 1)" using o(1) by simp_all
  have ol: "dhcp_option_len q (int o') m = 1" using lt1 unfolding dhcp_option_len_def len(1) i1 g by (simp only: if_True) simp
  have c: "dhcp_option_case DHCP_OPTION_OVERLOAD 1 = Some (1, DHCP_OPTION_IDX_OVERLOAD, 1)"
    by (simp add: dhcp_option_case_def dhcp_options Let_def)
  have off: "c_u16 (int o' + 2) = int (o' + 2)" "c_u16 (int o' + 1 + 2) = int (o' + 3)" using o(1) len(2) by (simp_all add: c_u16_id)
  have dec: "dhcp_decode q 1 DHCP_OPTION_IDX_OVERLOAD (int (o' + 2)) rx m = Some (ERR_OK, rx_bytes DHCP_OPTION_IDX_OVERLOAD [1] rx)"
    using decode_1 [OF q, of "o' + 2"] o by simp
  have nge: "\<not> int (o' + 3) \<ge> int (length bs)" "(0 :: int) < 1" "int o' < omax" using o(1) mx by simp_all
  have ne: "DHCP_OPTION_OVERLOAD \<noteq> DHCP_OPTION_END" "DHCP_OPTION_OVERLOAD \<noteq> DHCP_OPTION_PAD" by (simp_all add: dhcp_options)
  have "dhcp_parse_loop q (int o') omax rx m = dhcp_parse_loop q (int (o' + 3)) omax (rx_bytes DHCP_OPTION_IDX_OVERLOAD [1] rx) m"
    by (subst dhcp_parse_loop.simps)
      (simp only: Let_def op ne ol c option.case prod.case if_False if_True off dec Option.bind.simps len(1) nge simp_thms)
  also have "\<dots> = Some (ERR_OK, rx_bytes DHCP_OPTION_IDX_OVERLOAD [1] rx)"
    using parse_end [OF q, of "o' + 3"] o by simp
  finally show ?thesis .
qed

text \<open>The bytes of the option OVERLOAD with the value 1 and of the end, at \<open>o'\<close>.\<close>

definition overloads_file :: "u8_t list \<Rightarrow> nat \<Rightarrow> bool" where
  "overloads_file bs j \<longleftrightarrow> j + 3 < length bs \<and> bs ! j = 52 \<and> bs ! (j + 1) = 1 \<and> bs ! (j + 2) = 1 \<and> bs ! (j + 3) = 255"

lemma overload_again:
  assumes q: "one_pbuf m q bs" and b: "overloads_file bs j" "int j + 3 \<le> mx" and rx: "\<not> fst rx DHCP_OPTION_IDX_OVERLOAD"
  shows "dhcp_parse_start (Some q) (int j) mx m = Some (Some (q, int j, mx))"
    "dhcp_parse_loop q (int j) mx rx m = Some (ERR_OK, rx_set DHCP_OPTION_IDX_OVERLOAD 1 rx)"
    "dhcp_overload fs (rx_set DHCP_OPTION_IDX_OVERLOAD 1 rx) = (True, snd fs, (fst rx, (snd rx)(DHCP_OPTION_IDX_OVERLOAD := 1)))"
proof -
  have o: "j + 3 < length bs" "bs ! j = 52" "bs ! (j + 1) = 1" "bs ! (j + 2) = 1" "bs ! (j + 3) = 255"
    using b(1) by (simp_all add: overloads_file_def)
  show "dhcp_parse_start (Some q) (int j) mx m = Some (Some (q, int j, mx))" using parse_start [OF q] o(1) by simp
  show "dhcp_parse_loop q (int j) mx rx m = Some (ERR_OK, rx_set DHCP_OPTION_IDX_OVERLOAD 1 rx)"
    using parse_overload [OF q o b(2), of rx] rx by simp
  have "(fst rx)(DHCP_OPTION_IDX_OVERLOAD := False) = fst rx" using rx by (simp add: fun_upd_idem)
  then show "dhcp_overload fs (rx_set DHCP_OPTION_IDX_OVERLOAD 1 rx) = (True, snd fs, (fst rx, (snd rx)(DHCP_OPTION_IDX_OVERLOAD := 1)))"
    by (simp add: dhcp_overload_def rx_set_def DHCP_OVERLOAD_FILE_def Let_def)
qed

lemma parse_file_never:
  assumes q: "one_pbuf m q bs" and b: "overloads_file bs 108" and rx: "\<not> fst rx DHCP_OPTION_IDX_OVERLOAD"
  shows "dhcp_parse_fields q DHCP_FILE_OFS (DHCP_FILE_OFS + int DHCP_FILE_LEN) (False, sn) rx m = None"
proof -
  let ?mx = "DHCP_FILE_OFS + int DHCP_FILE_LEN"
  have at: "DHCP_FILE_OFS = int 108" "int 108 + 3 \<le> ?mx" by (simp_all add: dhcp_offsets)
  note again = overload_again [OF q b at(2), folded at(1)]
  have "\<not> (idx = DHCP_FILE_OFS \<and> mx = ?mx \<and> fs = (False, sn) \<and> p = q \<and> m' = m \<and> \<not> fst r DHCP_OPTION_IDX_OVERLOAD)"
    if "dhcp_parse_fields p idx mx fs r m' = Some y" for p idx mx fs r m' y
    by (rule dhcp_parse_fields.raw_induct [OF _ that, where P = "\<lambda>p idx mx fs r m' y.
      \<not> (idx = DHCP_FILE_OFS \<and> mx = ?mx \<and> fs = (False, sn) \<and> p = q \<and> m' = m \<and> \<not> fst r DHCP_OPTION_IDX_OVERLOAD)"])
      (intro notI, elim conjE, simp add: again, force)
  then show ?thesis using rx by (cases "dhcp_parse_fields q DHCP_FILE_OFS ?mx (False, sn) rx m") auto
qed

text \<open>C22: a reply whose options say that the field \<open>file\<close> holds options, and whose field \<open>file\<close> says so again, is never parsed
  to its end: each pass over that field ends without an error and asks for the same pass again, so \<open>dhcp_recv\<close>
  does not return.\<close>
theorem dhcp_recv_hangs:
  fixes s :: "('x, 'm) lwip_net"
  assumes "the_netif k s = Some n" and "the_dhcp k s = Some d" and "dhcp_recv_check n d p (n_mem s)"
    and "one_pbuf (n_mem s) p bs" and "overloads_file bs 240" and "overloads_file bs 108"
  shows "(\<forall>rx fs. \<not> fst rx DHCP_OPTION_IDX_OVERLOAD \<longrightarrow>
      dhcp_parse_start (Some p) DHCP_FILE_OFS (DHCP_FILE_OFS + int DHCP_FILE_LEN) (n_mem s) =
        Some (Some (p, DHCP_FILE_OFS, DHCP_FILE_OFS + int DHCP_FILE_LEN)) \<and>
      (\<exists>rx'. dhcp_parse_loop p DHCP_FILE_OFS (DHCP_FILE_OFS + int DHCP_FILE_LEN) rx (n_mem s) = Some (ERR_OK, rx') \<and>
        (\<exists>rx''. dhcp_overload fs rx' = (True, snd fs, rx'') \<and> \<not> fst rx'' DHCP_OPTION_IDX_OVERLOAD))) \<and>
    dhcp_recv l a k p s = None"
proof
  have at: "DHCP_FILE_OFS = int 108" "int 108 + 3 \<le> DHCP_FILE_OFS + int DHCP_FILE_LEN" by (simp_all add: dhcp_offsets)
  note again = overload_again [OF assms(4,6) at(2), folded at(1)]
  show "\<forall>rx fs. \<not> fst rx DHCP_OPTION_IDX_OVERLOAD \<longrightarrow>
      dhcp_parse_start (Some p) DHCP_FILE_OFS (DHCP_FILE_OFS + int DHCP_FILE_LEN) (n_mem s) =
        Some (Some (p, DHCP_FILE_OFS, DHCP_FILE_OFS + int DHCP_FILE_LEN)) \<and>
      (\<exists>rx'. dhcp_parse_loop p DHCP_FILE_OFS (DHCP_FILE_OFS + int DHCP_FILE_LEN) rx (n_mem s) = Some (ERR_OK, rx') \<and>
        (\<exists>rx''. dhcp_overload fs rx' = (True, snd fs, rx'') \<and> \<not> fst rx'' DHCP_OPTION_IDX_OVERLOAD))"
    using again by auto
  let ?none = "(\<lambda>_. False, dhcp_rx_options_val (n_dev s)) :: dhcp_rx"
  have o: "DHCP_OPTIONS_OFS = int 240" "int 240 + 3 \<le> int (length bs)" using assms(5) by (simp_all add: dhcp_offsets overloads_file_def)
  have none: "\<not> fst ?none DHCP_OPTION_IDX_OVERLOAD" by simp
  note first = overload_again [OF assms(4,5) o(2) none, folded o(1)]
  have "dhcp_parse_fields p DHCP_OPTIONS_OFS (int (length bs)) (False, False) ?none (n_mem s) =
      dhcp_parse_fields p DHCP_FILE_OFS (DHCP_FILE_OFS + int DHCP_FILE_LEN) (False, False)
        (fst ?none, (snd ?none)(DHCP_OPTION_IDX_OVERLOAD := 1)) (n_mem s)"
    by (subst dhcp_parse_fields.simps) (simp only: first Option.bind.simps option.case prod.case if_True if_False simp_thms snd_conv)
  then have never: "dhcp_parse_fields p DHCP_OPTIONS_OFS (int (length bs)) (False, False) ?none (n_mem s) = None"
    using parse_file_never [OF assms(4,6), of "(fst ?none, (snd ?none)(DHCP_OPTION_IDX_OVERLOAD := 1))" False] by simp
  have len: "pb_len (p_pbufs (n_mem s) p) = int (length bs)" "pb_tot_len (p_pbufs (n_mem s) p) = int (length bs)"
    using assms(4) by (simp_all add: one_pbuf_def)
  have long: "\<not> int (length bs) < DHCP_SNAME_OFS" using o by (simp add: dhcp_offsets)
  have "dhcp_parse_reply k p s = None"
    using never long by (simp add: dhcp_parse_reply_def Let_def upd_dhcp_def len)
  then show "dhcp_recv l a k p s = None" using assms(1-3) by (simp add: dhcp_recv_def)
qed

end
