(* ===== verification/TcpDemo.thy ===== *)
theory TcpDemo
  imports TcpIn IpProps
begin

text \<open>
  A state of the whole stack with TCP, at which the properties of TCP are instantiated: an interface
  with the address 10.0.0.9 over the empty transmit ring of the driver, and one connection, number 0,
  from its port 80 to port 5000 of 10.0.0.1.
\<close>

declare split_paired_All [simp del] split_paired_Ex [simp del]

definition demo_pcb :: tcp_pcb where
  "demo_pcb = (tcp_pcb_init 64 1000 5 0)\<lparr>t_local_ip := u32_le 10 0 0 9, t_remote_ip := u32_le 10 0 0 1, t_local_port := 80,
     t_remote_port := 5000, t_state := ESTABLISHED, t_rcv_nxt := 500, t_rcv_ann_right_edge := 500 + 2920, t_cwnd := 2920, t_snd_wnd := 8000,
     t_snd_wnd_max := 8000, t_mss := 1460\<rparr>"

definition demo_tcp_vars :: "eth_dev tcp_vars" where
  "demo_tcp_vars = \<lparr>ip_dev = demo_up, ip_id = 7, netif_list = [demo_netif], netif_default = Some 0, current_netif = None,
     current_header = None, current_src = u32_le 10 0 0 1, current_dest = u32_le 10 0 0 9, reassdatagrams = None,
     ip_reass_pbufcount = 0, reass_tab = (\<lambda>i. \<lparr>ir_next = None, ir_p = None, ir_iphdr = [], ir_datagram_len = 0, ir_flags = 0, ir_timer = 0\<rparr>),
     reass_helper = (\<lambda>a. \<lparr>rh_next_pbuf = None, rh_start = 0, rh_end = 0\<rparr>),
     raw_pcbs = None, raw_tab = (\<lambda>i. \<lparr>r_local_ip = 0, r_remote_ip = 0, r_so_options = 0, r_tos = 0, r_ttl = 0, r_next = None, r_protocol = 0, r_recv = None,
       r_recv_arg = 0\<rparr>),
     udp_port = 0xc000, udp_pcbs = None, udp_tab = (\<lambda>i. udp_pcb_zero), dhcp_pcb = (\<lambda>k. None),
     tcp_port = 0xc000, tcp_ticks = 5, tcp_timer = 0, tcp_timer_ctr = 0, tcp_iss = 6510, tcp_bound_pcbs = None, tcp_listen_pcbs = None,
     tcp_active_pcbs = Some 0, tcp_tw_pcbs = None, tcp_active_pcbs_changed = False, tcp_input_pcb = None, tcp_tab = (\<lambda>i. demo_pcb),
     lpcb_tab = (\<lambda>i. \<lparr>l_local_ip = 0, l_so_options = 0, l_tos = 0, l_ttl = 0, l_next = None, l_callback_arg = 0, l_accept = None, l_state = CLOSED,
       l_prio = 0, l_local_port = 0\<rparr>),
     seg_tab = (\<lambda>i. \<lparr>seg_next = None, seg_p = None, seg_len = 0, seg_flags = 0, seg_tcphdr = (RPool 0, 0)\<rparr>), inseg_p = None, inseg_len = 0,
     in_tcphdr = (RPool 0, 0), in_seqno = 0, in_ackno = 0, in_flags = 0, in_tcplen = 0, recv_flags = 0, recv_data = None\<rparr>"

definition demo_tcp :: "pstate \<Rightarrow> eth_dev tcp_vars net" where
  "demo_tcp m = \<lparr>n_mem = m, n_arp = demo_table, n_cached = 0, n_dev = demo_tcp_vars\<rparr>"

definition demo_tcp_link :: "eth_dev tcp_vars link_if" where
  "demo_tcp_link = \<lparr>linkoutput = ip_linkoutput, ip_input = (\<lambda>p netif s. Some s), dhcp_arp_reply = (\<lambda>netif a s. Some s),
     custom_free = (\<lambda>p m. None)\<rparr>"

definition demo_tcp_app :: "eth_dev tcp_vars tcp_app" where
  "demo_tcp_app = \<lparr>app_accept = (\<lambda>f a i e s. Some (ERR_OK, s)), app_sent = (\<lambda>f a i n s. Some (ERR_OK, s)),
     app_recv = (\<lambda>f a i p e s. Some (ERR_OK, s)), app_connected = (\<lambda>f a i e s. Some (ERR_OK, s)),
     app_poll = (\<lambda>f a i s. Some (ERR_OK, s)), app_errf = (\<lambda>f a e s. Some s), timer_needed = (\<lambda>s. s)\<rparr>"

lemma demo_tcp_sel [simp]: "n_mem (demo_tcp m) = m" "n_arp (demo_tcp m) = demo_table" "n_cached (demo_tcp m) = 0"
  "n_dev (demo_tcp m) = demo_tcp_vars"
  by (simp_all add: demo_tcp_def)

lemma demo_tcp_vars_sel [simp]:
  "ip_dev demo_tcp_vars = demo_up" "ip_id demo_tcp_vars = 7" "netif_list demo_tcp_vars = [demo_netif]" "netif_default demo_tcp_vars = Some 0"
  "current_src demo_tcp_vars = u32_le 10 0 0 1" "current_dest demo_tcp_vars = u32_le 10 0 0 9" "tcp_tab demo_tcp_vars = (\<lambda>i. demo_pcb)"
  "tcp_active_pcbs demo_tcp_vars = Some 0" "tcp_bound_pcbs demo_tcp_vars = None" "tcp_tw_pcbs demo_tcp_vars = None"
  "tcp_listen_pcbs demo_tcp_vars = None" "tcp_ticks demo_tcp_vars = 5" "tcp_timer_ctr demo_tcp_vars = 0" "tcp_port demo_tcp_vars = 0xc000"
  by (simp_all add: demo_tcp_vars_def)

lemma demo_tcp_can_send: "can_send demo_tcp_link demo_netif (u32_le 10 0 0 1) [2, 0, 0, 0, 0, 7] [] (demo_tcp m)"
  using demo_up_holds demo_dest demo_table_ok
  by (auto simp: can_send_def demo_tcp_link_def ip_queue_def eth_queue_def ETH_TXBUFNB_def ARP_TABLE_SIZE_def demo_net_def demo_netif_def)

end
