(* ===== verification/DhcpDemo.thy ===== *)
theory DhcpDemo
  imports DhcpProps DhcpParse TcpDemo
begin

text \<open>
  A state of the stack with a DHCP client, at which the properties of the client are instantiated: the interface of
  \<open>TcpDemo\<close> with the number 0, an empty ARP table, no connections, and a control block of UDP bound to port 68.
\<close>

declare split_paired_All [simp del] split_paired_Ex [simp del]

definition demo_dhcp :: "dhcp_state \<Rightarrow> int \<Rightarrow> dhcp" where
  "demo_dhcp st tries = (dhcp_zero (RHeap, 8))\<lparr>d_state := st, d_tries := tries, d_msg_in := Some (RPool 0, 60), d_server_ip_addr := u32_le 10 0 0 1,
     d_offered_ip_addr := u32_le 10 0 0 7, d_offered_t0_lease := 3600, d_offered_t1_renew := 1800, d_offered_t2_rebind := 3150\<rparr>"

definition demo_lwip_vars :: "dhcp \<Rightarrow> eth_dev lwip_vars" where
  "demo_lwip_vars d = tcp_vars.extend
     (demo_tcp_vars\<lparr>udp_tab := (\<lambda>i. udp_pcb_zero\<lparr>u_local_port := 68, u_ttl := 255\<rparr>), dhcp_pcb := (\<lambda>k. Some 0), tcp_active_pcbs := None\<rparr>)
     (lwip_vars.fields 1 (\<lambda>k. (101, 110)) (\<lambda>k. if k = 0 then Some d else None) 0xABCD0000 (\<lambda>i. if i = 2 then 0x0A000001 else 0) (\<lambda>i. i = 2))"

definition demo_lwip :: "dhcp \<Rightarrow> eth_dev lwip_vars net" where
  "demo_lwip d = \<lparr>n_mem = demo_state, n_arp = replicate 10 blank_entry, n_cached = 0, n_dev = demo_lwip_vars d\<rparr>"

definition demo_lwip_link :: "eth_dev lwip_vars link_if" where
  "demo_lwip_link = \<lparr>linkoutput = ip_linkoutput, ip_input = (\<lambda>p netif s. Some s), dhcp_arp_reply = (\<lambda>netif a s. Some s),
     custom_free = (\<lambda>p m. None)\<rparr>"

definition demo_lwip_app :: "eth_dev lwip_vars tcp_app" where
  "demo_lwip_app = \<lparr>app_accept = (\<lambda>f a i e s. Some (ERR_OK, s)), app_sent = (\<lambda>f a i n s. Some (ERR_OK, s)),
     app_recv = (\<lambda>f a i p e s. Some (ERR_OK, s)), app_connected = (\<lambda>f a i e s. Some (ERR_OK, s)),
     app_poll = (\<lambda>f a i s. Some (ERR_OK, s)), app_errf = (\<lambda>f a e s. Some s), timer_needed = (\<lambda>s. s)\<rparr>"

lemma demo_lwip_sel [simp]:
  "n_mem (demo_lwip d) = demo_state" "n_arp (demo_lwip d) = replicate 10 blank_entry" "n_cached (demo_lwip d) = 0"
  "ip_dev (n_dev (demo_lwip d)) = demo_up" "ip_id (n_dev (demo_lwip d)) = 7" "netif_list (n_dev (demo_lwip d)) = [demo_netif]"
  "udp_tab (n_dev (demo_lwip d)) = (\<lambda>i. udp_pcb_zero\<lparr>u_local_port := 68, u_ttl := 255\<rparr>)" "dhcp_pcb (n_dev (demo_lwip d)) = (\<lambda>k. Some 0)"
  "tcp_active_pcbs (n_dev (demo_lwip d)) = None" "tcp_listen_pcbs (n_dev (demo_lwip d)) = None"
  "dhcp_global_xid (n_dev (demo_lwip d)) = 0xABCD0000" "the_dhcp 0 (demo_lwip d) = Some d" "the_netif 0 (demo_lwip d) = Some demo_netif"
  "dhcp_rx_given i (demo_lwip d) = (i = 2)" "dhcp_rx_value i (demo_lwip d) = (if i = 2 then 0x0A000001 else 0)"
  by (simp_all add: demo_lwip_def demo_lwip_vars_def tcp_vars.defs lwip_vars.defs the_dhcp_def the_netif_def netif_of_def demo_netif_def
      dhcp_rx_given_def dhcp_rx_value_def)

lemma demo_dhcp_sel [simp]:
  "d_state (demo_dhcp st t) = st" "d_tries (demo_dhcp st t) = t" "d_msg_in (demo_dhcp st t) = Some (RPool 0, 60)"
  "d_offered_ip_addr (demo_dhcp st t) = u32_le 10 0 0 7" "d_offered_t1_renew (demo_dhcp st t) = 1800" "d_offered_t2_rebind (demo_dhcp st t) = 3150"
  "d_t1_timeout (demo_dhcp st t) = 0" "d_t2_timeout (demo_dhcp st t) = 0"
  by (simp_all add: demo_dhcp_def dhcp_zero_def)

lemma demo_empty_table: "arp_ok (replicate 10 blank_entry)" "no_waiting (demo_lwip d)"
  by (auto simp: arp_ok_def no_waiting_def blank_entry_def ARP_TABLE_SIZE_def entry_ok_def used_def)

lemma demo_dhcp_can_send:
  assumes "dst = IPADDR_BROADCAST \<or> dst = IPADDR_ANY"
  shows "dhcp_can_send demo_lwip_link demo_netif dst [0xff, 0xff, 0xff, 0xff, 0xff, 0xff] [] 0 (demo_lwip d)"
  using assms demo_up_holds demo_empty_table
  by (auto simp: dhcp_can_send_def can_send_def demo_lwip_link_def ip_queue_def eth_queue_def ETH_TXBUFNB_def ARP_TABLE_SIZE_def link_dest_def
      ip4_addr_isbroadcast_def IPADDR_BROADCAST_def IPADDR_ANY_def demo_netif_def udp_pcb_zero_def)

lemma demo_heap_fresh: "heap_inv (p_heap demo_state) [(0, 16000, False)]" "mem_malloc 380 (p_heap demo_state) \<noteq> Some (None, p_heap demo_state)"
  "\<exists>h. mem_malloc 380 (p_heap demo_state) = Some (Some 8, h)"
proof -
  show i: "heap_inv (p_heap demo_state) [(0, 16000, False)]" using mem_init_inv by (simp add: demo_state_def MEM_SIZE_ALIGNED_def)
  have "request_size 380 = 380" by (simp add: request_size_def LWIP_MEM_ALIGN_SIZE_eq c_u16_def mem_consts)
  then show "\<exists>h. mem_malloc 380 (p_heap demo_state) = Some (Some 8, h)"
    using mem_malloc_first_fit [OF i, of 380] by (auto simp: mem_consts)
  then show "mem_malloc 380 (p_heap demo_state) \<noteq> Some (None, p_heap demo_state)" by auto
qed

lemma demo_lwip_heap: "heap_inv (p_heap (n_mem (demo_lwip d))) [(0, 16000, False)]"
  using demo_heap_fresh(1) by simp

section \<open>Witnesses\<close>

theorem dhcp_discover_frame_witness:
  "\<exists>s' d'. dhcp_discover demo_lwip_link 0 (demo_lwip (demo_dhcp DHCP_OFF 0)) = Some (ERR_OK, s') \<and> the_dhcp 0 s' = Some d' \<and>
     d_state d' = DHCP_SELECTING \<and> d_tries d' = 1 \<and> d_request_timeout d' = 4 \<and> d_xid d' = 0xABCD0001 \<and>
     eth_queue (ip_dev (n_dev s')) [dhcp_frame demo_netif [0xff, 0xff, 0xff, 0xff, 0xff, 0xff] IPADDR_BROADCAST 7
       (udp_pcb_zero\<lparr>u_local_port := 68, u_ttl := 255\<rparr>) 0xABCD0001 0 [53, 1, 1, 57, 2, 0x05, 0xdc, 55, 4, 1, 3, 28, 6]]"
proof -
  let ?s = "demo_lwip (demo_dhcp DHCP_OFF 0)"
  have mtu: "rev (u16_bytes (word_of_int (nif_mtu demo_netif))) = [0x05, 0xdc]" by (simp add: u16_bytes_def byte_of_def demo_netif_def)
  from dhcp_discover_frame [where s = ?s and d = "demo_dhcp DHCP_OFF 0" and k = 0, OF _ _ _ demo_dhcp_can_send [OF disjI1 [OF refl]] demo_lwip_heap refl _ _ refl]
  show ?thesis using demo_heap_fresh(2) by (simp add: mtu) metis
qed

theorem dhcp_offer_requested_witness:
  "\<exists>s' d'. dhcp_react demo_lwip_link demo_lwip_app 0 DHCP_OFFER (demo_lwip (demo_dhcp DHCP_SELECTING 1)) = Some s' \<and> the_dhcp 0 s' = Some d' \<and>
     d_state d' = DHCP_REQUESTING \<and> d_server_ip_addr d' = u32_le 10 0 0 1 \<and> d_xid d' = 0xABCD0001"
proof -
  let ?s = "demo_lwip (demo_dhcp DHCP_SELECTING 1)"
  obtain h where h: "mem_malloc 380 (p_heap (n_mem ?s)) = Some (Some 8, h)" using demo_heap_fresh(3) by auto
  have a: "lwip_htonl 0x0A000001 = u32_le 10 0 0 1" by (simp add: lwip_htonl_def u32_le_def)
  from dhcp_offer_requested [where s = ?s and d = "demo_dhcp DHCP_SELECTING 1" and k = 0 and l = demo_lwip_link and ap = demo_lwip_app,
      OF _ _ _ demo_dhcp_can_send [OF disjI1 [OF refl]] demo_lwip_heap _ _ _ refl refl h]
  show ?thesis by (simp add: DHCP_OPTION_IDX_SERVER_ID_def a) metis
qed

theorem dhcp_release_nobody_witness:
  "\<exists>s' d'. dhcp_release demo_lwip_link demo_lwip_app 0 (demo_lwip (demo_dhcp DHCP_REBINDING 9)) = Some (ERR_OK, s') \<and> the_dhcp 0 s' = Some d' \<and>
     d_state d' = DHCP_OFF \<and> d_server_ip_addr d' = 0 \<and>
     eth_queue (ip_dev (n_dev s')) [dhcp_frame demo_netif [0xff, 0xff, 0xff, 0xff, 0xff, 0xff] 0 7
       (udp_pcb_zero\<lparr>u_local_port := 68, u_ttl := 255\<rparr>) 0xABCD0001 0 [53, 1, 7]]"
proof -
  let ?s = "demo_lwip (demo_dhcp DHCP_REBINDING 9)"
  obtain h where h: "mem_malloc 380 (p_heap (n_mem ?s)) = Some (Some 8, h)" using demo_heap_fresh(3) by auto
  from dhcp_release_nobody [where s = ?s and d = "demo_dhcp DHCP_REBINDING 9" and k = 0 and l = demo_lwip_link and ap = demo_lwip_app,
      OF _ _ _ demo_dhcp_can_send [OF disjI2 [OF refl]] demo_lwip_heap h]
  show ?thesis using demo_empty_table(2) by simp metis
qed

lemma demo_quiet: "quiet_for (u32_le 10 0 0 7) demo_netif (demo_lwip d)"
  by (simp add: quiet_for_def demo_netif_def NETIF_FLAG_UP_def)

lemma demo_mask: "dhcp_netmask (demo_dhcp st t) = u32_le 255 0 0 0" "dhcp_gateway (demo_dhcp st t) = u32_le 10 0 0 1"
  by (simp_all add: dhcp_netmask_def dhcp_gateway_def demo_dhcp_def dhcp_zero_def u32_le_def lwip_htonl_def IPADDR_ANY_def)

theorem dhcp_check_binds_witness:
  "\<exists>s' d'. dhcp_timeout demo_lwip_link demo_lwip_app 0 (demo_lwip (demo_dhcp DHCP_CHECKING 2)) = Some s' \<and> the_dhcp 0 s' = Some d' \<and>
     d_state d' = DHCP_BOUND \<and> d_t2_timeout d' = 53 \<and> d_t1_timeout d' = 30 \<and>
     the_netif 0 s' = Some (demo_netif\<lparr>nif_ip_addr := u32_le 10 0 0 7, nif_netmask := u32_le 255 0 0 0, nif_gw := u32_le 10 0 0 1\<rparr>)"
  using dhcp_check_binds [where s = "demo_lwip (demo_dhcp DHCP_CHECKING 2)" and d = "demo_dhcp DHCP_CHECKING 2" and k = 0 and l = demo_lwip_link
      and a = demo_lwip_app and n = demo_netif and ?t1.0 = 30 and ?t2.0 = 53] demo_quiet
  by (simp add: demo_mask)

theorem dhcp_renew_ack_ignored_witness:
  "\<exists>s' d'. dhcp_react demo_lwip_link demo_lwip_app 0 DHCP_ACK
       (upd_lwip (\<lambda>v. v\<lparr>dhcp_rx_options_given := (\<lambda>_. True), dhcp_rx_options_val := (\<lambda>_. 86400)\<rparr>)
         (set_mem demo_state (demo_lwip (demo_dhcp DHCP_RENEWING 1)))) = Some s' \<and>
     the_dhcp 0 s' = Some d' \<and> d_state d' = DHCP_BOUND \<and> d_offered_t0_lease d' = 3600 \<and>
     the_netif 0 s' = Some (demo_netif\<lparr>nif_ip_addr := u32_le 10 0 0 7, nif_netmask := u32_le 255 0 0 0, nif_gw := u32_le 10 0 0 1\<rparr>)"
proof -
  have t0: "d_offered_t0_lease (demo_dhcp DHCP_RENEWING 1) = 3600" by (simp add: demo_dhcp_def)
  show ?thesis
    using dhcp_renew_ack_ignored [where s = "demo_lwip (demo_dhcp DHCP_RENEWING 1)" and d = "demo_dhcp DHCP_RENEWING 1" and k = 0 and l = demo_lwip_link
        and a = demo_lwip_app and n = demo_netif and given = "\<lambda>_. True" and val = "\<lambda>_. 86400" and m = demo_state] demo_quiet t0
    by (simp add: demo_mask) metis
qed

theorem dhcp_coarse_tmr_wraps_witness:
  "coarse_ticks 65536 demo_lwip_link (demo_lwip (demo_dhcp DHCP_BOUND 0)) =
     map_option snd (dhcp_rebind demo_lwip_link 0 (upd_dhcp 0 (\<lambda>d. d\<lparr>d_t1_timeout := 1, d_t2_timeout := 0\<rparr>) (demo_lwip (demo_dhcp DHCP_BOUND 0))))"
proof -
  have k: "nif_num demo_netif = 0" by (simp add: demo_netif_def)
  show ?thesis
    using conjunct2 [OF dhcp_coarse_tmr_wraps [where s = "demo_lwip (demo_dhcp DHCP_BOUND 0)" and d = "demo_dhcp DHCP_BOUND 0" and n = demo_netif and l = demo_lwip_link, unfolded k]]
    by simp
qed

text \<open>A reply in one packet buffer.\<close>

lemma demo_one_pbuf: "length bs \<le> 1000 \<Longrightarrow> one_pbuf (n_mem (set_mem (demo_mem bs off) s)) q bs"
  using demo_mem_data [of bs off q] by (simp add: one_pbuf_def demo_mem_def demo_pb_def)

theorem dhcp_parse_reads_options_witness:
  "\<exists>s'. dhcp_parse_reply 0 (RPool 4, 0) (set_mem (demo_mem (replicate 240 0 @
       [53, 1, 2, 0, 54, 4, 10, 0, 0, 1, 43, 2, 7, 7, 51, 4, 0, 0, 0x0e, 0x10, 51, 4, 0, 0, 0, 1, 255]) 58) (demo_lwip (demo_dhcp DHCP_SELECTING 1))) =
       Some (ERR_OK, s') \<and> dhcp_rx_value DHCP_OPTION_IDX_MSG_TYPE s' = 2 \<and> dhcp_rx_value DHCP_OPTION_IDX_SERVER_ID s' = 0x0A000001 \<and>
       dhcp_rx_value DHCP_OPTION_IDX_LEASE_TIME s' = 3600 \<and> \<not> dhcp_rx_given DHCP_OPTION_IDX_T1 s'"
proof -
  let ?xs = "[(53, [2]), (0, []), (54, [10, 0, 0, 1]), (43, [7, 7]), (51, [0, 0, 0x0e, 0x10]), (51, [0, 0, 0, 1])] :: (u8_t \<times> u8_t list) list"
  let ?bs = "replicate 240 0 @ enc_options ?xs @ [255] @ []"
  let ?s = "set_mem (demo_mem ?bs 58) (demo_lwip (demo_dhcp DHCP_SELECTING 1))"
  have e: "?bs = replicate 240 0 @ [53, 1, 2, 0, 54, 4, 10, 0, 0, 1, 43, 2, 7, 7, 51, 4, 0, 0, 0x0e, 0x10, 51, 4, 0, 0, 0, 1, 255]"
    by (simp add: enc_options_def enc_option_def)
  have q: "one_pbuf (n_mem ?s) (RPool 4, 0) ?bs" by (rule demo_one_pbuf) (simp add: enc_options_def enc_option_def)
  have so: "\<forall>x\<in>set ?xs. sound_option x" by (simp add: sound_option_def)
  have w: "ucast (2 :: u8_t) = (2 :: u32_t)" "u32_le 1 0 0 10 = 0x0A000001" "u32_le 0x10 0x0e 0 0 = 3600" by (simp_all add: u32_le_def)
  obtain s' where s': "dhcp_parse_reply 0 (RPool 4, 0) ?s = Some (ERR_OK, s')"
    "(dhcp_rx_options_given (n_dev s'), dhcp_rx_options_val (n_dev s')) = fold rx_option ?xs (\<lambda>_. False, dhcp_rx_options_val (n_dev ?s))"
    using dhcp_parse_reads_options [OF q _ so, of 0] by auto
  have "dhcp_rx_options_given (n_dev s') = fst (fold rx_option ?xs (\<lambda>_. False, dhcp_rx_options_val (n_dev ?s)))"
    "dhcp_rx_options_val (n_dev s') = snd (fold rx_option ?xs (\<lambda>_. False, dhcp_rx_options_val (n_dev ?s)))"
    using s'(2) by (metis fst_conv, metis snd_conv)
  then show ?thesis using s'(1) unfolding e
    by (intro exI [of _ s']) (simp add: dhcp_rx_value_def dhcp_rx_given_def rx_option_def wanted_def rx_set_def dhcp_option_idx w)
qed

definition demo_overload :: "u8_t list" where
  "demo_overload = [2] @ replicate 32 0 @ [1] @ replicate 74 0 @ [52, 1, 1, 255] @ replicate 128 0 @ [52, 1, 1, 255]"

theorem dhcp_recv_hangs_witness:
  "dhcp_recv demo_lwip_link demo_lwip_app 0 (RPool 4, 0) (set_mem (demo_mem demo_overload 58) (demo_lwip (demo_dhcp DHCP_BOUND 0))) = None"
proof -
  let ?s = "set_mem (demo_mem demo_overload 58) (demo_lwip (demo_dhcp DHCP_BOUND 0))" let ?q = "(RPool 4, 0) :: ptr"
  have l: "length demo_overload = 244" by (simp add: demo_overload_def)
  then have q: "one_pbuf (n_mem ?s) ?q demo_overload" by (intro demo_one_pbuf) simp
  have z: "demo_overload ! i = 0" if "i \<in> {4, 5, 6, 7, 28, 29, 30, 31, 32}" for i using that by (auto simp: demo_overload_def nth_append)
  have o: "overloads_file demo_overload 240" "overloads_file demo_overload 108" "demo_overload ! 0 = 2" "demo_overload ! 33 = 1"
    by (simp_all add: overloads_file_def demo_overload_def nth_append)
  define m where "m = n_mem ?s"
  have pl: "pb_payload (p_pbufs m ?q) = (RPool 4, 58)" "pb_len (p_pbufs m ?q) = 244"
    using q l by (simp_all add: m_def one_pbuf_def demo_mem_def demo_pb_def)
  have g: "get8 (RPool 4, 58) (int j) m = demo_overload ! j" if "j < 244" for j
    using one_pbuf_get8 [OF q] that l pl(1) by (simp add: m_def)
  have x: "get32 (RPool 4, 58) 4 m = u32_le (demo_overload ! 4) (demo_overload ! 5) (demo_overload ! 6) (demo_overload ! 7)"
    by (simp add: m_def get32_def load32_def demo_mem_def)
  have xid: "get32 (RPool 4, 58) 4 m = 0" unfolding x by (simp add: z u32_le_def)
  have hw: "nif_hwaddr demo_netif = [0, 0, 0, 0, 0, 1]" "d_xid (demo_dhcp DHCP_BOUND 0) = 0" "lwip_ntohl 0 = 0"
    by (simp_all add: demo_netif_def demo_dhcp_def dhcp_zero_def lwip_ntohl_def lwip_htonl_def)
  have c: "dhcp_recv_check demo_netif (demo_dhcp DHCP_BOUND 0) ?q (n_mem ?s)"
    unfolding m_def [symmetric] dhcp_recv_check_def Let_def pl dhcp_offsets xid hw DHCP_MIN_REPLY_LEN_def DHCP_BOOTREPLY_def
    using g [of 0] g [of 28] g [of 29] g [of 30] g [of 31] g [of 32] g [of 33] z o(3,4) by (simp add: upt_rec)
  show ?thesis using conjunct2 [OF dhcp_recv_hangs [OF _ _ c q o(1,2)]] by simp
qed

end
