(* ===== verification/MainProps.thy ===== *)
theory MainProps
  imports LwipMain DhcpDemo
begin

text \<open>
  The program after power-up: what \<open>LWIP_Init\<close> leaves behind, from the memory to the frames in the transmit ring.
\<close>

declare split_paired_All [simp del] split_paired_Ex [simp del]

section \<open>An ARP request\<close>

abbreviation link_broadcast :: "u8_t list" where
  "link_broadcast \<equiv> [0xff, 0xff, 0xff, 0xff, 0xff, 0xff]"

definition arp_request_frame :: "netif \<Rightarrow> u32_t \<Rightarrow> u8_t list" where
  "arp_request_frame n ip = link_broadcast @ nif_hwaddr n @ [0x08, 0x06] @
     [0x00, 0x01, 0x08, 0x00, 6, 4, 0x00, 0x01] @ nif_hwaddr n @ u32_bytes (nif_ip_addr n) @ [0, 0, 0, 0, 0, 0] @ u32_bytes ip"

lemma etharp_request_run:
  fixes s :: "('a eth_dev_scheme, 'm) ip_vars_scheme net"
  assumes l: "linkoutput l = ip_linkoutput" and q: "eth_queue (ip_dev (n_dev s)) fs" "length fs < ETH_TXBUFNB"
    and hw: "length (nif_hwaddr n) = 6" and bs: "heap_inv (p_heap (n_mem s)) bs" and al: "mem_malloc 60 (p_heap (n_mem s)) = Some (Some a, h)"
  shows "\<exists>m d. etharp_request l n ip s = Some (ERR_OK, s\<lparr>n_mem := m, n_dev := (n_dev s)\<lparr>ip_dev := d\<rparr>\<rparr>) \<and>
    heap_inv (p_heap m) bs \<and> p_pools m = p_pools (n_mem s) \<and> eth_queue d (fs @ [arp_request_frame n ip])"
proof -
  let ?p = "(RHeap, a) :: ptr"
  define m0 where "m0 = ram_pbuf PBUF_RAW 42 a h (n_mem s)"
  define g where "g = pb_payload (p_pbufs m0 ?p)"
  have e: "c_u16 (ram_size PBUF_RAW 42) = 60" by (simp add: ram_size_def LWIP_MEM_ALIGN_SIZE_eq pbuf_consts c_u16_id)
  have alloc: "pbuf_alloc (custom_free l) PBUF_RAW SIZEOF_ETHARP_PACKET PBUF_RAM (n_mem s) = Some (Some ?p, m0)"
    using pbuf_alloc_ram_eq [of PBUF_RAW 42 "n_mem s" "Some a" h "custom_free l"] al e by (simp add: SIZEOF_ETHARP_PACKET_def SIZEOF_ETH_HDR_def m0_def)
  define m1 where "m1 = put g ETH_TYPE (u16_bytes (lwip_htons ETHTYPE_ARP)) (put g ARP_PROTOLEN [4] (put g ARP_HWLEN [word_of_int ETHARP_HWADDR_LEN]
    (put g ARP_PROTO (u16_bytes (lwip_htons ETHTYPE_IP)) (put g ARP_HWTYPE (u16_bytes (lwip_htons HWTYPE_ETHERNET))
    (put g ARP_DIPADDR (u32_bytes ip) (put g ARP_SIPADDR (u32_bytes (nif_ip_addr n)) (put g ETH_SRC (nif_hwaddr n) (put g ETH_DEST ethbroadcast
    (put g ARP_DHWADDR ethzero (put g ARP_SHWADDR (nif_hwaddr n) (put g ARP_OPCODE (u16_bytes (lwip_htons ARP_REQUEST)) m0)))))))))))"
  have len: "length ethbroadcast = 6" "length ethzero = 6" by (simp_all add: ethbroadcast_def ethzero_def)
  have bytes: "read_bytes g 42 m1 = arp_request_frame n ip"
    unfolding arp_frame_bytes m1_def using hw len
    by (simp add: fld_put proto_bytes arp_request_frame_def) (simp add: ethbroadcast_def ethzero_def ETHARP_HWADDR_LEN_def)
  have b1: "p_pbufs m1 = p_pbufs m0" "p_heap m1 = h" "p_pools m1 = p_pools (n_mem s)" by (simp_all add: m1_def m0_def ram_pbuf_def)
  have b0: "pb_next (p_pbufs m1 ?p) = None" "pb_type (p_pbufs m1 ?p) = PBUF_RAM" "pb_flags (p_pbufs m1 ?p) = 0" "pb_ref (p_pbufs m1 ?p) = 1"
    "pb_len (p_pbufs m1 ?p) = 42" "pb_tot_len (p_pbufs m1 ?p) = 42"
    unfolding b1 by (simp_all add: m0_def ram_pbuf_def)
  have pk: "packet m1 (Some ?p) [?p]" "tot m1 [?p] = 42" "data m1 [?p] = arp_request_frame n ip"
    using b0 bytes b1(1) by (simp_all add: packet_def pb_addrs_def pb_data_def distinct_span g_def)
  obtain d where d: "low_level_output ?p m1 (ip_dev (n_dev s)) = Some (ERR_OK, d)" "eth_queue d (fs @ [arp_request_frame n ip])"
    using eth.accepts [OF q pk(1)] pk(2,3) by (auto simp: ETH_MAX_PACKET_SIZE_def)
  obtain m' where m': "pbuf_free (custom_free l) (Some ?p) m1 = Some (1, m')" "p_heap m' = mem_free (Some a) h" "p_pools m' = p_pools (n_mem s)"
    using free_ram_pbuf [OF kept_refl b0(1-4), of "custom_free l"] unfolding b1(2,3) by blast
  have "etharp_request l n ip s = Some (ERR_OK, s\<lparr>n_mem := m', n_dev := (n_dev s)\<lparr>ip_dev := d\<rparr>\<rparr>)"
    unfolding etharp_request_def etharp_raw_def alloc Option.bind.simps prod.case option.case Let_def
    unfolding g_def [symmetric] m1_def [symmetric]
    using d(1) m'(1) l by (simp add: send_link_def ip_linkoutput_def free_mem_def set_mem_def)
  moreover have "heap_inv (p_heap m') bs" using mem_malloc_free_roundtrip [OF bs al] m'(2) by simp
  ultimately show ?thesis using d(2) m'(3) by blast
qed

section \<open>The memory\<close>

text \<open>The state of the static variables at power-up; heap, pools and the transmit buffers may hold anything.\<close>

definition power_up :: "('a eth_dev_scheme, 'm) main_net \<Rightarrow> bool" where
  "power_up s \<longleftrightarrow> netif_list (n_dev s) = [] \<and> netif_num (n_dev s) = 0 \<and> udp_pcbs (n_dev s) = None \<and>
     next_timeout (sys_tm (n_dev s)) = [] \<and> n_cached s = 0 \<and> length (n_arp s) = ARP_TABLE_SIZE \<and>
     (\<forall>e\<in>set (n_arp s). ae_state e = ETHARP_STATE_EMPTY \<and> ae_q e = None) \<and> length (tx_tab (ip_dev (n_dev s))) = ETH_TXBUFNB"

lemma sys_timeout_pools: "t \<noteq> MEMP_SYS_TIMEOUT \<Longrightarrow> free_list t (tm_pools (sys_timeout n h a s)) xs = free_list t (tm_pools s) xs"
  by (simp add: sys_timeout_def memp_malloc_def free_list_def Let_def split: option.split list.split)

lemma lwip_init_run:
  assumes "next_timeout (sys_tm (n_dev s)) = []"
  shows "\<exists>m t. lwip_init (heap_and_pools_init s) = upd_main (\<lambda>v. v\<lparr>sys_tm := t\<rparr>) (set_mem m s) \<and>
    heap_inv (p_heap m) [(0, MEM_SIZE_ALIGNED, False)] \<and> free_list MEMP_UDP_PCB (p_pools m) (rev [0..<memp_num MEMP_UDP_PCB]) \<and>
    expiries 0 (next_timeout t) = [(500, Some Dhcp_timer_fine, 0), (1000, Some Ip_reass_timer, 0), (5000, Some Arp_timer, 0),
      (60000, Some Dhcp_timer_coarse, 0)]"
proof -
  let ?m = "(n_mem s)\<lparr>p_heap := mem_init (ram (mem_init (ram (p_heap (n_mem s))))), p_pools := memp_init (memp_init (p_pools (n_mem s)))\<rparr>"
  define t0 where "t0 = (sys_tm (n_dev s))\<lparr>tm_pools := p_pools ?m\<rparr>"
  define t where "t = sys_timeouts_init (uint (LWipTime (n_dev s))) t0"
  have "timers_ok t0" using assms memp_init_free_list [of MEMP_SYS_TIMEOUT]
    by (auto simp: timers_ok_def t0_def intro!: exI [of _ "rev [0..<memp_num MEMP_SYS_TIMEOUT]"] simp del: memp_num.simps)
  note ok = sys_timeouts_init_ok [OF this, of "uint (LWipTime (n_dev s))", folded t_def]
  have "free_list MEMP_UDP_PCB (tm_pools t) (rev [0..<memp_num MEMP_UDP_PCB])"
    using memp_init_free_list [of MEMP_UDP_PCB]
    by (simp add: t_def sys_timeouts_init_def Let_def sys_timeout_pools t0_def del: memp_num.simps)
  moreover have "lwip_init (heap_and_pools_init s) = upd_main (\<lambda>v. v\<lparr>sys_tm := t\<rparr>) (set_mem (?m\<lparr>p_pools := tm_pools t\<rparr>) s)"
    by (simp add: lwip_init_def on_timers_def heap_and_pools_init_def Let_def upd_main_def set_mem_def t_def t0_def)
  moreover have "heap_inv (p_heap (?m\<lparr>p_pools := tm_pools t\<rparr>)) [(0, MEM_SIZE_ALIGNED, False)]" using mem_init_inv by simp
  ultimately show ?thesis using ok assms by (intro exI [of _ "?m\<lparr>p_pools := tm_pools t\<rparr>"] exI [of _ t]) (simp add: t0_def)
qed

section \<open>The interface\<close>

definition main_netif :: "netif \<Rightarrow> netif" where
  "main_netif n = n\<lparr>nif_ip_addr := 0, nif_netmask := 0, nif_gw := 0, nif_num := 0, nif_hwaddr := MACaddr, nif_mtu := 1500,
     nif_flags := NETIF_FLAG_BROADCAST OR NETIF_FLAG_ETHARP OR NETIF_FLAG_LINK_UP\<rparr>"

lemma netif_add_run:
  fixes s :: "('a eth_dev_scheme, 'm) main_net"
  assumes "netif_num (n_dev s) = 0"
  shows "\<exists>nm. netif_add l a n (Some 0) (Some 0) (Some 0) ethernetif_init s = Some (Some 0, upd_main (\<lambda>v. v\<lparr>netif_num := 1,
    netif_dhcp := (netif_dhcp v)(0 := None), dhcp_pcb := (dhcp_pcb v)(0 := None), netif_name := nm,
    ip_dev := snd (low_level_init MACaddr (main_netif n) (ip_dev v)), netif_list := main_netif n # netif_list v\<rparr>) s)"
proof -
  have d: "snd (low_level_init MACaddr n1 d) = snd (low_level_init MACaddr n2 d)" for n1 n2 and d :: "'a eth_dev_scheme"
    by (simp add: low_level_init_def Let_def)
  have n: "fst (low_level_init MACaddr n1 d) = n1\<lparr>nif_hwaddr := MACaddr, nif_mtu := 1500,
     nif_flags := NETIF_FLAG_BROADCAST OR NETIF_FLAG_ETHARP OR NETIF_FLAG_LINK_UP\<rparr>" for n1 and d :: "'a eth_dev_scheme"
    by (simp add: low_level_init_def Let_def MACaddr_def)
  define g where "g = (\<lambda>d :: 'a eth_dev_scheme. snd (low_level_init MACaddr (main_netif n) d))"
  have p: "low_level_init MACaddr n1 d = (n1\<lparr>nif_hwaddr := MACaddr, nif_mtu := 1500,
     nif_flags := NETIF_FLAG_BROADCAST OR NETIF_FLAG_ETHARP OR NETIF_FLAG_LINK_UP\<rparr>, g d)" for n1 and d :: "'a eth_dev_scheme"
    unfolding g_def using n d [of n1 d "main_netif n"] by (metis prod.collapse)
  show ?thesis unfolding g_def [symmetric] using assms
    by (intro exI [of _ "(netif_name (n_dev s))(0 := (IFNAME0, IFNAME1))"])
      (simp add: netif_add_def netif_readdress_def ip_addr_set_def ethernetif_init_def p Let_def upd_main_def upd_lwip_def c_u8_id main_netif_def)
qed

section \<open>The client\<close>

definition dhcp_block :: "int \<Rightarrow> udp_pcb" where
  "dhcp_block k = udp_pcb_zero\<lparr>u_ttl := UDP_TTL, u_so_options := SOF_BROADCAST, u_local_ip := IPADDR_ANY, u_local_port := DHCP_CLIENT_PORT,
     u_remote_ip := IPADDR_ANY, u_remote_port := DHCP_SERVER_PORT, u_flags := UDP_FLAGS_CONNECTED, u_recv := Some DHCP_RECV, u_recv_arg := nat k\<rparr>"

lemma dhcp_open_run:
  assumes "udp_pcbs (n_dev s) = None" "upcb s i = udp_pcb_zero\<lparr>u_ttl := UDP_TTL\<rparr>"
  shows "dhcp_open_pcb i k s = Some (s\<lparr>n_dev := (n_dev s)\<lparr>udp_tab := (udp_tab (n_dev s))(i := dhcp_block k), udp_pcbs := Some i\<rparr>\<rparr>)"
proof -
  have ports: "DHCP_CLIENT_PORT \<noteq> 0" by (simp add: DHCP_CLIENT_PORT_def)
  show ?thesis using assms ports
    by (simp add: dhcp_open_pcb_def udp_bind_def udp_bind_check.simps [of _ _ _ None] udp_insert_def udp_connect_def
        udp_listed.simps [of i "Some i"] udp_recv_def upd_upcb_def upd_udp_def dhcp_block_def udp_pcb_zero_def)
qed

lemma flag_unset:
  assumes "fl AND x = (0 :: 'w :: len word)"
  shows "fl AND NOT x = fl"
proof (rule bit_word_eqI)
  fix j
  assume "j < LENGTH('w)"
  moreover have "\<not> bit (fl AND x) j" using assms by simp
  ultimately show "bit (fl AND NOT x) j \<longleftrightarrow> bit fl j" by (auto simp: bit_and_iff bit_not_iff)
qed

definition discover_options :: "netif \<Rightarrow> u8_t list" where
  "discover_options n = [57, 2] @ rev (u16_bytes (word_of_int (nif_mtu n))) @ [55, 4, 1, 3, 28, 6]"

lemma dhcp_start_run:
  fixes s :: "('a eth_dev_scheme, 'm) lwip_net"
  assumes n: "netif_list (n_dev s) = [n]" "nif_num n = k" "nif_flags n AND NETIF_FLAG_ETHARP \<noteq> 0" "nif_flags n AND NETIF_FLAG_DHCP = 0"
      "576 \<le> nif_mtu n" "length (nif_hwaddr n) = 6"
    and u: "the_dhcp k s = None" "udp_pcbs (n_dev s) = None" "free_list MEMP_UDP_PCB (p_pools (n_mem s)) (i # fl)"
    and h: "mem_malloc SIZEOF_STRUCT_DHCP (p_heap (n_mem s)) = Some (Some a, h1)" "heap_inv h1 bs" "mem_malloc 380 h1 = Some (Some b, h2)"
    and l: "linkoutput l = ip_linkoutput" "eth_queue (ip_dev (n_dev s)) fs" "length fs < ETH_TXBUFNB" "arp_ok (n_arp s)" "n_cached s < ARP_TABLE_SIZE"
  shows "\<exists>m c d dv. dhcp_start l k s = Some (ERR_OK, s\<lparr>n_mem := m, n_cached := c, n_dev := (n_dev s)\<lparr>
      netif_list := [n\<lparr>nif_flags := nif_flags n OR NETIF_FLAG_DHCP\<rparr>], netif_dhcp := (netif_dhcp (n_dev s))(k := Some d),
      dhcp_pcb := (dhcp_pcb (n_dev s))(k := Some i), udp_tab := (udp_tab (n_dev s))(i := dhcp_block k), udp_pcbs := Some i,
      dhcp_global_xid := dhcp_global_xid (n_dev s) + 1, ip_id := c_u16 (ip_id (n_dev s) + 1), ip_dev := dv\<rparr>\<rparr>) \<and>
    heap_inv (p_heap m) bs \<and> free_list MEMP_UDP_PCB (p_pools m) fl \<and>
    d = (dhcp_zero (RHeap, a))\<lparr>d_state := DHCP_SELECTING, d_xid := dhcp_global_xid (n_dev s) + 1, d_options_out_len := 68, d_tries := 1,
      d_request_timeout := 4\<rparr> \<and>
    eth_queue dv (fs @ [dhcp_frame n (link_broadcast) IPADDR_BROADCAST (ip_id (n_dev s)) (dhcp_block k)
      (dhcp_global_xid (n_dev s) + 1) 0 ([53, 1, 1] @ discover_options n)])"
proof -
  obtain ps where ps: "memp_malloc MEMP_UDP_PCB (p_pools (n_mem s)) = (Some i, ps)" "free_list MEMP_UDP_PCB ps fl"
    using free_list_malloc_Some [OF u(3)] by blast
  let ?g = "dhcp_global_xid (n_dev s)" let ?ident = "ip_id (n_dev s)"
  define d1 where "d1 = (dhcp_zero (RHeap, a))\<lparr>d_state := DHCP_SELECTING\<rparr>"
  define s5 where "s5 = s\<lparr>n_mem := (n_mem s)\<lparr>p_heap := h1, p_pools := ps\<rparr>, n_dev := (n_dev s)\<lparr>
    netif_list := [n], netif_dhcp := (netif_dhcp (n_dev s))(k := Some (dhcp_zero (RHeap, a))),
    dhcp_pcb := (dhcp_pcb (n_dev s))(k := Some i), udp_tab := (udp_tab (n_dev s))(i := dhcp_block k), udp_pcbs := Some i\<rparr>\<rparr>"
  define s6 where "s6 = upd_dhcp k (\<lambda>_. d1) s5"
  have nn: "the_netif k s = Some n" "the_netif k s5 = Some n" using n(1,2) by (simp_all add: the_netif_def netif_of_def s5_def)
  have flags: "upd_netif k (\<lambda>n. n\<lparr>nif_flags := nif_flags n AND NOT NETIF_FLAG_DHCP\<rparr>) s = s"
    using n(1) flag_unset [OF n(4)] by (simp add: upd_netif_def upd_lwip_def)
  have struct: "dhcp_start_struct k s = Some (Some (RHeap, a), set_mem ((n_mem s)\<lparr>p_heap := h1\<rparr>) s)"
    using u(1) h(1) by (simp add: dhcp_start_struct_def)
  have big: "\<not> nif_mtu n < DHCP_MAX_MSG_LEN_MIN_REQUIRED" using n(5) by (simp add: DHCP_MAX_MSG_LEN_MIN_REQUIRED_def)
  have open5: "dhcp_start l k s = do {
      (result, s) \<leftarrow> dhcp_discover l k s5;
      if result \<noteq> ERR_OK then do { s \<leftarrow> dhcp_stop k s; Some (ERR_MEM, s) }
      else Some (result, upd_netif k (\<lambda>n. n\<lparr>nif_flags := nif_flags n OR NETIF_FLAG_DHCP\<rparr>) s) }"
  proof -
    define s2 where "s2 = set_dhcp_pcb k None (set_dhcp k (Some (dhcp_zero (RHeap, a))) (set_mem ((n_mem s)\<lparr>p_heap := h1\<rparr>) s))"
    define s4 where "s4 = set_dhcp_pcb k (Some i) (upd_upcb i (\<lambda>b. udp_pcb_zero\<lparr>u_ttl := UDP_TTL\<rparr>) (set_mem ((n_mem s2)\<lparr>p_pools := ps\<rparr>) s2))"
    have new: "udp_new s2 = (Some i, upd_upcb i (\<lambda>b. udp_pcb_zero\<lparr>u_ttl := UDP_TTL\<rparr>) (set_mem ((n_mem s2)\<lparr>p_pools := ps\<rparr>) s2))"
      using ps(1) by (simp add: udp_new_def s2_def set_dhcp_pcb_def set_dhcp_def)
    have "dhcp_open_pcb i k s4 = Some (s4\<lparr>n_dev := (n_dev s4)\<lparr>udp_tab := (udp_tab (n_dev s4))(i := dhcp_block k), udp_pcbs := Some i\<rparr>\<rparr>)"
      using u(2) by (intro dhcp_open_run) (simp_all add: s4_def s2_def set_dhcp_pcb_def set_dhcp_def)
    also have "s4\<lparr>n_dev := (n_dev s4)\<lparr>udp_tab := (udp_tab (n_dev s4))(i := dhcp_block k), udp_pcbs := Some i\<rparr>\<rparr> = s5"
      using n(1) by (simp add: s4_def s2_def s5_def set_dhcp_pcb_def set_dhcp_def upd_upcb_def upd_udp_def upd_lwip_def set_mem_def)
    finally have o4: "dhcp_open_pcb i k s4 = Some s5" .
    show ?thesis
      unfolding dhcp_start_def Let_def flags nn(1) Option.bind.simps if_not_P [OF n(3)] if_not_P [OF big] struct prod.case option.case
        s2_def [symmetric] new s4_def [symmetric] o4 ..
  qed
  have s6: "upd_dhcp k (\<lambda>d. dhcp_set_state DHCP_SELECTING (d\<lparr>d_offered_ip_addr := IPADDR_ANY\<rparr>)) s5 = s6"
    by (simp add: s6_def upd_dhcp_def upd_lwip_def s5_def d1_def dhcp_set_state_def dhcp_zero_def IPADDR_ANY_def)
  have sel: "n_dev s6 = (n_dev s)\<lparr>netif_list := [n], netif_dhcp := (netif_dhcp (n_dev s))(k := Some d1),
      dhcp_pcb := (dhcp_pcb (n_dev s))(k := Some i), udp_tab := (udp_tab (n_dev s))(i := dhcp_block k), udp_pcbs := Some i\<rparr>"
    "n_arp s6 = n_arp s" "n_cached s6 = n_cached s" "p_heap (n_mem s6) = h1" "p_pools (n_mem s6) = ps"
    by (simp_all add: s6_def s5_def upd_dhcp_def upd_lwip_def)
  let ?opts = "opt_request_list \<circ> opt_max_msg_size (nif_mtu n)"
  have em: "emits ?opts (discover_options n)" "length (discover_options n) \<le> 64"
    using emits_o [OF emits_max_msg_size emits_request_list] by (simp_all add: discover_options_def)
  have send: "dhcp_can_send l n IPADDR_BROADCAST (link_broadcast) fs i s6"
    using l n(5,6) by (simp add: dhcp_can_send_def can_send_def ip_queue_def sel link_dest_def ip4_addr_isbroadcast_def IPADDR_BROADCAST_def
        IPADDR_ANY_def dhcp_block_def DHCP_CLIENT_PORT_def)
  have d1: "next_xid d1 ?g = ?g + 1" "dhcp_ciaddr n d1 DHCP_DISCOVER = 0" "d_tries d1 = 0"
    by (simp_all add: d1_def next_xid_def dhcp_zero_def dhcp_ciaddr_def dhcp_messages)
  have sg: "dhcp_global_xid (n_dev s6) = ?g" "ip_id (n_dev s6) = ?ident" "upcb s6 i = dhcp_block k" by (simp_all add: sel)
  obtain m c dv where m: "dhcp_message l n DHCP_DISCOVER ?opts IPADDR_BROADCAST (Some i) d1 s6 =
      Some (ERR_OK, d1\<lparr>d_xid := ?g + 1, d_p_out := None, d_msg_out := NULL, d_options_out_len := 68\<rparr>,
        s6\<lparr>n_mem := m, n_cached := c, n_dev := (n_dev s6)\<lparr>dhcp_global_xid := ?g + 1, ip_id := c_u16 (?ident + 1), ip_dev := dv\<rparr>\<rparr>)"
    "heap_inv (p_heap m) bs" "p_pools m = ps"
    "eth_queue dv (fs @ [dhcp_frame n (link_broadcast) IPADDR_BROADCAST ?ident (dhcp_block k) (?g + 1) 0 ([53, 1, DHCP_DISCOVER] @ discover_options n)])"
    using dhcp_message_run [OF send _ _ em, of bs b h2 DHCP_DISCOVER d1] h(2,3) unfolding sel(4,5) sg d1 by blast
  define d where "d = dhcp_retry backoff_discover (d1\<lparr>d_xid := ?g + 1, d_p_out := None, d_msg_out := NULL, d_options_out_len := 68\<rparr>)"
  have dd: "d = (dhcp_zero (RHeap, a))\<lparr>d_state := DHCP_SELECTING, d_xid := ?g + 1, d_options_out_len := 68, d_tries := 1, d_request_timeout := 4\<rparr>"
  proof -
    have "d_request_timeout d = 4" using retry_discover [of 0 "d1\<lparr>d_xid := ?g + 1, d_p_out := None, d_msg_out := NULL, d_options_out_len := 68\<rparr>"] d1(3)
      by (simp add: d_def)
    then show ?thesis by (simp add: d_def dhcp_retry_def Let_def d1_def dhcp_zero_def c_u8_id)
  qed
  have "dhcp_discover l k s5 = Some (ERR_OK, s6\<lparr>n_mem := m, n_cached := c, n_dev := (n_dev s6)\<lparr>netif_dhcp := (netif_dhcp (n_dev s6))(k := Some d),
      dhcp_global_xid := ?g + 1, ip_id := c_u16 (?ident + 1), ip_dev := dv\<rparr>\<rparr>)"
  proof -
    have "the_netif k s6 = Some n" "the_dhcp k s6 = Some d1" "dhcp_pcb (n_dev s6) k = Some i"
      using nn(2) by (simp_all add: s6_def the_dhcp_def upd_dhcp_def s5_def upd_lwip_def the_netif_def)
    then show ?thesis unfolding dhcp_discover_def s6
      by (simp add: dhcp_request_def m(1) sel upd_dhcp_def upd_lwip_def d_def)
  qed
  then have "dhcp_start l k s = Some (ERR_OK, s\<lparr>n_mem := m, n_cached := c, n_dev := (n_dev s)\<lparr>
      netif_list := [n\<lparr>nif_flags := nif_flags n OR NETIF_FLAG_DHCP\<rparr>], netif_dhcp := (netif_dhcp (n_dev s))(k := Some d),
      dhcp_pcb := (dhcp_pcb (n_dev s))(k := Some i), udp_tab := (udp_tab (n_dev s))(i := dhcp_block k), udp_pcbs := Some i,
      dhcp_global_xid := ?g + 1, ip_id := c_u16 (?ident + 1), ip_dev := dv\<rparr>\<rparr>)"
    unfolding open5 using n(2) by (simp add: upd_netif_def upd_lwip_def s6_def s5_def upd_dhcp_def)
  then show ?thesis using m(2-4) ps(2) dd
    by (intro exI [of _ m] exI [of _ c] exI [of _ d] exI [of _ dv]) (simp add: DHCP_DISCOVER_def)
qed

text \<open>An interface that comes up announces its address.\<close>

lemma netif_set_up_announces:
  fixes s :: "('a eth_dev_scheme, 'm) lwip_net"
  assumes l: "linkoutput l = ip_linkoutput"
    and n: "netif_list (n_dev s) = [n]" "nif_num n = k" "nif_flags n AND NETIF_FLAG_UP = 0" "nif_flags n AND NETIF_FLAG_LINK_UP \<noteq> 0"
      "nif_flags n AND NETIF_FLAG_ETHARP \<noteq> 0" "length (nif_hwaddr n) = 6"
    and q: "eth_queue (ip_dev (n_dev s)) fs" "length fs < ETH_TXBUFNB"
    and h: "heap_inv (p_heap (n_mem s)) bs" "mem_malloc 60 (p_heap (n_mem s)) = Some (Some a, h)"
  shows "\<exists>m d. netif_set_up l k s = Some (s\<lparr>n_mem := m, n_dev := (n_dev s)\<lparr>
      netif_list := [n\<lparr>nif_flags := nif_flags n OR NETIF_FLAG_UP\<rparr>], ip_dev := d\<rparr>\<rparr>) \<and>
    heap_inv (p_heap m) bs \<and> eth_queue d (fs @ [arp_request_frame n (nif_ip_addr n)])"
proof -
  let ?n = "n\<lparr>nif_flags := nif_flags n OR NETIF_FLAG_UP\<rparr>"
  define s1 where "s1 = upd_netif k (\<lambda>b. b\<lparr>nif_flags := nif_flags b OR NETIF_FLAG_UP\<rparr>) s"
  have s1: "s1 = s\<lparr>n_dev := (n_dev s)\<lparr>netif_list := [?n]\<rparr>\<rparr>" using n(1,2) by (simp add: s1_def upd_netif_def upd_lwip_def)
  have apart: "NETIF_FLAG_UP AND NETIF_FLAG_LINK_UP = 0" "NETIF_FLAG_UP AND NETIF_FLAG_ETHARP = 0"
    by (simp_all add: NETIF_FLAG_UP_def NETIF_FLAG_LINK_UP_def NETIF_FLAG_ETHARP_def)
  have n1: "the_netif k s = Some n" "nif_flags ?n AND NETIF_FLAG_LINK_UP \<noteq> 0" "nif_flags ?n AND NETIF_FLAG_ETHARP \<noteq> 0"
      "length (nif_hwaddr ?n) = 6" "arp_request_frame ?n (nif_ip_addr n) = arp_request_frame n (nif_ip_addr n)" "nif_ip_addr ?n = nif_ip_addr n"
    using n apart by (simp_all add: the_netif_def netif_of_def arp_request_frame_def bit.conj_disj_distrib2)
  have q1: "eth_queue (ip_dev (n_dev s1)) fs" "heap_inv (p_heap (n_mem s1)) bs" "mem_malloc 60 (p_heap (n_mem s1)) = Some (Some a, h)"
    using q(1) h by (simp_all add: s1)
  obtain m d where r: "etharp_request l ?n (nif_ip_addr n) s1 = Some (ERR_OK, s1\<lparr>n_mem := m, n_dev := (n_dev s1)\<lparr>ip_dev := d\<rparr>\<rparr>)"
    "heap_inv (p_heap m) bs" "eth_queue d (fs @ [arp_request_frame n (nif_ip_addr n)])"
    using etharp_request_run [OF l q1(1) q(2) n1(4) q1(2,3), of "nif_ip_addr n"] unfolding n1(5) by blast
  have "netif_set_up l k s = Some (s1\<lparr>n_mem := m, n_dev := (n_dev s1)\<lparr>ip_dev := d\<rparr>\<rparr>)"
    unfolding netif_set_up_def n1(1) Option.bind.simps if_P [OF n(3)] Let_def s1_def [symmetric]
    using n1(2,3,6) r(1) by simp
  then show ?thesis using r(2,3) by (intro exI [of _ m] exI [of _ d]) (simp add: s1)
qed

section \<open>Properties\<close>

text \<open>C8: from the state at power-up \<open>LWIP_Init\<close> returns with everything in place: the interface is the default one, up,
  with the hardware address of the board and no address yet; the heap holds the structure of the DHCP client and nothing
  else; the client is bound to its port, has sent its first DISCOVER message and waits two seconds for an offer; the four
  timeouts run; and the transmit ring holds exactly two frames, the DISCOVER message and the ARP request by which
  \<open>netif_set_up\<close> announces the address, which is still 0.0.0.0.\<close>
theorem LWIP_Init_starts:
  fixes s :: "('a eth_dev_scheme, 'm) main_net"
  assumes l: "linkoutput l = ip_linkoutput" and up: "power_up s"
  shows "\<exists>s' d. LWIP_Init l a netif s = Some s' \<and>
    netif_list (n_dev s') = [(main_netif netif)\<lparr>nif_flags := NETIF_FLAG_BROADCAST OR NETIF_FLAG_ETHARP OR NETIF_FLAG_LINK_UP OR
      NETIF_FLAG_DHCP OR NETIF_FLAG_UP\<rparr>] \<and>
    netif_default (n_dev s') = Some 0 \<and>
    heap_inv (p_heap (n_mem s')) [(0, 68, True), (68, MEM_SIZE_ALIGNED, False)] \<and>
    the_dhcp 0 s' = Some d \<and> d_mem d = (RHeap, 8) \<and> d_state d = DHCP_SELECTING \<and> d_tries d = 1 \<and> d_request_timeout d = 4 \<and>
    udp_pcbs (n_dev s') = Some 5 \<and> dhcp_pcb (n_dev s') 0 = Some 5 \<and> upcb s' 5 = dhcp_block 0 \<and>
    expiries 0 (next_timeout (sys_tm (n_dev s'))) = [(500, Some Dhcp_timer_fine, 0), (1000, Some Ip_reass_timer, 0),
      (5000, Some Arp_timer, 0), (60000, Some Dhcp_timer_coarse, 0)] \<and>
    eth_queue (ip_dev (n_dev s')) [dhcp_frame (main_netif netif) link_broadcast IPADDR_BROADCAST (ip_id (n_dev s)) (dhcp_block 0)
        (dhcp_global_xid (n_dev s) + 1) 0 [53, 1, 1, 57, 2, 0x05, 0xdc, 55, 4, 1, 3, 28, 6],
      arp_request_frame (main_netif netif) 0]"
proof -
  note u = up [unfolded power_up_def]
  let ?n = "main_netif netif" let ?bs = "[(0, 68, True), (68, MEM_SIZE_ALIGNED, False)] :: blk list"
  have blocks: "rev [0..<memp_num MEMP_UDP_PCB] = [5, 4, 3, 2, 1, 0]" by code_simp
  obtain m t where i: "lwip_init (heap_and_pools_init s) = upd_main (\<lambda>v. v\<lparr>sys_tm := t\<rparr>) (set_mem m s)"
    "heap_inv (p_heap m) [(0, MEM_SIZE_ALIGNED, False)]" "free_list MEMP_UDP_PCB (p_pools m) [5, 4, 3, 2, 1, 0]"
    "expiries 0 (next_timeout t) = [(500, Some Dhcp_timer_fine, 0), (1000, Some Ip_reass_timer, 0), (5000, Some Arp_timer, 0),
      (60000, Some Dhcp_timer_coarse, 0)]"
    using lwip_init_run [of s] u unfolding blocks by blast
  define s1 where "s1 = upd_main (\<lambda>v. v\<lparr>sys_tm := t\<rparr>) (set_mem m s)"
  have f1: "netif_num (n_dev s1) = 0" using u by (simp add: s1_def upd_main_def)
  obtain nm where add: "netif_add l a netif (Some 0) (Some 0) (Some 0) ethernetif_init s1 = Some (Some 0, upd_main (\<lambda>v. v\<lparr>netif_num := 1,
      netif_dhcp := (netif_dhcp v)(0 := None), dhcp_pcb := (dhcp_pcb v)(0 := None), netif_name := nm,
      ip_dev := snd (low_level_init MACaddr ?n (ip_dev v)), netif_list := ?n # netif_list v\<rparr>) s1)"
    using netif_add_run [OF f1] by blast
  define s3 where "s3 = netif_set_default (Some 0) (upd_main (\<lambda>v. v\<lparr>netif_num := 1,
      netif_dhcp := (netif_dhcp v)(0 := None), dhcp_pcb := (dhcp_pcb v)(0 := None), netif_name := nm,
      ip_dev := snd (low_level_init MACaddr ?n (ip_dev v)), netif_list := ?n # netif_list v\<rparr>) s1)"
  have s3: "netif_list (n_dev s3) = [?n]" "the_dhcp 0 s3 = None" "udp_pcbs (n_dev s3) = None" "n_mem s3 = m" "n_arp s3 = n_arp s" "n_cached s3 = 0"
    "ip_dev (n_dev s3) = snd (low_level_init MACaddr ?n (ip_dev (n_dev s)))" "ip_id (n_dev s3) = ip_id (n_dev s)"
    "dhcp_global_xid (n_dev s3) = dhcp_global_xid (n_dev s)" "sys_tm (n_dev s3) = t" "netif_default (n_dev s3) = Some 0"
    using u by (simp_all add: s3_def netif_set_default_def upd_lwip_def upd_main_def s1_def set_mem_def the_dhcp_def)
  have n: "nif_num ?n = 0" "nif_flags ?n AND NETIF_FLAG_ETHARP \<noteq> 0" "nif_flags ?n AND NETIF_FLAG_DHCP = 0" "576 \<le> nif_mtu ?n" "length (nif_hwaddr ?n) = 6"
    by (simp_all add: main_netif_def NETIF_FLAG_BROADCAST_def NETIF_FLAG_ETHARP_def NETIF_FLAG_LINK_UP_def NETIF_FLAG_DHCP_def MACaddr_def)
  have q: "eth_queue (ip_dev (n_dev s3)) []" unfolding s3(7) eth_queue_def using init_queue u by blast
  have arp: "arp_ok (n_arp s3)" unfolding s3(5) using u by (auto simp: arp_ok_def entry_ok_def used_def)
  have sz: "request_size 60 = 60" "request_size 380 = 380" by (simp_all add: request_size_def LWIP_MEM_ALIGN_SIZE_eq c_u16_def mem_consts)
  obtain h1 where h1: "mem_malloc SIZEOF_STRUCT_DHCP (p_heap (n_mem s3)) = Some (Some 8, h1)" "heap_inv h1 ?bs"
    using mem_malloc_first_fit [OF i(2), of 60] sz by (auto simp: mem_consts s3(4) SIZEOF_STRUCT_DHCP_def)
  obtain b h2 where h2: "mem_malloc 380 h1 = Some (Some b, h2)"
    using mem_malloc_first_fit [OF h1(2), of 380] sz by (auto simp: mem_consts)
  have fl: "free_list MEMP_UDP_PCB (p_pools (n_mem s3)) [5, 4, 3, 2, 1, 0]" "n_cached s3 < ARP_TABLE_SIZE" "length [] < ETH_TXBUFNB"
    using i(3) by (simp_all add: s3(4,6) ARP_TABLE_SIZE_def ETH_TXBUFNB_def)
  have opts: "[53, 1, 1] @ discover_options ?n = [53, 1, 1, 57, 2, 0x05, 0xdc, 55, 4, 1, 3, 28, 6]"
    by (simp add: discover_options_def main_netif_def u16_bytes_def byte_of_def)
  let ?n4 = "?n\<lparr>nif_flags := nif_flags ?n OR NETIF_FLAG_DHCP\<rparr>"
  let ?f = "dhcp_frame ?n link_broadcast IPADDR_BROADCAST (ip_id (n_dev s)) (dhcp_block 0) (dhcp_global_xid (n_dev s) + 1) 0
      [53, 1, 1, 57, 2, 0x05, 0xdc, 55, 4, 1, 3, 28, 6]"
  obtain m4 c d dv where st: "dhcp_start l 0 s3 = Some (ERR_OK, s3\<lparr>n_mem := m4, n_cached := c, n_dev := (n_dev s3)\<lparr>
      netif_list := [?n4], netif_dhcp := (netif_dhcp (n_dev s3))(0 := Some d),
      dhcp_pcb := (dhcp_pcb (n_dev s3))(0 := Some 5), udp_tab := (udp_tab (n_dev s3))(5 := dhcp_block 0), udp_pcbs := Some 5,
      dhcp_global_xid := dhcp_global_xid (n_dev s3) + 1, ip_id := c_u16 (ip_id (n_dev s3) + 1), ip_dev := dv\<rparr>\<rparr>)"
    "heap_inv (p_heap m4) ?bs" "d = (dhcp_zero (RHeap, 8))\<lparr>d_state := DHCP_SELECTING, d_xid := dhcp_global_xid (n_dev s) + 1,
      d_options_out_len := 68, d_tries := 1, d_request_timeout := 4\<rparr>"
    "eth_queue dv [?f]"
    using dhcp_start_run [OF s3(1) n s3(2,3) fl(1) h1 h2 l q fl(3) arp fl(2)] unfolding s3(8,9) opts append_Nil by blast
  define s4 where "s4 = s3\<lparr>n_mem := m4, n_cached := c, n_dev := (n_dev s3)\<lparr>
      netif_list := [?n4], netif_dhcp := (netif_dhcp (n_dev s3))(0 := Some d),
      dhcp_pcb := (dhcp_pcb (n_dev s3))(0 := Some 5), udp_tab := (udp_tab (n_dev s3))(5 := dhcp_block 0), udp_pcbs := Some 5,
      dhcp_global_xid := dhcp_global_xid (n_dev s3) + 1, ip_id := c_u16 (ip_id (n_dev s3) + 1), ip_dev := dv\<rparr>\<rparr>"
  have n4: "netif_list (n_dev s4) = [?n4]" "nif_num ?n4 = 0" "nif_flags ?n4 AND NETIF_FLAG_UP = 0" "nif_flags ?n4 AND NETIF_FLAG_LINK_UP \<noteq> 0"
    "nif_flags ?n4 AND NETIF_FLAG_ETHARP \<noteq> 0" "length (nif_hwaddr ?n4) = 6" "nif_ip_addr ?n4 = 0" "arp_request_frame ?n4 0 = arp_request_frame ?n 0"
    by (simp_all add: s4_def main_netif_def NETIF_FLAG_BROADCAST_def NETIF_FLAG_ETHARP_def NETIF_FLAG_LINK_UP_def
        NETIF_FLAG_DHCP_def NETIF_FLAG_UP_def MACaddr_def arp_request_frame_def)
  have s4: "eth_queue (ip_dev (n_dev s4)) [?f]" "heap_inv (p_heap (n_mem s4)) ?bs" using st(2,4) by (simp_all add: s4_def)
  obtain b h3 where h3: "mem_malloc 60 (p_heap (n_mem s4)) = Some (Some b, h3)"
    using mem_malloc_first_fit [OF s4(2), of 60] sz by (auto simp: mem_consts)
  have two: "length [?f] < ETH_TXBUFNB" by (simp add: ETH_TXBUFNB_def)
  obtain m6 dv6 where su: "netif_set_up l 0 s4 = Some (s4\<lparr>n_mem := m6, n_dev := (n_dev s4)\<lparr>
      netif_list := [?n4\<lparr>nif_flags := nif_flags ?n4 OR NETIF_FLAG_UP\<rparr>], ip_dev := dv6\<rparr>\<rparr>)"
    "heap_inv (p_heap m6) ?bs" "eth_queue dv6 ([?f] @ [arp_request_frame ?n 0])"
    using netif_set_up_announces [OF l n4(1-6) s4(1) two s4(2) h3] unfolding n4(7,8) by blast
  have run: "LWIP_Init l a netif s = Some (s4\<lparr>n_mem := m6, n_dev := (n_dev s4)\<lparr>
      netif_list := [?n4\<lparr>nif_flags := nif_flags ?n4 OR NETIF_FLAG_UP\<rparr>], ip_dev := dv6\<rparr>\<rparr>)"
    unfolding LWIP_Init_def Let_def i(1) s1_def [symmetric] add Option.bind.simps prod.case s3_def [symmetric] st(1) s4_def [symmetric] su(1) ..
  show ?thesis using su(2,3) st(3) s3(10,11) i(4) unfolding run
    by (intro exI [of _ d] exI conjI) (rule refl, simp_all add: s4_def the_dhcp_def main_netif_def dhcp_zero_def or.assoc)
qed

section \<open>Witnesses\<close>

definition demo_main_vars :: "eth_dev main_vars" where
  "demo_main_vars = lwip_vars.extend
     ((demo_lwip_vars (demo_dhcp DHCP_OFF 0))\<lparr>netif_list := [], netif_num := 0, udp_pcbs := None, ip_id := 0, ip_dev := demo_dev\<rparr>)
     (main_vars.fields 0 0 0 0 0
       \<lparr>next_timeout = [], timeouts_last_time = 0, tcpip_tcp_timer_active = False, tm_pools = blank_pools, tm_world = ()\<rparr>)"

definition demo_main :: "eth_dev main_vars net" where
  "demo_main = \<lparr>n_mem = demo_state, n_arp = replicate 10 blank_entry, n_cached = 0, n_dev = demo_main_vars\<rparr>"

definition demo_main_link :: "eth_dev main_vars link_if" where
  "demo_main_link = \<lparr>linkoutput = ip_linkoutput, ip_input = (\<lambda>p netif s. Some s), dhcp_arp_reply = (\<lambda>netif a s. Some s),
     custom_free = (\<lambda>p m. None)\<rparr>"

definition demo_main_app :: "eth_dev main_vars tcp_app" where
  "demo_main_app = \<lparr>app_accept = (\<lambda>f a i e s. Some (ERR_OK, s)), app_sent = (\<lambda>f a i n s. Some (ERR_OK, s)),
     app_recv = (\<lambda>f a i p e s. Some (ERR_OK, s)), app_connected = (\<lambda>f a i e s. Some (ERR_OK, s)),
     app_poll = (\<lambda>f a i s. Some (ERR_OK, s)), app_errf = (\<lambda>f a e s. Some s), timer_needed = (\<lambda>s. s)\<rparr>"

lemma demo_power_up: "power_up demo_main"
  by (simp add: power_up_def demo_main_def demo_main_vars_def demo_lwip_vars_def lwip_vars.defs tcp_vars.defs main_vars.defs
      blank_entry_def ARP_TABLE_SIZE_def ETH_TXBUFNB_def demo_dev_def)

theorem LWIP_Init_starts_witness:
  "\<exists>s' d. LWIP_Init demo_main_link demo_main_app demo_netif demo_main = Some s' \<and> the_dhcp 0 s' = Some d \<and> d_state d = DHCP_SELECTING \<and>
    netif_default (n_dev s') = Some 0"
proof -
  have l: "linkoutput demo_main_link = ip_linkoutput" by (simp add: demo_main_link_def)
  show ?thesis using LWIP_Init_starts [OF l demo_power_up, of demo_main_app demo_netif] by blast
qed

end
