(* ===== verification/TcpSeq.thy ===== *)
theory TcpSeq
  imports TcpDemo
begin

text \<open>
  Sequence numbers and the counters of a connection: what the comparisons modulo \<open>2 ^ 32\<close> decide, the
  window that is announced, the estimation of the round-trip time and the options.
\<close>

declare split_paired_All [simp del] split_paired_Ex [simp del]

section \<open>Access\<close>

lemma upd_tpcb_access [simp]:
  "tpcb (upd_tpcb i f s) = (tpcb s)(i := f (tpcb s i))" "lpcb (upd_tpcb i f s) = lpcb s" "tseg (upd_tpcb i f s) = tseg s"
  "n_mem (upd_tpcb i f s) = n_mem s" "n_arp (upd_tpcb i f s) = n_arp s" "n_cached (upd_tpcb i f s) = n_cached s"
  by (simp_all add: upd_tpcb_def upd_tcp_def)

lemma upd_tpcb_vars [simp]:
  "in_tcphdr (n_dev (upd_tpcb i f s)) = in_tcphdr (n_dev s)" "in_seqno (n_dev (upd_tpcb i f s)) = in_seqno (n_dev s)"
  "in_ackno (n_dev (upd_tpcb i f s)) = in_ackno (n_dev s)" "in_flags (n_dev (upd_tpcb i f s)) = in_flags (n_dev s)"
  "in_tcplen (n_dev (upd_tpcb i f s)) = in_tcplen (n_dev s)" "inseg_p (n_dev (upd_tpcb i f s)) = inseg_p (n_dev s)"
  "inseg_len (n_dev (upd_tpcb i f s)) = inseg_len (n_dev s)" "recv_flags (n_dev (upd_tpcb i f s)) = recv_flags (n_dev s)"
  "recv_data (n_dev (upd_tpcb i f s)) = recv_data (n_dev s)" "tcp_ticks (n_dev (upd_tpcb i f s)) = tcp_ticks (n_dev s)"
  "tcp_input_pcb (n_dev (upd_tpcb i f s)) = tcp_input_pcb (n_dev s)" "tcp_timer_ctr (n_dev (upd_tpcb i f s)) = tcp_timer_ctr (n_dev s)"
  "tcp_active_pcbs (n_dev (upd_tpcb i f s)) = tcp_active_pcbs (n_dev s)" "tcp_tw_pcbs (n_dev (upd_tpcb i f s)) = tcp_tw_pcbs (n_dev s)"
  "tcp_bound_pcbs (n_dev (upd_tpcb i f s)) = tcp_bound_pcbs (n_dev s)" "tcp_listen_pcbs (n_dev (upd_tpcb i f s)) = tcp_listen_pcbs (n_dev s)"
  by (simp_all add: upd_tpcb_def upd_tcp_def)

lemma upd_tpcb_twice [simp]: "upd_tpcb i f (upd_tpcb i g s) = upd_tpcb i (\<lambda>b. f (g b)) s"
  by (simp add: upd_tpcb_def upd_tcp_def)

lemma upd_tpcb_same: "f (tpcb s i) = tpcb s i \<Longrightarrow> upd_tpcb i f s = s"
  by (simp add: upd_tpcb_def upd_tcp_def)

section \<open>Differences of sequence numbers\<close>

lemma sint_of_int_u32: "- 2147483648 \<le> x \<Longrightarrow> x < 2147483648 \<Longrightarrow> sint (word_of_int x :: u32_t) = x"
  by (simp add: signed_of_int signed_take_bit_int_eq_self)

lemma uint_of_int_u32: "0 \<le> x \<Longrightarrow> x < 4294967296 \<Longrightarrow> uint (word_of_int x :: u32_t) = x"
  by (simp add: unsigned_of_int take_bit_int_eq_self)

lemma word_diff_cases:
  fixes a b :: u32_t
  obtains d where "a = b + word_of_int d" "0 \<le> d" "d < 4294967296" "uint (a - b) = d"
    "sint (a - b) = (if d < 2147483648 then d else d - 4294967296)"
proof -
  let ?d = "uint (a - b)"
  have r: "0 \<le> ?d" "?d < 4294967296" using uint_bounded [of "a - b"] by simp_all
  have e: "a - b = word_of_int ?d" by simp
  have s: "sint (a - b) = (if ?d < 2147483648 then ?d else ?d - 4294967296)"
  proof (cases "?d < 2147483648")
    case True
    then show ?thesis using sint_of_int_u32 [of ?d] r by simp
  next
    case False
    have z: "(4294967296 :: u32_t) = 0" using word_of_int_2p_len [where 'a = 32] by simp
    have "sint (word_of_int (?d - 4294967296) :: u32_t) = ?d - 4294967296" using r False by (intro sint_of_int_u32) simp_all
    then show ?thesis using False by (simp add: z)
  qed
  show thesis by (rule that [of ?d]) (use r s in simp_all)
qed

lemma seq_between_window:
  assumes "0 < wnd" "wnd \<le> 2147483648"
  shows "TCP_SEQ_BETWEEN seqno rcv_nxt (rcv_nxt + word_of_int wnd - 1) \<longleftrightarrow> uint (seqno - rcv_nxt) < wnd"
proof -
  obtain d where d: "seqno = rcv_nxt + word_of_int d" "0 \<le> d" "d < 4294967296" "uint (seqno - rcv_nxt) = d"
    "sint (seqno - rcv_nxt) = (if d < 2147483648 then d else d - 4294967296)"
    by (rule word_diff_cases)
  have e: "seqno - (rcv_nxt + word_of_int wnd - 1) = word_of_int (d - wnd + 1)" by (simp add: d(1))
  show ?thesis
  proof (cases "d < 2147483648")
    case True
    have "sint (word_of_int (d - wnd + 1) :: u32_t) = d - wnd + 1" using assms d(2) True by (intro sint_of_int_u32) simp_all
    then show ?thesis using True d(2) unfolding TCP_SEQ_BETWEEN_def TCP_SEQ_GEQ_def TCP_SEQ_LEQ_def d(4,5) e by auto
  next
    case False
    then show ?thesis using assms d(3) unfolding TCP_SEQ_BETWEEN_def TCP_SEQ_GEQ_def d(4,5) by auto
  qed
qed

section \<open>The announced window\<close>

text \<open>How far the right edge announced last is ahead of the next byte expected.\<close>

definition edge_gap :: "tcp_pcb \<Rightarrow> int" where
  "edge_gap b = sint (t_rcv_ann_right_edge b - t_rcv_nxt b)"

text \<open>A window is promised: what was announced last is not more than there is room for.\<close>

definition rcv_ok :: "tcp_pcb \<Rightarrow> bool" where
  "rcv_ok b \<longleftrightarrow> 0 \<le> t_rcv_wnd b \<and> t_rcv_wnd b \<le> TCP_WND \<and> 0 \<le> t_rcv_ann_wnd b \<and> t_rcv_ann_wnd b \<le> t_rcv_wnd b \<and>
     - 65536 \<le> edge_gap b \<and> edge_gap b \<le> t_rcv_wnd b \<and> 0 < t_mss b"

lemma tcp_update_rcv_ann_wnd_closed:
  assumes "0 \<le> t_rcv_wnd (tpcb s i)" "t_rcv_wnd (tpcb s i) \<le> 65535" "- 65536 \<le> edge_gap (tpcb s i)"
    "edge_gap (tpcb s i) \<le> 65535" "0 < t_mss (tpcb s i)"
  shows "tcp_update_rcv_ann_wnd i s =
    (let b = tpcb s i; more = t_rcv_wnd b - edge_gap b
     in if more \<ge> min (TCP_WND div 2) (t_mss b) then (word_of_int more, upd_tpcb i (\<lambda>b. b\<lparr>t_rcv_ann_wnd := t_rcv_wnd b\<rparr>) s)
        else (0, upd_tpcb i (\<lambda>b. b\<lparr>t_rcv_ann_wnd := max 0 (edge_gap (tpcb s i))\<rparr>) s))"
proof -
  let ?b = "tpcb s i"
  let ?g = "edge_gap ?b" and ?w = "t_rcv_wnd ?b" and ?m = "min (TCP_WND div 2) (t_mss ?b)"
  have m: "0 < ?m" "?m \<le> 1460" using assms(5) by (simp_all add: TCP_WND_def TCP_MSS_def)
  have geq: "TCP_SEQ_GEQ (t_rcv_nxt ?b + word_of_int ?w) (t_rcv_ann_right_edge ?b + word_of_int ?m) \<longleftrightarrow> ?m \<le> ?w - ?g"
  proof -
    have e: "t_rcv_nxt ?b + word_of_int ?w - (t_rcv_ann_right_edge ?b + word_of_int ?m) = word_of_int (?w - ?g - ?m)"
      unfolding edge_gap_def by simp
    have v: "sint (word_of_int (?w - ?g - ?m) :: u32_t) = ?w - ?g - ?m"
      using assms m by (intro sint_of_int_u32) simp_all
    show ?thesis unfolding TCP_SEQ_GEQ_def e v by linarith
  qed
  have gt: "TCP_SEQ_GT (t_rcv_nxt ?b) (t_rcv_ann_right_edge ?b) \<longleftrightarrow> ?g < 0"
  proof -
    have e: "t_rcv_nxt ?b - t_rcv_ann_right_edge ?b = word_of_int (- ?g)" unfolding edge_gap_def by simp
    have v: "sint (word_of_int (- ?g) :: u32_t) = - ?g" using assms by (intro sint_of_int_u32) simp_all
    show ?thesis unfolding TCP_SEQ_GT_def e v by linarith
  qed
  have gap: "t_rcv_ann_right_edge ?b - t_rcv_nxt ?b = word_of_int ?g" unfolding edge_gap_def by simp
  have infl: "t_rcv_nxt ?b + word_of_int ?w - t_rcv_ann_right_edge ?b = word_of_int (?w - ?g)" unfolding edge_gap_def by simp
  have u: "c_u16 (uint (t_rcv_ann_right_edge ?b - t_rcv_nxt ?b)) = ?g" if "0 \<le> ?g"
    using that assms(4) unfolding gap by (simp add: uint_of_int_u32 c_u16_def)
  have upd: "upd_tpcb i (\<lambda>b. b\<lparr>t_rcv_ann_wnd := c_u16 (uint (t_rcv_ann_right_edge b - t_rcv_nxt b))\<rparr>) s =
      upd_tpcb i (\<lambda>b. b\<lparr>t_rcv_ann_wnd := ?g\<rparr>) s" if "0 \<le> ?g"
    using u [OF that] by (simp add: upd_tpcb_def upd_tcp_def)
  show ?thesis unfolding tcp_update_rcv_ann_wnd_def Let_def geq gt infl
    using upd by (cases "0 \<le> ?g") simp_all
qed

section \<open>The round-trip time\<close>

text \<open>The estimate for round trips of at most \<open>M\<close> ticks.\<close>

definition rtt_ok :: "int \<Rightarrow> tcp_pcb \<Rightarrow> bool" where
  "rtt_ok M b \<longleftrightarrow> 0 \<le> t_sa b \<and> t_sa b \<le> 8 * M + 7 \<and> 3 \<le> t_sv b \<and> t_sv b \<le> 4 * M + 3"

lemma c_s16_id: "- 32768 \<le> x \<Longrightarrow> x < 32768 \<Longrightarrow> c_s16 x = x"
  by (simp add: c_s16_def)

lemma rtt_ok_rto: "rtt_ok M b \<Longrightarrow> 3 \<le> t_sa b div 8 + t_sv b \<and> t_sa b div 8 + t_sv b \<le> 5 * M + 3"
  unfolding rtt_ok_def by presburger

lemma rtt_step:
  assumes "rtt_ok M b" "0 \<le> m" "m \<le> M" "M \<le> 4095"
  defines "sa \<equiv> t_sa b + (m - t_sa b div 8)" and "sv \<equiv> t_sv b + (abs (m - t_sa b div 8) - t_sv b div 4)"
  shows "rtt_ok M (b\<lparr>t_sa := sa, t_sv := sv, t_rto := r, t_rttest := t\<rparr>)"
    "c_s16 (m - t_sa b div 8) = m - t_sa b div 8" "c_s16 (t_sa b + (m - t_sa b div 8)) = sa"
    "c_s16 (abs (m - t_sa b div 8)) = abs (m - t_sa b div 8)"
    "c_s16 (abs (m - t_sa b div 8) - t_sv b div 4) = abs (m - t_sa b div 8) - t_sv b div 4"
    "c_s16 (t_sv b + (abs (m - t_sa b div 8) - t_sv b div 4)) = sv" "c_s16 (sa div 8 + sv) = sa div 8 + sv"
proof -
  let ?q = "t_sa b div 8" and ?v = "t_sv b div 4"
  have a: "0 \<le> t_sa b" "t_sa b \<le> 8 * M + 7" "3 \<le> t_sv b" "t_sv b \<le> 4 * M + 3" using assms(1) by (simp_all add: rtt_ok_def)
  have q: "0 \<le> ?q" "?q \<le> M" "8 * ?q \<le> t_sa b" "t_sa b \<le> 8 * ?q + 7" using a by simp_all
  have v: "0 \<le> ?v" "?v \<le> M" "4 * ?v \<le> t_sv b" "t_sv b \<le> 4 * ?v + 3" using a by simp_all
  have e: "0 \<le> abs (m - ?q)" "abs (m - ?q) \<le> M" using q assms(2,3) by simp_all
  have sv: "3 \<le> sv" "sv \<le> 4 * M + 3" using v e a unfolding sv_def by linarith+
  have sa: "0 \<le> sa" "sa \<le> 8 * M + 7" using q a assms(2,3) unfolding sa_def by linarith+
  show "rtt_ok M (b\<lparr>t_sa := sa, t_sv := sv, t_rto := r, t_rttest := t\<rparr>)" using sa sv by (simp add: rtt_ok_def)
  show "c_s16 (m - ?q) = m - ?q" "c_s16 (abs (m - ?q)) = abs (m - ?q)" "c_s16 (abs (m - ?q) - ?v) = abs (m - ?q) - ?v"
    by (rule c_s16_id, (use q v e assms(2-4) in linarith)+)+
  show "c_s16 (t_sa b + (m - ?q)) = sa" using sa assms(4) unfolding sa_def by (intro c_s16_id) simp_all
  show "c_s16 (t_sv b + (abs (m - ?q) - ?v)) = sv" using sv assms(4) unfolding sv_def by (intro c_s16_id) simp_all
  show "c_s16 (sa div 8 + sv) = sa div 8 + sv" using sa sv assms(4) by (intro c_s16_id) simp_all
qed

lemma tcp_rtt_bounds_spec:
  assumes "rtt_ok M (tpcb s i)" "M \<le> 4095" "uint (tcp_ticks (n_dev s) - t_rttest (tpcb s i)) \<le> M"
  shows "rtt_ok M (tpcb (tcp_rtt i s) i)"
    "t_rttest (tpcb s i) \<noteq> 0 \<Longrightarrow> TCP_SEQ_LT (t_rtseq (tpcb s i)) (in_ackno (n_dev s)) \<Longrightarrow>
      (let b = tpcb s i; b' = tpcb (tcp_rtt i s) i; err = uint (tcp_ticks (n_dev s) - t_rttest b) - t_sa b div 8
       in t_sa b' = t_sa b + err \<and> t_sv b' = t_sv b + (abs err - t_sv b div 4) \<and> t_rto b' = t_sa b' div 8 + t_sv b' \<and>
          3 \<le> t_rto b' \<and> t_rto b' \<le> 5 * M + 3)"
proof -
  let ?b = "tpcb s i"
  let ?m = "uint (tcp_ticks (n_dev s) - t_rttest ?b)"
  have m: "0 \<le> ?m" "?m \<le> M" using assms(3) by simp_all
  note st = rtt_step [OF assms(1) m assms(2)]
  have cm: "c_s16 ?m = ?m" using m assms(2) by (intro c_s16_id) linarith+
  have ab: "(if ?m - t_sa ?b div 8 < 0 then c_s16 (- (?m - t_sa ?b div 8)) else ?m - t_sa ?b div 8) = abs (?m - t_sa ?b div 8)"
    using st(4) by (cases "?m - t_sa ?b div 8 < 0") simp_all
  have t: "tpcb (tcp_rtt i s) i = ?b\<lparr>t_sa := t_sa ?b + (?m - t_sa ?b div 8), t_sv := t_sv ?b + (abs (?m - t_sa ?b div 8) - t_sv ?b div 4),
      t_rto := (t_sa ?b + (?m - t_sa ?b div 8)) div 8 + (t_sv ?b + (abs (?m - t_sa ?b div 8) - t_sv ?b div 4)), t_rttest := 0\<rparr>"
    if "t_rttest ?b \<noteq> 0" "TCP_SEQ_LT (t_rtseq ?b) (in_ackno (n_dev s))"
    using that unfolding tcp_rtt_def Let_def
    by (simp only: if_True simp_thms upd_tpcb_access fun_upd_same cm st(2,3) ab st(5-7) not_False_eq_True)
  show "rtt_ok M (tpcb (tcp_rtt i s) i)"
  proof (cases "t_rttest ?b \<noteq> 0 \<and> TCP_SEQ_LT (t_rtseq ?b) (in_ackno (n_dev s))")
    case True
    then show ?thesis unfolding t [OF conjunct1 [OF True] conjunct2 [OF True]] by (rule_tac st(1))
  next
    case False
    then show ?thesis using assms(1) unfolding tcp_rtt_def by (simp only: if_False)
  qed
  assume a: "t_rttest ?b \<noteq> 0" "TCP_SEQ_LT (t_rtseq ?b) (in_ackno (n_dev s))"
  show "let b = ?b; b' = tpcb (tcp_rtt i s) i; err = uint (tcp_ticks (n_dev s) - t_rttest b) - t_sa b div 8
       in t_sa b' = t_sa b + err \<and> t_sv b' = t_sv b + (abs err - t_sv b div 4) \<and> t_rto b' = t_sa b' div 8 + t_sv b' \<and>
          3 \<le> t_rto b' \<and> t_rto b' \<le> 5 * M + 3"
    using rtt_ok_rto [OF st(1) [of 0 0]] unfolding t [OF a] by (simp add: Let_def)
qed

section \<open>Options\<close>

text \<open>The maximum segment size that the bytes of the options give, \<open>m\<close> if there is none.\<close>

definition mss_value :: "u8_t \<Rightarrow> u8_t \<Rightarrow> int" where
  "mss_value a b = (let mss = uint a * 256 + uint b in if mss = 0 \<or> mss > 1460 then 1460 else mss)"

function opt_mss :: "u8_t list \<Rightarrow> int \<Rightarrow> int" where
  "opt_mss [] m = m"
| "opt_mss (k # os) m =
     (if k = 0 then m else if k = 1 then opt_mss os m
      else if k = 2
      then (case os of n # a # b # rest \<Rightarrow> if n = 4 then opt_mss rest (mss_value a b) else m | _ \<Rightarrow> m)
      else (case os of [] \<Rightarrow> m | n # ds \<Rightarrow> if n = 0 then m else opt_mss (drop (unat n - 1) os) m))"
  by pat_completeness auto
termination by (relation "measure (\<lambda>(os, m). length os)") auto

declare opt_mss.simps [simp del]

lemma opt_mss_short: "length ds < 3 \<Longrightarrow> opt_mss (2 # ds) m = m"
  by (auto simp: opt_mss.simps(2) split: list.split)

lemma u8_pos:
  fixes w :: u8_t
  assumes "w \<noteq> 0"
  shows "0 < uint w" "uint w \<le> 255"
  using assms uint_0_iff [of w] uint_bounded [of w] by (simp_all add: order_less_le)

lemma mss_value_range: "1 \<le> mss_value a b" "mss_value a b \<le> 1460"
proof -
  have "0 \<le> uint a * 256" "0 \<le> uint b" by simp_all
  then show "1 \<le> mss_value a b" "mss_value a b \<le> 1460" unfolding mss_value_def Let_def by (simp_all, linarith+)
qed

lemma opt_mss_range: "1 \<le> m \<Longrightarrow> m \<le> 1460 \<Longrightarrow> 1 \<le> opt_mss os m \<and> opt_mss os m \<le> 1460"
proof (induction "length os" arbitrary: os m rule: less_induct)
  case less
  show ?case
  proof (cases os)
    case Nil
    then show ?thesis using less.prems by (simp add: opt_mss.simps)
  next
    case (Cons k ds)
    then show ?thesis using less.prems less.hyps by (auto simp: opt_mss.simps(2) mss_value_range split: list.split)
  qed
qed

lemma mss_at: "(if c_u16 (uint a * 256 + uint b) > TCP_MSS \<or> c_u16 (uint a * 256 + uint b) = 0 then TCP_MSS
    else c_u16 (uint a * 256 + uint b)) = mss_value a b"
proof -
  have "0 \<le> uint a" "uint a < 256" "0 \<le> uint b" "uint b < 256" using uint_bounded [of a] uint_bounded [of b] by simp_all
  then have "c_u16 (uint a * 256 + uint b) = uint a * 256 + uint b" by (simp add: c_u16_def)
  then show ?thesis by (simp add: mss_value_def TCP_MSS_def Let_def)
qed

lemma upd_mss_same: "upd_tpcb i (\<lambda>b. b) s = s"
  by (simp add: upd_tpcb_same)

text \<open>The loop from position \<open>c\<close> on, whatever lies behind the options.\<close>

lemma nth_read_bytes: "0 \<le> c \<Longrightarrow> c < n \<Longrightarrow> read_bytes p n m ! nat c = get8 p c m"
  by (simp add: read_bytes_def bytes_def get8_def)

lemma tcp_parseopt_loop_spec:
  fixes s :: "('x, 'm) tcp_net"
  assumes "0 \<le> c" "max_c \<le> 40"
  shows "tcp_parseopt_loop opts c max_c i s =
    Some (upd_tpcb i (\<lambda>b. b\<lparr>t_mss := opt_mss (drop (nat c) (read_bytes opts max_c (n_mem s))) (t_mss b)\<rparr>) s)"
  using assms
proof (induction "nat (max_c - c)" arbitrary: c s rule: less_induct)
  case less
  let ?os = "read_bytes opts max_c (n_mem s)"
  show ?case
  proof (cases "c < max_c")
    case False
    then have "drop (nat c) ?os = []" using less.prems by simp
    then show ?thesis using False by (subst tcp_parseopt_loop.simps) (simp add: opt_mss.simps upd_mss_same)
  next
    case True
    let ?k = "get8 opts c (n_mem s)" and ?n = "get8 opts (c + 1) (n_mem s)"
    have at: "drop (nat d) ?os = get8 opts d (n_mem s) # drop (nat (d + 1)) ?os" if "0 \<le> d" "d < max_c" for d
      using that nth_read_bytes [of d max_c opts "n_mem s"]
      by (simp add: Cons_nth_drop_Suc [symmetric] nat_add_distrib)
    have over: "drop (nat d) ?os = []" if "max_c \<le> d" for d using that by simp
    have w: "c_u16 (c + k) = c + k" if "0 \<le> k" "k \<le> 255" for k using that less.prems True by (simp add: c_u16_def)
    have ih: "tcp_parseopt_loop opts (c_u16 (c + k)) max_c i s' =
        Some (upd_tpcb i (\<lambda>b. b\<lparr>t_mss := opt_mss (drop (nat (c + k)) ?os) (t_mss b)\<rparr>) s')"
      if "0 < k" "k \<le> 255" "n_mem s' = n_mem s" for k and s' :: "('x, 'm) tcp_net"
      using less.hyps [of "c + k" s'] that True less.prems w [of k] by simp
    have step: "tcp_parseopt_loop opts c max_c i s =
       (if ?k = 0x00 then Some s
        else if ?k = 0x01 then tcp_parseopt_loop opts (c_u16 (c + 1)) max_c i s
        else if ?k = 0x02
        then if ?n \<noteq> 0x04 \<or> c + 0x04 > max_c then Some s
             else tcp_parseopt_loop opts (c_u16 (c + 0x04)) max_c i
               (upd_tpcb i (\<lambda>b. b\<lparr>t_mss := mss_value (get8 opts (c + 2) (n_mem s)) (get8 opts (c + 3) (n_mem s))\<rparr>) s)
        else if ?n = 0 then Some s
        else tcp_parseopt_loop opts (c_u16 (c + uint ?n)) max_c i s)"
      using True by (subst tcp_parseopt_loop.simps) (simp add: mss_at)
    have os: "drop (nat c) ?os = ?k # drop (nat (c + 1)) ?os" using at [of c] True less.prems(1) by simp
    show ?thesis
    proof (cases "?k = 0 \<or> ?k = 1")
      case True
      then show ?thesis unfolding step os using ih [of 1 s] by (auto simp: opt_mss.simps(2) upd_mss_same)
    next
      case k: False
      show ?thesis
      proof (cases "?k = 2")
        case True
        show ?thesis
        proof (cases "c + 4 \<le> max_c")
          case le: True
          have tail: "drop (nat (c + 1)) ?os = ?n # get8 opts (c + 2) (n_mem s) # get8 opts (c + 3) (n_mem s) # drop (nat (c + 4)) ?os"
          proof -
            have n: "c + 1 + 1 = c + 2" "c + 2 + 1 = c + 3" "c + 3 + 1 = c + 4" by simp_all
            have "0 \<le> c + 1" "c + 1 < max_c" "0 \<le> c + 2" "c + 2 < max_c" "0 \<le> c + 3" "c + 3 < max_c" using le less.prems(1) by simp_all
            from at [OF this(1,2)] at [OF this(3,4)] at [OF this(5,6)] show ?thesis unfolding n by simp
          qed
          let ?v = "mss_value (get8 opts (c + 2) (n_mem s)) (get8 opts (c + 3) (n_mem s))"
          show ?thesis
          proof (cases "?n = 4")
            case n: True
            have e: "opt_mss (drop (nat c) ?os) m = opt_mss (drop (nat (c + 4)) ?os) ?v" for m
              unfolding os tail using True n by (simp add: opt_mss.simps(2))
            have st: "tcp_parseopt_loop opts c max_c i s = tcp_parseopt_loop opts (c_u16 (c + 4)) max_c i
                (upd_tpcb i (\<lambda>b. b\<lparr>t_mss := ?v\<rparr>) s)"
              unfolding step using True n le by simp
            show ?thesis unfolding st ih [of 4 "upd_tpcb i (\<lambda>b. b\<lparr>t_mss := ?v\<rparr>) s", simplified] e by simp
          next
            case n: False
            have e: "opt_mss (drop (nat c) ?os) m = m" for m unfolding os tail using True n by (simp add: opt_mss.simps(2))
            show ?thesis unfolding e step using True n by (simp add: upd_mss_same)
          qed
        next
          case gt: False
          have "length (drop (nat (c + 1)) ?os) < 3" using gt less.prems(1) by simp
          then have "opt_mss (drop (nat c) ?os) m = m" for m unfolding os True by (rule opt_mss_short)
          then show ?thesis unfolding step using True gt by (simp add: upd_mss_same)
        qed
      next
        case k2: False
        show ?thesis
        proof (cases "c + 1 < max_c")
          case lt: True
          have tail: "drop (nat (c + 1)) ?os = ?n # drop (nat (c + 2)) ?os" using at [of "c + 1"] lt less.prems(1) unfolding add.assoc by simp
          show ?thesis
          proof (cases "?n = 0")
            case True
            then show ?thesis unfolding step os using k k2 by (simp add: opt_mss.simps(2) tail upd_mss_same)
          next
            case n: False
            have u: "0 < uint ?n" "uint ?n \<le> 255" using u8_pos [OF n] by simp_all
            have iu: "int (unat ?n) = uint ?n" by simp
            have "unat ?n - 1 + nat (c + 1) = nat (c + uint ?n)" using u less.prems(1) iu by linarith
            then have dd: "drop (unat ?n - 1) (drop (nat (c + 1)) ?os) = drop (nat (c + uint ?n)) ?os" by simp
            have e: "opt_mss (drop (nat c) ?os) m = opt_mss (drop (nat (c + uint ?n)) ?os) m" for m
              unfolding os dd [symmetric] using k k2 n tail by (simp add: opt_mss.simps(2))
            show ?thesis unfolding step e using k k2 n ih [OF u, of s] by simp
          qed
        next
          case ge: False
          have nil: "drop (nat (c + 1)) ?os = []" using ge by (intro over) simp
          have e: "opt_mss (drop (nat c) ?os) m = m" for m unfolding os unfolding nil using k k2 by (simp add: opt_mss.simps(2))
          have "tcp_parseopt_loop opts (c_u16 (c + uint ?n)) max_c i s = Some s" if n: "?n \<noteq> 0"
          proof -
            have "\<not> c_u16 (c + uint ?n) < max_c" using w [of "uint ?n"] u8_pos [OF n] ge by linarith
            then show ?thesis by (subst tcp_parseopt_loop.simps) (simp only: if_True simp_thms)
          qed
          then show ?thesis unfolding step e using k k2 by (simp add: upd_mss_same)
        qed
      qed
    qed
  qed
qed

lemma opt_mss_values: "opt_mss os m = m \<or> 1 \<le> opt_mss os m \<and> opt_mss os m \<le> 1460"
proof (induction "length os" arbitrary: os m rule: less_induct)
  case less
  have v: "opt_mss ds (mss_value a b) = m \<or> 1 \<le> opt_mss ds (mss_value a b) \<and> opt_mss ds (mss_value a b) \<le> 1460" for a b ds
    using opt_mss_range [OF mss_value_range] by blast
  show ?case
  proof (cases os)
    case Nil
    then show ?thesis by (simp add: opt_mss.simps)
  next
    case (Cons k ds)
    then show ?thesis using less.hyps v by (auto simp: opt_mss.simps(2) split: list.split)
  qed
qed

lemma TCPH_HDRLEN_range: "0 \<le> TCPH_HDRLEN h m" "TCPH_HDRLEN h m \<le> 15"
proof -
  let ?w = "lwip_ntohs (get16 h TCPH_HDRLEN_RSVD_FLAGS m)"
  have "uint (drop_bit 12 ?w) = uint ?w div 4096" by (simp add: drop_bit_eq_div uint_div)
  then show "0 \<le> TCPH_HDRLEN h m" "TCPH_HDRLEN h m \<le> 15"
    using uint_bounded [of ?w] unfolding TCPH_HDRLEN_def by (simp_all add: pos_imp_zdiv_nonneg_iff)
qed

section \<open>Properties\<close>

text \<open>C35: Whether a sequence number lies in the receive window is decided modulo \<open>2 ^ 32\<close>: for every window of 1 to
  \<open>2 ^ 31\<close> bytes, wherever it starts and whether or not it wraps around, \<open>TCP_SEQ_BETWEEN\<close> holds exactly for
  the sequence numbers whose distance from \<open>rcv_nxt\<close> is less than the window.\<close>
theorem tcp_seq_window:
  assumes "0 < wnd" "wnd \<le> 2147483648"
  shows "TCP_SEQ_BETWEEN seqno rcv_nxt (rcv_nxt + word_of_int wnd - 1) \<longleftrightarrow> uint (seqno - rcv_nxt) < wnd"
  by (rule seq_between_window [OF assms])

text \<open>C30: The options of a segment are parsed to the end whatever bytes the peer sends: \<open>tcp_parseopt\<close> returns, it
  agrees with a parser of the list of option bytes that knows nothing of indices, it changes nothing but the
  MSS of the connection, and that MSS is the old one or lies between 1 and the MSS of this host.\<close>
theorem tcp_parseopt_reads:
  "let m = opt_mss (read_bytes (ptr_add (in_tcphdr (n_dev s)) 20) ((TCPH_HDRLEN (in_tcphdr (n_dev s)) (n_mem s) - 5) * 4) (n_mem s)) (t_mss (tpcb s i))
   in tcp_parseopt i s = Some (upd_tpcb i (\<lambda>b. b\<lparr>t_mss := m\<rparr>) s) \<and> (m = t_mss (tpcb s i) \<or> 1 \<le> m \<and> m \<le> TCP_MSS)"
proof -
  let ?h = "in_tcphdr (n_dev s)"
  let ?n = "TCPH_HDRLEN ?h (n_mem s)"
  let ?os = "read_bytes (ptr_add ?h 20) ((?n - 5) * 4) (n_mem s)"
  have "tcp_parseopt i s = Some (upd_tpcb i (\<lambda>b. b\<lparr>t_mss := opt_mss ?os (t_mss b)\<rparr>) s)"
  proof (cases "?n > 5")
    case True
    have "(?n - 5) * 4 \<le> 40" using TCPH_HDRLEN_range(2) [of ?h "n_mem s"] by simp
    from tcp_parseopt_loop_spec [OF order_refl this, of "ptr_add ?h TCP_HLEN" i s] True
    show ?thesis unfolding tcp_parseopt_def Let_def by (simp add: TCP_HLEN_def)
  next
    case False
    then have "?os = []" by (simp add: read_bytes_def bytes_def)
    then show ?thesis using False unfolding tcp_parseopt_def Let_def by (simp add: opt_mss.simps upd_mss_same)
  qed
  moreover have "upd_tpcb i (\<lambda>b. b\<lparr>t_mss := opt_mss ?os (t_mss b)\<rparr>) s = upd_tpcb i (\<lambda>b. b\<lparr>t_mss := opt_mss ?os (t_mss (tpcb s i))\<rparr>) s"
    by (simp add: upd_tpcb_def upd_tcp_def)
  ultimately show ?thesis using opt_mss_values [of ?os "t_mss (tpcb s i)"] by (simp add: Let_def TCP_MSS_def)
qed

text \<open>The estimation of the round-trip time stays within its 16-bit counters: as long as the round trips measured
  take at most \<open>M\<close> ticks of the slow timer (\<open>M\<close> up to 4095, about half an hour), no conversion in \<open>tcp_rtt\<close>
  changes a value, the average follows the recurrences of Jacobson, and the timeout lies between 3 and
  \<open>5 * M + 3\<close> ticks.\<close>
theorem tcp_rtt_bounds:
  assumes "rtt_ok M (tpcb s i)" and "M \<le> 4095" and "uint (tcp_ticks (n_dev s) - t_rttest (tpcb s i)) \<le> M"
    and "t_rttest (tpcb s i) \<noteq> 0" and "TCP_SEQ_LT (t_rtseq (tpcb s i)) (in_ackno (n_dev s))"
  shows "rtt_ok M (tpcb (tcp_rtt i s) i) \<and>
    (let b = tpcb s i; b' = tpcb (tcp_rtt i s) i; err = uint (tcp_ticks (n_dev s) - t_rttest b) - t_sa b div 8
     in t_sa b' = t_sa b + err \<and> t_sv b' = t_sv b + (abs err - t_sv b div 4) \<and> t_rto b' = t_sa b' div 8 + t_sv b' \<and>
        3 \<le> t_rto b' \<and> t_rto b' \<le> 5 * M + 3)"
  by (rule conjI [OF tcp_rtt_bounds_spec(1) [OF assms(1-3)] tcp_rtt_bounds_spec(2) [OF assms]])

section \<open>Witnesses\<close>

theorem tcp_seq_window_witness:
  "TCP_SEQ_BETWEEN 5 0xFFFFFFF0 (0xFFFFFFF0 + word_of_int 2920 - 1) \<longleftrightarrow> uint (5 - 0xFFFFFFF0 :: u32_t) < 2920"
  by (rule tcp_seq_window) simp_all

text \<open>A segment sent at time 2 and measured at time 5.\<close>

theorem tcp_rtt_bounds_witness:
  "\<exists>s :: eth_dev tcp_vars net. t_rttest (tpcb s 0) = 2 \<and> tcp_ticks (n_dev s) = 5 \<and> rtt_ok 100 (tpcb (tcp_rtt 0 s) 0) \<and> t_rto (tpcb (tcp_rtt 0 s) 0) = 8"
proof -
  define s where "s = upd_tcp (\<lambda>v. v\<lparr>in_ackno := 1001\<rparr>) (upd_tpcb 0 (\<lambda>b. b\<lparr>t_rttest := 2, t_rtseq := 1000\<rparr>) (demo_tcp demo_state))"
  have s: "tpcb s 0 = demo_pcb\<lparr>t_rttest := 2, t_rtseq := 1000\<rparr>" "tcp_ticks (n_dev s) = 5" "in_ackno (n_dev s) = 1001"
    by (simp_all add: s_def upd_tcp_def upd_tpcb_def)
  have b: "t_sa (tpcb s 0) = 0" "t_sv (tpcb s 0) = 6" "t_rttest (tpcb s 0) = 2" "t_rtseq (tpcb s 0) = 1000"
    unfolding s by (simp_all add: demo_pcb_def tcp_pcb_init_def TCP_SLOW_INTERVAL_def)
  have "rtt_ok 100 (tpcb s 0)" "TCP_SEQ_LT 1000 1001" by (simp_all add: rtt_ok_def b TCP_SEQ_LT_def)
  from tcp_rtt_bounds [OF this(1), unfolded b s(2,3)] this(2)
  show ?thesis using b s(2) by (intro exI [of _ s]) (simp add: Let_def)
qed

end
