(* ===== verification/TcpData.thy ===== *)
theory TcpData
  imports TcpSeq
begin

text \<open>
  The data of a received segment: \<open>tcp_receive_data\<close> cuts off what was received before and what is beyond
  the window, and takes exactly the rest.
\<close>

declare split_paired_All [simp del] split_paired_Ex [simp del]

section \<open>Header fields\<close>

lemma get16_put16 [simp]: "get16 h k (put16 h k w m) = w"
  by (simp add: get16_def put16_def mem_write_def load16_def u16_bytes_def ptr_add_def u16_le_bytes [unfolded One_nat_def])

lemma get16_bytes: "p_bytes m' = p_bytes m \<Longrightarrow> get16 h k m' = get16 h k m"
  by (simp add: get16_def)

lemma get16_put32_other: "j + 4 \<le> k \<or> k + 2 \<le> j \<Longrightarrow> get16 h k (put32 h j w m) = get16 h k m"
  by (auto simp: get16_def put32_def mem_write_def load16_def u32_bytes_def ptr_add_def)

lemma put16_writes: "writes (span (ptr_add h k) 2) (u16_bytes w) m (put16 h k w m)"
  using mem_write_writes [of "ptr_add h k" "u16_bytes w" m] by (simp add: put16_def u16_bytes_def)

lemma put32_writes: "writes (span (ptr_add h k) 4) (u32_bytes w) m (put32 h k w m)"
  using mem_write_writes [of "ptr_add h k" "u32_bytes w" m] by (simp add: put32_def u32_bytes_def)

lemma span_within: "0 \<le> k \<Longrightarrow> k + n \<le> l \<Longrightarrow> set (span (ptr_add h k) n) \<subseteq> set (span h l)"
  by (auto simp: span_mem ptr_add_def)

lemma htons_and: "lwip_htons (x AND y) = lwip_htons x AND lwip_htons y"
  by (rule bit_word_eqI) (auto simp: bit_htons bit_and_iff)

lemma htons_or: "lwip_htons (x OR y) = lwip_htons x OR lwip_htons y"
  by (rule bit_word_eqI) (auto simp: bit_htons bit_or_iff)

lemma TCPH_FLAGS_SET_flags: "f AND TCP_FLAGS = f \<Longrightarrow> TCPH_FLAGS h (TCPH_FLAGS_SET h f m) = f"
proof -
  assume f: "f AND TCP_FLAGS = f"
  let ?g = "lwip_ntohs (get16 h TCPH_HDRLEN_RSVD_FLAGS m)"
  have "TCPH_FLAGS h (TCPH_FLAGS_SET h f m) = ((?g AND NOT TCP_FLAGS) OR f) AND TCP_FLAGS"
    by (simp add: TCPH_FLAGS_def TCPH_FLAGS_SET_def lwip_ntohs_def htons_and htons_or)
  also have "\<dots> = f AND TCP_FLAGS" by (rule bit_word_eqI) (auto simp: bit_and_iff bit_or_iff bit_not_iff)
  finally show ?thesis using f by simp
qed

lemma no_fin: "f AND TCP_FLAGS = f \<Longrightarrow> (f AND NOT TCP_FIN) AND TCP_FLAGS = f AND NOT TCP_FIN"
  by (metis (no_types) and.assoc and.commute)

lemma TCPH_FLAGS_idem: "TCPH_FLAGS h m AND TCP_FLAGS = TCPH_FLAGS h m"
  by (simp add: TCPH_FLAGS_def and.assoc)

lemma and_not_none:
  fixes f g :: u16_t
  assumes "f AND g = 0"
  shows "f AND NOT g = f"
proof -
  have "f = (f AND g) OR (f AND NOT g)" by (rule bit_word_eqI) (auto simp: bit_and_iff bit_or_iff bit_not_iff)
  then show ?thesis unfolding assms by simp
qed

lemma fin_syn_zero: "f AND TCP_SYN = 0 \<Longrightarrow> f AND (TCP_FIN OR TCP_SYN) = f AND TCP_FIN"
  by (simp add: bit.conj_disj_distrib)

section \<open>Cutting off the front\<close>

definition cut_front :: "ptr list \<Rightarrow> int \<Rightarrow> pstate \<Rightarrow> pstate" where
  "cut_front us nt m = m\<lparr>p_pbufs := (\<lambda>x. if x \<in> set us then (p_pbufs m x)\<lparr>pb_tot_len := nt, pb_len := 0\<rparr> else p_pbufs m x)\<rparr>"

lemma cut_front_simps [simp]:
  "p_pbufs (cut_front us nt m) = (\<lambda>x. if x \<in> set us then (p_pbufs m x)\<lparr>pb_tot_len := nt, pb_len := 0\<rparr> else p_pbufs m x)"
  "p_bytes (cut_front us nt m) = p_bytes m" "p_heap (cut_front us nt m) = p_heap m" "p_pools (cut_front us nt m) = p_pools m"
  "p_original (cut_front us nt m) = p_original m"
  by (simp_all add: cut_front_def)

lemma cut_front_Cons:
  "x \<notin> set us \<Longrightarrow> cut_front us nt (upd_pbuf x (\<lambda>b. b\<lparr>pb_tot_len := nt, pb_len := 0\<rparr>) m) = cut_front (x # us) nt m"
  by (auto intro!: pstate.equality simp: fun_eq_iff)

lemma cut_front_Nil: "cut_front [] nt m = m"
  by (simp add: cut_front_def)

lemma tcp_trim_loop_spec:
  "chain m p xs \<Longrightarrow> lens_ok m xs \<Longrightarrow> 0 < off \<Longrightarrow> off \<le> tot m xs \<Longrightarrow>
     \<exists>us q vs. xs = us @ q # vs \<and> 0 < off - tot m us \<and> off - tot m us \<le> pb_len (p_pbufs m q) \<and>
       tcp_trim_loop p off nt m = Some (q, off - tot m us, cut_front us nt m)"
proof (induction xs arbitrary: p off m)
  case (Cons x xs)
  have x: "p = Some x" "chain m (pb_next (p_pbufs m x)) xs" "lens_ok m xs" using Cons.prems by simp_all
  have nx: "x \<notin> set xs" using chain_distinct [OF Cons.prems(1)] by simp
  show ?case
  proof (cases "pb_len (p_pbufs m x) < off")
    case False
    then have "tcp_trim_loop p off nt m = Some (x, off, m)" unfolding x(1) by (subst tcp_trim_loop.simps) simp
    then show ?thesis using False Cons.prems(3)
      by (intro exI [of _ "[]"] exI [of _ x] exI [of _ xs]) (simp add: cut_front_Nil)
  next
    case True
    let ?m = "upd_pbuf x (\<lambda>b. b\<lparr>pb_tot_len := nt, pb_len := 0\<rparr>) m" and ?off = "off - pb_len (p_pbufs m x)"
    have o: "\<forall>y\<in>set xs. p_pbufs ?m y = p_pbufs m y" using nx by auto
    have "chain ?m (pb_next (p_pbufs m x)) xs" "lens_ok ?m xs" "?off \<le> tot ?m xs"
      using same_pbufs [OF o] x(2,3) Cons.prems(4) by simp_all
    from Cons.IH [OF this(1,2) _ this(3)] True obtain us q vs where r: "xs = us @ q # vs" "0 < ?off - tot ?m us"
      "?off - tot ?m us \<le> pb_len (p_pbufs ?m q)" "tcp_trim_loop (pb_next (p_pbufs m x)) ?off nt ?m = Some (q, ?off - tot ?m us, cut_front us nt ?m)"
      by auto
    have u: "tot ?m us = tot m us" by (rule tot_cong) (use nx r(1) in auto)
    have q: "p_pbufs ?m q = p_pbufs m q" "x \<notin> set us" using nx r(1) by auto
    have st: "tcp_trim_loop p off nt m = tcp_trim_loop (pb_next (p_pbufs m x)) ?off nt ?m"
      unfolding x(1) using True by (subst tcp_trim_loop.simps) simp
    have e: "off - tot m (x # us) = ?off - tot m us" by simp
    show ?thesis
      by (rule exI [of _ "x # us"], rule exI [of _ q], rule exI [of _ vs], unfold e st r(4) u cut_front_Cons [OF q(2)])
        (use r(1-3) q(1) u in simp)
  qed
qed simp

lemma c_s16_neg: "0 < k \<Longrightarrow> k \<le> 32768 \<Longrightarrow> c_s16 (- k) = - k"
  by (simp add: c_s16_def)

text \<open>The packet of a segment in memory, whose header is elsewhere.\<close>

definition placed :: "pstate \<Rightarrow> ptr \<Rightarrow> bool" where
  "placed m x \<longleftrightarrow> pb_type (p_pbufs m x) = PBUF_RAM \<or> pb_type (p_pbufs m x) = PBUF_POOL \<longrightarrow>
     snd x + SIZEOF_STRUCT_PBUF \<le> snd (pb_payload (p_pbufs m x))"

definition seg_packet :: "pstate \<Rightarrow> ptr \<Rightarrow> ptr \<Rightarrow> ptr list \<Rightarrow> bool" where
  "seg_packet m h p xs \<longleftrightarrow> packet m (Some p) xs \<and> refs_ok m xs \<and> heap_ok (p_heap m) \<and> (\<forall>x\<in>set xs. ram_ok m x \<and> placed m x) \<and>
     set (span h 20) \<inter> set (addrs m xs) = {} \<and> tot m xs \<le> 32767"

text \<open>What the pbufs keep when bytes are cut off their front.\<close>

definition cut_of :: "pbuf \<Rightarrow> pbuf \<Rightarrow> bool" where
  "cut_of b c \<longleftrightarrow> (\<exists>d n t. c = b\<lparr>pb_payload := ptr_add (pb_payload b) d, pb_len := n, pb_tot_len := t\<rparr> \<and> 0 \<le> d \<and> 0 \<le> n \<and> d + n \<le> pb_len b)"

lemma cut_of_same: "0 \<le> pb_len b \<Longrightarrow> cut_of b b"
  unfolding cut_of_def by (intro exI [of _ 0] exI [of _ "pb_len b"] exI [of _ "pb_tot_len b"]) (simp add: ptr_add_def)

lemma cut_of_kept:
  assumes "cut_of (p_pbufs m x) (p_pbufs m' x)" "p_heap m' = p_heap m"
  shows "stored m x \<Longrightarrow> stored m' x" "pb_ref (p_pbufs m' x) = pb_ref (p_pbufs m x)" "ram_ok m x \<Longrightarrow> ram_ok m' x" "placed m x \<Longrightarrow> placed m' x"
proof -
  obtain d n t where c: "p_pbufs m' x = (p_pbufs m x)\<lparr>pb_payload := ptr_add (pb_payload (p_pbufs m x)) d, pb_len := n, pb_tot_len := t\<rparr>"
    "0 \<le> d" "0 \<le> n" "d + n \<le> pb_len (p_pbufs m x)"
    using assms(1) by (auto simp: cut_of_def)
  show "stored m x \<Longrightarrow> stored m' x" "pb_ref (p_pbufs m' x) = pb_ref (p_pbufs m x)" using c(1) by (simp_all add: stored_def)
  show "placed m x \<Longrightarrow> placed m' x" using c by (auto simp: placed_def ptr_add_def)
  show "ram_ok m x \<Longrightarrow> ram_ok m' x" using c assms(2) by (fastforce simp: ram_ok_def ptr_add_def)
qed

lemma trim_memory:
  assumes p: "packet m (Some p) xs" and k: "0 < k" "k \<le> tot m xs" "tot m xs \<le> 32767" and pl: "\<forall>x\<in>set xs. placed m x"
  shows "\<exists>q off m1 m2. tcp_trim_loop (Some p) k (c_u16 (tot m xs - k)) m = Some (q, off, m1) \<and>
    pbuf_header (Some q) (c_s16 (- off)) m1 = (False, m2) \<and> packet m2 (Some p) xs \<and> addrs m2 xs = drop (nat k) (addrs m xs) \<and>
    tot m2 xs = tot m xs - k \<and> p_bytes m2 = p_bytes m \<and> p_heap m2 = p_heap m \<and> p_pools m2 = p_pools m \<and>
    (\<forall>x\<in>set xs. cut_of (p_pbufs m x) (p_pbufs m2 x))"
proof -
  let ?nt = "c_u16 (tot m xs - k)"
  have ch: "chain m (Some p) xs" "lens_ok m xs" using p by (simp_all add: packet_def)
  have nt: "?nt = tot m xs - k" using k by (simp add: c_u16_id)
  obtain us q vs where r: "xs = us @ q # vs" "0 < k - tot m us" "k - tot m us \<le> pb_len (p_pbufs m q)"
    "tcp_trim_loop (Some p) k ?nt m = Some (q, k - tot m us, cut_front us ?nt m)"
    using tcp_trim_loop_spec [OF ch k(1,2)] by blast
  let ?off = "k - tot m us"
  define m1 where "m1 = cut_front us ?nt m"
  have d: "q \<notin> set us" "q \<notin> set vs" "set us \<inter> set vs = {}" using chain_distinct [OF ch(1)] r(1) by auto
  have lq: "lens_ok m (q # vs)" "0 \<le> tot m us" using lens_ok_appendD [of m us "q # vs"] ch(2) r(1) by simp_all
  have o: "\<forall>x\<in>set (q # vs). p_pbufs m1 x = p_pbufs m x" using d by (auto simp: m1_def)
  have cq: "chain m (Some q) (q # vs)"
    using ch(1) unfolding r(1) chain_def by (metis linked_behind linked.simps(2))
  have pq: "packet m1 (Some q) (q # vs)" using cq lq(1) same_pbufs(1,2) [OF o] by (simp only: packet_def simp_thms)
  have len: "pb_len (p_pbufs m1 q) = pb_len (p_pbufs m q)" "0 \<le> pb_len (p_pbufs m q)" using o lq(1) by simp_all
  have off: "0 < ?off" "?off \<le> pb_len (p_pbufs m1 q)" "?off \<le> 32768" using r(2,3) len k lq(2) by simp_all
  have plq: "pb_type (p_pbufs m1 q) = PBUF_RAM \<or> pb_type (p_pbufs m1 q) = PBUF_POOL \<longrightarrow>
      snd q + SIZEOF_STRUCT_PBUF \<le> snd (pb_payload (p_pbufs m1 q)) + ?off"
    using pl r(1,2) o by (auto simp: placed_def)
  obtain m2 where m2: "pbuf_header (Some q) (- ?off) m1 = (False, m2)" "packet m2 (Some q) (q # vs)"
    "tot m2 (q # vs) = tot m1 (q # vs) - ?off"
    "p_pbufs m2 q = (p_pbufs m1 q)\<lparr>pb_payload := ptr_add (pb_payload (p_pbufs m1 q)) ?off, pb_len := pb_len (p_pbufs m1 q) - ?off,
      pb_tot_len := pb_tot_len (p_pbufs m1 q) - ?off\<rparr>" "p_bytes m2 = p_bytes m1" "p_heap m2 = p_heap m1" "p_pools m2 = p_pools m1"
    "\<forall>y. y \<noteq> q \<longrightarrow> p_pbufs m2 y = p_pbufs m1 y"
    using shrink_header [OF pq off plq] by blast
  have us2: "p_pbufs m2 x = (p_pbufs m x)\<lparr>pb_tot_len := ?nt, pb_len := 0\<rparr>" if "x \<in> set us" for x
    using that d(1) m2(8) [rule_format, of x] by (auto simp: m1_def)
  have vs2: "p_pbufs m2 x = p_pbufs m x" if "x \<in> set vs" for x
  proof -
    have "x \<noteq> q" "x \<notin> set us" using that d by auto
    then show ?thesis using m2(8) by (simp add: m1_def)
  qed
  have totq: "tot m1 (q # vs) = tot m (q # vs)" using same_pbufs(3) [OF o] .
  have tx: "tot m xs = tot m us + tot m (q # vs)" unfolding r(1) by simp
  have sq: "tot m2 (q # vs) = tot m xs - k" using m2(3) totq tx by simp
  have pk: "chain m2 r (us @ q # vs) \<and> lens_ok m2 (us @ q # vs) \<and> tot m2 (us @ q # vs) = tot m xs - k" if "chain m r (us @ q # vs)" "set us \<subseteq> set us'"
      "\<forall>x\<in>set us'. p_pbufs m2 x = (p_pbufs m x)\<lparr>pb_tot_len := ?nt, pb_len := 0\<rparr>" for r us us'
    using that
  proof (induction us arbitrary: r)
    case Nil
    then show ?case using m2(2) sq by (simp add: packet_def)
  next
    case (Cons u us)
    then have u: "r = Some u" "chain m (pb_next (p_pbufs m u)) (us @ q # vs)" "p_pbufs m2 u = (p_pbufs m u)\<lparr>pb_tot_len := ?nt, pb_len := 0\<rparr>"
      by auto
    show ?case using Cons.IH [OF u(2)] Cons.prems(2,3) u(1,3) nt k by auto
  qed
  have "packet m2 (Some p) xs \<and> tot m2 xs = tot m xs - k"
    using pk [of "Some p" us us] ch(1) us2 unfolding packet_def r(1) by blast
  moreover have "addrs m2 xs = drop (nat k) (addrs m xs)"
  proof -
    have e: "addrs m2 us = []"
      using us2 by (simp add: addrs_def pb_addrs_def span_def)
    have v: "addrs m2 vs = addrs m vs"
      unfolding addrs_def by (intro arg_cong [where f = concat] map_cong refl) (simp add: pb_addrs_def vs2)
    have q: "pb_addrs m q = span (pb_payload (p_pbufs m q)) ?off @ pb_addrs m2 q"
      using span_append [of ?off "pb_len (p_pbufs m q) - ?off" "pb_payload (p_pbufs m q)"] r(2,3) m2(4) o by (simp add: pb_addrs_def)
    have "int (length (addrs m ys)) = tot m ys" if "lens_ok m (ys @ q # vs)" for ys
      using that by (induction ys) auto
    from this [of us] have l: "int (length (addrs m us)) = tot m us" using ch(2) unfolding r(1) .
    have n: "nat k = length (addrs m us) + nat ?off" using l r(2) by linarith
    have "addrs m xs = addrs m us @ span (pb_payload (p_pbufs m q)) ?off @ (pb_addrs m2 q @ addrs m vs)" unfolding r(1) by (simp add: q)
    then have "drop (nat k) (addrs m xs) = pb_addrs m2 q @ addrs m vs" unfolding n by simp
    then show ?thesis unfolding r(1) by (simp add: addrs_append e v)
  qed
  moreover have "cut_of (p_pbufs m x) (p_pbufs m2 x)" if mem: "x \<in> set xs" for x
  proof -
    have l: "0 \<le> pb_len (p_pbufs m x)" using ch(2) mem by (induction xs) auto
    consider "x \<in> set us" | "x = q" | "x \<in> set vs" using mem r(1) by auto
    then show ?thesis
    proof cases
      case 1
      then show ?thesis unfolding cut_of_def us2 [OF 1] using l
        by (intro exI [of _ 0] exI [of _ 0] exI [of _ ?nt]) (simp add: ptr_add_def)
    next
      case 2
      have "p_pbufs m1 q = p_pbufs m q" using o by simp
      then show ?thesis unfolding 2 cut_of_def m2(4) using r(2,3)
        by (intro exI [of _ ?off] exI [of _ "pb_len (p_pbufs m q) - ?off"] exI [of _ "pb_tot_len (p_pbufs m q) - ?off"]) simp
    next
      case 3
      then show ?thesis using cut_of_same l vs2 by simp
    qed
  qed
  moreover have "pbuf_header (Some q) (c_s16 (- ?off)) m1 = (False, m2)" using m2(1) c_s16_neg [OF off(1,3)] by simp
  moreover have "p_bytes m2 = p_bytes m" "p_heap m2 = p_heap m" "p_pools m2 = p_pools m" using m2(5-7) by (simp_all add: m1_def)
  ultimately show ?thesis using r(4) unfolding m1_def [symmetric] by blast
qed

lemma trim_data:
  assumes "addrs m2 xs = drop n (addrs m xs)" "p_bytes m2 = p_bytes m"
  shows "data m2 xs = drop n (data m xs)"
  using assms(2) unfolding data_addrs assms(1) by (simp add: drop_map byt_def fun_eq_iff)

lemma TCPH_FLAGS_bytes: "get16 h 12 m' = get16 h 12 m \<Longrightarrow> TCPH_FLAGS h m' = TCPH_FLAGS h m"
  by (simp add: TCPH_FLAGS_def TCPH_HDRLEN_RSVD_FLAGS_def)

lemma seg_packet_cut:
  assumes s: "seg_packet m h p xs" and p: "packet m' (Some p) xs" and a: "addrs m' xs = drop n (addrs m xs)" "tot m' xs \<le> 32767"
    and f: "p_heap m' = p_heap m" "\<And>x. x \<in> set xs \<Longrightarrow> cut_of (p_pbufs m x) (p_pbufs m' x)"
  shows "seg_packet m' h p xs"
proof -
  have "set (addrs m' xs) \<subseteq> set (addrs m xs)" unfolding a(1) by (rule set_drop_subset)
  then have "set (span h 20) \<inter> set (addrs m' xs) = {}" using s unfolding seg_packet_def by blast
  moreover have "refs_ok m' xs" using s cut_of_kept(1,2) [OF f(2,1)] by (auto simp: seg_packet_def refs_ok_def)
  moreover have "ram_ok m' x \<and> placed m' x" if "x \<in> set xs" for x
    using s cut_of_kept(3,4) [OF f(2) [OF that] f(1)] that by (auto simp: seg_packet_def)
  ultimately show ?thesis using s p a(2) f(1) by (simp add: seg_packet_def)
qed

lemma seg_packet_writes:
  assumes s: "seg_packet m h p xs" and w: "writes (span (ptr_add h k) n) bs m m'" and k: "0 \<le> k" "k + n \<le> 20"
  shows "seg_packet m' h p xs" "data m' xs = data m xs" "tot m' xs = tot m xs"
proof -
  have e: "p_pbufs m' = p_pbufs m" "p_heap m' = p_heap m" using w by (simp_all add: writes_def)
  have "set (addrs m xs) \<inter> set (span (ptr_add h k) n) = {}" using s span_within [OF k] unfolding seg_packet_def by blast
  from writes_data_other [OF w this] show "data m' xs = data m xs" .
  show tt: "tot m' xs = tot m xs" by (rule tot_cong) (simp add: e)
  show "seg_packet m' h p xs" using s e writes_packet [OF w] writes_addrs [OF w] tt
    by (auto simp: seg_packet_def refs_ok_def stored_def ram_ok_def placed_def)
qed

lemma tcp_trim_front_spec:
  assumes p: "inseg_p (n_dev s) = Some p" and sp: "seg_packet (n_mem s) (in_tcphdr (n_dev s)) p xs"
    and k: "t_rcv_nxt (tpcb s i) = in_seqno (n_dev s) + word_of_int k" "0 < k" "k \<le> tot (n_mem s) xs"
    and il: "inseg_len (n_dev s) = tot (n_mem s) xs"
  shows "\<exists>m. tcp_trim_front i s =
      Some (set_mem m (upd_tcp (\<lambda>v. v\<lparr>inseg_len := tot (n_mem s) xs - k, in_seqno := t_rcv_nxt (tpcb s i)\<rparr>) s)) \<and>
    seg_packet m (in_tcphdr (n_dev s)) p xs \<and> data m xs = drop (nat k) (data (n_mem s) xs) \<and> tot m xs = tot (n_mem s) xs - k \<and>
    TCPH_FLAGS (in_tcphdr (n_dev s)) m = TCPH_FLAGS (in_tcphdr (n_dev s)) (n_mem s)"
proof -
  let ?m = "n_mem s" and ?h = "in_tcphdr (n_dev s)" and ?nx = "t_rcv_nxt (tpcb s i)"
  have pk: "packet ?m (Some p) xs" and t: "tot ?m xs \<le> 32767" and pl: "\<forall>x\<in>set xs. placed ?m x" using sp by (simp_all add: seg_packet_def)
  obtain q off m1 m2 where m: "tcp_trim_loop (Some p) k (c_u16 (tot ?m xs - k)) ?m = Some (q, off, m1)"
    "pbuf_header (Some q) (c_s16 (- off)) m1 = (False, m2)" "packet m2 (Some p) xs" "addrs m2 xs = drop (nat k) (addrs ?m xs)"
    "tot m2 xs = tot ?m xs - k" "p_bytes m2 = p_bytes ?m" "p_heap m2 = p_heap ?m" "\<forall>x\<in>set xs. cut_of (p_pbufs ?m x) (p_pbufs m2 x)"
    using trim_memory [OF pk k(2,3) t pl] by blast
  let ?m3 = "put32 ?h TCPH_SEQNO ?nx m2"
  have tl: "pb_tot_len (p_pbufs ?m p) = tot ?m xs" using pk by (cases xs) (auto simp: packet_def)
  have d: "?nx - in_seqno (n_dev s) = word_of_int k" unfolding k(1) by simp
  have so: "sint (word_of_int k :: u32_t) = k" "c_u16 (uint (word_of_int k :: u32_t)) = k" "c_u16 (tot ?m xs - k) = tot ?m xs - k"
    using k(2,3) t by (simp_all add: sint_of_int_u32 uint_of_int_u32 c_u16_id)
  have run: "tcp_trim_front i s = Some (set_mem ?m3 (upd_tcp (\<lambda>v. v\<lparr>inseg_len := tot ?m xs - k, in_seqno := ?nx\<rparr>) s))"
    using m(1,2) by (simp add: tcp_trim_front_def p d so tl il Let_def upd_tcp_def upd_mem_def set_mem_def)
  have s2: "seg_packet m2 ?h p xs" by (rule seg_packet_cut [OF sp m(3,4) _ m(7)]) (use m(5,8) t k in auto)
  have "writes (span (ptr_add ?h TCPH_SEQNO) 4) (u32_bytes ?nx) m2 ?m3" by (rule put32_writes)
  note w = seg_packet_writes [OF s2 this]
  have "seg_packet ?m3 ?h p xs" "data ?m3 xs = data m2 xs" "tot ?m3 xs = tot m2 xs" by (rule w; simp add: TCPH_SEQNO_def)+
  moreover have "data m2 xs = drop (nat k) (data ?m xs)" using trim_data [OF m(4,6)] .
  moreover have "TCPH_FLAGS ?h ?m3 = TCPH_FLAGS ?h ?m"
    by (rule TCPH_FLAGS_bytes) (simp add: get16_put32_other TCPH_SEQNO_def get16_bytes [OF m(6)])
  ultimately show ?thesis using run m(5) by (intro exI [of _ ?m3]) (simp only: simp_thms)
qed

section \<open>Cutting off the end\<close>

text \<open>The FIN of the segment, and the room it takes.\<close>

definition fin_bit :: "u16_t \<Rightarrow> int" where
  "fin_bit f = (if f AND TCP_FIN \<noteq> 0 then 1 else 0)"

lemma fin_bit_range: "0 \<le> fin_bit f" "fin_bit f \<le> 1"
  by (simp_all add: fin_bit_def)

lemma inseg_tcplen_no_syn:
  "inseg_flags s AND TCP_SYN = 0 \<Longrightarrow> 0 \<le> inseg_len (n_dev s) \<Longrightarrow> inseg_len (n_dev s) \<le> 65534 \<Longrightarrow>
     inseg_tcplen s = inseg_len (n_dev s) + fin_bit (inseg_flags s)"
  by (simp add: inseg_tcplen_def fin_syn_zero fin_bit_def c_u16_id)

lemma TCPH_FLAGS_SET_writes:
  "writes (span (ptr_add h 12) 2) (u16_bytes ((get16 h 12 m AND lwip_htons (NOT TCP_FLAGS)) OR lwip_htons f)) m (TCPH_FLAGS_SET h f m)"
  unfolding TCPH_FLAGS_SET_def TCPH_HDRLEN_RSVD_FLAGS_def by (rule put16_writes)

lemma tcp_trim_back_spec:
  assumes p: "inseg_p (n_dev s) = Some p" and sp: "seg_packet (n_mem s) (in_tcphdr (n_dev s)) p xs"
    and il: "inseg_len (n_dev s) = tot (n_mem s) xs" and syn: "inseg_flags s AND TCP_SYN = 0"
    and w: "0 \<le> t_rcv_wnd (tpcb s i)"
  defines "wnd \<equiv> t_rcv_wnd (tpcb s i)" and "n \<equiv> tot (n_mem s) xs + fin_bit (inseg_flags s)"
  shows "\<exists>m ys. tcp_trim_back l i s =
      Some (set_mem m (upd_tcp (\<lambda>v. v\<lparr>inseg_len := min (tot (n_mem s) xs) wnd, in_tcplen := min n wnd\<rparr>) s)) \<and>
    packet m (Some p) ys \<and> data m ys = take (nat wnd) (data (n_mem s) xs) \<and> tot m ys = min (tot (n_mem s) xs) wnd \<and>
    (TCPH_FLAGS (in_tcphdr (n_dev s)) m AND TCP_FIN \<noteq> 0 \<longleftrightarrow> inseg_flags s AND TCP_FIN \<noteq> 0 \<and> n \<le> wnd)"
proof -
  let ?m = "n_mem s" and ?h = "in_tcphdr (n_dev s)" and ?f = "inseg_flags s"
  have pk: "packet ?m (Some p) xs" and t: "tot ?m xs \<le> 32767" "0 \<le> tot ?m xs" and lo: "lens_ok ?m xs"
    using sp tot_nonneg [of ?m xs] by (simp_all add: seg_packet_def packet_def)
  have tl: "inseg_tcplen s = n" using inseg_tcplen_no_syn [OF syn] il t by (simp add: n_def)
  let ?s = "upd_tcp (\<lambda>v. v\<lparr>in_tcplen := n\<rparr>) s"
  show ?thesis
  proof (cases "n > wnd")
    case False
    have "tot ?m xs \<le> wnd" using False fin_bit_range [of ?f] by (simp add: n_def)
    moreover have "take (nat wnd) (data ?m xs) = data ?m xs" using length_data [OF lo] calculation by simp
    moreover have "tcp_trim_back l i s = Some (set_mem ?m (upd_tcp (\<lambda>v. v\<lparr>inseg_len := min (tot ?m xs) wnd, in_tcplen := min n wnd\<rparr>) s))"
      using False calculation(1) il by (simp add: tcp_trim_back_def tl Let_def wnd_def upd_tcp_def set_mem_def)
    ultimately show ?thesis using pk False by (intro exI [of _ ?m] exI [of _ xs]) simp
  next
    case True
    have wt: "wnd \<le> tot ?m xs" using True fin_bit_range [of ?f] by (simp add: n_def)
    define m1 where "m1 = (if ?f AND TCP_FIN \<noteq> 0 then TCPH_FLAGS_SET ?h (?f AND NOT TCP_FIN) ?m else ?m)"
    have s1: "seg_packet m1 ?h p xs \<and> data m1 xs = data ?m xs \<and> tot m1 xs = tot ?m xs"
      using sp seg_packet_writes [OF sp TCPH_FLAGS_SET_writes] by (simp add: m1_def)
    have f1: "TCPH_FLAGS ?h m1 = ?f AND NOT TCP_FIN"
    proof (cases "?f AND TCP_FIN = 0")
      case True
      then have "?f AND NOT TCP_FIN = ?f" by (rule and_not_none)
      then show ?thesis using True by (simp add: m1_def)
    next
      case False
      then show ?thesis using TCPH_FLAGS_SET_flags [OF no_fin [OF TCPH_FLAGS_idem]] by (simp add: m1_def)
    qed
    obtain m2 ys where m2: "pbuf_realloc (custom_free l) p wnd m1 = Some m2" "packet m2 (Some p) ys"
      "tot m2 ys = min wnd (tot m1 xs)" "data m2 ys = take (nat wnd) (data m1 xs)" "p_bytes m2 = p_bytes m1"
      using pbuf_realloc_cut [of m1 p xs wnd "custom_free l"] s1 w unfolding seg_packet_def wnd_def by blast
    have f2: "TCPH_FLAGS ?h m2 = ?f AND NOT TCP_FIN" using TCPH_FLAGS_bytes [OF get16_bytes [OF m2(5)]] f1 by simp
    have z: "(?f AND NOT TCP_FIN) AND TCP_SYN = 0" "(?f AND NOT TCP_FIN) AND TCP_FIN = 0"
    proof -
      show "(?f AND NOT TCP_FIN) AND TCP_FIN = 0" by (simp add: and.assoc)
      have "(?f AND NOT TCP_FIN) AND TCP_SYN = (?f AND TCP_SYN) AND NOT TCP_FIN" by (simp only: and.assoc and.commute [of "NOT TCP_FIN"])
      then show "(?f AND NOT TCP_FIN) AND TCP_SYN = 0" using syn by simp
    qed
    have z2: "(?f AND NOT TCP_FIN) AND (TCP_FIN OR TCP_SYN) = 0" using fin_syn_zero [OF z(1)] z(2) by simp
    define u where "u = (if ?f AND TCP_FIN \<noteq> 0 then upd_mem (TCPH_FLAGS_SET ?h (?f AND NOT TCP_FIN)) ?s else ?s)"
    have u: "u = set_mem m1 ?s" by (simp add: u_def m1_def upd_mem_def set_mem_def upd_tcp_def)
    have k: "inseg_p (n_dev u) = Some p" "n_mem u = m1" "tpcb u i = tpcb s i" "in_tcphdr (n_dev u) = ?h"
      using p by (simp_all add: u upd_tcp_def set_mem_def)
    have wn: "c_u16 wnd = wnd" using w wt t by (simp add: wnd_def c_u16_id)
    let ?s2 = "upd_tcp (\<lambda>v. v\<lparr>inseg_len := wnd\<rparr>) (set_mem m2 u)"
    have r: "inseg_tcplen ?s2 = wnd" using f2 z2 wn by (simp add: inseg_tcplen_def u upd_tcp_def set_mem_def)
    have "tcp_trim_back l i s = Some (upd_tcp (\<lambda>v. v\<lparr>in_tcplen := inseg_tcplen ?s2\<rparr>) ?s2)"
    proof -
      have c: "in_tcplen (n_dev ?s) > t_rcv_wnd (tpcb ?s i)" "n_mem ?s = ?m" "in_tcphdr (n_dev ?s) = ?h"
        using True by (simp_all add: upd_tcp_def wnd_def)
      have sn: "TCPH_FLAGS (in_tcphdr (n_dev u)) (n_mem u) AND TCP_SYN = 0" unfolding k f1 using z(1) .
      show ?thesis unfolding tcp_trim_back_def tl Let_def if_P [OF c(1)] c(3,2) u_def [symmetric]
        using sn by (simp only: k if_False not_True_eq_False not_False_eq_True simp_thms bind.bind_lunit wnd_def [symmetric] m2(1))
    qed
    then have "tcp_trim_back l i s = Some (set_mem m2 (upd_tcp (\<lambda>v. v\<lparr>inseg_len := wnd, in_tcplen := wnd\<rparr>) s))"
      unfolding r by (simp add: u upd_tcp_def set_mem_def)
    moreover have "min (tot ?m xs) wnd = wnd" "min n wnd = wnd" "\<not> n \<le> wnd" using wt True by simp_all
    ultimately show ?thesis using m2 s1 f2 z(2) wt by (intro exI [of _ m2] exI [of _ ys]) simp
  qed
qed

section \<open>Taking the segment\<close>

lemma tcp_update_rcv_ann_wnd_only:
  "\<exists>e w. tcp_update_rcv_ann_wnd i s = (e, upd_tpcb i (\<lambda>b. b\<lparr>t_rcv_ann_wnd := w\<rparr>) s)"
  unfolding tcp_update_rcv_ann_wnd_def Let_def upd_tpcb_def upd_tcp_def by (auto intro: exI)

lemma ack_due: "(f AND NOT TF_ACK_DELAY OR TF_ACK_NOW) AND (TF_ACK_NOW OR TF_ACK_DELAY) \<noteq> 0"
  "(f OR TF_ACK_DELAY) AND (TF_ACK_NOW OR TF_ACK_DELAY) \<noteq> 0" for f :: u8_t
proof -
  have "bit ((f AND NOT TF_ACK_DELAY OR TF_ACK_NOW) AND (TF_ACK_NOW OR TF_ACK_DELAY)) 1" "bit ((f OR TF_ACK_DELAY) AND (TF_ACK_NOW OR TF_ACK_DELAY)) 0"
    by (simp_all add: TF_ACK_NOW_def TF_ACK_DELAY_def bit_and_iff bit_or_iff)
  then show "(f AND NOT TF_ACK_DELAY OR TF_ACK_NOW) AND (TF_ACK_NOW OR TF_ACK_DELAY) \<noteq> 0"
    "(f OR TF_ACK_DELAY) AND (TF_ACK_NOW OR TF_ACK_DELAY) \<noteq> 0" by (metis bit_0_eq bot_apply bot_bool_def)+
qed

lemma tcp_ack_fields:
  "t_rcv_nxt (tpcb (tcp_ack i s) j) = t_rcv_nxt (tpcb s j)" "t_rcv_wnd (tpcb (tcp_ack i s) j) = t_rcv_wnd (tpcb s j)"
  "t_flags (tpcb (tcp_ack i s) i) AND (TF_ACK_NOW OR TF_ACK_DELAY) \<noteq> 0" "j \<noteq> i \<Longrightarrow> tpcb (tcp_ack i s) j = tpcb s j"
  "n_mem (tcp_ack i s) = n_mem s" "recv_data (n_dev (tcp_ack i s)) = recv_data (n_dev s)" "inseg_p (n_dev (tcp_ack i s)) = inseg_p (n_dev s)"
  "recv_flags (n_dev (tcp_ack i s)) = recv_flags (n_dev s)"
  using ack_due by (simp_all add: tcp_ack_def upd_tpcb_def upd_tcp_def)

text \<open>What one accepted segment changes.\<close>

definition taken :: "nat \<Rightarrow> ptr \<Rightarrow> int \<Rightarrow> u8_t list \<Rightarrow> bool \<Rightarrow> ('x, 'm) tcp_net \<Rightarrow> ('x, 'm) tcp_net \<Rightarrow> bool" where
  "taken i p n new fin s s' \<longleftrightarrow>
     t_rcv_nxt (tpcb s' i) = t_rcv_nxt (tpcb s i) + word_of_int n \<and> t_rcv_wnd (tpcb s' i) = t_rcv_wnd (tpcb s i) - n \<and>
     t_flags (tpcb s' i) AND (TF_ACK_NOW OR TF_ACK_DELAY) \<noteq> 0 \<and> (\<forall>j. j \<noteq> i \<longrightarrow> tpcb s' j = tpcb s j) \<and>
     recv_data (n_dev s') = (if new = [] then recv_data (n_dev s) else Some p) \<and>
     inseg_p (n_dev s') = (if new = [] then Some p else None) \<and>
     recv_flags (n_dev s') = (if fin then recv_flags (n_dev s) OR TF_GOT_FIN else recv_flags (n_dev s)) \<and>
     (\<exists>ys. packet (n_mem s') (Some p) ys \<and> data (n_mem s') ys = new)"

lemma tcp_take_segment_spec:
  assumes p: "inseg_p (n_dev s) = Some p" and sp: "seg_packet (n_mem s) (in_tcphdr (n_dev s)) p xs"
    and il: "inseg_len (n_dev s) = tot (n_mem s) xs" and syn: "inseg_flags s AND TCP_SYN = 0"
    and w: "0 \<le> t_rcv_wnd (tpcb s i)" "t_rcv_wnd (tpcb s i) \<le> 65535" and sq: "in_seqno (n_dev s) = t_rcv_nxt (tpcb s i)"
  defines "wnd \<equiv> t_rcv_wnd (tpcb s i)" and "n \<equiv> tot (n_mem s) xs + fin_bit (inseg_flags s)"
  shows "\<exists>s'. tcp_take_segment l i s = Some s' \<and>
    taken i p (min n wnd) (take (nat wnd) (data (n_mem s) xs)) (inseg_flags s AND TCP_FIN \<noteq> 0 \<and> n \<le> wnd) s s'"
proof -
  let ?m = "n_mem s" and ?h = "in_tcphdr (n_dev s)" and ?f = "inseg_flags s"
  obtain m ys where b: "tcp_trim_back l i s = Some (set_mem m (upd_tcp (\<lambda>v. v\<lparr>inseg_len := min (tot ?m xs) wnd, in_tcplen := min n wnd\<rparr>) s))"
    "packet m (Some p) ys" "data m ys = take (nat wnd) (data ?m xs)" "tot m ys = min (tot ?m xs) wnd"
    "TCPH_FLAGS ?h m AND TCP_FIN \<noteq> 0 \<longleftrightarrow> ?f AND TCP_FIN \<noteq> 0 \<and> n \<le> wnd"
    using tcp_trim_back_spec [OF p sp il syn w(1)] unfolding wnd_def n_def by blast
  let ?s1 = "set_mem m (upd_tcp (\<lambda>v. v\<lparr>inseg_len := min (tot ?m xs) wnd, in_tcplen := min n wnd\<rparr>) s)"
  let ?s2 = "upd_tpcb i (\<lambda>b. b\<lparr>t_rcv_nxt := t_rcv_nxt (tpcb s i) + word_of_int (min n wnd), t_rcv_wnd := c_u16 (t_rcv_wnd b - min n wnd)\<rparr>) ?s1"
  obtain e aw where u: "tcp_update_rcv_ann_wnd i ?s2 = (e, upd_tpcb i (\<lambda>b. b\<lparr>t_rcv_ann_wnd := aw\<rparr>) ?s2)"
    using tcp_update_rcv_ann_wnd_only by blast
  let ?s3 = "upd_tpcb i (\<lambda>b. b\<lparr>t_rcv_ann_wnd := aw\<rparr>) ?s2"
  have n0: "0 \<le> n" using sp tot_nonneg [of ?m xs] fin_bit_range [of ?f] by (simp add: n_def seg_packet_def packet_def)
  have wn: "c_u16 (wnd - min n wnd) = wnd - min n wnd" by (rule c_u16_id) (use w n0 in \<open>auto simp: wnd_def\<close>)
  have lo: "lens_ok m ys" using b(2) by (simp add: packet_def)
  have tl: "pb_tot_len (p_pbufs m p) = tot m ys" using b(2) by (cases ys) (auto simp: packet_def)
  have em: "take (nat wnd) (data ?m xs) = [] \<longleftrightarrow> \<not> 0 < tot m ys"
    using length_data [OF lo] tot_nonneg [OF lo] unfolding b(3) [symmetric] length_0_conv [symmetric] by linarith
  define s3 where "s3 = ?s3"
  have k: "in_tcplen (n_dev ?s1) = min n wnd" "in_seqno (n_dev ?s1) = t_rcv_nxt (tpcb s i)"
    using p sq by (simp_all add: upd_tcp_def upd_tpcb_def set_mem_def)
  have k3: "inseg_p (n_dev s3) = Some p" "n_mem s3 = m" "recv_data (n_dev s3) = recv_data (n_dev s)" "recv_flags (n_dev s3) = recv_flags (n_dev s)"
    "in_tcphdr (n_dev s3) = ?h" "t_rcv_nxt (tpcb s3 i) = t_rcv_nxt (tpcb s i) + word_of_int (min n wnd)"
    "t_rcv_wnd (tpcb s3 i) = wnd - min n wnd" "\<forall>j. j \<noteq> i \<longrightarrow> tpcb s3 j = tpcb s j"
    using p wn by (simp_all add: s3_def upd_tcp_def upd_tpcb_def set_mem_def wnd_def [symmetric])
  let ?s4 = "if 0 < tot m ys then upd_tcp (\<lambda>v. v\<lparr>recv_data := Some p, inseg_p := None\<rparr>) s3 else s3"
  define s4 where "s4 = ?s4"
  have k4: "in_tcphdr (n_dev s4) = ?h" "n_mem s4 = m" "tpcb s4 = tpcb s3" "recv_flags (n_dev s4) = recv_flags (n_dev s)"
    "recv_data (n_dev s4) = (if 0 < tot m ys then Some p else recv_data (n_dev s))" "inseg_p (n_dev s4) = (if 0 < tot m ys then None else Some p)"
    using k3 by (simp_all add: s4_def upd_tcp_def)
  let ?s5 = "if TCPH_FLAGS ?h m AND TCP_FIN \<noteq> 0 then add_recv_flag TF_GOT_FIN s4 else s4"
  define s5 where "s5 = ?s5"
  have k5: "n_mem s5 = m" "tpcb s5 = tpcb s3" "recv_data (n_dev s5) = recv_data (n_dev s4)" "inseg_p (n_dev s5) = inseg_p (n_dev s4)"
    "recv_flags (n_dev s5) = (if TCPH_FLAGS ?h m AND TCP_FIN \<noteq> 0 then recv_flags (n_dev s) OR TF_GOT_FIN else recv_flags (n_dev s))"
    using k4 by (simp_all add: s5_def upd_tcp_def add_recv_flag_def)
  have st: "tcp_take_segment l i s = Some (tcp_ack i s5)"
    unfolding tcp_take_segment_def b(1) bind.bind_lunit Let_def k u prod.case
    by (simp only: s3_def [symmetric] k3 bind.bind_lunit tl s4_def [symmetric] k4 s5_def [symmetric])
  have o: "tpcb (tcp_ack i s5) j = tpcb s j" if "j \<noteq> i" for j unfolding tcp_ack_fields(4) [OF that] k5(2) using k3(8) that by blast
  have x: "\<exists>zs. packet m (Some p) zs \<and> data m zs = take (nat wnd) (data ?m xs)" using b(2,3) by blast
  show ?thesis
    by (rule exI, rule conjI [OF st], unfold taken_def em b(5) [symmetric]) (simp add: tcp_ack_fields k5 k4 k3 x o wnd_def [symmetric])
qed

section \<open>The segment in the window\<close>

lemma seq_between_inside:
  assumes "k < n" "0 \<le> k" "n \<le> 2147483648"
  shows "TCP_SEQ_BETWEEN (q + word_of_int k) (q + 1) (q + word_of_int n - 1) \<longleftrightarrow> 0 < k"
proof -
  have e: "q + word_of_int k - (q + 1) = word_of_int (k - 1)" "q + word_of_int k - (q + word_of_int n - 1) = word_of_int (k - n + 1)" by simp_all
  have v: "sint (word_of_int (k - 1) :: u32_t) = k - 1" "sint (word_of_int (k - n + 1) :: u32_t) = k - n + 1"
    using assms by (intro sint_of_int_u32; simp)+
  show ?thesis unfolding TCP_SEQ_BETWEEN_def TCP_SEQ_GEQ_def TCP_SEQ_LEQ_def e v using assms by linarith
qed

lemma tcp_receive_data_spec:
  assumes p: "inseg_p (n_dev s) = Some p" and sp: "seg_packet (n_mem s) (in_tcphdr (n_dev s)) p xs"
    and il: "inseg_len (n_dev s) = tot (n_mem s) xs" and syn: "inseg_flags s AND TCP_SYN = 0"
    and tl: "in_tcplen (n_dev s) = tot (n_mem s) xs + fin_bit (inseg_flags s)"
    and w: "0 < t_rcv_wnd (tpcb s i)" "t_rcv_wnd (tpcb s i) \<le> 65535"
    and k: "t_rcv_nxt (tpcb s i) = in_seqno (n_dev s) + word_of_int k" "0 \<le> k" "k < in_tcplen (n_dev s)"
  defines "wnd \<equiv> t_rcv_wnd (tpcb s i)" and "n \<equiv> in_tcplen (n_dev s) - k"
  shows "\<exists>s'. tcp_receive_data l i s = Some s' \<and>
    taken i p (min n wnd) (take (nat wnd) (drop (nat k) (data (n_mem s) xs))) (inseg_flags s AND TCP_FIN \<noteq> 0 \<and> n \<le> wnd) s s'"
proof -
  let ?m = "n_mem s" and ?h = "in_tcphdr (n_dev s)" and ?f = "inseg_flags s"
  have t: "0 \<le> tot ?m xs" "tot ?m xs \<le> 32767" using sp tot_nonneg [of ?m xs] by (auto simp: seg_packet_def packet_def)
  have kt: "k \<le> tot ?m xs" using k(3) tl fin_bit_range [of ?f] by linarith
  have bt: "TCP_SEQ_BETWEEN (t_rcv_nxt (tpcb s i)) (in_seqno (n_dev s) + 1) (in_seqno (n_dev s) + word_of_int (in_tcplen (n_dev s)) - 1) \<longleftrightarrow> 0 < k"
    unfolding k(1) by (rule seq_between_inside) (use k tl t fin_bit_range [of ?f] in linarith)+
  have le: "\<not> TCP_SEQ_LT (in_seqno (n_dev s)) (t_rcv_nxt (tpcb s i))" if "\<not> 0 < k"
    using that k(1,2) by (simp add: TCP_SEQ_LT_def)
  obtain s1 where s1: "(if 0 < k then tcp_trim_front i s else Some s) = Some s1" "inseg_p (n_dev s1) = Some p" "in_tcphdr (n_dev s1) = ?h"
    "seg_packet (n_mem s1) ?h p xs" "inseg_len (n_dev s1) = tot (n_mem s1) xs" "inseg_flags s1 = ?f" "tpcb s1 = tpcb s"
    "in_seqno (n_dev s1) = t_rcv_nxt (tpcb s i)" "data (n_mem s1) xs = drop (nat k) (data ?m xs)" "tot (n_mem s1) xs = tot ?m xs - k"
    "recv_data (n_dev s1) = recv_data (n_dev s)" "recv_flags (n_dev s1) = recv_flags (n_dev s)"
  proof (cases "0 < k")
    case False
    then show thesis using k(1,2) p sp il that [of s] by simp
  next
    case True
    obtain m where "tcp_trim_front i s =
        Some (set_mem m (upd_tcp (\<lambda>v. v\<lparr>inseg_len := tot ?m xs - k, in_seqno := t_rcv_nxt (tpcb s i)\<rparr>) s))"
      "seg_packet m ?h p xs" "data m xs = drop (nat k) (data ?m xs)" "tot m xs = tot ?m xs - k" "TCPH_FLAGS ?h m = ?f"
      using tcp_trim_front_spec [OF p sp k(1) True kt il] by blast
    then show thesis using True p that by (simp add: upd_tcp_def set_mem_def)
  qed
  have wb: "TCP_SEQ_BETWEEN (in_seqno (n_dev s1)) (t_rcv_nxt (tpcb s1 i)) (t_rcv_nxt (tpcb s1 i) + word_of_int (t_rcv_wnd (tpcb s1 i)) - 1)"
    unfolding s1(7,8) by (subst seq_between_window) (use w in simp_all)
  have ad: "(if TCP_SEQ_BETWEEN (t_rcv_nxt (tpcb s i)) (in_seqno (n_dev s) + 1) (in_seqno (n_dev s) + word_of_int (in_tcplen (n_dev s)) - 1) then tcp_trim_front i s
      else if TCP_SEQ_LT (in_seqno (n_dev s)) (t_rcv_nxt (tpcb s i)) then Some (tcp_ack_now i s) else Some s) = Some s1"
    unfolding bt using s1(1) le by (cases "0 < k") (simp_all del: One_nat_def)
  have eq: "t_rcv_nxt (tpcb s1 i) = in_seqno (n_dev s1)" unfolding s1(7,8) by (rule refl)
  have "tcp_receive_data l i s = tcp_take_segment l i s1"
    unfolding tcp_receive_data_def Let_def ad bind.bind_lunit if_P [OF conjI [OF wb eq]] by (rule refl)
  moreover obtain s' where "tcp_take_segment l i s1 = Some s'"
    "taken i p (min (tot (n_mem s1) xs + fin_bit (inseg_flags s1)) (t_rcv_wnd (tpcb s1 i))) (take (nat (t_rcv_wnd (tpcb s1 i))) (data (n_mem s1) xs))
      (inseg_flags s1 AND TCP_FIN \<noteq> 0 \<and> tot (n_mem s1) xs + fin_bit (inseg_flags s1) \<le> t_rcv_wnd (tpcb s1 i)) s1 s'"
    using tcp_take_segment_spec [of s1 p xs i l] s1 w syn by auto
  ultimately show ?thesis unfolding s1(6,7,9,10) taken_def wnd_def n_def tl using s1(7,11,12) by (simp add: algebra_simps)
qed

text \<open>C7: The data of a segment without SYN that overlaps the next byte expected, \<open>k\<close> of whose bytes were
  received before, is taken exactly once and in order: \<open>tcp_receive_data\<close> returns, and the packet handed to the
  application holds the segment's data without the first \<open>k\<close> bytes and without what is beyond the window;
  \<open>rcv_nxt\<close> advances and \<open>rcv_wnd\<close> shrinks by the length taken, where a FIN counts for one; the FIN is
  reported exactly when it lies in the window; an acknowledgement is due; no other connection changes. A
  segment with nothing new for the application leaves its pbuf to \<open>tcp_input\<close>, which frees it.\<close>
theorem tcp_receive_data_takes:
  assumes "inseg_p (n_dev s) = Some p" and "seg_packet (n_mem s) (in_tcphdr (n_dev s)) p xs"
    and "inseg_len (n_dev s) = tot (n_mem s) xs" and "inseg_flags s AND TCP_SYN = 0"
    and "in_tcplen (n_dev s) = tot (n_mem s) xs + fin_bit (inseg_flags s)"
    and "0 < t_rcv_wnd (tpcb s i)" and "t_rcv_wnd (tpcb s i) \<le> 65535"
    and "t_rcv_nxt (tpcb s i) = in_seqno (n_dev s) + word_of_int k" and "0 \<le> k" and "k < in_tcplen (n_dev s)"
  shows "\<exists>s'. tcp_receive_data l i s = Some s' \<and>
    taken i p (min (in_tcplen (n_dev s) - k) (t_rcv_wnd (tpcb s i)))
      (take (nat (t_rcv_wnd (tpcb s i))) (drop (nat k) (data (n_mem s) xs)))
      (inseg_flags s AND TCP_FIN \<noteq> 0 \<and> in_tcplen (n_dev s) - k \<le> t_rcv_wnd (tpcb s i)) s s'"
  by (rule tcp_receive_data_spec [OF assms])

text \<open>Five bytes and a FIN from sequence number 498 on, where 500 is expected: in a window of 2920 and in one of 2.\<close>

definition demo_segment :: "int \<Rightarrow> eth_dev tcp_vars net" where
  "demo_segment w = upd_tcp (\<lambda>v. v\<lparr>tcp_tab := (\<lambda>i. demo_pcb\<lparr>t_rcv_wnd := w\<rparr>), inseg_p := Some (RPool 4, 0), inseg_len := 5,
     in_tcphdr := (RPool 4, 60), in_seqno := 498, in_tcplen := 6\<rparr>) (demo_tcp (demo_mem [1, 2, 3, 4, 5] 80))"

lemma demo_segment_sel [simp]:
  "n_mem (demo_segment w) = demo_mem [1, 2, 3, 4, 5] 80" "inseg_p (n_dev (demo_segment w)) = Some (RPool 4, 0)"
  "inseg_len (n_dev (demo_segment w)) = 5" "in_tcphdr (n_dev (demo_segment w)) = (RPool 4, 60)" "in_seqno (n_dev (demo_segment w)) = 498"
  "in_tcplen (n_dev (demo_segment w)) = 6" "t_rcv_wnd (tpcb (demo_segment w) i) = w" "t_rcv_nxt (tpcb (demo_segment w) i) = 500"
  by (simp_all add: demo_segment_def upd_tcp_def demo_pcb_def)

lemma demo_segment_packet: "seg_packet (demo_mem [1, 2, 3, 4, 5] 80) (RPool 4, 60) (RPool 4, 0) [(RPool 4, 0)]"
proof -
  have "set (span (RPool 4, 60) 20) \<inter> set (span (RPool 4, 80) 5) = {}" by (auto simp: span_mem)
  moreover have "heap_ok (p_heap (demo_mem [1, 2, 3, 4, 5] 80))" using demo_heap_ok by (simp add: demo_mem_def)
  ultimately show ?thesis using demo_mem_packet [of "[1, 2, 3, 4, 5]" 80 "(RPool 4, 0)"]
    by (simp add: seg_packet_def refs_ok_def stored_def ram_ok_def placed_def pbuf_consts)
      (simp add: demo_mem_def demo_pb_def pb_addrs_def pbuf_consts)
qed

lemma demo_segment_flags: "TCPH_FLAGS (RPool 4, 60) (demo_mem [1, 2, 3, 4, 5] 80) = TCP_FIN"
proof -
  have g: "get16 (RPool 4, 60) TCPH_HDRLEN_RSVD_FLAGS (demo_mem [1, 2, 3, 4, 5] 80) = 0x0101"
    by (simp add: get16_def load16_def ptr_add_def TCPH_HDRLEN_RSVD_FLAGS_def demo_mem_def u16_le_def)
  show ?thesis unfolding TCPH_FLAGS_def g by (simp add: lwip_ntohs_def lwip_htons_def TCP_FLAGS_def TCP_FIN_def)
qed

theorem tcp_receive_data_takes_witness:
  "(\<exists>s'. tcp_receive_data demo_tcp_link 0 (demo_segment 2920) = Some s' \<and>
      taken 0 (RPool 4, 0) 4 [3, 4, 5] True (demo_segment 2920) s') \<and>
   (\<exists>s'. tcp_receive_data demo_tcp_link 0 (demo_segment 2) = Some s' \<and>
      taken 0 (RPool 4, 0) 2 [3, 4] False (demo_segment 2) s')"
proof -
  have f: "TCP_FIN AND TCP_SYN = 0" "fin_bit TCP_FIN = 1" "TCP_FIN AND TCP_FIN \<noteq> 0" by (simp_all add: TCP_FIN_def TCP_SYN_def fin_bit_def)
  have "\<exists>s'. tcp_receive_data demo_tcp_link 0 (demo_segment w) = Some s' \<and>
      taken 0 (RPool 4, 0) (min 4 w) (take (nat w) [3, 4, 5]) (4 \<le> w) (demo_segment w) s'" if "0 < w" "w \<le> 65535" for w
    using tcp_receive_data_takes [of "demo_segment w" "(RPool 4, 0)" "[(RPool 4, 0)]" 0 2 demo_tcp_link] demo_segment_packet that f
    by (simp add: demo_mem_packet demo_mem_data demo_segment_flags del: tot.simps data_simps)
  from this [of 2920] this [of 2] show ?thesis by simp
qed

end
