(* ===== verification/TcpLists.thy ===== *)
theory TcpLists
  imports TcpSeq
begin

text \<open>
  The lists of TCP control blocks: bound, active, in \<open>TIME_WAIT\<close> and listening.  Inserting, unlinking
  and the walks over them; the search for a local port; binding.
\<close>

declare split_paired_All [simp del] split_paired_Ex [simp del]

section \<open>Access\<close>

abbreviation t_nxt :: "('x, 'm) tcp_net \<Rightarrow> nat \<Rightarrow> nat option" where
  "t_nxt s \<equiv> (\<lambda>i. t_next (tpcb s i))"

abbreviation l_nxt :: "('x, 'm) tcp_net \<Rightarrow> nat \<Rightarrow> nat option" where
  "l_nxt s \<equiv> (\<lambda>i. l_next (lpcb s i))"

abbreviation t_head :: "tcp_list \<Rightarrow> ('x, 'm) tcp_net \<Rightarrow> nat option" where
  "t_head L s \<equiv> tcp_head L (n_dev s)"

definition t_set_nxt :: "nat \<Rightarrow> nat option \<Rightarrow> ('x, 'm) tcp_net \<Rightarrow> ('x, 'm) tcp_net" where
  "t_set_nxt i v = upd_tpcb i (\<lambda>b. b\<lparr>t_next := v\<rparr>)"

definition t_set_head :: "tcp_list \<Rightarrow> nat option \<Rightarrow> ('x, 'm) tcp_net \<Rightarrow> ('x, 'm) tcp_net" where
  "t_set_head L v = upd_tcp (set_tcp_head L v)"

definition l_set_nxt :: "nat \<Rightarrow> nat option \<Rightarrow> ('x, 'm) tcp_net \<Rightarrow> ('x, 'm) tcp_net" where
  "l_set_nxt i v = upd_lpcb i (\<lambda>b. b\<lparr>l_next := v\<rparr>)"

definition l_set_head :: "nat option \<Rightarrow> ('x, 'm) tcp_net \<Rightarrow> ('x, 'm) tcp_net" where
  "l_set_head v = upd_tcp (\<lambda>w. w\<lparr>tcp_listen_pcbs := v\<rparr>)"

lemma set_tcp_head_simps [simp]:
  "tcp_tab (set_tcp_head L v d) = tcp_tab d" "lpcb_tab (set_tcp_head L v d) = lpcb_tab d" "seg_tab (set_tcp_head L v d) = seg_tab d"
  "tcp_head M (set_tcp_head L v d) = (if M = L then v else tcp_head M d)" "tcp_listen_pcbs (set_tcp_head L v d) = tcp_listen_pcbs d"
  "tcp_port (set_tcp_head L v d) = tcp_port d" "tcp_timer_ctr (set_tcp_head L v d) = tcp_timer_ctr d"
  "tcp_ticks (set_tcp_head L v d) = tcp_ticks d" "tcp_active_pcbs_changed (set_tcp_head L v d) = tcp_active_pcbs_changed d"
  by (cases L; cases M; simp)+

lemma upd_tcp_simps [simp]:
  "n_dev (upd_tcp f s) = f (n_dev s)" "n_mem (upd_tcp f s) = n_mem s" "n_arp (upd_tcp f s) = n_arp s" "n_cached (upd_tcp f s) = n_cached s"
  by (simp_all add: upd_tcp_def)

lemma tcp_head_upd_tpcb [simp]: "tcp_head L (n_dev (upd_tpcb i f s)) = tcp_head L (n_dev s)"
  by (cases L) simp_all

lemma upd_lpcb_simps [simp]:
  "lpcb (upd_lpcb i f s) = (lpcb s)(i := f (lpcb s i))" "tpcb (upd_lpcb i f s) = tpcb s" "tcp_head L (n_dev (upd_lpcb i f s)) = tcp_head L (n_dev s)"
  "tcp_listen_pcbs (n_dev (upd_lpcb i f s)) = tcp_listen_pcbs (n_dev s)" "n_mem (upd_lpcb i f s) = n_mem s"
  by (cases L; simp add: upd_lpcb_def upd_tcp_def)+

lemma upd_tpcb_port [simp]: "tcp_port (n_dev (upd_tpcb i f s)) = tcp_port (n_dev s)"
  "tcp_active_pcbs_changed (n_dev (upd_tpcb i f s)) = tcp_active_pcbs_changed (n_dev s)"
  by (simp_all add: upd_tpcb_def)

lemmas tcp_set_defs = t_set_nxt_def t_set_head_def l_set_nxt_def l_set_head_def

interpretation tcps: unlink_first t_nxt t_set_nxt "t_head L" "t_set_head L" tcp_rmv_loop for L
proof
  show "tcp_rmv_loop i q s = (case q of None \<Rightarrow> Some s
    | Some j \<Rightarrow> if t_nxt s j = Some i then Some (t_set_nxt j (t_nxt s i) s) else tcp_rmv_loop i (t_nxt s j) s)"
    for i q and s :: "('x, 'm) tcp_net"
    by (subst tcp_rmv_loop.simps) (simp add: t_set_nxt_def split: option.split)
qed (auto simp: tcp_set_defs)

interpretation listens: unlink_first l_nxt l_set_nxt "\<lambda>s. tcp_listen_pcbs (n_dev s)" l_set_head lpcb_rmv_loop
proof
  show "lpcb_rmv_loop i q s = (case q of None \<Rightarrow> Some s
    | Some j \<Rightarrow> if l_nxt s j = Some i then Some (l_set_nxt j (l_nxt s i) s) else lpcb_rmv_loop i (l_nxt s j) s)"
    for i q and s :: "('x, 'm) tcp_net"
    by (subst lpcb_rmv_loop.simps) (simp add: l_set_nxt_def split: option.split)
qed (auto simp: tcp_set_defs)

section \<open>The lists\<close>

definition tcp_list :: "tcp_list \<Rightarrow> ('x, 'm) tcp_net \<Rightarrow> nat list \<Rightarrow> bool" where
  "tcp_list L s xs \<longleftrightarrow> linked (t_nxt s) (t_head L s) xs"

definition listen_list :: "('x, 'm) tcp_net \<Rightarrow> nat list \<Rightarrow> bool" where
  "listen_list s xs \<longleftrightarrow> linked (l_nxt s) (tcp_listen_pcbs (n_dev s)) xs"

text \<open>The four lists; no control block is on two of them.\<close>

definition tcp_lists :: "('x, 'm) tcp_net \<Rightarrow> nat list \<Rightarrow> (tcp_list \<Rightarrow> nat list) \<Rightarrow> bool" where
  "tcp_lists s ls xs \<longleftrightarrow> listen_list s ls \<and> (\<forall>L. tcp_list L s (xs L)) \<and> (\<forall>L M. L \<noteq> M \<longrightarrow> set (xs L) \<inter> set (xs M) = {})"

lemma tcp_list_cong:
  assumes "t_head L s = t_head L s'" "\<And>i. i \<in> set xs \<Longrightarrow> t_nxt s i = t_nxt s' i"
  shows "tcp_list L s xs = tcp_list L s' xs"
  unfolding tcp_list_def assms(1) by (rule linked_cong) (rule assms(2))

lemma tcp_reg_list:
  assumes "tcp_lists s ls xs" "\<And>L. i \<notin> set (xs L)"
  shows "TCP_REG a L i s = timer_needed a (t_set_head L (Some i) (t_set_nxt i (t_head L s) s))"
    "tcp_lists (t_set_head L (Some i) (t_set_nxt i (t_head L s) s)) ls (xs(L := i # xs L))"
proof -
  let ?s = "t_set_head L (Some i) (t_set_nxt i (t_head L s) s)"
  have l: "listen_list s ls" "\<And>L. tcp_list L s (xs L)" "\<And>L M. L \<noteq> M \<Longrightarrow> set (xs L) \<inter> set (xs M) = {}"
    using assms(1) by (simp_all add: tcp_lists_def)
  show "TCP_REG a L i s = timer_needed a ?s" by (simp add: TCP_REG_def tcp_set_defs)
  have "tcp_list L ?s (i # xs L)"
    using tcps.insert_front [of s L, OF l(2) [unfolded tcp_list_def] assms(2)] unfolding tcp_list_def .
  moreover have "tcp_list M ?s (xs M)" if "M \<noteq> L" for M
    using l(2) [of M] that assms(2) [of M] by (subst tcp_list_cong [of M _ s]) (auto simp: tcp_set_defs)
  moreover have "listen_list ?s ls" using l(1) by (simp add: listen_list_def tcp_set_defs)
  ultimately show "tcp_lists ?s ls (xs(L := i # xs L))"
    using l(3) assms(2) unfolding tcp_lists_def by (auto simp: fun_upd_apply)
qed

section \<open>Walks\<close>

lemma tcp_any_spec: "linked (t_nxt s) p xs \<Longrightarrow> tcp_any P p s = Some (\<exists>i\<in>set xs. P (tpcb s i))"
proof (induction xs arbitrary: p)
  case Nil
  then show ?case by (simp add: tcp_any.simps [of _ None])
next
  case (Cons x xs)
  then have "p = Some x" "linked (t_nxt s) (t_nxt s x) xs" by simp_all
  then show ?case using Cons.IH by (subst tcp_any.simps) simp
qed

lemma lpcb_any_spec: "linked (l_nxt s) p xs \<Longrightarrow> lpcb_any P p s = Some (\<exists>i\<in>set xs. P (lpcb s i))"
proof (induction xs arbitrary: p)
  case Nil
  then show ?case by (simp add: lpcb_any.simps [of _ None])
next
  case (Cons x xs)
  then have "p = Some x" "linked (l_nxt s) (l_nxt s x) xs" by simp_all
  then show ?case using Cons.IH by (subst lpcb_any.simps) simp
qed

text \<open>Some control block of the lists has a property.\<close>

definition tcp_some :: "('x, 'm) tcp_net \<Rightarrow> nat list \<Rightarrow> (tcp_list \<Rightarrow> nat list) \<Rightarrow> (tcp_pcb_listen \<Rightarrow> bool) \<Rightarrow> (tcp_pcb \<Rightarrow> bool) \<Rightarrow> bool" where
  "tcp_some s ls xs Q P \<longleftrightarrow> (\<exists>j\<in>set ls. Q (lpcb s j)) \<or> (\<exists>L. \<exists>j\<in>set (xs L). P (tpcb s j))"

lemma ex_tcp_list: "(\<exists>L. R L) \<longleftrightarrow> R Bound \<or> R Active \<or> R Time_wait"
  by (metis tcp_list.exhaust)

lemma tcp_lists_any_spec: "tcp_lists s ls xs \<Longrightarrow> tcp_lists_any Q P s = Some (tcp_some s ls xs Q P)"
proof -
  assume "tcp_lists s ls xs"
  then have "linked (l_nxt s) (tcp_listen_pcbs (n_dev s)) ls" "\<And>L. linked (t_nxt s) (t_head L s) (xs L)"
    by (simp_all add: tcp_lists_def listen_list_def tcp_list_def)
  from lpcb_any_spec [OF this(1)] tcp_any_spec [OF this(2) [of Bound]] tcp_any_spec [OF this(2) [of Active]]
    tcp_any_spec [OF this(2) [of Time_wait]]
  show ?thesis unfolding tcp_lists_any_def tcp_some_def ex_tcp_list by simp
qed

section \<open>Local ports\<close>

definition tcp_with_port :: "u16_t \<Rightarrow> ('x, 'm) tcp_net \<Rightarrow> ('x, 'm) tcp_net" where
  "tcp_with_port p = upd_tcp (\<lambda>v. v\<lparr>tcp_port := p\<rparr>)"

lemma tcp_with_port_simps [simp]:
  "tpcb (tcp_with_port p s) = tpcb s" "lpcb (tcp_with_port p s) = lpcb s" "t_head L (tcp_with_port p s) = t_head L s"
  "tcp_listen_pcbs (n_dev (tcp_with_port p s)) = tcp_listen_pcbs (n_dev s)" "tcp_port (n_dev (tcp_with_port p s)) = p"
  "tcp_with_port p (tcp_with_port q s) = tcp_with_port p s" "n_mem (tcp_with_port p s) = n_mem s"
  "tcp_lists (tcp_with_port p s) = tcp_lists s" "tcp_some (tcp_with_port p s) = tcp_some s"
proof -
  show h: "t_head M (tcp_with_port p s) = t_head M s" for M by (cases M) (simp_all add: tcp_with_port_def)
  show c: "tpcb (tcp_with_port p s) = tpcb s" "lpcb (tcp_with_port p s) = lpcb s"
    "tcp_listen_pcbs (n_dev (tcp_with_port p s)) = tcp_listen_pcbs (n_dev s)" "tcp_port (n_dev (tcp_with_port p s)) = p"
    "tcp_with_port p (tcp_with_port q s) = tcp_with_port p s" "n_mem (tcp_with_port p s) = n_mem s"
    by (simp_all add: tcp_with_port_def upd_tcp_def)
  show "tcp_lists (tcp_with_port p s) = tcp_lists s" by (simp add: fun_eq_iff tcp_lists_def listen_list_def tcp_list_def c h)
  show "tcp_some (tcp_with_port p s) = tcp_some s" by (simp add: fun_eq_iff tcp_some_def c)
qed

definition tcp_port_used :: "('x, 'm) tcp_net \<Rightarrow> nat list \<Rightarrow> (tcp_list \<Rightarrow> nat list) \<Rightarrow> u16_t \<Rightarrow> bool" where
  "tcp_port_used s ls xs p \<longleftrightarrow> tcp_some s ls xs (\<lambda>b. l_local_port b = p) (\<lambda>b. t_local_port b = p)"

interpretation tcp_ports: port_search "\<lambda>s :: ('x, 'm) tcp_net. tcp_port (n_dev s)" tcp_with_port "\<lambda>s. tcp_port_used s ls xs"
  "\<lambda>s. tcp_lists s ls xs" tcp_new_port_loop for ls xs
proof
  fix s :: "('x, 'm) tcp_net" and n :: int
  assume s: "tcp_lists s ls xs" and n: "0 \<le> n" "n < 16384"
  let ?p = "if tcp_port (n_dev s) = 0xffff then 0xc000 else tcp_port (n_dev s) + 1"
  have e: "upd_tcp (\<lambda>v. v\<lparr>tcp_port := tcp_next_port (tcp_port v)\<rparr>) s = tcp_with_port ?p s"
    by (simp add: upd_tcp_def tcp_with_port_def tcp_next_port_def TCP_LOCAL_PORT_RANGE_START_def TCP_LOCAL_PORT_RANGE_END_def)
  have u: "tcp_lists_any (\<lambda>b. l_local_port b = ?p) (\<lambda>b. t_local_port b = ?p) (tcp_with_port ?p s) = Some (tcp_port_used s ls xs ?p)"
    using tcp_lists_any_spec [of "tcp_with_port ?p s" ls xs] s by (simp add: tcp_port_used_def)
  have c: "c_u16 (n + 1) = n + 1" using n by (simp add: c_u16_id)
  show "tcp_new_port_loop n s =
      (let p = ?p in if tcp_port_used s ls xs p then if n = 16383 then Some (0, tcp_with_port p s) else tcp_new_port_loop (n + 1) (tcp_with_port p s)
       else Some (p, tcp_with_port p s))"
    unfolding tcp_new_port_loop.simps [of n s] Let_def e tcp_with_port_simps using n u c
    by (simp add: TCP_LOCAL_PORT_RANGE_START_def TCP_LOCAL_PORT_RANGE_END_def)
qed (simp_all add: tcp_port_used_def fun_eq_iff)

lemma tcp_new_port_spec:
  assumes "tcp_lists s ls xs" "port_in_range (tcp_port (n_dev s))"
  shows "\<exists>p r. tcp_new_port s = Some (r, tcp_with_port p s) \<and> port_in_range p \<and>
    (if \<forall>q. port_in_range q \<longrightarrow> tcp_port_used s ls xs q then r = 0 else r = p \<and> \<not> tcp_port_used s ls xs r)"
  unfolding tcp_new_port_def by (rule tcp_ports.search [OF assms])

section \<open>Binding\<close>

definition tcp_conflict :: "('x, 'm) tcp_net \<Rightarrow> nat list \<Rightarrow> (tcp_list \<Rightarrow> nat list) \<Rightarrow> u16_t \<Rightarrow> u32_t \<Rightarrow> bool" where
  "tcp_conflict s ls xs port ip \<longleftrightarrow>
     tcp_some s ls xs (\<lambda>b. l_local_port b = port \<and> (l_local_ip b = IPADDR_ANY \<or> ip = IPADDR_ANY \<or> l_local_ip b = ip))
       (\<lambda>b. t_local_port b = port \<and> (t_local_ip b = IPADDR_ANY \<or> ip = IPADDR_ANY \<or> t_local_ip b = ip))"

text \<open>The control block bound to an address and a port.\<close>

definition tcp_bound :: "nat \<Rightarrow> u32_t \<Rightarrow> u16_t \<Rightarrow> ('x, 'm) tcp_net \<Rightarrow> ('x, 'm) tcp_net" where
  "tcp_bound i ip port s =
     (let s = upd_tpcb i (\<lambda>b. b\<lparr>t_local_ip := (if ip = IPADDR_ANY then t_local_ip b else ip), t_local_port := port\<rparr>) s
      in t_set_head Bound (Some i) (t_set_nxt i (t_head Bound s) s))"

lemma tcp_lists_upd_other:
  assumes "tcp_lists s ls xs" "\<And>L. i \<notin> set (xs L)"
  shows "tcp_lists (upd_tpcb i f s) ls xs"
proof -
  have "tcp_list L (upd_tpcb i f s) (xs L)" for L
    using assms by (subst tcp_list_cong [of L _ s]) (auto simp: tcp_lists_def)
  then show ?thesis using assms(1) by (simp add: tcp_lists_def listen_list_def)
qed

lemma tcp_bind_spec:
  assumes "tcp_lists s ls xs" "\<And>L. i \<notin> set (xs L)" "t_state (tpcb s i) = CLOSED" "port \<noteq> 0"
  shows "tcp_bind a i ip port s =
      Some (if tcp_conflict s ls xs port ip then (ERR_USE, s) else (ERR_OK, timer_needed a (tcp_bound i ip port s)))"
    "tcp_lists (tcp_bound i ip port s) ls (xs(Bound := i # xs Bound))"
proof -
  let ?s = "upd_tpcb i (\<lambda>b. b\<lparr>t_local_ip := (if ip = IPADDR_ANY then t_local_ip b else ip), t_local_port := port\<rparr>) s"
  note l = tcp_lists_upd_other [OF assms(1,2)]
  note r = tcp_reg_list [of ?s ls xs i, OF l assms(2)]
  have e: "upd_tpcb i (\<lambda>b. b\<lparr>t_local_port := port\<rparr>) (if ip \<noteq> IPADDR_ANY then upd_tpcb i (\<lambda>b. b\<lparr>t_local_ip := ip\<rparr>) s else s) = ?s"
    by (simp add: upd_tpcb_def upd_tcp_def)
  have any: "tcp_lists_any (\<lambda>b. l_local_port b = port \<and> (l_local_ip b = IPADDR_ANY \<or> ip = IPADDR_ANY \<or> l_local_ip b = ip))
      (\<lambda>b. t_local_port b = port \<and> (t_local_ip b = IPADDR_ANY \<or> ip = IPADDR_ANY \<or> t_local_ip b = ip)) s = Some (tcp_conflict s ls xs port ip)"
    using tcp_lists_any_spec [OF assms(1)] by (simp only: tcp_conflict_def)
  have reg: "TCP_REG a Bound i ?s = timer_needed a (tcp_bound i ip port s)" unfolding r(1) tcp_bound_def Let_def by (rule refl)
  have n: "(t_state (tpcb s i) \<noteq> CLOSED) = False" "(port = 0) = False" using assms(3,4) by simp_all
  show "tcp_bind a i ip port s =
      Some (if tcp_conflict s ls xs port ip then (ERR_USE, s) else (ERR_OK, timer_needed a (tcp_bound i ip port s)))"
    unfolding tcp_bind_def n if_False Option.bind.simps prod.case any Let_def e reg by simp
  show "tcp_lists (tcp_bound i ip port s) ls (xs(Bound := i # xs Bound))" using r(2) unfolding tcp_bound_def Let_def .
qed

lemma tcp_bind_any:
  assumes "tcp_new_port s = Some (p, tcp_with_port q s)" "t_state (tpcb s i) = CLOSED"
  shows "tcp_bind a i ip 0 s = (if p = 0 then Some (ERR_BUF, tcp_with_port q s) else tcp_bind a i ip p (tcp_with_port q s))"
  using assms by (simp add: tcp_bind_def)

section \<open>Properties\<close>

text \<open>C31: \<open>tcp_bind\<close> of a control block that is not in use always returns.  For a given port it refuses with \<open>ERR_USE\<close>
  and without any change exactly when a control block of one of the four lists has this port and an
  address that meets the one asked for; otherwise it stores both and puts the control block at the
  head of the bound list, the other lists being unchanged.  For port 0 it takes a port of the
  dynamic range that no control block uses whenever there is one, and refuses with \<open>ERR_BUF\<close> otherwise.\<close>
theorem tcp_bind_binds:
  assumes "tcp_lists s ls xs" and "\<And>L. i \<notin> set (xs L)" and "t_state (tpcb s i) = CLOSED" and "port_in_range (tcp_port (n_dev s))"
  shows "\<exists>p q. let s1 = (if port = 0 then tcp_with_port q s else s) in
    (if port \<noteq> 0 then p = port
     else port_in_range q \<and> (if \<forall>r. port_in_range r \<longrightarrow> tcp_port_used s ls xs r then p = 0 else p = q \<and> \<not> tcp_port_used s ls xs p)) \<and>
    tcp_bind a i ip port s =
      Some (if p = 0 then (ERR_BUF, s1) else if tcp_conflict s ls xs p ip then (ERR_USE, s1)
            else (ERR_OK, timer_needed a (tcp_bound i ip p s1))) \<and>
    tcp_lists (tcp_bound i ip p s1) ls (xs(Bound := i # xs Bound))"
proof (cases "port = 0")
  case False
  show ?thesis
    using tcp_bind_spec(1) [OF assms(1-3) False, of a ip] tcp_bind_spec(2) [OF assms(1-3) False, of ip] False by (intro exI [of _ port]) (simp add: Let_def)
next
  case True
  obtain p q where p: "tcp_new_port s = Some (p, tcp_with_port q s)" "port_in_range q"
    "if \<forall>r. port_in_range r \<longrightarrow> tcp_port_used s ls xs r then p = 0 else p = q \<and> \<not> tcp_port_used s ls xs p"
    using tcp_new_port_spec [OF assms(1,4)] by blast
  have l: "tcp_lists (tcp_with_port q s) ls xs" "t_state (tpcb (tcp_with_port q s) i) = CLOSED" using assms(1,3) by simp_all
  have c: "tcp_conflict (tcp_with_port q s) ls xs p ip = tcp_conflict s ls xs p ip" by (simp add: tcp_conflict_def)
  have li: "tcp_lists (tcp_bound i ip p (tcp_with_port q s)) ls (xs(Bound := i # xs Bound))"
    using tcp_reg_list(2) [OF tcp_lists_upd_other [OF l(1) assms(2)] assms(2)] unfolding tcp_bound_def Let_def .
  have "tcp_bind a i ip port s = Some (if p = 0 then (ERR_BUF, tcp_with_port q s) else if tcp_conflict s ls xs p ip then (ERR_USE, tcp_with_port q s)
      else (ERR_OK, timer_needed a (tcp_bound i ip p (tcp_with_port q s))))"
    using tcp_bind_any [OF p(1) assms(3), of a ip] tcp_bind_spec(1) [OF l(1) assms(2) l(2), of p a ip] True c by simp
  then show ?thesis using p(2,3) li True by (intro exI [of _ p] exI [of _ q]) (simp only: Let_def if_True simp_thms if_False)
qed

section \<open>Witnesses\<close>

text \<open>The connection 0 of the demo state is active; the control block 1 is bound to port 80 of the same address, or to port 81.\<close>

lemma demo_lists:
  assumes "s = upd_tpcb 1 (\<lambda>b. b\<lparr>t_state := CLOSED\<rparr>) (demo_tcp m)"
  shows "tcp_lists s [] (\<lambda>L. if L = Active then [0] else [])" "t_state (tpcb s 1) = CLOSED" "port_in_range (tcp_port (n_dev s))"
proof -
  have n: "t_next demo_pcb = None" by (simp add: demo_pcb_def tcp_pcb_init_def)
  have "tcp_list L s (if L = Active then [0] else [])" for L
    by (cases L) (simp_all add: assms tcp_list_def n)
  then show "tcp_lists s [] (\<lambda>L. if L = Active then [0] else [])"
    by (auto simp: tcp_lists_def listen_list_def assms)
qed (simp_all add: assms port_in_range_def)

theorem tcp_bind_binds_witness:
  "let s = upd_tpcb 1 (\<lambda>b. b\<lparr>t_state := CLOSED\<rparr>) (demo_tcp demo_state) in
   tcp_bind demo_tcp_app 1 IPADDR_ANY 80 s = Some (ERR_USE, s) \<and>
   (\<exists>s'. tcp_bind demo_tcp_app 1 IPADDR_ANY 81 s = Some (ERR_OK, s') \<and> tcp_lists s' [] (\<lambda>L. if L = Active then [0] else if L = Bound then [1] else []))"
proof -
  let ?s = "upd_tpcb 1 (\<lambda>b. b\<lparr>t_state := CLOSED\<rparr>) (demo_tcp demo_state)" and ?xs = "\<lambda>L. if L = Active then [0 :: nat] else []"
  note d = demo_lists [OF refl, of demo_state]
  have n: "1 \<notin> set (?xs L)" for L by simp
  have c: "tcp_conflict ?s [] ?xs 80 IPADDR_ANY" "\<not> tcp_conflict ?s [] ?xs 81 IPADDR_ANY"
    by (auto simp: tcp_conflict_def tcp_some_def demo_pcb_def)
  have x: "?xs(Bound := 1 # ?xs Bound) = (\<lambda>L. if L = Active then [0] else if L = Bound then [1] else [])" by (auto simp: fun_eq_iff)
  show ?thesis
    using tcp_bind_binds [OF d(1) n d(2,3), of 80 demo_tcp_app IPADDR_ANY] tcp_bind_binds [OF d(1) n d(2,3), of 81 demo_tcp_app IPADDR_ANY]
    unfolding x by (simp add: c Let_def demo_tcp_app_def del: One_nat_def)
qed

end
