(* ===== verification/TcpTimers.thy ===== *)
theory TcpTimers
  imports TcpLists
begin

text \<open>
  The timers of TCP: the connections that leave \<open>TIME_WAIT\<close>, and what becomes of the walks of the fast
  and of the slow timer over the active connections when a callback changes the list and they start
  again at its head.
\<close>

declare split_paired_All [simp del] split_paired_Ex [simp del]

section \<open>Leaving \<open>TIME_WAIT\<close>\<close>

lemma upd_mem_simps [simp]: "n_mem (upd_mem f s) = f (n_mem s)" "n_dev (upd_mem f s) = n_dev s" "n_arp (upd_mem f s) = n_arp s"
  "n_cached (upd_mem f s) = n_cached s"
  by (simp_all add: upd_mem_def)

lemma free_tpcb_simps [simp]: "n_dev (free_tpcb i s) = n_dev s"
  "p_pools (n_mem (free_tpcb i s)) = memp_free MEMP_TCP_PCB (Some i) (p_pools (n_mem s))"
  by (simp_all add: free_tpcb_def set_pools_def)

lemma tcp_unlink_head: "tcp_unlink L None i s = t_set_head L (t_nxt s i) s" "tcp_unlink L (Some j) i s = t_set_nxt j (t_nxt s i) s"
  by (simp_all add: tcp_unlink_def tcp_set_defs)

lemma tcp_unlink_list:
  assumes "tcp_list L s (us @ i # ws)"
  shows "tcp_list L (tcp_unlink L (last_opt us) i s) (us @ ws)"
proof (cases "us = []")
  case True
  then show ?thesis using assms by (simp add: tcp_list_def tcp_unlink_head tcp_set_defs)
next
  case False
  then have h: "last_opt us = Some (last us)" by (simp add: last_opt_def)
  have "linked ((t_nxt s)(last us := t_nxt s i)) (t_head L s) (us @ ws)"
    using linked_remove [OF assms [unfolded tcp_list_def], of "(t_nxt s)(last us := t_nxt s i)"] False by simp
  then show ?thesis unfolding h tcp_unlink_head tcp_list_def tcps.access .
qed

lemma tcp_unlink_frame:
  "tcp_ticks (n_dev (tcp_unlink L prev i s)) = tcp_ticks (n_dev s)" "tcp_timer_ctr (n_dev (tcp_unlink L prev i s)) = tcp_timer_ctr (n_dev s)"
  "n_mem (tcp_unlink L prev i s) = n_mem s" "(tpcb (tcp_unlink L prev i s) j)\<lparr>t_next := None\<rparr> = (tpcb s j)\<lparr>t_next := None\<rparr>"
  "j \<noteq> i \<or> prev \<noteq> Some i \<Longrightarrow> prev \<noteq> Some j \<Longrightarrow> tpcb (tcp_unlink L prev i s) j = tpcb s j"
  by (cases prev; simp add: tcp_unlink_head tcp_set_defs)+

lemma same_but_link:
  assumes "(b :: tcp_pcb)\<lparr>t_next := None\<rparr> = c\<lparr>t_next := None\<rparr>"
  shows "t_tmr b = t_tmr c" "t_state b = t_state c"
  using arg_cong [OF assms, of t_tmr] arg_cong [OF assms, of t_state] by simp_all

lemma tcp_idle_cong: "tcp_ticks (n_dev s) = tcp_ticks (n_dev s') \<Longrightarrow> t_tmr (tpcb s i) = t_tmr (tpcb s' i) \<Longrightarrow> tcp_idle_for t i s = tcp_idle_for t i s'"
  by (simp add: tcp_idle_for_def)

lemma tcp_timewait_loop_spec:
  assumes "tcp_list Time_wait s (ks @ ts)" "linked (t_nxt s) p ts" "\<And>i. i \<in> set ts \<Longrightarrow> t_state (tpcb s i) = TIME_WAIT"
  shows "\<exists>s'. tcp_timewait_loop l (last_opt ks) p s = Some s' \<and>
    tcp_list Time_wait s' (ks @ filter (\<lambda>i. \<not> tcp_idle_for (2 * TCP_MSL) i s) ts) \<and>
    p_pools (n_mem s') = fold (\<lambda>i. memp_free MEMP_TCP_PCB (Some i)) (filter (\<lambda>i. tcp_idle_for (2 * TCP_MSL) i s) ts) (p_pools (n_mem s)) \<and>
    (\<forall>j. (tpcb s' j)\<lparr>t_next := None\<rparr> = (tpcb s j)\<lparr>t_next := None\<rparr>)"
  using assms
proof (induction ts arbitrary: s ks p)
  case Nil
  then show ?case by (simp add: tcp_timewait_loop.simps [of l _ None])
next
  case (Cons i ts)
  let ?idle = "tcp_idle_for (2 * TCP_MSL)"
  have p: "p = Some i" "linked (t_nxt s) (t_nxt s i) ts" using Cons.prems(2) by simp_all
  have d: "i \<notin> set ts" "i \<notin> set ks" using linked_distinct [OF Cons.prems(1) [unfolded tcp_list_def]] by auto
  show ?case
  proof (cases "?idle i s")
    case False
    have step: "tcp_timewait_loop l (last_opt ks) p s = tcp_timewait_loop l (Some i) (t_nxt s i) s"
      unfolding p(1) using False by (subst tcp_timewait_loop.simps) simp
    have "tcp_list Time_wait s ((ks @ [i]) @ ts)" using Cons.prems(1) by simp
    from Cons.IH [OF this p(2)] Cons.prems(3) show ?thesis using step False by simp
  next
    case True
    let ?s = "free_tpcb i (tcp_unlink Time_wait (last_opt ks) i s)"
    have nl: "last_opt ks \<noteq> Some i" using d(2) by (auto simp: last_opt_def split: if_splits)
    have keep: "tpcb ?s i = tpcb s i" using tcp_unlink_frame(5) [of i i "last_opt ks" Time_wait s] nl by simp
    have purge: "tcp_pcb_purge l i s = Some s" using Cons.prems(3) [of i] by (simp add: tcp_pcb_purge_def)
    have step: "tcp_timewait_loop l (last_opt ks) p s = tcp_timewait_loop l (last_opt ks) (t_nxt s i) ?s"
      unfolding p(1) using True purge keep by (subst tcp_timewait_loop.simps) (simp add: Let_def)
    have tl: "tcp_list Time_wait ?s (ks @ ts)"
      using tcp_unlink_list [OF Cons.prems(1)] by (simp add: tcp_list_def)
    have same: "(tpcb ?s j)\<lparr>t_next := None\<rparr> = (tpcb s j)\<lparr>t_next := None\<rparr>" for j by (simp add: tcp_unlink_frame(4))
    have nx: "linked (t_nxt ?s) (t_nxt s i) ts"
    proof -
      have "last_opt ks \<noteq> Some j" if "j \<in> set ts" for j
        using that linked_distinct [OF Cons.prems(1) [unfolded tcp_list_def]] by (auto simp: last_opt_def dest: last_in_set split: if_splits)
      then have "t_nxt ?s j = t_nxt s j" if "j \<in> set ts" for j
        using tcp_unlink_frame(5) [of j i "last_opt ks" Time_wait s] that nl by simp
      then show ?thesis using p(2) linked_cong [of ts "t_nxt ?s" "t_nxt s"] by simp
    qed
    have id: "?idle j ?s = ?idle j s" for j
      using same_but_link(1) [OF same, of j] by (intro tcp_idle_cong) (simp_all add: tcp_unlink_frame(1))
    have st: "t_state (tpcb ?s j) = TIME_WAIT" if "j \<in> set ts" for j
      using Cons.prems(3) [of j] that same_but_link(2) [OF same, of j] by simp
    from Cons.IH [OF tl nx st] show ?thesis unfolding id step same using True by (simp add: tcp_unlink_frame(3))
  qed
qed

section \<open>The fast timer\<close>

text \<open>A connection visited before has no branch in the loop that goes on to the next.\<close>

lemma tcp_fasttmr_visited:
  assumes "t_last_timer (tpcb s i) = tcp_timer_ctr (n_dev s)"
  shows "tcp_fasttmr_loop l a (Some i) s = None"
proof -
  have "\<not> (pcb = Some i \<and> t_last_timer (tpcb s i) = tcp_timer_ctr (n_dev s))"
    if "tcp_fasttmr_loop l a pcb s = Some y" for pcb s y
    by (rule tcp_fasttmr_loop.raw_induct [OF _ that, where P = "\<lambda>l a pcb s y. \<not> (pcb = Some i \<and> t_last_timer (tpcb s i) = tcp_timer_ctr (n_dev s))"])
      auto
  then show ?thesis using assms by (cases "tcp_fasttmr_loop l a (Some i) s") auto
qed

text \<open>The callback has changed the list, and the walk starts again at a connection it has visited.\<close>

lemma tcp_fasttmr_restart:
  assumes a: "tcp_active_pcbs (n_dev s) = Some i" "t_last_timer (tpcb s i) \<noteq> c_u8 (tcp_timer_ctr (n_dev s) + 1)"
      "t_flags (tpcb s i) AND TF_ACK_DELAY = 0" "t_refused_data (tpcb s i) \<noteq> None"
    and s0: "s0 = set_changed False (upd_tpcb i (\<lambda>b. b\<lparr>t_last_timer := c_u8 (tcp_timer_ctr (n_dev s) + 1)\<rparr>)
      (upd_tcp (\<lambda>v. v\<lparr>tcp_timer_ctr := c_u8 (tcp_timer_ctr v + 1)\<rparr>) s))"
    and r: "tcp_process_refused_data l a i s0 = Some (e, s1)" "tcp_active_pcbs_changed (n_dev s1)" "tcp_active_pcbs (n_dev s1) = Some j"
      "t_last_timer (tpcb s1 j) = tcp_timer_ctr (n_dev s1)"
  shows "tcp_fasttmr l a s = None"
proof -
  let ?s = "upd_tcp (\<lambda>v. v\<lparr>tcp_timer_ctr := c_u8 (tcp_timer_ctr v + 1)\<rparr>) s"
  let ?s1 = "upd_tpcb i (\<lambda>b. b\<lparr>t_last_timer := c_u8 (tcp_timer_ctr (n_dev s) + 1)\<rparr>) ?s"
  have b: "tpcb ?s = tpcb s" "tcp_timer_ctr (n_dev ?s) = c_u8 (tcp_timer_ctr (n_dev s) + 1)" "tcp_active_pcbs (n_dev ?s) = Some i"
    using a(1) by simp_all
  have da: "tcp_delayed_ack l i ?s1 = Some ?s1" using a(3) by (simp add: tcp_delayed_ack_def)
  have rd: "t_refused_data (tpcb ?s1 i) \<noteq> None" using a(4) by simp
  have "tcp_fasttmr_loop l a (Some i) ?s = tcp_fasttmr_loop l a (tcp_active_pcbs (n_dev s1)) s1"
    using a(2) rd da r(1,2) unfolding s0 by (subst tcp_fasttmr_loop.simps) (simp add: Let_def)
  then show ?thesis unfolding tcp_fasttmr_def Let_def b(3) r(3) tcp_fasttmr_visited [OF r(4)] .
qed

section \<open>The slow timer\<close>

text \<open>A connection half closed by the application that the peer does not close in time.\<close>

definition fin_wait_expired :: "nat \<Rightarrow> ('x, 'm) tcp_net \<Rightarrow> bool" where
  "fin_wait_expired i s \<longleftrightarrow>
     (let b = tpcb s i in t_state b = FIN_WAIT_2 \<and> t_flags b AND TF_RXCLOSED \<noteq> 0 \<and> tcp_idle_for TCP_FIN_WAIT_TIMEOUT i s \<and>
        t_nrtx b \<noteq> TCP_MAXRTX \<and> t_persist_backoff b = 0 \<and> t_unacked b = None \<and> t_unsent b = None \<and> t_refused_data b = None \<and> t_errf b = None)"

lemma tcp_slowtmr_expired:
  assumes "fin_wait_expired i s"
  shows "\<exists>f. tcp_slowtmr_pcb l i s = Some (True, False, upd_tpcb i f s) \<and> t_next (f (tpcb s i)) = t_next (tpcb s i) \<and>
    t_unsent (f (tpcb s i)) = None \<and> t_unacked (f (tpcb s i)) = None \<and> t_refused_data (f (tpcb s i)) = None \<and>
    t_errf (f (tpcb s i)) = None"
proof -
  let ?b = "tpcb s i"
  have b: "t_state ?b = FIN_WAIT_2" "t_flags ?b AND TF_RXCLOSED \<noteq> 0" "tcp_idle_for TCP_FIN_WAIT_TIMEOUT i s"
    "t_nrtx ?b \<noteq> TCP_MAXRTX" "t_persist_backoff ?b = 0" "t_unacked ?b = None" "t_unsent ?b = None" "t_refused_data ?b = None" "t_errf ?b = None"
    using assms by (simp_all add: fin_wait_expired_def Let_def)
  let ?f = "\<lambda>b. let b = b\<lparr>t_last_timer := tcp_timer_ctr (n_dev s)\<rparr> in if t_rtime b \<ge> 0 then b\<lparr>t_rtime := c_s16 (t_rtime b + 1)\<rparr> else b"
  have rx: "tcp_slowtmr_rexmit l i (upd_tpcb i (\<lambda>b. b\<lparr>t_last_timer := tcp_timer_ctr (n_dev s)\<rparr>) s) = Some (False, upd_tpcb i ?f s)"
    using b by (simp add: tcp_slowtmr_rexmit_def Let_def)
  define s2 where "s2 = upd_tpcb i ?f s"
  have "tcp_idle_for t i s2 = tcp_idle_for t i s" for t unfolding s2_def by (rule tcp_idle_cong) (simp_all add: Let_def)
  moreover have "t_state (tpcb s2 i) = FIN_WAIT_2" "t_flags (tpcb s2 i) = t_flags ?b" unfolding s2_def using b(1) by (simp_all add: Let_def)
  ultimately have "tcp_slowtmr_pcb l i s = Some (True, False, s2)"
    using b(2,3) unfolding tcp_slowtmr_pcb_def rx [folded s2_def] tcp_keepalive_on_def by (simp add: Let_def)
  then show ?thesis using b unfolding s2_def by (intro exI [of _ ?f]) (simp add: Let_def)
qed

text \<open>Purging a control block that holds nothing.\<close>

definition purged :: "tcp_pcb \<Rightarrow> tcp_pcb" where
  "purged b = (if t_state b = CLOSED \<or> t_state b = TIME_WAIT \<or> t_state b = LISTEN then b
     else b\<lparr>t_rtime := -1, t_unsent := None, t_unacked := None, t_unsent_oversize := 0\<rparr>)"

lemma purged_simps [simp]: "t_next (purged b) = t_next b" "t_errf (purged b) = t_errf b" "t_state (purged b) = t_state b"
  "t_flags (purged b) = t_flags b" "t_local_port (purged b) = t_local_port b"
  by (simp_all add: purged_def)

lemma tcp_pcb_purge_empty:
  assumes "t_refused_data (tpcb s i) = None" "t_unsent (tpcb s i) = None" "t_unacked (tpcb s i) = None"
  shows "tcp_pcb_purge l i s = Some (upd_tpcb i purged s)"
proof (cases "t_state (tpcb s i) = CLOSED \<or> t_state (tpcb s i) = TIME_WAIT \<or> t_state (tpcb s i) = LISTEN")
  case True
  then have "upd_tpcb i purged s = s" by (intro upd_tpcb_same) (auto simp: purged_def)
  with True show ?thesis by (auto simp: tcp_pcb_purge_def)
next
  case False
  have "upd_tpcb i (\<lambda>b. b\<lparr>t_rtime := -1, t_unsent := None, t_unacked := None, t_unsent_oversize := 0\<rparr>) s = upd_tpcb i purged s"
    using False by (simp add: upd_tpcb_def upd_tcp_def purged_def)
  with False assms show ?thesis by (simp add: tcp_pcb_purge_def tcp_segs_free.simps [of l None] Let_def)
qed

text \<open>The walk passes over connections it has visited without remembering them.\<close>

lemma tcp_slowtmr_skip:
  assumes "linked (t_nxt s) p (us @ ws)" "\<forall>j\<in>set us. t_last_timer (tpcb s j) = tcp_timer_ctr (n_dev s)"
  shows "tcp_slowtmr_loop l a prev p s = tcp_slowtmr_loop l a prev (case ws of [] \<Rightarrow> None | w # _ \<Rightarrow> Some w) s"
  using assms
proof (induction us arbitrary: p)
  case Nil
  then show ?case using linked_first [of "t_nxt s" p ws] by simp
next
  case (Cons u us)
  then have u: "p = Some u" "linked (t_nxt s) (t_nxt s u) (us @ ws)" "t_last_timer (tpcb s u) = tcp_timer_ctr (n_dev s)" by simp_all
  have "tcp_slowtmr_loop l a prev p s = tcp_slowtmr_loop l a prev (t_nxt s u) s"
    unfolding u(1) using u(3) by (subst tcp_slowtmr_loop.simps) simp
  then show ?case using Cons.IH [OF u(2)] Cons.prems(2) by simp
qed

lemma tcp_slowtmr_drops:
  assumes "tcp_list Active s (us @ [k])" "\<forall>j\<in>set us. t_last_timer (tpcb s j) = tcp_timer_ctr (n_dev s)"
    and "t_last_timer (tpcb s k) \<noteq> tcp_timer_ctr (n_dev s)" "fin_wait_expired k s"
  shows "\<exists>s'. tcp_slowtmr_loop l a None (tcp_active_pcbs (n_dev s)) s = Some s' \<and> tcp_list Active s' [] \<and> (\<forall>j\<in>set us. tpcb s' j = tpcb s j)"
proof -
  obtain f where f: "tcp_slowtmr_pcb l k s = Some (True, False, upd_tpcb k f s)" "t_next (f (tpcb s k)) = t_next (tpcb s k)"
    "t_unsent (f (tpcb s k)) = None" "t_unacked (f (tpcb s k)) = None" "t_refused_data (f (tpcb s k)) = None" "t_errf (f (tpcb s k)) = None"
    using tcp_slowtmr_expired [OF assms(4)] by blast
  have li: "linked (t_nxt s) (tcp_active_pcbs (n_dev s)) (us @ [k])" using assms(1) by (simp add: tcp_list_def)
  have kn: "t_nxt s k = None" using linked_behind [of "t_nxt s" "tcp_active_pcbs (n_dev s)" us k "[]"] li by simp
  have d: "k \<notin> set us" using linked_distinct [OF li] by simp
  define g where "g = (\<lambda>b. purged (f b))"
  have g: "tcp_pcb_purge l k (upd_tpcb k f s) = Some (upd_tpcb k g s)" "t_next (g (tpcb s k)) = None" "t_errf (g (tpcb s k)) = None"
    using tcp_pcb_purge_empty [of "upd_tpcb k f s" k l] f(2-6) kn by (simp_all add: g_def)
  let ?s = "set_changed False (free_tpcb k (tcp_unlink Active None k (upd_tpcb k g s)))"
  have st: "tcp_slowtmr_loop l a None (Some k) s = Some ?s"
    using assms(3) f(1) g
    by (subst tcp_slowtmr_loop.simps)
      (simp add: Let_def tcp_unlink_def tcp_event_err_def set_changed_def tcp_slowtmr_loop.simps [of l a None None])
  have "tcp_list Active ?s []" "\<forall>j\<in>set us. tpcb ?s j = tpcb s j"
    using g(2) d by (auto simp: tcp_list_def tcp_unlink_def set_changed_def)
  then show ?thesis using tcp_slowtmr_skip [OF li assms(2), of l a None] st by simp
qed

section \<open>Properties\<close>

text \<open>C32: The walk of \<open>tcp_slowtmr\<close> over the connections in \<open>TIME_WAIT\<close> returns; it takes exactly those from the list that have
  been idle for more than two segment lifetimes (240 ticks of 500 ms) and gives each back to the pool
  once.  The others stay in their order, and no control block changes but for the links of the list.\<close>
theorem tcp_timewait_expires:
  assumes "tcp_list Time_wait s ts" and "\<And>i. i \<in> set ts \<Longrightarrow> t_state (tpcb s i) = TIME_WAIT"
  shows "\<exists>s'. tcp_timewait_loop l None (tcp_tw_pcbs (n_dev s)) s = Some s' \<and>
    tcp_list Time_wait s' (filter (\<lambda>i. \<not> uint (tcp_ticks (n_dev s) - t_tmr (tpcb s i)) > 240) ts) \<and>
    p_pools (n_mem s') = fold (\<lambda>i. memp_free MEMP_TCP_PCB (Some i)) (filter (\<lambda>i. uint (tcp_ticks (n_dev s) - t_tmr (tpcb s i)) > 240) ts)
      (p_pools (n_mem s)) \<and>
    (\<forall>j. (tpcb s' j)\<lparr>t_next := None\<rparr> = (tpcb s j)\<lparr>t_next := None\<rparr>)"
proof -
  have i: "tcp_idle_for (2 * TCP_MSL) j s \<longleftrightarrow> uint (tcp_ticks (n_dev s) - t_tmr (tpcb s j)) > 240" for j
    by (simp add: tcp_idle_for_def TCP_MSL_def TCP_SLOW_INTERVAL_def)
  have "linked (t_nxt s) (tcp_tw_pcbs (n_dev s)) ts" using assms(1) by (simp add: tcp_list_def)
  from tcp_timewait_loop_spec [of s "[]" ts, OF _ this assms(2)] assms(1) show ?thesis by (simp add: i)
qed

text \<open>C33: \<open>tcp_fasttmr\<close> does not return when the callback that gets the refused data of a connection changes the list
  of active connections (it opens or aborts one) and leaves at its head a connection that was visited in
  this run: the walk starts again there, and its loop has no step over a visited connection.\<close>
theorem tcp_fasttmr_hangs:
  assumes "tcp_active_pcbs (n_dev s) = Some i" and "t_last_timer (tpcb s i) \<noteq> c_u8 (tcp_timer_ctr (n_dev s) + 1)"
    and "t_flags (tpcb s i) AND TF_ACK_DELAY = 0" and "t_refused_data (tpcb s i) \<noteq> None"
    and "s0 = set_changed False (upd_tpcb i (\<lambda>b. b\<lparr>t_last_timer := c_u8 (tcp_timer_ctr (n_dev s) + 1)\<rparr>)
      (upd_tcp (\<lambda>v. v\<lparr>tcp_timer_ctr := c_u8 (tcp_timer_ctr v + 1)\<rparr>) s))"
    and "tcp_process_refused_data l a i s0 = Some (e, s1)" and "tcp_active_pcbs_changed (n_dev s1)"
    and "tcp_active_pcbs (n_dev s1) = Some j" and "t_last_timer (tpcb s1 j) = tcp_timer_ctr (n_dev s1)"
  shows "tcp_fasttmr l a s = None"
  by (rule tcp_fasttmr_restart [OF assms])

text \<open>C34: When the walk of \<open>tcp_slowtmr\<close> starts again after a callback has changed the list, it passes over the
  connections it has visited without keeping \<open>prev\<close>; if it then removes an expired connection behind
  them, the head of the list is set to the successor of that one: all connections before it vanish from
  the list of active connections although none of them was closed or has changed in any way.\<close>
theorem tcp_slowtmr_loses:
  assumes "tcp_list Active s (us @ [k])" and "\<forall>j\<in>set us. t_last_timer (tpcb s j) = tcp_timer_ctr (n_dev s)"
    and "t_last_timer (tpcb s k) \<noteq> tcp_timer_ctr (n_dev s)" and "fin_wait_expired k s"
  shows "\<exists>s'. tcp_slowtmr_loop l a None (tcp_active_pcbs (n_dev s)) s = Some s' \<and> tcp_list Active s' [] \<and>
    (\<forall>j\<in>set us. tpcb s' j = tpcb s j)"
  by (rule tcp_slowtmr_drops [OF assms])

section \<open>Witnesses\<close>

text \<open>The connections 0 and 1 on one list.\<close>

definition demo_two :: "(tcp_pcb \<Rightarrow> tcp_pcb) \<Rightarrow> (tcp_pcb \<Rightarrow> tcp_pcb) \<Rightarrow> eth_dev tcp_vars net" where
  "demo_two f g = upd_tpcb 1 g (upd_tpcb 0 (\<lambda>b. f b\<lparr>t_next := Some 1\<rparr>) (demo_tcp demo_state))"

lemma demo_two_sel [simp]: "tpcb (demo_two f g) 0 = (f demo_pcb)\<lparr>t_next := Some 1\<rparr>" "tpcb (demo_two f g) (Suc 0) = g demo_pcb"
  "tcp_active_pcbs (n_dev (demo_two f g)) = Some 0" "tcp_tw_pcbs (n_dev (demo_two f g)) = None" "tcp_timer_ctr (n_dev (demo_two f g)) = 0"
  "tcp_ticks (n_dev (demo_two f g)) = 5" "n_mem (demo_two f g) = demo_state"
  by (simp_all add: demo_two_def)

lemmas demo_pcb_defs = demo_pcb_def tcp_pcb_init_def

lemma demo_two_active: "t_next (g demo_pcb) = None \<Longrightarrow> tcp_list Active (demo_two f g) [0, 1]"
  by (simp add: tcp_list_def)

theorem tcp_timewait_expires_witness:
  "\<exists>s s' :: eth_dev tcp_vars net. tcp_list Time_wait s [0, 1] \<and> tcp_timewait_loop demo_tcp_link None (tcp_tw_pcbs (n_dev s)) s = Some s' \<and>
     tcp_list Time_wait s' [0]"
proof -
  let ?s = "t_set_head Time_wait (Some 0) (demo_two (\<lambda>b. b\<lparr>t_state := TIME_WAIT\<rparr>) (\<lambda>b. b\<lparr>t_state := TIME_WAIT, t_tmr := 5 - 300\<rparr>))"
  have l: "tcp_list Time_wait ?s [0, 1]" by (simp add: tcp_list_def t_set_head_def demo_pcb_defs)
  have "t_state (tpcb ?s i) = TIME_WAIT" if "i \<in> set [0, 1]" for i using that by (auto simp: t_set_head_def)
  from tcp_timewait_expires [OF l this, where l = demo_tcp_link] obtain s' where
    "tcp_timewait_loop demo_tcp_link None (tcp_tw_pcbs (n_dev ?s)) ?s = Some s'"
    "tcp_list Time_wait s' (filter (\<lambda>i. \<not> uint (tcp_ticks (n_dev ?s) - t_tmr (tpcb ?s i)) > 240) [0, 1])" by blast
  moreover have "filter (\<lambda>i. \<not> uint (tcp_ticks (n_dev ?s) - t_tmr (tpcb ?s i)) > 240) [0, 1] = [0]"
    by (simp add: t_set_head_def demo_pcb_defs)
  ultimately show ?thesis using l by (intro exI [of _ ?s] exI [of _ s']) (simp only: simp_thms)
qed

text \<open>The application that gets the refused data of the connection 0 closes the connection 1, which is being opened.\<close>

definition demo_closer :: "eth_dev tcp_vars tcp_app" where
  "demo_closer = demo_tcp_app\<lparr>app_recv := (\<lambda>f arg i p e s. tcp_close demo_tcp_link demo_tcp_app (Pcb 1) s)\<rparr>"

theorem tcp_fasttmr_hangs_witness:
  "tcp_fasttmr demo_tcp_link demo_closer
     (demo_two (\<lambda>b. b\<lparr>t_refused_data := Some (RPool 0, 0), t_recv := Some (Recv_app 3)\<rparr>) (\<lambda>b. b\<lparr>t_state := SYN_SENT\<rparr>)) = None"
proof -
  define s where "s = demo_two (\<lambda>b. b\<lparr>t_refused_data := Some (RPool 0, 0), t_recv := Some (Recv_app 3)\<rparr>) (\<lambda>b. b\<lparr>t_state := SYN_SENT\<rparr>)"
  define s0 where "s0 = set_changed False (upd_tpcb 0 (\<lambda>b. b\<lparr>t_last_timer := c_u8 (tcp_timer_ctr (n_dev s) + 1)\<rparr>)
      (upd_tcp (\<lambda>v. v\<lparr>tcp_timer_ctr := c_u8 (tcp_timer_ctr v + 1)\<rparr>) s))"
  have s0: "tpcb s0 0 = demo_pcb\<lparr>t_refused_data := Some (RPool 0, 0), t_recv := Some (Recv_app 3), t_next := Some 1, t_last_timer := 1\<rparr>"
    "tpcb s0 1 = demo_pcb\<lparr>t_state := SYN_SENT\<rparr>" "tcp_timer_ctr (n_dev s0) = 1" "tcp_active_pcbs (n_dev s0) = Some 0" "n_mem s0 = demo_state"
    by (simp_all add: s0_def s_def set_changed_def c_u8_def)
  define s1 where "s1 = tcp_rx_close 1 (upd_tpcb 0 (\<lambda>b. b\<lparr>t_refused_data := None\<rparr>) s0)"
  have s1: "t_nxt s1 0 = Some 1" "t_nxt s1 1 = None" "tcp_active_pcbs (n_dev s1) = Some 0" "t_state (tpcb s1 1) = SYN_SENT"
    "t_last_timer (tpcb s1 0) = 1" "tcp_timer_ctr (n_dev s1) = 1" "t_refused_data (tpcb s1 1) = None" "t_unsent (tpcb s1 1) = None"
    "t_unacked (tpcb s1 1) = None" "t_flags (tpcb s1 1) = 0x10"
    by (simp_all add: s1_def tcp_rx_close_def s0 s0(2) [unfolded One_nat_def] demo_pcb_defs TF_RXCLOSED_def)
  define s2 where "s2 = upd_tpcb 1 (\<lambda>b. b\<lparr>t_next := None\<rparr>) (upd_tpcb 0 (\<lambda>b. b\<lparr>t_next := None\<rparr>) s1)"
  have rmv: "TCP_RMV Active 1 s1 = Some s2"
    using s1(1-3) by (simp add: TCP_RMV_def tcp_rmv_loop.simps [of "Suc 0" "Some 0"] s2_def)
  have s2: "t_refused_data (tpcb s2 1) = None" "t_unsent (tpcb s2 1) = None" "t_unacked (tpcb s2 1) = None" "t_flags (tpcb s2 1) = 0x10"
    "t_last_timer (tpcb s2 0) = 1" "tcp_timer_ctr (n_dev s2) = 1" "tcp_active_pcbs (n_dev s2) = Some 0"
    using s1 by (simp_all add: s2_def)
  have "TCP_PCB_REMOVE_ACTIVE demo_tcp_link 1 s1 = Some (set_changed True (upd_tpcb 1 (\<lambda>b. (purged b)\<lparr>t_state := CLOSED\<rparr>) s2))"
    using tcp_pcb_purge_empty [OF s2(1-3)] s2(4) by (simp add: TCP_PCB_REMOVE_ACTIVE_def tcp_pcb_remove_def rmv [unfolded One_nat_def] TF_ACK_DELAY_def)
  note rem = this
  have "tcp_close_shutdown demo_tcp_link demo_tcp_app 1 True s1 = do { s \<leftarrow> TCP_PCB_REMOVE_ACTIVE demo_tcp_link 1 s1; Some (ERR_OK, free_tpcb 1 s) }"
    using s1(4) by (simp add: tcp_close_shutdown_def Let_def del: One_nat_def)
  then have cl: "tcp_close demo_tcp_link demo_tcp_app (Pcb 1) (upd_tpcb 0 (\<lambda>b. b\<lparr>t_refused_data := None\<rparr>) s0) =
      Some (ERR_OK, free_tpcb 1 (set_changed True (upd_tpcb 1 (\<lambda>b. (purged b)\<lparr>t_state := CLOSED\<rparr>) s2)))"
    by (simp only: tcp_close_def tcp_ref.case s1_def [symmetric] rem Option.bind.simps)
  have fl: "pb_flags (p_pbufs demo_state (RPool 0, 0)) AND PBUF_FLAG_TCP_FIN = 0" by (simp add: demo_simps PBUF_FLAG_TCP_FIN_def)
  have r: "tcp_process_refused_data demo_tcp_link demo_closer 0 s0 =
      Some (ERR_OK, free_tpcb 1 (set_changed True (upd_tpcb 1 (\<lambda>b. (purged b)\<lparr>t_state := CLOSED\<rparr>) s2)))"
    using cl fl by (simp add: tcp_process_refused_data_def s0 tcp_event_recv_def demo_closer_def del: One_nat_def)
  have "tcp_fasttmr demo_tcp_link demo_closer s = None"
    by (rule tcp_fasttmr_hangs [OF _ _ _ _ s0_def r])
      (auto simp: s2 set_changed_def s_def demo_pcb_defs c_u8_def TF_ACK_DELAY_def)
  then show ?thesis unfolding s_def .
qed

theorem tcp_slowtmr_loses_witness:
  "\<exists>s s' :: eth_dev tcp_vars net. tcp_list Active s [0, 1] \<and> t_state (tpcb s 0) = ESTABLISHED \<and>
     tcp_slowtmr_loop demo_tcp_link demo_tcp_app None (tcp_active_pcbs (n_dev s)) s = Some s' \<and> tcp_list Active s' [] \<and> tpcb s' 0 = tpcb s 0"
proof -
  let ?s = "demo_two (\<lambda>b. b) (\<lambda>b. b\<lparr>t_last_timer := 7, t_state := FIN_WAIT_2, t_flags := TF_RXCLOSED, t_tmr := 5 - 100\<rparr>)"
  have l: "tcp_list Active ?s ([0] @ [1])" using demo_two_active [of "\<lambda>b. b\<lparr>t_last_timer := 7, t_state := FIN_WAIT_2, t_flags := TF_RXCLOSED, t_tmr := 5 - 100\<rparr>"]
    by (simp add: demo_pcb_defs)
  have e: "fin_wait_expired 1 ?s"
    by (simp add: fin_wait_expired_def demo_pcb_defs TF_RXCLOSED_def tcp_idle_for_def TCP_FIN_WAIT_TIMEOUT_def TCP_SLOW_INTERVAL_def TCP_MAXRTX_def Let_def)
  have v: "\<forall>j\<in>set [0]. t_last_timer (tpcb ?s j) = tcp_timer_ctr (n_dev ?s)" "t_last_timer (tpcb ?s 1) \<noteq> tcp_timer_ctr (n_dev ?s)"
    "t_state (tpcb ?s 0) = ESTABLISHED" by (simp_all add: demo_pcb_defs)
  obtain s' where "tcp_slowtmr_loop demo_tcp_link demo_tcp_app None (tcp_active_pcbs (n_dev ?s)) ?s = Some s'"
    "tcp_list Active s' []" "\<forall>j\<in>set [0]. tpcb s' j = tpcb ?s j"
    using tcp_slowtmr_loses [OF l v(1,2) e, where l = demo_tcp_link and a = demo_tcp_app] by blast
  then show ?thesis using v(3) l by (intro exI [of _ ?s] exI [of _ s']) (simp del: demo_two_sel)
qed

end
