(* ===== verification/PacketFrame.thy ===== *)
theory PacketFrame
  imports Udp EtharpProps
begin

text \<open>
  What sending a packet leaves alone.  The operations on packet buffers take elements from the pools of packet buffers and
  of fragments only; the way of a packet through IP and ARP changes nothing but the packet memory, the ARP table, the
  identification of datagrams and the device.
\<close>

declare split_paired_All [simp del] split_paired_Ex [simp del]

section \<open>Other pools\<close>

text \<open>The free list of the pool \<open>t\<close> is as in \<open>m0\<close>.\<close>

definition spares :: "memp_t \<Rightarrow> pstate \<Rightarrow> pstate \<Rightarrow> bool" where
  "spares t m0 m \<longleftrightarrow> memp_tab (p_pools m) t = memp_tab (p_pools m0) t \<and> memp_next (p_pools m) t = memp_next (p_pools m0) t"

definition packet_pools :: "memp_t set" where
  "packet_pools = {MEMP_PBUF, MEMP_PBUF_POOL, MEMP_FRAG_PBUF}"

text \<open>A free function of custom pbufs that gives back elements of these pools only.\<close>

definition cf_spares :: "memp_t \<Rightarrow> custom_free \<Rightarrow> bool" where
  "cf_spares t cf \<longleftrightarrow> (\<forall>m0 p m. spares t m0 m \<longrightarrow> ensures (spares t m0) (cf p m))"

lemma spares_refl [simp]: "spares t m m"
  by (simp add: spares_def)

lemma spares_simps [simp]:
  "spares t m0 (m\<lparr>p_bytes := b\<rparr>) = spares t m0 m" "spares t m0 (m\<lparr>p_heap := h\<rparr>) = spares t m0 m"
  "spares t m0 (m\<lparr>p_pbufs := q\<rparr>) = spares t m0 m" "spares t m0 (m\<lparr>p_original := r\<rparr>) = spares t m0 m"
  "spares t m0 (upd_pbuf p f m) = spares t m0 m" "spares t m0 (mem_write x bs m) = spares t m0 m"
  "spares t m0 (mem_copy x y n m) = spares t m0 m" "spares t m0 (put z g bs m) = spares t m0 m"
  "spares t m0 (put8 z k w8 m) = spares t m0 m" "spares t m0 (put16 z k w16 m) = spares t m0 m" "spares t m0 (put32 z k w32 m) = spares t m0 m"
  "spares t m0 (pbuf_ref o1 m) = spares t m0 m"
  by (simp_all add: spares_def upd_pbuf_def mem_write_def mem_copy_def put_def put8_def put16_def put32_def pbuf_ref_def split: option.split)

lemma spares_pools:
  "u \<noteq> t \<Longrightarrow> memp_malloc u (p_pools m) = (r, ps) \<Longrightarrow> spares t m0 (m'\<lparr>p_pools := ps\<rparr>) = spares t m0 m"
  "u \<noteq> t \<Longrightarrow> spares t m0 (m'\<lparr>p_pools := memp_free u i (p_pools m)\<rparr>) = spares t m0 m"
  by (auto simp: spares_def memp_malloc_def memp_free_def split: option.splits)

lemma not_packet_pool: "t \<notin> packet_pools \<Longrightarrow> MEMP_PBUF \<noteq> t \<and> MEMP_PBUF_POOL \<noteq> t \<and> MEMP_FRAG_PBUF \<noteq> t"
  by (auto simp: packet_pools_def)

lemma cf_sparesD: "cf_spares t cf \<Longrightarrow> cf p s = Some s' \<Longrightarrow> spares t m0 s \<Longrightarrow> spares t m0 s'"
  unfolding cf_spares_def ensures_def by blast

lemma pbuf_free_loop_spares:
  assumes "pbuf_free_loop cf p c m = Some y" "t \<notin> packet_pools" "cf_spares t cf"
  shows "spares t m0 m \<longrightarrow> spares t m0 (snd y)"
proof -
  have "cf_spares t cf \<longrightarrow> spares t m0 m \<longrightarrow> spares t m0 (snd y)"
  proof (rule pbuf_free_loop.raw_induct [OF _ assms(1), where P = "\<lambda>cf p c m y. cf_spares t cf \<longrightarrow> spares t m0 m \<longrightarrow> spares t m0 (snd y)"], goal_cases)
    case (1 rec cf p c m y)
    note np = not_packet_pool [OF assms(2)]
    from 1(2) show ?case using np
      by (auto simp: Let_def bind_eq_Some_conv spares_pools split: option.splits if_splits region.splits dest!: 1(1) dest: cf_sparesD)
  qed
  then show ?thesis using assms(3) by blast
qed

lemma pbuf_free_spares [ensures]:
  "t \<notin> packet_pools \<Longrightarrow> cf_spares t cf \<Longrightarrow> spares t m0 m \<Longrightarrow> ensures (\<lambda>(n, m). spares t m0 m) (pbuf_free cf p m)"
  using pbuf_free_loop_spares [of cf p 0 m _ t m0] by (auto simp: pbuf_free_def ensures_def split: option.split)

lemma pbuf_free_spares':
  "pbuf_free cf p m = Some (n, m') \<Longrightarrow> t \<notin> packet_pools \<Longrightarrow> cf_spares t cf \<Longrightarrow> spares t m0 m \<Longrightarrow> spares t m0 m'"
  using ensuresD [OF pbuf_free_spares] by fastforce

lemma pbuf_header_spares: "spares t m0 m \<Longrightarrow> pbuf_header p n m = (f, m') \<Longrightarrow> spares t m0 m'"
  by (auto simp: pbuf_header_def Let_def split: option.splits if_splits)

lemma pbuf_alloc_tail_spares:
  assumes "pbuf_alloc_tail cf p r k m = Some y" "t \<notin> packet_pools" "cf_spares t cf" "spares t m0 m"
  shows "spares t m0 (snd y)"
proof -
  have "cf_spares t cf \<longrightarrow> spares t m0 m \<longrightarrow> spares t m0 (snd y)"
  proof (rule pbuf_alloc_tail.raw_induct [OF _ assms(1), where P = "\<lambda>cf p r k m y. cf_spares t cf \<longrightarrow> spares t m0 m \<longrightarrow> spares t m0 (snd y)"], goal_cases)
    case (1 rec cf p r k m y)
    note np = not_packet_pool [OF assms(2)]
    from 1(2) show ?case using np
      by (auto simp: Let_def bind_eq_Some_conv spares_pools split: option.splits if_splits prod.splits dest!: 1(1)
          dest!: pbuf_free_spares' [OF _ assms(2), where ?m0.0 = m0])
  qed
  then show ?thesis using assms(3,4) by blast
qed

lemma pbuf_alloc_spares [ensures]:
  assumes t: "t \<notin> packet_pools" "cf_spares t cf" and m: "spares t m0 m"
  shows "ensures (\<lambda>(p, m). spares t m0 m) (pbuf_alloc cf l n ty m)"
proof -
  note np = not_packet_pool [OF t(1)]
  have tail: "spares t m0 (snd y)" if "pbuf_alloc_tail cf p r k s = Some y" "spares t m0 s" for p r k s y
    using pbuf_alloc_tail_spares [OF that(1) t that(2)] .
  show ?thesis
  proof (cases ty)
    case PBUF_POOL
    have "ensures (\<lambda>(p, m). spares t m0 m) (do { (ok, s) \<leftarrow> pbuf_alloc_tail cf p r k s; if ok then Some (Some p', upd_pbuf x f s) else Some (None, s) })"
      if "spares t m0 s" for p r k s p' x f
    proof (rule ensures_bind)
      show "ensures (\<lambda>(ok, s). spares t m0 s) (pbuf_alloc_tail cf p r k s)"
        by (rule ensuresI) (use tail [OF _ that] in \<open>simp add: case_prod_beta\<close>)
    qed (auto split: prod.split)
    note step = this
    show ?thesis
    proof (cases "memp_malloc MEMP_PBUF_POOL (p_pools m)")
      case (Pair i ps)
      have "spares t m0 (m\<lparr>p_pools := ps\<rparr>)" using m np spares_pools(1) [OF _ Pair] by blast
      then show ?thesis unfolding PBUF_POOL pbuf_alloc_def Let_def pbuf_type.case Pair
        by (cases i) (simp, simp only: prod.case option.case, rule step, simp)
    qed
  next
    case PBUF_RAM
    show ?thesis using m unfolding PBUF_RAM
      by (auto simp: pbuf_alloc_def Let_def bind_eq_Some_conv ensures_def split: option.splits)
  next
    case PBUF_ROM
    show ?thesis using m np unfolding PBUF_ROM by (auto simp: pbuf_alloc_def spares_pools split: option.split prod.split)
  next
    case PBUF_REF
    show ?thesis using m np unfolding PBUF_REF by (auto simp: pbuf_alloc_def spares_pools split: option.split prod.split)
  qed
qed

lemma pbuf_cat_loop_spares:
  assumes "pbuf_cat_loop p q m = Some y" "spares t m0 m"
  shows "spares t m0 (snd y)"
proof -
  have "spares t m0 m \<longrightarrow> spares t m0 (snd y)"
  proof (rule pbuf_cat_loop.raw_induct [OF _ assms(1), where P = "\<lambda>p q m y. spares t m0 m \<longrightarrow> spares t m0 (snd y)"], goal_cases)
    case (1 rec p q m y)
    from 1(2) show ?case by (auto split: option.splits dest!: 1(1))
  qed
  then show ?thesis using assms(2) by blast
qed

lemma pbuf_cat_spares [ensures]: "spares t m0 m \<Longrightarrow> ensures (spares t m0) (pbuf_cat p q m)"
  by (auto simp: pbuf_cat_def Let_def ensures_def bind_eq_Some_conv split: option.splits dest!: pbuf_cat_loop_spares [where t = t and ?m0.0 = m0])

lemma pbuf_chain_spares [ensures]: "spares t m0 m \<Longrightarrow> ensures (spares t m0) (pbuf_chain p q m)"
  unfolding pbuf_chain_def by (rule ensures_bind [OF pbuf_cat_spares]) auto

lemma pbuf_copy_loop_spares:
  assumes "pbuf_copy_loop p q i j m = Some y" "spares t m0 m"
  shows "spares t m0 (snd y)"
proof -
  have "spares t m0 m \<longrightarrow> spares t m0 (snd y)"
  proof (rule pbuf_copy_loop.raw_induct [OF _ assms(1), where P = "\<lambda>p q i j m y. spares t m0 m \<longrightarrow> spares t m0 (snd y)"], goal_cases)
    case (1 rec p q i j m y)
    from 1(2) show ?case by (auto simp: Let_def split: option.splits if_splits dest!: 1(1))
  qed
  then show ?thesis using assms(2) by blast
qed

lemma pbuf_copy_spares [ensures]: "spares t m0 m \<Longrightarrow> ensures (\<lambda>(e, m). spares t m0 m) (pbuf_copy p q m)"
  by (auto simp: pbuf_copy_def ensures_def split: option.splits if_splits dest!: pbuf_copy_loop_spares [where t = t and ?m0.0 = m0])

lemma frag_free_spares: "t \<notin> packet_pools \<Longrightarrow> cf_spares t (ipfrag_free_pbuf_custom n)"
proof (induction n)
  case 0
  then show ?case by (simp add: cf_spares_def)
next
  case (Suc n)
  show ?case
    unfolding cf_spares_def
  proof (intro allI impI)
    fix m0 p m assume m: "spares t m0 m"
    have "ensures (spares t m0) (case p_original m p of None \<Rightarrow> Some m
        | Some q \<Rightarrow> do { (k, m) \<leftarrow> pbuf_free (ipfrag_free_pbuf_custom n) (Some q) m; Some m })"
      using m by (auto split: option.split intro!: ensures_bind [OF pbuf_free_spares [OF Suc.prems Suc.IH [OF Suc.prems] m]])
    then show "ensures (spares t m0) (ipfrag_free_pbuf_custom (Suc n) p m)"
      using not_packet_pool [OF Suc.prems] unfolding ipfrag_free_pbuf_custom.simps
      by (auto intro!: ensures_bind simp: spares_pools split: prod.split region.split)
  qed
qed

section \<open>The way down\<close>

text \<open>
  A property \<open>P\<close> of the state that depends on the packet memory only through \<open>Q\<close>, which the operations on packet
  buffers keep.
\<close>

locale net_frame =
  fixes P :: "'d net \<Rightarrow> bool"
    and Q :: "pstate \<Rightarrow> bool"
    and l :: "'d link_if"
  assumes mem_of: "P s \<Longrightarrow> Q (n_mem s)"
    and with_mem: "P s \<Longrightarrow> Q m \<Longrightarrow> P (s\<lparr>n_mem := m\<rparr>)"
    and same_pools: "Q m \<Longrightarrow> p_pools m' = p_pools m \<Longrightarrow> Q m'"
    and alloc_keeps: "Q m \<Longrightarrow> ensures (\<lambda>(p, m). Q m) (pbuf_alloc (custom_free l) ly n ty m)"
    and free_keeps: "Q m \<Longrightarrow> ensures (\<lambda>(k, m). Q m) (pbuf_free (custom_free l) o1 m)"
    and copy_keeps: "Q m \<Longrightarrow> ensures (\<lambda>(e, m). Q m) (pbuf_copy o1 o2 m)"
begin

lemma free_keeps': "pbuf_free (custom_free l) o1 m = Some (k, m') \<Longrightarrow> Q m \<Longrightarrow> Q m'"
  using ensuresD [OF free_keeps] by fastforce

lemma upd_keeps [simp]: "Q m \<Longrightarrow> Q (upd_pbuf x f m)" "Q m \<Longrightarrow> Q (pbuf_ref o1 m)" "Q m \<Longrightarrow> Q (m\<lparr>p_original := g\<rparr>)"
  "Q m \<Longrightarrow> Q (mem_copy a b n m)" "Q m \<Longrightarrow> Q (mem_write a bs m)" "Q m \<Longrightarrow> Q (put z fl bs m)"
  by (auto intro: same_pools [of m] simp: pbuf_ref_def mem_copy_def mem_write_def put_def split: option.split)

lemma put_keeps [simp]: "Q m \<Longrightarrow> Q (put8 h k w m)" "Q m \<Longrightarrow> Q (put16 h k w2 m)" "Q m \<Longrightarrow> Q (put32 h k w4 m)"
  by (simp_all add: put8_def put16_def put32_def)

lemma header_keeps: "pbuf_header o1 n m = (f, m') \<Longrightarrow> Q m \<Longrightarrow> Q m'"
  by (auto simp: pbuf_header_def Let_def split: option.splits if_splits)

lemma freed_keeps: "P s \<Longrightarrow> ensures P (free_mem l o1 s)"
  using with_mem mem_of free_keeps' unfolding free_mem_def ensures_def by (fastforce simp: bind_eq_Some_conv)

end

text \<open>When \<open>P\<close> does not depend on the ARP table either, and the driver keeps it, it holds across the operations of ARP.\<close>

locale arp_frame = net_frame +
  assumes with_arp: "P (s\<lparr>n_arp := es\<rparr>) = P s" "P (s\<lparr>n_cached := k\<rparr>) = P s"
    and link_keeps: "P s \<Longrightarrow> ensures (\<lambda>(e, s). P s) (send_link l p s)"
begin

lemma upd_entry_keeps [simp]: "P (upd_entry i f s) = P s"
  by (simp add: upd_entry_def with_arp)

lemma send_ip_keeps: "P s \<Longrightarrow> ensures (\<lambda>(e, s). P s) (etharp_send_ip l p src dst s)"
  unfolding etharp_send_ip_def Let_def by (intro link_keeps with_mem) (simp_all add: mem_of)

lemma request_keeps: "P s \<Longrightarrow> ensures (\<lambda>(e, s). P s) (etharp_request l netif a s)"
proof -
  assume s: "P s"
  have send: "ensures (\<lambda>(e, s). P s) (do { (e, s) \<leftarrow> send_link l p s; s \<leftarrow> free_mem l o1 s; Some (e, s) })" if "P s" for p o1 s
    by (rule ensures_bind [OF link_keeps [OF that]]) (auto intro: ensures_bind [OF freed_keeps])
  show ?thesis
    unfolding etharp_request_def etharp_raw_def Let_def
    by (rule ensures_bind [OF alloc_keeps [OF mem_of [OF s]]]) (auto intro!: send with_mem [OF s] split: option.split)
qed

lemma free_entry_keeps: "P s \<Longrightarrow> ensures P (etharp_free_entry l i s)"
  unfolding etharp_free_entry_def
  by (rule ensures_bind [where Q = P]) (auto intro: ensures_bind [OF freed_keeps] split: option.split)

lemma find_entry_keeps: "P s \<Longrightarrow> ensures (\<lambda>(r, s). P s) (etharp_find_entry l a fl s)"
  unfolding etharp_find_entry_def Let_def
  by (auto intro!: ensures_bind [where Q = "\<lambda>(r, s). P s"] ensures_bind [OF free_entry_keeps] split: sum.split option.split)

lemma take_keeps: "P s \<Longrightarrow> ensures (\<lambda>(r, s). P s) (query_take l q s)"
proof -
  assume s: "P s"
  have t: "ensures (\<lambda>_. True) r" for r :: "ptr option option" by (simp add: ensures_def)
  have copy: "ensures (\<lambda>(r, s). P s) (do { (e, m) \<leftarrow> pbuf_copy o1 o2 m;
      if e \<noteq> ERR_OK then do { s \<leftarrow> free_mem l o3 (s\<lparr>n_mem := m\<rparr>); Some (None, s) } else Some (o4, s\<lparr>n_mem := m\<rparr>) })" if "Q m" for o1 o2 o3 o4 m
    by (rule ensures_bind [OF copy_keeps [OF that]]) (auto intro!: ensures_bind [OF freed_keeps] with_mem [OF s])
  have "ensures (\<lambda>(r, s). P s) (do { (p, m) \<leftarrow> pbuf_alloc (custom_free l) ly n ty (n_mem s);
      case p of None \<Rightarrow> Some (None, s\<lparr>n_mem := m\<rparr>)
      | Some p \<Rightarrow> do { (e, m) \<leftarrow> pbuf_copy (Some p) (Some q) m;
          if e \<noteq> ERR_OK then do { s \<leftarrow> free_mem l (Some p) (s\<lparr>n_mem := m\<rparr>); Some (None, s) } else Some (Some p, s\<lparr>n_mem := m\<rparr>) } })" for ly n ty
    by (rule ensures_bind [OF alloc_keeps [OF mem_of [OF s]]]) (auto intro: copy with_mem [OF s] split: option.split)
  then show ?thesis
    unfolding query_take_def by (intro ensures_bind [OF t]) (auto intro: with_mem [OF s upd_keeps(2) [OF mem_of [OF s]]] split: option.split)
qed

lemma query_keeps: "P s \<Longrightarrow> ensures (\<lambda>(e, s). P s) (etharp_query l netif a q s)"
proof -
  assume s: "P s"
  have req: "ensures (\<lambda>(r, s). P s) (if b then etharp_request l netif a s else Some (ERR_MEM, s))" if "P s" for b s
    using request_keeps [OF that] that by simp
  have put: "ensures (\<lambda>(e, s). P s) (do { (p, s) \<leftarrow> query_take l q s;
      case p of None \<Rightarrow> Some (ERR_MEM, s)
      | Some p \<Rightarrow> do { s \<leftarrow> (case ae_q (entry s i) of None \<Rightarrow> Some s | Some old \<Rightarrow> free_mem l (Some old) s);
                       Some (ERR_OK, upd_entry i (\<lambda>e. e\<lparr>ae_q := Some p\<rparr>) s) } })" if "P s" for q i s
    by (rule ensures_bind [OF take_keeps [OF that]]) (auto intro!: ensures_bind [OF freed_keeps] split: option.split)
  have fin: "ensures (\<lambda>(e, s). P s) (case q of None \<Rightarrow> Some (r, s)
      | Some q \<Rightarrow>
          if ae_state (entry s i) \<ge> ETHARP_STATE_STABLE then etharp_send_ip l q (nif_hwaddr netif) (ae_ethaddr (entry s i)) (s\<lparr>n_cached := i\<rparr>)
          else if ae_state (entry s i) = ETHARP_STATE_PENDING
          then do { (p, s) \<leftarrow> query_take l q s;
              case p of None \<Rightarrow> Some (ERR_MEM, s)
              | Some p \<Rightarrow> do { s \<leftarrow> (case ae_q (entry s i) of None \<Rightarrow> Some s | Some old \<Rightarrow> free_mem l (Some old) s);
                               Some (ERR_OK, upd_entry i (\<lambda>e. e\<lparr>ae_q := Some p\<rparr>) s) } }
          else Some (r, s))" if "P s" for i s r
    using that by (auto intro!: send_ip_keeps put simp: with_arp split: option.split)
  have go: "ensures (\<lambda>(e, s). P s) (do { (r, s) \<leftarrow> (if b then etharp_request l netif a s else Some (ERR_MEM, s)); f r s })"
    if "P s" "\<And>r s. P s \<Longrightarrow> ensures (\<lambda>(e, s). P s) (f r s)" for b s f
    by (rule ensures_bind [OF req [OF that(1)]]) (auto intro: that(2))
  have step: "ensures (\<lambda>(e, s). P s) (case r of Inl e \<Rightarrow> Some (e, s)
      | Inr i \<Rightarrow> do {
          (result, s) \<leftarrow> (if ae_state (entry (g i s) i) = ETHARP_STATE_PENDING \<or> q = None then etharp_request l netif a (g i s) else Some (ERR_MEM, g i s));
          f i result s })"
    if "P s" "\<And>i. P (g i s) = P s" "\<And>i r s. P s \<Longrightarrow> ensures (\<lambda>(e, s). P s) (f i r s)" for r s f g
  proof (cases r)
    case (Inr i)
    show ?thesis unfolding Inr sum.case by (rule go) (use that in auto)
  qed (use that in simp)
  show ?thesis
    unfolding etharp_query_def Let_def
  proof (intro ensures_if ensures_bind [OF find_entry_keeps [OF s]], goal_cases)
    case (2 x)
    then show ?case unfolding case_prod_beta [of _ x] by (intro step) (auto intro: fin simp: case_prod_beta)
  qed (simp add: s)
qed

lemma to_index_keeps: "P s \<Longrightarrow> ensures (\<lambda>(e, s). P s) (etharp_output_to_arp_index l netif q k s)"
proof -
  assume s: "P s"
  have "ensures P (do { (e, s) \<leftarrow> etharp_request l netif a s; Some (if e = ERR_OK then upd_entry k f s else s) })" for a f
    by (rule ensures_bind [OF request_keeps [OF s]]) auto
  then have "ensures P (if b then do { (e, s) \<leftarrow> etharp_request l netif a s; Some (if e = ERR_OK then upd_entry k f s else s) } else Some s)" for b a f
    using s by simp
  then show ?thesis unfolding etharp_output_to_arp_index_def by (rule ensures_bind) (rule send_ip_keeps)
qed

lemma output_keeps: "P s \<Longrightarrow> ensures (\<lambda>(e, s). P s) (etharp_output l netif q a s)"
proof -
  assume s: "P s"
  obtain f m where h: "pbuf_header (Some q) SIZEOF_ETH_HDR (n_mem s) = (f, m)" by fastforce
  have "P (s\<lparr>n_mem := m\<rparr>)" by (rule with_mem [OF s header_keeps [OF h mem_of [OF s]]])
  then show ?thesis
    unfolding etharp_output_def Let_def h
    by (auto intro!: send_ip_keeps to_index_keeps query_keeps simp: with_arp split: bool.split option.split)
qed

end

text \<open>When \<open>P\<close> holds across \<open>etharp_output\<close>, it holds across \<open>ip_output_if\<close>, fragmentation included.\<close>

locale send_frame = net_frame P Q l for P :: "('x, 'm) ip_net \<Rightarrow> bool" and Q and l +
  assumes with_ident: "P s \<Longrightarrow> P (upd_ip (\<lambda>v. v\<lparr>ip_id := k v\<rparr>) s)"
    and output_keeps: "P s \<Longrightarrow> ensures (\<lambda>(e, s). P s) (etharp_output l netif p a s)"
    and frag_taken: "Q m \<Longrightarrow> memp_malloc MEMP_FRAG_PBUF (p_pools m) = (r, ps) \<Longrightarrow> Q (m\<lparr>p_pools := ps\<rparr>)"
    and frag_given: "Q m \<Longrightarrow> Q (m\<lparr>p_pools := memp_free MEMP_FRAG_PBUF i (p_pools m)\<rparr>)"
    and cat_keeps: "Q m \<Longrightarrow> ensures Q (pbuf_cat o1 o2 m)"
begin

lemma set_mem_keeps: "P s \<Longrightarrow> Q m \<Longrightarrow> P (set_mem m s)"
  unfolding set_mem_def by (rule with_mem)

lemma cat_keeps': "pbuf_cat o1 o2 m = Some m' \<Longrightarrow> Q m \<Longrightarrow> Q m'"
  using ensuresD [OF cat_keeps] .

lemma alloced_keeps: "pbuf_alloced_custom ly n ty x y k m = (r, m') \<Longrightarrow> Q m \<Longrightarrow> Q m'"
  by (auto simp: pbuf_alloced_custom_def Let_def split: if_splits)

lemma frag_copy_loop_keeps:
  assumes "frag_copy_loop (custom_free l) rb k p n m = Some (ok, q, n', m')" "Q m"
  shows "Q m'"
proof -
  have "custom_free l = custom_free l \<longrightarrow> Q m \<longrightarrow> Q (snd (snd (snd (ok, q, n', m'))))"
  proof (rule frag_copy_loop.raw_induct [OF _ assms(1), where P = "\<lambda>cf rb k p n m y. cf = custom_free l \<longrightarrow> Q m \<longrightarrow> Q (snd (snd (snd y)))"], goal_cases)
    case (1 rec cf rb k p n m y)
    show ?case
    proof (intro impI)
      assume cf: "cf = custom_free l" and m: "Q m"
      have IH: "Q (snd (snd (snd y)))" if "rec cf rb k p n m = Some y" "Q m" for rb k p n m y
        using 1(1) [OF that(1)] cf that(2) by blast
      obtain r ps where ps: "memp_malloc MEMP_FRAG_PBUF (p_pools m) = (r, ps)" by fastforce
      note q0 = frag_taken [OF m ps]
      show "Q (snd (snd (snd y)))"
      proof (cases "k = 0 \<or> p = None")
        case True
        then show ?thesis using 1(2) m by (auto split: if_splits)
      next
        case False
        then obtain x where x: "p = Some x" "k \<noteq> 0" by auto
        show ?thesis
        proof (cases "(if k < pb_len (p_pbufs m x) then k else pb_len (p_pbufs m x)) = 0")
          case True
          then show ?thesis using 1(2) m x by (auto simp: Let_def split: if_splits intro: IH)
        next
          case nz: False
          show ?thesis
          proof (cases r)
            case None
            then show ?thesis using 1(2) x nz ps q0 unfolding cf Let_def
              by (auto simp: bind_eq_Some_conv dest: free_keeps' split: if_splits)
          next
            case (Some i)
            obtain o1 m1 where al: "pbuf_alloced_custom PBUF_RAW (if k < pb_len (p_pbufs m x) then k else pb_len (p_pbufs m x)) PBUF_REF (RFrag i, 0)
                (pb_payload (p_pbufs m x)) (if k < pb_len (p_pbufs m x) then k else pb_len (p_pbufs m x)) (m\<lparr>p_pools := ps\<rparr>) = (o1, m1)" by fastforce
            have m1: "Q m1" by (rule alloced_keeps [OF al q0])
            show ?thesis
            proof (cases o1)
              case None
              then show ?thesis using 1(2) x nz ps Some al frag_given [OF m1] unfolding cf Let_def
                by (auto simp: bind_eq_Some_conv dest: free_keeps' split: if_splits)
            next
              case (Some nb)
              then show ?thesis using 1(2) x nz ps \<open>r = Some i\<close> al m1 unfolding Let_def cf [symmetric]
                by (auto simp: bind_eq_Some_conv split: if_splits dest!: cat_keeps' dest: IH)
            qed
          qed
        qed
      qed
    qed
  qed
  then show ?thesis using assms(2) by simp
qed

lemma frag_loop_keeps:
  assumes "frag_loop l netif dest h omf nfb p left poff ofo s = Some y" "P s"
  shows "P (snd y)"
proof -
  have "l = l \<longrightarrow> P s \<longrightarrow> P (snd y)"
  proof (rule frag_loop.raw_induct [OF _ assms(1), where P = "\<lambda>l' netif dest h omf nfb p left poff ofo s y. l' = l \<longrightarrow> P s \<longrightarrow> P (snd y)"], goal_cases)
    case (1 rec l' netif dest h omf nfb p left poff ofo s y)
    show ?case
    proof (intro impI)
      assume l: "l' = l" and s: "P s"
      have IH: "P (snd y)" if "rec l netif dest h omf nfb p left poff ofo s = Some y" "P s" for netif dest h omf nfb p left poff ofo s y
        using 1(1) [OF that(1)] l that(2) by blast
      have q: "Q (n_mem s)" by (rule mem_of [OF s])
      show "P (snd y)"
      proof (cases "left = 0")
        case True
        then show ?thesis using 1(2) s by auto
      next
        case False
        define cop where "cop = (if left \<le> nif_mtu netif - IP_HLEN then left else c_u16 (nfb * 8))"
        obtain r m where al: "pbuf_alloc (custom_free l) PBUF_LINK IP_HLEN PBUF_RAM (n_mem s) = Some (r, m)"
          using 1(2) False unfolding l Let_def by (auto simp: bind_eq_Some_conv split: if_splits)
        have m: "Q m" using ensuresD [OF alloc_keeps [OF q] al] by simp
        show ?thesis
        proof (cases r)
          case None
          then show ?thesis using 1(2) False al set_mem_keeps [OF s m] unfolding l Let_def by auto
        next
          case (Some rb)
          define tmp where "tmp = (if \<not> left \<le> nif_mtu netif - IP_HLEN then (omf OR IP_OFFMASK AND ofo) OR IP_MF else omf OR IP_OFFMASK AND ofo)"
          from 1(2) [unfolded l Let_def, folded tmp_def cop_def] False al Some obtain x ok p' n' m2 where
            fc: "frag_copy_loop (custom_free l) rb cop p 0 (upd_pbuf x (\<lambda>x. x\<lparr>pb_payload := ptr_add (pb_payload x) poff,
               pb_len := c_u16 (pb_len x - poff)\<rparr>) (mem_copy (pb_payload (p_pbufs m rb)) h IP_HLEN m)) = Some (ok, p', n', m2)"
            and rest: "(if \<not> ok then Some (ERR_MEM, set_mem m2 s) else do {
               (e, s) \<leftarrow> etharp_output l netif rb dest (set_mem (IPH_set_frag (pb_payload (p_pbufs m rb)) tmp (cop + IP_HLEN) m2) s);
               s \<leftarrow> free_mem l (Some rb) s;
               rec l netif dest h omf nfb p' (c_u16 (left - cop)) n' (ofo + word_of_int nfb) s }) = Some y"
            by (auto simp: bind_eq_Some_conv)
          have m2: "Q m2" by (rule frag_copy_loop_keeps [OF fc]) (simp add: m)
          show ?thesis
          proof (cases ok)
            case False
            then show ?thesis using rest set_mem_keeps [OF s m2] by auto
          next
            case True
            then obtain e s2 s3 where r: "etharp_output l netif rb dest (set_mem (IPH_set_frag (pb_payload (p_pbufs m rb)) tmp (cop + IP_HLEN) m2) s) = Some (e, s2)"
              "free_mem l (Some rb) s2 = Some s3" "rec l netif dest h omf nfb p' (c_u16 (left - cop)) n' (ofo + word_of_int nfb) s3 = Some y"
              using rest by (auto simp: bind_eq_Some_conv)
            have "P (set_mem (IPH_set_frag (pb_payload (p_pbufs m rb)) tmp (cop + IP_HLEN) m2) s)"
              by (rule set_mem_keeps [OF s]) (simp add: IPH_set_frag_def Let_def m2)
            then have "P s2" using ensuresD [OF output_keeps r(1)] by simp
            then have "P s3" using ensuresD [OF freed_keeps r(2)] by blast
            then show ?thesis using IH [OF r(3)] by blast
          qed
        qed
      qed
    qed
  qed
  then show ?thesis using assms(2) by simp
qed

lemma ip_output_if_keeps:
  assumes "P s"
  shows "ensures (\<lambda>(e, s). P s) (ip_output_if l p src dest ttl tos proto netif s)"
proof -
  have frag: "ensures (\<lambda>(e, s). P s) (ip_frag l p netif d s)" if "P s" for d s
    by (rule ensuresI) (use frag_loop_keeps [OF _ that] in \<open>auto simp: ip_frag_def Let_def case_prod_beta\<close>)
  have send: "ensures (\<lambda>(e, s). P s) (if b s then ip_frag l p netif d s else etharp_output l netif p d s)" if "P s" for d s b
    using frag output_keeps that by simp
  show ?thesis
  proof (cases dest)
    case None
    show ?thesis unfolding ip_output_if_def Let_def None option.case by (rule send [OF assms])
  next
    case (Some d)
    obtain f m where h: "pbuf_header (Some p) IP_HLEN (n_mem s) = (f, m)" by fastforce
    then have m: "Q m" using header_keeps mem_of [OF assms] by blast
    show ?thesis
    proof (cases f)
      case True
      then show ?thesis using set_mem_keeps [OF assms m] unfolding ip_output_if_def Let_def Some option.case h by simp
    next
      case False
      have "Q (ip_make_header x src d ttl tos proto n k netif m)" for x n k
        using m by (simp add: ip_make_header_def Let_def)
      then show ?thesis using False unfolding ip_output_if_def Let_def Some option.case h
        by (simp only: prod.case bool.case) (intro send with_ident set_mem_keeps [OF assms])
    qed
  qed
qed

lemma header_room_keeps:
  assumes "header_room (custom_free l) p n n' m = Some (b, q, m')" "Q m"
  shows "Q m'"
proof -
  obtain f m1 where h: "pbuf_header (Some p) n m = (f, m1)" by fastforce
  then have m1: "Q m1" using header_keeps assms(2) by blast
  have a: "Q m3" if "pbuf_alloc (custom_free l) ly k ty m1 = Some (r, m2)" "pbuf_chain o1 o2 m2 = Some m3" for ly k ty r m2 o1 o2 m3
    using ensuresD [OF alloc_keeps [OF m1] that(1)] that(2) by (auto simp: pbuf_chain_def bind_eq_Some_conv dest: cat_keeps')
  have b: "Q m2" if "pbuf_alloc (custom_free l) ly k ty m1 = Some (r, m2)" for ly k ty r m2
    using ensuresD [OF alloc_keeps [OF m1] that] by simp
  show ?thesis using assms(1) h m1
    by (auto simp: header_room_def bind_eq_Some_conv split: bool.splits option.splits if_splits dest: a b)
qed

lemma free_header_keeps: "P s \<Longrightarrow> ensures P (free_header l q p s)"
  by (simp add: free_header_def freed_keeps)

end

end
