(* ===== verification/ArpReach.thy ===== *)
theory ArpReach
  imports PacketFrame DhcpDemo
begin

text \<open>
  The ARP table in every state that the program reaches, with the DHCP client as the one that \<open>etharp_arp_input\<close> calls.
\<close>

declare split_paired_All [simp del] split_paired_Ex [simp del]

section \<open>The DHCP client keeps the table\<close>

lemma arp_inv_dev [simp]: "arp_inv (s\<lparr>n_dev := d\<rparr>) = arp_inv s"
  by (simp add: arp_inv_def)

lemma arp_inv_upd [simp]:
  "arp_inv (set_mem m s) = arp_inv s" "arp_inv (upd_ip f1 s1) = arp_inv s1" "arp_inv (upd_udp f2 s2) = arp_inv s2"
  "arp_inv (upd_upcb i f3 s2) = arp_inv s2" "arp_inv (upd_lwip f4 s3) = arp_inv s3" "arp_inv (upd_dhcp k f5 s3) = arp_inv s3"
  by (simp_all add: set_mem_def upd_ip_def upd_udp_def upd_upcb_def upd_lwip_def upd_dhcp_def)

interpretation arp_send: send_frame arp_inv "\<lambda>_. True" l for l :: "('x, 'm) ip_link"
  by unfold_locales (auto simp: ensures_def intro: etharp_output_inv)

lemma udp_new_port_inv:
  assumes "udp_new_port s = Some (p, s')" "arp_inv s"
  shows "arp_inv s'"
proof -
  have "arp_inv s \<longrightarrow> arp_inv (snd (p, s'))"
  proof (rule udp_new_port_loop.raw_induct [OF _ assms(1) [unfolded udp_new_port_def], where P = "\<lambda>n s y. arp_inv s \<longrightarrow> arp_inv (snd y)"], goal_cases)
    case (1 rec n s y)
    from 1(2) show ?case by (auto simp: Let_def bind_eq_Some_conv split: if_splits dest!: 1(1))
  qed
  then show ?thesis using assms(2) by simp
qed

lemma udp_bind_inv: "arp_inv s \<Longrightarrow> ensures (\<lambda>(e, s). arp_inv s) (udp_bind i a port s)"
proof -
  assume s: "arp_inv s"
  have p: "ensures (\<lambda>(p, s). arp_inv s) (if port = 0 then udp_new_port s else Some (port, s))" if "arp_inv s" for port and s :: "('a, 'b) udp_net"
    using udp_new_port_inv that by (auto simp: ensures_def)
  have q: "ensures (\<lambda>(e, s). arp_inv s) (do { (np, s) \<leftarrow> (if port = 0 then udp_new_port s else Some (port, s));
      if np = 0 then Some (ERR_USE, s) else Some (ERR_OK, f np s) })" if "arp_inv s" "\<And>np s. arp_inv (f np s) = arp_inv s"
    for f and port and s :: "('a, 'b) udp_net"
    by (rule ensures_bind [OF p [OF that(1)]]) (auto simp: that(2))
  have r: "ensures (\<lambda>_. True) r" for r :: "bool option option" by (simp add: ensures_def)
  show ?thesis
    unfolding udp_bind_def Let_def
  proof (rule ensures_bind [OF r])
    fix r
    show "ensures (\<lambda>(e, s). arp_inv s) (case r of None \<Rightarrow> Some (ERR_USE, s)
      | Some rebind \<Rightarrow> do {
          (new_port, s) \<leftarrow> (if port = 0 then udp_new_port (upd_upcb i (\<lambda>b. b\<lparr>u_local_ip := a\<rparr>) s)
                            else Some (port, upd_upcb i (\<lambda>b. b\<lparr>u_local_ip := a\<rparr>) s));
          if new_port = 0 then Some (ERR_USE, s)
          else Some (ERR_OK, if \<not> rebind then udp_insert i (upd_upcb i (\<lambda>b. b\<lparr>u_local_port := new_port\<rparr>) s)
            else upd_upcb i (\<lambda>b. b\<lparr>u_local_port := new_port\<rparr>) s) })"
    proof (cases r)
      case (Some rebind)
      show ?thesis unfolding Some option.case by (rule q) (simp_all add: s udp_insert_def)
    qed (simp add: s)
  qed
qed

lemma udp_sendto_if_inv:
  assumes "arp_inv s"
  shows "ensures (\<lambda>(e, s). arp_inv s) (udp_sendto_if l i p a port n s)"
proof -
  have b: "ensures (\<lambda>(e, s). arp_inv s) (if u_local_port (upcb s i) = 0 then udp_bind i x y s else Some (ERR_OK, s))" for x y
    using udp_bind_inv [OF assms] assms by simp
  have f: "ensures (\<lambda>(e, s). arp_inv s) (do { s \<leftarrow> free_header l q p s; Some (e, s) })" if "arp_inv s" for q s e
    by (rule ensures_bind [OF arp_send.free_header_keeps [OF that]]) simp
  have o: "ensures (\<lambda>(e, s). arp_inv s) (do { (e, s) \<leftarrow> ip_output_if l q src d ttl tos pr n s; s \<leftarrow> free_header l q p s; Some (e, s) })"
    if "arp_inv s" for q src d ttl tos pr s
    by (rule ensures_bind [OF arp_send.ip_output_if_keeps [OF that]]) (auto intro: f)
  have r: "ensures (\<lambda>_. True) r" for r :: "(bool \<times> ptr option \<times> pstate) option" by (simp add: ensures_def)
  show ?thesis
    unfolding udp_sendto_if_def Let_def
    by (rule ensures_bind [OF b]) (auto intro!: ensures_bind [OF r] f o split: option.split)
qed

lemma dhcp_request_inv:
  assumes "arp_inv s"
  shows "ensures (\<lambda>(e, s). arp_inv s) (dhcp_request l k ty opts dst ms s)"
proof -
  have del: "ensures (\<lambda>(d, s). arp_inv s) (dhcp_delete_msg l d s)" if "arp_inv s" for d s
    unfolding dhcp_delete_msg_def using that by (auto intro!: ensures_bind [OF free_mem_inv] split: option.split)
  have r: "ensures (\<lambda>_. True) (r1 :: ptr option)" "ensures (\<lambda>_. True) (r2 :: pstate option)" "ensures (\<lambda>_. True) (r3 :: nat option)"
    "ensures (\<lambda>_. True) (r4 :: (ptr option \<times> pstate) option)" "ensures (\<lambda>_. True) (r5 :: netif option)" "ensures (\<lambda>_. True) (r6 :: dhcp option)"
    for r1 r2 r3 r4 r5 r6
    by (simp_all add: ensures_def)
  have send: "ensures (\<lambda>(d, s). arp_inv s) (dhcp_send l n pcb a d s)" if "arp_inv s" for n pcb a d s
    unfolding dhcp_send_def
    by (rule ensures_bind [OF r(1)], rule ensures_bind [OF r(2)], rule ensures_bind [OF r(3)])
      (auto intro!: ensures_bind [OF udp_sendto_if_inv] del simp: that)
  have create: "ensures (\<lambda>(e, d, s). arp_inv s) (dhcp_create_msg l n ty d s)" if "arp_inv s" for n d s
    unfolding dhcp_create_msg_def Let_def using that by (auto intro!: ensures_bind [OF r(4)] split: option.split prod.split)
  have msg: "ensures (\<lambda>(e, d, s). arp_inv s) (dhcp_message l n ty os a pcb d s)" if "arp_inv s" for n os a pcb d s
    unfolding dhcp_message_def Let_def
    by (rule ensures_bind [OF create [OF that]]) (auto intro!: ensures_bind [OF send] split: prod.split)
  show ?thesis
    unfolding dhcp_request_def by (auto intro!: ensures_bind [OF r(5)] ensures_bind [OF r(6)] ensures_bind [OF msg] simp: assms)
qed

lemma dhcp_reply_ok: "reply_ok (dhcp_link_of l)"
proof -
  have "ensures arp_inv (dhcp_arp_reply_in l k a s)" if "arp_inv s" for k a s
    using that unfolding dhcp_arp_reply_in_def dhcp_decline_def
    by (auto intro!: ensures_bind [OF dhcp_request_inv] split: option.split)
  then show ?thesis by (simp add: reply_ok_def dhcp_link_of_def)
qed

section \<open>Properties\<close>

text \<open>C14: in every state that the operations of the ARP module reach from an empty table, in any order, with the DHCP
  client below \<open>etharp_arp_input\<close> and anything else happening to the memory and the device in between, no two entries
  in use have the same IP address, a packet is queued only on a pending entry, every entry in use is younger than its
  lifetime, and the cached index is within the table.  (An IP packet is handed to \<open>ip_input\<close> at the end of
  \<open>ethernet_input\<close>; what that does to the table are further operations.)\<close>
theorem arp_reach_table:
  assumes "arp_reach (dhcp_link_of l) s"
    and "i < ARP_TABLE_SIZE" and "ae_state (entry s i) \<noteq> ETHARP_STATE_EMPTY"
  shows "(\<forall>j<ARP_TABLE_SIZE. ae_state (entry s j) \<noteq> ETHARP_STATE_EMPTY \<and> ae_ipaddr (entry s j) = ae_ipaddr (entry s i) \<longrightarrow> j = i) \<and>
    (ae_q (entry s i) \<noteq> None \<longrightarrow> ae_state (entry s i) = ETHARP_STATE_PENDING) \<and>
    0 \<le> ae_ctime (entry s i) \<and>
    ae_ctime (entry s i) < (if ae_state (entry s i) = ETHARP_STATE_PENDING then ARP_MAXPENDING else ARP_MAXAGE) \<and>
    n_cached s < ARP_TABLE_SIZE"
proof -
  have inv: "arp_ok (n_arp s)" "n_cached s < ARP_TABLE_SIZE" using arp_reach_inv [OF assms(1) dhcp_reply_ok] by (auto simp: arp_inv_def)
  have u: "used (entry s i)" using assms(3) by (simp add: used_def)
  note o = arp_okD(3) [OF inv(1) assms(2) u] and e = arp_okD(2) [OF inv(1) assms(2)]
  have "\<forall>j<ARP_TABLE_SIZE. ae_state (entry s j) \<noteq> ETHARP_STATE_EMPTY \<and> ae_ipaddr (entry s j) = ae_ipaddr (entry s i) \<longrightarrow> j = i"
    using o by (auto simp: only_for_def used_def)
  with e u inv(2) show ?thesis by (simp add: entry_ok_def lifetime_def)
qed

section \<open>Witness\<close>

text \<open>The request of \<open>demo_receive\<close>, received by the stack of \<open>demo_lwip\<close> with an empty table.\<close>

definition demo_arp_link :: "eth_dev lwip_vars link_if" where
  "demo_arp_link = demo_lwip_link\<lparr>linkoutput := (\<lambda>p m d. Some (ERR_OK, d))\<rparr>"

definition demo_arp :: "eth_dev lwip_vars net" where
  "demo_arp = (demo_lwip (demo_dhcp DHCP_BOUND 0))\<lparr>n_mem := n_mem demo_receive\<rparr>"

theorem arp_reach_table_witness:
  "\<exists>s k. arp_reach (dhcp_link_of demo_arp_link) s \<and> k < ARP_TABLE_SIZE \<and> ae_state (entry s k) = ETHARP_STATE_STABLE \<and>
     ae_ipaddr (entry s k) = u32_le 10 0 0 3 \<and> ae_q (entry s k) = None"
proof -
  have sel: "n_mem demo_arp = n_mem demo_receive" "n_arp demo_arp = replicate 10 blank_entry" "n_cached demo_arp = 0"
    by (simp_all add: demo_arp_def)
  have "\<exists>s' m e d k. ethernet_input (dhcp_link_of demo_arp_link) (RPool 2, 0) demo_netif demo_arp = Some (ERR_OK, s') \<and>
    linkoutput (dhcp_link_of demo_arp_link) (RPool 2, 0) m (n_dev demo_arp) = Some (e, d) \<and> n_dev s' = d \<and>
    packet m (Some (RPool 2, 0)) [(RPool 2, 0)] \<and> data m [(RPool 2, 0)] = [2, 0, 0, 0, 0, 3] @ nif_hwaddr demo_netif @ [0x08, 0x06] @
      [0x00, 0x01, 0x08, 0x00, 6, 4, 0x00, 0x02] @ nif_hwaddr demo_netif @ u32_bytes (nif_ip_addr demo_netif) @ [2, 0, 0, 0, 0, 3] @
      u32_bytes (u32_le 10 0 0 3) @ drop 42 (data (n_mem demo_arp) [(RPool 2, 0)]) \<and>
    k < ARP_TABLE_SIZE \<and> learned demo_netif (u32_le 10 0 0 3) [2, 0, 0, 0, 0, 3] (entry s' k)"
  proof (rule ethernet_input_answers [where Q = "\<lambda>_. []" and h = "(RPool 2, 16)"])
    show "nif_ip_addr demo_netif \<noteq> IPADDR_ANY" by (simp add: demo_netif_def u32_le_def IPADDR_ANY_def)
    show "queues demo_arp (\<lambda>_. [])" by (auto simp: queues_def sel ARP_TABLE_SIZE_def blank_entry_def)
  qed (use demo_receive_ok demo_empty_table in \<open>auto simp: sel demo_receive_def demo_pb_def demo_arp_link_def dhcp_link_of_def demo_netif_def
      NETIF_FLAG_ETHARP_def ARP_TABLE_SIZE_def blank_entry_def\<close>)
  then obtain s' k where s': "ethernet_input (dhcp_link_of demo_arp_link) (RPool 2, 0) demo_netif demo_arp = Some (ERR_OK, s')"
    "k < ARP_TABLE_SIZE" "learned demo_netif (u32_le 10 0 0 3) [2, 0, 0, 0, 0, 3] (entry s' k)" by blast
  have e: "arp_empty demo_arp" by (auto simp: arp_empty_def sel ARP_TABLE_SIZE_def blank_entry_def)
  have "field16 (RPool 2, 16) ETH_TYPE (n_mem demo_receive) = lwip_htons ETHTYPE_ARP"
    using arp_request_fields(1) [OF demo_receive_ok(5)] .
  then have "\<not> ip_frame (RPool 2, 0) demo_arp"
    by (simp add: ip_frame_def sel) (simp add: demo_receive_def demo_pb_def lwip_htons_def ETHTYPE_ARP_def ETHTYPE_IP_def)
  then have r: "arp_reach (dhcp_link_of demo_arp_link) s'" by (rule arp_reach.step [OF arp_reach.init [OF e] arp_step.input [OF _ s'(1)]])
  have st: "ae_state (entry s' k) = ETHARP_STATE_STABLE" using s'(3) by (simp add: learned_def)
  then have "ae_state (entry s' k) \<noteq> ETHARP_STATE_EMPTY" by simp
  note t = arp_reach_table [OF r s'(2) this]
  have "ae_q (entry s' k) \<noteq> None \<longrightarrow> ae_state (entry s' k) = ETHARP_STATE_PENDING" using t by blast
  then have "ae_q (entry s' k) = None" using st by (cases "ae_q (entry s' k)") simp_all
  with r s'(2,3) st show ?thesis by (intro exI [of _ s'] exI [of _ k]) (simp add: learned_def)
qed

end
