(* ===== verification/UdpReach.thy ===== *)
theory UdpReach
  imports IpProps PacketFrame
begin

text \<open>
  The control blocks of UDP in every state that a program reaches: with the calls of the API in any order, sends and
  the search of \<open>udp_input\<close> included, and anything else that the rest of the program does in between.
\<close>

declare split_paired_All [simp del] split_paired_Ex [simp del]

section \<open>What sending leaves alone\<close>

text \<open>The list of the control blocks, their local ends and the free elements of their pool are in \<open>s'\<close> as in \<open>s\<close>.\<close>

definition same_udp :: "('x, 'm) udp_net \<Rightarrow> ('x, 'm) udp_net \<Rightarrow> bool" where
  "same_udp s s' \<longleftrightarrow> (\<forall>i. u_nxt s' i = u_nxt s i \<and> u_local_port (upcb s' i) = u_local_port (upcb s i) \<and>
       u_local_ip (upcb s' i) = u_local_ip (upcb s i)) \<and>
     u_head s' = u_head s \<and> udp_port (n_dev s') = udp_port (n_dev s) \<and> spares MEMP_UDP_PCB (n_mem s) (n_mem s')"

text \<open>The link of this program: the driver of \<open>ethernetif.c\<close>, and the free function of fragments, to the depth \<open>n\<close>
  of packets that refer to packets.\<close>

definition program_link :: "nat \<Rightarrow> ('a eth_dev_scheme, 'm) udp_link \<Rightarrow> ('a eth_dev_scheme, 'm) udp_link" where
  "program_link n l = l\<lparr>linkoutput := ip_linkoutput, custom_free := ipfrag_free_pbuf_custom n\<rparr>"

lemma program_link_simps [simp]:
  "linkoutput (program_link n l) = ip_linkoutput" "custom_free (program_link n l) = ipfrag_free_pbuf_custom n"
  by (simp_all add: program_link_def)

lemma same_udp_refl [simp]: "same_udp s s"
  by (simp add: same_udp_def)

lemma udp_pool_spared: "MEMP_UDP_PCB \<notin> packet_pools" "cf_spares MEMP_UDP_PCB (ipfrag_free_pbuf_custom n)"
  by (simp_all add: packet_pools_def frag_free_spares)

lemma program_output_same:
  "same_udp s0 s \<Longrightarrow> ensures (\<lambda>(e, s). same_udp s0 s) (send_link (program_link n l) p s)"
  by (auto simp: send_link_def ip_linkoutput_def same_udp_def ensures_def bind_eq_Some_conv split: option.splits)

interpretation udp_arp: arp_frame "same_udp s0" "spares MEMP_UDP_PCB (n_mem s0)" "program_link n l"
  for s0 :: "('a eth_dev_scheme, 'm) udp_net" and n l
proof unfold_locales
  show "ensures (\<lambda>(e, s). same_udp s0 s) (send_link (program_link n l) p s)" if "same_udp s0 s" for p s
    by (rule program_output_same [OF that])
qed (auto simp: same_udp_def udp_pool_spared intro: pbuf_alloc_spares pbuf_free_spares pbuf_copy_spares, simp_all add: spares_def)

interpretation udp_way: send_frame "same_udp s0" "spares MEMP_UDP_PCB (n_mem s0)" "program_link n l"
  for s0 :: "('a eth_dev_scheme, 'm) udp_net" and n l
proof unfold_locales
  show "ensures (\<lambda>(e, s). same_udp s0 s) (etharp_output (program_link n l) netif p a s)" if "same_udp s0 s" for netif p a s
    by (rule udp_arp.output_keeps [OF that])
  show "same_udp s0 (upd_ip (\<lambda>v. v\<lparr>ip_id := k v\<rparr>) s)" if "same_udp s0 s" for k s
    using that by (simp add: same_udp_def upd_ip_def)
  show "spares MEMP_UDP_PCB (n_mem s0) (m\<lparr>p_pools := ps\<rparr>)"
    if "spares MEMP_UDP_PCB (n_mem s0) m" "memp_malloc MEMP_FRAG_PBUF (p_pools m) = (r, ps)" for m r ps
    using that spares_pools(1) [OF _ that(2)] by simp
  show "spares MEMP_UDP_PCB (n_mem s0) (m\<lparr>p_pools := memp_free MEMP_FRAG_PBUF i (p_pools m)\<rparr>)"
    if "spares MEMP_UDP_PCB (n_mem s0) m" for m i
    using that by (simp add: spares_pools)
  show "ensures (spares MEMP_UDP_PCB (n_mem s0)) (pbuf_cat o1 o2 m)" if "spares MEMP_UDP_PCB (n_mem s0) m" for o1 o2 m
    by (rule pbuf_cat_spares [OF that])
qed

lemma udp_ok_same:
  assumes "udp_ok s xs fl" "same_udp s s'"
  shows "udp_ok s' xs fl"
proof -
  have e: "\<And>i. u_nxt s' i = u_nxt s i" "\<And>i. u_local_port (upcb s' i) = u_local_port (upcb s i)"
    "\<And>i. u_local_ip (upcb s' i) = u_local_ip (upcb s i)" "u_head s' = u_head s" "udp_port (n_dev s') = udp_port (n_dev s)"
    using assms(2) by (simp_all add: same_udp_def)
  have nx: "u_nxt s' = u_nxt s" using e(1) by (intro ext)
  have c: "udp_conflict (upcb s' i) = udp_conflict (upcb s i)" for i
    by (simp add: udp_conflict_def fun_eq_iff e)
  have f: "free_list MEMP_UDP_PCB (p_pools (n_mem s')) fl = free_list MEMP_UDP_PCB (p_pools (n_mem s)) fl"
    using assms(2) by (simp add: same_udp_def spares_def free_list_def)
  show ?thesis using assms(1) unfolding udp_ok_def udp_list_def nx c f e(2-) .
qed

text \<open>A send binds a block that is not bound; all the rest leaves the blocks alone.\<close>

lemma udp_sendto_if_same:
  assumes b: "(if u_local_port (upcb s i) = 0
      then udp_bind i (u_local_ip (upcb s i)) (u_local_port (upcb s i)) s else Some (ERR_OK, s)) = Some (e1, s1)"
  shows "ensures (\<lambda>(e, s). same_udp s1 s) (udp_sendto_if (program_link n l) i p a port netif s)"
proof -
  let ?l = "program_link n l"
  have f: "ensures (\<lambda>(e, s). same_udp s1 s) (do { s \<leftarrow> free_header ?l q p s; Some (e, s) })" if "same_udp s1 s" for q s e
    by (rule ensures_bind [OF udp_way.free_header_keeps [OF that]]) simp
  have o: "ensures (\<lambda>(e, s). same_udp s1 s) (do { (e, s) \<leftarrow> ip_output_if ?l q src d ttl tos pr netif s; s \<leftarrow> free_header ?l q p s; Some (e, s) })"
    if "same_udp s1 s" for q src d ttl tos pr s
    by (rule ensures_bind [OF udp_way.ip_output_if_keeps [OF that]]) (auto intro: f)
  have r: "ensures (\<lambda>(b, q, m). spares MEMP_UDP_PCB (n_mem s1) m) (header_room (custom_free ?l) p k k' (n_mem s1))" for k k'
    using udp_way.header_room_keeps [of n l p k k' "n_mem s1" _ _ _ s1] by (fastforce simp: ensures_def)
  show ?thesis
    unfolding udp_sendto_if_def Let_def b
    by (auto intro!: ensures_bind [OF r] f o udp_way.set_mem_keeps simp: udp_make_header_def Let_def simp del: program_link_simps
        split: option.split)
qed

lemma udp_sendto_if_ok:
  assumes ok: "udp_ok s xs fl" and i: "i < memp_num MEMP_UDP_PCB" "i \<notin> set fl"
    and run: "udp_sendto_if (program_link n l) i p a port netif s = Some (e, s')"
  shows "\<exists>xs'. udp_ok s' xs' fl"
proof -
  have "\<exists>e s1 xs1. (if u_local_port (upcb s i) = 0
      then udp_bind i (u_local_ip (upcb s i)) (u_local_port (upcb s i)) s else Some (ERR_OK, s)) = Some (e, s1) \<and> udp_ok s1 xs1 fl"
    using udp_bind_ok [OF ok i, of "u_local_ip (upcb s i)" 0] ok by auto
  then obtain e1 s1 xs1 where b: "(if u_local_port (upcb s i) = 0
      then udp_bind i (u_local_ip (upcb s i)) (u_local_port (upcb s i)) s else Some (ERR_OK, s)) = Some (e1, s1)" "udp_ok s1 xs1 fl" by blast
  have "same_udp s1 s'" using ensuresD [OF udp_sendto_if_same [OF b(1)] run] by simp
  then show ?thesis using udp_ok_same [OF b(2)] by blast
qed

section \<open>All operations\<close>

text \<open>The calls an application may make, with control blocks it holds; the search of \<open>udp_input\<close>; and whatever else
  happens in the program: other modules, the driver and the fields of a block that are not its local end.\<close>

inductive udp_step :: "('a eth_dev_scheme, 'm) udp_link \<Rightarrow> ('a eth_dev_scheme, 'm) udp_net \<Rightarrow> ('a eth_dev_scheme, 'm) udp_net \<Rightarrow> bool"
  for l where
  new: "udp_new s = (r, s') \<Longrightarrow> udp_step l s s'"
| bind: "udp_held s i \<Longrightarrow> udp_bind i ip port s = Some (e, s') \<Longrightarrow> udp_step l s s'"
| connect: "udp_held s i \<Longrightarrow> udp_connect i ip port s = Some (e, s') \<Longrightarrow> udp_step l s s'"
| disconnect: "udp_held s i \<Longrightarrow> udp_step l s (udp_disconnect i s)"
| recv: "udp_held s i \<Longrightarrow> udp_step l s (udp_recv i f a s)"
| sendto_if: "udp_held s i \<Longrightarrow> udp_sendto_if l i p ip port netif s = Some (e, s') \<Longrightarrow> udp_step l s s'"
| sendto: "udp_held s i \<Longrightarrow> udp_sendto l i p ip port s = Some (e, s') \<Longrightarrow> udp_step l s s'"
| send: "udp_held s i \<Longrightarrow> udp_send l i p s = Some (e, s') \<Longrightarrow> udp_step l s s'"
| remove: "udp_held s i \<Longrightarrow> udp_remove i s = Some s' \<Longrightarrow> udp_step l s s'"
| demux: "udp_search src dest broadcast inp (udp_pcbs (n_dev s)) None None s = Some (r, s') \<Longrightarrow> udp_step l s s'"
| other: "same_udp s s' \<Longrightarrow> udp_step l s s'"

inductive udp_reach :: "('a eth_dev_scheme, 'm) udp_link \<Rightarrow> ('a eth_dev_scheme, 'm) udp_net \<Rightarrow> bool" for l where
  init: "udp_start s \<Longrightarrow> udp_reach l s"
| step: "udp_reach l s \<Longrightarrow> udp_step l s s' \<Longrightarrow> udp_reach l s'"

lemma udp_step_ok:
  assumes "udp_step (program_link n l) s s'" "udp_ok s xs fl"
  shows "\<exists>xs' fl'. udp_ok s' xs' fl'"
proof -
  note held = udp_held_iff [OF assms(2)]
  have send_to: ?thesis if "udp_held s i" "udp_sendto (program_link n l) i p ip port s = Some (e, s')" for i p ip port e
  proof (cases "ip_route ip s")
    case None
    then show ?thesis using that(2) assms(2) by (auto simp: udp_sendto_def)
  next
    case (Some netif)
    then have "udp_sendto_if (program_link n l) i p ip port netif s = Some (e, s')" using that(2) by (simp add: udp_sendto_def)
    then show ?thesis using udp_sendto_if_ok [OF assms(2)] that(1) held by blast
  qed
  show ?thesis using assms(1)
  proof cases
    case (new r)
    then show ?thesis using udp_new_ok [OF assms(2)] by auto
  next
    case (bind i ip port e)
    then show ?thesis using udp_bind_ok [OF assms(2), of i ip port] held [of i] by auto
  next
    case (connect i ip port e)
    then show ?thesis using udp_connect_ok [OF assms(2), of i ip port] held [of i] by auto
  next
    case (disconnect i)
    have "udp_ok s' xs fl" unfolding disconnect(1)
      by (rule udp_ok_update [OF assms(2)]) (simp_all add: udp_disconnect_def udp_okD(5) [OF assms(2)])
    then show ?thesis by blast
  next
    case (recv i f a)
    have "udp_ok s' xs fl" unfolding recv(1)
      by (rule udp_ok_update [OF assms(2)]) (simp_all add: udp_recv_def udp_okD(5) [OF assms(2)])
    then show ?thesis by blast
  next
    case (sendto_if i p ip port netif e)
    then show ?thesis using udp_sendto_if_ok [OF assms(2)] held by blast
  next
    case (sendto i p ip port e)
    then show ?thesis by (rule send_to)
  next
    case (send i p e)
    then show ?thesis unfolding udp_send_def using send_to by blast
  next
    case (remove i)
    then show ?thesis using udp_remove_ok [OF assms(2), of i] held [of i] by auto
  next
    case (demux src dest broadcast inp r)
    note o = udp_okD [OF assms(2)]
    have "udp_list s' (udp_reordered s src dest broadcast inp xs)" "same_blocks s s'"
      using udp_search_spec [OF o(1), of src dest broadcast inp] demux by auto
    moreover have "set (udp_reordered s src dest broadcast inp xs) = set xs"
      using o(8) by (auto simp: udp_reordered_def find_Some_iff split: option.split)
    ultimately show ?thesis using udp_same_blocks_ok [OF assms(2)] by blast
  next
    case other
    then show ?thesis using udp_ok_same [OF assms(2)] by blast
  qed
qed

lemma udp_reach_inv: "udp_reach (program_link n l) s \<Longrightarrow> \<exists>xs fl. udp_ok s xs fl"
proof (induction rule: udp_reach.induct)
  case (init s)
  then show ?case using udp_start_ok by blast
next
  case (step s s')
  then show ?case using udp_step_ok by blast
qed

section \<open>Properties\<close>

text \<open>C12: whatever sequence of calls the application makes, sends included, with datagrams arriving and anything else
  happening to the rest of the program in between, the list of control blocks is sound, and no two blocks in it are
  bound to the same port with the same address or a wildcard; so at most one of them matches a unicast datagram.\<close>
theorem udp_bindings:
  assumes "udp_reach (program_link n l) s"
  shows "\<exists>xs. udp_list s xs \<and> distinct xs \<and>
    (\<forall>i\<in>set xs. \<forall>j\<in>set xs. i \<noteq> j \<longrightarrow> \<not> udp_conflict (upcb s i) (u_local_port (upcb s j)) (u_local_ip (upcb s j))) \<and>
    (\<forall>dest cdest inp. \<forall>i\<in>set xs. \<forall>j\<in>set xs.
       udp_local_match (upcb s i) dest False cdest inp \<and> udp_local_match (upcb s j) dest False cdest inp \<longrightarrow> i = j)"
proof -
  obtain xs fl where ok: "udp_ok s xs fl" using udp_reach_inv [OF assms] by blast
  note o = udp_okD [OF ok]
  have "i = j" if "i \<in> set xs" "j \<in> set xs" "udp_local_match (upcb s i) dest False cdest inp" "udp_local_match (upcb s j) dest False cdest inp"
    for dest cdest inp i j
  proof (rule ccontr)
    assume "i \<noteq> j"
    from o(7) [OF that(1,2) this] that(3,4) show False by (auto simp: udp_local_match_def udp_conflict_def)
  qed
  then show ?thesis using o(1,7,8) by blast
qed

section \<open>Witness\<close>

text \<open>After the start, one block allocated and bound to port 2000, and a datagram of two bytes sent from it.\<close>

definition demo_fresh :: "eth_dev udp_vars net" where
  "demo_fresh = (demo_stack [1, 2] 58)\<lparr>n_mem := (demo_mem [1, 2] 58)\<lparr>p_pools :=
     \<lparr>memp_tab = (\<lambda>t. Some 5), memp_next = (\<lambda>t i. if i = 0 then None else Some (i - 1))\<rparr>\<rparr>, n_dev := demo_udp_vars\<lparr>udp_pcbs := None\<rparr>\<rparr>"

lemma headroom_pools: "headroom (m\<lparr>p_pools := ps\<rparr>) p [] k = headroom m p [] k"
  by (simp add: headroom_def packet_def pb_addrs_def)

theorem udp_bindings_witness:
  "\<exists>s1 s2 s3 :: eth_dev udp_vars net. udp_new demo_fresh = (Some 5, s1) \<and> udp_bind 5 IPADDR_ANY 2000 s1 = Some (ERR_OK, s2) \<and>
     udp_sendto (program_link 1 demo_stack_link) 5 (RPool 4, 0) (u32_le 10 0 0 1) 53 s2 = Some (ERR_OK, s3) \<and>
     (\<exists>frame. ip_queue (n_dev s3) [frame]) \<and> udp_list s3 [5] \<and> distinct [5 :: nat]"
proof -
  let ?l = "program_link 1 demo_stack_link"
  have "udp_start demo_fresh"
    by (simp add: udp_start_def demo_fresh_def demo_udp_vars_def UDP_LOCAL_PORT_RANGE_START_def free_list_def upt_rec)
  then have r0: "udp_reach ?l demo_fresh" by (rule udp_reach.init)
  define ps where "ps = \<lparr>memp_tab = (\<lambda>t :: memp_t. Some (5 :: nat))(MEMP_UDP_PCB := Some 4), memp_next = (\<lambda>(t :: memp_t) i. if i = 0 then None else Some (i - 1))\<rparr>"
  define s1 where "s1 = upd_upcb 5 (\<lambda>b. udp_pcb_zero\<lparr>u_ttl := UDP_TTL\<rparr>) (set_mem ((n_mem demo_fresh)\<lparr>p_pools := ps\<rparr>) demo_fresh)"
  have s1: "udp_new demo_fresh = (Some 5, s1)"
    by (simp add: udp_new_def memp_malloc_def demo_fresh_def s1_def ps_def fun_upd_def)
  have r1: "udp_reach ?l s1" by (rule udp_reach.step [OF r0 udp_step.new [OF s1]])
  have fl: "free_list MEMP_UDP_PCB (p_pools (n_mem s1)) [4, 3, 2, 1, 0]" by (simp add: s1_def free_list_def ps_def)
  have "5 \<notin> set ys" if "free_list MEMP_UDP_PCB (p_pools (n_mem s1)) ys" for ys
    unfolding free_list_fun [OF that fl] by simp
  then have held: "udp_held s1 5" by (simp add: udp_held_def)
  define s2 where "s2 = udp_insert 5 (upd_upcb 5 (\<lambda>b. b\<lparr>u_local_port := 2000\<rparr>) (upd_upcb 5 (\<lambda>b. b\<lparr>u_local_ip := IPADDR_ANY\<rparr>) s1))"
  have hd1: "u_head s1 = None" by (simp add: s1_def demo_fresh_def)
  have s2: "udp_bind 5 IPADDR_ANY 2000 s1 = Some (ERR_OK, s2)"
    using hd1 by (simp add: udp_bind_def udp_bind_check.simps [of _ _ _ None] s2_def)
  have l2: "udp_list s2 [5]" using hd1 by (simp add: s2_def udp_insert_def udp_list_def)
  have r2: "udp_reach ?l s2" by (rule udp_reach.step [OF r1 udp_step.bind [OF held s2]])
  have m2: "n_mem s2 = (demo_mem [1, 2] 58)\<lparr>p_pools := ps\<rparr>" "n_arp s2 = demo_table" "n_cached s2 = 0"
    "ip_dev (n_dev s2) = demo_up" "netif_list (n_dev s2) = [demo_netif]" "u_local_port (upcb s2 5) = 2000" "u_local_ip (upcb s2 5) = IPADDR_ANY"
    by (simp_all add: s2_def s1_def udp_insert_def demo_fresh_def demo_udp_vars_def udp_pcb_zero_def upd_upcb_def upd_udp_def set_mem_def)
  have held2: "udp_held s2 5" using held by (simp add: udp_held_def s2_def udp_insert_def)
  have rt: "ip_route (u32_le 10 0 0 1) s2 = Some demo_netif"
    by (simp add: ip_route_def m2 netif_is_up_def demo_netif_def NETIF_FLAG_UP_def ip_addr_netcmp_def u32_le_def)
  have send: "can_send ?l demo_netif (u32_le 10 0 0 1) [2, 0, 0, 0, 0, 7] [] s2"
    using demo_can_send [of "[1, 2]" 58] by (simp add: can_send_def m2 ip_queue_def demo_udp_vars_def)
  have room: "headroom (n_mem s2) (RPool 4, 0) [] 42" using demo_mem_headroom [of "[1, 2]" 42 58] by (simp add: m2 headroom_pools)
  have len: "pb_len (p_pbufs (demo_mem [1, 2] 58) (RPool 4, 0)) = 2" by (simp add: demo_mem_def demo_pb_def)
  obtain s3 frame where s3: "udp_sendto ?l 5 (RPool 4, 0) (u32_le 10 0 0 1) 53 s2 = Some (ERR_OK, s3)" "ip_queue (n_dev s3) ([] @ [frame])"
    using udp_sendto_to_ring [OF rt send room, of 5 53] by (auto simp: m2 len ETH_MAX_PACKET_SIZE_def demo_netif_def)
  have r3: "udp_reach ?l s3" by (rule udp_reach.step [OF r2 udp_step.sendto [OF held2 s3(1)]])
  have "same_udp s2 s3"
    using s3(1) ensuresD [OF udp_sendto_if_same [of s2 5 ERR_OK s2]] by (fastforce simp: udp_sendto_def rt m2)
  then have l3: "udp_list s3 [5]" using l2 by (simp add: udp_list_def same_udp_def)
  obtain xs where "udp_list s3 xs" "distinct xs" using udp_bindings [OF r3] by blast
  moreover from this have "xs = [5]" using l3 unfolding udp_list_def by (metis linked_unique)
  ultimately show ?thesis using s1 s2 s3 by auto
qed

end
