(* ===== verification/HeapClient.thy ===== *)
theory HeapClient
  imports MemHeap
begin

text \<open>
  A client of the heap: whatever it allocates, trims and frees, the regions it holds are apart and within the heap,
  and none is lost.
\<close>

section \<open>What a client holds\<close>

lemma used_trim_blocks:
  assumes "hseg r prv p0 bs q" "(a, e, True) \<in> set bs"
  shows "\<exists>k. (k = e \<or> k = a + SIZEOF_STRUCT_MEM + n) \<and>
    (\<forall>b f. (b, f, True) \<in> set (trim_blocks a n bs) \<longleftrightarrow> (if b = a then f = k else (b, f, True) \<in> set bs))"
proof -
  obtain xs ys where bs: "bs = xs @ (a, e, True) # ys" using assms(2) by (meson split_list)
  have one: "b = a \<and> f = e" if "(b, f, u) \<in> set bs" "b = a" for b f u
    using blocks_apart [OF assms(1) assms(2) that(1)] hseg_range [OF assms(1) that(1)] hseg_range [OF assms] that(2)
    by (auto simp: mem_consts)
  have nin: "b \<noteq> a" if "(b, f, u) \<in> set (xs @ ys)" for b f u
  proof
    assume "b = a"
    have "hseg r prv p0 xs a" "hseg r a e ys q" using assms(1) by (auto simp: bs hseg_append)
    then show False using that \<open>b = a\<close> hseg_range [of r prv p0 xs a b f u] hseg_range [of r a e ys q b f u] hseg_range [OF assms]
      by (auto simp: mem_consts)
  qed
  have t: "trim_blocks a n bs = xs @ trim_blocks a n ((a, e, True) # ys)" using assms(1) unfolding bs by (rule trim_blocks_app)
  obtain k where k: "k = e \<or> k = a + SIZEOF_STRUCT_MEM + n"
    "\<forall>b f. (b, f, True) \<in> set (trim_blocks a n ((a, e, True) # ys)) \<longleftrightarrow> b = a \<and> f = k \<or> (b, f, True) \<in> set ys"
  proof (cases ys)
    case Nil
    then show ?thesis using that by (cases "a + SIZEOF_STRUCT_MEM + n = e";
      cases "n + SIZEOF_STRUCT_MEM + MIN_SIZE_ALIGNED \<le> e - a - SIZEOF_STRUCT_MEM") (auto simp: Let_def)
  next
    case (Cons c cs)
    obtain b f w where "c = (b, f, w)" by (cases c)
    then show ?thesis using that Cons by (cases w; cases "a + SIZEOF_STRUCT_MEM + n = e";
      cases "n + SIZEOF_STRUCT_MEM + MIN_SIZE_ALIGNED \<le> e - a - SIZEOF_STRUCT_MEM") (auto simp: Let_def)
  qed
  have "(b, f, True) \<in> set (trim_blocks a n bs) \<longleftrightarrow> (if b = a then f = k else (b, f, True) \<in> set bs)" for b f
    unfolding t set_append Un_iff k(2) [rule_format] using nin [of b f True] unfolding bs by auto
  then show ?thesis using k(1) by blast
qed

lemma request_size_ge: "0 \<le> n \<Longrightarrow> n \<le> 65532 \<Longrightarrow> n \<le> request_size n"
proof -
  assume n: "0 \<le> n" "n \<le> 65532"
  have "n \<le> LWIP_MEM_ALIGN_SIZE n \<and> LWIP_MEM_ALIGN_SIZE n < 65536 \<and> 0 \<le> LWIP_MEM_ALIGN_SIZE n"
    unfolding LWIP_MEM_ALIGN_SIZE_eq using n by presburger
  then show ?thesis by (simp add: request_size_def Let_def c_u16_id)
qed

text \<open>
  The heaps a client reaches, with the list of what it holds: the regions it was given, each with the size it asked
  for (or has trimmed it to).  It frees and trims only what it holds.  Requests of more than 65532 bytes are left out:
  rounded up they do not fit a \<open>mem_size_t\<close> (see \<open>mem_malloc_wraps\<close>).
\<close>

inductive heap_reach :: "heap \<Rightarrow> (int \<times> int) list \<Rightarrow> bool" where
  init: "heap_reach (mem_init r) []"
| malloc: "heap_reach h g \<Longrightarrow> 0 \<le> n \<Longrightarrow> n \<le> 65532 \<Longrightarrow> mem_malloc n h = Some (Some p, h') \<Longrightarrow> heap_reach h' ((p, n) # g)"
| malloc_null: "heap_reach h g \<Longrightarrow> mem_malloc n h = Some (None, h') \<Longrightarrow> heap_reach h' g"
| free: "heap_reach h g \<Longrightarrow> (p, n) \<in> set g \<Longrightarrow> heap_reach (mem_free (Some p) h) (remove1 (p, n) g)"
| free_null: "heap_reach h g \<Longrightarrow> heap_reach (mem_free None h) g"
| trim: "heap_reach h g \<Longrightarrow> (p, m) \<in> set g \<Longrightarrow> 0 \<le> n \<Longrightarrow> n \<le> 65532 \<Longrightarrow> mem_trim p n h = (Some q, h') \<Longrightarrow>
    heap_reach h' ((q, n) # remove1 (p, m) g)"
| trim_null: "heap_reach h g \<Longrightarrow> (p, m) \<in> set g \<Longrightarrow> mem_trim p n h = (None, h') \<Longrightarrow> heap_reach h' g"

definition holds :: "heap \<Rightarrow> (int \<times> int) list \<Rightarrow> bool" where
  "holds h g \<longleftrightarrow> heap_ok h \<and> distinct (map fst g) \<and> (\<forall>p. (\<exists>s. live h p s) \<longleftrightarrow> p \<in> fst ` set g) \<and>
     (\<forall>(p, n)\<in>set g. \<forall>s. live h p s \<longrightarrow> n \<le> s)"

lemma holds_region: "holds h g \<Longrightarrow> (p, n) \<in> set g \<Longrightarrow> \<exists>s. live h p s \<and> n \<le> s"
  unfolding holds_def by (metis (no_types, lifting) case_prodD fst_conv image_eqI)

lemma fst_remove1: "distinct (map fst g) \<Longrightarrow> (p, n) \<in> set g \<Longrightarrow> fst ` set (remove1 (p, n) g) = fst ` set g - {p}"
proof -
  assume "distinct (map fst g)" and pn: "(p, n) \<in> set g"
  then have d: "distinct g" "inj_on fst (set g)" by (simp_all add: distinct_map)
  have "fst ` (set g - {(p, n)}) = fst ` set g - fst ` {(p, n)}" by (rule inj_on_image_set_diff [OF d(2)]) (use pn in auto)
  then show ?thesis using set_remove1_eq [OF d(1), of "(p, n)"] by simp
qed

lemma distinct_remove1_fst: "distinct (map fst g) \<Longrightarrow> distinct (map fst (remove1 x g))"
proof -
  assume "distinct (map fst g)"
  then have d: "distinct g" "inj_on fst (set g)" by (simp_all add: distinct_map)
  have "inj_on fst (set (remove1 x g))" by (rule inj_on_subset [OF d(2) set_remove1_subset])
  then show ?thesis using distinct_remove1 [OF d(1)] by (simp add: distinct_map)
qed

lemma holds_malloc:
  assumes "holds h g" "0 \<le> n" "n \<le> 65532" "mem_malloc n h = Some (Some p, h')"
  shows "holds h' ((p, n) # g)"
proof -
  have ok: "heap_ok h" using assms(1) by (simp add: holds_def)
  obtain s where s: "request_size n \<le> s" "\<And>q t. live h' q t \<longleftrightarrow> live h q t \<or> q = p \<and> t = s" "\<And>t. \<not> live h p t"
    using mem.alloc_region [OF ok assms(4)] by blast
  have "heap_ok h'" using mem.alloc_returns [OF ok, of n] assms(4) by auto
  moreover have dom: "\<forall>q. (\<exists>t. live h q t) \<longleftrightarrow> q \<in> fst ` set g" using assms(1) by (simp add: holds_def)
  then have p: "p \<notin> fst ` set g" using s(3) by blast
  then have "distinct (map fst ((p, n) # g))" using assms(1) by (simp add: holds_def)
  moreover have "(\<exists>t. live h' q t) \<longleftrightarrow> q \<in> fst ` set ((p, n) # g)" for q using s(2) dom by auto
  moreover have "\<forall>(q, m)\<in>set ((p, n) # g). \<forall>t. live h' q t \<longrightarrow> m \<le> t"
  proof clarify
    fix q m t assume q: "(q, m) \<in> set ((p, n) # g)" "live h' q t"
    show "m \<le> t"
    proof (cases "q = p")
      case True
      then have "m = n" using q(1) p by force
      then show ?thesis using True q(2) s request_size_ge [OF assms(2,3)] by auto
    next
      case False
      then show ?thesis using q s(2) assms(1) unfolding holds_def by fastforce
    qed
  qed
  ultimately show ?thesis unfolding holds_def by blast
qed

lemma holds_free:
  assumes "holds h g" "(p, n) \<in> set g"
  shows "holds (mem_free (Some p) h) (remove1 (p, n) g)"
proof -
  have ok: "heap_ok h" and d: "distinct (map fst g)" using assms(1) by (simp_all add: holds_def)
  obtain s where "live h p s" using holds_region [OF assms] by blast
  note f = mem.release_region [OF ok this]
  have "\<forall>(q, m)\<in>set (remove1 (p, n) g). \<forall>t. live h q t \<longrightarrow> m \<le> t"
    using assms(1) notin_set_remove1 unfolding holds_def by fastforce
  then have "\<forall>(q, m)\<in>set (remove1 (p, n) g). \<forall>t. live (mem_free (Some p) h) q t \<longrightarrow> m \<le> t" using f by auto
  moreover have "(\<exists>t. live (mem_free (Some p) h) q t) \<longleftrightarrow> q \<in> fst ` set (remove1 (p, n) g)" for q
  proof -
    have "(\<exists>t. live h q t) \<longleftrightarrow> q \<in> fst ` set g" using assms(1) by (simp add: holds_def)
    then show ?thesis using f fst_remove1 [OF d assms(2)] by auto
  qed
  ultimately show ?thesis using f distinct_remove1_fst [OF d, of "(p, n)"] unfolding holds_def by blast
qed

lemma holds_trim:
  assumes "holds h g" "(p, m) \<in> set g" "0 \<le> n" "n \<le> 65532" "mem_trim p n h = (r, h')"
  shows "case r of None \<Rightarrow> h' = h | Some q \<Rightarrow> q = p \<and> holds h' ((q, n) # remove1 (p, m) g)"
proof -
  have ok: "heap_ok h" and d: "distinct (map fst g)" using assms(1) by (simp_all add: holds_def)
  then obtain bs s where inv: "heap_inv h bs" and s: "live h p s" using holds_region [OF assms(1,2)] by (auto simp: heap_ok_def)
  have b: "(p - SIZEOF_STRUCT_MEM, p + s, True) \<in> set bs" using s live_iff [OF inv] by simp
  have seg: "hseg (ram h) 0 0 bs MEM_SIZE_ALIGNED" using inv by (simp add: heap_inv_def)
  show ?thesis
  proof (cases "s < request_size n")
    case True
    then show ?thesis using mem_trim_shrinks [OF inv b, of n] assms(5) by auto
  next
    case False
    then obtain r2 where t: "mem_trim p n h = (Some p, r2)" "heap_inv r2 (trim_blocks (p - SIZEOF_STRUCT_MEM) (request_size n) bs)"
      using mem_trim_shrinks [OF inv b, of n] by auto
    then have r: "r = Some p" "h' = r2" using assms(5) by auto
    obtain k where k: "k = p + s \<or> k = p + request_size n"
      "\<And>c f. (c, f, True) \<in> set (trim_blocks (p - SIZEOF_STRUCT_MEM) (request_size n) bs) \<longleftrightarrow>
        (if c = p - SIZEOF_STRUCT_MEM then f = k else (c, f, True) \<in> set bs)"
      using used_trim_blocks [OF seg b, of "request_size n"] by auto
    have lv: "live h' q t \<longleftrightarrow> (if q = p then t = k - p else live h q t)" for q t
      unfolding r live_iff [OF t(2)] live_iff [OF inv] k(2) by auto
    have "n \<le> k - p" using k(1) request_size_ge [OF assms(3,4)] False by auto
    moreover have "heap_ok h'" using t(2) r by (auto simp: heap_ok_def)
    moreover have "distinct (map fst ((p, n) # remove1 (p, m) g))"
      using fst_remove1 [OF d assms(2)] distinct_remove1_fst [OF d] by simp
    moreover have "\<forall>(q, l)\<in>set (remove1 (p, m) g). \<forall>t. live h' q t \<longrightarrow> l \<le> t"
    proof clarify
      fix q l t assume q: "(q, l) \<in> set (remove1 (p, m) g)" "live h' q t"
      then have "q \<noteq> p" using fst_remove1 [OF d assms(2)] by (metis DiffD2 fst_conv image_eqI insertI1)
      moreover have "(q, l) \<in> set g" using q notin_set_remove1 by fastforce
      ultimately show "l \<le> t" using q(2) lv assms(1) unfolding holds_def by fastforce
    qed
    moreover have "(\<exists>t. live h' q t) \<longleftrightarrow> q \<in> fst ` set ((p, n) # remove1 (p, m) g)" for q
    proof -
      have "(\<exists>t. live h q t) \<longleftrightarrow> q \<in> fst ` set g" "p \<in> fst ` set g" using assms(1,2) by (simp_all add: holds_def rev_image_eqI)
      then show ?thesis unfolding lv using fst_remove1 [OF d assms(2)] by (cases "q = p") auto
    qed
    moreover have "\<forall>(q, l)\<in>set ((p, n) # remove1 (p, m) g). \<forall>t. live h' q t \<longrightarrow> l \<le> t"
      using calculation(1,4) lv by auto
    ultimately have "holds h' ((p, n) # remove1 (p, m) g)" unfolding holds_def by blast
    then show ?thesis unfolding r(1) by simp
  qed
qed

lemma live_init: "\<not> live (mem_init r) p s"
  unfolding live_iff [OF mem_init_inv] by simp

lemma heap_reach_holds: "heap_reach h g \<Longrightarrow> holds h g"
proof (induction rule: heap_reach.induct)
  case (init r)
  then show ?case using mem_init_inv live_init by (auto simp: holds_def heap_ok_def)
next
  case (malloc_null h g n h')
  then show ?case using mem.alloc_fails [of h n h'] by (simp add: holds_def)
next
  case (free_null h g)
  then show ?case by (simp add: mem.release_null)
next
  case (trim h g p m n q h')
  then show ?case using holds_trim [of h g p m n "Some q" h'] by auto
next
  case (trim_null h g p m n h')
  obtain bs s where inv: "heap_inv h bs" and "live h p s" using holds_region [OF trim_null.IH trim_null.hyps(2)] trim_null.IH
    by (auto simp: heap_ok_def holds_def)
  then have "(p - SIZEOF_STRUCT_MEM, p + s, True) \<in> set bs" using live_iff [OF inv] by simp
  from mem_trim_shrinks [OF inv this, of n] trim_null show ?case by (auto split: if_splits)
qed (auto intro: holds_malloc holds_free)

lemma all_free:
  assumes "heap_inv h bs" "\<forall>p s. \<not> live h p s"
  shows "bs = [(0, MEM_SIZE_ALIGNED, False)]"
proof -
  have seg: "hseg (ram h) 0 0 bs MEM_SIZE_ALIGNED" and adj: "no_adj_free bs" using assms(1) by (simp_all add: heap_inv_def)
  have f: "\<not> u" if "(a, e, u) \<in> set bs" for a e u
    using assms(2) live_iff [OF assms(1), of "a + SIZEOF_STRUCT_MEM" "e - a - SIZEOF_STRUCT_MEM"] that by (cases u) auto
  obtain b cs where bs: "bs = b # cs" using seg by (cases bs) (auto simp: mem_consts)
  obtain a e u where b: "b = (a, e, u)" by (cases b)
  have "cs = []"
  proof (cases cs)
    case (Cons c ds)
    then show ?thesis using adj f [of a e u] f [of "fst c" "fst (snd c)" "snd (snd c)"] bs b by (simp add: no_adj_free_def)
  qed simp
  then show ?thesis using seg f [of a e u] bs b by simp
qed

section \<open>Properties\<close>

text \<open>Two regions held, each of at least 12 bytes, do not overlap.\<close>

definition apart :: "int \<times> int \<Rightarrow> int \<times> int \<Rightarrow> bool" where
  "apart r t \<longleftrightarrow> fst r + max (snd r) 12 \<le> fst t \<or> fst t + max (snd t) 12 \<le> fst r"

text \<open>C5: whatever sequence of allocations, trims and frees a client makes of \<open>mem_init\<close>'s heap, with requests of at most
  65532 bytes: every region it holds lies inside the heap, is aligned and has at least 12 bytes and the bytes it asked for, no two regions it holds overlap, and
  when it has given everything back the heap is one free block again.\<close>
theorem heap_reach_regions:
  assumes "heap_reach h g"
  shows "(\<forall>r\<in>set g. 8 \<le> fst r \<and> fst r + max (snd r) 12 \<le> 16000 \<and> 4 dvd fst r) \<and> sorted_wrt apart g \<and>
    (g = [] \<longrightarrow> heap_inv h [(0, 16000, False)])"
proof -
  have h: "holds h g" by (rule heap_reach_holds [OF assms])
  then have ok: "heap_ok h" by (simp add: holds_def)
  have r: "\<exists>s. live h (fst r) s \<and> snd r \<le> s \<and> 12 \<le> s" if "r \<in> set g" for r
    using holds_region [OF h, of "fst r" "snd r"] that live_bounds [OF ok] by fastforce
  have "sorted_wrt apart g"
    unfolding sorted_wrt_iff_nth_less
  proof (intro allI impI)
    fix i j assume ij: "i < j" "j < length g"
    have "fst (g ! i) \<noteq> fst (g ! j)" using h ij nth_eq_iff_index_eq [of "map fst g" i j] by (simp add: holds_def)
    moreover obtain s t where "live h (fst (g ! i)) s" "snd (g ! i) \<le> s" "12 \<le> s" "live h (fst (g ! j)) t" "snd (g ! j) \<le> t" "12 \<le> t"
      using r [of "g ! i"] r [of "g ! j"] ij by auto
    ultimately show "apart (g ! i) (g ! j)" using mem.regions_apart [OF ok, of "fst (g ! i)" s "fst (g ! j)" t] by (auto simp: apart_def)
  qed
  moreover have "\<forall>r\<in>set g. 8 \<le> fst r \<and> fst r + max (snd r) 12 \<le> 16000 \<and> 4 dvd fst r"
    using r live_bounds [OF ok] by fastforce
  moreover have "heap_inv h [(0, 16000, False)]" if "g = []"
  proof -
    obtain bs where inv: "heap_inv h bs" using ok by (auto simp: heap_ok_def)
    moreover have "\<forall>p s. \<not> live h p s" using h that by (simp add: holds_def)
    ultimately show ?thesis using all_free [OF inv] by (simp add: MEM_SIZE_ALIGNED_def)
  qed
  ultimately show ?thesis by blast
qed

section \<open>Witnesses\<close>

lemma demo_reach: "heap_reach demo_heap [(8, 100)]"
  by (rule heap_reach.malloc [OF heap_reach.init _ _ demo_malloc]) simp_all

theorem heap_reach_regions_witness:
  "\<exists>h p. heap_reach h [(p, 40), (8, 100)] \<and> (p + 40 \<le> 8 \<or> 108 \<le> p) \<and> p + 40 \<le> 16000 \<and> 4 dvd p"
proof -
  obtain h where "mem_malloc 40 demo_heap = Some (Some 116, h)"
    using mem_malloc_first_fit [OF demo_inv, of 40]
    by (auto simp: request_size_def LWIP_MEM_ALIGN_SIZE_eq c_u16_def mem_consts split: if_splits)
  then have r: "heap_reach h [(116, 40), (8, 100)]" by (rule heap_reach.malloc [OF demo_reach, rotated -1]) simp_all
  show ?thesis using heap_reach_regions [OF r] r by (intro exI [of _ h] exI [of _ 116]) (simp add: apart_def)
qed

end
