(* ===== verification/TimerLoop.thy ===== *)
theory TimerLoop
  imports Timers
begin

text \<open>
  What \<open>sys_check_timeouts\<close> does, with every timer of the stack and of the application: a refinement of the difference
  list and its pool to an event loop over expiry times.
\<close>

declare split_paired_All [simp del] split_paired_Ex [simp del]

section \<open>What a handler does\<close>

text \<open>
  The rest of the program touches the timers by calling \<open>sys_timeout\<close>, \<open>sys_untimeout\<close> and \<open>tcp_timer_needed\<close> only, and
  none of them returns anything.  So what it does in a handler is a sequence of these calls and of changes of its own
  state, which that state determines: \<open>World w ps\<close> stands for the state it has come to, with the elements of the pools as
  in \<open>ps\<close> but for the pool of the timers.
\<close>

definition other_pools :: "memp_state \<Rightarrow> memp_state \<Rightarrow> memp_state" where
  "other_pools ps ps0 = ps\<lparr>memp_tab := (memp_tab ps)(MEMP_SYS_TIMEOUT := memp_tab ps0 MEMP_SYS_TIMEOUT),
     memp_next := (memp_next ps)(MEMP_SYS_TIMEOUT := memp_next ps0 MEMP_SYS_TIMEOUT)\<rparr>"

lemma free_list_other_pools [simp]: "free_list MEMP_SYS_TIMEOUT (other_pools ps ps0) xs = free_list MEMP_SYS_TIMEOUT ps0 xs"
  by (simp add: free_list_def other_pools_def)

datatype 'w action = World 'w memp_state | Start int "sys_timeout_handler option" int | Stop "sys_timeout_handler option" int | Tcp_needed

primrec do_action :: "'w timer_env \<Rightarrow> 'w action \<Rightarrow> 'w timers \<Rightarrow> 'w timers" where
  "do_action e (World w ps) s = s\<lparr>tm_world := w, tm_pools := other_pools ps (tm_pools s)\<rparr>"
| "do_action e (Start msecs h arg) s = sys_timeout msecs h arg s"
| "do_action e (Stop h arg) s = sys_untimeout h arg s"
| "do_action e Tcp_needed s = tcp_timer_needed e s"

text \<open>\<open>f h arg w\<close> are the actions of handler \<open>h\<close>, and \<open>g w\<close> whether there are connections that need the TCP timer.
  No handler asks for a time beyond \<open>u32_t\<close>.\<close>

definition acts :: "(sys_timeout_handler \<Rightarrow> int \<Rightarrow> 'w \<Rightarrow> 'w action list) \<Rightarrow> ('w \<Rightarrow> bool) \<Rightarrow> 'w timer_env \<Rightarrow> bool" where
  "acts f g e \<longleftrightarrow>
     (\<forall>s. env_tcp_tmr e s = fold (do_action e) (f Tcpip_tcp_timer 0 (tm_world s)) s) \<and>
     (\<forall>s. env_ip_reass_tmr e s = fold (do_action e) (f Ip_reass_timer 0 (tm_world s)) s) \<and>
     (\<forall>s. env_etharp_tmr e s = fold (do_action e) (f Arp_timer 0 (tm_world s)) s) \<and>
     (\<forall>s. env_dhcp_coarse_tmr e s = fold (do_action e) (f Dhcp_timer_coarse 0 (tm_world s)) s) \<and>
     (\<forall>s. env_dhcp_fine_tmr e s = fold (do_action e) (f Dhcp_timer_fine 0 (tm_world s)) s) \<and>
     (\<forall>n arg s. env_app e n arg s = fold (do_action e) (f (App_timer n) arg (tm_world s)) s) \<and>
     (\<forall>s. env_tcp_pcbs e s = g (tm_world s)) \<and>
     (\<forall>h arg w msecs h' a. Start msecs h' a \<in> set (f h arg w) \<longrightarrow> 0 \<le> msecs \<and> msecs < 4294967296)"

section \<open>The event loop\<close>

text \<open>The timers with the times at which they expire, whether the TCP timer is running, and the rest of the program.\<close>

type_synonym expiry = "int \<times> sys_timeout_handler option \<times> int"
type_synonym 'w view = "expiry list \<times> bool \<times> 'w"

fun abs_action :: "('w \<Rightarrow> bool) \<Rightarrow> int \<Rightarrow> 'w action \<Rightarrow> 'w view \<Rightarrow> 'w view" where
  "abs_action g a (World w' ps) (xs, b, w) = (xs, b, w')"
| "abs_action g a (Start msecs h arg) (xs, b, w) = (add_expiry (a + msecs) h arg xs, b, w)"
| "abs_action g a (Stop h arg) (xs, b, w) = (drop_first (\<lambda>x. snd x = (h, arg)) xs, b, w)"
| "abs_action g a Tcp_needed (xs, b, w) =
     (if \<not> b \<and> g w then (add_expiry (a + TCP_TMR_INTERVAL) (Some Tcpip_tcp_timer) 0 xs, True, w) else (xs, b, w))"

text \<open>After its actions, a timer of the stack starts itself again at its interval; that of TCP while there are
  connections.\<close>

fun rearm :: "('w \<Rightarrow> bool) \<Rightarrow> int \<Rightarrow> sys_timeout_handler \<Rightarrow> 'w view \<Rightarrow> 'w view" where
  "rearm g a Tcpip_tcp_timer (xs, b, w) =
     (if g w then (add_expiry (a + 250) (Some Tcpip_tcp_timer) 0 xs, b, w) else (xs, False, w))"
| "rearm g a Ip_reass_timer (xs, b, w) = (add_expiry (a + 1000) (Some Ip_reass_timer) 0 xs, b, w)"
| "rearm g a Arp_timer (xs, b, w) = (add_expiry (a + 5000) (Some Arp_timer) 0 xs, b, w)"
| "rearm g a Dhcp_timer_coarse (xs, b, w) = (add_expiry (a + 60000) (Some Dhcp_timer_coarse) 0 xs, b, w)"
| "rearm g a Dhcp_timer_fine (xs, b, w) = (add_expiry (a + 500) (Some Dhcp_timer_fine) 0 xs, b, w)"
| "rearm g a (App_timer n) v = v"

fun run_timer ::
    "(sys_timeout_handler \<Rightarrow> int \<Rightarrow> 'w \<Rightarrow> 'w action list) \<Rightarrow> ('w \<Rightarrow> bool) \<Rightarrow> int \<Rightarrow> sys_timeout_handler option \<Rightarrow> int \<Rightarrow> 'w view \<Rightarrow> 'w view" where
  "run_timer f g a None arg v = v"
| "run_timer f g a (Some (App_timer n)) arg (xs, b, w) = fold (abs_action g a) (f (App_timer n) arg w) (xs, b, w)"
| "run_timer f g a (Some h) arg (xs, b, w) = rearm g a h (fold (abs_action g a) (f h 0 w) (xs, b, w))"

text \<open>The loop up to the time \<open>d\<close>, with \<open>a\<close> the time of the last timer that was run; \<open>log\<close> are the timers run.\<close>

partial_function (option) event_loop ::
    "(sys_timeout_handler \<Rightarrow> int \<Rightarrow> 'w \<Rightarrow> 'w action list) \<Rightarrow> ('w \<Rightarrow> bool) \<Rightarrow> int \<Rightarrow> expiry list \<Rightarrow> int \<Rightarrow> 'w view \<Rightarrow>
     (expiry list \<times> int \<times> 'w view) option" where
  "event_loop f g d log a v =
     (case v of
        ([], b, w) \<Rightarrow> Some (log, a, v)
      | (x # xs, b, w) \<Rightarrow>
          (if fst x \<le> d
           then event_loop f g d (log @ [x]) (fst x) (run_timer f g (fst x) (fst (snd x)) (snd (snd x)) (xs, b, w))
           else Some (log, a, v)))"

section \<open>The refinement\<close>

text \<open>The view of a state, with times counted so that \<open>timeouts_last_time\<close> is at \<open>a\<close>.\<close>

definition view_of :: "int \<Rightarrow> 'w timers \<Rightarrow> 'w view" where
  "view_of a s = (expiries a (next_timeout s), tcpip_tcp_timer_active s, tm_world s)"

definition shift :: "int \<Rightarrow> expiry \<Rightarrow> expiry" where
  "shift a x = (fst x + a, snd x)"

lemma expiries_at: "expiries a ts = map (shift a) (expiries 0 ts)"
  using expiries_shift [of 0 a ts] by (simp add: shift_def [abs_def] case_prod_beta)

lemma map_shift_place: "map (shift a) (place x xs) = place (shift a x) (map (shift a) xs)"
  by (induction xs) (auto simp: shift_def)

lemma map_shift_drop: "map (shift a) (drop_first (\<lambda>x. snd x = k) xs) = drop_first (\<lambda>x. snd x = k) (map (shift a) xs)"
  by (induction xs) (auto simp: shift_def)

lemma map_shift_add: "map (shift a) (add_expiry m h arg xs) = add_expiry (a + m) h arg (map (shift a) xs)"
  by (simp add: add_expiry_def map_shift_place) (simp add: shift_def add.commute)

lemma sys_timeout_keeps:
  "tcpip_tcp_timer_active (sys_timeout m h arg s) = tcpip_tcp_timer_active s" "tm_world (sys_timeout m h arg s) = tm_world s"
  "timeouts_last_time (sys_timeout m h arg s) = timeouts_last_time s"
  by (simp_all add: sys_timeout_def Let_def split: option.split prod.split list.split)

lemma sys_untimeout_keeps:
  "tcpip_tcp_timer_active (sys_untimeout h arg s) = tcpip_tcp_timer_active s" "tm_world (sys_untimeout h arg s) = tm_world s"
  "timeouts_last_time (sys_untimeout h arg s) = timeouts_last_time s"
  by (simp_all add: sys_untimeout_def split: option.split prod.split)

text \<open>\<open>s'\<close> is a sound state that is seen as \<open>v\<close>, with no other time of the last check.\<close>

definition seen :: "int \<Rightarrow> 'w timers \<Rightarrow> 'w timers \<Rightarrow> 'w view \<Rightarrow> bool" where
  "seen a s s' v \<longleftrightarrow> timers_ok s' \<and> timeouts_last_time s' = timeouts_last_time s \<and> view_of a s' = v"

lemma sys_timeout_seen:
  "timers_ok s \<Longrightarrow> 0 \<le> m \<Longrightarrow> m < 4294967296 \<Longrightarrow>
   seen a s (sys_timeout m h arg s) (add_expiry (a + m) h arg (expiries a (next_timeout s)), tcpip_tcp_timer_active s, tm_world s)"
  using sys_timeout_spec [of s m h arg] map_shift_add [of a m h arg "expiries 0 (next_timeout s)"]
  by (simp add: seen_def view_of_def sys_timeout_keeps expiries_at [of a])

lemma sys_untimeout_seen:
  "timers_ok s \<Longrightarrow>
   seen a s (sys_untimeout h arg s) (drop_first (\<lambda>x. snd x = (h, arg)) (expiries a (next_timeout s)), tcpip_tcp_timer_active s, tm_world s)"
  using sys_untimeout_spec [of s h arg] map_shift_drop [of a "(h, arg)" "expiries 0 (next_timeout s)"]
  by (simp add: seen_def view_of_def sys_untimeout_keeps expiries_at [of a])

lemma timers_ok_upd [simp]: "timers_ok (s\<lparr>tm_world := w\<rparr>) = timers_ok s" "timers_ok (s\<lparr>tcpip_tcp_timer_active := b\<rparr>) = timers_ok s"
  by (simp_all add: timers_ok_def)

lemma do_action_seen:
  assumes "acts f g e" "x \<in> set (f h arg w)" "timers_ok s"
  shows "seen a s (do_action e x s) (abs_action g a x (view_of a s))"
proof (cases x)
  case (World w' ps)
  then show ?thesis using assms(3) by (simp add: seen_def view_of_def timers_ok_def)
next
  case (Start msecs h' arg')
  then have "0 \<le> msecs \<and> msecs < 4294967296" using assms(1,2) unfolding acts_def by blast
  then show ?thesis using sys_timeout_seen [OF assms(3), of msecs a h' arg'] Start by (simp add: view_of_def)
next
  case (Stop h' arg')
  then show ?thesis using sys_untimeout_seen [OF assms(3), of a h' arg'] by (simp add: view_of_def)
next
  case Tcp_needed
  have "env_tcp_pcbs e s = g (tm_world s)" using assms(1) by (simp add: acts_def)
  moreover have "seen a s (sys_timeout 250 (Some Tcpip_tcp_timer) 0 (s\<lparr>tcpip_tcp_timer_active := True\<rparr>))
    (add_expiry (a + 250) (Some Tcpip_tcp_timer) 0 (expiries a (next_timeout s)), True, tm_world s)"
    using sys_timeout_seen [of "s\<lparr>tcpip_tcp_timer_active := True\<rparr>" 250 a "Some Tcpip_tcp_timer" 0] assms(3) by (simp add: seen_def)
  ultimately show ?thesis using Tcp_needed assms(3)
    by (auto simp: tcp_timer_needed_def view_of_def TCP_TMR_INTERVAL_def) (simp_all add: seen_def view_of_def)
qed

lemma do_actions_seen:
  assumes "acts f g e"
  shows "set xs \<subseteq> set (f h arg w) \<Longrightarrow> timers_ok s \<Longrightarrow> seen a s (fold (do_action e) xs s) (fold (abs_action g a) xs (view_of a s))"
proof (induction xs arbitrary: s)
  case Nil
  then show ?case by (simp add: seen_def)
next
  case (Cons x xs)
  have "seen a s (do_action e x s) (abs_action g a x (view_of a s))" by (rule do_action_seen [OF assms _ Cons.prems(2)]) (use Cons.prems in auto)
  then have "timers_ok (do_action e x s)" "timeouts_last_time (do_action e x s) = timeouts_last_time s"
    "view_of a (do_action e x s) = abs_action g a x (view_of a s)" by (simp_all add: seen_def)
  then show ?case using Cons.IH [of "do_action e x s"] Cons.prems by (simp add: seen_def)
qed

lemma rearm_seen:
  assumes "timers_ok s" "0 \<le> m" "m < 4294967296" "seen a s0 s v"
  shows "seen a s0 (sys_timeout m h arg s) (add_expiry (a + m) h arg (fst v), snd v)"
  using sys_timeout_seen [OF assms(1-3), of a h arg] assms(4) by (auto simp: seen_def view_of_def)

lemma call_handler_seen:
  assumes e: "acts f g e" and s: "timers_ok s"
  shows "seen a s (call_handler e h arg s) (run_timer f g a (Some h) arg (view_of a s))"
proof -
  note do = do_actions_seen [OF e order_refl s, where a = a]
  have ok: "timers_ok (fold (do_action e) (f h arg (tm_world s)) s)" for h arg using do by (simp add: seen_def)
  obtain xs b where v: "view_of a s = (xs, b, tm_world s)" by (simp add: view_of_def)
  have r: "seen a s (sys_timeout m (Some h) 0 (fold (do_action e) (f h 0 (tm_world s)) s))
      (add_expiry (a + m) (Some h) 0 (fst (fold (abs_action g a) (f h 0 (tm_world s)) (xs, b, tm_world s))),
       snd (fold (abs_action g a) (f h 0 (tm_world s)) (xs, b, tm_world s)))" if "0 \<le> m" "m < 4294967296" for h m
    using rearm_seen [OF ok that do] unfolding v .
  have tm: "env_ip_reass_tmr e s = fold (do_action e) (f Ip_reass_timer 0 (tm_world s)) s"
    "env_etharp_tmr e s = fold (do_action e) (f Arp_timer 0 (tm_world s)) s"
    "env_dhcp_coarse_tmr e s = fold (do_action e) (f Dhcp_timer_coarse 0 (tm_world s)) s"
    "env_dhcp_fine_tmr e s = fold (do_action e) (f Dhcp_timer_fine 0 (tm_world s)) s"
    "env_tcp_tmr e s = fold (do_action e) (f Tcpip_tcp_timer 0 (tm_world s)) s"
    "env_app e n arg s = fold (do_action e) (f (App_timer n) arg (tm_world s)) s" "env_tcp_pcbs e s' = g (tm_world s')" for n s'
    using e by (simp_all add: acts_def)
  have p: "rearm g a h v = (add_expiry (a + m) (Some h) 0 (fst v), snd v)"
    if "(h, m) \<in> {(Ip_reass_timer, 1000), (Arp_timer, 5000), (Dhcp_timer_coarse, 60000), (Dhcp_timer_fine, 500)}" for h m v
    using that by (cases v) auto
  show ?thesis
  proof (cases h)
    case Tcpip_tcp_timer
    let ?s = "fold (do_action e) (f Tcpip_tcp_timer 0 (tm_world s)) s"
    have d: "seen a s ?s (fold (abs_action g a) (f Tcpip_tcp_timer 0 (tm_world s)) (xs, b, tm_world s))" using do unfolding v .
    obtain ys c w where y: "fold (abs_action g a) (f Tcpip_tcp_timer 0 (tm_world s)) (xs, b, tm_world s) = (ys, c, w)" by (metis prod_cases3)
    have w: "tm_world ?s = w" using d by (simp add: y seen_def view_of_def)
    have "seen a s (?s\<lparr>tcpip_tcp_timer_active := False\<rparr>) (ys, False, w)" using d by (auto simp: y seen_def view_of_def)
    then show ?thesis using r [of 250 Tcpip_tcp_timer] unfolding Tcpip_tcp_timer v
      by (simp add: tcpip_tcp_timer_def tm w y TCP_TMR_INTERVAL_def Let_def)
  next
    case Ip_reass_timer
    show ?thesis using r [of 1000 Ip_reass_timer] unfolding Ip_reass_timer v by (simp add: ip_reass_timer_def tm p IP_TMR_INTERVAL_def)
  next
    case Arp_timer
    show ?thesis using r [of 5000 Arp_timer] unfolding Arp_timer v by (simp add: arp_timer_def tm p ARP_TMR_INTERVAL_def)
  next
    case Dhcp_timer_coarse
    show ?thesis using r [of 60000 Dhcp_timer_coarse] unfolding Dhcp_timer_coarse v
      by (simp add: dhcp_timer_coarse_def tm p DHCP_COARSE_TIMER_MSECS_def)
  next
    case Dhcp_timer_fine
    show ?thesis using r [of 500 Dhcp_timer_fine] unfolding Dhcp_timer_fine v
      by (simp add: dhcp_timer_fine_def tm p DHCP_FINE_TIMER_MSECS_def)
  next
    case (App_timer n)
    have "seen a s (fold (do_action e) (f (App_timer n) arg (tm_world s)) s)
        (fold (abs_action g a) (f (App_timer n) arg (tm_world s)) (xs, b, tm_world s))" using do unfolding v .
    then show ?thesis unfolding App_timer v by (simp add: tm)
  qed
qed

lemma sys_fire_seen:
  assumes e: "acts f g e" and s: "timers_ok s" "next_timeout s = t # ts"
  shows "seen (a + tmo_time t) (s\<lparr>timeouts_last_time := now\<rparr>) (sys_fire e now t ts s)
    (run_timer f g (a + tmo_time t) (tmo_h t) (tmo_arg t) (expiries (a + tmo_time t) ts, tcpip_tcp_timer_active s, tm_world s))"
proof -
  let ?s = "s\<lparr>timeouts_last_time := now, next_timeout := ts, tm_pools := memp_free MEMP_SYS_TIMEOUT (Some (tmo_id t)) (tm_pools s)\<rparr>"
  have ok: "timers_ok ?s" by (rule dequeue_ok [OF s])
  have v: "view_of c ?s = (expiries c ts, tcpip_tcp_timer_active s, tm_world s)" for c by (simp add: view_of_def)
  show ?thesis
  proof (cases "tmo_h t")
    case None
    then show ?thesis using ok by (simp add: sys_fire_def seen_def v)
  next
    case (Some h)
    then show ?thesis using call_handler_seen [OF e ok, of "a + tmo_time t" h "tmo_arg t"] unfolding v
      by (simp add: sys_fire_def seen_def Let_def)
  qed
qed


text \<open>The two loops go in step.\<close>

lemma view_Cons: "next_timeout s = t # ts \<Longrightarrow> view_of a s =
    ((a + tmo_time t, tmo_h t, tmo_arg t) # expiries (a + tmo_time t) ts, tcpip_tcp_timer_active s, tm_world s)"
  by (simp add: view_of_def)

lemma loop_step:
  assumes e: "acts f g e" and s: "timers_ok s" "next_timeout s = t # ts" and d: "d - a < 4294967296" "a + tmo_time t \<le> d" "a \<le> d"
  shows "sys_check_loop e now (d - a) s = sys_check_loop e now (d - (a + tmo_time t)) (sys_fire e now t ts s)"
    "event_loop f g d log a (view_of a s) =
       event_loop f g d (log @ [(a + tmo_time t, tmo_h t, tmo_arg t)]) (a + tmo_time t) (view_of (a + tmo_time t) (sys_fire e now t ts s))"
    "timers_ok (sys_fire e now t ts s)" "timeouts_last_time (sys_fire e now t ts s) = now" "0 \<le> tmo_time t"
proof -
  note f = sys_fire_seen [OF e s, of a now]
  show t: "0 \<le> tmo_time t" using s by (simp add: timers_ok_def)
  have "c_u32 (d - a - tmo_time t) = d - (a + tmo_time t)" using d t by (simp add: c_conv)
  then show "sys_check_loop e now (d - a) s = sys_check_loop e now (d - (a + tmo_time t)) (sys_fire e now t ts s)"
    using d s(2) by (simp add: sys_check_loop.simps [of e now "d - a" s])
  show "event_loop f g d log a (view_of a s) =
       event_loop f g d (log @ [(a + tmo_time t, tmo_h t, tmo_arg t)]) (a + tmo_time t) (view_of (a + tmo_time t) (sys_fire e now t ts s))"
    using d(2) f unfolding view_Cons [OF s(2)] by (simp add: event_loop.simps [of f g d log a] seen_def)
  show "timers_ok (sys_fire e now t ts s)" "timeouts_last_time (sys_fire e now t ts s) = now" using f by (simp_all add: seen_def)
qed

lemma loop_stop:
  assumes "next_timeout s = [] \<or> (\<exists>t ts. next_timeout s = t # ts \<and> d < a + tmo_time t)"
  shows "sys_check_loop e now (d - a) s = Some s" "event_loop f g d log a (view_of a s) = Some (log, a, view_of a s)"
  using assms by (auto simp: sys_check_loop.simps [of e now "d - a" s] event_loop.simps [of f g d log a] view_of_def)

lemma loop_cases:
  obtains "next_timeout s = [] \<or> (\<exists>t ts. next_timeout s = t # ts \<and> d < a + tmo_time t)"
  | t ts where "next_timeout s = t # ts" "a + tmo_time t \<le> d"
  by (cases "next_timeout s") (auto simp: not_less [symmetric])

lemma sys_check_loop_seen:
  assumes "acts f g e" "sys_check_loop e now diff s = Some s'" "timers_ok s" "diff = d - a" "0 \<le> diff" "diff < 4294967296"
  shows "\<exists>log' a' v. event_loop f g d log a (view_of a s) = Some (log @ log', a', v) \<and> timers_ok s' \<and> view_of a' s' = v \<and>
    timeouts_last_time s' = (if log' = [] then timeouts_last_time s else now)"
proof -
  have "\<forall>a log. acts f g e \<longrightarrow> timers_ok s \<longrightarrow> diff = d - a \<longrightarrow> 0 \<le> diff \<longrightarrow> diff < 4294967296 \<longrightarrow>
    (\<exists>log' a' v. event_loop f g d log a (view_of a s) = Some (log @ log', a', v) \<and> timers_ok s' \<and> view_of a' s' = v \<and>
    timeouts_last_time s' = (if log' = [] then timeouts_last_time s else now))"
  proof (rule sys_check_loop.raw_induct [OF _ assms(2), where P = "\<lambda>e now diff s s'.
      \<forall>a log. acts f g e \<longrightarrow> timers_ok s \<longrightarrow> diff = d - a \<longrightarrow> 0 \<le> diff \<longrightarrow> diff < 4294967296 \<longrightarrow>
        (\<exists>log' a' v. event_loop f g d log a (view_of a s) = Some (log @ log', a', v) \<and> timers_ok s' \<and> view_of a' s' = v \<and>
          timeouts_last_time s' = (if log' = [] then timeouts_last_time s else now))"], goal_cases)
    case (1 rec e now diff s s')
    show ?case
    proof (intro allI impI)
      fix a log assume e: "acts f g e" and s: "timers_ok s" and d: "diff = d - a" "0 \<le> diff" "diff < 4294967296"
      show "\<exists>log' a' v. event_loop f g d log a (view_of a s) = Some (log @ log', a', v) \<and> timers_ok s' \<and> view_of a' s' = v \<and>
          timeouts_last_time s' = (if log' = [] then timeouts_last_time s else now)"
      proof (cases rule: loop_cases [of s d a])
        case 1
        then have "s' = s" using \<open>(case next_timeout s of [] \<Rightarrow> Some s | t # ts \<Rightarrow> _ t ts) = Some s'\<close> d(1) by auto
        then show ?thesis using loop_stop(2) [OF 1] s by (intro exI [of _ "[]"]) simp
      next
        case (2 t ts)
        have "d - a < 4294967296" "a \<le> d" using d by simp_all
        note st = loop_step(1) [OF e s 2(1) this(1) 2(2) this(2), where now = now] loop_step(2) [OF e s 2(1) this(1) 2(2) this(2), where now = now and log = log]
          loop_step(3,4) [OF e s 2(1) this(1) 2(2) this(2), where now = now] loop_step(5) [OF e s 2(1) this(1) 2(2) this(2)]
        have "c_u32 (diff - tmo_time t) = d - (a + tmo_time t)" using d st(5) 2(2) by (simp add: c_conv)
        then have "rec e now (d - (a + tmo_time t)) (sys_fire e now t ts s) = Some s'" using 1(2) 2 d(1) by simp
        note ih = 1(1) [OF this, rule_format, of "a + tmo_time t" "log @ [(a + tmo_time t, tmo_h t, tmo_arg t)]", OF e st(3) refl]
        have "\<exists>log' a' v. event_loop f g d (log @ [(a + tmo_time t, tmo_h t, tmo_arg t)]) (a + tmo_time t) (view_of (a + tmo_time t) (sys_fire e now t ts s)) =
            Some ((log @ [(a + tmo_time t, tmo_h t, tmo_arg t)]) @ log', a', v) \<and> timers_ok s' \<and> view_of a' s' = v \<and>
            timeouts_last_time s' = (if log' = [] then timeouts_last_time (sys_fire e now t ts s) else now)"
          by (rule ih) (use st(5) d 2(2) in auto)
        then obtain log' a' v where
          "event_loop f g d (log @ [(a + tmo_time t, tmo_h t, tmo_arg t)]) (a + tmo_time t) (view_of (a + tmo_time t) (sys_fire e now t ts s)) =
            Some ((log @ [(a + tmo_time t, tmo_h t, tmo_arg t)]) @ log', a', v)" "timers_ok s'" "view_of a' s' = v"
          "timeouts_last_time s' = (if log' = [] then timeouts_last_time (sys_fire e now t ts s) else now)" by blast
        then show ?thesis unfolding st(2) using st(4)
          by (intro exI [of _ "(a + tmo_time t, tmo_h t, tmo_arg t) # log'"] exI [of _ a'] exI [of _ v]) simp
      qed
    qed
  qed
  then show ?thesis using assms by blast
qed

lemma event_loop_run:
  assumes "acts f g e" "event_loop f g d log a (view_of a s) = Some r" "timers_ok s" "a \<le> d" "d - a < 4294967296"
  shows "\<exists>s'. sys_check_loop e now (d - a) s = Some s'"
proof -
  have "f = f \<longrightarrow> g = g \<longrightarrow> (\<forall>s'. view_of a s = view_of a s' \<longrightarrow> timers_ok s' \<longrightarrow>
      a \<le> d \<longrightarrow> d - a < 4294967296 \<longrightarrow> (\<exists>s''. sys_check_loop e now (d - a) s' = Some s''))"
  proof (rule event_loop.raw_induct [OF _ assms(2), where P = "\<lambda>f' g' d log a v r. f' = f \<longrightarrow> g' = g \<longrightarrow> (\<forall>s. v = view_of a s \<longrightarrow> timers_ok s \<longrightarrow>
      a \<le> d \<longrightarrow> d - a < 4294967296 \<longrightarrow> (\<exists>s'. sys_check_loop e now (d - a) s = Some s'))"], goal_cases)
    case (1 rec f' g' d log a v r)
    show ?case
    proof (intro allI impI)
      fix s assume s: "f' = f" "g' = g" "v = view_of a s" "timers_ok s" "a \<le> d" "d - a < 4294967296"
      show "\<exists>s'. sys_check_loop e now (d - a) s = Some s'"
      proof (cases rule: loop_cases [of s d a])
        case 1
        then show ?thesis using loop_stop(1) [OF 1] by blast
      next
        case (2 t ts)
        note st = loop_step(1) [OF assms(1) s(4) 2(1) s(6) 2(2) s(5), where now = now] loop_step(2) [OF assms(1) s(4) 2(1) s(6) 2(2) s(5), where now = now and log = log]
            loop_step(3,4) [OF assms(1) s(4) 2(1) s(6) 2(2) s(5), where now = now] loop_step(5) [OF assms(1) s(4) 2(1) s(6) 2(2) s(5)] and f = sys_fire_seen [OF assms(1) s(4) 2(1), of a now]
        have "rec f g d (log @ [(a + tmo_time t, tmo_h t, tmo_arg t)]) (a + tmo_time t) (view_of (a + tmo_time t) (sys_fire e now t ts s)) = Some r"
          using 1(2) 2(2) f unfolding s(1-3) view_Cons [OF 2(1)] by (simp add: seen_def)
        from 1(1) [OF this] show ?thesis unfolding st(1) using st(3,5) s(5,6) 2(2) by simp
      qed
    qed
  qed
  then show ?thesis using assms by blast
qed

section \<open>The event loop runs the timers that are due\<close>

text \<open>The timers in the order of their times, none before \<open>a\<close>.\<close>

definition timely :: "int \<Rightarrow> expiry list \<Rightarrow> bool" where
  "timely a xs \<longleftrightarrow> sorted (map fst xs) \<and> (\<forall>x\<in>set xs. a \<le> fst x)"

lemma sorted_place: "sorted (map fst xs) \<Longrightarrow> sorted (map fst (place x xs))"
proof (induction xs)
  case (Cons y ys)
  then show ?case using place_mset(1) [of x ys] by auto
qed simp

lemma set_drop_first: "set (drop_first p xs) \<subseteq> set xs"
  by (induction xs) auto

lemma sorted_drop_first: "sorted (map fst xs) \<Longrightarrow> sorted (map fst (drop_first p xs))"
proof (induction xs)
  case (Cons y ys)
  then show ?case using set_drop_first [of p ys] by auto
qed simp

lemma timely_add: "timely a xs \<Longrightarrow> a \<le> t \<Longrightarrow> timely a (add_expiry t h arg xs)"
  by (simp add: timely_def add_expiry_def sorted_place place_mset)

lemma timely_drop: "timely a xs \<Longrightarrow> timely a (drop_first p xs)"
  using set_drop_first [of p xs] by (auto simp: timely_def sorted_drop_first)

text \<open>What a handler adds to the timers \<open>ys\<close> expires after \<open>a\<close>, and there are never more than eight.\<close>

definition spawns :: "int \<Rightarrow> expiry list \<Rightarrow> expiry list \<Rightarrow> bool" where
  "spawns a ys xs \<longleftrightarrow> (\<forall>x\<in>#mset xs - mset ys. a < fst x) \<and> length xs \<le> 8"

lemma mset_place: "mset (place x xs) = add_mset x (mset xs)"
  by (induction xs) auto

lemma mset_drop_first: "mset (drop_first p xs) \<subseteq># mset xs"
  by (induction xs) (auto intro: subset_mset.order_trans)

lemma length_drop_first: "length (drop_first p xs) \<le> length xs"
  by (induction xs) auto

lemma spawns_add: "spawns a ys xs \<Longrightarrow> a < t \<Longrightarrow> spawns a ys (add_expiry t h arg xs)"
  by (auto simp: spawns_def add_expiry_def place_mset mset_place in_diff_count split: if_splits)

lemma spawns_drop:
  assumes "spawns a ys xs"
  shows "spawns a ys (drop_first p xs)"
proof -
  have "a < fst x" if "x \<in># mset (drop_first p xs) - mset ys" for x
  proof -
    have "count (mset ys) x < count (mset (drop_first p xs)) x" using that by (simp only: in_diff_count)
    also have "\<dots> \<le> count (mset xs) x" by (rule mset_subset_eq_count [OF mset_drop_first])
    finally show ?thesis using assms by (simp only: spawns_def in_diff_count)
  qed
  then show ?thesis using length_drop_first [of p xs] assms by (simp add: spawns_def)
qed

text \<open>Actions that start no timer of 0 ms, and the timers that start themselves.\<close>

definition positive :: "(sys_timeout_handler \<Rightarrow> int \<Rightarrow> 'w \<Rightarrow> 'w action list) \<Rightarrow> bool" where
  "positive f \<longleftrightarrow> (\<forall>h arg w h' arg'. Start 0 h' arg' \<notin> set (f h arg w))"

lemma run_timer_timely:
  assumes e: "acts f g e" and v: "timely a (fst v)"
  shows "timely a (fst (run_timer f g a h arg v))"
proof -
  have act: "timely a (fst (abs_action g a x v))" if "x \<in> set (f h arg w)" "timely a (fst v)" for x h arg w v
  proof -
    have "0 \<le> m" if "x = Start m h' arg'" for m h' arg' using that \<open>x \<in> set (f h arg w)\<close> e unfolding acts_def by blast
    then show ?thesis using that(2) by (cases v; cases x) (auto simp: timely_add timely_drop TCP_TMR_INTERVAL_def)
  qed
  have acts: "timely a (fst (fold (abs_action g a) xs v))" if "set xs \<subseteq> set (f h arg w)" "timely a (fst v)" for xs h arg w v
    using that
  proof (induction xs arbitrary: v)
    case (Cons x xs)
    then show ?case using act [of x h arg w v] by simp
  qed simp
  have re: "timely a (fst (rearm g a h v))" if "timely a (fst v)" for h v
    using that by (cases v; cases h) (auto simp: timely_add)
  obtain xs b w where "v = (xs, b, w)" by (rule prod_cases3)
  then show ?thesis using v
    by (cases "(f, g, a, h, arg, v)" rule: run_timer.cases) (auto intro!: re acts [OF order_refl])
qed

lemma run_timer_spawns:
  assumes f: "acts f g e" "positive f" and v: "spawns a ys (fst v)"
  shows "spawns a ys (fst (run_timer f g a h arg v))"
proof -
  have act: "spawns a ys (fst (abs_action g a x v))" if "x \<in> set (f h arg w)" "spawns a ys (fst v)" for x h arg w v
  proof -
    have "0 \<le> m \<and> m \<noteq> 0" if "x = Start m h' arg'" for m h' arg'
      using that \<open>x \<in> set (f h arg w)\<close> f unfolding acts_def positive_def by blast
    then have "0 < m" if "x = Start m h' arg'" for m h' arg' using that by force
    then show ?thesis using that(2) by (cases v; cases x) (auto simp: spawns_add spawns_drop TCP_TMR_INTERVAL_def)
  qed
  have acts: "spawns a ys (fst (fold (abs_action g a) xs v))" if "set xs \<subseteq> set (f h arg w)" "spawns a ys (fst v)" for xs h arg w v
    using that
  proof (induction xs arbitrary: v)
    case (Cons x xs)
    then show ?case using act [of x h arg w v] by simp
  qed simp
  have re: "spawns a ys (fst (rearm g a h v))" if "spawns a ys (fst v)" for h v
    using that by (cases v; cases h) (auto simp: spawns_add)
  obtain xs b w where "v = (xs, b, w)" by (rule prod_cases3)
  then show ?thesis using v
    by (cases "(f, g, a, h, arg, v)" rule: run_timer.cases) (auto intro!: re acts [OF order_refl])
qed

lemma event_loop_log:
  assumes e: "acts f g e" and run: "event_loop f g d log a v = Some (log', a', v')"
    and v: "timely a (fst v)" and l: "sorted (map fst log)" "\<forall>x\<in>set log. fst x \<le> a" "a \<le> d"
  shows "sorted (map fst log') \<and> (\<forall>x\<in>set log'. fst x \<le> d) \<and> (\<forall>x\<in>set (fst v'). d < fst x) \<and>
    (log' = log \<and> a' = a \<or> log' \<noteq> [] \<and> a' = fst (last log'))"
proof -
  have "f = f \<longrightarrow> g = g \<longrightarrow> timely a (fst v) \<longrightarrow> sorted (map fst log) \<longrightarrow> (\<forall>x\<in>set log. fst x \<le> a) \<longrightarrow> a \<le> d \<longrightarrow>
    sorted (map fst (fst (log', a', v'))) \<and> (\<forall>x\<in>set (fst (log', a', v')). fst x \<le> d) \<and> (\<forall>x\<in>set (fst (snd (snd (log', a', v')))). d < fst x) \<and>
    (fst (log', a', v') = log \<and> fst (snd (log', a', v')) = a \<or> fst (log', a', v') \<noteq> [] \<and> fst (snd (log', a', v')) = fst (last (fst (log', a', v'))))"
  proof (rule event_loop.raw_induct [OF _ run, where P = "\<lambda>f' g' d log a v r. f' = f \<longrightarrow> g' = g \<longrightarrow> timely a (fst v) \<longrightarrow> sorted (map fst log) \<longrightarrow>
      (\<forall>x\<in>set log. fst x \<le> a) \<longrightarrow> a \<le> d \<longrightarrow>
      sorted (map fst (fst r)) \<and> (\<forall>x\<in>set (fst r). fst x \<le> d) \<and> (\<forall>x\<in>set (fst (snd (snd r))). d < fst x) \<and>
      (fst r = log \<and> fst (snd r) = a \<or> fst r \<noteq> [] \<and> fst (snd r) = fst (last (fst r)))"], goal_cases)
    case (1 rec f' g' d log a v r)
    show ?case
    proof (intro impI)
      assume s: "f' = f" "g' = g" "timely a (fst v)" "sorted (map fst log)" "\<forall>x\<in>set log. fst x \<le> a" "a \<le> d"
      obtain xs b w where v: "v = (xs, b, w)" by (rule prod_cases3)
      show "sorted (map fst (fst r)) \<and> (\<forall>x\<in>set (fst r). fst x \<le> d) \<and> (\<forall>x\<in>set (fst (snd (snd r))). d < fst x) \<and>
        (fst r = log \<and> fst (snd r) = a \<or> fst r \<noteq> [] \<and> fst (snd r) = fst (last (fst r)))"
      proof (cases "\<exists>x ys. xs = x # ys \<and> fst x \<le> d")
        case False
        then have "r = (log, a, v)" using 1(2) v by (auto split: list.splits if_splits)
        moreover have "d < fst x" if "x \<in> set xs" for x using False that s(3) v by (cases xs) (fastforce simp: timely_def)+
        ultimately show ?thesis using s v by fastforce
      next
        case True
        then obtain x ys where x: "xs = x # ys" "fst x \<le> d" by blast
        have t: "timely (fst x) ys" "a \<le> fst x" using s(3) v x by (auto simp: timely_def)
        let ?v = "run_timer f g (fst x) (fst (snd x)) (snd (snd x)) (ys, b, w)"
        have "timely (fst x) (fst ?v)" by (rule run_timer_timely [OF e]) (simp add: t)
        moreover have "rec f g d (log @ [x]) (fst x) ?v = Some r" using 1(2) v x s(1,2) by simp
        moreover have "sorted (map fst (log @ [x]))" using s(4,5) t(2) by (fastforce simp: sorted_append)
        moreover have "\<forall>y\<in>set (log @ [x]). fst y \<le> fst x" using s(5) t(2) by fastforce
        ultimately show ?thesis using 1(1) [of f g d "log @ [x]" "fst x" ?v r] x(2) by fastforce
      qed
    qed
  qed
  then show ?thesis using v l by simp
qed

text \<open>Each timer run makes the sum of these weights smaller, even if it starts eight timers.\<close>

definition weight :: "int \<Rightarrow> expiry \<Rightarrow> nat" where
  "weight d x = (if fst x \<le> d then 9 ^ nat (d - fst x) else 0)"

definition weights :: "int \<Rightarrow> expiry multiset \<Rightarrow> nat" where
  "weights d M = (\<Sum>x\<in>#M. weight d x)"

lemma weights_le: "\<forall>x\<in>#M. weight d x \<le> k \<Longrightarrow> weights d M \<le> size M * k"
  by (induction M) (auto simp: weights_def add_mono)

lemma weights_spawned:
  assumes "spawns t ys xs" "t \<le> d"
  shows "weights d (mset xs) < weights d (mset ys) + 9 ^ nat (d - t)"
proof -
  define k :: nat where "k = (if d = t then 0 else 9 ^ (nat (d - t) - 1))"
  have k: "8 * k < 9 ^ nat (d - t)"
    by (cases "nat (d - t)") (use assms(2) in \<open>auto simp: k_def\<close>)
  have "weight d x \<le> k" if "t < fst x" for x
  proof (cases "fst x \<le> d")
    case True
    then have "(9 :: nat) ^ nat (d - fst x) \<le> 9 ^ (nat (d - t) - 1)" using that by (intro power_increasing) auto
    then show ?thesis using True that by (auto simp: weight_def k_def)
  qed (simp add: weight_def)
  then have "weights d (mset xs - mset ys) \<le> size (mset xs - mset ys) * k"
    using assms(1) by (intro weights_le) (auto simp: spawns_def)
  also have "\<dots> \<le> 8 * k" using assms(1) size_mset_mono [OF diff_subset_eq_self [of "mset xs" "mset ys"]]
    by (intro mult_right_mono) (auto simp: spawns_def)
  finally have n: "weights d (mset xs - mset ys) < 9 ^ nat (d - t)" using k by linarith
  have e: "weights d (M + N) = weights d M + weights d N" for M N by (simp add: weights_def)
  have "mset xs = (mset xs - mset ys) + (mset xs \<inter># mset ys)"
    by (rule multiset_eqI) simp
  then have "weights d (mset xs) = weights d (mset xs - mset ys) + weights d (mset xs \<inter># mset ys)"
    using e [of "mset xs - mset ys" "mset xs \<inter># mset ys"] by simp
  moreover have "mset ys = (mset xs \<inter># mset ys) + (mset ys - mset xs)"
    by (rule multiset_eqI) simp
  then have "weights d (mset xs \<inter># mset ys) \<le> weights d (mset ys)"
    using e [of "mset xs \<inter># mset ys" "mset ys - mset xs"] by simp
  ultimately show ?thesis using n by linarith
qed

lemma event_loop_returns:
  assumes "acts f g e" "positive f" "length (fst v) \<le> 8"
  shows "event_loop f g d log a v \<noteq> None"
  using assms(3)
proof (induction "weights d (mset (fst v))" arbitrary: log a v rule: less_induct)
  case less
  obtain xs b w where v: "v = (xs, b, w)" by (rule prod_cases3)
  show ?case
  proof (cases "\<exists>x ys. xs = x # ys \<and> fst x \<le> d")
    case False
    then show ?thesis unfolding v by (subst event_loop.simps) (auto split: list.split)
  next
    case True
    then obtain x ys where x: "xs = x # ys" "fst x \<le> d" by blast
    let ?v = "run_timer f g (fst x) (fst (snd x)) (snd (snd x)) (ys, b, w)"
    have s: "spawns (fst x) ys (fst ?v)"
      by (rule run_timer_spawns [OF assms(1,2)]) (use less.prems x v in \<open>simp add: spawns_def\<close>)
    have "weights d (mset (fst ?v)) < weights d (mset (fst v))"
      using weights_spawned [OF s x(2)] x v by (simp add: weights_def weight_def)
    then have "event_loop f g d (log @ [x]) (fst x) ?v \<noteq> None" by (rule less.hyps) (use s in \<open>simp add: spawns_def\<close>)
    then show ?thesis using x unfolding v by (subst event_loop.simps) simp
  qed
qed

section \<open>Properties\<close>

text \<open>C26: with any handlers, those of the stack that start themselves again and those that start and stop timers of
  their own included, \<open>sys_check_timeouts\<close> does what the event loop up to the time since the last check does, and does
  not return only if that does not; this cannot happen if no handler asks for a time of 0 ms.  The timers run are those
  that are due, in the order of their times, and none that is due is left.  The times left count from the last timer that
  was run, but \<open>timeouts_last_time\<close> is \<open>now\<close>, so every later timer is late by as much as the check was.\<close>
theorem sys_check_timeouts_runs:
  assumes "acts f g e" and "timers_ok s" and "d = c_u32 (now - timeouts_last_time s)"
  shows "(case event_loop f g d [] 0 (view_of 0 s) of
       None \<Rightarrow> sys_check_timeouts e now s = None
     | Some (log, a, v) \<Rightarrow> \<exists>s'. sys_check_timeouts e now s = Some s' \<and> timers_ok s' \<and> view_of a s' = v \<and>
         timeouts_last_time s' = (if log = [] then timeouts_last_time s else now) \<and>
         sorted (map fst log) \<and> (\<forall>x\<in>set log. fst x \<le> d) \<and> (\<forall>x\<in>set (fst v). d < fst x) \<and>
         a = (if log = [] then 0 else fst (last log))) \<and>
    (positive f \<longrightarrow> (\<exists>s'. sys_check_timeouts e now s = Some s'))"
proof -
  have d: "0 \<le> d" "d - 0 < 4294967296" "d = d - 0" using assms(3) by (simp_all add: c_u32_def)
  have run: "sys_check_timeouts e now s = sys_check_loop e now d s"
    unfolding assms(3) by (simp add: sys_check_timeouts_def sys_check_loop.simps [of e now "c_u32 (now - timeouts_last_time s)" s])
  have dl: "deltas_ok 0 (next_timeout s)" using assms(2) by (simp add: timers_ok_def)
  have v: "timely 0 (fst (view_of 0 s))" using expiries_sorted [OF dl] expiries_ge [OF dl] by (auto simp: timely_def view_of_def)
  have len: "length (fst (view_of 0 s)) \<le> 8" using timers_ok_length [OF assms(2)] by (simp add: view_of_def)
  show ?thesis
  proof (cases "event_loop f g d [] 0 (view_of 0 s)")
    case None
    have "sys_check_loop e now d s = None"
    proof (cases "sys_check_loop e now d s")
      case (Some s')
      then show ?thesis using sys_check_loop_seen [OF assms(1) Some assms(2) d(3,1), of "[]"] d(2) None by simp
    qed
    then show ?thesis using None run event_loop_returns [OF assms(1) _ len, of d "[]" 0] by auto
  next
    case (Some r)
    obtain log a v' where r: "r = (log, a, v')" by (rule prod_cases3)
    obtain s' where s': "sys_check_loop e now d s = Some s'" using event_loop_run [OF assms(1) Some assms(2) d(1,2)] by auto
    have "d < 4294967296" using d(2) by simp
    from sys_check_loop_seen [OF assms(1) s' assms(2) d(3,1) this, of "[]"]
    obtain log' a' v'' where "event_loop f g d [] 0 (view_of 0 s) = Some ([] @ log', a', v'')" "timers_ok s'" "view_of a' s' = v''"
      "timeouts_last_time s' = (if log' = [] then timeouts_last_time s else now)" by blast
    then have "timers_ok s' \<and> view_of a s' = v' \<and> timeouts_last_time s' = (if log = [] then timeouts_last_time s else now)"
      using Some r by simp
    moreover have "sorted (map fst log) \<and> (\<forall>x\<in>set log. fst x \<le> d) \<and> (\<forall>x\<in>set (fst v'). d < fst x) \<and>
      a = (if log = [] then 0 else fst (last log))"
      using event_loop_log [OF assms(1) Some [unfolded r] v] d(1) by auto
    ultimately show ?thesis using s' unfolding run Some r by simp
  qed
qed

section \<open>Witnesses\<close>

text \<open>The handlers of the stack do nothing but start themselves again; application timer 1 notes itself and starts
  timer 2 for 100 ms later.\<close>

definition demo_acts :: "sys_timeout_handler \<Rightarrow> int \<Rightarrow> nat list \<Rightarrow> nat list action list" where
  "demo_acts h arg w = (case h of App_timer n \<Rightarrow> World (n # w) blank_pools # (if n = 1 then [Start 100 (Some (App_timer 2)) 0] else []) | _ \<Rightarrow> [])"

definition demo_env :: "nat list timer_env" where
  "demo_env = \<lparr>env_tcp_tmr = (\<lambda>s. s), env_ip_reass_tmr = (\<lambda>s. s), env_etharp_tmr = (\<lambda>s. s),
     env_dhcp_coarse_tmr = (\<lambda>s. s), env_dhcp_fine_tmr = (\<lambda>s. s), env_tcp_pcbs = (\<lambda>s. False),
     env_app = (\<lambda>n arg s. (if n = 1 then sys_timeout 100 (Some (App_timer 2)) 0 else (\<lambda>s. s)) (s\<lparr>tm_world := n # tm_world s, tm_pools := other_pools blank_pools (tm_pools s)\<rparr>))\<rparr>"

lemma demo_acts_ok: "acts demo_acts (\<lambda>w. False) demo_env" "positive demo_acts"
  by (auto simp: acts_def positive_def demo_acts_def demo_env_def split: sys_timeout_handler.splits if_splits)

text \<open>The timers of the stack as \<open>sys_timeouts_init\<close> starts them, and application timer 1 at 450 ms.\<close>

definition demo_timers :: "nat list timers" where
  "demo_timers = sys_timeout 450 (Some (App_timer 1)) 0 (sys_timeouts_init 0 timers0)"

lemma demo_timers_ok:
  "timers_ok demo_timers" "timeouts_last_time demo_timers = 0"
  "view_of 0 demo_timers = ([(450, Some (App_timer 1), 0), (500, Some Dhcp_timer_fine, 0), (1000, Some Ip_reass_timer, 0),
     (5000, Some Arp_timer, 0), (60000, Some Dhcp_timer_coarse, 0)], False, [])"
proof -
  let ?s = "sys_timeouts_init 0 timers0"
  have i: "timers_ok ?s" "expiries 0 (next_timeout ?s) = [(500, Some Dhcp_timer_fine, 0), (1000, Some Ip_reass_timer, 0),
      (5000, Some Arp_timer, 0), (60000, Some Dhcp_timer_coarse, 0)]"
    using sys_timeouts_init_ok [OF timers0_ok, of 0] by (simp_all add: timers0_def)
  have k: "tcpip_tcp_timer_active ?s = False" "tm_world ?s = []" "timeouts_last_time ?s = 0"
    by (simp_all add: sys_timeouts_init_def sys_timeout_keeps Let_def timers0_def)
  note sp = sys_timeout_spec [OF i(1), of 450 "Some (App_timer 1)" 0, folded demo_timers_def]
  show "timers_ok demo_timers" using sp by simp
  show "timeouts_last_time demo_timers = 0" by (simp add: demo_timers_def sys_timeout_keeps k)
  have "expiries 0 (next_timeout demo_timers) = add_expiry 450 (Some (App_timer 1)) 0 (expiries 0 (next_timeout ?s))" using sp by simp
  then show "view_of 0 demo_timers = ([(450, Some (App_timer 1), 0), (500, Some Dhcp_timer_fine, 0), (1000, Some Ip_reass_timer, 0),
     (5000, Some Arp_timer, 0), (60000, Some Dhcp_timer_coarse, 0)], False, [])"
    unfolding view_of_def by (simp add: i(2) add_expiry_def) (simp add: demo_timers_def sys_timeout_keeps k)
qed

text \<open>A check after 1249 ms: five timers are run, two of them started meanwhile.  The fine timer of DHCP, due 1500 ms after
  the start, then counts from 1249 and is run only at 1749.\<close>

theorem sys_check_timeouts_runs_witness:
  "\<exists>s'. sys_check_timeouts demo_env 1249 demo_timers = Some s' \<and> timers_ok s' \<and> tm_world s' = [2, 1] \<and> timeouts_last_time s' = 1249 \<and>
     expiries 1000 (next_timeout s') = [(1500, Some Dhcp_timer_fine, 0), (2000, Some Ip_reass_timer, 0), (5000, Some Arp_timer, 0),
       (60000, Some Dhcp_timer_coarse, 0)]"
proof -
  have d: "1249 = c_u32 (1249 - timeouts_last_time demo_timers)" by (simp add: demo_timers_ok c_u32_def)
  have l: "event_loop demo_acts (\<lambda>w. False) 1249 [] 0 (view_of 0 demo_timers) =
      Some ([(450, Some (App_timer 1), 0), (500, Some Dhcp_timer_fine, 0), (550, Some (App_timer 2), 0), (1000, Some Ip_reass_timer, 0),
        (1000, Some Dhcp_timer_fine, 0)], 1000,
        ([(1500, Some Dhcp_timer_fine, 0), (2000, Some Ip_reass_timer, 0), (5000, Some Arp_timer, 0), (60000, Some Dhcp_timer_coarse, 0)], False, [2, 1]))"
    unfolding demo_timers_ok(3) by (simp add: event_loop.simps demo_acts_def add_expiry_def)
  show ?thesis using sys_check_timeouts_runs [OF demo_acts_ok(1) demo_timers_ok(1) d] unfolding l by (auto simp: view_of_def)
qed

end
