(* ===== verification/IcmpProps.thy ===== *)
theory IcmpProps
  imports IpProps
begin

text \<open>
  Ping: what \<open>icmp_input\<close> makes of an echo request, down to the frame in the transmit ring.
\<close>

declare split_paired_All [simp del] split_paired_Ex [simp del]

section \<open>The checksum of a packet\<close>

lemma pbuf_segments_spec:
  "chain m p xs \<Longrightarrow> pbuf_segments p m =
     Some (map (\<lambda>x. (fst (pb_payload (p_pbufs m x)), snd (pb_payload (p_pbufs m x)), pb_len (p_pbufs m x))) xs)"
proof (induction xs arbitrary: p)
  case Nil
  then show ?case by (simp add: pbuf_segments.simps [of None])
next
  case (Cons x xs)
  then have "p = Some x" "chain m (pb_next (p_pbufs m x)) xs" by simp_all
  then show ?case using Cons.IH by (subst pbuf_segments.simps) (simp add: Let_def)
qed

lemma packet_chksum:
  assumes "packet m (Some p) xs"
  shows "\<exists>segs. pbuf_segments (Some p) m = Some segs \<and> inet_chksum_pbuf (p_bytes m) segs = NOT (inet_sum (data m xs))"
proof -
  let ?segs = "map (\<lambda>x. (fst (pb_payload (p_pbufs m x)), snd (pb_payload (p_pbufs m x)), pb_len (p_pbufs m x))) xs"
  have "0 \<le> pb_len (p_pbufs m x) \<and> pb_len (p_pbufs m x) \<le> 65535" if "x \<in> set xs" for x
    using assms that
  proof (induction xs arbitrary: p)
    case (Cons y ys)
    then show ?case using tot_nonneg [of m ys] by (cases ys) (auto simp: packet_def)
  qed simp
  then have "chain_ok ?segs" by (auto simp: chain_ok_def)
  moreover have "chain_bytes (p_bytes m) ?segs = data m xs"
    by (induction xs) (simp_all add: chain_bytes_def pb_data_def read_bytes_def)
  ultimately have "inet_chksum_pbuf (p_bytes m) ?segs = NOT (inet_sum (data m xs))"
    using inet_chksum_pbuf_sum [of ?segs "p_bytes m"] by simp
  moreover have "pbuf_segments (Some p) m = Some ?segs" using pbuf_segments_spec assms by (simp add: packet_def)
  ultimately show ?thesis by blast
qed

section \<open>The answer\<close>

lemma get32_read: "read_bytes (ptr_add h k) 4 m = u32_bytes w \<Longrightarrow> get32 h k m = w"
  using u32_bytes_inj [of "get32 h k m" w]
  by (simp add: get32_def load32_def u32_bytes_le read_bytes_def bytes_def ptr_add_def upt_rec add.assoc)

definition echo_reply :: "u8_t list \<Rightarrow> u32_t \<Rightarrow> u32_t \<Rightarrow> u8_t list" where
  "echo_reply d src dest =
     take 8 d @ [ICMP_TTL, d ! 9, 0, 0] @ u32_bytes src @ u32_bytes dest @ [ICMP_ER, d ! 21, 0, 0] @ drop 24 d"

lemma length_28: "length xs = 28 \<Longrightarrow> \<exists>a b c d e f g i j k l n p q r s t u v w x y z a1 a2 a3 a4 a5.
    xs = [a, b, c, d, e, f, g, i, j, k, l, n, p, q, r, s, t, u, v, w, x, y, z, a1, a2, a3, a4, a5]"
  by (auto simp: length_Suc_conv numeral_eq_Suc)

lemma echo_reply_dest: "8 \<le> length d \<Longrightarrow> take 4 (drop 16 (take 28 (echo_reply d src dst))) = u32_bytes dst"
  by (simp add: echo_reply_def u32_bytes_def)

lemma icmp_make_reply_writes:
  "writes (span h 28) (take 28 (echo_reply (read_bytes h 28 m) dst src)) m (icmp_make_reply (ptr_add h 20) h dst src m)"
proof -
  note w1 = writes_put32 [OF writes_refl [of h 28 m], where k = 12 and w = dst, simplified]
  note w2 = writes_put32 [OF w1, where k = 16 and w = src, simplified]
  note w3 = writes_put8 [OF w2, where k = 20 and w = ICMP_ER, simplified]
  note w4 = writes_put16 [OF w3, where k = 22 and w = 0, simplified]
  note w5 = writes_put8 [OF w4, where k = 8 and w = ICMP_TTL, simplified]
  note w6 = writes_put16 [OF w5, where k = 10 and w = 0, simplified]
  have e: "put8 (ptr_add h 20) 0 = put8 h 20" "put16 (ptr_add h 20) 2 = put16 h 22"
    by (simp_all add: put8_def put16_def fun_eq_iff)
  have "length (read_bytes h 28 m) = 28" by (simp add: read_span)
  from length_28 [OF this] obtain a b c d e f g i j k l n p q r s t u v w x y z a1 a2 a3 a4 a5 where
    old: "read_bytes h 28 m = [a, b, c, d, e, f, g, i, j, k, l, n, p, q, r, s, t, u, v, w, x, y, z, a1, a2, a3, a4, a5]"
    by (elim exE)
  show ?thesis
    using w6 unfolding icmp_make_reply_def Let_def iph_offsets ICMPH_TYPE_def ICMPH_CHKSUM_def e old
    by (simp add: splice_def echo_reply_def u32_bytes_def u16_bytes_0)
qed

lemma echo_reply_take:
  assumes "28 \<le> length d"
  shows "echo_reply d src dst = take 28 (echo_reply (take 28 d) src dst) @ drop 28 d"
proof -
  have "drop 24 d = take 4 (drop 24 d) @ drop 28 d" using append_take_drop_id [of 4 "drop 24 d"] by simp
  then show ?thesis using assms by (simp add: echo_reply_def u32_bytes_def drop_take)
qed

lemma icmp_echo_answers:
  assumes h: "headroom (n_mem s) p ps 14" and len: "28 \<le> pb_len (p_pbufs (n_mem s) p)"
    and hl: "IPH_HL (payload_of p s) (n_mem s) = 5" and ty: "get8 (ptr_add (payload_of p s) 20) ICMPH_TYPE (n_mem s) = ICMP_ECHO"
    and ck: "inet_sum (drop 20 (data (n_mem s) (p # ps))) = NOT 0"
    and uni: "\<not> ip_addr_ismulticast (current_dest (n_dev s))" "\<not> ip4_addr_isbroadcast (current_dest (n_dev s)) inp"
    and c: "can_send l inp (current_src (n_dev s)) mac fs s"
    and mtu: "nif_mtu inp \<noteq> 0 \<longrightarrow> tot (n_mem s) (p # ps) \<le> nif_mtu inp" and max: "tot (n_mem s) (p # ps) + 34 \<le> ETH_MAX_PACKET_SIZE"
  shows "\<exists>s'. icmp_input l p inp s = free_mem l (Some p) s' \<and>
    ip_queue (n_dev s') (fs @ [mac @ nif_hwaddr inp @ [0x08, 0x00] @
      echo_reply (data (n_mem s) (p # ps)) (current_dest (n_dev s)) (current_src (n_dev s))])"
proof -
  let ?m = "n_mem s" let ?h = "payload_of p s" let ?d = "current_dest (n_dev s)" let ?s = "current_src (n_dev s)"
  have hp: "pb_payload (p_pbufs ?m p) = ?h" by (simp add: payload_of_def)
  obtain m1 where m1: "pbuf_header (Some p) (- 20) ?m = (False, m1)" "headroom m1 p ps 34"
    "pb_payload (p_pbufs m1 p) = ptr_add ?h 20" "pb_len (p_pbufs m1 p) = pb_len (p_pbufs ?m p) - 20"
    "tot m1 (p # ps) = tot ?m (p # ps) - 20" "addrs ?m (p # ps) = span ?h 20 @ addrs m1 (p # ps)" "p_bytes m1 = p_bytes ?m"
    using pull_header [OF h, of 20] len unfolding hp by auto
  have b1: "byt m1 = byt ?m" using m1(7) by (simp add: byt_def fun_eq_iff)
  have d1: "data m1 (p # ps) = drop 20 (data ?m (p # ps))"
    unfolding data_addrs m1(6) b1 by simp
  have t1: "pb_tot_len (p_pbufs m1 p) = tot ?m (p # ps) - 20" using headroom_tot [OF m1(2)] m1(5) by simp
  have pk: "packet ?m (Some p) (p # ps)" using h by (simp add: headroom_def)
  have tot8: "8 \<le> tot ?m (p # ps) - 20" using len pk tot_nonneg [of ?m ps] by (auto simp: packet_def)
  obtain segs where segs: "pbuf_segments (Some p) m1 = Some segs" "inet_chksum_pbuf (p_bytes m1) segs = 0"
    using packet_chksum [of m1 p "p # ps"] m1(2) ck by (auto simp: headroom_def d1 simp del: data_simps)
  obtain m2 where m2: "pbuf_header (Some p) 34 m1 = (False, m2)" "headroom m2 p ps 0"
    "pb_payload (p_pbufs m2 p) = ptr_add ?h (- 14)" "34 \<le> pb_len (p_pbufs m2 p)"
    "pb_len (p_pbufs m2 p) = pb_len (p_pbufs m1 p) + 34" "tot m2 (p # ps) = tot m1 (p # ps) + 34"
    "addrs m2 (p # ps) = span (ptr_add ?h (- 14)) 34 @ addrs m1 (p # ps)" "p_bytes m2 = p_bytes m1"
    using push_header [of m1 p ps 0 34] m1(2,3) by (auto simp del: addrs_simps data_simps tot.simps)
  obtain m3 where m3: "pbuf_header (Some p) (- 34) m2 = (False, m3)" "headroom m3 p ps 34"
    "pb_payload (p_pbufs m3 p) = ptr_add ?h 20" "pb_len (p_pbufs m3 p) = pb_len (p_pbufs m1 p)"
    "tot m3 (p # ps) = tot m1 (p # ps)" "addrs m2 (p # ps) = span (ptr_add ?h (- 14)) 34 @ addrs m3 (p # ps)" "p_bytes m3 = p_bytes m2"
    using pull_header [OF m2(2), of 34] m2(3-6) by (auto simp del: addrs_simps data_simps tot.simps)
  have a3: "addrs m3 (p # ps) = addrs m1 (p # ps)" using m2(7) m3(6) by (metis same_append_eq)
  have b3: "p_bytes m3 = p_bytes ?m" using m3(7) m2(8) m1(7) by simp
  let ?m4 = "icmp_make_reply (ptr_add ?h 20) ?h ?d ?s m3"
  have rb: "read_bytes ?h 28 m3 = take 28 (data ?m (p # ps))"
  proof -
    have "take 28 (addrs ?m (p # ps)) = span ?h 28"
      using span_sub [of 0 28 "pb_len (p_pbufs ?m p)" ?h] len by (simp add: pb_addrs_def hp)
    then show ?thesis using b3 by (simp add: data_addrs take_map read_span byt_def fun_eq_iff del: addrs_simps)
  qed
  have w: "writes (span ?h 28) (take 28 (echo_reply (take 28 (data ?m (p # ps))) ?d ?s)) m3 ?m4"
    using icmp_make_reply_writes [of ?h m3 ?d ?s] unfolding rb .
  have h4: "headroom ?m4 p ps 34" "addrs ?m4 (p # ps) = addrs m1 (p # ps)" "tot ?m4 (p # ps) = tot m1 (p # ps)"
    "pb_payload (p_pbufs ?m4 p) = ptr_add ?h 20"
  proof -
    have pb: "p_pbufs ?m4 = p_pbufs m3" using w by (simp add: writes_def)
    show "addrs ?m4 (p # ps) = addrs m1 (p # ps)" using writes_addrs [OF w, of "p # ps"] a3 by (simp del: addrs_simps)
    show "headroom ?m4 p ps 34" using m3(2) writes_packet [OF w] writes_addrs [OF w] tot_cong [of "p # ps" ?m4 m3]
      unfolding headroom_def pb by (simp del: addrs_simps tot.simps data_simps)
    show "tot ?m4 (p # ps) = tot m1 (p # ps)" using tot_cong [of "p # ps" ?m4 m3] m3(5) pb by simp
    show "pb_payload (p_pbufs ?m4 p) = ptr_add ?h 20" using m3(3) pb by simp
  qed
  obtain m5 where m5: "pbuf_header (Some p) 20 ?m4 = (False, m5)" "headroom m5 p ps 14"
    "pb_payload (p_pbufs m5 p) = ?h" "tot m5 (p # ps) = tot ?m (p # ps)"
    "addrs m5 (p # ps) = addrs ?m (p # ps)" "p_bytes m5 = p_bytes ?m4"
    using push_header [of ?m4 p ps 14 20] h4 m1(5,6) by (auto simp del: addrs_simps data_simps tot.simps)
  have d5: "data m5 (p # ps) = echo_reply (data ?m (p # ps)) ?d ?s"
  proof -
    let ?A = "addrs ?m (p # ps)"
    have s28: "span ?h 28 = take 28 ?A"
      using span_sub [of 0 28 "pb_len (p_pbufs ?m p)" ?h] len by (simp add: pb_addrs_def hp)
    have dA: "distinct ?A" using h by (simp add: headroom_def)
    have b5: "byt m5 = byt ?m4" using m5(6) by (simp add: byt_def fun_eq_iff)
    have "map (byt m5) (take 28 ?A) = take 28 (echo_reply (take 28 (data ?m (p # ps))) ?d ?s)"
      using w unfolding writes_def s28 b5 by blast
    moreover have "map (byt m5) (drop 28 ?A) = map (byt ?m) (drop 28 ?A)"
    proof (rule map_cong [OF refl])
      fix j assume "j \<in> set (drop 28 ?A)"
      then have "j \<notin> set (span ?h 28)" using set_take_disj_set_drop_if_distinct [OF dA le_refl, of 28] s28 by auto
      then have "byt ?m4 j = byt m3 j" using w unfolding writes_def by blast
      then show "byt m5 j = byt ?m j" using m5(6) b3 by (simp add: byt_def)
    qed
    moreover have "data m5 (p # ps) = map (byt m5) (take 28 ?A) @ map (byt m5) (drop 28 ?A)"
      by (simp only: data_addrs m5(5) map_append [symmetric] append_take_drop_id)
    moreover have "map (byt ?m) (drop 28 ?A) = drop 28 (data ?m (p # ps))" by (simp only: data_addrs drop_map)
    ultimately have "data m5 (p # ps) = take 28 (echo_reply (take 28 (data ?m (p # ps))) ?d ?s) @ drop 28 (data ?m (p # ps))"
      by (simp only:)
    moreover have "28 \<le> length (data ?m (p # ps))" using length_data [of ?m "p # ps"] pk tot8 by (simp add: packet_def)
    ultimately show ?thesis using echo_reply_take [of "data ?m (p # ps)" ?d ?s] by (simp only:)
  qed
  have dst: "get32 (pb_payload (p_pbufs m5 p)) IPH_DEST m5 = ?s"
  proof (rule get32_read)
    have "read_bytes ?h 28 m5 = take 28 (echo_reply (take 28 (data ?m (p # ps))) ?d ?s)"
      using writes_read [OF w] m5(6) by (simp add: read_bytes_def)
    then have "read_bytes (ptr_add ?h 16) 4 m5 = take 4 (drop 16 (take 28 (echo_reply (take 28 (data ?m (p # ps))) ?d ?s)))"
      using read_split [of 16 12 ?h m5] read_split [of 4 8 "ptr_add ?h 16" m5] by simp
    moreover have "8 \<le> length (take 28 (data ?m (p # ps)))" using length_data [of ?m "p # ps"] pk tot8 by (simp add: packet_def)
    ultimately show "read_bytes (ptr_add (pb_payload (p_pbufs m5 p)) IPH_DEST) 4 m5 = u32_bytes ?s"
      unfolding m5(3) IPH_DEST_def using echo_reply_dest [of "take 28 (data ?m (p # ps))" ?d ?s] by simp
  qed
  let ?s5 = "set_mem m5 s"
  have h5: "headroom (n_mem ?s5) p ps 14" using m5(2) by simp
  have c5: "linkoutput l = ip_linkoutput" "ip_queue (n_dev ?s5) fs" "length fs < ETH_TXBUFNB" "arp_ok (n_arp ?s5)"
    "n_cached ?s5 < ARP_TABLE_SIZE" "link_dest inp (n_arp ?s5) ?s mac" "length mac = 6" "length (nif_hwaddr inp) = 6"
    using c by (simp_all add: can_send_def set_mem_def)
  have mx: "tot (n_mem ?s5) (p # ps) + 14 \<le> ETH_MAX_PACKET_SIZE" "ETH_MAX_PACKET_SIZE \<le> 65535"
    using max m5(4) by (simp_all add: ETH_MAX_PACKET_SIZE_def)
  obtain s6 where s6: "etharp_output l inp p ?s ?s5 = Some (ERR_OK, s6)"
    "ip_queue (n_dev s6) (fs @ [mac @ nif_hwaddr inp @ [0x08, 0x00] @ data (n_mem ?s5) (p # ps)])"
    using ip_eth.etharp_output_queues [OF c5(1-3) mx c5(4-8) headroom_etharp [OF h5]] by blast
  have nf: "\<not> (nif_mtu inp \<noteq> 0 \<and> pb_tot_len (p_pbufs m5 p) > nif_mtu inp)" using mtu m5(4) headroom_tot [OF m5(2)] by auto
  have out: "ip_output_if l p ?d None ICMP_TTL 0 IP_PROTO_ICMP inp ?s5 = Some (ERR_OK, s6)"
    unfolding ip_output_if_def Let_def option.case set_mem_simps dst if_not_P [OF nf] by (rule s6(1))
  have room: "icmp_echo_room (custom_free l) p ?h 20 m1 = Some (Some (p, ?h), m3)"
    using m2(1) m3(1) by (simp add: icmp_echo_room_def PBUF_IP_HLEN_def PBUF_LINK_HLEN_def)
  have "icmp_echo l p ?h 20 inp (set_mem m1 s) = free_mem l (Some p) s6"
    unfolding icmp_echo_def Let_def set_mem_simps using uni tot8 t1 segs room m3(3) m5(1) out
    by (simp add: SIZEOF_ICMP_ECHO_HDR_def set_mem_def)
  moreover have "icmp_input l p inp s = icmp_echo l p ?h 20 inp (set_mem m1 s)"
    unfolding icmp_input_def Let_def hp hl using m1(1) t1 tot8 m1(3) ty m1(7)
    by (simp add: get8_def ICMP_ECHO_def ICMP_ER_def)
  ultimately show ?thesis using s6(2) d5 by (intro exI [of _ s6]) (simp del: data_simps)
qed

section \<open>Properties\<close>

text \<open>C6: a sound echo request that is not for a group of hosts is answered in place: the transmit ring gets the
  frame to the sender in which the IP addresses are exchanged, the type is that of an answer, the time
  to live is full, both checksums are left to the hardware, and the rest of the request is unchanged.
  After that only the request is freed.\<close>
theorem icmp_input_answers_echo:
  fixes s :: "('a eth_dev_scheme, 'm) ip_net"
  assumes "headroom (n_mem s) p ps 14" and "28 \<le> pb_len (p_pbufs (n_mem s) p)"
    and "IPH_HL (payload_of p s) (n_mem s) = 5" and "get8 (ptr_add (payload_of p s) 20) ICMPH_TYPE (n_mem s) = ICMP_ECHO"
    and "inet_sum (drop 20 (data (n_mem s) (p # ps))) = NOT 0"
    and "\<not> ip_addr_ismulticast (current_dest (n_dev s))" "\<not> ip4_addr_isbroadcast (current_dest (n_dev s)) inp"
    and "can_send l inp (current_src (n_dev s)) mac fs s"
    and "nif_mtu inp \<noteq> 0 \<longrightarrow> tot (n_mem s) (p # ps) \<le> nif_mtu inp" and "tot (n_mem s) (p # ps) + 34 \<le> ETH_MAX_PACKET_SIZE"
  shows "\<exists>s'. icmp_input l p inp s = free_mem l (Some p) s' \<and>
    ip_queue (n_dev s') (fs @ [mac @ nif_hwaddr inp @ [0x08, 0x00] @
      echo_reply (data (n_mem s) (p # ps)) (current_dest (n_dev s)) (current_src (n_dev s))])"
  by (rule icmp_echo_answers [OF assms])

definition demo_ping :: "u8_t list" where
  "demo_ping = [0x45, 0, 0, 30, 0, 7, 0, 0, 64, 1, 0, 0, 10, 0, 0, 1, 10, 0, 0, 9, 8, 0, 0x8f, 0x94, 0, 1, 0, 1, 0x68, 0x69]"

theorem icmp_input_answers_echo_witness:
  "\<exists>s'. icmp_input demo_stack_link (RPool 4, 0) demo_netif (demo_stack demo_ping 30) = free_mem demo_stack_link (Some (RPool 4, 0)) s' \<and>
     ip_queue (n_dev s') [[2, 0, 0, 0, 0, 7, 0, 0, 0, 0, 0, 1, 8, 0,
       0x45, 0, 0, 30, 0, 7, 0, 0, 255, 1, 0, 0, 10, 0, 0, 9, 10, 0, 0, 1, 0, 0, 0, 0, 0, 1, 0, 1, 0x68, 0x69]]"
proof -
  let ?s = "demo_stack demo_ping 30"
  have ne: "demo_ping \<noteq> []" "length demo_ping = 30" by (simp_all add: demo_ping_def)
  have pay: "payload_of (RPool 4, 0) ?s = (RPool 4, 30)" by (simp add: payload_of_def demo_mem_def demo_pb_def)
  have hd: "headroom (n_mem ?s) (RPool 4, 0) [] 14" using ne by (simp add: demo_mem_headroom)
  have h: "28 \<le> pb_len (p_pbufs (n_mem ?s) (RPool 4, 0))" "IPH_HL (payload_of (RPool 4, 0) ?s) (n_mem ?s) = 5"
    "get8 (ptr_add (payload_of (RPool 4, 0) ?s) 20) ICMPH_TYPE (n_mem ?s) = ICMP_ECHO"
    unfolding pay by (simp_all add: IPH_HL_def get8_def IPH_VHL_def ICMPH_TYPE_def ICMP_ECHO_def demo_mem_def demo_pb_def demo_ping_def ptr_add_def)
  have ck: "inet_sum (drop 20 (data (n_mem ?s) [(RPool 4, 0)])) = NOT 0"
    unfolding demo_stack_sel demo_mem_data by (simp add: demo_ping_def inet_sum_def ones_compl_def)
  have cur: "current_dest (n_dev ?s) = u32_le 10 0 0 9" "current_src (n_dev ?s) = u32_le 10 0 0 1" by (simp_all add: demo_udp_vars_def)
  have "\<exists>s'. icmp_input demo_stack_link (RPool 4, 0) demo_netif ?s = free_mem demo_stack_link (Some (RPool 4, 0)) s' \<and>
     ip_queue (n_dev s') ([] @ [[2, 0, 0, 0, 0, 7] @ nif_hwaddr demo_netif @ [0x08, 0x00] @
       echo_reply (data (n_mem ?s) [(RPool 4, 0)]) (current_dest (n_dev ?s)) (current_src (n_dev ?s))])"
    by (rule icmp_input_answers_echo [OF hd h ck])
      (simp_all only: cur demo_unicast demo_can_send not_False_eq_True,
       simp_all add: demo_mem_packet ne demo_netif_def ETH_MAX_PACKET_SIZE_def del: tot.simps)
  moreover have "current_dest demo_udp_vars = u32_le 10 0 0 9" "current_src demo_udp_vars = u32_le 10 0 0 1"
    using cur by simp_all
  ultimately show ?thesis unfolding demo_stack_sel demo_mem_data
    by (simp add: demo_netif_def echo_reply_def demo_ping_def u32_bytes_le ICMP_ER_def ICMP_TTL_def)
qed

end
