(* ===== verification/IpReassProps.thy ===== *)
theory IpReassProps
  imports HeaderProps
begin

text \<open>
  What reassembly does: where a fragment is queued and when the datagram is taken for complete, what
  packet comes out, and how making room for a fragment can destroy the list of datagrams.
\<close>

declare split_paired_All [simp del] split_paired_Ex [simp del]

section \<open>The fragments of a datagram\<close>

definition fr_start :: "('x, 'm) ip_net \<Rightarrow> ptr \<Rightarrow> int" where
  "fr_start s x = rh_start (helper s (payload_of x s))"

definition fr_end :: "('x, 'm) ip_net \<Rightarrow> ptr \<Rightarrow> int" where
  "fr_end s x = rh_end (helper s (payload_of x s))"

definition frags :: "('x, 'm) ip_net \<Rightarrow> ptr option \<Rightarrow> ptr list \<Rightarrow> bool" where
  "frags s q xs \<longleftrightarrow> linked (\<lambda>x. rh_next_pbuf (helper s (payload_of x s))) q xs"

text \<open>The headers of the fragments lie at different addresses.\<close>

definition apart :: "('x, 'm) ip_net \<Rightarrow> ptr list \<Rightarrow> bool" where
  "apart s xs \<longleftrightarrow> distinct (map (\<lambda>x. payload_of x s) xs)"

definition sorted_frags :: "('x, 'm) ip_net \<Rightarrow> ptr list \<Rightarrow> bool" where
  "sorted_frags s xs \<longleftrightarrow> successively (\<lambda>x y. fr_end s x \<le> fr_start s y) xs \<and> (\<forall>x\<in>set xs. fr_start s x < fr_end s x)"

text \<open>Each fragment ends where the next one starts.\<close>

definition gapless :: "('x, 'm) ip_net \<Rightarrow> ptr list \<Rightarrow> bool" where
  "gapless s xs \<longleftrightarrow> successively (\<lambda>x y. fr_end s x = fr_start s y) xs"

lemma frags_simps [simp]:
  "frags s q [] \<longleftrightarrow> q = None"
  "frags s q (x # xs) \<longleftrightarrow> q = Some x \<and> frags s (rh_next_pbuf (helper s (payload_of x s))) xs"
  by (simp_all add: frags_def)

lemma gapless_simps [simp]:
  "gapless s []" "gapless s [x]" "gapless s (x # y # xs) \<longleftrightarrow> fr_end s x = fr_start s y \<and> gapless s (y # xs)"
  by (simp_all add: gapless_def)

definition addr_of_last :: "('x, 'm) ip_net \<Rightarrow> ptr list \<Rightarrow> ptr option" where
  "addr_of_last s us = (if us = [] then None else Some (payload_of (last us) s))"

definition last_list :: "'a list \<Rightarrow> 'a list" where
  "last_list us = (if us = [] then [] else [last us])"

text \<open>The loop passes over the fragments that end before the new one and stops at the place.\<close>

definition stop_at :: "nat \<Rightarrow> ptr \<Rightarrow> ptr list \<Rightarrow> ptr list \<Rightarrow> ('x, 'm) ip_net \<Rightarrow> ('x, 'm) ip_net" where
  "stop_at i n us ws s =
     (case ws of [] \<Rightarrow> s
      | w # _ \<Rightarrow>
          let s = upd_helper (payload_of n s) (\<lambda>h. h\<lparr>rh_next_pbuf := Some w\<rparr>) s
          in if us = [] then upd_reass i (\<lambda>r. r\<lparr>ir_p := Some n\<rparr>) s
             else upd_helper (payload_of (last us) s) (\<lambda>h. h\<lparr>rh_next_pbuf := Some n\<rparr>) s)"

lemma upd_simps [simp]:
  "n_mem (upd_reass i f s) = n_mem s" "n_mem (upd_helper h g s) = n_mem s"
  "n_arp (upd_reass i f s) = n_arp s" "n_arp (upd_helper h g s) = n_arp s"
  "payload_of x (upd_reass i f s) = payload_of x s" "payload_of x (upd_helper h g s) = payload_of x s"
  "payload_of x (upd_ip k s) = payload_of x s"
  "helper (upd_reass i f s) = helper s" "reass (upd_helper h g s) = reass s"
  "reass (upd_reass i f s) = (reass s)(i := f (reass s i))"
  "helper (upd_helper h g s) = (helper s)(h := g (helper s h))"
  "ip_dev (n_dev (upd_reass i f s)) = ip_dev (n_dev s)" "ip_dev (n_dev (upd_helper h g s)) = ip_dev (n_dev s)"
  "reassdatagrams (n_dev (upd_reass i f s)) = reassdatagrams (n_dev s)"
  "reassdatagrams (n_dev (upd_helper h g s)) = reassdatagrams (n_dev s)"
  "ip_reass_pbufcount (n_dev (upd_reass i f s)) = ip_reass_pbufcount (n_dev s)"
  "ip_reass_pbufcount (n_dev (upd_helper h g s)) = ip_reass_pbufcount (n_dev s)"
  by (simp_all add: upd_reass_def upd_helper_def payload_of_def)

lemma first_append: "first (xs @ ys) = (if xs = [] then first ys else Some (hd xs))"
  by (cases xs) simp_all

lemma frags_first: "frags s q xs \<Longrightarrow> q = first xs"
  by (cases xs) simp_all

lemma frag_insert_loop_spec:
  assumes "frags s q (vs @ ws)" "\<forall>v\<in>set vs. fr_start s v < fr_start s n \<and> fr_end s v \<le> fr_start s n"
    "ws \<noteq> [] \<longrightarrow> fr_start s n < fr_start s (hd ws) \<and> (us @ vs \<noteq> [] \<longrightarrow> fr_end s n \<le> fr_start s (hd ws))"
    "us \<noteq> [] \<longrightarrow> fr_end s (last us) \<le> fr_start s n"
    "\<forall>x\<in>set (us @ vs). payload_of x s \<noteq> payload_of n s"
  shows "frag_insert_loop i n (payload_of n s) q (addr_of_last s us) valid s =
    Some (Some (first ws, addr_of_last s (us @ vs), valid \<and> gapless s (last_list us @ vs)), stop_at i n (us @ vs) ws s)"
  using assms
proof (induction vs arbitrary: q us valid)
  case Nil
  show ?case
  proof (cases ws)
    case Nil
    then show ?thesis using Nil.prems(1)
      by (subst frag_insert_loop.simps) (simp add: stop_at_def last_list_def)
  next
    case (Cons w ws')
    then have w: "q = Some w" "fr_start s n < fr_start s w" "us \<noteq> [] \<longrightarrow> fr_end s n \<le> fr_start s w"
      using Nil.prems(1,3) by simp_all
    show ?thesis
    proof (cases "us = []")
      case True
      then show ?thesis using w Cons unfolding fr_start_def
        by (subst frag_insert_loop.simps) (simp add: stop_at_def last_list_def addr_of_last_def)
    next
      case False
      then have "payload_of (last us) s \<noteq> payload_of n s" "fr_end s (last us) \<le> fr_start s n"
        using Nil.prems(4,5) by auto
      then show ?thesis using False w Cons unfolding fr_start_def fr_end_def
        by (subst frag_insert_loop.simps) (simp add: stop_at_def last_list_def addr_of_last_def Let_def)
    qed
  qed
next
  case (Cons v vs)
  let ?t = "payload_of v s"
  let ?valid = "case addr_of_last s us of Some u \<Rightarrow> if rh_end (helper s u) \<noteq> rh_start (helper s ?t) then False else valid | None \<Rightarrow> valid"
  have v: "q = Some v" "frags s (rh_next_pbuf (helper s ?t)) (vs @ ws)" "fr_start s v < fr_start s n" "fr_end s v \<le> fr_start s n"
    using Cons.prems(1,2) by simp_all
  have "frag_insert_loop i n (payload_of n s) q (addr_of_last s us) valid s =
      frag_insert_loop i n (payload_of n s) (rh_next_pbuf (helper s ?t)) (Some ?t) ?valid s"
    using v(1,3,4) unfolding fr_start_def fr_end_def by (subst frag_insert_loop.simps) (simp add: Let_def)
  also have "Some ?t = addr_of_last s (us @ [v])" by (simp add: addr_of_last_def)
  also have "frag_insert_loop i n (payload_of n s) (rh_next_pbuf (helper s ?t)) (addr_of_last s (us @ [v])) ?valid s =
    Some (Some (first ws, addr_of_last s ((us @ [v]) @ vs), ?valid \<and> gapless s (last_list (us @ [v]) @ vs)), stop_at i n ((us @ [v]) @ vs) ws s)"
    by (rule Cons.IH) (use v Cons.prems in auto)
  also have "(?valid \<and> gapless s (last_list (us @ [v]) @ vs)) = (valid \<and> gapless s (last_list us @ v # vs))"
    by (auto simp: addr_of_last_def last_list_def fr_end_def fr_start_def)
  finally show ?case by simp
qed

lemma no_holes_loop_spec: "frags s q xs \<Longrightarrow> no_holes_loop (payload_of n s) q s = Some (gapless s (n # xs))"
proof (induction xs arbitrary: n q)
  case Nil
  then show ?case by (simp add: no_holes_loop.simps [of _ None])
next
  case (Cons x xs)
  then have "q = Some x" "frags s (rh_next_pbuf (helper s (payload_of x s))) xs" by simp_all
  then show ?case using Cons.IH [of "rh_next_pbuf (helper s (payload_of x s))" x]
    by (subst no_holes_loop.simps) (simp add: Let_def fr_end_def fr_start_def)
qed

section \<open>Queueing a fragment\<close>

text \<open>The range of a fragment, from its header.\<close>

definition hdr_start :: "('x, 'm) ip_net \<Rightarrow> ptr \<Rightarrow> int" where
  "hdr_start s p = c_u16 (frag_offset (get16 (payload_of p s) IPH_OFFSET (n_mem s)) * 8)"

definition hdr_len :: "('x, 'm) ip_net \<Rightarrow> ptr \<Rightarrow> int" where
  "hdr_len s p = c_u16 (uint (lwip_ntohs (get16 (payload_of p s) IPH_LEN (n_mem s))) - IPH_HL (payload_of p s) (n_mem s) * 4)"

definition hdr_end :: "('x, 'm) ip_net \<Rightarrow> ptr \<Rightarrow> int" where
  "hdr_end s p = c_u16 (hdr_start s p + hdr_len s p)"

text \<open>
  \<open>us\<close> are the queued fragments before the new one, \<open>ws\<close> those behind it, and it overlaps none that
  the code compares it with.
\<close>

definition fits_between :: "('x, 'm) ip_net \<Rightarrow> ptr list \<Rightarrow> ptr \<Rightarrow> ptr list \<Rightarrow> bool" where
  "fits_between s us n ws \<longleftrightarrow>
     (\<forall>u\<in>set us. fr_start s u < hdr_start s n \<and> fr_end s u \<le> hdr_start s n) \<and>
     (ws \<noteq> [] \<longrightarrow> hdr_start s n < fr_start s (hd ws) \<and> (us \<noteq> [] \<longrightarrow> hdr_end s n \<le> fr_start s (hd ws)))"

text \<open>What the code checks before it takes the datagram for complete.\<close>

definition seems_complete :: "('x, 'm) ip_net \<Rightarrow> nat \<Rightarrow> ptr list \<Rightarrow> ptr \<Rightarrow> ptr list \<Rightarrow> bool" where
  "seems_complete s i us n ws \<longleftrightarrow>
     ir_flags (reass s i) AND IP_REASS_FLAG_LASTFRAG \<noteq> 0 \<and>
     (if us = [] then hdr_start s n else fr_start s (hd us)) = 0 \<and> gapless s us \<and>
     (ws = [] \<and> us \<noteq> [] \<longrightarrow> fr_end s (last us) = hdr_start s n) \<and>
     (ws \<noteq> [] \<longrightarrow> hdr_end s n = fr_start s (hd ws)) \<and> gapless s ws"

lemma last_list_gapless [simp]: "gapless s (last_list [] @ us) = gapless s us"
  by (simp add: last_list_def)

lemma gapless_Cons: "gapless s (x # xs) \<longleftrightarrow> (xs \<noteq> [] \<longrightarrow> fr_end s x = fr_start s (hd xs)) \<and> gapless s xs"
  by (cases xs) simp_all

lemma gapless_cong:
  "(\<And>x. x \<in> set xs \<Longrightarrow> fr_start s x = fr_start s' x \<and> fr_end s x = fr_end s' x) \<Longrightarrow> gapless s xs = gapless s' xs"
proof (induction xs)
  case (Cons x xs)
  then show ?case by (cases xs) (auto simp: gapless_Cons)
qed simp

lemma chain_frag_spec:
  assumes fr: "frags s (ir_p (reass s i)) (us @ ws)" and ap: "apart s (us @ n # ws)" and fit: "fits_between s us n ws"
  shows "\<exists>s'. ip_reass_chain_frag_into_datagram_and_validate l i n s = Some (seems_complete s i us n ws, s') \<and>
    n_mem s' = n_mem s \<and> n_arp s' = n_arp s \<and> frags s' (ir_p (reass s' i)) (us @ n # ws) \<and>
    fr_start s' n = hdr_start s n \<and> fr_end s' n = hdr_end s n \<and>
    (\<forall>x. payload_of x s \<noteq> payload_of n s \<longrightarrow> fr_start s' x = fr_start s x \<and> fr_end s' x = fr_end s x) \<and>
    reass s' = (reass s)(i := (reass s i)\<lparr>ir_p := first (us @ n # ws)\<rparr>) \<and>
    reassdatagrams (n_dev s') = reassdatagrams (n_dev s) \<and> ip_reass_pbufcount (n_dev s') = ip_reass_pbufcount (n_dev s)"
proof -
  let ?h = "payload_of n s"
  define s1 where "s1 = upd_helper ?h (\<lambda>h. \<lparr>rh_next_pbuf = None, rh_start = hdr_start s n, rh_end = hdr_end s n\<rparr>) s"
  have pay: "payload_of x s1 = payload_of x s" for x by (simp add: s1_def)
  have ne: "payload_of x s \<noteq> ?h" if "x \<in> set (us @ ws)" for x
    using ap that by (auto simp: apart_def image_iff)
  have nin: "n \<notin> set (us @ ws)" using ne by blast
  have n1: "fr_start s1 n = hdr_start s n" "fr_end s1 n = hdr_end s n"
    by (simp_all add: fr_start_def fr_end_def s1_def)
  have o1: "fr_start s1 x = fr_start s x" "fr_end s1 x = fr_end s x" if "payload_of x s \<noteq> ?h" for x
    using that by (simp_all add: fr_start_def fr_end_def s1_def)
  have f1: "frags s1 (ir_p (reass s i)) (us @ ws)"
    using fr linked_cong [of "us @ ws" "\<lambda>x. rh_next_pbuf (helper s1 (payload_of x s1))"] ne
    unfolding frags_def by (simp add: s1_def)
  define s2 where "s2 = stop_at i n us ws s1"
  have "frag_insert_loop i n (payload_of n s1) (ir_p (reass s i)) (addr_of_last s1 []) True s1 =
      Some (Some (first ws, addr_of_last s1 ([] @ us), True \<and> gapless s1 (last_list [] @ us)), stop_at i n ([] @ us) ws s1)"
    by (rule frag_insert_loop_spec [OF f1]) (use fit ne o1 n1 in \<open>auto simp: fits_between_def pay\<close>)
  then have ins: "frag_insert_loop i n ?h (ir_p (reass s1 i)) None True s1 =
      Some (Some (first ws, addr_of_last s us, gapless s us), s2)"
    using gapless_cong [of us s1 s] ne o1 by (simp add: pay addr_of_last_def s2_def) (simp add: s1_def)
  let ?s3 = "if ws \<noteq> [] then s2 else if us = [] then upd_reass i (\<lambda>r. r\<lparr>ir_p := Some n\<rparr>) s2
    else upd_helper (payload_of (last us) s) (\<lambda>h. h\<lparr>rh_next_pbuf := Some n\<rparr>) s2"
  have lu: "payload_of (last us) s \<noteq> ?h" "last us \<in> set us" if "us \<noteq> []" using that ne by auto
  have S: "n_mem ?s3 = n_mem s" "n_arp ?s3 = n_arp s" "reassdatagrams (n_dev ?s3) = reassdatagrams (n_dev s)"
    "ip_reass_pbufcount (n_dev ?s3) = ip_reass_pbufcount (n_dev s)" "payload_of x ?s3 = payload_of x s" for x
    by (cases ws; cases "us = []"; simp add: s2_def stop_at_def s1_def Let_def)+
  have R: "reass ?s3 = (reass s)(i := (reass s i)\<lparr>ir_p := first (us @ n # ws)\<rparr>)"
  proof -
    have "ir_p (reass s i) = first (us @ ws)" using frags_first [OF fr] .
    then have "(reass s i)\<lparr>ir_p := first (us @ n # ws)\<rparr> = reass s i" if "us \<noteq> []"
      using that by (cases us) (simp_all add: fun_upd_idem)
    then show ?thesis by (cases ws; cases "us = []") (simp_all add: s2_def stop_at_def s1_def Let_def fun_upd_idem)
  qed
  have H: "helper ?s3 = (\<lambda>a. if a = ?h then \<lparr>rh_next_pbuf = first ws, rh_start = hdr_start s n, rh_end = hdr_end s n\<rparr>
      else if us \<noteq> [] \<and> a = payload_of (last us) s then (helper s a)\<lparr>rh_next_pbuf := Some n\<rparr> else helper s a)"
    using lu by (cases ws; cases "us = []") (auto simp: s2_def stop_at_def s1_def Let_def fun_eq_iff)
  have E: "fr_start ?s3 x = fr_start s x \<and> fr_end ?s3 x = fr_end s x" if "payload_of x s \<noteq> ?h" for x
    using that by (simp add: fr_start_def fr_end_def S(5) H)
  have N: "fr_start ?s3 n = hdr_start s n" "fr_end ?s3 n = hdr_end s n"
    by (simp_all add: fr_start_def fr_end_def S(5) H)
  have F: "frags ?s3 (ir_p (reass ?s3 i)) (us @ n # ws)"
  proof -
    have io: "inj_on (\<lambda>x. payload_of x s) (set (us @ n # ws))" using ap by (simp only: apart_def distinct_map)
    have inj: "x = last us" if "x \<in> set (us @ ws)" "us \<noteq> []" "payload_of x s = payload_of (last us) s" for x
    proof (rule inj_onD [OF io that(3)])
      show "x \<in> set (us @ n # ws)" "last us \<in> set (us @ n # ws)" using that(1) lu(2) [OF that(2)] by auto
    qed
    have "linked (\<lambda>x. rh_next_pbuf (helper ?s3 (payload_of x s))) (if us = [] then Some n else ir_p (reass s i)) (us @ n # ws)"
    proof (rule linked_insert [OF fr [unfolded frags_def] nin])
      fix x assume x: "x \<in> set (us @ ws)" "us = [] \<or> x \<noteq> last us"
      then have "\<not> (us \<noteq> [] \<and> payload_of x s = payload_of (last us) s)" using inj by blast
      then show "rh_next_pbuf (helper ?s3 (payload_of x s)) = rh_next_pbuf (helper s (payload_of x s))"
        unfolding H using ne [OF x(1)] by auto
    next
      show "rh_next_pbuf (helper ?s3 ?h) = (case ws of [] \<Rightarrow> None | w # _ \<Rightarrow> Some w)" unfolding H by (cases ws) simp_all
      show "rh_next_pbuf (helper ?s3 (payload_of (last us) s)) = Some n" if "us \<noteq> []"
        unfolding H using lu(1) [OF that] that by simp
    qed
    moreover have "ir_p (reass ?s3 i) = (if us = [] then Some n else ir_p (reass s i))"
      using frags_first [OF fr] by (cases us) (simp_all add: R)
    ultimately show ?thesis by (simp only: frags_def S(5))
  qed
  have hd0: "first (us @ n # ws) = Some (hd (us @ [n]))" by (cases us) simp_all
  have start0: "rh_start (helper ?s3 (payload_of (hd (us @ [n])) ?s3)) = (if us = [] then hdr_start s n else fr_start s (hd us))"
    using N(1) E [of "hd us"] ne [of "hd us"] by (cases us) (simp_all add: fr_start_def)
  have nh: "no_holes_loop ?h (rh_next_pbuf (helper ?s3 ?h)) ?s3 = Some ((ws \<noteq> [] \<longrightarrow> hdr_end s n = fr_start s (hd ws)) \<and> gapless s ws)"
  proof -
    have "frags ?s3 (first ws) ws"
    proof -
      obtain q where "linked (\<lambda>x. rh_next_pbuf (helper ?s3 (payload_of x ?s3))) q ((us @ [n]) @ ws)"
        using F by (auto simp: frags_def)
      from linked_append [OF this] show ?thesis by (cases ws) (auto simp: frags_def)
    qed
    moreover have "gapless ?s3 ws = gapless s ws" using E ne by (intro gapless_cong) auto
    moreover have "ws \<noteq> [] \<Longrightarrow> fr_start ?s3 (hd ws) = fr_start s (hd ws)" using E [of "hd ws"] ne [of "hd ws"] by simp
    ultimately show ?thesis using no_holes_loop_spec [of ?s3 "first ws" ws n] N by (auto simp: S(5) H gapless_Cons)
  qed
  have fl: "ir_flags (reass ?s3 i) = ir_flags (reass s i)" unfolding R by simp
  have p3: "ir_p (reass ?s3 i) = Some (hd (us @ [n]))" unfolding R using hd0 by simp
  have hs: "rh_start (helper s2 ?h) = hdr_start s n" by (cases ws; cases "us = []") (simp_all add: s2_def stop_at_def s1_def Let_def)
  have he: "us \<noteq> [] \<Longrightarrow> rh_end (helper s2 (payload_of (last us) s)) = fr_end s (last us)"
    using lu by (cases ws) (simp_all add: s2_def stop_at_def s1_def Let_def fr_end_def)
  let ?v = "gapless s us \<and> (ws = [] \<and> us \<noteq> [] \<longrightarrow> fr_end s (last us) = hdr_start s n)"
  have link: "(case first ws of Some x \<Rightarrow> (gapless s us, s2)
      | None \<Rightarrow> (case addr_of_last s us of
           Some v \<Rightarrow> (if rh_end (helper s2 v) \<noteq> rh_start (helper s2 ?h) then False else gapless s us,
                     upd_helper v (\<lambda>h. h\<lparr>rh_next_pbuf := Some n\<rparr>) s2)
         | None \<Rightarrow> (gapless s us, upd_reass i (\<lambda>r. r\<lparr>ir_p := Some n\<rparr>) s2))) = (?v, ?s3)"
    using he hs by (cases ws; cases "us = []") (simp_all add: addr_of_last_def)
  have "ip_reass_chain_frag_into_datagram_and_validate l i n s = Some (seems_complete s i us n ws, ?s3)"
    unfolding ip_reass_chain_frag_into_datagram_and_validate_def hdr_start_def [symmetric] hdr_len_def [symmetric] Let_def
      hdr_end_def [symmetric] s1_def [symmetric] ins Option.bind.simps prod.case option.case link fl p3
    using nh start0 by (simp add: seems_complete_def S(5) del: upd_simps)
  then show ?thesis using S R E N F by (intro exI [of _ ?s3]) simp
qed

section \<open>Joining the fragments\<close>

text \<open>A fragment: a packet whose first pbuf holds the whole IP header, which can be hidden.\<close>

definition frag_chain :: "pstate \<Rightarrow> ptr \<Rightarrow> ptr list \<Rightarrow> bool" where
  "frag_chain m x cs \<longleftrightarrow> packet m (Some x) cs \<and> IP_HLEN \<le> pb_len (p_pbufs m x) \<and>
     (pb_type (p_pbufs m x) = PBUF_RAM \<or> pb_type (p_pbufs m x) = PBUF_POOL \<longrightarrow>
        snd x + SIZEOF_STRUCT_PBUF \<le> snd (pb_payload (p_pbufs m x)))"

lemma frag_chain_cong: "\<forall>y\<in>set cs. p_pbufs m y = p_pbufs m' y \<Longrightarrow> x \<in> set cs \<Longrightarrow> frag_chain m x cs = frag_chain m' x cs"
  using packet_cong [of cs m m'] by (simp add: frag_chain_def)

lemma frag_chain_head: "frag_chain m x cs \<Longrightarrow> \<exists>cs'. cs = x # cs'"
  by (cases cs) (auto simp: frag_chain_def packet_def)

lemma hide_header:
  assumes "frag_chain m x cs"
  shows "\<exists>m1. pbuf_header (Some x) (- IP_HLEN) m = (False, m1) \<and> packet m1 (Some x) cs \<and>
    data m1 cs = drop 20 (data m cs) \<and> tot m1 cs = tot m cs - 20 \<and>
    p_bytes m1 = p_bytes m \<and> p_heap m1 = p_heap m \<and> p_pools m1 = p_pools m \<and> (\<forall>y. y \<noteq> x \<longrightarrow> p_pbufs m1 y = p_pbufs m y) \<and>
    (\<forall>y. pb_ref (p_pbufs m1 y) = pb_ref (p_pbufs m y))"
proof -
  obtain cs' where cs: "cs = x # cs'" using frag_chain_head [OF assms] by blast
  have f: "packet m (Some x) (x # cs')" "20 \<le> pb_len (p_pbufs m x)"
    "pb_type (p_pbufs m x) = PBUF_RAM \<or> pb_type (p_pbufs m x) = PBUF_POOL \<longrightarrow>
       snd x + SIZEOF_STRUCT_PBUF \<le> snd (pb_payload (p_pbufs m x)) + 20"
    using assms cs by (auto simp: frag_chain_def IP_HLEN_def)
  obtain m1 where m1: "pbuf_header (Some x) (- 20) m = (False, m1)" "packet m1 (Some x) (x # cs')"
    "data m1 (x # cs') = drop (nat 20) (data m (x # cs'))" "tot m1 (x # cs') = tot m (x # cs') - 20"
    "p_pbufs m1 x = (p_pbufs m x)\<lparr>pb_payload := ptr_add (pb_payload (p_pbufs m x)) 20, pb_len := pb_len (p_pbufs m x) - 20,
      pb_tot_len := pb_tot_len (p_pbufs m x) - 20\<rparr>"
    "p_bytes m1 = p_bytes m" "p_heap m1 = p_heap m" "p_pools m1 = p_pools m" "\<forall>y. y \<noteq> x \<longrightarrow> p_pbufs m1 y = p_pbufs m y"
    using shrink_header [OF f(1) _ f(2) _ f(3)] by auto
  have "pb_ref (p_pbufs m1 y) = pb_ref (p_pbufs m y)" for y using m1(5,9) by (cases "y = x") simp_all
  then show ?thesis using m1 by (intro exI [of _ m1]) (simp add: cs IP_HLEN_def)
qed

definition frag_data :: "pstate \<Rightarrow> (ptr \<Rightarrow> ptr list) \<Rightarrow> ptr list \<Rightarrow> u8_t list" where
  "frag_data m C xs = concat (map (\<lambda>x. drop 20 (data m (C x))) xs)"

definition frag_size :: "pstate \<Rightarrow> (ptr \<Rightarrow> ptr list) \<Rightarrow> ptr list \<Rightarrow> int" where
  "frag_size m C xs = (\<Sum>x\<leftarrow>xs. tot m (C x) - 20)"

definition pbufs_of :: "(ptr \<Rightarrow> ptr list) \<Rightarrow> ptr list \<Rightarrow> ptr list" where
  "pbufs_of C xs = concat (map C xs)"

lemma pbufs_of_simps [simp]: "pbufs_of C [] = []" "pbufs_of C (x # xs) = C x @ pbufs_of C xs"
  by (simp_all add: pbufs_of_def)

lemma frag_size_simps [simp]: "frag_size m C [] = 0" "frag_size m C (x # xs) = tot m (C x) - 20 + frag_size m C xs"
  by (simp_all add: frag_size_def)

lemma frag_data_simps [simp]: "frag_data m C [] = []" "frag_data m C (x # xs) = drop 20 (data m (C x)) @ frag_data m C xs"
  by (simp_all add: frag_data_def)

lemma frag_size_nonneg:
  assumes "\<forall>x\<in>set xs. frag_chain m x (C x)"
  shows "0 \<le> frag_size m C xs"
proof -
  have "0 \<le> tot m (C x) - 20" if "frag_chain m x (C x)" for x
  proof -
    obtain cs where cs: "C x = x # cs" using frag_chain_head [of m x "C x"] \<open>frag_chain m x (C x)\<close> by blast
    have "IP_HLEN \<le> pb_len (p_pbufs m x)" using \<open>frag_chain m x (C x)\<close> by (simp add: frag_chain_def)
    moreover have "lens_ok m (C x)" using \<open>frag_chain m x (C x)\<close> by (simp add: frag_chain_def packet_def)
    ultimately show ?thesis using tot_nonneg [of m cs] by (simp add: cs IP_HLEN_def)
  qed
  then show ?thesis using assms by (induction xs) auto
qed

lemma in_pbufs_of: "\<forall>x\<in>set xs. frag_chain m x (C x) \<Longrightarrow> x \<in> set xs \<Longrightarrow> x \<in> set (C x) \<and> x \<in> set (pbufs_of C xs) \<and> set (C x) \<subseteq> set (pbufs_of C xs)"
  using frag_chain_head [of m x "C x"] by (force simp: pbufs_of_def)

lemma frag_cong:
  assumes "\<forall>y\<in>set (pbufs_of C xs). p_pbufs m y = p_pbufs m' y" "p_bytes m = p_bytes m'"
  shows "frag_data m C xs = frag_data m' C xs" "frag_size m C xs = frag_size m' C xs"
  using assms
proof (induction xs)
  case (Cons x xs)
  { case 1 then show ?case using Cons data_cong [of "C x" m m'] by simp }
  { case 2 then show ?case using Cons same_pbufs(3) [of "C x" m m'] by simp }
qed simp_all

lemma reass_join_loop_spec:
  assumes "packet (n_mem s) (Some p) ps" "frags s r xs" "\<forall>x\<in>set xs. frag_chain (n_mem s) x (C x)"
    "distinct (pbufs_of C xs)" "set ps \<inter> set (pbufs_of C xs) = {}" "tot (n_mem s) ps + frag_size (n_mem s) C xs \<le> 65535"
  shows "\<exists>m. reass_join_loop p r s = Some (set_mem m s) \<and> packet m (Some p) (ps @ pbufs_of C xs) \<and>
    data m (ps @ pbufs_of C xs) = data (n_mem s) ps @ frag_data (n_mem s) C xs \<and>
    p_bytes m = p_bytes (n_mem s) \<and> p_heap m = p_heap (n_mem s) \<and> p_pools m = p_pools (n_mem s) \<and>
    (\<forall>y. pb_ref (p_pbufs m y) = pb_ref (p_pbufs (n_mem s) y)) \<and>
    (\<forall>y. y \<notin> set (ps @ pbufs_of C xs) \<longrightarrow> p_pbufs m y = p_pbufs (n_mem s) y)"
  using assms
proof (induction xs arbitrary: r ps s)
  case Nil
  then show ?case by (intro exI [of _ "n_mem s"]) (simp add: reass_join_loop.simps [of p None] set_mem_def)
next
  case (Cons x xs)
  let ?m = "n_mem s"
  have x: "r = Some x" "frags s (rh_next_pbuf (helper s (payload_of x s))) xs" "frag_chain ?m x (C x)"
    "\<forall>y\<in>set xs. frag_chain ?m y (C y)" using Cons.prems(2,3) by simp_all
  have d: "distinct (C x)" "distinct (pbufs_of C xs)" "set (C x) \<inter> set (pbufs_of C xs) = {}"
    "set ps \<inter> set (C x) = {}" "set ps \<inter> set (pbufs_of C xs) = {}"
    using Cons.prems(4,5) by auto
  have xc: "x \<in> set (C x)" using frag_chain_head [OF x(3)] by force
  obtain m1 where m1: "pbuf_header (Some x) (- IP_HLEN) ?m = (False, m1)" "packet m1 (Some x) (C x)"
    "data m1 (C x) = drop 20 (data ?m (C x))" "tot m1 (C x) = tot ?m (C x) - 20"
    "p_bytes m1 = p_bytes ?m" "p_heap m1 = p_heap ?m" "p_pools m1 = p_pools ?m" "\<forall>y. y \<noteq> x \<longrightarrow> p_pbufs m1 y = p_pbufs ?m y"
    "\<forall>y. pb_ref (p_pbufs m1 y) = pb_ref (p_pbufs ?m y)"
    using hide_header [OF x(3)] by blast
  have nx: "x \<notin> set ps" "x \<notin> set (pbufs_of C xs)" using d(3,4) xc by blast+
  have s1: "\<forall>y\<in>set ps. p_pbufs m1 y = p_pbufs ?m y" "\<forall>y\<in>set (pbufs_of C xs). p_pbufs m1 y = p_pbufs ?m y"
    using nx m1(8) by (simp_all add: Ball_def) metis+
  have ps1: "packet m1 (Some p) ps" "tot m1 ps = tot ?m ps" "data m1 ps = data ?m ps"
    using Cons.prems(1) packet_cong [OF s1(1)] same_pbufs(3) [OF s1(1)] data_cong [of ps m1 ?m] s1(1) m1(5) by simp_all
  have b1: "tot m1 ps + tot m1 (C x) \<le> 65535"
    using Cons.prems(6) frag_size_nonneg [OF x(4)] by (simp add: ps1 m1(4))
  obtain m2 where m2: "pbuf_cat (Some p) (Some x) m1 = Some m2" "packet m2 (Some p) (ps @ C x)"
    "data m2 (ps @ C x) = data m1 ps @ data m1 (C x)" "p_heap m2 = p_heap m1" "p_pools m2 = p_pools m1" "p_bytes m2 = p_bytes m1"
    "\<forall>y. pb_ref (p_pbufs m2 y) = pb_ref (p_pbufs m1 y)" "\<forall>y. y \<notin> set ps \<longrightarrow> p_pbufs m2 y = p_pbufs m1 y"
    using pbuf_cat_packet [OF ps1(1) m1(2) d(4) b1] by blast
  have s2: "\<forall>y\<in>set (pbufs_of C xs). p_pbufs m2 y = p_pbufs ?m y" using m2(8) s1(2) d(5) by (metis disjoint_iff)
  let ?s2 = "set_mem m2 s"
  have pay: "payload_of y ?s2 = payload_of y s" if "y \<in> set xs" for y
    using s2 in_pbufs_of [OF x(4) that] by (simp add: payload_of_def)
  have fr: "frags ?s2 (rh_next_pbuf (helper s (payload_of x s))) xs"
    using x(2) linked_cong [of xs "\<lambda>y. rh_next_pbuf (helper ?s2 (payload_of y ?s2))" "\<lambda>y. rh_next_pbuf (helper s (payload_of y s))"] pay
    unfolding frags_def by simp
  have fc: "\<forall>y\<in>set xs. frag_chain (n_mem ?s2) y (C y)"
  proof
    fix y assume y: "y \<in> set xs"
    note c = in_pbufs_of [OF x(4) y]
    have "\<forall>z\<in>set (C y). p_pbufs m2 z = p_pbufs ?m z" using s2 c by blast
    then show "frag_chain (n_mem ?s2) y (C y)" using frag_chain_cong [of "C y" m2 ?m y] x(4) y c by simp
  qed
  have sz: "frag_size m2 C xs = frag_size ?m C xs" "frag_data m2 C xs = frag_data ?m C xs"
    using frag_cong [OF s2] m2(6) m1(5) by simp_all
  have "int (length (data m2 (ps @ C x))) = tot m2 (ps @ C x)" using m2(2) packet_def length_data by blast
  moreover have "int (length (data m1 ps)) = tot m1 ps" "int (length (data m1 (C x))) = tot m1 (C x)"
    using ps1(1) m1(2) packet_def length_data by blast+
  ultimately have t2: "tot m2 (ps @ C x) = tot ?m ps + (tot ?m (C x) - 20)"
    using arg_cong [OF m2(3), of length] ps1(2) m1(4) by simp
  have dj: "set (ps @ C x) \<inter> set (pbufs_of C xs) = {}" using d by auto
  have b2: "tot (n_mem ?s2) (ps @ C x) + frag_size (n_mem ?s2) C xs \<le> 65535" using Cons.prems(6) t2 sz(1) by simp
  obtain m where m: "reass_join_loop p (rh_next_pbuf (helper s (payload_of x s))) ?s2 = Some (set_mem m ?s2)"
    "packet m (Some p) ((ps @ C x) @ pbufs_of C xs)"
    "data m ((ps @ C x) @ pbufs_of C xs) = data m2 (ps @ C x) @ frag_data m2 C xs"
    "p_bytes m = p_bytes m2" "p_heap m = p_heap m2" "p_pools m = p_pools m2"
    "\<forall>y. pb_ref (p_pbufs m y) = pb_ref (p_pbufs m2 y)" "\<forall>y. y \<notin> set ((ps @ C x) @ pbufs_of C xs) \<longrightarrow> p_pbufs m y = p_pbufs m2 y"
    using Cons.IH [of ?s2 "ps @ C x", OF _ fr fc d(2) dj b2] m2(2) by (simp only: set_mem_simps) blast
  have run: "reass_join_loop p r s = Some (set_mem m s)"
    using x(1) m1(1) m2(1) m(1) by (subst reass_join_loop.simps) (simp add: Let_def set_mem_def)
  have "p_pbufs m y = p_pbufs ?m y" if "y \<notin> set (ps @ pbufs_of C (x # xs))" for y
  proof -
    have "y \<notin> set ps" "y \<noteq> x" "y \<notin> set ((ps @ C x) @ pbufs_of C xs)" using that xc by auto
    then show ?thesis using m(8) m2(8) m1(8) by metis
  qed
  then show ?case using run m m2 m1 ps1(3) sz(2) by (intro exI [of _ m]) simp
qed

section \<open>The datagram\<close>

definition datagrams :: "('x, 'm) ip_net \<Rightarrow> nat list \<Rightarrow> bool" where
  "datagrams s ds \<longleftrightarrow> linked (\<lambda>i. ir_next (reass s i)) (reassdatagrams (n_dev s)) ds"

lemma dequeue_spec:
  assumes "datagrams s (us @ i # ws)"
  shows "\<exists>s'. ip_reass_dequeue_datagram i (last_opt us) s = Some s' \<and> datagrams s' (us @ ws) \<and>
    n_mem s' = (n_mem s)\<lparr>p_pools := memp_free MEMP_REASSDATA (Some i) (p_pools (n_mem s))\<rparr> \<and>
    ip_reass_pbufcount (n_dev s') = ip_reass_pbufcount (n_dev s)"
proof -
  let ?nx = "\<lambda>j. ir_next (reass s j)"
  let ?free = "memp_tab (p_pools (n_mem s)) MEMP_REASSDATA"
  have d: "i \<notin> set (us @ ws)" using linked_distinct [of ?nx _ "us @ i # ws"] assms by (auto simp: datagrams_def)
  show ?thesis
  proof (cases "us = []")
    case True
    let ?s = "free_reassdata i (upd_ip (\<lambda>v. v\<lparr>reassdatagrams := ir_next (reass_tab v i)\<rparr>) s)"
    have "linked (\<lambda>j. ir_next (reass ?s j)) (?nx i) ws = linked ?nx (?nx i) ws"
      by (rule linked_cong) (use d in \<open>auto simp: free_reassdata_def Let_def\<close>)
    moreover have "linked ?nx (?nx i) ws" using assms True by (simp add: datagrams_def)
    ultimately have "datagrams ?s ws" by (simp add: datagrams_def) (simp add: free_reassdata_def Let_def)
    then show ?thesis using assms True
      by (intro exI [of _ ?s]) (simp add: ip_reass_dequeue_datagram_def datagrams_def free_reassdata_def Let_def)
  next
    case False
    let ?s = "free_reassdata i (upd_reass (last us) (\<lambda>r. r\<lparr>ir_next := ir_next (reass s i)\<rparr>) s)"
    have l: "last us \<in> set us" "last us \<noteq> i" using False d by auto
    have h: "reassdatagrams (n_dev s) \<noteq> Some i"
      using assms d False by (cases us) (auto simp: datagrams_def)
    have "linked (\<lambda>j. ir_next (reass ?s j)) (if us = [] then ?nx i else reassdatagrams (n_dev s)) (us @ ws)"
      by (rule linked_remove [OF assms [unfolded datagrams_def]]) (use l d in \<open>auto simp: free_reassdata_def Let_def\<close>)
    then have "datagrams ?s (us @ ws)" using False by (simp add: datagrams_def free_reassdata_def Let_def)
    then show ?thesis using False h
      by (intro exI [of _ ?s]) (simp add: ip_reass_dequeue_datagram_def last_opt_def free_reassdata_def Let_def)
  qed
qed

text \<open>The header of the whole datagram: that of the first fragment with the new length.\<close>

definition whole_header :: "u8_t list \<Rightarrow> int \<Rightarrow> u8_t list" where
  "whole_header h len = with_chksum (splice 6 [0, 0] (splice 2 (u16_bytes (lwip_htons (word_of_int len))) h))"

definition frags_ready :: "('x, 'm) ip_net \<Rightarrow> nat \<Rightarrow> ptr list \<Rightarrow> (ptr \<Rightarrow> ptr list) \<Rightarrow> bool" where
  "frags_ready s i xs C \<longleftrightarrow> frags s (ir_p (reass s i)) xs \<and> (\<forall>y\<in>set xs. frag_chain (n_mem s) y (C y)) \<and>
     distinct (pbufs_of C xs) \<and> distinct (addrs (n_mem s) (pbufs_of C xs)) \<and> frag_size (n_mem s) C xs \<le> 65515 \<and>
     length (ir_iphdr (reass s i)) = 20"

lemma reass_complete_spec:
  assumes rd: "frags_ready s i (x # xs) C" and dg: "datagrams s (us @ i # ws)"
  shows "\<exists>s'. ip_reass_complete i (last_opt us) s = Some (Some x, s') \<and>
    packet (n_mem s') (Some x) (pbufs_of C (x # xs)) \<and>
    data (n_mem s') (pbufs_of C (x # xs)) =
      whole_header (ir_iphdr (reass s i)) (c_u16 (ir_datagram_len (reass s i) + 20)) @ frag_data (n_mem s) C (x # xs) \<and>
    datagrams s' (us @ ws) \<and>
    ip_reass_pbufcount (n_dev s') =
      c_u16 (ip_reass_pbufcount (n_dev s) - c_u8 (int (length (pbufs_of C (x # xs))))) \<and>
    p_pools (n_mem s') = memp_free MEMP_REASSDATA (Some i) (p_pools (n_mem s)) \<and>
    (\<forall>y. pb_ref (p_pbufs (n_mem s') y) = pb_ref (p_pbufs (n_mem s) y))"
proof -
  let ?m = "n_mem s" let ?h = "payload_of x s" let ?len = "c_u16 (ir_datagram_len (reass s i) + 20)"
  let ?hdr = "whole_header (ir_iphdr (reass s i)) ?len"
  define s1 where "s1 = upd_reass i (\<lambda>r. r\<lparr>ir_datagram_len := c_u16 (ir_datagram_len r + IP_HLEN)\<rparr>) s"
  define m1 where "m1 = (let m = mem_write ?h (ir_iphdr (reass s i)) ?m;
     m = put16 ?h IPH_LEN (lwip_htons (word_of_int ?len)) m; m = put16 ?h IPH_OFFSET 0 m; m = put16 ?h IPH_CHKSUM 0 m
     in put16 ?h IPH_CHKSUM (inet_chksum (p_bytes m (fst ?h)) (snd ?h) IP_HLEN) m)"
  have r: "frags s (ir_p (reass s i)) (x # xs)" "\<forall>y\<in>set (x # xs). frag_chain ?m y (C y)" "distinct (pbufs_of C (x # xs))"
    "distinct (addrs ?m (pbufs_of C (x # xs)))" "frag_size ?m C (x # xs) \<le> 65515" "length (ir_iphdr (reass s i)) = 20"
    using rd by (simp_all add: frags_ready_def)
  have p: "ir_p (reass s i) = Some x" "frags s (rh_next_pbuf (helper s ?h)) xs" using r(1) by simp_all
  have w: "writes (span ?h 20) ?hdr ?m m1"
  proof -
    have w0: "writes (span ?h 20) (ir_iphdr (reass s i)) ?m (mem_write ?h (ir_iphdr (reass s i)) ?m)"
      using mem_write_writes [of ?h "ir_iphdr (reass s i)" ?m] r(6) by simp
    have "writes (span ?h 20) (splice 2 (u16_bytes (lwip_htons (word_of_int ?len))) (ir_iphdr (reass s i))) ?m
        (put16 ?h IPH_LEN (lwip_htons (word_of_int ?len)) (mem_write ?h (ir_iphdr (reass s i)) ?m))"
      using writes_put16 [OF w0, of 2] by (simp add: IPH_LEN_def)
    from writes_put16 [OF this, of 6 0] show ?thesis
      using writes_chksum by (simp add: m1_def whole_header_def IPH_OFFSET_def u16_bytes_0 Let_def)
  qed
  have mm: "p_pbufs m1 = p_pbufs ?m" "p_heap m1 = p_heap ?m" "p_pools m1 = p_pools ?m"
    using w by (simp_all add: writes_def)
  obtain cs where cs: "C x = x # cs" using frag_chain_head [of ?m x "C x"] r(2) by auto
  have l: "20 \<le> pb_len (p_pbufs ?m x)" using r(2) by (simp add: frag_chain_def IP_HLEN_def)
  have sp: "span ?h 20 = take 20 (pb_addrs ?m x)"
    using span_sub [of 0 20 "pb_len (p_pbufs ?m x)" ?h] l by (simp add: pb_addrs_def payload_of_def)
  have ad: "set (addrs ?m cs) \<inter> set (span ?h 20) = {}" "set (addrs ?m (pbufs_of C xs)) \<inter> set (span ?h 20) = {}"
    using r(4) set_take_subset [of 20 "pb_addrs ?m x"] by (auto simp: cs sp)
  have fd: "frag_data m1 C xs = frag_data ?m C xs"
  proof -
    have "data m1 (C y) = data ?m (C y)" if "y \<in> set xs" for y
    proof (rule writes_data_other [OF w])
      have "set (addrs ?m (C y)) \<subseteq> set (addrs ?m (pbufs_of C xs))" using that by (auto simp: addrs_def pbufs_of_def)
      then show "set (addrs ?m (C y)) \<inter> set (span ?h 20) = {}" using ad(2) by blast
    qed
    then show ?thesis by (simp add: frag_data_def cong: map_cong)
  qed
  have d1: "data m1 (C x) = ?hdr @ drop 20 (data ?m (C x))"
  proof -
    have s: "read_bytes ?h (pb_len (p_pbufs ?m x)) m = read_bytes ?h 20 m @ read_bytes (ptr_add ?h 20) (pb_len (p_pbufs ?m x) - 20) m" for m
      using read_split [of 20 "pb_len (p_pbufs ?m x) - 20" ?h m] l by simp
    have "read_bytes (ptr_add ?h 20) (pb_len (p_pbufs ?m x) - 20) m1 = read_bytes (ptr_add ?h 20) (pb_len (p_pbufs ?m x) - 20) ?m"
      unfolding read_span by (rule map_cong [OF refl]) (use w in \<open>auto simp: writes_def span_mem ptr_add_def\<close>)
    moreover have "data m1 cs = data ?m cs" by (rule writes_data_other [OF w ad(1)])
    ultimately show ?thesis using writes_read [OF w] mm(1)
      by (simp add: cs pb_data_def payload_of_def [symmetric] s)
  qed
  let ?s1 = "set_mem m1 s1"
  have pk: "packet (n_mem ?s1) (Some x) (C x)"
    using r(2) writes_packet [OF w] by (simp add: frag_chain_def)
  have pay: "payload_of y ?s1 = payload_of y s" for y by (simp add: payload_of_def mm)
  have hp: "helper s1 = helper s" by (simp add: s1_def)
  have fr: "frags ?s1 (rh_next_pbuf (helper s ?h)) xs" using p(2) by (simp add: frags_def pay hp)
  have fc: "\<forall>y\<in>set xs. frag_chain (n_mem ?s1) y (C y)"
    using r(2) writes_packet [OF w] by (simp add: frag_chain_def mm)
  have dj: "distinct (pbufs_of C xs)" "set (C x) \<inter> set (pbufs_of C xs) = {}" using r(3) by auto
  have sz: "tot (n_mem ?s1) (C x) + frag_size (n_mem ?s1) C xs \<le> 65535"
    using r(5) same_pbufs(3) [of _ m1 ?m] mm(1) by (simp add: frag_size_def)
  obtain m2 where m2: "reass_join_loop x (rh_next_pbuf (helper s ?h)) ?s1 = Some (set_mem m2 ?s1)"
    "packet m2 (Some x) (C x @ pbufs_of C xs)" "data m2 (C x @ pbufs_of C xs) = data m1 (C x) @ frag_data m1 C xs"
    "p_heap m2 = p_heap m1" "p_pools m2 = p_pools m1" "\<forall>y. pb_ref (p_pbufs m2 y) = pb_ref (p_pbufs m1 y)"
    "p_bytes m2 = p_bytes m1"
    using reass_join_loop_spec [OF pk fr fc dj sz] by (simp only: set_mem_simps) blast
  let ?s2 = "set_mem m2 ?s1"
  have "datagrams ?s2 (us @ i # ws)"
    using dg linked_cong [of "us @ i # ws" "\<lambda>j. ir_next (reass s1 j)" "\<lambda>j. ir_next (reass s j)"]
    by (simp add: datagrams_def s1_def)
  then obtain s3 where s3: "ip_reass_dequeue_datagram i (last_opt us) ?s2 = Some s3" "datagrams s3 (us @ ws)"
    "n_mem s3 = m2\<lparr>p_pools := memp_free MEMP_REASSDATA (Some i) (p_pools m2)\<rparr>"
    "ip_reass_pbufcount (n_dev s3) = ip_reass_pbufcount (n_dev s)"
    using dequeue_spec [of ?s2 us i ws] by (auto simp: s1_def)
  let ?cs = "C x @ pbufs_of C xs"
  have o: "\<forall>y\<in>set ?cs. p_pbufs (n_mem s3) y = p_pbufs m2 y" by (simp add: s3(3))
  have pk3: "packet (n_mem s3) (Some x) ?cs" using m2(2) packet_cong [OF o] by simp
  have dt3: "data (n_mem s3) ?cs = data m2 ?cs" by (rule data_cong) (simp_all add: s3(3))
  have cl: "pbuf_clen (Some x) (n_mem s3) = Some (c_u8 (int (length ?cs)))"
    by (rule pbuf_clen_spec) (use pk3 in \<open>simp add: packet_def\<close>)
  let ?s4 = "upd_ip (\<lambda>v. v\<lparr>ip_reass_pbufcount := c_u16 (ip_reass_pbufcount v - c_u8 (int (length ?cs)))\<rparr>) s3"
  have rl: "ir_p (reass s1 i) = Some x" "ir_iphdr (reass s1 i) = ir_iphdr (reass s i)" "ir_datagram_len (reass s1 i) = ?len"
    "payload_of x s1 = ?h" "helper s1 = helper s" "n_mem s1 = ?m"
    using p(1) by (simp_all add: s1_def IP_HLEN_def)
  have "ip_reass_complete i (last_opt us) s = Some (Some x, ?s4)"
    unfolding ip_reass_complete_def s1_def [symmetric] Let_def rl Option.bind.simps
    using m2(1) s3(1) cl by (simp add: m1_def [unfolded Let_def, symmetric])
  moreover have "datagrams ?s4 (us @ ws)" using s3(2) by (simp add: datagrams_def)
  ultimately show ?thesis
    using pk3 dt3 m2 s3 d1 fd mm by (intro exI [of _ ?s4]) simp
qed

section \<open>A fragment of a known datagram\<close>

lemma reass_find_spec:
  assumes "linked (\<lambda>j. ir_next (reass s j)) q (us @ i # ws)" "\<forall>j\<in>set us. \<not> IP_ADDRESSES_AND_ID_MATCH (ir_iphdr (reass s j)) h"
    "IP_ADDRESSES_AND_ID_MATCH (ir_iphdr (reass s i)) h"
  shows "reass_find h q prev s = Some (Some i, if us = [] then prev else last_opt us)"
  using assms
proof (induction us arbitrary: q prev)
  case Nil
  then show ?case by (subst reass_find.simps) simp
next
  case (Cons u us)
  then show ?case using Cons.IH [of "ir_next (reass s u)" "Some u"]
    by (subst reass_find.simps) (auto simp: last_opt_def)
qed

definition frag_last :: "('x, 'm) ip_net \<Rightarrow> ptr \<Rightarrow> bool" where
  "frag_last s p \<longleftrightarrow> get16 (payload_of p s) IPH_OFFSET (n_mem s) AND lwip_ntohs IP_MF = 0"

definition frag_first :: "('x, 'm) ip_net \<Rightarrow> ptr \<Rightarrow> bool" where
  "frag_first s p \<longleftrightarrow> frag_offset (get16 (payload_of p s) IPH_OFFSET (n_mem s)) = 0"

definition hdr_first :: "u8_t list \<Rightarrow> bool" where
  "hdr_first h \<longleftrightarrow> frag_offset (u16_le (h ! 6) (h ! 7)) = 0"

text \<open>What the datagram remembers once the fragment has come: the header, the length, that the last one came.\<close>

definition new_iphdr :: "('x, 'm) ip_net \<Rightarrow> nat \<Rightarrow> ptr \<Rightarrow> u8_t list" where
  "new_iphdr s i p = (if frag_first s p \<and> \<not> hdr_first (ir_iphdr (reass s i)) then hdr_bytes (payload_of p s) s else ir_iphdr (reass s i))"

definition new_len :: "('x, 'm) ip_net \<Rightarrow> nat \<Rightarrow> ptr \<Rightarrow> int" where
  "new_len s i p = (if frag_last s p then hdr_end s p else ir_datagram_len (reass s i))"

definition new_flags :: "('x, 'm) ip_net \<Rightarrow> nat \<Rightarrow> ptr \<Rightarrow> u8_t" where
  "new_flags s i p = (if frag_last s p then ir_flags (reass s i) OR IP_REASS_FLAG_LASTFRAG else ir_flags (reass s i))"

definition noted :: "('x, 'm) ip_net \<Rightarrow> nat \<Rightarrow> ptr \<Rightarrow> ip_reassdata" where
  "noted s i p = (reass s i)\<lparr>ir_iphdr := new_iphdr s i p, ir_datagram_len := new_len s i p, ir_flags := new_flags s i p\<rparr>"

text \<open>The code looks for holes everywhere but between the fragment and the one before it when there is one behind it.\<close>

definition no_hole_seen :: "('x, 'm) ip_net \<Rightarrow> ptr list \<Rightarrow> ptr \<Rightarrow> ptr list \<Rightarrow> bool" where
  "no_hole_seen s us n ws \<longleftrightarrow>
     (if us = [] then hdr_start s n else fr_start s (hd us)) = 0 \<and> gapless s us \<and>
     (ws = [] \<and> us \<noteq> [] \<longrightarrow> fr_end s (last us) = hdr_start s n) \<and>
     (ws \<noteq> [] \<longrightarrow> hdr_end s n = fr_start s (hd ws)) \<and> gapless s ws"

definition taken_for_complete :: "('x, 'm) ip_net \<Rightarrow> nat \<Rightarrow> ptr list \<Rightarrow> ptr \<Rightarrow> ptr list \<Rightarrow> bool" where
  "taken_for_complete s i us n ws \<longleftrightarrow> new_flags s i n AND IP_REASS_FLAG_LASTFRAG \<noteq> 0 \<and> no_hole_seen s us n ws"

text \<open>A fragment that belongs to the \<open>i\<close>th datagram and fits between its fragments \<open>vs\<close> and \<open>zs\<close>.\<close>

definition frag_arrives ::
    "('x, 'm) ip_net \<Rightarrow> ptr \<Rightarrow> nat list \<Rightarrow> nat \<Rightarrow> nat list \<Rightarrow> ptr list \<Rightarrow> ptr list \<Rightarrow> (ptr \<Rightarrow> ptr list) \<Rightarrow> bool" where
  "frag_arrives s p us i ws vs zs C \<longleftrightarrow>
     IPH_HL (payload_of p s) (n_mem s) = 5 \<and>
     0 \<le> ip_reass_pbufcount (n_dev s) \<and> ip_reass_pbufcount (n_dev s) + int (length (C p)) \<le> IP_REASS_MAX_PBUFS \<and>
     datagrams s (us @ i # ws) \<and>
     (\<forall>j\<in>set us. \<not> IP_ADDRESSES_AND_ID_MATCH (ir_iphdr (reass s j)) (hdr_bytes (payload_of p s) s)) \<and>
     IP_ADDRESSES_AND_ID_MATCH (ir_iphdr (reass s i)) (hdr_bytes (payload_of p s) s) \<and>
     length (ir_iphdr (reass s i)) = 20 \<and>
     frags s (ir_p (reass s i)) (vs @ zs) \<and> fits_between s vs p zs \<and>
     (\<forall>y\<in>set (vs @ p # zs). frag_chain (n_mem s) y (C y)) \<and>
     distinct (pbufs_of C (vs @ p # zs)) \<and> distinct (addrs (n_mem s) (pbufs_of C (vs @ p # zs))) \<and>
     frag_size (n_mem s) C (vs @ p # zs) \<le> 65515"

lemma frag_arrives_chain: "frag_arrives s p us i ws vs zs C \<Longrightarrow> \<forall>y\<in>set (vs @ p # zs). frag_chain (n_mem s) y (C y)"
  unfolding frag_arrives_def by (elim conjE)

lemma pbufs_of_append [simp]: "pbufs_of C (xs @ ys) = pbufs_of C xs @ pbufs_of C ys"
  by (simp add: pbufs_of_def)

lemma frags_apart:
  assumes "\<forall>y\<in>set xs. frag_chain (n_mem s) y (C y)" "distinct (addrs (n_mem s) (pbufs_of C xs))"
  shows "apart s xs"
  using assms
proof (induction xs)
  case Nil
  then show ?case by (simp add: apart_def)
next
  case (Cons x xs)
  have head: "payload_of y s \<in> set (addrs (n_mem s) (C y))" if "frag_chain (n_mem s) y (C y)" for y
  proof -
    obtain cs where cs: "C y = y # cs" using frag_chain_head [of "n_mem s" y "C y"] \<open>frag_chain (n_mem s) y (C y)\<close> by blast
    have "20 \<le> pb_len (p_pbufs (n_mem s) y)" using \<open>frag_chain (n_mem s) y (C y)\<close> by (simp add: frag_chain_def IP_HLEN_def)
    then show ?thesis by (simp add: cs pb_addrs_def span_mem payload_of_def)
  qed
  have "payload_of x s \<noteq> payload_of y s" if "y \<in> set xs" for y
  proof -
    have "payload_of y s \<in> set (addrs (n_mem s) (C y))" using head Cons.prems(1) that by simp
    moreover have "set (addrs (n_mem s) (C y)) \<subseteq> set (addrs (n_mem s) (pbufs_of C xs))"
      using that by (auto simp: addrs_def pbufs_of_def)
    ultimately have "payload_of y s \<in> set (addrs (n_mem s) (pbufs_of C xs))" by blast
    moreover have "payload_of x s \<in> set (addrs (n_mem s) (C x))" using head Cons.prems(1) by simp
    ultimately show ?thesis using Cons.prems(2) by auto
  qed
  moreover have "apart s xs" using Cons by simp
  ultimately show ?case by (auto simp: apart_def)
qed

lemma seems_complete_eq:
  "(\<And>x. fr_start s x = fr_start s' x \<and> fr_end s x = fr_end s' x) \<Longrightarrow> hdr_start s n = hdr_start s' n \<Longrightarrow> hdr_end s n = hdr_end s' n \<Longrightarrow>
     seems_complete s i us n ws = (ir_flags (reass s i) AND IP_REASS_FLAG_LASTFRAG \<noteq> 0 \<and> no_hole_seen s' us n ws)"
  using gapless_cong [of us s s'] gapless_cong [of ws s s'] by (simp add: seems_complete_def no_hole_seen_def)

lemma ip_reass_fragment_spec:
  assumes "frag_arrives s p us i ws vs zs C"
  shows "\<exists>r s'. ip_reass l p s = Some (r, s') \<and>
    (if taken_for_complete s i vs p zs
     then r = Some (hd (vs @ [p])) \<and> packet (n_mem s') r (pbufs_of C (vs @ p # zs)) \<and>
       data (n_mem s') (pbufs_of C (vs @ p # zs)) =
         whole_header (new_iphdr s i p) (c_u16 (new_len s i p + 20)) @ frag_data (n_mem s) C (vs @ p # zs) \<and>
       datagrams s' (us @ ws)
     else r = None \<and> n_mem s' = n_mem s \<and> datagrams s' (us @ i # ws) \<and>
       frags s' (ir_p (reass s' i)) (vs @ p # zs) \<and>
       (\<forall>x\<in>set (vs @ zs). fr_start s' x = fr_start s x \<and> fr_end s' x = fr_end s x) \<and>
       fr_start s' p = hdr_start s p \<and> fr_end s' p = hdr_end s p)"
proof -
  let ?m = "n_mem s" let ?h = "payload_of p s" let ?xs = "vs @ p # zs"
  have A: "IPH_HL ?h ?m = 5" "0 \<le> ip_reass_pbufcount (n_dev s)" "ip_reass_pbufcount (n_dev s) + int (length (C p)) \<le> 10"
    "datagrams s (us @ i # ws)" "\<forall>j\<in>set us. \<not> IP_ADDRESSES_AND_ID_MATCH (ir_iphdr (reass s j)) (hdr_bytes ?h s)"
    "IP_ADDRESSES_AND_ID_MATCH (ir_iphdr (reass s i)) (hdr_bytes ?h s)" "length (ir_iphdr (reass s i)) = 20"
    "frags s (ir_p (reass s i)) (vs @ zs)" "fits_between s vs p zs" "\<forall>y\<in>set ?xs. frag_chain ?m y (C y)"
    "distinct (pbufs_of C ?xs)" "distinct (addrs ?m (pbufs_of C ?xs))" "frag_size ?m C ?xs \<le> 65515"
    using assms by (simp_all add: frag_arrives_def IP_REASS_MAX_PBUFS_def)
  have clen: "pbuf_clen (Some p) ?m = Some (int (length (C p)))"
    using pbuf_clen_spec [of ?m "Some p" "C p"] A(2,3,10) by (simp add: frag_chain_def packet_def c_u8_def)
  have off: "c_u16 (frag_offset (get16 ?h IPH_OFFSET ?m) * 8) = hdr_start s p"
    "c_u16 (uint (lwip_ntohs (get16 ?h IPH_LEN ?m)) - IPH_HL ?h ?m * 4) = hdr_len s p"
    by (simp_all add: hdr_start_def hdr_len_def)
  define s0 where "s0 = upd_reass i (\<lambda>r. noted s i p) (upd_ip (\<lambda>v. v\<lparr>ip_reass_pbufcount := c_u16 (ip_reass_pbufcount v + int (length (C p)))\<rparr>) s)"
  have S0: "n_mem s0 = ?m" "helper s0 = helper s" "reass s0 = (reass s)(i := noted s i p)" "reassdatagrams (n_dev s0) = reassdatagrams (n_dev s)"
    "payload_of x s0 = payload_of x s" for x by (simp_all add: s0_def)
  have fd: "reass_find (hdr_bytes ?h s) (reassdatagrams (n_dev s)) None s = Some (Some i, last_opt us)"
    using reass_find_spec [of s _ us i ws] A(4-6) by (auto simp: datagrams_def)
  have run: "ip_reass l p s = do {
      (valid, s) \<leftarrow> ip_reass_chain_frag_into_datagram_and_validate l i p s0;
      if valid then ip_reass_complete i (last_opt us) s else Some (None, s) }"
  proof -
    have q: "ip_reass_queue l p i (last_opt us) (int (length (C p))) (hdr_start s p) (hdr_len s p) s1 = do {
        (valid, s) \<leftarrow> ip_reass_chain_frag_into_datagram_and_validate l i p s0;
        if valid then ip_reass_complete i (last_opt us) s else Some (None, s) }"
      if s1: "s1 = (if frag_first s p \<and> \<not> hdr_first (ir_iphdr (reass s i)) then upd_reass i (\<lambda>r. r\<lparr>ir_iphdr := hdr_bytes ?h s\<rparr>) s else s)" for s1
    proof -
      have "(let t = upd_ip (\<lambda>v. v\<lparr>ip_reass_pbufcount := c_u16 (ip_reass_pbufcount v + int (length (C p)))\<rparr>) s1
        in if get16 ?h IPH_OFFSET (n_mem t) AND lwip_ntohs IP_MF = 0
           then upd_reass i (\<lambda>r. r\<lparr>ir_flags := ir_flags r OR IP_REASS_FLAG_LASTFRAG, ir_datagram_len := c_u16 (hdr_start s p + hdr_len s p)\<rparr>) t
           else t) = s0"
        by (cases "reass s i"; cases "n_dev s")
          (simp add: s1 s0_def noted_def new_iphdr_def new_flags_def new_len_def frag_last_def upd_reass_def upd_ip_def Let_def hdr_end_def hdr_start_def hdr_len_def payload_of_def fun_upd_idem)
      moreover have "payload_of p s1 = ?h" "n_mem s1 = ?m" by (simp_all add: s1)
      ultimately show ?thesis unfolding ip_reass_queue_def Let_def by (simp split: if_splits)
    qed
    have "\<not> ip_reass_pbufcount (n_dev s) + int (length (C p)) > IP_REASS_MAX_PBUFS" using A(3) by (simp add: IP_REASS_MAX_PBUFS_def)
    then show ?thesis
      using q [OF refl] A(1) clen fd off unfolding ip_reass_def Let_def
      by (simp add: IP_HLEN_def frag_first_def hdr_first_def cong: if_cong)
  qed
  have "frags s0 (ir_p (reass s0 i)) (vs @ zs)" using A(8) by (simp add: frags_def S0 noted_def)
  moreover have "apart s0 ?xs" using frags_apart [OF A(10,12)] by (simp add: apart_def S0)
  moreover have se: "fr_start s0 x = fr_start s x" "fr_end s0 x = fr_end s x" "hdr_start s0 x = hdr_start s x" "hdr_end s0 x = hdr_end s x" for x
    by (simp_all add: fr_start_def fr_end_def hdr_start_def hdr_end_def hdr_len_def S0)
  moreover have "fits_between s0 vs p zs" using A(9) by (simp add: fits_between_def se)
  ultimately obtain s1 where s1: "ip_reass_chain_frag_into_datagram_and_validate l i p s0 = Some (seems_complete s0 i vs p zs, s1)"
    "n_mem s1 = ?m" "frags s1 (ir_p (reass s1 i)) ?xs" "fr_start s1 p = hdr_start s0 p" "fr_end s1 p = hdr_end s0 p"
    "\<forall>x. payload_of x s0 \<noteq> ?h \<longrightarrow> fr_start s1 x = fr_start s0 x \<and> fr_end s1 x = fr_end s0 x"
    "reass s1 = (reass s0)(i := (reass s0 i)\<lparr>ir_p := first ?xs\<rparr>)" "reassdatagrams (n_dev s1) = reassdatagrams (n_dev s0)"
    using chain_frag_spec [of s0 i vs zs p l] unfolding S0 by blast
  have sc: "seems_complete s0 i vs p zs = taken_for_complete s i vs p zs"
    using seems_complete_eq [of s0 s p i vs zs] se by (simp add: taken_for_complete_def S0 noted_def)
  have R1: "ir_iphdr (reass s1 i) = new_iphdr s i p" "ir_datagram_len (reass s1 i) = new_len s i p"
    by (simp_all add: s1(7) S0 noted_def)
  have dg: "datagrams s1 (us @ i # ws)"
    using A(4) linked_cong [of "us @ i # ws" "\<lambda>j. ir_next (reass s1 j)" "\<lambda>j. ir_next (reass s j)"]
    by (simp add: datagrams_def s1(7,8) S0 noted_def)
  show ?thesis
  proof (cases "taken_for_complete s i vs p zs")
    case True
    obtain x xs where xs: "?xs = x # xs" "x = hd (vs @ [p])" by (cases vs) auto
    have "length (new_iphdr s i p) = 20" using A(7) by (simp add: new_iphdr_def hdr_bytes_def IP_HLEN_def)
    then have "frags_ready s1 i (x # xs) C"
      using s1(2,3) A(10-13) unfolding xs(1) by (simp add: frags_ready_def R1)
    from reass_complete_spec [OF this dg] show ?thesis
      using run s1(1) True unfolding xs sc R1 s1(2) by auto
  next
    case False
    have "payload_of x s \<noteq> ?h" if "x \<in> set (vs @ zs)" for x
      using frags_apart [OF A(10,12)] that by (auto simp: apart_def image_iff)
    then show ?thesis using run s1 False dg sc se by (intro exI [of _ None] exI [of _ s1]) (simp add: S0)
  qed
qed

section \<open>Holes\<close>

lemma gapless_sum:
  assumes "gapless s xs" "xs \<noteq> []" "\<forall>x\<in>set xs. fr_end s x - fr_start s x = len x"
  shows "(\<Sum>x\<leftarrow>xs. len x) = fr_end s (last xs) - fr_start s (hd xs)"
  using assms
proof (induction xs)
  case (Cons x xs)
  then show ?case by (cases xs) (auto simp: gapless_Cons)
qed simp

lemma ip_reass_hole_spec:
  assumes ar: "frag_arrives s p us i ws vs zs C" and tc: "taken_for_complete s i vs p zs"
    and mid: "vs \<noteq> []" "zs \<noteq> []" and hole: "fr_end s (last vs) < hdr_start s p"
    and len: "\<forall>x\<in>set (vs @ zs). fr_end s x - fr_start s x = tot (n_mem s) (C x) - 20" "hdr_end s p - hdr_start s p = tot (n_mem s) (C p) - 20"
    and fin: "new_len s i p = fr_end s (last zs)" "fr_end s (last zs) \<le> 65515"
  shows "\<exists>s'. ip_reass l p s = Some (Some (hd vs), s') \<and> packet (n_mem s') (Some (hd vs)) (pbufs_of C (vs @ p # zs)) \<and>
    take 4 (data (n_mem s') (pbufs_of C (vs @ p # zs))) =
      take 4 (whole_header (new_iphdr s i p) (fr_end s (last zs) + 20)) \<and>
    tot (n_mem s') (pbufs_of C (vs @ p # zs)) < fr_end s (last zs) + 20"
proof -
  let ?m = "n_mem s" and ?cs = "pbufs_of C (vs @ p # zs)"
  have nh: "fr_start s (hd vs) = 0" "gapless s vs" "hdr_end s p = fr_start s (hd zs)" "gapless s zs"
    using tc mid by (simp_all add: taken_for_complete_def no_hole_seen_def)
  have "(\<Sum>x\<leftarrow>vs. tot ?m (C x) - 20) = fr_end s (last vs)"
    using gapless_sum [OF nh(2) mid(1), of "\<lambda>x. tot ?m (C x) - 20"] len(1) nh(1) by simp
  moreover have "(\<Sum>x\<leftarrow>zs. tot ?m (C x) - 20) = fr_end s (last zs) - hdr_end s p"
    using gapless_sum [OF nh(4) mid(2), of "\<lambda>x. tot ?m (C x) - 20"] len(1) nh(3) by simp
  ultimately have sz: "frag_size ?m C (vs @ p # zs) < fr_end s (last zs)"
    using hole len(2) by (simp add: frag_size_def)
  have "0 \<le> frag_size ?m C (vs @ p # zs)" by (rule frag_size_nonneg [OF frag_arrives_chain [OF ar]])
  then have nn: "c_u16 (new_len s i p + 20) = fr_end s (last zs) + 20" using sz fin by (simp add: c_u16_id)
  obtain s' where s': "ip_reass l p s = Some (Some (hd vs), s')" "packet (n_mem s') (Some (hd vs)) ?cs"
    "data (n_mem s') ?cs = whole_header (new_iphdr s i p) (fr_end s (last zs) + 20) @ frag_data ?m C (vs @ p # zs)"
    using ip_reass_fragment_spec [OF ar, of l] tc mid(1) nn by (auto simp: hd_append)
  have "length (ir_iphdr (reass s i)) = 20" using ar by (simp add: frag_arrives_def)
  then have l20: "length (whole_header (new_iphdr s i p) n) = 20" for n
    by (simp add: whole_header_def new_iphdr_def hdr_bytes_def IP_HLEN_def)
  have ld: "int (length (data ?m (C x))) = tot ?m (C x) \<and> 20 \<le> length (data ?m (C x))" if "x \<in> set (vs @ p # zs)" for x
  proof -
    have c: "frag_chain ?m x (C x)" using frag_arrives_chain [OF ar] that by blast
    then have "int (length (data ?m (C x))) = tot ?m (C x)" using length_data [of ?m "C x"] by (simp add: frag_chain_def packet_def)
    moreover have "0 \<le> tot ?m (C x) - 20" using frag_size_nonneg [of "[x]" ?m C] c by simp
    ultimately show ?thesis by linarith
  qed
  have fl: "int (length (frag_data ?m C xs)) = frag_size ?m C xs" if "set xs \<subseteq> set (vs @ p # zs)" for xs
    using that
  proof (induction xs)
    case (Cons x xs)
    then show ?case using ld [of x] by (auto simp: of_nat_diff)
  qed simp
  have "int (length (data (n_mem s') ?cs)) = tot (n_mem s') ?cs" using length_data [of "n_mem s'" ?cs] s'(2) by (simp add: packet_def)
  then have "tot (n_mem s') ?cs = 20 + frag_size ?m C (vs @ p # zs)" using fl [of "vs @ p # zs"] l20 unfolding s'(3) by simp
  then show ?thesis using s' sz l20 by (intro exI [of _ s']) simp
qed

section \<open>Making room\<close>

lemma oldest_scan_skip:
  assumes "linked (\<lambda>j. ir_next (reass s j)) q (us @ [o1, d])" "\<forall>j\<in>set us. \<not> IP_ADDRESSES_AND_ID_MATCH (ir_iphdr (reass s j)) h"
    "\<not> IP_ADDRESSES_AND_ID_MATCH (ir_iphdr (reass s o1)) h" "IP_ADDRESSES_AND_ID_MATCH (ir_iphdr (reass s d)) h"
    "\<forall>j\<in>set us. ir_timer (reass s o1) \<le> ir_timer (reass s j)"
    "case best of None \<Rightarrow> True | Some b \<Rightarrow> ir_timer (reass s o1) \<le> ir_timer (reass s b)"
  shows "oldest_scan h q best prev n s = Some (Some o1, Some o1, n + int (length us) + 1)"
  using assms
proof (induction us arbitrary: q best prev n)
  case Nil
  then show ?case by (simp add: oldest_scan.simps [of _ "Some o1"] oldest_scan.simps [of _ "Some d"] oldest_scan.simps [of _ None] split: option.splits)
next
  case (Cons u us)
  have u: "q = Some u" "linked (\<lambda>j. ir_next (reass s j)) (ir_next (reass s u)) (us @ [o1, d])" using Cons.prems(1) by simp_all
  have nx: "ir_next (reass s u) \<noteq> None" using u(2) by (cases us) auto
  let ?best = "case best of None \<Rightarrow> Some u | Some j \<Rightarrow> if ir_timer (reass s u) \<le> ir_timer (reass s j) then Some u else best"
  have "oldest_scan h q best prev n s = oldest_scan h (ir_next (reass s u)) ?best (Some u) (n + 1) s"
    using u(1) Cons.prems(2) nx by (simp add: oldest_scan.simps [of _ "Some u"] Let_def)
  also have "\<dots> = Some (Some o1, Some o1, n + 1 + int (length us) + 1)"
    by (rule Cons.IH [OF u(2)]) (use Cons.prems in \<open>auto split: option.splits\<close>)
  finally show ?case by simp
qed

lemma oldest_prev_spec:
  assumes "datagrams s (us @ [o1, d])" "us \<noteq> []" "\<forall>j\<in>set us. \<not> IP_ADDRESSES_AND_ID_MATCH (ir_iphdr (reass s j)) h"
    "\<not> IP_ADDRESSES_AND_ID_MATCH (ir_iphdr (reass s o1)) h" "IP_ADDRESSES_AND_ID_MATCH (ir_iphdr (reass s d)) h"
    "\<forall>j\<in>set us. ir_timer (reass s o1) \<le> ir_timer (reass s j)"
  shows "oldest_scan h (reassdatagrams (n_dev s)) None None 0 s = Some (Some o1, Some o1, int (length us) + 1)"
    "\<exists>s'. ip_reass_dequeue_datagram o1 (Some o1) s = Some s' \<and> memp_tab (p_pools (n_mem s')) MEMP_REASSDATA = Some o1 \<and>
      reassdatagrams (n_dev s') = reassdatagrams (n_dev s) \<and> ir_next (reass s' (last us)) = Some o1 \<and>
      ir_next (reass s' o1) = memp_tab (p_pools (n_mem s)) MEMP_REASSDATA"
proof -
  note l = assms(1) [unfolded datagrams_def]
  show "oldest_scan h (reassdatagrams (n_dev s)) None None 0 s = Some (Some o1, Some o1, int (length us) + 1)"
    using oldest_scan_skip [OF l assms(3-6), of None None 0] by simp
  have hd: "reassdatagrams (n_dev s) \<noteq> Some o1" using l linked_distinct [OF l] assms(2) by (cases us) auto
  have lu: "last us \<noteq> o1" using linked_distinct [OF l] assms(2) by auto
  have "ir_next (reass s (last us)) = Some o1"
  proof -
    have "linked (\<lambda>j. ir_next (reass s j)) (reassdatagrams (n_dev s)) (butlast us @ last us # [o1, d])"
      using l assms(2) by (metis append_butlast_last_id append_Cons append_Nil append_assoc)
    from linked_behind [OF this] show ?thesis by simp
  qed
  then show "\<exists>s'. ip_reass_dequeue_datagram o1 (Some o1) s = Some s' \<and> memp_tab (p_pools (n_mem s')) MEMP_REASSDATA = Some o1 \<and>
      reassdatagrams (n_dev s') = reassdatagrams (n_dev s) \<and> ir_next (reass s' (last us)) = Some o1 \<and>
      ir_next (reass s' o1) = memp_tab (p_pools (n_mem s)) MEMP_REASSDATA"
    using hd lu by (simp add: ip_reass_dequeue_datagram_def free_reassdata_def Let_def memp_free_def)
qed

section \<open>Properties\<close>

text \<open>C13: a fragment that fits between the queued fragments of its datagram is queued at its place;
  if the last fragment is known and the code sees no hole, the datagram comes out instead: one packet
  of all the pbufs, a header with the new length, no offset and a fresh checksum, then the payloads of
  the fragments in order, and the datagram leaves the list.\<close>
theorem ip_reass_fragment:
  assumes "frag_arrives s p us i ws vs zs C"
  shows "\<exists>r s'. ip_reass l p s = Some (r, s') \<and>
    (if taken_for_complete s i vs p zs
     then r = Some (hd (vs @ [p])) \<and> packet (n_mem s') r (pbufs_of C (vs @ p # zs)) \<and>
       data (n_mem s') (pbufs_of C (vs @ p # zs)) =
         whole_header (new_iphdr s i p) (c_u16 (new_len s i p + 20)) @ frag_data (n_mem s) C (vs @ p # zs) \<and>
       datagrams s' (us @ ws)
     else r = None \<and> n_mem s' = n_mem s \<and> datagrams s' (us @ i # ws) \<and>
       frags s' (ir_p (reass s' i)) (vs @ p # zs) \<and>
       (\<forall>x\<in>set (vs @ zs). fr_start s' x = fr_start s x \<and> fr_end s' x = fr_end s x) \<and>
       fr_start s' p = hdr_start s p \<and> fr_end s' p = hdr_end s p)"
  by (rule ip_reass_fragment_spec [OF assms])

text \<open>C29: a fragment in the middle is not compared with the fragment before it: when the last fragment
  has come and only the bytes between these two are missing, the datagram is delivered although its
  header gives more bytes than there are.\<close>
theorem ip_reass_hole:
  assumes ar: "frag_arrives s p us i ws vs zs C" and tc: "taken_for_complete s i vs p zs"
    and mid: "vs \<noteq> []" "zs \<noteq> []" and hole: "fr_end s (last vs) < hdr_start s p"
    and len: "\<forall>x\<in>set (vs @ zs). fr_end s x - fr_start s x = tot (n_mem s) (C x) - 20" "hdr_end s p - hdr_start s p = tot (n_mem s) (C p) - 20"
    and fin: "new_len s i p = fr_end s (last zs)" "fr_end s (last zs) \<le> 65515"
  shows "\<exists>s'. ip_reass l p s = Some (Some (hd vs), s') \<and> packet (n_mem s') (Some (hd vs)) (pbufs_of C (vs @ p # zs)) \<and>
    take 4 (data (n_mem s') (pbufs_of C (vs @ p # zs))) =
      take 4 (whole_header (new_iphdr s i p) (fr_end s (last zs) + 20)) \<and>
    tot (n_mem s') (pbufs_of C (vs @ p # zs)) < fr_end s (last zs) + 20"
  by (rule ip_reass_hole_spec [OF assms])

text \<open>Making room when the last datagram of the list is the one the fragment belongs to: the scan
  picks the datagram before it as the oldest and gives that datagram itself as its predecessor, so it
  stays in the list when it is returned to the pool.\<close>
theorem ip_reass_oldest_stays:
  assumes "datagrams s (us @ [o1, d])" "us \<noteq> []" "\<forall>j\<in>set us. \<not> IP_ADDRESSES_AND_ID_MATCH (ir_iphdr (reass s j)) h"
    "\<not> IP_ADDRESSES_AND_ID_MATCH (ir_iphdr (reass s o1)) h" "IP_ADDRESSES_AND_ID_MATCH (ir_iphdr (reass s d)) h"
    "\<forall>j\<in>set us. ir_timer (reass s o1) \<le> ir_timer (reass s j)"
  shows "oldest_scan h (reassdatagrams (n_dev s)) None None 0 s = Some (Some o1, Some o1, int (length us) + 1) \<and>
    (\<exists>s'. ip_reass_dequeue_datagram o1 (Some o1) s = Some s' \<and> memp_tab (p_pools (n_mem s')) MEMP_REASSDATA = Some o1 \<and>
      reassdatagrams (n_dev s') = reassdatagrams (n_dev s) \<and> ir_next (reass s' (last us)) = Some o1 \<and>
      ir_next (reass s' o1) = memp_tab (p_pools (n_mem s)) MEMP_REASSDATA)"
  by (intro conjI oldest_prev_spec [OF assms])

section \<open>Witnesses\<close>

text \<open>Fragments of 8 bytes in the pool elements 0, 3 and 2; the one that arrives is in element 3.\<close>

definition demo_iphdr :: "u8_t \<Rightarrow> u8_t \<Rightarrow> u8_t list" where
  "demo_iphdr mf off = [0x45, 0, 0, 28, 0, 7, mf, off, 255, 17, 0, 0, 10, 0, 0, 2, 10, 0, 0, 9]"

definition demo_frag_mem :: "u8_t \<Rightarrow> u8_t \<Rightarrow> pstate" where
  "demo_frag_mem mf off = demo_state\<lparr>p_pbufs := (\<lambda>p. demo_pb None (fst p, 32) 28 28),
     p_bytes := (\<lambda>r a. if r = RPool 3 \<and> 32 \<le> a \<and> a < 52 then demo_iphdr mf off ! nat (a - 32) else 98)\<rparr>"

definition demo_ip_vars :: "bool \<Rightarrow> (unit, unit) ip_vars_scheme" where
  "demo_ip_vars h = \<lparr>ip_dev = (), ip_id = 0, netif_list = [demo_netif], netif_default = Some 0, current_netif = None,
     current_header = None, current_src = 0, current_dest = 0, reassdatagrams = Some 0, ip_reass_pbufcount = (if h then 2 else 1),
     reass_tab = (\<lambda>i. \<lparr>ir_next = None, ir_p = Some (RPool 0, 0), ir_iphdr = demo_iphdr 0x20 0,
       ir_datagram_len = (if h then 32 else 0), ir_flags = (if h then 1 else 0), ir_timer = 3\<rparr>),
     reass_helper = (\<lambda>a. if fst a = RPool 0 then \<lparr>rh_next_pbuf = (if h then Some (RPool 2, 0) else None), rh_start = 0, rh_end = 8\<rparr>
       else \<lparr>rh_next_pbuf = None, rh_start = 24, rh_end = 32\<rparr>), \<dots> = ()\<rparr>"

definition demo_frags :: "bool \<Rightarrow> (unit, unit) ip_net" where
  "demo_frags h = \<lparr>n_mem = demo_frag_mem (if h then 0x20 else 0) (if h then 2 else 1), n_arp = [], n_cached = 0, n_dev = demo_ip_vars h\<rparr>"

definition demo_ip_link :: "(unit, unit) ip_link" where
  "demo_ip_link = \<lparr>linkoutput = (\<lambda>p m d. Some (ERR_OK, d)), ip_input = (\<lambda>p netif s. Some s),
     dhcp_arp_reply = (\<lambda>netif a s. Some s), custom_free = (\<lambda>p m. None)\<rparr>"

lemmas demo_frags_simps = demo_frags_def demo_ip_vars_def demo_frag_mem_def demo_pb_def payload_of_def

lemma demo_frag_bytes:
  "IPH_HL (RPool 3, 32) (demo_frag_mem mf off) = 5" "get16 (RPool 3, 32) IPH_OFFSET (demo_frag_mem mf off) = u16_le mf off"
  "get16 (RPool 3, 32) IPH_LEN (demo_frag_mem mf off) = u16_le 0 28"
  "read_bytes (RPool 3, 32) IP_HLEN (demo_frag_mem mf off) = demo_iphdr mf off"
  by (simp_all add: IPH_HL_def get8_def get16_def load16_def iph_offsets IP_HLEN_def demo_frag_mem_def demo_iphdr_def read_bytes_def bytes_def upt_rec)

lemma demo_offsets: "frag_offset (u16_le 0x20 2) = 2" "frag_offset (u16_le 0 1) = 1" "frag_offset (u16_le 0x20 0) = 0"
  "uint (lwip_ntohs (u16_le 0 28)) = 28" "u16_le 0x20 2 AND lwip_ntohs IP_MF \<noteq> 0" "u16_le 0 1 AND lwip_ntohs IP_MF = 0"
  by (simp_all add: frag_offset_def IP_OFFMASK_def IP_MF_def lwip_ntohs_def lwip_htons_def u16_le_def)

abbreviation "demo_p \<equiv> (RPool 3, 0) :: ptr"
abbreviation "demo_behind h \<equiv> (if h then [(RPool 2, 0)] else []) :: ptr list"

lemma demo_pay: "payload_of p (demo_frags h) = (fst p, 32)"
  by (simp add: demo_frags_simps)

lemma demo_fields:
  "p_pbufs (n_mem (demo_frags h)) x = demo_pb None (fst x, 32) 28 28"
  "helper (demo_frags h) a = (if fst a = RPool 0 then \<lparr>rh_next_pbuf = (if h then Some (RPool 2, 0) else None), rh_start = 0, rh_end = 8\<rparr>
     else \<lparr>rh_next_pbuf = None, rh_start = 24, rh_end = 32\<rparr>)"
  "ir_p (reass (demo_frags h) i) = Some (RPool 0, 0)" "ir_iphdr (reass (demo_frags h) i) = demo_iphdr 0x20 0"
  "ir_datagram_len (reass (demo_frags h) i) = (if h then 32 else 0)" "ir_flags (reass (demo_frags h) i) = (if h then 1 else 0)"
  by (simp_all add: demo_frags_def demo_ip_vars_def demo_frag_mem_def)

lemma demo_mem: "n_mem (demo_frags h) = demo_frag_mem (if h then 0x20 else 0) (if h then 2 else 1)"
  by (simp add: demo_frags_def)

lemma demo_range:
  "hdr_start (demo_frags h) demo_p = (if h then 16 else 8)" "hdr_end (demo_frags h) demo_p = (if h then 24 else 16)"
  "fr_start (demo_frags h) (RPool 0, 0) = 0" "fr_end (demo_frags h) (RPool 0, 0) = 8"
  "fr_start (demo_frags h) (RPool 2, 0) = 24" "fr_end (demo_frags h) (RPool 2, 0) = 32"
  by (simp_all add: hdr_start_def hdr_end_def hdr_len_def demo_pay demo_mem demo_frag_bytes demo_offsets c_u16_def
    fr_start_def fr_end_def demo_fields)

lemma demo_frag_chain: "fst x = RPool k \<Longrightarrow> snd x = 0 \<Longrightarrow> frag_chain (demo_frag_mem mf off) x [x]"
  by (cases x) (simp add: frag_chain_def packet_def demo_frag_mem_def demo_pb_def IP_HLEN_def SIZEOF_STRUCT_PBUF_def)

lemma demo_addrs_apart: "i \<noteq> j \<Longrightarrow> set (span (RPool i, a) n) \<inter> set (span (RPool j, b) k) = {}"
  by (auto simp: span_mem)

lemma demo_match: "IP_ADDRESSES_AND_ID_MATCH (demo_iphdr a b) (demo_iphdr c d)"
  by (simp add: IP_ADDRESSES_AND_ID_MATCH_def demo_iphdr_def)

lemma demo_arrives: "frag_arrives (demo_frags h) demo_p [] 0 [] [(RPool 0, 0)] (demo_behind h) (\<lambda>x. [x])"
proof -
  let ?s = "demo_frags h" let ?m = "n_mem ?s"
  have v: "n_dev ?s = demo_ip_vars h" by (simp add: demo_frags_def)
  have "IPH_HL (payload_of demo_p ?s) ?m = 5" unfolding demo_mem demo_pay by (simp add: demo_frag_bytes)
  moreover have "datagrams ?s ([] @ 0 # [])" by (simp add: datagrams_def v demo_ip_vars_def)
  moreover have "IP_ADDRESSES_AND_ID_MATCH (ir_iphdr (reass ?s 0)) (hdr_bytes (payload_of demo_p ?s) ?s)"
    unfolding hdr_bytes_def demo_mem demo_pay fst_conv demo_frag_bytes demo_fields by (rule demo_match)
  moreover have "length (ir_iphdr (reass ?s 0)) = 20" by (simp add: demo_fields demo_iphdr_def)
  moreover have "frags ?s (ir_p (reass ?s 0)) ([(RPool 0, 0)] @ demo_behind h)"
    by (cases h) (simp_all add: demo_pay demo_fields)
  moreover have "fits_between ?s [(RPool 0, 0)] demo_p (demo_behind h)" by (simp add: fits_between_def demo_range)
  moreover have "\<forall>y\<in>set ([(RPool 0, 0)] @ demo_p # demo_behind h). frag_chain ?m y [y]"
    unfolding demo_mem by (cases h) (simp_all add: demo_frag_chain)
  moreover have "distinct (pbufs_of (\<lambda>x. [x]) ([(RPool 0, 0)] @ demo_p # demo_behind h))" by simp
  moreover have "distinct (addrs ?m (pbufs_of (\<lambda>x. [x]) ([(RPool 0, 0)] @ demo_p # demo_behind h)))"
    using demo_addrs_apart [of 0 3 32 28 32 28] demo_addrs_apart [of 0 2 32 28 32 28] demo_addrs_apart [of 3 2 32 28 32 28]
    by (cases h) (simp_all add: pb_addrs_def demo_fields demo_pb_def distinct_span Int_Un_distrib)
  moreover have "frag_size ?m (\<lambda>x. [x]) ([(RPool 0, 0)] @ demo_p # demo_behind h) \<le> 65515"
    by (cases h) (simp_all add: demo_fields demo_pb_def)
  moreover have "0 \<le> ip_reass_pbufcount (n_dev ?s)" "ip_reass_pbufcount (n_dev ?s) + int (length [demo_p]) \<le> IP_REASS_MAX_PBUFS"
    by (simp_all add: v demo_ip_vars_def IP_REASS_MAX_PBUFS_def)
  ultimately show ?thesis unfolding frag_arrives_def by (intro conjI) (assumption | simp)+
qed

lemma demo_taken: "taken_for_complete (demo_frags h) 0 [(RPool 0, 0)] demo_p (demo_behind h)"
proof -
  have "new_flags (demo_frags h) 0 demo_p = 1"
    by (cases h) (simp_all add: new_flags_def frag_last_def demo_pay demo_mem demo_fields demo_frag_bytes demo_offsets IP_REASS_FLAG_LASTFRAG_def)
  then show ?thesis by (cases h) (simp_all add: taken_for_complete_def no_hole_seen_def demo_range IP_REASS_FLAG_LASTFRAG_def)
qed

lemma demo_new: "new_len (demo_frags h) 0 demo_p = (if h then 32 else 16)" "new_iphdr (demo_frags h) 0 demo_p = demo_iphdr 0x20 0"
  by (cases h; simp add: new_len_def new_iphdr_def frag_last_def frag_first_def demo_range demo_pay demo_mem demo_fields demo_frag_bytes demo_offsets)+

lemma demo_frag_data:
  "frag_data (n_mem (demo_frags False)) (\<lambda>x. [x]) [(RPool 0, 0), demo_p] = replicate 16 98"
proof -
  have "data (n_mem (demo_frags False)) [(RPool 0, 0)] = replicate 28 98"
    by (simp add: demo_frags_simps pb_data_def read_bytes_def bytes_def upt_rec numeral_eq_Suc)
  moreover have "drop 20 (data (n_mem (demo_frags False)) [demo_p]) = replicate 8 98"
    by (simp add: demo_frags_simps pb_data_def read_bytes_def bytes_def upt_rec numeral_eq_Suc)
  ultimately show ?thesis by (simp add: numeral_eq_Suc)
qed

lemma demo_whole:
  "whole_header (demo_iphdr 0x20 0) 36 = with_chksum [0x45, 0, 0, 36, 0, 7, 0, 0, 255, 17, 0, 0, 10, 0, 0, 2, 10, 0, 0, 9]"
proof -
  have "u16_bytes (lwip_htons (word_of_int 36)) = [0, 36]"
    by (simp add: u16_bytes_def lwip_htons_def byte_of_def word_eq_iff_unsigned)
  then show ?thesis by (simp add: whole_header_def splice_def demo_iphdr_def)
qed

theorem ip_reass_fragment_witness:
  "\<exists>s'. ip_reass demo_ip_link demo_p (demo_frags False) = Some (Some (RPool 0, 0), s') \<and>
     data (n_mem s') [(RPool 0, 0), demo_p] =
       with_chksum [0x45, 0, 0, 36, 0, 7, 0, 0, 255, 17, 0, 0, 10, 0, 0, 2, 10, 0, 0, 9] @ replicate 16 98"
  using ip_reass_fragment [OF demo_arrives [of False], of demo_ip_link] demo_taken [of False]
  by (auto simp: demo_new demo_frag_data c_u16_def demo_whole simp del: data_simps frag_data_simps)

theorem ip_reass_hole_witness:
  "\<exists>s'. ip_reass demo_ip_link demo_p (demo_frags True) = Some (Some (RPool 0, 0), s') \<and>
     tot (n_mem s') [(RPool 0, 0), demo_p, (RPool 2, 0)] < 52"
proof -
  have "tot (n_mem (demo_frags True)) [x] - 20 = 8" for x by (simp add: demo_fields demo_pb_def)
  then show ?thesis
    using ip_reass_hole [OF demo_arrives [of True] demo_taken [of True], of demo_ip_link]
    by (auto simp: demo_new demo_range simp del: tot.simps)
qed

definition demo_three :: "(unit, unit) ip_net" where
  "demo_three = upd_ip (\<lambda>v. v\<lparr>reassdatagrams := Some 2, reass_tab := (\<lambda>i. (reass_tab v i)\<lparr>ir_next := if i = 0 then None else Some (i - 1),
     ir_iphdr := (if i = 0 then demo_iphdr 0x20 0 else replicate 20 0), ir_timer := int i\<rparr>)\<rparr>) (demo_frags False)"

theorem ip_reass_oldest_stays_witness:
  "oldest_scan (demo_iphdr 0 1) (Some 2) None None 0 demo_three = Some (Some 1, Some 1, 2)"
  using ip_reass_oldest_stays [of demo_three "[2]" 1 0 "demo_iphdr 0 1"]
  by (simp add: demo_three_def demo_frags_def demo_ip_vars_def upd_ip_def datagrams_def IP_ADDRESSES_AND_ID_MATCH_def demo_iphdr_def)

end
