(* ===== verification/Spec2Isabelle.thy ===== *)
theory Spec2Isabelle
  imports MainProps TcpData TcpTimers ArpReach UdpReach HeapClient TimerLoop PacketFrame IpProps IcmpProps UdpProps PcbLists HeaderProps IpReassProps IpOut Icmp IpReass IpIn Raw Udp Ethernetif EthernetifProps MemHeap MemPool Timers ByteOrder Ip4Addr Chksum Pbuf PbufChain PbufOps PbufProps Etharp EtharpProps EtharpFrames
begin

text \<open>
  A model of lwIP 1.4.1 as it runs in this repository: on one microcontroller STM32F107 with its Ethernet
  interface, without an operating system, in the configuration of \<open>src/USER/lwipopts.h\<close>.

  \<^bold>\<open>The program.\<close>  \<open>main\<close> (\<open>src/USER/main.c\<close>) sets the clocks and the controller up, calls \<open>LWIP_Init\<close> and then
  \<open>lwip_periodic_handle\<close> (\<open>src/USER/test.c\<close>) for ever, which runs the timers of TCP, ARP and DHCP.  A frame that arrives
  raises an interrupt (\<open>src/USER/stm32f10x_it.c\<close>) whose handler reads it from the ring of receive descriptors into a
  packet buffer and passes it up: Ethernet, ARP or IPv4, there ICMP, UDP, TCP or a raw socket, and so to the callbacks of
  the application.  What the application and the protocols send goes down the same way: TCP or UDP header, IP header,
  the hardware address that ARP finds, the ring of transmit descriptors.  All parts take memory from the heap of
  \<open>mem.c\<close>, the pools of \<open>memp.c\<close> and the packet buffers of \<open>pbuf.c\<close>.

  \<^bold>\<open>The state.\<close>  \<open>pstate\<close> (Pbuf) is the memory: heap, pools, the structures of the packet buffers by their address and the
  payload bytes by region and offset.  \<open>net\<close> (Etharp) adds the ARP table and a device component; the layers above ARP
  keep their variables in that component, as records that extend each other in the order \<open>ip_vars\<close> (IpOut), \<open>raw_vars\<close>
  (Raw), \<open>udp_vars\<close> (Udp), \<open>tcp_vars\<close> (Tcp), \<open>lwip_vars\<close> (Netif: the names and DHCP clients of the interfaces), \<open>main_vars\<close>
  (LwipMain: the clock and the periods of the main loop), with the state of the driver, \<open>eth_dev\<close> (Ethernetif), at the bottom.  A
  control block, a segment or a datagram under reassembly is named by its number in its pool.  An operation takes the
  state and returns it; the result is an option where a loop may not end or a null pointer may be read, and then \<open>None\<close>
  stands for that.  Integers whose width matters are words, or integers with the conversions of C written out
  (\<open>c_u8\<close>, \<open>c_u16\<close>, \<open>c_s16\<close>).  A call of a layer above or of a callback of the application is a field of a record that is an
  argument (\<open>link_if\<close>, \<open>ip_upper\<close>, \<open>raw_app\<close>, \<open>udp_app\<close>, \<open>tcp_app\<close>), as is the release function of custom packet buffers.

  \<^bold>\<open>Theories and sources\<close> (under \<open>src/lwip-1.4.1/src\<close> if nothing else is said).
  \<^item> Prelude: types, error codes and conversions (\<open>arch/cc.h\<close>, \<open>lwip/err.h\<close>), computations that may not return.
  \<^item> MemHeap: \<open>core/mem.c\<close>; HeapClient: what a client of the heap holds.  MemPool: \<open>core/memp.c\<close>.  Timers: \<open>core/timers.c\<close>;
    TimerLoop: the check for expired timers as an event loop.
  \<^item> ByteOrder: \<open>core/def.c\<close>.  Ip4Addr: \<open>core/ipv4/ip_addr.c\<close>.  Chksum: \<open>core/ipv4/inet_chksum.c\<close>.
  \<^item> Pbuf: \<open>core/pbuf.c\<close>; PbufChain, PbufOps and PbufProps: what its operations do to chains and their contents.
  \<^item> Etharp: \<open>netif/etharp.c\<close>; EtharpProps: the table; EtharpFrames: the packets it sends; ArpReach: the table
    in every reachable state, with the DHCP client of the program.
  \<^item> Ethernetif: \<open>netif/ethernetif.c\<close> with the functions of \<open>src/STM32F107_ETH/src/stm32_eth.c\<close> it uses and the receive
    interrupt; EthernetifProps: the rings.
  \<^item> IpOut, IpIn, IpReass: \<open>core/ipv4/ip.c\<close> and \<open>core/ipv4/ip_frag.c\<close>; IpReassProps: reassembly; HeaderProps: headers in front of a
    packet; IpProps: the way of a datagram down to the transmit ring and up to its control block; PacketFrame: what sending
    leaves alone.
  \<^item> Icmp, IcmpProps: \<open>core/ipv4/icmp.c\<close>.  Raw: \<open>core/raw.c\<close>.  Udp, UdpProps: \<open>core/udp.c\<close>; UdpReach: its control blocks in every reachable
    state.
  \<^item> Tcp, TcpPcb: \<open>core/tcp.c\<close>; TcpOut: \<open>core/tcp_out.c\<close>; TcpIn: \<open>core/tcp_in.c\<close>.  TcpSeq: sequence numbers, round-trip time,
    options; TcpData: segments that are trimmed and taken; TcpLists: the lists of control blocks, ports and binding; TcpTimers:
    the timers; TcpDemo: a state for witnesses.
  \<^item> Netif: \<open>core/netif.c\<close>; NetifProps: addresses and flags of an interface.
  \<^item> Dhcp: \<open>core/dhcp.c\<close>.  DhcpFrames: the messages as bytes and as frames in the ring; DhcpProps: offers, the lease, release and the
    coarse timer; DhcpParse: the options of a reply; DhcpDemo: a state for witnesses.
  \<^item> LwipMain: \<open>src/USER/test.c\<close>, \<open>src/USER/stm32f10x_it.c\<close>, \<open>core/init.c\<close> and \<open>ethernetif_init\<close>: the layers put together, the
    initialisation, the periodic handler and the interrupts; MainProps: the state and the frames after the initialisation.
  \<^item> PcbLists and PortSearch: singly linked lists and the search for a local port, stated once for raw, UDP and TCP.

  \<^bold>\<open>Interfaces.\<close>  The locales state what one part relies on in another, and each is interpreted on the models: \<open>region_allocator\<close>
  (the heap as its clients see it), \<open>object_pool\<close> (each pool), \<open>link_driver\<close> (a driver that takes a packet as long as its ring
  has room; interpreted on the driver alone and on the driver below the IP state), \<open>link_list\<close>, \<open>unlink_loop\<close> and \<open>unlink_first\<close>
  (lists linked through their elements: raw, UDP, bound, active, waiting and listening TCP control blocks), \<open>port_search\<close>
  (UDP and TCP), and \<open>net_frame\<close> with its extensions \<open>arp_frame\<close> and \<open>send_frame\<close> (what holds across a send through ARP and IP;
  interpreted on the invariant of the ARP table and on the control blocks of UDP).

  \<^bold>\<open>What is shown.\<close>  The heap is refined to a list of blocks with first fit, and keeps the regions that its clients hold apart;
  pools hand out no element twice; the timeout list is a list of absolute times, and the check for expired timers an event
  loop over it, whatever the handlers start and stop.  The checksum routines agree with the sum of
  RFC 1071.  Operations on packet buffers are functions of the bytes of a packet, however it is cut.  The ARP table and the
  control blocks of UDP keep their invariants in every reachable state, and the requests, answers and ages of ARP are those of RFC 826 and of the code's
  comments.  The transmit ring is a queue of frames, and complete sends (UDP, ICMP echo, ARP) are shown down to the bytes
  in it; input is shown up to the bytes that the application gets.  Reassembly joins fragments, and two faults of it are
  proved, as are other places where the code does not do what it means to (the findings of the manifest).  For TCP:
  acceptance of sequence numbers modulo \<open>2 ^ 32\<close>, options, round-trip estimation, binding, data that is taken exactly once and
  in order, the end of \<open>TIME_WAIT\<close>, and two faults of the walks of the timers.  For DHCP: the frames of DISCOVER, REQUEST and
  RELEASE, the configuration of the interface and the timers of the lease, the parser of the options, and four faults (a
  reply that is parsed for ever, renewals that are not read, a release that goes to nobody, timers that wrap).  The layers meet
  in \<open>LWIP_Init_starts\<close>: from power-up to the first two frames in the transmit ring.

  \<^bold>\<open>Loops.\<close>  No loop has fuel: it is a structural recursion, a \<open>function\<close> with its measure, or a \<open>partial_function\<close> whose result
  is shown to exist by the property that speaks of it (lists that end, chains without cycles).  The free function of fragments,
  \<open>ipfrag_free_pbuf_custom\<close>, and \<open>pbuf_free\<close> call each other; it takes as argument how deep packets refer to packets, and what is
  shown with it holds for every depth.

  \<^bold>\<open>Not modelled.\<close>  DNS, IGMP, AutoIP, SNMP, PPP, SLIP, IPv6 and the sequential and socket interfaces are not compiled into
  the program or not called by it.  The vendor libraries (\<open>src/STM32F10x_FWLib\<close>, \<open>src/CORE\<close>, most of \<open>src/STM32F107_ETH\<close>) and
  \<open>src/USER/main.c\<close> write registers.  The hardware computes the checksums in this configuration.  The handler of the receive
  interrupt runs in the middle of whatever the main loop does; the models are of complete calls (\<open>main_step\<close> of LwipMain), and
  this interleaving is a finding of the manifest, not a part of the model.
\<close>

end
